(* ===== verification/Slop_Prelude.thy ===== *)
theory Slop_Prelude
  imports Main "HOL-Library.Word"
begin

unbundle bit_operations_syntax

text \<open>
  Shared vocabulary of the development: the machine types of the C++ sources, the library-wide
  error enum of \<^verbatim>\<open>core/result.hpp\<close>, byte buffers (a \<^verbatim>\<open>std::span<std::byte>\<close> is a byte
  list of fixed length), and the generic list and word lemmas that the component theories use.
  \<^item> \<open>poke off bs buf\<close> is \<^verbatim>\<open>memcpy(buf.data() + off, bs.data(), bs.size())\<close>; every call in
    the model is guarded by the bounds test the source makes.
  \<^item> A \<^verbatim>\<open>Result<T, DecodeError>\<close> is \<open>DecodeError + 'a\<close>, \<open>Inl\<close> being the error.
\<close>

section \<open>Machine types\<close>

type_synonym byte = "8 word"
type_synonym u8 = "8 word"
type_synonym u16 = "16 word"
type_synonym u32 = "32 word"
type_synonym u64 = "64 word"

type_synonym bytes = "byte list"

named_theorems codec_defs \<open>definitions of the raw wire codecs\<close>
named_theorems poke_simps \<open>buffers after a write\<close>

section \<open>Result\<close>

text \<open>The enum \<^verbatim>\<open>DecodeError\<close> of \<^verbatim>\<open>core/result.hpp\<close>, constructors in source order.\<close>

datatype DecodeError =
    Truncated
  | Malformed
  | ProfileViolation
  | DepthExceeded
  | BadCrc
  | UnknownVersion
  | CapacityExceeded

type_synonym 'a result = "DecodeError + 'a"

text \<open>\<^verbatim>\<open>isOk\<close> and \<^verbatim>\<open>valueOr\<close> of the \<^verbatim>\<open>Result\<close> class.\<close>

definition isOk :: "'a result \<Rightarrow> bool" where
  "isOk r = (case r of Inl _ \<Rightarrow> False | Inr _ \<Rightarrow> True)"

definition valueOr :: "'a result \<Rightarrow> 'a \<Rightarrow> 'a" where
  "valueOr r d = (case r of Inl _ \<Rightarrow> d | Inr v \<Rightarrow> v)"

lemma isOk_simps [simp]: "isOk (Inr v)" "\<not> isOk (Inl e)"
  by (simp_all add: isOk_def)

section \<open>Buffers\<close>

definition poke :: "nat \<Rightarrow> 'a list \<Rightarrow> 'a list \<Rightarrow> 'a list" where
  "poke off bs buf = take off buf @ bs @ drop (off + length bs) buf"

lemma length_poke [simp, poke_simps]:
  "off + length bs \<le> length buf \<Longrightarrow> length (poke off bs buf) = length buf"
  by (simp add: poke_def)

lemma poke_Nil [simp]: "poke off [] buf = buf"
  by (simp add: poke_def)

lemma nth_poke:
  assumes "off + length bs \<le> length buf" and "i < length buf"
  shows "poke off bs buf ! i = (if off \<le> i \<and> i < off + length bs then bs ! (i - off) else buf ! i)"
  using assms by (auto simp: poke_def nth_append min_def)

lemma take_poke_whole [simp, poke_simps]:
  "take (length bs) (poke 0 bs buf) = bs"
  by (simp add: poke_def)

lemma take_drop_poke:
  assumes "off + length bs \<le> length buf"
  shows "take (length bs) (drop off (poke off bs buf)) = bs"
  using assms by (simp add: poke_def)

text \<open>A write that ends before a region, or starts after it, leaves the region alone.\<close>

lemma take_drop_poke_other:
  assumes "off + length bs \<le> length buf"
    and "i + n \<le> off \<or> off + length bs \<le> i"
  shows "take n (drop i (poke off bs buf)) = take n (drop i buf)"
  using assms by (intro nth_equalityI) (auto simp: nth_poke)

text \<open>Writing the next field right behind an already written prefix extends the prefix.\<close>

lemma poke_extend:
  assumes "take n buf = pre" and "length pre = n" and "n + length bs \<le> length buf"
  shows "take (n + length bs) (poke n bs buf) = pre @ bs"
  using assms by (simp add: poke_def)

lemma poke_append_prefix:
  "length xs = n \<Longrightarrow> poke n bs (xs @ ys) = xs @ poke 0 bs ys"
  by (simp add: poke_def)

lemma poke_prefix: "poke 0 bs buf = bs @ drop (length bs) buf"
  by (simp add: poke_def)

lemma poke_append:
  "length xs = n \<Longrightarrow> poke n bs (xs @ ys) = xs @ bs @ drop (length bs) ys"
  by (simp add: poke_def)

lemma poke_poke_next:
  assumes "off + length bs = off'" and "off \<le> length buf"
  shows "poke off' cs (poke off bs buf) = poke off (bs @ cs) buf"
proof -
  have "length (take off buf @ bs) = off'" using assms by simp
  from poke_append [OF this, of cs "drop off' buf"] have
    "poke off' cs ((take off buf @ bs) @ drop off' buf) = take off buf @ bs @ cs @ drop (off' + length cs) buf"
    by (simp add: add.commute)
  moreover have "poke off bs buf = (take off buf @ bs) @ drop off' buf"
    using assms(1) by (simp add: poke_def)
  ultimately show ?thesis using assms(1) by (simp add: poke_def [of off "bs @ cs"] add.assoc [symmetric])
qed

lemma list_update_poke: "i < length buf \<Longrightarrow> buf[i := b] = poke i [b] buf"
  by (simp add: poke_def upd_conv_take_nth_drop)

section \<open>Lists\<close>

lemma take_drop_append_exact:
  "length xs = n \<Longrightarrow> take n (xs @ ys) = xs" "length xs = n \<Longrightarrow> drop n (xs @ ys) = ys"
  by simp_all

lemma list_of_length_Suc: "length xs = Suc n \<longleftrightarrow> (\<exists>y ys. xs = y # ys \<and> length ys = n)"
  by (cases xs) auto

lemmas list_lengths = list_of_length_Suc numeral_eq_Suc

lemma drop_eq_nth_Cons: "i < length xs \<Longrightarrow> drop i xs = xs ! i # drop (Suc i) xs"
  by (simp add: Cons_nth_drop_Suc)

lemma nth_tl_drop: "drop i xs = y # ys \<Longrightarrow> i < length xs \<and> xs ! i = y \<and> drop (Suc i) xs = ys"
  by (metis Cons_nth_drop_Suc drop_eq_Nil list.distinct(1) list.inject not_le)

text \<open>First index of a list that satisfies a predicate: the \<open>for (auto& e : _slots)\<close> search.\<close>

fun find_index :: "('a \<Rightarrow> bool) \<Rightarrow> 'a list \<Rightarrow> nat option" where
  "find_index P [] = None"
| "find_index P (x # xs) = (if P x then Some 0 else map_option Suc (find_index P xs))"

lemma find_index_None: "find_index P xs = None \<longleftrightarrow> (\<forall>x \<in> set xs. \<not> P x)"
  by (induction xs) auto

lemma find_index_Some:
  "find_index P xs = Some i \<Longrightarrow> i < length xs \<and> P (xs ! i) \<and> (\<forall>j < i. \<not> P (xs ! j))"
proof (induction xs arbitrary: i)
  case Nil
  then show ?case by simp
next
  case (Cons x xs)
  then show ?case
    by (cases i) (auto split: if_splits simp: nth_Cons split: nat.splits)
qed

lemma find_index_SomeI:
  "i < length xs \<Longrightarrow> P (xs ! i) \<Longrightarrow> \<exists>j \<le> i. find_index P xs = Some j"
proof (induction xs arbitrary: i)
  case Nil
  then show ?case by simp
next
  case (Cons x xs)
  then show ?case
    by (cases i) fastforce+
qed

lemma find_index_unique:
  assumes "i < length xs" and "P (xs ! i)" and "\<And>j. j < length xs \<Longrightarrow> P (xs ! j) \<Longrightarrow> j = i"
  shows "find_index P xs = Some i"
proof -
  obtain j where j: "find_index P xs = Some j" using find_index_SomeI [of i xs P] assms(1,2) by blast
  then show ?thesis using find_index_Some [OF j] assms(3) by blast
qed

lemma find_index_less: "find_index P xs = Some i \<Longrightarrow> i < length xs"
  using find_index_Some by blast

section \<open>Words\<close>

text \<open>Unsigned narrowing (a C++ cast to a smaller unsigned type) of a value that fits is exact.\<close>

lemma ucast_ucast_up_down [simp]:
  "ucast (ucast (v::u8) :: u64) = v" "ucast (ucast (w::u16) :: u64) = w"
  "ucast (ucast (x::u32) :: u64) = x"
  by (rule bit_word_eqI, simp add: bit_simps)+

lemma unat_u8_less [simp]: "unat (v::u8) < 256"
  using unsigned_less [of v] by simp

lemma unat_u16_less [simp]: "unat (v::u16) < 65536"
  using unsigned_less [of v] by simp

lemma unat_u32_less [simp]: "unat (v::u32) < 4294967296"
  using unsigned_less [of v] by simp

lemma unat_u64_less [simp]: "unat (v::u64) < 18446744073709551616"
  using unsigned_less [of v] by simp

lemma unat_ucast_up [simp]:
  "unat (ucast (v::u8) :: u64) = unat v" "unat (ucast (w::u16) :: u64) = unat w"
  "unat (ucast (x::u32) :: u64) = unat x" "unat (ucast (v::u8) :: u16) = unat v"
  "unat (ucast (v::u8) :: u32) = unat v" "unat (ucast (w::u16) :: u32) = unat w"
  by (simp_all add: unsigned_ucast_eq take_bit_nat_eq_self_iff
      order_less_le_trans [OF unat_u8_less] order_less_le_trans [OF unat_u16_less]
      order_less_le_trans [OF unat_u32_less])

lemma ucast_u32_of_nat: "n < 2 ^ 32 \<Longrightarrow> (ucast (word_of_nat n :: u32) :: u64) = word_of_nat n"
  by (simp add: word_unat_eq_iff unat_of_nat)

lemma bit_byte_less: "bit (b :: byte) n \<Longrightarrow> n < 8"
  using bit_imp_le_length [of b n] by simp

lemma bit_u32_less: "bit (w :: u32) n \<Longrightarrow> n < 32"
  using bit_imp_le_length [of w n] by simp

lemma xor_word_cancel [simp]:
  fixes a b c :: "'a::len word"
  shows "a XOR c = b XOR c \<longleftrightarrow> a = b" and "c XOR a = c XOR b \<longleftrightarrow> a = b"
proof -
  show r: "a XOR c = b XOR c \<longleftrightarrow> a = b"
    by (metis xor.assoc xor.right_neutral xor_self_eq)
  then show "c XOR a = c XOR b \<longleftrightarrow> a = b" by (simp add: xor.commute)
qed

text \<open>Byte splitting: a number is recovered from its base 256 digits.\<close>

definition be_value :: "bytes \<Rightarrow> nat" where
  "be_value bs = foldl (\<lambda>a b. a * 256 + unat b) 0 bs"

fun be_bytes :: "nat \<Rightarrow> nat \<Rightarrow> bytes" where
  "be_bytes 0 v = []"
| "be_bytes (Suc n) v = word_of_nat (v div 256 ^ n) # be_bytes n v"

lemma length_be_bytes [simp]: "length (be_bytes n v) = n"
  by (induction n) auto

lemma foldl_be_shift:
  "foldl (\<lambda>a b. a * 256 + unat b) s (bs :: bytes) = s * 256 ^ length bs + be_value bs"
proof (induction bs arbitrary: s)
  case Nil
  then show ?case by (simp add: be_value_def)
next
  case (Cons b bs)
  have "be_value (b # bs) = foldl (\<lambda>a b. a * 256 + unat b) (unat b) bs"
    by (simp add: be_value_def)
  also have "\<dots> = unat b * 256 ^ length bs + be_value bs"
    by (rule Cons.IH)
  finally have "be_value (b # bs) = unat b * 256 ^ length bs + be_value bs" .
  moreover have "foldl (\<lambda>a b. a * 256 + unat b) s (b # bs) =
      (s * 256 + unat b) * 256 ^ length bs + be_value bs"
    unfolding foldl_Cons by (rule Cons.IH)
  ultimately show ?case by (simp add: algebra_simps)
qed

lemma be_value_Nil [simp]: "be_value [] = 0"
  by (simp add: be_value_def)

lemma be_value_Cons: "be_value (b # bs) = unat b * 256 ^ length bs + be_value bs"
  using foldl_be_shift [of "unat b" bs] by (simp add: be_value_def)

lemma be_value_be_bytes: "be_value (be_bytes n v) = v mod 256 ^ n"
proof (induction n)
  case 0
  then show ?case by simp
next
  case (Suc n)
  have "unat (word_of_nat (v div 256 ^ n) :: byte) = v div 256 ^ n mod 256"
    by (simp add: unat_of_nat)
  then show ?case
    using mod_mult2_eq [of v "256 ^ n" 256] Suc
    by (simp add: be_value_Cons algebra_simps)
qed

lemma be_value_less: "be_value bs < 256 ^ length bs"
proof (induction bs)
  case Nil
  then show ?case by simp
next
  case (Cons b bs)
  have "unat b * 256 ^ length bs + be_value bs < unat b * 256 ^ length bs + 256 ^ length bs"
    using Cons by simp
  also have "\<dots> = Suc (unat b) * 256 ^ length bs" by simp
  also have "\<dots> \<le> 256 * 256 ^ length bs"
    using unat_u8_less [of b] by (intro mult_right_mono) linarith+
  finally show ?case by (simp add: be_value_Cons)
qed

lemma be_bytes_be_value: "be_bytes (length bs) (be_value bs) = bs"
proof (induction bs)
  case Nil
  then show ?case by simp
next
  case (Cons b bs)
  have less: "be_value bs < 256 ^ length bs" by (rule be_value_less)
  then have hd: "(unat b * 256 ^ length bs + be_value bs) div 256 ^ length bs = unat b"
    by simp
  have shift: "be_bytes n (c * 256 ^ m + v) = be_bytes n v" if "n \<le> m" for n m c v
    using that
  proof (induction n)
    case 0
    then show ?case by simp
  next
    case (Suc n)
    obtain k where k: "m = Suc n + k" using Suc.prems le_iff_add by blast
    have "c * 256 ^ m + v = (c * 256 ^ k * 256) * 256 ^ n + v"
      by (simp add: k power_add algebra_simps)
    then have "(c * 256 ^ m + v) div 256 ^ n = c * 256 ^ k * 256 + v div 256 ^ n"
      by (simp only:) (rule div_mult_self3 [THEN trans], simp_all)
    then have "(word_of_nat ((c * 256 ^ m + v) div 256 ^ n) :: byte) = word_of_nat (v div 256 ^ n)"
      by (simp only: word_of_nat_eq_iff take_bit_eq_mod) simp
    with Suc show ?case by simp
  qed
  show ?case
    using Cons shift [of "length bs" "length bs" "unat b" "be_value bs"]
    by (simp add: be_value_Cons hd)
qed

end
