(* ===== verification/Serial_Arith.thy ===== *)
theory Serial_Arith
  imports Slop_Prelude
begin

text \<open>
  Serial-number arithmetic and clocks: \<^verbatim>\<open>util/serial_arithmetic.hpp\<close> (\<open>seqIsNewer\<close>, \<open>timeDelta\<close>,
  \<open>timeReached\<close>, the class \<open>MonotonicMs\<close>) and \<^verbatim>\<open>core/clock.hpp\<close>.  The 16- and 32-bit counters of
  the sources are words, so every wrap-around is the machine's.
\<close>

section \<open>Definitions\<close>

definition seqIsNewer :: "u16 \<Rightarrow> u16 \<Rightarrow> bool" where
  "seqIsNewer a b = (let d = a - b in d \<noteq> 0 \<and> d < 0x8000)"

definition timeDelta :: "u32 \<Rightarrow> u32 \<Rightarrow> int" where
  "timeDelta t reference = sint (t - reference)"

definition timeReached :: "u32 \<Rightarrow> u32 \<Rightarrow> bool" where
  "timeReached now deadline = (timeDelta now deadline \<ge> 0)"

text \<open>The class \<^verbatim>\<open>MonotonicMs\<close>; \<open>advance\<close> returns the new millisecond count with the new state.\<close>

record MonotonicMs =
  mono_lastUs :: u32
  mono_ms :: u32
  mono_rem :: u16
  mono_init :: bool

definition MonotonicMs_new :: MonotonicMs where
  "MonotonicMs_new = \<lparr> mono_lastUs = 0, mono_ms = 0, mono_rem = 0, mono_init = False \<rparr>"

definition advance :: "u32 \<Rightarrow> MonotonicMs \<Rightarrow> u32 \<times> MonotonicMs" where
  "advance nowUs s =
    (if \<not> mono_init s then
       (nowUs div 1000,
        \<lparr> mono_lastUs = nowUs, mono_ms = nowUs div 1000, mono_rem = ucast (nowUs mod 1000),
          mono_init = True \<rparr>)
     else
       let total = (nowUs - mono_lastUs s) + ucast (mono_rem s);
           ms = mono_ms s + total div 1000
       in (ms, s \<lparr> mono_lastUs := nowUs, mono_ms := ms, mono_rem := ucast (total mod 1000) \<rparr>))"

definition nowMs :: "u32 \<Rightarrow> u32" where
  "nowMs us = us div 1000"

definition advanceUs :: "u32 \<Rightarrow> u32 \<Rightarrow> u32" where
  "advanceUs us d = us + d"

text \<open>Successive readings of a clock that counts true microseconds.\<close>

fun advance_all :: "nat list \<Rightarrow> MonotonicMs \<Rightarrow> MonotonicMs" where
  "advance_all [] s = s"
| "advance_all (t # ts) s = advance_all ts (snd (advance (word_of_nat t) s))"

text \<open>
  A schedule the hub can meet: the clock is read at least once per wrap of the microsecond
  counter, less the carried remainder.
\<close>

fun read_often :: "nat \<Rightarrow> nat list \<Rightarrow> bool" where
  "read_often t [] = True"
| "read_often t (t' # ts) = (t \<le> t' \<and> t' - t + 999 < 2 ^ 32 \<and> read_often t' ts)"

section \<open>Sequence numbers\<close>

lemma seqIsNewer_iff_unat: "seqIsNewer a b \<longleftrightarrow> unat (a - b) \<noteq> 0 \<and> unat (a - b) < 2 ^ 15"
  by (simp add: seqIsNewer_def Let_def word_less_nat_alt unat_eq_0)

lemma seqIsNewer_irrefl [simp]: "\<not> seqIsNewer a a"
  by (simp add: seqIsNewer_def)

lemma unat_minus_swap:
  fixes a b :: u16
  assumes "a \<noteq> b"
  shows "unat (b - a) = 2 ^ 16 - unat (a - b)"
proof -
  have "unat a \<noteq> unat b" using assms by (simp add: word_unat_eq_iff)
  then show ?thesis
    using unat_u16_less [of a] unat_u16_less [of b] unfolding unat_sub_if' by (auto simp del: unat_u16_less)
qed

lemma seqIsNewer_asym: "seqIsNewer a b \<Longrightarrow> \<not> seqIsNewer b a"
proof (cases "a = b")
  case False
  then show "seqIsNewer a b \<Longrightarrow> \<not> seqIsNewer b a"
    unfolding seqIsNewer_iff_unat unat_minus_swap [OF False] by (simp, arith)
qed simp

lemma seqIsNewer_total:
  assumes "a \<noteq> b" and "a - b \<noteq> 0x8000"
  shows "seqIsNewer a b \<or> seqIsNewer b a"
proof -
  have "unat (a - b) \<noteq> 2 ^ 15"
    using assms(2) by (simp add: word_unat_eq_iff)
  moreover have "unat (a - b) \<noteq> 0" using assms(1) by (simp add: unat_eq_0)
  ultimately show ?thesis
    using assms(1) unat_u16_less [of "a - b"]
    unfolding seqIsNewer_iff_unat unat_minus_swap [OF assms(1)] by (simp del: unat_u16_less, arith)
qed

text \<open>
  Serial comparison over the wrap: among distinct sequence numbers that are not exactly half
  the number space apart exactly one is newer, and a number is newer than every number sent up to
  32767 increments before it, whether or not the counter wrapped in between.
\<close>

theorem seqIsNewer_serial_order:
  "(a \<noteq> b \<and> a - b \<noteq> 0x8000 \<longrightarrow> seqIsNewer a b \<noteq> seqIsNewer b a) \<and>
   (0 < n \<and> n < 2 ^ 15 \<longrightarrow> seqIsNewer (a + word_of_nat n) a)"
proof
  show "a \<noteq> b \<and> a - b \<noteq> 0x8000 \<longrightarrow> seqIsNewer a b \<noteq> seqIsNewer b a"
    using seqIsNewer_asym seqIsNewer_total by blast
  show "0 < n \<and> n < 2 ^ 15 \<longrightarrow> seqIsNewer (a + word_of_nat n) a"
    by (auto simp: seqIsNewer_iff_unat unat_of_nat)
qed

theorem seqIsNewer_serial_order_witness:
  "seqIsNewer 3 65533 \<noteq> seqIsNewer 65533 3 \<and> seqIsNewer (65533 + word_of_nat 6) 65533"
  using seqIsNewer_serial_order [of 3 65533 6] seqIsNewer_serial_order [of 65533 0 6] by simp

section \<open>Millisecond clock\<close>

text \<open>Two instants counted from the same start, less than half the clock's range apart.\<close>

lemma timeReached_offsets:
  assumes "n < k + 2 ^ 31" and "k \<le> n + 2 ^ 31"
  shows "timeReached (t + word_of_nat n) (t + word_of_nat k) \<longleftrightarrow> k \<le> n"
proof -
  have "(t + word_of_nat n) - (t + word_of_nat k) = (word_of_int (int n - int k) :: u32)" by simp
  moreover have "sint (word_of_int (int n - int k) :: u32) = int n - int k"
    using assms by (simp add: sint_sbintrunc' signed_take_bit_int_eq_self_iff del: of_int_diff of_int_of_nat_eq)
  ultimately show ?thesis by (simp add: timeReached_def timeDelta_def)
qed

lemma timeReached_after:
  assumes "n < 2 ^ 31"
  shows "timeReached (t + word_of_nat n) t"
proof -
  have "sint (word_of_nat n :: u32) = int n"
    using assms sint_sbintrunc' [of "int n", where ?'a = 32] by (simp add: signed_take_bit_int_eq_self_iff)
  then show ?thesis by (simp add: timeReached_def timeDelta_def)
qed

lemma not_timeReached_before:
  assumes "0 < n" and "n \<le> 2 ^ 31"
  shows "\<not> timeReached (t - word_of_nat n) t"
proof -
  have "(- word_of_nat n :: u32) = word_of_int (- int n)" by simp
  then have "sint (- word_of_nat n :: u32) = - int n"
    using assms by (simp only: sint_sbintrunc' signed_take_bit_int_eq_self_iff) simp
  then show ?thesis using assms by (simp add: timeReached_def timeDelta_def)
qed

text \<open>The invariant of \<open>MonotonicMs\<close>: state \<open>s\<close> after true time \<open>t\<close>, epoch offset \<open>base\<close>.\<close>

definition mono_inv :: "nat \<Rightarrow> nat \<Rightarrow> MonotonicMs \<Rightarrow> bool" where
  "mono_inv base t s \<longleftrightarrow> base \<le> t \<and> mono_init s \<and> mono_lastUs s = word_of_nat t \<and>
     mono_ms s = word_of_nat ((t - base) div 1000) \<and> unat (mono_rem s) = (t - base) mod 1000"

lemma mono_inv_first:
  "mono_inv (t - t mod 2 ^ 32) t (snd (advance (word_of_nat t) MonotonicMs_new))"
proof -
  have r: "t - (t - t mod 4294967296) = t mod 4294967296" by simp
  have u: "unat (word_of_nat t :: u32) = t mod 4294967296" by (simp add: unat_of_nat)
  have "(word_of_nat t div 1000 :: u32) = word_of_nat (t mod 4294967296 div 1000)"
    by (simp add: word_arith_nat_div u)
  moreover have "unat (ucast (word_of_nat t mod 1000 :: u32) :: u16) = t mod 4294967296 mod 1000"
    by (simp add: unsigned_ucast_eq unat_mod u take_bit_nat_eq_self_iff order.strict_trans [OF mod_less_divisor])
  ultimately show ?thesis
    by (simp add: mono_inv_def advance_def MonotonicMs_new_def r)
qed

lemma mono_inv_step:
  assumes inv: "mono_inv base t s" and le: "t \<le> t'" and gap: "t' - t + 999 < 2 ^ 32"
  shows "mono_inv base t' (snd (advance (word_of_nat t') s))"
proof -
  define d where "d = t' - t"
  define tot where "tot = d + (t - base) mod 1000"
  have t': "t' = t + d" using le by (simp add: d_def)
  have base: "base \<le> t" using inv by (simp add: mono_inv_def)
  have rem: "unat (mono_rem s) = (t - base) mod 1000" using inv by (simp add: mono_inv_def)
  have small: "tot < 2 ^ 32"
    using gap mod_less_divisor [of 1000 "t - base"] unfolding tot_def d_def by linarith
  have "(ucast (mono_rem s) :: u32) = word_of_nat ((t - base) mod 1000)"
    using rem by (metis unat_ucast_up(6) of_nat_unat ucast_id)
  then have total: "word_of_nat t' - mono_lastUs s + ucast (mono_rem s) = (word_of_nat tot :: u32)"
    using inv by (simp add: mono_inv_def t' tot_def)
  have u: "unat (word_of_nat tot :: u32) = tot" using small by (simp add: unat_of_nat)
  have quot: "(word_of_nat tot div 1000 :: u32) = word_of_nat (tot div 1000)"
    by (simp add: word_arith_nat_div u)
  have remd: "unat (ucast (word_of_nat tot mod 1000 :: u32) :: u16) = tot mod 1000"
    by (simp add: unsigned_ucast_eq unat_mod u take_bit_nat_eq_self_iff order.strict_trans [OF mod_less_divisor])
  have split: "t' - base = tot + 1000 * ((t - base) div 1000)"
    using base by (simp add: t' tot_def)
  have "(t' - base) div 1000 = (t - base) div 1000 + tot div 1000"
    unfolding split by simp
  moreover have "(t' - base) mod 1000 = tot mod 1000" unfolding split by simp
  moreover have "snd (advance (word_of_nat t') s) = s \<lparr> mono_lastUs := word_of_nat t',
      mono_ms := mono_ms s + word_of_nat (tot div 1000), mono_rem := ucast (word_of_nat tot mod 1000 :: u32) \<rparr>"
    using inv unfolding advance_def total Let_def quot by (simp add: mono_inv_def)
  ultimately show ?thesis
    using inv base le by (simp add: mono_inv_def remd)
qed

lemma mono_inv_all:
  "mono_inv base t s \<Longrightarrow> read_often t ts \<Longrightarrow> mono_inv base (last (t # ts)) (advance_all ts s)"
proof (induction ts arbitrary: t s)
  case Nil
  then show ?case by simp
next
  case (Cons t' ts)
  then have "mono_inv base t' (snd (advance (word_of_nat t') s))"
    by (intro mono_inv_step [of base t]) auto
  with Cons show ?case by (auto split: if_splits)
qed

text \<open>
  The millisecond clock never drifts and does not jump at the 71.6 minute wrap of the
  microsecond counter: read at any schedule with gaps below one wrap, it shows the true elapsed
  microseconds divided by 1000, modulo the 32 bits of the millisecond counter itself.
\<close>

theorem MonotonicMs_exact:
  assumes "read_often t ts"
  shows "mono_ms (advance_all (t # ts) MonotonicMs_new) =
         word_of_nat ((last (t # ts) - (t - t mod 2 ^ 32)) div 1000)"
  using mono_inv_all [OF mono_inv_first assms] by (simp add: mono_inv_def)

theorem MonotonicMs_exact_witness:
  "mono_ms (advance_all [4294967000, 4294968500, 4294970000] MonotonicMs_new) = 4294970"
  using MonotonicMs_exact [of 4294967000 "[4294968500, 4294970000]"] by simp

end
