(* ===== verification/Byte_IO.thy ===== *)
theory Byte_IO
  imports Slop_Prelude
begin

text \<open>
  Little-endian field access, \<^verbatim>\<open>util/byte_io.hpp\<close>, and the interface of the fixed-layout wire
  codecs built on it: the locale \<open>raw_codec\<close> states what an \<open>encodeX\<close>/\<open>decodeX\<close> pair promises
  (an exact byte image, refusal of short buffers, recovery of the message) and derives the facts
  its users rely on (round trip through any buffer, injectivity, no frame is a prefix of another).
  A put into \<open>out.subspan(off)\<close> is \<open>subspan_put off\<close>.
\<close>

section \<open>Definitions\<close>

definition putU8 :: "bytes \<Rightarrow> u8 \<Rightarrow> nat \<times> bytes" where
  "putU8 out v = (if length out < 1 then (0, out) else (1, out[0 := v]))"

definition putU16 :: "bytes \<Rightarrow> u16 \<Rightarrow> nat \<times> bytes" where
  "putU16 out v =
    (if length out < 2 then (0, out) else (2, out[0 := ucast v, 1 := ucast (drop_bit 8 v)]))"

definition putU32 :: "bytes \<Rightarrow> u32 \<Rightarrow> nat \<times> bytes" where
  "putU32 out v =
    (if length out < 4 then (0, out)
     else (4, foldl (\<lambda>o' i. o'[i := ucast (drop_bit (8 * i) v)]) out [0..<4]))"

text \<open>A \<^verbatim>\<open>float\<close> is carried as its binary32 bit pattern, which is what the \<^verbatim>\<open>memcpy\<close> moves.\<close>

definition putF32 :: "bytes \<Rightarrow> u32 \<Rightarrow> nat \<times> bytes" where
  "putF32 out bits = putU32 out bits"

definition getU8 :: "bytes \<Rightarrow> u8" where
  "getU8 inp = inp ! 0"

definition getU16 :: "bytes \<Rightarrow> u16" where
  "getU16 inp = ucast (inp ! 0) OR push_bit 8 (ucast (inp ! 1))"

definition getU32 :: "bytes \<Rightarrow> u32" where
  "getU32 inp = foldl (\<lambda>v i. v OR push_bit (8 * i) (ucast (inp ! i))) 0 [0..<4]"

definition getF32 :: "bytes \<Rightarrow> u32" where
  "getF32 inp = getU32 inp"

definition subspan_put :: "nat \<Rightarrow> (bytes \<Rightarrow> 'a \<Rightarrow> nat \<times> bytes) \<Rightarrow> 'a \<Rightarrow> bytes \<Rightarrow> bytes" where
  "subspan_put off put v out = take off out @ snd (put (drop off out) v)"

text \<open>The byte images the puts leave behind.\<close>

definition u16_bytes :: "u16 \<Rightarrow> bytes" where
  "u16_bytes v = [ucast v, ucast (drop_bit 8 v)]"

definition u32_bytes :: "u32 \<Rightarrow> bytes" where
  "u32_bytes v = [ucast v, ucast (drop_bit 8 v), ucast (drop_bit 16 v), ucast (drop_bit 24 v)]"

section \<open>Puts as writes\<close>

lemma length_u16_bytes [simp]: "length (u16_bytes v) = 2"
  by (simp add: u16_bytes_def)

lemma length_u32_bytes [simp]: "length (u32_bytes v) = 4"
  by (simp add: u32_bytes_def)

lemma upt_0_4: "[0..<4] = [0, 1, 2, 3::nat]"
  by (simp add: upt_rec)

lemma list_at_least_2: "2 \<le> length xs \<Longrightarrow> \<exists>a b r. xs = a # b # r"
  by (cases xs; cases "tl xs") auto

lemma list_at_least_4: "4 \<le> length xs \<Longrightarrow> \<exists>a b c d r. xs = a # b # c # d # r"
proof -
  assume "4 \<le> length xs"
  then obtain a b r where ab: "xs = a # b # r" using list_at_least_2 [of xs] by auto
  with \<open>4 \<le> length xs\<close> have "2 \<le> length r" by simp
  with ab show ?thesis using list_at_least_2 [of r] by blast
qed

lemma subspan_putU8 [simp]:
  "off + 1 \<le> length out \<Longrightarrow> subspan_put off putU8 v out = poke off [v] out"
  by (cases "drop off out") (auto simp: subspan_put_def putU8_def poke_def drop_Suc drop_tl tl_drop)

lemma subspan_putU16 [simp]:
  assumes "off + 2 \<le> length out"
  shows "subspan_put off putU16 v out = poke off (u16_bytes v) out"
proof -
  have "2 \<le> length (drop off out)" using assms by simp
  then obtain a b r where d: "drop off out = a # b # r" using list_at_least_2 by blast
  then have "drop (off + 2) out = r" using drop_drop [of 2 off out] by (simp add: add.commute)
  then show ?thesis
    using assms by (simp add: subspan_put_def putU16_def poke_def d) (simp add: u16_bytes_def)
qed

lemma subspan_putU32 [simp]:
  assumes "off + 4 \<le> length out"
  shows "subspan_put off putU32 v out = poke off (u32_bytes v) out"
proof -
  have "4 \<le> length (drop off out)" using assms by simp
  then obtain a b c d r where d: "drop off out = a # b # c # d # r" using list_at_least_4 by blast
  then have "drop (off + 4) out = r" using drop_drop [of 4 off out] by (simp add: add.commute)
  then show ?thesis
    using assms by (simp add: subspan_put_def putU32_def poke_def d upt_0_4) (simp add: u32_bytes_def)
qed

lemma subspan_putF32 [simp]:
  "off + 4 \<le> length out \<Longrightarrow> subspan_put off putF32 v out = poke off (u32_bytes v) out"
  by (metis subspan_put_def putF32_def subspan_putU32)

section \<open>Gets invert puts\<close>

lemma getU16_u16_bytes [simp]: "getU16 (u16_bytes v @ r) = v"
proof -
  have "(ucast (ucast v :: byte) :: u16) OR push_bit 8 (ucast (ucast (drop_bit 8 v) :: byte)) = v"
    by (rule bit_word_eqI) (auto simp: bit_simps)
  then show ?thesis by (simp add: getU16_def u16_bytes_def)
qed

lemma getU32_u32_bytes [simp]: "getU32 (u32_bytes v @ r) = v"
proof -
  have "((((0 OR ucast (ucast v :: byte)) OR push_bit 8 (ucast (ucast (drop_bit 8 v) :: byte))) OR
      push_bit 16 (ucast (ucast (drop_bit 16 v) :: byte))) OR
      push_bit 24 (ucast (ucast (drop_bit 24 v) :: byte))) = v" (is "?w = v")
  proof (rule bit_word_eqI)
    fix n assume n: "n < LENGTH(32)"
    consider "n < 8" | "8 \<le> n" "n < 16" | "16 \<le> n" "n < 24" | "24 \<le> n" by linarith
    then show "bit ?w n \<longleftrightarrow> bit v n" using n by cases (auto simp: bit_simps)
  qed
  then show ?thesis by (simp add: getU32_def u32_bytes_def upt_0_4)
qed

lemma getF32_u32_bytes [simp]: "getF32 (u32_bytes v @ r) = v"
  by (simp add: getF32_def)

lemma getU8_Cons [simp]: "getU8 (v # r) = v"
  by (simp add: getU8_def)

lemma getU16_u16_bytes_end [simp]: "getU16 (u16_bytes v) = v"
  using getU16_u16_bytes [of v "[]"] by (simp del: getU16_u16_bytes)

lemma getU32_u32_bytes_end [simp]: "getU32 (u32_bytes v) = v"
  using getU32_u32_bytes [of v "[]"] by (simp del: getU32_u32_bytes)

text \<open>Conversely the two (four) bytes read are the image of the value read.\<close>

lemma u16_bytes_getU16:
  assumes "length bs = 2"
  shows "u16_bytes (getU16 bs) = bs"
proof -
  obtain a b where bs: "bs = [a, b]" using assms by (auto simp: list_lengths)
  have "(ucast ((ucast a :: u16) OR push_bit 8 (ucast b)) :: byte) = a"
    by (rule bit_word_eqI) (auto simp: bit_simps)
  moreover have "(ucast (drop_bit 8 ((ucast a :: u16) OR push_bit 8 (ucast b))) :: byte) = b"
    by (rule bit_word_eqI) (auto simp: bit_simps dest: bit_byte_less)
  ultimately show ?thesis by (simp add: bs u16_bytes_def getU16_def)
qed

lemma u32_bytes_getU32:
  assumes "length bs = 4"
  shows "u32_bytes (getU32 bs) = bs"
proof -
  obtain a b c d where bs: "bs = [a, b, c, d]" using assms by (auto simp: list_lengths)
  let ?w = "((ucast a OR push_bit 8 (ucast b)) OR push_bit 16 (ucast c)) OR push_bit 24 (ucast d) :: u32"
  have w: "getU32 bs = ?w" by (simp add: bs getU32_def upt_0_4)
  have "(ucast ?w :: byte) = a" "(ucast (drop_bit 8 ?w) :: byte) = b"
    "(ucast (drop_bit 16 ?w) :: byte) = c" "(ucast (drop_bit 24 ?w) :: byte) = d"
    by (rule bit_word_eqI, auto simp: bit_simps dest: bit_byte_less)+
  then show ?thesis unfolding w by (simp add: bs u32_bytes_def)
qed

section \<open>Interface of the fixed-layout codecs\<close>

locale raw_codec =
  fixes image :: "'m \<Rightarrow> bytes"
    and encode :: "'m \<Rightarrow> bytes \<Rightarrow> nat \<times> bytes"
    and decode :: "bytes \<Rightarrow> 'e + 'm"
    and ok :: "'m \<Rightarrow> bool"
  assumes encode_fits: "ok m \<Longrightarrow> length (image m) \<le> length out \<Longrightarrow>
      encode m out = (length (image m), poke 0 (image m) out)"
    and encode_refuses: "ok m \<Longrightarrow> length out < length (image m) \<Longrightarrow> encode m out = (0, out)"
    and decode_image: "ok m \<Longrightarrow> decode (image m @ rest) = Inr m"
    and image_nonempty: "ok m \<Longrightarrow> image m \<noteq> []"
begin

text \<open>Whatever buffer is handed in, either the message is recovered from what was written, or
  nothing was written at all.\<close>

lemma roundtrip:
  assumes "ok m" and "encode m out = (n, out')"
  shows "length out' = length out \<and>
         (if n = 0 then out' = out \<and> length out < length (image m)
          else n = length (image m) \<and> decode (take n out') = Inr m)"
proof (cases "length (image m) \<le> length out")
  case True
  with assms encode_fits [of m out] have e: "n = length (image m)" "out' = poke 0 (image m) out"
    by simp_all
  moreover have "take n out' = image m" by (simp add: e)
  ultimately show ?thesis
    using True image_nonempty [of m] decode_image [of m "[]"] assms(1) by simp
next
  case False
  with assms encode_refuses [of m out] show ?thesis by simp
qed

lemma prefix_free:
  assumes "ok m" and "ok m'" and "image m @ r = image m' @ r'"
  shows "m = m'"
  using decode_image [OF assms(1), of r] decode_image [OF assms(2), of r'] assms(3) by simp

lemma image_inj: "inj_on image {m. ok m}"
  by (auto intro!: inj_onI intro: prefix_free [of _ _ "[]" "[]"])

end

end
