(* ===== verification/Frame.thy ===== *)
theory Frame
  imports Byte_IO
begin

text \<open>
  The 8-byte frame header and the fixed-capacity frame buffer: \<^verbatim>\<open>wire/frame_header.hpp\<close> and
  \<^verbatim>\<open>wire/frame_buffer.hpp\<close>.
\<close>

section \<open>Definitions\<close>

definition kHeaderBytes :: nat where
  "kHeaderBytes = 8"

definition FRAG_START :: u8 where
  "FRAG_START = 0x01"

definition FRAG_MORE :: u8 where
  "FRAG_MORE = 0x02"

record FrameHeader =
  hdr_type :: u8
  hdr_flags :: u8
  hdr_channel :: u16
  hdr_seq :: u16
  hdr_len :: u16

definition fragStart :: "FrameHeader \<Rightarrow> bool" where
  "fragStart h = (hdr_flags h AND FRAG_START \<noteq> 0)"

definition fragMore :: "FrameHeader \<Rightarrow> bool" where
  "fragMore h = (hdr_flags h AND FRAG_MORE \<noteq> 0)"

definition encodeFrameHeader :: "FrameHeader \<Rightarrow> bytes \<Rightarrow> nat \<times> bytes" where
  "encodeFrameHeader h out =
    (if length out < kHeaderBytes then (0, out)
     else
       let out = subspan_put 0 putU8 (hdr_type h) out;
           out = subspan_put 1 putU8 (hdr_flags h) out;
           out = subspan_put 2 putU16 (hdr_channel h) out;
           out = subspan_put 4 putU16 (hdr_seq h) out;
           out = subspan_put 6 putU16 (hdr_len h) out
       in (kHeaderBytes, out))"

definition decodeFrameHeader :: "bytes \<Rightarrow> FrameHeader option" where
  "decodeFrameHeader inp =
    (if length inp < kHeaderBytes then None
     else Some \<lparr> hdr_type = getU8 (drop 0 inp), hdr_flags = getU8 (drop 1 inp),
                 hdr_channel = getU16 (drop 2 inp), hdr_seq = getU16 (drop 4 inp),
                 hdr_len = getU16 (drop 6 inp) \<rparr>)"

text \<open>The class \<^verbatim>\<open>FrameBuffer\<close>: an array of 512 bytes and the count in use.\<close>

definition kFrameBufferCapacity :: nat where
  "kFrameBufferCapacity = 512"

record FrameBuffer =
  fb_data :: bytes
  fb_size :: u16

definition FrameBuffer_new :: FrameBuffer where
  "FrameBuffer_new = \<lparr> fb_data = replicate kFrameBufferCapacity 0, fb_size = 0 \<rparr>"

definition FrameBuffer_from :: "bytes \<Rightarrow> FrameBuffer" where
  "FrameBuffer_from frame =
    (if length frame \<le> kFrameBufferCapacity
     then FrameBuffer_new \<lparr> fb_data := poke 0 frame (fb_data FrameBuffer_new),
                            fb_size := word_of_nat (length frame) \<rparr>
     else FrameBuffer_new)"

definition fb_setSize :: "nat \<Rightarrow> FrameBuffer \<Rightarrow> FrameBuffer" where
  "fb_setSize n b = b \<lparr> fb_size := word_of_nat (if n \<le> kFrameBufferCapacity then n else 0) \<rparr>"

definition fb_bytes :: "FrameBuffer \<Rightarrow> bytes" where
  "fb_bytes b = take (unat (fb_size b)) (fb_data b)"

definition fb_empty :: "FrameBuffer \<Rightarrow> bool" where
  "fb_empty b = (fb_size b = 0)"

definition fb_header :: "FrameBuffer \<Rightarrow> FrameHeader option" where
  "fb_header b = decodeFrameHeader (fb_bytes b)"

definition fb_payload :: "FrameBuffer \<Rightarrow> bytes" where
  "fb_payload b = (if unat (fb_size b) \<ge> kHeaderBytes then drop kHeaderBytes (fb_bytes b) else [])"

section \<open>Header round trip\<close>

definition header_bytes :: "FrameHeader \<Rightarrow> bytes" where
  "header_bytes h = [hdr_type h, hdr_flags h] @ u16_bytes (hdr_channel h) @ u16_bytes (hdr_seq h) @
     u16_bytes (hdr_len h)"

lemma length_header_bytes [simp]: "length (header_bytes h) = 8"
  by (simp add: header_bytes_def)

lemma encodeFrameHeader_fits:
  assumes "8 \<le> length out"
  shows "encodeFrameHeader h out = (8, poke 0 (header_bytes h) out)"
  using assms
  by (simp add: encodeFrameHeader_def kHeaderBytes_def Let_def poke_poke_next header_bytes_def)

lemma encodeFrameHeader_refuses: "length out < 8 \<Longrightarrow> encodeFrameHeader h out = (0, out)"
  by (simp add: encodeFrameHeader_def kHeaderBytes_def)

lemma decodeFrameHeader_header_bytes [simp]:
  "decodeFrameHeader (header_bytes h @ rest) = Some h"
  by (simp add: decodeFrameHeader_def header_bytes_def kHeaderBytes_def)

definition decodeFrameHeader_result :: "bytes \<Rightarrow> unit + FrameHeader" where
  "decodeFrameHeader_result inp =
    (case decodeFrameHeader inp of None \<Rightarrow> Inl () | Some h \<Rightarrow> Inr h)"

interpretation header_codec: raw_codec header_bytes encodeFrameHeader decodeFrameHeader_result "\<lambda>_. True"
  by unfold_locales
    (auto simp: encodeFrameHeader_fits encodeFrameHeader_refuses decodeFrameHeader_result_def
      simp flip: length_0_conv)

text \<open>
  Frame header round trip: encoding into any buffer either refuses (buffer shorter than eight
  bytes, which stays untouched) or writes eight bytes that decode to the header, whatever follows
  them on the wire; and no two headers have the same wire image.
\<close>

theorem frame_header_roundtrip:
  assumes "encodeFrameHeader h out = (n, out')"
  shows "(if length out < 8 then n = 0 \<and> out' = out
          else n = 8 \<and> length out' = length out \<and> drop 8 out' = drop 8 out \<and>
               decodeFrameHeader out' = Some h \<and>
               (\<forall>h'. encodeFrameHeader h' out = (8, out') \<longrightarrow> h' = h))"
proof (cases "length out < 8")
  case True
  then show ?thesis using assms by (simp add: encodeFrameHeader_def kHeaderBytes_def)
next
  case False
  then have e: "n = 8" "out' = poke 0 (header_bytes h) out"
    using assms by (simp_all add: encodeFrameHeader_fits)
  have "h' = h" if "encodeFrameHeader h' out = (8, out')" for h'
    using that False e header_codec.prefix_free [where m = h' and m' = h]
    by (simp add: encodeFrameHeader_fits poke_prefix)
  then show ?thesis using False e by (auto simp: poke_prefix)
qed

theorem frame_header_roundtrip_witness:
  "let h = \<lparr> hdr_type = 0x12, hdr_flags = 3, hdr_channel = 0xBEEF, hdr_seq = 0xFFFE, hdr_len = 300 \<rparr>;
       r = encodeFrameHeader h (replicate 10 0xAA)
   in fst r = 8 \<and> decodeFrameHeader (snd r) = Some h"
  using frame_header_roundtrip [of "\<lparr> hdr_type = 0x12, hdr_flags = 3, hdr_channel = 0xBEEF,
      hdr_seq = 0xFFFE, hdr_len = 300 \<rparr>" "replicate 10 0xAA", OF prod.collapse [symmetric]]
  by (simp add: Let_def)

section \<open>Frame buffer\<close>

definition fb_inv :: "FrameBuffer \<Rightarrow> bool" where
  "fb_inv b \<longleftrightarrow> length (fb_data b) = kFrameBufferCapacity \<and> unat (fb_size b) \<le> kFrameBufferCapacity"

lemma fb_inv_from [simp]: "fb_inv (FrameBuffer_from frame)"
  by (auto simp: fb_inv_def FrameBuffer_from_def FrameBuffer_new_def kFrameBufferCapacity_def unat_of_nat)

lemma fb_inv_setSize [simp]: "fb_inv b \<Longrightarrow> fb_inv (fb_setSize n b)"
  by (auto simp: fb_inv_def fb_setSize_def kFrameBufferCapacity_def unat_of_nat)

lemma fb_bytes_from [simp]:
  "fb_bytes (FrameBuffer_from frame) = (if length frame \<le> kFrameBufferCapacity then frame else [])"
  by (auto simp: fb_bytes_def FrameBuffer_from_def FrameBuffer_new_def kFrameBufferCapacity_def
      unat_of_nat poke_def)

end
