(* ===== verification/Crc32.thy ===== *)
theory Crc32
  imports Byte_IO
begin

text \<open>
  The table-driven CRC-32 of \<^verbatim>\<open>wire/crc32.hpp\<close>, its equivalence with the bit-serial definition of
  the code, and the detection facts the ESTOP frame relies on.  The argument is linear algebra over
  GF(2): one shift step \<open>crc_bit\<close> commutes with XOR and is injective because the top bit of the
  polynomial is set.
\<close>

section \<open>Definitions\<close>

text \<open>The body of the inner loop of \<^verbatim>\<open>makeCrc32Table\<close>.\<close>

definition crc_bit :: "u32 \<Rightarrow> u32" where
  "crc_bit c = (if c AND 1 \<noteq> 0 then 0xEDB88320 XOR drop_bit 1 c else drop_bit 1 c)"

definition makeCrc32Table :: "u32 list" where
  "makeCrc32Table = map (\<lambda>i. (crc_bit ^^ 8) (word_of_nat i)) [0..<256]"

definition crc32Init :: u32 where
  "crc32Init = 0xFFFFFFFF"

definition crc32Update :: "u32 \<Rightarrow> bytes \<Rightarrow> u32" where
  "crc32Update state data =
    foldl (\<lambda>st b. makeCrc32Table ! unat ((st XOR ucast b) AND 0xFF) XOR drop_bit 8 st) state data"

definition crc32Final :: "u32 \<Rightarrow> u32" where
  "crc32Final state = state XOR 0xFFFFFFFF"

definition crc32 :: "bytes \<Rightarrow> u32" where
  "crc32 data = crc32Final (crc32Update crc32Init data)"

text \<open>The reference: the reflected CRC register fed one message bit at a time, low bit first.\<close>

definition crc_serial_step :: "u32 \<Rightarrow> bool \<Rightarrow> u32" where
  "crc_serial_step s b = (if bit s 0 \<noteq> b then drop_bit 1 s XOR 0xEDB88320 else drop_bit 1 s)"

definition byte_bits :: "byte \<Rightarrow> bool list" where
  "byte_bits b = map (bit b) [0..<8]"

definition crc32_serial :: "bytes \<Rightarrow> u32" where
  "crc32_serial data = NOT (foldl crc_serial_step (NOT 0) (concat (map byte_bits data)))"

section \<open>One step is linear and injective\<close>

lemma and_1_nonzero: "(c AND 1 \<noteq> 0) \<longleftrightarrow> odd c" for c :: u32
  by (simp only: and_one_eq even_iff_mod_2_eq_zero)

lemma crc_bit_alt: "crc_bit c = drop_bit 1 c XOR (if odd c then 0xEDB88320 else 0)"
  by (cases "odd c")
     (simp_all only: crc_bit_def and_1_nonzero if_True if_False xor.commute xor.left_neutral simp_thms)

lemma drop_bit_xor_word: "drop_bit n (a XOR b) = drop_bit n a XOR drop_bit n (b :: u32)"
  by (rule bit_word_eqI) (simp add: bit_simps)

lemma xor_eq_0D: "a XOR b = 0 \<Longrightarrow> a = b" for a b :: u32
  using xor_word_cancel(1) [of a b b] by simp

lemma bit_above_drop_bit_0: "drop_bit n y = 0 \<Longrightarrow> n \<le> i \<Longrightarrow> \<not> bit y i" for y :: u32
  using bit_drop_bit_eq [of n y] by (metis bit_0_eq bot_apply bot_bool_def comp_apply le_add_diff_inverse)

lemma crc_bit_xor: "crc_bit (a XOR b) = crc_bit a XOR crc_bit b"
  unfolding crc_bit_alt drop_bit_xor_word even_xor_iff
  by (cases "odd a"; cases "odd b") (simp_all only: if_True if_False simp_thms xor.right_neutral ac_simps
      xor_self_eq xor.left_commute, simp_all add: ac_simps)

lemma crc_pow_xor: "(crc_bit ^^ n) (a XOR b) = (crc_bit ^^ n) a XOR (crc_bit ^^ n) b"
  by (induction n arbitrary: a b) (simp_all add: crc_bit_xor)

lemma crc_bit_eq_0:
  assumes z: "crc_bit c = 0"
  shows "c = 0"
proof -
  have "\<not> bit (drop_bit 1 c) 31" by (simp add: bit_drop_bit_eq) (use bit_imp_le_length [of c 32] in auto)
  moreover have "bit (0xEDB88320 :: u32) 31" by simp
  ultimately have "bit (drop_bit 1 c XOR 0xEDB88320) 31" by (simp only: bit_xor_iff simp_thms)
  then have "drop_bit 1 c XOR 0xEDB88320 \<noteq> 0" by (metis bit_0_eq bot_apply bot_bool_def)
  then have even: "\<not> odd c" using z unfolding crc_bit_alt by (cases "odd c") (simp_all only: if_True simp_thms)
  with z have d: "drop_bit 1 c = 0" by (simp only: crc_bit_alt if_False xor.right_neutral)
  show "c = 0"
  proof (rule bit_word_eqI)
    fix n
    show "bit c n = bit (0 :: u32) n"
      using even bit_above_drop_bit_0 [OF d, of n] by (cases n) (simp_all add: bit_0)
  qed
qed

lemma crc_pow_inj: "(crc_bit ^^ n) a = (crc_bit ^^ n) b \<Longrightarrow> a = b"
proof -
  have zero: "(crc_bit ^^ n) c = 0 \<Longrightarrow> c = 0" for c
    by (induction n) (auto dest: crc_bit_eq_0)
  assume "(crc_bit ^^ n) a = (crc_bit ^^ n) b"
  then have "(crc_bit ^^ n) (a XOR b) = 0" by (simp add: crc_pow_xor)
  then have "a XOR b = 0" by (rule zero)
  then show "a = b" by (rule xor_eq_0D)
qed

text \<open>A register whose low \<open>n\<close> bits are clear is only shifted by \<open>n\<close> steps.\<close>

lemma crc_pow_clear: "(\<And>i. i < n \<Longrightarrow> \<not> bit c i) \<Longrightarrow> (crc_bit ^^ n) c = drop_bit n c"
proof (induction n arbitrary: c)
  case 0
  then show ?case by simp
next
  case (Suc n)
  have "\<not> odd c" using Suc.prems [of 0] by (simp add: bit_0)
  then have "crc_bit c = drop_bit 1 c" by (simp only: crc_bit_alt if_False xor.right_neutral)
  moreover have "(crc_bit ^^ n) (drop_bit 1 c) = drop_bit n (drop_bit 1 c)"
    using Suc.prems by (intro Suc.IH) (simp add: bit_drop_bit_eq)
  ultimately show ?case by (simp add: funpow_swap1 ac_simps)
qed

section \<open>The table lookup is eight steps\<close>

lemma crc32_table_nth: "i < 256 \<Longrightarrow> makeCrc32Table ! i = (crc_bit ^^ 8) (word_of_nat i)"
  by (simp add: makeCrc32Table_def)

lemma crc32_byte_step:
  "makeCrc32Table ! unat ((s XOR ucast b) AND 0xFF) XOR drop_bit 8 s = (crc_bit ^^ 8) (s XOR ucast b)"
  for b :: byte
proof -
  define lo where "lo = (s XOR ucast b) AND 0xFF"
  define hi where "hi = s AND NOT 0xFF"
  have mask: "(0xFF :: u32) = mask 8" by (simp add: mask_eq_exp_minus_1)
  have "unat lo < 256"
    using word_and_le1 [of "s XOR ucast b" 255] by (simp add: lo_def word_le_nat_alt)
  then have tab: "makeCrc32Table ! unat lo = (crc_bit ^^ 8) lo"
    by (simp add: crc32_table_nth)
  have split: "s XOR ucast b = lo XOR hi"
    unfolding lo_def hi_def mask
    by (rule bit_word_eqI) (auto simp: bit_simps dest: bit_byte_less)
  have "(crc_bit ^^ 8) hi = drop_bit 8 hi"
    unfolding hi_def mask by (rule crc_pow_clear) (simp add: bit_simps)
  moreover have "drop_bit 8 hi = drop_bit 8 s"
    unfolding hi_def mask by (rule bit_word_eqI) (auto simp: bit_simps dest: bit_u32_less)
  ultimately show ?thesis
    unfolding lo_def [symmetric] by (simp add: tab split crc_pow_xor)
qed

lemma crc32Update_steps: "crc32Update s data = foldl (\<lambda>s b. (crc_bit ^^ 8) (s XOR ucast b)) s data"
  by (simp add: crc32Update_def crc32_byte_step)

lemma crc32Update_append [simp]: "crc32Update s (xs @ ys) = crc32Update (crc32Update s xs) ys"
  by (simp add: crc32Update_def)

lemma crc_serial_step_alt: "crc_serial_step s b = crc_bit (s XOR of_bool b)"
proof -
  have "drop_bit 1 (of_bool b :: u32) = 0" by simp
  moreover have "odd (s XOR of_bool b) \<longleftrightarrow> bit s 0 \<noteq> b"
    unfolding even_xor_iff by (simp add: bit_0)
  ultimately show ?thesis
    unfolding crc_bit_alt crc_serial_step_def drop_bit_xor_word
    by (cases "bit s 0 \<noteq> b") (simp_all only: xor.right_neutral if_True if_False simp_thms)
qed

lemma crc_pow_serial:
  "(crc_bit ^^ n) (s XOR w) = foldl crc_serial_step s (map (bit w) [0..<n]) XOR drop_bit n w"
proof (induction n arbitrary: s w)
  case 0
  then show ?case by simp
next
  case (Suc n)
  have "w = of_bool (bit w 0) XOR (w AND NOT 1)"
  proof (rule bit_word_eqI)
    fix i assume "i < LENGTH(32)"
    then show "bit w i = bit (of_bool (bit w 0) XOR (w AND NOT 1)) i"
      by (cases "i = 0") (auto simp only: bit_xor_iff bit_and_iff bit_not_iff bit_of_bool_iff bit_1_iff
        possible_bit_word)
  qed
  then have "s XOR w = (s XOR of_bool (bit w 0)) XOR (w AND NOT 1)"
    using xor.assoc [of s "of_bool (bit w 0)" "w AND NOT 1"] by (simp only:)
  then have "crc_bit (s XOR w) = crc_serial_step s (bit w 0) XOR crc_bit (w AND NOT 1)"
    by (simp only: crc_bit_xor crc_serial_step_alt)
  moreover have "crc_bit (w AND NOT 1) = drop_bit 1 w"
  proof -
    have "even (w AND NOT 1)" by (simp add: even_and_iff)
    then have "crc_bit (w AND NOT 1) = drop_bit 1 (w AND NOT 1)"
      by (simp only: crc_bit_alt if_False xor.right_neutral simp_thms)
    also have "\<dots> = drop_bit 1 w"
      by (rule bit_word_eqI) (auto simp only: bit_drop_bit_eq comp_apply bit_and_iff bit_not_iff bit_1_iff
          possible_bit_word dest: bit_imp_le_length)
    finally show ?thesis .
  qed
  ultimately have "(crc_bit ^^ Suc n) (s XOR w) =
      (crc_bit ^^ n) (crc_serial_step s (bit w 0) XOR drop_bit 1 w)"
    by (simp add: funpow_swap1)
  also have "\<dots> = foldl crc_serial_step (crc_serial_step s (bit w 0)) (map (bit (drop_bit 1 w)) [0..<n])
      XOR drop_bit n (drop_bit 1 w)"
    by (rule Suc.IH)
  also have "map (bit (drop_bit 1 w)) [0..<n] = map (bit w) [1..<Suc n]"
    by (simp add: bit_drop_bit_eq comp_def map_Suc_upt [symmetric] del: map_Suc_upt upt_Suc)
  finally show ?case by (simp add: upt_conv_Cons ac_simps del: upt_Suc)
qed

lemma crc32_byte_serial: "(crc_bit ^^ 8) (s XOR ucast b) = foldl crc_serial_step s (byte_bits b)"
proof -
  have "drop_bit 8 (ucast b :: u32) = 0"
    by (rule bit_word_eqI) (auto simp: bit_simps dest: bit_byte_less)
  moreover have "map (bit (ucast b :: u32)) [0..<8] = byte_bits b"
    by (simp add: byte_bits_def bit_simps)
  ultimately show ?thesis by (simp add: crc_pow_serial)
qed

text \<open>
  The table-driven CRC-32 computes the bit-serial CRC-32 (reflected polynomial 0xEDB88320,
  all-ones preset, inverted output) of every message.
\<close>

theorem crc32_eq_serial: "crc32 data = crc32_serial data"
proof -
  have "foldl (\<lambda>s b. (crc_bit ^^ 8) (s XOR ucast b)) s data =
      foldl crc_serial_step s (concat (map byte_bits data))" for s
    by (induction data arbitrary: s) (simp_all add: crc32_byte_serial)
  moreover have "(0xFFFFFFFF :: u32) = - 1" by simp
  then have "x XOR 0xFFFFFFFF = NOT x" for x :: u32 by (simp only:) simp
  moreover have "crc32Init = NOT 0" by (simp add: crc32Init_def)
  ultimately show ?thesis
    by (simp add: crc32_def crc32_serial_def crc32Final_def crc32Update_steps)
qed

section \<open>Error detection\<close>

text \<open>The register after four bytes is an injective image of the register plus the little-endian
  word they form, so any change within four consecutive bytes changes the CRC.\<close>

lemma crc_push_byte:
  "(crc_bit ^^ 8) x XOR y = (crc_bit ^^ 8) (x XOR push_bit 8 y)" if "drop_bit 24 y = 0" for y :: u32
proof -
  have "(crc_bit ^^ 8) (push_bit 8 y) = drop_bit 8 (push_bit 8 y)"
    by (rule crc_pow_clear) (simp add: bit_simps)
  moreover have "drop_bit 8 (push_bit 8 y) = y"
    using bit_above_drop_bit_0 [OF that] by (intro bit_word_eqI) (auto simp: bit_simps simp flip: not_le)
  ultimately show ?thesis by (simp add: crc_pow_xor)
qed

lemma crc32Update_four:
  "crc32Update s [a, b, c, d] = (crc_bit ^^ 32) (s XOR getU32 [a, b, c, d])"
proof -
  have small: "drop_bit 24 (ucast x :: u32) = 0" "drop_bit 24 (push_bit 8 (ucast x) :: u32) = 0"
    "drop_bit 24 (push_bit 16 (ucast x) :: u32) = 0" for x :: byte
    by (rule bit_word_eqI, auto simp: bit_simps dest: bit_byte_less)+
  define B where "B = crc_bit ^^ 8"
  have pushB: "drop_bit 24 y = 0 \<Longrightarrow> B x XOR y = B (x XOR push_bit 8 y)" for x y
    unfolding B_def by (rule crc_push_byte)
  have "crc32Update s [a, b, c, d] = B (B (B (B (s XOR ucast a) XOR ucast b) XOR ucast c) XOR ucast d)"
    by (simp add: crc32Update_steps B_def)
  also have "\<dots> = B (B (B (B (s XOR ucast a XOR push_bit 8 (ucast b) XOR push_bit 16 (ucast c) XOR
      push_bit 24 (ucast d)))))"
    by (simp add: pushB small push_bit_push_bit xor.assoc)
  also have "s XOR ucast a XOR push_bit 8 (ucast b) XOR push_bit 16 (ucast c) XOR push_bit 24 (ucast d) =
      s XOR getU32 [a, b, c, d]"
  proof (rule bit_word_eqI)
    fix n assume n: "n < LENGTH(32)"
    consider "n < 8" | "8 \<le> n" "n < 16" | "16 \<le> n" "n < 24" | "24 \<le> n" by linarith
    then show "bit (s XOR ucast a XOR push_bit 8 (ucast b) XOR push_bit 16 (ucast c) XOR
        push_bit 24 (ucast d)) n \<longleftrightarrow> bit (s XOR getU32 [a, b, c, d]) n"
      using n by cases (auto simp: getU32_def upt_0_4 bit_simps dest: bit_byte_less)
  qed
  also have "B (B (B (B x))) = (crc_bit ^^ 32) x" for x
    unfolding B_def using funpow_add [of 8 8 crc_bit] funpow_add [of 16 16 crc_bit]
    by (simp add: fun_eq_iff)
  finally show ?thesis .
qed

lemma crc32Update_state_inj: "crc32Update s xs = crc32Update t xs \<Longrightarrow> s = t"
proof (induction xs arbitrary: s t)
  case Nil
  then show ?case by (simp add: crc32Update_def)
next
  case (Cons x xs)
  then have "(crc_bit ^^ 8) (s XOR ucast x) = (crc_bit ^^ 8) (t XOR ucast x)"
    by (simp add: crc32Update_steps)
  then have "s XOR ucast x = t XOR ucast x" by (rule crc_pow_inj)
  then show ?case by simp
qed

lemma crc32_burst:
  assumes "length xs = 4" and "length ys = 4" and "crc32 (pre @ xs @ post) = crc32 (pre @ ys @ post)"
  shows "xs = ys"
proof -
  let ?s = "crc32Update crc32Init pre"
  obtain a b c d where xs: "xs = [a, b, c, d]" using assms(1) by (auto simp: list_lengths)
  obtain a' b' c' d' where ys: "ys = [a', b', c', d']" using assms(2) by (auto simp: list_lengths)
  have "crc32Update (crc32Update ?s xs) post = crc32Update (crc32Update ?s ys) post"
    using assms(3) by (simp add: crc32_def crc32Final_def)
  then have "crc32Update ?s xs = crc32Update ?s ys" by (rule crc32Update_state_inj)
  then have "(crc_bit ^^ 32) (?s XOR getU32 xs) = (crc_bit ^^ 32) (?s XOR getU32 ys)"
    by (simp add: xs ys crc32Update_four)
  then have "?s XOR getU32 xs = ?s XOR getU32 ys" by (rule crc_pow_inj)
  then have "getU32 xs = getU32 ys" by simp
  then show ?thesis using u32_bytes_getU32 assms(1,2) by metis
qed

end
