(* ===== verification/Estop.thy ===== *)
theory Estop
  imports Crc32
begin

text \<open>
  The 12-byte emergency-stop frame, \<^verbatim>\<open>wire/estop_frame.hpp\<close>: four magic bytes, cause, origin, a
  sequence number and a CRC-32 over the first eight bytes; and the scanner that finds one inside
  arbitrary bytes of a serial stream.
\<close>

section \<open>Definitions\<close>

definition kEstopFrameBytes :: nat where
  "kEstopFrameBytes = 12"

definition kEstopCrcOffset :: nat where
  "kEstopCrcOffset = 8"

definition kEstopMagicByte :: byte where
  "kEstopMagicByte = 0xE5"

record EstopFrame =
  estop_cause :: u8
  estop_origin :: u8
  estop_seq :: u16

definition encodeEstop :: "EstopFrame \<Rightarrow> bytes \<Rightarrow> nat \<times> bytes" where
  "encodeEstop frame out =
    (if length out < kEstopFrameBytes then (0, out)
     else
       let out = out[0 := kEstopMagicByte];
           out = out[1 := kEstopMagicByte];
           out = out[2 := kEstopMagicByte];
           out = out[3 := kEstopMagicByte];
           out = subspan_put 4 putU8 (estop_cause frame) out;
           out = subspan_put 5 putU8 (estop_origin frame) out;
           out = subspan_put 6 putU16 (estop_seq frame) out;
           crc = crc32 (take kEstopCrcOffset out);
           out = subspan_put kEstopCrcOffset putU32 crc out
       in (kEstopFrameBytes, out))"

definition decodeEstop :: "bytes \<Rightarrow> EstopFrame result" where
  "decodeEstop inp =
    (if length inp < kEstopFrameBytes then Inl Truncated
     else if \<exists>i \<in> set [0..<4]. inp ! i \<noteq> kEstopMagicByte then Inl Malformed
     else
       let crc = getU32 (take 4 (drop kEstopCrcOffset inp)) in
       if crc32 (take kEstopCrcOffset inp) \<noteq> crc then Inl BadCrc
       else Inr \<lparr> estop_cause = getU8 (drop 4 inp), estop_origin = getU8 (drop 5 inp),
                  estop_seq = getU16 (drop 6 inp) \<rparr>)"

record EstopScanResult =
  scan_found :: bool
  scan_offset :: nat
  scan_frame :: EstopFrame

definition EstopFrame_new :: EstopFrame where
  "EstopFrame_new = \<lparr> estop_cause = 0, estop_origin = 0, estop_seq = 0 \<rparr>"

definition EstopScanResult_new :: EstopScanResult where
  "EstopScanResult_new = \<lparr> scan_found = False, scan_offset = 0, scan_frame = EstopFrame_new \<rparr>"

text \<open>The loop of \<^verbatim>\<open>scanForEstop\<close> from index \<open>i\<close> on.\<close>

function scanForEstop_from :: "nat \<Rightarrow> bytes \<Rightarrow> EstopScanResult" where
  "scanForEstop_from i stream =
    (if i + 4 \<le> length stream then
       (if stream ! i \<noteq> kEstopMagicByte \<or> stream ! (i + 1) \<noteq> kEstopMagicByte \<or>
           stream ! (i + 2) \<noteq> kEstopMagicByte \<or> stream ! (i + 3) \<noteq> kEstopMagicByte
        then scanForEstop_from (i + 1) stream
        else if i + kEstopFrameBytes > length stream then EstopScanResult_new
        else (case decodeEstop (take kEstopFrameBytes (drop i stream)) of
                Inr frame \<Rightarrow> \<lparr> scan_found = True, scan_offset = i, scan_frame = frame \<rparr>
              | Inl _ \<Rightarrow> scanForEstop_from (i + 1) stream))
     else EstopScanResult_new)"
  by auto
termination
  by (relation "measure (\<lambda>(i, stream). length stream - i)") auto

definition scanForEstop :: "bytes \<Rightarrow> EstopScanResult" where
  "scanForEstop stream = (if length stream < 4 then EstopScanResult_new else scanForEstop_from 0 stream)"

declare scanForEstop_from.simps [simp del]

section \<open>The wire image\<close>

definition estop_body :: "EstopFrame \<Rightarrow> bytes" where
  "estop_body f = [estop_cause f, estop_origin f] @ u16_bytes (estop_seq f)"

definition estop_head :: "EstopFrame \<Rightarrow> bytes" where
  "estop_head f = replicate 4 kEstopMagicByte @ estop_body f"

definition estop_bytes :: "EstopFrame \<Rightarrow> bytes" where
  "estop_bytes f = estop_head f @ u32_bytes (crc32 (estop_head f))"

lemma length_estop_body [simp]: "length (estop_body f) = 4"
  by (simp add: estop_body_def)

lemma length_estop_head [simp]: "length (estop_head f) = 8"
  by (simp add: estop_head_def)

lemma length_estop_bytes [simp]: "length (estop_bytes f) = 12"
  by (simp add: estop_bytes_def)

lemma estop_updates_poke:
  assumes "4 \<le> length out"
  shows "out[0 := m, Suc 0 := m, 2 := m, 3 := m] = poke 0 (replicate 4 m) out"
proof -
  obtain a b c d r where "out = a # b # c # d # r" using list_at_least_4 [OF assms] by blast
  then show ?thesis by (simp add: poke_def eval_nat_numeral)
qed

lemma encodeEstop_fits:
  assumes "12 \<le> length out"
  shows "encodeEstop f out = (12, poke 0 (estop_bytes f) out)"
proof -
  have head: "subspan_put 6 putU16 (estop_seq f) (subspan_put 5 putU8 (estop_origin f)
      (subspan_put 4 putU8 (estop_cause f) (poke 0 (replicate 4 kEstopMagicByte) out)))
      = poke 0 (estop_head f) out"
    using assms by (simp add: poke_poke_next estop_head_def estop_body_def)
  have "take 8 (poke 0 (estop_head f) out) = estop_head f"
    using take_poke_whole [of "estop_head f" out] by simp
  moreover have "subspan_put 8 putU32 v (poke 0 (estop_head f) out) = poke 0 (estop_head f @ u32_bytes v) out"
    for v using assms by (simp add: poke_poke_next)
  ultimately show ?thesis
    using assms head
    by (simp add: encodeEstop_def kEstopFrameBytes_def kEstopCrcOffset_def estop_updates_poke
        estop_bytes_def Let_def)
qed

lemma encodeEstop_refuses: "length out < 12 \<Longrightarrow> encodeEstop f out = (0, out)"
  by (simp add: encodeEstop_def kEstopFrameBytes_def)

lemma ex_upt_4: "(\<exists>i \<in> set [0..<4]. P i) \<longleftrightarrow> P 0 \<or> P 1 \<or> P 2 \<or> P (3::nat)"
  by (simp add: upt_0_4)

text \<open>The decoder accepts exactly the frames the encoder writes.\<close>

lemma list_eq_parts: "12 \<le> length xs \<Longrightarrow> xs = take 4 xs @ take 4 (drop 4 xs) @ take 4 (drop 8 xs) @ drop 12 xs"
  using append_take_drop_id [of 4 xs] append_take_drop_id [of 4 "drop 4 xs"]
    append_take_drop_id [of 4 "drop 8 xs"] by simp

lemma decodeEstop_parts:
  assumes "length m = 4" and "length b = 4" and "length c = 4"
  shows "decodeEstop (m @ b @ c @ rest) =
    (if m \<noteq> replicate 4 kEstopMagicByte then Inl Malformed
     else if u32_bytes (crc32 (m @ b)) \<noteq> c then Inl BadCrc
     else Inr \<lparr> estop_cause = b ! 0, estop_origin = b ! 1, estop_seq = getU16 (drop 2 b) \<rparr>)"
proof -
  let ?i = "m @ b @ c @ rest"
  have "replicate 4 kEstopMagicByte = [kEstopMagicByte, kEstopMagicByte, kEstopMagicByte, kEstopMagicByte]"
    by (simp add: eval_nat_numeral)
  moreover obtain m0 m1 m2 m3 where m: "m = [m0, m1, m2, m3]" using assms(1) by (auto simp: list_lengths)
  ultimately have magic: "(\<exists>i \<in> set [0..<4]. ?i ! i \<noteq> kEstopMagicByte) \<longleftrightarrow> m \<noteq> replicate 4 kEstopMagicByte"
    unfolding ex_upt_4 by auto
  obtain b0 b1 b2 b3 where b: "b = [b0, b1, b2, b3]" using assms(2) by (auto simp: list_lengths)
  have "getU8 (drop 4 ?i) = b ! 0" "getU8 (drop 5 ?i) = b ! 1" "getU16 (drop 6 ?i) = getU16 (drop 2 b)"
    by (simp_all add: m b getU8_def getU16_def)
  moreover have "take 8 ?i = m @ b" "take 4 (drop 8 ?i) = c" using assms by simp_all
  moreover have "(crc32 (m @ b) \<noteq> getU32 c) \<longleftrightarrow> u32_bytes (crc32 (m @ b)) \<noteq> c"
    using u32_bytes_getU32 [OF assms(3)] getU32_u32_bytes_end by metis
  moreover have "\<not> length ?i < 12" using assms by simp
  ultimately show ?thesis
    unfolding decodeEstop_def kEstopFrameBytes_def kEstopCrcOffset_def magic Let_def
    by (simp only: if_False)
qed

lemma decodeEstop_estop_bytes [simp]: "decodeEstop (estop_bytes f @ rest) = Inr f"
proof -
  have "decodeEstop (replicate 4 kEstopMagicByte @ estop_body f @
      u32_bytes (crc32 (replicate 4 kEstopMagicByte @ estop_body f)) @ rest) = Inr f"
    by (subst decodeEstop_parts) (simp_all add: estop_body_def)
  then show ?thesis by (simp add: estop_bytes_def estop_head_def)
qed

interpretation estop_codec: raw_codec estop_bytes encodeEstop decodeEstop "\<lambda>_. True"
  by unfold_locales
    (auto simp: encodeEstop_fits encodeEstop_refuses simp flip: length_0_conv)

text \<open>
  ESTOP round trip: a frame written into a buffer of at least twelve bytes takes twelve bytes
  and decodes to itself; a shorter buffer is refused and left alone.
\<close>

theorem estop_roundtrip:
  assumes "encodeEstop f out = (n, out')"
  shows "if length out < 12 then n = 0 \<and> out' = out
         else n = 12 \<and> length out' = length out \<and> decodeEstop (take n out') = Inr f"
proof (cases "length out < 12")
  case True
  then show ?thesis using assms by (simp add: encodeEstop_refuses)
next
  case False
  then have "n = 12" using assms by (simp add: encodeEstop_fits)
  then show ?thesis using estop_codec.roundtrip [OF TrueI assms] False by simp
qed

theorem estop_roundtrip_witness:
  "decodeEstop (take 12 (snd (encodeEstop \<lparr> estop_cause = 2, estop_origin = 1, estop_seq = 65535 \<rparr>
     (replicate 16 0)))) = Inr \<lparr> estop_cause = 2, estop_origin = 1, estop_seq = 65535 \<rparr>"
  using estop_roundtrip [of "\<lparr> estop_cause = 2, estop_origin = 1, estop_seq = 65535 \<rparr>" "replicate 16 0",
      OF prod.collapse [symmetric]]
  by (simp add: encodeEstop_fits)

section \<open>Corruption\<close>

text \<open>
  (C26) ESTOP integrity: a received 12-byte string that differs from a sent frame only inside the
  magic, only inside the cause/origin/sequence fields, or only inside the CRC is never accepted,
  however many bits of that field group changed.
\<close>

theorem estop_corruption_rejected:
  assumes "length bs = 12" and "bs \<noteq> estop_bytes f"
    and "lo \<in> {0, 4, 8}" and "\<forall>i < 12. \<not> (lo \<le> i \<and> i < lo + 4) \<longrightarrow> bs ! i = estop_bytes f ! i"
  shows "decodeEstop bs = Inl (if lo = 0 then Malformed else BadCrc)"
proof -
  let ?e = "estop_bytes f"
  define m b c where "m = take 4 bs" and "b = take 4 (drop 4 bs)" and "c = take 4 (drop 8 bs)"
  have len: "length m = 4" "length b = 4" "length c = 4" using assms(1) by (simp_all add: m_def b_def c_def)
  have parts: "bs = m @ b @ c @ []"
    using list_eq_parts [of bs] assms(1) by (simp add: m_def b_def c_def)
  have same: "take 4 (drop k bs) = take 4 (drop k ?e)" if "k \<in> {0, 4, 8}" "k \<noteq> lo" for k
    using assms that by (intro nth_equalityI) (auto simp: nth_append)
  have e: "take 4 ?e = replicate 4 kEstopMagicByte" "take 4 (drop 4 ?e) = estop_body f"
    "take 4 (drop 8 ?e) = u32_bytes (crc32 (replicate 4 kEstopMagicByte @ estop_body f))"
    by (simp_all add: estop_bytes_def estop_head_def)
  have eall: "?e = replicate 4 kEstopMagicByte @ estop_body f @
      u32_bytes (crc32 (replicate 4 kEstopMagicByte @ estop_body f))"
    by (simp add: estop_bytes_def estop_head_def)
  note dec = decodeEstop_parts [OF len, of "[]", folded parts]
  consider "lo = 0" | "lo = 4" | "lo = 8" using assms(3) by blast
  then show ?thesis
  proof cases
    case 1
    then have "b = estop_body f" "c = u32_bytes (crc32 (replicate 4 kEstopMagicByte @ estop_body f))"
      using same [of 4] same [of 8] e by (simp_all add: b_def c_def)
    then have "m \<noteq> replicate 4 kEstopMagicByte" using assms(2) parts eall by auto
    then show ?thesis using dec 1 by simp
  next
    case 2
    then have m: "m = replicate 4 kEstopMagicByte"
      and c: "c = u32_bytes (crc32 (replicate 4 kEstopMagicByte @ estop_body f))"
      using same [of 0] same [of 8] e by (simp_all add: m_def c_def)
    have "b \<noteq> estop_body f" using assms(2) parts eall m c by auto
    then have "crc32 (m @ b) \<noteq> crc32 (m @ estop_body f)"
      using crc32_burst [of b "estop_body f" m "[]"] len(2) by auto
    then have "u32_bytes (crc32 (m @ b)) \<noteq> c"
      unfolding c m by (metis getU32_u32_bytes_end)
    then show ?thesis using dec 2 m by simp
  next
    case 3
    then have m: "m = replicate 4 kEstopMagicByte" and b: "b = estop_body f"
      using same [of 0] same [of 4] e by (simp_all add: m_def b_def)
    have "u32_bytes (crc32 (m @ b)) \<noteq> c" using assms(2) parts eall m b by auto
    then show ?thesis using dec 3 m by simp
  qed
qed

theorem estop_corruption_rejected_witness:
  "decodeEstop ((estop_bytes \<lparr> estop_cause = 2, estop_origin = 1, estop_seq = 7 \<rparr>)[4 := 3]) = Inl BadCrc"
proof -
  let ?f = "\<lparr> estop_cause = 2, estop_origin = 1, estop_seq = 7 \<rparr>"
  have "estop_bytes ?f ! 4 = 2"
    by (simp add: estop_bytes_def estop_head_def estop_body_def nth_append)
  then have "(estop_bytes ?f)[4 := 3] \<noteq> estop_bytes ?f"
    using nth_list_update_eq [of 4 "estop_bytes ?f" 3] by (auto simp del: nth_list_update_eq)
  moreover have "\<forall>i < 12. \<not> (4 \<le> i \<and> i < 4 + 4) \<longrightarrow> (estop_bytes ?f)[4 := 3] ! i = estop_bytes ?f ! i"
    by auto
  ultimately show ?thesis using estop_corruption_rejected [of "(estop_bytes ?f)[4 := 3]" ?f 4] by simp
qed

section \<open>The scanner\<close>

text \<open>A valid ESTOP frame starts at offset \<open>j\<close>.\<close>

definition estop_at :: "bytes \<Rightarrow> nat \<Rightarrow> bool" where
  "estop_at stream j \<longleftrightarrow> j + 12 \<le> length stream \<and> isOk (decodeEstop (take 12 (drop j stream)))"

lemma decodeEstop_magic:
  assumes "decodeEstop (take 12 (drop j stream)) = Inr f" and "j + 12 \<le> length stream" and "k < 4"
  shows "stream ! (j + k) = kEstopMagicByte"
proof -
  have "\<not> (\<exists>i \<in> set [0..<4]. take 12 (drop j stream) ! i \<noteq> kEstopMagicByte)"
    using assms(1,2) by (simp add: decodeEstop_def kEstopFrameBytes_def split: if_splits)
  then have "take 12 (drop j stream) ! k = kEstopMagicByte" using assms(3) by auto
  then show ?thesis using assms(2,3) by simp
qed

lemma estop_at_magic:
  assumes "estop_at stream j"
  shows "stream ! j = kEstopMagicByte" "stream ! (j + 1) = kEstopMagicByte"
    "stream ! (j + 2) = kEstopMagicByte" "stream ! (j + 3) = kEstopMagicByte"
proof -
  obtain f where f: "decodeEstop (take 12 (drop j stream)) = Inr f" "j + 12 \<le> length stream"
    using assms by (cases "decodeEstop (take 12 (drop j stream))") (auto simp: estop_at_def)
  show "stream ! j = kEstopMagicByte" "stream ! (j + 1) = kEstopMagicByte"
    "stream ! (j + 2) = kEstopMagicByte" "stream ! (j + 3) = kEstopMagicByte"
    using decodeEstop_magic [OF f, of 0] decodeEstop_magic [OF f, of 1] decodeEstop_magic [OF f, of 2]
      decodeEstop_magic [OF f, of 3] by simp_all
qed

definition scan_spec :: "nat \<Rightarrow> bytes \<Rightarrow> EstopScanResult \<Rightarrow> bool" where
  "scan_spec i stream r \<longleftrightarrow>
    (if scan_found r
     then i \<le> scan_offset r \<and> scan_offset r + 12 \<le> length stream \<and>
       decodeEstop (take 12 (drop (scan_offset r) stream)) = Inr (scan_frame r) \<and>
       (\<forall>k. i \<le> k \<and> k < scan_offset r \<longrightarrow> \<not> estop_at stream k)
     else (\<forall>k \<ge> i. \<not> estop_at stream k))"

lemma scan_spec_skip:
  assumes "scan_spec (i + 1) stream r" and "\<not> estop_at stream i"
  shows "scan_spec i stream r"
  using assms unfolding scan_spec_def by (metis Suc_eq_plus1 Suc_leD le_antisym not_less_eq_eq)

lemma scanForEstop_from_spec: "scan_spec i stream (scanForEstop_from i stream)"
proof (induction i stream rule: scanForEstop_from.induct)
  case (1 i stream)
  show ?case
  proof (cases "i + 4 \<le> length stream")
    case False
    then have "scanForEstop_from i stream = EstopScanResult_new" by (subst scanForEstop_from.simps) simp
    then show ?thesis using False by (auto simp: scan_spec_def EstopScanResult_new_def estop_at_def)
  next
    case len: True
    show ?thesis
    proof (cases "stream ! i \<noteq> kEstopMagicByte \<or> stream ! (i + 1) \<noteq> kEstopMagicByte \<or>
           stream ! (i + 2) \<noteq> kEstopMagicByte \<or> stream ! (i + 3) \<noteq> kEstopMagicByte")
      case True
      have "\<not> estop_at stream i" using True estop_at_magic [of stream i] by blast
      moreover have "scanForEstop_from i stream = scanForEstop_from (i + 1) stream"
        using len True by (subst scanForEstop_from.simps) simp
      ultimately show ?thesis using scan_spec_skip "1.IH"(1) [OF len True] by simp
    next
      case magic: False
      show ?thesis
      proof (cases "i + kEstopFrameBytes > length stream")
        case True
        then have "scanForEstop_from i stream = EstopScanResult_new"
          using len magic by (subst scanForEstop_from.simps) simp
        then show ?thesis
          using True by (auto simp: scan_spec_def EstopScanResult_new_def estop_at_def kEstopFrameBytes_def)
      next
        case fits: False
        show ?thesis
        proof (cases "decodeEstop (take kEstopFrameBytes (drop i stream))")
          case (Inl e)
          then have "scanForEstop_from i stream = scanForEstop_from (i + 1) stream"
            using len magic fits by (subst scanForEstop_from.simps) simp
          moreover have "\<not> estop_at stream i" using Inl by (simp add: estop_at_def kEstopFrameBytes_def)
          ultimately show ?thesis using scan_spec_skip "1.IH"(2) [OF len magic fits Inl] by simp
        next
          case (Inr f)
          then have "scanForEstop_from i stream = \<lparr> scan_found = True, scan_offset = i, scan_frame = f \<rparr>"
            using len magic fits by (subst scanForEstop_from.simps) simp
          then show ?thesis using fits Inr by (auto simp: scan_spec_def kEstopFrameBytes_def)
        qed
      qed
    qed
  qed
qed

lemma scanForEstop_from_fails:
  "\<not> scan_found (scanForEstop_from i stream) \<Longrightarrow> scanForEstop_from i stream = EstopScanResult_new"
proof (induction i stream rule: scanForEstop_from.induct)
  case (1 i stream)
  show ?case
    using "1.prems" "1.IH"
    by (subst (asm) scanForEstop_from.simps, subst scanForEstop_from.simps)
       (auto split: if_splits sum.splits)
qed

text \<open>
  (C38) The ESTOP scanner is sound and complete on every byte stream: it reports a frame exactly
  when some 12-byte window of the stream is a valid ESTOP frame, and then it reports the first such
  window with that window's contents, whatever bytes surround it.
\<close>

theorem scanForEstop_finds_first:
  "scan_found (scanForEstop stream) = (\<exists>k. estop_at stream k) \<and>
   (if scan_found (scanForEstop stream)
    then scan_offset (scanForEstop stream) = (LEAST k. estop_at stream k) \<and>
         decodeEstop (take 12 (drop (scan_offset (scanForEstop stream)) stream)) =
           Inr (scan_frame (scanForEstop stream))
    else scanForEstop stream = EstopScanResult_new)"
proof (cases "length stream < 4")
  case True
  then show ?thesis by (simp add: scanForEstop_def EstopScanResult_new_def estop_at_def)
next
  case False
  let ?r = "scanForEstop stream"
  have spec: "scan_spec 0 stream ?r"
    using scanForEstop_from_spec [of 0 stream] False by (simp add: scanForEstop_def)
  show ?thesis
  proof (cases "scan_found ?r")
    case found: True
    then have "estop_at stream (scan_offset ?r)" and "\<forall>k < scan_offset ?r. \<not> estop_at stream k"
      using spec by (simp_all add: scan_spec_def estop_at_def)
    then have "scan_offset ?r = (LEAST k. estop_at stream k)"
      by (metis LeastI Least_le linorder_not_less order_antisym)
    then show ?thesis using found spec \<open>estop_at stream (scan_offset ?r)\<close>
      by (auto simp: scan_spec_def)
  next
    case False
    then show ?thesis
      using spec scanForEstop_from_fails [of 0 stream] \<open>\<not> length stream < 4\<close>
      by (simp add: scan_spec_def scanForEstop_def)
  qed
qed

end
