(* ===== verification/Cobs.thy ===== *)
theory Cobs
  imports Slop_Prelude
begin

text \<open>
  COBS framing of the serial binding, \<^verbatim>\<open>wire/serial_cobs.hpp\<close>.  The encoder is the source's
  single-pass loop over a destination buffer with a back-patched code byte (\<open>codeIndex\<close>), the decoder
  its two nested loops; both are related to block-structured reference functions, from which the
  round trip, the absence of the delimiter byte and the documented buffer size follow.
\<close>

section \<open>Definitions\<close>

text \<open>The loop of \<^verbatim>\<open>cobsEncode\<close>: \<open>wi\<close>, \<open>ci\<close>, \<open>code\<close>, \<open>fz\<close> are \<open>writeIndex\<close>, \<open>codeIndex\<close>, \<open>code\<close>,
  \<open>finalZero\<close>.  The result is the returned size and the buffer.\<close>

fun cobsEncode_loop :: "bytes \<Rightarrow> nat \<Rightarrow> nat \<Rightarrow> u8 \<Rightarrow> bool \<Rightarrow> bytes \<Rightarrow> nat \<times> bytes" where
  "cobsEncode_loop [] wi ci code fz dst =
    (if fz \<or> code \<noteq> 1 then (wi, dst[ci := code]) else (wi - 1, dst))"
| "cobsEncode_loop (b # src) wi ci code fz dst =
    (if b = 0 then
       let dst = dst[ci := code] in
       if wi \<ge> length dst then (0, dst)
       else cobsEncode_loop src (wi + 1) wi 1 True dst
     else if wi \<ge> length dst then (0, dst)
     else
       let dst = dst[wi := b]; wi = wi + 1; code = code + 1 in
       if code = 0xFF then
         let dst = dst[ci := code] in
         if wi \<ge> length dst then (0, dst)
         else cobsEncode_loop src (wi + 1) wi 1 False dst
       else cobsEncode_loop src wi ci code fz dst)"

definition cobsEncode :: "bytes \<Rightarrow> bytes \<Rightarrow> nat \<times> bytes" where
  "cobsEncode src dst = (if dst = [] then (0, dst) else cobsEncode_loop src 1 0 1 True dst)"

text \<open>The inner copy loop of \<^verbatim>\<open>cobsDecode\<close> with \<open>n\<close> iterations to go.\<close>

fun cobsDecode_copy :: "nat \<Rightarrow> nat \<Rightarrow> nat \<Rightarrow> bytes \<Rightarrow> bytes \<Rightarrow> (nat \<times> nat \<times> bytes) result" where
  "cobsDecode_copy 0 ri wi src dst = Inr (ri, wi, dst)"
| "cobsDecode_copy (Suc n) ri wi src dst =
    (if ri \<ge> length src then Inl Truncated
     else if wi \<ge> length dst then Inl CapacityExceeded
     else cobsDecode_copy n (ri + 1) (wi + 1) src (dst[wi := src ! ri]))"

lemma cobsDecode_copy_index:
  "cobsDecode_copy n ri wi src dst = Inr (ri', wi', dst') \<Longrightarrow>
     ri' = ri + n \<and> wi' = wi + n \<and> length dst' = length dst"
  by (induction n ri wi src dst rule: cobsDecode_copy.induct) (auto split: if_splits)

function cobsDecode_loop :: "nat \<Rightarrow> nat \<Rightarrow> bytes \<Rightarrow> bytes \<Rightarrow> (nat \<times> bytes) result" where
  "cobsDecode_loop ri wi src dst =
    (if ri < length src then
       let code = src ! ri in
       if code = 0 then Inl Malformed
       else
         (case cobsDecode_copy (unat code - 1) (ri + 1) wi src dst of
            Inl e \<Rightarrow> Inl e
          | Inr (ri', wi', dst') \<Rightarrow>
              if code \<noteq> 0xFF \<and> ri' < length src then
                (if wi' \<ge> length dst' then Inl CapacityExceeded
                 else cobsDecode_loop ri' (wi' + 1) src (dst'[wi' := 0]))
              else cobsDecode_loop ri' wi' src dst')
     else Inr (wi, dst))"
  by pat_completeness auto
termination
  by (relation "measure (\<lambda>(ri, wi, src, dst). length src - ri)")
     (auto dest!: sym [THEN cobsDecode_copy_index] cobsDecode_copy_index)

definition cobsDecode :: "bytes \<Rightarrow> bytes \<Rightarrow> (nat \<times> bytes) result" where
  "cobsDecode src dst = cobsDecode_loop 0 0 src dst"

declare cobsDecode_loop.simps [simp del]

section \<open>Block-structured reference\<close>

text \<open>\<open>cobs_enc run fz src\<close>: the bytes still owed when \<open>run\<close> is the current unfinished block.\<close>

definition cobs_block :: "bytes \<Rightarrow> bytes" where
  "cobs_block run = word_of_nat (Suc (length run)) # run"

fun cobs_enc :: "bytes \<Rightarrow> bool \<Rightarrow> bytes \<Rightarrow> bytes" where
  "cobs_enc run fz [] = (if fz \<or> run \<noteq> [] then cobs_block run else [])"
| "cobs_enc run fz (b # src) =
    (if b = 0 then cobs_block run @ cobs_enc [] True src
     else if Suc (length run) = 254 then cobs_block (run @ [b]) @ cobs_enc [] False src
     else cobs_enc (run @ [b]) fz src)"

text \<open>Destination bytes the loop claims for the rest of the input, \<open>k\<close> bytes into a block.\<close>

fun cobs_need :: "nat \<Rightarrow> bytes \<Rightarrow> nat" where
  "cobs_need k [] = 0"
| "cobs_need k (b # src) =
    (if b = 0 then Suc (cobs_need 0 src)
     else if Suc k = 254 then Suc (Suc (cobs_need 0 src))
     else Suc (cobs_need (Suc k) src))"

function cobs_dec :: "bytes \<Rightarrow> bytes" where
  "cobs_dec [] = []"
| "cobs_dec (c # s) =
    take (unat c - 1) s @ (if c \<noteq> 0xFF \<and> drop (unat c - 1) s \<noteq> [] then [0] else []) @
    cobs_dec (drop (unat c - 1) s)"
  by pat_completeness auto
termination
  by (relation "measure length") auto

function cobs_wf :: "bytes \<Rightarrow> bool" where
  "cobs_wf [] = True"
| "cobs_wf (c # s) = (c \<noteq> 0 \<and> unat c - 1 \<le> length s \<and> cobs_wf (drop (unat c - 1) s))"
  by pat_completeness auto
termination
  by (relation "measure length") auto

lemma unat_block_code: "n \<le> 254 \<Longrightarrow> unat (word_of_nat (Suc n) :: byte) = Suc n"
  by (simp only: unat_of_nat) simp

lemma length_cobs_block [simp]: "length (cobs_block run) = Suc (length run)"
  by (simp add: cobs_block_def)

lemma cobs_block_code_ff: "n \<le> 254 \<Longrightarrow> (word_of_nat (Suc n) :: byte) = 0xFF \<longleftrightarrow> n = 254"
  using unat_block_code [of n] by (auto simp: word_unat_eq_iff simp del: of_nat_Suc)

lemma cobs_block_code_0: "n \<le> 254 \<Longrightarrow> (word_of_nat (Suc n) :: byte) \<noteq> 0"
  using unat_block_code [of n] by (auto simp: word_unat_eq_iff simp del: of_nat_Suc)

lemma cobs_dec_block:
  assumes "length run \<le> 254"
  shows "cobs_dec (cobs_block run @ s) =
    run @ (if length run \<noteq> 254 \<and> s \<noteq> [] then [0] else []) @ cobs_dec s"
    and "cobs_wf (cobs_block run @ s) = cobs_wf s"
  using assms
  by (simp_all add: cobs_block_def unat_block_code cobs_block_code_ff cobs_block_code_0 del: of_nat_Suc)

lemma cobs_enc_True_nonempty: "cobs_enc run True src \<noteq> []"
  by (induction run True src rule: cobs_enc.induct) (auto simp: cobs_block_def)

lemma cobs_dec_enc: "length run < 254 \<Longrightarrow> cobs_dec (cobs_enc run fz src) = run @ src"
proof (induction run fz src rule: cobs_enc.induct)
  case (1 run fz)
  then show ?case using cobs_dec_block(1) [of run "[]"] by auto
next
  case (2 run fz b src)
  then show ?case
    by (auto simp: cobs_dec_block cobs_enc_True_nonempty)
qed

lemma cobs_wf_enc: "length run < 254 \<Longrightarrow> cobs_wf (cobs_enc run fz src)"
proof (induction run fz src rule: cobs_enc.induct)
  case (1 run fz)
  then show ?case using cobs_dec_block(2) [of run "[]"] by auto
next
  case (2 run fz b src)
  then show ?case by (auto simp: cobs_dec_block)
qed

lemma cobs_enc_no_zero: "length run < 254 \<Longrightarrow> 0 \<notin> set run \<Longrightarrow> 0 \<notin> set (cobs_enc run fz src)"
proof (induction run fz src rule: cobs_enc.induct)
  case (1 run fz)
  then show ?case using cobs_block_code_0 [of "length run"] by (auto simp: cobs_block_def)
next
  case (2 run fz b src)
  then show ?case
    using cobs_block_code_0 [of "length run"] cobs_block_code_0 [of 254]
    by (auto simp: cobs_block_def simp del: of_nat_Suc)
qed

lemma cobs_need_bound: "k < 254 \<Longrightarrow> cobs_need k src \<le> length src + (k + length src) div 254"
proof (induction k src rule: cobs_need.induct)
  case (1 k)
  then show ?case by simp
next
  case (2 k b src)
  show ?case
  proof (cases "b \<noteq> 0 \<and> Suc k = 254")
    case True
    then have "cobs_need 0 src \<le> length src + length src div 254" using "2.IH"(2) by simp
    moreover have "(k + length (b # src)) div 254 = Suc (length src div 254)"
      using True by (simp add: div_add_self1)
    ultimately show ?thesis using True by simp
  next
    case False
    then show ?thesis
      using 2 div_le_mono [of "length src" "k + Suc (length src)" 254] by (cases "b = 0") auto
  qed
qed

section \<open>The loops implement the reference\<close>

lemma list_update_mid: "ci = length don \<Longrightarrow> (don @ x # r)[ci := y] = don @ y # r"
  by (simp add: list_update_append)

definition cobs_loop_ok :: "bytes \<Rightarrow> bytes \<Rightarrow> bool \<Rightarrow> bytes \<Rightarrow> bytes \<Rightarrow> nat \<times> bytes \<Rightarrow> bool" where
  "cobs_loop_ok don run fz rest src r \<longleftrightarrow>
     length (snd r) = length don + 1 + length run + length rest \<and>
     (if cobs_need (length run) src \<le> length rest
      then take (fst r) (snd r) = don @ cobs_enc run fz src \<and> fst r = length (don @ cobs_enc run fz src)
      else fst r = 0)"

lemma cobsEncode_loop_spec:
  "length run < 254 \<Longrightarrow>
   cobs_loop_ok don run fz rest src (cobsEncode_loop src (length don + 1 + length run) (length don)
     (word_of_nat (Suc (length run))) fz (don @ x # run @ rest))"
proof (induction src arbitrary: fz don x run rest)
  case Nil
  have "(word_of_nat (Suc (length run)) :: byte) = 1 \<longleftrightarrow> run = []"
    using Nil unat_block_code [of "length run"] by (auto simp: word_unat_eq_iff simp del: of_nat_Suc)
  then show ?case
    by (auto simp: cobs_loop_ok_def cobs_block_def list_update_mid simp del: of_nat_Suc)
next
  case (Cons b src)
  note IH = Cons.IH and run = Cons.prems
  let ?code = "word_of_nat (Suc (length run)) :: byte"
  have one [simp]: "(word_of_nat (Suc 0) :: byte) = 1" by simp
  show ?case
  proof (cases "b = 0")
    case zero: True
    show ?thesis
    proof (cases rest)
      case Nil
      then show ?thesis using zero by (simp add: cobs_loop_ok_def Let_def)
    next
      case (Cons y rest')
      have "cobs_loop_ok (don @ cobs_block run) [] True rest' src
         (cobsEncode_loop src (length (don @ cobs_block run) + 1 + length ([] :: bytes)) (length (don @ cobs_block run))
           (word_of_nat (Suc (length ([] :: bytes)))) True ((don @ cobs_block run) @ y # [] @ rest'))"
        by (rule IH) simp
      then show ?thesis
        using zero Cons
        by (auto simp: cobs_loop_ok_def Let_def list_update_mid cobs_block_def simp del: of_nat_Suc split: if_splits)
    qed
  next
    case nonzero: False
    show ?thesis
    proof (cases rest)
      case Nil
      then show ?thesis using nonzero by (simp add: cobs_loop_ok_def)
    next
      case (Cons y rest')
      have put: "(don @ x # run @ rest)[length don + 1 + length run := b] = don @ x # (run @ [b]) @ rest'"
        using list_update_mid [of "length don + 1 + length run" "don @ x # run" y rest' b] Cons by simp
      have code: "?code + 1 = word_of_nat (Suc (length (run @ [b])))" by simp
      have ff: "?code + 1 = 0xFF \<longleftrightarrow> Suc (length run) = 254"
        unfolding code using cobs_block_code_ff [of "length (run @ [b])"] run by (simp del: of_nat_Suc)
      show ?thesis
      proof (cases "Suc (length run) = 254")
        case full: True
        show ?thesis
        proof (cases rest')
          case Nil
          then show ?thesis
            using nonzero Cons full put ff by (simp add: cobs_loop_ok_def Let_def del: of_nat_Suc)
        next
          case rest': (Cons z rest'')
          define D where "D = don @ cobs_block (run @ [b])"
          have D: "length D = Suc (Suc (length don + length run))" by (simp add: D_def)
          have "cobs_loop_ok D [] False rest'' src
             (cobsEncode_loop src (length D + 1 + length ([] :: bytes)) (length D)
               (word_of_nat (Suc (length ([] :: bytes)))) False (D @ z # [] @ rest''))"
            by (rule IH) simp
          moreover have c255: "?code + 1 = 0xFF" using ff full by blast
          have upd: "D @ z # rest'' = don @ 255 # run @ b # z # rest''"
            using c255 unfolding code by (simp add: cobs_block_def D_def del: of_nat_Suc)
          have "cobsEncode_loop (b # src) (length don + 1 + length run) (length don) ?code fz
              (don @ x # run @ rest) = cobsEncode_loop src (Suc (length D)) (length D) 1 False (D @ z # rest'')"
            using nonzero Cons rest' put c255 D unfolding upd
            by (simp add: Let_def list_update_mid del: of_nat_Suc)
          moreover have "cobs_enc run fz (b # src) = cobs_block (run @ [b]) @ cobs_enc [] False src"
            using nonzero full by simp
          ultimately show ?thesis
            using nonzero Cons full rest' D
            by (auto simp: cobs_loop_ok_def D_def simp del: of_nat_Suc cobs_enc.simps
                cobsEncode_loop.simps split: if_splits)
        qed
      next
        case False
        then have "cobs_loop_ok don (run @ [b]) fz rest' src
           (cobsEncode_loop src (length don + 1 + length (run @ [b])) (length don)
             (word_of_nat (Suc (length (run @ [b])))) fz (don @ x # (run @ [b]) @ rest'))"
          using run by (intro IH) simp
        then show ?thesis
          using nonzero Cons False put ff code
          by (auto simp: cobs_loop_ok_def Let_def simp del: of_nat_Suc split: if_splits)
      qed
    qed
  qed
qed

lemma cobsEncode_spec:
  assumes "cobsEncode src dst = (n, dst')"
  shows "length dst' = length dst \<and>
    (if 1 + cobs_need 0 src \<le> length dst
     then take n dst' = cobs_enc [] True src \<and> n = length (cobs_enc [] True src) else n = 0)"
proof (cases dst)
  case Nil
  then show ?thesis using assms by (simp add: cobsEncode_def)
next
  case (Cons x rest)
  have "cobs_loop_ok [] [] True rest src (n, dst')"
    using cobsEncode_loop_spec [of "[]" "[]" True rest src x] assms Cons by (simp add: cobsEncode_def)
  then show ?thesis using Cons by (auto simp: cobs_loop_ok_def split: if_splits)
qed

lemma cobsDecode_copy_spec:
  "ri + n \<le> length src \<Longrightarrow> wi + n \<le> length dst \<Longrightarrow>
   cobsDecode_copy n ri wi src dst = Inr (ri + n, wi + n, poke wi (take n (drop ri src)) dst)"
proof (induction n ri wi src dst rule: cobsDecode_copy.induct)
  case (1 ri wi src dst)
  then show ?case by simp
next
  case (2 n ri wi src dst)
  have "take (Suc n) (drop ri src) = [src ! ri] @ take n (drop (Suc ri) src)"
    using 2 by (simp add: drop_eq_nth_Cons)
  moreover have "poke (Suc wi) (take n (drop (Suc ri) src)) (dst[wi := src ! ri]) =
      poke wi ([src ! ri] @ take n (drop (Suc ri) src)) dst"
    using 2 by (simp only: list_update_poke) (subst poke_poke_next, auto)
  ultimately show ?case using 2 by simp
qed

lemma cobsDecode_loop_spec:
  "s = drop ri src \<Longrightarrow> cobs_wf s \<Longrightarrow> wi + length (cobs_dec s) \<le> length dst \<Longrightarrow>
   cobsDecode_loop ri wi src dst = Inr (wi + length (cobs_dec s), poke wi (cobs_dec s) dst)"
proof (induction s arbitrary: ri wi dst rule: cobs_dec.induct)
  case 1
  then show ?case by (subst cobsDecode_loop.simps) simp
next
  case (2 c s)
  let ?n = "unat c - 1"
  have c: "ri < length src" "src ! ri = c" "s = drop (Suc ri) src"
    using nth_tl_drop "2.prems"(1) by metis+
  have wf: "c \<noteq> 0" "?n \<le> length s" "cobs_wf (drop ?n s)" using "2.prems"(2) by simp_all
  have dec: "cobs_dec (c # s) = take ?n s @
      (if c \<noteq> 0xFF \<and> drop ?n s \<noteq> [] then [0] else []) @ cobs_dec (drop ?n s)" by simp
  have copy: "cobsDecode_copy ?n (ri + 1) wi src dst = Inr (ri + 1 + ?n, wi + ?n, poke wi (take ?n s) dst)"
    using wf(2) "2.prems"(3) c cobsDecode_copy_spec [of "ri + 1" ?n src wi dst] unfolding dec by simp
  have more: "ri + 1 + ?n < length src \<longleftrightarrow> drop ?n s \<noteq> []" using c wf(2) by auto
  have rest: "drop ?n s = drop (ri + 1 + ?n) src" using c by (simp add: add.commute)
  show ?case
  proof (cases "c \<noteq> 0xFF \<and> drop ?n s \<noteq> []")
    case True
    let ?d = "poke wi (take ?n s @ [0]) dst"
    have cap: "wi + ?n < length dst" using "2.prems"(3) wf(2) True unfolding dec by simp
    have d: "(poke wi (take ?n s) dst)[wi + ?n := 0] = ?d"
      using cap wf(2) by (subst list_update_poke) (simp_all add: poke_poke_next)
    have "cobsDecode_loop (ri + 1 + ?n) (wi + ?n + 1) src ?d =
        Inr (wi + ?n + 1 + length (cobs_dec (drop ?n s)), poke (wi + ?n + 1) (cobs_dec (drop ?n s)) ?d)"
      using "2.prems"(3) wf True unfolding dec by (intro "2.IH" [OF rest wf(3)]) simp
    moreover have "poke (wi + ?n + 1) (cobs_dec (drop ?n s)) ?d = poke wi (cobs_dec (c # s)) dst"
      using wf(2) cap True unfolding dec by (subst poke_poke_next) simp_all
    moreover have "cobsDecode_loop ri wi src dst = cobsDecode_loop (ri + 1 + ?n) (wi + ?n + 1) src ?d"
      using c wf copy True more cap d by (subst cobsDecode_loop.simps) simp
    ultimately show ?thesis using True wf(2) unfolding dec by simp
  next
    case False
    let ?d = "poke wi (take ?n s) dst"
    have dec': "cobs_dec (c # s) = take ?n s @ cobs_dec (drop ?n s)"
      unfolding dec using False by (simp only: if_False append_Nil)
    have cap: "wi + ?n \<le> length dst" using "2.prems"(3) wf(2) unfolding dec' by simp
    have "cobsDecode_loop (ri + 1 + ?n) (wi + ?n) src ?d =
        Inr (wi + ?n + length (cobs_dec (drop ?n s)), poke (wi + ?n) (cobs_dec (drop ?n s)) ?d)"
      using "2.prems"(3) wf unfolding dec' by (intro "2.IH" [OF rest wf(3)]) simp
    moreover have "poke (wi + ?n) (cobs_dec (drop ?n s)) ?d = poke wi (cobs_dec (c # s)) dst"
      using wf(2) cap unfolding dec' by (subst poke_poke_next) simp_all
    moreover have "cobsDecode_loop ri wi src dst = cobsDecode_loop (ri + 1 + ?n) (wi + ?n) src ?d"
      using c wf copy False more by (subst cobsDecode_loop.simps) auto
    ultimately show ?thesis using wf(2) unfolding dec' by simp
  qed
qed

section \<open>Properties\<close>

text \<open>
  COBS round trip: whatever the encoder writes contains no zero byte (so the delimiter is
  unambiguous) and decodes, into any buffer large enough for the payload, to exactly the payload.
\<close>

theorem cobs_roundtrip:
  assumes "cobsEncode src dst = (n, dst')" and "n \<noteq> 0" and "length src \<le> length out"
  shows "0 \<notin> set (take n dst') \<and> cobsDecode (take n dst') out = Inr (length src, poke 0 src out)"
proof -
  have enc: "take n dst' = cobs_enc [] True src"
    using cobsEncode_spec [OF assms(1)] assms(2) by (auto split: if_splits)
  then show ?thesis
    using cobs_enc_no_zero [of "[]" True src] assms(3)
      cobsDecode_loop_spec [of "take n dst'" 0 "take n dst'" 0 out]
    by (simp add: cobsDecode_def cobs_dec_enc cobs_wf_enc)
qed

theorem cobs_roundtrip_witness:
  "cobsDecode (take 5 (snd (cobsEncode [7, 0, 9, 8] (replicate 6 0)))) (replicate 4 0) = Inr (4, [7, 0, 9, 8])"
proof -
  have e: "cobsEncode [7, 0, 9, 8] (replicate 6 0) = (5, [2, 7, 3, 9, 8, 0])" by code_simp
  show ?thesis
    using cobs_roundtrip [OF e, of "replicate 4 0"] by (simp add: e poke_def)
qed

lemma length_cobs_enc: "length run < 254 \<Longrightarrow>
    length (cobs_enc run fz src) \<le> 1 + length run + cobs_need (length run) src"
  by (induction run fz src rule: cobs_enc.induct) auto

text \<open>
  COBS sizing: a destination of the documented size, payload plus one byte per 254 plus one,
  is always enough, and the encoding never exceeds that size.
\<close>

theorem cobs_capacity:
  assumes "length src + length src div 254 + 1 \<le> length dst"
  shows "fst (cobsEncode src dst) \<noteq> 0 \<and>
         fst (cobsEncode src dst) \<le> length src + length src div 254 + 1"
proof -
  obtain n dst' where e: "cobsEncode src dst = (n, dst')" by fastforce
  have need: "1 + cobs_need 0 src \<le> length src + length src div 254 + 1"
    using cobs_need_bound [of 0 src] by simp
  then have "n = length (cobs_enc [] True src)"
    using cobsEncode_spec [OF e] assms by (auto split: if_splits)
  then show ?thesis
    using e need length_cobs_enc [of "[]" True src] cobs_enc_True_nonempty [of "[]" src] by auto
qed

theorem cobs_capacity_witness:
  "fst (cobsEncode (replicate 254 1) (replicate 256 0)) \<noteq> 0"
  using cobs_capacity [of "replicate 254 1" "replicate 256 0"] by simp

end
