(* ===== verification/Raw_Frames.thy ===== *)
theory Raw_Frames
  imports Byte_IO Serial_Arith
begin

text \<open>
  The small fixed-layout payloads of \<^verbatim>\<open>wire/raw/\<close>: BEACON, CATALOG_READY, CLOCK, PING/PONG, PROBE and
  ACKMASK, with the receive-window tracker \<open>AckTracker\<close> and the clock-offset computation.
\<close>

section \<open>Definitions: acknowledgement mask\<close>

record AckMask =
  am_base_seq :: u16
  am_mask :: u32

definition kAckMaskBytes :: nat where
  "kAckMaskBytes = 6"

definition kAckMaskWindow :: nat where
  "kAckMaskWindow = 32"

definition encodeAckMask :: "AckMask \<Rightarrow> bytes \<Rightarrow> nat \<times> bytes" where
  "encodeAckMask m out =
    (if length out < kAckMaskBytes then (0, out)
     else
       let out = subspan_put 0 putU16 (am_base_seq m) out;
           out = subspan_put 2 putU32 (am_mask m) out
       in (kAckMaskBytes, out))"

definition decodeAckMask :: "bytes \<Rightarrow> AckMask result" where
  "decodeAckMask inp =
    (if length inp < kAckMaskBytes then Inl Truncated
     else Inr \<lparr> am_base_seq = getU16 (take 2 (drop 0 inp)), am_mask = getU32 (take 4 (drop 2 inp)) \<rparr>)"

text \<open>\<^verbatim>\<open>unpackAckMask\<close> calls its callback once per set bit, in this order.\<close>

definition unpackAckMask :: "u16 \<Rightarrow> u32 \<Rightarrow> u16 list" where
  "unpackAckMask base msk =
    map (\<lambda>i. base + word_of_nat i) (filter (\<lambda>i. msk AND push_bit i 1 \<noteq> 0) [0..<kAckMaskWindow])"

record AckTracker =
  at_base :: u16
  at_mask :: u32

definition at_record :: "u16 \<Rightarrow> AckTracker \<Rightarrow> AckTracker" where
  "at_record seq t =
    (if seq \<noteq> at_base t \<and> \<not> seqIsNewer seq (at_base t) then t
     else
       let offset = sint (seq - at_base t) in
       if offset \<ge> int kAckMaskWindow then
         let shift = (word_of_int (offset - int kAckMaskWindow + 1) :: u16);
             base = at_base t + shift;
             msk = (if unat shift \<ge> kAckMaskWindow then 0 else drop_bit (unat shift) (at_mask t))
         in \<lparr> at_base = base, at_mask = msk OR push_bit (kAckMaskWindow - 1) 1 \<rparr>
       else t \<lparr> at_mask := at_mask t OR push_bit (nat offset) 1 \<rparr>)"

definition at_snapshot :: "AckTracker \<Rightarrow> AckMask" where
  "at_snapshot t = \<lparr> am_base_seq = at_base t, am_mask = at_mask t \<rparr>"

definition at_reset :: "u16 \<Rightarrow> AckTracker \<Rightarrow> AckTracker" where
  "at_reset base t = t \<lparr> at_base := base, at_mask := 0 \<rparr>"

section \<open>Definitions: beacon, catalog-ready, clock, ping, probe\<close>

definition etag_bytes :: nat where
  "etag_bytes = 8"

definition kBeaconFrameBytes :: nat where
  "kBeaconFrameBytes = 4 + etag_bytes + 1"

record BeaconFrame =
  bcn_boot_id :: u32
  bcn_etag :: bytes
  bcn_pairing_open :: bool

definition encodeBeacon :: "BeaconFrame \<Rightarrow> bytes \<Rightarrow> nat \<times> bytes" where
  "encodeBeacon b out =
    (if length out < kBeaconFrameBytes then (0, out)
     else
       let out = subspan_put 0 putU32 (bcn_boot_id b) out;
           out = poke 4 (bcn_etag b) out;
           out = subspan_put (4 + length (bcn_etag b)) putU8 (if bcn_pairing_open b then 1 else 0) out
       in (kBeaconFrameBytes, out))"

definition decodeBeacon :: "bytes \<Rightarrow> BeaconFrame result" where
  "decodeBeacon inp =
    (if length inp < kBeaconFrameBytes then Inl Truncated
     else Inr \<lparr> bcn_boot_id = getU32 (take 4 (drop 0 inp)), bcn_etag = take etag_bytes (drop 4 inp),
                bcn_pairing_open = (getU8 (take 1 (drop (4 + etag_bytes) inp)) \<noteq> 0) \<rparr>)"

definition kCatalogReadyBytes :: nat where
  "kCatalogReadyBytes = etag_bytes"

definition encodeCatalogReady :: "bytes \<Rightarrow> bytes \<Rightarrow> nat \<times> bytes" where
  "encodeCatalogReady etag out =
    (if length etag \<noteq> kCatalogReadyBytes then (0, out)
     else if length out < kCatalogReadyBytes then (0, out)
     else (kCatalogReadyBytes, poke 0 etag out))"

definition decodeCatalogReady :: "bytes \<Rightarrow> bytes option" where
  "decodeCatalogReady payload =
    (if length payload \<noteq> kCatalogReadyBytes then None else Some (take kCatalogReadyBytes payload))"

definition kClockRequestBytes :: nat where
  "kClockRequestBytes = 4"

definition kClockReplyBytes :: nat where
  "kClockReplyBytes = 12"

record ClockReply =
  ck_t0 :: u32
  ck_t1 :: u32
  ck_t2 :: u32

definition encodeClockRequest :: "u32 \<Rightarrow> bytes \<Rightarrow> nat \<times> bytes" where
  "encodeClockRequest t0 out = (if length out < kClockRequestBytes then (0, out) else putU32 out t0)"

definition decodeClockRequest :: "bytes \<Rightarrow> u32 result" where
  "decodeClockRequest inp =
    (if length inp < kClockRequestBytes then Inl Truncated else Inr (getU32 (take 4 (drop 0 inp))))"

definition encodeClockReply :: "ClockReply \<Rightarrow> bytes \<Rightarrow> nat \<times> bytes" where
  "encodeClockReply r out =
    (if length out < kClockReplyBytes then (0, out)
     else
       let out = subspan_put 0 putU32 (ck_t0 r) out;
           out = subspan_put 4 putU32 (ck_t1 r) out;
           out = subspan_put 8 putU32 (ck_t2 r) out
       in (kClockReplyBytes, out))"

definition decodeClockReply :: "bytes \<Rightarrow> ClockReply result" where
  "decodeClockReply inp =
    (if length inp < kClockReplyBytes then Inl Truncated
     else Inr \<lparr> ck_t0 = getU32 (take 4 (drop 0 inp)), ck_t1 = getU32 (take 4 (drop 4 inp)),
                ck_t2 = getU32 (take 4 (drop 8 inp)) \<rparr>)"

record ClockSync =
  cs_offsetUs :: int
  cs_rttUs :: u32

text \<open>C++ integer division by two truncates towards zero; \<open>int32_t\<close> of the result reduces it to
  32 bits.\<close>

definition half_trunc :: "int \<Rightarrow> int" where
  "half_trunc x = (if x \<ge> 0 then x div 2 else - ((- x) div 2))"

definition computeClockSync :: "u32 \<Rightarrow> u32 \<Rightarrow> u32 \<Rightarrow> u32 \<Rightarrow> ClockSync" where
  "computeClockSync t0 t1 t2 t3 =
    (let d1 = timeDelta t1 t0;
         d2 = timeDelta t2 t3;
         offset = half_trunc (d1 + d2);
         dRttObserved = timeDelta t3 t0;
         dHubHold = timeDelta t2 t1;
         rtt = dRttObserved - dHubHold
     in \<lparr> cs_offsetUs = sint (word_of_int offset :: u32), cs_rttUs = word_of_int rtt \<rparr>)"

definition encodePing :: "bytes \<Rightarrow> bytes \<Rightarrow> nat \<times> bytes" where
  "encodePing payload out =
    (if length out < length payload then (0, out)
     else (length payload, if payload \<noteq> [] then poke 0 payload out else out))"

definition encodePong :: "bytes \<Rightarrow> bytes \<Rightarrow> nat \<times> bytes" where
  "encodePong pingPayload out = encodePing pingPayload out"

definition kProbeIndexBytes :: nat where
  "kProbeIndexBytes = 2"

definition encodeProbeFrame :: "u16 \<Rightarrow> bytes \<Rightarrow> nat \<times> bytes" where
  "encodeProbeFrame probeIndex out =
    (if length out < kProbeIndexBytes then (0, out)
     else
       let out = subspan_put 0 putU16 probeIndex out;
           out = fold (\<lambda>i o'. o'[i := 0]) [kProbeIndexBytes..<length out] out
       in (length out, out))"

definition decodeProbeFrame :: "bytes \<Rightarrow> u16 result" where
  "decodeProbeFrame inp =
    (if length inp < kProbeIndexBytes then Inl Truncated else Inr (getU16 (take 2 (drop 0 inp))))"

section \<open>Codec instances\<close>

definition ackmask_image :: "AckMask \<Rightarrow> bytes" where
  "ackmask_image m = u16_bytes (am_base_seq m) @ u32_bytes (am_mask m)"

definition beacon_image :: "BeaconFrame \<Rightarrow> bytes" where
  "beacon_image b = u32_bytes (bcn_boot_id b) @ bcn_etag b @ [if bcn_pairing_open b then 1 else 0]"

definition clock_reply_image :: "ClockReply \<Rightarrow> bytes" where
  "clock_reply_image r = u32_bytes (ck_t0 r) @ u32_bytes (ck_t1 r) @ u32_bytes (ck_t2 r)"

lemma length_beacon_image: "length (bcn_etag b) = 8 \<Longrightarrow> length (beacon_image b) = 13"
  by (simp add: beacon_image_def)

interpretation ackmask_codec: raw_codec ackmask_image encodeAckMask decodeAckMask "\<lambda>_. True"
  by unfold_locales
    (auto simp: ackmask_image_def encodeAckMask_def decodeAckMask_def kAckMaskBytes_def Let_def
      poke_poke_next simp flip: length_0_conv)

interpretation beacon_codec: raw_codec beacon_image encodeBeacon decodeBeacon
  "\<lambda>b. length (bcn_etag b) = etag_bytes"
  by unfold_locales
    (auto simp: beacon_image_def encodeBeacon_def decodeBeacon_def kBeaconFrameBytes_def etag_bytes_def
      Let_def poke_poke_next simp flip: length_0_conv)

interpretation clock_reply_codec: raw_codec clock_reply_image encodeClockReply decodeClockReply "\<lambda>_. True"
  by unfold_locales
    (auto simp: clock_reply_image_def encodeClockReply_def decodeClockReply_def kClockReplyBytes_def
      Let_def poke_poke_next simp flip: length_0_conv)

lemma putU32_poke: "4 \<le> length out \<Longrightarrow> putU32 out v = (4, poke 0 (u32_bytes v) out)"
  using subspan_putU32 [of 0 out v] by (simp add: subspan_put_def putU32_def)

interpretation clock_request_codec: raw_codec u32_bytes encodeClockRequest decodeClockRequest "\<lambda>_. True"
  by unfold_locales
    (auto simp: encodeClockRequest_def decodeClockRequest_def kClockRequestBytes_def putU32_poke
      simp flip: length_0_conv)

lemma beacon_roundtrip:
  assumes "length (bcn_etag b) = 8" and "13 \<le> length out"
  shows "decodeBeacon (snd (encodeBeacon b out)) = Inr b"
proof -
  have ok: "length (bcn_etag b) = etag_bytes" using assms(1) by (simp add: etag_bytes_def)
  then show ?thesis
    using beacon_codec.encode_fits [OF ok, of out] beacon_codec.decode_image [OF ok] assms(2)
    by (simp add: length_beacon_image [OF assms(1)] poke_prefix)
qed

section \<open>The receive window\<close>

text \<open>The sequence numbers a tracker reports as received, and those its window can express.\<close>

definition at_acked :: "AckTracker \<Rightarrow> u16 set" where
  "at_acked t = {at_base t + word_of_nat i | i. i < 32 \<and> bit (at_mask t) i}"

definition at_window :: "u16 \<Rightarrow> u16 set" where
  "at_window base = {base + word_of_nat i | i. i < 32}"

lemma bit_push_bit_one: "i < 32 \<Longrightarrow> bit (push_bit k 1 :: u32) i \<longleftrightarrow> i = k"
  by (auto simp: bit_simps)

lemma and_push_bit_1: "(w AND push_bit i 1 \<noteq> 0) \<longleftrightarrow> bit w i" if "i < 32" for w :: u32
proof -
  have "w AND push_bit i 1 = (if bit w i then push_bit i 1 else 0)"
    by (rule bit_word_eqI) (auto simp: bit_simps)
  moreover have "(push_bit i 1 :: u32) \<noteq> 0"
    using bit_push_bit_one [OF that, of i] by (metis bit_0_eq bot_apply bot_bool_def)
  ultimately show ?thesis by (metis (full_types))
qed

lemma set_unpackAckMask: "set (unpackAckMask (at_base t) (at_mask t)) = at_acked t"
proof -
  have "filter (\<lambda>i. at_mask t AND push_bit i 1 \<noteq> 0) [0..<32] = filter (bit (at_mask t)) [0..<32]"
    by (rule filter_cong [OF refl]) (simp only: and_push_bit_1 set_upt atLeastLessThan_iff)
  then show ?thesis
    unfolding unpackAckMask_def at_acked_def kAckMaskWindow_def by auto
qed

lemma word_of_nat_u16_inj: "i < 65536 \<Longrightarrow> j < 65536 \<Longrightarrow> (word_of_nat i :: u16) = word_of_nat j \<longleftrightarrow> i = j"
  by (auto simp: word_of_nat_eq_iff take_bit_nat_eq_self)

lemma acked_member: "i < 32 \<Longrightarrow> at_base t + word_of_nat i \<in> at_acked t \<longleftrightarrow> bit (at_mask t) i"
  by (auto simp: at_acked_def word_of_nat_u16_inj)

lemma record_offset:
  assumes "seq = base \<or> seqIsNewer seq base"
  obtains k where "seq = base + word_of_nat k" "k < 2 ^ 15" "sint (seq - base) = int k"
proof
  let ?k = "unat (seq - base)"
  show k: "?k < 2 ^ 15" using assms by (auto simp: seqIsNewer_iff_unat)
  show "seq = base + word_of_nat ?k" by simp
  have "signed_take_bit 15 (int n) = int n" if "n < 2 ^ 15" for n
    using that by (intro signed_take_bit_int_eq_self) simp_all
  from this [OF k] have "signed_take_bit 15 (int ?k) = int ?k" .
  then show "sint (seq - base) = int ?k"
    by (simp only: sint_uint uint_nat) simp
qed

text \<open>
  The acknowledgement window: recording a sequence number at or ahead of the base adds exactly
  that number to the reported set, sliding the window forward when it lies beyond it and forgetting
  only numbers that fell out of the new window; a stale number changes nothing.  The numbers the
  mask unpacks to are exactly the reported set.
\<close>

theorem at_record_window:
  "at_acked (at_record seq t) =
     (if seq = at_base t \<or> seqIsNewer seq (at_base t)
      then {s \<in> at_acked t. s \<in> at_window (at_base (at_record seq t))} \<union> {seq}
      else at_acked t) \<and>
   set (unpackAckMask (at_base t) (at_mask t)) = at_acked t"
proof -
  have "at_acked (at_record seq t) =
      {s \<in> at_acked t. s \<in> at_window (at_base (at_record seq t))} \<union> {seq}"
    if new: "seq = at_base t \<or> seqIsNewer seq (at_base t)"
  proof -
    obtain k where k: "seq = at_base t + word_of_nat k" "k < 2 ^ 15" "sint (seq - at_base t) = int k"
      using record_offset [OF new] .
    show ?thesis
    proof (cases "k < 32")
      case True
      then have r: "at_record seq t = t \<lparr> at_mask := at_mask t OR push_bit k 1 \<rparr>"
        using new k by (auto simp: at_record_def kAckMaskWindow_def)
      have "at_acked (at_record seq t) = at_acked t \<union> {seq}"
        using True bit_push_bit_one [of _ k] k(1) unfolding at_acked_def r
        by (auto simp: bit_or_iff simp del: push_bit_of_1)
      moreover have "at_acked t \<subseteq> at_window (at_base t)" by (auto simp: at_acked_def at_window_def)
      ultimately show ?thesis by (auto simp: r)
    next
      case False
      define sh where "sh = k - 31"
      have sh: "sh < 65536" "unat (word_of_nat sh :: u16) = sh"
        using k(2) by (simp_all add: sh_def unat_of_nat)
      have r: "at_record seq t = \<lparr> at_base = at_base t + word_of_nat sh,
          at_mask = (if 32 \<le> sh then 0 else drop_bit sh (at_mask t)) OR push_bit 31 1 \<rparr>"
        using new k False sh(2) by (auto simp: at_record_def kAckMaskWindow_def Let_def sh_def of_nat_diff)
      have bits: "bit (at_mask (at_record seq t)) i \<longleftrightarrow> bit (at_mask t) (sh + i) \<or> i = 31" if "i < 32" for i
        using that bit_push_bit_one [of i 31] bit_u32_less [of "at_mask t" "sh + i"] unfolding r
        by (auto simp: bit_or_iff bit_drop_bit_eq simp del: push_bit_of_1)
      have seq: "seq = at_base t + word_of_nat (sh + 31)" using False k(1) by (simp add: sh_def)
      have shifted: "at_base (at_record seq t) + word_of_nat i = at_base t + word_of_nat (sh + i)" for i
        by (simp add: r)
      show ?thesis
      proof (intro equalityI subsetI)
        fix s assume "s \<in> at_acked (at_record seq t)"
        then obtain i where i: "i < 32" "s = at_base t + word_of_nat (sh + i)"
            "bit (at_mask t) (sh + i) \<or> i = 31"
          using bits shifted by (auto simp: at_acked_def)
        have "s \<in> at_window (at_base (at_record seq t))"
          using i(1,2) shifted [of i] unfolding at_window_def by auto
        moreover have "s \<in> at_acked t" if "bit (at_mask t) (sh + i)"
          using that i(2) bit_u32_less [OF that] unfolding at_acked_def by blast
        ultimately show "s \<in> {s \<in> at_acked t. s \<in> at_window (at_base (at_record seq t))} \<union> {seq}"
          using i(2,3) seq by auto
      next
        fix s assume s: "s \<in> {s \<in> at_acked t. s \<in> at_window (at_base (at_record seq t))} \<union> {seq}"
        show "s \<in> at_acked (at_record seq t)"
        proof (cases "s = seq")
          case True
          then have "s = at_base (at_record seq t) + word_of_nat 31"
            using shifted [of 31] seq by (metis (no_types))
          moreover have "31 < (32 :: nat)" by simp
          ultimately show ?thesis using bits [of 31] unfolding at_acked_def by blast
        next
          case False
          with s obtain i j where ij: "i < 32" "j < 32" "bit (at_mask t) j"
              "s = at_base t + word_of_nat j" "s = at_base t + word_of_nat (sh + i)"
            using shifted by (auto simp: at_acked_def at_window_def)
          then have "(word_of_nat j :: u16) = word_of_nat (sh + i)" by simp
          then have "j = sh + i"
            using ij k(2) by (subst (asm) word_of_nat_u16_inj) (auto simp: sh_def)
          then show ?thesis using ij bits [of i] shifted [of i] by (auto simp: at_acked_def)
        qed
      qed
    qed
  qed
  then show ?thesis by (auto simp: set_unpackAckMask at_record_def)
qed

section \<open>Clock offset\<close>

lemma timeDelta_word: "- (2 ^ 31) \<le> x \<Longrightarrow> x < 2 ^ 31 \<Longrightarrow> sint (word_of_int x :: u32) = x"
  by (simp add: sint_sbintrunc' signed_take_bit_int_eq_self_iff)

lemma half_trunc_bounds: "\<bar>2 * half_trunc x - x\<bar> \<le> 1" "x < 2 * b \<Longrightarrow> 0 < b \<Longrightarrow> half_trunc x < b"
  "- (2 * b) \<le> x \<Longrightarrow> 0 < b \<Longrightarrow> - b \<le> half_trunc x"
  unfolding half_trunc_def by auto

text \<open>
  Clock synchronisation: for an exchange with true clock offset \<open>theta\<close>, uplink and downlink
  delays \<open>u\<close> and \<open>w\<close> and any hub hold time, read on wrapping 32-bit microsecond counters, the
  computed round trip is exactly \<open>u + w\<close> and the computed offset errs by half the delay asymmetry
  (rounded); with equal delays it is exactly \<open>theta\<close>.
\<close>

theorem computeClockSync_offset:
  assumes t: "t1 = t0 + word_of_int (theta + u)" "t2 = t1 + word_of_int hold"
    "t3 = t2 + word_of_int (w - theta)"
    and nonneg: "0 \<le> u" "0 \<le> w" "0 \<le> hold" and range: "u + w + hold + \<bar>theta\<bar> < 2 ^ 31"
  shows "cs_rttUs (computeClockSync t0 t1 t2 t3) = word_of_int (u + w) \<and>
         \<bar>2 * (cs_offsetUs (computeClockSync t0 t1 t2 t3) - theta) - (u - w)\<bar> \<le> 1 \<and>
         (u = w \<longrightarrow> cs_offsetUs (computeClockSync t0 t1 t2 t3) = theta)"
proof -
  have "t1 - t0 = word_of_int (theta + u)" "t2 - t3 = word_of_int (theta - w)"
    "t3 - t0 = word_of_int (u + w + hold)" "t2 - t1 = word_of_int hold"
    using t by (simp_all add: algebra_simps)
  then have d: "timeDelta t1 t0 = theta + u" "timeDelta t2 t3 = theta - w"
    "timeDelta t3 t0 = u + w + hold" "timeDelta t2 t1 = hold"
    using nonneg range by (simp_all add: timeDelta_def timeDelta_word del: of_int_add of_int_diff)
  let ?x = "(theta + u) + (theta - w)"
  have "sint (word_of_int (half_trunc ?x) :: u32) = half_trunc ?x"
    using nonneg range half_trunc_bounds(2) [of ?x "2 ^ 31"] half_trunc_bounds(3) [of "2 ^ 31" ?x]
    by (intro timeDelta_word) auto
  then have "computeClockSync t0 t1 t2 t3 = \<lparr> cs_offsetUs = half_trunc ?x, cs_rttUs = word_of_int (u + w) \<rparr>"
    by (simp add: computeClockSync_def d)
  moreover have "\<bar>2 * half_trunc ?x - ?x\<bar> \<le> 1" by (rule half_trunc_bounds)
  ultimately show ?thesis by auto
qed

theorem computeClockSync_offset_witness:
  "cs_offsetUs (computeClockSync 4294967290 994 1014 34) = 990"
  using computeClockSync_offset [of 994 4294967290 990 10 1014 20 34 10] by simp

end
