(* ===== verification/Cbor_Model.thy ===== *)
theory Cbor_Model
  imports Slop_Prelude
begin

text \<open>
  The deterministic CBOR profile of \<^verbatim>\<open>wire/cbor/\<close> as data: the item heads, an abstract syntax of
  profile items with its byte image \<open>enc\<close>, the profile predicate, and the container bookkeeping
  (\<open>Frame\<close> stack with \<open>consumeOne\<close>/\<open>afterConsume\<close>) that the writer and the reader classes share.
  The fixed array \<open>_stack\<close> with \<open>_depth\<close> is a list whose head is the innermost open container.
\<close>

section \<open>Results in sequence\<close>

definition rbind :: "'a result \<Rightarrow> ('a \<Rightarrow> 'b result) \<Rightarrow> 'b result" where
  "rbind x f = (case x of Inl e \<Rightarrow> Inl e | Inr v \<Rightarrow> f v)"

lemma rbind_simps [simp]: "rbind (Inl e) f = Inl e" "rbind (Inr v) f = f v"
  by (simp_all add: rbind_def)

lemma rbind_Inr_iff: "rbind x f = Inr y \<longleftrightarrow> (\<exists>v. x = Inr v \<and> f v = Inr y)"
  by (cases x) simp_all

section \<open>Container frames\<close>

record CborFrame =
  fr_isMap :: bool
  fr_remaining :: nat
  fr_hasLastKey :: bool
  fr_lastKey :: u64

definition kMaxDepth :: nat where
  "kMaxDepth = 4"

text \<open>The \<^verbatim>\<open>while\<close> loop of \<^verbatim>\<open>afterConsume\<close>, one popped frame per call.\<close>

fun afterConsume :: "CborFrame list \<Rightarrow> CborFrame list" where
  "afterConsume [] = []"
| "afterConsume [f] = (if fr_remaining f = 0 then [] else [f])"
| "afterConsume (f # g # st) =
    (if fr_remaining f = 0
     then afterConsume ((if fr_remaining g > 0 then g \<lparr> fr_remaining := fr_remaining g - 1 \<rparr> else g) # st)
     else f # g # st)"

fun consumeOne :: "CborFrame list \<Rightarrow> CborFrame list" where
  "consumeOne [] = []"
| "consumeOne (f # st) =
    afterConsume ((if fr_remaining f > 0 then f \<lparr> fr_remaining := fr_remaining f - 1 \<rparr> else f) # st)"

lemma afterConsume_pop: "fr_remaining f = 0 \<Longrightarrow> afterConsume (f # st) = consumeOne st"
  by (cases st) simp_all

lemma afterConsume_keep: "fr_remaining f \<noteq> 0 \<Longrightarrow> afterConsume (f # st) = f # st"
  by (cases st) simp_all

lemma length_afterConsume: "length (afterConsume st) \<le> length st"
  by (induction st rule: afterConsume.induct) auto

lemma length_consumeOne: "length (consumeOne st) \<le> length st"
proof (cases st)
  case (Cons f st')
  then show ?thesis
    using length_afterConsume [of "(if fr_remaining f > 0 then f \<lparr> fr_remaining := fr_remaining f - 1 \<rparr> else f) # st'"]
    by simp
qed simp

text \<open>A frame with slots left, and what is left of the stack when some are used up.\<close>

definition slots :: "CborFrame \<Rightarrow> nat \<Rightarrow> CborFrame list \<Rightarrow> CborFrame list" where
  "slots f n st = (if n = 0 then consumeOne st else f \<lparr> fr_remaining := n \<rparr> # st)"

lemma consumeOne_slots [simp]: "consumeOne (slots f (Suc n) st) = slots f n st"
  by (auto simp: slots_def afterConsume_pop afterConsume_keep)

lemma slots_Suc: "slots f (Suc n) st = f \<lparr> fr_remaining := Suc n \<rparr> # st"
  by (simp add: slots_def)

lemma afterConsume_slots: "afterConsume (f \<lparr> fr_remaining := n \<rparr> # st) = slots f n st"
  by (auto simp: slots_def afterConsume_pop afterConsume_keep)

lemma length_slots: "length (slots f n st) \<le> Suc (length st)"
  using length_consumeOne [of st] by (simp add: slots_def)

section \<open>Item heads\<close>

text \<open>The bytes \<^verbatim>\<open>writeHead\<close> emits for a major type and an argument.\<close>

definition head_bytes :: "u8 \<Rightarrow> u64 \<Rightarrow> bytes" where
  "head_bytes major v =
    (let ib0 = push_bit 5 major in
     if v \<le> 23 then [ib0 OR ucast v]
     else if v \<le> 0xFF then [ib0 OR 24, ucast v]
     else if v \<le> 0xFFFF then [ib0 OR 25, ucast (drop_bit 8 v), ucast v]
     else if v \<le> 0xFFFFFFFF then
       (ib0 OR 26) # map (\<lambda>i. ucast (drop_bit (24 - 8 * i) v)) [0..<4]
     else (ib0 OR 27) # map (\<lambda>i. ucast (drop_bit (56 - 8 * i) v)) [0..<8])"

definition head_nbytes :: "u64 \<Rightarrow> nat" where
  "head_nbytes v = (if v \<le> 23 then 0 else if v \<le> 0xFF then 1 else if v \<le> 0xFFFF then 2
     else if v \<le> 0xFFFFFFFF then 4 else 8)"

definition head_ai :: "u64 \<Rightarrow> u8" where
  "head_ai v = (if v \<le> 23 then ucast v else if v \<le> 0xFF then 24 else if v \<le> 0xFFFF then 25
     else if v \<le> 0xFFFFFFFF then 26 else 27)"

lemma byte_of_drop_bit: "(ucast (drop_bit (8 * k) v) :: byte) = word_of_nat (unat v div 256 ^ k)"
  for v :: u64
proof -
  have "unat (drop_bit (8 * k) v) = unat v div 256 ^ k"
    unfolding unat_drop_bit_eq by (simp add: drop_bit_eq_div power_mult)
  then show ?thesis by (metis of_nat_unat)
qed

lemma be_bytes_step: "be_bytes (numeral k) n = word_of_nat (n div 256 ^ pred_numeral k) # be_bytes (pred_numeral k) n"
  by (simp add: numeral_eq_Suc)

lemma be_bytes_2: "be_bytes 2 n = [word_of_nat (n div 256), word_of_nat n]"
  by (simp add: be_bytes_step)

lemma be_bytes_4: "be_bytes 4 n = [word_of_nat (n div 256 ^ 3), word_of_nat (n div 256 ^ 2),
    word_of_nat (n div 256), word_of_nat n]"
  by (simp add: be_bytes_step)

lemma be_bytes_8: "be_bytes 8 n = [word_of_nat (n div 256 ^ 7), word_of_nat (n div 256 ^ 6),
    word_of_nat (n div 256 ^ 5), word_of_nat (n div 256 ^ 4), word_of_nat (n div 256 ^ 3),
    word_of_nat (n div 256 ^ 2), word_of_nat (n div 256), word_of_nat n]"
  by (simp add: be_bytes_step)

lemma head_bytes_alt: "head_bytes major v = (push_bit 5 major OR head_ai v) # be_bytes (head_nbytes v) (unat v)"
proof -
  have b: "(ucast (drop_bit 8 v) :: byte) = word_of_nat (unat v div 256)"
    "(ucast (drop_bit 16 v) :: byte) = word_of_nat (unat v div 256 ^ 2)"
    "(ucast (drop_bit 24 v) :: byte) = word_of_nat (unat v div 256 ^ 3)"
    "(ucast (drop_bit 32 v) :: byte) = word_of_nat (unat v div 256 ^ 4)"
    "(ucast (drop_bit 40 v) :: byte) = word_of_nat (unat v div 256 ^ 5)"
    "(ucast (drop_bit 48 v) :: byte) = word_of_nat (unat v div 256 ^ 6)"
    "(ucast (drop_bit 56 v) :: byte) = word_of_nat (unat v div 256 ^ 7)"
    using byte_of_drop_bit [of 1 v] byte_of_drop_bit [of 2 v]
      byte_of_drop_bit [of 3 v] byte_of_drop_bit [of 4 v] byte_of_drop_bit [of 5 v]
      byte_of_drop_bit [of 6 v] byte_of_drop_bit [of 7 v]
    by simp_all
  have u: "[0..<4] = [0, 1, 2, 3::nat]" "[0..<8] = [0, 1, 2, 3, 4, 5, 6, 7::nat]" by (simp_all add: upt_rec)
  consider "v \<le> 23" | "\<not> v \<le> 23" "v \<le> 0xFF" | "\<not> v \<le> 23" "\<not> v \<le> 0xFF" "v \<le> 0xFFFF"
    | "\<not> v \<le> 23" "\<not> v \<le> 0xFF" "\<not> v \<le> 0xFFFF" "v \<le> 0xFFFFFFFF"
    | "\<not> v \<le> 23" "\<not> v \<le> 0xFF" "\<not> v \<le> 0xFFFF" "\<not> v \<le> 0xFFFFFFFF"
    by blast
  then show ?thesis
    by cases (simp_all add: head_bytes_def head_ai_def head_nbytes_def u b be_bytes_2 be_bytes_4 be_bytes_8)
qed

lemma length_head_bytes: "length (head_bytes major v) = Suc (head_nbytes v)"
  by (simp add: head_bytes_alt)

text \<open>The accumulation loop of the reader, \<open>v = (v << 8) | byte\<close>, reads base 256.\<close>

lemma shift_or_byte: "push_bit 8 w OR ucast (b :: byte) = w * 256 + ucast b" for w :: "'a::len word"
proof -
  have "push_bit 8 w AND ucast b = 0"
    by (rule bit_word_eqI) (auto simp: bit_simps dest: bit_byte_less)
  then have "push_bit 8 w OR ucast b = push_bit 8 w + ucast b"
    by (rule disjunctive_add_eq_or [symmetric])
  then show ?thesis by (simp add: push_bit_eq_mult)
qed

lemma foldl_shift_or:
  "foldl (\<lambda>v b. push_bit 8 v OR ucast b) (word_of_nat s :: 'a::len word) (bs :: bytes) =
     word_of_nat (foldl (\<lambda>a b. a * 256 + unat b) s bs)"
proof (induction bs arbitrary: s)
  case Nil
  then show ?case by simp
next
  case (Cons b bs)
  have "push_bit 8 (word_of_nat s :: 'a word) OR ucast b = word_of_nat (s * 256 + unat b)"
    by (simp add: shift_or_byte)
  then show ?case using Cons [of "s * 256 + unat b"] by simp
qed

lemma foldl_shift_or_0:
  "foldl (\<lambda>v b. push_bit 8 v OR ucast b) (0 :: 'a::len word) (bs :: bytes) = word_of_nat (be_value bs)"
  using foldl_shift_or [of 0 bs] by (simp add: be_value_def)

section \<open>Profile items\<close>

text \<open>Text strings are their bytes; a float is its binary32 pattern; \<open>CNeg n\<close> is \<open>-1 - n\<close>.\<close>

datatype cbor =
    CUint u64
  | CNeg u64
  | CBytes bytes
  | CText bytes
  | CArray "cbor list"
  | CMap "(u64 \<times> cbor) list"
  | CBool bool
  | CNull
  | CFloat u32

fun enc :: "cbor \<Rightarrow> bytes" where
  "enc (CUint v) = head_bytes 0 v"
| "enc (CNeg v) = head_bytes 1 v"
| "enc (CBytes b) = head_bytes 2 (word_of_nat (length b)) @ b"
| "enc (CText b) = head_bytes 3 (word_of_nat (length b)) @ b"
| "enc (CArray vs) = head_bytes 4 (word_of_nat (length vs)) @ concat (map enc vs)"
| "enc (CMap kvs) = head_bytes 5 (word_of_nat (length kvs)) @
     concat (map (\<lambda>(k, v). head_bytes 0 k @ enc v) kvs)"
| "enc (CBool b) = [0xE0 OR (if b then 21 else 20)]"
| "enc CNull = [0xE0 OR 22]"
| "enc (CFloat w) = 0xFA # be_bytes 4 (unat w)"

definition enc_pairs :: "(u64 \<times> cbor) list \<Rightarrow> bytes" where
  "enc_pairs kvs = concat (map (\<lambda>(k, v). head_bytes 0 k @ enc v) kvs)"

lemma enc_pairs_simps [simp]:
  "enc_pairs [] = []" "enc_pairs ((k, v) # kvs) = head_bytes 0 k @ enc v @ enc_pairs kvs"
  "enc_pairs (xs @ ys) = enc_pairs xs @ enc_pairs ys"
  by (simp_all add: enc_pairs_def)

text \<open>The profile: container counts fit 32 bits, string lengths 64, keys ascend strictly, and
  containers nest at most \<open>d\<close> deep.\<close>

fun cbor_ok :: "nat \<Rightarrow> cbor \<Rightarrow> bool" where
  "cbor_ok d (CBytes b) = (length b < 2 ^ 64)"
| "cbor_ok d (CText b) = (length b < 2 ^ 64)"
| "cbor_ok 0 (CArray vs) = False"
| "cbor_ok (Suc d) (CArray vs) = (length vs < 2 ^ 32 \<and> list_all (cbor_ok d) vs)"
| "cbor_ok 0 (CMap kvs) = False"
| "cbor_ok (Suc d) (CMap kvs) = (length kvs < 2 ^ 32 \<and> sorted_wrt (<) (map fst kvs) \<and>
     list_all (\<lambda>(k, v). cbor_ok d v) kvs)"
| "cbor_ok d v = True"

lemma cbor_ok_mono: "cbor_ok d v \<Longrightarrow> d \<le> d' \<Longrightarrow> cbor_ok d' v"
proof (induction d v arbitrary: d' rule: cbor_ok.induct)
  case (4 d vs)
  then show ?case by (cases d') (auto simp: list_all_iff)
next
  case (6 d kvs)
  then show ?case by (cases d') (fastforce simp: list_all_iff)+
qed auto

lemma enc_nonempty [simp]: "enc v \<noteq> []"
  by (cases v) (simp_all add: head_bytes_alt)

end
