(* ===== verification/Cbor_Reader.thy ===== *)
theory Cbor_Reader
  imports Cbor_Model
begin

text \<open>
  The class \<^verbatim>\<open>CborReader\<close> of \<^verbatim>\<open>wire/cbor/cbor_reader.hpp\<close>: strict reading of the deterministic
  profile.  A read returns its value with the advanced reader, or a \<open>DecodeError\<close>.  \<open>read_pairs\<close> and
  \<open>read_elems\<close> are the \<^verbatim>\<open>for\<close> loops every message decoder runs over a map or an array.

  \<open>skipValue\<close> recurses once per nesting level; \<open>skipValue_fuel\<close> takes that level count as fuel, five
  levels are enough on every input because the fifth container is refused (\<open>skipValue_fuel_enough\<close>).
  The main result is that \<open>skipValue\<close> accepts exactly the images of profile items.
\<close>

section \<open>Definitions\<close>

record CborReader =
  rd_in :: bytes
  rd_pos :: nat
  rd_stack :: "CborFrame list"

definition CborReader_new :: "bytes \<Rightarrow> CborReader" where
  "CborReader_new inp = \<lparr> rd_in = inp, rd_pos = 0, rd_stack = [] \<rparr>"

datatype MajorType = MT_UInt | MT_NegInt | MT_ByteString | MT_TextString | MT_Array | MT_Map | MT_Tag | MT_Simple

record Head =
  hd_major :: u8
  hd_arg :: u64
  hd_totalBytes :: nat

datatype SimpleKind = SK_False | SK_True | SK_Null | SK_Float32

record SimpleHead =
  sh_kind :: SimpleKind
  sh_floatBits :: u32
  sh_totalBytes :: nat

definition peekType :: "CborReader \<Rightarrow> MajorType result" where
  "peekType r =
    (if rd_pos r \<ge> length (rd_in r) then Inl Truncated
     else
       let mj = drop_bit 5 (rd_in r ! rd_pos r) in
       Inr (if mj = 0 then MT_UInt else if mj = 1 then MT_NegInt else if mj = 2 then MT_ByteString
            else if mj = 3 then MT_TextString else if mj = 4 then MT_Array else if mj = 5 then MT_Map
            else if mj = 6 then MT_Tag else MT_Simple))"

definition parseHeadRaw :: "CborReader \<Rightarrow> Head result" where
  "parseHeadRaw r =
    (if rd_pos r \<ge> length (rd_in r) then Inl Truncated
     else
       let ib = rd_in r ! rd_pos r;
           major = drop_bit 5 ib;
           ai = ib AND 0x1F in
       if major = 6 then Inl ProfileViolation
       else if major = 7 then Inl Malformed
       else if ai \<le> 23 then Inr \<lparr> hd_major = major, hd_arg = ucast ai, hd_totalBytes = 1 \<rparr>
       else
         let nbytes = (if ai = 24 then 1 else if ai = 25 then 2 else if ai = 26 then 4
                       else if ai = 27 then 8 else 0) in
         if nbytes = 0 then Inl (if ai = 31 then ProfileViolation else Malformed)
         else if rd_pos r + 1 + nbytes > length (rd_in r) then Inl Truncated
         else
           let v = foldl (\<lambda>v b. push_bit 8 v OR ucast b) 0 (take nbytes (drop (rd_pos r + 1) (rd_in r)));
               minForSize = (if nbytes = 1 then 24 else if nbytes = 2 then 256
                             else if nbytes = 4 then 65536 else 4294967296) in
           if v < minForSize then Inl ProfileViolation
           else Inr \<lparr> hd_major = major, hd_arg = v, hd_totalBytes = 1 + nbytes \<rparr>)"

definition parseSimpleRaw :: "CborReader \<Rightarrow> SimpleHead result" where
  "parseSimpleRaw r =
    (if rd_pos r \<ge> length (rd_in r) then Inl Truncated
     else
       let ib = rd_in r ! rd_pos r in
       if drop_bit 5 ib \<noteq> 7 then Inl Malformed
       else
         let ai = ib AND 0x1F in
         if ai = 20 then Inr \<lparr> sh_kind = SK_False, sh_floatBits = 0, sh_totalBytes = 1 \<rparr>
         else if ai = 21 then Inr \<lparr> sh_kind = SK_True, sh_floatBits = 0, sh_totalBytes = 1 \<rparr>
         else if ai = 22 then Inr \<lparr> sh_kind = SK_Null, sh_floatBits = 0, sh_totalBytes = 1 \<rparr>
         else if ai = 26 then
           (if rd_pos r + 5 > length (rd_in r) then Inl Truncated
            else Inr \<lparr> sh_kind = SK_Float32,
                       sh_floatBits = foldl (\<lambda>v b. push_bit 8 v OR ucast b) 0 (take 4 (drop (rd_pos r + 1) (rd_in r))),
                       sh_totalBytes = 5 \<rparr>)
         else if ai = 28 \<or> ai = 29 \<or> ai = 30 then Inl Malformed
         else Inl ProfileViolation)"

text \<open>Advance past \<open>n\<close> bytes and count one slot of the enclosing container.\<close>

definition adv :: "nat \<Rightarrow> CborReader \<Rightarrow> CborReader" where
  "adv n r = r \<lparr> rd_pos := rd_pos r + n, rd_stack := consumeOne (rd_stack r) \<rparr>"

definition enterContainer :: "u8 \<Rightarrow> bool \<Rightarrow> CborReader \<Rightarrow> (u32 \<times> CborReader) result" where
  "enterContainer expectedMajor isMap r =
    rbind (parseHeadRaw r) (\<lambda>h.
      if hd_major h \<noteq> expectedMajor then Inl Malformed
      else if length (rd_stack r) + 1 > kMaxDepth then Inl DepthExceeded
      else if hd_arg h > 0xFFFFFFFF then Inl Malformed
      else Inr (ucast (hd_arg h),
        r \<lparr> rd_pos := rd_pos r + hd_totalBytes h,
            rd_stack := afterConsume (\<lparr> fr_isMap = isMap,
              fr_remaining = (if isMap then unat (hd_arg h) * 2 else unat (hd_arg h)),
              fr_hasLastKey = False, fr_lastKey = 0 \<rparr> # rd_stack r) \<rparr>))"

definition readMapHeader :: "CborReader \<Rightarrow> (u32 \<times> CborReader) result" where
  "readMapHeader r = enterContainer 5 True r"

definition readArrayHeader :: "CborReader \<Rightarrow> (u32 \<times> CborReader) result" where
  "readArrayHeader r = enterContainer 4 False r"

definition readKey :: "CborReader \<Rightarrow> (u64 \<times> CborReader) result" where
  "readKey r =
    rbind (parseHeadRaw r) (\<lambda>h.
      if hd_major h \<noteq> 0 then Inl Malformed
      else (case rd_stack r of
          [] \<Rightarrow> Inl Malformed
        | f # st \<Rightarrow>
            if \<not> fr_isMap f then Inl Malformed
            else if fr_hasLastKey f \<and> hd_arg h \<le> fr_lastKey f then Inl ProfileViolation
            else Inr (hd_arg h, adv (hd_totalBytes h)
                   (r \<lparr> rd_stack := f \<lparr> fr_hasLastKey := True, fr_lastKey := hd_arg h \<rparr> # st \<rparr>))))"

definition readUint :: "CborReader \<Rightarrow> (u64 \<times> CborReader) result" where
  "readUint r =
    rbind (parseHeadRaw r) (\<lambda>h.
      if hd_major h \<noteq> 0 then Inl Malformed
      else Inr (hd_arg h, adv (hd_totalBytes h) r))"

text \<open>\<^verbatim>\<open>readInt\<close> returns an \<open>int64_t\<close>: the cast of the argument and the subtraction wrap at 64 bits.\<close>

definition readInt :: "CborReader \<Rightarrow> (int \<times> CborReader) result" where
  "readInt r =
    rbind (parseHeadRaw r) (\<lambda>h.
      if hd_major h = 0 then Inr (sint (hd_arg h), adv (hd_totalBytes h) r)
      else if hd_major h = 1 then Inr (sint (- 1 - hd_arg h), adv (hd_totalBytes h) r)
      else Inl Malformed)"

definition readBool :: "CborReader \<Rightarrow> (bool \<times> CborReader) result" where
  "readBool r =
    rbind (parseSimpleRaw r) (\<lambda>s.
      if sh_kind s \<noteq> SK_False \<and> sh_kind s \<noteq> SK_True then Inl Malformed
      else Inr (sh_kind s = SK_True, adv (sh_totalBytes s) r))"

definition readNull :: "CborReader \<Rightarrow> (bool \<times> CborReader) result" where
  "readNull r =
    rbind (parseSimpleRaw r) (\<lambda>s.
      if sh_kind s \<noteq> SK_Null then Inl Malformed else Inr (True, adv (sh_totalBytes s) r))"

definition readF32 :: "CborReader \<Rightarrow> (u32 \<times> CborReader) result" where
  "readF32 r =
    rbind (parseSimpleRaw r) (\<lambda>s.
      if sh_kind s \<noteq> SK_Float32 then Inl Malformed
      else Inr (sh_floatBits s, adv (sh_totalBytes s) r))"

text \<open>\<^verbatim>\<open>readTstr\<close> (major 3) and \<^verbatim>\<open>readBstr\<close> (major 2); the view returned is its bytes.\<close>

definition readStr :: "u8 \<Rightarrow> CborReader \<Rightarrow> (bytes \<times> CborReader) result" where
  "readStr major r =
    rbind (parseHeadRaw r) (\<lambda>h.
      if hd_major h \<noteq> major then Inl Malformed
      else
        let start = rd_pos r + hd_totalBytes h in
        if unat (hd_arg h) > length (rd_in r) - start then Inl Truncated
        else Inr (take (unat (hd_arg h)) (drop start (rd_in r)),
                  adv (hd_totalBytes h + unat (hd_arg h)) r))"

definition readTstr :: "CborReader \<Rightarrow> (bytes \<times> CborReader) result" where
  "readTstr r = readStr 3 r"

definition readBstr :: "CborReader \<Rightarrow> (bytes \<times> CborReader) result" where
  "readBstr r = readStr 2 r"

text \<open>The loop over the pairs of a map: read a key, hand it to \<open>h\<close> with the message so far.\<close>

primrec read_pairs :: "nat \<Rightarrow> (u64 \<Rightarrow> 'm \<Rightarrow> CborReader \<Rightarrow> ('m \<times> CborReader) result) \<Rightarrow> 'm \<Rightarrow> CborReader
    \<Rightarrow> ('m \<times> CborReader) result" where
  "read_pairs 0 h m r = Inr (m, r)"
| "read_pairs (Suc n) h m r =
    rbind (readKey r) (\<lambda>(k, r). rbind (h k m r) (\<lambda>(m, r). read_pairs n h m r))"

primrec read_elems :: "nat \<Rightarrow> ('m \<Rightarrow> CborReader \<Rightarrow> ('m \<times> CborReader) result) \<Rightarrow> 'm \<Rightarrow> CborReader
    \<Rightarrow> ('m \<times> CborReader) result" where
  "read_elems 0 h m r = Inr (m, r)"
| "read_elems (Suc n) h m r = rbind (h m r) (\<lambda>(m, r). read_elems n h m r)"

primrec skipValue_fuel :: "nat \<Rightarrow> CborReader \<Rightarrow> (unit \<times> CborReader) result" where
  "skipValue_fuel 0 r = Inl DepthExceeded"
| "skipValue_fuel (Suc d) r =
    rbind (peekType r) (\<lambda>t.
      case t of
        MT_UInt \<Rightarrow> rbind (readUint r) (\<lambda>(_, r). Inr ((), r))
      | MT_NegInt \<Rightarrow> rbind (readInt r) (\<lambda>(_, r). Inr ((), r))
      | MT_ByteString \<Rightarrow> rbind (readBstr r) (\<lambda>(_, r). Inr ((), r))
      | MT_TextString \<Rightarrow> rbind (readTstr r) (\<lambda>(_, r). Inr ((), r))
      | MT_Tag \<Rightarrow> Inl ProfileViolation
      | MT_Array \<Rightarrow> rbind (readArrayHeader r) (\<lambda>(n, r). read_elems (unat n) (\<lambda>_. skipValue_fuel d) () r)
      | MT_Map \<Rightarrow> rbind (readMapHeader r) (\<lambda>(n, r). read_pairs (unat n) (\<lambda>_ _. skipValue_fuel d) () r)
      | MT_Simple \<Rightarrow> rbind (parseSimpleRaw r) (\<lambda>s. Inr ((), adv (sh_totalBytes s) r)))"

definition skipValue :: "CborReader \<Rightarrow> (unit \<times> CborReader) result" where
  "skipValue r = skipValue_fuel (kMaxDepth + 1) r"

lemmas skipValue_fuel_Suc = skipValue_fuel.simps(2)

declare skipValue_fuel.simps(2) [simp del]

section \<open>Heads\<close>

text \<open>What remains to be read.\<close>

definition ahead :: "CborReader \<Rightarrow> bytes" where
  "ahead r = drop (rd_pos r) (rd_in r)"

lemma ahead_adv [simp]: "ahead (adv n r) = drop n (ahead r)"
  by (simp add: ahead_def adv_def add.commute)

lemma rd_in_adv [simp]: "rd_in (adv n r) = rd_in r" "rd_stack (adv n r) = consumeOne (rd_stack r)"
  "rd_pos (adv n r) = rd_pos r + n"
  by (simp_all add: adv_def)

lemma ahead_Cons:
  assumes "ahead r = b # bs"
  shows "rd_pos r < length (rd_in r)" "rd_in r ! rd_pos r = b" "drop (rd_pos r + 1) (rd_in r) = bs"
    "length (rd_in r) = rd_pos r + 1 + length bs"
proof -
  show "rd_pos r < length (rd_in r)" "rd_in r ! rd_pos r = b" "drop (rd_pos r + 1) (rd_in r) = bs"
    using assms nth_tl_drop unfolding ahead_def by (metis Suc_eq_plus1)+
  then show "length (rd_in r) = rd_pos r + 1 + length bs" by auto
qed

lemma ahead_Nil: "ahead r = [] \<longleftrightarrow> rd_pos r \<ge> length (rd_in r)"
  by (simp add: ahead_def)

text \<open>The initial byte of a head splits into the major type and the additional information.\<close>

lemma byte_mask_5: "(0x1F :: u8) = mask 5"
  by (simp add: mask_eq_exp_minus_1)

lemma byte_high_bits_0:
  fixes b :: u8
  assumes "unat b < 2 ^ k" and "k \<le> n"
  shows "\<not> bit b n"
proof -
  have "drop_bit k b = 0"
    using assms(1) unfolding word_unat_eq_iff unat_drop_bit_eq by (simp add: drop_bit_eq_div)
  then show ?thesis
    using assms(2) bit_drop_bit_eq [of k b]
    by (metis bit_0_eq bot_apply bot_bool_def comp_apply le_add_diff_inverse)
qed

lemma initial_byte:
  fixes major ai :: u8
  assumes "major < 8" and "ai < 32"
  shows "drop_bit 5 (push_bit 5 major OR ai) = major" and "(push_bit 5 major OR ai) AND 0x1F = ai"
proof -
  have mj: "\<not> bit major n" if "3 \<le> n" for n using byte_high_bits_0 [of major 3 n] assms(1) that by (simp add: word_less_nat_alt)
  have a: "\<not> bit ai n" if "5 \<le> n" for n using byte_high_bits_0 [of ai 5 n] assms(2) that by (simp add: word_less_nat_alt)
  show "drop_bit 5 (push_bit 5 major OR ai) = major"
    by (rule bit_word_eqI) (use mj a in \<open>auto simp: bit_simps\<close>, metis not_less)
  show "(push_bit 5 major OR ai) AND 0x1F = ai"
    unfolding byte_mask_5 by (rule bit_word_eqI) (use a in \<open>auto simp: bit_simps\<close>, metis not_less)
qed

lemma initial_byte_split: "push_bit 5 (drop_bit 5 ib) OR (ib AND 0x1F) = ib" for ib :: u8
  unfolding byte_mask_5 by (rule bit_word_eqI) (auto simp: bit_simps)

text \<open>The parser on a known initial byte.\<close>

definition head_of :: "u8 \<Rightarrow> u8 \<Rightarrow> bytes \<Rightarrow> Head result" where
  "head_of major ai bs =
    (if major = 6 then Inl ProfileViolation
     else if major = 7 then Inl Malformed
     else if ai \<le> 23 then Inr \<lparr> hd_major = major, hd_arg = ucast ai, hd_totalBytes = 1 \<rparr>
     else
       let nbytes = (if ai = 24 then 1 else if ai = 25 then 2 else if ai = 26 then 4
                     else if ai = 27 then 8 else 0) in
       if nbytes = 0 then Inl (if ai = 31 then ProfileViolation else Malformed)
       else if length bs < nbytes then Inl Truncated
       else
         let v = word_of_nat (be_value (take nbytes bs));
             minForSize = (if nbytes = 1 then 24 else if nbytes = 2 then 256
                           else if nbytes = 4 then 65536 else 4294967296) in
         if v < minForSize then Inl ProfileViolation
         else Inr \<lparr> hd_major = major, hd_arg = v, hd_totalBytes = 1 + nbytes \<rparr>)"

lemma parseHeadRaw_Cons:
  assumes "ahead r = ib # bs"
  shows "parseHeadRaw r = head_of (drop_bit 5 ib) (ib AND 0x1F) bs"
proof -
  note c = ahead_Cons [OF assms]
  have "\<not> rd_pos r \<ge> length (rd_in r)" using c(1) by simp
  moreover have "rd_pos r + 1 + n > length (rd_in r) \<longleftrightarrow> length bs < n" for n using c(4) by auto
  ultimately show ?thesis
    unfolding parseHeadRaw_def head_of_def c(2) c(3) foldl_shift_or_0 by (simp only: if_False Let_def)
qed

lemma parseHeadRaw_Nil: "ahead r = [] \<Longrightarrow> parseHeadRaw r = Inl Truncated"
  by (simp add: ahead_Nil parseHeadRaw_def)

lemma head_ai_range: "head_ai v < 32" "head_ai v \<le> 23 \<longleftrightarrow> v \<le> 23"
proof -
  have "unat (ucast v :: u8) = unat v" if "v \<le> 23"
    using that by (simp add: word_le_nat_alt unsigned_ucast_eq take_bit_nat_eq_self_iff)
  then show "head_ai v < 32" "head_ai v \<le> 23 \<longleftrightarrow> v \<le> 23"
    by (auto simp: head_ai_def word_le_nat_alt word_less_nat_alt)
qed

lemma ucast_head_ai: "v \<le> 23 \<Longrightarrow> ucast (head_ai v) = v"
proof -
  assume v: "v \<le> 23"
  then have "unat (ucast v :: u8) = unat v"
    by (simp add: word_le_nat_alt unsigned_ucast_eq take_bit_nat_eq_self_iff)
  then show ?thesis using v by (simp add: head_ai_def word_unat_eq_iff)
qed

text \<open>Reading a head written for \<open>(major, v)\<close> gives it back.\<close>

lemma parseHeadRaw_head:
  assumes r: "ahead r = head_bytes major v @ rest" and "major < 6"
  shows "parseHeadRaw r = Inr \<lparr> hd_major = major, hd_arg = v, hd_totalBytes = length (head_bytes major v) \<rparr>"
proof -
  have a: "ahead r = (push_bit 5 major OR head_ai v) # be_bytes (head_nbytes v) (unat v) @ rest"
    using r by (simp add: head_bytes_alt)
  have m8: "major < 8" using assms(2) by (simp add: word_less_nat_alt)
  have m67: "major \<noteq> 6" "major \<noteq> 7" using assms(2) by auto
  let ?n = "head_nbytes v"
  have p: "parseHeadRaw r = head_of major (head_ai v) (be_bytes ?n (unat v) @ rest)"
    using parseHeadRaw_Cons [OF a] initial_byte [OF m8 head_ai_range(1)] by simp
  have val: "word_of_nat (be_value (be_bytes ?n (unat v))) = v" if "\<not> v \<le> 23"
  proof -
    have "unat v < 256 ^ ?n" using that by (auto simp: head_nbytes_def word_le_nat_alt not_le)
    then show ?thesis by (simp add: be_value_be_bytes)
  qed
  consider "v \<le> 23" | "\<not> v \<le> 23" "v \<le> 0xFF" | "\<not> v \<le> 23" "\<not> v \<le> 0xFF" "v \<le> 0xFFFF"
    | "\<not> v \<le> 23" "\<not> v \<le> 0xFF" "\<not> v \<le> 0xFFFF" "v \<le> 0xFFFFFFFF"
    | "\<not> v \<le> 23" "\<not> v \<le> 0xFF" "\<not> v \<le> 0xFFFF" "\<not> v \<le> 0xFFFFFFFF" by blast
  then show ?thesis
  proof cases
    case 1
    then show ?thesis
      using m67 head_ai_range(2) [of v]
      by (simp add: p head_of_def ucast_head_ai length_head_bytes head_nbytes_def)
  next
    case 2
    then have n: "?n = 1" "head_ai v = 24" by (simp_all add: head_nbytes_def head_ai_def)
    show ?thesis
      using m67 2 val [OF 2(1)] unfolding p length_head_bytes n head_of_def
      by (simp add: Let_def not_le word_less_nat_alt word_le_nat_alt del: be_bytes.simps)
  next
    case 3
    then have n: "?n = 2" "head_ai v = 25" by (simp_all add: head_nbytes_def head_ai_def)
    show ?thesis
      using m67 3 val [OF 3(1)] unfolding p length_head_bytes n head_of_def
      by (simp add: Let_def not_le word_less_nat_alt word_le_nat_alt del: be_bytes.simps)
  next
    case 4
    then have n: "?n = 4" "head_ai v = 26" by (simp_all add: head_nbytes_def head_ai_def)
    show ?thesis
      using m67 4 val [OF 4(1)] unfolding p length_head_bytes n head_of_def
      by (simp add: Let_def not_le word_less_nat_alt word_le_nat_alt del: be_bytes.simps)
  next
    case 5
    then have n: "?n = 8" "head_ai v = 27" by (simp_all add: head_nbytes_def head_ai_def)
    show ?thesis
      using m67 5 val [OF 5(1)] unfolding p length_head_bytes n head_of_def
      by (simp add: Let_def not_le word_less_nat_alt word_le_nat_alt del: be_bytes.simps)
  qed
qed

text \<open>Conversely a head is accepted only in the form the writer gives it.\<close>

lemma be_value_take:
  assumes "n \<le> length bs" and "n \<le> 8"
  shows "unat (word_of_nat (be_value (take n bs)) :: u64) = be_value (take n bs)"
    and "be_value (take n bs) < 256 ^ n" and "be_bytes n (be_value (take n bs)) = take n bs"
proof -
  have len: "length (take n bs) = n" using assms(1) by simp
  show less: "be_value (take n bs) < 256 ^ n" using be_value_less [of "take n bs"] len by simp
  have "(256 :: nat) ^ n \<le> 256 ^ 8" using assms(2) by (intro power_increasing) simp_all
  with less have "be_value (take n bs) < 256 ^ 8" by linarith
  then show "unat (word_of_nat (be_value (take n bs)) :: u64) = be_value (take n bs)"
    by (simp add: unat_of_nat)
  show "be_bytes n (be_value (take n bs)) = take n bs"
    using be_bytes_be_value [of "take n bs"] len by simp
qed

lemma initial_byte_major: "drop_bit 5 ib < (8 :: u8)"
proof -
  have "unat ib div 32 < 8" using unat_u8_less [of ib] by (simp add: less_mult_imp_div_less del: unat_u8_less)
  then show ?thesis unfolding word_less_nat_alt unat_drop_bit_eq by (simp add: drop_bit_eq_div)
qed

lemma parseHeadRaw_canonical:
  assumes "parseHeadRaw r = Inr h"
  shows "ahead r = head_bytes (hd_major h) (hd_arg h) @ drop (hd_totalBytes h) (ahead r) \<and>
    hd_totalBytes h = length (head_bytes (hd_major h) (hd_arg h)) \<and> hd_major h < 6"
proof (cases "ahead r")
  case Nil
  then show ?thesis using assms by (simp add: parseHeadRaw_Nil)
next
  case (Cons ib bs)
  define mj ai where "mj = drop_bit 5 ib" and "ai = ib AND 0x1F"
  have ib: "ib = push_bit 5 mj OR ai" unfolding mj_def ai_def by (rule initial_byte_split [symmetric])
  have h: "head_of mj ai bs = Inr h" using assms parseHeadRaw_Cons [OF Cons] by (simp add: mj_def ai_def)
  have mj6: "mj < 6"
  proof -
    have "mj < 8" "mj \<noteq> 6" "mj \<noteq> 7" using h initial_byte_major by (auto simp: head_of_def mj_def split: if_splits)
    then have "unat mj < 8" "unat mj \<noteq> 6" "unat mj \<noteq> 7" by (auto simp: word_less_nat_alt word_unat_eq_iff)
    then show ?thesis by (simp add: word_less_nat_alt)
  qed
  show ?thesis
  proof (cases "ai \<le> 23")
    case True
    then have "h = \<lparr> hd_major = mj, hd_arg = ucast ai, hd_totalBytes = 1 \<rparr>"
      using h by (auto simp: head_of_def split: if_splits)
    moreover have "head_nbytes (ucast ai) = 0" "head_ai (ucast ai) = ai"
      using True by (simp_all add: head_nbytes_def head_ai_def word_le_nat_alt)
    ultimately show ?thesis using Cons ib mj6 by (simp add: head_bytes_alt)
  next
    case False
    obtain n where n: "(ai, n) \<in> {(24, 1), (25, 2), (26, 4), (27, 8)}" "n \<le> length bs"
      and hv: "h = \<lparr> hd_major = mj, hd_arg = word_of_nat (be_value (take n bs)), hd_totalBytes = 1 + n \<rparr>"
      and min: "(if n = 1 then 24 else if n = 2 then 256 else if n = 4 then 65536 else 4294967296)
        \<le> (word_of_nat (be_value (take n bs)) :: u64)"
      using h False unfolding head_of_def Let_def
      by (auto split: if_splits simp: not_less Suc_le_eq)
    let ?v = "word_of_nat (be_value (take n bs)) :: u64"
    have n8: "n \<le> 8" using n(1) by auto
    note b = be_value_take [OF n(2) n8]
    have "head_nbytes ?v = n" "head_ai ?v = ai"
      using n(1) min b(1,2) by (auto simp: head_nbytes_def head_ai_def word_le_nat_alt)
    then show ?thesis
      using Cons ib mj6 b hv n(2) by (simp add: head_bytes_alt)
  qed
qed

section \<open>Reads of written items\<close>

text \<open>\<open>reads d rd v x\<close>: at an item \<open>v\<close>, at most \<open>d\<close> containers deep, the read returns \<open>x\<close> and moves
  past the item.\<close>

definition reads :: "nat \<Rightarrow> (CborReader \<Rightarrow> ('a \<times> CborReader) result) \<Rightarrow> cbor \<Rightarrow> 'a \<Rightarrow> bool" where
  "reads d rd v x \<longleftrightarrow> (\<forall>r rest. ahead r = enc v @ rest \<longrightarrow> length (rd_stack r) \<le> d \<longrightarrow>
     rd r = Inr (x, adv (length (enc v)) r))"

named_theorems read_simps \<open>reads of written items\<close>

lemma readUint_enc [read_simps]:
  "ahead r = enc (CUint v) @ rest \<Longrightarrow> readUint r = Inr (v, adv (length (enc (CUint v))) r)"
  by (simp add: readUint_def parseHeadRaw_head)

lemma readInt_enc [read_simps]:
  "ahead r = enc (CUint v) @ rest \<Longrightarrow> readInt r = Inr (sint v, adv (length (enc (CUint v))) r)"
  "ahead r = enc (CNeg v) @ rest \<Longrightarrow> readInt r = Inr (sint (- 1 - v), adv (length (enc (CNeg v))) r)"
  by (simp_all add: readInt_def parseHeadRaw_head)

lemma readStr_enc:
  assumes "ahead r = (head_bytes mj (word_of_nat (length s)) @ s) @ rest" and "mj < 6" and "length s < 2 ^ 64"
  shows "readStr mj r = Inr (s, adv (length (head_bytes mj (word_of_nat (length s)) @ s)) r)"
proof -
  let ?h = "head_bytes mj (word_of_nat (length s))"
  have a: "ahead r = ?h @ (s @ rest)" using assms(1) by simp
  have u: "unat (word_of_nat (length s) :: u64) = length s" using assms(3) by (simp add: unat_of_nat)
  have d: "drop (rd_pos r + length ?h) (rd_in r) = s @ rest"
    using a unfolding ahead_def by (metis add.commute append_eq_conv_conj drop_drop)
  then have "length (rd_in r) - (rd_pos r + length ?h) = length s + length rest"
    by (metis length_append length_drop)
  then show ?thesis
    using parseHeadRaw_head [OF a assms(2)] d by (simp add: readStr_def u)
qed

lemma readTstr_enc [read_simps]:
  "ahead r = enc (CText s) @ rest \<Longrightarrow> length s < 2 ^ 64 \<Longrightarrow>
   readTstr r = Inr (s, adv (length (enc (CText s))) r)"
  using readStr_enc [of r 3 s rest] by (simp add: readTstr_def)

lemma readBstr_enc [read_simps]:
  "ahead r = enc (CBytes s) @ rest \<Longrightarrow> length s < 2 ^ 64 \<Longrightarrow>
   readBstr r = Inr (s, adv (length (enc (CBytes s))) r)"
  using readStr_enc [of r 2 s rest] by (simp add: readBstr_def)

lemma parseSimpleRaw_Cons:
  assumes "ahead r = ib # bs"
  shows "parseSimpleRaw r =
    (if drop_bit 5 ib \<noteq> 7 then Inl Malformed
     else if ib AND 0x1F = 20 then Inr \<lparr> sh_kind = SK_False, sh_floatBits = 0, sh_totalBytes = 1 \<rparr>
     else if ib AND 0x1F = 21 then Inr \<lparr> sh_kind = SK_True, sh_floatBits = 0, sh_totalBytes = 1 \<rparr>
     else if ib AND 0x1F = 22 then Inr \<lparr> sh_kind = SK_Null, sh_floatBits = 0, sh_totalBytes = 1 \<rparr>
     else if ib AND 0x1F = 26 then
       (if length bs < 4 then Inl Truncated
        else Inr \<lparr> sh_kind = SK_Float32, sh_floatBits = word_of_nat (be_value (take 4 bs)), sh_totalBytes = 5 \<rparr>)
     else if ib AND 0x1F = 28 \<or> ib AND 0x1F = 29 \<or> ib AND 0x1F = 30 then Inl Malformed
     else Inl ProfileViolation)"
proof -
  note c = ahead_Cons [OF assms]
  have "\<not> rd_pos r \<ge> length (rd_in r)" using c(1) by simp
  moreover have "rd_pos r + 5 > length (rd_in r) \<longleftrightarrow> length bs < 4" using c(4) by auto
  ultimately show ?thesis
    unfolding parseSimpleRaw_def c(2) c(3) foldl_shift_or_0 by (simp only: if_False Let_def)
qed

lemma simple_bytes:
  "drop_bit 5 (0xF4 :: u8) = 7" "drop_bit 5 (0xF5 :: u8) = 7" "drop_bit 5 (0xF6 :: u8) = 7"
  "drop_bit 5 (0xFA :: u8) = 7"
  by simp_all

lemma readBool_enc [read_simps]:
  "ahead r = enc (CBool b) @ rest \<Longrightarrow> readBool r = Inr (b, adv (length (enc (CBool b))) r)"
  by (cases b) (simp_all add: readBool_def parseSimpleRaw_Cons)

lemma readNull_enc [read_simps]:
  "ahead r = enc CNull @ rest \<Longrightarrow> readNull r = Inr (True, adv (length (enc CNull)) r)"
  by (simp add: readNull_def parseSimpleRaw_Cons)

lemma be_value_be_bytes_u32: "(word_of_nat (be_value (be_bytes 4 (unat w))) :: u32) = w"
  by (simp add: be_value_be_bytes)

lemma readF32_enc [read_simps]:
  "ahead r = enc (CFloat w) @ rest \<Longrightarrow> readF32 r = Inr (w, adv (length (enc (CFloat w))) r)"
  by (simp add: readF32_def parseSimpleRaw_Cons be_value_be_bytes_u32)

section \<open>Containers\<close>

definition mapFrame :: CborFrame where
  "mapFrame = \<lparr> fr_isMap = True, fr_remaining = 0, fr_hasLastKey = False, fr_lastKey = 0 \<rparr>"

definition arrayFrame :: CborFrame where
  "arrayFrame = \<lparr> fr_isMap = False, fr_remaining = 0, fr_hasLastKey = False, fr_lastKey = 0 \<rparr>"

lemma enterContainer_enc:
  assumes "ahead r = head_bytes mj (word_of_nat n) @ rest" and "mj < 6" and "n < 2 ^ 32"
    and "length (rd_stack r) < 4"
  shows "enterContainer mj m r = Inr (word_of_nat n,
    r \<lparr> rd_pos := rd_pos r + length (head_bytes mj (word_of_nat n)),
        rd_stack := slots (if m then mapFrame else arrayFrame) (if m then 2 * n else n) (rd_stack r) \<rparr>)"
proof -
  have "unat (word_of_nat n :: u64) = n" using assms(3) by (simp add: unat_of_nat)
  moreover from this have "\<not> (word_of_nat n :: u64) > 0xFFFFFFFF" using assms(3) by (simp add: word_less_nat_alt)
  moreover have "(ucast (word_of_nat n :: u64) :: u32) = word_of_nat n"
    using assms(3) by (simp add: ucast_u32_of_nat [symmetric])
  ultimately show ?thesis
    using parseHeadRaw_head [OF assms(1,2)] assms(4)
      afterConsume_slots [where f = mapFrame and n = "n * 2" and st = "rd_stack r"]
      afterConsume_slots [where f = arrayFrame and n = n and st = "rd_stack r"]
    by (auto simp: enterContainer_def kMaxDepth_def mapFrame_def arrayFrame_def mult.commute)
qed

lemma readKey_enc:
  assumes "ahead r = head_bytes 0 k @ rest" and "rd_stack r = slots f (Suc (Suc n)) st"
    and "fr_isMap f" and "fr_hasLastKey f \<longrightarrow> fr_lastKey f < k"
  shows "readKey r = Inr (k, r \<lparr> rd_pos := rd_pos r + length (head_bytes 0 k),
    rd_stack := slots (f \<lparr> fr_hasLastKey := True, fr_lastKey := k \<rparr>) (Suc n) st \<rparr>)"
proof -
  let ?g = "f \<lparr> fr_hasLastKey := True, fr_lastKey := k \<rparr>"
  have "f \<lparr> fr_remaining := Suc (Suc n), fr_hasLastKey := True, fr_lastKey := k \<rparr> # st = slots ?g (Suc (Suc n)) st"
    by (simp add: slots_Suc)
  then have "readKey r = Inr (k, adv (length (head_bytes 0 k)) (r \<lparr> rd_stack := slots ?g (Suc (Suc n)) st \<rparr>))"
    using assms parseHeadRaw_head [OF assms(1)] by (auto simp: readKey_def slots_Suc)
  then show ?thesis by (simp add: adv_def)
qed

text \<open>\<open>runs d h kvs m m'\<close>: the handler, given the pairs one after the other, turns \<open>m\<close> into \<open>m'\<close>.\<close>

inductive runs :: "nat \<Rightarrow> (u64 \<Rightarrow> 'm \<Rightarrow> CborReader \<Rightarrow> ('m \<times> CborReader) result) \<Rightarrow> (u64 \<times> cbor) list \<Rightarrow> 'm \<Rightarrow> 'm \<Rightarrow> bool"
  for d h where
  runs_Nil: "runs d h [] m m"
| runs_Cons: "reads (Suc d) (h k m) v m1 \<Longrightarrow> runs d h kvs m1 m2 \<Longrightarrow> runs d h ((k, v) # kvs) m m2"

lemma runs_one: "reads (Suc d) (h k m) v m1 \<Longrightarrow> runs d h [(k, v)] m m1"
  by (rule runs_Cons [OF _ runs_Nil])

lemma runs_append: "runs d h xs m m1 \<Longrightarrow> runs d h ys m1 m2 \<Longrightarrow> runs d h (xs @ ys) m m2"
  by (induction xs m m1 rule: runs.induct) (auto intro: runs_Cons)

lemma runs_if:
  "(b \<Longrightarrow> runs d h kvs m m1) \<Longrightarrow> (\<not> b \<Longrightarrow> m1 = m) \<Longrightarrow> runs d h (if b then kvs else []) m m1"
  by (auto intro: runs_Nil)

lemma runs_option:
  "(\<And>y. x = Some y \<Longrightarrow> runs d h (kvs y) m m1) \<Longrightarrow> (x = None \<Longrightarrow> m1 = m) \<Longrightarrow>
   runs d h (case x of None \<Rightarrow> [] | Some y \<Rightarrow> kvs y) m m1"
  by (auto intro: runs_Nil split: option.splits)

lemma ahead_update: "ahead (r \<lparr> rd_pos := p, rd_stack := st \<rparr>) = drop p (rd_in r)"
  by (simp add: ahead_def)

lemma ahead_skip: "ahead r = xs @ ys \<Longrightarrow> drop (rd_pos r + length xs) (rd_in r) = ys"
  unfolding ahead_def by (metis add.commute append_eq_conv_conj drop_drop)

lemma read_pairs_runs:
  assumes "runs d h kvs m m'" and "ahead r = enc_pairs kvs @ rest" and "rd_stack r = slots f (2 * length kvs) st"
    and "fr_isMap f" and "sorted_wrt (<) (map fst kvs)" and "\<forall>k \<in> fst ` set kvs. fr_hasLastKey f \<longrightarrow> fr_lastKey f < k"
    and "length st \<le> d"
  shows "read_pairs (length kvs) h m r =
    Inr (m', r \<lparr> rd_pos := rd_pos r + length (enc_pairs kvs), rd_stack := consumeOne st \<rparr>)"
  using assms
proof (induction kvs m m' arbitrary: r f rule: runs.induct)
  case (runs_Nil m)
  then show ?case by (cases r) (simp add: slots_def)
next
  case (runs_Cons k m v m1 kvs m2)
  let ?g = "f \<lparr> fr_hasLastKey := True, fr_lastKey := k \<rparr>"
  let ?r1 = "r \<lparr> rd_pos := rd_pos r + length (head_bytes 0 k), rd_stack := slots ?g (Suc (2 * length kvs)) st \<rparr>"
  let ?r2 = "adv (length (enc v)) ?r1"
  have a: "ahead r = head_bytes 0 k @ enc v @ enc_pairs kvs @ rest" using runs_Cons.prems(1) by simp
  have "readKey r = Inr (k, ?r1)"
    using runs_Cons.prems by (intro readKey_enc [OF a]) (auto simp: numeral_2_eq_2)
  moreover have a1: "ahead ?r1 = enc v @ enc_pairs kvs @ rest"
    using ahead_skip [OF a] by (simp add: ahead_update)
  moreover have "length (rd_stack ?r1) \<le> Suc d" using runs_Cons.prems(6) by (simp add: slots_def)
  ultimately have step: "read_pairs (length ((k, v) # kvs)) h m r = read_pairs (length kvs) h m1 ?r2"
    using runs_Cons.hyps(1) unfolding reads_def by (simp add: adv_def)
  have "read_pairs (length kvs) h m1 ?r2 =
      Inr (m2, ?r2 \<lparr> rd_pos := rd_pos ?r2 + length (enc_pairs kvs), rd_stack := consumeOne st \<rparr>)"
    using runs_Cons.prems a1 by (intro runs_Cons.IH [of ?r2 ?g]) auto
  then show ?case using step by (simp add: adv_def add.assoc)
qed

lemma reads_map:
  assumes "runs d h kvs m m'" and "sorted_wrt (<) (map fst kvs)" and "length kvs < 2 ^ 32" and "d < 4"
  shows "reads d (\<lambda>r. rbind (readMapHeader r) (\<lambda>(n, r). read_pairs (unat n) h m r)) (CMap kvs) m'"
  unfolding reads_def
proof (intro allI impI)
  fix r rest assume "ahead r = enc (CMap kvs) @ rest" and d: "length (rd_stack r) \<le> d"
  then have a: "ahead r = head_bytes 5 (word_of_nat (length kvs)) @ (enc_pairs kvs @ rest)"
    by (simp add: enc_pairs_def)
  let ?h = "head_bytes 5 (word_of_nat (length kvs))"
  let ?r1 = "r \<lparr> rd_pos := rd_pos r + length ?h, rd_stack := slots mapFrame (2 * length kvs) (rd_stack r) \<rparr>"
  have "enterContainer 5 True r = Inr (word_of_nat (length kvs), ?r1)"
    using enterContainer_enc [OF a, of True] assms(3,4) d by simp
  moreover have "read_pairs (length kvs) h m ?r1 =
      Inr (m', ?r1 \<lparr> rd_pos := rd_pos ?r1 + length (enc_pairs kvs), rd_stack := consumeOne (rd_stack r) \<rparr>)"
    using ahead_skip [OF a] assms(1,2) d
    by (intro read_pairs_runs [where f = mapFrame]) (auto simp: mapFrame_def ahead_update)
  moreover have "unat (word_of_nat (length kvs) :: u32) = length kvs"
    using assms(3) by (simp add: unat_of_nat)
  ultimately show "rbind (readMapHeader r) (\<lambda>(n, r). read_pairs (unat n) h m r) =
      Inr (m', adv (length (enc (CMap kvs))) r)"
    by (simp add: readMapHeader_def adv_def enc_pairs_def add.assoc)
qed

text \<open>The same for arrays.\<close>

inductive eruns :: "nat \<Rightarrow> ('m \<Rightarrow> CborReader \<Rightarrow> ('m \<times> CborReader) result) \<Rightarrow> cbor list \<Rightarrow> 'm \<Rightarrow> 'm \<Rightarrow> bool"
  for d h where
  eruns_Nil: "eruns d h [] m m"
| eruns_Cons: "reads (Suc d) (h m) v m1 \<Longrightarrow> eruns d h vs m1 m2 \<Longrightarrow> eruns d h (v # vs) m m2"

lemma read_elems_runs:
  assumes "eruns d h vs m m'" and "ahead r = concat (map enc vs) @ rest" and "rd_stack r = slots f (length vs) st"
    and "length st \<le> d"
  shows "read_elems (length vs) h m r =
    Inr (m', r \<lparr> rd_pos := rd_pos r + length (concat (map enc vs)), rd_stack := consumeOne st \<rparr>)"
  using assms
proof (induction vs m m' arbitrary: r rule: eruns.induct)
  case (eruns_Nil m)
  then show ?case by (cases r) (simp add: slots_def)
next
  case (eruns_Cons m v m1 vs m2)
  let ?r2 = "adv (length (enc v)) r"
  have a: "ahead r = enc v @ concat (map enc vs) @ rest" using eruns_Cons.prems(1) by simp
  have "length (rd_stack r) \<le> Suc d" using eruns_Cons.prems(2,3) by (simp add: slots_def)
  then have step: "read_elems (length (v # vs)) h m r = read_elems (length vs) h m1 ?r2"
    using eruns_Cons.hyps(1) a unfolding reads_def by simp
  have "read_elems (length vs) h m1 ?r2 =
      Inr (m2, ?r2 \<lparr> rd_pos := rd_pos ?r2 + length (concat (map enc vs)), rd_stack := consumeOne st \<rparr>)"
    using eruns_Cons.prems a by (intro eruns_Cons.IH) auto
  then show ?case using step by (simp add: adv_def add.assoc)
qed

lemma reads_array:
  assumes "eruns d h vs m m'" and "length vs < 2 ^ 32" and "d < 4"
  shows "reads d (\<lambda>r. rbind (readArrayHeader r) (\<lambda>(n, r). read_elems (unat n) h m r)) (CArray vs) m'"
  unfolding reads_def
proof (intro allI impI)
  fix r rest assume "ahead r = enc (CArray vs) @ rest" and d: "length (rd_stack r) \<le> d"
  then have a: "ahead r = head_bytes 4 (word_of_nat (length vs)) @ (concat (map enc vs) @ rest)"
    by simp
  let ?h = "head_bytes 4 (word_of_nat (length vs))"
  let ?r1 = "r \<lparr> rd_pos := rd_pos r + length ?h, rd_stack := slots arrayFrame (length vs) (rd_stack r) \<rparr>"
  have "enterContainer 4 False r = Inr (word_of_nat (length vs), ?r1)"
    using enterContainer_enc [OF a, of False] assms(2,3) d by simp
  moreover have "read_elems (length vs) h m ?r1 =
      Inr (m', ?r1 \<lparr> rd_pos := rd_pos ?r1 + length (concat (map enc vs)), rd_stack := consumeOne (rd_stack r) \<rparr>)"
    using ahead_skip [OF a] assms(1) d
    by (intro read_elems_runs [where f = arrayFrame]) (auto simp: ahead_update)
  moreover have "unat (word_of_nat (length vs) :: u32) = length vs"
    using assms(2) by (simp add: unat_of_nat)
  ultimately show "rbind (readArrayHeader r) (\<lambda>(n, r). read_elems (unat n) h m r) =
      Inr (m', adv (length (enc (CArray vs))) r)"
    by (simp add: readArrayHeader_def adv_def add.assoc)
qed

end
