(* ===== verification/Cbor_Writer.thy ===== *)
theory Cbor_Writer
  imports Cbor_Model
begin

text \<open>
  The class \<^verbatim>\<open>CborWriter\<close> of \<^verbatim>\<open>wire/cbor/cbor_writer.hpp\<close>.  The output span is represented by the
  bytes written so far (\<open>w_buf\<close>, so \<open>_pos\<close> is its length) and the span's size \<open>w_cap\<close>; the sticky
  failure flag and the frame stack are as in the class.  \<open>w_seq\<close> runs a chain of member calls.

  The predicates \<open>emits\<close> and \<open>epairs\<close> say that a call chain writes exactly the image of a profile
  item, or fails cleanly when it does not fit; the message theories compose them.
\<close>

section \<open>Definitions\<close>

record CborWriter =
  w_buf :: bytes
  w_cap :: nat
  w_failed :: bool
  w_stack :: "CborFrame list"

definition CborWriter_new :: "nat \<Rightarrow> CborWriter" where
  "CborWriter_new cap = \<lparr> w_buf = [], w_cap = cap, w_failed = False, w_stack = [] \<rparr>"

definition w_size :: "CborWriter \<Rightarrow> nat" where
  "w_size w = (if w_failed w then 0 else length (w_buf w))"

definition w_ensure :: "nat \<Rightarrow> CborWriter \<Rightarrow> bool \<times> CborWriter" where
  "w_ensure n w =
    (if w_failed w then (False, w)
     else if length (w_buf w) + n > w_cap w then (False, w \<lparr> w_failed := True \<rparr>)
     else (True, w))"

text \<open>Ensure room for some bytes and store them: the common shape of the private writers.\<close>

definition w_store :: "bytes \<Rightarrow> CborWriter \<Rightarrow> CborWriter" where
  "w_store bs w =
    (case w_ensure (length bs) w of (ok, w) \<Rightarrow>
       if ok then w \<lparr> w_buf := w_buf w @ bs \<rparr> else w)"

definition w_consumeOne :: "CborWriter \<Rightarrow> CborWriter" where
  "w_consumeOne w = w \<lparr> w_stack := consumeOne (w_stack w) \<rparr>"

definition writeHead :: "u8 \<Rightarrow> u64 \<Rightarrow> CborWriter \<Rightarrow> CborWriter" where
  "writeHead major v w = w_store (head_bytes major v) w"

definition writeSimple :: "u8 \<Rightarrow> CborWriter \<Rightarrow> CborWriter" where
  "writeSimple additionalInfo w = w_store [push_bit 5 7 OR additionalInfo] w"

definition openContainer :: "bool \<Rightarrow> nat \<Rightarrow> CborWriter \<Rightarrow> CborWriter" where
  "openContainer isMap remaining w =
    (if w_failed w then w
     else if length (w_stack w) + 1 > kMaxDepth then w \<lparr> w_failed := True \<rparr>
     else w \<lparr> w_stack := afterConsume (\<lparr> fr_isMap = isMap, fr_remaining = remaining,
                fr_hasLastKey = False, fr_lastKey = 0 \<rparr> # w_stack w) \<rparr>)"

definition mapHeader :: "u32 \<Rightarrow> CborWriter \<Rightarrow> CborWriter" where
  "mapHeader nPairs w = writeHead 5 (ucast nPairs) (openContainer True (unat nPairs * 2) w)"

definition arrayHeader :: "u32 \<Rightarrow> CborWriter \<Rightarrow> CborWriter" where
  "arrayHeader n w = writeHead 4 (ucast n) (openContainer False (unat n) w)"

definition w_key :: "u64 \<Rightarrow> CborWriter \<Rightarrow> CborWriter" where
  "w_key kv w =
    (if w_failed w then w
     else
       (case w_stack w of
          [] \<Rightarrow> w \<lparr> w_failed := True \<rparr>
        | f # st \<Rightarrow>
            if \<not> fr_isMap f then w \<lparr> w_failed := True \<rparr>
            else if fr_hasLastKey f \<and> kv \<le> fr_lastKey f then w \<lparr> w_failed := True \<rparr>
            else w_consumeOne (writeHead 0 kv
                   (w \<lparr> w_stack := f \<lparr> fr_hasLastKey := True, fr_lastKey := kv \<rparr> # st \<rparr>))))"

definition uintVal :: "u64 \<Rightarrow> CborWriter \<Rightarrow> CborWriter" where
  "uintVal v w = w_consumeOne (writeHead 0 v w)"

definition intVal :: "int \<Rightarrow> CborWriter \<Rightarrow> CborWriter" where
  "intVal v w =
    w_consumeOne (if v \<ge> 0 then writeHead 0 (word_of_int v) w else writeHead 1 (word_of_int (- 1 - v)) w)"

definition boolVal :: "bool \<Rightarrow> CborWriter \<Rightarrow> CborWriter" where
  "boolVal v w = w_consumeOne (writeSimple (if v then 21 else 20) w)"

definition nullVal :: "CborWriter \<Rightarrow> CborWriter" where
  "nullVal w = w_consumeOne (writeSimple 22 w)"

definition f32Val :: "u32 \<Rightarrow> CborWriter \<Rightarrow> CborWriter" where
  "f32Val bits w =
    (case w_ensure 5 w of (ok, w) \<Rightarrow>
       if \<not> ok then w
       else w_consumeOne (w \<lparr> w_buf := w_buf w @ [0xFA, ucast (drop_bit 24 bits), ucast (drop_bit 16 bits),
              ucast (drop_bit 8 bits), ucast bits] \<rparr>))"

text \<open>\<^verbatim>\<open>tstrVal\<close> and \<^verbatim>\<open>bstrVal\<close> differ in the major type only.\<close>

definition strVal :: "u8 \<Rightarrow> bytes \<Rightarrow> CborWriter \<Rightarrow> CborWriter" where
  "strVal major s w =
    (let w = writeHead major (word_of_nat (length s)) w in
     if w_failed w then w \<lparr> w_failed := True \<rparr>
     else (case w_ensure (length s) w of (ok, w) \<Rightarrow>
       if \<not> ok then w \<lparr> w_failed := True \<rparr>
       else w_consumeOne (w \<lparr> w_buf := w_buf w @ s \<rparr>)))"

definition tstrVal :: "bytes \<Rightarrow> CborWriter \<Rightarrow> CborWriter" where
  "tstrVal s w = strVal 3 s w"

definition bstrVal :: "bytes \<Rightarrow> CborWriter \<Rightarrow> CborWriter" where
  "bstrVal s w = strVal 2 s w"

text \<open>Chains of calls; a key followed by its value; a call made under a condition; a loop of calls.\<close>

definition w_seq :: "(CborWriter \<Rightarrow> CborWriter) list \<Rightarrow> CborWriter \<Rightarrow> CborWriter" where
  "w_seq gs w = foldl (\<lambda>w g. g w) w gs"

definition w_kv :: "u64 \<Rightarrow> (CborWriter \<Rightarrow> CborWriter) \<Rightarrow> CborWriter \<Rightarrow> CborWriter" where
  "w_kv k val w = val (w_key k w)"

definition w_when :: "bool \<Rightarrow> (CborWriter \<Rightarrow> CborWriter) \<Rightarrow> CborWriter \<Rightarrow> CborWriter" where
  "w_when b g w = (if b then g w else w)"

definition w_opt :: "'a option \<Rightarrow> ('a \<Rightarrow> CborWriter \<Rightarrow> CborWriter) \<Rightarrow> CborWriter \<Rightarrow> CborWriter" where
  "w_opt x g w = (case x of None \<Rightarrow> w | Some y \<Rightarrow> g y w)"

definition w_each :: "('a \<Rightarrow> CborWriter \<Rightarrow> CborWriter) \<Rightarrow> 'a list \<Rightarrow> CborWriter \<Rightarrow> CborWriter" where
  "w_each g xs w = foldl (\<lambda>w x. g x w) w xs"

text \<open>What an encoder returns: the bytes \<open>[0, size())\<close> of its output span; empty when it failed.\<close>

definition w_result :: "CborWriter \<Rightarrow> bytes" where
  "w_result w = take (w_size w) (w_buf w)"

section \<open>What a call chain writes\<close>

text \<open>\<open>Wr w cap bs st\<close>: \<open>w\<close> is a writer of capacity \<open>cap\<close> told to write \<open>bs\<close> so far, with open
  containers \<open>st\<close>; it has failed exactly if \<open>bs\<close> does not fit.\<close>

definition Wr :: "CborWriter \<Rightarrow> nat \<Rightarrow> bytes \<Rightarrow> CborFrame list \<Rightarrow> bool" where
  "Wr w cap bs st \<longleftrightarrow> w_cap w = cap \<and>
     (if length bs \<le> cap then \<not> w_failed w \<and> w_buf w = bs \<and> w_stack w = st else w_failed w)"

definition emits :: "nat \<Rightarrow> (CborWriter \<Rightarrow> CborWriter) \<Rightarrow> cbor \<Rightarrow> bool" where
  "emits d g v \<longleftrightarrow> (\<forall>w cap bs st. length st \<le> d \<longrightarrow> Wr w cap bs st \<longrightarrow>
     Wr (g w) cap (bs @ enc v) (consumeOne st))"

definition WM :: "CborWriter \<Rightarrow> nat \<Rightarrow> bytes \<Rightarrow> nat \<Rightarrow> u64 \<Rightarrow> CborFrame list \<Rightarrow> bool" where
  "WM w cap bs n K st \<longleftrightarrow> (\<exists>f. fr_isMap f \<and> (fr_hasLastKey f \<longrightarrow> fr_lastKey f < K) \<and>
     Wr w cap bs (slots f (2 * n) st))"

text \<open>\<open>epairs d g kvs K K'\<close>: with keys so far below \<open>K\<close>, \<open>g\<close> writes the pairs \<open>kvs\<close> of a map opened at
  depth \<open>d\<close>, and the keys stay below \<open>K'\<close>.\<close>

definition epairs :: "nat \<Rightarrow> (CborWriter \<Rightarrow> CborWriter) \<Rightarrow> (u64 \<times> cbor) list \<Rightarrow> u64 \<Rightarrow> u64 \<Rightarrow> bool" where
  "epairs d g kvs K K' \<longleftrightarrow> (\<forall>w cap bs st n. length st \<le> d \<longrightarrow> WM w cap bs (length kvs + n) K st \<longrightarrow>
     WM (g w) cap (bs @ enc_pairs kvs) n K' st)"

named_theorems emit_intros \<open>introduction rules for emits and epairs\<close>

lemma Wr_store: "Wr w cap bs st \<Longrightarrow> Wr (w_store cs w) cap (bs @ cs) st"
  by (auto simp: Wr_def w_store_def w_ensure_def split: if_splits)

lemma Wr_consume: "Wr w cap bs st \<Longrightarrow> Wr (w_consumeOne w) cap bs (consumeOne st)"
  by (auto simp: Wr_def w_consumeOne_def)

lemma Wr_writeHead: "Wr w cap bs st \<Longrightarrow> Wr (writeHead mj v w) cap (bs @ head_bytes mj v) st"
  unfolding writeHead_def by (rule Wr_store)

lemma emits_uint [emit_intros]: "emits d (uintVal v) (CUint v)"
  by (auto simp: emits_def uintVal_def intro!: Wr_consume Wr_writeHead)

lemma emits_int [emit_intros]:
  "emits d (intVal v) (if v \<ge> 0 then CUint (word_of_int v) else CNeg (word_of_int (- 1 - v)))"
  by (auto simp: emits_def intVal_def intro!: Wr_consume Wr_writeHead simp del: of_int_diff of_int_minus)

lemma emits_bool [emit_intros]: "emits d (boolVal b) (CBool b)"
  by (auto simp: emits_def boolVal_def writeSimple_def intro!: Wr_consume dest: Wr_store [where cs = "[_]"])

lemma emits_null [emit_intros]: "emits d nullVal CNull"
  by (auto simp: emits_def nullVal_def writeSimple_def intro!: Wr_consume dest: Wr_store [where cs = "[_]"])

lemma byte_of_drop_bit32: "(ucast (drop_bit (8 * k) v) :: byte) = word_of_nat (unat v div 256 ^ k)"
  for v :: u32
proof -
  have "unat (drop_bit (8 * k) v) = unat v div 256 ^ k"
    unfolding unat_drop_bit_eq by (simp add: drop_bit_eq_div power_mult)
  then show ?thesis by (metis of_nat_unat)
qed

lemma f32_image: "0xFA # be_bytes 4 (unat v) =
    [0xFA, ucast (drop_bit 24 v), ucast (drop_bit 16 v), ucast (drop_bit 8 v), ucast v]" for v :: u32
  using byte_of_drop_bit32 [of 1 v] byte_of_drop_bit32 [of 2 v] byte_of_drop_bit32 [of 3 v]
  by (simp add: be_bytes_4)

lemma f32Val_store: "f32Val v w = (if fst (w_ensure 5 w) then w_consumeOne else id)
    (w_store (0xFA # be_bytes 4 (unat v)) w)"
proof -
  have five: "length (0xFA # be_bytes 4 (unat v)) = 5" by simp
  show ?thesis
    unfolding w_store_def five unfolding f32_image by (simp add: f32Val_def split: prod.splits)
qed

lemma emits_f32 [emit_intros]: "emits d (f32Val v) (CFloat v)"
proof -
  have "Wr (f32Val v w) cap (bs @ 0xFA # be_bytes 4 (unat v)) (consumeOne st)" if "Wr w cap bs st"
    for w cap bs st
  proof (cases "fst (w_ensure 5 w)")
    case True
    then show ?thesis
      using Wr_consume [OF Wr_store [OF that, of "0xFA # be_bytes 4 (unat v)"]] by (simp add: f32Val_store)
  next
    case False
    then show ?thesis
      using that by (auto simp: f32Val_store Wr_def w_store_def w_ensure_def split: if_splits)
  qed
  then show ?thesis by (simp add: emits_def)
qed

lemma Wr_strVal:
  "Wr w cap bs st \<Longrightarrow> Wr (strVal mj s w) cap (bs @ head_bytes mj (word_of_nat (length s)) @ s) (consumeOne st)"
  using Wr_writeHead [of w cap bs st mj "word_of_nat (length s)"]
  by (auto simp: strVal_def Let_def Wr_def w_ensure_def w_consumeOne_def split: if_splits)

lemma emits_tstr [emit_intros]: "emits d (tstrVal s) (CText s)"
  by (auto simp: emits_def tstrVal_def intro: Wr_strVal)

lemma emits_bstr [emit_intros]: "emits d (bstrVal s) (CBytes s)"
  by (auto simp: emits_def bstrVal_def intro: Wr_strVal)

section \<open>Maps\<close>

lemma Wr_openContainer:
  assumes "Wr w cap bs st" and "length st < 4"
  shows "Wr (openContainer m n w) cap bs
    (slots \<lparr> fr_isMap = m, fr_remaining = 0, fr_hasLastKey = False, fr_lastKey = 0 \<rparr> n st)"
  using assms afterConsume_slots [where f = "\<lparr> fr_isMap = m, fr_remaining = 0, fr_hasLastKey = False, fr_lastKey = 0 \<rparr>"
      and n = n and st = st]
  by (auto simp: Wr_def openContainer_def kMaxDepth_def split: if_splits)

lemma WM_key:
  assumes "WM w cap bs (Suc n) K st" and "K \<le> k" and "k < K'"
  obtains f where "fr_isMap f" "fr_hasLastKey f \<longrightarrow> fr_lastKey f < K'"
    "Wr (w_key k w) cap (bs @ head_bytes 0 k) (slots f (Suc (2 * n)) st)"
proof -
  obtain f where f: "fr_isMap f" "fr_hasLastKey f \<longrightarrow> fr_lastKey f < K"
    and W: "Wr w cap bs (slots f (Suc (Suc (2 * n))) st)"
    using assms(1) by (auto simp: WM_def)
  let ?g = "f \<lparr> fr_hasLastKey := True, fr_lastKey := k \<rparr>"
  have "Wr (w_key k w) cap (bs @ head_bytes 0 k) (slots ?g (Suc (2 * n)) st)"
  proof (cases "length bs \<le> cap")
    case True
    define w' where "w' = w \<lparr> w_stack := f \<lparr> fr_remaining := Suc (Suc (2 * n)), fr_hasLastKey := True,
        fr_lastKey := k \<rparr> # st \<rparr>"
    have "w_stack w = slots f (Suc (Suc (2 * n))) st" "\<not> w_failed w" using W True by (simp_all add: Wr_def)
    moreover have "\<not> (fr_hasLastKey f \<and> k \<le> fr_lastKey f)" using f(2) assms(2) by auto
    ultimately have "w_key k w = w_consumeOne (writeHead 0 k w')"
      using f(1) by (auto simp: w_key_def slots_Suc w'_def)
    moreover have "Wr w' cap bs (slots ?g (Suc (Suc (2 * n))) st)"
      using W True by (simp add: w'_def Wr_def slots_Suc)
    ultimately show ?thesis using Wr_consume [OF Wr_writeHead] by (metis consumeOne_slots)
  next
    case False
    then show ?thesis using W by (simp add: Wr_def w_key_def)
  qed
  moreover have "fr_isMap ?g" "fr_hasLastKey ?g \<longrightarrow> fr_lastKey ?g < K'" using f(1) assms(3) by simp_all
  ultimately show ?thesis using that by blast
qed

lemma epairs_kv [emit_intros]:
  assumes "emits (Suc d) val v" and "K \<le> k" and "k < k + 1"
  shows "epairs d (w_kv k val) [(k, v)] K (k + 1)"
  unfolding epairs_def
proof (intro allI impI)
  fix w cap bs st n
  assume d: "length st \<le> d" and "WM w cap bs (length [(k, v)] + n) K st"
  then have "WM w cap bs (Suc n) K st" by simp
  then obtain f where f: "fr_isMap f" "fr_hasLastKey f \<longrightarrow> fr_lastKey f < k + 1"
    and W: "Wr (w_key k w) cap (bs @ head_bytes 0 k) (slots f (Suc (2 * n)) st)"
    using WM_key [OF _ assms(2,3)] by metis
  have "length (slots f (Suc (2 * n)) st) \<le> Suc d" using d by (simp add: slots_def)
  then have "Wr (val (w_key k w)) cap ((bs @ head_bytes 0 k) @ enc v) (consumeOne (slots f (Suc (2 * n)) st))"
    using assms(1) W unfolding emits_def by blast
  then show "WM (w_kv k val w) cap (bs @ enc_pairs [(k, v)]) n (k + 1) st"
    using f unfolding WM_def w_kv_def by auto
qed

lemma epairs_seq_Nil [emit_intros]: "epairs d (w_seq []) [] K K"
  by (simp add: epairs_def w_seq_def)

lemma epairs_seq_Cons [emit_intros]:
  "epairs d g kvs K K1 \<Longrightarrow> epairs d (w_seq gs) kvs' K1 K2 \<Longrightarrow> epairs d (w_seq (g # gs)) (kvs @ kvs') K K2"
  unfolding epairs_def w_seq_def foldl_Cons enc_pairs_simps length_append append_assoc [symmetric] add.assoc
  by blast

lemma epairs_weaken: "epairs d g kvs K K1 \<Longrightarrow> K1 \<le> K2 \<Longrightarrow> epairs d g kvs K K2"
  unfolding epairs_def WM_def by (meson order_less_le_trans)

lemma WM_weaken: "WM w cap bs n K st \<Longrightarrow> K \<le> K' \<Longrightarrow> WM w cap bs n K' st"
  unfolding WM_def by (meson order_less_le_trans)

lemma epairs_when [emit_intros]:
  "epairs d g kvs K K' \<Longrightarrow> K \<le> K' \<Longrightarrow> epairs d (w_when b g) (if b then kvs else []) K K'"
  unfolding epairs_def w_when_def by (auto intro: WM_weaken)

lemma epairs_opt [emit_intros]:
  "(\<And>y. epairs d (g y) (kvs y) K K') \<Longrightarrow> K \<le> K' \<Longrightarrow>
   epairs d (w_opt x g) (case x of None \<Rightarrow> [] | Some y \<Rightarrow> kvs y) K K'"
  unfolding epairs_def w_opt_def by (auto intro: WM_weaken split: option.splits)

lemma emits_map:
  assumes "epairs d (w_seq gs) kvs 0 K" and "d < 4" and "n = word_of_nat (length kvs)"
    and "length kvs < 2 ^ 32"
  shows "emits d (w_seq (mapHeader n # gs)) (CMap kvs)"
  unfolding emits_def
proof (intro allI impI)
  fix w cap bs st
  assume d: "length st \<le> d" and W: "Wr w cap bs st"
  have n: "unat n = length kvs" "(ucast n :: u64) = word_of_nat (length kvs)"
    using assms(3,4) by (simp_all add: unat_of_nat ucast_u32_of_nat)
  let ?f = "\<lparr> fr_isMap = True, fr_remaining = 0, fr_hasLastKey = False, fr_lastKey = 0 \<rparr>"
  have "Wr (openContainer True (length kvs * 2) w) cap bs (slots ?f (2 * length kvs) st)"
    using Wr_openContainer [OF W, of True "length kvs * 2"] d assms(2) by (simp add: mult.commute)
  from Wr_writeHead [OF this, of 5 "word_of_nat (length kvs)"]
  have "WM (mapHeader n w) cap (bs @ head_bytes 5 (word_of_nat (length kvs))) (length kvs + 0) 0 st"
    unfolding WM_def by (intro exI [of _ ?f]) (simp add: mapHeader_def n)
  then have "WM (w_seq gs (mapHeader n w)) cap ((bs @ head_bytes 5 (word_of_nat (length kvs))) @ enc_pairs kvs) 0 K st"
    using assms(1) d unfolding epairs_def by blast
  then have "Wr (w_seq gs (mapHeader n w)) cap
      ((bs @ head_bytes 5 (word_of_nat (length kvs))) @ enc_pairs kvs) (consumeOne st)"
    by (auto simp: WM_def slots_def simp del: append_assoc)
  then show "Wr (w_seq (mapHeader n # gs) w) cap (bs @ enc (CMap kvs)) (consumeOne st)"
    by (simp add: w_seq_def enc_pairs_def)
qed

text \<open>A loop that writes one pair per element.\<close>

lemma epairs_each:
  assumes "\<And>x. x \<in> set xs \<Longrightarrow> emits (Suc d) (val x) (v x)" and "sorted_wrt (<) (map key xs)"
    and "\<And>x. x \<in> set xs \<Longrightarrow> K \<le> key x \<and> key x < K'" and "K \<le> K'"
  shows "epairs d (w_each (\<lambda>x. w_kv (key x) (val x)) xs) (map (\<lambda>x. (key x, v x)) xs) K K'"
  using assms
proof (induction xs arbitrary: K)
  case Nil
  then show ?case by (auto simp: epairs_def w_each_def intro: WM_weaken)
next
  case (Cons x xs)
  have "key x < K'" using Cons.prems(3) by simp
  then have lt: "key x < key x + 1"
    by (metis inc_less_eq_self_iff_eq not_le word_order.extremum_strict)
  have "epairs d (w_kv (key x) (val x)) [(key x, v x)] K (key x + 1)"
    using Cons.prems(1,3) [of x] lt by (intro epairs_kv) auto
  moreover have "epairs d (w_each (\<lambda>x. w_kv (key x) (val x)) xs) (map (\<lambda>x. (key x, v x)) xs) (key x + 1) K'"
    using Cons.prems lt by (intro Cons.IH) (auto simp: inc_le)
  ultimately have "epairs d (w_seq [w_kv (key x) (val x), w_each (\<lambda>x. w_kv (key x) (val x)) xs])
      ([(key x, v x)] @ map (\<lambda>x. (key x, v x)) xs @ []) K K'"
    by (rule epairs_seq_Cons [OF _ epairs_seq_Cons [OF _ epairs_seq_Nil]])
  then show ?case by (simp add: epairs_def w_each_def w_seq_def)
qed

section \<open>Arrays\<close>

lemma Wr_each:
  assumes "\<And>x. x \<in> set xs \<Longrightarrow> emits (Suc d) (g x) (v x)" and "length st \<le> d"
    and "Wr w cap bs (slots f (length xs) st)"
  shows "Wr (w_each g xs w) cap (bs @ concat (map (\<lambda>x. enc (v x)) xs)) (consumeOne st)"
  using assms
proof (induction xs arbitrary: w bs)
  case Nil
  then show ?case by (simp add: w_each_def slots_def)
next
  case (Cons x xs)
  have "length (slots f (length (x # xs)) st) \<le> Suc d" using Cons.prems(2) by (simp add: slots_def)
  then have "Wr (g x w) cap (bs @ enc (v x)) (consumeOne (slots f (length (x # xs)) st))"
    using Cons.prems(1) [of x] Cons.prems(3) unfolding emits_def by (meson list.set_intros(1))
  then have "Wr (g x w) cap (bs @ enc (v x)) (slots f (length xs) st)" by simp
  from Cons.IH [OF _ Cons.prems(2) this] Cons.prems(1) show ?case by (simp add: w_each_def)
qed

lemma emits_array [emit_intros]:
  assumes "\<And>x. x \<in> set xs \<Longrightarrow> emits (Suc d) (g x) (v x)" and "d < 4" and "n = word_of_nat (length xs)"
    and "length xs < 2 ^ 32"
  shows "emits d (w_seq [arrayHeader n, w_each g xs]) (CArray (map v xs))"
  unfolding emits_def
proof (intro allI impI)
  fix w cap bs st
  assume d: "length st \<le> d" and W: "Wr w cap bs st"
  have n: "unat n = length xs" "(ucast n :: u64) = word_of_nat (length xs)"
    using assms(3,4) by (simp_all add: unat_of_nat ucast_u32_of_nat)
  let ?f = "\<lparr> fr_isMap = False, fr_remaining = 0, fr_hasLastKey = False, fr_lastKey = 0 \<rparr>"
  have "Wr (openContainer False (length xs) w) cap bs (slots ?f (length xs) st)"
    using Wr_openContainer [OF W] d assms(2) by simp
  from Wr_writeHead [OF this, of 4 "word_of_nat (length xs)"]
  have "Wr (arrayHeader n w) cap (bs @ head_bytes 4 (word_of_nat (length xs))) (slots ?f (length xs) st)"
    by (simp add: arrayHeader_def n)
  from Wr_each [OF assms(1) d this]
  show "Wr (w_seq [arrayHeader n, w_each g xs] w) cap (bs @ enc (CArray (map v xs))) (consumeOne st)"
    by (simp add: w_seq_def comp_def)
qed

section \<open>The encoder interface\<close>

text \<open>An encoder whose chain emits an item writes exactly the item's image when it fits the output
  span and reports 0 otherwise.\<close>

lemma emits_result:
  assumes "emits 0 g v"
  shows "w_result (g (CborWriter_new cap)) = (if length (enc v) \<le> cap then enc v else [])"
proof -
  have "Wr (CborWriter_new cap) cap [] []" by (simp add: Wr_def CborWriter_new_def)
  then have "Wr (g (CborWriter_new cap)) cap ([] @ enc v) (consumeOne [])"
    using assms unfolding emits_def by blast
  then show ?thesis by (auto simp: Wr_def w_result_def w_size_def)
qed

lemma w_seq_single: "w_seq [g] = g"
  by (simp add: w_seq_def fun_eq_iff)

lemma emits_seq1: "emits d g v \<Longrightarrow> emits d (w_seq [g]) v"
  by (simp add: w_seq_single)

end
