(* ===== verification/Cbor_Skip.thy ===== *)
theory Cbor_Skip
  imports Cbor_Reader Cbor_Writer
begin

text \<open>
  Strictness and tolerance of the CBOR reader: \<open>skipValue\<close>, which every decoder uses for keys it does
  not know, accepts exactly the images of profile items nested within the depth limit and moves past
  exactly one item; the fuel of its model is never exhausted.
\<close>

section \<open>Skipping a written item\<close>

lemma peekType_Cons:
  "ahead r = ib # bs \<Longrightarrow> peekType r = Inr (let mj = drop_bit 5 ib in
     if mj = 0 then MT_UInt else if mj = 1 then MT_NegInt else if mj = 2 then MT_ByteString
     else if mj = 3 then MT_TextString else if mj = 4 then MT_Array else if mj = 5 then MT_Map
     else if mj = 6 then MT_Tag else MT_Simple)"
  using ahead_Cons [of r ib bs] by (simp add: peekType_def Let_def)

lemma peekType_head:
  assumes "ahead r = head_bytes mj v @ rest" and "mj < 6"
  shows "peekType r = Inr (if mj = 0 then MT_UInt else if mj = 1 then MT_NegInt else if mj = 2 then MT_ByteString
     else if mj = 3 then MT_TextString else if mj = 4 then MT_Array else MT_Map)"
proof -
  have "ahead r = (push_bit 5 mj OR head_ai v) # be_bytes (head_nbytes v) (unat v) @ rest"
    using assms(1) by (simp add: head_bytes_alt)
  moreover have m8: "mj < 8" using assms(2) by (simp add: word_less_nat_alt)
  ultimately have "peekType r = Inr (let mj = mj in
     if mj = 0 then MT_UInt else if mj = 1 then MT_NegInt else if mj = 2 then MT_ByteString
     else if mj = 3 then MT_TextString else if mj = 4 then MT_Array else if mj = 5 then MT_Map
     else if mj = 6 then MT_Tag else MT_Simple)"
    using initial_byte(1) [OF m8 head_ai_range(1)] peekType_Cons by metis
  moreover have "mj \<in> {0, 1, 2, 3, 4, 5}"
  proof -
    have "unat mj \<in> {0, 1, 2, 3, 4, 5}" using assms(2) by (auto simp: word_less_nat_alt)
    then show ?thesis by (auto simp: word_unat_eq_iff)
  qed
  ultimately show ?thesis by auto
qed

lemma skipValue_scalar:
  assumes "ahead r = enc v @ rest" and "case v of CArray _ \<Rightarrow> False | CMap _ \<Rightarrow> False | _ \<Rightarrow> True" and "cbor_ok d v"
  shows "skipValue_fuel (Suc f) r = Inr ((), adv (length (enc v)) r)"
proof (cases v)
  case (CUint x)
  then show ?thesis using assms(1) readUint_enc [of r x rest] peekType_head [of r 0 x rest] by (simp add: skipValue_fuel_Suc)
next
  case (CNeg x)
  then show ?thesis using assms(1) readInt_enc(2) [of r x rest] peekType_head [of r 1 x rest] by (simp add: skipValue_fuel_Suc)
next
  case (CBytes x)
  then show ?thesis
    using assms readBstr_enc [of r x rest] peekType_head [of r 2 "word_of_nat (length x)" "x @ rest"] by (simp add: skipValue_fuel_Suc)
next
  case (CText x)
  then show ?thesis
    using assms readTstr_enc [of r x rest] peekType_head [of r 3 "word_of_nat (length x)" "x @ rest"] by (simp add: skipValue_fuel_Suc)
next
  case (CBool b)
  then show ?thesis
    using assms by (cases b) (simp_all add: skipValue_fuel_Suc peekType_Cons parseSimpleRaw_Cons)
next
  case CNull
  then show ?thesis using assms by (simp add: skipValue_fuel_Suc peekType_Cons parseSimpleRaw_Cons)
next
  case (CFloat w)
  then show ?thesis using assms by (simp add: skipValue_fuel_Suc peekType_Cons parseSimpleRaw_Cons)
qed (use assms(2) in simp_all)

lemma eruns_skip:
  "\<forall>v \<in> set vs. reads (Suc d) (h ()) v () \<Longrightarrow> eruns d h vs () ()"
  by (induction vs) (auto intro: eruns.intros)

lemma runs_skip:
  "\<forall>(k, v) \<in> set kvs. reads (Suc d) (h k ()) v () \<Longrightarrow> runs d h kvs () ()"
  by (induction kvs) (auto intro: runs.intros)

lemma skipValue_fuel_enc:
  "cbor_ok d v \<Longrightarrow> d \<le> f \<Longrightarrow> d \<le> 4 \<Longrightarrow> reads (4 - d) (skipValue_fuel (Suc f)) v ()"
proof (induction d v arbitrary: f rule: cbor_ok.induct)
  case (4 d vs)
  then obtain f' where f: "f = Suc f'" by (cases f) auto
  have "reads (Suc (4 - Suc d)) (skipValue_fuel (Suc f')) v ()" if "v \<in> set vs" for v
  proof -
    have "Suc (4 - Suc d) = 4 - d" using "4.prems"(3) by simp
    then show ?thesis using "4.IH" [OF that, of f'] that "4.prems" f by (auto simp: list_all_iff)
  qed
  then have "reads (4 - Suc d) (\<lambda>r. rbind (readArrayHeader r) (\<lambda>(n, r). read_elems (unat n) (\<lambda>_. skipValue_fuel f) () r))
      (CArray vs) ()"
    using "4.prems" f by (intro reads_array eruns_skip) auto
  then show ?case
    using peekType_head [where mj = 4] unfolding reads_def by (auto simp: f skipValue_fuel_Suc)
next
  case (6 d kvs)
  then obtain f' where f: "f = Suc f'" by (cases f) auto
  have "reads (Suc (4 - Suc d)) (skipValue_fuel (Suc f')) v ()" if "(k, v) \<in> set kvs" for k v
  proof -
    have "Suc (4 - Suc d) = 4 - d" using "6.prems"(3) by simp
    then show ?thesis using "6.IH" [OF that refl, of f'] that "6.prems" f by (auto simp: list_all_iff)
  qed
  then have "reads (4 - Suc d) (\<lambda>r. rbind (readMapHeader r) (\<lambda>(n, r). read_pairs (unat n) (\<lambda>_ _. skipValue_fuel f) () r))
      (CMap kvs) ()"
    using "6.prems" f by (intro reads_map runs_skip) auto
  then show ?case
    using peekType_head [where mj = 5] unfolding reads_def by (auto simp: f skipValue_fuel_Suc)
qed (auto simp: reads_def intro!: skipValue_scalar simp del: enc.simps)

section \<open>Only profile items are skipped\<close>

text \<open>\<open>accepted d r r'\<close>: between \<open>r\<close> and \<open>r'\<close> lies one profile item of nesting depth at most \<open>d\<close>.\<close>

definition accepted :: "nat \<Rightarrow> CborReader \<Rightarrow> CborReader \<Rightarrow> bool" where
  "accepted d r r' \<longleftrightarrow> (\<exists>v. cbor_ok d v \<and> ahead r = enc v @ ahead r' \<and> r' = adv (length (enc v)) r)"

lemma acceptedI: "cbor_ok d v \<Longrightarrow> ahead r = enc v @ rest \<Longrightarrow> accepted d r (adv (length (enc v)) r)"
  unfolding accepted_def by (intro exI [of _ v]) simp

lemma readUint_accepted: "readUint r = Inr (x, r') \<Longrightarrow> accepted d r r'"
  using parseHeadRaw_canonical [of r] acceptedI [of d "CUint x" r]
  by (auto simp: readUint_def rbind_Inr_iff split: if_splits)

lemma readInt_accepted: "readInt r = Inr (x, r') \<Longrightarrow> accepted d r r'"
  using parseHeadRaw_canonical [of r] acceptedI [of d "CUint y" r for y] acceptedI [of d "CNeg y" r for y]
  by (auto simp: readInt_def rbind_Inr_iff split: if_splits)

lemma readStr_canonical:
  assumes "readStr mj r = Inr (s, r')"
  obtains rest where "ahead r = (head_bytes mj (word_of_nat (length s)) @ s) @ rest" "length s < 2 ^ 64"
    "r' = adv (length (head_bytes mj (word_of_nat (length s)) @ s)) r"
proof -
  obtain h where h: "parseHeadRaw r = Inr h" "hd_major h = mj"
    and len: "\<not> unat (hd_arg h) > length (rd_in r) - (rd_pos r + hd_totalBytes h)"
    and s: "s = take (unat (hd_arg h)) (drop (rd_pos r + hd_totalBytes h) (rd_in r))"
    and r': "r' = adv (hd_totalBytes h + unat (hd_arg h)) r"
    using assms by (auto simp: readStr_def rbind_Inr_iff Let_def split: if_splits)
  have ls: "length s = unat (hd_arg h)" using len s by auto
  have w: "word_of_nat (length s) = hd_arg h" by (simp add: ls)
  have tb: "hd_totalBytes h = length (head_bytes mj (hd_arg h))"
    using parseHeadRaw_canonical [OF h(1)] h(2) by simp
  obtain rest0 where a: "ahead r = head_bytes mj (hd_arg h) @ rest0"
    using parseHeadRaw_canonical [OF h(1)] h(2) by metis
  then have "s = take (length s) rest0" using s ahead_skip [OF a] unfolding tb ls by simp
  then have "ahead r = (head_bytes mj (hd_arg h) @ s) @ drop (length s) rest0"
    using a by (metis append.assoc append_take_drop_id)
  moreover have "length s < 2 ^ 64" using unat_u64_less [of "hd_arg h"] by (simp add: ls)
  ultimately show ?thesis using that r' unfolding w tb by (simp add: ls)
qed

lemma readBstr_accepted: "readBstr r = Inr (x, r') \<Longrightarrow> accepted d r r'"
proof -
  assume "readBstr r = Inr (x, r')"
  then obtain rest where "ahead r = enc (CBytes x) @ rest" "length x < 2 ^ 64" "r' = adv (length (enc (CBytes x))) r"
    unfolding readBstr_def by (elim readStr_canonical) simp
  then show ?thesis using acceptedI [of d "CBytes x" r rest] by simp
qed

lemma readTstr_accepted: "readTstr r = Inr (x, r') \<Longrightarrow> accepted d r r'"
proof -
  assume "readTstr r = Inr (x, r')"
  then obtain rest where "ahead r = enc (CText x) @ rest" "length x < 2 ^ 64" "r' = adv (length (enc (CText x))) r"
    unfolding readTstr_def by (elim readStr_canonical) simp
  then show ?thesis using acceptedI [of d "CText x" r rest] by simp
qed

lemma parseSimpleRaw_accepted:
  assumes "parseSimpleRaw r = Inr s"
  shows "accepted d r (adv (sh_totalBytes s) r)"
proof (cases "ahead r")
  case Nil
  then show ?thesis using assms by (simp add: ahead_Nil parseSimpleRaw_def)
next
  case (Cons ib bs)
  have mj: "drop_bit 5 ib = 7" using assms by (auto simp: parseSimpleRaw_Cons [OF Cons] split: if_splits)
  have ib: "ib = 0xE0 OR (ib AND 0x1F)" using initial_byte_split [of ib] unfolding mj by simp
  show ?thesis
  proof (cases "ib AND 0x1F = 26")
    case True
    then have l: "4 \<le> length bs" and s: "sh_totalBytes s = 5"
      using assms mj by (auto simp: parseSimpleRaw_Cons [OF Cons] split: if_splits)
    let ?w = "word_of_nat (be_value (take 4 bs)) :: u32"
    have "be_value (take 4 bs) < 256 ^ 4" "be_bytes 4 (be_value (take 4 bs)) = take 4 bs"
      using be_value_take(2,3) [OF l] by simp_all
    then have "be_bytes 4 (unat ?w) = take 4 bs" by (simp add: unat_of_nat)
    then have "ahead r = enc (CFloat ?w) @ drop 4 bs" using Cons ib True by simp
    then show ?thesis using acceptedI [of d "CFloat ?w" r] s by simp
  next
    case False
    then consider "ib AND 0x1F = 20" | "ib AND 0x1F = 21" | "ib AND 0x1F = 22"
      using assms mj by (auto simp: parseSimpleRaw_Cons [OF Cons] split: if_splits)
    then show ?thesis
    proof cases
      case 1
      then have "ahead r = enc (CBool False) @ bs" "sh_totalBytes s = 1"
        using assms mj Cons ib by (auto simp: parseSimpleRaw_Cons [OF Cons])
      then show ?thesis using acceptedI [of d "CBool False" r bs] by simp
    next
      case 2
      then have "ahead r = enc (CBool True) @ bs" "sh_totalBytes s = 1"
        using assms mj Cons ib by (auto simp: parseSimpleRaw_Cons [OF Cons])
      then show ?thesis using acceptedI [of d "CBool True" r bs] by simp
    next
      case 3
      then have "ahead r = enc CNull @ bs" "sh_totalBytes s = 1"
        using assms mj Cons ib by (auto simp: parseSimpleRaw_Cons [OF Cons])
      then show ?thesis using acceptedI [of d CNull r bs] by simp
    qed
  qed
qed

lemma enterContainer_canonical:
  assumes "enterContainer mj m r = Inr (n, r1)"
  shows "ahead r = head_bytes mj (word_of_nat (unat n)) @ ahead r1 \<and> length (rd_stack r) < 4 \<and>
    rd_in r1 = rd_in r \<and> rd_pos r1 = rd_pos r + length (head_bytes mj (word_of_nat (unat n))) \<and>
    rd_stack r1 = slots (if m then mapFrame else arrayFrame) (if m then 2 * unat n else unat n) (rd_stack r)"
proof -
  obtain h where h: "parseHeadRaw r = Inr h" "hd_major h = mj" "length (rd_stack r) < 4"
    "\<not> hd_arg h > 0xFFFFFFFF" "n = ucast (hd_arg h)"
    and r1: "r1 = r \<lparr> rd_pos := rd_pos r + hd_totalBytes h,
            rd_stack := afterConsume (\<lparr> fr_isMap = m,
              fr_remaining = (if m then unat (hd_arg h) * 2 else unat (hd_arg h)),
              fr_hasLastKey = False, fr_lastKey = 0 \<rparr> # rd_stack r) \<rparr>"
    using assms by (auto simp: enterContainer_def rbind_Inr_iff kMaxDepth_def split: if_splits)
  note c = parseHeadRaw_canonical [OF h(1)]
  have "unat (hd_arg h) < 2 ^ 32" using h(4) by (simp add: word_less_nat_alt)
  then have n: "unat n = unat (hd_arg h)"
    unfolding h(5) by (simp add: unsigned_ucast_eq take_bit_nat_eq_self_iff)
  have "ahead r1 = drop (hd_totalBytes h) (ahead r)"
    by (simp add: r1 ahead_def add.commute)
  then show ?thesis
    using c h r1 n afterConsume_slots [where f = mapFrame and n = "unat n * 2" and st = "rd_stack r"]
      afterConsume_slots [where f = arrayFrame and n = "unat n" and st = "rd_stack r"]
    by (auto simp: mapFrame_def arrayFrame_def mult.commute)
qed

lemma reader_update_eq:
  "rd_in r1 = rd_in r \<Longrightarrow> r1 \<lparr> rd_pos := p, rd_stack := st \<rparr> = r \<lparr> rd_pos := p, rd_stack := st \<rparr>"
  for r r1 :: CborReader
  by (cases r; cases r1) simp

text \<open>The element and pair loops, for a body that only accepts profile items.\<close>

lemma read_elems_accepted:
  assumes "\<And>r r'. length (rd_stack r) = Suc (length st) \<Longrightarrow> sk r = Inr ((), r') \<Longrightarrow> accepted d r r'"
    and "read_elems n (\<lambda>_. sk) () r = Inr ((), r')" and "rd_stack r = slots f n st"
  shows "\<exists>vs. length vs = n \<and> list_all (cbor_ok d) vs \<and> ahead r = concat (map enc vs) @ ahead r' \<and>
    r' = r \<lparr> rd_pos := rd_pos r + length (concat (map enc vs)), rd_stack := consumeOne st \<rparr>"
  using assms(2,3)
proof (induction n arbitrary: r)
  case 0
  then show ?case by (cases r) (simp add: slots_def)
next
  case (Suc n)
  from Suc.prems(1) obtain r1 where r1: "sk r = Inr ((), r1)" "read_elems n (\<lambda>_. sk) () r1 = Inr ((), r')"
    by (auto simp: rbind_Inr_iff)
  have "length (rd_stack r) = Suc (length st)" using Suc.prems(2) by (simp add: slots_def)
  from assms(1) [OF this r1(1)] obtain v where v: "cbor_ok d v" "ahead r = enc v @ ahead r1"
      "r1 = adv (length (enc v)) r"
    unfolding accepted_def by blast
  have "rd_stack r1 = slots f n st" using Suc.prems(2) v(3) by simp
  from Suc.IH [OF r1(2) this] obtain vs where vs: "length vs = n" "list_all (cbor_ok d) vs"
      "ahead r1 = concat (map enc vs) @ ahead r'"
      "r' = r1 \<lparr> rd_pos := rd_pos r1 + length (concat (map enc vs)), rd_stack := consumeOne st \<rparr>"
    by blast
  show ?case
    by (intro exI [of _ "v # vs"]) (use v vs in \<open>simp add: adv_def add.assoc\<close>)
qed

lemma readKey_canonical:
  assumes "readKey r = Inr (k, r1)" and "rd_stack r = slots f (Suc (Suc n)) st"
  shows "ahead r = head_bytes 0 k @ ahead r1 \<and> (fr_hasLastKey f \<longrightarrow> fr_lastKey f < k) \<and>
    r1 = r \<lparr> rd_pos := rd_pos r + length (head_bytes 0 k),
      rd_stack := slots (f \<lparr> fr_hasLastKey := True, fr_lastKey := k \<rparr>) (Suc n) st \<rparr>"
proof -
  let ?g = "f \<lparr> fr_hasLastKey := True, fr_lastKey := k \<rparr>"
  obtain h where h: "parseHeadRaw r = Inr h" "hd_major h = 0" "hd_arg h = k"
    "fr_hasLastKey f \<longrightarrow> fr_lastKey f < k"
    and r1: "r1 = adv (hd_totalBytes h) (r \<lparr> rd_stack := slots ?g (Suc (Suc n)) st \<rparr>)"
    using assms by (auto simp: readKey_def rbind_Inr_iff slots_Suc not_le split: if_splits)
  show ?thesis
    using parseHeadRaw_canonical [OF h(1)] h r1 by (simp add: adv_def ahead_def add.commute)
qed

lemma read_pairs_accepted:
  assumes "\<And>r r'. length (rd_stack r) = Suc (length st) \<Longrightarrow> sk r = Inr ((), r') \<Longrightarrow> accepted d r r'"
    and "read_pairs n (\<lambda>_ _. sk) () r = Inr ((), r')" and "rd_stack r = slots f (2 * n) st"
  shows "\<exists>kvs. length kvs = n \<and> list_all (\<lambda>(k, v). cbor_ok d v) kvs \<and> sorted_wrt (<) (map fst kvs) \<and>
    (\<forall>k \<in> fst ` set kvs. fr_hasLastKey f \<longrightarrow> fr_lastKey f < k) \<and> ahead r = enc_pairs kvs @ ahead r' \<and>
    r' = r \<lparr> rd_pos := rd_pos r + length (enc_pairs kvs), rd_stack := consumeOne st \<rparr>"
  using assms(2,3)
proof (induction n arbitrary: r f)
  case 0
  then show ?case by (cases r) (simp add: slots_def)
next
  case (Suc n)
  from Suc.prems(1) obtain k r1 r2 where r1: "readKey r = Inr (k, r1)" "sk r1 = Inr ((), r2)"
      "read_pairs n (\<lambda>_ _. sk) () r2 = Inr ((), r')"
    by (auto simp: rbind_Inr_iff)
  let ?g = "f \<lparr> fr_hasLastKey := True, fr_lastKey := k \<rparr>"
  have "rd_stack r = slots f (Suc (Suc (2 * n))) st" using Suc.prems(2) by simp
  note k = readKey_canonical [OF r1(1) this]
  have "length (rd_stack r1) = Suc (length st)" using k by (simp add: slots_def)
  from assms(1) [OF this r1(2)] obtain v where v: "cbor_ok d v" "ahead r1 = enc v @ ahead r2"
      "r2 = adv (length (enc v)) r1"
    unfolding accepted_def by blast
  have "rd_stack r2 = slots ?g (2 * n) st" using k v(3) by simp
  from Suc.IH [OF r1(3) this] obtain kvs where kvs: "length kvs = n" "list_all (\<lambda>(k, v). cbor_ok d v) kvs"
      "sorted_wrt (<) (map fst kvs)" "\<forall>k' \<in> fst ` set kvs. k < k'" "ahead r2 = enc_pairs kvs @ ahead r'"
      "r' = r2 \<lparr> rd_pos := rd_pos r2 + length (enc_pairs kvs), rd_stack := consumeOne st \<rparr>"
    by auto
  have "\<forall>k' \<in> fst ` set ((k, v) # kvs). fr_hasLastKey f \<longrightarrow> fr_lastKey f < k'"
    using k kvs(4) by fastforce
  then show ?case
    by (intro exI [of _ "(k, v) # kvs"]) (use k v kvs in \<open>simp add: adv_def add.assoc\<close>)
qed

lemma skipValue_fuel_array:
  assumes "\<And>r r'. skipValue_fuel f r = Inr ((), r') \<Longrightarrow> accepted (4 - length (rd_stack r)) r r'"
    and "readArrayHeader r = Inr (n, r1)" and "read_elems (unat n) (\<lambda>_. skipValue_fuel f) () r1 = Inr ((), r')"
  shows "accepted (4 - length (rd_stack r)) r r'"
proof -
  let ?st = "rd_stack r"
  note c = enterContainer_canonical [OF assms(2) [unfolded readArrayHeader_def]]
  obtain vs where vs: "length vs = unat n" "list_all (cbor_ok (4 - Suc (length ?st))) vs"
      "ahead r1 = concat (map enc vs) @ ahead r'"
      "r' = r1 \<lparr> rd_pos := rd_pos r1 + length (concat (map enc vs)), rd_stack := consumeOne ?st \<rparr>"
    using read_elems_accepted [of ?st "skipValue_fuel f" "4 - Suc (length ?st)", OF _ assms(3), of arrayFrame]
      assms(1) c by (metis (mono_tags, lifting))
  have a: "ahead r = enc (CArray vs) @ ahead r'" using c vs by simp
  have "4 - length ?st = Suc (4 - Suc (length ?st))" using c by linarith
  then have "cbor_ok (4 - length ?st) (CArray vs)" using vs(1,2) unat_u32_less [of n] by simp
  moreover have "r' = adv (length (enc (CArray vs))) r"
    using c vs(1,4) reader_update_eq [of r1 r] by (simp add: adv_def add.assoc)
  ultimately show ?thesis using acceptedI [OF _ a] by simp
qed

lemma skipValue_fuel_map:
  assumes "\<And>r r'. skipValue_fuel f r = Inr ((), r') \<Longrightarrow> accepted (4 - length (rd_stack r)) r r'"
    and "readMapHeader r = Inr (n, r1)" and "read_pairs (unat n) (\<lambda>_ _. skipValue_fuel f) () r1 = Inr ((), r')"
  shows "accepted (4 - length (rd_stack r)) r r'"
proof -
  let ?st = "rd_stack r"
  note c = enterContainer_canonical [OF assms(2) [unfolded readMapHeader_def]]
  obtain kvs where kvs: "length kvs = unat n" "list_all (\<lambda>(k, v). cbor_ok (4 - Suc (length ?st)) v) kvs"
      "sorted_wrt (<) (map fst kvs)" "ahead r1 = enc_pairs kvs @ ahead r'"
      "r' = r1 \<lparr> rd_pos := rd_pos r1 + length (enc_pairs kvs), rd_stack := consumeOne ?st \<rparr>"
    using read_pairs_accepted [of ?st "skipValue_fuel f" "4 - Suc (length ?st)", OF _ assms(3), of mapFrame]
      assms(1) c by (metis (mono_tags, lifting))
  have a: "ahead r = enc (CMap kvs) @ ahead r'" using c kvs by (simp add: enc_pairs_def)
  have "4 - length ?st = Suc (4 - Suc (length ?st))" using c by linarith
  then have "cbor_ok (4 - length ?st) (CMap kvs)" using kvs(1,2,3) unat_u32_less [of n] by simp
  moreover have "r' = adv (length (enc (CMap kvs))) r"
    using c kvs(1,5) reader_update_eq [of r1 r] by (simp add: adv_def add.assoc enc_pairs_def)
  ultimately show ?thesis using acceptedI [OF _ a] by simp
qed

lemma skipValue_fuel_accepted:
  "skipValue_fuel f r = Inr ((), r') \<Longrightarrow> accepted (4 - length (rd_stack r)) r r'"
proof (induction f arbitrary: r r')
  case 0
  then show ?case by simp
next
  case (Suc f)
  obtain t where t: "peekType r = Inr t" using Suc.prems by (auto simp: skipValue_fuel_Suc rbind_Inr_iff)
  show ?case
  proof (cases t)
    case MT_Array
    then obtain n r1 where "readArrayHeader r = Inr (n, r1)"
        "read_elems (unat n) (\<lambda>_. skipValue_fuel f) () r1 = Inr ((), r')"
      using Suc.prems t by (auto simp: skipValue_fuel_Suc rbind_Inr_iff)
    then show ?thesis using skipValue_fuel_array [OF Suc.IH] by blast
  next
    case MT_Map
    then obtain n r1 where "readMapHeader r = Inr (n, r1)"
        "read_pairs (unat n) (\<lambda>_ _. skipValue_fuel f) () r1 = Inr ((), r')"
      using Suc.prems t by (auto simp: skipValue_fuel_Suc rbind_Inr_iff)
    then show ?thesis using skipValue_fuel_map [OF Suc.IH] by blast
  qed (use Suc.prems t in \<open>auto simp: skipValue_fuel_Suc rbind_Inr_iff intro: readUint_accepted
      readInt_accepted readBstr_accepted readTstr_accepted parseSimpleRaw_accepted\<close>)
qed

section \<open>The fuel is enough\<close>

lemma read_elems_cong:
  assumes "\<And>r. length (rd_stack r) = Suc (length st) \<Longrightarrow> sk r = sk' r"
    and "\<And>r r'. sk r = Inr ((), r') \<Longrightarrow> rd_stack r' = consumeOne (rd_stack r)"
  shows "rd_stack r = slots f n st \<Longrightarrow> read_elems n (\<lambda>_. sk) () r = read_elems n (\<lambda>_. sk') () r"
proof (induction n arbitrary: r)
  case 0
  then show ?case by simp
next
  case (Suc n)
  then have "sk r = sk' r" by (intro assms(1)) (simp add: slots_def)
  moreover have "read_elems n (\<lambda>_. sk) () r' = read_elems n (\<lambda>_. sk') () r'" if "sk r = Inr ((), r')" for r'
    using Suc assms(2) [OF that] by (intro Suc.IH) simp
  ultimately show ?case by (cases "sk' r") auto
qed

lemma readKey_stack:
  "readKey r = Inr (k, r1) \<Longrightarrow> rd_stack r = slots f (Suc (Suc n)) st \<Longrightarrow> \<exists>g. rd_stack r1 = slots g (Suc n) st"
  using readKey_canonical by force

lemma read_pairs_cong:
  assumes "\<And>r. length (rd_stack r) = Suc (length st) \<Longrightarrow> sk r = sk' r"
    and "\<And>r r'. sk r = Inr ((), r') \<Longrightarrow> rd_stack r' = consumeOne (rd_stack r)"
  shows "rd_stack r = slots f (2 * n) st \<Longrightarrow> read_pairs n (\<lambda>_ _. sk) () r = read_pairs n (\<lambda>_ _. sk') () r"
proof (induction n arbitrary: r f)
  case 0
  then show ?case by simp
next
  case (Suc n)
  show ?case
  proof (cases "readKey r")
    case (Inl e)
    then show ?thesis by simp
  next
    case (Inr kr)
    then obtain k r1 where k: "readKey r = Inr (k, r1)" by (cases kr) auto
    obtain g where g: "rd_stack r1 = slots g (Suc (2 * n)) st" using readKey_stack [OF k, of f "2 * n" st] Suc.prems by auto
    then have "sk r1 = sk' r1" by (intro assms(1)) (simp add: slots_def)
    moreover have "read_pairs n (\<lambda>_ _. sk) () r' = read_pairs n (\<lambda>_ _. sk') () r'" if "sk r1 = Inr ((), r')" for r'
      using g assms(2) [OF that] by (intro Suc.IH [of _ g]) simp
    ultimately show ?thesis using k by (cases "sk' r1") auto
  qed
qed

lemma skipValue_fuel_stack: "skipValue_fuel f r = Inr ((), r') \<Longrightarrow> rd_stack r' = consumeOne (rd_stack r)"
  using skipValue_fuel_accepted [of f r r'] rd_in_adv(2) unfolding accepted_def by metis

lemma skipValue_fuel_enough_Suc:
  "length (rd_stack r) \<le> 4 \<Longrightarrow> 5 \<le> f + length (rd_stack r) \<Longrightarrow> skipValue_fuel (Suc f) r = skipValue_fuel f r"
proof (induction f arbitrary: r)
  case 0
  then show ?case by simp
next
  case (Suc f)
  have "read_elems (unat n) (\<lambda>_. skipValue_fuel (Suc f)) () r1 = read_elems (unat n) (\<lambda>_. skipValue_fuel f) () r1"
    if "readArrayHeader r = Inr (n, r1)" for n r1
    using enterContainer_canonical [OF that [unfolded readArrayHeader_def]] Suc.IH Suc.prems
    by (intro read_elems_cong [of "rd_stack r" _ _ _ arrayFrame] skipValue_fuel_stack) auto
  moreover have "read_pairs (unat n) (\<lambda>_ _. skipValue_fuel (Suc f)) () r1 = read_pairs (unat n) (\<lambda>_ _. skipValue_fuel f) () r1"
    if "readMapHeader r = Inr (n, r1)" for n r1
    using enterContainer_canonical [OF that [unfolded readMapHeader_def]] Suc.IH Suc.prems
    by (intro read_pairs_cong [of "rd_stack r" _ _ _ mapFrame] skipValue_fuel_stack) auto
  ultimately show ?case
    unfolding skipValue_fuel_Suc [of "Suc f"] skipValue_fuel_Suc [of f]
    by (auto simp: rbind_def split: MajorType.splits sum.splits)
qed

lemma skipValue_fuel_enough:
  assumes "length (rd_stack r) \<le> 4"
  shows "skipValue_fuel (5 + f) r = skipValue r"
proof (induction f)
  case 0
  then show ?case by (simp add: skipValue_def kMaxDepth_def)
next
  case (Suc f)
  then show ?case using skipValue_fuel_enough_Suc [OF assms, of "5 + f"] by simp
qed

section \<open>Properties\<close>

text \<open>
  Heads are canonical: the bytes the writer emits for a major type and a 64-bit argument are
  the only ones the reader accepts for them, and it reads them back exactly.
\<close>

theorem cbor_head_canonical:
  "(\<exists>h. parseHeadRaw r = Inr h \<and> hd_major h = major \<and> hd_arg h = v) =
   (major < 6 \<and> (\<exists>rest. ahead r = w_buf (writeHead major v (CborWriter_new 9)) @ rest))"
proof -
  have "length (head_bytes major v) \<le> 9" by (simp add: length_head_bytes head_nbytes_def)
  then have w: "w_buf (writeHead major v (CborWriter_new 9)) = head_bytes major v"
    by (simp add: writeHead_def w_store_def w_ensure_def CborWriter_new_def)
  show ?thesis
    unfolding w using parseHeadRaw_head parseHeadRaw_canonical by fastforce
qed

text \<open>
  (C37) The reader enforces the deterministic profile exactly: from a fresh reader, skipping a value
  succeeds precisely when the input starts with the image of some profile item (shortest heads,
  ascending keys, definite lengths, nesting at most four), and it then stands right behind that item.
  Every other input is an error, and no input makes the recursion run out of its depth bound.
\<close>

theorem skipValue_exact:
  "(\<exists>r'. skipValue (CborReader_new inp) = Inr ((), r') \<and> rd_pos r' = n) =
     (\<exists>v. cbor_ok 4 v \<and> take n inp = enc v \<and> n \<le> length inp) \<and>
   skipValue_fuel (5 + f) (CborReader_new inp) = skipValue (CborReader_new inp)"
proof -
  let ?r = "CborReader_new inp"
  have a: "ahead ?r = inp" by (simp add: ahead_def CborReader_new_def)
  have "(\<exists>r'. skipValue ?r = Inr ((), r') \<and> rd_pos r' = n) =
     (\<exists>v. cbor_ok 4 v \<and> take n inp = enc v \<and> n \<le> length inp)" (is "?L = ?R")
  proof
    assume ?L
    then obtain r' where r': "skipValue ?r = Inr ((), r')" "rd_pos r' = n" by blast
    then have "accepted 4 ?r r'"
      using skipValue_fuel_accepted [of "kMaxDepth + 1" ?r r'] by (simp add: skipValue_def CborReader_new_def)
    then obtain v where v: "cbor_ok 4 v" "inp = enc v @ ahead r'" "r' = adv (length (enc v)) ?r"
      unfolding accepted_def a by blast
    have "n = length (enc v)" using r'(2) v(3) by (simp add: CborReader_new_def)
    then show ?R using v(1,2) by (intro exI [of _ v]) auto
  next
    assume ?R
    then obtain v where v: "cbor_ok 4 v" "take n inp = enc v" "n \<le> length inp" by blast
    have "ahead ?r = enc v @ drop n inp" unfolding a v(2) [symmetric] by simp
    moreover have "reads 0 (skipValue_fuel 5) v ()"
      using skipValue_fuel_enc [OF v(1), of 4] by simp
    ultimately have "skipValue ?r = Inr ((), adv (length (enc v)) ?r)"
      unfolding reads_def skipValue_def kMaxDepth_def by (simp add: CborReader_new_def)
    moreover have "length (enc v) = n" using v(2,3) by (metis length_take min.absorb2)
    ultimately show ?L by (simp add: CborReader_new_def)
  qed
  moreover have "skipValue_fuel (5 + f) ?r = skipValue ?r"
    by (rule skipValue_fuel_enough) (simp add: CborReader_new_def)
  ultimately show ?thesis by blast
qed

end
