(* ===== verification/Cbor_Message.thy ===== *)
theory Cbor_Message
  imports Cbor_Skip
begin

text \<open>
  What the message codecs of \<^verbatim>\<open>wire/messages/\<close> have in common: the registry's key numbers, the
  \<open>readMapHeader\<close>-then-loop idiom (\<open>decode_map\<close>), and the interface \<open>cbor_message\<close> that an
  \<open>encodeX\<close>/\<open>decodeX\<close> pair satisfies.  From the interface follow the facts receivers rely on: round
  trip from any buffer, refusal instead of truncation, distinct messages have distinct images, and
  forward compatibility, that is, a decoder ignores map keys it does not know.

  Conventions of the message models: a pair of members \<open>bool has_x; T x\<close> is an \<open>option\<close>, an array
  with a count is a list, a \<open>string_view\<close> or byte span is its bytes.
\<close>

section \<open>Registry keys\<close>

text \<open>The enum \<^verbatim>\<open>CborKey\<close> of \<^verbatim>\<open>generated/registry_constants.hpp\<close>.\<close>

abbreviation (input) CK_proto_ver :: u64 where "CK_proto_ver \<equiv> 1"
abbreviation (input) CK_client_kind :: u64 where "CK_client_kind \<equiv> 2"
abbreviation (input) CK_client_name :: u64 where "CK_client_name \<equiv> 3"
abbreviation (input) CK_instance_id :: u64 where "CK_instance_id \<equiv> 4"
abbreviation (input) CK_token :: u64 where "CK_token \<equiv> 5"
abbreviation (input) CK_session_id :: u64 where "CK_session_id \<equiv> 6"
abbreviation (input) CK_boot_id :: u64 where "CK_boot_id \<equiv> 7"
abbreviation (input) CK_catalog_etag :: u64 where "CK_catalog_etag \<equiv> 8"
abbreviation (input) CK_cfg_gen :: u64 where "CK_cfg_gen \<equiv> 9"
abbreviation (input) CK_subscriptions :: u64 where "CK_subscriptions \<equiv> 10"
abbreviation (input) CK_publishes :: u64 where "CK_publishes \<equiv> 11"
abbreviation (input) CK_rate_hz :: u64 where "CK_rate_hz \<equiv> 12"
abbreviation (input) CK_priority :: u64 where "CK_priority \<equiv> 13"
abbreviation (input) CK_granted_rate_hz :: u64 where "CK_granted_rate_hz \<equiv> 14"
abbreviation (input) CK_channel_id :: u64 where "CK_channel_id \<equiv> 15"
abbreviation (input) CK_code :: u64 where "CK_code \<equiv> 16"
abbreviation (input) CK_detail :: u64 where "CK_detail \<equiv> 17"
abbreviation (input) CK_intent_id :: u64 where "CK_intent_id \<equiv> 18"
abbreviation (input) CK_applied :: u64 where "CK_applied \<equiv> 19"
abbreviation (input) CK_value :: u64 where "CK_value \<equiv> 20"
abbreviation (input) CK_timestamp :: u64 where "CK_timestamp \<equiv> 21"
abbreviation (input) CK_limits :: u64 where "CK_limits \<equiv> 22"
abbreviation (input) CK_roles :: u64 where "CK_roles \<equiv> 23"
abbreviation (input) CK_deadman_ms :: u64 where "CK_deadman_ms \<equiv> 24"
abbreviation (input) CK_deadman_policy :: u64 where "CK_deadman_policy \<equiv> 25"
abbreviation (input) CK_probe_result :: u64 where "CK_probe_result \<equiv> 26"
abbreviation (input) CK_chunks :: u64 where "CK_chunks \<equiv> 27"
abbreviation (input) CK_pin_proof :: u64 where "CK_pin_proof \<equiv> 28"
abbreviation (input) CK_nonce :: u64 where "CK_nonce \<equiv> 29"
abbreviation (input) CK_precondition :: u64 where "CK_precondition \<equiv> 30"
abbreviation (input) CK_retry_after_ms :: u64 where "CK_retry_after_ms \<equiv> 31"
abbreviation (input) CK_takeover :: u64 where "CK_takeover \<equiv> 32"
abbreviation (input) CK_event_kind :: u64 where "CK_event_kind \<equiv> 33"
abbreviation (input) CK_seq_of_state :: u64 where "CK_seq_of_state \<equiv> 34"
abbreviation (input) CK_grants :: u64 where "CK_grants \<equiv> 35"
abbreviation (input) CK_granted_publishes :: u64 where "CK_granted_publishes \<equiv> 36"
abbreviation (input) CK_identity :: u64 where "CK_identity \<equiv> 37"
abbreviation (input) CK_blob :: u64 where "CK_blob \<equiv> 38"
abbreviation (input) CK_trust :: u64 where "CK_trust \<equiv> 39"
abbreviation (input) CK_body :: u64 where "CK_body \<equiv> 40"
abbreviation (input) CK_intent_seq :: u64 where "CK_intent_seq \<equiv> 41"
abbreviation (input) CK_burst :: u64 where "CK_burst \<equiv> 42"
abbreviation (input) CK_reboot_in_ms :: u64 where "CK_reboot_in_ms \<equiv> 43"
abbreviation (input) CK_deadman_wish_ms :: u64 where "CK_deadman_wish_ms \<equiv> 44"
abbreviation (input) CK_curve_family :: u64 where "CK_curve_family \<equiv> 45"
abbreviation (input) CK_ws_port :: u64 where "CK_ws_port \<equiv> 46"
abbreviation (input) CK_ipv4 :: u64 where "CK_ipv4 \<equiv> 47"
abbreviation (input) CK_requested_curve_family :: u64 where "CK_requested_curve_family \<equiv> 48"

section \<open>Decoder idioms\<close>

type_synonym 'm handler = "u64 \<Rightarrow> 'm \<Rightarrow> CborReader \<Rightarrow> ('m \<times> CborReader) result"

definition decode_map :: "'m handler \<Rightarrow> 'm \<Rightarrow> CborReader \<Rightarrow> ('m \<times> CborReader) result" where
  "decode_map h m r = rbind (readMapHeader r) (\<lambda>(n, r). read_pairs (unat n) h m r)"

text \<open>A map or array read into a fixed array of \<open>cap\<close> elements.\<close>

definition decode_map_cap :: "nat \<Rightarrow> 'm handler \<Rightarrow> 'm \<Rightarrow> CborReader \<Rightarrow> ('m \<times> CborReader) result" where
  "decode_map_cap cap h m r = rbind (readMapHeader r) (\<lambda>(n, r).
     if unat n > cap then Inl CapacityExceeded else read_pairs (unat n) h m r)"

definition decode_array_cap :: "nat \<Rightarrow> ('m \<Rightarrow> CborReader \<Rightarrow> ('m \<times> CborReader) result) \<Rightarrow> 'm \<Rightarrow> CborReader
    \<Rightarrow> ('m \<times> CborReader) result" where
  "decode_array_cap cap h m r = rbind (readArrayHeader r) (\<lambda>(n, r).
     if unat n > cap then Inl CapacityExceeded else read_elems (unat n) h m r)"

text \<open>The common shape: an array of records read by \<open>rd\<close> into a fixed array, and its encoder.\<close>

definition decode_list :: "nat \<Rightarrow> (CborReader \<Rightarrow> ('a \<times> CborReader) result) \<Rightarrow> CborReader
    \<Rightarrow> ('a list \<times> CborReader) result" where
  "decode_list cap rd r = decode_array_cap cap (\<lambda>acc r. rbind (rd r) (\<lambda>(x, r). Inr (acc @ [x], r))) [] r"

definition w_list :: "('a \<Rightarrow> CborWriter \<Rightarrow> CborWriter) \<Rightarrow> 'a list \<Rightarrow> CborWriter \<Rightarrow> CborWriter" where
  "w_list g xs = w_seq [arrayHeader (word_of_nat (length xs)), w_each g xs]"

text \<open>The \<^verbatim>\<open>default:\<close> branch of every decoder.\<close>

definition skip_unknown :: "'m \<Rightarrow> CborReader \<Rightarrow> ('m \<times> CborReader) result" where
  "skip_unknown m r = rbind (skipValue r) (\<lambda>(_, r). Inr (m, r))"

text \<open>\<open>++nKeys\<close> for a member that is present.\<close>

definition present :: "'a option \<Rightarrow> u32" where
  "present x = (if x = None then 0 else 1)"

lemma length_opt_pairs [simp]:
  "word_of_nat (length (case x of None \<Rightarrow> [] | Some y \<Rightarrow> [f y])) = present x"
  by (simp add: present_def split: option.splits)

lemmas emits_seq_result = emits_result [where g = "w_seq gs" for gs]

section \<open>Rules for reads\<close>

named_theorems read_intros \<open>reads of the scalar kinds\<close>

lemma reads_uint [read_intros]: "reads d readUint (CUint v) v"
  by (simp add: reads_def readUint_enc del: enc.simps)

lemma reads_bool [read_intros]: "reads d readBool (CBool v) v"
  by (simp add: reads_def readBool_enc del: enc.simps)

lemma reads_f32 [read_intros]: "reads d readF32 (CFloat v) v"
  by (simp add: reads_def readF32_enc del: enc.simps)

lemma reads_tstr [read_intros]: "length s < 2 ^ 64 \<Longrightarrow> reads d readTstr (CText s) s"
  by (simp add: reads_def readTstr_enc del: enc.simps)

lemma reads_bstr [read_intros]: "length s < 2 ^ 64 \<Longrightarrow> reads d readBstr (CBytes s) s"
  by (simp add: reads_def readBstr_enc del: enc.simps)

lemma reads_bind: "reads d rd v x \<Longrightarrow> (\<And>r. g (x, r) = Inr (y, r)) \<Longrightarrow> reads d (\<lambda>r. rbind (rd r) g) v y"
  by (simp add: reads_def)

lemma reads_skip_unknown: "cbor_ok 3 v \<Longrightarrow> reads 1 (skip_unknown m) v m"
  using skipValue_fuel_enc [of 3 v 4]
  by (simp add: reads_def skip_unknown_def skipValue_def kMaxDepth_def)

lemma reads_decode_map:
  "runs d h kvs m m' \<Longrightarrow> sorted_wrt (<) (map fst kvs) \<Longrightarrow> length kvs < 2 ^ 32 \<Longrightarrow> d < 4 \<Longrightarrow>
   reads d (decode_map h m) (CMap kvs) m'"
  using reads_map [of d h kvs m m'] by (simp add: decode_map_def [abs_def])

lemma unat_length_u32: "length xs < 2 ^ 32 \<Longrightarrow> unat (word_of_nat (length xs) :: u32) = length xs"
  by (simp add: unat_of_nat)

lemma reads_cap:
  assumes "reads d (\<lambda>r. rbind (hdr r) (\<lambda>(n, r). lp n r)) v x"
    and "\<And>r rest. ahead r = enc v @ rest \<Longrightarrow> length (rd_stack r) \<le> d \<Longrightarrow> \<exists>n r1. hdr r = Inr (n, r1) \<and> unat n \<le> cap"
  shows "reads d (\<lambda>r. rbind (hdr r) (\<lambda>(n, r). if unat n > cap then Inl e else lp n r)) v x"
  using assms unfolding reads_def by (fastforce simp: not_less)

lemma reads_decode_map_cap:
  assumes "runs d h kvs m m'" and "sorted_wrt (<) (map fst kvs)" and "length kvs \<le> cap" and "cap < 2 ^ 32" and "d < 4"
  shows "reads d (decode_map_cap cap h m) (CMap kvs) m'"
  unfolding decode_map_cap_def [abs_def]
proof (rule reads_cap)
  show "reads d (\<lambda>r. rbind (readMapHeader r) (\<lambda>(n, r). read_pairs (unat n) h m r)) (CMap kvs) m'"
    using assms by (intro reads_map) auto
next
  fix r rest assume a: "ahead r = enc (CMap kvs) @ rest" "length (rd_stack r) \<le> d"
  then show "\<exists>n r1. readMapHeader r = Inr (n, r1) \<and> unat n \<le> cap"
    using enterContainer_enc [of r 5 "length kvs" _ True] assms
    by (auto simp: readMapHeader_def unat_length_u32)
qed

lemma reads_decode_array_cap:
  assumes "eruns d h vs m m'" and "length vs \<le> cap" and "cap < 2 ^ 32" and "d < 4"
  shows "reads d (decode_array_cap cap h m) (CArray vs) m'"
  unfolding decode_array_cap_def [abs_def]
proof (rule reads_cap)
  show "reads d (\<lambda>r. rbind (readArrayHeader r) (\<lambda>(n, r). read_elems (unat n) h m r)) (CArray vs) m'"
    using assms by (intro reads_array) auto
next
  fix r rest assume a: "ahead r = enc (CArray vs) @ rest" "length (rd_stack r) \<le> d"
  then show "\<exists>n r1. readArrayHeader r = Inr (n, r1) \<and> unat n \<le> cap"
    using enterContainer_enc [of r 4 "length vs" _ False] assms
    by (auto simp: readArrayHeader_def unat_length_u32)
qed

text \<open>Reading a list of elements that are appended one by one.\<close>

lemma eruns_append_each:
  assumes "\<And>x acc. x \<in> set xs \<Longrightarrow> reads (Suc d) (h acc) (v x) (acc @ [x])"
  shows "eruns d h (map v xs) acc (acc @ xs)"
  using assms
proof (induction xs arbitrary: acc)
  case Nil
  then show ?case by (simp add: eruns_Nil)
next
  case (Cons x xs)
  have "eruns d h (map v xs) (acc @ [x]) ((acc @ [x]) @ xs)"
    using Cons.prems by (intro Cons.IH) simp
  then show ?case
    using eruns_Cons [of d h acc "v x" "acc @ [x]" "map v xs" "acc @ x # xs"] Cons.prems by simp
qed

lemma runs_append_each:
  assumes "\<And>x acc. x \<in> set xs \<Longrightarrow> reads (Suc d) (h (key x) acc) (v x) (acc @ [x])"
  shows "runs d h (map (\<lambda>x. (key x, v x)) xs) acc (acc @ xs)"
  using assms
proof (induction xs arbitrary: acc)
  case Nil
  then show ?case by (simp add: runs_Nil)
next
  case (Cons x xs)
  have "runs d h (map (\<lambda>x. (key x, v x)) xs) (acc @ [x]) ((acc @ [x]) @ xs)"
    using Cons.prems by (intro Cons.IH) simp
  then show ?case
    using runs_Cons [of d h "key x" acc "v x" "acc @ [x]" "map (\<lambda>x. (key x, v x)) xs" "acc @ x # xs"] Cons.prems
    by simp
qed

lemma reads_decode_list:
  assumes "\<And>x. x \<in> set xs \<Longrightarrow> reads (Suc d) rd (v x) x" and "length xs \<le> cap" and "cap < 2 ^ 32" and "d < 4"
  shows "reads d (decode_list cap rd) (CArray (map v xs)) xs"
proof -
  have "eruns d (\<lambda>acc r. rbind (rd r) (\<lambda>(x, r). Inr (acc @ [x], r))) (map v xs) [] ([] @ xs)"
    by (rule eruns_append_each, rule reads_bind, rule assms(1)) auto
  then show ?thesis
    unfolding decode_list_def [abs_def] using assms by (intro reads_decode_array_cap) auto
qed

lemma emits_list [emit_intros]:
  "(\<And>x. x \<in> set xs \<Longrightarrow> emits (Suc d) (g x) (v x)) \<Longrightarrow> d < 4 \<Longrightarrow> length xs < 2 ^ 32 \<Longrightarrow>
   emits d (w_list g xs) (CArray (map v xs))"
  unfolding w_list_def by (rule emits_array) auto

text \<open>An optional member: present pairs set it, absent ones leave the initial value.\<close>

lemma runs_optional:
  "(\<And>y. x = Some y \<Longrightarrow> runs d h (kvs y) m (u (\<lambda>_. Some y) m)) \<Longrightarrow> u (\<lambda>_. None) m = m \<Longrightarrow>
   runs d h (case x of None \<Rightarrow> [] | Some y \<Rightarrow> kvs y) m (u (\<lambda>_. x) m)"
  by (cases x) (simp_all add: runs_Nil)

text \<open>A member that is written only when it differs from its initial value.\<close>

lemma runs_default:
  "(b \<Longrightarrow> runs d h kvs m (u (\<lambda>_. x) m)) \<Longrightarrow> (\<not> b \<Longrightarrow> u (\<lambda>_. x) m = m) \<Longrightarrow>
   runs d h (if b then kvs else []) m (u (\<lambda>_. x) m)"
  by (simp add: runs_Nil)

lemma runs_end: "m = m' \<Longrightarrow> runs d h [] m m'"
  by (simp add: runs_Nil)

lemmas run_intros = runs_append runs_end runs_one reads_bind read_intros

lemma field_in_range [simp]:
  "\<not> 0xFF < (ucast (x :: u8) :: u64)" "\<not> 0xFFFF < (ucast (v :: u16) :: u64)"
  "\<not> 0xFFFFFFFF < (ucast (w :: u32) :: u64)"
  using unat_u8_less [of x] unat_u16_less [of v] unat_u32_less [of w]
  by (simp_all add: word_less_nat_alt del: unat_u8_less unat_u16_less unat_u32_less)

text \<open>Unknown keys may be interspersed.\<close>

lemma runs_unknown:
  assumes "runs 0 h (filter (\<lambda>(k, v). k \<in> known) kvs) m m'"
    and "\<And>k v m. (k, v) \<in> set kvs \<Longrightarrow> k \<notin> known \<Longrightarrow> h k m = skip_unknown m \<and> cbor_ok 3 v"
  shows "runs 0 h kvs m m'"
  using assms
proof (induction kvs arbitrary: m)
  case Nil
  then show ?case by simp
next
  case (Cons kv kvs)
  obtain k v where kv: "kv = (k, v)" by (cases kv)
  show ?case
  proof (cases "k \<in> known")
    case True
    from Cons.prems(1) kv True obtain m1 where "reads 1 (h k m) v m1"
        "runs 0 h (filter (\<lambda>(k, v). k \<in> known) kvs) m1 m'"
      by (auto elim: runs.cases)
    then show ?thesis using Cons.IH Cons.prems(2) kv by (auto intro!: runs_Cons)
  next
    case False
    then have "reads 1 (h k m) v m" using Cons.prems(2) [of k v m] kv reads_skip_unknown by auto
    moreover have "runs 0 h kvs m m'" using Cons False kv by auto
    ultimately show ?thesis using kv by (auto intro!: runs_Cons)
  qed
qed

section \<open>What holds of every accepted input\<close>

text \<open>A property of the message under construction that every key handler keeps holds of the result,
  whatever bytes arrived.\<close>

lemma read_pairs_invariant:
  "read_pairs n h m r = Inr (m', r') \<Longrightarrow> P m \<Longrightarrow>
   (\<And>k m r m' r'. h k m r = Inr (m', r') \<Longrightarrow> P m \<Longrightarrow> P m') \<Longrightarrow> P m'"
  by (induction n arbitrary: m r) (auto simp: rbind_Inr_iff)

lemma decode_map_invariant:
  "decode_map h m r = Inr (m', r') \<Longrightarrow> P m \<Longrightarrow>
   (\<And>k m r m' r'. h k m r = Inr (m', r') \<Longrightarrow> P m \<Longrightarrow> P m') \<Longrightarrow> P m'"
  by (auto simp: decode_map_def rbind_Inr_iff intro: read_pairs_invariant)

lemma read_pairs_count:
  "read_pairs n h xs r = Inr (xs', r') \<Longrightarrow>
   (\<And>k xs r xs' r'. h k xs r = Inr (xs', r') \<Longrightarrow> length xs' = Suc (length xs)) \<Longrightarrow> length xs' = length xs + n"
proof (induction n arbitrary: xs r)
  case (Suc n)
  then obtain k xs1 r1 r2 where "h k xs r1 = Inr (xs1, r2)" "read_pairs n h xs1 r2 = Inr (xs', r')"
    by (auto simp: rbind_Inr_iff)
  then show ?case using Suc.IH [of xs1 r2] Suc.prems(2) [of k xs r1 xs1 r2] Suc.prems(2) by simp
qed simp

lemma read_elems_count:
  "read_elems n h xs r = Inr (xs', r') \<Longrightarrow>
   (\<And>xs r xs' r'. h xs r = Inr (xs', r') \<Longrightarrow> length xs' = Suc (length xs)) \<Longrightarrow> length xs' = length xs + n"
proof (induction n arbitrary: xs r)
  case (Suc n)
  then obtain xs1 r2 where "h xs r = Inr (xs1, r2)" "read_elems n h xs1 r2 = Inr (xs', r')"
    by (auto simp: rbind_Inr_iff)
  then show ?case using Suc.IH [of xs1 r2] Suc.prems(2) [of xs r xs1 r2] Suc.prems(2) by simp
qed simp

text \<open>An array or map read into a fixed array never writes past its end.\<close>

lemma decode_array_cap_bound:
  "decode_array_cap cap h [] r = Inr (xs, r') \<Longrightarrow>
   (\<And>xs r xs' r'. h xs r = Inr (xs', r') \<Longrightarrow> length xs' = Suc (length xs)) \<Longrightarrow> length xs \<le> cap"
  by (auto simp: decode_array_cap_def rbind_Inr_iff split: if_splits dest: read_elems_count)

lemma decode_list_bound: "decode_list cap rd r = Inr (xs, r') \<Longrightarrow> length xs \<le> cap"
  unfolding decode_list_def by (erule decode_array_cap_bound) (auto simp: rbind_Inr_iff)

lemma decode_map_cap_bound:
  "decode_map_cap cap h [] r = Inr (xs, r') \<Longrightarrow>
   (\<And>k xs r xs' r'. h k xs r = Inr (xs', r') \<Longrightarrow> length xs' = Suc (length xs)) \<Longrightarrow> length xs \<le> cap"
  by (auto simp: decode_map_cap_def rbind_Inr_iff split: if_splits dest: read_pairs_count)

text \<open>Case analysis over the branches of a key handler that returned a value.\<close>

lemma if_Inr_elim:
  "(if b then x else y) = Inr z \<Longrightarrow> (b \<Longrightarrow> x = Inr z \<Longrightarrow> Q) \<Longrightarrow> (\<not> b \<Longrightarrow> y = Inr z \<Longrightarrow> Q) \<Longrightarrow> Q"
  by (auto split: if_splits)

lemma rbind_elim:
  "rbind x (\<lambda>(a, b). f a b) = Inr y \<Longrightarrow> (\<And>a b. x = Inr (a, b) \<Longrightarrow> f a b = Inr y \<Longrightarrow> Q) \<Longrightarrow> Q"
  by (auto simp: rbind_Inr_iff)

lemma skip_unknown_invariant: "skip_unknown m r = Inr (m', r') \<Longrightarrow> m' = m"
  by (auto simp: skip_unknown_def rbind_Inr_iff)

section \<open>The message interface\<close>

locale cbor_message =
  fixes kvs :: "'m \<Rightarrow> (u64 \<times> cbor) list"
    and encode :: "'m \<Rightarrow> nat \<Rightarrow> bytes"
    and decode :: "bytes \<Rightarrow> 'm result"
    and known :: "u64 set"
    and ok :: "'m \<Rightarrow> bool"
  assumes encode_image: "ok m \<Longrightarrow>
      encode m cap = (if length (enc (CMap (kvs m))) \<le> cap then enc (CMap (kvs m)) else [])"
    and decode_image: "ok m \<Longrightarrow> sorted_wrt (<) (map fst kvs') \<Longrightarrow> length kvs' < 2 ^ 32 \<Longrightarrow>
      filter (\<lambda>(k, v). k \<in> known) kvs' = kvs m \<Longrightarrow>
      (\<And>k v. (k, v) \<in> set kvs' \<Longrightarrow> k \<notin> known \<Longrightarrow> cbor_ok 3 v) \<Longrightarrow>
      decode (enc (CMap kvs') @ rest) = Inr m"
    and keys_sorted: "ok m \<Longrightarrow> sorted_wrt (<) (map fst (kvs m))"
    and keys_known: "ok m \<Longrightarrow> fst ` set (kvs m) \<subseteq> known"
    and few_keys: "ok m \<Longrightarrow> length (kvs m) < 2 ^ 32"
begin

text \<open>What the encoder returns is either nothing, because the output span is too small for the whole
  message, or decodes to the message, whatever bytes follow.\<close>

lemma roundtrip:
  assumes "ok m"
  shows "if length (enc (CMap (kvs m))) \<le> cap
         then encode m cap \<noteq> [] \<and> decode (encode m cap @ rest) = Inr m else encode m cap = []"
proof -
  have "filter (\<lambda>(k, v). k \<in> known) (kvs m) = kvs m"
    using keys_known [OF assms] by (intro filter_True) force
  moreover have "\<And>k v. (k, v) \<in> set (kvs m) \<Longrightarrow> k \<notin> known \<Longrightarrow> cbor_ok 3 v"
    using keys_known [OF assms] by force
  ultimately have "decode (enc (CMap (kvs m)) @ rest) = Inr m"
    using decode_image [OF assms keys_sorted [OF assms] few_keys [OF assms]] by blast
  then show ?thesis using encode_image [OF assms] enc_nonempty by (simp del: enc.simps)
qed

text \<open>Distinct messages never share an encoding.\<close>

lemma encode_inj:
  assumes "ok m" and "ok m'" and "encode m cap = encode m' cap'" and "encode m cap \<noteq> []"
  shows "m = m'"
  using roundtrip [OF assms(1), of cap "[]"] roundtrip [OF assms(2), of cap' "[]"] assms(3,4)
  by (auto split: if_splits)

text \<open>Extra pairs with unknown keys do not change what is decoded.\<close>

lemma forward_compatible:
  assumes "ok m" and "sorted_wrt (<) (map fst kvs')" and "length kvs' < 2 ^ 32"
    and "filter (\<lambda>(k, v). k \<in> known) kvs' = kvs m"
    and "\<And>k v. (k, v) \<in> set kvs' \<Longrightarrow> k \<notin> known \<Longrightarrow> cbor_ok 3 v"
  shows "decode (enc (CMap kvs')) = Inr m"
  using decode_image [OF assms, where rest = "[]"] by (simp del: enc.simps)

end

text \<open>The decoder obligation of the interface, from a run of its key handler.\<close>

lemma decode_map_top:
  assumes "runs 0 h (filter (\<lambda>(k, v). k \<in> known) kvs) m m'" and "sorted_wrt (<) (map fst kvs)" and "length kvs < 2 ^ 32"
    and "\<And>k m. k \<notin> known \<Longrightarrow> h k m = skip_unknown m"
    and "\<And>k v. (k, v) \<in> set kvs \<Longrightarrow> k \<notin> known \<Longrightarrow> cbor_ok 3 v"
  shows "\<exists>r'. decode_map h m (CborReader_new (enc (CMap kvs) @ rest)) = Inr (m', r')"
proof -
  have "reads 0 (decode_map h m) (CMap kvs) m'"
    by (rule reads_decode_map [OF runs_unknown [OF assms(1)] assms(2,3)]) (use assms(4,5) in \<open>blast | simp\<close>)+
  moreover have "ahead (CborReader_new inp) = inp" "length (rd_stack (CborReader_new inp)) = 0" for inp
    by (simp_all add: ahead_def CborReader_new_def)
  ultimately show ?thesis unfolding reads_def by (simp del: enc.simps)
qed

end
