(* ===== verification/Msg_Control.thy ===== *)
theory Msg_Control
  imports Cbor_Message
begin

text \<open>
  The NACK and GOODBYE messages: \<^verbatim>\<open>wire/messages/nack.hpp\<close> and \<^verbatim>\<open>wire/messages/goodbye.hpp\<close>.  A
  \<open>NackCode\<close> is its 16-bit number.
\<close>

section \<open>Definitions\<close>

definition kNackMaxDetailBytes :: nat where
  "kNackMaxDetailBytes = 48"

record NackMsg =
  nk_code :: u16
  nk_channel_id :: "u16 option"
  nk_intent_id :: "u16 option"
  nk_detail :: "bytes option"
  nk_retry_after_ms :: "u32 option"
  nk_intent_seq :: "u16 option"

definition NackMsg_new :: NackMsg where
  "NackMsg_new = \<lparr> nk_code = 0, nk_channel_id = None, nk_intent_id = None, nk_detail = None,
     nk_retry_after_ms = None, nk_intent_seq = None \<rparr>"

definition encodeNack :: "NackMsg \<Rightarrow> nat \<Rightarrow> bytes" where
  "encodeNack m cap =
    (if (case nk_detail m of None \<Rightarrow> 0 | Some d \<Rightarrow> length d) > kNackMaxDetailBytes then []
     else
       let nKeys = 1 + present (nk_channel_id m) + present (nk_detail m) + present (nk_intent_id m) +
                   present (nk_retry_after_ms m) + present (nk_intent_seq m) in
       w_result (w_seq
         [mapHeader nKeys,
          w_opt (nk_channel_id m) (\<lambda>v. w_kv CK_channel_id (uintVal (ucast v))),
          w_kv CK_code (uintVal (ucast (nk_code m))),
          w_opt (nk_detail m) (\<lambda>v. w_kv CK_detail (tstrVal v)),
          w_opt (nk_intent_id m) (\<lambda>v. w_kv CK_intent_id (uintVal (ucast v))),
          w_opt (nk_retry_after_ms m) (\<lambda>v. w_kv CK_retry_after_ms (uintVal (ucast v))),
          w_opt (nk_intent_seq m) (\<lambda>v. w_kv CK_intent_seq (uintVal (ucast v)))]
         (CborWriter_new cap)))"

text \<open>The \<^verbatim>\<open>switch\<close> of the decoder; the state is the message with \<open>gotCode\<close>.\<close>

definition decodeNack_key :: "(NackMsg \<times> bool) handler" where
  "decodeNack_key k = (\<lambda>(m, gotCode) r.
    if k = CK_channel_id then
      rbind (readUint r) (\<lambda>(v, r). Inr ((m \<lparr> nk_channel_id := Some (ucast v) \<rparr>, gotCode), r))
    else if k = CK_code then
      rbind (readUint r) (\<lambda>(v, r).
        if v > 0xFFFF then Inl Malformed else Inr ((m \<lparr> nk_code := ucast v \<rparr>, True), r))
    else if k = CK_detail then
      rbind (readTstr r) (\<lambda>(v, r).
        if length v > kNackMaxDetailBytes then Inl CapacityExceeded
        else Inr ((m \<lparr> nk_detail := Some v \<rparr>, gotCode), r))
    else if k = CK_intent_id then
      rbind (readUint r) (\<lambda>(v, r). Inr ((m \<lparr> nk_intent_id := Some (ucast v) \<rparr>, gotCode), r))
    else if k = CK_retry_after_ms then
      rbind (readUint r) (\<lambda>(v, r). Inr ((m \<lparr> nk_retry_after_ms := Some (ucast v) \<rparr>, gotCode), r))
    else if k = CK_intent_seq then
      rbind (readUint r) (\<lambda>(v, r).
        if v > 0xFFFF then Inl Malformed
        else Inr ((m \<lparr> nk_intent_seq := Some (ucast v) \<rparr>, gotCode), r))
    else skip_unknown (m, gotCode) r)"

definition decodeNack :: "bytes \<Rightarrow> NackMsg result" where
  "decodeNack inp =
    rbind (decode_map decodeNack_key (NackMsg_new, False) (CborReader_new inp)) (\<lambda>((m, gotCode), _).
      if \<not> gotCode then Inl Malformed else Inr m)"

definition kGoodbyeMaxDetailBytes :: nat where
  "kGoodbyeMaxDetailBytes = 48"

record GoodbyeMsg =
  gb_code :: u16
  gb_detail :: "bytes option"

definition GoodbyeMsg_new :: GoodbyeMsg where
  "GoodbyeMsg_new = \<lparr> gb_code = 0, gb_detail = None \<rparr>"

definition encodeGoodbye :: "GoodbyeMsg \<Rightarrow> nat \<Rightarrow> bytes" where
  "encodeGoodbye m cap =
    (if (case gb_detail m of None \<Rightarrow> 0 | Some d \<Rightarrow> length d) > kGoodbyeMaxDetailBytes then []
     else
       let nKeys = 1 + present (gb_detail m) in
       w_result (w_seq
         [mapHeader nKeys,
          w_kv CK_code (uintVal (ucast (gb_code m))),
          w_opt (gb_detail m) (\<lambda>v. w_kv CK_detail (tstrVal v))]
         (CborWriter_new cap)))"

definition decodeGoodbye_key :: "(GoodbyeMsg \<times> bool) handler" where
  "decodeGoodbye_key k = (\<lambda>(m, gotCode) r.
    if k = CK_code then
      rbind (readUint r) (\<lambda>(v, r).
        if v > 0xFFFF then Inl Malformed else Inr ((m \<lparr> gb_code := ucast v \<rparr>, True), r))
    else if k = CK_detail then
      rbind (readTstr r) (\<lambda>(v, r).
        if length v > kGoodbyeMaxDetailBytes then Inl CapacityExceeded
        else Inr ((m \<lparr> gb_detail := Some v \<rparr>, gotCode), r))
    else skip_unknown (m, gotCode) r)"

definition decodeGoodbye :: "bytes \<Rightarrow> GoodbyeMsg result" where
  "decodeGoodbye inp =
    rbind (decode_map decodeGoodbye_key (GoodbyeMsg_new, False) (CborReader_new inp)) (\<lambda>((m, gotCode), _).
      if \<not> gotCode then Inl Malformed else Inr m)"

section \<open>NACK round trip\<close>

definition nack_kvs :: "NackMsg \<Rightarrow> (u64 \<times> cbor) list" where
  "nack_kvs m =
    (case nk_channel_id m of None \<Rightarrow> [] | Some v \<Rightarrow> [(15, CUint (ucast v))]) @
    [(16, CUint (ucast (nk_code m)))] @
    (case nk_detail m of None \<Rightarrow> [] | Some v \<Rightarrow> [(17, CText v)]) @
    (case nk_intent_id m of None \<Rightarrow> [] | Some v \<Rightarrow> [(18, CUint (ucast v))]) @
    (case nk_retry_after_ms m of None \<Rightarrow> [] | Some v \<Rightarrow> [(31, CUint (ucast v))]) @
    (case nk_intent_seq m of None \<Rightarrow> [] | Some v \<Rightarrow> [(41, CUint (ucast v))]) @ []"

definition nack_ok :: "NackMsg \<Rightarrow> bool" where
  "nack_ok m \<longleftrightarrow> (case nk_detail m of None \<Rightarrow> True | Some d \<Rightarrow> length d \<le> 48)"

lemma encodeNack_image:
  assumes "nack_ok m"
  shows "encodeNack m cap = (if length (enc (CMap (nack_kvs m))) \<le> cap then enc (CMap (nack_kvs m)) else [])"
proof -
  have guard: "\<not> (case nk_detail m of None \<Rightarrow> 0 | Some d \<Rightarrow> length d) > kNackMaxDetailBytes"
    using assms by (auto simp: nack_ok_def kNackMaxDetailBytes_def split: option.splits)
  show ?thesis
    unfolding encodeNack_def Let_def if_not_P [OF guard] nack_kvs_def
    by (rule emits_seq_result, rule emits_map) ((rule emit_intros | simp)+, simp split: option.splits)
qed

lemma nack_runs:
  assumes "nack_ok m"
  shows "runs 0 decodeNack_key (nack_kvs m) (NackMsg_new, False) (m, True)"
proof (cases m)
  case (fields code ch ii de ra iq)
  note opt = runs_optional [where x = ch and u = "\<lambda>f (m, g). (nk_channel_id_update f m, g)"]
    runs_optional [where x = ii and u = "\<lambda>f (m, g). (nk_intent_id_update f m, g)"]
    runs_optional [where x = de and u = "\<lambda>f (m, g). (nk_detail_update f m, g)"]
    runs_optional [where x = ra and u = "\<lambda>f (m, g). (nk_retry_after_ms_update f m, g)"]
    runs_optional [where x = iq and u = "\<lambda>f (m, g). (nk_intent_seq_update f m, g)"]
  have len: "\<And>d. de = Some d \<Longrightarrow> \<not> 48 < length d" "\<And>d. de = Some d \<Longrightarrow> length d < 2 ^ 64"
    using assms by (auto simp: nack_ok_def fields)
  show ?thesis
    unfolding nack_kvs_def fields NackMsg.select_convs NackMsg_new_def
    by (rule run_intros opt | simp add: decodeNack_key_def kNackMaxDetailBytes_def len [simplified])+
qed

lemma nack_keys:
  "sorted_wrt (<) (map fst (nack_kvs m))" "fst ` set (nack_kvs m) \<subseteq> {15, 16, 17, 18, 31, 41}"
  "length (nack_kvs m) < 2 ^ 32"
  by (auto simp: nack_kvs_def split: option.splits)

lemma decodeNack_skip: "k \<notin> {15, 16, 17, 18, 31, 41} \<Longrightarrow> decodeNack_key k m = skip_unknown m"
  by (cases m) (auto simp: decodeNack_key_def)

interpretation nack_codec: cbor_message nack_kvs encodeNack decodeNack "{15, 16, 17, 18, 31, 41}" nack_ok
proof (unfold_locales, goal_cases)
  case (2 m kvs' rest)
  then show ?case
    using decode_map_top [where h = decodeNack_key and known = "{15, 16, 17, 18, 31, 41}" and m = "(NackMsg_new, False)"
        and m' = "(m, True)" and kvs = kvs' and rest = rest] nack_runs [of m] decodeNack_skip
    by (auto simp: decodeNack_def simp del: enc.simps)
qed (use nack_keys encodeNack_image in auto)

section \<open>GOODBYE round trip\<close>

definition goodbye_kvs :: "GoodbyeMsg \<Rightarrow> (u64 \<times> cbor) list" where
  "goodbye_kvs m = [(16, CUint (ucast (gb_code m)))] @
    (case gb_detail m of None \<Rightarrow> [] | Some v \<Rightarrow> [(17, CText v)]) @ []"

definition goodbye_ok :: "GoodbyeMsg \<Rightarrow> bool" where
  "goodbye_ok m \<longleftrightarrow> (case gb_detail m of None \<Rightarrow> True | Some d \<Rightarrow> length d \<le> 48)"

lemma encodeGoodbye_image:
  assumes "goodbye_ok m"
  shows "encodeGoodbye m cap = (if length (enc (CMap (goodbye_kvs m))) \<le> cap then enc (CMap (goodbye_kvs m)) else [])"
proof -
  have guard: "\<not> (case gb_detail m of None \<Rightarrow> 0 | Some d \<Rightarrow> length d) > kGoodbyeMaxDetailBytes"
    using assms by (auto simp: goodbye_ok_def kGoodbyeMaxDetailBytes_def split: option.splits)
  show ?thesis
    unfolding encodeGoodbye_def Let_def if_not_P [OF guard] goodbye_kvs_def
    by (rule emits_seq_result, rule emits_map) ((rule emit_intros | simp)+, simp split: option.splits)
qed

lemma goodbye_runs:
  assumes "goodbye_ok m"
  shows "runs 0 decodeGoodbye_key (goodbye_kvs m) (GoodbyeMsg_new, False) (m, True)"
proof (cases m)
  case (fields code de)
  note opt = runs_optional [where x = de and u = "\<lambda>f (m, g). (gb_detail_update f m, g)"]
  have len: "\<And>d. de = Some d \<Longrightarrow> \<not> 48 < length d" "\<And>d. de = Some d \<Longrightarrow> length d < 2 ^ 64"
    using assms by (auto simp: goodbye_ok_def fields)
  show ?thesis
    unfolding goodbye_kvs_def fields GoodbyeMsg.select_convs GoodbyeMsg_new_def
    by (rule run_intros opt | simp add: decodeGoodbye_key_def kGoodbyeMaxDetailBytes_def len [simplified])+
qed

lemma goodbye_keys:
  "sorted_wrt (<) (map fst (goodbye_kvs m))" "fst ` set (goodbye_kvs m) \<subseteq> {16, 17}"
  "length (goodbye_kvs m) < 2 ^ 32"
  by (auto simp: goodbye_kvs_def split: option.splits)

lemma decodeGoodbye_skip: "k \<notin> {16, 17} \<Longrightarrow> decodeGoodbye_key k m = skip_unknown m"
  by (cases m) (auto simp: decodeGoodbye_key_def)

interpretation goodbye_codec: cbor_message goodbye_kvs encodeGoodbye decodeGoodbye "{16, 17}" goodbye_ok
proof (unfold_locales, goal_cases)
  case (2 m kvs' rest)
  then show ?case
    using decode_map_top [where h = decodeGoodbye_key and known = "{16, 17}" and m = "(GoodbyeMsg_new, False)"
        and m' = "(m, True)" and kvs = kvs' and rest = rest] goodbye_runs [of m] decodeGoodbye_skip
    by (auto simp: decodeGoodbye_def simp del: enc.simps)
qed (use goodbye_keys encodeGoodbye_image in auto)

section \<open>Properties\<close>

lemma decodeNack_ok:
  assumes "decodeNack inp = Inr m"
  shows "nack_ok m"
proof -
  obtain g r where "decode_map decodeNack_key (NackMsg_new, False) (CborReader_new inp) = Inr ((m, g), r)"
    using assms by (auto simp: decodeNack_def rbind_Inr_iff split: if_splits)
  then have "(\<lambda>(m, g). nack_ok m) (m, g)"
    by (rule decode_map_invariant) (auto simp: decodeNack_key_def rbind_Inr_iff nack_ok_def NackMsg_new_def
        kNackMaxDetailBytes_def dest!: skip_unknown_invariant split: if_splits)
  then show ?thesis by simp
qed

lemma decodeGoodbye_ok:
  assumes "decodeGoodbye inp = Inr m"
  shows "goodbye_ok m"
proof -
  obtain g r where "decode_map decodeGoodbye_key (GoodbyeMsg_new, False) (CborReader_new inp) = Inr ((m, g), r)"
    using assms by (auto simp: decodeGoodbye_def rbind_Inr_iff split: if_splits)
  then have "(\<lambda>(m, g). goodbye_ok m) (m, g)"
    by (rule decode_map_invariant) (auto simp: decodeGoodbye_key_def rbind_Inr_iff goodbye_ok_def GoodbyeMsg_new_def
        kGoodbyeMaxDetailBytes_def dest!: skip_unknown_invariant split: if_splits)
  then show ?thesis by simp
qed

text \<open>
  NACK and GOODBYE: a message whose detail text has at most 48 bytes is written completely or
  not at all and decodes to itself; one with a longer detail is refused; and every message a decoder
  accepts, whatever the bytes, has a detail of at most 48 bytes.
\<close>

theorem nack_goodbye_exact:
  "(if nack_ok m \<and> length (enc (CMap (nack_kvs m))) \<le> cap
    then encodeNack m cap \<noteq> [] \<and> decodeNack (encodeNack m cap @ rest) = Inr m else encodeNack m cap = []) \<and>
   (if goodbye_ok g \<and> length (enc (CMap (goodbye_kvs g))) \<le> cap
    then encodeGoodbye g cap \<noteq> [] \<and> decodeGoodbye (encodeGoodbye g cap @ rest) = Inr g else encodeGoodbye g cap = []) \<and>
   (case decodeNack inp of Inl e \<Rightarrow> True | Inr m' \<Rightarrow> nack_ok m') \<and>
   (case decodeGoodbye inp of Inl e \<Rightarrow> True | Inr g' \<Rightarrow> goodbye_ok g')"
proof -
  have "\<not> nack_ok m \<Longrightarrow> encodeNack m cap = []" "\<not> goodbye_ok g \<Longrightarrow> encodeGoodbye g cap = []"
    by (auto simp: encodeNack_def nack_ok_def kNackMaxDetailBytes_def encodeGoodbye_def goodbye_ok_def
        kGoodbyeMaxDetailBytes_def split: option.splits)
  then show ?thesis
    using nack_codec.roundtrip [of m cap rest] goodbye_codec.roundtrip [of g cap rest]
      decodeNack_ok [of inp] decodeGoodbye_ok [of inp]
    by (cases "nack_ok m"; cases "goodbye_ok g") (auto split: sum.splits if_splits simp del: enc.simps)
qed

end
