(* ===== verification/Msg_Intent.thy ===== *)
theory Msg_Intent
  imports Cbor_Message
begin

text \<open>
  INTENT, ECHO and EVENT and the intent value maps they carry: \<^verbatim>\<open>wire/messages/intent.hpp\<close>,
  \<^verbatim>\<open>wire/messages/echo.hpp\<close>, \<^verbatim>\<open>wire/messages/event.hpp\<close>.  The tagged struct \<open>IntentValue\<close> is a
  datatype with one constructor per \<open>Kind\<close>.
\<close>

section \<open>Definitions: values\<close>

definition kIntentMaxValueFields :: nat where
  "kIntentMaxValueFields = 8"

datatype IntentValue =
    IV_U64 u64
  | IV_I64 int
  | IV_F32 u32
  | IV_Bool bool
  | IV_Tstr bytes
  | IV_Bstr bytes

record IntentValueField =
  ivf_key :: u8
  ivf_value :: IntentValue

definition encodeIntentValue :: "IntentValue \<Rightarrow> CborWriter \<Rightarrow> CborWriter" where
  "encodeIntentValue v =
    (case v of
       IV_U64 x \<Rightarrow> uintVal x
     | IV_I64 x \<Rightarrow> intVal x
     | IV_F32 x \<Rightarrow> f32Val x
     | IV_Bool x \<Rightarrow> boolVal x
     | IV_Tstr x \<Rightarrow> tstrVal x
     | IV_Bstr x \<Rightarrow> bstrVal x)"

text \<open>A failed \<open>readBool\<close> leaves the reader where it is, so \<open>readF32\<close> starts from the same place.\<close>

definition decodeIntentValue :: "CborReader \<Rightarrow> (IntentValue \<times> CborReader) result" where
  "decodeIntentValue r =
    rbind (peekType r) (\<lambda>t.
      case t of
        MT_UInt \<Rightarrow> rbind (readUint r) (\<lambda>(v, r). Inr (IV_U64 v, r))
      | MT_NegInt \<Rightarrow> rbind (readInt r) (\<lambda>(v, r). Inr (IV_I64 v, r))
      | MT_TextString \<Rightarrow> rbind (readTstr r) (\<lambda>(v, r). Inr (IV_Tstr v, r))
      | MT_ByteString \<Rightarrow> rbind (readBstr r) (\<lambda>(v, r). Inr (IV_Bstr v, r))
      | MT_Simple \<Rightarrow>
          (case readBool r of
             Inr (b, r) \<Rightarrow> Inr (IV_Bool b, r)
           | Inl _ \<Rightarrow> rbind (readF32 r) (\<lambda>(v, r). Inr (IV_F32 v, r)))
      | MT_Array \<Rightarrow> Inl Malformed
      | MT_Map \<Rightarrow> Inl Malformed
      | MT_Tag \<Rightarrow> Inl Malformed)"

definition decodeIntentValueMap_key :: "IntentValueField list handler" where
  "decodeIntentValueMap_key fk = (\<lambda>out r.
    if fk > 0xFF then Inl Malformed
    else rbind (decodeIntentValue r) (\<lambda>(v, r). Inr (out @ [\<lparr> ivf_key = ucast fk, ivf_value = v \<rparr>], r)))"

definition decodeIntentValueMap :: "nat \<Rightarrow> CborReader \<Rightarrow> (IntentValueField list \<times> CborReader) result" where
  "decodeIntentValueMap capacity r = decode_map_cap capacity decodeIntentValueMap_key [] r"

text \<open>The \<open>mapHeader(count)\<close> and loop that writes a value map.\<close>

definition encodeIntentValueMap :: "IntentValueField list \<Rightarrow> CborWriter \<Rightarrow> CborWriter" where
  "encodeIntentValueMap fs = w_seq
    [mapHeader (word_of_nat (length fs)),
     w_each (\<lambda>f. w_kv (ucast (ivf_key f)) (encodeIntentValue (ivf_value f))) fs]"

section \<open>Definitions: messages\<close>

record IntentMsg =
  im_channel_id :: u16
  im_intent_id :: u16
  im_value :: "IntentValueField list"
  im_precondition :: "u16 option"
  im_takeover :: "bool option"

definition IntentMsg_new :: IntentMsg where
  "IntentMsg_new = \<lparr> im_channel_id = 0, im_intent_id = 0, im_value = [], im_precondition = None, im_takeover = None \<rparr>"

definition encodeIntent :: "IntentMsg \<Rightarrow> nat \<Rightarrow> bytes" where
  "encodeIntent m cap =
    (if length (im_value m) > kIntentMaxValueFields then []
     else
       let nKeys = 3 + present (im_precondition m) + present (im_takeover m) in
       w_result (w_seq
         [mapHeader nKeys,
          w_kv CK_channel_id (uintVal (ucast (im_channel_id m))),
          w_kv CK_intent_id (uintVal (ucast (im_intent_id m))),
          w_kv CK_value (encodeIntentValueMap (im_value m)),
          w_opt (im_precondition m) (\<lambda>v. w_kv CK_precondition (uintVal (ucast v))),
          w_opt (im_takeover m) (\<lambda>v. w_kv CK_takeover (boolVal v))]
         (CborWriter_new cap)))"

definition decodeIntent_key :: "(IntentMsg \<times> bool \<times> bool \<times> bool) handler" where
  "decodeIntent_key k = (\<lambda>(m, gotChannel, gotIntentId, gotValue) r.
    if k = CK_channel_id then
      rbind (readUint r) (\<lambda>(v, r). Inr ((m \<lparr> im_channel_id := ucast v \<rparr>, True, gotIntentId, gotValue), r))
    else if k = CK_intent_id then
      rbind (readUint r) (\<lambda>(v, r). Inr ((m \<lparr> im_intent_id := ucast v \<rparr>, gotChannel, True, gotValue), r))
    else if k = CK_value then
      rbind (decodeIntentValueMap kIntentMaxValueFields r) (\<lambda>(v, r).
        Inr ((m \<lparr> im_value := v \<rparr>, gotChannel, gotIntentId, True), r))
    else if k = CK_precondition then
      rbind (readUint r) (\<lambda>(v, r).
        Inr ((m \<lparr> im_precondition := Some (ucast v) \<rparr>, gotChannel, gotIntentId, gotValue), r))
    else if k = CK_takeover then
      rbind (readBool r) (\<lambda>(v, r).
        Inr ((m \<lparr> im_takeover := Some v \<rparr>, gotChannel, gotIntentId, gotValue), r))
    else skip_unknown (m, gotChannel, gotIntentId, gotValue) r)"

definition decodeIntent :: "bytes \<Rightarrow> IntentMsg result" where
  "decodeIntent inp =
    rbind (decode_map decodeIntent_key (IntentMsg_new, False, False, False) (CborReader_new inp))
      (\<lambda>((m, gotChannel, gotIntentId, gotValue), _).
        if \<not> (gotChannel \<and> gotIntentId \<and> gotValue) then Inl Malformed else Inr m)"

record EchoMsg =
  ec_intent_id :: u16
  ec_cfg_gen :: u16
  ec_applied :: "IntentValueField list"

definition EchoMsg_new :: EchoMsg where
  "EchoMsg_new = \<lparr> ec_intent_id = 0, ec_cfg_gen = 0, ec_applied = [] \<rparr>"

definition encodeEcho :: "EchoMsg \<Rightarrow> nat \<Rightarrow> bytes" where
  "encodeEcho m cap =
    (if length (ec_applied m) > kIntentMaxValueFields then []
     else
       w_result (w_seq
         [mapHeader 3,
          w_kv CK_cfg_gen (uintVal (ucast (ec_cfg_gen m))),
          w_kv CK_intent_id (uintVal (ucast (ec_intent_id m))),
          w_kv CK_applied (encodeIntentValueMap (ec_applied m))]
         (CborWriter_new cap)))"

definition decodeEcho_key :: "(EchoMsg \<times> bool \<times> bool \<times> bool) handler" where
  "decodeEcho_key k = (\<lambda>(m, gotIntentId, gotCfgGen, gotApplied) r.
    if k = CK_cfg_gen then
      rbind (readUint r) (\<lambda>(v, r). Inr ((m \<lparr> ec_cfg_gen := ucast v \<rparr>, gotIntentId, True, gotApplied), r))
    else if k = CK_intent_id then
      rbind (readUint r) (\<lambda>(v, r). Inr ((m \<lparr> ec_intent_id := ucast v \<rparr>, True, gotCfgGen, gotApplied), r))
    else if k = CK_applied then
      rbind (decodeIntentValueMap kIntentMaxValueFields r) (\<lambda>(v, r).
        Inr ((m \<lparr> ec_applied := v \<rparr>, gotIntentId, gotCfgGen, True), r))
    else skip_unknown (m, gotIntentId, gotCfgGen, gotApplied) r)"

definition decodeEcho :: "bytes \<Rightarrow> EchoMsg result" where
  "decodeEcho inp =
    rbind (decode_map decodeEcho_key (EchoMsg_new, False, False, False) (CborReader_new inp))
      (\<lambda>((m, gotIntentId, gotCfgGen, gotApplied), _).
        if \<not> (gotIntentId \<and> gotCfgGen \<and> gotApplied) then Inl Malformed else Inr m)"

record EventMsg =
  ev_channel_id :: u16
  ev_timestamp :: u32
  ev_event_kind :: u16
  ev_seq_of_state :: "u16 option"
  ev_body :: "IntentValueField list option"

definition EventMsg_new :: EventMsg where
  "EventMsg_new = \<lparr> ev_channel_id = 0, ev_timestamp = 0, ev_event_kind = 0, ev_seq_of_state = None, ev_body = None \<rparr>"

definition encodeEvent :: "EventMsg \<Rightarrow> nat \<Rightarrow> bytes" where
  "encodeEvent m cap =
    (if (case ev_body m of None \<Rightarrow> 0 | Some b \<Rightarrow> length b) > kIntentMaxValueFields then []
     else
       let nKeys = 3 + present (ev_body m) + present (ev_seq_of_state m) in
       w_result (w_seq
         [mapHeader nKeys,
          w_kv CK_channel_id (uintVal (ucast (ev_channel_id m))),
          w_kv CK_timestamp (uintVal (ucast (ev_timestamp m))),
          w_kv CK_event_kind (uintVal (ucast (ev_event_kind m))),
          w_opt (ev_seq_of_state m) (\<lambda>v. w_kv CK_seq_of_state (uintVal (ucast v))),
          w_opt (ev_body m) (\<lambda>b. w_kv CK_body (encodeIntentValueMap b))]
         (CborWriter_new cap)))"

definition decodeEvent_key :: "(EventMsg \<times> bool \<times> bool \<times> bool) handler" where
  "decodeEvent_key k = (\<lambda>(m, gotChannel, gotTimestamp, gotKind) r.
    if k = CK_channel_id then
      rbind (readUint r) (\<lambda>(v, r). Inr ((m \<lparr> ev_channel_id := ucast v \<rparr>, True, gotTimestamp, gotKind), r))
    else if k = CK_body then
      rbind (decodeIntentValueMap kIntentMaxValueFields r) (\<lambda>(v, r).
        Inr ((m \<lparr> ev_body := Some v \<rparr>, gotChannel, gotTimestamp, gotKind), r))
    else if k = CK_timestamp then
      rbind (readUint r) (\<lambda>(v, r). Inr ((m \<lparr> ev_timestamp := ucast v \<rparr>, gotChannel, True, gotKind), r))
    else if k = CK_event_kind then
      rbind (readUint r) (\<lambda>(v, r). Inr ((m \<lparr> ev_event_kind := ucast v \<rparr>, gotChannel, gotTimestamp, True), r))
    else if k = CK_seq_of_state then
      rbind (readUint r) (\<lambda>(v, r).
        Inr ((m \<lparr> ev_seq_of_state := Some (ucast v) \<rparr>, gotChannel, gotTimestamp, gotKind), r))
    else skip_unknown (m, gotChannel, gotTimestamp, gotKind) r)"

definition decodeEvent :: "bytes \<Rightarrow> EventMsg result" where
  "decodeEvent inp =
    rbind (decode_map decodeEvent_key (EventMsg_new, False, False, False) (CborReader_new inp))
      (\<lambda>((m, gotChannel, gotTimestamp, gotKind), _).
        if \<not> (gotChannel \<and> gotTimestamp \<and> gotKind) then Inl Malformed else Inr m)"

section \<open>Value maps\<close>

fun iv_cbor :: "IntentValue \<Rightarrow> cbor" where
  "iv_cbor (IV_U64 x) = CUint x"
| "iv_cbor (IV_I64 x) = (if x \<ge> 0 then CUint (word_of_int x) else CNeg (word_of_int (- 1 - x)))"
| "iv_cbor (IV_F32 x) = CFloat x"
| "iv_cbor (IV_Bool x) = CBool x"
| "iv_cbor (IV_Tstr x) = CText x"
| "iv_cbor (IV_Bstr x) = CBytes x"

text \<open>Values that survive the wire as they are: a non-negative \<open>I64\<close> travels as (and comes back as) a
  \<open>U64\<close>, see \<open>iv_normal\<close>.\<close>

fun iv_ok :: "IntentValue \<Rightarrow> bool" where
  "iv_ok (IV_I64 x) = (- (2 ^ 63) \<le> x \<and> x < 0)"
| "iv_ok (IV_Tstr x) = (length x < 2 ^ 64)"
| "iv_ok (IV_Bstr x) = (length x < 2 ^ 64)"
| "iv_ok _ = True"

fun iv_normal :: "IntentValue \<Rightarrow> IntentValue" where
  "iv_normal (IV_I64 x) = (if x \<ge> 0 then IV_U64 (word_of_int x) else IV_I64 x)"
| "iv_normal v = v"

definition ivs_kvs :: "IntentValueField list \<Rightarrow> (u64 \<times> cbor) list" where
  "ivs_kvs fs = map (\<lambda>f. (ucast (ivf_key f), iv_cbor (ivf_value f))) fs"

definition ivs_ok :: "IntentValueField list \<Rightarrow> bool" where
  "ivs_ok fs \<longleftrightarrow> length fs \<le> 8 \<and> sorted_wrt (<) (map ivf_key fs) \<and> list_all (iv_ok \<circ> ivf_value) fs"

lemma emits_encodeIntentValue: "emits d (encodeIntentValue v) (iv_cbor v)"
  by (cases v) (auto simp only: encodeIntentValue_def IntentValue.simps iv_cbor.simps intro: emit_intros)

lemma iv_normal_image: "iv_cbor (iv_normal v) = iv_cbor v"
  by (cases v) auto

lemma ucast_u8_less_iff: "(ucast (a :: u8) :: u64) < ucast b \<longleftrightarrow> a < b" for b :: u8
  by (simp add: word_less_nat_alt)

lemma emits_ivs [emit_intros]:
  assumes "d < 4" and "ivs_ok fs"
  shows "emits d (encodeIntentValueMap fs) (CMap (ivs_kvs fs))"
proof -
  have "sorted_wrt (<) (map (\<lambda>f. ucast (ivf_key f) :: u64) fs)"
    using assms(2) unfolding ivs_ok_def by (simp add: sorted_wrt_map ucast_u8_less_iff)
  moreover have "(ucast (k :: u8) :: u64) < 256" for k by (simp add: word_less_nat_alt)
  ultimately have "epairs d (w_each (\<lambda>f. w_kv (ucast (ivf_key f)) (encodeIntentValue (ivf_value f))) fs)
      (ivs_kvs fs) 0 256"
    unfolding ivs_kvs_def by (intro epairs_each emits_encodeIntentValue) auto
  then have "epairs d (w_seq [w_each (\<lambda>f. w_kv (ucast (ivf_key f)) (encodeIntentValue (ivf_value f))) fs])
      (ivs_kvs fs @ []) 0 256"
    by (rule epairs_seq_Cons [OF _ epairs_seq_Nil])
  then show ?thesis
    unfolding encodeIntentValueMap_def using assms by (intro emits_map) (auto simp: ivs_kvs_def ivs_ok_def)
qed

lemma reads_intent_value:
  assumes "iv_ok v"
  shows "reads d decodeIntentValue (iv_cbor v) v"
  unfolding reads_def
proof (intro allI impI)
  fix r rest assume a: "ahead r = enc (iv_cbor v) @ rest"
  show "decodeIntentValue r = Inr (v, adv (length (enc (iv_cbor v))) r)"
  proof (cases v)
    case (IV_U64 x)
    then show ?thesis
      using a readUint_enc [of r x rest] peekType_head [of r 0 x rest] by (simp add: decodeIntentValue_def)
  next
    case (IV_I64 x)
    then have x: "- (2 ^ 63) \<le> x" "x < 0" using assms by simp_all
    have "- 1 - word_of_int (- 1 - x) = (word_of_int x :: u64)" by simp
    moreover have "sint (word_of_int x :: u64) = x"
      using x by (simp add: sint_sbintrunc' signed_take_bit_int_eq_self_iff)
    ultimately have "sint (- 1 - word_of_int (- 1 - x) :: u64) = x" by simp
    moreover have c: "iv_cbor v = CNeg (word_of_int (- 1 - x))" using IV_I64 x by simp
    moreover have "readInt r = Inr (sint (- 1 - word_of_int (- 1 - x) :: u64), adv (length (enc (iv_cbor v))) r)"
      using a readInt_enc(2) unfolding c by blast
    moreover have "peekType r = Inr MT_NegInt"
      using a peekType_head [of r 1 "word_of_int (- 1 - x)" rest] unfolding c by simp
    ultimately show ?thesis using IV_I64 by (simp only: decodeIntentValue_def rbind_simps MajorType.case prod.case)
  next
    case (IV_F32 x)
    then have "readBool r = Inl Malformed" using a by (simp add: readBool_def parseSimpleRaw_Cons)
    moreover have "peekType r = Inr MT_Simple" using a IV_F32 by (simp add: peekType_Cons)
    moreover have "readF32 r = Inr (x, adv (length (enc (CFloat x))) r)"
      using a IV_F32 by (intro readF32_enc [of r x rest]) (simp del: enc.simps)
    ultimately show ?thesis using IV_F32 by (simp add: decodeIntentValue_def)
  next
    case (IV_Bool x)
    then have "peekType r = Inr MT_Simple" using a by (cases x) (simp_all add: peekType_Cons)
    moreover have "readBool r = Inr (x, adv (length (enc (CBool x))) r)"
      using a IV_Bool by (intro readBool_enc [of r x rest]) (simp del: enc.simps)
    ultimately show ?thesis using IV_Bool by (simp add: decodeIntentValue_def)
  next
    case (IV_Tstr x)
    then show ?thesis
      using a assms readTstr_enc [of r x rest] peekType_head [of r 3 "word_of_nat (length x)" "x @ rest"]
      by (simp add: decodeIntentValue_def)
  next
    case (IV_Bstr x)
    then show ?thesis
      using a assms readBstr_enc [of r x rest] peekType_head [of r 2 "word_of_nat (length x)" "x @ rest"]
      by (simp add: decodeIntentValue_def)
  qed
qed

lemma reads_ivs:
  assumes "ivs_ok fs" and "d < 4"
  shows "reads d (decodeIntentValueMap kIntentMaxValueFields) (CMap (ivs_kvs fs)) fs"
proof -
  have "reads (Suc d) (decodeIntentValueMap_key (ucast (ivf_key f)) acc) (iv_cbor (ivf_value f)) (acc @ [f])"
    if "f \<in> set fs" for f acc
    using that assms(1)
    by (auto simp: decodeIntentValueMap_key_def ivs_ok_def list_all_iff intro!: reads_bind reads_intent_value)
  then have "runs d decodeIntentValueMap_key (ivs_kvs fs) [] ([] @ fs)"
    unfolding ivs_kvs_def by (rule runs_append_each)
  moreover have "sorted_wrt (<) (map fst (ivs_kvs fs))"
    using assms(1) by (simp add: ivs_ok_def ivs_kvs_def sorted_wrt_map ucast_u8_less_iff)
  ultimately show ?thesis
    using assms unfolding decodeIntentValueMap_def [abs_def] kIntentMaxValueFields_def
    by (intro reads_decode_map_cap) (auto simp: ivs_ok_def ivs_kvs_def)
qed

section \<open>INTENT\<close>

definition intent_kvs :: "IntentMsg \<Rightarrow> (u64 \<times> cbor) list" where
  "intent_kvs m =
    [(15, CUint (ucast (im_channel_id m)))] @ [(18, CUint (ucast (im_intent_id m)))] @
    [(20, CMap (ivs_kvs (im_value m)))] @
    (case im_precondition m of None \<Rightarrow> [] | Some v \<Rightarrow> [(30, CUint (ucast v))]) @
    (case im_takeover m of None \<Rightarrow> [] | Some v \<Rightarrow> [(32, CBool v)]) @ []"

definition intent_ok :: "IntentMsg \<Rightarrow> bool" where
  "intent_ok m \<longleftrightarrow> ivs_ok (im_value m)"

lemma encodeIntent_image:
  assumes "intent_ok m"
  shows "encodeIntent m cap = (if length (enc (CMap (intent_kvs m))) \<le> cap then enc (CMap (intent_kvs m)) else [])"
proof -
  have ok: "ivs_ok (im_value m)" using assms by (simp add: intent_ok_def)
  then have guard: "\<not> length (im_value m) > kIntentMaxValueFields" by (simp add: ivs_ok_def kIntentMaxValueFields_def)
  show ?thesis
    unfolding encodeIntent_def Let_def if_not_P [OF guard] intent_kvs_def
    by (rule emits_seq_result, rule emits_map) ((rule emit_intros | simp add: ok)+, simp split: option.splits)
qed

lemma intent_runs:
  assumes "intent_ok m"
  shows "runs 0 decodeIntent_key (intent_kvs m) (IntentMsg_new, False, False, False) (m, True, True, True)"
proof (cases m)
  case (fields ch ii vs pre tk)
  note opt = runs_optional [where x = pre and u = "\<lambda>f (m, g). (im_precondition_update f m, g)"]
    runs_optional [where x = tk and u = "\<lambda>f (m, g). (im_takeover_update f m, g)"]
  have ok: "ivs_ok vs" using assms by (simp add: intent_ok_def fields)
  show ?thesis
    unfolding intent_kvs_def fields IntentMsg.select_convs IntentMsg_new_def
    by (rule run_intros opt reads_ivs | simp add: decodeIntent_key_def ok)+
qed

lemma intent_keys:
  "sorted_wrt (<) (map fst (intent_kvs m))" "fst ` set (intent_kvs m) \<subseteq> {15, 18, 20, 30, 32}"
  "length (intent_kvs m) < 2 ^ 32"
  by (auto simp: intent_kvs_def split: option.splits)

lemma decodeIntent_skip: "k \<notin> {15, 18, 20, 30, 32} \<Longrightarrow> decodeIntent_key k m = skip_unknown m"
  by (cases m) (auto simp: decodeIntent_key_def)

interpretation intent_codec: cbor_message intent_kvs encodeIntent decodeIntent "{15, 18, 20, 30, 32}" intent_ok
proof (unfold_locales, goal_cases)
  case (2 m kvs' rest)
  then show ?case
    using decode_map_top [where h = decodeIntent_key and known = "{15, 18, 20, 30, 32}"
        and m = "(IntentMsg_new, False, False, False)" and m' = "(m, True, True, True)"
        and kvs = kvs' and rest = rest] intent_runs [of m] decodeIntent_skip
    by (auto simp: decodeIntent_def simp del: enc.simps)
qed (use intent_keys encodeIntent_image in auto)

section \<open>ECHO\<close>

definition echo_kvs :: "EchoMsg \<Rightarrow> (u64 \<times> cbor) list" where
  "echo_kvs m = [(9, CUint (ucast (ec_cfg_gen m)))] @ [(18, CUint (ucast (ec_intent_id m)))] @
    [(19, CMap (ivs_kvs (ec_applied m)))] @ []"

definition echo_ok :: "EchoMsg \<Rightarrow> bool" where
  "echo_ok m \<longleftrightarrow> ivs_ok (ec_applied m)"

lemma encodeEcho_image:
  assumes "echo_ok m"
  shows "encodeEcho m cap = (if length (enc (CMap (echo_kvs m))) \<le> cap then enc (CMap (echo_kvs m)) else [])"
proof -
  have ok: "ivs_ok (ec_applied m)" using assms by (simp add: echo_ok_def)
  then have guard: "\<not> length (ec_applied m) > kIntentMaxValueFields" by (simp add: ivs_ok_def kIntentMaxValueFields_def)
  show ?thesis
    unfolding encodeEcho_def Let_def if_not_P [OF guard] echo_kvs_def
    by (rule emits_seq_result, rule emits_map) (rule emit_intros | simp add: ok)+
qed

lemma echo_runs:
  assumes "echo_ok m"
  shows "runs 0 decodeEcho_key (echo_kvs m) (EchoMsg_new, False, False, False) (m, True, True, True)"
proof (cases m)
  case (fields ii cg vs)
  have ok: "ivs_ok vs" using assms by (simp add: echo_ok_def fields)
  show ?thesis
    unfolding echo_kvs_def fields EchoMsg.select_convs EchoMsg_new_def
    by (rule run_intros reads_ivs | simp add: decodeEcho_key_def ok)+
qed

lemma echo_keys:
  "sorted_wrt (<) (map fst (echo_kvs m))" "fst ` set (echo_kvs m) \<subseteq> {9, 18, 19}" "length (echo_kvs m) < 2 ^ 32"
  by (auto simp: echo_kvs_def)

lemma decodeEcho_skip: "k \<notin> {9, 18, 19} \<Longrightarrow> decodeEcho_key k m = skip_unknown m"
  by (cases m) (auto simp: decodeEcho_key_def)

interpretation echo_codec: cbor_message echo_kvs encodeEcho decodeEcho "{9, 18, 19}" echo_ok
proof (unfold_locales, goal_cases)
  case (2 m kvs' rest)
  then show ?case
    using decode_map_top [where h = decodeEcho_key and known = "{9, 18, 19}"
        and m = "(EchoMsg_new, False, False, False)" and m' = "(m, True, True, True)"
        and kvs = kvs' and rest = rest] echo_runs [of m] decodeEcho_skip
    by (auto simp: decodeEcho_def simp del: enc.simps)
qed (use echo_keys encodeEcho_image in auto)

section \<open>EVENT\<close>

definition event_kvs :: "EventMsg \<Rightarrow> (u64 \<times> cbor) list" where
  "event_kvs m = [(15, CUint (ucast (ev_channel_id m)))] @ [(21, CUint (ucast (ev_timestamp m)))] @
    [(33, CUint (ucast (ev_event_kind m)))] @
    (case ev_seq_of_state m of None \<Rightarrow> [] | Some v \<Rightarrow> [(34, CUint (ucast v))]) @
    (case ev_body m of None \<Rightarrow> [] | Some b \<Rightarrow> [(40, CMap (ivs_kvs b))]) @ []"

definition event_ok :: "EventMsg \<Rightarrow> bool" where
  "event_ok m \<longleftrightarrow> (case ev_body m of None \<Rightarrow> True | Some b \<Rightarrow> ivs_ok b)"

lemma epairs_body [emit_intros]:
  assumes "K \<le> 40" and "d < 3" and "case x of None \<Rightarrow> True | Some b \<Rightarrow> ivs_ok b"
  shows "epairs d (w_opt x (\<lambda>b. w_kv 40 (encodeIntentValueMap b)))
    (case x of None \<Rightarrow> [] | Some b \<Rightarrow> [(40, CMap (ivs_kvs b))]) K 41"
proof (cases x)
  case None
  then show ?thesis using assms by (auto simp: epairs_def w_opt_def intro: WM_weaken)
next
  case (Some b)
  have "epairs d (w_kv 40 (encodeIntentValueMap b)) [(40, CMap (ivs_kvs b))] K (40 + 1)"
    using assms Some by (intro epairs_kv emits_ivs) auto
  then show ?thesis using Some by (simp add: w_opt_def [abs_def])
qed

lemma encodeEvent_image:
  assumes "event_ok m"
  shows "encodeEvent m cap = (if length (enc (CMap (event_kvs m))) \<le> cap then enc (CMap (event_kvs m)) else [])"
proof -
  have ok: "case ev_body m of None \<Rightarrow> True | Some b \<Rightarrow> ivs_ok b" using assms by (simp add: event_ok_def)
  then have guard: "\<not> (case ev_body m of None \<Rightarrow> 0 | Some b \<Rightarrow> length b) > kIntentMaxValueFields"
    by (auto simp: ivs_ok_def kIntentMaxValueFields_def split: option.splits)
  show ?thesis
    unfolding encodeEvent_def Let_def if_not_P [OF guard] event_kvs_def
    by (rule emits_seq_result, rule emits_map)
      (rule epairs_body | rule emit_intros | simp add: ok | simp add: ac_simps | simp split: option.splits)+
qed

lemma event_runs:
  assumes "event_ok m"
  shows "runs 0 decodeEvent_key (event_kvs m) (EventMsg_new, False, False, False) (m, True, True, True)"
proof (cases m)
  case (fields ch ts ek sq bd)
  note opt = runs_optional [where x = sq and u = "\<lambda>f (m, g). (ev_seq_of_state_update f m, g)"]
    runs_optional [where x = bd and u = "\<lambda>f (m, g). (ev_body_update f m, g)"]
  have ok: "\<And>b. bd = Some b \<Longrightarrow> ivs_ok b" using assms by (simp add: event_ok_def fields)
  show ?thesis
    unfolding event_kvs_def fields EventMsg.select_convs EventMsg_new_def
    by (rule run_intros opt reads_ivs | simp add: decodeEvent_key_def ok)+
qed

lemma event_keys:
  "sorted_wrt (<) (map fst (event_kvs m))" "fst ` set (event_kvs m) \<subseteq> {15, 21, 33, 34, 40}"
  "length (event_kvs m) < 2 ^ 32"
  by (auto simp: event_kvs_def split: option.splits)

lemma decodeEvent_skip: "k \<notin> {15, 21, 33, 34, 40} \<Longrightarrow> decodeEvent_key k m = skip_unknown m"
  by (cases m) (auto simp: decodeEvent_key_def)

interpretation event_codec: cbor_message event_kvs encodeEvent decodeEvent "{15, 21, 33, 34, 40}" event_ok
proof (unfold_locales, goal_cases)
  case (2 m kvs' rest)
  then show ?case
    using decode_map_top [where h = decodeEvent_key and known = "{15, 21, 33, 34, 40}"
        and m = "(EventMsg_new, False, False, False)" and m' = "(m, True, True, True)"
        and kvs = kvs' and rest = rest] event_runs [of m] decodeEvent_skip
    by (auto simp: decodeEvent_def simp del: enc.simps)
qed (use event_keys encodeEvent_image in auto)

section \<open>Properties\<close>

text \<open>
  INTENT on the wire: for every intent with at most eight value fields in ascending key order,
  the encoder either writes the whole message, which decodes back to it whatever follows in the
  buffer, or, when the buffer is too small for it, writes nothing.  A non-negative signed value is
  sent as its unsigned equivalent.
\<close>

theorem intent_roundtrip:
  assumes "ivs_ok (im_value m)"
  shows "(if length (enc (CMap (intent_kvs m))) \<le> cap
          then encodeIntent m cap \<noteq> [] \<and> decodeIntent (encodeIntent m cap @ rest) = Inr m
          else encodeIntent m cap = []) \<and>
         iv_cbor (iv_normal v) = iv_cbor v"
  using intent_codec.roundtrip [of m cap rest] assms iv_normal_image [of v] by (simp add: intent_ok_def)

theorem intent_roundtrip_witness:
  "decodeIntent (encodeIntent \<lparr> im_channel_id = 0x0201, im_intent_id = 77,
       im_value = [\<lparr> ivf_key = 1, ivf_value = IV_I64 (- 5) \<rparr>, \<lparr> ivf_key = 4, ivf_value = IV_Tstr [104, 105] \<rparr>],
       im_precondition = Some 3, im_takeover = None \<rparr> 40) =
   Inr \<lparr> im_channel_id = 0x0201, im_intent_id = 77,
       im_value = [\<lparr> ivf_key = 1, ivf_value = IV_I64 (- 5) \<rparr>, \<lparr> ivf_key = 4, ivf_value = IV_Tstr [104, 105] \<rparr>],
       im_precondition = Some 3, im_takeover = None \<rparr>"
proof -
  let ?m = "\<lparr> im_channel_id = 0x0201, im_intent_id = 77,
       im_value = [\<lparr> ivf_key = 1, ivf_value = IV_I64 (- 5) \<rparr>, \<lparr> ivf_key = 4, ivf_value = IV_Tstr [104, 105] \<rparr>],
       im_precondition = Some 3, im_takeover = None \<rparr>"
  have "ivs_ok (im_value ?m)" by (simp add: ivs_ok_def)
  moreover have "length (enc (CMap (intent_kvs ?m))) \<le> 40" by code_simp
  ultimately show ?thesis using intent_roundtrip [of ?m 40 "[]"] by simp
qed

text \<open>
  Forward compatibility of INTENT, ECHO and EVENT: a message that carries, besides the keys of
  this version, any well-formed values under keys the decoder does not know decodes to the same
  message as without them.
\<close>

theorem event_forward_compatible:
  assumes "ivs_ok (ec_applied e)" and "ivs_ok (im_value i)" and "event_ok v"
    and "sorted_wrt (<) (map fst kvs)" and "length kvs < 2 ^ 32"
  shows "(filter (\<lambda>(k, x). k \<in> {15, 18, 20, 30, 32}) kvs = intent_kvs i \<and>
            list_all (\<lambda>(k, x). k \<in> {15, 18, 20, 30, 32} \<or> cbor_ok 3 x) kvs \<longrightarrow>
            decodeIntent (enc (CMap kvs)) = Inr i) \<and>
         (filter (\<lambda>(k, x). k \<in> {9, 18, 19}) kvs = echo_kvs e \<and>
            list_all (\<lambda>(k, x). k \<in> {9, 18, 19} \<or> cbor_ok 3 x) kvs \<longrightarrow>
            decodeEcho (enc (CMap kvs)) = Inr e) \<and>
         (filter (\<lambda>(k, x). k \<in> {15, 21, 33, 34, 40}) kvs = event_kvs v \<and>
            list_all (\<lambda>(k, x). k \<in> {15, 21, 33, 34, 40} \<or> cbor_ok 3 x) kvs \<longrightarrow>
            decodeEvent (enc (CMap kvs)) = Inr v)"
proof (intro conjI impI)
  assume "filter (\<lambda>(k, x). k \<in> {15, 18, 20, 30, 32}) kvs = intent_kvs i \<and>
      list_all (\<lambda>(k, x). k \<in> {15, 18, 20, 30, 32} \<or> cbor_ok 3 x) kvs"
  then show "decodeIntent (enc (CMap kvs)) = Inr i"
    using assms by (intro intent_codec.forward_compatible) (auto simp: intent_ok_def list_all_iff)
next
  assume "filter (\<lambda>(k, x). k \<in> {9, 18, 19}) kvs = echo_kvs e \<and>
      list_all (\<lambda>(k, x). k \<in> {9, 18, 19} \<or> cbor_ok 3 x) kvs"
  then show "decodeEcho (enc (CMap kvs)) = Inr e"
    using assms by (intro echo_codec.forward_compatible) (auto simp: echo_ok_def list_all_iff)
next
  assume "filter (\<lambda>(k, x). k \<in> {15, 21, 33, 34, 40}) kvs = event_kvs v \<and>
      list_all (\<lambda>(k, x). k \<in> {15, 21, 33, 34, 40} \<or> cbor_ok 3 x) kvs"
  then show "decodeEvent (enc (CMap kvs)) = Inr v"
    using assms by (intro event_codec.forward_compatible) (auto simp: list_all_iff)
qed

theorem event_forward_compatible_witness:
  "decodeEvent (enc (CMap [(15, CUint 512), (21, CUint 9), (33, CUint 2), (50, CArray [CNull, CBool True])])) =
   Inr \<lparr> ev_channel_id = 512, ev_timestamp = 9, ev_event_kind = 2, ev_seq_of_state = None, ev_body = None \<rparr>"
  using event_forward_compatible [where e = "EchoMsg_new" and i = "IntentMsg_new" and
      v = "\<lparr> ev_channel_id = 512, ev_timestamp = 9, ev_event_kind = 2, ev_seq_of_state = None, ev_body = None \<rparr>" and
      kvs = "[(15, CUint 512), (21, CUint 9), (33, CUint 2), (50, CArray [CNull, CBool True])]"]
  by (simp add: EchoMsg_new_def IntentMsg_new_def ivs_ok_def event_ok_def event_kvs_def numeral_3_eq_3 del: enc.simps)

end
