(* ===== verification/Msg_Trust.thy ===== *)
theory Msg_Trust
  imports Cbor_Message Byte_IO
begin

text \<open>
  The \<open>trust\<close> sub-map and the messages of the pairing and authentication ceremonies that are built
  around it: \<^verbatim>\<open>wire/messages/trust_submap.hpp\<close>, \<^verbatim>\<open>wire/messages/auth.hpp\<close> (AUTH and HUB_SIG share
  one envelope) and \<^verbatim>\<open>wire/messages/pair.hpp\<close>.  A byte array with a length member is the list of its
  bytes in use, so a fixed-size \<open>std::array\<close> is a list of that length (part of \<open>trust_ok\<close>).
\<close>

section \<open>Definitions: the trust map\<close>

definition kTrustPubkeyMaxBytes :: nat where "kTrustPubkeyMaxBytes = 33"
definition kTrustSigMaxBytes :: nat where "kTrustSigMaxBytes = 72"
definition kTrustTokenProofBytes :: nat where "kTrustTokenProofBytes = 16"
definition kTrustClientNonceBytes :: nat where "kTrustClientNonceBytes = 8"

text \<open>\<^verbatim>\<open>limits::client_ver_max_bytes\<close>, \<^verbatim>\<open>limits::instance_id_bytes\<close> and \<^verbatim>\<open>limits::token_bytes\<close>.\<close>

abbreviation (input) client_ver_max_bytes :: nat where "client_ver_max_bytes \<equiv> 24"
abbreviation (input) instance_id_bytes :: nat where "instance_id_bytes \<equiv> 8"
abbreviation (input) token_bytes :: nat where "token_bytes \<equiv> 16"

record TrustMap =
  tm_client_ver :: "bytes option"
  tm_client_nonce :: "bytes option"
  tm_sig_request :: "bool option"
  tm_hub_pubkey :: "bytes option"
  tm_welcome_sig :: "bytes option"
  tm_token_proof :: "bytes option"
  tm_presentation_mode :: "u8 option"
  tm_pairing_modes :: "u8 option"

definition TrustMap_new :: TrustMap where
  "TrustMap_new = \<lparr> tm_client_ver = None, tm_client_nonce = None, tm_sig_request = None, tm_hub_pubkey = None,
     tm_welcome_sig = None, tm_token_proof = None, tm_presentation_mode = None, tm_pairing_modes = None \<rparr>"

definition tm_any :: "TrustMap \<Rightarrow> bool" where
  "tm_any t \<longleftrightarrow> tm_client_ver t \<noteq> None \<or> tm_client_nonce t \<noteq> None \<or> tm_sig_request t \<noteq> None \<or>
     tm_presentation_mode t \<noteq> None \<or> tm_token_proof t \<noteq> None \<or> tm_hub_pubkey t \<noteq> None \<or>
     tm_welcome_sig t \<noteq> None \<or> tm_pairing_modes t \<noteq> None"

definition keyCount :: "TrustMap \<Rightarrow> u32" where
  "keyCount t = present (tm_client_ver t) + present (tm_client_nonce t) + present (tm_sig_request t) +
     present (tm_hub_pubkey t) + present (tm_welcome_sig t) + present (tm_token_proof t) +
     present (tm_presentation_mode t) + present (tm_pairing_modes t)"

definition encodeTrustMap :: "TrustMap \<Rightarrow> CborWriter \<Rightarrow> CborWriter" where
  "encodeTrustMap t = w_kv CK_trust (w_seq
     [mapHeader (keyCount t),
      w_opt (tm_client_ver t) (\<lambda>v. w_kv 1 (tstrVal v)),
      w_opt (tm_client_nonce t) (\<lambda>v. w_kv 2 (bstrVal v)),
      w_opt (tm_sig_request t) (\<lambda>v. w_kv 3 (boolVal v)),
      w_opt (tm_hub_pubkey t) (\<lambda>v. w_kv 4 (bstrVal v)),
      w_opt (tm_welcome_sig t) (\<lambda>v. w_kv 5 (bstrVal v)),
      w_opt (tm_token_proof t) (\<lambda>v. w_kv 6 (bstrVal v)),
      w_opt (tm_presentation_mode t) (\<lambda>v. w_kv 7 (uintVal (ucast v))),
      w_opt (tm_pairing_modes t) (\<lambda>v. w_kv 8 (uintVal (ucast v)))])"

definition decodeTrustMap_key :: "TrustMap handler" where
  "decodeTrustMap_key k = (\<lambda>t r.
    if k = 1 then
      rbind (readTstr r) (\<lambda>(v, r).
        if length v > client_ver_max_bytes then Inl CapacityExceeded
        else Inr (t \<lparr> tm_client_ver := Some v \<rparr>, r))
    else if k = 2 then
      rbind (readBstr r) (\<lambda>(v, r).
        if length v \<noteq> kTrustClientNonceBytes then Inl Malformed
        else Inr (t \<lparr> tm_client_nonce := Some v \<rparr>, r))
    else if k = 3 then
      rbind (readBool r) (\<lambda>(v, r). Inr (t \<lparr> tm_sig_request := Some v \<rparr>, r))
    else if k = 4 then
      rbind (readBstr r) (\<lambda>(v, r).
        if v = [] \<or> length v > kTrustPubkeyMaxBytes then Inl CapacityExceeded
        else Inr (t \<lparr> tm_hub_pubkey := Some v \<rparr>, r))
    else if k = 5 then
      rbind (readBstr r) (\<lambda>(v, r).
        if v = [] \<or> length v > kTrustSigMaxBytes then Inl CapacityExceeded
        else Inr (t \<lparr> tm_welcome_sig := Some v \<rparr>, r))
    else if k = 6 then
      rbind (readBstr r) (\<lambda>(v, r).
        if length v \<noteq> kTrustTokenProofBytes then Inl Malformed
        else Inr (t \<lparr> tm_token_proof := Some v \<rparr>, r))
    else if k = 7 then
      rbind (readUint r) (\<lambda>(v, r).
        if v > 0xFF then Inl Malformed else Inr (t \<lparr> tm_presentation_mode := Some (ucast v) \<rparr>, r))
    else if k = 8 then
      rbind (readUint r) (\<lambda>(v, r).
        if v > 0xFF then Inl Malformed else Inr (t \<lparr> tm_pairing_modes := Some (ucast v) \<rparr>, r))
    else skip_unknown t r)"

definition decodeTrustMap :: "TrustMap \<Rightarrow> CborReader \<Rightarrow> (TrustMap \<times> CborReader) result" where
  "decodeTrustMap t r = decode_map decodeTrustMap_key t r"

section \<open>Definitions: AUTH and HUB_SIG\<close>

definition kHubSigMaterialBytes :: nat where
  "kHubSigMaterialBytes = kTrustClientNonceBytes + 4 + 4"

text \<open>The two loops write byte \<open>i\<close> of the little-endian image at its index.\<close>

definition hubSigMaterial :: "bytes \<Rightarrow> u32 \<Rightarrow> u32 \<Rightarrow> bytes" where
  "hubSigMaterial client_nonce session_id boot_id =
     map (\<lambda>i. if i < kTrustClientNonceBytes then client_nonce ! i
              else if i < kTrustClientNonceBytes + 4
              then ucast (drop_bit (8 * (i - kTrustClientNonceBytes)) session_id)
              else ucast (drop_bit (8 * (i - (kTrustClientNonceBytes + 4))) boot_id))
       [0..<kHubSigMaterialBytes]"

record TrustEnvelopeMsg =
  te_trust_map :: TrustMap

definition encodeTrustEnvelope :: "TrustEnvelopeMsg \<Rightarrow> nat \<Rightarrow> bytes" where
  "encodeTrustEnvelope m cap =
    (if \<not> tm_any (te_trust_map m) then []
     else w_result (w_seq [mapHeader 1, encodeTrustMap (te_trust_map m)] (CborWriter_new cap)))"

definition decodeTrustEnvelope_key :: "(TrustEnvelopeMsg \<times> bool) handler" where
  "decodeTrustEnvelope_key k = (\<lambda>(m, gotTrust) r.
    if k = CK_trust then
      rbind (decodeTrustMap (te_trust_map m) r) (\<lambda>(t, r). Inr ((m \<lparr> te_trust_map := t \<rparr>, True), r))
    else skip_unknown (m, gotTrust) r)"

definition decodeTrustEnvelope :: "bytes \<Rightarrow> TrustEnvelopeMsg result" where
  "decodeTrustEnvelope inp =
    rbind (decode_map decodeTrustEnvelope_key (\<lparr> te_trust_map = TrustMap_new \<rparr>, False) (CborReader_new inp))
      (\<lambda>((m, gotTrust), _). if \<not> gotTrust then Inl Malformed else Inr m)"

definition encodeAuth :: "TrustEnvelopeMsg \<Rightarrow> nat \<Rightarrow> bytes" where "encodeAuth = encodeTrustEnvelope"
definition decodeAuth :: "bytes \<Rightarrow> TrustEnvelopeMsg result" where "decodeAuth = decodeTrustEnvelope"
definition encodeHubSig :: "TrustEnvelopeMsg \<Rightarrow> nat \<Rightarrow> bytes" where "encodeHubSig = encodeTrustEnvelope"
definition decodeHubSig :: "bytes \<Rightarrow> TrustEnvelopeMsg result" where "decodeHubSig = decodeTrustEnvelope"

section \<open>Definitions: PAIR_REQ and PAIR_GRANT\<close>

definition kPinProofBytes :: nat where "kPinProofBytes = 16"

record PairReqMsg =
  pr_instance_id :: bytes
  pr_pin_proof :: "bytes option"

definition PairReqMsg_new :: PairReqMsg where
  "PairReqMsg_new = \<lparr> pr_instance_id = replicate instance_id_bytes 0, pr_pin_proof = None \<rparr>"

record PairGrantMsg =
  pg_token :: bytes
  pg_roles :: u8
  pg_trust :: "TrustMap option"

definition PairGrantMsg_new :: PairGrantMsg where
  "PairGrantMsg_new = \<lparr> pg_token = replicate token_bytes 0, pg_roles = 0, pg_trust = None \<rparr>"

definition encodePairReq :: "PairReqMsg \<Rightarrow> nat \<Rightarrow> bytes" where
  "encodePairReq m cap = w_result (w_seq
     [mapHeader (if pr_pin_proof m \<noteq> None then 2 else 1),
      w_kv CK_instance_id (bstrVal (pr_instance_id m)),
      w_opt (pr_pin_proof m) (\<lambda>v. w_kv CK_pin_proof (bstrVal v))]
     (CborWriter_new cap))"

definition decodePairReq_key :: "(PairReqMsg \<times> bool) handler" where
  "decodePairReq_key k = (\<lambda>(m, gotInstance) r.
    if k = CK_instance_id then
      rbind (readBstr r) (\<lambda>(v, r).
        if length v \<noteq> instance_id_bytes then Inl Malformed
        else Inr ((m \<lparr> pr_instance_id := v \<rparr>, True), r))
    else if k = CK_pin_proof then
      rbind (readBstr r) (\<lambda>(v, r).
        if length v \<noteq> kPinProofBytes then Inl Malformed
        else Inr ((m \<lparr> pr_pin_proof := Some v \<rparr>, gotInstance), r))
    else skip_unknown (m, gotInstance) r)"

definition decodePairReq :: "bytes \<Rightarrow> PairReqMsg result" where
  "decodePairReq inp =
    rbind (decode_map decodePairReq_key (PairReqMsg_new, False) (CborReader_new inp)) (\<lambda>((m, gotInstance), _).
      if \<not> gotInstance then Inl Malformed else Inr m)"

definition pg_hasTrust :: "PairGrantMsg \<Rightarrow> bool" where
  "pg_hasTrust m \<longleftrightarrow> (case pg_trust m of None \<Rightarrow> False | Some t \<Rightarrow> tm_any t)"

definition encodePairGrant :: "PairGrantMsg \<Rightarrow> nat \<Rightarrow> bytes" where
  "encodePairGrant m cap = w_result (w_seq
     [mapHeader (if pg_hasTrust m then 3 else 2),
      w_kv CK_token (bstrVal (pg_token m)),
      w_kv CK_roles (uintVal (ucast (pg_roles m))),
      w_opt (pg_trust m) (\<lambda>t. w_when (tm_any t) (encodeTrustMap t))]
     (CborWriter_new cap))"

definition decodePairGrant_key :: "(PairGrantMsg \<times> bool \<times> bool) handler" where
  "decodePairGrant_key k = (\<lambda>(m, gotToken, gotRoles) r.
    if k = CK_token then
      rbind (readBstr r) (\<lambda>(v, r).
        if length v \<noteq> token_bytes then Inl Malformed
        else Inr ((m \<lparr> pg_token := v \<rparr>, True, gotRoles), r))
    else if k = CK_roles then
      rbind (readUint r) (\<lambda>(v, r). Inr ((m \<lparr> pg_roles := ucast v \<rparr>, gotToken, True), r))
    else if k = CK_trust then
      rbind (decodeTrustMap (case pg_trust m of None \<Rightarrow> TrustMap_new | Some t \<Rightarrow> t) r) (\<lambda>(t, r).
        Inr ((m \<lparr> pg_trust := Some t \<rparr>, gotToken, gotRoles), r))
    else skip_unknown (m, gotToken, gotRoles) r)"

definition decodePairGrant :: "bytes \<Rightarrow> PairGrantMsg result" where
  "decodePairGrant inp =
    rbind (decode_map decodePairGrant_key (PairGrantMsg_new, False, False) (CborReader_new inp))
      (\<lambda>((m, gotToken, gotRoles), _). if \<not> (gotToken \<and> gotRoles) then Inl Malformed else Inr m)"

section \<open>The trust map on the wire\<close>

definition trust_kvs :: "TrustMap \<Rightarrow> (u64 \<times> cbor) list" where
  "trust_kvs t =
    (case tm_client_ver t of None \<Rightarrow> [] | Some v \<Rightarrow> [(1, CText v)]) @
    (case tm_client_nonce t of None \<Rightarrow> [] | Some v \<Rightarrow> [(2, CBytes v)]) @
    (case tm_sig_request t of None \<Rightarrow> [] | Some v \<Rightarrow> [(3, CBool v)]) @
    (case tm_hub_pubkey t of None \<Rightarrow> [] | Some v \<Rightarrow> [(4, CBytes v)]) @
    (case tm_welcome_sig t of None \<Rightarrow> [] | Some v \<Rightarrow> [(5, CBytes v)]) @
    (case tm_token_proof t of None \<Rightarrow> [] | Some v \<Rightarrow> [(6, CBytes v)]) @
    (case tm_presentation_mode t of None \<Rightarrow> [] | Some v \<Rightarrow> [(7, CUint (ucast v))]) @
    (case tm_pairing_modes t of None \<Rightarrow> [] | Some v \<Rightarrow> [(8, CUint (ucast v))]) @ []"

text \<open>The size limits that the decoder enforces, and that a sender therefore has to keep.\<close>

definition trust_ok :: "TrustMap \<Rightarrow> bool" where
  "trust_ok t \<longleftrightarrow>
     (case tm_client_ver t of None \<Rightarrow> True | Some v \<Rightarrow> length v \<le> 24) \<and>
     (case tm_client_nonce t of None \<Rightarrow> True | Some v \<Rightarrow> length v = 8) \<and>
     (case tm_hub_pubkey t of None \<Rightarrow> True | Some v \<Rightarrow> v \<noteq> [] \<and> length v \<le> 33) \<and>
     (case tm_welcome_sig t of None \<Rightarrow> True | Some v \<Rightarrow> v \<noteq> [] \<and> length v \<le> 72) \<and>
     (case tm_token_proof t of None \<Rightarrow> True | Some v \<Rightarrow> length v = 16)"

lemma trust_kvs_length: "length (trust_kvs t) \<le> 8"
  by (auto simp: trust_kvs_def split: option.splits)

lemma trust_kvs_sorted: "sorted_wrt (<) (map fst (trust_kvs t))"
  by (auto simp: trust_kvs_def split: option.splits)

lemma keyCount_eq: "keyCount t = word_of_nat (length (trust_kvs t))"
  unfolding keyCount_def trust_kvs_def length_append of_nat_add length_opt_pairs by (simp add: ac_simps)

lemma epairs_trust [emit_intros]:
  assumes "d < 3" and "K \<le> 39"
  shows "epairs d (encodeTrustMap t) [(39, CMap (trust_kvs t))] K 40"
proof -
  have n: "keyCount t = word_of_nat (length (trust_kvs t))" by (rule keyCount_eq)
  have "epairs d (encodeTrustMap t) [(39, CMap (trust_kvs t))] K (39 + 1)"
    unfolding encodeTrustMap_def n unfolding trust_kvs_def
    by (rule epairs_kv, rule emits_map)
      (rule emit_intros | simp add: assms | simp add: assms split: option.splits)+
  then show ?thesis by simp
qed

lemma reads_trust:
  assumes "trust_ok t" and "d < 4"
  shows "reads d (decodeTrustMap TrustMap_new) (CMap (trust_kvs t)) t"
proof -
  have "runs d decodeTrustMap_key (trust_kvs t) TrustMap_new t"
  proof (cases t)
    case (fields cv cn sr hp ws tp pm pp)
    note opt = runs_optional [where x = cv and u = tm_client_ver_update]
      runs_optional [where x = cn and u = tm_client_nonce_update]
      runs_optional [where x = sr and u = tm_sig_request_update]
      runs_optional [where x = hp and u = tm_hub_pubkey_update]
      runs_optional [where x = ws and u = tm_welcome_sig_update]
      runs_optional [where x = tp and u = tm_token_proof_update]
      runs_optional [where x = pm and u = tm_presentation_mode_update]
      runs_optional [where x = pp and u = tm_pairing_modes_update]
    have len: "\<And>v. cv = Some v \<Longrightarrow> \<not> 24 < length v" "\<And>v. cv = Some v \<Longrightarrow> length v < 2 ^ 64"
      "\<And>v. cn = Some v \<Longrightarrow> length v = 8" "\<And>v. tp = Some v \<Longrightarrow> length v = 16"
      "\<And>v. hp = Some v \<Longrightarrow> \<not> 33 < length v" "\<And>v. hp = Some v \<Longrightarrow> length v < 2 ^ 64" "\<And>v. hp = Some v \<Longrightarrow> v \<noteq> []"
      "\<And>v. ws = Some v \<Longrightarrow> \<not> 72 < length v" "\<And>v. ws = Some v \<Longrightarrow> length v < 2 ^ 64" "\<And>v. ws = Some v \<Longrightarrow> v \<noteq> []"
      using assms by (auto simp: trust_ok_def fields)
    show ?thesis
      unfolding trust_kvs_def fields TrustMap.select_convs TrustMap_new_def
      by (rule run_intros opt | simp add: decodeTrustMap_key_def kTrustPubkeyMaxBytes_def kTrustSigMaxBytes_def
          kTrustTokenProofBytes_def kTrustClientNonceBytes_def len [simplified])+
  qed
  then show ?thesis
    unfolding decodeTrustMap_def [abs_def]
    using trust_kvs_length [of t] assms(2) by (intro reads_decode_map trust_kvs_sorted) auto
qed

section \<open>The envelope\<close>

definition envelope_kvs :: "TrustEnvelopeMsg \<Rightarrow> (u64 \<times> cbor) list" where
  "envelope_kvs m = [(39, CMap (trust_kvs (te_trust_map m)))] @ []"

definition envelope_ok :: "TrustEnvelopeMsg \<Rightarrow> bool" where
  "envelope_ok m \<longleftrightarrow> tm_any (te_trust_map m) \<and> trust_ok (te_trust_map m)"

lemma encodeTrustEnvelope_image:
  assumes "envelope_ok m"
  shows "encodeTrustEnvelope m cap =
    (if length (enc (CMap (envelope_kvs m))) \<le> cap then enc (CMap (envelope_kvs m)) else [])"
proof -
  have guard: "\<not> \<not> tm_any (te_trust_map m)" using assms by (simp add: envelope_ok_def)
  show ?thesis
    unfolding encodeTrustEnvelope_def if_not_P [OF guard] envelope_kvs_def
    by (rule emits_seq_result, rule emits_map) (rule emit_intros | simp)+
qed

lemma envelope_runs:
  assumes "envelope_ok m"
  shows "runs 0 decodeTrustEnvelope_key (envelope_kvs m) (\<lparr> te_trust_map = TrustMap_new \<rparr>, False) (m, True)"
proof (cases m)
  case (fields t)
  have ok: "trust_ok t" using assms by (simp add: envelope_ok_def fields)
  show ?thesis
    unfolding envelope_kvs_def fields TrustEnvelopeMsg.select_convs
    by (rule run_intros reads_trust | simp add: decodeTrustEnvelope_key_def ok)+
qed

lemma envelope_keys:
  "sorted_wrt (<) (map fst (envelope_kvs m))" "fst ` set (envelope_kvs m) \<subseteq> {39}"
  "length (envelope_kvs m) < 2 ^ 32"
  by (auto simp: envelope_kvs_def)

lemma decodeTrustEnvelope_skip: "k \<notin> {39} \<Longrightarrow> decodeTrustEnvelope_key k m = skip_unknown m"
  by (cases m) (auto simp: decodeTrustEnvelope_key_def)

interpretation envelope_codec: cbor_message envelope_kvs encodeTrustEnvelope decodeTrustEnvelope "{39}" envelope_ok
proof (unfold_locales, goal_cases)
  case (2 m kvs' rest)
  then show ?case
    using decode_map_top [where h = decodeTrustEnvelope_key and known = "{39}"
        and m = "(\<lparr> te_trust_map = TrustMap_new \<rparr>, False)" and m' = "(m, True)"
        and kvs = kvs' and rest = rest] envelope_runs [of m] decodeTrustEnvelope_skip
    by (auto simp: decodeTrustEnvelope_def simp del: enc.simps)
qed (use envelope_keys encodeTrustEnvelope_image in auto)

section \<open>PAIR_REQ\<close>

definition pair_req_kvs :: "PairReqMsg \<Rightarrow> (u64 \<times> cbor) list" where
  "pair_req_kvs m = [(4, CBytes (pr_instance_id m))] @
    (case pr_pin_proof m of None \<Rightarrow> [] | Some v \<Rightarrow> [(28, CBytes v)]) @ []"

definition pair_req_ok :: "PairReqMsg \<Rightarrow> bool" where
  "pair_req_ok m \<longleftrightarrow> length (pr_instance_id m) = 8 \<and>
     (case pr_pin_proof m of None \<Rightarrow> True | Some v \<Rightarrow> length v = 16)"

lemma encodePairReq_image:
  "encodePairReq m cap = (if length (enc (CMap (pair_req_kvs m))) \<le> cap then enc (CMap (pair_req_kvs m)) else [])"
  unfolding encodePairReq_def pair_req_kvs_def
  by (rule emits_seq_result, rule emits_map) (rule emit_intros | simp add: present_def | simp split: option.splits)+

lemma pair_req_runs:
  assumes "pair_req_ok m"
  shows "runs 0 decodePairReq_key (pair_req_kvs m) (PairReqMsg_new, False) (m, True)"
proof (cases m)
  case (fields ii pp)
  note opt = runs_optional [where x = pp and u = "\<lambda>f (m, g). (pr_pin_proof_update f m, g)"]
  have len: "length ii = 8" "\<And>v. pp = Some v \<Longrightarrow> length v = 16"
    using assms by (auto simp: pair_req_ok_def fields)
  show ?thesis
    unfolding pair_req_kvs_def fields PairReqMsg.select_convs PairReqMsg_new_def
    by (rule run_intros opt | simp add: decodePairReq_key_def kPinProofBytes_def len [simplified])+
qed

lemma pair_req_keys:
  "sorted_wrt (<) (map fst (pair_req_kvs m))" "fst ` set (pair_req_kvs m) \<subseteq> {4, 28}"
  "length (pair_req_kvs m) < 2 ^ 32"
  by (auto simp: pair_req_kvs_def split: option.splits)

lemma decodePairReq_skip: "k \<notin> {4, 28} \<Longrightarrow> decodePairReq_key k m = skip_unknown m"
  by (cases m) (auto simp: decodePairReq_key_def)

interpretation pair_req_codec: cbor_message pair_req_kvs encodePairReq decodePairReq "{4, 28}" pair_req_ok
proof (unfold_locales, goal_cases)
  case (2 m kvs' rest)
  then show ?case
    using decode_map_top [where h = decodePairReq_key and known = "{4, 28}" and m = "(PairReqMsg_new, False)"
        and m' = "(m, True)" and kvs = kvs' and rest = rest] pair_req_runs [of m] decodePairReq_skip
    by (auto simp: decodePairReq_def simp del: enc.simps)
qed (use pair_req_keys encodePairReq_image in auto)

section \<open>PAIR_GRANT\<close>

definition pair_grant_kvs :: "PairGrantMsg \<Rightarrow> (u64 \<times> cbor) list" where
  "pair_grant_kvs m = [(5, CBytes (pg_token m))] @ [(23, CUint (ucast (pg_roles m)))] @
    (case pg_trust m of None \<Rightarrow> [] | Some t \<Rightarrow> (if tm_any t then [(39, CMap (trust_kvs t))] else [])) @ []"

definition pair_grant_ok :: "PairGrantMsg \<Rightarrow> bool" where
  "pair_grant_ok m \<longleftrightarrow> length (pg_token m) = 16 \<and>
     (case pg_trust m of None \<Rightarrow> True | Some t \<Rightarrow> tm_any t \<and> trust_ok t)"

lemma encodePairGrant_image:
  "encodePairGrant m cap = (if length (enc (CMap (pair_grant_kvs m))) \<le> cap then enc (CMap (pair_grant_kvs m)) else [])"
  unfolding encodePairGrant_def pair_grant_kvs_def pg_hasTrust_def
  by (rule emits_seq_result, rule emits_map) (rule emit_intros | simp | simp split: option.splits)+

lemma pair_grant_runs:
  assumes "pair_grant_ok m"
  shows "runs 0 decodePairGrant_key (pair_grant_kvs m) (PairGrantMsg_new, False, False) (m, True, True)"
proof (cases m)
  case (fields tk ro tr)
  note opt = runs_optional [where x = tr and u = "\<lambda>f (m, g). (pg_trust_update f m, g)"]
  have ok: "length tk = 16" "\<And>t. tr = Some t \<Longrightarrow> trust_ok t" "\<And>t. tr = Some t \<Longrightarrow> tm_any t"
    using assms by (auto simp: pair_grant_ok_def fields)
  show ?thesis
    unfolding pair_grant_kvs_def fields PairGrantMsg.select_convs PairGrantMsg_new_def
    by (rule run_intros opt reads_trust | simp add: decodePairGrant_key_def ok)+
qed

lemma pair_grant_keys:
  "sorted_wrt (<) (map fst (pair_grant_kvs m))" "fst ` set (pair_grant_kvs m) \<subseteq> {5, 23, 39}"
  "length (pair_grant_kvs m) < 2 ^ 32"
  by (auto simp: pair_grant_kvs_def split: option.splits)

lemma decodePairGrant_skip: "k \<notin> {5, 23, 39} \<Longrightarrow> decodePairGrant_key k m = skip_unknown m"
  by (cases m) (auto simp: decodePairGrant_key_def)

interpretation pair_grant_codec: cbor_message pair_grant_kvs encodePairGrant decodePairGrant "{5, 23, 39}" pair_grant_ok
proof (unfold_locales, goal_cases)
  case (2 m kvs' rest)
  then show ?case
    using decode_map_top [where h = decodePairGrant_key and known = "{5, 23, 39}"
        and m = "(PairGrantMsg_new, False, False)" and m' = "(m, True, True)"
        and kvs = kvs' and rest = rest] pair_grant_runs [of m] decodePairGrant_skip
    by (auto simp: decodePairGrant_def simp del: enc.simps)
qed (use pair_grant_keys encodePairGrant_image in auto)

section \<open>Every accepted trust map is within its limits\<close>

lemma decodeTrustMap_key_ok:
  "decodeTrustMap_key k t r = Inr (t', r') \<Longrightarrow> trust_ok t \<Longrightarrow> trust_ok t'"
  by (auto simp: decodeTrustMap_key_def rbind_Inr_iff trust_ok_def kTrustPubkeyMaxBytes_def kTrustSigMaxBytes_def
      kTrustTokenProofBytes_def kTrustClientNonceBytes_def not_less dest!: skip_unknown_invariant split: if_splits)

lemma decodeTrustMap_ok: "decodeTrustMap t r = Inr (t', r') \<Longrightarrow> trust_ok t \<Longrightarrow> trust_ok t'"
  unfolding decodeTrustMap_def by (rule decode_map_invariant [where P = trust_ok]) (auto intro: decodeTrustMap_key_ok)

lemma trust_ok_new [simp]: "trust_ok TrustMap_new"
  by (simp add: trust_ok_def TrustMap_new_def)

lemma decodeTrustEnvelope_ok:
  assumes "decodeTrustEnvelope inp = Inr m"
  shows "trust_ok (te_trust_map m)"
proof -
  obtain g r where "decode_map decodeTrustEnvelope_key (\<lparr> te_trust_map = TrustMap_new \<rparr>, False) (CborReader_new inp) =
      Inr ((m, g), r)"
    using assms by (auto simp: decodeTrustEnvelope_def rbind_Inr_iff split: if_splits)
  then have "(\<lambda>(m, g). trust_ok (te_trust_map m)) (m, g)"
    by (rule decode_map_invariant)
      (auto simp: decodeTrustEnvelope_key_def rbind_Inr_iff dest!: skip_unknown_invariant decodeTrustMap_ok split: if_splits)
  then show ?thesis by simp
qed

definition pair_grant_sized :: "PairGrantMsg \<Rightarrow> bool" where
  "pair_grant_sized m \<longleftrightarrow> length (pg_token m) = 16 \<and> (case pg_trust m of None \<Rightarrow> True | Some t \<Rightarrow> trust_ok t)"

lemma decodePairGrant_sized:
  assumes "decodePairGrant inp = Inr m"
  shows "pair_grant_sized m"
proof -
  obtain g r where "decode_map decodePairGrant_key (PairGrantMsg_new, False, False) (CborReader_new inp) =
      Inr ((m, g), r)"
    using assms by (auto simp: decodePairGrant_def rbind_Inr_iff split: if_splits)
  then have "(\<lambda>(m, g). pair_grant_sized m) (m, g)"
    by (rule decode_map_invariant)
      (auto simp: decodePairGrant_key_def rbind_Inr_iff pair_grant_sized_def PairGrantMsg_new_def
        dest!: skip_unknown_invariant decodeTrustMap_ok split: if_splits option.splits)
  then show ?thesis by simp
qed

lemma decodePairReq_sized:
  assumes "decodePairReq inp = Inr m"
  shows "pair_req_ok m"
proof -
  obtain g r where "decode_map decodePairReq_key (PairReqMsg_new, False) (CborReader_new inp) = Inr ((m, g), r)"
    using assms by (auto simp: decodePairReq_def rbind_Inr_iff split: if_splits)
  then have "(\<lambda>(m, g). pair_req_ok m) (m, g)"
    by (rule decode_map_invariant)
      (auto simp: decodePairReq_key_def rbind_Inr_iff pair_req_ok_def PairReqMsg_new_def kPinProofBytes_def
        dest!: skip_unknown_invariant split: if_splits)
  then show ?thesis by simp
qed

section \<open>Properties\<close>

lemma hubSigMaterial_eq:
  "length n = 8 \<Longrightarrow> hubSigMaterial n s b = n @ u32_bytes s @ u32_bytes b"
proof -
  assume n: "length n = 8"
  have upt: "[0..<16] = [0, 1, 2, 3, 4, 5, 6, 7, 8, 9, 10, 11, 12, 13, 14, 15::nat]" by (simp add: upt_rec)
  obtain a0 a1 a2 a3 a4 a5 a6 a7 where "n = [a0, a1, a2, a3, a4, a5, a6, a7]"
    using n by (auto simp: length_Suc_conv numeral_eq_Suc)
  then show ?thesis
    by (simp add: hubSigMaterial_def kHubSigMaterialBytes_def kTrustClientNonceBytes_def upt u32_bytes_def)
qed

text \<open>
  The pairing and authentication messages survive the wire: an AUTH or HUB_SIG envelope, a
  PAIR_REQ and a PAIR_GRANT within the size limits are written completely or, if the output span is
  too small, not at all, and what is written decodes to the message, whatever follows it.
\<close>

theorem pairing_messages_roundtrip:
  assumes "envelope_ok a" and "pair_req_ok q" and "pair_grant_ok g"
  shows "(if length (enc (CMap (envelope_kvs a))) \<le> cap
          then encodeAuth a cap \<noteq> [] \<and> decodeAuth (encodeAuth a cap @ rest) = Inr a \<and>
               decodeHubSig (encodeHubSig a cap @ rest) = Inr a
          else encodeAuth a cap = [] \<and> encodeHubSig a cap = []) \<and>
         (if length (enc (CMap (pair_req_kvs q))) \<le> cap
          then encodePairReq q cap \<noteq> [] \<and> decodePairReq (encodePairReq q cap @ rest) = Inr q
          else encodePairReq q cap = []) \<and>
         (if length (enc (CMap (pair_grant_kvs g))) \<le> cap
          then encodePairGrant g cap \<noteq> [] \<and> decodePairGrant (encodePairGrant g cap @ rest) = Inr g
          else encodePairGrant g cap = [])"
  using envelope_codec.roundtrip [OF assms(1), of cap rest] pair_req_codec.roundtrip [OF assms(2), of cap rest]
    pair_grant_codec.roundtrip [OF assms(3), of cap rest]
  by (simp add: encodeAuth_def decodeAuth_def encodeHubSig_def decodeHubSig_def split: if_splits)

theorem pairing_messages_roundtrip_witness:
  "decodeAuth (encodeAuth \<lparr> te_trust_map = TrustMap_new \<lparr> tm_token_proof := Some (replicate 16 7) \<rparr> \<rparr> 64) =
     Inr \<lparr> te_trust_map = TrustMap_new \<lparr> tm_token_proof := Some (replicate 16 7) \<rparr> \<rparr>"
proof -
  let ?a = "\<lparr> te_trust_map = TrustMap_new \<lparr> tm_token_proof := Some (replicate 16 7) \<rparr> \<rparr>"
  have "envelope_ok ?a" by (simp add: envelope_ok_def tm_any_def trust_ok_def TrustMap_new_def)
  moreover have "pair_req_ok PairReqMsg_new" "pair_grant_ok PairGrantMsg_new"
    by (simp_all add: pair_req_ok_def PairReqMsg_new_def pair_grant_ok_def PairGrantMsg_new_def)
  moreover have "length (enc (CMap (envelope_kvs ?a))) \<le> 64" by code_simp
  ultimately show ?thesis
    using pairing_messages_roundtrip [of ?a PairReqMsg_new PairGrantMsg_new 64 "[]"] by simp
qed

text \<open>
  No length field is trusted: whatever bytes arrive, a trust envelope, pairing request or
  pairing grant that a decoder accepts has every array at its declared size (nonce 8, proofs 16,
  token 16, instance id 8 bytes) and every bounded field within its bound (version 24, public key
  1 to 33, signature 1 to 72 bytes).
\<close>

theorem trust_decoders_bounded:
  "(case decodeTrustEnvelope inp of Inl e \<Rightarrow> True | Inr m \<Rightarrow> trust_ok (te_trust_map m)) \<and>
   (case decodePairReq inp of Inl e \<Rightarrow> True | Inr m \<Rightarrow> pair_req_ok m) \<and>
   (case decodePairGrant inp of Inl e \<Rightarrow> True | Inr m \<Rightarrow> pair_grant_sized m)"
  by (auto split: sum.splits intro: decodeTrustEnvelope_ok decodePairReq_sized decodePairGrant_sized)

text \<open>
  The material a hub signs binds all of its inputs: two handshakes with the same 16 bytes have
  the same client nonce, the same session and the same boot.
\<close>

theorem hubSigMaterial_binds:
  assumes "length n = kTrustClientNonceBytes" and "length n' = kTrustClientNonceBytes"
  shows "length (hubSigMaterial n s b) = kHubSigMaterialBytes \<and>
    (hubSigMaterial n s b = hubSigMaterial n' s' b' \<longleftrightarrow> n = n' \<and> s = s' \<and> b = b')"
proof -
  have "u32_bytes x = u32_bytes y \<longleftrightarrow> x = y" for x y
    by (metis getU32_u32_bytes_end)
  then show ?thesis
    using assms by (simp add: hubSigMaterial_eq kTrustClientNonceBytes_def kHubSigMaterialBytes_def)
qed

theorem hubSigMaterial_binds_witness:
  "hubSigMaterial (replicate 8 1) 5 9 \<noteq> hubSigMaterial (replicate 8 1) 6 9"
  using hubSigMaterial_binds [of "replicate 8 1" "replicate 8 1" 5 9 6 9] by (simp add: kTrustClientNonceBytes_def)

end
