(* ===== verification/Msg_Wishes.thy ===== *)
theory Msg_Wishes
  imports Msg_Trust
begin

text \<open>
  What a client asks for: HELLO, SUBSCRIBE, UNSUBSCRIBE and PUBLISH, from \<^verbatim>\<open>wire/messages/hello.hpp\<close>,
  \<^verbatim>\<open>wire/messages/subscribe.hpp\<close> and \<^verbatim>\<open>wire/messages/publish.hpp\<close>.  Subscription and publish wishes are
  the same records in all of them and are written and read by the same loops.  Rates and bursts are
  binary32 bit patterns.
\<close>

section \<open>Definitions: wishes\<close>

abbreviation (input) kProtocolVersion :: u8 where "kProtocolVersion \<equiv> 1"
abbreviation (input) etag_bytes :: nat where "etag_bytes \<equiv> 8"

definition kHelloMaxSubscriptionWishes :: nat where "kHelloMaxSubscriptionWishes = 16"
definition kHelloMaxPublishWishes :: nat where "kHelloMaxPublishWishes = 8"
definition kHelloMaxClientKindBytes :: nat where "kHelloMaxClientKindBytes = 16"
definition kHelloMaxClientNameBytes :: nat where "kHelloMaxClientNameBytes = 32"

record SubscriptionWish =
  sw_channel_id :: u16
  sw_rate_hz :: u32
  sw_priority :: u8

definition SubscriptionWish_new :: SubscriptionWish where
  "SubscriptionWish_new = \<lparr> sw_channel_id = 0, sw_rate_hz = 0, sw_priority = 0 \<rparr>"

record PublishWish =
  pw_channel_id :: u16
  pw_rate_hz :: u32
  pw_burst :: "u32 option"
  pw_curve_family :: "u8 option"

definition PublishWish_new :: PublishWish where
  "PublishWish_new = \<lparr> pw_channel_id = 0, pw_rate_hz = 0, pw_burst = None, pw_curve_family = None \<rparr>"

definition encodeSubscriptionWish :: "SubscriptionWish \<Rightarrow> CborWriter \<Rightarrow> CborWriter" where
  "encodeSubscriptionWish s = w_seq
     [mapHeader 3,
      w_kv CK_rate_hz (f32Val (sw_rate_hz s)),
      w_kv CK_priority (uintVal (ucast (sw_priority s))),
      w_kv CK_channel_id (uintVal (ucast (sw_channel_id s)))]"

definition encodePublishWish :: "PublishWish \<Rightarrow> CborWriter \<Rightarrow> CborWriter" where
  "encodePublishWish p = w_seq
     [mapHeader (2 + present (pw_burst p) + present (pw_curve_family p)),
      w_kv CK_rate_hz (f32Val (pw_rate_hz p)),
      w_kv CK_channel_id (uintVal (ucast (pw_channel_id p))),
      w_opt (pw_burst p) (\<lambda>v. w_kv CK_burst (f32Val v)),
      w_opt (pw_curve_family p) (\<lambda>v. w_kv CK_curve_family (uintVal (ucast v)))]"

definition decodeSubscriptionWish_key :: "SubscriptionWish handler" where
  "decodeSubscriptionWish_key k = (\<lambda>wish r.
    if k = CK_channel_id then
      rbind (readUint r) (\<lambda>(v, r). Inr (wish \<lparr> sw_channel_id := ucast v \<rparr>, r))
    else if k = CK_rate_hz then
      rbind (readF32 r) (\<lambda>(v, r). Inr (wish \<lparr> sw_rate_hz := v \<rparr>, r))
    else if k = CK_priority then
      rbind (readUint r) (\<lambda>(v, r). Inr (wish \<lparr> sw_priority := ucast v \<rparr>, r))
    else skip_unknown wish r)"

definition decodeSubscriptionWish :: "CborReader \<Rightarrow> (SubscriptionWish \<times> CborReader) result" where
  "decodeSubscriptionWish r = decode_map decodeSubscriptionWish_key SubscriptionWish_new r"

definition decodePublishWish_key :: "PublishWish handler" where
  "decodePublishWish_key k = (\<lambda>wish r.
    if k = CK_channel_id then
      rbind (readUint r) (\<lambda>(v, r). Inr (wish \<lparr> pw_channel_id := ucast v \<rparr>, r))
    else if k = CK_rate_hz then
      rbind (readF32 r) (\<lambda>(v, r). Inr (wish \<lparr> pw_rate_hz := v \<rparr>, r))
    else if k = CK_burst then
      rbind (readF32 r) (\<lambda>(v, r). Inr (wish \<lparr> pw_burst := Some v \<rparr>, r))
    else if k = CK_curve_family then
      rbind (readUint r) (\<lambda>(v, r).
        if v > 0xFF then Inl Malformed else Inr (wish \<lparr> pw_curve_family := Some (ucast v) \<rparr>, r))
    else skip_unknown wish r)"

definition decodePublishWish :: "CborReader \<Rightarrow> (PublishWish \<times> CborReader) result" where
  "decodePublishWish r = decode_map decodePublishWish_key PublishWish_new r"

section \<open>Definitions: HELLO\<close>

record HelloMsg =
  hl_proto_ver :: u8
  hl_client_kind :: bytes
  hl_client_name :: bytes
  hl_instance_id :: bytes
  hl_token :: "bytes option"
  hl_catalog_etag :: "bytes option"
  hl_subscriptions :: "SubscriptionWish list"
  hl_publishes :: "PublishWish list"
  hl_trust :: "TrustMap option"
  hl_deadman_wish_ms :: u32

definition HelloMsg_new :: HelloMsg where
  "HelloMsg_new = \<lparr> hl_proto_ver = kProtocolVersion, hl_client_kind = [], hl_client_name = [],
     hl_instance_id = replicate instance_id_bytes 0, hl_token = None, hl_catalog_etag = None,
     hl_subscriptions = [], hl_publishes = [], hl_trust = None, hl_deadman_wish_ms = 0 \<rparr>"

definition encodeHello :: "HelloMsg \<Rightarrow> nat \<Rightarrow> bytes" where
  "encodeHello m cap =
    (if length (hl_client_kind m) > kHelloMaxClientKindBytes \<or>
        length (hl_client_name m) > kHelloMaxClientNameBytes \<or>
        length (hl_subscriptions m) > kHelloMaxSubscriptionWishes \<or>
        length (hl_publishes m) > kHelloMaxPublishWishes then []
     else
       let hasTrust = (case hl_trust m of None \<Rightarrow> False | Some t \<Rightarrow> tm_any t);
           nKeys = 4 + present (hl_token m) + present (hl_catalog_etag m) +
             (if hl_subscriptions m \<noteq> [] then 1 else 0) + (if hl_publishes m \<noteq> [] then 1 else 0) +
             (if hasTrust then 1 else 0) + (if hl_deadman_wish_ms m > 0 then 1 else 0) in
       w_result (w_seq
         [mapHeader nKeys,
          w_kv CK_proto_ver (uintVal (ucast (hl_proto_ver m))),
          w_kv CK_client_kind (tstrVal (hl_client_kind m)),
          w_kv CK_client_name (tstrVal (hl_client_name m)),
          w_kv CK_instance_id (bstrVal (hl_instance_id m)),
          w_opt (hl_token m) (\<lambda>v. w_kv CK_token (bstrVal v)),
          w_opt (hl_catalog_etag m) (\<lambda>v. w_kv CK_catalog_etag (bstrVal v)),
          w_when (hl_subscriptions m \<noteq> [])
            (w_kv CK_subscriptions (w_list encodeSubscriptionWish (hl_subscriptions m))),
          w_when (hl_publishes m \<noteq> [])
            (w_kv CK_publishes (w_list encodePublishWish (hl_publishes m))),
          w_opt (hl_trust m) (\<lambda>t. w_when (tm_any t) (encodeTrustMap t)),
          w_when (hl_deadman_wish_ms m > 0)
            (w_kv CK_deadman_wish_ms (uintVal (ucast (hl_deadman_wish_ms m))))]
         (CborWriter_new cap)))"

text \<open>The state is the message with \<open>gotProtoVer\<close>, \<open>gotKind\<close>, \<open>gotName\<close> and \<open>gotInstance\<close>.\<close>

definition decodeHello_key :: "(HelloMsg \<times> bool \<times> bool \<times> bool \<times> bool) handler" where
  "decodeHello_key k = (\<lambda>(m, gV, gK, gN, gI) r.
    if k = CK_proto_ver then
      rbind (readUint r) (\<lambda>(v, r).
        if v > 0xFF then Inl Malformed else Inr ((m \<lparr> hl_proto_ver := ucast v \<rparr>, True, gK, gN, gI), r))
    else if k = CK_client_kind then
      rbind (readTstr r) (\<lambda>(v, r).
        if length v > kHelloMaxClientKindBytes then Inl CapacityExceeded
        else Inr ((m \<lparr> hl_client_kind := v \<rparr>, gV, True, gN, gI), r))
    else if k = CK_client_name then
      rbind (readTstr r) (\<lambda>(v, r).
        if length v > kHelloMaxClientNameBytes then Inl CapacityExceeded
        else Inr ((m \<lparr> hl_client_name := v \<rparr>, gV, gK, True, gI), r))
    else if k = CK_instance_id then
      rbind (readBstr r) (\<lambda>(v, r).
        if length v \<noteq> instance_id_bytes then Inl Malformed
        else Inr ((m \<lparr> hl_instance_id := v \<rparr>, gV, gK, gN, True), r))
    else if k = CK_token then
      rbind (readBstr r) (\<lambda>(v, r).
        if length v \<noteq> token_bytes then Inl Malformed
        else Inr ((m \<lparr> hl_token := Some v \<rparr>, gV, gK, gN, gI), r))
    else if k = CK_catalog_etag then
      rbind (readBstr r) (\<lambda>(v, r).
        if length v \<noteq> etag_bytes then Inl Malformed
        else Inr ((m \<lparr> hl_catalog_etag := Some v \<rparr>, gV, gK, gN, gI), r))
    else if k = CK_subscriptions then
      rbind (decode_list kHelloMaxSubscriptionWishes decodeSubscriptionWish r) (\<lambda>(v, r).
        Inr ((m \<lparr> hl_subscriptions := v \<rparr>, gV, gK, gN, gI), r))
    else if k = CK_publishes then
      rbind (decode_list kHelloMaxPublishWishes decodePublishWish r) (\<lambda>(v, r).
        Inr ((m \<lparr> hl_publishes := v \<rparr>, gV, gK, gN, gI), r))
    else if k = CK_trust then
      rbind (decodeTrustMap (case hl_trust m of None \<Rightarrow> TrustMap_new | Some t \<Rightarrow> t) r) (\<lambda>(t, r).
        Inr ((m \<lparr> hl_trust := Some t \<rparr>, gV, gK, gN, gI), r))
    else if k = CK_deadman_wish_ms then
      rbind (readUint r) (\<lambda>(v, r).
        if v > 0xFFFFFFFF then Inl Malformed
        else Inr ((m \<lparr> hl_deadman_wish_ms := ucast v \<rparr>, gV, gK, gN, gI), r))
    else skip_unknown (m, gV, gK, gN, gI) r)"

definition decodeHello :: "bytes \<Rightarrow> HelloMsg result" where
  "decodeHello inp =
    rbind (decode_map decodeHello_key (HelloMsg_new, False, False, False, False) (CborReader_new inp))
      (\<lambda>((m, gV, gK, gN, gI), _). if \<not> (gV \<and> gK \<and> gN \<and> gI) then Inl Malformed else Inr m)"

section \<open>Definitions: SUBSCRIBE, UNSUBSCRIBE and PUBLISH\<close>

definition kSubscribeMaxWishes :: nat where "kSubscribeMaxWishes = 16"
definition kUnsubscribeMaxChannels :: nat where "kUnsubscribeMaxChannels = 16"
definition kPublishMaxWishes :: nat where "kPublishMaxWishes = kHelloMaxPublishWishes"

record SubscribeMsg =
  sb_subscriptions :: "SubscriptionWish list"

record UnsubscribeMsg =
  us_channel_ids :: "u16 list"

record PublishMsg =
  pb_publishes :: "PublishWish list"

definition encodeSubscribe :: "SubscribeMsg \<Rightarrow> nat \<Rightarrow> bytes" where
  "encodeSubscribe m cap =
    (if length (sb_subscriptions m) > kSubscribeMaxWishes then []
     else w_result (w_seq
       [mapHeader 1, w_kv CK_subscriptions (w_list encodeSubscriptionWish (sb_subscriptions m))]
       (CborWriter_new cap)))"

definition decodeSubscribe_key :: "(SubscribeMsg \<times> bool) handler" where
  "decodeSubscribe_key k = (\<lambda>(m, gotSubscriptions) r.
    if k = CK_subscriptions then
      rbind (decode_list kSubscribeMaxWishes decodeSubscriptionWish r) (\<lambda>(v, r).
        Inr ((m \<lparr> sb_subscriptions := v \<rparr>, True), r))
    else skip_unknown (m, gotSubscriptions) r)"

definition decodeSubscribe :: "bytes \<Rightarrow> SubscribeMsg result" where
  "decodeSubscribe inp =
    rbind (decode_map decodeSubscribe_key (\<lparr> sb_subscriptions = [] \<rparr>, False) (CborReader_new inp))
      (\<lambda>((m, gotSubscriptions), _). if \<not> gotSubscriptions then Inl Malformed else Inr m)"

definition encodeUnsubscribe :: "UnsubscribeMsg \<Rightarrow> nat \<Rightarrow> bytes" where
  "encodeUnsubscribe m cap =
    (if length (us_channel_ids m) > kUnsubscribeMaxChannels then []
     else w_result (w_seq
       [mapHeader 1, w_kv CK_subscriptions (w_list (\<lambda>c. uintVal (ucast c)) (us_channel_ids m))]
       (CborWriter_new cap)))"

definition decodeUnsubscribe_key :: "(UnsubscribeMsg \<times> bool) handler" where
  "decodeUnsubscribe_key k = (\<lambda>(m, gotChannels) r.
    if k = CK_subscriptions then
      rbind (decode_list kUnsubscribeMaxChannels (\<lambda>r. rbind (readUint r) (\<lambda>(v, r). Inr (ucast v, r))) r) (\<lambda>(v, r).
        Inr ((m \<lparr> us_channel_ids := v \<rparr>, True), r))
    else skip_unknown (m, gotChannels) r)"

definition decodeUnsubscribe :: "bytes \<Rightarrow> UnsubscribeMsg result" where
  "decodeUnsubscribe inp =
    rbind (decode_map decodeUnsubscribe_key (\<lparr> us_channel_ids = [] \<rparr>, False) (CborReader_new inp))
      (\<lambda>((m, gotChannels), _). if \<not> gotChannels then Inl Malformed else Inr m)"

definition encodePublish :: "PublishMsg \<Rightarrow> nat \<Rightarrow> bytes" where
  "encodePublish m cap =
    (if length (pb_publishes m) > kPublishMaxWishes then []
     else w_result (w_seq
       [mapHeader 1, w_kv CK_publishes (w_list encodePublishWish (pb_publishes m))]
       (CborWriter_new cap)))"

definition decodePublish_key :: "(PublishMsg \<times> bool) handler" where
  "decodePublish_key k = (\<lambda>(m, gotPublishes) r.
    if k = CK_publishes then
      rbind (decode_list kPublishMaxWishes decodePublishWish r) (\<lambda>(v, r).
        Inr ((m \<lparr> pb_publishes := v \<rparr>, True), r))
    else skip_unknown (m, gotPublishes) r)"

definition decodePublish :: "bytes \<Rightarrow> PublishMsg result" where
  "decodePublish inp =
    rbind (decode_map decodePublish_key (\<lparr> pb_publishes = [] \<rparr>, False) (CborReader_new inp))
      (\<lambda>((m, gotPublishes), _). if \<not> gotPublishes then Inl Malformed else Inr m)"

section \<open>Wishes on the wire\<close>

definition sub_wish_kvs :: "SubscriptionWish \<Rightarrow> (u64 \<times> cbor) list" where
  "sub_wish_kvs s = [(12, CFloat (sw_rate_hz s))] @ [(13, CUint (ucast (sw_priority s)))] @
     [(15, CUint (ucast (sw_channel_id s)))] @ []"

definition pub_wish_kvs :: "PublishWish \<Rightarrow> (u64 \<times> cbor) list" where
  "pub_wish_kvs p = [(12, CFloat (pw_rate_hz p))] @ [(15, CUint (ucast (pw_channel_id p)))] @
     (case pw_burst p of None \<Rightarrow> [] | Some v \<Rightarrow> [(42, CFloat v)]) @
     (case pw_curve_family p of None \<Rightarrow> [] | Some v \<Rightarrow> [(45, CUint (ucast v))]) @ []"

lemma emits_sub_wish [emit_intros]: "d < 4 \<Longrightarrow> emits d (encodeSubscriptionWish s) (CMap (sub_wish_kvs s))"
  unfolding encodeSubscriptionWish_def sub_wish_kvs_def
  by (rule emits_map) (rule emit_intros | simp)+

lemma emits_pub_wish [emit_intros]: "d < 4 \<Longrightarrow> emits d (encodePublishWish p) (CMap (pub_wish_kvs p))"
  unfolding encodePublishWish_def pub_wish_kvs_def
  by (rule emits_map) (rule emit_intros | simp | simp split: option.splits)+

lemma reads_sub_wish: "d < 4 \<Longrightarrow> reads d decodeSubscriptionWish (CMap (sub_wish_kvs s)) s"
proof -
  assume d: "d < 4"
  have "runs d decodeSubscriptionWish_key (sub_wish_kvs s) SubscriptionWish_new s"
    by (cases s, unfold sub_wish_kvs_def SubscriptionWish_new_def)
      (rule run_intros | simp add: decodeSubscriptionWish_key_def)+
  then show ?thesis
    unfolding decodeSubscriptionWish_def [abs_def] using d
    by (intro reads_decode_map) (auto simp: sub_wish_kvs_def)
qed

lemma reads_pub_wish: "d < 4 \<Longrightarrow> reads d decodePublishWish (CMap (pub_wish_kvs p)) p"
proof -
  assume d: "d < 4"
  have "runs d decodePublishWish_key (pub_wish_kvs p) PublishWish_new p"
  proof (cases p)
    case (fields ch ra bu cf)
    note opt = runs_optional [where x = bu and u = pw_burst_update]
      runs_optional [where x = cf and u = pw_curve_family_update]
    show ?thesis
      unfolding pub_wish_kvs_def PublishWish_new_def fields PublishWish.select_convs
      by (rule run_intros opt | simp add: decodePublishWish_key_def)+
  qed
  then show ?thesis
    unfolding decodePublishWish_def [abs_def] using d
    by (intro reads_decode_map) (auto simp: pub_wish_kvs_def split: option.splits)
qed

lemma reads_sub_wishes:
  "length ss \<le> cap \<Longrightarrow> cap < 2 ^ 32 \<Longrightarrow> d < 3 \<Longrightarrow>
   reads d (decode_list cap decodeSubscriptionWish) (CArray (map (CMap \<circ> sub_wish_kvs) ss)) ss"
  by (rule reads_decode_list) (simp_all add: reads_sub_wish)

lemma reads_pub_wishes:
  "length ps \<le> cap \<Longrightarrow> cap < 2 ^ 32 \<Longrightarrow> d < 3 \<Longrightarrow>
   reads d (decode_list cap decodePublishWish) (CArray (map (CMap \<circ> pub_wish_kvs) ps)) ps"
  by (rule reads_decode_list) (simp_all add: reads_pub_wish)

lemma reads_channel_ids:
  "length cs \<le> cap \<Longrightarrow> cap < 2 ^ 32 \<Longrightarrow> d < 4 \<Longrightarrow>
   reads d (decode_list cap (\<lambda>r. rbind (readUint r) (\<lambda>(v, r). Inr (ucast v, r))))
     (CArray (map (CUint \<circ> ucast) cs)) (cs :: u16 list)"
  by (rule reads_decode_list) (simp_all, (rule reads_bind reads_uint | simp)+)

lemma emits_sub_wishes [emit_intros]:
  "length ss < 2 ^ 32 \<Longrightarrow> d < 3 \<Longrightarrow>
   emits d (w_list encodeSubscriptionWish ss) (CArray (map (CMap \<circ> sub_wish_kvs) ss))"
  by (rule emits_list) (simp_all add: emits_sub_wish)

lemma emits_pub_wishes [emit_intros]:
  "length ps < 2 ^ 32 \<Longrightarrow> d < 3 \<Longrightarrow>
   emits d (w_list encodePublishWish ps) (CArray (map (CMap \<circ> pub_wish_kvs) ps))"
  by (rule emits_list) (simp_all add: emits_pub_wish)

lemma emits_channel_ids [emit_intros]:
  "length cs < 2 ^ 32 \<Longrightarrow> d < 4 \<Longrightarrow>
   emits d (w_list (\<lambda>c :: u16. uintVal (ucast c)) cs) (CArray (map (CUint \<circ> ucast) cs))"
  by (rule emits_list) (simp_all add: emits_uint)

section \<open>SUBSCRIBE\<close>

definition subscribe_kvs :: "SubscribeMsg \<Rightarrow> (u64 \<times> cbor) list" where
  "subscribe_kvs m = [(10, CArray (map (CMap \<circ> sub_wish_kvs) (sb_subscriptions m)))] @ []"

definition subscribe_ok :: "SubscribeMsg \<Rightarrow> bool" where
  "subscribe_ok m \<longleftrightarrow> length (sb_subscriptions m) \<le> 16"

lemma encodeSubscribe_image:
  assumes "subscribe_ok m"
  shows "encodeSubscribe m cap =
    (if length (enc (CMap (subscribe_kvs m))) \<le> cap then enc (CMap (subscribe_kvs m)) else [])"
proof -
  have ok: "length (sb_subscriptions m) \<le> 16" using assms by (simp add: subscribe_ok_def)
  then have guard: "\<not> length (sb_subscriptions m) > kSubscribeMaxWishes" by (simp add: kSubscribeMaxWishes_def)
  show ?thesis
    unfolding encodeSubscribe_def if_not_P [OF guard] subscribe_kvs_def
    by (rule emits_seq_result, rule emits_map) (rule emit_intros | simp | use ok in simp)+
qed

lemma subscribe_runs:
  assumes "subscribe_ok m"
  shows "runs 0 decodeSubscribe_key (subscribe_kvs m) (\<lparr> sb_subscriptions = [] \<rparr>, False) (m, True)"
proof (cases m)
  case (fields xs)
  have ok: "length xs \<le> 16" using assms by (simp add: subscribe_ok_def fields)
  show ?thesis
    unfolding subscribe_kvs_def fields SubscribeMsg.select_convs
    by (rule run_intros reads_sub_wishes | simp add: decodeSubscribe_key_def kSubscribeMaxWishes_def ok)+
qed

lemma decodeSubscribe_skip: "k \<notin> {10} \<Longrightarrow> decodeSubscribe_key k m = skip_unknown m"
  by (cases m) (auto simp: decodeSubscribe_key_def)

interpretation subscribe_codec: cbor_message subscribe_kvs encodeSubscribe decodeSubscribe "{10}" subscribe_ok
proof (unfold_locales, goal_cases)
  case (2 m kvs' rest)
  then show ?case
    using decode_map_top [where h = decodeSubscribe_key and known = "{10}" and m = "(\<lparr> sb_subscriptions = [] \<rparr>, False)"
        and m' = "(m, True)" and kvs = kvs' and rest = rest] subscribe_runs [of m] decodeSubscribe_skip
    by (auto simp: decodeSubscribe_def simp del: enc.simps)
qed (use encodeSubscribe_image in \<open>auto simp: subscribe_kvs_def\<close>)

section \<open>UNSUBSCRIBE\<close>

definition unsubscribe_kvs :: "UnsubscribeMsg \<Rightarrow> (u64 \<times> cbor) list" where
  "unsubscribe_kvs m = [(10, CArray (map (CUint \<circ> ucast) (us_channel_ids m)))] @ []"

definition unsubscribe_ok :: "UnsubscribeMsg \<Rightarrow> bool" where
  "unsubscribe_ok m \<longleftrightarrow> length (us_channel_ids m) \<le> 16"

lemma encodeUnsubscribe_image:
  assumes "unsubscribe_ok m"
  shows "encodeUnsubscribe m cap =
    (if length (enc (CMap (unsubscribe_kvs m))) \<le> cap then enc (CMap (unsubscribe_kvs m)) else [])"
proof -
  have ok: "length (us_channel_ids m) \<le> 16" using assms by (simp add: unsubscribe_ok_def)
  then have guard: "\<not> length (us_channel_ids m) > kUnsubscribeMaxChannels" by (simp add: kUnsubscribeMaxChannels_def)
  show ?thesis
    unfolding encodeUnsubscribe_def if_not_P [OF guard] unsubscribe_kvs_def
    by (rule emits_seq_result, rule emits_map) (rule emit_intros | simp | use ok in simp)+
qed

lemma unsubscribe_runs:
  assumes "unsubscribe_ok m"
  shows "runs 0 decodeUnsubscribe_key (unsubscribe_kvs m) (\<lparr> us_channel_ids = [] \<rparr>, False) (m, True)"
proof (cases m)
  case (fields xs)
  have ok: "length xs \<le> 16" using assms by (simp add: unsubscribe_ok_def fields)
  show ?thesis
    unfolding unsubscribe_kvs_def fields UnsubscribeMsg.select_convs
    by (rule run_intros reads_channel_ids | simp add: decodeUnsubscribe_key_def kUnsubscribeMaxChannels_def ok)+
qed

lemma decodeUnsubscribe_skip: "k \<notin> {10} \<Longrightarrow> decodeUnsubscribe_key k m = skip_unknown m"
  by (cases m) (auto simp: decodeUnsubscribe_key_def)

interpretation unsubscribe_codec: cbor_message unsubscribe_kvs encodeUnsubscribe decodeUnsubscribe "{10}" unsubscribe_ok
proof (unfold_locales, goal_cases)
  case (2 m kvs' rest)
  then show ?case
    using decode_map_top [where h = decodeUnsubscribe_key and known = "{10}" and m = "(\<lparr> us_channel_ids = [] \<rparr>, False)"
        and m' = "(m, True)" and kvs = kvs' and rest = rest] unsubscribe_runs [of m] decodeUnsubscribe_skip
    by (auto simp: decodeUnsubscribe_def simp del: enc.simps)
qed (use encodeUnsubscribe_image in \<open>auto simp: unsubscribe_kvs_def\<close>)

section \<open>PUBLISH\<close>

definition publish_kvs :: "PublishMsg \<Rightarrow> (u64 \<times> cbor) list" where
  "publish_kvs m = [(11, CArray (map (CMap \<circ> pub_wish_kvs) (pb_publishes m)))] @ []"

definition publish_ok :: "PublishMsg \<Rightarrow> bool" where
  "publish_ok m \<longleftrightarrow> length (pb_publishes m) \<le> 8"

lemma encodePublish_image:
  assumes "publish_ok m"
  shows "encodePublish m cap =
    (if length (enc (CMap (publish_kvs m))) \<le> cap then enc (CMap (publish_kvs m)) else [])"
proof -
  have ok: "length (pb_publishes m) \<le> 8" using assms by (simp add: publish_ok_def)
  then have guard: "\<not> length (pb_publishes m) > kPublishMaxWishes" by (simp add: kPublishMaxWishes_def kHelloMaxPublishWishes_def)
  show ?thesis
    unfolding encodePublish_def if_not_P [OF guard] publish_kvs_def
    by (rule emits_seq_result, rule emits_map) (rule emit_intros | simp | use ok in simp)+
qed

lemma publish_runs:
  assumes "publish_ok m"
  shows "runs 0 decodePublish_key (publish_kvs m) (\<lparr> pb_publishes = [] \<rparr>, False) (m, True)"
proof (cases m)
  case (fields xs)
  have ok: "length xs \<le> 8" using assms by (simp add: publish_ok_def fields)
  show ?thesis
    unfolding publish_kvs_def fields PublishMsg.select_convs
    by (rule run_intros reads_pub_wishes | simp add: decodePublish_key_def kPublishMaxWishes_def kHelloMaxPublishWishes_def ok)+
qed

lemma decodePublish_skip: "k \<notin> {11} \<Longrightarrow> decodePublish_key k m = skip_unknown m"
  by (cases m) (auto simp: decodePublish_key_def)

interpretation publish_codec: cbor_message publish_kvs encodePublish decodePublish "{11}" publish_ok
proof (unfold_locales, goal_cases)
  case (2 m kvs' rest)
  then show ?case
    using decode_map_top [where h = decodePublish_key and known = "{11}" and m = "(\<lparr> pb_publishes = [] \<rparr>, False)"
        and m' = "(m, True)" and kvs = kvs' and rest = rest] publish_runs [of m] decodePublish_skip
    by (auto simp: decodePublish_def simp del: enc.simps)
qed (use encodePublish_image in \<open>auto simp: publish_kvs_def\<close>)

section \<open>HELLO\<close>

definition hello_kvs :: "HelloMsg \<Rightarrow> (u64 \<times> cbor) list" where
  "hello_kvs m = [(1, CUint (ucast (hl_proto_ver m)))] @ [(2, CText (hl_client_kind m))] @
    [(3, CText (hl_client_name m))] @ [(4, CBytes (hl_instance_id m))] @
    (case hl_token m of None \<Rightarrow> [] | Some v \<Rightarrow> [(5, CBytes v)]) @
    (case hl_catalog_etag m of None \<Rightarrow> [] | Some v \<Rightarrow> [(8, CBytes v)]) @
    (if hl_subscriptions m \<noteq> [] then [(10, CArray (map (CMap \<circ> sub_wish_kvs) (hl_subscriptions m)))] else []) @
    (if hl_publishes m \<noteq> [] then [(11, CArray (map (CMap \<circ> pub_wish_kvs) (hl_publishes m)))] else []) @
    (case hl_trust m of None \<Rightarrow> [] | Some t \<Rightarrow> (if tm_any t then [(39, CMap (trust_kvs t))] else [])) @
    (if hl_deadman_wish_ms m > 0 then [(44, CUint (ucast (hl_deadman_wish_ms m)))] else []) @ []"

definition hello_ok :: "HelloMsg \<Rightarrow> bool" where
  "hello_ok m \<longleftrightarrow> length (hl_client_kind m) \<le> 16 \<and> length (hl_client_name m) \<le> 32 \<and>
     length (hl_instance_id m) = 8 \<and> length (hl_subscriptions m) \<le> 16 \<and> length (hl_publishes m) \<le> 8 \<and>
     (case hl_token m of None \<Rightarrow> True | Some v \<Rightarrow> length v = 16) \<and>
     (case hl_catalog_etag m of None \<Rightarrow> True | Some v \<Rightarrow> length v = 8) \<and>
     (case hl_trust m of None \<Rightarrow> True | Some t \<Rightarrow> tm_any t \<and> trust_ok t)"

lemmas hello_limits = kHelloMaxClientKindBytes_def kHelloMaxClientNameBytes_def
  kHelloMaxSubscriptionWishes_def kHelloMaxPublishWishes_def

lemma encodeHello_image:
  assumes "hello_ok m"
  shows "encodeHello m cap = (if length (enc (CMap (hello_kvs m))) \<le> cap then enc (CMap (hello_kvs m)) else [])"
proof -
  have ok: "length (hl_subscriptions m) \<le> 16" "length (hl_publishes m) \<le> 8" using assms by (simp_all add: hello_ok_def)
  have guard: "\<not> (length (hl_client_kind m) > kHelloMaxClientKindBytes \<or>
        length (hl_client_name m) > kHelloMaxClientNameBytes \<or>
        length (hl_subscriptions m) > kHelloMaxSubscriptionWishes \<or>
        length (hl_publishes m) > kHelloMaxPublishWishes)"
    using assms by (auto simp: hello_ok_def hello_limits)
  have n: "4 + present (hl_token m) + present (hl_catalog_etag m) +
      (if hl_subscriptions m \<noteq> [] then 1 else 0) + (if hl_publishes m \<noteq> [] then 1 else 0) +
      (if (case hl_trust m of None \<Rightarrow> False | Some t \<Rightarrow> tm_any t) then 1 else 0) +
      (if hl_deadman_wish_ms m > 0 then 1 else 0) = (word_of_nat (length (hello_kvs m)) :: u32)"
    by (simp add: hello_kvs_def present_def split: option.split)
  show ?thesis
    unfolding encodeHello_def Let_def if_not_P [OF guard] n unfolding hello_kvs_def
    by (rule emits_seq_result, rule emits_map)
      (rule emit_intros | simp | use ok in simp | simp split: option.splits)+
qed

lemma hello_runs:
  assumes "hello_ok m"
  shows "runs 0 decodeHello_key (hello_kvs m) (HelloMsg_new, False, False, False, False) (m, True, True, True, True)"
proof (cases m)
  case (fields pv ck cn ii tk et ss ps tr dw)
  note opt = runs_optional [where x = tk and u = "\<lambda>f (m, g). (hl_token_update f m, g)"]
    runs_optional [where x = et and u = "\<lambda>f (m, g). (hl_catalog_etag_update f m, g)"]
    runs_optional [where x = tr and u = "\<lambda>f (m, g). (hl_trust_update f m, g)"]
    runs_default [where x = ss and u = "\<lambda>f (m, g). (hl_subscriptions_update f m, g)" and b = "ss \<noteq> []"]
    runs_default [where x = ps and u = "\<lambda>f (m, g). (hl_publishes_update f m, g)" and b = "ps \<noteq> []"]
    runs_default [where x = dw and u = "\<lambda>f (m, g). (hl_deadman_wish_ms_update f m, g)" and b = "dw > 0"]
  have ok: "length ck \<le> 16" "length cn \<le> 32" "length ii = 8" "length ss \<le> 16" "length ps \<le> 8"
      "\<And>v. tk = Some v \<Longrightarrow> length v = 16" "\<And>v. et = Some v \<Longrightarrow> length v = 8"
      "\<And>t. tr = Some t \<Longrightarrow> trust_ok t" "\<And>t. tr = Some t \<Longrightarrow> tm_any t"
    using assms by (auto simp: hello_ok_def fields)
  have len: "length ck < 2 ^ 64" "length cn < 2 ^ 64" "\<not> 16 < length ck" "\<not> 32 < length cn"
    using ok(1,2) by simp_all
  show ?thesis
    unfolding hello_kvs_def fields HelloMsg.select_convs HelloMsg_new_def
    by (rule run_intros opt reads_trust reads_sub_wishes reads_pub_wishes
        | simp add: decodeHello_key_def hello_limits word_gt_0 ok len [simplified])+
qed

lemma hello_keys:
  "sorted_wrt (<) (map fst (hello_kvs m))" "fst ` set (hello_kvs m) \<subseteq> {1, 2, 3, 4, 5, 8, 10, 11, 39, 44}"
  "length (hello_kvs m) < 2 ^ 32"
  by (auto simp: hello_kvs_def split: option.splits)

lemma decodeHello_skip: "k \<notin> {1, 2, 3, 4, 5, 8, 10, 11, 39, 44} \<Longrightarrow> decodeHello_key k m = skip_unknown m"
  by (cases m) (auto simp: decodeHello_key_def)

interpretation hello_codec: cbor_message hello_kvs encodeHello decodeHello "{1, 2, 3, 4, 5, 8, 10, 11, 39, 44}" hello_ok
proof (unfold_locales, goal_cases)
  case (2 m kvs' rest)
  then show ?case
    using decode_map_top [where h = decodeHello_key and known = "{1, 2, 3, 4, 5, 8, 10, 11, 39, 44}"
        and m = "(HelloMsg_new, False, False, False, False)" and m' = "(m, True, True, True, True)"
        and kvs = kvs' and rest = rest] hello_runs [of m] decodeHello_skip
    by (auto simp: decodeHello_def simp del: enc.simps)
qed (use hello_keys encodeHello_image in auto)

section \<open>Every accepted request is within its limits\<close>

definition hello_sized :: "HelloMsg \<Rightarrow> bool" where
  "hello_sized m \<longleftrightarrow> length (hl_client_kind m) \<le> 16 \<and> length (hl_client_name m) \<le> 32 \<and>
     length (hl_instance_id m) = 8 \<and> length (hl_subscriptions m) \<le> 16 \<and> length (hl_publishes m) \<le> 8 \<and>
     (case hl_token m of None \<Rightarrow> True | Some v \<Rightarrow> length v = 16) \<and>
     (case hl_catalog_etag m of None \<Rightarrow> True | Some v \<Rightarrow> length v = 8) \<and>
     (case hl_trust m of None \<Rightarrow> True | Some t \<Rightarrow> trust_ok t)"

lemma decodeTrustMap_opt_ok:
  "decodeTrustMap (case x of None \<Rightarrow> TrustMap_new | Some t \<Rightarrow> t) r = Inr (t', r') \<Longrightarrow>
   (case x of None \<Rightarrow> True | Some t \<Rightarrow> trust_ok t) \<Longrightarrow> trust_ok t'"
  by (cases x) (auto dest: decodeTrustMap_ok)

lemma decodeHello_key_sized:
  assumes "decodeHello_key k (m, gs) r = Inr ((m', gs'), r')" and "hello_sized m"
  shows "hello_sized m'"
proof -
  obtain gV gK gN gI where gs: "gs = (gV, gK, gN, gI)" by (cases gs)
  show ?thesis
    using assms unfolding decodeHello_key_def gs prod.case hello_limits
    by (elim if_Inr_elim rbind_elim)
      (simp_all add: hello_sized_def not_less decodeTrustMap_opt_ok decode_list_bound
        | force simp: hello_sized_def dest: skip_unknown_invariant decodeTrustMap_opt_ok decode_list_bound)+
qed

lemma decodeHello_sized:
  assumes "decodeHello inp = Inr m"
  shows "hello_sized m"
proof -
  obtain g r where "decode_map decodeHello_key (HelloMsg_new, False, False, False, False) (CborReader_new inp) =
      Inr ((m, g), r)"
    using assms by (auto simp: decodeHello_def rbind_Inr_iff split: if_splits)
  then have "(\<lambda>(m, g). hello_sized m) (m, g)"
    by (rule decode_map_invariant) (auto intro: decodeHello_key_sized, simp add: hello_sized_def HelloMsg_new_def)
  then show ?thesis by simp
qed

lemma decodeSubscribe_sized:
  assumes "decodeSubscribe inp = Inr m"
  shows "subscribe_ok m"
proof -
  obtain g r where "decode_map decodeSubscribe_key (\<lparr> sb_subscriptions = [] \<rparr>, False) (CborReader_new inp) = Inr ((m, g), r)"
    using assms by (auto simp: decodeSubscribe_def rbind_Inr_iff split: if_splits)
  then have "(\<lambda>(m, g). subscribe_ok m) (m, g)"
    by (rule decode_map_invariant) (auto simp: decodeSubscribe_key_def rbind_Inr_iff subscribe_ok_def
        kSubscribeMaxWishes_def dest!: skip_unknown_invariant decode_list_bound split: if_splits)
  then show ?thesis by simp
qed

lemma decodeUnsubscribe_sized:
  assumes "decodeUnsubscribe inp = Inr m"
  shows "unsubscribe_ok m"
proof -
  obtain g r where "decode_map decodeUnsubscribe_key (\<lparr> us_channel_ids = [] \<rparr>, False) (CborReader_new inp) = Inr ((m, g), r)"
    using assms by (auto simp: decodeUnsubscribe_def rbind_Inr_iff split: if_splits)
  then have "(\<lambda>(m, g). unsubscribe_ok m) (m, g)"
    by (rule decode_map_invariant) (auto simp: decodeUnsubscribe_key_def rbind_Inr_iff unsubscribe_ok_def
        kUnsubscribeMaxChannels_def dest!: skip_unknown_invariant decode_list_bound split: if_splits)
  then show ?thesis by simp
qed

lemma decodePublish_sized:
  assumes "decodePublish inp = Inr m"
  shows "publish_ok m"
proof -
  obtain g r where "decode_map decodePublish_key (\<lparr> pb_publishes = [] \<rparr>, False) (CborReader_new inp) = Inr ((m, g), r)"
    using assms by (auto simp: decodePublish_def rbind_Inr_iff split: if_splits)
  then have "(\<lambda>(m, g). publish_ok m) (m, g)"
    by (rule decode_map_invariant) (auto simp: decodePublish_key_def rbind_Inr_iff publish_ok_def
        kPublishMaxWishes_def hello_limits dest!: skip_unknown_invariant decode_list_bound split: if_splits)
  then show ?thesis by simp
qed

section \<open>Properties\<close>

text \<open>
  HELLO on the wire: a greeting within the size limits is written completely or not at all, what
  is written decodes to the same greeting, wishes and trust map included, and keys that a newer
  client adds (here any well-formed values under keys this decoder does not know) change nothing.
\<close>

theorem hello_roundtrip:
  assumes "hello_ok m"
    and "sorted_wrt (<) (map fst kvs)" and "length kvs < 2 ^ 32"
    and "filter (\<lambda>(k, v). k \<in> {1, 2, 3, 4, 5, 8, 10, 11, 39, 44}) kvs = hello_kvs m"
    and "list_all (\<lambda>(k, v). k \<in> {1, 2, 3, 4, 5, 8, 10, 11, 39, 44} \<or> cbor_ok 3 v) kvs"
  shows "(if length (enc (CMap (hello_kvs m))) \<le> cap
          then encodeHello m cap \<noteq> [] \<and> decodeHello (encodeHello m cap @ rest) = Inr m
          else encodeHello m cap = []) \<and>
         decodeHello (enc (CMap kvs)) = Inr m"
proof
  show "if length (enc (CMap (hello_kvs m))) \<le> cap
      then encodeHello m cap \<noteq> [] \<and> decodeHello (encodeHello m cap @ rest) = Inr m else encodeHello m cap = []"
    by (rule hello_codec.roundtrip [OF assms(1)])
  show "decodeHello (enc (CMap kvs)) = Inr m"
    using assms by (intro hello_codec.forward_compatible) (auto simp: list_all_iff)
qed

theorem hello_roundtrip_witness:
  "decodeHello (enc (CMap (hello_kvs (HelloMsg_new \<lparr> hl_client_kind := [99], hl_deadman_wish_ms := 900 \<rparr>) @
     [(60, CText [104, 105])]))) = Inr (HelloMsg_new \<lparr> hl_client_kind := [99], hl_deadman_wish_ms := 900 \<rparr>)"
proof -
  let ?m = "HelloMsg_new \<lparr> hl_client_kind := [99], hl_deadman_wish_ms := 900 \<rparr>"
  have "hello_ok ?m" by (simp add: hello_ok_def HelloMsg_new_def)
  moreover have "hello_kvs ?m = [(1, CUint 1), (2, CText [99]), (3, CText []),
      (4, CBytes (replicate 8 0)), (44, CUint 900)]"
    by (simp add: hello_kvs_def HelloMsg_new_def)
  ultimately show ?thesis
    using hello_roundtrip [of ?m "hello_kvs ?m @ [(60, CText [104, 105])]"] by (simp del: enc.simps)
qed

text \<open>
  The later requests survive the wire: SUBSCRIBE and UNSUBSCRIBE with at most 16 entries and
  PUBLISH with at most 8 are written completely or not at all, and decode to the same wishes.
\<close>

theorem requests_roundtrip:
  assumes "length ss \<le> 16" and "length cs \<le> 16" and "length ps \<le> 8"
  shows "(let m = \<lparr> sb_subscriptions = ss \<rparr> in if length (enc (CMap (subscribe_kvs m))) \<le> cap
           then encodeSubscribe m cap \<noteq> [] \<and> decodeSubscribe (encodeSubscribe m cap @ rest) = Inr m
           else encodeSubscribe m cap = []) \<and>
         (let m = \<lparr> us_channel_ids = cs \<rparr> in if length (enc (CMap (unsubscribe_kvs m))) \<le> cap
           then encodeUnsubscribe m cap \<noteq> [] \<and> decodeUnsubscribe (encodeUnsubscribe m cap @ rest) = Inr m
           else encodeUnsubscribe m cap = []) \<and>
         (let m = \<lparr> pb_publishes = ps \<rparr> in if length (enc (CMap (publish_kvs m))) \<le> cap
           then encodePublish m cap \<noteq> [] \<and> decodePublish (encodePublish m cap @ rest) = Inr m
           else encodePublish m cap = [])"
  unfolding Let_def using assms
  by (intro conjI subscribe_codec.roundtrip unsubscribe_codec.roundtrip publish_codec.roundtrip)
    (simp_all add: subscribe_ok_def unsubscribe_ok_def publish_ok_def)

theorem requests_roundtrip_witness:
  "decodeUnsubscribe (encodeUnsubscribe \<lparr> us_channel_ids = [7, 0x0300] \<rparr> 8) = Inr \<lparr> us_channel_ids = [7, 0x0300] \<rparr>"
proof -
  have "length (enc (CMap (unsubscribe_kvs \<lparr> us_channel_ids = [7, 0x0300] \<rparr>))) \<le> 8" by code_simp
  then show ?thesis
    using requests_roundtrip [of "[]" "[7, 0x0300]" "[]" 8 "[]"] by (simp add: Let_def del: enc.simps)
qed

text \<open>
  Whatever bytes arrive, an accepted HELLO, SUBSCRIBE, UNSUBSCRIBE or PUBLISH fits the fixed
  arrays of its message struct: no decoder writes past the end of one.
\<close>

theorem request_decoders_bounded:
  "(case decodeHello inp of Inl e \<Rightarrow> True | Inr m \<Rightarrow> hello_sized m) \<and>
   (case decodeSubscribe inp of Inl e \<Rightarrow> True | Inr m \<Rightarrow> length (sb_subscriptions m) \<le> kSubscribeMaxWishes) \<and>
   (case decodeUnsubscribe inp of Inl e \<Rightarrow> True | Inr m \<Rightarrow> length (us_channel_ids m) \<le> kUnsubscribeMaxChannels) \<and>
   (case decodePublish inp of Inl e \<Rightarrow> True | Inr m \<Rightarrow> length (pb_publishes m) \<le> kPublishMaxWishes)"
  using decodeHello_sized [of inp] decodeSubscribe_sized [of inp] decodeUnsubscribe_sized [of inp]
    decodePublish_sized [of inp]
  by (auto simp: subscribe_ok_def unsubscribe_ok_def publish_ok_def kSubscribeMaxWishes_def
      kUnsubscribeMaxChannels_def kPublishMaxWishes_def hello_limits split: sum.splits)

end
