(* ===== verification/Msg_Grant.thy ===== *)
theory Msg_Grant
  imports Msg_Wishes
begin

text \<open>
  What a hub answers: GRANT and WELCOME, from \<^verbatim>\<open>wire/messages/grant.hpp\<close> and
  \<^verbatim>\<open>wire/messages/welcome.hpp\<close>, with the entries, limits and identity sub-maps they carry.  The eleven
  \<open>gotX\<close> flags of the WELCOME decoder are the set of the required keys seen so far.
\<close>

section \<open>Definitions: entries\<close>

definition kWelcomeMaxGrants :: nat where "kWelcomeMaxGrants = 16"
definition kWelcomeMaxGrantedPublishes :: nat where "kWelcomeMaxGrantedPublishes = 8"
definition kGrantMsgMaxGrants :: nat where "kGrantMsgMaxGrants = 16"

record Grant =
  gr_channel_id :: u16
  gr_granted_rate_hz :: u32
  gr_priority :: u8

definition Grant_new :: Grant where
  "Grant_new = \<lparr> gr_channel_id = 0, gr_granted_rate_hz = 0, gr_priority = 0 \<rparr>"

record GrantedPublish =
  gp_channel_id :: u16
  gp_granted_rate_hz :: u32
  gp_burst :: "u32 option"
  gp_curve_family :: "u8 option"
  gp_requested_curve_family :: "u8 option"

definition GrantedPublish_new :: GrantedPublish where
  "GrantedPublish_new = \<lparr> gp_channel_id = 0, gp_granted_rate_hz = 0, gp_burst = None, gp_curve_family = None,
     gp_requested_curve_family = None \<rparr>"

definition encodeGrantEntry :: "Grant \<Rightarrow> CborWriter \<Rightarrow> CborWriter" where
  "encodeGrantEntry g = w_seq
     [mapHeader 3,
      w_kv CK_priority (uintVal (ucast (gr_priority g))),
      w_kv CK_granted_rate_hz (f32Val (gr_granted_rate_hz g)),
      w_kv CK_channel_id (uintVal (ucast (gr_channel_id g)))]"

definition encodeGrantedPublish :: "GrantedPublish \<Rightarrow> CborWriter \<Rightarrow> CborWriter" where
  "encodeGrantedPublish gp = w_seq
     [mapHeader (2 + present (gp_burst gp) + present (gp_curve_family gp) + present (gp_requested_curve_family gp)),
      w_kv CK_granted_rate_hz (f32Val (gp_granted_rate_hz gp)),
      w_kv CK_channel_id (uintVal (ucast (gp_channel_id gp))),
      w_opt (gp_burst gp) (\<lambda>v. w_kv CK_burst (f32Val v)),
      w_opt (gp_curve_family gp) (\<lambda>v. w_kv CK_curve_family (uintVal (ucast v))),
      w_opt (gp_requested_curve_family gp) (\<lambda>v. w_kv CK_requested_curve_family (uintVal (ucast v)))]"

definition decodeGrantEntry_key :: "Grant handler" where
  "decodeGrantEntry_key k = (\<lambda>g r.
    if k = CK_channel_id then
      rbind (readUint r) (\<lambda>(v, r). Inr (g \<lparr> gr_channel_id := ucast v \<rparr>, r))
    else if k = CK_granted_rate_hz then
      rbind (readF32 r) (\<lambda>(v, r). Inr (g \<lparr> gr_granted_rate_hz := v \<rparr>, r))
    else if k = CK_priority then
      rbind (readUint r) (\<lambda>(v, r). Inr (g \<lparr> gr_priority := ucast v \<rparr>, r))
    else skip_unknown g r)"

definition decodeGrantEntry :: "CborReader \<Rightarrow> (Grant \<times> CborReader) result" where
  "decodeGrantEntry r = decode_map decodeGrantEntry_key Grant_new r"

definition decodeGrantedPublish_key :: "GrantedPublish handler" where
  "decodeGrantedPublish_key k = (\<lambda>gp r.
    if k = CK_granted_rate_hz then
      rbind (readF32 r) (\<lambda>(v, r). Inr (gp \<lparr> gp_granted_rate_hz := v \<rparr>, r))
    else if k = CK_channel_id then
      rbind (readUint r) (\<lambda>(v, r). Inr (gp \<lparr> gp_channel_id := ucast v \<rparr>, r))
    else if k = CK_burst then
      rbind (readF32 r) (\<lambda>(v, r). Inr (gp \<lparr> gp_burst := Some v \<rparr>, r))
    else if k = CK_curve_family then
      rbind (readUint r) (\<lambda>(v, r).
        if v > 0xFF then Inl Malformed else Inr (gp \<lparr> gp_curve_family := Some (ucast v) \<rparr>, r))
    else if k = CK_requested_curve_family then
      rbind (readUint r) (\<lambda>(v, r).
        if v > 0xFF then Inl Malformed else Inr (gp \<lparr> gp_requested_curve_family := Some (ucast v) \<rparr>, r))
    else skip_unknown gp r)"

definition decodeGrantedPublish :: "CborReader \<Rightarrow> (GrantedPublish \<times> CborReader) result" where
  "decodeGrantedPublish r = decode_map decodeGrantedPublish_key GrantedPublish_new r"

section \<open>Definitions: GRANT\<close>

text \<open>\<^verbatim>\<open>AccessLevel::configure\<close>, the highest role.\<close>

abbreviation (input) AccessLevel_configure :: u64 where "AccessLevel_configure \<equiv> 2"

record GrantMsg =
  gm_roles :: "u8 option"
  gm_grants :: "Grant list"
  gm_granted_publishes :: "GrantedPublish list"

definition GrantMsg_new :: GrantMsg where
  "GrantMsg_new = \<lparr> gm_roles = None, gm_grants = [], gm_granted_publishes = [] \<rparr>"

definition encodeGrant :: "GrantMsg \<Rightarrow> nat \<Rightarrow> bytes" where
  "encodeGrant m cap =
    (if length (gm_grants m) > kGrantMsgMaxGrants \<or> length (gm_granted_publishes m) > kWelcomeMaxGrantedPublishes then []
     else w_result (w_seq
       [mapHeader (1 + (if gm_granted_publishes m \<noteq> [] then 1 else 0) + present (gm_roles m)),
        w_opt (gm_roles m) (\<lambda>v. w_kv CK_roles (uintVal (ucast v))),
        w_kv CK_grants (w_list encodeGrantEntry (gm_grants m)),
        w_when (gm_granted_publishes m \<noteq> [])
          (w_kv CK_granted_publishes (w_list encodeGrantedPublish (gm_granted_publishes m)))]
       (CborWriter_new cap)))"

definition decodeGrant_key :: "(GrantMsg \<times> bool) handler" where
  "decodeGrant_key k = (\<lambda>(m, gotGrants) r.
    if k = CK_grants then
      rbind (decode_list kGrantMsgMaxGrants decodeGrantEntry r) (\<lambda>(v, r).
        Inr ((m \<lparr> gm_grants := v \<rparr>, True), r))
    else if k = CK_roles then
      rbind (readUint r) (\<lambda>(v, r).
        if v > AccessLevel_configure then Inl Malformed
        else Inr ((m \<lparr> gm_roles := Some (ucast v) \<rparr>, gotGrants), r))
    else if k = CK_granted_publishes then
      rbind (decode_list kWelcomeMaxGrantedPublishes decodeGrantedPublish r) (\<lambda>(v, r).
        Inr ((m \<lparr> gm_granted_publishes := v \<rparr>, gotGrants), r))
    else skip_unknown (m, gotGrants) r)"

definition decodeGrant :: "bytes \<Rightarrow> GrantMsg result" where
  "decodeGrant inp =
    rbind (decode_map decodeGrant_key (GrantMsg_new, False) (CborReader_new inp)) (\<lambda>((m, gotGrants), _).
      if \<not> gotGrants then Inl Malformed else Inr m)"

section \<open>Definitions: WELCOME\<close>

definition kIdentityProductMaxBytes :: nat where "kIdentityProductMaxBytes = 32"
definition kIdentityFwVersionMaxBytes :: nat where "kIdentityFwVersionMaxBytes = 24"
definition kIdentityHubNameMaxBytes :: nat where "kIdentityHubNameMaxBytes = 32"

text \<open>\<^verbatim>\<open>limits::deadman_default_ms\<close>.\<close>

abbreviation (input) deadman_default_ms :: u32 where "deadman_default_ms \<equiv> 600"

record WelcomeLimits =
  wl_max_frame :: u32
  wl_max_subscriptions :: u32
  wl_retained_pending :: u32
  wl_max_subscriptions_per_frame :: u32

definition WelcomeLimits_new :: WelcomeLimits where
  "WelcomeLimits_new = \<lparr> wl_max_frame = 0, wl_max_subscriptions = 0, wl_retained_pending = 0,
     wl_max_subscriptions_per_frame = 0 \<rparr>"

record IdentityInfo =
  id_product :: bytes
  id_fw_version :: bytes
  id_hub_name :: bytes
  id_hub_instance_id :: "u64 option"

definition IdentityInfo_new :: IdentityInfo where
  "IdentityInfo_new = \<lparr> id_product = [], id_fw_version = [], id_hub_name = [], id_hub_instance_id = None \<rparr>"

definition id_any :: "IdentityInfo \<Rightarrow> bool" where
  "id_any i \<longleftrightarrow> id_product i \<noteq> [] \<or> id_fw_version i \<noteq> [] \<or> id_hub_name i \<noteq> [] \<or> id_hub_instance_id i \<noteq> None"

record WelcomeMsg =
  wm_proto_ver :: u8
  wm_session_id :: u32
  wm_boot_id :: u32
  wm_catalog_etag :: bytes
  wm_cfg_gen :: u16
  wm_limits_info :: WelcomeLimits
  wm_roles :: u8
  wm_deadman_ms :: u32
  wm_deadman_policy :: u8
  wm_nonce :: bytes
  wm_grants :: "Grant list"
  wm_granted_publishes :: "GrantedPublish list"
  wm_identity :: "IdentityInfo option"
  wm_ws_port :: u16
  wm_ipv4 :: u32
  wm_trust :: "TrustMap option"

definition WelcomeMsg_new :: WelcomeMsg where
  "WelcomeMsg_new = \<lparr> wm_proto_ver = kProtocolVersion, wm_session_id = 0, wm_boot_id = 0,
     wm_catalog_etag = replicate etag_bytes 0, wm_cfg_gen = 0, wm_limits_info = WelcomeLimits_new, wm_roles = 0,
     wm_deadman_ms = deadman_default_ms, wm_deadman_policy = 0, wm_nonce = replicate 8 0, wm_grants = [],
     wm_granted_publishes = [], wm_identity = None, wm_ws_port = 0, wm_ipv4 = 0, wm_trust = None \<rparr>"

definition encodeWelcomeLimits :: "WelcomeLimits \<Rightarrow> CborWriter \<Rightarrow> CborWriter" where
  "encodeWelcomeLimits l = w_seq
     [mapHeader (3 + (if wl_max_subscriptions_per_frame l > 0 then 1 else 0)),
      w_kv 1 (uintVal (ucast (wl_max_frame l))),
      w_kv 2 (uintVal (ucast (wl_max_subscriptions l))),
      w_kv 3 (uintVal (ucast (wl_retained_pending l))),
      w_when (wl_max_subscriptions_per_frame l > 0)
        (w_kv 4 (uintVal (ucast (wl_max_subscriptions_per_frame l))))]"

definition encodeIdentity :: "IdentityInfo \<Rightarrow> CborWriter \<Rightarrow> CborWriter" where
  "encodeIdentity i = w_seq
     [mapHeader ((if id_product i \<noteq> [] then 1 else 0) + (if id_fw_version i \<noteq> [] then 1 else 0) +
        (if id_hub_name i \<noteq> [] then 1 else 0) + present (id_hub_instance_id i)),
      w_when (id_product i \<noteq> []) (w_kv 1 (tstrVal (id_product i))),
      w_when (id_fw_version i \<noteq> []) (w_kv 2 (tstrVal (id_fw_version i))),
      w_when (id_hub_name i \<noteq> []) (w_kv 3 (tstrVal (id_hub_name i))),
      w_opt (id_hub_instance_id i) (\<lambda>v. w_kv 5 (uintVal v))]"

definition wm_hasIdentity :: "WelcomeMsg \<Rightarrow> bool" where
  "wm_hasIdentity m \<longleftrightarrow> (case wm_identity m of None \<Rightarrow> False | Some i \<Rightarrow> id_any i)"

definition wm_hasTrust :: "WelcomeMsg \<Rightarrow> bool" where
  "wm_hasTrust m \<longleftrightarrow> (case wm_trust m of None \<Rightarrow> False | Some t \<Rightarrow> tm_any t)"

definition identity_oversize :: "WelcomeMsg \<Rightarrow> bool" where
  "identity_oversize m \<longleftrightarrow>
     (case wm_identity m of None \<Rightarrow> False | Some i \<Rightarrow> id_any i \<and>
        (length (id_product i) > kIdentityProductMaxBytes \<or> length (id_fw_version i) > kIdentityFwVersionMaxBytes \<or>
         length (id_hub_name i) > kIdentityHubNameMaxBytes))"

definition encodeWelcome :: "WelcomeMsg \<Rightarrow> nat \<Rightarrow> bytes" where
  "encodeWelcome m cap =
    (if length (wm_grants m) > kWelcomeMaxGrants \<or> length (wm_granted_publishes m) > kWelcomeMaxGrantedPublishes \<or>
        identity_oversize m then []
     else
       let nKeys = 11 + (if wm_granted_publishes m \<noteq> [] then 1 else 0) + (if wm_hasIdentity m then 1 else 0) +
             (if wm_hasTrust m then 1 else 0) + (if wm_ws_port m \<noteq> 0 then 1 else 0) + (if wm_ipv4 m \<noteq> 0 then 1 else 0) in
       w_result (w_seq
         [mapHeader nKeys,
          w_kv CK_proto_ver (uintVal (ucast (wm_proto_ver m))),
          w_kv CK_session_id (uintVal (ucast (wm_session_id m))),
          w_kv CK_boot_id (uintVal (ucast (wm_boot_id m))),
          w_kv CK_catalog_etag (bstrVal (wm_catalog_etag m)),
          w_kv CK_cfg_gen (uintVal (ucast (wm_cfg_gen m))),
          w_kv CK_limits (encodeWelcomeLimits (wm_limits_info m)),
          w_kv CK_roles (uintVal (ucast (wm_roles m))),
          w_kv CK_deadman_ms (uintVal (ucast (wm_deadman_ms m))),
          w_kv CK_deadman_policy (uintVal (ucast (wm_deadman_policy m))),
          w_kv CK_nonce (bstrVal (wm_nonce m)),
          w_kv CK_grants (w_list encodeGrantEntry (wm_grants m)),
          w_when (wm_granted_publishes m \<noteq> [])
            (w_kv CK_granted_publishes (w_list encodeGrantedPublish (wm_granted_publishes m))),
          w_opt (wm_identity m) (\<lambda>i. w_when (id_any i) (w_kv CK_identity (encodeIdentity i))),
          w_opt (wm_trust m) (\<lambda>t. w_when (tm_any t) (encodeTrustMap t)),
          w_when (wm_ws_port m \<noteq> 0) (w_kv CK_ws_port (uintVal (ucast (wm_ws_port m)))),
          w_when (wm_ipv4 m \<noteq> 0) (w_kv CK_ipv4 (uintVal (ucast (wm_ipv4 m))))]
         (CborWriter_new cap)))"

definition decodeWelcomeLimits_key :: "WelcomeLimits handler" where
  "decodeWelcomeLimits_key k = (\<lambda>l r.
    if k = 1 then rbind (readUint r) (\<lambda>(v, r). Inr (l \<lparr> wl_max_frame := ucast v \<rparr>, r))
    else if k = 2 then rbind (readUint r) (\<lambda>(v, r). Inr (l \<lparr> wl_max_subscriptions := ucast v \<rparr>, r))
    else if k = 3 then rbind (readUint r) (\<lambda>(v, r). Inr (l \<lparr> wl_retained_pending := ucast v \<rparr>, r))
    else if k = 4 then rbind (readUint r) (\<lambda>(v, r). Inr (l \<lparr> wl_max_subscriptions_per_frame := ucast v \<rparr>, r))
    else skip_unknown l r)"

definition decodeIdentity_key :: "IdentityInfo handler" where
  "decodeIdentity_key k = (\<lambda>i r.
    if k = 1 then
      rbind (readTstr r) (\<lambda>(v, r).
        if length v > kIdentityProductMaxBytes then Inl CapacityExceeded else Inr (i \<lparr> id_product := v \<rparr>, r))
    else if k = 2 then
      rbind (readTstr r) (\<lambda>(v, r).
        if length v > kIdentityFwVersionMaxBytes then Inl CapacityExceeded else Inr (i \<lparr> id_fw_version := v \<rparr>, r))
    else if k = 3 then
      rbind (readTstr r) (\<lambda>(v, r).
        if length v > kIdentityHubNameMaxBytes then Inl CapacityExceeded else Inr (i \<lparr> id_hub_name := v \<rparr>, r))
    else if k = 5 then
      rbind (readUint r) (\<lambda>(v, r). Inr (i \<lparr> id_hub_instance_id := Some v \<rparr>, r))
    else skip_unknown i r)"

definition decodeWelcome_key :: "(WelcomeMsg \<times> u64 set) handler" where
  "decodeWelcome_key k = (\<lambda>(m, got) r.
    if k = CK_proto_ver then
      rbind (readUint r) (\<lambda>(v, r).
        if v > 0xFF then Inl Malformed else Inr ((m \<lparr> wm_proto_ver := ucast v \<rparr>, insert k got), r))
    else if k = CK_session_id then
      rbind (readUint r) (\<lambda>(v, r). Inr ((m \<lparr> wm_session_id := ucast v \<rparr>, insert k got), r))
    else if k = CK_boot_id then
      rbind (readUint r) (\<lambda>(v, r). Inr ((m \<lparr> wm_boot_id := ucast v \<rparr>, insert k got), r))
    else if k = CK_catalog_etag then
      rbind (readBstr r) (\<lambda>(v, r).
        if length v \<noteq> etag_bytes then Inl Malformed
        else Inr ((m \<lparr> wm_catalog_etag := v \<rparr>, insert k got), r))
    else if k = CK_cfg_gen then
      rbind (readUint r) (\<lambda>(v, r). Inr ((m \<lparr> wm_cfg_gen := ucast v \<rparr>, insert k got), r))
    else if k = CK_limits then
      rbind (decode_map decodeWelcomeLimits_key (wm_limits_info m) r) (\<lambda>(l, r).
        Inr ((m \<lparr> wm_limits_info := l \<rparr>, insert k got), r))
    else if k = CK_roles then
      rbind (readUint r) (\<lambda>(v, r). Inr ((m \<lparr> wm_roles := ucast v \<rparr>, insert k got), r))
    else if k = CK_deadman_ms then
      rbind (readUint r) (\<lambda>(v, r). Inr ((m \<lparr> wm_deadman_ms := ucast v \<rparr>, insert k got), r))
    else if k = CK_deadman_policy then
      rbind (readUint r) (\<lambda>(v, r). Inr ((m \<lparr> wm_deadman_policy := ucast v \<rparr>, insert k got), r))
    else if k = CK_nonce then
      rbind (readBstr r) (\<lambda>(v, r).
        if length v \<noteq> 8 then Inl Malformed else Inr ((m \<lparr> wm_nonce := v \<rparr>, insert k got), r))
    else if k = CK_grants then
      rbind (decode_list kWelcomeMaxGrants decodeGrantEntry r) (\<lambda>(v, r).
        Inr ((m \<lparr> wm_grants := v \<rparr>, insert k got), r))
    else if k = CK_granted_publishes then
      rbind (decode_list kWelcomeMaxGrantedPublishes decodeGrantedPublish r) (\<lambda>(v, r).
        Inr ((m \<lparr> wm_granted_publishes := v \<rparr>, got), r))
    else if k = CK_identity then
      rbind (decode_map decodeIdentity_key (case wm_identity m of None \<Rightarrow> IdentityInfo_new | Some i \<Rightarrow> i) r) (\<lambda>(i, r).
        Inr ((m \<lparr> wm_identity := Some i \<rparr>, got), r))
    else if k = CK_trust then
      rbind (decodeTrustMap (case wm_trust m of None \<Rightarrow> TrustMap_new | Some t \<Rightarrow> t) r) (\<lambda>(t, r).
        Inr ((m \<lparr> wm_trust := Some t \<rparr>, got), r))
    else if k = CK_ws_port then
      rbind (readUint r) (\<lambda>(v, r).
        if v > 0xFFFF then Inl Malformed else Inr ((m \<lparr> wm_ws_port := ucast v \<rparr>, got), r))
    else if k = CK_ipv4 then
      rbind (readUint r) (\<lambda>(v, r).
        if v > 0xFFFFFFFF then Inl Malformed else Inr ((m \<lparr> wm_ipv4 := ucast v \<rparr>, got), r))
    else skip_unknown (m, got) r)"

definition decodeWelcome :: "bytes \<Rightarrow> WelcomeMsg result" where
  "decodeWelcome inp =
    rbind (decode_map decodeWelcome_key (WelcomeMsg_new, {}) (CborReader_new inp)) (\<lambda>((m, got), _).
      if \<not> ({CK_proto_ver, CK_session_id, CK_boot_id, CK_catalog_etag, CK_cfg_gen, CK_limits, CK_roles,
            CK_deadman_ms, CK_deadman_policy, CK_nonce, CK_grants} \<subseteq> got) then Inl Malformed else Inr m)"

section \<open>Entries on the wire\<close>

definition grant_entry_kvs :: "Grant \<Rightarrow> (u64 \<times> cbor) list" where
  "grant_entry_kvs g = [(13, CUint (ucast (gr_priority g)))] @ [(14, CFloat (gr_granted_rate_hz g))] @
     [(15, CUint (ucast (gr_channel_id g)))] @ []"

definition granted_publish_kvs :: "GrantedPublish \<Rightarrow> (u64 \<times> cbor) list" where
  "granted_publish_kvs p = [(14, CFloat (gp_granted_rate_hz p))] @ [(15, CUint (ucast (gp_channel_id p)))] @
     (case gp_burst p of None \<Rightarrow> [] | Some v \<Rightarrow> [(42, CFloat v)]) @
     (case gp_curve_family p of None \<Rightarrow> [] | Some v \<Rightarrow> [(45, CUint (ucast v))]) @
     (case gp_requested_curve_family p of None \<Rightarrow> [] | Some v \<Rightarrow> [(48, CUint (ucast v))]) @ []"

lemma emits_grant_entry: "d < 4 \<Longrightarrow> emits d (encodeGrantEntry g) (CMap (grant_entry_kvs g))"
  unfolding encodeGrantEntry_def grant_entry_kvs_def
  by (rule emits_map) (rule emit_intros | simp)+

lemma emits_granted_publish: "d < 4 \<Longrightarrow> emits d (encodeGrantedPublish p) (CMap (granted_publish_kvs p))"
  unfolding encodeGrantedPublish_def granted_publish_kvs_def
  by (rule emits_map) (rule emit_intros | simp | simp split: option.splits)+

lemma reads_grant_entry: "d < 4 \<Longrightarrow> reads d decodeGrantEntry (CMap (grant_entry_kvs g)) g"
proof -
  assume d: "d < 4"
  have "runs d decodeGrantEntry_key (grant_entry_kvs g) Grant_new g"
    by (cases g, unfold grant_entry_kvs_def Grant_new_def)
      (rule run_intros | simp add: decodeGrantEntry_key_def)+
  then show ?thesis
    unfolding decodeGrantEntry_def [abs_def] using d
    by (intro reads_decode_map) (auto simp: grant_entry_kvs_def)
qed

lemma reads_granted_publish: "d < 4 \<Longrightarrow> reads d decodeGrantedPublish (CMap (granted_publish_kvs p)) p"
proof -
  assume d: "d < 4"
  have "runs d decodeGrantedPublish_key (granted_publish_kvs p) GrantedPublish_new p"
  proof (cases p)
    case (fields ch ra bu cf rf)
    note opt = runs_optional [where x = bu and u = gp_burst_update]
      runs_optional [where x = cf and u = gp_curve_family_update]
      runs_optional [where x = rf and u = gp_requested_curve_family_update]
    show ?thesis
      unfolding granted_publish_kvs_def GrantedPublish_new_def fields GrantedPublish.select_convs
      by (rule run_intros opt | simp add: decodeGrantedPublish_key_def)+
  qed
  then show ?thesis
    unfolding decodeGrantedPublish_def [abs_def] using d
    by (intro reads_decode_map) (auto simp: granted_publish_kvs_def split: option.splits)
qed

lemma reads_grant_entries:
  "length gs \<le> cap \<Longrightarrow> cap < 2 ^ 32 \<Longrightarrow> d < 3 \<Longrightarrow>
   reads d (decode_list cap decodeGrantEntry) (CArray (map (CMap \<circ> grant_entry_kvs) gs)) gs"
  by (rule reads_decode_list) (simp_all add: reads_grant_entry)

lemma reads_granted_publishes:
  "length ps \<le> cap \<Longrightarrow> cap < 2 ^ 32 \<Longrightarrow> d < 3 \<Longrightarrow>
   reads d (decode_list cap decodeGrantedPublish) (CArray (map (CMap \<circ> granted_publish_kvs) ps)) ps"
  by (rule reads_decode_list) (simp_all add: reads_granted_publish)

lemma emits_grant_entries [emit_intros]:
  "length gs < 2 ^ 32 \<Longrightarrow> d < 3 \<Longrightarrow>
   emits d (w_list encodeGrantEntry gs) (CArray (map (CMap \<circ> grant_entry_kvs) gs))"
  by (rule emits_list) (simp_all add: emits_grant_entry)

lemma emits_granted_publishes [emit_intros]:
  "length ps < 2 ^ 32 \<Longrightarrow> d < 3 \<Longrightarrow>
   emits d (w_list encodeGrantedPublish ps) (CArray (map (CMap \<circ> granted_publish_kvs) ps))"
  by (rule emits_list) (simp_all add: emits_granted_publish)

section \<open>GRANT\<close>

definition grant_kvs :: "GrantMsg \<Rightarrow> (u64 \<times> cbor) list" where
  "grant_kvs m = (case gm_roles m of None \<Rightarrow> [] | Some v \<Rightarrow> [(23, CUint (ucast v))]) @
    [(35, CArray (map (CMap \<circ> grant_entry_kvs) (gm_grants m)))] @
    (if gm_granted_publishes m \<noteq> []
     then [(36, CArray (map (CMap \<circ> granted_publish_kvs) (gm_granted_publishes m)))] else []) @ []"

definition grant_ok :: "GrantMsg \<Rightarrow> bool" where
  "grant_ok m \<longleftrightarrow> length (gm_grants m) \<le> 16 \<and> length (gm_granted_publishes m) \<le> 8 \<and>
     (case gm_roles m of None \<Rightarrow> True | Some v \<Rightarrow> v \<le> 2)"

lemmas grant_limits = kGrantMsgMaxGrants_def kWelcomeMaxGrants_def kWelcomeMaxGrantedPublishes_def

lemma encodeGrant_image:
  assumes "grant_ok m"
  shows "encodeGrant m cap = (if length (enc (CMap (grant_kvs m))) \<le> cap then enc (CMap (grant_kvs m)) else [])"
proof -
  have ok: "length (gm_grants m) \<le> 16" "length (gm_granted_publishes m) \<le> 8" using assms by (simp_all add: grant_ok_def)
  have guard: "\<not> (length (gm_grants m) > kGrantMsgMaxGrants \<or> length (gm_granted_publishes m) > kWelcomeMaxGrantedPublishes)"
    using ok by (auto simp: grant_limits)
  show ?thesis
    unfolding encodeGrant_def if_not_P [OF guard] grant_kvs_def
    by (rule emits_seq_result, rule emits_map)
      (rule emit_intros | simp add: present_def | use ok in simp | simp split: option.splits)+
qed

lemma roles_in_range: "v \<le> 2 \<Longrightarrow> \<not> 2 < (ucast (v :: u8) :: u64)"
  by (simp add: word_less_nat_alt word_le_nat_alt)

lemma grant_runs:
  assumes "grant_ok m"
  shows "runs 0 decodeGrant_key (grant_kvs m) (GrantMsg_new, False) (m, True)"
proof (cases m)
  case (fields ro gs ps)
  note opt = runs_optional [where x = ro and u = "\<lambda>f (m, g). (gm_roles_update f m, g)"]
    runs_default [where x = ps and u = "\<lambda>f (m, g). (gm_granted_publishes_update f m, g)" and b = "ps \<noteq> []"]
  have ok: "length gs \<le> 16" "length ps \<le> 8" "\<And>v. ro = Some v \<Longrightarrow> \<not> 2 < (ucast v :: u64)"
    using assms roles_in_range by (auto simp: grant_ok_def fields)
  show ?thesis
    unfolding grant_kvs_def fields GrantMsg.select_convs GrantMsg_new_def
    by (rule run_intros opt reads_grant_entries reads_granted_publishes
        | simp add: decodeGrant_key_def grant_limits ok [simplified])+
qed

lemma grant_keys:
  "sorted_wrt (<) (map fst (grant_kvs m))" "fst ` set (grant_kvs m) \<subseteq> {23, 35, 36}"
  "length (grant_kvs m) < 2 ^ 32"
  by (auto simp: grant_kvs_def split: option.splits)

lemma decodeGrant_skip: "k \<notin> {23, 35, 36} \<Longrightarrow> decodeGrant_key k m = skip_unknown m"
  by (cases m) (auto simp: decodeGrant_key_def)

interpretation grant_codec: cbor_message grant_kvs encodeGrant decodeGrant "{23, 35, 36}" grant_ok
proof (unfold_locales, goal_cases)
  case (2 m kvs' rest)
  then show ?case
    using decode_map_top [where h = decodeGrant_key and known = "{23, 35, 36}"
        and m = "(GrantMsg_new, False)" and m' = "(m, True)"
        and kvs = kvs' and rest = rest] grant_runs [of m] decodeGrant_skip
    by (auto simp: decodeGrant_def simp del: enc.simps)
qed (use grant_keys encodeGrant_image in auto)

section \<open>WELCOME\<close>

definition limits_kvs :: "WelcomeLimits \<Rightarrow> (u64 \<times> cbor) list" where
  "limits_kvs l = [(1, CUint (ucast (wl_max_frame l)))] @ [(2, CUint (ucast (wl_max_subscriptions l)))] @
     [(3, CUint (ucast (wl_retained_pending l)))] @
     (if wl_max_subscriptions_per_frame l > 0 then [(4, CUint (ucast (wl_max_subscriptions_per_frame l)))] else []) @ []"

definition identity_kvs :: "IdentityInfo \<Rightarrow> (u64 \<times> cbor) list" where
  "identity_kvs i = (if id_product i \<noteq> [] then [(1, CText (id_product i))] else []) @
     (if id_fw_version i \<noteq> [] then [(2, CText (id_fw_version i))] else []) @
     (if id_hub_name i \<noteq> [] then [(3, CText (id_hub_name i))] else []) @
     (case id_hub_instance_id i of None \<Rightarrow> [] | Some v \<Rightarrow> [(5, CUint v)]) @ []"

definition identity_ok :: "IdentityInfo \<Rightarrow> bool" where
  "identity_ok i \<longleftrightarrow> length (id_product i) \<le> 32 \<and> length (id_fw_version i) \<le> 24 \<and> length (id_hub_name i) \<le> 32"

lemmas identity_limits = kIdentityProductMaxBytes_def kIdentityFwVersionMaxBytes_def kIdentityHubNameMaxBytes_def

lemma emits_limits [emit_intros]: "d < 4 \<Longrightarrow> emits d (encodeWelcomeLimits l) (CMap (limits_kvs l))"
  unfolding encodeWelcomeLimits_def limits_kvs_def
  by (rule emits_map) (rule emit_intros | simp)+

lemma emits_identity [emit_intros]: "d < 4 \<Longrightarrow> emits d (encodeIdentity i) (CMap (identity_kvs i))"
  unfolding encodeIdentity_def identity_kvs_def
  by (rule emits_map) (rule emit_intros | simp | simp split: option.splits)+

lemma reads_limits:
  assumes "d < 4"
  shows "reads d (decode_map decodeWelcomeLimits_key WelcomeLimits_new) (CMap (limits_kvs l)) l"
proof -
  have "runs d decodeWelcomeLimits_key (limits_kvs l) WelcomeLimits_new l"
  proof (cases l)
    case (fields mf ms rp pf)
    note opt = runs_default [where x = pf and u = wl_max_subscriptions_per_frame_update and b = "pf > 0"]
    show ?thesis
      unfolding limits_kvs_def WelcomeLimits_new_def fields WelcomeLimits.select_convs
      by (rule run_intros opt | simp add: decodeWelcomeLimits_key_def word_gt_0)+
  qed
  then show ?thesis using assms by (intro reads_decode_map) (auto simp: limits_kvs_def)
qed

lemma reads_identity:
  assumes "d < 4" and "identity_ok i"
  shows "reads d (decode_map decodeIdentity_key IdentityInfo_new) (CMap (identity_kvs i)) i"
proof -
  have "runs d decodeIdentity_key (identity_kvs i) IdentityInfo_new i"
  proof (cases i)
    case (fields pr fw hn hi)
    note opt = runs_default [where x = pr and u = id_product_update and b = "pr \<noteq> []"]
      runs_default [where x = fw and u = id_fw_version_update and b = "fw \<noteq> []"]
      runs_default [where x = hn and u = id_hub_name_update and b = "hn \<noteq> []"]
      runs_optional [where x = hi and u = id_hub_instance_id_update]
    have ok: "length pr \<le> 32" "length fw \<le> 24" "length hn \<le> 32" using assms(2) by (simp_all add: identity_ok_def fields)
    then have len: "length pr < 2 ^ 64" "length fw < 2 ^ 64" "length hn < 2 ^ 64"
        "\<not> 32 < length pr" "\<not> 24 < length fw" "\<not> 32 < length hn" by simp_all
    show ?thesis
      unfolding identity_kvs_def IdentityInfo_new_def fields IdentityInfo.select_convs
      by (rule run_intros opt | simp add: decodeIdentity_key_def identity_limits ok len [simplified])+
  qed
  then show ?thesis using assms by (intro reads_decode_map) (auto simp: identity_kvs_def split: option.splits)
qed

definition welcome_kvs :: "WelcomeMsg \<Rightarrow> (u64 \<times> cbor) list" where
  "welcome_kvs m = [(1, CUint (ucast (wm_proto_ver m)))] @ [(6, CUint (ucast (wm_session_id m)))] @
    [(7, CUint (ucast (wm_boot_id m)))] @ [(8, CBytes (wm_catalog_etag m))] @ [(9, CUint (ucast (wm_cfg_gen m)))] @
    [(22, CMap (limits_kvs (wm_limits_info m)))] @ [(23, CUint (ucast (wm_roles m)))] @
    [(24, CUint (ucast (wm_deadman_ms m)))] @ [(25, CUint (ucast (wm_deadman_policy m)))] @
    [(29, CBytes (wm_nonce m))] @ [(35, CArray (map (CMap \<circ> grant_entry_kvs) (wm_grants m)))] @
    (if wm_granted_publishes m \<noteq> []
     then [(36, CArray (map (CMap \<circ> granted_publish_kvs) (wm_granted_publishes m)))] else []) @
    (case wm_identity m of None \<Rightarrow> [] | Some i \<Rightarrow> (if id_any i then [(37, CMap (identity_kvs i))] else [])) @
    (case wm_trust m of None \<Rightarrow> [] | Some t \<Rightarrow> (if tm_any t then [(39, CMap (trust_kvs t))] else [])) @
    (if wm_ws_port m \<noteq> 0 then [(46, CUint (ucast (wm_ws_port m)))] else []) @
    (if wm_ipv4 m \<noteq> 0 then [(47, CUint (ucast (wm_ipv4 m)))] else []) @ []"

definition welcome_ok :: "WelcomeMsg \<Rightarrow> bool" where
  "welcome_ok m \<longleftrightarrow> length (wm_catalog_etag m) = 8 \<and> length (wm_nonce m) = 8 \<and>
     length (wm_grants m) \<le> 16 \<and> length (wm_granted_publishes m) \<le> 8 \<and>
     (case wm_identity m of None \<Rightarrow> True | Some i \<Rightarrow> id_any i \<and> identity_ok i) \<and>
     (case wm_trust m of None \<Rightarrow> True | Some t \<Rightarrow> tm_any t \<and> trust_ok t)"

lemma encodeWelcome_image:
  assumes "welcome_ok m"
  shows "encodeWelcome m cap = (if length (enc (CMap (welcome_kvs m))) \<le> cap then enc (CMap (welcome_kvs m)) else [])"
proof -
  have ok: "length (wm_grants m) \<le> 16" "length (wm_granted_publishes m) \<le> 8" using assms by (simp_all add: welcome_ok_def)
  have guard: "\<not> (length (wm_grants m) > kWelcomeMaxGrants \<or>
      length (wm_granted_publishes m) > kWelcomeMaxGrantedPublishes \<or> identity_oversize m)"
    using assms by (auto simp: welcome_ok_def grant_limits identity_oversize_def identity_ok_def identity_limits
        split: option.splits)
  have n: "11 + (if wm_granted_publishes m \<noteq> [] then 1 else 0) + (if wm_hasIdentity m then 1 else 0) +
      (if wm_hasTrust m then 1 else 0) + (if wm_ws_port m \<noteq> 0 then 1 else 0) + (if wm_ipv4 m \<noteq> 0 then 1 else 0) =
      (word_of_nat (length (welcome_kvs m)) :: u32)"
    by (simp add: welcome_kvs_def wm_hasIdentity_def wm_hasTrust_def split: option.split)
  show ?thesis
    unfolding encodeWelcome_def Let_def if_not_P [OF guard] n unfolding welcome_kvs_def
    by (rule emits_seq_result, rule emits_map)
      (rule emit_intros | simp | use ok in simp | simp split: option.splits)+
qed

lemma welcome_runs:
  assumes "welcome_ok m"
  shows "runs 0 decodeWelcome_key (welcome_kvs m) (WelcomeMsg_new, {})
    (m, {35, 29, 25, 24, 23, 22, 9, 8, 7, 6, 1})"
proof (cases m)
  case (fields pv si bi et cg li ro dm dp no gs ps id wp ip tr)
  note opt = runs_default [where x = ps and u = "\<lambda>f (m, g). (wm_granted_publishes_update f m, g)" and b = "ps \<noteq> []"]
    runs_default [where x = wp and u = "\<lambda>f (m, g). (wm_ws_port_update f m, g)" and b = "wp \<noteq> 0"]
    runs_default [where x = ip and u = "\<lambda>f (m, g). (wm_ipv4_update f m, g)" and b = "ip \<noteq> 0"]
    runs_optional [where x = id and u = "\<lambda>f (m, g). (wm_identity_update f m, g)"]
    runs_optional [where x = tr and u = "\<lambda>f (m, g). (wm_trust_update f m, g)"]
  have ok: "length et = 8" "length no = 8" "length gs \<le> 16" "length ps \<le> 8"
      "\<And>t. tr = Some t \<Longrightarrow> trust_ok t" "\<And>t. tr = Some t \<Longrightarrow> tm_any t"
      "\<And>i. id = Some i \<Longrightarrow> identity_ok i" "\<And>i. id = Some i \<Longrightarrow> id_any i"
    using assms by (auto simp: welcome_ok_def fields)
  show ?thesis
    unfolding welcome_kvs_def fields WelcomeMsg.select_convs WelcomeMsg_new_def
    by (rule run_intros opt reads_trust reads_limits reads_identity reads_grant_entries reads_granted_publishes
        | simp add: decodeWelcome_key_def grant_limits ok)+
qed

lemma welcome_keys:
  "sorted_wrt (<) (map fst (welcome_kvs m))"
  "fst ` set (welcome_kvs m) \<subseteq> {1, 6, 7, 8, 9, 22, 23, 24, 25, 29, 35, 36, 37, 39, 46, 47}"
  "length (welcome_kvs m) < 2 ^ 32"
  by (auto simp: welcome_kvs_def split: option.splits)

lemma decodeWelcome_skip:
  "k \<notin> {1, 6, 7, 8, 9, 22, 23, 24, 25, 29, 35, 36, 37, 39, 46, 47} \<Longrightarrow> decodeWelcome_key k m = skip_unknown m"
  by (cases m) (auto simp: decodeWelcome_key_def)

interpretation welcome_codec: cbor_message welcome_kvs encodeWelcome decodeWelcome
  "{1, 6, 7, 8, 9, 22, 23, 24, 25, 29, 35, 36, 37, 39, 46, 47}" welcome_ok
proof (unfold_locales, goal_cases)
  case (2 m kvs' rest)
  then show ?case
    using decode_map_top [where h = decodeWelcome_key
        and known = "{1, 6, 7, 8, 9, 22, 23, 24, 25, 29, 35, 36, 37, 39, 46, 47}"
        and m = "(WelcomeMsg_new, {})" and m' = "(m, {35, 29, 25, 24, 23, 22, 9, 8, 7, 6, 1})"
        and kvs = kvs' and rest = rest] welcome_runs [of m] decodeWelcome_skip
    by (auto simp: decodeWelcome_def simp del: enc.simps)
qed (use welcome_keys encodeWelcome_image in auto)

section \<open>Every accepted answer is within its limits\<close>

definition welcome_sized :: "WelcomeMsg \<Rightarrow> bool" where
  "welcome_sized m \<longleftrightarrow> length (wm_catalog_etag m) = 8 \<and> length (wm_nonce m) = 8 \<and>
     length (wm_grants m) \<le> 16 \<and> length (wm_granted_publishes m) \<le> 8 \<and>
     (case wm_identity m of None \<Rightarrow> True | Some i \<Rightarrow> identity_ok i) \<and>
     (case wm_trust m of None \<Rightarrow> True | Some t \<Rightarrow> trust_ok t)"

lemma decodeIdentity_ok:
  assumes "decode_map decodeIdentity_key (case x of None \<Rightarrow> IdentityInfo_new | Some i \<Rightarrow> i) r = Inr (i', r')"
    and "case x of None \<Rightarrow> True | Some i \<Rightarrow> identity_ok i"
  shows "identity_ok i'"
proof -
  have "identity_ok (case x of None \<Rightarrow> IdentityInfo_new | Some i \<Rightarrow> i)"
    using assms(2) by (auto simp: identity_ok_def IdentityInfo_new_def split: option.splits)
  with assms(1) show ?thesis
    by (rule decode_map_invariant) (auto simp: decodeIdentity_key_def rbind_Inr_iff identity_ok_def identity_limits
        dest!: skip_unknown_invariant split: if_splits)
qed

lemma decodeWelcome_key_sized:
  assumes "decodeWelcome_key k (m, got) r = Inr ((m', got'), r')" and "welcome_sized m"
  shows "welcome_sized m'"
  using assms unfolding decodeWelcome_key_def prod.case grant_limits
  by (elim if_Inr_elim rbind_elim)
    (simp_all add: welcome_sized_def
      | force simp: welcome_sized_def dest: skip_unknown_invariant decodeTrustMap_opt_ok decode_list_bound decodeIdentity_ok)+

lemma decodeWelcome_sized:
  assumes "decodeWelcome inp = Inr m"
  shows "welcome_sized m"
proof -
  obtain g r where "decode_map decodeWelcome_key (WelcomeMsg_new, {}) (CborReader_new inp) = Inr ((m, g), r)"
    using assms by (auto simp: decodeWelcome_def rbind_Inr_iff split: if_splits)
  then have "(\<lambda>(m, g). welcome_sized m) (m, g)"
    by (rule decode_map_invariant) (auto intro: decodeWelcome_key_sized, simp add: welcome_sized_def WelcomeMsg_new_def)
  then show ?thesis by simp
qed

lemma ucast_roles_le: "\<not> 2 < (v :: u64) \<Longrightarrow> (ucast v :: u8) \<le> 2"
proof -
  assume "\<not> 2 < v"
  then have "unat v \<le> 2" by (simp add: word_less_nat_alt)
  moreover have "unat (ucast v :: u8) \<le> unat v"
    unfolding unsigned_ucast_eq by (rule take_bit_nat_less_eq_self)
  ultimately show ?thesis by (simp add: word_le_nat_alt)
qed

lemma decodeGrant_sized:
  assumes "decodeGrant inp = Inr m"
  shows "grant_ok m"
proof -
  obtain g r where "decode_map decodeGrant_key (GrantMsg_new, False) (CborReader_new inp) = Inr ((m, g), r)"
    using assms by (auto simp: decodeGrant_def rbind_Inr_iff split: if_splits)
  then have "(\<lambda>(m, g). grant_ok m) (m, g)"
    by (rule decode_map_invariant) (auto simp: decodeGrant_key_def rbind_Inr_iff grant_ok_def GrantMsg_new_def grant_limits
        ucast_roles_le dest!: skip_unknown_invariant decode_list_bound split: if_splits)
  then show ?thesis by simp
qed

section \<open>Properties\<close>

text \<open>
  WELCOME and GRANT on the wire: an answer within the size limits is written completely or not
  at all, and decodes to the same grants, limits, identity and trust map.
\<close>

theorem answers_roundtrip:
  assumes "welcome_ok m" and "grant_ok g"
  shows "(if length (enc (CMap (welcome_kvs m))) \<le> cap
          then encodeWelcome m cap \<noteq> [] \<and> decodeWelcome (encodeWelcome m cap @ rest) = Inr m
          else encodeWelcome m cap = []) \<and>
         (if length (enc (CMap (grant_kvs g))) \<le> cap
          then encodeGrant g cap \<noteq> [] \<and> decodeGrant (encodeGrant g cap @ rest) = Inr g
          else encodeGrant g cap = [])"
  by (rule conjI [OF welcome_codec.roundtrip [OF assms(1)] grant_codec.roundtrip [OF assms(2)]])

theorem answers_roundtrip_witness:
  "decodeGrant (encodeGrant \<lparr> gm_roles = Some 2, gm_grants = [Grant_new], gm_granted_publishes = [] \<rparr> 40) =
     Inr \<lparr> gm_roles = Some 2, gm_grants = [Grant_new], gm_granted_publishes = [] \<rparr>"
proof -
  let ?g = "\<lparr> gm_roles = Some 2, gm_grants = [Grant_new], gm_granted_publishes = [] \<rparr>"
  have "welcome_ok WelcomeMsg_new" "grant_ok ?g" by (simp_all add: welcome_ok_def WelcomeMsg_new_def grant_ok_def)
  moreover have "length (enc (CMap (grant_kvs ?g))) \<le> 40"
    by (simp add: grant_kvs_def grant_entry_kvs_def Grant_new_def head_bytes_def)
  ultimately show ?thesis using answers_roundtrip [of WelcomeMsg_new ?g 40 "[]"] by simp
qed

text \<open>
  Old clients understand new hubs: a WELCOME that carries, besides the keys of this version, any
  well-formed values under keys the decoder does not know decodes to the same message.
\<close>

theorem welcome_forward_compatible:
  assumes "welcome_ok m" and "sorted_wrt (<) (map fst kvs)" and "length kvs < 2 ^ 32"
    and "filter (\<lambda>(k, v). k \<in> {1, 6, 7, 8, 9, 22, 23, 24, 25, 29, 35, 36, 37, 39, 46, 47}) kvs = welcome_kvs m"
    and "list_all (\<lambda>(k, v). k \<in> {1, 6, 7, 8, 9, 22, 23, 24, 25, 29, 35, 36, 37, 39, 46, 47} \<or> cbor_ok 3 v) kvs"
  shows "decodeWelcome (enc (CMap kvs)) = Inr m"
  using assms by (intro welcome_codec.forward_compatible) (auto simp: list_all_iff)

theorem welcome_forward_compatible_witness:
  "decodeWelcome (enc (CMap (welcome_kvs WelcomeMsg_new @ [(90, CArray [CUint 1])]))) = Inr WelcomeMsg_new"
proof -
  have w: "welcome_kvs WelcomeMsg_new = [(1, CUint 1), (6, CUint 0), (7, CUint 0), (8, CBytes (replicate 8 0)),
      (9, CUint 0), (22, CMap (limits_kvs WelcomeLimits_new)), (23, CUint 0), (24, CUint 600), (25, CUint 0),
      (29, CBytes (replicate 8 0)), (35, CArray [])]"
    by (simp add: welcome_kvs_def WelcomeMsg_new_def)
  have "welcome_ok WelcomeMsg_new" by (simp add: welcome_ok_def WelcomeMsg_new_def)
  then show ?thesis
    by (rule welcome_forward_compatible) (simp_all add: w numeral_3_eq_3)
qed

text \<open>
  Whatever bytes arrive, an accepted WELCOME or GRANT fits the fixed arrays and string bounds of
  its struct, and an accepted GRANT never carries a role above \<open>configure\<close>.
\<close>

theorem answer_decoders_bounded:
  "(case decodeWelcome inp of Inl e \<Rightarrow> True | Inr m \<Rightarrow> welcome_sized m) \<and>
   (case decodeGrant inp of Inl e \<Rightarrow> True | Inr m \<Rightarrow> grant_ok m)"
  using decodeWelcome_sized [of inp] decodeGrant_sized [of inp] by (auto split: sum.splits)

text \<open>
  The role of a PAIR_GRANT is reduced modulo 256 instead of being checked: a grant that carries
  role 258 is accepted as role 2 (\<open>configure\<close>), which the GRANT decoder, reading the same key, rejects.
\<close>

theorem pair_grant_role_wraps:
  "decodePairGrant (enc (CMap [(5, CBytes (replicate 16 0)), (23, CUint 258)])) =
     Inr \<lparr> pg_token = replicate 16 0, pg_roles = 2, pg_trust = None \<rparr> \<and>
   decodeGrant (enc (CMap [(23, CUint 258), (35, CArray [])])) = Inl Malformed"
  by code_simp

end
