(* ===== verification/Msg_Blob.thy ===== *)
theory Msg_Blob
  imports Cbor_Message
begin

text \<open>
  BLOB_REQ and PROBE_REPORT, from \<^verbatim>\<open>wire/messages/blob_req.hpp\<close> and
  \<^verbatim>\<open>wire/messages/probe_report.hpp\<close>.
\<close>

section \<open>Definitions: BLOB_REQ\<close>

definition kBlobReqMaxChunks :: nat where "kBlobReqMaxChunks = 32"

text \<open>\<^verbatim>\<open>blob_ns::catalog\<close>; the keys of the sub-map are \<open>ns\<close> 1, \<open>store_id\<close> 2, \<open>slot\<close> 3, \<open>generation\<close> 4.\<close>

abbreviation (input) blob_ns_catalog :: u8 where "blob_ns_catalog \<equiv> 0"

record BlobId =
  bi_ns :: u8
  bi_store_id :: "u8 option"
  bi_slot :: "u8 option"
  bi_generation :: "u16 option"

definition BlobId_new :: BlobId where
  "BlobId_new = \<lparr> bi_ns = blob_ns_catalog, bi_store_id = None, bi_slot = None, bi_generation = None \<rparr>"

definition isCatalog :: "BlobId \<Rightarrow> bool" where
  "isCatalog b \<longleftrightarrow> bi_ns b = blob_ns_catalog"

text \<open>An absent \<open>store_id\<close> or \<open>slot\<close> keeps its initial value 0 in the struct.\<close>

definition sameTarget :: "BlobId \<Rightarrow> BlobId \<Rightarrow> bool" where
  "sameTarget a b \<longleftrightarrow> bi_ns a = bi_ns b \<and>
     (case bi_store_id a of None \<Rightarrow> 0 | Some v \<Rightarrow> v) = (case bi_store_id b of None \<Rightarrow> 0 | Some v \<Rightarrow> v) \<and>
     (case bi_slot a of None \<Rightarrow> 0 | Some v \<Rightarrow> v) = (case bi_slot b of None \<Rightarrow> 0 | Some v \<Rightarrow> v)"

record BlobReqMsg =
  br_blob :: BlobId
  br_full :: bool
  br_chunks :: "u16 list"

definition BlobReqMsg_new :: BlobReqMsg where
  "BlobReqMsg_new = \<lparr> br_blob = BlobId_new, br_full = True, br_chunks = [] \<rparr>"

definition blobKeys :: "BlobId \<Rightarrow> u32" where
  "blobKeys b = (if \<not> isCatalog b then 1 else 0) + present (bi_store_id b) + present (bi_slot b) +
     present (bi_generation b)"

definition encodeBlobReq :: "BlobReqMsg \<Rightarrow> nat \<Rightarrow> bytes" where
  "encodeBlobReq m cap =
    (if length (br_chunks m) > kBlobReqMaxChunks \<or> br_full m \<and> br_chunks m \<noteq> [] \<or>
        \<not> br_full m \<and> br_chunks m = [] \<or>
        isCatalog (br_blob m) \<and> (bi_store_id (br_blob m) \<noteq> None \<or> bi_slot (br_blob m) \<noteq> None) then []
     else
       let b = br_blob m;
           nBlobKeys = blobKeys b;
           nKeys = (if br_full m then 0 else 1) + (if nBlobKeys > 0 then 1 else 0) in
       w_result (w_seq
         [mapHeader nKeys,
          w_when (\<not> br_full m) (w_kv CK_chunks (w_list (\<lambda>c. uintVal (ucast c)) (br_chunks m))),
          w_when (nBlobKeys > 0) (w_kv CK_blob (w_seq
            [mapHeader nBlobKeys,
             w_when (\<not> isCatalog b) (w_kv 1 (uintVal (ucast (bi_ns b)))),
             w_opt (bi_store_id b) (\<lambda>v. w_kv 2 (uintVal (ucast v))),
             w_opt (bi_slot b) (\<lambda>v. w_kv 3 (uintVal (ucast v))),
             w_opt (bi_generation b) (\<lambda>v. w_kv 4 (uintVal (ucast v)))]))]
         (CborWriter_new cap)))"

definition decodeBlobId_key :: "BlobId handler" where
  "decodeBlobId_key k = (\<lambda>b r.
    if k = 1 then
      rbind (readUint r) (\<lambda>(v, r). if v > 0xFF then Inl Malformed else Inr (b \<lparr> bi_ns := ucast v \<rparr>, r))
    else if k = 2 then
      rbind (readUint r) (\<lambda>(v, r). if v > 0xFF then Inl Malformed else Inr (b \<lparr> bi_store_id := Some (ucast v) \<rparr>, r))
    else if k = 3 then
      rbind (readUint r) (\<lambda>(v, r). if v > 0xFF then Inl Malformed else Inr (b \<lparr> bi_slot := Some (ucast v) \<rparr>, r))
    else if k = 4 then
      rbind (readUint r) (\<lambda>(v, r).
        if v > 0xFFFF then Inl Malformed else Inr (b \<lparr> bi_generation := Some (ucast v) \<rparr>, r))
    else skip_unknown b r)"

definition decodeBlobId :: "BlobId \<Rightarrow> CborReader \<Rightarrow> (BlobId \<times> CborReader) result" where
  "decodeBlobId b r = decode_map decodeBlobId_key b r"

definition decodeChunkIndex :: "CborReader \<Rightarrow> (u16 \<times> CborReader) result" where
  "decodeChunkIndex r = rbind (readUint r) (\<lambda>(v, r). if v > 0xFFFF then Inl Malformed else Inr (ucast v, r))"

text \<open>Unlike the other lists, an empty one is refused after its header.\<close>

definition decodeBlobReq_key :: "BlobReqMsg handler" where
  "decodeBlobReq_key k = (\<lambda>m r.
    if k = CK_chunks then
      rbind (decode_list kBlobReqMaxChunks decodeChunkIndex r) (\<lambda>(v, r).
        if v = [] then Inl Malformed else Inr (m \<lparr> br_chunks := v, br_full := False \<rparr>, r))
    else if k = CK_blob then
      rbind (decodeBlobId (br_blob m) r) (\<lambda>(b, r). Inr (m \<lparr> br_blob := b \<rparr>, r))
    else skip_unknown m r)"

definition decodeBlobReq :: "bytes \<Rightarrow> BlobReqMsg result" where
  "decodeBlobReq inp =
    rbind (decode_map decodeBlobReq_key BlobReqMsg_new (CborReader_new inp)) (\<lambda>(m, _).
      if isCatalog (br_blob m) \<and> (bi_store_id (br_blob m) \<noteq> None \<or> bi_slot (br_blob m) \<noteq> None)
      then Inl Malformed else Inr m)"

section \<open>Definitions: PROBE_REPORT\<close>

record ProbeResult =
  pq_bytes_received :: u32
  pq_span_ms :: u32
  pq_loss_pct_x100 :: u32
  pq_rtt_ms :: u32

definition ProbeResult_new :: ProbeResult where
  "ProbeResult_new = \<lparr> pq_bytes_received = 0, pq_span_ms = 0, pq_loss_pct_x100 = 0, pq_rtt_ms = 0 \<rparr>"

record ProbeReportMsg =
  pq_probe_result :: ProbeResult

definition encodeProbeReport :: "ProbeReportMsg \<Rightarrow> nat \<Rightarrow> bytes" where
  "encodeProbeReport m cap = w_result (w_seq
     [mapHeader 1,
      w_kv CK_probe_result (w_seq
        [mapHeader 4,
         w_kv 1 (uintVal (ucast (pq_bytes_received (pq_probe_result m)))),
         w_kv 2 (uintVal (ucast (pq_span_ms (pq_probe_result m)))),
         w_kv 3 (uintVal (ucast (pq_loss_pct_x100 (pq_probe_result m)))),
         w_kv 4 (uintVal (ucast (pq_rtt_ms (pq_probe_result m))))])]
     (CborWriter_new cap))"

definition decodeProbeResult_key :: "ProbeResult handler" where
  "decodeProbeResult_key k = (\<lambda>p r.
    if k = 1 then rbind (readUint r) (\<lambda>(v, r). Inr (p \<lparr> pq_bytes_received := ucast v \<rparr>, r))
    else if k = 2 then rbind (readUint r) (\<lambda>(v, r). Inr (p \<lparr> pq_span_ms := ucast v \<rparr>, r))
    else if k = 3 then rbind (readUint r) (\<lambda>(v, r). Inr (p \<lparr> pq_loss_pct_x100 := ucast v \<rparr>, r))
    else if k = 4 then rbind (readUint r) (\<lambda>(v, r). Inr (p \<lparr> pq_rtt_ms := ucast v \<rparr>, r))
    else skip_unknown p r)"

definition decodeProbeReport_key :: "(ProbeReportMsg \<times> bool) handler" where
  "decodeProbeReport_key k = (\<lambda>(m, gotProbeResult) r.
    if k = CK_probe_result then
      rbind (decode_map decodeProbeResult_key (pq_probe_result m) r) (\<lambda>(p, r).
        Inr ((m \<lparr> pq_probe_result := p \<rparr>, True), r))
    else skip_unknown (m, gotProbeResult) r)"

definition decodeProbeReport :: "bytes \<Rightarrow> ProbeReportMsg result" where
  "decodeProbeReport inp =
    rbind (decode_map decodeProbeReport_key (\<lparr> pq_probe_result = ProbeResult_new \<rparr>, False) (CborReader_new inp))
      (\<lambda>((m, gotProbeResult), _). if \<not> gotProbeResult then Inl Malformed else Inr m)"

section \<open>BLOB_REQ round trip\<close>

definition blob_id_kvs :: "BlobId \<Rightarrow> (u64 \<times> cbor) list" where
  "blob_id_kvs b = (if \<not> isCatalog b then [(1, CUint (ucast (bi_ns b)))] else []) @
     (case bi_store_id b of None \<Rightarrow> [] | Some v \<Rightarrow> [(2, CUint (ucast v))]) @
     (case bi_slot b of None \<Rightarrow> [] | Some v \<Rightarrow> [(3, CUint (ucast v))]) @
     (case bi_generation b of None \<Rightarrow> [] | Some v \<Rightarrow> [(4, CUint (ucast v))]) @ []"

definition blob_req_kvs :: "BlobReqMsg \<Rightarrow> (u64 \<times> cbor) list" where
  "blob_req_kvs m = (if \<not> br_full m then [(27, CArray (map (CUint \<circ> ucast) (br_chunks m)))] else []) @
     (if blobKeys (br_blob m) > 0 then [(38, CMap (blob_id_kvs (br_blob m)))] else []) @ []"

definition blob_req_ok :: "BlobReqMsg \<Rightarrow> bool" where
  "blob_req_ok m \<longleftrightarrow> length (br_chunks m) \<le> 32 \<and> (br_full m \<longleftrightarrow> br_chunks m = []) \<and>
     (isCatalog (br_blob m) \<longrightarrow> bi_store_id (br_blob m) = None \<and> bi_slot (br_blob m) = None)"

lemma blob_id_kvs_length: "length (blob_id_kvs b) \<le> 4"
  by (auto simp: blob_id_kvs_def split: option.splits)

lemma blobKeys_eq: "blobKeys b = word_of_nat (length (blob_id_kvs b))"
  unfolding blobKeys_def blob_id_kvs_def length_append of_nat_add length_opt_pairs by simp

lemma blobKeys_pos: "blobKeys b > 0 \<longleftrightarrow> blob_id_kvs b \<noteq> []"
proof -
  have "unat (blobKeys b) = length (blob_id_kvs b)"
    using blob_id_kvs_length [of b] unfolding blobKeys_eq by (intro unat_length_u32) simp
  then show ?thesis by (metis length_0_conv word_gt_0 unat_eq_zero)
qed

lemma emits_chunk_indices [emit_intros]:
  "length cs < 2 ^ 32 \<Longrightarrow> d < 4 \<Longrightarrow>
   emits d (w_list (\<lambda>c :: u16. uintVal (ucast c)) cs) (CArray (map (CUint \<circ> ucast) cs))"
  by (rule emits_list) (simp_all add: emits_uint)

lemma encodeBlobReq_image:
  assumes "blob_req_ok m"
  shows "encodeBlobReq m cap = (if length (enc (CMap (blob_req_kvs m))) \<le> cap then enc (CMap (blob_req_kvs m)) else [])"
proof -
  have ok: "length (br_chunks m) \<le> 32" using assms by (simp add: blob_req_ok_def)
  have guard: "\<not> (length (br_chunks m) > kBlobReqMaxChunks \<or> br_full m \<and> br_chunks m \<noteq> [] \<or>
        \<not> br_full m \<and> br_chunks m = [] \<or>
        isCatalog (br_blob m) \<and> (bi_store_id (br_blob m) \<noteq> None \<or> bi_slot (br_blob m) \<noteq> None))"
    using assms by (auto simp: blob_req_ok_def kBlobReqMaxChunks_def)
  have inner: "emits (Suc 0) (w_seq
            [mapHeader (blobKeys b),
             w_when (\<not> isCatalog b) (w_kv 1 (uintVal (ucast (bi_ns b)))),
             w_opt (bi_store_id b) (\<lambda>v. w_kv 2 (uintVal (ucast v))),
             w_opt (bi_slot b) (\<lambda>v. w_kv 3 (uintVal (ucast v))),
             w_opt (bi_generation b) (\<lambda>v. w_kv 4 (uintVal (ucast v)))]) (CMap (blob_id_kvs b))" for b
    unfolding blobKeys_eq unfolding blob_id_kvs_def
    by (rule emits_map) (rule emit_intros | simp | simp split: option.splits)+
  show ?thesis
    unfolding encodeBlobReq_def Let_def if_not_P [OF guard] blob_req_kvs_def
    by (rule emits_seq_result, rule emits_map)
      (rule inner emits_chunk_indices emit_intros | simp | use ok in simp)+
qed

lemma reads_chunk_index: "reads d decodeChunkIndex (CUint (ucast c)) c"
  unfolding decodeChunkIndex_def [abs_def] by (rule reads_bind reads_uint | simp)+

lemma reads_chunk_indices:
  "length cs \<le> cap \<Longrightarrow> cap < 2 ^ 32 \<Longrightarrow> d < 4 \<Longrightarrow>
   reads d (decode_list cap decodeChunkIndex) (CArray (map (CUint \<circ> ucast) cs)) cs"
  by (rule reads_decode_list) (simp_all add: reads_chunk_index)

lemma reads_blob_id:
  assumes "d < 4"
  shows "reads d (decodeBlobId BlobId_new) (CMap (blob_id_kvs b)) b"
proof -
  have "runs d decodeBlobId_key (blob_id_kvs b) BlobId_new b"
  proof (cases b)
    case (fields ns st sl ge)
    note opt = runs_default [where x = ns and u = bi_ns_update and b = "\<not> ns = 0"]
      runs_optional [where x = st and u = bi_store_id_update]
      runs_optional [where x = sl and u = bi_slot_update]
      runs_optional [where x = ge and u = bi_generation_update]
    show ?thesis
      unfolding blob_id_kvs_def BlobId_new_def isCatalog_def fields BlobId.select_convs
      by (rule run_intros opt | simp add: decodeBlobId_key_def)+
  qed
  then show ?thesis
    unfolding decodeBlobId_def [abs_def] using assms blob_id_kvs_length [of b]
    by (intro reads_decode_map) (auto simp: blob_id_kvs_def split: option.splits)
qed

lemma blob_id_kvs_empty: "blob_id_kvs b = [] \<Longrightarrow> b = BlobId_new"
  by (cases b) (auto simp: blob_id_kvs_def isCatalog_def BlobId_new_def split: option.splits if_splits)

lemma blob_req_runs:
  assumes "blob_req_ok m"
  shows "runs 0 decodeBlobReq_key (blob_req_kvs m) BlobReqMsg_new m"
proof (cases m)
  case (fields b fu cs)
  have ok: "length cs \<le> 32" "fu \<longleftrightarrow> cs = []" using assms by (simp_all add: blob_req_ok_def fields)
  have "runs 0 decodeBlobReq_key (if \<not> fu then [(27, CArray (map (CUint \<circ> ucast) cs))] else [])
      BlobReqMsg_new (BlobReqMsg_new \<lparr> br_chunks := cs, br_full := fu \<rparr>)"
  proof (rule runs_if)
    assume "\<not> fu"
    then show "runs 0 decodeBlobReq_key [(27, CArray (map (CUint \<circ> ucast) cs))] BlobReqMsg_new
        (BlobReqMsg_new \<lparr> br_chunks := cs, br_full := fu \<rparr>)"
      using ok by - (rule run_intros reads_chunk_indices | simp add: decodeBlobReq_key_def kBlobReqMaxChunks_def)+
  qed (use ok in \<open>simp add: BlobReqMsg_new_def\<close>)
  moreover have "runs 0 decodeBlobReq_key (if blobKeys b > 0 then [(38, CMap (blob_id_kvs b))] else [])
      (BlobReqMsg_new \<lparr> br_chunks := cs, br_full := fu \<rparr>) m"
  proof (rule runs_if)
    show "runs 0 decodeBlobReq_key [(38, CMap (blob_id_kvs b))] (BlobReqMsg_new \<lparr> br_chunks := cs, br_full := fu \<rparr>) m"
      unfolding fields BlobReqMsg_new_def by (rule run_intros reads_blob_id | simp add: decodeBlobReq_key_def)+
  next
    assume "\<not> blobKeys b > 0"
    then show "m = BlobReqMsg_new \<lparr> br_chunks := cs, br_full := fu \<rparr>"
      by (simp add: blobKeys_pos blob_id_kvs_empty fields BlobReqMsg_new_def)
  qed
  ultimately show ?thesis
    unfolding blob_req_kvs_def fields BlobReqMsg.select_convs by (simp add: runs_append)
qed

lemma blob_req_keys:
  "sorted_wrt (<) (map fst (blob_req_kvs m))" "fst ` set (blob_req_kvs m) \<subseteq> {27, 38}"
  "length (blob_req_kvs m) < 2 ^ 32"
  by (auto simp: blob_req_kvs_def)

lemma decodeBlobReq_skip: "k \<notin> {27, 38} \<Longrightarrow> decodeBlobReq_key k m = skip_unknown m"
  by (auto simp: decodeBlobReq_key_def)

interpretation blob_req_codec: cbor_message blob_req_kvs encodeBlobReq decodeBlobReq "{27, 38}" blob_req_ok
proof (unfold_locales, goal_cases)
  case (2 m kvs' rest)
  then show ?case
    using decode_map_top [where h = decodeBlobReq_key and known = "{27, 38}" and m = BlobReqMsg_new and m' = m
        and kvs = kvs' and rest = rest] blob_req_runs [of m] decodeBlobReq_skip
    by (auto simp: decodeBlobReq_def blob_req_ok_def simp del: enc.simps)
qed (use blob_req_keys encodeBlobReq_image in auto)

section \<open>PROBE_REPORT round trip\<close>

definition probe_result_kvs :: "ProbeResult \<Rightarrow> (u64 \<times> cbor) list" where
  "probe_result_kvs p = [(1, CUint (ucast (pq_bytes_received p)))] @ [(2, CUint (ucast (pq_span_ms p)))] @
     [(3, CUint (ucast (pq_loss_pct_x100 p)))] @ [(4, CUint (ucast (pq_rtt_ms p)))] @ []"

definition probe_report_kvs :: "ProbeReportMsg \<Rightarrow> (u64 \<times> cbor) list" where
  "probe_report_kvs m = [(26, CMap (probe_result_kvs (pq_probe_result m)))] @ []"

lemma encodeProbeReport_image:
  "encodeProbeReport m cap =
    (if length (enc (CMap (probe_report_kvs m))) \<le> cap then enc (CMap (probe_report_kvs m)) else [])"
  unfolding encodeProbeReport_def probe_report_kvs_def probe_result_kvs_def
  by (rule emits_seq_result, rule emits_map) (rule emit_intros emits_map | simp)+

lemma reads_probe_result:
  assumes "d < 4"
  shows "reads d (decode_map decodeProbeResult_key ProbeResult_new) (CMap (probe_result_kvs p)) p"
proof -
  have "runs d decodeProbeResult_key (probe_result_kvs p) ProbeResult_new p"
    by (cases p, unfold probe_result_kvs_def ProbeResult_new_def)
      (rule run_intros | simp add: decodeProbeResult_key_def)+
  then show ?thesis using assms by (intro reads_decode_map) (auto simp: probe_result_kvs_def)
qed

lemma probe_report_runs:
  "runs 0 decodeProbeReport_key (probe_report_kvs m) (\<lparr> pq_probe_result = ProbeResult_new \<rparr>, False) (m, True)"
  by (cases m, unfold probe_report_kvs_def)
    (rule run_intros reads_probe_result | simp add: decodeProbeReport_key_def)+

lemma decodeProbeReport_skip: "k \<notin> {26} \<Longrightarrow> decodeProbeReport_key k m = skip_unknown m"
  by (cases m) (auto simp: decodeProbeReport_key_def)

interpretation probe_report_codec: cbor_message probe_report_kvs encodeProbeReport decodeProbeReport "{26}" "\<lambda>_. True"
proof (unfold_locales, goal_cases)
  case (2 m kvs' rest)
  then show ?case
    using decode_map_top [where h = decodeProbeReport_key and known = "{26}"
        and m = "(\<lparr> pq_probe_result = ProbeResult_new \<rparr>, False)" and m' = "(m, True)"
        and kvs = kvs' and rest = rest] probe_report_runs [of m] decodeProbeReport_skip
    by (auto simp: decodeProbeReport_def simp del: enc.simps)
qed (use encodeProbeReport_image in \<open>auto simp: probe_report_kvs_def\<close>)

section \<open>Properties\<close>

lemma decodeBlobReq_ok:
  assumes "decodeBlobReq inp = Inr m"
  shows "blob_req_ok m"
proof -
  obtain r where d: "decode_map decodeBlobReq_key BlobReqMsg_new (CborReader_new inp) = Inr (m, r)"
    and c: "\<not> (isCatalog (br_blob m) \<and> (bi_store_id (br_blob m) \<noteq> None \<or> bi_slot (br_blob m) \<noteq> None))"
    using assms by (auto simp: decodeBlobReq_def rbind_Inr_iff split: if_splits)
  from d have "length (br_chunks m) \<le> 32 \<and> (br_full m \<longleftrightarrow> br_chunks m = [])"
    by (rule decode_map_invariant) (auto simp: decodeBlobReq_key_def rbind_Inr_iff BlobReqMsg_new_def
        kBlobReqMaxChunks_def dest!: skip_unknown_invariant decode_list_bound split: if_splits)
  with c show ?thesis by (auto simp: blob_req_ok_def)
qed

text \<open>
  BLOB_REQ: the requests that survive the wire are exactly the consistent ones.  A request with
  at most 32 chunk indices that is full exactly when it names none, and that addresses no store or
  slot in the catalog namespace, round-trips; every other request is refused by the encoder; and
  every request a decoder accepts, whatever the bytes, is consistent in this sense.
\<close>

theorem blob_req_exact:
  "(if blob_req_ok m \<and> length (enc (CMap (blob_req_kvs m))) \<le> cap
    then encodeBlobReq m cap \<noteq> [] \<and> decodeBlobReq (encodeBlobReq m cap @ rest) = Inr m
    else encodeBlobReq m cap = []) \<and>
   (case decodeBlobReq inp of Inl e \<Rightarrow> True | Inr m' \<Rightarrow> blob_req_ok m')"
proof -
  have "\<not> blob_req_ok m \<Longrightarrow> encodeBlobReq m cap = []"
    by (auto simp: encodeBlobReq_def blob_req_ok_def kBlobReqMaxChunks_def)
  then show ?thesis
    using blob_req_codec.roundtrip [of m cap rest] decodeBlobReq_ok [of inp]
    by (cases "blob_req_ok m") (auto split: sum.splits if_splits simp del: enc.simps)
qed

text \<open>
  PROBE_REPORT on the wire: every report is written completely or not at all and decodes to
  itself, whatever follows it.
\<close>

theorem probe_report_roundtrip:
  "if length (enc (CMap (probe_report_kvs m))) \<le> cap
   then encodeProbeReport m cap \<noteq> [] \<and> decodeProbeReport (encodeProbeReport m cap @ rest) = Inr m
   else encodeProbeReport m cap = []"
  by (rule probe_report_codec.roundtrip) simp

end
