(* ===== verification/Fragmentation.thy ===== *)
theory Fragmentation
  imports Frame Estop Serial_Arith
begin

text \<open>
  Control-plane fragmentation and reassembly, \<^verbatim>\<open>wire/fragmentation.hpp\<close>.  The callback of
  \<open>fragmentFrame\<close> becomes the list of the frames it is called with.  The slots of the class
  \<open>Reassembler\<close> are a list, a \<open>Slot*\<close> is an index into it.  Buffers keep their fixed length, so a
  write past the end of one would show as a change of its length.
\<close>

section \<open>Definitions: the fragmenter\<close>

definition kFragIndexBytes :: nat where "kFragIndexBytes = 2"

text \<open>One iteration of the loop: the scratch buffer after it and the number of bytes to emit.\<close>

definition writeFragment :: "FrameHeader \<Rightarrow> bytes \<Rightarrow> nat \<Rightarrow> nat \<Rightarrow> nat \<Rightarrow> bytes \<Rightarrow> nat \<times> bytes" where
  "writeFragment header payload budget numFragments i scratch =
    (let offset = i * budget;
         len = min budget (length payload - offset);
         fh = header \<lparr> hdr_flags := (if i = 0 then FRAG_START else 0) OR (if i + 1 < numFragments then FRAG_MORE else 0),
                       hdr_len := word_of_nat (kFragIndexBytes + len) \<rparr>;
         (pos, out) = encodeFrameHeader fh scratch;
         pos2 = pos + fst (putU16 (drop pos out) (word_of_nat i));
         out = subspan_put pos putU16 (word_of_nat i) out;
         out = poke pos2 (take len (drop offset payload)) out
     in (pos2 + len, out))"

fun fragment_loop :: "FrameHeader \<Rightarrow> bytes \<Rightarrow> nat \<Rightarrow> nat \<Rightarrow> nat list \<Rightarrow> bytes \<Rightarrow> bytes list" where
  "fragment_loop header payload budget numFragments [] scratch = []"
| "fragment_loop header payload budget numFragments (i # is) scratch =
    (let (pos, scratch) = writeFragment header payload budget numFragments i scratch
     in take pos scratch # fragment_loop header payload budget numFragments is scratch)"

definition looksLikeEstop :: "bytes \<Rightarrow> bool" where
  "looksLikeEstop f \<longleftrightarrow> length f = kEstopFrameBytes \<and> f ! 0 = kEstopMagicByte \<and> f ! 1 = kEstopMagicByte \<and>
     f ! 2 = kEstopMagicByte \<and> f ! 3 = kEstopMagicByte"

definition fragmentFrame :: "bytes \<Rightarrow> u16 \<Rightarrow> bool \<times> bytes list" where
  "fragmentFrame wholeFrame maxFrameBytes =
    (if unat maxFrameBytes > kFrameBufferCapacity then (False, [])
     else if length wholeFrame \<le> unat maxFrameBytes then (True, [wholeFrame])
     else if looksLikeEstop wholeFrame then (False, [])
     else case decodeFrameHeader wholeFrame of
       None \<Rightarrow> (False, [])
     | Some header \<Rightarrow>
         if unat maxFrameBytes \<le> kHeaderBytes + kFragIndexBytes then (False, [])
         else
           let payload = drop kHeaderBytes wholeFrame;
               budget = unat maxFrameBytes - kHeaderBytes - kFragIndexBytes;
               total = length payload;
               numFragments = (total + budget - 1) div budget
           in (True, fragment_loop header payload budget numFragments [0..<numFragments]
                 (replicate kFrameBufferCapacity 0)))"

section \<open>Definitions: the reassembler\<close>

abbreviation (input) frag_reassembly_timeout_ms :: u32 where "frag_reassembly_timeout_ms \<equiv> 5000"
abbreviation (input) frag_max_concurrent_per_session :: nat where "frag_max_concurrent_per_session \<equiv> 2"

definition kMaxFragmentsPerMessage :: nat where "kMaxFragmentsPerMessage = 32"
definition kMaxSlotPayload :: nat where "kMaxSlotPayload = kFrameBufferCapacity - kHeaderBytes"

record Slot =
  sl_active :: bool
  sl_type :: u8
  sl_channel :: u16
  sl_seq :: u16
  sl_startMs :: u32
  sl_unitLen :: u16
  sl_totalFragments :: u16
  sl_lastFragLen :: u16
  sl_receivedMask :: u32
  sl_receivedCount :: u16
  sl_havePendingLast :: bool
  sl_pendingLastIndex :: u16
  sl_pendingLastLen :: u16
  sl_pendingLastBytes :: bytes
  sl_data :: bytes

definition Slot_new :: Slot where
  "Slot_new = \<lparr> sl_active = False, sl_type = 0, sl_channel = 0, sl_seq = 0, sl_startMs = 0, sl_unitLen = 0,
     sl_totalFragments = 0, sl_lastFragLen = 0, sl_receivedMask = 0, sl_receivedCount = 0,
     sl_havePendingLast = False, sl_pendingLastIndex = 0, sl_pendingLastLen = 0,
     sl_pendingLastBytes = replicate kMaxSlotPayload 0, sl_data = replicate kMaxSlotPayload 0 \<rparr>"

record FragStats =
  fs_reassemblies_completed :: u32
  fs_timeouts :: u32
  fs_evictions :: u32

record Reassembler =
  ra_slots :: "Slot list"
  ra_stats :: FragStats

definition Reassembler_new :: Reassembler where
  "Reassembler_new = \<lparr> ra_slots = replicate frag_max_concurrent_per_session Slot_new,
     ra_stats = \<lparr> fs_reassemblies_completed = 0, fs_timeouts = 0, fs_evictions = 0 \<rparr> \<rparr>"

definition slotKey :: "u8 \<Rightarrow> u16 \<Rightarrow> Slot \<Rightarrow> bool" where
  "slotKey ty sq s \<longleftrightarrow> sl_active s \<and> sl_type s = ty \<and> sl_seq s = sq"

definition findSlot :: "u8 \<Rightarrow> u16 \<Rightarrow> Reassembler \<Rightarrow> nat option" where
  "findSlot ty sq ra = find_index (slotKey ty sq) (ra_slots ra)"

definition setSlot :: "nat \<Rightarrow> Slot \<Rightarrow> Reassembler \<Rightarrow> Reassembler" where
  "setSlot i s ra = ra \<lparr> ra_slots := (ra_slots ra)[i := s] \<rparr>"

definition expireOne :: "u8 \<Rightarrow> u16 \<Rightarrow> u32 \<Rightarrow> Reassembler \<Rightarrow> Reassembler" where
  "expireOne ty sq now ra =
    (case findSlot ty sq ra of
       None \<Rightarrow> ra
     | Some i \<Rightarrow>
         let deadline = sl_startMs (ra_slots ra ! i) + frag_reassembly_timeout_ms in
         if timeReached now deadline
         then (setSlot i Slot_new ra) \<lparr> ra_stats := (ra_stats ra) \<lparr> fs_timeouts := fs_timeouts (ra_stats ra) + 1 \<rparr> \<rparr>
         else ra)"

definition expireStale :: "u32 \<Rightarrow> Reassembler \<Rightarrow> Reassembler" where
  "expireStale now ra = foldl (\<lambda>ra i.
     let s = ra_slots ra ! i in if sl_active s then expireOne (sl_type s) (sl_seq s) now ra else ra)
     ra [0..<length (ra_slots ra)]"

definition Slot_open :: "u8 \<Rightarrow> u16 \<Rightarrow> u32 \<Rightarrow> Slot" where
  "Slot_open ty sq now = Slot_new \<lparr> sl_active := True, sl_type := ty, sl_seq := sq, sl_startMs := now \<rparr>"

text \<open>The index of the slot with the greatest age, the first one on a tie.\<close>

definition oldestSlot :: "u32 \<Rightarrow> Slot list \<Rightarrow> nat" where
  "oldestSlot now ss = fst (foldl (\<lambda>(o', age') i.
     let age = timeDelta now (sl_startMs (ss ! i)) in if age > age' then (i, age) else (o', age'))
     (0, timeDelta now (sl_startMs (ss ! 0))) [0..<length ss])"

definition allocSlot :: "u8 \<Rightarrow> u16 \<Rightarrow> u32 \<Rightarrow> Reassembler \<Rightarrow> nat \<times> Reassembler" where
  "allocSlot ty sq now ra =
    (case find_index (\<lambda>s. \<not> sl_active s) (ra_slots ra) of
       Some i \<Rightarrow> (i, setSlot i (Slot_open ty sq now) ra)
     | None \<Rightarrow>
         let i = oldestSlot now (ra_slots ra) in
         (i, (setSlot i (Slot_open ty sq now) ra)
               \<lparr> ra_stats := (ra_stats ra) \<lparr> fs_evictions := fs_evictions (ra_stats ra) + 1 \<rparr> \<rparr>))"

definition placeFragment :: "Slot \<Rightarrow> u16 \<Rightarrow> bytes \<Rightarrow> bool \<times> Slot" where
  "placeFragment s index bs =
    (if sl_receivedMask s AND push_bit (unat index) 1 \<noteq> 0 then (True, s)
     else
       let offset = unat index * unat (sl_unitLen s) in
       if offset + length bs > length (sl_data s) then (False, s)
       else (True, s \<lparr> sl_data := poke offset bs (sl_data s),
                       sl_receivedMask := sl_receivedMask s OR push_bit (unat index) 1,
                       sl_receivedCount := sl_receivedCount s + 1 \<rparr>))"

text \<open>The three branches on the fragment flags; the first component is \<open>overflowed\<close>.\<close>

definition acceptInto :: "Slot \<Rightarrow> FrameHeader \<Rightarrow> u16 \<Rightarrow> bytes \<Rightarrow> bool \<times> Slot" where
  "acceptInto s header index piece =
    (let isStart = hdr_flags header AND FRAG_START \<noteq> 0;
         isMore = hdr_flags header AND FRAG_MORE \<noteq> 0 in
     if isStart \<and> \<not> isMore then
       let s = s \<lparr> sl_totalFragments := 1, sl_lastFragLen := word_of_nat (length piece) \<rparr>;
           (ok, s) = placeFragment s 0 piece
       in (\<not> ok, s)
     else if isMore then
       let s = (if sl_unitLen s = 0 then s \<lparr> sl_unitLen := word_of_nat (length piece) \<rparr> else s);
           (ok, s) = placeFragment s index piece in
       if ok \<and> sl_havePendingLast s \<and> sl_unitLen s \<noteq> 0 then
         let (ok, s) = placeFragment s (sl_pendingLastIndex s)
               (take (unat (sl_pendingLastLen s)) (sl_pendingLastBytes s))
         in (\<not> ok, s \<lparr> sl_havePendingLast := False \<rparr>)
       else (\<not> ok, s)
     else
       let s = s \<lparr> sl_totalFragments := index + 1, sl_lastFragLen := word_of_nat (length piece) \<rparr> in
       if sl_unitLen s \<noteq> 0 then
         let (ok, s) = placeFragment s index piece in (\<not> ok, s)
       else if length piece > length (sl_pendingLastBytes s) then (True, s)
       else (False, s \<lparr> sl_pendingLastBytes := poke 0 piece (sl_pendingLastBytes s),
                        sl_pendingLastLen := word_of_nat (length piece),
                        sl_pendingLastIndex := index, sl_havePendingLast := True \<rparr>))"

definition checkComplete :: "nat \<Rightarrow> Reassembler \<Rightarrow> FrameBuffer option result \<times> Reassembler" where
  "checkComplete i ra =
    (let s = ra_slots ra ! i in
     if sl_totalFragments s = 0 \<or> sl_receivedCount s \<noteq> sl_totalFragments s then (Inr None, ra)
     else
       let totalLen = (unat (sl_totalFragments s) - 1) * unat (sl_unitLen s) + unat (sl_lastFragLen s) in
       if totalLen > kFrameBufferCapacity - kHeaderBytes then (Inl CapacityExceeded, setSlot i Slot_new ra)
       else
         let outHeader = \<lparr> hdr_type = sl_type s, hdr_flags = 0, hdr_channel = sl_channel s, hdr_seq = sl_seq s,
                           hdr_len = word_of_nat totalLen \<rparr>;
             (pos, out) = encodeFrameHeader outHeader (fb_data FrameBuffer_new);
             fb = fb_setSize (pos + totalLen)
                    (FrameBuffer_new \<lparr> fb_data := poke pos (take totalLen (sl_data s)) out \<rparr>)
         in (Inr (Some fb),
             (setSlot i Slot_new ra) \<lparr> ra_stats := (ra_stats ra)
                \<lparr> fs_reassemblies_completed := fs_reassemblies_completed (ra_stats ra) + 1 \<rparr> \<rparr>))"

definition frag_accept :: "FrameHeader \<Rightarrow> bytes \<Rightarrow> u32 \<Rightarrow> Reassembler \<Rightarrow> FrameBuffer option result \<times> Reassembler" where
  "frag_accept header fragPayload now ra =
    (if length fragPayload < kFragIndexBytes then (Inr None, ra)
     else
       let index = getU16 (take 2 fragPayload) in
       if unat index \<ge> kMaxFragmentsPerMessage then (Inl CapacityExceeded, ra)
       else
         let piece = drop kFragIndexBytes fragPayload;
             ra = expireOne (hdr_type header) (hdr_seq header) now ra;
             (i, ra) = (case findSlot (hdr_type header) (hdr_seq header) ra of
                 Some i \<Rightarrow> (i, ra)
               | None \<Rightarrow> allocSlot (hdr_type header) (hdr_seq header) now ra);
             (overflowed, s) = acceptInto ((ra_slots ra ! i) \<lparr> sl_channel := hdr_channel header \<rparr>) header index piece
         in if overflowed then (Inl CapacityExceeded, setSlot i Slot_new ra)
            else checkComplete i (setSlot i s ra))"

section \<open>What the fragmenter emits\<close>

definition frag_piece :: "nat \<Rightarrow> bytes \<Rightarrow> nat \<Rightarrow> bytes" where
  "frag_piece B P i = take B (drop (i * B) P)"

definition frag_count :: "nat \<Rightarrow> bytes \<Rightarrow> nat" where
  "frag_count B P = (length P + B - 1) div B"

definition frag_header :: "FrameHeader \<Rightarrow> nat \<Rightarrow> bytes \<Rightarrow> nat \<Rightarrow> FrameHeader" where
  "frag_header h B P i =
     h \<lparr> hdr_flags := (if i = 0 then FRAG_START else 0) OR (if i + 1 < frag_count B P then FRAG_MORE else 0),
         hdr_len := word_of_nat (kFragIndexBytes + length (frag_piece B P i)) \<rparr>"

definition frag_image :: "FrameHeader \<Rightarrow> nat \<Rightarrow> bytes \<Rightarrow> nat \<Rightarrow> bytes" where
  "frag_image h B P i = header_bytes (frag_header h B P i) @ u16_bytes (word_of_nat i) @ frag_piece B P i"

lemma length_frag_piece: "length (frag_piece B P i) = min B (length P - i * B)"
  by (simp add: frag_piece_def)

lemma writeFragment_image:
  assumes "length scratch = 512" and "B + 10 \<le> 512"
  shows "writeFragment h P B (frag_count B P) i scratch =
    (length (frag_image h B P i), poke 0 (frag_image h B P i) scratch)"
proof -
  let ?p = "frag_piece B P i" and ?h = "frag_header h B P i"
  have len: "length ?p \<le> B" "take (min B (length P - i * B)) (drop (i * B) P) = ?p"
    by (simp_all add: frag_piece_def min_def)
  have "encodeFrameHeader ?h scratch = (8, poke 0 (header_bytes ?h) scratch)"
    using assms by (simp add: encodeFrameHeader_fits)
  moreover have "fst (putU16 (drop 8 (poke 0 (header_bytes ?h) scratch)) (word_of_nat i)) = 2"
    using assms by (simp add: putU16_def)
  ultimately show ?thesis
    using assms len
    by (simp add: writeFragment_def frag_header_def length_frag_piece [symmetric] kFragIndexBytes_def Let_def
        poke_poke_next frag_image_def)
qed

lemma fragment_loop_image:
  assumes "length scratch = 512" and "B + 10 \<le> 512"
  shows "fragment_loop h P B (frag_count B P) is scratch = map (frag_image h B P) is"
  using assms
proof (induction "is" arbitrary: scratch)
  case (Cons i "is")
  have "length (frag_image h B P i) \<le> 512"
    using Cons.prems(2) by (simp add: frag_image_def length_frag_piece)
  then show ?case
    using Cons by (simp add: writeFragment_image)
qed simp

lemma fragmentFrame_split:
  assumes "length frame > unat mx" and "unat mx \<le> 512" and "unat mx > 10" and "\<not> looksLikeEstop frame"
    and "decodeFrameHeader frame = Some h"
  shows "fragmentFrame frame mx =
    (True, map (frag_image h (unat mx - 10) (drop 8 frame)) [0..<frag_count (unat mx - 10) (drop 8 frame)])"
proof -
  have "fragment_loop h (drop 8 frame) (unat mx - 10) (frag_count (unat mx - 10) (drop 8 frame)) is (replicate 512 0) =
      map (frag_image h (unat mx - 10) (drop 8 frame)) is" for "is"
    using assms by (intro fragment_loop_image) auto
  then show ?thesis
    using assms by (simp add: fragmentFrame_def kHeaderBytes_def kFragIndexBytes_def kFrameBufferCapacity_def
        Let_def frag_count_def)
qed

lemma frag_count_bounds:
  assumes "0 < B"
  shows "frag_count B P * B < length P + B" "length P \<le> frag_count B P * B"
proof -
  let ?x = "length P + B - 1"
  have "?x = B * (?x div B) + ?x mod B" by simp
  moreover have "?x mod B < B" using assms by simp
  ultimately have *: "B * (?x div B) \<le> ?x" "?x < B * (?x div B) + B" by linarith+
  then have "B * (?x div B) < length P + B" "length P \<le> B * (?x div B)" using assms by linarith+
  then show "frag_count B P * B < length P + B" "length P \<le> frag_count B P * B"
    by (simp_all add: frag_count_def mult.commute)
qed

lemma frag_piece_full:
  assumes "0 < B" and "Suc i < frag_count B P"
  shows "length (frag_piece B P i) = B"
proof -
  have "Suc (Suc i) * B \<le> frag_count B P * B" using assms(2) by (intro mult_right_mono) auto
  then have "i * B + B \<le> length P" using frag_count_bounds(1) [OF assms(1), of P] by simp
  then show ?thesis by (simp add: length_frag_piece)
qed

lemma frag_piece_end:
  assumes "0 < B" and "i < frag_count B P"
  shows "i * B + length (frag_piece B P i) \<le> length P" "frag_piece B P i \<noteq> []"
    "Suc i = frag_count B P \<Longrightarrow> i * B + length (frag_piece B P i) = length P"
proof -
  have "Suc i * B \<le> frag_count B P * B" using assms(2) by (intro mult_right_mono) auto
  then have i: "i * B < length P" using frag_count_bounds(1) [OF assms(1), of P] by simp
  then show "i * B + length (frag_piece B P i) \<le> length P" by (simp add: length_frag_piece)
  show "frag_piece B P i \<noteq> []" using i assms(1) by (simp add: frag_piece_def)
  show "i * B + length (frag_piece B P i) = length P" if "Suc i = frag_count B P"
  proof -
    have "length P \<le> i * B + B" using frag_count_bounds(2) [OF assms(1), of P] unfolding that [symmetric] by simp
    then show ?thesis using i by (simp add: length_frag_piece)
  qed
qed

text \<open>A buffer that holds every piece at its offset holds the payload.\<close>

lemma pieces_cover:
  assumes "0 < B" and "length P \<le> length D"
    and "\<And>i. i < frag_count B P \<Longrightarrow> take (length (frag_piece B P i)) (drop (i * B) D) = frag_piece B P i"
  shows "take (length P) D = P"
proof (rule nth_equalityI)
  show "length (take (length P) D) = length P" using assms(2) by simp
  fix n assume "n < length (take (length P) D)"
  then have n: "n < length P" by simp
  let ?i = "n div B"
  have "n < frag_count B P * B" using n frag_count_bounds(2) [OF assms(1), of P] by linarith
  then have i: "?i < frag_count B P" using assms(1) by (simp add: div_less_iff_less_mult)
  have m: "?i * B + n mod B = n" by simp
  then have ib: "?i * B \<le> length P" using n by linarith
  have "r < min B (L - q * B)" if "q * B + r = n" "n < L" "r < B" for q r L using that by auto
  from this [OF m n] have "n mod B < length (frag_piece B P ?i)" using assms(1) by (simp add: length_frag_piece)
  then have "take (length (frag_piece B P ?i)) (drop (?i * B) D) ! (n mod B) = drop (?i * B) D ! (n mod B)"
      "frag_piece B P ?i ! (n mod B) = drop (?i * B) P ! (n mod B)"
    by (simp_all add: frag_piece_def)
  moreover have "drop (?i * B) D ! (n mod B) = D ! n" "drop (?i * B) P ! (n mod B) = P ! n"
    using nth_drop [of "?i * B" D "n mod B"] nth_drop [of "?i * B" P "n mod B"] m ib assms(2) by simp_all
  ultimately show "take (length P) D ! n = P ! n" using assms(3) [OF i] n by simp
qed

section \<open>Collecting fragments in one slot\<close>

text \<open>The fragments \<open>T\<close> lie at their offsets in the slot's buffer.\<close>

definition placed :: "nat \<Rightarrow> bytes \<Rightarrow> nat set \<Rightarrow> Slot \<Rightarrow> bool" where
  "placed B P T s \<longleftrightarrow> unat (sl_unitLen s) = B \<and> length (sl_data s) = 504 \<and>
     (\<forall>i < 32. bit (sl_receivedMask s) i \<longleftrightarrow> i \<in> T) \<and> sl_receivedCount s = word_of_nat (card T) \<and>
     T \<subseteq> {..<frag_count B P} \<and>
     (\<forall>i \<in> T. take (length (frag_piece B P i)) (drop (i * B) (sl_data s)) = frag_piece B P i)"

text \<open>A message that can be reassembled: it needs more than one fragment, at most 32, and fits a slot.\<close>

definition splits :: "nat \<Rightarrow> bytes \<Rightarrow> bool" where
  "splits B P \<longleftrightarrow> 0 < B \<and> B < length P \<and> length P \<le> 504 \<and> frag_count B P \<le> 32"

lemma splits_facts:
  assumes "splits B P"
  shows "0 < B" "length P \<le> 504" "frag_count B P \<le> 32" "Suc 0 < frag_count B P" "B < 504"
proof -
  have *: "0 < B" "B < length P" "length P \<le> 504" "frag_count B P \<le> 32" using assms by (auto simp: splits_def)
  have "1 * B < frag_count B P * B" using frag_count_bounds(2) [OF *(1), of P] *(2) by linarith
  then show "Suc 0 < frag_count B P" by (simp only: mult_less_cancel2 One_nat_def)
qed (use assms in \<open>auto simp: splits_def\<close>)

lemma pieces_apart:
  assumes "0 < B" and "i < frag_count B P" and "j < frag_count B P" and "i \<noteq> j"
  shows "i * B + length (frag_piece B P i) \<le> j * B \<or> j * B + length (frag_piece B P j) \<le> i * B"
proof (cases "i < j")
  case True
  then have "Suc i * B \<le> j * B" by (intro mult_right_mono) auto
  moreover have "length (frag_piece B P i) \<le> B" by (simp add: length_frag_piece)
  ultimately show ?thesis by simp
next
  case False
  then have "Suc j * B \<le> i * B" using assms(4) by (intro mult_right_mono) auto
  moreover have "length (frag_piece B P j) \<le> B" by (simp add: length_frag_piece)
  ultimately show ?thesis by simp
qed

lemma placeFragment_placed:
  assumes "splits B P" and "placed B P T s" and "i < frag_count B P"
  shows "\<exists>D M C. placeFragment s (word_of_nat i) (frag_piece B P i) =
      (True, s \<lparr> sl_data := D, sl_receivedMask := M, sl_receivedCount := C \<rparr>) \<and>
    placed B P (insert i T) (s \<lparr> sl_data := D, sl_receivedMask := M, sl_receivedCount := C \<rparr>)"
proof -
  note sp = splits_facts [OF assms(1)]
  have i: "i < 32" "unat (word_of_nat i :: u16) = i" using assms(3) sp(3) by (simp_all add: unat_of_nat)
  have pl: "unat (sl_unitLen s) = B" "length (sl_data s) = 504" "\<And>j. j < 32 \<Longrightarrow> bit (sl_receivedMask s) j \<longleftrightarrow> j \<in> T"
      "sl_receivedCount s = word_of_nat (card T)" "T \<subseteq> {..<frag_count B P}"
      "\<And>j. j \<in> T \<Longrightarrow> take (length (frag_piece B P j)) (drop (j * B) (sl_data s)) = frag_piece B P j"
    using assms(2) by (auto simp: placed_def)
  have test: "sl_receivedMask s AND push_bit i 1 \<noteq> 0 \<longleftrightarrow> i \<in> T"
    using pl(3) [OF i(1)] by (simp add: bit_iff_and_push_bit_not_eq_0)
  show ?thesis
  proof (cases "i \<in> T")
    case True
    then show ?thesis
      using test i assms(2) by (intro exI [of _ "sl_data s"] exI [of _ "sl_receivedMask s"]
          exI [of _ "sl_receivedCount s"]) (simp add: placeFragment_def insert_absorb)
  next
    case False
    let ?p = "frag_piece B P i"
    let ?D = "poke (i * B) ?p (sl_data s)"
    have fit: "i * B + length ?p \<le> 504" using frag_piece_end(1) [OF sp(1) assms(3)] sp(2) by linarith
    have "card (insert i T) = Suc (card T)" using False pl(5) finite_subset by fastforce
    moreover have "bit (sl_receivedMask s OR push_bit i 1) j \<longleftrightarrow> j \<in> insert i T" if "j < 32" for j
      using pl(3) [OF that] i(1) that by (auto simp: bit_or_iff bit_exp_iff)
    moreover have "take (length (frag_piece B P j)) (drop (j * B) ?D) = frag_piece B P j" if "j \<in> insert i T" for j
    proof (cases "j = i")
      case True
      then show ?thesis using take_drop_poke [of "i * B" ?p "sl_data s"] fit pl(2) by simp
    next
      case False
      then have j: "j \<in> T" "j < frag_count B P" using that pl(5) by auto
      then have "take (length (frag_piece B P j)) (drop (j * B) ?D) = take (length (frag_piece B P j)) (drop (j * B) (sl_data s))"
        using pieces_apart [OF sp(1) j(2) assms(3) False] frag_piece_end(1) [OF sp(1) j(2)] sp(2) fit pl(2)
        by (intro take_drop_poke_other) auto
      then show ?thesis using pl(6) [OF j(1)] by simp
    qed
    ultimately have "placed B P (insert i T) (s \<lparr> sl_data := ?D, sl_receivedMask := sl_receivedMask s OR push_bit i 1,
        sl_receivedCount := sl_receivedCount s + 1 \<rparr>)"
      using pl fit assms(3) by (simp add: placed_def add.commute)
    moreover have "placeFragment s (word_of_nat i) ?p = (True, s \<lparr> sl_data := ?D,
        sl_receivedMask := sl_receivedMask s OR push_bit i 1, sl_receivedCount := sl_receivedCount s + 1 \<rparr>)"
      using False test i pl(1,2) fit by (simp add: placeFragment_def Let_def)
    ultimately show ?thesis by blast
  qed
qed

text \<open>
  The state of a slot that has seen exactly the fragments \<open>S\<close>.  Until a full-size fragment arrives
  the unit length is unknown and the last fragment, if it came, waits in the pending buffer.
\<close>

definition waiting :: "nat \<Rightarrow> bytes \<Rightarrow> bool \<Rightarrow> Slot \<Rightarrow> bool" where
  "waiting B P haveLast s \<longleftrightarrow> sl_unitLen s = 0 \<and> length (sl_data s) = 504 \<and> sl_receivedMask s = 0 \<and>
     sl_receivedCount s = 0 \<and> (sl_havePendingLast s \<longleftrightarrow> haveLast) \<and>
     (haveLast \<longrightarrow> sl_pendingLastIndex s = word_of_nat (frag_count B P - 1) \<and>
        take (unat (sl_pendingLastLen s)) (sl_pendingLastBytes s) = frag_piece B P (frag_count B P - 1))"

definition collecting :: "nat \<Rightarrow> bytes \<Rightarrow> nat set \<Rightarrow> Slot \<Rightarrow> bool" where
  "collecting B P S s \<longleftrightarrow> length (sl_pendingLastBytes s) = 504 \<and> S \<subseteq> {..<frag_count B P} \<and>
     sl_totalFragments s = (if frag_count B P - 1 \<in> S then word_of_nat (frag_count B P) else 0) \<and>
     (frag_count B P - 1 \<in> S \<longrightarrow>
        sl_lastFragLen s = word_of_nat (length (frag_piece B P (frag_count B P - 1)))) \<and>
     (if S \<subseteq> {frag_count B P - 1} then waiting B P (frag_count B P - 1 \<in> S) s
      else placed B P S s \<and> \<not> sl_havePendingLast s)"

definition same_id :: "Slot \<Rightarrow> Slot \<Rightarrow> bool" where
  "same_id s s' \<longleftrightarrow> sl_active s' = sl_active s \<and> sl_type s' = sl_type s \<and> sl_channel s' = sl_channel s \<and>
     sl_seq s' = sl_seq s \<and> sl_startMs s' = sl_startMs s"

lemma same_id_refl [simp]: "same_id s s"
  by (simp add: same_id_def)

lemma frag_flags:
  assumes "Suc 0 < frag_count B P" and "i < frag_count B P"
  shows "hdr_flags (frag_header h B P i) AND FRAG_START \<noteq> 0 \<longleftrightarrow> i = 0"
    "hdr_flags (frag_header h B P i) AND FRAG_MORE \<noteq> 0 \<longleftrightarrow> i \<noteq> frag_count B P - 1"
  using assms by (auto simp: frag_header_def FRAG_START_def FRAG_MORE_def)

text \<open>A full-size fragment (first or middle).\<close>

lemma acceptInto_more:
  assumes "splits B P" and "collecting B P S s" and "Suc i < frag_count B P"
  shows "\<exists>s'. acceptInto s (frag_header h B P i) (word_of_nat i) (frag_piece B P i) = (False, s') \<and>
    collecting B P (insert i S) s' \<and> same_id s s'"
proof -
  note sp = splits_facts [OF assms(1)]
  let ?L = "frag_count B P - 1" and ?p = "frag_piece B P i"
  have flags: "hdr_flags (frag_header h B P i) AND FRAG_MORE \<noteq> 0"
    using assms(3) sp(4) frag_flags(2) [of B P i h] by auto
  have c: "length (sl_pendingLastBytes s) = 504" "S \<subseteq> {..<frag_count B P}"
      "sl_totalFragments s = (if ?L \<in> S then word_of_nat (frag_count B P) else 0)"
      "?L \<in> S \<Longrightarrow> sl_lastFragLen s = word_of_nat (length (frag_piece B P ?L))"
    using assms(2) by (auto simp: collecting_def)
  have lenB: "length ?p = B" "unat (word_of_nat B :: u16) = B" "(word_of_nat B :: u16) \<noteq> 0"
    using frag_piece_full [OF sp(1) assms(3)] sp(1,5) by (auto simp: unat_of_nat word_unat_eq_iff)
  have nL: "\<not> insert i S \<subseteq> {?L}" using assms(3) by auto
  show ?thesis
  proof (cases "S \<subseteq> {?L}")
    case True
    then have w: "waiting B P (?L \<in> S) s" using assms(2) by (simp add: collecting_def)
    let ?s = "s \<lparr> sl_unitLen := word_of_nat B \<rparr>"
    have "placed B P {} ?s" using w lenB by (simp add: placed_def waiting_def)
    from placeFragment_placed [OF assms(1) this, of i] assms(3)
    obtain D M C where p1: "placeFragment ?s (word_of_nat i) ?p =
        (True, ?s \<lparr> sl_data := D, sl_receivedMask := M, sl_receivedCount := C \<rparr>)"
      and q1: "placed B P {i} (?s \<lparr> sl_data := D, sl_receivedMask := M, sl_receivedCount := C \<rparr>)"
      by auto
    let ?s1 = "?s \<lparr> sl_data := D, sl_receivedMask := M, sl_receivedCount := C \<rparr>"
    show ?thesis
    proof (cases "?L \<in> S")
      case L: True
      from placeFragment_placed [OF assms(1) q1, of ?L] sp(4)
      obtain D' M' C' where p2: "placeFragment ?s1 (word_of_nat ?L) (frag_piece B P ?L) =
          (True, ?s1 \<lparr> sl_data := D', sl_receivedMask := M', sl_receivedCount := C' \<rparr>)"
        and q2: "placed B P {?L, i} (?s1 \<lparr> sl_data := D', sl_receivedMask := M', sl_receivedCount := C' \<rparr>)"
        by auto
      have "acceptInto s (frag_header h B P i) (word_of_nat i) ?p = (False,
          ?s1 \<lparr> sl_data := D', sl_receivedMask := M', sl_receivedCount := C', sl_havePendingLast := False \<rparr>)"
        using flags w L p1 p2 lenB by (simp add: acceptInto_def waiting_def Let_def)
      moreover have "insert i S = {?L, i}" using True L by auto
      ultimately show ?thesis
        using q2 c L nL by (simp add: collecting_def same_id_def placed_def)
    next
      case L: False
      then have "S = {}" using True by auto
      moreover have "acceptInto s (frag_header h B P i) (word_of_nat i) ?p = (False, ?s1)"
        using flags w L p1 lenB by (simp add: acceptInto_def waiting_def Let_def)
      ultimately show ?thesis
        using q1 c w L nL assms(3) by (simp add: collecting_def same_id_def placed_def waiting_def)
    qed
  next
    case False
    then have w: "placed B P S s" "\<not> sl_havePendingLast s" using assms(2) by (simp_all add: collecting_def)
    then have u: "sl_unitLen s \<noteq> 0" using sp(1) by (auto simp: placed_def)
    from placeFragment_placed [OF assms(1) w(1), of i] assms(3)
    obtain D M C where p1: "placeFragment s (word_of_nat i) ?p =
        (True, s \<lparr> sl_data := D, sl_receivedMask := M, sl_receivedCount := C \<rparr>)"
      and q1: "placed B P (insert i S) (s \<lparr> sl_data := D, sl_receivedMask := M, sl_receivedCount := C \<rparr>)"
      by auto
    have "acceptInto s (frag_header h B P i) (word_of_nat i) ?p =
        (False, s \<lparr> sl_data := D, sl_receivedMask := M, sl_receivedCount := C \<rparr>)"
      using flags w u p1 by (simp add: acceptInto_def Let_def)
    then show ?thesis
      using q1 c w nL assms(3) by (auto simp: collecting_def same_id_def)
  qed
qed

text \<open>The last fragment.\<close>

lemma acceptInto_last:
  assumes "splits B P" and "collecting B P S s" and "i = frag_count B P - 1"
  shows "\<exists>s'. acceptInto s (frag_header h B P i) (word_of_nat i) (frag_piece B P i) = (False, s') \<and>
    collecting B P (insert i S) s' \<and> same_id s s'"
proof -
  note sp = splits_facts [OF assms(1)]
  let ?p = "frag_piece B P i"
  have flags: "\<not> hdr_flags (frag_header h B P i) AND FRAG_MORE \<noteq> 0" "\<not> hdr_flags (frag_header h B P i) AND FRAG_START \<noteq> 0"
    using assms(3) sp(4) frag_flags [of B P i h] by auto
  have c: "length (sl_pendingLastBytes s) = 504" "S \<subseteq> {..<frag_count B P}" using assms(2) by (auto simp: collecting_def)
  have il: "i < frag_count B P" using sp(4) assms(3) by simp
  have len: "length ?p \<le> 504" using frag_piece_end(1) [OF sp(1) il] sp(2) by simp
  then have ulen: "unat (word_of_nat (length ?p) :: u16) = length ?p" by (simp add: unat_of_nat)
  have inc: "word_of_nat i + 1 = (word_of_nat (frag_count B P) :: u16)"
    using sp(4) assms(3) by (metis Suc_lessD Suc_pred' of_nat_Suc add.commute diff_Suc_1 Suc_pred)
  let ?s = "s \<lparr> sl_totalFragments := word_of_nat i + 1, sl_lastFragLen := word_of_nat (length ?p) \<rparr>"
  show ?thesis
  proof (cases "S \<subseteq> {i}")
    case True
    then have w: "waiting B P (i \<in> S) s" using assms(2,3) by (simp add: collecting_def)
    let ?s' = "?s \<lparr> sl_pendingLastBytes := poke 0 ?p (sl_pendingLastBytes s), sl_pendingLastLen := word_of_nat (length ?p),
        sl_pendingLastIndex := word_of_nat i, sl_havePendingLast := True \<rparr>"
    have "acceptInto s (frag_header h B P i) (word_of_nat i) ?p = (False, ?s')"
      using flags w len c(1) by (simp add: acceptInto_def waiting_def Let_def)
    moreover have "collecting B P (insert i S) ?s'"
      using True w len c ulen inc il assms(3) by (auto simp: collecting_def waiting_def)
    ultimately show ?thesis by (auto simp: same_id_def)
  next
    case False
    then have w: "placed B P S s" "\<not> sl_havePendingLast s" using assms(2,3) by (simp_all add: collecting_def)
    then have u: "sl_unitLen s \<noteq> 0" using sp(1) by (auto simp: placed_def)
    have "placed B P S ?s" using w(1) by (simp add: placed_def)
    from placeFragment_placed [OF assms(1) this il]
    obtain D M C where p1: "placeFragment ?s (word_of_nat i) ?p =
        (True, ?s \<lparr> sl_data := D, sl_receivedMask := M, sl_receivedCount := C \<rparr>)"
      and q1: "placed B P (insert i S) (?s \<lparr> sl_data := D, sl_receivedMask := M, sl_receivedCount := C \<rparr>)"
      by auto
    have "acceptInto s (frag_header h B P i) (word_of_nat i) ?p =
        (False, ?s \<lparr> sl_data := D, sl_receivedMask := M, sl_receivedCount := C \<rparr>)"
      using flags w u p1 by (simp add: acceptInto_def Let_def)
    moreover have "\<not> insert i S \<subseteq> {i}" using False by auto
    ultimately show ?thesis
      using q1 c w inc il assms(3) by (auto simp: collecting_def same_id_def)
  qed
qed

lemma acceptInto_step:
  assumes "splits B P" and "collecting B P S s" and "i < frag_count B P"
  shows "\<exists>s'. acceptInto s (frag_header h B P i) (word_of_nat i) (frag_piece B P i) = (False, s') \<and>
    collecting B P (insert i S) s' \<and> same_id s s'"
proof (cases "Suc i < frag_count B P")
  case True
  then show ?thesis by (rule acceptInto_more [OF assms(1,2)])
next
  case False
  then have "i = frag_count B P - 1" using assms(3) by linarith
  then show ?thesis by (rule acceptInto_last [OF assms(1,2)])
qed

section \<open>Completion\<close>

lemma collecting_channel [simp]: "collecting B P S (s \<lparr> sl_channel := ch \<rparr>) = collecting B P S s"
  by (simp add: collecting_def waiting_def placed_def)

lemma collecting_open: "splits B P \<Longrightarrow> collecting B P {} (Slot_open ty sq now)"
  by (simp add: collecting_def waiting_def Slot_open_def Slot_new_def kMaxSlotPayload_def kFrameBufferCapacity_def
      kHeaderBytes_def)

lemma checkComplete_more:
  assumes "splits B P" and "collecting B P S (ra_slots ra ! j)" and "S \<noteq> {..<frag_count B P}"
  shows "checkComplete j ra = (Inr None, ra)"
proof -
  note sp = splits_facts [OF assms(1)]
  let ?s = "ra_slots ra ! j"
  have S: "S \<subset> {..<frag_count B P}" using assms(2,3) by (auto simp: collecting_def)
  then have card: "card S < frag_count B P" using psubset_card_mono [of "{..<frag_count B P}" S] by simp
  have ne: "(word_of_nat a :: u16) \<noteq> word_of_nat b" if "a < b" "b \<le> 32" for a b
    using that by (simp add: word_unat_eq_iff unat_of_nat)
  have "sl_totalFragments ?s = 0 \<or> sl_receivedCount ?s \<noteq> sl_totalFragments ?s"
    using assms(2) ne [OF card sp(3)] ne [of 0 "frag_count B P"] sp(3,4)
    by (auto simp: collecting_def placed_def waiting_def split: if_splits)
  then show ?thesis by (auto simp: checkComplete_def Let_def)
qed

lemma fb_bytes_assembled:
  assumes "length P \<le> 504" and "take (length P) D = P"
  shows "fb_bytes (fb_setSize (8 + length P)
    (FrameBuffer_new \<lparr> fb_data := poke 8 (take (length P) D) (poke 0 (header_bytes h) (fb_data FrameBuffer_new)) \<rparr>)) =
    header_bytes h @ P"
proof -
  have "unat (word_of_nat (8 + length P) :: u16) = 8 + length P"
    using assms(1) by (simp add: unat_of_nat del: of_nat_add)
  then show ?thesis
    using assms by (simp add: fb_bytes_def fb_setSize_def kFrameBufferCapacity_def FrameBuffer_new_def poke_append
        poke_prefix del: of_nat_add)
qed

lemma checkComplete_done:
  assumes "splits B P" and "collecting B P {..<frag_count B P} (ra_slots ra ! j)"
  shows "\<exists>fb. checkComplete j ra = (Inr (Some fb), (setSlot j Slot_new ra) \<lparr> ra_stats := (ra_stats ra)
       \<lparr> fs_reassemblies_completed := fs_reassemblies_completed (ra_stats ra) + 1 \<rparr> \<rparr>) \<and>
     fb_bytes fb = header_bytes \<lparr> hdr_type = sl_type (ra_slots ra ! j), hdr_flags = 0,
       hdr_channel = sl_channel (ra_slots ra ! j), hdr_seq = sl_seq (ra_slots ra ! j), hdr_len = word_of_nat (length P) \<rparr> @ P"
proof -
  note sp = splits_facts [OF assms(1)]
  let ?s = "ra_slots ra ! j" and ?N = "frag_count B P" and ?L = "frag_count B P - 1"
  have "0 \<in> {..<?N}" "0 \<noteq> ?L" using sp(4) by simp_all
  then have nL: "\<not> {..<?N} \<subseteq> {?L}" by blast
  have L: "?L < ?N" "Suc ?L = ?N" using sp(4) by simp_all
  have pl: "placed B P {..<?N} ?s" and tot: "sl_totalFragments ?s = word_of_nat ?N"
    and last: "sl_lastFragLen ?s = word_of_nat (length (frag_piece B P ?L))"
    using assms(2) L(1) unfolding collecting_def if_not_P [OF nL] by simp_all
  have cnt: "sl_receivedCount ?s = word_of_nat ?N" using pl by (simp add: placed_def)
  have uN: "unat (word_of_nat ?N :: u16) = ?N" using sp(3) by (simp add: unat_of_nat)
  have uL: "unat (word_of_nat (length (frag_piece B P ?L)) :: u16) = length (frag_piece B P ?L)"
    using frag_piece_end(1) [OF sp(1) L(1)] sp(2) by (simp add: unat_of_nat)
  have total: "(unat (sl_totalFragments ?s) - 1) * unat (sl_unitLen ?s) + unat (sl_lastFragLen ?s) = length P"
    using frag_piece_end(3) [OF sp(1) L] pl unfolding tot last uN uL by (simp add: placed_def)
  have data: "take (length P) (sl_data ?s) = P"
  proof (rule pieces_cover [OF sp(1)])
    show "length P \<le> length (sl_data ?s)" using pl sp(2) by (simp add: placed_def)
    show "take (length (frag_piece B P i)) (drop (i * B) (sl_data ?s)) = frag_piece B P i" if "i < ?N" for i
      using pl that unfolding placed_def by blast
  qed
  have "sl_totalFragments ?s \<noteq> 0" using uN sp(4) unfolding tot by (metis less_nat_zero_code unat_0)
  then have "checkComplete j ra = (Inr (Some (fb_setSize (8 + length P)
      (FrameBuffer_new \<lparr> fb_data := poke 8 (take (length P) (sl_data ?s)) (poke 0 (header_bytes
        \<lparr> hdr_type = sl_type ?s, hdr_flags = 0, hdr_channel = sl_channel ?s, hdr_seq = sl_seq ?s,
          hdr_len = word_of_nat (length P) \<rparr>) (fb_data FrameBuffer_new)) \<rparr>))),
      (setSlot j Slot_new ra) \<lparr> ra_stats := (ra_stats ra)
        \<lparr> fs_reassemblies_completed := fs_reassemblies_completed (ra_stats ra) + 1 \<rparr> \<rparr>)"
    using cnt tot sp(2) unfolding checkComplete_def Let_def total
    by (simp add: kFrameBufferCapacity_def kHeaderBytes_def encodeFrameHeader_fits FrameBuffer_new_def)
  then show ?thesis using fb_bytes_assembled [OF sp(2) data] by blast
qed

section \<open>The reassembler on one message\<close>

text \<open>Slot \<open>j\<close> collects the message; the other slots are those of \<open>ra0\<close> and have other keys.\<close>

definition tracking :: "FrameHeader \<Rightarrow> nat \<Rightarrow> bytes \<Rightarrow> u32 \<Rightarrow> nat \<Rightarrow> Reassembler \<Rightarrow> nat set \<Rightarrow> Reassembler \<Rightarrow> bool" where
  "tracking h B P t0 j ra0 S ra \<longleftrightarrow> j < length (ra_slots ra0) \<and>
     (\<exists>s. ra = setSlot j s ra0 \<and> collecting B P S s \<and> slotKey (hdr_type h) (hdr_seq h) s \<and> sl_startMs s = t0) \<and>
     (\<forall>k < length (ra_slots ra0). k \<noteq> j \<longrightarrow> \<not> slotKey (hdr_type h) (hdr_seq h) (ra_slots ra0 ! k))"

lemma setSlot_simps [simp]:
  "ra_slots (setSlot j s ra) = (ra_slots ra)[j := s]" "ra_stats (setSlot j s ra) = ra_stats ra"
  "setSlot j s' (setSlot j s ra) = setSlot j s' ra"
  by (simp_all add: setSlot_def)

lemma findSlot_tracking:
  assumes "tracking h B P t0 j ra0 S ra"
  shows "findSlot (hdr_type h) (hdr_seq h) ra = Some j"
proof -
  obtain s where ra: "ra = setSlot j s ra0" and s: "slotKey (hdr_type h) (hdr_seq h) s" and j: "j < length (ra_slots ra0)"
    and o: "\<And>k. k < length (ra_slots ra0) \<Longrightarrow> k \<noteq> j \<Longrightarrow> \<not> slotKey (hdr_type h) (hdr_seq h) (ra_slots ra0 ! k)"
    using assms by (auto simp: tracking_def)
  show ?thesis
    unfolding findSlot_def ra using s j o by (intro find_index_unique) (auto simp: nth_list_update split: if_splits)
qed

lemma frag_header_id [simp]:
  "hdr_type (frag_header h B P i) = hdr_type h" "hdr_seq (frag_header h B P i) = hdr_seq h"
  "hdr_channel (frag_header h B P i) = hdr_channel h"
  by (simp_all add: frag_header_def)

definition assembled :: "FrameHeader \<Rightarrow> bytes \<Rightarrow> FrameBuffer \<Rightarrow> bool" where
  "assembled h P fb \<longleftrightarrow> fb_bytes fb = header_bytes (h \<lparr> hdr_flags := 0, hdr_len := word_of_nat (length P) \<rparr>) @ P"

lemma frag_accept_tracking:
  assumes "splits B P" and "tracking h B P t0 j ra0 S ra" and "i < frag_count B P"
    and "\<not> timeReached now (t0 + 5000)"
  shows "if insert i S = {..<frag_count B P}
    then \<exists>fb. frag_accept (frag_header h B P i) (u16_bytes (word_of_nat i) @ frag_piece B P i) now ra =
        (Inr (Some fb), (setSlot j Slot_new ra0) \<lparr> ra_stats := (ra_stats ra0)
          \<lparr> fs_reassemblies_completed := fs_reassemblies_completed (ra_stats ra0) + 1 \<rparr> \<rparr>) \<and> assembled h P fb
    else \<exists>ra'. frag_accept (frag_header h B P i) (u16_bytes (word_of_nat i) @ frag_piece B P i) now ra = (Inr None, ra') \<and>
        tracking h B P t0 j ra0 (insert i S) ra'"
proof -
  note sp = splits_facts [OF assms(1)]
  obtain s where ra: "ra = setSlot j s ra0" and col: "collecting B P S s" and key: "slotKey (hdr_type h) (hdr_seq h) s"
    and t0: "sl_startMs s = t0" and j: "j < length (ra_slots ra0)"
    and o: "\<And>k. k < length (ra_slots ra0) \<Longrightarrow> k \<noteq> j \<Longrightarrow> \<not> slotKey (hdr_type h) (hdr_seq h) (ra_slots ra0 ! k)"
    using assms(2) by (auto simp: tracking_def)
  have sj: "ra_slots ra ! j = s" using ra j by simp
  note find = findSlot_tracking [OF assms(2)]
  have exp: "expireOne (hdr_type h) (hdr_seq h) now ra = ra"
    using assms(4) find sj t0 by (simp add: expireOne_def Let_def)
  have "collecting B P S (s \<lparr> sl_channel := hdr_channel h \<rparr>)" using col by simp
  from acceptInto_step [OF assms(1) this assms(3), of h]
  obtain s' where acc: "acceptInto (s \<lparr> sl_channel := hdr_channel h \<rparr>) (frag_header h B P i) (word_of_nat i) (frag_piece B P i) =
      (False, s')" and col': "collecting B P (insert i S) s'" and id: "same_id (s \<lparr> sl_channel := hdr_channel h \<rparr>) s'"
    by auto
  have idx: "unat (word_of_nat i :: u16) < 32" using assms(3) sp(3) by (simp add: unat_of_nat)
  have step: "frag_accept (frag_header h B P i) (u16_bytes (word_of_nat i) @ frag_piece B P i) now ra =
      checkComplete j (setSlot j s' ra0)"
    using exp find acc idx sj ra
    by (simp add: frag_accept_def kFragIndexBytes_def kMaxFragmentsPerMessage_def Let_def take_Cons')
  have sj': "ra_slots (setSlot j s' ra0) ! j = s'" using j by simp
  have key': "slotKey (hdr_type h) (hdr_seq h) s'" "sl_startMs s' = t0" "sl_channel s' = hdr_channel h"
    using id key t0 by (simp_all add: same_id_def slotKey_def)
  show ?thesis
  proof (cases "insert i S = {..<frag_count B P}")
    case True
    then have "collecting B P {..<frag_count B P} (ra_slots (setSlot j s' ra0) ! j)" using col' sj' by simp
    from checkComplete_done [OF assms(1) this] key' True show ?thesis
      unfolding step by (auto simp: assembled_def slotKey_def sj' j header_bytes_def)
  next
    case False
    then have "checkComplete j (setSlot j s' ra0) = (Inr None, setSlot j s' ra0)"
      using col' sj' by (intro checkComplete_more [OF assms(1)]) auto
    moreover have "tracking h B P t0 j ra0 (insert i S) (setSlot j s' ra0)"
      using j o col' key' by (auto simp: tracking_def)
    ultimately show ?thesis using False step by auto
  qed
qed

text \<open>How a receiver hands a fragment frame to the reassembler, and a sequence of them with their times.\<close>

definition receive :: "bytes \<Rightarrow> u32 \<Rightarrow> Reassembler \<Rightarrow> FrameBuffer option result \<times> Reassembler" where
  "receive f now ra = (case decodeFrameHeader f of
       None \<Rightarrow> (Inr None, ra)
     | Some h \<Rightarrow> frag_accept h (drop kHeaderBytes f) now ra)"

fun receive_all :: "(bytes \<times> u32) list \<Rightarrow> Reassembler \<Rightarrow> FrameBuffer option result list \<times> Reassembler" where
  "receive_all [] ra = ([], ra)"
| "receive_all ((f, now) # fs) ra =
    (let (x, ra) = receive f now ra; (xs, ra) = receive_all fs ra in (x # xs, ra))"

lemma receive_image:
  "receive (frag_image h B P i) now ra =
   frag_accept (frag_header h B P i) (u16_bytes (word_of_nat i) @ frag_piece B P i) now ra"
  by (simp add: receive_def frag_image_def kHeaderBytes_def)

definition completed :: "nat \<Rightarrow> Reassembler \<Rightarrow> Reassembler" where
  "completed j ra0 = (setSlot j Slot_new ra0) \<lparr> ra_stats := (ra_stats ra0)
     \<lparr> fs_reassemblies_completed := fs_reassemblies_completed (ra_stats ra0) + 1 \<rparr> \<rparr>"

lemma receive_all_tracking:
  assumes "splits B P" and "tracking h B P t0 j ra0 S ra" and "is \<noteq> []"
    and "S \<union> set is = {..<frag_count B P}" and "S \<union> set (butlast is) \<noteq> {..<frag_count B P}"
    and "length ts = length is" and "\<And>t. t \<in> set ts \<Longrightarrow> \<not> timeReached t (t0 + 5000)"
  shows "\<exists>fb. receive_all (zip (map (frag_image h B P) is) ts) ra =
    (replicate (length is - 1) (Inr None) @ [Inr (Some fb)], completed j ra0) \<and> assembled h P fb"
  using assms(2-)
proof (induction "is" arbitrary: S ra ts)
  case (Cons i "is")
  obtain t ts' where ts: "ts = t # ts'" using Cons.prems(5) by (cases ts) auto
  have i: "i < frag_count B P" and t: "\<not> timeReached t (t0 + 5000)"
    using Cons.prems(3) Cons.prems(6) [of t] ts by auto
  note step = frag_accept_tracking [OF assms(1) Cons.prems(1) i t]
  show ?case
  proof (cases "is = []")
    case True
    then have "insert i S = {..<frag_count B P}" using Cons.prems(3) by auto
    with step show ?thesis using True ts Cons.prems(5) by (auto simp: receive_image completed_def)
  next
    case False
    have all: "insert i S \<union> set is = {..<frag_count B P}" "insert i S \<union> set (butlast is) \<noteq> {..<frag_count B P}"
      using Cons.prems(3,4) False by auto
    then have "insert i S \<noteq> {..<frag_count B P}" using in_set_butlastD [of _ "is"] by blast
    with step obtain ra' where ra': "frag_accept (frag_header h B P i) (u16_bytes (word_of_nat i) @ frag_piece B P i) t ra =
        (Inr None, ra')" "tracking h B P t0 j ra0 (insert i S) ra'" by auto
    obtain fb where fb: "receive_all (zip (map (frag_image h B P) is) ts') ra' =
        (replicate (length is - 1) (Inr None) @ [Inr (Some fb)], completed j ra0)" "assembled h P fb"
      using Cons.IH [OF ra'(2) False all, of ts'] Cons.prems(5,6) ts by auto
    have "replicate (length is) (Inr None) = (Inr None :: FrameBuffer option result) # replicate (length is - 1) (Inr None)"
      using False by (cases "is") auto
    then show ?thesis using fb ra'(1) ts False by (auto simp: receive_image)
  qed
qed simp

text \<open>The first fragment opens a free slot.\<close>

lemma receive_opens:
  assumes "splits B P" and "\<forall>s \<in> set (ra_slots ra). \<not> slotKey (hdr_type h) (hdr_seq h) s"
    and "find_index (\<lambda>s. \<not> sl_active s) (ra_slots ra) = Some j" and "i < frag_count B P"
  shows "tracking h B P t j ra {} (setSlot j (Slot_open (hdr_type h) (hdr_seq h) t) ra)"
    "receive (frag_image h B P i) t ra =
     receive (frag_image h B P i) t (setSlot j (Slot_open (hdr_type h) (hdr_seq h) t) ra)"
proof -
  let ?s = "Slot_open (hdr_type h) (hdr_seq h) t" and ?ra = "setSlot j (Slot_open (hdr_type h) (hdr_seq h) t) ra"
  have j: "j < length (ra_slots ra)" using find_index_less [OF assms(3)] .
  have s: "slotKey (hdr_type h) (hdr_seq h) ?s" "sl_startMs ?s = t" by (simp_all add: slotKey_def Slot_open_def)
  show track: "tracking h B P t j ra {} ?ra"
    unfolding tracking_def using j s collecting_open [OF assms(1)] assms(2) by (auto intro: nth_mem)
  have idx: "unat (word_of_nat i :: u16) < 32" using assms(4) splits_facts(3) [OF assms(1)] by (simp add: unat_of_nat)
  have none: "findSlot (hdr_type h) (hdr_seq h) ra = None" using assms(2) by (simp add: findSlot_def find_index_None)
  have "\<not> timeReached t (t + 5000)" by (simp add: timeReached_def timeDelta_def)
  then have "expireOne (hdr_type h) (hdr_seq h) t ?ra = ?ra"
    using findSlot_tracking [OF track] s j by (simp add: expireOne_def Let_def)
  moreover have "expireOne (hdr_type h) (hdr_seq h) t ra = ra" using none by (simp add: expireOne_def)
  moreover have "allocSlot (hdr_type h) (hdr_seq h) t ra = (j, ?ra)" using assms(3) by (simp add: allocSlot_def)
  ultimately show "receive (frag_image h B P i) t ra = receive (frag_image h B P i) t ?ra"
    using none findSlot_tracking [OF track] j idx
    by (simp add: receive_image frag_accept_def Let_def kMaxFragmentsPerMessage_def kFragIndexBytes_def take_Cons')
qed

lemma oldestSlot_less: "ss \<noteq> [] \<Longrightarrow> oldestSlot now ss < length ss"
proof -
  assume "ss \<noteq> []"
  have "fst (foldl (\<lambda>(o', age') i. let age = f i in if age > age' then (i, age) else (o', age')) (a, b) is) \<in> insert a (set is)"
    for f :: "nat \<Rightarrow> int" and a b "is"
  proof (induction "is" arbitrary: a b)
    case (Cons i "is")
    show ?case using Cons.IH [of i "f i"] Cons.IH [of a b] by (auto simp: Let_def)
  qed simp
  from this [of "\<lambda>i. timeDelta now (sl_startMs (ss ! i))" 0 "timeDelta now (sl_startMs (ss ! 0))" "[0..<length ss]"]
  show ?thesis using \<open>ss \<noteq> []\<close> by (auto simp: oldestSlot_def)
qed

section \<open>Too many fragments\<close>

text \<open>A set of more than 32 fragments: its last fragment is refused, so the announced total never arrives and the reassembler never
  returns a frame for it. \<open>no_total\<close> says that no slot of this message knows the total.\<close>

definition no_total :: "u8 \<Rightarrow> u16 \<Rightarrow> Reassembler \<Rightarrow> bool" where
  "no_total ty sq ra \<longleftrightarrow> ra_slots ra \<noteq> [] \<and>
     (\<forall>s \<in> set (ra_slots ra). slotKey ty sq s \<longrightarrow> sl_totalFragments s = 0 \<and> \<not> sl_havePendingLast s)"

lemma no_total_set:
  "no_total ty sq ra \<Longrightarrow> (slotKey ty sq s \<Longrightarrow> sl_totalFragments s = 0 \<and> \<not> sl_havePendingLast s) \<Longrightarrow> no_total ty sq (setSlot i s ra)"
  by (auto simp: no_total_def dest!: set_update_subset_insert [THEN subsetD])

lemma no_total_reset: "no_total ty sq ra \<Longrightarrow> no_total ty sq (setSlot i Slot_new ra)"
  by (rule no_total_set) (simp_all add: Slot_new_def slotKey_def)

lemma no_total_stats [simp]: "no_total ty sq (ra \<lparr> ra_stats := st \<rparr>) = no_total ty sq ra"
  by (simp add: no_total_def)

lemma placeFragment_total:
  "placeFragment s i bs = (ok, s') \<Longrightarrow> sl_totalFragments s' = sl_totalFragments s \<and> sl_havePendingLast s' = sl_havePendingLast s"
  by (auto simp: placeFragment_def Let_def split: if_splits)

lemma acceptInto_untold:
  assumes "hdr_flags g AND FRAG_MORE \<noteq> 0" and "\<not> sl_havePendingLast s" and "acceptInto s g i piece = (ov, s')"
  shows "sl_totalFragments s' = sl_totalFragments s \<and> \<not> sl_havePendingLast s'"
  using assms by (auto simp: acceptInto_def Let_def split: if_splits prod.splits dest!: placeFragment_total)

lemma untold_slot:
  assumes "no_total ty sq ra"
    and "(case findSlot ty sq ra of Some i \<Rightarrow> (i, ra) | None \<Rightarrow> allocSlot ty sq now ra) = (i, ra')"
  shows "no_total ty sq ra' \<and> i < length (ra_slots ra') \<and> sl_totalFragments (ra_slots ra' ! i) = 0 \<and> \<not> sl_havePendingLast (ra_slots ra' ! i)"
proof (cases "findSlot ty sq ra")
  case (Some j)
  then show ?thesis using assms find_index_Some [of "slotKey ty sq" "ra_slots ra" j] by (auto simp: findSlot_def no_total_def)
next
  case None
  let ?s = "Slot_open ty sq now"
  have s: "sl_totalFragments ?s = 0" "\<not> sl_havePendingLast ?s" by (simp_all add: Slot_open_def Slot_new_def)
  have "i < length (ra_slots ra)"
    using assms None oldestSlot_less [of "ra_slots ra" now]
    by (auto simp: allocSlot_def Let_def no_total_def split: option.splits dest: find_index_less)
  moreover have "ra_slots ra' = (ra_slots ra)[i := ?s]" "no_total ty sq ra'"
    using assms None s by (auto simp: allocSlot_def Let_def no_total_set split: option.splits)
  ultimately show ?thesis using s by simp
qed

lemma receive_untold:
  assumes "no_total (hdr_type h) (hdr_seq h) ra" and "i < frag_count B P" and "32 < frag_count B P" and "frag_count B P < 2 ^ 16"
  shows "no_total (hdr_type h) (hdr_seq h) (snd (receive (frag_image h B P i) now ra)) \<and>
    (\<forall>fb. fst (receive (frag_image h B P i) now ra) \<noteq> Inr (Some fb))"
proof -
  let ?g = "frag_header h B P i" and ?ty = "hdr_type h" and ?sq = "hdr_seq h"
  have idx: "unat (word_of_nat i :: u16) = i" using assms(2,4) by (simp add: unat_of_nat)
  have g: "hdr_type ?g = ?ty" "hdr_seq ?g = ?sq" "hdr_channel ?g = hdr_channel h" by (simp_all add: frag_header_def)
  let ?p = "u16_bytes (word_of_nat i) @ frag_piece B P i"
  have p: "getU16 (take 2 ?p) = word_of_nat i" "\<not> length ?p < kFragIndexBytes" by (simp_all add: kFragIndexBytes_def take_Cons')
  show ?thesis
  proof (cases "32 \<le> i")
    case True
    then show ?thesis using assms(1) idx by (simp add: receive_image frag_accept_def p kMaxFragmentsPerMessage_def kFragIndexBytes_def)
  next
    case False
    then have more: "hdr_flags ?g AND FRAG_MORE \<noteq> 0" using assms(3) by (auto simp: frag_header_def FRAG_MORE_def FRAG_START_def)
    define ra1 where "ra1 = expireOne ?ty ?sq now ra"
    have e: "no_total ?ty ?sq ra1"
      using assms(1) by (auto simp: ra1_def expireOne_def Let_def no_total_reset split: option.split)
    obtain j ra2 where j: "(case findSlot ?ty ?sq ra1 of Some j \<Rightarrow> (j, ra1) | None \<Rightarrow> allocSlot ?ty ?sq now ra1) = (j, ra2)" by fastforce
    note u = untold_slot [OF e j]
    obtain ov s where a: "acceptInto ((ra_slots ra2 ! j) \<lparr> sl_channel := hdr_channel h \<rparr>) ?g (word_of_nat i) (drop kFragIndexBytes ?p) = (ov, s)"
      by fastforce
    then have s: "sl_totalFragments s = 0 \<and> \<not> sl_havePendingLast s" using acceptInto_untold [OF more _ a] u by simp
    have "receive (frag_image h B P i) now ra = (if ov then (Inl CapacityExceeded, setSlot j Slot_new ra2) else checkComplete j (setSlot j s ra2))"
      unfolding receive_image frag_accept_def Let_def p(1) idx g ra1_def [symmetric] j prod.case a using False
      by (simp add: kMaxFragmentsPerMessage_def kFragIndexBytes_def)
    moreover have "checkComplete j (setSlot j s ra2) = (Inr None, setSlot j s ra2)" using s u by (simp add: checkComplete_def)
    ultimately show ?thesis using u s by (simp add: no_total_reset no_total_set)
  qed
qed

lemma receive_all_untold:
  "no_total (hdr_type h) (hdr_seq h) ra \<Longrightarrow> set is \<subseteq> {..<frag_count B P} \<Longrightarrow> 32 < frag_count B P \<Longrightarrow> frag_count B P < 2 ^ 16 \<Longrightarrow>
    Inr (Some fb) \<notin> set (fst (receive_all (zip (map (frag_image h B P) is) ts) ra))"
proof (induction "is" arbitrary: ts ra)
  case (Cons i "is")
  show ?case
  proof (cases ts)
    case (Cons t ts')
    have "i < frag_count B P" "set is \<subseteq> {..<frag_count B P}" using Cons.prems(2) by simp_all
    with receive_untold [OF Cons.prems(1) this(1) Cons.prems(3,4), of t] Cons.IH [OF _ this(2) Cons.prems(3,4)]
    show ?thesis using Cons by (simp add: split_beta) metis
  qed simp
qed simp

section \<open>Properties\<close>

lemma filter_update_drop:
  "i < length xs \<Longrightarrow> \<not> Q (xs ! i) \<Longrightarrow> \<not> Q y \<Longrightarrow> filter Q (xs[i := y]) = filter Q xs"
  by (induction xs arbitrary: i) (auto split: nat.splits)

lemma image_not_estop:
  assumes "hdr_flags h = 0"
  shows "\<not> looksLikeEstop (header_bytes h @ P)"
  using assms by (simp add: looksLikeEstop_def header_bytes_def kEstopMagicByte_def)

text \<open>
  (C30) Fragmentation is undone by reassembly in any order of arrival, up to 32 fragments. Let a control frame with no flags set and at most
  504 bytes of payload not fit the link's frame size of more than ten bytes. It is cut into fragments that do. Feed them to a reassembler that has a
  free slot and is not yet collecting a frame of this type and sequence number, in any order and with any duplicates before the last missing one,
  within the reassembly timeout of the first. If there are at most 32 fragments, every one but the one that completes the set is absorbed and that
  one returns exactly the original frame; afterwards the slots of other reassemblies in progress are as before and the used one is free.
  If there are more than 32, the reassembler returns no frame at all: fragments from index 32 on, the last one among them, are refused.
\<close>

theorem reassembly_any_order:
  assumes "hdr_flags h = 0" and "hdr_len h = word_of_nat (length P)"
    and "10 < unat mx" and "unat mx < 8 + length P" and "length P \<le> 504"
    and "fragmentFrame (header_bytes h @ P) mx = (ok, fs)"
    and "\<forall>s \<in> set (ra_slots ra). \<not> slotKey (hdr_type h) (hdr_seq h) s"
    and "\<exists>s \<in> set (ra_slots ra). \<not> sl_active s"
    and "set is = {..<length fs}" and "set (butlast is) \<noteq> {..<length fs}"
    and "length ts = length is" and "\<forall>t \<in> set ts. \<not> timeReached t (hd ts + 5000)"
  shows "ok \<and> (\<forall>f \<in> set fs. length f \<le> unat mx) \<and>
    (if length fs \<le> 32
     then \<exists>fb ra'. receive_all (zip (map ((!) fs) is) ts) ra =
       (replicate (length is - 1) (Inr None) @ [Inr (Some fb)], ra') \<and>
       fb_bytes fb = header_bytes h @ P \<and>
       filter sl_active (ra_slots ra') = filter sl_active (ra_slots ra)
     else \<forall>fb. Inr (Some fb) \<notin> set (fst (receive_all (zip (map ((!) fs) is) ts) ra)))"
proof -
  let ?B = "unat mx - 10"
  let ?N = "frag_count ?B P"
  have fr: "ok" "fs = map (frag_image h ?B P) [0..<?N]"
    using fragmentFrame_split [of mx "header_bytes h @ P" h] assms(3-6) image_not_estop [OF assms(1)] by simp_all
  have img: "map ((!) fs) is = map (frag_image h ?B P) is" using assms(9) by (simp add: fr(2))
  have small: "\<forall>f \<in> set fs. length f \<le> unat mx"
    using assms(3) by (auto simp: fr(2) frag_image_def length_frag_piece)
  obtain i0 is' where i0: "is = i0 # is'" using assms(9,10) by (cases "is") auto
  obtain t ts' where ts: "ts = t # ts'" using assms(11) i0 by (cases ts) auto
  have i0N: "i0 < ?N" using assms(9) i0 fr(2) by auto
  obtain j where j: "find_index (\<lambda>s. \<not> sl_active s) (ra_slots ra) = Some j"
    using assms(8) find_index_None [of "\<lambda>s. \<not> sl_active s" "ra_slots ra"] by auto
  have few: "\<exists>fb ra'. receive_all (zip (map ((!) fs) is) ts) ra = (replicate (length is - 1) (Inr None) @ [Inr (Some fb)], ra') \<and>
      fb_bytes fb = header_bytes h @ P \<and> filter sl_active (ra_slots ra') = filter sl_active (ra_slots ra)" if "length fs \<le> 32"
  proof -
    have sp: "splits ?B P" using assms(3,4,5) that fr(2) by (simp add: splits_def)
    note opn = receive_opens [OF sp assms(7) j i0N, of t]
    have "receive_all (zip (map (frag_image h ?B P) is) ts) ra =
        receive_all (zip (map (frag_image h ?B P) is) ts) (setSlot j (Slot_open (hdr_type h) (hdr_seq h) t) ra)"
      using opn(2) by (simp add: i0 ts)
    moreover obtain fb where fb: "receive_all (zip (map (frag_image h ?B P) is) ts)
        (setSlot j (Slot_open (hdr_type h) (hdr_seq h) t) ra) =
        (replicate (length is - 1) (Inr None) @ [Inr (Some fb)], completed j ra)" "assembled h P fb"
      using receive_all_tracking [OF sp opn(1), of "is" ts] assms(9-12) i0 ts fr(2) by auto
    moreover have "h \<lparr> hdr_flags := 0, hdr_len := word_of_nat (length P) \<rparr> = h" using assms(1,2) by (cases h) simp
    moreover have "filter sl_active (ra_slots (completed j ra)) = filter sl_active (ra_slots ra)"
      using find_index_Some [OF j] by (simp add: completed_def filter_update_drop Slot_new_def)
    ultimately show ?thesis unfolding img by (auto simp: assembled_def)
  qed
  have "?N * ?B < length P + ?B" using frag_count_bounds(1) [of ?B P] assms(3) by simp
  moreover have "?N \<le> ?N * ?B" using assms(3) by (simp add: Suc_le_eq)
  ultimately have "?N < length P + ?B" by (rule le_less_trans [rotated])
  then have "?N < 2 ^ 16" using assms(4,5) by simp
  moreover have "no_total (hdr_type h) (hdr_seq h) ra" using assms(7,8) by (auto simp: no_total_def)
  ultimately have "Inr (Some fb) \<notin> set (fst (receive_all (zip (map ((!) fs) is) ts) ra))" if "\<not> length fs \<le> 32" for fb
    using receive_all_untold [of h ra "is" ?B P fb ts] that assms(9) fr(2) unfolding img by simp
  with few show ?thesis using fr(1) small by simp
qed

theorem reassembly_any_order_witness:
  "let h = \<lparr> hdr_type = 9, hdr_flags = 0, hdr_channel = 3, hdr_seq = 0xFFFF, hdr_len = 20 \<rparr>;
       f = header_bytes h @ replicate 20 7 in
   \<exists>fb. fst (receive_all (zip (map ((!) (snd (fragmentFrame f 18))) [2, 0, 0, 1]) [100, 105, 110, 4000]) Reassembler_new) =
      [Inr None, Inr None, Inr None, Inr (Some fb)] \<and> fb_bytes fb = f"
proof -
  let ?h = "\<lparr> hdr_type = 9, hdr_flags = 0, hdr_channel = 3, hdr_seq = 0xFFFF, hdr_len = 20 \<rparr>"
  let ?P = "replicate 20 (7 :: byte)"
  have fr: "fragmentFrame (header_bytes ?h @ ?P) 18 = (True, map (frag_image ?h 8 ?P) [0..<3])"
    using fragmentFrame_split [of 18 "header_bytes ?h @ ?P" ?h] image_not_estop [of ?h ?P]
    by (simp add: frag_count_def)
  have three: "{..<3} = {0, 1, 2 :: nat}" by (auto simp: lessThan_Suc numeral_3_eq_3)
  have "1 \<notin> set (butlast [2, 0, 0, 1 :: nat])" by simp
  then have order: "set [2, 0, 0, 1] = {..<length (map (frag_image ?h 8 ?P) [0..<3])}"
      "set (butlast [2, 0, 0, 1]) \<noteq> {..<length (map (frag_image ?h 8 ?P) [0..<3])}"
    unfolding length_map length_upt diff_zero three by (simp_all only: list.set) (fastforce, blast)
  have times: "\<forall>t \<in> set [100, 105, 110, 4000]. \<not> timeReached t (hd [100, 105, 110, 4000] + 5000)"
    by (simp add: timeReached_def timeDelta_def)
  have free: "\<forall>s \<in> set (ra_slots Reassembler_new). \<not> slotKey (hdr_type ?h) (hdr_seq ?h) s"
      "\<exists>s \<in> set (ra_slots Reassembler_new). \<not> sl_active s"
    by (simp_all add: Reassembler_new_def Slot_new_def slotKey_def)
  have "(\<exists>fb ra'. receive_all (zip (map ((!) (map (frag_image ?h 8 ?P) [0..<3])) [2, 0, 0, 1]) [100, 105, 110, 4000]) Reassembler_new =
      (replicate (length [2, 0, 0, 1 :: nat] - 1) (Inr None) @ [Inr (Some fb)], ra') \<and> fb_bytes fb = header_bytes ?h @ ?P \<and>
      filter sl_active (ra_slots ra') = filter sl_active (ra_slots Reassembler_new))"
    using reassembly_any_order [OF _ _ _ _ _ fr free order _ times] by simp
  then show ?thesis unfolding Let_def fr by (auto simp: numeral_3_eq_3 simp del: upt_Suc)
qed

section \<open>Safety on any input\<close>

definition slot_wf :: "Slot \<Rightarrow> bool" where
  "slot_wf s \<longleftrightarrow> length (sl_data s) = kMaxSlotPayload \<and> length (sl_pendingLastBytes s) = kMaxSlotPayload \<and>
     unat (sl_pendingLastLen s) \<le> kMaxSlotPayload"

definition ra_wf :: "Reassembler \<Rightarrow> bool" where
  "ra_wf ra \<longleftrightarrow> length (ra_slots ra) = 2 \<and> (\<forall>s \<in> set (ra_slots ra). slot_wf s)"

lemmas slot_sizes = kMaxSlotPayload_def kFrameBufferCapacity_def kHeaderBytes_def

lemma slot_wf_new [simp]: "slot_wf Slot_new" "slot_wf (Slot_open ty sq now)"
  by (simp_all add: slot_wf_def Slot_new_def Slot_open_def)

lemma placeFragment_wf: "slot_wf s \<Longrightarrow> slot_wf (snd (placeFragment s i bs))"
  by (auto simp: placeFragment_def slot_wf_def Let_def)

lemma acceptInto_wf: "slot_wf s \<Longrightarrow> slot_wf (snd (acceptInto s h i bs))"
proof -
  assume s: "slot_wf s"
  have upd: "slot_wf (s \<lparr> sl_totalFragments := a, sl_lastFragLen := b \<rparr>)" "slot_wf (s \<lparr> sl_unitLen := a \<rparr>)"
      "\<And>s. slot_wf s \<Longrightarrow> slot_wf (s \<lparr> sl_havePendingLast := False \<rparr>)" for a b
    using s by (simp_all add: slot_wf_def)
  have pend: "slot_wf (s \<lparr> sl_totalFragments := a, sl_lastFragLen := b, sl_pendingLastBytes := poke 0 bs (sl_pendingLastBytes s),
      sl_pendingLastLen := word_of_nat (length bs), sl_pendingLastIndex := i, sl_havePendingLast := True \<rparr>)"
    if "length bs \<le> length (sl_pendingLastBytes s)" for a b
    using s that by (simp add: slot_wf_def slot_sizes unat_of_nat)
  show ?thesis
    unfolding acceptInto_def Let_def
    using s upd pend
    by (auto simp: case_prod_unfold intro!: placeFragment_wf upd(3))
qed

lemma same_id_trans: "same_id a b \<Longrightarrow> same_id b c \<Longrightarrow> same_id a c"
  by (simp add: same_id_def)

lemma placeFragment_id: "same_id s (snd (placeFragment s i bs))"
  by (auto simp: placeFragment_def same_id_def Let_def)

lemma same_id_update [simp]:
  "same_id a (s \<lparr> sl_totalFragments := n \<rparr>) = same_id a s" "same_id a (s \<lparr> sl_lastFragLen := n \<rparr>) = same_id a s"
  "same_id a (s \<lparr> sl_unitLen := n \<rparr>) = same_id a s" "same_id a (s \<lparr> sl_havePendingLast := b \<rparr>) = same_id a s"
  "same_id a (s \<lparr> sl_pendingLastIndex := n \<rparr>) = same_id a s" "same_id a (s \<lparr> sl_pendingLastLen := n \<rparr>) = same_id a s"
  "same_id a (s \<lparr> sl_pendingLastBytes := bs \<rparr>) = same_id a s"
  by (simp_all add: same_id_def)

lemma acceptInto_id: "same_id s (snd (acceptInto s h i bs))"
  unfolding acceptInto_def Let_def by (simp add: case_prod_unfold same_id_trans [OF _ placeFragment_id])

lemma setSlot_wf: "ra_wf ra \<Longrightarrow> slot_wf s \<Longrightarrow> ra_wf (setSlot i s ra)"
  by (auto simp: ra_wf_def dest!: set_update_subset_insert [THEN subsetD])

lemma ra_wf_stats [simp]: "ra_wf (ra \<lparr> ra_stats := st \<rparr>) = ra_wf ra"
  by (simp add: ra_wf_def)

lemma expireOne_wf: "ra_wf ra \<Longrightarrow> ra_wf (expireOne ty sq now ra)"
  by (auto simp: expireOne_def Let_def setSlot_wf split: option.splits)

lemma expireStale_wf: "ra_wf ra \<Longrightarrow> ra_wf (expireStale now ra)"
proof -
  have "ra_wf ra \<Longrightarrow> ra_wf (foldl (\<lambda>ra i. let s = ra_slots ra ! i in
      if sl_active s then expireOne (sl_type s) (sl_seq s) now ra else ra) ra is)" for ra "is"
    by (induction "is" arbitrary: ra) (auto simp: Let_def expireOne_wf)
  then show "ra_wf ra \<Longrightarrow> ra_wf (expireStale now ra)" by (simp add: expireStale_def)
qed

text \<open>The slot a fragment goes to: it exists and has the fragment's key.\<close>

lemma slot_for:
  assumes "ra_wf ra"
    and "(case findSlot ty sq ra of Some i \<Rightarrow> (i, ra) | None \<Rightarrow> allocSlot ty sq now ra) = (i, ra')"
  shows "ra_wf ra'" "i < length (ra_slots ra')" "slotKey ty sq (ra_slots ra' ! i)"
proof -
  have len: "length (ra_slots ra) = 2" using assms(1) by (simp add: ra_wf_def)
  then have ne: "ra_slots ra \<noteq> []" by auto
  have key: "slotKey ty sq (Slot_open ty sq now)" by (simp add: slotKey_def Slot_open_def)
  have alloc: "ra_wf (snd (allocSlot ty sq now ra)) \<and> fst (allocSlot ty sq now ra) < length (ra_slots (snd (allocSlot ty sq now ra))) \<and>
      slotKey ty sq (ra_slots (snd (allocSlot ty sq now ra)) ! fst (allocSlot ty sq now ra))"
    using assms(1) key oldestSlot_less [OF ne, of now]
    by (auto simp: allocSlot_def Let_def setSlot_wf dest: find_index_less split: option.split)
  show "ra_wf ra'" "i < length (ra_slots ra')" "slotKey ty sq (ra_slots ra' ! i)"
    using assms alloc find_index_Some [of "slotKey ty sq" "ra_slots ra"]
    by (auto simp: findSlot_def split: option.splits)
qed

text \<open>A completed frame is within the buffer and its header says its length.\<close>

definition frame_wf :: "u8 \<Rightarrow> u16 \<Rightarrow> FrameBuffer \<Rightarrow> bool" where
  "frame_wf ty sq fb \<longleftrightarrow> fb_inv fb \<and> (case fb_header fb of None \<Rightarrow> False
     | Some h \<Rightarrow> hdr_type h = ty \<and> hdr_seq h = sq \<and> unat (hdr_len h) = length (fb_payload fb))"

lemma checkComplete_wf:
  assumes "ra_wf ra" and "i < length (ra_slots ra)" and "checkComplete i ra = (x, ra')"
  shows "ra_wf ra'" "\<And>fb. x = Inr (Some fb) \<Longrightarrow> frame_wf (sl_type (ra_slots ra ! i)) (sl_seq (ra_slots ra ! i)) fb"
proof -
  let ?s = "ra_slots ra ! i"
  have D: "length (sl_data ?s) = 504" using assms(1,2) by (auto simp: ra_wf_def slot_wf_def slot_sizes)
  show "ra_wf ra'"
    using assms(1,3) by (auto simp: checkComplete_def Let_def setSlot_wf case_prod_unfold split: if_splits)
  fix fb assume x: "x = Inr (Some fb)"
  define n where "n = (unat (sl_totalFragments ?s) - 1) * unat (sl_unitLen ?s) + unat (sl_lastFragLen ?s)"
  define h where "h = \<lparr> hdr_type = sl_type ?s, hdr_flags = 0, hdr_channel = sl_channel ?s, hdr_seq = sl_seq ?s,
      hdr_len = word_of_nat n \<rparr>"
  let ?P = "take n (sl_data ?s)"
  have n: "n \<le> 504" and fb: "fb = fb_setSize (8 + n) (FrameBuffer_new \<lparr> fb_data := poke 8 ?P (poke 0 (header_bytes h) (fb_data FrameBuffer_new)) \<rparr>)"
    using assms(3) x unfolding checkComplete_def Let_def
    by (auto simp: slot_sizes encodeFrameHeader_fits FrameBuffer_new_def n_def h_def split: if_splits)
  have lenP: "length ?P = n" using n D by simp
  have "fb_bytes fb = header_bytes h @ ?P"
    using fb_bytes_assembled [of ?P "sl_data ?s" h] n unfolding fb lenP by simp
  moreover have "unat (fb_size fb) = 8 + n"
    using n unfolding fb by (simp add: fb_setSize_def kFrameBufferCapacity_def unat_of_nat del: of_nat_add)
  moreover have "fb_inv fb"
    unfolding fb using lenP n by (intro fb_inv_setSize) (simp add: fb_inv_def FrameBuffer_new_def kFrameBufferCapacity_def)
  moreover have "unat (word_of_nat n :: u16) = n" using n by (simp add: unat_of_nat)
  ultimately show "frame_wf (sl_type ?s) (sl_seq ?s) fb"
    using lenP by (simp add: frame_wf_def fb_header_def fb_payload_def kHeaderBytes_def h_def)
qed

text \<open>
  (C31) The reassembler is safe on any input: whatever header and payload arrive, the slot table keeps
  its size and no fragment is written outside its slot's buffers, and a frame it returns fits the
  frame buffer, has the type and sequence number of the fragment that completed it and a length
  field that matches its payload.  Sweeping for stale slots keeps the same invariant.
\<close>

theorem reassembler_safe:
  assumes "ra_wf ra"
  shows "ra_wf (snd (frag_accept header payload now ra)) \<and> ra_wf (expireStale now ra) \<and>
    (case fst (frag_accept header payload now ra) of
       Inr (Some fb) \<Rightarrow> frame_wf (hdr_type header) (hdr_seq header) fb
     | _ \<Rightarrow> True)"
proof -
  define ra1 where "ra1 = expireOne (hdr_type header) (hdr_seq header) now ra"
  obtain i ra2 where i: "(case findSlot (hdr_type header) (hdr_seq header) ra1 of Some i \<Rightarrow> (i, ra1)
      | None \<Rightarrow> allocSlot (hdr_type header) (hdr_seq header) now ra1) = (i, ra2)" by fastforce
  note sf = slot_for [OF expireOne_wf [OF assms] i [unfolded ra1_def]]
  define s0 where "s0 = (ra_slots ra2 ! i) \<lparr> sl_channel := hdr_channel header \<rparr>"
  obtain ov s where acc: "acceptInto s0 header (getU16 (take 2 payload)) (drop kFragIndexBytes payload) = (ov, s)" by fastforce
  have "slot_wf s0" using sf(1,2) by (simp add: s0_def ra_wf_def slot_wf_def)
  then have s: "slot_wf s" "same_id s0 s"
    using acceptInto_wf [of s0] acceptInto_id [of s0] acc by (metis snd_conv)+
  have key: "sl_type s = hdr_type header" "sl_seq s = hdr_seq header"
    using s(2) sf(3) by (simp_all add: same_id_def slotKey_def s0_def)
  obtain x ra' where cc: "checkComplete i (setSlot i s ra2) = (x, ra')" by fastforce
  have wf2: "ra_wf (setSlot i s ra2)" "i < length (ra_slots (setSlot i s ra2))" using sf s(1) by (simp_all add: setSlot_wf)
  note cw = checkComplete_wf [OF wf2 cc]
  have "frag_accept header payload now ra =
      (if length payload < kFragIndexBytes then (Inr None, ra)
       else if unat (getU16 (take 2 payload)) \<ge> kMaxFragmentsPerMessage then (Inl CapacityExceeded, ra)
       else if ov then (Inl CapacityExceeded, setSlot i Slot_new ra2) else (x, ra'))"
    unfolding frag_accept_def Let_def ra1_def [symmetric] i prod.case s0_def [symmetric] acc cc by simp
  then show ?thesis
    using assms expireStale_wf [OF assms, of now] cw key sf by (auto simp: setSlot_wf split: sum.splits option.splits)
qed

theorem reassembler_safe_witness:
  "ra_wf (snd (frag_accept \<lparr> hdr_type = 9, hdr_flags = 0, hdr_channel = 3, hdr_seq = 1, hdr_len = 600 \<rparr>
     (replicate 600 0xFF) 7 Reassembler_new))"
  using reassembler_safe [of Reassembler_new]
  by (simp add: ra_wf_def Reassembler_new_def slot_wf_def Slot_new_def)

text \<open>
  Completion is decided by counting: a sender that announces three fragments and then sends
  fragments 1, 2 and 5 makes the reassembler return a frame although fragment 0 never arrived; the
  missing bytes read as zeros.
\<close>

theorem reassembly_counts_only:
  "let frag = (\<lambda>fl i b. (header_bytes \<lparr> hdr_type = 9, hdr_flags = fl, hdr_channel = 3, hdr_seq = 1, hdr_len = 3 \<rparr> @
         u16_bytes i @ [b], 10));
       (xs, ra) = receive_all [frag FRAG_MORE 1 0xAA, frag FRAG_MORE 2 0xBB, frag 0 2 0xBB, frag FRAG_MORE 5 0xDD] Reassembler_new
   in map (map_sum id (map_option fb_payload)) xs = [Inr None, Inr None, Inr None, Inr (Some [0, 0xAA, 0xBB])]"
  by code_simp

end
