(* ===== verification/Channel_Tables.thy ===== *)
theory Channel_Tables
  imports Serial_Arith
begin

text \<open>
  The per-session grant table and the hub's retained values: \<^verbatim>\<open>channel/subscription.hpp\<close> and
  \<^verbatim>\<open>channel/retained_store.hpp\<close>.  Both are arrays of entries found by their channel id; the live span
  \<open>[0, count)\<close> is a list, the template's \<open>Capacity\<close> an argument.  The interface \<open>bounded_map\<close> states
  what such a table promises (a finite map that refuses only new keys beyond its capacity) and derives
  the effect of any sequence of writes.
\<close>

section \<open>Definitions: subscriptions\<close>

datatype Priority = background | normal | elevated | critical

record SubscriptionEntry =
  se_channel_id :: u16
  se_granted_rate_hz :: u32
  se_priority :: Priority
  se_everPushed :: bool
  se_lastPushMs :: u32

definition SubscriptionEntry_new :: SubscriptionEntry where
  "SubscriptionEntry_new = \<lparr> se_channel_id = 0, se_granted_rate_hz = 0, se_priority = normal, se_everPushed = False,
     se_lastPushMs = 0 \<rparr>"

text \<open>The comparison \<open>x <= 0.0f\<close> on a binary32 pattern: either zero, or a negative number (not a NaN).\<close>

definition f32_le_zero :: "u32 \<Rightarrow> bool" where
  "f32_le_zero x \<longleftrightarrow> x = 0 \<or> 0x80000000 \<le> x \<and> x \<le> 0xFF800000"

text \<open>\<open>period\<close> stands for the float expression \<open>uint32_t(1000.0f / granted_rate_hz)\<close>.\<close>

definition dueForPush :: "(u32 \<Rightarrow> u32) \<Rightarrow> u32 \<Rightarrow> bool \<Rightarrow> SubscriptionEntry \<Rightarrow> bool" where
  "dueForPush period now changePending e =
    (if \<not> se_everPushed e then True
     else if \<not> changePending then False
     else if f32_le_zero (se_granted_rate_hz e) then True
     else timeReached now (se_lastPushMs e + period (se_granted_rate_hz e)))"

definition markPushed :: "u32 \<Rightarrow> SubscriptionEntry \<Rightarrow> SubscriptionEntry" where
  "markPushed now e = e \<lparr> se_everPushed := True, se_lastPushMs := now \<rparr>"

type_synonym SubscriptionTable = "SubscriptionEntry list"

definition st_find :: "u16 \<Rightarrow> SubscriptionTable \<Rightarrow> nat option" where
  "st_find ch t = find_index (\<lambda>e. se_channel_id e = ch) t"

definition st_upsert :: "nat \<Rightarrow> u16 \<Rightarrow> u32 \<Rightarrow> Priority \<Rightarrow> SubscriptionTable \<Rightarrow> bool \<times> SubscriptionTable" where
  "st_upsert cap ch rate prio t =
    (case st_find ch t of
       Some i \<Rightarrow> (True, t[i := (t ! i) \<lparr> se_granted_rate_hz := rate, se_priority := prio, se_everPushed := False,
                                    se_lastPushMs := 0 \<rparr>])
     | None \<Rightarrow>
         if length t \<ge> cap then (False, t)
         else (True, t @ [SubscriptionEntry_new \<lparr> se_channel_id := ch, se_granted_rate_hz := rate, se_priority := prio \<rparr>]))"

text \<open>The inner loop of \<open>remove\<close> moves every later entry down by one.\<close>

definition st_remove :: "u16 \<Rightarrow> SubscriptionTable \<Rightarrow> bool \<times> SubscriptionTable" where
  "st_remove ch t =
    (case st_find ch t of
       Some i \<Rightarrow> (True, take (length t - 1) (foldl (\<lambda>t j. t[j - 1 := t ! j]) t [i + 1..<length t]))
     | None \<Rightarrow> (False, t))"

section \<open>Definitions: retained values\<close>

abbreviation (input) min_transport_payload :: nat where "min_transport_payload \<equiv> 242"

record RetainedEntry =
  re_channel_id :: u16
  re_valid :: bool
  re_seq :: u16
  re_payload :: bytes

definition RetainedEntry_new :: RetainedEntry where
  "RetainedEntry_new = \<lparr> re_channel_id = 0, re_valid = False, re_seq = 0, re_payload = [] \<rparr>"

type_synonym RetainedStore = "RetainedEntry list"

definition rs_find :: "u16 \<Rightarrow> RetainedStore \<Rightarrow> nat option" where
  "rs_find ch t = find_index (\<lambda>e. re_channel_id e = ch) t"

definition rs_write :: "nat \<Rightarrow> bytes \<Rightarrow> RetainedStore \<Rightarrow> u16 option \<times> RetainedStore" where
  "rs_write i payload t =
    (let e = t ! i; e' = e \<lparr> re_seq := re_seq e + 1, re_payload := payload, re_valid := True \<rparr>
     in (Some (re_seq e'), t[i := e']))"

definition rs_publish :: "nat \<Rightarrow> u16 \<Rightarrow> bytes \<Rightarrow> RetainedStore \<Rightarrow> u16 option \<times> RetainedStore" where
  "rs_publish cap ch payload t =
    (if length payload > min_transport_payload then (None, t)
     else case rs_find ch t of
       Some i \<Rightarrow> rs_write i payload t
     | None \<Rightarrow>
         if length t \<ge> cap then (None, t)
         else rs_write (length t) payload (t @ [RetainedEntry_new \<lparr> re_channel_id := ch \<rparr>]))"

definition rs_get :: "u16 \<Rightarrow> RetainedStore \<Rightarrow> (u16 \<times> bytes) option" where
  "rs_get ch t =
    (case rs_find ch t of
       None \<Rightarrow> None
     | Some i \<Rightarrow> if \<not> re_valid (t ! i) then None else Some (re_seq (t ! i), re_payload (t ! i)))"

section \<open>The interface of a bounded table\<close>

locale bounded_map =
  fixes inv :: "'s \<Rightarrow> bool"
    and look :: "'s \<Rightarrow> 'k \<Rightarrow> 'v option"
    and put :: "'k \<Rightarrow> 'w \<Rightarrow> 's \<Rightarrow> bool \<times> 's"
    and upd :: "'k \<Rightarrow> 'w \<Rightarrow> 'v option \<Rightarrow> 'v"
    and accepts :: "'w \<Rightarrow> bool"
    and capacity :: nat
  assumes bounded: "inv s \<Longrightarrow> finite (dom (look s)) \<and> card (dom (look s)) \<le> capacity"
    and put_keeps: "inv s \<Longrightarrow> inv (snd (put k w s))"
    and put_stores: "inv s \<Longrightarrow> accepts w \<Longrightarrow> k \<in> dom (look s) \<or> card (dom (look s)) < capacity \<Longrightarrow>
      fst (put k w s) \<and> look (snd (put k w s)) = (look s)(k \<mapsto> upd k w (look s k))"
    and put_refuses: "inv s \<Longrightarrow> \<not> (accepts w \<and> (k \<in> dom (look s) \<or> card (dom (look s)) < capacity)) \<Longrightarrow>
      put k w s = (False, s)"
begin

fun put_all :: "('k \<times> 'w) list \<Rightarrow> 's \<Rightarrow> 's" where
  "put_all [] s = s"
| "put_all ((k, w) # ws) s = put_all ws (snd (put k w s))"

text \<open>The value of a key after a sequence of writes to it.\<close>

definition history :: "'k \<Rightarrow> ('k \<times> 'w) list \<Rightarrow> 'v option \<Rightarrow> 'v option" where
  "history k ws v = foldl (\<lambda>v w. Some (upd k w v)) v (map snd (filter (\<lambda>(k', w). k' = k) ws))"

lemma put_all_keeps: "inv s \<Longrightarrow> inv (put_all ws s)"
  by (induction ws s rule: put_all.induct) (auto intro: put_keeps)

text \<open>As long as the keys in use fit the capacity, every write takes effect.\<close>

lemma put_all_history:
  assumes "inv s" and "\<forall>(k, w) \<in> set ws. accepts w" and "card (dom (look s) \<union> fst ` set ws) \<le> capacity"
  shows "look (put_all ws s) k = history k ws (look s k)"
  using assms
proof (induction ws arbitrary: s)
  case Nil
  then show ?case by (simp add: history_def)
next
  case (Cons kw ws)
  obtain k' w where kw: "kw = (k', w)" by (cases kw)
  have fin: "finite (dom (look s) \<union> fst ` set ws)" using bounded [OF Cons.prems(1)] by simp
  have room: "k' \<in> dom (look s) \<or> card (dom (look s)) < capacity"
  proof (cases "k' \<in> dom (look s)")
    case False
    have "card (insert k' (dom (look s))) \<le> card (dom (look s) \<union> fst ` set (kw # ws))"
      using fin kw by (intro card_mono) auto
    then show ?thesis using False Cons.prems(3) bounded [OF Cons.prems(1)] by simp
  qed simp
  have s': "look (snd (put k' w s)) = (look s)(k' \<mapsto> upd k' w (look s k'))"
    using put_stores [OF Cons.prems(1) _ room, of w] Cons.prems(2) kw by auto
  have "dom (look (snd (put k' w s))) \<union> fst ` set ws = dom (look s) \<union> fst ` set (kw # ws)"
    unfolding s' using kw by auto
  then have "look (put_all ws (snd (put k' w s))) k = history k ws (look (snd (put k' w s)) k)"
    using Cons.prems put_keeps by (intro Cons.IH) auto
  then show ?case using kw s' by (simp add: history_def)
qed

end

section \<open>Entries found by key\<close>

definition kfind :: "('e \<Rightarrow> 'k) \<Rightarrow> 'e list \<Rightarrow> 'k \<Rightarrow> 'e option" where
  "kfind key t k = map_option ((!) t) (find_index (\<lambda>e. key e = k) t)"

lemma kfind_simps [simp]:
  "kfind key [] k = None" "kfind key (e # t) k = (if key e = k then Some e else kfind key t k)"
  by (simp_all add: kfind_def option.map_comp comp_def)

lemma kfind_None_iff: "kfind key t k = None \<longleftrightarrow> k \<notin> key ` set t"
  by (induction t) auto

lemma dom_kfind: "dom (kfind key t) = key ` set t"
  unfolding dom_def by (simp add: kfind_None_iff)

lemma kfind_key: "kfind key t k = Some e \<Longrightarrow> e \<in> set t \<and> key e = k"
  by (induction t) (auto split: if_splits)

lemma find_index_kfind:
  "find_index (\<lambda>e. key e = k) t = Some i \<Longrightarrow> i < length t \<and> key (t ! i) = k \<and> kfind key t k = Some (t ! i)"
  using find_index_Some [of "\<lambda>e. key e = k" t i] by (auto simp: kfind_def)

lemma kfind_append:
  "kfind key (t @ [e]) = (if key e \<in> key ` set t then kfind key t else (kfind key t)(key e \<mapsto> e))"
  by (induction t) (auto simp: fun_eq_iff)

lemma kfind_update:
  "find_index (\<lambda>e. key e = k) t = Some i \<Longrightarrow> key e = k \<Longrightarrow>
   kfind key (t[i := e]) = (kfind key t)(k \<mapsto> e) \<and> map key (t[i := e]) = map key t"
proof (induction t arbitrary: i)
  case (Cons x t)
  show ?case
  proof (cases "key x = k")
    case True
    then show ?thesis using Cons.prems by (auto simp: fun_eq_iff)
  next
    case False
    then obtain j where j: "find_index (\<lambda>e. key e = k) t = Some j" "i = Suc j" using Cons.prems(1) by auto
    then show ?thesis using Cons.IH [OF j(1) Cons.prems(2)] False by (auto simp: fun_eq_iff)
  qed
qed simp

lemma kfind_remove:
  assumes "distinct (map key t)" and "find_index (\<lambda>e. key e = k) t = Some i"
  shows "kfind key (take i t @ drop (Suc i) t) = (kfind key t)(k := None) \<and> distinct (map key (take i t @ drop (Suc i) t))"
  using assms
proof (induction t arbitrary: i)
  case (Cons x t)
  show ?case
  proof (cases "key x = k")
    case True
    then have "k \<notin> key ` set t" using Cons.prems(1) by auto
    then show ?thesis using Cons.prems True kfind_None_iff [of key t k] by (auto simp: fun_eq_iff)
  next
    case False
    then obtain j where j: "find_index (\<lambda>e. key e = k) t = Some j" "i = Suc j" using Cons.prems(2) by auto
    have "set (take j t @ drop (Suc j) t) \<subseteq> set t" using set_take_subset [of j t] set_drop_subset [of "Suc j" t] by auto
    then show ?thesis using Cons.IH [OF _ j(1)] Cons.prems(1) False j(2) by (auto simp: fun_eq_iff)
  qed
qed simp

text \<open>The loop that moves the later entries down.\<close>

lemma shift_down:
  assumes "i < length t"
  shows "take (length t - 1) (foldl (\<lambda>t j. t[j - 1 := t ! j]) t [i + 1..<length t]) = take i t @ drop (Suc i) t"
proof -
  have "foldl (\<lambda>t j. t[j - 1 := t ! j]) t [i + 1..<i + 1 + n] = take i t @ take n (drop (Suc i) t) @ drop (i + n) t"
    if "i + 1 + n \<le> length t" for n
    using that
  proof (induction n)
    case 0
    then show ?case by simp
  next
    case (Suc n)
    let ?u = "take i t @ take n (drop (Suc i) t) @ drop (i + n) t"
    have "foldl (\<lambda>t j. t[j - 1 := t ! j]) t [i + 1..<i + 1 + Suc n] = ?u[i + n := ?u ! (i + 1 + n)]"
      using Suc by simp
    moreover have "?u ! (i + 1 + n) = t ! (i + 1 + n)" using Suc.prems by (auto simp: nth_append min_def)
    moreover have "?u[i + n := x] = take i t @ take n (drop (Suc i) t) @ x # drop (i + Suc n) t" for x
      using Suc.prems drop_eq_nth_Cons [of "i + n" t] by (auto simp: list_update_append min_def)
    moreover have "take (Suc n) (drop (Suc i) t) = take n (drop (Suc i) t) @ [t ! (i + 1 + n)]"
      using Suc.prems by (simp add: take_Suc_conv_app_nth)
    ultimately show ?case by simp
  qed
  note loop = this
  obtain n where n: "length t = i + 1 + n" using assms less_iff_Suc_add by auto
  have "foldl (\<lambda>t j. t[j - 1 := t ! j]) t [i + 1..<length t] = (take i t @ drop (Suc i) t) @ drop (i + n) t"
    using loop [of n] n by simp
  moreover have "length (take i t @ drop (Suc i) t) = length t - 1" using n by simp
  ultimately show ?thesis by (metis append_eq_conv_conj)
qed

section \<open>The tables as bounded maps\<close>

definition st_inv :: "nat \<Rightarrow> SubscriptionTable \<Rightarrow> bool" where
  "st_inv cap t \<longleftrightarrow> distinct (map se_channel_id t) \<and> length t \<le> cap"

definition st_entry :: "u16 \<Rightarrow> u32 \<times> Priority \<Rightarrow> SubscriptionEntry option \<Rightarrow> SubscriptionEntry" where
  "st_entry ch w old = \<lparr> se_channel_id = ch, se_granted_rate_hz = fst w, se_priority = snd w, se_everPushed = False,
     se_lastPushMs = 0 \<rparr>"

definition rs_inv :: "nat \<Rightarrow> RetainedStore \<Rightarrow> bool" where
  "rs_inv cap t \<longleftrightarrow> distinct (map re_channel_id t) \<and> length t \<le> cap \<and> list_all re_valid t"

definition rs_put :: "nat \<Rightarrow> u16 \<Rightarrow> bytes \<Rightarrow> RetainedStore \<Rightarrow> bool \<times> RetainedStore" where
  "rs_put cap ch p t = (let (r, t') = rs_publish cap ch p t in (r \<noteq> None, t'))"

definition rs_entry :: "u16 \<Rightarrow> bytes \<Rightarrow> RetainedEntry option \<Rightarrow> RetainedEntry" where
  "rs_entry ch p old = \<lparr> re_channel_id = ch, re_valid = True,
     re_seq = (case old of None \<Rightarrow> 1 | Some e \<Rightarrow> re_seq e + 1), re_payload = p \<rparr>"

lemma entry_simps [simp]:
  "se_channel_id (st_entry ch w old) = ch" "re_channel_id (rs_entry ch p old') = ch" "re_valid (rs_entry ch p old')"
  by (simp_all add: st_entry_def rs_entry_def)

lemma card_dom_kfind: "distinct (map key t) \<Longrightarrow> card (dom (kfind key t)) = length t"
  unfolding dom_kfind by (metis distinct_card length_map set_map)

lemma st_find_cases:
  obtains (found) i where "st_find ch t = Some i" "i < length t" "se_channel_id (t ! i) = ch"
      "kfind se_channel_id t ch = Some (t ! i)" "ch \<in> dom (kfind se_channel_id t)"
  | (missing) "st_find ch t = None" "ch \<notin> dom (kfind se_channel_id t)" "kfind se_channel_id t ch = None"
  using find_index_kfind [of se_channel_id ch t] find_index_None [of "\<lambda>e. se_channel_id e = ch" t]
  by (cases "st_find ch t") (auto simp: st_find_def dom_kfind kfind_None_iff)

lemma st_upsert_found:
  assumes "st_find ch t = Some i"
  shows "st_upsert cap ch (fst w) (snd w) t = (True, t[i := st_entry ch w (Some (t ! i))])"
    "kfind se_channel_id (t[i := st_entry ch w (Some (t ! i))]) =
     (kfind se_channel_id t)(ch \<mapsto> st_entry ch w (Some (t ! i)))"
    "map se_channel_id (t[i := st_entry ch w (Some (t ! i))]) = map se_channel_id t"
proof -
  have f: "find_index (\<lambda>e. se_channel_id e = ch) t = Some i" using assms by (simp add: st_find_def)
  have "(t ! i) \<lparr> se_granted_rate_hz := fst w, se_priority := snd w, se_everPushed := False, se_lastPushMs := 0 \<rparr> =
      st_entry ch w (Some (t ! i))"
    using find_index_kfind [OF f] by (cases "t ! i") (simp add: st_entry_def)
  then show "st_upsert cap ch (fst w) (snd w) t = (True, t[i := st_entry ch w (Some (t ! i))])"
    using assms by (simp add: st_upsert_def)
qed (use kfind_update [of se_channel_id ch t i] assms in \<open>simp_all add: st_find_def st_entry_def\<close>)

lemma st_upsert_missing:
  assumes "st_find ch t = None"
  shows "st_upsert cap ch (fst w) (snd w) t =
    (if cap \<le> length t then (False, t) else (True, t @ [st_entry ch w None]))"
  using assms by (simp add: st_upsert_def st_entry_def SubscriptionEntry_new_def)

interpretation subs: bounded_map "st_inv cap" "kfind se_channel_id" "\<lambda>ch w. st_upsert cap ch (fst w) (snd w)" st_entry "\<lambda>_. True" cap
  for cap
proof (unfold_locales, goal_cases)
  case (1 s)
  then show ?case using card_dom_kfind [of se_channel_id s] by (auto simp: st_inv_def dom_kfind)
next
  case (2 s ch w)
  then show ?case
    by (cases rule: st_find_cases [of ch s])
      (auto simp: st_inv_def st_upsert_found st_upsert_missing dom_kfind)
next
  case (3 s w ch)
  then show ?case
  proof (cases rule: st_find_cases [of ch s])
    case (found i)
    then show ?thesis by (simp add: st_upsert_found)
  next
    case missing
    then show ?thesis
      using 3 card_dom_kfind [of se_channel_id s]
      by (auto simp: st_inv_def st_upsert_missing kfind_append dom_kfind)
  qed
next
  case (4 s w ch)
  then show ?case
    using card_dom_kfind [of se_channel_id s]
    by (cases rule: st_find_cases [of ch s]) (auto simp: st_inv_def st_upsert_missing)
qed

lemma rs_find_cases:
  obtains (found) i where "rs_find ch t = Some i" "i < length t" "re_channel_id (t ! i) = ch"
      "kfind re_channel_id t ch = Some (t ! i)" "ch \<in> dom (kfind re_channel_id t)"
  | (missing) "rs_find ch t = None" "ch \<notin> dom (kfind re_channel_id t)" "kfind re_channel_id t ch = None"
  using find_index_kfind [of re_channel_id ch t] find_index_None [of "\<lambda>e. re_channel_id e = ch" t]
  by (cases "rs_find ch t") (auto simp: rs_find_def dom_kfind kfind_None_iff)

lemma rs_publish_found:
  assumes "rs_find ch t = Some i" and "length p \<le> 242"
  shows "rs_publish cap ch p t = (Some (re_seq (t ! i) + 1), t[i := rs_entry ch p (Some (t ! i))])"
    "kfind re_channel_id (t[i := rs_entry ch p (Some (t ! i))]) =
     (kfind re_channel_id t)(ch \<mapsto> rs_entry ch p (Some (t ! i)))"
    "map re_channel_id (t[i := rs_entry ch p (Some (t ! i))]) = map re_channel_id t"
proof -
  have f: "find_index (\<lambda>e. re_channel_id e = ch) t = Some i" using assms by (simp add: rs_find_def)
  have "(t ! i) \<lparr> re_seq := re_seq (t ! i) + 1, re_payload := p, re_valid := True \<rparr> = rs_entry ch p (Some (t ! i))"
    using find_index_kfind [OF f] by (cases "t ! i") (simp add: rs_entry_def)
  then show "rs_publish cap ch p t = (Some (re_seq (t ! i) + 1), t[i := rs_entry ch p (Some (t ! i))])"
    using assms by (simp add: rs_publish_def rs_write_def Let_def)
qed (use kfind_update [of re_channel_id ch t i] assms in \<open>simp_all add: rs_find_def rs_entry_def\<close>)

lemma rs_publish_missing:
  assumes "rs_find ch t = None" and "length p \<le> 242"
  shows "rs_publish cap ch p t = (if cap \<le> length t then (None, t) else (Some 1, t @ [rs_entry ch p None]))"
  using assms by (simp add: rs_publish_def rs_write_def rs_entry_def RetainedEntry_new_def Let_def)

lemma rs_publish_oversize: "242 < length p \<Longrightarrow> rs_publish cap ch p t = (None, t)"
  by (simp add: rs_publish_def)

lemma list_all_update: "list_all Q t \<Longrightarrow> Q x \<Longrightarrow> list_all Q (t[i := x])"
  by (induction t arbitrary: i) (auto split: nat.splits)

interpretation retained: bounded_map "rs_inv cap" "kfind re_channel_id" "rs_put cap" rs_entry "\<lambda>p. length p \<le> 242" cap
  for cap
proof (unfold_locales, goal_cases)
  case (1 s)
  then show ?case using card_dom_kfind [of re_channel_id s] by (auto simp: rs_inv_def dom_kfind)
next
  case (2 s ch p)
  show ?case
  proof (cases "length p \<le> 242")
    case True
    then show ?thesis using 2
      by (cases rule: rs_find_cases [of ch s]) (auto simp: rs_inv_def rs_put_def rs_publish_found rs_publish_missing
        dom_kfind list_all_update)
  qed (use 2 in \<open>simp add: rs_put_def rs_publish_oversize\<close>)
next
  case (3 s p ch)
  then show ?case
  proof (cases rule: rs_find_cases [of ch s])
    case (found i)
    then show ?thesis using 3 by (simp add: rs_put_def rs_publish_found)
  next
    case missing
    then show ?thesis
      using 3 card_dom_kfind [of re_channel_id s]
      by (auto simp: rs_inv_def rs_put_def rs_publish_missing kfind_append dom_kfind)
  qed
next
  case (4 s p ch)
  show ?case
  proof (cases "length p \<le> 242")
    case True
    then show ?thesis
      using 4 card_dom_kfind [of re_channel_id s]
      by (cases rule: rs_find_cases [of ch s]) (auto simp: rs_inv_def rs_put_def rs_publish_missing)
  qed (simp add: rs_put_def rs_publish_oversize)
qed

section \<open>Properties\<close>

fun rs_publish_all :: "nat \<Rightarrow> (u16 \<times> bytes) list \<Rightarrow> RetainedStore \<Rightarrow> RetainedStore" where
  "rs_publish_all cap [] t = t"
| "rs_publish_all cap ((ch, p) # ps) t = rs_publish_all cap ps (snd (rs_publish cap ch p t))"

lemma snd_rs_put: "snd (rs_put cap ch p t) = snd (rs_publish cap ch p t)"
  by (simp add: rs_put_def case_prod_unfold Let_def)

lemma rs_publish_all_put_all: "rs_publish_all cap ps t = retained.put_all cap ps t"
  by (induction cap ps t rule: rs_publish_all.induct) (simp_all add: retained.put_all.simps snd_rs_put)

lemma rs_history:
  "retained.history ch ps None =
   (let qs = map snd (filter (\<lambda>(ch', p). ch' = ch) ps) in
    if qs = [] then None
    else Some \<lparr> re_channel_id = ch, re_valid = True, re_seq = word_of_nat (length qs), re_payload = last qs \<rparr>)"
proof -
  have "foldl (\<lambda>v w. Some (rs_entry ch w v)) None qs =
      (if qs = [] then None
       else Some \<lparr> re_channel_id = ch, re_valid = True, re_seq = word_of_nat (length qs), re_payload = last qs \<rparr>)" for qs
    by (induction qs rule: rev_induct) (simp_all add: rs_entry_def)
  then show ?thesis by (simp add: retained.history_def Let_def)
qed

lemma rs_get_kfind: "rs_inv cap t \<Longrightarrow> rs_get ch t = map_option (\<lambda>e. (re_seq e, re_payload e)) (kfind re_channel_id t ch)"
  by (cases rule: rs_find_cases [of ch t]) (auto simp: rs_get_def rs_inv_def list_all_iff)

lemma rs_get_publish_all:
  assumes "\<forall>(ch, p) \<in> set ps. length p \<le> 242" and "card (fst ` set ps) \<le> cap"
  shows "rs_get ch (rs_publish_all cap ps []) =
    (let qs = map snd (filter (\<lambda>(ch', p). ch' = ch) ps) in
     if qs = [] then None else Some (word_of_nat (length qs), last qs))"
proof -
  have inv: "rs_inv cap []" by (simp add: rs_inv_def)
  have "kfind re_channel_id (rs_publish_all cap ps []) ch = retained.history ch ps None"
    using retained.put_all_history [OF inv assms(1)] assms(2) by (simp add: rs_publish_all_put_all dom_def)
  moreover have "rs_inv cap (rs_publish_all cap ps [])"
    using retained.put_all_keeps [OF inv] by (simp add: rs_publish_all_put_all)
  ultimately show ?thesis by (simp add: rs_get_kfind rs_history Let_def)
qed

text \<open>
  (C39) The retained store holds the latest value and counts publishes: after any sequence of publishes,
  interleaved over at most as many channels as the store has room for, reading a channel gives the
  payload published to it last and a sequence number equal to the number of its publishes, modulo
  \<open>2^16\<close>; a channel that was never published reads as absent.
\<close>

theorem retained_store_latest:
  assumes "\<forall>(ch, p) \<in> set ps. length p \<le> 242" and "card (fst ` set ps) \<le> cap"
  shows "rs_get ch (rs_publish_all cap ps []) =
    (let qs = map snd (filter (\<lambda>(ch', p). ch' = ch) ps) in
     if qs = [] then None else Some (word_of_nat (length qs), last qs))"
  using assms by (rule rs_get_publish_all)

theorem retained_store_latest_witness:
  "rs_get 3 (rs_publish_all 32 [(3, [1]), (4, [9]), (3, [1, 2])] []) = Some (2, [1, 2])"
  by (subst retained_store_latest) (auto simp: Let_def card_insert_if)

text \<open>
  The grant table is a finite map with a capacity: an upsert replaces the grant of its channel, or
  adds it when there is room, and otherwise refuses and changes nothing; a remove deletes exactly
  its channel; no other channel's entry changes and the invariant (one entry per channel, at most
  \<open>cap\<close> of them) is kept.  A channel that was just granted, newly or again, is due for a push at once.
\<close>

theorem subscription_table_map:
  assumes "st_inv cap t"
  shows "(let (ok, t') = st_upsert cap ch rate prio t in
      st_inv cap t' \<and> (ok \<longleftrightarrow> ch \<in> dom (kfind se_channel_id t) \<or> length t < cap) \<and>
      (if ok then (\<exists>e. kfind se_channel_id t' = (kfind se_channel_id t)(ch \<mapsto> e) \<and>
                     se_granted_rate_hz e = rate \<and> se_priority e = prio \<and> dueForPush period now pending e)
       else t' = t)) \<and>
    (let (ok, t') = st_remove ch t in
      st_inv cap t' \<and> (ok \<longleftrightarrow> ch \<in> dom (kfind se_channel_id t)) \<and>
      kfind se_channel_id t' = (kfind se_channel_id t)(ch := None))"
proof (intro conjI)
  let ?e = "st_entry ch (rate, prio) (kfind se_channel_id t ch)"
  have due: "se_granted_rate_hz ?e = rate" "se_priority ?e = prio" "dueForPush period now pending ?e"
    by (simp_all add: st_entry_def dueForPush_def)
  have card: "card (dom (kfind se_channel_id t)) = length t" using assms by (simp add: st_inv_def card_dom_kfind)
  show "let (ok, t') = st_upsert cap ch rate prio t in
      st_inv cap t' \<and> (ok \<longleftrightarrow> ch \<in> dom (kfind se_channel_id t) \<or> length t < cap) \<and>
      (if ok then (\<exists>e. kfind se_channel_id t' = (kfind se_channel_id t)(ch \<mapsto> e) \<and>
                     se_granted_rate_hz e = rate \<and> se_priority e = prio \<and> dueForPush period now pending e)
       else t' = t)"
    using subs.put_keeps [OF assms, where k = ch and w = "(rate, prio)"]
      subs.put_stores [OF assms, where k = ch and w = "(rate, prio)"]
      subs.put_refuses [OF assms, where k = ch and w = "(rate, prio)"] due
    unfolding card by (cases "ch \<in> dom (kfind se_channel_id t) \<or> length t < cap") (auto simp: case_prod_unfold Let_def)
  show "let (ok, t') = st_remove ch t in
      st_inv cap t' \<and> (ok \<longleftrightarrow> ch \<in> dom (kfind se_channel_id t)) \<and>
      kfind se_channel_id t' = (kfind se_channel_id t)(ch := None)"
  proof (cases rule: st_find_cases [of ch t])
    case (found i)
    then have "st_remove ch t = (True, take i t @ drop (Suc i) t)"
      using shift_down [of i t] by (simp add: st_remove_def)
    then show ?thesis
      using kfind_remove [of se_channel_id t ch i] assms found by (auto simp: st_inv_def st_find_def)
  next
    case missing
    then show ?thesis using assms by (simp add: st_remove_def fun_upd_idem)
  qed
qed

theorem subscription_table_map_witness:
  "st_inv 2 (snd (st_upsert 2 7 0x41200000 elevated [SubscriptionEntry_new])) \<and>
   fst (st_upsert 2 7 0x41200000 elevated [SubscriptionEntry_new])"
  using subscription_table_map [of 2 "[SubscriptionEntry_new]" 7 "0x41200000" elevated "\<lambda>_. 100" 0 False]
  by (simp add: st_inv_def case_prod_unfold Let_def)

text \<open>
  Pacing: after a push at \<open>now\<close> a subscription with a positive rate whose period is \<open>p\<close> is due again,
  \<open>d\<close> milliseconds later, exactly if the value changed and \<open>d\<close> is at least \<open>p\<close>, across the wrap of the
  clock as long as both are below \<open>2^31\<close>; one that is granted on-change only is due exactly on change.
\<close>

theorem dueForPush_paced:
  assumes "d < 2 ^ 31" and "unat (period (se_granted_rate_hz e)) < 2 ^ 31"
  shows "dueForPush period (now + word_of_nat d) pending (markPushed now e) \<longleftrightarrow>
    pending \<and> (f32_le_zero (se_granted_rate_hz e) \<or> unat (period (se_granted_rate_hz e)) \<le> d)"
proof -
  let ?p = "period (se_granted_rate_hz e)"
  define p where "p = unat ?p"
  have p: "?p = word_of_nat p" "p < 2 ^ 31" using assms(2) by (simp_all add: p_def)
  have "timeReached (now + word_of_nat d) (now + ?p) \<longleftrightarrow> p \<le> d"
    using timeReached_offsets [of d p now] assms(1) p by simp
  then show ?thesis by (auto simp: dueForPush_def markPushed_def p_def)
qed

theorem dueForPush_paced_witness:
  "dueForPush (\<lambda>_. 100) (0xFFFFFFF0 + word_of_nat 120) True (markPushed 0xFFFFFFF0 SubscriptionEntry_new)"
  using dueForPush_paced [of 120 "\<lambda>_. 100" SubscriptionEntry_new "0xFFFFFFF0" True] by simp

end
