(* ===== verification/Event_Rings.thy ===== *)
theory Event_Rings
  imports Slop_Prelude
begin

text \<open>
  The fixed-depth rings of the channel layer: \<^verbatim>\<open>channel/event_channel.hpp\<close> (\<open>EventQueue\<close>, the
  per-subscriber queue of encoded events), \<^verbatim>\<open>channel/log_channel.hpp\<close> (\<open>EventReplayRing\<close>, the log tail)
  and \<^verbatim>\<open>channel/intent_registry.hpp\<close> (\<open>IntentRing\<close>, the idempotency ring).  A ring is the array of
  slots with its indices, exactly as in the source; the template arguments \<open>Depth\<close> and \<open>SlotCapacity\<close>
  are arguments of the operations.  The interface \<open>drop_oldest\<close> states what a bounded log with a
  drop counter promises, \<open>drop_oldest_queue\<close> adds the consumer's side.
\<close>

section \<open>Definitions: the event queue\<close>

record EventSlot =
  es_bytes :: bytes
  es_size :: u16
  es_channel_id :: u16

definition EventSlot_new :: "nat \<Rightarrow> EventSlot" where
  "EventSlot_new cap = \<lparr> es_bytes = replicate cap 0, es_size = 0, es_channel_id = 0 \<rparr>"

record EventQueue =
  eq_slots :: "EventSlot list"
  eq_head :: nat
  eq_tail :: nat
  eq_count :: nat
  eq_eventsDropped :: u32

definition EventQueue_new :: "nat \<Rightarrow> nat \<Rightarrow> EventQueue" where
  "EventQueue_new depth cap = \<lparr> eq_slots = replicate depth (EventSlot_new cap), eq_head = 0, eq_tail = 0, eq_count = 0,
     eq_eventsDropped = 0 \<rparr>"

definition eq_write :: "nat \<Rightarrow> u16 \<Rightarrow> bytes \<Rightarrow> EventQueue \<Rightarrow> EventQueue" where
  "eq_write depth ch bs q =
    (let s = eq_slots q ! eq_head q;
         s' = s \<lparr> es_bytes := poke 0 bs (es_bytes s), es_size := of_nat (length bs), es_channel_id := ch \<rparr>
     in q \<lparr> eq_slots := (eq_slots q)[eq_head q := s'], eq_head := (eq_head q + 1) mod depth,
            eq_count := eq_count q + 1 \<rparr>)"

definition eq_push :: "nat \<Rightarrow> nat \<Rightarrow> u16 \<times> bytes \<Rightarrow> EventQueue \<Rightarrow> bool \<times> EventQueue" where
  "eq_push depth cap = (\<lambda>(ch, bs) q.
    if length bs > cap then (False, q)
    else
      let q = (if eq_count q = depth
               then q \<lparr> eq_tail := (eq_tail q + 1) mod depth, eq_count := eq_count q - 1,
                        eq_eventsDropped := eq_eventsDropped q + 1 \<rparr>
               else q)
      in (True, eq_write depth ch bs q))"

definition es_view :: "EventSlot \<Rightarrow> u16 \<times> bytes" where
  "es_view s = (es_channel_id s, take (unat (es_size s)) (es_bytes s))"

definition eq_pop :: "nat \<Rightarrow> EventQueue \<Rightarrow> (u16 \<times> bytes) option \<times> EventQueue" where
  "eq_pop depth q =
    (if eq_count q = 0 then (None, q)
     else (Some (es_view (eq_slots q ! eq_tail q)),
           q \<lparr> eq_tail := (eq_tail q + 1) mod depth, eq_count := eq_count q - 1 \<rparr>))"

section \<open>Definitions: the replay ring\<close>

record ReplaySlot =
  ps_bytes :: bytes
  ps_size :: u16

record EventReplayRing =
  rr_slots :: "ReplaySlot list"
  rr_head :: nat
  rr_tail :: nat
  rr_count :: nat
  rr_dropped :: u32

definition EventReplayRing_new :: "nat \<Rightarrow> nat \<Rightarrow> EventReplayRing" where
  "EventReplayRing_new depth cap = \<lparr> rr_slots = replicate depth \<lparr> ps_bytes = replicate cap 0, ps_size = 0 \<rparr>,
     rr_head = 0, rr_tail = 0, rr_count = 0, rr_dropped = 0 \<rparr>"

definition rr_write :: "nat \<Rightarrow> bytes \<Rightarrow> EventReplayRing \<Rightarrow> EventReplayRing" where
  "rr_write depth bs r =
    (let s = rr_slots r ! rr_head r;
         s' = s \<lparr> ps_bytes := poke 0 bs (ps_bytes s), ps_size := of_nat (length bs) \<rparr>
     in r \<lparr> rr_slots := (rr_slots r)[rr_head r := s'], rr_head := (rr_head r + 1) mod depth,
            rr_count := rr_count r + 1 \<rparr>)"

definition rr_push :: "nat \<Rightarrow> nat \<Rightarrow> bytes \<Rightarrow> EventReplayRing \<Rightarrow> bool \<times> EventReplayRing" where
  "rr_push depth cap bs r =
    (if length bs > cap then (False, r)
     else
       let r = (if rr_count r = depth
                then r \<lparr> rr_tail := (rr_tail r + 1) mod depth, rr_count := rr_count r - 1,
                         rr_dropped := rr_dropped r + 1 \<rparr>
                else r)
       in (True, rr_write depth bs r))"

definition ps_view :: "ReplaySlot \<Rightarrow> bytes" where
  "ps_view s = take (unat (ps_size s)) (ps_bytes s)"

text \<open>The callback is the list of the spans it is called with, in call order.\<close>

definition forEachNewest :: "nat \<Rightarrow> nat \<Rightarrow> EventReplayRing \<Rightarrow> nat \<times> bytes list" where
  "forEachNewest depth want r =
    (let n = (if want < rr_count r then want else rr_count r);
         start = (rr_tail r + (rr_count r - n)) mod depth
     in (n, map (\<lambda>i. ps_view (rr_slots r ! ((start + i) mod depth))) [0..<n]))"

section \<open>Definitions: the idempotency ring\<close>

record IntentSlot =
  is_used :: bool
  is_intent_id :: u16
  is_bytes :: bytes
  is_size :: u16

record IntentRing =
  ir_slots :: "IntentSlot list"
  ir_head :: nat
  ir_count :: nat

definition IntentRing_new :: "nat \<Rightarrow> nat \<Rightarrow> IntentRing" where
  "IntentRing_new depth cap =
    \<lparr> ir_slots = replicate depth \<lparr> is_used = False, is_intent_id = 0, is_bytes = replicate cap 0, is_size = 0 \<rparr>,
      ir_head = 0, ir_count = 0 \<rparr>"

definition ir_store :: "nat \<Rightarrow> nat \<Rightarrow> u16 \<Rightarrow> bytes \<Rightarrow> IntentRing \<Rightarrow> bool \<times> IntentRing" where
  "ir_store depth cap intent_id echo r =
    (if length echo > cap then (False, r)
     else
       let s = ir_slots r ! ir_head r;
           s' = s \<lparr> is_used := True, is_intent_id := intent_id, is_bytes := poke 0 echo (is_bytes s),
                    is_size := of_nat (length echo) \<rparr>
       in (True, r \<lparr> ir_slots := (ir_slots r)[ir_head r := s'], ir_head := (ir_head r + 1) mod depth,
                     ir_count := (if ir_count r < depth then ir_count r + 1 else ir_count r) \<rparr>))"

definition is_echo :: "IntentSlot \<Rightarrow> bytes" where
  "is_echo s = take (unat (is_size s)) (is_bytes s)"

definition ir_lookup :: "u16 \<Rightarrow> IntentRing \<Rightarrow> bytes option" where
  "ir_lookup intent_id r =
    (case find_index (\<lambda>s. is_used s \<and> is_intent_id s = intent_id) (take (ir_count r) (ir_slots r)) of
       Some i \<Rightarrow> Some (is_echo (ir_slots r ! i))
     | None \<Rightarrow> None)"

definition ir_clear :: "IntentRing \<Rightarrow> IntentRing" where
  "ir_clear r = r \<lparr> ir_slots := map (\<lambda>s. s \<lparr> is_used := False \<rparr>) (ir_slots r), ir_head := 0, ir_count := 0 \<rparr>"

section \<open>Circular indexing\<close>

text \<open>The live part of a ring of \<open>d\<close> slots, oldest first.\<close>

definition ring_live :: "nat \<Rightarrow> 'a list \<Rightarrow> nat \<Rightarrow> nat \<Rightarrow> 'a list" where
  "ring_live d slots tail n = map (\<lambda>i. slots ! ((tail + i) mod d)) [0..<n]"

lemma length_ring_live [simp]: "length (ring_live d slots tail n) = n"
  by (simp add: ring_live_def)

lemma ring_live_Nil [simp]: "ring_live d slots tail n = [] \<longleftrightarrow> n = 0"
  by (simp add: ring_live_def)

lemma ring_live_0 [simp]: "ring_live d slots tail 0 = []"
  by (simp add: ring_live_def)

lemma mod_window_inj:
  fixes i j :: nat
  assumes "i mod d = j mod d" and "i \<le> j" and "j < i + d"
  shows "i = j"
proof -
  have "d dvd j - i" using assms by (metis mod_eq_dvd_iff_nat)
  moreover have "j - i < d" using assms by linarith
  ultimately have "j - i = 0" by (meson dvd_imp_le leD neq0_conv)
  then show ?thesis using assms by simp
qed

lemma ring_live_push:
  assumes "n < d" and "length slots = d"
  shows "ring_live d (slots[(tail + n) mod d := x]) tail (Suc n) = ring_live d slots tail n @ [x]"
proof -
  have "slots[(tail + n) mod d := x] ! ((tail + i) mod d) = slots ! ((tail + i) mod d)" if "i < n" for i
    using mod_window_inj [of "tail + i" d "tail + n"] that assms by (intro nth_list_update_neq) auto
  moreover have "(tail + n) mod d < length slots" using assms by simp
  ultimately show ?thesis by (simp add: ring_live_def)
qed

lemma ring_live_pop:
  "0 < n \<Longrightarrow> ring_live d slots ((tail + 1) mod d) (n - 1) = tl (ring_live d slots tail n)"
  by (cases n) (simp_all add: ring_live_def upt_rec [of 0] map_Suc_upt [symmetric] mod_simps
    del: upt_Suc map_Suc_upt)

lemma ring_live_suffix:
  "k \<le> n \<Longrightarrow> ring_live d slots ((tail + (n - k)) mod d) k = drop (n - k) (ring_live d slots tail n)"
proof (intro nth_equalityI)
  fix i assume "k \<le> n" and "i < length (ring_live d slots ((tail + (n - k)) mod d) k)"
  then have "n - k + i < n" by simp
  then show "ring_live d slots ((tail + (n - k)) mod d) k ! i = drop (n - k) (ring_live d slots tail n) ! i"
    using \<open>i < _\<close> by (simp add: ring_live_def mod_simps add.assoc)
qed simp

lemma ring_live_hd: "0 < n \<Longrightarrow> tail < d \<Longrightarrow> hd (ring_live d slots tail n) = slots ! tail"
  by (cases n) (simp_all add: ring_live_def upt_rec [of 0] del: upt_Suc)

lemma map_ring_live: "length slots = d \<Longrightarrow> 0 < d \<Longrightarrow> map f (ring_live d slots tail n) = ring_live d (map f slots) tail n"
  by (simp add: ring_live_def)

lemma ball_set_update: "\<forall>s \<in> set xs. P s \<Longrightarrow> P y \<Longrightarrow> \<forall>s \<in> set (xs[i := y]). P s"
  by (metis insert_iff set_update_subset_insert subset_iff)

section \<open>The interface of a bounded log\<close>

definition last_n :: "nat \<Rightarrow> 'a list \<Rightarrow> 'a list" where
  "last_n n xs = drop (length xs - n) xs"

lemma last_n_short [simp]: "length xs \<le> n \<Longrightarrow> last_n n xs = xs"
  by (simp add: last_n_def)

lemma length_last_n [simp]: "length (last_n n xs) = min n (length xs)"
  by (simp add: last_n_def)

lemma last_n_last_n_append: "last_n n (last_n n xs @ ys) = last_n n (xs @ ys)"
proof (cases "length xs \<le> n")
  case False
  then have "n + length ys - n = length ys" "length xs + length ys - n = (length xs - n) + length ys" by simp_all
  with False show ?thesis by (simp add: last_n_def min_def drop_append add.commute)
qed simp

lemma last_n_last_n: "last_n m (last_n n xs) = last_n (min m n) xs"
proof -
  have "length xs - (length xs - n) - m + (length xs - n) = length xs - min m n" by linarith
  then show ?thesis by (simp only: last_n_def length_drop drop_drop)
qed

lemma last_n_snoc: "0 < n \<Longrightarrow> length xs \<le> n \<Longrightarrow> last_n n (xs @ [x]) = (if length xs = n then tl xs else xs) @ [x]"
  by (simp add: last_n_def drop_Suc)

lemma set_last_n: "x \<in> set (last_n n xs) \<Longrightarrow> x \<in> set xs"
  by (simp add: last_n_def in_set_dropD)

locale drop_oldest =
  fixes inv :: "'s \<Rightarrow> bool"
    and contents :: "'s \<Rightarrow> 'a list"
    and dropped :: "'s \<Rightarrow> u32"
    and push :: "'a \<Rightarrow> 's \<Rightarrow> bool \<times> 's"
    and fits :: "'a \<Rightarrow> bool"
    and depth :: nat
  assumes depth_pos: "0 < depth"
    and bounded: "inv s \<Longrightarrow> length (contents s) \<le> depth"
    and push_keeps: "inv s \<Longrightarrow> inv (snd (push x s))"
    and push_stores: "inv s \<Longrightarrow> fits x \<Longrightarrow> fst (push x s) \<and>
      contents (snd (push x s)) = (if length (contents s) = depth then tl (contents s) else contents s) @ [x] \<and>
      dropped (snd (push x s)) = dropped s + (if length (contents s) = depth then 1 else 0)"
    and push_refuses: "inv s \<Longrightarrow> \<not> fits x \<Longrightarrow> push x s = (False, s)"
begin

fun push_all :: "'a list \<Rightarrow> 's \<Rightarrow> 's" where
  "push_all [] s = s"
| "push_all (x # xs) s = push_all xs (snd (push x s))"

lemma push_all_keeps: "inv s \<Longrightarrow> inv (push_all xs s)"
  by (induction xs s rule: push_all.induct) (auto intro: push_keeps)

lemma push_contents:
  assumes "inv s"
  shows "contents (snd (push x s)) = last_n depth (contents s @ filter fits [x])"
  using assms push_stores [OF assms, of x] push_refuses [OF assms, of x] bounded [OF assms] depth_pos
  by (cases "fits x") (simp_all add: last_n_snoc)

text \<open>The log holds the newest \<open>depth\<close> of all entries that fit a slot, in order, and the counter says how
  many were lost.\<close>

lemma push_all_contents:
  "inv s \<Longrightarrow> contents (push_all xs s) = last_n depth (contents s @ filter fits xs)"
proof (induction xs arbitrary: s)
  case Nil then show ?case by (simp add: bounded)
next
  case (Cons x xs)
  have "contents (push_all (x # xs) s) = last_n depth (contents (snd (push x s)) @ filter fits xs)"
    using Cons.IH [OF push_keeps [OF Cons.prems]] by simp
  also have "\<dots> = last_n depth (contents s @ filter fits (x # xs))"
    using push_contents [OF Cons.prems, of x] last_n_last_n_append [of depth "contents s @ filter fits [x]" "filter fits xs"]
    by (simp split: if_splits)
  finally show ?case .
qed

lemma push_dropped:
  assumes "inv s"
  shows "dropped (snd (push x s)) + of_nat (length (contents (snd (push x s)))) =
    dropped s + of_nat (length (contents s)) + of_nat (length (filter fits [x]))"
proof (cases "fits x")
  case True
  note st = push_stores [OF assms True]
  show ?thesis
  proof (cases "length (contents s) = depth")
    case full: True
    with depth_pos have "Suc (length (tl (contents s))) = length (contents s)" by (cases "contents s") simp_all
    then show ?thesis using st True full by (simp add: add.assoc del: length_tl)
  qed (use st True in simp)
qed (use push_refuses [OF assms] in simp)

lemma push_all_dropped:
  "inv s \<Longrightarrow> dropped (push_all xs s) + of_nat (length (contents (push_all xs s))) =
    dropped s + of_nat (length (contents s)) + of_nat (length (filter fits xs))"
proof (induction xs arbitrary: s)
  case (Cons x xs)
  from Cons.IH [OF push_keeps [OF Cons.prems]] push_dropped [OF Cons.prems, of x]
  show ?case by (simp add: algebra_simps)
qed simp

end

text \<open>With a consumer: any interleaving of both sides.\<close>

datatype 'a queue_op = Enqueue 'a | Dequeue

text \<open>The reference: a plain list, an enqueue beyond the depth forgets the front.\<close>

fun queue_spec :: "nat \<Rightarrow> ('a \<Rightarrow> bool) \<Rightarrow> 'a queue_op list \<Rightarrow> 'a list \<Rightarrow> 'a option list \<times> 'a list" where
  "queue_spec d fits [] xs = ([], xs)"
| "queue_spec d fits (Enqueue x # ops) xs = queue_spec d fits ops (last_n d (xs @ filter fits [x]))"
| "queue_spec d fits (Dequeue # ops) xs =
    (let (out, ys) = queue_spec d fits ops (tl xs)
     in ((if xs = [] then None else Some (hd xs)) # out, ys))"

locale drop_oldest_queue = drop_oldest inv contents dropped push fits depth
  for inv :: "'s \<Rightarrow> bool" and contents :: "'s \<Rightarrow> 'a list" and dropped :: "'s \<Rightarrow> u32"
    and push :: "'a \<Rightarrow> 's \<Rightarrow> bool \<times> 's" and fits :: "'a \<Rightarrow> bool" and depth :: nat +
  fixes pop :: "'s \<Rightarrow> 'a option \<times> 's"
  assumes pop_keeps: "inv s \<Longrightarrow> inv (snd (pop s)) \<and> dropped (snd (pop s)) = dropped s"
    and pop_front: "inv s \<Longrightarrow> fst (pop s) = (if contents s = [] then None else Some (hd (contents s))) \<and>
      contents (snd (pop s)) = tl (contents s)"
begin

fun run :: "'a queue_op list \<Rightarrow> 's \<Rightarrow> 'a option list \<times> 's" where
  "run [] s = ([], s)"
| "run (Enqueue x # ops) s = run ops (snd (push x s))"
| "run (Dequeue # ops) s = (let (out, s') = run ops (snd (pop s)) in (fst (pop s) # out, s'))"

lemma run_keeps: "inv s \<Longrightarrow> inv (snd (run ops s))"
  by (induction ops s rule: run.induct) (auto simp: push_keeps pop_keeps split: prod.split)

lemma run_refines:
  "inv s \<Longrightarrow> (fst (run ops s), contents (snd (run ops s))) = queue_spec depth fits ops (contents s)"
proof (induction ops s rule: run.induct)
  case (2 x ops s)
  from 2 show ?case by (simp only: run.simps queue_spec.simps push_keeps push_contents [OF 2(2), symmetric])
next
  case (3 ops s)
  from 3 have "inv (snd (pop s))" by (simp add: pop_keeps)
  from 3(1) [OF this] pop_front [OF 3(2)] show ?case by (simp add: Let_def split_beta prod_eq_iff)
qed simp

lemma run_accounting:
  "inv s \<Longrightarrow> dropped (snd (run ops s)) + of_nat (length (contents (snd (run ops s)))) +
      of_nat (length (filter (\<lambda>r. r \<noteq> None) (fst (run ops s)))) =
    dropped s + of_nat (length (contents s)) + of_nat (length (filter (\<lambda>op. \<exists>x. op = Enqueue x \<and> fits x) ops))"
proof (induction ops s rule: run.induct)
  case (2 x ops s)
  from 2(1) [OF push_keeps [OF 2(2)]] push_dropped [OF 2(2), of x] show ?case by (simp add: algebra_simps)
next
  case (3 ops s)
  from 3 have "inv (snd (pop s))" by (simp add: pop_keeps)
  from 3(1) [OF this] pop_front [OF 3(2)] pop_keeps [OF 3(2)] show ?case
    by (cases "contents s") (simp_all add: Let_def split_beta algebra_simps)
qed simp

end

section \<open>The event queue is a bounded queue\<close>

definition eq_inv :: "nat \<Rightarrow> nat \<Rightarrow> EventQueue \<Rightarrow> bool" where
  "eq_inv d cap q \<longleftrightarrow> length (eq_slots q) = d \<and> (\<forall>s \<in> set (eq_slots q). length (es_bytes s) = cap) \<and>
     eq_tail q < d \<and> eq_count q \<le> d \<and> eq_head q = (eq_tail q + eq_count q) mod d"

definition eq_contents :: "nat \<Rightarrow> EventQueue \<Rightarrow> (u16 \<times> bytes) list" where
  "eq_contents d q = ring_live d (map es_view (eq_slots q)) (eq_tail q) (eq_count q)"

lemma eq_inv_new: "0 < d \<Longrightarrow> eq_inv d cap (EventQueue_new d cap) \<and> eq_contents d (EventQueue_new d cap) = []"
  by (simp add: eq_inv_def EventQueue_new_def EventSlot_new_def eq_contents_def ring_live_def)

lemma es_view_write:
  assumes "length bs \<le> cap" and "cap < 65536"
  shows "es_view (s \<lparr> es_bytes := poke 0 bs b, es_size := of_nat (length bs), es_channel_id := ch \<rparr>) = (ch, bs)"
  using assms by (simp add: es_view_def unat_of_nat take_bit_nat_eq_self poke_def)

lemma eq_slots_write:
  "eq_slots (eq_write d ch bs q) = (eq_slots q)[eq_head q := (eq_slots q ! eq_head q)
     \<lparr> es_bytes := poke 0 bs (es_bytes (eq_slots q ! eq_head q)), es_size := of_nat (length bs), es_channel_id := ch \<rparr>]"
  by (simp add: eq_write_def Let_def)

lemma eq_write_contents:
  assumes "eq_inv d cap q" and "eq_count q < d" and "length bs \<le> cap" and "cap < 65536"
  shows "eq_inv d cap (eq_write d ch bs q) \<and> eq_contents d (eq_write d ch bs q) = eq_contents d q @ [(ch, bs)] \<and>
    eq_eventsDropped (eq_write d ch bs q) = eq_eventsDropped q"
proof -
  let ?s = "eq_slots q ! eq_head q"
  have h: "eq_head q < length (eq_slots q)" using assms(1,2) by (auto simp: eq_inv_def)
  then have b: "length (es_bytes ?s) = cap" using assms(1) by (simp add: eq_inv_def)
  have "\<forall>s \<in> set (eq_slots (eq_write d ch bs q)). length (es_bytes s) = cap"
    unfolding eq_slots_write using assms(1,3) b by (intro ball_set_update) (simp_all add: eq_inv_def)
  then have "eq_inv d cap (eq_write d ch bs q)"
    using assms by (simp add: eq_inv_def eq_write_def Let_def mod_simps)
  then show ?thesis using assms h
    by (simp add: eq_inv_def eq_contents_def eq_write_def Let_def map_update es_view_write ring_live_push)
qed

lemma eq_drop_contents:
  assumes "eq_inv d cap q" and "0 < eq_count q"
  shows "eq_inv d cap (q \<lparr> eq_tail := (eq_tail q + 1) mod d, eq_count := eq_count q - 1, eq_eventsDropped := k \<rparr>) \<and>
    eq_contents d (q \<lparr> eq_tail := (eq_tail q + 1) mod d, eq_count := eq_count q - 1, eq_eventsDropped := k \<rparr>) =
      tl (eq_contents d q)"
proof (cases "eq_count q")
  case (Suc n)
  then show ?thesis using assms ring_live_pop [of "Suc n" d "map es_view (eq_slots q)" "eq_tail q"]
    by (simp add: eq_inv_def eq_contents_def mod_simps)
qed (use assms in simp)

lemma eq_push_stores:
  assumes "eq_inv d cap q" and "0 < d" and "length bs \<le> cap" and "cap < 65536"
  shows "fst (eq_push d cap (ch, bs) q) \<and> eq_inv d cap (snd (eq_push d cap (ch, bs) q)) \<and>
    eq_contents d (snd (eq_push d cap (ch, bs) q)) =
      (if length (eq_contents d q) = d then tl (eq_contents d q) else eq_contents d q) @ [(ch, bs)] \<and>
    eq_eventsDropped (snd (eq_push d cap (ch, bs) q)) =
      eq_eventsDropped q + (if length (eq_contents d q) = d then 1 else 0)"
proof (cases "eq_count q = d")
  case True
  let ?q = "q \<lparr> eq_tail := (eq_tail q + 1) mod d, eq_count := eq_count q - 1, eq_eventsDropped := eq_eventsDropped q + 1 \<rparr>"
  have "eq_inv d cap ?q \<and> eq_contents d ?q = tl (eq_contents d q)"
    using eq_drop_contents [OF assms(1)] True assms(2) by simp
  moreover have "eq_count ?q < d" using True assms(2) by simp
  ultimately show ?thesis using eq_write_contents [of d cap ?q bs ch] assms True
    by (simp add: eq_push_def Let_def eq_contents_def)
next
  case False
  then have "eq_count q < d" using assms(1) by (simp add: eq_inv_def)
  then show ?thesis using eq_write_contents [of d cap q bs ch] assms False
    by (simp add: eq_push_def Let_def eq_contents_def)
qed

lemma eq_push_refuses: "cap < length bs \<Longrightarrow> eq_push d cap (ch, bs) q = (False, q)"
  by (simp add: eq_push_def)

lemma eq_contents_Nil: "eq_contents d q = [] \<longleftrightarrow> eq_count q = 0"
  by (simp add: eq_contents_def ring_live_def)

abbreviation (input) "event_queue_depth_per_subscriber \<equiv> (16::nat)"
abbreviation (input) "event_slot_capacity \<equiv> (192::nat)"

interpretation events: drop_oldest_queue "eq_inv event_queue_depth_per_subscriber event_slot_capacity"
  "eq_contents event_queue_depth_per_subscriber" eq_eventsDropped
  "eq_push event_queue_depth_per_subscriber event_slot_capacity" "\<lambda>x. length (snd x) \<le> event_slot_capacity"
  event_queue_depth_per_subscriber "eq_pop event_queue_depth_per_subscriber"
proof (unfold_locales, goal_cases)
  case (3 s x)
  then show ?case using eq_push_stores [OF 3] eq_push_refuses [of 192 "snd x" 16 "fst x" s]
    by (cases x; cases "length (snd x) \<le> 192") simp_all
next
  case (4 s x)
  then show ?case using eq_push_stores [OF 4(1)] by (cases x) simp
next
  case (6 s)
  then show ?case using eq_drop_contents [OF 6, where k = "eq_eventsDropped s"] by (simp add: eq_pop_def)
next
  case (7 s)
  then show ?case using eq_drop_contents [OF 7, where k = "eq_eventsDropped s"]
    by (auto simp: eq_pop_def eq_contents_Nil eq_contents_def eq_inv_def ring_live_hd)
qed (auto simp: eq_inv_def eq_contents_def eq_push_refuses)

section \<open>The replay ring is a queue without a consumer\<close>

text \<open>The replay ring as an event queue whose entries all belong to channel 0.\<close>

definition rr_queue :: "EventReplayRing \<Rightarrow> EventQueue" where
  "rr_queue r = \<lparr> eq_slots = map (\<lambda>s. \<lparr> es_bytes = ps_bytes s, es_size = ps_size s, es_channel_id = 0 \<rparr>) (rr_slots r),
     eq_head = rr_head r, eq_tail = rr_tail r, eq_count = rr_count r, eq_eventsDropped = rr_dropped r \<rparr>"

definition rr_inv :: "nat \<Rightarrow> nat \<Rightarrow> EventReplayRing \<Rightarrow> bool" where
  "rr_inv d cap r = eq_inv d cap (rr_queue r)"

definition rr_contents :: "nat \<Rightarrow> EventReplayRing \<Rightarrow> bytes list" where
  "rr_contents d r = map snd (eq_contents d (rr_queue r))"

lemma rr_inv_new: "0 < d \<Longrightarrow> rr_inv d cap (EventReplayRing_new d cap) \<and> rr_contents d (EventReplayRing_new d cap) = []"
  by (simp add: rr_inv_def eq_inv_def rr_queue_def EventReplayRing_new_def rr_contents_def eq_contents_def ring_live_def)

lemma rr_write_queue: "rr_head r < length (rr_slots r) \<Longrightarrow> rr_queue (rr_write d bs r) = eq_write d 0 bs (rr_queue r)"
  by (simp add: rr_write_def eq_write_def rr_queue_def Let_def map_update)

lemma rr_push_queue:
  assumes "rr_inv d cap r" and "0 < d"
  shows "rr_queue (snd (rr_push d cap bs r)) = snd (eq_push d cap (0, bs) (rr_queue r)) \<and>
    fst (rr_push d cap bs r) = fst (eq_push d cap (0, bs) (rr_queue r))"
proof -
  have "rr_head r < length (rr_slots r)" using assms by (auto simp: rr_inv_def eq_inv_def rr_queue_def)
  then show ?thesis by (auto simp: rr_push_def eq_push_def Let_def rr_write_queue) (simp_all add: rr_queue_def)
qed

lemma rr_contents_alt:
  assumes "rr_inv d cap r" and "0 < d"
  shows "rr_contents d r = ring_live d (map ps_view (rr_slots r)) (rr_tail r) (rr_count r)"
proof -
  have "map snd (map es_view (eq_slots (rr_queue r))) = map ps_view (rr_slots r)"
    by (simp add: rr_queue_def es_view_def ps_view_def comp_def)
  moreover have "length (map es_view (eq_slots (rr_queue r))) = d" using assms by (simp add: rr_inv_def eq_inv_def)
  ultimately show ?thesis using assms(2) map_ring_live [of "map es_view (eq_slots (rr_queue r))" d snd]
    by (simp add: rr_contents_def eq_contents_def) (simp add: rr_queue_def)
qed

lemma forEachNewest_suffix:
  assumes "rr_inv d cap r" and "0 < d"
  shows "forEachNewest d want r = (min want (length (rr_contents d r)), last_n want (rr_contents d r))"
proof -
  have n: "(if want < rr_count r then want else rr_count r) = min want (rr_count r)" by simp
  have "map (\<lambda>i. ps_view (rr_slots r ! ((t + i) mod d))) [0..<k] = ring_live d (map ps_view (rr_slots r)) t k" for t k
    using assms by (simp add: ring_live_def rr_inv_def eq_inv_def rr_queue_def)
  then have "snd (forEachNewest d want r) = drop (rr_count r - min want (rr_count r)) (rr_contents d r)"
    unfolding forEachNewest_def Let_def n snd_conv
    using ring_live_suffix [of "min want (rr_count r)" "rr_count r" d "map ps_view (rr_slots r)" "rr_tail r"]
    by (simp add: rr_contents_alt [OF assms])
  moreover have "length (rr_contents d r) = rr_count r" by (simp add: rr_contents_alt [OF assms])
  ultimately show ?thesis by (simp add: prod_eq_iff last_n_def forEachNewest_def Let_def min_def)
qed

abbreviation (input) "log_replay_depth_default \<equiv> (32::nat)"

interpretation replay: drop_oldest "rr_inv log_replay_depth_default event_slot_capacity"
  "rr_contents log_replay_depth_default" rr_dropped "rr_push log_replay_depth_default event_slot_capacity"
  "\<lambda>bs. length bs \<le> event_slot_capacity" log_replay_depth_default
proof (unfold_locales, goal_cases)
  case (3 s x)
  then show ?case using eq_push_stores [of 32 192 "rr_queue s" x 0] eq_push_refuses [of 192 x 32 0 "rr_queue s"]
      rr_push_queue [of 32 192 s x]
    by (cases "length x \<le> 192") (simp_all add: rr_inv_def)
next
  case (4 s x)
  have "rr_dropped r = eq_eventsDropped (rr_queue r)" for r by (simp add: rr_queue_def)
  with 4 show ?case using eq_push_stores [of 32 192 "rr_queue s" x 0] rr_push_queue [of 32 192 s x]
    by (simp add: rr_inv_def rr_contents_def map_tl)
qed (auto simp: rr_inv_def eq_inv_def rr_contents_def eq_contents_def rr_push_def)

section \<open>The idempotency ring holds the newest stores\<close>

text \<open>\<open>xs\<close> are the stores since the ring was created or cleared.\<close>

definition ir_holds :: "nat \<Rightarrow> nat \<Rightarrow> IntentRing \<Rightarrow> (u16 \<times> bytes) list \<Rightarrow> bool" where
  "ir_holds d cap r xs \<longleftrightarrow> length (ir_slots r) = d \<and> (\<forall>s \<in> set (ir_slots r). length (is_bytes s) = cap) \<and>
     ir_head r = length xs mod d \<and> ir_count r = min (length xs) d \<and>
     (\<forall>j < length xs. length xs \<le> j + d \<longrightarrow>
        is_used (ir_slots r ! (j mod d)) \<and>
        (is_intent_id (ir_slots r ! (j mod d)), is_echo (ir_slots r ! (j mod d))) = xs ! j)"

lemma ir_holds_new: "ir_holds d cap (IntentRing_new d cap) []"
  by (simp add: ir_holds_def IntentRing_new_def)

lemma ir_holds_clear: "ir_holds d cap r xs \<Longrightarrow> ir_holds d cap (ir_clear r) []"
  by (simp add: ir_holds_def ir_clear_def)

lemma ir_store_refuses: "cap < length echo \<Longrightarrow> ir_store d cap i echo r = (False, r)"
  by (simp add: ir_store_def)

lemma ir_store_holds:
  assumes "ir_holds d cap r xs" and "0 < d" and "length echo \<le> cap" and "cap < 65536"
  shows "fst (ir_store d cap i echo r) \<and> ir_holds d cap (snd (ir_store d cap i echo r)) (xs @ [(i, echo)])"
proof -
  let ?n = "length xs" and ?r = "snd (ir_store d cap i echo r)" and ?s = "ir_slots r ! ir_head r"
  define s' where "s' = ?s \<lparr> is_used := True, is_intent_id := i, is_bytes := poke 0 echo (is_bytes ?s),
    is_size := of_nat (length echo) \<rparr>"
  have r: "ir_slots ?r = (ir_slots r)[?n mod d := s']" "ir_head ?r = Suc ?n mod d" "ir_count ?r = min (Suc ?n) d"
    using assms by (simp_all add: ir_store_def ir_holds_def s'_def Let_def mod_simps)
  have l: "length (ir_slots r) = d" "?n mod d < d" using assms by (simp_all add: ir_holds_def)
  have b: "length (is_bytes s') = cap" using assms l by (simp add: ir_holds_def s'_def)
  have e: "is_echo s' = echo" using assms(3,4)
    by (simp add: s'_def is_echo_def unat_of_nat take_bit_nat_eq_self poke_def)
  have "is_used (ir_slots ?r ! (j mod d)) \<and>
      (is_intent_id (ir_slots ?r ! (j mod d)), is_echo (ir_slots ?r ! (j mod d))) = (xs @ [(i, echo)]) ! j"
    if "j < Suc ?n" "Suc ?n \<le> j + d" for j
  proof (cases "j = ?n")
    case True then show ?thesis using l e by (simp add: r s'_def)
  next
    case False
    then have "j mod d \<noteq> ?n mod d" using mod_window_inj [of j d ?n] that by auto
    then show ?thesis using that False assms(1) by (simp add: r ir_holds_def nth_append)
  qed
  moreover have "\<forall>s \<in> set (ir_slots ?r). length (is_bytes s) = cap"
    unfolding r using assms(1) b by (intro ball_set_update) (simp_all add: ir_holds_def)
  ultimately show ?thesis using l assms(3) r by (simp add: ir_holds_def ir_store_def Let_def)
qed

lemma in_set_last_n: "x \<in> set (last_n d xs) \<longleftrightarrow> (\<exists>j < length xs. length xs \<le> j + d \<and> xs ! j = x)"
proof
  assume "x \<in> set (last_n d xs)"
  then obtain k where "k < length xs - (length xs - d)" "xs ! (length xs - d + k) = x"
    by (auto simp: last_n_def in_set_conv_nth)
  then show "\<exists>j < length xs. length xs \<le> j + d \<and> xs ! j = x" by (intro exI [of _ "length xs - d + k"]) auto
next
  assume "\<exists>j < length xs. length xs \<le> j + d \<and> xs ! j = x"
  then obtain j where "j < length xs" "length xs \<le> j + d" "xs ! j = x" by blast
  then show "x \<in> set (last_n d xs)"
    by (auto simp: last_n_def in_set_conv_nth intro!: exI [of _ "j - (length xs - d)"])
qed

lemma window_of_slot:
  fixes n d k :: nat
  assumes "k < n" and "k < d"
  obtains j where "j < n" "n \<le> j + d" "j mod d = k"
proof
  let ?m = "n - 1 - k"
  define q where "q = d * (?m div d)"
  have "q + ?m mod d = ?m" by (simp add: q_def)
  moreover have "?m mod d < d" using assms by simp
  ultimately show "k + q < n" "n \<le> k + q + d" using assms by linarith+
  show "(k + q) mod d = k" using assms by (simp add: q_def)
qed

lemma ir_slot_member:
  assumes "ir_holds d cap r xs" and "k < ir_count r"
  shows "is_used (ir_slots r ! k) \<and> (is_intent_id (ir_slots r ! k), is_echo (ir_slots r ! k)) \<in> set (last_n d xs)"
proof -
  have "k < length xs" "k < d" using assms by (simp_all add: ir_holds_def)
  then obtain j where j: "j < length xs" "length xs \<le> j + d" "j mod d = k" by (rule window_of_slot)
  then have "is_used (ir_slots r ! k)" "(is_intent_id (ir_slots r ! k), is_echo (ir_slots r ! k)) = xs ! j"
    using assms(1) by (auto simp: ir_holds_def)
  with j show ?thesis by (auto simp: in_set_last_n)
qed

lemma ir_member_slot:
  assumes "ir_holds d cap r xs" and "0 < d" and "(i, echo) \<in> set (last_n d xs)"
  obtains k where "k < ir_count r" "is_used (ir_slots r ! k)" "is_intent_id (ir_slots r ! k) = i"
proof -
  obtain j where j: "j < length xs" "length xs \<le> j + d" "xs ! j = (i, echo)"
    using assms(3) by (auto simp: in_set_last_n)
  have "j mod d < ir_count r" using assms(1,2) j by (auto simp: ir_holds_def min_def)
  moreover have "is_used (ir_slots r ! (j mod d))" "is_intent_id (ir_slots r ! (j mod d)) = i"
    using assms(1) j by (auto simp: ir_holds_def)
  ultimately show thesis by (rule that)
qed

lemma ir_lookup_window:
  assumes "ir_holds d cap r xs" and "0 < d" and "distinct (map fst (last_n d xs))"
  shows "ir_lookup i r = map_of (last_n d xs) i"
proof -
  have c: "ir_count r \<le> length (ir_slots r)" using assms by (simp add: ir_holds_def)
  show ?thesis
  proof (cases "find_index (\<lambda>s. is_used s \<and> is_intent_id s = i) (take (ir_count r) (ir_slots r))")
    case None
    have "(i, e) \<notin> set (last_n d xs)" for e
    proof
      assume "(i, e) \<in> set (last_n d xs)"
      from ir_member_slot [OF assms(1,2) this] obtain k where
        "k < ir_count r" "is_used (ir_slots r ! k)" "is_intent_id (ir_slots r ! k) = i" .
      with c have "ir_slots r ! k \<in> set (take (ir_count r) (ir_slots r))"
        by (auto simp: in_set_conv_nth intro!: exI [of _ k])
      with \<open>is_used _\<close> \<open>is_intent_id _ = i\<close> None show False by (simp add: find_index_None)
    qed
    then have "map_of (last_n d xs) i = None" by (force simp: map_of_eq_None_iff)
    with None show ?thesis by (simp add: ir_lookup_def)
  next
    case (Some k)
    from find_index_Some [OF Some] c have k: "k < ir_count r" "is_intent_id (ir_slots r ! k) = i" by auto
    with ir_slot_member [OF assms(1) k(1)] have "(i, is_echo (ir_slots r ! k)) \<in> set (last_n d xs)" by simp
    with assms(3) have "map_of (last_n d xs) i = Some (is_echo (ir_slots r ! k))" by (rule map_of_is_SomeI)
    with Some show ?thesis by (simp add: ir_lookup_def)
  qed
qed

section \<open>Properties\<close>

text \<open>Any interleaving of \<open>push\<close> and \<open>pop\<close> calls, with the popped values in order.\<close>

fun eq_run :: "(u16 \<times> bytes) queue_op list \<Rightarrow> EventQueue \<Rightarrow> (u16 \<times> bytes) option list \<times> EventQueue" where
  "eq_run [] q = ([], q)"
| "eq_run (Enqueue e # ops) q = eq_run ops (snd (eq_push 16 192 e q))"
| "eq_run (Dequeue # ops) q = (let (out, q') = eq_run ops (snd (eq_pop 16 q)) in (fst (eq_pop 16 q) # out, q'))"

lemma eq_run_events: "eq_run ops q = events.run ops q"
  by (induction ops q rule: eq_run.induct) simp_all

abbreviation (input) "event_fits \<equiv> (\<lambda>e :: u16 \<times> bytes. length (snd e) \<le> 192)"

text \<open>(C36) The per-subscriber event queue is a FIFO of 16 events that drops the oldest and never silently: under any
  interleaving of pushes and pops a fresh queue returns what a plain list returns that forgets its front when a
  seventeenth event arrives, each event with its own channel id and bytes; and the drop counter accounts for every
  event: accepted = delivered + still queued + dropped (modulo the 32 bits of the counter).  An event over 192
  bytes is refused and changes nothing.\<close>
theorem event_queue_fifo:
  "(let (out, q) = eq_run ops (EventQueue_new 16 192) in
     (out, eq_contents 16 q) = queue_spec 16 event_fits ops [] \<and>
     eq_eventsDropped q + of_nat (length (eq_contents 16 q)) + of_nat (length (filter (\<lambda>r. r \<noteq> None) out)) =
       of_nat (length (filter (\<lambda>op. \<exists>e. op = Enqueue e \<and> event_fits e) ops)) \<and>
     (\<forall>e. event_fits e \<or> eq_push 16 192 e q = (False, q)))"
proof -
  let ?q = "EventQueue_new 16 192"
  have i: "eq_inv 16 192 ?q" "eq_contents 16 ?q = []" "eq_eventsDropped ?q = 0"
    using eq_inv_new [of 16 192] by (simp_all add: EventQueue_new_def)
  have "\<forall>s e. event_fits e \<or> eq_push 16 192 e s = (False, s)"
    by (simp add: eq_push_def split_beta)
  then show ?thesis
    using events.run_refines [OF i(1), of ops] events.run_accounting [OF i(1), of ops]
    by (simp add: eq_run_events i split_beta)
qed

text \<open>A client that joins late sees the end of the log as it happened: after any sequence of log lines, replaying
  \<open>want\<close> of them yields the newest \<open>want\<close> of the last 32 lines that fit a slot, oldest first, without
  changing the ring, and the drop counter is the number of accepted lines that are no longer held (modulo \<open>2^32\<close>).\<close>
theorem log_replay_newest:
  "(let r = foldl (\<lambda>r line. snd (rr_push 32 192 line r)) (EventReplayRing_new 32 192) lines;
        kept = filter (\<lambda>line. length line \<le> 192) lines in
     forEachNewest 32 want r = (min want (min 32 (length kept)), last_n (min want 32) kept) \<and>
     rr_dropped r = of_nat (length kept - 32))"
proof -
  let ?new = "EventReplayRing_new 32 192"
  have i: "rr_inv 32 192 ?new" "rr_contents 32 ?new = []" "rr_dropped ?new = 0"
    using rr_inv_new [of 32 192] by (simp_all add: EventReplayRing_new_def)
  have f: "foldl (\<lambda>r line. snd (rr_push 32 192 line r)) r xs = replay.push_all xs r" for r xs
    by (induction xs arbitrary: r) simp_all
  let ?r = "replay.push_all lines ?new" and ?kept = "filter (\<lambda>line. length line \<le> 192) lines"
  have c: "rr_contents 32 ?r = last_n 32 ?kept" using replay.push_all_contents [OF i(1)] by (simp add: i)
  have "rr_dropped ?r + of_nat (min 32 (length ?kept)) = of_nat (length ?kept)"
    using replay.push_all_dropped [OF i(1), of lines] by (simp add: i c)
  also have "\<dots> = of_nat (length ?kept - 32) + of_nat (min 32 (length ?kept))"
    by (simp flip: of_nat_add) (simp add: min_def)
  finally have "rr_dropped ?r = of_nat (length ?kept - 32)" by simp
  then show ?thesis
    using forEachNewest_suffix [OF replay.push_all_keeps [OF i(1)], of want lines]
    by (simp add: f c last_n_last_n)
qed

lemma ir_store_all_holds:
  assumes "ir_holds d cap r xs" and "0 < d" and "cap < 65536"
  shows "ir_holds d cap (foldl (\<lambda>r (i, echo). snd (ir_store d cap i echo r)) r ys)
    (xs @ filter (\<lambda>(i, echo). length echo \<le> cap) ys)"
  using assms(1)
proof (induction ys arbitrary: r xs)
  case (Cons y ys)
  obtain i echo where y: "y = (i, echo)" by (cases y)
  show ?case
  proof (cases "length echo \<le> cap")
    case True
    from ir_store_holds [OF Cons.prems assms(2) True assms(3), of i] Cons.IH show ?thesis by (force simp: y True)
  next
    case False
    then show ?thesis using Cons by (simp add: y ir_store_refuses)
  qed
qed simp

text \<open>Idempotency of intents: as long as the stored ids are distinct, the ring answers for exactly the last 32
  stored intents: looking an id up gives the echo stored with it if it is among the 32 newest (an echo over 96
  bytes is never stored), and nothing otherwise; after \<open>clear\<close> the ring answers for the stores of the new
  session only.\<close>
theorem intent_ring_remembers:
  assumes "distinct (map fst ys)"
  shows "ir_lookup i (foldl (\<lambda>r (i, echo). snd (ir_store 32 96 i echo r))
      (ir_clear (foldl (\<lambda>r (i, echo). snd (ir_store 32 96 i echo r)) (IntentRing_new 32 96) xs)) ys) =
    map_of (last_n 32 (filter (\<lambda>(i, echo). length echo \<le> 96) ys)) i"
proof -
  let ?fits = "\<lambda>(i :: u16, echo :: bytes). length echo \<le> 96"
  have "ir_holds 32 96 (ir_clear (foldl (\<lambda>r (i, echo). snd (ir_store 32 96 i echo r)) (IntentRing_new 32 96) xs)) []"
    using ir_store_all_holds [OF ir_holds_new, of 32 96 xs] by (intro ir_holds_clear) simp
  from ir_store_all_holds [OF this, of ys] have
    "ir_holds 32 96 (foldl (\<lambda>r (i, echo). snd (ir_store 32 96 i echo r))
      (ir_clear (foldl (\<lambda>r (i, echo). snd (ir_store 32 96 i echo r)) (IntentRing_new 32 96) xs)) ys) (filter ?fits ys)"
    by simp
  moreover have "distinct (map fst (last_n 32 (filter ?fits ys)))"
    using distinct_map_filter [OF assms, of ?fits] by (simp add: last_n_def distinct_drop flip: drop_map)
  ultimately show ?thesis by (intro ir_lookup_window) simp_all
qed

theorem intent_ring_remembers_witness:
  "ir_lookup 7 (foldl (\<lambda>r (i, echo). snd (ir_store 32 96 i echo r))
      (ir_clear (foldl (\<lambda>r (i, echo). snd (ir_store 32 96 i echo r)) (IntentRing_new 32 96) [(7, [1])]))
      [(5, [2, 3]), (7, [9]), (8, replicate 97 0)]) = Some [9]"
  using intent_ring_remembers [of "[(5, [2, 3]), (7, [9]), (8, replicate 97 0)]" 7 "[(7, [1])]"]
  by (simp add: last_n_def)

end
