(* ===== verification/Slot_Table.thy ===== *)
theory Slot_Table
  imports Slop_Prelude
begin

text \<open>
  Tables kept as fixed arrays of slots with a \<open>used\<close> flag, searched by a key: the pattern of
  \<open>SourceOwnershipTable\<close>, of the pairing ledger and of the pending pairing requests.
  \<open>sfind\<close> is the linear search of the sources; on a table whose used slots have distinct
  keys it is a finite map, and writing a slot updates that map at one key.
\<close>

definition sfind :: "('e \<Rightarrow> bool) \<Rightarrow> ('e \<Rightarrow> 'k) \<Rightarrow> 'e list \<Rightarrow> 'k \<Rightarrow> 'e option" where
  "sfind used key t k = map_option ((!) t) (find_index (\<lambda>e. used e \<and> key e = k) t)"

definition slots_ok :: "('e \<Rightarrow> bool) \<Rightarrow> ('e \<Rightarrow> 'k) \<Rightarrow> 'e list \<Rightarrow> bool" where
  "slots_ok used key t \<longleftrightarrow> (\<forall>i < length t. \<forall>j < length t. used (t ! i) \<longrightarrow> used (t ! j) \<longrightarrow>
     key (t ! i) = key (t ! j) \<longrightarrow> i = j)"

lemma slots_okD:
  "slots_ok used key t \<Longrightarrow> i < length t \<Longrightarrow> j < length t \<Longrightarrow> used (t ! i) \<Longrightarrow> used (t ! j) \<Longrightarrow>
   key (t ! i) = key (t ! j) \<Longrightarrow> i = j"
  by (simp add: slots_ok_def)

lemma slots_ok_unused: "(\<And>e. e \<in> set t \<Longrightarrow> \<not> used e) \<Longrightarrow> slots_ok used key t"
  by (simp add: slots_ok_def)

lemma sfind_None: "sfind used key t k = None \<longleftrightarrow> (\<forall>e \<in> set t. used e \<longrightarrow> key e \<noteq> k)"
  by (auto simp: sfind_def find_index_None)

lemma sfind_index:
  "find_index (\<lambda>e. used e \<and> key e = k) t = Some i \<Longrightarrow>
   i < length t \<and> used (t ! i) \<and> key (t ! i) = k \<and> sfind used key t k = Some (t ! i)"
  using find_index_Some [of "\<lambda>e. used e \<and> key e = k" t i] by (simp add: sfind_def)

lemma sfind_cases [case_names found missing]:
  obtains i where "find_index (\<lambda>e. used e \<and> key e = k) t = Some i" "i < length t" "used (t ! i)" "key (t ! i) = k"
      "sfind used key t k = Some (t ! i)"
    | "find_index (\<lambda>e. used e \<and> key e = k) t = None" "sfind used key t k = None"
  by (cases "find_index (\<lambda>e. used e \<and> key e = k) t") (auto dest: sfind_index simp: sfind_def)

lemma sfind_eqI:
  assumes "slots_ok used key t" and "i < length t" and "used (t ! i)" and "key (t ! i) = k"
  shows "sfind used key t k = Some (t ! i)" "find_index (\<lambda>e. used e \<and> key e = k) t = Some i"
proof -
  show "find_index (\<lambda>e. used e \<and> key e = k) t = Some i"
    using assms by (intro find_index_unique) (auto dest: slots_okD)
  then show "sfind used key t k = Some (t ! i)" by (simp add: sfind_def)
qed

lemma sfind_Some:
  assumes "slots_ok used key t"
  shows "sfind used key t k = Some e \<longleftrightarrow> (\<exists>i < length t. t ! i = e \<and> used e \<and> key e = k)"
  by (cases rule: sfind_cases [of used key k t]) (auto simp: sfind_eqI(1) [OF assms] dest: slots_okD [OF assms])

lemma find_index_update_other:
  "\<not> P e \<Longrightarrow> \<not> P (t ! i) \<Longrightarrow> find_index P (t[i := e]) = find_index P t"
  by (induction t arbitrary: i) (auto split: nat.splits)

lemma sfind_update_other:
  assumes "\<not> (used e \<and> key e = k)" and "\<not> (used (t ! i) \<and> key (t ! i) = k)"
  shows "sfind used key (t[i := e]) k = sfind used key t k"
proof (cases rule: sfind_cases [of used key k t])
  case (found j)
  then have "j \<noteq> i" using assms(2) by auto
  with found show ?thesis
    using find_index_update_other [of "\<lambda>e. used e \<and> key e = k" e t i, OF assms] by (simp add: sfind_def)
qed (use find_index_update_other [of "\<lambda>e. used e \<and> key e = k" e t i, OF assms] in \<open>simp add: sfind_def\<close>)

text \<open>Writing a used slot under its own key, or an unused one under a key that is not in the table.\<close>

lemma slots_ok_put:
  assumes "slots_ok used key t"
    and "used (t ! i) \<and> key (t ! i) = key e \<or> sfind used key t (key e) = None"
  shows "slots_ok used key (t[i := e])"
proof (cases "i < length t")
  case True
  have "j = i" if "j < length t" "used (t ! j)" "key (t ! j) = key e" for j
    using assms(2)
  proof
    assume "used (t ! i) \<and> key (t ! i) = key e"
    then show ?thesis using slots_okD [OF assms(1) that(1) True] that by simp
  next
    assume "sfind used key t (key e) = None"
    then show ?thesis using that by (auto simp: sfind_None)
  qed
  then show ?thesis using assms(1) True by (auto simp: slots_ok_def nth_list_update)
qed (use assms in \<open>simp add: list_update_beyond\<close>)

lemma sfind_put:
  assumes "slots_ok used key t" and "i < length t" and "used e"
    and "used (t ! i) \<and> key (t ! i) = key e \<or> \<not> used (t ! i) \<and> sfind used key t (key e) = None"
  shows "sfind used key (t[i := e]) = (sfind used key t)(key e \<mapsto> e)"
proof
  fix k
  have ok: "slots_ok used key (t[i := e])" using slots_ok_put [OF assms(1)] assms(4) by blast
  show "sfind used key (t[i := e]) k = ((sfind used key t)(key e \<mapsto> e)) k"
  proof (cases "k = key e")
    case True
    then show ?thesis using sfind_eqI(1) [OF ok, of i k] assms(2,3) by simp
  next
    case False
    then show ?thesis using assms(4) sfind_update_other [of used e key k t i] by auto
  qed
qed

text \<open>Clearing a used slot.\<close>

lemma sfind_clear:
  assumes "slots_ok used key t" and "i < length t" and "used (t ! i)" and "\<not> used e"
  shows "slots_ok used key (t[i := e]) \<and> sfind used key (t[i := e]) = (sfind used key t)(key (t ! i) := None)"
proof
  show ok: "slots_ok used key (t[i := e])" using assms by (auto simp: slots_ok_def nth_list_update)
  show "sfind used key (t[i := e]) = (sfind used key t)(key (t ! i) := None)"
  proof
    fix k
    show "sfind used key (t[i := e]) k = ((sfind used key t)(key (t ! i) := None)) k"
    proof (cases "k = key (t ! i)")
      case True
      have "\<not> (used x \<and> key x = k)" if "x \<in> set (t[i := e])" for x
      proof -
        from that obtain j where j: "j < length t" "x = t[i := e] ! j" by (auto simp: in_set_conv_nth)
        then show ?thesis using assms True slots_okD [OF assms(1) j(1) assms(2)] by (cases "j = i") auto
      qed
      then have "sfind used key (t[i := e]) k = None" by (auto simp: sfind_None)
      then show ?thesis using True by simp
    next
      case False
      then show ?thesis using assms(4) sfind_update_other [of used e key k t i] by auto
    qed
  qed
qed

text \<open>Rewriting slots in place, keeping flags and keys.\<close>

lemma find_index_map: "find_index P (map f t) = find_index (P \<circ> f) t"
  by (induction t) (simp_all add: comp_def)

lemma sfind_map:
  assumes "\<And>e. used (f e) = used e" and "\<And>e. key (f e) = key e"
  shows "sfind used key (map f t) k = map_option f (sfind used key t k)"
    and "slots_ok used key (map f t) = slots_ok used key t"
proof -
  have "find_index (\<lambda>e. used e \<and> key e = k) (map f t) = find_index (\<lambda>e. used e \<and> key e = k) t"
    by (simp add: find_index_map comp_def assms)
  then show "sfind used key (map f t) k = map_option f (sfind used key t k)"
    by (cases "find_index (\<lambda>e. used e \<and> key e = k) t") (auto simp: sfind_def dest: find_index_less)
  show "slots_ok used key (map f t) = slots_ok used key t" by (simp add: slots_ok_def assms)
qed

text \<open>Clearing every slot that satisfies a predicate.\<close>

lemma sfind_clear_all:
  assumes "slots_ok used key t" and "\<not> used new"
  shows "slots_ok used key (map (\<lambda>e. if P e then new else e) t)"
    and "sfind used key (map (\<lambda>e. if P e then new else e) t) k =
      (case sfind used key t k of Some e \<Rightarrow> if P e then None else Some e | None \<Rightarrow> None)"
proof -
  let ?t = "map (\<lambda>e. if P e then new else e) t"
  show ok: "slots_ok used key ?t" using assms unfolding slots_ok_def by (auto split: if_splits)
  show "sfind used key ?t k = (case sfind used key t k of Some e \<Rightarrow> if P e then None else Some e | None \<Rightarrow> None)"
  proof (cases rule: sfind_cases [of used key k t])
    case (found i)
    show ?thesis
    proof (cases "P (t ! i)")
      case True
      have "\<not> (used x \<and> key x = k)" if x: "x \<in> set ?t" for x
      proof
        assume u: "used x \<and> key x = k"
        from x obtain j where j: "j < length t" "x = (if P (t ! j) then new else t ! j)" by (auto simp: in_set_conv_nth)
        with u assms(2) have "x = t ! j" "\<not> P (t ! j)" by (auto split: if_splits)
        with u j slots_okD [OF assms(1) j(1) found(2)] found True show False by auto
      qed
      then have "sfind used key ?t k = None" by (auto simp: sfind_None)
      then show ?thesis using found True by simp
    next
      case False
      then show ?thesis using found sfind_eqI(1) [OF ok, of i k] by simp
    qed
  next
    case missing
    then have "sfind used key ?t k = None" using assms(2) by (auto simp: sfind_None)
    then show ?thesis using missing by simp
  qed
qed

lemma slots_ok_distinct:
  assumes "slots_ok used key t" and "\<And>e. P e \<Longrightarrow> used e"
  shows "distinct (map key (filter P t))"
  using assms
proof (induction t)
  case (Cons x t)
  have "slots_ok used key t" using Cons.prems(1) by (force simp: slots_ok_def)
  moreover have "key x \<notin> key ` set (filter P t)" if "P x"
  proof
    assume "key x \<in> key ` set (filter P t)"
    then obtain j where "j < length t" "P (t ! j)" "key (t ! j) = key x" by (auto simp: in_set_conv_nth)
    then show False using slots_okD [OF Cons.prems(1), of 0 "Suc j"] that Cons.prems(2) by simp
  qed
  ultimately show ?case using Cons by simp
qed simp

text \<open>The number of used slots.\<close>

definition slots_used :: "('e \<Rightarrow> bool) \<Rightarrow> 'e list \<Rightarrow> nat" where
  "slots_used used t = length (filter used t)"

lemma slots_used_le: "slots_used used t \<le> length t"
  by (simp add: slots_used_def)

lemma card_dom_sfind:
  assumes "slots_ok used key t"
  shows "finite (dom (sfind used key t)) \<and> card (dom (sfind used key t)) = slots_used used t"
proof -
  have d: "dom (sfind used key t) = key ` (set (filter used t))"
    using sfind_None [of used key t] by (auto simp: dom_def simp del: not_Some_eq)
  have "distinct (map key (filter used t))" using assms by (rule slots_ok_distinct)
  then show ?thesis unfolding d slots_used_def by (metis List.finite_set distinct_card finite_imageI length_map set_map)
qed

text \<open>A full table is one where every slot is used.\<close>

lemma no_free_slot: "find_index (\<lambda>e. \<not> used e) t = None \<longleftrightarrow> slots_used used t = length t"
  unfolding find_index_None slots_used_def by (metis filter_True length_filter_less nat_neq_iff)

end
