(* ===== verification/Authority.thy ===== *)
theory Authority
  imports Slot_Table Channel_Tables
begin

text \<open>
  Who controls what, and who gives way: \<^verbatim>\<open>session/safety.hpp\<close> (the exclusive ownership of control sources
  with role-gated takeover) and \<^verbatim>\<open>session/shedding.hpp\<close> (the shedding table).  The ownership table is the
  array of four entries of the source; the callback of \<open>releaseAllOf\<close> is the list of the source ids it is
  called with.
\<close>

section \<open>Definitions: ownership of control sources\<close>

datatype AccessLevel = watch | control | configure

primrec role_u8 :: "AccessLevel \<Rightarrow> u8" where
  "role_u8 watch = 0"
| "role_u8 control = 1"
| "role_u8 configure = 2"

datatype AcquireResult = Acquired | AlreadyOwner | Conflict | TakenOver

record OwnerEntry =
  so_source_id :: u8
  so_owner :: u32
  so_role :: AccessLevel
  so_used :: bool

definition OwnerEntry_new :: OwnerEntry where
  "OwnerEntry_new = \<lparr> so_source_id = 0, so_owner = 0, so_role = watch, so_used = False \<rparr>"

type_synonym SourceOwnershipTable = "OwnerEntry list"

abbreviation (input) kMaxSources :: nat where "kMaxSources \<equiv> 4"

definition SourceOwnershipTable_new :: SourceOwnershipTable where
  "SourceOwnershipTable_new = replicate kMaxSources OwnerEntry_new"

definition so_find :: "u8 \<Rightarrow> SourceOwnershipTable \<Rightarrow> nat option" where
  "so_find source_id t = find_index (\<lambda>e. so_used e \<and> so_source_id e = source_id) t"

definition so_findOrCreate :: "u8 \<Rightarrow> SourceOwnershipTable \<Rightarrow> nat option \<times> SourceOwnershipTable" where
  "so_findOrCreate source_id t =
    (case so_find source_id t of
       Some i \<Rightarrow> (Some i, t)
     | None \<Rightarrow>
         (case find_index (\<lambda>e. \<not> so_used e) t of
            Some i \<Rightarrow> (Some i, t[i := OwnerEntry_new \<lparr> so_used := True, so_source_id := source_id \<rparr>])
          | None \<Rightarrow> (None, t)))"

definition acquire :: "u8 \<Rightarrow> u32 \<Rightarrow> AccessLevel \<Rightarrow> bool \<Rightarrow> SourceOwnershipTable \<Rightarrow> AcquireResult \<times> SourceOwnershipTable" where
  "acquire source_id session_id role takeover t =
    (case so_findOrCreate source_id t of
       (None, t) \<Rightarrow> (Conflict, t)
     | (Some i, t) \<Rightarrow>
         let e = t ! i in
         if so_owner e = 0 then (Acquired, t[i := e \<lparr> so_owner := session_id, so_role := role \<rparr>])
         else if so_owner e = session_id then (AlreadyOwner, t)
         else if takeover \<and> role_u8 role \<ge> role_u8 (so_role e)
         then (TakenOver, t[i := e \<lparr> so_owner := session_id, so_role := role \<rparr>])
         else (Conflict, t))"

definition release :: "u8 \<Rightarrow> u32 \<Rightarrow> SourceOwnershipTable \<Rightarrow> bool \<times> SourceOwnershipTable" where
  "release source_id session_id t =
    (case so_find source_id t of
       None \<Rightarrow> (False, t)
     | Some i \<Rightarrow>
         if so_owner (t ! i) \<noteq> session_id then (False, t)
         else (True, t[i := (t ! i) \<lparr> so_owner := 0, so_role := watch \<rparr>]))"

fun releaseAllOf :: "u32 \<Rightarrow> SourceOwnershipTable \<Rightarrow> u8 list \<times> SourceOwnershipTable" where
  "releaseAllOf session_id [] = ([], [])"
| "releaseAllOf session_id (e # t) =
    (let (hits, t') = releaseAllOf session_id t in
     if so_used e \<and> so_owner e = session_id
     then (so_source_id e # hits, e \<lparr> so_owner := 0, so_role := watch \<rparr> # t')
     else (hits, e # t'))"

definition ownerOf :: "u8 \<Rightarrow> SourceOwnershipTable \<Rightarrow> u32" where
  "ownerOf source_id t = (case so_find source_id t of Some i \<Rightarrow> so_owner (t ! i) | None \<Rightarrow> 0)"

definition ownerRoleOf :: "u8 \<Rightarrow> SourceOwnershipTable \<Rightarrow> AccessLevel" where
  "ownerRoleOf source_id t = (case so_find source_id t of Some i \<Rightarrow> so_role (t ! i) | None \<Rightarrow> watch)"

section \<open>Definitions: shedding\<close>

datatype ChannelClass = CC_STATE | CC_STREAM | CC_INTENT | CC_EVENT | CC_STORE

datatype ShedDecision = Send | Decimate2x | Decimate4x | ConflateHard | Drop

definition shedDecision :: "Priority \<Rightarrow> ChannelClass \<Rightarrow> u8 \<Rightarrow> bool \<Rightarrow> ShedDecision" where
  "shedDecision priority cls congestionLevel segmentClass =
    (if congestionLevel = 0 then Send
     else if priority = critical then Send
     else if segmentClass then
       (if congestionLevel = 1 then Send
        else if priority = background \<or> priority = normal then Drop else Send)
     else if congestionLevel = 1 then
       (case priority of
          background \<Rightarrow> if cls = CC_STREAM then Decimate4x else if cls = CC_STATE then ConflateHard else Send
        | normal \<Rightarrow> if cls = CC_STREAM then Decimate2x else Send
        | _ \<Rightarrow> Send)
     else
       (case priority of
          background \<Rightarrow> Drop
        | normal \<Rightarrow> Decimate4x
        | elevated \<Rightarrow> Decimate2x
        | _ \<Rightarrow> Send))"

section \<open>The ownership table as a map\<close>

definition so_inv :: "SourceOwnershipTable \<Rightarrow> bool" where
  "so_inv t \<longleftrightarrow> length t = kMaxSources \<and> slots_ok so_used so_source_id t"

text \<open>The source ids the table knows, and who owns each: session and the role it acquired with.\<close>

definition so_known :: "SourceOwnershipTable \<Rightarrow> u8 set" where
  "so_known t = dom (sfind so_used so_source_id t)"

definition holder :: "SourceOwnershipTable \<Rightarrow> u8 \<Rightarrow> u32 \<times> AccessLevel" where
  "holder t source_id =
    (case sfind so_used so_source_id t source_id of Some e \<Rightarrow> (so_owner e, so_role e) | None \<Rightarrow> (0, watch))"

lemma holder_reads: "holder t sid = (ownerOf sid t, ownerRoleOf sid t)"
  by (simp add: holder_def ownerOf_def ownerRoleOf_def so_find_def sfind_def split: option.split)

lemma so_inv_new: "so_inv SourceOwnershipTable_new"
  by (auto simp: so_inv_def SourceOwnershipTable_new_def OwnerEntry_new_def slots_ok_def)

lemma so_room: "so_inv t \<Longrightarrow> card (so_known t) < 4 \<longleftrightarrow> find_index (\<lambda>e. \<not> so_used e) t \<noteq> None"
  using card_dom_sfind [of so_used so_source_id t] slots_used_le [of so_used t] no_free_slot [of so_used t]
  by (auto simp: so_inv_def so_known_def)

lemma so_findOrCreate_cases [consumes 1, case_names known created full]:
  assumes "so_inv t"
  obtains i where "so_findOrCreate sid t = (Some i, t)" "i < length t" "so_used (t ! i)" "so_source_id (t ! i) = sid"
      "sfind so_used so_source_id t sid = Some (t ! i)" "sid \<in> so_known t"
    | i t' where "so_findOrCreate sid t = (Some i, t')" "i < length t" "t' = t[i := t' ! i]"
      "t' ! i = \<lparr> so_source_id = sid, so_owner = 0, so_role = watch, so_used = True \<rparr>" "\<not> so_used (t ! i)"
      "sfind so_used so_source_id t sid = None" "sid \<notin> so_known t" "card (so_known t) < 4"
    | "so_findOrCreate sid t = (None, t)" "sfind so_used so_source_id t sid = None" "sid \<notin> so_known t"
      "\<not> card (so_known t) < 4"
proof (cases rule: sfind_cases [of so_used so_source_id sid t])
  case (found i)
  then show thesis by (intro that(1) [of i]) (auto simp: so_findOrCreate_def so_find_def so_known_def)
next
  case missing
  show thesis
  proof (cases "find_index (\<lambda>e. \<not> so_used e) t")
    case None
    with missing show thesis using so_room [OF assms] by (intro that(3)) (auto simp: so_findOrCreate_def so_find_def so_known_def)
  next
    case (Some i)
    with missing show thesis using so_room [OF assms] find_index_Some [OF Some]
      by (intro that(2) [of i "t[i := OwnerEntry_new \<lparr> so_used := True, so_source_id := sid \<rparr>]"])
        (auto simp: so_findOrCreate_def so_find_def so_known_def OwnerEntry_new_def)
  qed
qed

text \<open>Writing the entry of a source, old or new.\<close>

lemma so_write:
  assumes "so_inv t" and "i < length t" and "so_used e" and "so_source_id e = sid"
    and "so_used (t ! i) \<and> so_source_id (t ! i) = sid \<or> \<not> so_used (t ! i) \<and> sfind so_used so_source_id t sid = None"
  shows "so_inv (t[i := e])" "holder (t[i := e]) = (holder t)(sid := (so_owner e, so_role e))"
    "so_known (t[i := e]) = insert sid (so_known t)"
proof -
  have ok: "slots_ok so_used so_source_id t" using assms(1) by (simp add: so_inv_def)
  note put = sfind_put [OF ok assms(2,3)] slots_ok_put [OF ok, of i e]
  show "so_inv (t[i := e])" using put(2) assms by (auto simp: so_inv_def)
  show "holder (t[i := e]) = (holder t)(sid := (so_owner e, so_role e))"
    "so_known (t[i := e]) = insert sid (so_known t)"
    using put(1) assms(4,5) by (auto simp: holder_def fun_eq_iff so_known_def)
qed

text \<open>The specification: one owner per source.\<close>

definition acquire_spec ::
  "u8 \<Rightarrow> u32 \<Rightarrow> AccessLevel \<Rightarrow> bool \<Rightarrow> u8 set \<Rightarrow> (u8 \<Rightarrow> u32 \<times> AccessLevel) \<Rightarrow> AcquireResult \<times> (u8 \<Rightarrow> u32 \<times> AccessLevel)" where
  "acquire_spec sid sess role takeover known h =
    (if sid \<notin> known \<and> \<not> card known < 4 then (Conflict, h)
     else if fst (h sid) = 0 then (Acquired, h(sid := (sess, role)))
     else if fst (h sid) = sess then (AlreadyOwner, h)
     else if takeover \<and> role_u8 (snd (h sid)) \<le> role_u8 role then (TakenOver, h(sid := (sess, role)))
     else (Conflict, h))"

lemma acquire_refines:
  assumes "so_inv t"
  shows "so_inv (snd (acquire sid sess role takeover t)) \<and>
    (fst (acquire sid sess role takeover t), holder (snd (acquire sid sess role takeover t))) =
      acquire_spec sid sess role takeover (so_known t) (holder t)"
  using assms
proof (cases rule: so_findOrCreate_cases [where sid = sid])
  case (known i)
  have h: "holder t sid = (so_owner (t ! i), so_role (t ! i))" using known by (simp add: holder_def)
  have "so_inv (t[i := (t ! i) \<lparr> so_owner := sess, so_role := role \<rparr>])"
    "holder (t[i := (t ! i) \<lparr> so_owner := sess, so_role := role \<rparr>]) = (holder t)(sid := (sess, role))"
    using so_write [OF assms known(2), of "(t ! i) \<lparr> so_owner := sess, so_role := role \<rparr>" sid] known by auto
  with known h assms show ?thesis by (simp add: acquire_def acquire_spec_def Let_def)
next
  case (created i t')
  have h: "holder t sid = (0, watch)" using created by (simp add: holder_def)
  have "t'[i := x] = t[i := x]" for x using created(3) by (metis list_update_overwrite)
  moreover have "so_inv (t[i := (t' ! i) \<lparr> so_owner := sess, so_role := role \<rparr>])"
    "holder (t[i := (t' ! i) \<lparr> so_owner := sess, so_role := role \<rparr>]) = (holder t)(sid := (sess, role))"
    using so_write [OF assms created(2), of "(t' ! i) \<lparr> so_owner := sess, so_role := role \<rparr>" sid] created by auto
  ultimately show ?thesis using created h by (simp add: acquire_def acquire_spec_def Let_def)
next
  case full
  then show ?thesis using assms by (simp add: acquire_def acquire_spec_def)
qed

lemma acquire_unchanged:
  assumes "so_inv t" and "acquire sid sess role takeover t = (res, t')" and "res = Conflict \<or> res = AlreadyOwner"
  shows "t' = t"
  using assms(1)
proof (cases rule: so_findOrCreate_cases [where sid = sid])
  case (created i t'')
  then show ?thesis using assms(2,3) by (auto simp: acquire_def Let_def)
qed (use assms in \<open>auto simp: acquire_def Let_def split: if_splits\<close>)

lemma release_refines:
  assumes "so_inv t"
  shows "so_inv (snd (release sid sess t)) \<and>
    fst (release sid sess t) = (sid \<in> so_known t \<and> fst (holder t sid) = sess) \<and>
    holder (snd (release sid sess t)) = (if fst (release sid sess t) then (holder t)(sid := (0, watch)) else holder t)"
proof (cases rule: sfind_cases [of so_used so_source_id sid t])
  case (found i)
  have h: "holder t sid = (so_owner (t ! i), so_role (t ! i))" "sid \<in> so_known t"
    using found by (auto simp: holder_def so_known_def)
  have "so_inv (t[i := (t ! i) \<lparr> so_owner := 0, so_role := watch \<rparr>])"
    "holder (t[i := (t ! i) \<lparr> so_owner := 0, so_role := watch \<rparr>]) = (holder t)(sid := (0, watch))"
    using so_write [OF assms found(2), of "(t ! i) \<lparr> so_owner := 0, so_role := watch \<rparr>" sid] found by auto
  with found h assms show ?thesis by (simp add: release_def so_find_def)
next
  case missing
  then show ?thesis using assms by (auto simp: release_def so_find_def so_known_def)
qed

lemma releaseAllOf_map:
  "releaseAllOf sess t = (map so_source_id (filter (\<lambda>e. so_used e \<and> so_owner e = sess) t),
     map (\<lambda>e. if so_used e \<and> so_owner e = sess then e \<lparr> so_owner := 0, so_role := watch \<rparr> else e) t)"
  by (induction t) (simp_all add: Let_def split_beta)

lemma releaseAllOf_refines:
  assumes "so_inv t"
  shows "so_inv (snd (releaseAllOf sess t)) \<and>
    set (fst (releaseAllOf sess t)) = {sid \<in> so_known t. fst (holder t sid) = sess} \<and>
    distinct (fst (releaseAllOf sess t)) \<and>
    holder (snd (releaseAllOf sess t)) =
      (\<lambda>sid. if sid \<in> set (fst (releaseAllOf sess t)) then (0, watch) else holder t sid)"
proof -
  let ?f = "\<lambda>e. if so_used e \<and> so_owner e = sess then e \<lparr> so_owner := 0, so_role := watch \<rparr> else e"
  have ok: "slots_ok so_used so_source_id t" using assms by (simp add: so_inv_def)
  have used: "so_used (?f e) = so_used e" and key: "so_source_id (?f e) = so_source_id e" for e by simp_all
  note mp = sfind_map [of so_used ?f so_source_id t, OF used key]
  have hits: "set (fst (releaseAllOf sess t)) = {sid \<in> so_known t. fst (holder t sid) = sess}"
  proof (intro set_eqI)
    fix sid
    have "sid \<in> set (fst (releaseAllOf sess t)) \<longleftrightarrow>
        (\<exists>i < length t. so_used (t ! i) \<and> so_source_id (t ! i) = sid \<and> so_owner (t ! i) = sess)"
      by (auto simp: releaseAllOf_map in_set_conv_nth image_iff)
    also have "\<dots> \<longleftrightarrow> (\<exists>e. sfind so_used so_source_id t sid = Some e \<and> so_owner e = sess)"
      by (auto simp: sfind_Some [OF ok])
    finally show "sid \<in> set (fst (releaseAllOf sess t)) \<longleftrightarrow> sid \<in> {sid \<in> so_known t. fst (holder t sid) = sess}"
      by (auto simp: so_known_def holder_def)
  qed
  have "distinct (fst (releaseAllOf sess t))"
    unfolding releaseAllOf_map fst_conv by (rule slots_ok_distinct [OF ok]) simp
  moreover have "holder (map ?f t) sid =
      (if sid \<in> so_known t \<and> fst (holder t sid) = sess then (0, watch) else holder t sid)" for sid
    by (cases rule: sfind_cases [of so_used so_source_id sid t]) (auto simp: holder_def mp(1) so_known_def)
  ultimately show ?thesis using assms hits mp(2)
    by (simp only: hits) (simp add: releaseAllOf_map so_inv_def fun_eq_iff)
qed

section \<open>The interface: exclusive control\<close>

datatype own_op = Acquire u8 u32 AccessLevel bool | Release u8 u32 | ReleaseAllOf u32

text \<open>An operation that may end the ownership of \<open>sid\<close> by \<open>(sess, role)\<close>.\<close>

primrec ends_ownership :: "u8 \<Rightarrow> u32 \<times> AccessLevel \<Rightarrow> own_op \<Rightarrow> bool" where
  "ends_ownership sid h (Acquire sid' sess' role' takeover) =
    (sid' = sid \<and> sess' \<noteq> fst h \<and> takeover \<and> role_u8 (snd h) \<le> role_u8 role')"
| "ends_ownership sid h (Release sid' sess') = (sid' = sid \<and> sess' = fst h)"
| "ends_ownership sid h (ReleaseAllOf sess') = (sess' = fst h)"

locale exclusive_control =
  fixes inv :: "'t \<Rightarrow> bool"
    and owns :: "'t \<Rightarrow> u8 \<Rightarrow> u32 \<times> AccessLevel"
    and known :: "'t \<Rightarrow> u8 set"
    and step :: "own_op \<Rightarrow> 't \<Rightarrow> 't"
  assumes step_inv: "inv t \<Longrightarrow> inv (step op t)"
    and step_acquire: "inv t \<Longrightarrow> owns (step (Acquire sid sess role takeover) t) =
      snd (acquire_spec sid sess role takeover (known t) (owns t))"
    and step_release: "inv t \<Longrightarrow> sess \<noteq> 0 \<Longrightarrow> owns (step (Release sid sess) t) =
      (if fst (owns t sid) = sess then (owns t)(sid := (0, watch)) else owns t)"
    and step_releaseAll: "inv t \<Longrightarrow> sess \<noteq> 0 \<Longrightarrow> owns (step (ReleaseAllOf sess) t) =
      (\<lambda>sid. if fst (owns t sid) = sess then (0, watch) else owns t sid)"
    and step_zero: "inv t \<Longrightarrow> op = Release sid 0 \<or> op = ReleaseAllOf 0 \<Longrightarrow> fst (owns t sid') \<noteq> 0 \<Longrightarrow>
      owns (step op t) sid' = owns t sid'"
begin

lemma kept_by_step:
  assumes "inv t" and "owns t sid = h" and "fst h \<noteq> 0" and "\<not> ends_ownership sid h op"
  shows "owns (step op t) sid = h"
proof (cases op)
  case (Acquire sid' sess' role' takeover)
  then show ?thesis using assms by (auto simp: step_acquire acquire_spec_def)
next
  case (Release sid' sess')
  then show ?thesis using assms by (cases "sess' = 0") (auto simp: step_release step_zero)
next
  case (ReleaseAllOf sess')
  then show ?thesis using assms by (cases "sess' = 0") (auto simp: step_releaseAll step_zero)
qed

lemma kept:
  assumes "inv t" and "owns t sid = h" and "fst h \<noteq> 0" and "\<forall>op \<in> set ops. \<not> ends_ownership sid h op"
  shows "inv (foldl (\<lambda>t op. step op t) t ops) \<and> owns (foldl (\<lambda>t op. step op t) t ops) sid = h"
  using assms by (induction ops arbitrary: t) (simp_all add: kept_by_step step_inv)

lemma reachable_inv: "inv t \<Longrightarrow> inv (foldl (\<lambda>t op. step op t) t ops)"
  by (induction ops arbitrary: t) (simp_all add: step_inv)

end

primrec own_step :: "own_op \<Rightarrow> SourceOwnershipTable \<Rightarrow> SourceOwnershipTable" where
  "own_step (Acquire sid sess role takeover) t = snd (acquire sid sess role takeover t)"
| "own_step (Release sid sess) t = snd (release sid sess t)"
| "own_step (ReleaseAllOf sess) t = snd (releaseAllOf sess t)"

lemma holder_unknown: "sid \<notin> so_known t \<Longrightarrow> holder t sid = (0, watch)"
  by (auto simp: so_known_def holder_def split: option.split)

interpretation ownership: exclusive_control so_inv holder so_known own_step
proof (unfold_locales, goal_cases)
  case (1 t op)
  then show ?case by (cases op) (simp_all add: acquire_refines release_refines releaseAllOf_refines)
next
  case (2 t sid sess role takeover)
  then show ?case using acquire_refines [OF 2] by (metis own_step.simps(1) snd_conv)
next
  case (3 t sess sid)
  then show ?case using release_refines [OF 3(1), of sid sess] holder_unknown [of sid t] by auto
next
  case (4 t sess)
  have "sid \<in> so_known t" if "fst (holder t sid) = sess" for sid
    using that 4(2) holder_unknown [of sid t] by (metis fst_conv)
  then have "set (fst (releaseAllOf sess t)) = {sid. fst (holder t sid) = sess}"
    using releaseAllOf_refines [OF 4(1), of sess] by auto
  then show ?case using releaseAllOf_refines [OF 4(1), of sess] by simp
next
  case (5 t op sid sid')
  from 5(2) show ?case
  proof
    assume "op = Release sid 0"
    then show ?thesis using release_refines [OF 5(1), of sid 0] 5(3) by (auto split: if_splits)
  next
    assume "op = ReleaseAllOf 0"
    moreover have "sid' \<notin> set (fst (releaseAllOf 0 t))" using releaseAllOf_refines [OF 5(1), of 0] 5(3) by simp
    ultimately show ?thesis using releaseAllOf_refines [OF 5(1), of 0] 5(3) by auto
  qed
qed

section \<open>Properties\<close>

text \<open>(C29) Takeover is gated by role: in every state the ownership table can reach, an attempt to acquire a source
  gives \<open>Acquired\<close> only if nobody owns it, \<open>TakenOver\<close> only if takeover was asked for and the requester's role
  is at least the role the owner acquired it with, \<open>AlreadyOwner\<close> only to the owner itself; in the first two
  cases the requester owns it afterwards with its role; \<open>Conflict\<close> and \<open>AlreadyOwner\<close> change no ownership, and no
  other source is ever affected.  The table of four sources refuses a free source only when four others are in use.\<close>
theorem takeover_role_gated:
  "let t = foldl (\<lambda>t op. own_step op t) SourceOwnershipTable_new ops;
       (res, t') = acquire sid sess role takeover t;
       owners = (\<lambda>t sid. (ownerOf sid t, ownerRoleOf sid t)) in
   case res of
     Acquired \<Rightarrow> ownerOf sid t = 0 \<and> owners t' = (owners t)(sid := (sess, role))
   | TakenOver \<Rightarrow> ownerOf sid t \<notin> {0, sess} \<and> takeover \<and> role_u8 (ownerRoleOf sid t) \<le> role_u8 role \<and>
       owners t' = (owners t)(sid := (sess, role))
   | AlreadyOwner \<Rightarrow> ownerOf sid t = sess \<and> sess \<noteq> 0 \<and> t' = t
   | Conflict \<Rightarrow> t' = t \<and>
       (if ownerOf sid t = 0 then sid \<notin> so_known t \<and> card (so_known t) = 4
        else ownerOf sid t \<noteq> sess \<and> (takeover = False \<or> role_u8 role < role_u8 (ownerRoleOf sid t)))"
proof -
  define t where "t = foldl (\<lambda>t op. own_step op t) SourceOwnershipTable_new ops"
  obtain res t' where a: "acquire sid sess role takeover t = (res, t')" by (cases "acquire sid sess role takeover t")
  have i: "so_inv t" unfolding t_def by (intro ownership.reachable_inv so_inv_new)
  have o: "(\<lambda>sid. (ownerOf sid t, ownerRoleOf sid t)) = holder t" for t by (simp add: fun_eq_iff holder_reads)
  from acquire_refines [OF i] a have sp: "(res, holder t') = acquire_spec sid sess role takeover (so_known t) (holder t)"
    by (metis fst_conv snd_conv)
  have same: "t' = t" if "res = Conflict \<or> res = AlreadyOwner" using acquire_unchanged [OF i a that] .
  have c: "card (so_known t) \<le> 4"
    using card_dom_sfind [of so_used so_source_id t] slots_used_le [of so_used t] i by (simp add: so_inv_def so_known_def)
  have u: "sid \<notin> so_known t \<Longrightarrow> ownerOf sid t = 0" using holder_unknown [of sid t] by (simp add: holder_reads)
  show ?thesis unfolding t_def [symmetric] a Let_def split_conv o
    using sp c u by (cases res)
      (auto simp: acquire_spec_def holder_reads same not_le not_less split: if_splits)
qed

text \<open>Control is exclusive and stable: from any reachable table, a session that owns a source still owns it, with
  the same role, after any sequence of operations by any sessions that contains neither a release by that session
  (of this source, or of everything) nor a takeover by another session whose role is at least the owner's.  When
  the session does end, \<open>releaseAllOf\<close> reports exactly the sources it owned, each once, and leaves it owning none.\<close>
theorem ownership_stable:
  assumes "t = foldl (\<lambda>t op. own_step op t) SourceOwnershipTable_new earlier"
    and "ownerOf sid t = sess" and "ownerRoleOf sid t = role" and "sess \<noteq> 0"
    and "\<forall>op \<in> set ops. \<not> ends_ownership sid (sess, role) op"
  shows "ownerOf sid (foldl (\<lambda>t op. own_step op t) t ops) = sess \<and>
    ownerRoleOf sid (foldl (\<lambda>t op. own_step op t) t ops) = role \<and>
    (let (hits, t') = releaseAllOf sess (foldl (\<lambda>t op. own_step op t) t ops) in
      distinct hits \<and> set hits = {s. ownerOf s (foldl (\<lambda>t op. own_step op t) t ops) = sess} \<and>
      (\<forall>s. ownerOf s t' \<noteq> sess))"
proof -
  let ?u = "foldl (\<lambda>t op. own_step op t) t ops"
  have i: "so_inv t" unfolding assms(1) by (intro ownership.reachable_inv so_inv_new)
  from ownership.kept [OF i, of sid "(sess, role)" ops] assms have k: "so_inv ?u" "holder ?u sid = (sess, role)"
    by (simp_all add: holder_reads)
  note r = releaseAllOf_refines [OF k(1), of sess]
  have "fst (holder ?u s) = sess \<Longrightarrow> s \<in> so_known ?u" for s using holder_unknown [of s ?u] assms(4) by (metis fst_conv)
  then have "set (fst (releaseAllOf sess ?u)) = {s. ownerOf s ?u = sess}" using r by (auto simp: holder_reads)
  moreover have "ownerOf s (snd (releaseAllOf sess ?u)) \<noteq> sess" for s
  proof -
    from r have "holder (snd (releaseAllOf sess ?u)) s = (if ownerOf s ?u = sess then (0, watch) else holder ?u s)"
      using \<open>set _ = _\<close> by simp
    then show ?thesis using assms(4) by (auto simp: holder_reads split: if_splits)
  qed
  ultimately show ?thesis using k r by (simp add: holder_reads split_beta)
qed

theorem ownership_stable_witness:
  "ownerOf 2 (foldl (\<lambda>t op. own_step op t) SourceOwnershipTable_new
    [Acquire 2 41 control False, Acquire 2 42 watch True, Acquire 3 42 control False, Release 2 42]) = 41"
proof -
  let ?t = "foldl (\<lambda>t op. own_step op t) SourceOwnershipTable_new [Acquire 2 41 control False]"
  have "ownerOf 2 ?t = 41" by code_simp
  moreover have "ownerRoleOf 2 ?t = control" by code_simp
  ultimately show ?thesis
    using ownership_stable [OF refl, of 2 "[Acquire 2 41 control False]" 41 control
      "[Acquire 2 42 watch True, Acquire 3 42 control False, Release 2 42]"] by simp
qed

primrec shed_rank :: "ShedDecision \<Rightarrow> nat" where
  "shed_rank Send = 0"
| "shed_rank Decimate2x = 1"
| "shed_rank ConflateHard = 2"
| "shed_rank Decimate4x = 2"
| "shed_rank Drop = 3"

text \<open>Shedding never touches the never-shed set and gets monotonically stricter: a critical subscription and an
  uncongested link always send; a segment stream is never thinned, it is sent or dropped whole; the decision for a
  given channel class never relaxes as congestion rises, nor as priority falls; and above congestion level 2
  nothing changes any more.\<close>
theorem shedding_monotone:
  "shedDecision critical cls level seg = Send \<and> shedDecision prio cls 0 seg = Send \<and>
   shedDecision prio cls level True \<in> {Send, Drop} \<and>
   shed_rank (shedDecision prio cls level seg) \<le> shed_rank (shedDecision prio cls (max level level') seg) \<and>
   shed_rank (shedDecision elevated cls level seg) \<le> shed_rank (shedDecision normal cls level seg) \<and>
   shed_rank (shedDecision normal cls level seg) \<le> shed_rank (shedDecision background cls level seg) \<and>
   shedDecision prio cls (max 2 level) seg = shedDecision prio cls 2 seg"
proof -
  have z: "max 2 level \<noteq> 0" "max 2 level \<noteq> 1" for level :: u8
    by (auto simp: max_def word_le_nat_alt split: if_splits)
  have l: "max level level' = 0 \<Longrightarrow> level = 0" "max level level' = 1 \<Longrightarrow> level = 0 \<or> level = 1"
    by (auto simp: max_def word_le_less_eq word_less_1 split: if_splits)
  consider "level = 0" | "level = 1" | "level \<noteq> 0" "level \<noteq> 1" by blast
  then have "shed_rank (shedDecision prio cls level seg) \<le> shed_rank (shedDecision prio cls (max level level') seg)"
    using l by cases (cases prio; auto simp: shedDecision_def)+
  moreover have "shedDecision prio cls (max 2 level) seg = shedDecision prio cls 2 seg"
    using z [of level] by (simp add: shedDecision_def)
  moreover have "shedDecision prio cls level True \<in> {Send, Drop}" by (simp add: shedDecision_def)
  ultimately show ?thesis by (simp add: shedDecision_def)
qed

end
