(* ===== verification/State_Shadow.thy ===== *)
theory State_Shadow
  imports Channel_Tables
begin

text \<open>
  The subscriber's shadow of a STATE channel, \<^verbatim>\<open>channel/state_apply.hpp\<close>: newest-wins by serial
  comparison.  The channel delivers the frames the hub published in any order, with losses and duplicates.
\<close>

record ShadowSlot =
  ss_valid :: bool
  ss_seq :: u16
  ss_value :: bytes
  ss_size :: u16

definition ShadowSlot_new :: ShadowSlot where
  "ShadowSlot_new = \<lparr> ss_valid = False, ss_seq = 0, ss_value = replicate min_transport_payload 0, ss_size = 0 \<rparr>"

text \<open>The second component is \<open>*capacityExceeded\<close> (set, or left as it was).\<close>

definition applyStateFrame :: "u16 \<Rightarrow> bytes \<Rightarrow> ShadowSlot \<Rightarrow> bool \<Rightarrow> bool \<times> bool \<times> ShadowSlot" where
  "applyStateFrame frameSeq payload slot capacityExceeded =
    (if length payload > length (ss_value slot) then (False, True, slot)
     else if ss_valid slot \<and> \<not> seqIsNewer frameSeq (ss_seq slot) then (False, capacityExceeded, slot)
     else (True, capacityExceeded,
           slot \<lparr> ss_value := poke 0 payload (ss_value slot), ss_size := of_nat (length payload),
                  ss_seq := frameSeq, ss_valid := True \<rparr>))"

text \<open>What a reader of the shadow sees.\<close>

definition shadow_view :: "ShadowSlot \<Rightarrow> (u16 \<times> bytes) option" where
  "shadow_view s = (if ss_valid s then Some (ss_seq s, take (unat (ss_size s)) (ss_value s)) else None)"

definition shadow_inv :: "ShadowSlot \<Rightarrow> bool" where
  "shadow_inv s \<longleftrightarrow> length (ss_value s) = min_transport_payload"

lemma shadow_inv_new: "shadow_inv ShadowSlot_new" "shadow_view ShadowSlot_new = None"
  by (simp_all add: shadow_inv_def ShadowSlot_new_def shadow_view_def)

lemma applyStateFrame_view:
  assumes "shadow_inv s" and "length payload \<le> min_transport_payload"
  shows "shadow_inv (snd (snd (applyStateFrame q payload s c))) \<and>
    shadow_view (snd (snd (applyStateFrame q payload s c))) =
      (case shadow_view s of
         None \<Rightarrow> Some (q, payload)
       | Some (q', v) \<Rightarrow> if seqIsNewer q q' then Some (q, payload) else Some (q', v))"
  using assms
  by (auto simp: applyStateFrame_def shadow_inv_def shadow_view_def unat_of_nat take_bit_nat_eq_self poke_def)

section \<open>Newest wins under reordering\<close>

lemma seqIsNewer_of_nat:
  assumes "k < m + 2 ^ 15" and "m < k + 2 ^ 15"
  shows "seqIsNewer (of_nat k) (of_nat m) \<longleftrightarrow> m < k"
proof (cases "m < k")
  case True
  then obtain n where k: "k = m + n" by (auto simp: less_iff_Suc_add)
  then have "of_nat k - of_nat m = (of_nat n :: u16)" by simp
  then show ?thesis using True assms k by (simp add: seqIsNewer_iff_unat unat_of_nat take_bit_nat_eq_self)
next
  case False
  then obtain n where m: "m = k + n" by (auto simp: not_less le_iff_add)
  show ?thesis
  proof (cases "n = 0")
    case False
    have "seqIsNewer (of_nat m) (of_nat k)"
      using False assms m by (simp add: seqIsNewer_iff_unat unat_of_nat take_bit_nat_eq_self)
    then show ?thesis using m seqIsNewer_asym by auto
  qed (simp add: m)
qed

text \<open>Publish counts that arrive less than half the number space away from the newest one so far.\<close>

fun in_window :: "nat \<Rightarrow> nat list \<Rightarrow> bool" where
  "in_window m [] = True"
| "in_window m (k # ks) = (k < m + 2 ^ 15 \<and> m < k + 2 ^ 15 \<and> in_window (max m k) ks)"

definition shadow_step :: "ShadowSlot \<Rightarrow> u16 \<times> bytes \<Rightarrow> ShadowSlot" where
  "shadow_step s fr = snd (snd (applyStateFrame (fst fr) (snd fr) s False))"

lemma shadow_newest:
  assumes "shadow_inv s" and "shadow_view s = Some (of_nat m, v m)" and "in_window m ks"
    and "\<forall>k \<in> set ks. length (v k) \<le> min_transport_payload"
  shows "shadow_view (foldl shadow_step s (map (\<lambda>k. (of_nat k, v k)) ks)) =
    Some (of_nat (foldl max m ks), v (foldl max m ks))"
  using assms
proof (induction ks arbitrary: s m)
  case (Cons k ks)
  have "shadow_inv (shadow_step s (of_nat k, v k)) \<and>
      shadow_view (shadow_step s (of_nat k, v k)) = Some (of_nat (max m k), v (max m k))"
    using applyStateFrame_view [OF Cons.prems(1), of "v k" "of_nat k" False] Cons.prems
    by (auto simp: shadow_step_def seqIsNewer_of_nat max_def not_le le_less)
  then show ?case using Cons.IH Cons.prems by simp
qed simp

lemma foldl_max_mem: "foldl max (m :: nat) ks \<in> insert m (set ks) \<and> (\<forall>k \<in> insert m (set ks). k \<le> foldl max m ks)"
proof (induction ks arbitrary: m)
  case (Cons k ks)
  from Cons [of "max m k"] show ?case by (auto simp: max_def split: if_splits)
qed simp

section \<open>From the retained store to the shadow\<close>

text \<open>The number of publishes of a channel among the first \<open>i\<close> publishes of the hub, and the STATE frame the
  hub sends when it reads the channel's retained value after them.\<close>

definition publishes :: "u16 \<Rightarrow> (u16 \<times> bytes) list \<Rightarrow> nat \<Rightarrow> nat" where
  "publishes ch ps i = length (filter (\<lambda>(ch', p). ch' = ch) (take i ps))"

definition state_frame :: "nat \<Rightarrow> u16 \<Rightarrow> (u16 \<times> bytes) list \<Rightarrow> nat \<Rightarrow> u16 \<times> bytes" where
  "state_frame cap ch ps i = the (rs_get ch (rs_publish_all cap (take i ps) []))"

lemma filter_take_prefix:
  "filter P (take i xs) = take (length (filter P (take i xs))) (filter P xs)"
  by (metis append_eq_conv_conj append_take_drop_id filter_append)

lemma publishes_le: "publishes ch ps i \<le> publishes ch ps (length ps)"
  unfolding publishes_def by (metis append_take_drop_id filter_append le_add1 length_append take_all_iff order_refl)

lemma state_frame_eq:
  assumes "\<forall>(ch, p) \<in> set ps. length p \<le> 242" and "card (fst ` set ps) \<le> cap" and "0 < publishes ch ps i"
  shows "rs_get ch (rs_publish_all cap (take i ps) []) = Some (state_frame cap ch ps i)"
    "state_frame cap ch ps i =
      (of_nat (publishes ch ps i), map snd (filter (\<lambda>(ch', p). ch' = ch) ps) ! (publishes ch ps i - 1))"
proof -
  let ?qs = "map snd (filter (\<lambda>(ch', p). ch' = ch) ps)" and ?n = "publishes ch ps i"
  have "map snd (filter (\<lambda>(ch', p). ch' = ch) (take i ps)) = take ?n ?qs"
    using filter_take_prefix [of "\<lambda>(ch', p). ch' = ch" i ps] by (simp add: publishes_def take_map)
  moreover have "?n \<le> length ?qs" using publishes_le [of ch ps i] by (simp add: publishes_def)
  moreover have "card (fst ` set (take i ps)) \<le> cap"
    by (meson assms(2) card_mono finite_imageI finite_set image_mono le_trans set_take_subset)
  moreover have "\<forall>(ch, p) \<in> set (take i ps). length p \<le> 242" using assms(1) set_take_subset [of i ps] by blast
  ultimately show r: "rs_get ch (rs_publish_all cap (take i ps) []) = Some (state_frame cap ch ps i)"
    "state_frame cap ch ps i = (of_nat ?n, ?qs ! (?n - 1))"
    using assms(3) rs_get_publish_all [of "take i ps" cap ch]
    by (auto simp: state_frame_def Let_def last_conv_nth)
qed

text \<open>(C32) A subscriber converges to the hub's value: let the hub publish any sequence of values to its channels and
  send the retained value of one channel at any times \<open>i0 # is\<close>; let the network deliver these frames in any order,
  repeated or not, none of them 32768 or more publishes older or newer than the newest one delivered so far.  Then the
  shadow holds exactly the newest delivered value: once a frame sent after the last publish has been delivered, the
  shadow equals the value the hub retains, whatever was delivered before or after it.\<close>
theorem state_shadow_converges:
  assumes "\<forall>(ch, p) \<in> set ps. length p \<le> 242" and "card (fst ` set ps) \<le> cap"
    and "\<forall>i \<in> set (i0 # is). 0 < publishes ch ps i"
    and "in_window (publishes ch ps i0) (map (publishes ch ps) is)"
    and "length ps \<in> set (i0 # is)"
  shows "shadow_view (foldl shadow_step ShadowSlot_new (map (state_frame cap ch ps) (i0 # is))) =
    rs_get ch (rs_publish_all cap ps [])"
proof -
  let ?v = "\<lambda>k. map snd (filter (\<lambda>(ch', p). ch' = ch) ps) ! (k - 1)" and ?n = "publishes ch ps"
  have fr: "state_frame cap ch ps i = (of_nat (?n i), ?v (?n i))" if "i \<in> set (i0 # is)" for i
    using state_frame_eq(2) [OF assms(1,2)] assms(3) that by blast
  have n: "?n i \<le> length (filter (\<lambda>(ch', p). ch' = ch) ps)" for i
    using publishes_le [of ch ps i] by (simp add: publishes_def)
  have len: "length (?v (?n i)) \<le> 242" if "i \<in> set (i0 # is)" for i
  proof -
    have "0 < ?n i" using assms(3) that by blast
    then have "?v (?n i) \<in> set (map snd (filter (\<lambda>(ch', p). ch' = ch) ps))" using n [of i] by (intro nth_mem) simp
    then show ?thesis using assms(1) by auto
  qed
  let ?s = "shadow_step ShadowSlot_new (of_nat (?n i0), ?v (?n i0))"
  have "shadow_inv ?s \<and> shadow_view ?s = Some (of_nat (?n i0), ?v (?n i0))"
    using applyStateFrame_view [OF shadow_inv_new(1) len [of i0]] by (simp add: shadow_step_def shadow_inv_new)
  then have "shadow_view (foldl shadow_step ?s (map (\<lambda>k. (of_nat k, ?v k)) (map ?n is))) =
      Some (of_nat (foldl max (?n i0) (map ?n is)), ?v (foldl max (?n i0) (map ?n is)))"
    using len assms(4) by (intro shadow_newest) auto
  moreover have "foldl shadow_step ShadowSlot_new (map (state_frame cap ch ps) (i0 # is)) =
      foldl shadow_step ?s (map (\<lambda>k. (of_nat k, ?v k)) (map ?n is))"
  proof -
    have "map (state_frame cap ch ps) is = map (\<lambda>k. (of_nat k, ?v k)) (map ?n is)" using fr by auto
    then show ?thesis by (simp only: list.map foldl.simps fr [of i0] list.set_intros)
  qed
  moreover have "foldl max (?n i0) (map ?n is) = ?n (length ps)"
  proof (rule antisym)
    show "foldl max (?n i0) (map ?n is) \<le> ?n (length ps)"
      using foldl_max_mem [of "?n i0" "map ?n is"] publishes_le by auto
    show "?n (length ps) \<le> foldl max (?n i0) (map ?n is)" using foldl_max_mem [of "?n i0" "map ?n is"] assms(5) by auto
  qed
  moreover have "rs_get ch (rs_publish_all cap ps []) = Some (of_nat (?n (length ps)), ?v (?n (length ps)))"
    using state_frame_eq [OF assms(1,2), of ch "length ps"] bspec [OF assms(3,5)] by simp
  ultimately show ?thesis by simp
qed

theorem state_shadow_converges_witness:
  "shadow_view (foldl shadow_step ShadowSlot_new (map (state_frame 4 7 [(7, [1]), (8, [5]), (7, [2])]) [1, 3, 1, 2])) =
    Some (2, [2])"
proof -
  let ?ps = "[(7, [1]), (8, [5]), (7, [2])] :: (u16 \<times> bytes) list"
  have "rs_get 7 (rs_publish_all 4 ?ps []) = Some (2, [2])" by code_simp
  moreover have "\<forall>i \<in> set [1, 3, 1, 2]. 0 < publishes 7 ?ps i" by code_simp
  moreover have "in_window (publishes 7 ?ps 1) (map (publishes 7 ?ps) [3, 1, 2])" by (simp add: publishes_def)
  moreover have "card (fst ` set ?ps) \<le> 4" by (simp add: card_insert_if)
  ultimately show ?thesis
    using state_shadow_converges [of ?ps 4 1 "[3, 1, 2]" 7] by simp
qed

end
