(* ===== verification/Crypto_Core.thy ===== *)
theory Crypto_Core
  imports Slop_Prelude
begin

text \<open>
  The primitives behind tokens and proofs: \<^verbatim>\<open>wire/sha256.hpp\<close>, \<^verbatim>\<open>wire/hmac_sha256.hpp\<close>, the software
  half of \<^verbatim>\<open>core/crypto.hpp\<close> and the generators of \<^verbatim>\<open>core/rng.hpp\<close>.  The hasher is the object of the
  source with its partial block; it is shown to compute FIPS 180-4 SHA-256 of everything fed to it,
  however it was cut into pieces.
\<close>

section \<open>Definitions: SHA-256\<close>

definition rotr :: "u32 \<Rightarrow> nat \<Rightarrow> u32" where
  "rotr x n = drop_bit n x OR push_bit (32 - n) x"

definition kK :: "u32 list" where
  "kK =
    [0x428a2f98, 0x71374491, 0xb5c0fbcf, 0xe9b5dba5, 0x3956c25b, 0x59f111f1, 0x923f82a4, 0xab1c5ed5] @
    [0xd807aa98, 0x12835b01, 0x243185be, 0x550c7dc3, 0x72be5d74, 0x80deb1fe, 0x9bdc06a7, 0xc19bf174] @
    [0xe49b69c1, 0xefbe4786, 0x0fc19dc6, 0x240ca1cc, 0x2de92c6f, 0x4a7484aa, 0x5cb0a9dc, 0x76f988da] @
    [0x983e5152, 0xa831c66d, 0xb00327c8, 0xbf597fc7, 0xc6e00bf3, 0xd5a79147, 0x06ca6351, 0x14292967] @
    [0x27b70a85, 0x2e1b2138, 0x4d2c6dfc, 0x53380d13, 0x650a7354, 0x766a0abb, 0x81c2c92e, 0x92722c85] @
    [0xa2bfe8a1, 0xa81a664b, 0xc24b8b70, 0xc76c51a3, 0xd192e819, 0xd6990624, 0xf40e3585, 0x106aa070] @
    [0x19a4c116, 0x1e376c08, 0x2748774c, 0x34b0bcb5, 0x391c0cb3, 0x4ed8aa4a, 0x5b9cca4f, 0x682e6ff3] @
    [0x748f82ee, 0x78a5636f, 0x84c87814, 0x8cc70208, 0x90befffa, 0xa4506ceb, 0xbef9a3f7, 0xc67178f2]"

abbreviation (input) kDigestBytes :: nat where "kDigestBytes \<equiv> 32"
abbreviation (input) kBlockBytes :: nat where "kBlockBytes \<equiv> 64"

definition be_word :: "bytes \<Rightarrow> nat \<Rightarrow> u32" where
  "be_word block j = push_bit 24 (ucast (block ! j)) OR push_bit 16 (ucast (block ! (j + 1))) OR
     push_bit 8 (ucast (block ! (j + 2))) OR ucast (block ! (j + 3))"

definition schedule_next :: "u32 list \<Rightarrow> u32" where
  "schedule_next m =
    (let i = length m;
         s0 = rotr (m ! (i - 15)) 7 XOR rotr (m ! (i - 15)) 18 XOR drop_bit 3 (m ! (i - 15));
         s1 = rotr (m ! (i - 2)) 17 XOR rotr (m ! (i - 2)) 19 XOR drop_bit 10 (m ! (i - 2))
     in m ! (i - 16) + s0 + m ! (i - 7) + s1)"

definition schedule :: "bytes \<Rightarrow> u32 list" where
  "schedule block = foldl (\<lambda>m _. m @ [schedule_next m]) (map (\<lambda>i. be_word block (i * 4)) [0..<16]) [16..<64]"

type_synonym sha_vars = "u32 \<times> u32 \<times> u32 \<times> u32 \<times> u32 \<times> u32 \<times> u32 \<times> u32"

fun sha_round :: "u32 list \<Rightarrow> sha_vars \<Rightarrow> nat \<Rightarrow> sha_vars" where
  "sha_round m (a, b, c, d, e, f, g, h) i =
    (let ep1 = rotr e 6 XOR rotr e 11 XOR rotr e 25;
         ch = (e AND f) XOR (NOT e AND g);
         t1 = h + ep1 + ch + kK ! i + m ! i;
         ep0 = rotr a 2 XOR rotr a 13 XOR rotr a 22;
         maj = (a AND b) XOR (a AND c) XOR (b AND c);
         t2 = ep0 + maj
     in (t1 + t2, a, b, c, d + t1, e, f, g))"

fun sha_add :: "sha_vars \<Rightarrow> sha_vars \<Rightarrow> sha_vars" where
  "sha_add (a, b, c, d, e, f, g, h) (a', b', c', d', e', f', g', h') =
    (a + a', b + b', c + c', d + d', e + e', f + f', g + g', h + h')"

definition transform :: "sha_vars \<Rightarrow> bytes \<Rightarrow> sha_vars" where
  "transform st block = sha_add st (foldl (sha_round (schedule block)) st [0..<64])"

record Sha256 =
  sh_state :: sha_vars
  sh_bitlen :: u64
  sh_buf :: bytes
  sh_bufLen :: nat

definition sha_init :: sha_vars where
  "sha_init = (0x6a09e667, 0xbb67ae85, 0x3c6ef372, 0xa54ff53a, 0x510e527f, 0x9b05688c, 0x1f83d9ab, 0x5be0cd19)"

definition sha_reset :: "Sha256 \<Rightarrow> Sha256" where
  "sha_reset s = s \<lparr> sh_state := sha_init, sh_bitlen := 0, sh_bufLen := 0 \<rparr>"

definition Sha256_new :: Sha256 where
  "Sha256_new = sha_reset \<lparr> sh_state = sha_init, sh_bitlen = 0, sh_buf = replicate kBlockBytes 0, sh_bufLen = 0 \<rparr>"

text \<open>The loop over the full blocks of the caller's span; the second component is what is left.\<close>

fun sha_blocks :: "Sha256 \<Rightarrow> bytes \<Rightarrow> Sha256 \<times> bytes" where
  "sha_blocks s data =
    (if length data \<ge> kBlockBytes
     then sha_blocks (s \<lparr> sh_state := transform (sh_state s) (take kBlockBytes data),
                          sh_bitlen := sh_bitlen s + of_nat kBlockBytes * 8 \<rparr>) (drop kBlockBytes data)
     else (s, data))"

declare sha_blocks.simps [simp del]

definition sha_topup :: "bytes \<Rightarrow> Sha256 \<Rightarrow> Sha256 \<times> bytes" where
  "sha_topup data s =
    (if sh_bufLen s > 0 then
       let need = kBlockBytes - sh_bufLen s;
           n = (if length data < need then length data else need);
           s = s \<lparr> sh_buf := poke (sh_bufLen s) (take n data) (sh_buf s), sh_bufLen := sh_bufLen s + n \<rparr>
       in (if sh_bufLen s = kBlockBytes
           then s \<lparr> sh_state := transform (sh_state s) (sh_buf s), sh_bitlen := sh_bitlen s + of_nat kBlockBytes * 8,
                    sh_bufLen := 0 \<rparr>
           else s, drop n data)
     else (s, data))"

definition sha_update :: "bytes \<Rightarrow> Sha256 \<Rightarrow> Sha256" where
  "sha_update data s =
    (let (s, data) = sha_topup data s;
         (s, rest) = sha_blocks s data
     in if length rest > 0 then s \<lparr> sh_buf := poke 0 rest (sh_buf s), sh_bufLen := length rest \<rparr> else s)"

fun sha_digest :: "sha_vars \<Rightarrow> bytes" where
  "sha_digest (a, b, c, d, e, f, g, h) =
    concat (map (\<lambda>w. [ucast (drop_bit 24 w), ucast (drop_bit 16 w), ucast (drop_bit 8 w), ucast w]) [a, b, c, d, e, f, g, h])"

definition sha_final :: "Sha256 \<Rightarrow> bytes" where
  "sha_final s =
    (let i = sh_bufLen s;
         (st, buf) =
           (if sh_bufLen s < 56 then (sh_state s, poke i (0x80 # replicate (56 - (i + 1)) 0) (sh_buf s))
            else (transform (sh_state s) (poke i (0x80 # replicate (kBlockBytes - (i + 1)) 0) (sh_buf s)),
                  poke 0 (replicate 56 0) (poke i (0x80 # replicate (kBlockBytes - (i + 1)) 0) (sh_buf s))));
         bitlen = sh_bitlen s + of_nat (sh_bufLen s) * 8;
         buf = foldl (\<lambda>buf b. buf[63 - b := ucast (drop_bit (8 * b) bitlen)]) buf [0..<8]
     in sha_digest (transform st buf))"

definition sha_hash :: "bytes \<Rightarrow> bytes" where
  "sha_hash data = sha_final (sha_update data Sha256_new)"

section \<open>Definitions: HMAC and comparison\<close>

definition hmacSha256 :: "bytes \<Rightarrow> bytes \<Rightarrow> bytes" where
  "hmacSha256 key msg =
    (let k0 = replicate kBlockBytes 0;
         k = (if length key > kBlockBytes then poke 0 (sha_hash key) k0 else poke 0 key k0);
         ipad = map (\<lambda>i. k ! i XOR 0x36) [0..<kBlockBytes];
         opad = map (\<lambda>i. k ! i XOR 0x5C) [0..<kBlockBytes];
         innerHash = sha_final (sha_update msg (sha_update ipad Sha256_new))
     in sha_final (sha_update innerHash (sha_update opad Sha256_new)))"

definition pairingPinProof :: "bytes \<Rightarrow> bytes \<Rightarrow> bytes" where
  "pairingPinProof pinAscii nonce = take 16 (hmacSha256 pinAscii nonce)"

definition constantTimeEqual :: "bytes \<Rightarrow> bytes \<Rightarrow> bool" where
  "constantTimeEqual a b =
    (if length a \<noteq> length b then False
     else foldl (\<lambda>diff i. diff OR (a ! i XOR b ! i)) 0 [0..<length a] = 0)"

section \<open>Definitions: generators\<close>

definition XorShift32_new :: "u32 \<Rightarrow> u32" where
  "XorShift32_new seed = (if seed \<noteq> 0 then seed else 0xB007CAFE)"

definition xs_nextU32 :: "u32 \<Rightarrow> u32" where
  "xs_nextU32 s =
    (let x = s;
         x = x XOR push_bit 13 x;
         x = x XOR drop_bit 17 x;
         x = x XOR push_bit 5 x
     in x)"

fun xs_fill :: "nat \<Rightarrow> u32 \<Rightarrow> bytes \<times> u32" where
  "xs_fill 0 s = ([], s)"
| "xs_fill (Suc n) s = (let s' = xs_nextU32 s; (bs, s'') = xs_fill n s' in (ucast s' # bs, s''))"

section \<open>SHA-256 as specified\<close>

definition be64 :: "u64 \<Rightarrow> bytes" where
  "be64 x = map (\<lambda>b. ucast (drop_bit (8 * (7 - b)) x)) [0..<8]"

text \<open>FIPS 180-4, 5.1.1: a one bit, zeros, and the length of the message in bits.\<close>

definition sha_pad :: "bytes \<Rightarrow> bytes" where
  "sha_pad m = m @ [0x80] @ replicate ((119 - length m mod 64) mod 64) 0 @ be64 (of_nat (8 * length m))"

fun compress_all :: "sha_vars \<Rightarrow> bytes \<Rightarrow> sha_vars" where
  "compress_all st bs = (if length bs < 64 then st else compress_all (transform st (take 64 bs)) (drop 64 bs))"

declare compress_all.simps [simp del]

definition sha256_spec :: "bytes \<Rightarrow> bytes" where
  "sha256_spec m = sha_digest (compress_all sha_init (sha_pad m))"

lemma compress_all_block: "length b = 64 \<Longrightarrow> compress_all st (b @ bs) = compress_all (transform st b) bs"
  by (subst compress_all.simps) simp

lemma compress_all_short: "length bs < 64 \<Longrightarrow> compress_all st bs = st"
  by (subst compress_all.simps) simp

lemma compress_all_append:
  "length xs mod 64 = 0 \<Longrightarrow> compress_all st (xs @ ys) = compress_all (compress_all st xs) ys"
proof (induction st xs rule: compress_all.induct)
  case (1 st xs)
  show ?case
  proof (cases "length xs < 64")
    case True
    with 1(2) have "xs = []" by simp
    then show ?thesis by (simp add: compress_all_short)
  next
    case False
    then have "length (drop 64 xs) mod 64 = 0" using 1(2) by (simp add: le_mod_geq)
    from 1(1) [OF False this] False show ?thesis
      by (subst (1 2) compress_all.simps) (simp add: compress_all.simps [of st xs])
  qed
qed

text \<open>The hasher after the bytes \<open>pre @ part\<close>: whole blocks are compressed, the rest is in the buffer.\<close>

definition sha_holds :: "Sha256 \<Rightarrow> bytes \<Rightarrow> bytes \<Rightarrow> bool" where
  "sha_holds s pre part \<longleftrightarrow> length pre mod 64 = 0 \<and> length part < 64 \<and> length (sh_buf s) = 64 \<and>
     sh_bufLen s = length part \<and> take (length part) (sh_buf s) = part \<and>
     sh_bitlen s = of_nat (8 * length pre) \<and> sh_state s = compress_all sha_init pre"

lemma sha_holds_new: "sha_holds Sha256_new [] []"
  by (simp add: sha_holds_def Sha256_new_def sha_reset_def compress_all_short)

lemma sha_holds_block:
  assumes "sha_holds s pre part" and "length blk = 64"
  shows "sha_holds (s \<lparr> sh_state := transform (sh_state s) blk, sh_bitlen := sh_bitlen s + 512, sh_bufLen := 0, sh_buf := buf \<rparr>)
    (pre @ blk) [] \<longleftrightarrow> length buf = 64"
proof -
  have "compress_all sha_init (pre @ blk) = transform (compress_all sha_init pre) blk"
    using assms compress_all_block [of blk "compress_all sha_init pre" "[]"]
    by (simp add: sha_holds_def compress_all_append compress_all_short)
  moreover have "(length pre + 64) mod 64 = 0" using assms by (simp add: sha_holds_def)
  ultimately show ?thesis using assms by (auto simp: sha_holds_def algebra_simps)
qed

lemma sha_blocks_holds:
  "sha_holds s pre [] \<Longrightarrow> \<exists>blk rest s'. sha_blocks s data = (s', rest) \<and> data = blk @ rest \<and> length rest < 64 \<and>
    sha_holds s' (pre @ blk) []"
proof (induction s data arbitrary: pre rule: sha_blocks.induct)
  case (1 s data)
  show ?case
  proof (cases "length data \<ge> 64")
    case True
    let ?s = "s \<lparr> sh_state := transform (sh_state s) (take 64 data), sh_bitlen := sh_bitlen s + of_nat 64 * 8 \<rparr>"
    have "?s = s \<lparr> sh_state := transform (sh_state s) (take 64 data), sh_bitlen := sh_bitlen s + 512, sh_bufLen := 0,
        sh_buf := sh_buf s \<rparr>" using 1(2) by (simp add: sha_holds_def)
    then have "sha_holds ?s (pre @ take 64 data) []"
      using sha_holds_block [OF 1(2), of "take 64 data" "sh_buf s"] True 1(2) by (simp add: sha_holds_def)
    from 1(1) [OF True this] obtain blk rest s' where
      "sha_blocks ?s (drop 64 data) = (s', rest)" "drop 64 data = blk @ rest" "length rest < 64"
      "sha_holds s' ((pre @ take 64 data) @ blk) []" by blast
    moreover from this have "data = (take 64 data @ blk) @ rest" by (metis append.assoc append_take_drop_id)
    ultimately show ?thesis using True by (subst sha_blocks.simps) (auto intro!: exI [of _ "take 64 data @ blk"])
  next
    case False
    then show ?thesis using 1(2) by (subst sha_blocks.simps) auto
  qed
qed

lemma sha_topup_holds:
  assumes "sha_holds s pre part"
  shows "\<exists>s' pre' part' rest. sha_topup data s = (s', rest) \<and> sha_holds s' pre' part' \<and>
    pre @ part @ data = pre' @ part' @ rest \<and> (part' = [] \<or> rest = [])"
proof (cases "sh_bufLen s > 0")
  case True
  define n where "n = (if length data < 64 - sh_bufLen s then length data else 64 - sh_bufLen s)"
  define buf where "buf = poke (sh_bufLen s) (take n data) (sh_buf s)"
  have l: "sh_bufLen s = length part" "length part < 64" "length (sh_buf s) = 64" "take (length part) (sh_buf s) = part"
    using assms by (simp_all add: sha_holds_def)
  have n: "n \<le> length data" "length part + n \<le> 64" using l by (auto simp: n_def)
  have b: "length buf = 64" "take (length part + n) buf = part @ take n data"
    using l n by (simp_all add: buf_def poke_def)
  show ?thesis
  proof (cases "length part + n = 64")
    case full: True
    have "buf = part @ take n data" using b full by (metis take_all order_refl)
    then have "sha_holds (s \<lparr> sh_state := transform (sh_state s) buf, sh_bitlen := sh_bitlen s + 512, sh_bufLen := 0,
        sh_buf := buf \<rparr>) (pre @ part @ take n data) []"
      using sha_holds_block [OF assms, of buf buf] b by simp
    moreover have "sha_topup data s = (s \<lparr> sh_state := transform (sh_state s) buf, sh_bitlen := sh_bitlen s + 512,
        sh_bufLen := 0, sh_buf := buf \<rparr>, drop n data)"
      unfolding sha_topup_def Let_def n_def [symmetric] buf_def [symmetric] using True full l(1) by simp
    moreover have "pre @ part @ data = (pre @ part @ take n data) @ [] @ drop n data" by simp
    ultimately show ?thesis by blast
  next
    case False
    have "n = length data" using False l by (auto simp: n_def split: if_splits)
    moreover have "sha_topup data s = (s \<lparr> sh_buf := buf, sh_bufLen := length part + n \<rparr>, drop n data)"
      unfolding sha_topup_def Let_def n_def [symmetric] buf_def [symmetric] using True False l(1) by simp
    moreover have "sha_holds (s \<lparr> sh_buf := buf, sh_bufLen := length part + n \<rparr>) pre (part @ data)"
      using assms b n False \<open>n = length data\<close> by (simp add: sha_holds_def)
    ultimately show ?thesis by (intro exI [of _ pre] exI [of _ "part @ data"] exI conjI) auto
  qed
next
  case False
  then have "part = []" using assms by (simp add: sha_holds_def)
  then show ?thesis using False assms by (intro exI [of _ s] exI [of _ pre] exI [of _ "[]"] exI [of _ data])
    (simp add: sha_topup_def)
qed

lemma sha_update_holds:
  assumes "sha_holds s pre part"
  shows "\<exists>pre' part'. sha_holds (sha_update data s) pre' part' \<and> pre' @ part' = pre @ part @ data"
proof -
  obtain s1 pre1 part1 rest where 1: "sha_topup data s = (s1, rest)" "sha_holds s1 pre1 part1"
    "pre @ part @ data = pre1 @ part1 @ rest" "part1 = [] \<or> rest = []"
    using sha_topup_holds [OF assms] by blast
  show ?thesis
  proof (cases "rest = []")
    case True
    then have "sha_update data s = s1" using 1(1) by (simp add: sha_update_def sha_blocks.simps [of s1 "[]"])
    then show ?thesis using 1 True by auto
  next
    case False
    then have "sha_holds s1 pre1 []" using 1 by simp
    from sha_blocks_holds [OF this, of rest] obtain blk rest' s2 where 2: "sha_blocks s1 rest = (s2, rest')"
      "rest = blk @ rest'" "length rest' < 64" "sha_holds s2 (pre1 @ blk) []" by blast
    have "sha_holds (sha_update data s) (pre1 @ blk) rest'"
      using 1(1) 2 by (auto simp: sha_update_def sha_holds_def poke_def)
    moreover have "(pre1 @ blk) @ rest' = pre @ part @ data" using 1 2 False by auto
    ultimately show ?thesis by blast
  qed
qed

lemma sha_updates_hold:
  assumes "sha_holds s pre part"
  shows "\<exists>pre' part'. sha_holds (foldl (\<lambda>s d. sha_update d s) s chunks) pre' part' \<and>
    pre' @ part' = pre @ part @ concat chunks"
  using assms
proof (induction chunks arbitrary: s pre part)
  case (Cons d chunks)
  from sha_update_holds [OF Cons.prems] obtain pre1 part1 where
    "sha_holds (sha_update d s) pre1 part1" "pre1 @ part1 = pre @ part @ d" by blast
  with Cons.IH [of "sha_update d s" pre1 part1] show ?case by (metis append.assoc concat.simps(2) foldl_Cons)
qed auto

lemma be64_loop:
  assumes "length us = 56" and "length vs = 8"
  shows "foldl (\<lambda>buf b. buf[63 - b := ucast (drop_bit (8 * b) x)]) (us @ vs) [0..<8] = us @ be64 x"
proof -
  have e: "[0..<8] = [0, 1, 2, 3, 4, 5, 6, 7]" by (simp add: upt_rec)
  from assms(2) obtain a b c d e f g h where "vs = [a, b, c, d, e, f, g, h]" by (auto simp: list_lengths)
  then show ?thesis using assms(1) by (simp add: e be64_def list_update_append)
qed

lemma sha_final_pad:
  assumes "sha_holds s pre part"
  shows "sha_final s = sha256_spec (pre @ part)"
proof -
  let ?n = "length part" and ?x = "of_nat (8 * (length pre + length part)) :: u64"
  have l: "?n < 64" "length pre mod 64 = 0" "length (sh_buf s) = 64" "sh_bufLen s = ?n" "take ?n (sh_buf s) = part"
    "sh_state s = compress_all sha_init pre"
    using assms by (simp_all add: sha_holds_def)
  have x: "sh_bitlen s + of_nat (sh_bufLen s) * 8 = ?x" using assms by (simp add: sha_holds_def algebra_simps)
  have m: "(length pre + ?n) mod 64 = ?n" using l by (metis add_0 mod_add_left_eq mod_less)
  have t: "transform (compress_all st pre) blk = compress_all st (pre @ blk)" if "length blk = 64" for st blk
    using that l(2) compress_all_block [of blk "compress_all st pre" "[]"]
    by (simp add: compress_all_append compress_all_short)
  show ?thesis
  proof (cases "?n < 56")
    case True
    let ?z = "replicate (55 - ?n) 0 :: bytes"
    have b: "poke ?n (0x80 # replicate (55 - ?n) 0) (sh_buf s) = (part @ 0x80 # ?z) @ drop 56 (sh_buf s)"
      using l True by (simp add: poke_def)
    have "(119 - ?n) mod 64 = 55 - ?n" using True by (simp add: le_mod_geq)
    then have p: "sha_pad (pre @ part) = pre @ (part @ 0x80 # ?z) @ be64 ?x"
      by (simp add: sha_pad_def m)
    have "sha_final s = sha_digest (transform (compress_all sha_init pre) ((part @ 0x80 # ?z) @ be64 ?x))"
      unfolding sha_final_def Let_def x using l True be64_loop [of "part @ 0x80 # ?z" "drop 56 (sh_buf s)" ?x]
      by (simp add: b)
    also have "\<dots> = sha256_spec (pre @ part)" unfolding sha256_spec_def p
      using True by (subst t) (simp_all add: be64_def)
    finally show ?thesis .
  next
    case False
    let ?b1 = "part @ 0x80 # replicate (63 - ?n) 0 :: bytes" and ?b2 = "replicate 56 0 @ be64 ?x"
    have b: "poke ?n (0x80 # replicate (63 - ?n) 0) (sh_buf s) = ?b1" using l by (simp add: poke_def)
    have b2: "poke 0 (replicate 56 0) ?b1 = replicate 56 0 @ drop 56 ?b1" by (simp add: poke_def)
    have l1: "length ?b1 = 64" using l by simp
    have "(119 - ?n) = 63 - ?n + 56" "(63 - ?n + 56) mod 64 = 63 - ?n + 56" using False l(1) by auto
    then have "replicate ((119 - ?n) mod 64) (0 :: byte) = replicate (63 - ?n) 0 @ replicate 56 0"
      by (simp only: replicate_add)
    then have p: "sha_pad (pre @ part) = pre @ ?b1 @ ?b2" by (simp add: sha_pad_def m)
    have "sha_final s = sha_digest (transform (transform (compress_all sha_init pre) ?b1) ?b2)"
      unfolding sha_final_def Let_def x
      using l l1 False be64_loop [of "replicate 56 0" "drop 56 ?b1" ?x] b b2 by simp
    also have "\<dots> = sha256_spec (pre @ part)" unfolding sha256_spec_def p
      using l1 compress_all_block [OF l1, of "compress_all sha_init pre"] compress_all_block [of ?b2 _ "[]"] l(2)
      by (simp add: compress_all_append compress_all_short be64_def)
    finally show ?thesis .
  qed
qed

lemma sha_chunks: "sha_final (foldl (\<lambda>s d. sha_update d s) Sha256_new chunks) = sha256_spec (concat chunks)"
  using sha_updates_hold [OF sha_holds_new, of chunks] sha_final_pad by fastforce

lemma sha_hash_spec: "sha_hash m = sha256_spec m"
  using sha_chunks [of "[m]"] by (simp add: sha_hash_def)

lemma length_sha256_spec [simp]: "length (sha256_spec m) = 32"
  unfolding sha256_spec_def by (cases "compress_all sha_init (sha_pad m)" rule: sha_digest.cases) simp

lemma sha_two: "sha_final (sha_update y (sha_update x Sha256_new)) = sha256_spec (x @ y)"
  using sha_chunks [of "[x, y]"] by simp

lemma length_hmacSha256 [simp]: "length (hmacSha256 key msg) = 32"
  by (simp add: hmacSha256_def sha_two Let_def)

lemma length_pairingPinProof [simp]: "length (pairingPinProof pin nonce) = 16"
  by (simp add: pairingPinProof_def)

section \<open>Constant-time comparison\<close>

lemma xor_zero_iff: "x XOR y = 0 \<longleftrightarrow> x = y" for x y :: "'a::len word"
proof
  assume "x XOR y = 0"
  moreover have "x = (x XOR y) XOR y" by (simp add: xor.assoc)
  ultimately show "x = y" by simp
qed simp

lemma fold_or_zero:
  "foldl (\<lambda>d i. d OR f i) (d0 :: u8) is = 0 \<longleftrightarrow> d0 = 0 \<and> (\<forall>i \<in> set is. f i = 0)"
  by (induction "is" arbitrary: d0) (auto simp: or_eq_0_iff)

lemma constantTimeEqual_eq [simp]: "constantTimeEqual a b \<longleftrightarrow> a = b"
proof (cases "length a = length b")
  case True
  then have "a = b \<longleftrightarrow> (\<forall>i < length a. a ! i = b ! i)" by (simp add: list_eq_iff_nth_eq)
  then show ?thesis using True by (auto simp: constantTimeEqual_def fold_or_zero xor_zero_iff)
qed (auto simp: constantTimeEqual_def)

section \<open>The xorshift generator\<close>

lemma xor_push_zero:
  fixes x :: u32
  assumes "x XOR push_bit n x = 0" and "0 < n"
  shows "x = 0"
proof -
  have "x = push_bit n x" using assms(1) by (simp only: xor_zero_iff)
  then have "x = push_bit (n * k) x" for k
    by (induction k) (simp_all flip: push_bit_push_bit)
  from this [of 32] have "x = push_bit (n * 32) x" .
  moreover have "push_bit (n * 32) x = 0" using assms(2) by (intro bit_word_eqI) (auto simp: bit_simps)
  ultimately show ?thesis by simp
qed

lemma xor_drop_zero:
  fixes x :: u32
  assumes "x XOR drop_bit n x = 0" and "0 < n"
  shows "x = 0"
proof -
  have "x = drop_bit n x" using assms(1) by (simp only: xor_zero_iff)
  then have "x = drop_bit (n * k) x" for k
    by (induction k) (simp_all flip: drop_bit_drop_bit)
  from this [of 32] have "x = drop_bit (n * 32) x" .
  moreover have "drop_bit (n * 32) x = 0" using assms(2) by (intro bit_word_eqI) (auto simp: bit_simps)
  ultimately show ?thesis by simp
qed

lemma xs_linear: "xs_nextU32 (x XOR y) = xs_nextU32 x XOR xs_nextU32 y"
  by (simp add: xs_nextU32_def Let_def push_bit_xor drop_bit_xor ac_simps)

lemma xs_nonzero: "xs_nextU32 x = 0 \<longleftrightarrow> x = 0"
  using xor_push_zero [of x 13] xor_drop_zero [of "x XOR push_bit 13 x" 17]
    xor_push_zero [of "(x XOR push_bit 13 x) XOR drop_bit 17 (x XOR push_bit 13 x)" 5]
  by (auto simp: xs_nextU32_def Let_def)

section \<open>Properties\<close>

text \<open>(C35) The incremental hasher computes SHA-256: whatever the message is and however it is cut into pieces (empty
  ones included), feeding the pieces one by one and finalising gives the FIPS 180-4 digest of the whole message,
  padded and cut into blocks in one go; and the HMAC built from it is that of RFC 2104, keys longer than a block
  being hashed first.\<close>
theorem sha256_any_chunking:
  "sha_final (foldl (\<lambda>s d. sha_update d s) Sha256_new chunks) = sha256_spec (concat chunks) \<and>
   (let key' = (if length key > 64 then sha256_spec key else key);
        pad = (\<lambda>c. map (\<lambda>b. b XOR c) (key' @ replicate (64 - length key') 0)) in
     hmacSha256 key msg = sha256_spec (pad 0x5C @ sha256_spec (pad 0x36 @ msg)))"
proof -
  have k: "map (\<lambda>i. xs ! i XOR c) [0..<64] = map (\<lambda>b. b XOR c) xs" if "length xs = 64" for xs :: bytes and c
    using that by (intro nth_equalityI) simp_all
  have "poke 0 xs (replicate 64 0) = xs @ replicate (64 - length xs) 0" for xs :: bytes by (simp add: poke_def)
  then show ?thesis by (simp add: sha_chunks hmacSha256_def sha_two sha_hash_spec Let_def k)
qed

text \<open>The seeded generator never sticks: from any seed its state is never zero, and distinct states have
  distinct successors, so the sequence is a cycle through non-zero states.\<close>
theorem xorshift_never_sticks:
  "(xs_nextU32 ^^ n) (XorShift32_new seed) \<noteq> 0 \<and> inj xs_nextU32"
proof
  show "(xs_nextU32 ^^ n) (XorShift32_new seed) \<noteq> 0"
    by (induction n) (simp_all add: XorShift32_new_def xs_nonzero)
  show "inj xs_nextU32"
  proof
    fix x y :: u32
    assume "xs_nextU32 x = xs_nextU32 y"
    then have "xs_nextU32 (x XOR y) = 0" by (simp add: xs_linear)
    then show "x = y" by (simp add: xs_nonzero xor_zero_iff)
  qed
qed

end
