(* ===== verification/Pairing.thy ===== *)
theory Pairing
  imports Authority Crypto_Core
begin

text \<open>
  Pairing and trust, \<^verbatim>\<open>session/pairing.hpp\<close>: the bounded list of pending knocks, the trust ledger, the PIN
  and presence windows, the PIN ceremony, token and proof validation and the version tripwire.
  \<^item> A \<open>BoundedString<N>\<close> (\<^verbatim>\<open>util/bounded_string.hpp\<close>) is the bytes of its view.
  \<^item> A pointer into a table is the index of the slot; callbacks are the list of the arguments they are
    called with.
  \<^item> \<open>ICrypto\<close> is the record of the two operations this component calls; \<open>fresh\<close> is what
    \<open>rng.fill\<close> writes into the token.
\<close>

section \<open>Definitions: bounded strings\<close>

definition bs_assign :: "nat \<Rightarrow> bytes \<Rightarrow> bytes" where
  "bs_assign n s = take (if length s < n then length s else n) s"

definition bs_sameAs :: "nat \<Rightarrow> bytes \<Rightarrow> bytes \<Rightarrow> bool" where
  "bs_sameAs n v s = ((if length s < n then length s else n) = length v \<and> v = take (length v) s)"

definition kLedgerKindMaxBytes :: nat where "kLedgerKindMaxBytes = 16"
definition kLedgerNameMaxBytes :: nat where "kLedgerNameMaxBytes = 16"
definition kLedgerVersionMaxBytes :: nat where "kLedgerVersionMaxBytes = 24"

abbreviation (input) instance_bytes :: nat where "instance_bytes \<equiv> 8"
abbreviation (input) secret_bytes :: nat where "secret_bytes \<equiv> 16"
abbreviation (input) pairing_pending_max :: nat where "pairing_pending_max \<equiv> 4"
abbreviation (input) paired_devices_max :: nat where "paired_devices_max \<equiv> 8"
abbreviation (input) pairing_window_ms :: u32 where "pairing_window_ms \<equiv> 120000"

abbreviation (input) mode_knock_approve :: u8 where "mode_knock_approve \<equiv> 1"
abbreviation (input) mode_pin_proof :: u8 where "mode_pin_proof \<equiv> 2"
abbreviation (input) mode_push_to_pair :: u8 where "mode_push_to_pair \<equiv> 4"
abbreviation (input) ts_trusted :: u8 where "ts_trusted \<equiv> 0"
abbreviation (input) ts_recognized_pending :: u8 where "ts_recognized_pending \<equiv> 1"

section \<open>Definitions: pending knocks\<close>

record PendingKnock =
  pk_instance_id :: bytes
  pk_session_id :: u32
  pk_expiresAtMs :: u32
  pk_mode :: u8
  pk_kind :: bytes
  pk_name :: bytes
  pk_version :: bytes
  pk_reapproval :: bool
  pk_used :: bool

definition PendingKnock_new :: PendingKnock where
  "PendingKnock_new = \<lparr> pk_instance_id = replicate instance_bytes 0, pk_session_id = 0, pk_expiresAtMs = 0,
     pk_mode = mode_knock_approve, pk_kind = [], pk_name = [], pk_version = [], pk_reapproval = False, pk_used = False \<rparr>"

type_synonym PendingPairingList = "PendingKnock list"

definition PendingPairingList_new :: PendingPairingList where
  "PendingPairingList_new = replicate pairing_pending_max PendingKnock_new"

definition pp_find :: "bytes \<Rightarrow> PendingPairingList \<Rightarrow> nat option" where
  "pp_find inst t =
    (if length inst \<noteq> instance_bytes then None else find_index (\<lambda>e. pk_used e \<and> pk_instance_id e = inst) t)"

definition pp_fill :: "nat \<Rightarrow> u32 \<Rightarrow> u32 \<Rightarrow> u8 \<Rightarrow> PendingPairingList \<Rightarrow> PendingPairingList" where
  "pp_fill i sess expires mode t =
    t[i := (t ! i) \<lparr> pk_used := True, pk_session_id := sess, pk_expiresAtMs := expires, pk_mode := mode \<rparr>]"

definition pp_add :: "bytes \<Rightarrow> u32 \<Rightarrow> u32 \<Rightarrow> u8 \<Rightarrow> PendingPairingList \<Rightarrow> nat option \<times> PendingPairingList" where
  "pp_add inst sess expires mode t =
    (case pp_find inst t of
       Some i \<Rightarrow> (Some i, pp_fill i sess expires mode t)
     | None \<Rightarrow>
         (case find_index (\<lambda>e. \<not> pk_used e) t of
            None \<Rightarrow> (None, t)
          | Some i \<Rightarrow> (Some i, pp_fill i sess expires mode (t[i := PendingKnock_new \<lparr> pk_instance_id := inst \<rparr>]))))"

definition pp_remove :: "bytes \<Rightarrow> PendingPairingList \<Rightarrow> bool \<times> PendingPairingList" where
  "pp_remove inst t = (case pp_find inst t of None \<Rightarrow> (False, t) | Some i \<Rightarrow> (True, t[i := PendingKnock_new]))"

fun pp_expire :: "u32 \<Rightarrow> PendingPairingList \<Rightarrow> PendingKnock list \<times> PendingPairingList" where
  "pp_expire now [] = ([], [])"
| "pp_expire now (e # t) =
    (let (fired, t') = pp_expire now t in
     if \<not> pk_used e \<or> \<not> timeReached now (pk_expiresAtMs e) then (fired, e # t')
     else (e # fired, PendingKnock_new # t'))"

fun pp_dropBySession :: "u32 \<Rightarrow> PendingPairingList \<Rightarrow> PendingKnock list \<times> PendingPairingList" where
  "pp_dropBySession sess [] = ([], [])"
| "pp_dropBySession sess (e # t) =
    (let (fired, t') = pp_dropBySession sess t in
     if \<not> pk_used e \<or> pk_session_id e \<noteq> sess then (fired, e # t')
     else (e # fired, PendingKnock_new # t'))"

definition pp_count :: "PendingPairingList \<Rightarrow> nat" where
  "pp_count t = foldl (\<lambda>n e. if pk_used e then n + 1 else n) 0 t"

section \<open>Definitions: the ledger\<close>

record PairedEntry =
  pe_instance_id :: bytes
  pe_token :: bytes
  pe_role :: AccessLevel
  pe_state :: u8
  pe_presentationMode :: u8
  pe_pairingMode :: u8
  pe_kind :: bytes
  pe_name :: bytes
  pe_version :: bytes
  pe_firstSeen :: u32
  pe_lastSeen :: u32
  pe_used :: bool

definition PairedEntry_new :: PairedEntry where
  "PairedEntry_new = \<lparr> pe_instance_id = replicate instance_bytes 0, pe_token = replicate secret_bytes 0, pe_role = control,
     pe_state = ts_trusted, pe_presentationMode = 0, pe_pairingMode = mode_knock_approve, pe_kind = [], pe_name = [],
     pe_version = [], pe_firstSeen = 0, pe_lastSeen = 0, pe_used = False \<rparr>"

record PairingManager =
  pm_entries :: "PairedEntry list"
  pm_pending :: PendingPairingList
  pm_pin :: bytes
  pm_windowOpenedMs :: u32
  pm_presenceOpenedMs :: u32
  pm_wallSeconds :: u32
  pm_generation :: u16
  pm_presenceDefaultRole :: AccessLevel
  pm_autoKeepMax :: AccessLevel
  pm_windowOpen :: bool
  pm_presenceOpen :: bool
  pm_knockApproveEnabled :: bool
  pm_dirty :: bool
  pm_failCount :: u8

definition PairingManager_new :: PairingManager where
  "PairingManager_new = \<lparr> pm_entries = replicate paired_devices_max PairedEntry_new, pm_pending = PendingPairingList_new,
     pm_pin = [], pm_windowOpenedMs = 0, pm_presenceOpenedMs = 0, pm_wallSeconds = 0, pm_generation = 1,
     pm_presenceDefaultRole = control, pm_autoKeepMax = watch, pm_windowOpen = False, pm_presenceOpen = False,
     pm_knockApproveEnabled = True, pm_dirty = False, pm_failCount = 0 \<rparr>"

definition touch :: "PairingManager \<Rightarrow> PairingManager" where
  "touch m = m \<lparr> pm_generation := pm_generation m + 1, pm_dirty := True \<rparr>"

definition findByInstance :: "bytes \<Rightarrow> PairingManager \<Rightarrow> nat option" where
  "findByInstance inst m =
    (if length inst \<noteq> instance_bytes then None
     else find_index (\<lambda>e. pe_used e \<and> pe_instance_id e = inst) (pm_entries m))"

definition openWindow :: "bytes \<Rightarrow> u32 \<Rightarrow> PairingManager \<Rightarrow> PairingManager" where
  "openWindow pin now m = m \<lparr> pm_pin := pin, pm_windowOpenedMs := now, pm_windowOpen := True, pm_failCount := 0 \<rparr>"

definition closeWindow :: "PairingManager \<Rightarrow> PairingManager" where
  "closeWindow m = m \<lparr> pm_windowOpen := False \<rparr>"

definition windowOpen :: "u32 \<Rightarrow> PairingManager \<Rightarrow> bool" where
  "windowOpen now m =
    (if \<not> pm_windowOpen m then False else \<not> timeReached now (pm_windowOpenedMs m + pairing_window_ms))"

definition openPresenceWindow :: "u32 \<Rightarrow> PairingManager \<Rightarrow> PairingManager" where
  "openPresenceWindow now m = m \<lparr> pm_presenceOpenedMs := now, pm_presenceOpen := True \<rparr>"

definition closePresenceWindow :: "PairingManager \<Rightarrow> PairingManager" where
  "closePresenceWindow m = m \<lparr> pm_presenceOpen := False \<rparr>"

definition presenceWindowOpen :: "u32 \<Rightarrow> PairingManager \<Rightarrow> bool" where
  "presenceWindowOpen now m =
    (if \<not> pm_presenceOpen m then False else \<not> timeReached now (pm_presenceOpenedMs m + pairing_window_ms))"

definition hasConfigureToken :: "PairingManager \<Rightarrow> bool" where
  "hasConfigureToken m = list_ex (\<lambda>e. pe_used e \<and> pe_role e = configure) (pm_entries m)"

definition presenceGrantRole :: "PairingManager \<Rightarrow> AccessLevel" where
  "presenceGrantRole m = (if hasConfigureToken m then pm_presenceDefaultRole m else configure)"

definition offeredModes :: "u32 \<Rightarrow> PairingManager \<Rightarrow> u8" where
  "offeredModes now m =
    (let o0 = 0;
         o1 = (if pm_knockApproveEnabled m then o0 OR mode_knock_approve else o0);
         o2 = (if windowOpen now m then o1 OR mode_pin_proof else o1)
     in if presenceWindowOpen now m then o2 OR mode_push_to_pair else o2)"

definition pm_mint :: "nat \<Rightarrow> AccessLevel \<Rightarrow> u8 \<Rightarrow> bytes \<Rightarrow> PairingManager \<Rightarrow> PairingManager" where
  "pm_mint i role mode fresh m =
    touch (m \<lparr> pm_entries := (pm_entries m)[i := (pm_entries m ! i) \<lparr> pe_used := True, pe_token := fresh,
      pe_role := role, pe_pairingMode := mode, pe_state := ts_trusted, pe_lastSeen := pm_wallSeconds m \<rparr>] \<rparr>)"

text \<open>The result is the entry's index (the returned pointer); the token handed out is the entry's.\<close>

definition pm_grant :: "bytes \<Rightarrow> AccessLevel \<Rightarrow> u8 \<Rightarrow> bytes \<Rightarrow> PairingManager \<Rightarrow> nat option \<times> PairingManager" where
  "pm_grant inst role mode fresh m =
    (if length inst \<noteq> instance_bytes then (None, m)
     else case findByInstance inst m of
       Some i \<Rightarrow> (Some i, pm_mint i role mode fresh m)
     | None \<Rightarrow>
         (case find_index (\<lambda>e. \<not> pe_used e) (pm_entries m) of
            None \<Rightarrow> (None, m)
          | Some i \<Rightarrow> (Some i, pm_mint i role mode fresh
              (m \<lparr> pm_entries := (pm_entries m)[i := PairedEntry_new \<lparr> pe_instance_id := inst,
                 pe_firstSeen := pm_wallSeconds m \<rparr>] \<rparr>))))"

section \<open>Definitions: ceremonies and validation\<close>

record ICrypto =
  cr_hmacSha256 :: "bytes \<Rightarrow> bytes \<Rightarrow> bytes option"
  cr_constantTimeEqual :: "bytes \<Rightarrow> bytes \<Rightarrow> bool"

definition SoftwareCrypto :: ICrypto where
  "SoftwareCrypto = \<lparr> cr_hmacSha256 = \<lambda>key msg. Some (hmacSha256 key msg), cr_constantTimeEqual = constantTimeEqual \<rparr>"

datatype PairOutcome = Granted | Denied | WindowClosed

definition handlePairReq ::
  "ICrypto \<Rightarrow> bytes \<Rightarrow> bytes \<Rightarrow> bytes \<Rightarrow> bytes \<Rightarrow> u32 \<Rightarrow> AccessLevel \<Rightarrow> PairingManager \<Rightarrow> PairOutcome \<times> PairingManager" where
  "handlePairReq crypto inst pin_proof nonce fresh now grantRole m =
    (if \<not> windowOpen now m then (WindowClosed, m)
     else if length inst \<noteq> instance_bytes then (Denied, m)
     else
       let expected = pairingPinProof (pm_pin m) nonce in
       if \<not> cr_constantTimeEqual crypto pin_proof expected then
         let m = m \<lparr> pm_failCount := pm_failCount m + 1 \<rparr> in
         (Denied, if pm_failCount m \<ge> 3 then m \<lparr> pm_windowOpen := False \<rparr> else m)
       else
         case pm_grant inst grantRole mode_pin_proof fresh m of
           (None, m) \<Rightarrow> (Denied, m)
         | (Some i, m) \<Rightarrow> (Granted, m \<lparr> pm_failCount := 0 \<rparr>))"

definition validate :: "ICrypto \<Rightarrow> bytes \<Rightarrow> bytes \<Rightarrow> PairingManager \<Rightarrow> AccessLevel" where
  "validate crypto inst token m =
    (if length token \<noteq> secret_bytes then watch
     else case findByInstance inst m of
       None \<Rightarrow> watch
     | Some i \<Rightarrow>
         let e = pm_entries m ! i in
         if \<not> cr_constantTimeEqual crypto (pe_token e) token then watch
         else if pe_state e = ts_recognized_pending then watch
         else pe_role e)"

text \<open>The second component is \<open>*proofMatched\<close>.\<close>

definition validateProof :: "ICrypto \<Rightarrow> bytes \<Rightarrow> bytes \<Rightarrow> bytes \<Rightarrow> PairingManager \<Rightarrow> AccessLevel \<times> bool" where
  "validateProof crypto inst proof nonce m =
    (if length proof \<noteq> 16 then (watch, False)
     else if length nonce \<noteq> 8 then (watch, False)
     else case findByInstance inst m of
       None \<Rightarrow> (watch, False)
     | Some i \<Rightarrow>
         let e = pm_entries m ! i in
         (case cr_hmacSha256 crypto (pe_token e) nonce of
            None \<Rightarrow> (watch, False)
          | Some mac \<Rightarrow>
              if \<not> cr_constantTimeEqual crypto (take 16 mac) proof then (watch, False)
              else if pe_state e = ts_recognized_pending then (watch, True)
              else (pe_role e, True)))"

record HelloObservation =
  ho_known :: bool
  ho_versionChanged :: bool
  ho_suspended :: bool
  ho_effectiveRole :: AccessLevel
  ho_suspendedRole :: AccessLevel

definition HelloObservation_new :: HelloObservation where
  "HelloObservation_new = \<lparr> ho_known = False, ho_versionChanged = False, ho_suspended = False,
     ho_effectiveRole = watch, ho_suspendedRole = watch \<rparr>"

definition setEntry :: "nat \<Rightarrow> PairedEntry \<Rightarrow> PairingManager \<Rightarrow> PairingManager" where
  "setEntry i e m = m \<lparr> pm_entries := (pm_entries m)[i := e] \<rparr>"

definition observeHello ::
  "bytes \<Rightarrow> bytes \<Rightarrow> bytes \<Rightarrow> bytes \<Rightarrow> bool \<Rightarrow> u8 \<Rightarrow> PairingManager \<Rightarrow> HelloObservation \<times> PairingManager" where
  "observeHello inst client_kind client_name client_ver hasClientVer presentationMode m =
    (case findByInstance inst m of
       None \<Rightarrow> (HelloObservation_new, m)
     | Some i \<Rightarrow>
         let e = (pm_entries m ! i) \<lparr> pe_kind := bs_assign kLedgerKindMaxBytes client_kind,
                   pe_name := bs_assign kLedgerNameMaxBytes client_name,
                   pe_presentationMode := presentationMode, pe_lastSeen := pm_wallSeconds m \<rparr>;
             out = HelloObservation_new \<lparr> ho_known := True, ho_suspendedRole := pe_role e \<rparr>;
             alreadySuspended = (pe_state e = ts_recognized_pending);
             (out, e, m) =
               (if hasClientVer \<and> \<not> bs_sameAs kLedgerVersionMaxBytes (pe_version e) client_ver \<and> pe_version e \<noteq> [] \<and>
                   \<not> alreadySuspended then
                  (if role_u8 (pe_role e) \<le> role_u8 (pm_autoKeepMax m)
                   then (out \<lparr> ho_versionChanged := True \<rparr>,
                         e \<lparr> pe_version := bs_assign kLedgerVersionMaxBytes client_ver \<rparr>, touch m)
                   else (out \<lparr> ho_versionChanged := True, ho_suspended := True \<rparr>,
                         e \<lparr> pe_state := ts_recognized_pending \<rparr>, touch m))
                else if hasClientVer \<and> pe_version e = []
                then (out, e \<lparr> pe_version := bs_assign kLedgerVersionMaxBytes client_ver \<rparr>, touch m)
                else if \<not> alreadySuspended then (out, e, m \<lparr> pm_dirty := True \<rparr>)
                else (out, e, m))
         in (out \<lparr> ho_effectiveRole := (if pe_state e = ts_recognized_pending then watch else pe_role e) \<rparr>,
             setEntry i e m))"

definition revoke :: "bytes \<Rightarrow> PairingManager \<Rightarrow> bool \<times> PairingManager" where
  "revoke inst m =
    (case findByInstance inst m of
       None \<Rightarrow> (False, m)
     | Some i \<Rightarrow> (True, touch (setEntry i PairedEntry_new m)))"

definition entryCount :: "PairingManager \<Rightarrow> nat" where
  "entryCount m = foldl (\<lambda>n e. if pe_used e then n + 1 else n) 0 (pm_entries m)"

definition importEntry :: "PairedEntry \<Rightarrow> PairingManager \<Rightarrow> bool \<times> PairingManager" where
  "importEntry e m =
    (case find_index (\<lambda>e. \<not> pe_used e) (pm_entries m) of
       None \<Rightarrow> (False, m)
     | Some i \<Rightarrow> (True, touch (setEntry i (e \<lparr> pe_used := True \<rparr>) m)))"

section \<open>Who is trusted\<close>

text \<open>The ledger as a map: a device's token, its role, and whether the role is suspended.\<close>

definition trust_of :: "PairedEntry \<Rightarrow> bytes \<times> AccessLevel \<times> bool" where
  "trust_of e = (pe_token e, pe_role e, pe_state e = ts_recognized_pending)"

definition trust :: "PairingManager \<Rightarrow> bytes \<Rightarrow> (bytes \<times> AccessLevel \<times> bool) option" where
  "trust m inst = map_option trust_of (sfind pe_used pe_instance_id (pm_entries m) inst)"

definition pm_inv :: "PairingManager \<Rightarrow> bool" where
  "pm_inv m \<longleftrightarrow> length (pm_entries m) = paired_devices_max \<and> slots_ok pe_used pe_instance_id (pm_entries m) \<and>
     (\<forall>e \<in> set (pm_entries m). pe_used e \<longrightarrow> length (pe_instance_id e) = instance_bytes)"

lemma pm_inv_new: "pm_inv PairingManager_new" "trust PairingManager_new inst = None"
  by (auto simp: pm_inv_def PairingManager_new_def PairedEntry_new_def trust_def sfind_None intro!: slots_ok_unused)

lemma trust_length: "pm_inv m \<Longrightarrow> trust m inst \<noteq> None \<Longrightarrow> length inst = instance_bytes"
  by (auto simp: trust_def pm_inv_def sfind_None dest!: sfind_None [THEN iffD2, rotated])

lemma findByInstance_cases [consumes 1, case_names known unknown]:
  assumes "pm_inv m"
  obtains i where "findByInstance inst m = Some i" "i < length (pm_entries m)" "pe_used (pm_entries m ! i)"
      "pe_instance_id (pm_entries m ! i) = inst" "trust m inst = Some (trust_of (pm_entries m ! i))" "length inst = instance_bytes"
    | "findByInstance inst m = None" "trust m inst = None"
proof (cases rule: sfind_cases [of pe_used pe_instance_id inst "pm_entries m"])
  case (found i)
  then have "length inst = instance_bytes" using assms by (auto simp: pm_inv_def)
  with found show thesis by (intro that(1) [of i]) (auto simp: findByInstance_def trust_def)
next
  case missing
  then show thesis by (intro that(2)) (auto simp: findByInstance_def trust_def)
qed

lemma pm_write:
  assumes "pm_inv m" and "i < length (pm_entries m)" and "pe_used e" and "length (pe_instance_id e) = instance_bytes"
    and "pe_used (pm_entries m ! i) \<and> pe_instance_id (pm_entries m ! i) = pe_instance_id e \<or>
         \<not> pe_used (pm_entries m ! i) \<and> trust m (pe_instance_id e) = None"
    and "pm_entries m' = (pm_entries m)[i := e]"
  shows "pm_inv m'" "trust m' = (trust m)(pe_instance_id e \<mapsto> trust_of e)"
proof -
  have ok: "slots_ok pe_used pe_instance_id (pm_entries m)" using assms(1) by (simp add: pm_inv_def)
  have c: "pe_used (pm_entries m ! i) \<and> pe_instance_id (pm_entries m ! i) = pe_instance_id e \<or>
      \<not> pe_used (pm_entries m ! i) \<and> sfind pe_used pe_instance_id (pm_entries m) (pe_instance_id e) = None"
    using assms(5) by (simp add: trust_def)
  have "\<forall>x \<in> set ((pm_entries m)[i := e]). pe_used x \<longrightarrow> length (pe_instance_id x) = instance_bytes"
    using assms(1,4) by (auto simp: pm_inv_def dest!: set_update_subset_insert [THEN subsetD])
  then show "pm_inv m'" using assms(1,6) slots_ok_put [OF ok, of i e] c by (auto simp: pm_inv_def)
  show "trust m' = (trust m)(pe_instance_id e \<mapsto> trust_of e)"
    using sfind_put [OF ok assms(2,3) c] by (simp add: trust_def fun_eq_iff assms(6))
qed

lemma pm_clear:
  assumes "pm_inv m" and "i < length (pm_entries m)" and "pe_used (pm_entries m ! i)"
    and "pe_instance_id (pm_entries m ! i) = inst" and "pm_entries m' = (pm_entries m)[i := PairedEntry_new]"
  shows "pm_inv m'" "trust m' = (trust m)(inst := None)"
proof -
  have ok: "slots_ok pe_used pe_instance_id (pm_entries m)" using assms(1) by (simp add: pm_inv_def)
  note c = sfind_clear [OF ok assms(2,3), of PairedEntry_new]
  have "\<forall>x \<in> set ((pm_entries m)[i := PairedEntry_new]). pe_used x \<longrightarrow> length (pe_instance_id x) = instance_bytes"
    using assms(1) by (auto simp: pm_inv_def PairedEntry_new_def dest!: set_update_subset_insert [THEN subsetD])
  then show "pm_inv m'" using assms(1,5) c by (simp add: pm_inv_def PairedEntry_new_def)
  show "trust m' = (trust m)(inst := None)" using c assms(4,5) by (simp add: trust_def fun_eq_iff PairedEntry_new_def)
qed

lemma pm_inv_entries: "pm_entries m' = pm_entries m \<Longrightarrow> pm_inv m' = pm_inv m \<and> trust m' = trust m"
  by (simp add: pm_inv_def trust_def fun_eq_iff)

lemma trust_touch [simp]: "pm_inv (touch m) = pm_inv m" "trust (touch m) = trust m" "pm_entries (touch m) = pm_entries m"
  by (simp_all add: touch_def pm_inv_def trust_def fun_eq_iff)

lemma pm_room: "pm_inv m \<Longrightarrow> card (dom (trust m)) < 8 \<longleftrightarrow> find_index (\<lambda>e. \<not> pe_used e) (pm_entries m) \<noteq> None"
proof -
  assume "pm_inv m"
  moreover have "dom (trust m) = dom (sfind pe_used pe_instance_id (pm_entries m))" by (auto simp: trust_def dom_def)
  ultimately show ?thesis
    using card_dom_sfind [of pe_used pe_instance_id "pm_entries m"] slots_used_le [of pe_used "pm_entries m"]
      no_free_slot [of pe_used "pm_entries m"] by (auto simp: pm_inv_def)
qed

text \<open>Granting succeeds exactly if the device is known or there is room, and then sets the device's entry.\<close>

lemma pm_grant_trust:
  assumes "pm_inv m"
  shows "if length inst = instance_bytes \<and> (trust m inst \<noteq> None \<or> card (dom (trust m)) < 8)
    then fst (pm_grant inst role mode fresh m) \<noteq> None \<and> pm_inv (snd (pm_grant inst role mode fresh m)) \<and>
      trust (snd (pm_grant inst role mode fresh m)) = (trust m)(inst \<mapsto> (fresh, role, False))
    else pm_grant inst role mode fresh m = (None, m)"
  using assms
proof (cases rule: findByInstance_cases [where inst = inst])
  case (known i)
  let ?e = "(pm_entries m ! i) \<lparr> pe_used := True, pe_token := fresh, pe_role := role, pe_pairingMode := mode,
    pe_state := ts_trusted, pe_lastSeen := pm_wallSeconds m \<rparr>"
  have "pm_inv (pm_mint i role mode fresh m)" "trust (pm_mint i role mode fresh m) = (trust m)(inst \<mapsto> (fresh, role, False))"
    using pm_write [OF assms known(2), of ?e "pm_mint i role mode fresh m"] known
    by (simp_all add: pm_mint_def trust_of_def)
  then show ?thesis using known by (simp add: pm_grant_def)
next
  case unknown
  show ?thesis
  proof (cases "find_index (\<lambda>e. \<not> pe_used e) (pm_entries m)")
    case None
    then show ?thesis using unknown pm_room [OF assms] by (auto simp: pm_grant_def)
  next
    case (Some i)
    from find_index_Some [OF Some] have i: "i < length (pm_entries m)" "\<not> pe_used (pm_entries m ! i)" by auto
    let ?m = "pm_mint i role mode fresh (m \<lparr> pm_entries := (pm_entries m)[i := PairedEntry_new \<lparr> pe_instance_id := inst,
      pe_firstSeen := pm_wallSeconds m \<rparr>] \<rparr>)"
    let ?e = "PairedEntry_new \<lparr> pe_instance_id := inst, pe_firstSeen := pm_wallSeconds m, pe_used := True,
      pe_token := fresh, pe_role := role, pe_pairingMode := mode, pe_state := ts_trusted, pe_lastSeen := pm_wallSeconds m \<rparr>"
    have "pm_entries ?m = (pm_entries m)[i := ?e]" using i by (simp add: pm_mint_def)
    then have "pm_inv ?m \<and> trust ?m = (trust m)(inst \<mapsto> (fresh, role, False))" if "length inst = instance_bytes"
      using pm_write [OF assms i(1), of ?e ?m] i unknown that by (simp add: trust_of_def)
    then show ?thesis using unknown Some pm_room [OF assms] by (simp add: pm_grant_def)
  qed
qed

lemma revoke_trust:
  assumes "pm_inv m"
  shows "pm_inv (snd (revoke inst m)) \<and> fst (revoke inst m) = (trust m inst \<noteq> None) \<and>
    trust (snd (revoke inst m)) = (trust m)(inst := None)"
  using assms
proof (cases rule: findByInstance_cases [where inst = inst])
  case (known i)
  then show ?thesis using pm_clear [OF assms known(2,3,4), of "touch (setEntry i PairedEntry_new m)"]
    by (simp add: revoke_def setEntry_def del: trust_touch(1,2))
next
  case unknown
  then show ?thesis using assms by (auto simp: revoke_def)
qed

text \<open>The tripwire only ever suspends: token and role of the device stay, other devices are untouched.\<close>

lemma observeHello_trust:
  assumes "pm_inv m" and "observeHello inst ck cn cv hv pmode m = (out, m')"
  shows "pm_inv m' \<and>
    (case trust m inst of
       None \<Rightarrow> m' = m \<and> out = HelloObservation_new
     | Some (tok, role, sus) \<Rightarrow>
         (\<exists>sus'. trust m' = (trust m)(inst \<mapsto> (tok, role, sus')) \<and> (sus' \<longleftrightarrow> sus \<or> ho_suspended out) \<and>
            (ho_suspended out \<longrightarrow> role_u8 (pm_autoKeepMax m) < role_u8 role) \<and>
            ho_known out \<and> ho_suspendedRole out = role \<and> ho_effectiveRole out = (if sus' then watch else role)))"
  using assms(1)
proof (cases rule: findByInstance_cases [where inst = inst])
  case (known i)
  define e0 where "e0 = (pm_entries m ! i) \<lparr> pe_kind := bs_assign kLedgerKindMaxBytes ck,
    pe_name := bs_assign kLedgerNameMaxBytes cn, pe_presentationMode := pmode, pe_lastSeen := pm_wallSeconds m \<rparr>"
  have *: "pm_inv (setEntry i e m1) \<and> trust (setEntry i e m1) = (trust m)(inst \<mapsto> trust_of e)"
    if "pe_used e" "pe_instance_id e = inst" "pm_entries m1 = pm_entries m" for e m1
    using pm_write [OF assms(1) known(2), of e "setEntry i e m1"] known that by (simp add: setEntry_def)
  have e0: "pe_used e0" "pe_instance_id e0 = inst" "trust m inst = Some (trust_of e0)"
    using known by (simp_all add: e0_def trust_of_def)
  note set = * [of "e0 \<lparr> pe_version := v \<rparr>" for v] * [of "e0 \<lparr> pe_state := ts_recognized_pending \<rparr>"] * [of e0]
  show ?thesis
    using assms(2) e0(3)
    unfolding observeHello_def known(1) option.case Let_def e0_def [symmetric]
    by (auto simp: set e0 trust_of_def HelloObservation_new_def not_le split: if_splits)
next
  case unknown
  then show ?thesis using assms by (simp add: observeHello_def)
qed

lemma validate_trust:
  assumes "pm_inv m" and "cr_constantTimeEqual crypto = (=)"
  shows "validate crypto inst token m =
    (case trust m inst of
       Some (tok, role, False) \<Rightarrow> if length token = secret_bytes \<and> tok = token then role else watch
     | _ \<Rightarrow> watch)"
  using assms(1)
proof (cases rule: findByInstance_cases [where inst = inst])
  case (known i)
  then show ?thesis using assms(2) by (auto simp: validate_def trust_of_def Let_def)
qed (simp add: validate_def)

lemma validateProof_trust:
  assumes "pm_inv m" and "cr_constantTimeEqual crypto = (=)"
  shows "validateProof crypto inst proof nonce m =
    (case trust m inst of
       None \<Rightarrow> (watch, False)
     | Some (tok, role, sus) \<Rightarrow>
         (case cr_hmacSha256 crypto tok nonce of
            None \<Rightarrow> (watch, False)
          | Some mac \<Rightarrow>
              if length proof = 16 \<and> length nonce = 8 \<and> take 16 mac = proof then (if sus then watch else role, True)
              else (watch, False)))"
  using assms(1)
proof (cases rule: findByInstance_cases [where inst = inst])
  case (known i)
  then show ?thesis using assms(2)
    by (cases "cr_hmacSha256 crypto (pe_token (pm_entries m ! i)) nonce")
      (auto simp: validateProof_def trust_of_def Let_def)
qed (simp add: validateProof_def)

lemma handlePairReq_trust:
  assumes "pm_inv m" and "handlePairReq crypto inst proof nonce fresh now role m = (out, m')"
    and "cr_constantTimeEqual crypto = (=)"
  shows "pm_inv m' \<and>
    (if out = Granted
     then windowOpen now m \<and> proof = pairingPinProof (pm_pin m) nonce \<and> trust m' = (trust m)(inst \<mapsto> (fresh, role, False))
     else trust m' = trust m)"
proof -
  obtain r m1 where g: "pm_grant inst role mode_pin_proof fresh m = (r, m1)" by (cases "pm_grant inst role mode_pin_proof fresh m")
  have "pm_inv (m1 \<lparr> pm_failCount := 0 \<rparr>) = pm_inv m1 \<and> trust (m1 \<lparr> pm_failCount := 0 \<rparr>) = trust m1" by (rule pm_inv_entries) simp
  moreover have "pm_inv (m \<lparr> pm_failCount := k \<rparr>) \<and> trust (m \<lparr> pm_failCount := k \<rparr>) = trust m"
    "pm_inv (m \<lparr> pm_failCount := k, pm_windowOpen := False \<rparr>) \<and> trust (m \<lparr> pm_failCount := k, pm_windowOpen := False \<rparr>) = trust m" for k
    using pm_inv_entries [of _ m] assms(1) by (metis PairingManager.select_convs(1) PairingManager.surjective
        PairingManager.update_convs(14) PairingManager.update_convs(10))+
  ultimately show ?thesis using assms g pm_grant_trust [OF assms(1), of inst role mode_pin_proof fresh]
    by (auto simp: handlePairReq_def Let_def split: if_splits option.splits)
qed

section \<open>Histories of the ledger\<close>

text \<open>The operations by which trust comes and goes while the hub runs: the ceremonies, greetings, revocations and windows. What restores
  trust from storage, and the remaining setters, are added to these in \<open>manager_op\<close> of the theory \<open>Ledger\<close>.\<close>

datatype trust_op =
    GrantOp bytes AccessLevel u8 bytes                \<comment> \<open>instance, role, mode, fresh token\<close>
  | PinOp bytes bytes bytes bytes u32 AccessLevel     \<comment> \<open>instance, proof, nonce, fresh token, time, role\<close>
  | HelloOp bytes bytes bytes bytes bool u8
  | RevokeOp bytes
  | OpenWindowOp bytes u32
  | CloseWindowOp
  | OpenPresenceOp u32
  | ClosePresenceOp

primrec trust_step :: "ICrypto \<Rightarrow> trust_op \<Rightarrow> PairingManager \<Rightarrow> PairingManager" where
  "trust_step c (GrantOp inst role mode fresh) m = snd (pm_grant inst role mode fresh m)"
| "trust_step c (PinOp inst proof nonce fresh now role) m = snd (handlePairReq c inst proof nonce fresh now role m)"
| "trust_step c (HelloOp inst ck cn cv hv pmode) m = snd (observeHello inst ck cn cv hv pmode m)"
| "trust_step c (RevokeOp inst) m = snd (revoke inst m)"
| "trust_step c (OpenWindowOp pin now) m = openWindow pin now m"
| "trust_step c CloseWindowOp m = closeWindow m"
| "trust_step c (OpenPresenceOp now) m = openPresenceWindow now m"
| "trust_step c ClosePresenceOp m = closePresenceWindow m"

definition trust_run :: "ICrypto \<Rightarrow> trust_op list \<Rightarrow> PairingManager \<Rightarrow> PairingManager" where
  "trust_run c ops m = foldl (\<lambda>m op. trust_step c op m) m ops"

text \<open>The operation hands out \<open>tok\<close> to \<open>inst\<close> at \<open>role\<close>.\<close>

primrec mints :: "ICrypto \<Rightarrow> PairingManager \<Rightarrow> bytes \<Rightarrow> bytes \<Rightarrow> AccessLevel \<Rightarrow> trust_op \<Rightarrow> bool" where
  "mints c m inst tok role (GrantOp inst' role' mode fresh) =
    (inst' = inst \<and> role' = role \<and> fresh = tok \<and> fst (pm_grant inst' role' mode fresh m) \<noteq> None)"
| "mints c m inst tok role (PinOp inst' proof nonce fresh now role') =
    (inst' = inst \<and> role' = role \<and> fresh = tok \<and> windowOpen now m \<and> proof = pairingPinProof (pm_pin m) nonce)"
| "mints c m inst tok role (HelloOp inst' ck cn cv hv pmode) = False"
| "mints c m inst tok role (RevokeOp inst') = False"
| "mints c m inst tok role (OpenWindowOp pin now) = False"
| "mints c m inst tok role CloseWindowOp = False"
| "mints c m inst tok role (OpenPresenceOp now) = False"
| "mints c m inst tok role ClosePresenceOp = False"

locale honest_crypto =
  fixes crypto :: ICrypto
  assumes equal_exact: "cr_constantTimeEqual crypto = (=)"
begin

lemma step_inv_trust:
  assumes "pm_inv m"
  shows "pm_inv (trust_step crypto op m) \<and>
    (trust (trust_step crypto op m) inst = Some (tok, role, sus) \<longrightarrow>
       mints crypto m inst tok role op \<and> \<not> sus \<or>
       op \<noteq> RevokeOp inst \<and> (\<exists>sus0. trust m inst = Some (tok, role, sus0) \<and> (sus0 \<longrightarrow> sus)))"
proof (cases op)
  case (GrantOp inst' role' mode fresh)
  then show ?thesis using pm_grant_trust [OF assms, of inst' role' mode fresh] assms by (auto split: if_splits)
next
  case (PinOp inst' pf nonce fresh now role')
  obtain out m' where r: "handlePairReq crypto inst' pf nonce fresh now role' m = (out, m')" by fastforce
  from handlePairReq_trust [OF assms r equal_exact] r PinOp show ?thesis by (auto split: if_splits)
next
  case (HelloOp inst' ck cn cv hv pmode)
  obtain out m' where r: "observeHello inst' ck cn cv hv pmode m = (out, m')" by fastforce
  from observeHello_trust [OF assms r] r HelloOp show ?thesis by (auto split: option.splits if_splits)
next
  case (RevokeOp inst')
  then show ?thesis using revoke_trust [OF assms, of inst'] by (auto split: if_splits)
next
  case (OpenWindowOp pin now)
  then show ?thesis using pm_inv_entries [of "openWindow pin now m" m] assms by (auto simp: openWindow_def)
next
  case CloseWindowOp
  then show ?thesis using pm_inv_entries [of "closeWindow m" m] assms by (auto simp: closeWindow_def)
next
  case (OpenPresenceOp now)
  then show ?thesis using pm_inv_entries [of "openPresenceWindow now m" m] assms by (auto simp: openPresenceWindow_def)
next
  case ClosePresenceOp
  then show ?thesis using pm_inv_entries [of "closePresenceWindow m" m] assms by (auto simp: closePresenceWindow_def)
qed

lemma step_inv: "pm_inv m \<Longrightarrow> pm_inv (trust_step crypto op m)"
  using step_inv_trust by blast

lemma run_inv: "pm_inv m \<Longrightarrow> pm_inv (trust_run crypto ops m)"
  by (induction ops arbitrary: m) (auto simp: trust_run_def dest: step_inv_trust)

lemma run_snoc: "trust_run crypto (ops @ [op]) m = trust_step crypto op (trust_run crypto ops m)"
  by (simp add: trust_run_def)

lemma provenance:
  "trust (trust_run crypto ops PairingManager_new) inst = Some (tok, role, sus) \<Longrightarrow>
   \<exists>before op after. ops = before @ op # after \<and>
     mints crypto (trust_run crypto before PairingManager_new) inst tok role op \<and> RevokeOp inst \<notin> set after"
proof (induction ops arbitrary: sus rule: rev_induct)
  case Nil
  then show ?case by (simp add: trust_run_def pm_inv_new)
next
  case (snoc op ops)
  let ?m = "trust_run crypto ops PairingManager_new"
  have "pm_inv ?m" by (rule run_inv) (rule pm_inv_new)
  from step_inv_trust [OF this, of op inst tok role sus] snoc.prems consider
    "mints crypto ?m inst tok role op" | sus0 where "op \<noteq> RevokeOp inst" "trust ?m inst = Some (tok, role, sus0)"
    by (auto simp: run_snoc)
  then show ?case
  proof cases
    case 1
    then show ?thesis by (intro exI [of _ ops] exI [of _ op] exI [of _ "[]"]) simp
  next
    case 2
    from snoc.IH [OF 2(2)] obtain before op' after where
      "ops = before @ op' # after" "mints crypto (trust_run crypto before PairingManager_new) inst tok role op'"
      "RevokeOp inst \<notin> set after" by blast
    then show ?thesis using 2(1) by (intro exI [of _ before] exI [of _ op'] exI [of _ "after @ [op]"]) auto
  qed
qed

end

lemma SoftwareCrypto_simps [simp]:
  "cr_constantTimeEqual SoftwareCrypto = (=)" "cr_hmacSha256 SoftwareCrypto key msg = Some (hmacSha256 key msg)"
  by (simp_all add: SoftwareCrypto_def fun_eq_iff)

interpretation software: honest_crypto SoftwareCrypto
  by unfold_locales simp

section \<open>Properties\<close>

text \<open>The history hands \<open>tok\<close> to \<open>inst\<close> at \<open>role\<close> and does not revoke the device afterwards.\<close>

definition obtained :: "trust_op list \<Rightarrow> bytes \<Rightarrow> bytes \<Rightarrow> AccessLevel \<Rightarrow> bool" where
  "obtained ops inst tok role \<longleftrightarrow> (\<exists>before op after. ops = before @ op # after \<and>
     mints SoftwareCrypto (trust_run SoftwareCrypto before PairingManager_new) inst tok role op \<and> RevokeOp inst \<notin> set after)"

text \<open>(C27) Authority comes from a ceremony: after any history of grants, PIN requests, greetings, revocations and window
  changes, a token that validates to more than \<open>watch\<close> was handed out, to that device and at that role, by a grant,
  or by a PIN request that arrived while the window was open with the HMAC of the window's PIN over the nonce, and
  the device has not been revoked since; and a proof that validates to more than \<open>watch\<close> is the truncated HMAC of
  the session's nonce under such a token.\<close>
theorem trust_provenance:
  assumes "m = trust_run SoftwareCrypto ops PairingManager_new" and "role \<noteq> watch"
  shows "(validate SoftwareCrypto inst tok m = role \<longrightarrow> obtained ops inst tok role) \<and>
    (validateProof SoftwareCrypto inst pf nonce m = (role, matched) \<longrightarrow>
       matched \<and> (\<exists>tok. pf = take 16 (hmacSha256 tok nonce) \<and> obtained ops inst tok role))"
proof -
  have i: "pm_inv m" unfolding assms(1) by (rule software.run_inv) (rule pm_inv_new)
  have o: "obtained ops inst tok role" if "trust m inst = Some (tok, role, False)" for tok
    using software.provenance [of ops inst tok role False] that assms(1) by (simp add: obtained_def)
  show ?thesis
    using assms(2) o validate_trust [OF i, of SoftwareCrypto inst tok] validateProof_trust [OF i, of SoftwareCrypto inst pf nonce]
    by (auto split: option.splits if_splits bool.splits)
qed

theorem trust_provenance_witness:
  "validate SoftwareCrypto (replicate 8 7) (replicate 16 9)
     (trust_run SoftwareCrypto [GrantOp (replicate 8 7) control 1 (replicate 16 9)] PairingManager_new) = control \<and>
   obtained [GrantOp (replicate 8 7) control 1 (replicate 16 9)] (replicate 8 7) (replicate 16 9) control"
proof -
  let ?ops = "[GrantOp (replicate 8 7) control 1 (replicate 16 9)]"
  have i: "pm_inv (trust_run SoftwareCrypto ?ops PairingManager_new)" by (rule software.run_inv) (rule pm_inv_new)
  have "trust (trust_run SoftwareCrypto ?ops PairingManager_new) (replicate 8 7) = Some (replicate 16 9, control, False)"
    using pm_grant_trust [OF pm_inv_new(1), of "replicate 8 7" control 1 "replicate 16 9"]
    by (simp add: trust_run_def pm_inv_new dom_def)
  then have v: "validate SoftwareCrypto (replicate 8 7) (replicate 16 9) (trust_run SoftwareCrypto ?ops PairingManager_new) = control"
    by (simp add: validate_trust i)
  then show ?thesis
    using trust_provenance [OF refl, where role = control and ops = ?ops and inst = "replicate 8 7" and tok = "replicate 16 9"]
    by simp
qed

section \<open>Windows and guesses\<close>

text \<open>Wrong requests in a row, at the given times.\<close>

fun pin_attempts :: "ICrypto \<Rightarrow> (bytes \<times> bytes \<times> bytes \<times> bytes \<times> u32) list \<Rightarrow> AccessLevel \<Rightarrow> PairingManager \<Rightarrow>
    PairOutcome list \<times> PairingManager" where
  "pin_attempts c [] role m = ([], m)"
| "pin_attempts c ((inst, pf, nonce, fresh, now) # rs) role m =
    (let (out, m') = handlePairReq c inst pf nonce fresh now role m; (outs, m'') = pin_attempts c rs role m'
     in (out # outs, m''))"

definition wrong_proof :: "bytes \<Rightarrow> bytes \<times> bytes \<times> bytes \<times> bytes \<times> u32 \<Rightarrow> bool" where
  "wrong_proof pin = (\<lambda>(inst, pf, nonce, fresh, now). length inst = instance_bytes \<and> pf \<noteq> pairingPinProof pin nonce)"

lemma closed_attempts:
  "\<not> pm_windowOpen m \<Longrightarrow> pin_attempts c rs role m = (replicate (length rs) WindowClosed, m)"
  by (induction rs) (auto simp: handlePairReq_def windowOpen_def)

lemma wrong_attempts:
  assumes "list_all (wrong_proof (pm_pin m)) rs" and "pm_failCount m \<le> 2" and "pm_windowOpen m"
    and "list_all (\<lambda>(_, _, _, _, now). windowOpen now m) rs"
  shows "fst (pin_attempts SoftwareCrypto rs role m) =
      replicate (min (length rs) (3 - unat (pm_failCount m))) Denied @
      replicate (length rs - (3 - unat (pm_failCount m))) WindowClosed \<and>
    pm_entries (snd (pin_attempts SoftwareCrypto rs role m)) = pm_entries m"
  using assms
proof (induction rs arbitrary: m)
  case (Cons r rs)
  obtain inst pf nonce fresh now where r: "r = (inst, pf, nonce, fresh, now)" by (cases r)
  let ?m = "m \<lparr> pm_failCount := pm_failCount m + 1 \<rparr>"
  have f: "unat (pm_failCount m) \<le> 2" using Cons.prems(2) by (simp add: word_le_nat_alt)
  then have f1: "unat (pm_failCount m + 1) = unat (pm_failCount m) + 1" by (simp add: unat_word_ariths)
  show ?case
  proof (cases "unat (pm_failCount m) = 2")
    case True
    then have "\<not> pm_failCount m + 1 < 3" using f1 by (simp add: word_less_nat_alt)
    then have h: "handlePairReq SoftwareCrypto inst pf nonce fresh now role m = (Denied, ?m \<lparr> pm_windowOpen := False \<rparr>)"
      using Cons.prems r by (simp add: handlePairReq_def wrong_proof_def Let_def)
    then show ?thesis using True r closed_attempts [of "?m \<lparr> pm_windowOpen := False \<rparr>" SoftwareCrypto rs role]
      by (simp add: split_beta)
  next
    case False
    then have lt: "unat (pm_failCount m + 1) \<le> 2" using f f1 by simp
    then have "pm_failCount m + 1 < 3" by (simp add: word_less_nat_alt)
    then have h: "handlePairReq SoftwareCrypto inst pf nonce fresh now role m = (Denied, ?m)"
      using Cons.prems r by (simp add: handlePairReq_def wrong_proof_def Let_def not_le)
    have "windowOpen now ?m = windowOpen now m" for now by (simp add: windowOpen_def)
    then have "list_all (\<lambda>(_, _, _, _, now). windowOpen now ?m) rs" using Cons.prems(4) by simp
    then have "fst (pin_attempts SoftwareCrypto rs role ?m) =
        replicate (min (length rs) (3 - unat (pm_failCount ?m))) Denied @
        replicate (length rs - (3 - unat (pm_failCount ?m))) WindowClosed \<and>
      pm_entries (snd (pin_attempts SoftwareCrypto rs role ?m)) = pm_entries ?m"
      using Cons.prems lt by (intro Cons.IH) (simp_all add: word_le_nat_alt)
    moreover have "3 - unat (pm_failCount m) = Suc (3 - unat (pm_failCount ?m))" using f1 lt by simp
    ultimately show ?thesis using r h by (simp add: split_beta)
  qed
qed simp

text \<open>The window set at \<open>t\<close>, read \<open>n\<close> milliseconds later.\<close>

lemma windowOpen_elapsed:
  assumes "n < 2 ^ 31"
  shows "windowOpen (t + of_nat n) (openWindow pin t m) \<longleftrightarrow> n < 120000"
    and "presenceWindowOpen (t + of_nat n) (openPresenceWindow t m) \<longleftrightarrow> n < 120000"
  using timeReached_offsets [of n 120000 t] assms
  by (auto simp: windowOpen_def openWindow_def presenceWindowOpen_def openPresenceWindow_def)

text \<open>A PIN cannot be guessed by trying: after a window is opened, whatever wrong proofs arrive within its two
  minutes, from whichever devices, the first three are denied and everything after that finds the window closed; none
  of them changes the ledger.\<close>
theorem pin_three_strikes:
  assumes "\<forall>(inst, pf, nonce, fresh, now) \<in> set rs. length inst = 8 \<and> pf \<noteq> pairingPinProof pin nonce \<and>
      (\<exists>n < 120000. now = t + of_nat n)"
  shows "let (outs, m') = pin_attempts SoftwareCrypto rs role (openWindow pin t m) in
    outs = replicate (min (length rs) 3) Denied @ replicate (length rs - 3) WindowClosed \<and> pm_entries m' = pm_entries m"
proof -
  let ?m = "openWindow pin t m"
  have p: "pm_pin ?m = pin" "pm_failCount ?m = 0" "pm_windowOpen ?m" "pm_entries ?m = pm_entries m"
    by (simp_all add: openWindow_def)
  have "list_all (wrong_proof pin) rs" using assms by (auto simp: list_all_iff wrong_proof_def)
  moreover have "list_all (\<lambda>(_, _, _, _, now). windowOpen now ?m) rs"
    using assms windowOpen_elapsed(1) [of _ t pin m] by (fastforce simp: list_all_iff)
  ultimately show ?thesis using wrong_attempts [of ?m rs role] by (simp add: p split_beta)
qed

theorem pin_three_strikes_witness:
  "fst (pin_attempts SoftwareCrypto (replicate 5 (replicate 8 7, [], [], replicate 16 9, 60000)) control
     (openWindow [0x31, 0x32] 0 PairingManager_new)) = [Denied, Denied, Denied, WindowClosed, WindowClosed]"
proof -
  let ?rs = "replicate 5 (replicate 8 7, [], [], replicate 16 9, 60000) :: (bytes \<times> bytes \<times> bytes \<times> bytes \<times> u32) list"
  have "[] \<noteq> pairingPinProof [0x31, 0x32] []" using length_pairingPinProof [of "[0x31, 0x32]" "[]"] by (metis list.size(3) zero_neq_numeral)
  moreover have "\<exists>n < 120000. (60000 :: u32) = 0 + of_nat n" by (intro exI [of _ 60000]) simp
  ultimately have "\<forall>(inst, pf, nonce, fresh, now) \<in> set ?rs. length inst = 8 \<and> pf \<noteq> pairingPinProof [0x31, 0x32] nonce \<and>
      (\<exists>n < 120000. now = 0 + of_nat n)" by simp
  from pin_three_strikes [OF this, of control PairingManager_new] show ?thesis by (simp add: split_beta numeral_eq_Suc)
qed

text \<open>An expired window opens again: neither window is ever cleared when its two minutes are over, its state is
  recomputed from the wrapping millisecond clock.  From \<open>2^31\<close> milliseconds (24.8 days) after the expiry, and for
  the following 24.8 days, \<open>windowOpen\<close> and \<open>presenceWindowOpen\<close> report an open window, and a knock or a PIN proof
  would be granted, although nobody opened it.\<close>
theorem expired_window_reopens:
  "\<not> windowOpen (t + 120000) (openWindow pin t m) \<and> \<not> presenceWindowOpen (t + 120000) (openPresenceWindow t m) \<and>
   windowOpen (t + 120000 + 2 ^ 31) (openWindow pin t m) \<and>
   presenceWindowOpen (t + 120000 + 2 ^ 31) (openPresenceWindow t m) \<and>
   fst (handlePairReq SoftwareCrypto (replicate 8 7) (pairingPinProof pin nonce) nonce (replicate 16 9)
          (t + 120000 + 2 ^ 31) control (openWindow pin t PairingManager_new)) = Granted"
proof -
  have w: "\<not> timeReached (t + 120000 + 2 ^ 31) (t + 120000)" by (simp add: timeReached_def timeDelta_def)
  have x: "timeReached (t + 120000) (t + 120000)" by (simp add: timeReached_def timeDelta_def)
  have "windowOpen (t + 120000 + 2 ^ 31) (openWindow pin t m)" for m using w by (simp add: windowOpen_def openWindow_def)
  moreover have "pm_inv (openWindow pin t PairingManager_new)" "trust (openWindow pin t PairingManager_new) = (\<lambda>_. None)"
    using pm_inv_entries [of "openWindow pin t PairingManager_new" PairingManager_new] pm_inv_new
    by (auto simp: openWindow_def)
  moreover from this have "fst (pm_grant (replicate 8 7) control mode_pin_proof (replicate 16 9)
      (openWindow pin t PairingManager_new)) \<noteq> None"
    using pm_grant_trust [of "openWindow pin t PairingManager_new" "replicate 8 7" control mode_pin_proof "replicate 16 9"]
    by (simp add: dom_def)
  ultimately show ?thesis using w x
    by (auto simp: windowOpen_def openWindow_def presenceWindowOpen_def openPresenceWindow_def handlePairReq_def
      Let_def split: prod.split option.split)
qed

section \<open>Pending knocks\<close>

definition pp_inv :: "PendingPairingList \<Rightarrow> bool" where
  "pp_inv t \<longleftrightarrow> length t = pairing_pending_max \<and> slots_ok pk_used pk_instance_id t \<and>
     (\<forall>e \<in> set t. pk_used e \<longrightarrow> length (pk_instance_id e) = instance_bytes)"

text \<open>Who is waiting: session, deadline and mode of the knock.\<close>

definition knocks :: "PendingPairingList \<Rightarrow> bytes \<Rightarrow> (u32 \<times> u32 \<times> u8) option" where
  "knocks t inst = map_option (\<lambda>e. (pk_session_id e, pk_expiresAtMs e, pk_mode e)) (sfind pk_used pk_instance_id t inst)"

lemma pp_inv_new: "pp_inv PendingPairingList_new" "knocks PendingPairingList_new inst = None"
  by (auto simp: pp_inv_def PendingPairingList_new_def PendingKnock_new_def knocks_def sfind_None intro!: slots_ok_unused)

lemma pp_expire_map:
  "pp_expire now t = (filter (\<lambda>e. pk_used e \<and> timeReached now (pk_expiresAtMs e)) t,
     map (\<lambda>e. if pk_used e \<and> timeReached now (pk_expiresAtMs e) then PendingKnock_new else e) t)"
  by (induction t) auto

lemma pp_dropBySession_map:
  "pp_dropBySession sess t = (filter (\<lambda>e. pk_used e \<and> pk_session_id e = sess) t,
     map (\<lambda>e. if pk_used e \<and> pk_session_id e = sess then PendingKnock_new else e) t)"
  by (induction t) auto

lemma pp_clear_all:
  assumes "pp_inv t"
  shows "pp_inv (map (\<lambda>e. if pk_used e \<and> P e then PendingKnock_new else e) t)"
    and "sfind pk_used pk_instance_id (map (\<lambda>e. if pk_used e \<and> P e then PendingKnock_new else e) t) inst =
      (case sfind pk_used pk_instance_id t inst of Some e \<Rightarrow> if P e then None else Some e | None \<Rightarrow> None)"
proof -
  have ok: "slots_ok pk_used pk_instance_id t" "\<not> pk_used PendingKnock_new"
    using assms by (simp_all add: pp_inv_def PendingKnock_new_def)
  note c = sfind_clear_all [OF ok, of "\<lambda>e. pk_used e \<and> P e"]
  show "pp_inv (map (\<lambda>e. if pk_used e \<and> P e then PendingKnock_new else e) t)"
    using c(1) assms by (auto simp: pp_inv_def PendingKnock_new_def)
  show "sfind pk_used pk_instance_id (map (\<lambda>e. if pk_used e \<and> P e then PendingKnock_new else e) t) inst =
      (case sfind pk_used pk_instance_id t inst of Some e \<Rightarrow> if P e then None else Some e | None \<Rightarrow> None)"
    unfolding c(2) by (cases rule: sfind_cases [of pk_used pk_instance_id inst t]) simp_all
qed

lemma pp_add_knocks:
  assumes "pp_inv t" and "length inst = instance_bytes"
  shows "pp_inv (snd (pp_add inst sess ex mode t)) \<and>
    (if knocks t inst \<noteq> None \<or> card (dom (knocks t)) < 4
     then fst (pp_add inst sess ex mode t) \<noteq> None \<and>
       knocks (snd (pp_add inst sess ex mode t)) = (knocks t)(inst \<mapsto> (sess, ex, mode))
     else pp_add inst sess ex mode t = (None, t))"
proof -
  have ok: "slots_ok pk_used pk_instance_id t" using assms by (simp add: pp_inv_def)
  have put: "pp_inv (t[i := e]) \<and> knocks (t[i := e]) = (knocks t)(inst \<mapsto> (pk_session_id e, pk_expiresAtMs e, pk_mode e))"
    if "i < length t" "pk_used e" "pk_instance_id e = inst"
      "pk_used (t ! i) \<and> pk_instance_id (t ! i) = inst \<or> \<not> pk_used (t ! i) \<and> sfind pk_used pk_instance_id t inst = None" for i e
  proof -
    have "\<forall>x \<in> set (t[i := e]). pk_used x \<longrightarrow> length (pk_instance_id x) = instance_bytes"
      using assms that(3) by (auto simp: pp_inv_def dest!: set_update_subset_insert [THEN subsetD])
    then show ?thesis using assms(1) sfind_put [OF ok that(1,2)] slots_ok_put [OF ok, of i e] that(3,4)
      by (auto simp: pp_inv_def knocks_def fun_eq_iff)
  qed
  show ?thesis
  proof (cases rule: sfind_cases [of pk_used pk_instance_id inst t])
    case (found i)
    then show ?thesis using put [of i "(t ! i) \<lparr> pk_used := True, pk_session_id := sess, pk_expiresAtMs := ex, pk_mode := mode \<rparr>"]
        assms(2) by (simp add: pp_add_def pp_find_def pp_fill_def knocks_def)
  next
    case missing
    have room: "card (dom (knocks t)) < 4 \<longleftrightarrow> find_index (\<lambda>e. \<not> pk_used e) t \<noteq> None"
    proof -
      have "dom (knocks t) = dom (sfind pk_used pk_instance_id t)" by (auto simp: knocks_def dom_def)
      then show ?thesis using card_dom_sfind [OF ok] slots_used_le [of pk_used t] no_free_slot [of pk_used t] assms(1)
        by (auto simp: pp_inv_def)
    qed
    show ?thesis
    proof (cases "find_index (\<lambda>e. \<not> pk_used e) t")
      case (Some i)
      with find_index_Some [OF Some] missing put [of i "PendingKnock_new \<lparr> pk_instance_id := inst, pk_used := True,
          pk_session_id := sess, pk_expiresAtMs := ex, pk_mode := mode \<rparr>"] assms(2) room
      show ?thesis by (simp add: pp_add_def pp_find_def pp_fill_def)
    qed (use missing assms room in \<open>simp add: pp_add_def pp_find_def knocks_def\<close>)
  qed
qed

lemma foldl_count: "foldl (\<lambda>n e. if P e then n + 1 else n) k t = k + length (filter P t)"
  by (induction t arbitrary: k) auto

lemma pp_count_card: "pp_inv t \<Longrightarrow> pp_count t = card (dom (knocks t)) \<and> pp_count t \<le> 4"
proof -
  assume i: "pp_inv t"
  have "dom (knocks t) = dom (sfind pk_used pk_instance_id t)" by (auto simp: knocks_def dom_def)
  moreover have "pp_count t = slots_used pk_used t" by (simp add: pp_count_def foldl_count slots_used_def)
  ultimately show ?thesis using i card_dom_sfind [of pk_used pk_instance_id t] slots_used_le [of pk_used t]
    by (simp add: pp_inv_def)
qed

text \<open>A knock flood exhausts nothing: the list of pending knocks is a map from devices to knocks with at most four
  entries.  A knock is recorded exactly if the device is already waiting, whose knock it then refreshes, or fewer than
  four devices are; otherwise nothing changes.  Expiry and the end of a session report and remove exactly the knocks
  whose deadline has passed or that belong to that session, and no other.\<close>
theorem pending_knocks_bounded:
  assumes "pp_inv t" and "length inst = 8"
  shows "(let (r, t') = pp_add inst sess ex mode t in pp_inv t' \<and>
      (if knocks t inst \<noteq> None \<or> pp_count t < 4
       then r \<noteq> None \<and> knocks t' = (knocks t)(inst \<mapsto> (sess, ex, mode)) else r = None \<and> t' = t)) \<and>
    (let (fired, t') = pp_expire now t in pp_inv t' \<and> length fired + pp_count t' = pp_count t \<and>
      knocks t' = (\<lambda>i. case knocks t i of Some (s, d, md) \<Rightarrow> if timeReached now d then None else Some (s, d, md) | None \<Rightarrow> None)) \<and>
    (let (fired, t') = pp_dropBySession sess t in pp_inv t' \<and> length fired + pp_count t' = pp_count t \<and>
      knocks t' = (\<lambda>i. case knocks t i of Some (s, d, md) \<Rightarrow> if s = sess then None else Some (s, d, md) | None \<Rightarrow> None))"
proof -
  have c: "length (filter (\<lambda>e. pk_used e \<and> P e) t) +
      pp_count (map (\<lambda>e. if pk_used e \<and> P e then PendingKnock_new else e) t) = pp_count t" for P and t :: "PendingKnock list"
    unfolding pp_count_def foldl_count by (induction t) (auto simp: PendingKnock_new_def)
  note e = pp_clear_all [OF assms(1), of "\<lambda>e. timeReached now (pk_expiresAtMs e)"]
    pp_clear_all [OF assms(1), of "\<lambda>e. pk_session_id e = sess"]
  show ?thesis
    using pp_add_knocks [OF assms, of sess ex mode] pp_count_card [OF assms(1)]
      c [of "\<lambda>e. timeReached now (pk_expiresAtMs e)" t] c [of "\<lambda>e. pk_session_id e = sess" t] e(1,3)
    by (simp add: pp_expire_map pp_dropBySession_map split_beta)
      (auto simp: knocks_def fun_eq_iff e(2,4) split: option.split if_splits)
qed

theorem pending_knocks_bounded_witness:
  "fst (pp_add (replicate 8 7) 41 120000 1 PendingPairingList_new) \<noteq> None"
  using pending_knocks_bounded [OF pp_inv_new(1), of "replicate 8 7" 41 120000 1 0] pp_count_card [OF pp_inv_new(1)]
  by (simp add: split_beta pp_inv_new dom_def)

end
