(* ===== verification/Ledger.thy ===== *)
theory Ledger
  imports Pairing Cbor_Message
begin

text \<open>
  The trust ledger as CBOR, the last part of \<^verbatim>\<open>session/pairing.hpp\<close>: the item that a \<open>configure\<close> session reads
  over BLOB_REQ (\<open>encodeEntry\<close>, without the token) and the blob that survives a reboot (\<open>encodeLedger\<close>,
  \<open>decodeLedger\<close>).  Every failure of \<open>decodeLedger\<close> is \<open>return false\<close>; the error value carried inside the model is
  not observable.
\<close>

section \<open>Definitions\<close>

definition countIf :: "bool \<Rightarrow> u32" where "countIf b = (if b then 1 else 0)"

text \<open>The pairs that both forms share, in key order, and their number.\<close>

definition ledger_pairs :: "PairedEntry \<Rightarrow> (CborWriter \<Rightarrow> CborWriter) list" where
  "ledger_pairs e =
     [w_kv 1 (bstrVal (pe_instance_id e)),
      w_when (pe_kind e \<noteq> []) (w_kv 2 (tstrVal (pe_kind e))),
      w_when (pe_name e \<noteq> []) (w_kv 3 (tstrVal (pe_name e))),
      w_when (pe_version e \<noteq> []) (w_kv 4 (tstrVal (pe_version e))),
      w_when (pe_firstSeen e \<noteq> 0) (w_kv 5 (uintVal (ucast (pe_firstSeen e)))),
      w_when (pe_lastSeen e \<noteq> 0) (w_kv 6 (uintVal (ucast (pe_lastSeen e)))),
      w_kv 7 (uintVal (ucast (role_u8 (pe_role e)))),
      w_kv 8 (uintVal (ucast (pe_state e))),
      w_kv 9 (uintVal (ucast (pe_presentationMode e))),
      w_kv 10 (uintVal (ucast (pe_pairingMode e)))]"

definition ledger_optional :: "PairedEntry \<Rightarrow> u32" where
  "ledger_optional e = countIf (pe_kind e \<noteq> []) + countIf (pe_name e \<noteq> []) + countIf (pe_version e \<noteq> []) +
     countIf (pe_firstSeen e \<noteq> 0) + countIf (pe_lastSeen e \<noteq> 0)"

definition encodeEntry :: "PairedEntry \<Rightarrow> nat \<Rightarrow> bytes" where
  "encodeEntry e cap = w_result (w_seq (mapHeader (5 + ledger_optional e) # ledger_pairs e) (CborWriter_new cap))"

definition encodeLedger_entry :: "PairedEntry \<Rightarrow> CborWriter \<Rightarrow> CborWriter" where
  "encodeLedger_entry e =
     w_seq (mapHeader (6 + ledger_optional e) # ledger_pairs e @ [w_kv 11 (bstrVal (pe_token e))])"

definition encodeLedger :: "PairingManager \<Rightarrow> nat \<Rightarrow> bytes" where
  "encodeLedger m cap =
     w_result (w_seq [arrayHeader (word_of_nat (entryCount m)), w_each encodeLedger_entry (filter pe_used (pm_entries m))]
       (CborWriter_new cap))"

definition AccessLevel_of :: "u64 \<Rightarrow> AccessLevel" where
  "AccessLevel_of v = (if v = 0 then watch else if v = 1 then control else configure)"

definition decodeLedger_key :: "(PairedEntry \<times> bool) handler" where
  "decodeLedger_key k = (\<lambda>(e, gotInstance) r.
    if k = 1 then
      rbind (readBstr r) (\<lambda>(v, r).
        if length v \<noteq> instance_bytes then Inl Malformed else Inr ((e \<lparr> pe_instance_id := v \<rparr>, True), r))
    else if k = 2 then
      rbind (readTstr r) (\<lambda>(v, r).
        if length v > kLedgerKindMaxBytes then Inl Malformed
        else Inr ((e \<lparr> pe_kind := bs_assign kLedgerKindMaxBytes v \<rparr>, gotInstance), r))
    else if k = 3 then
      rbind (readTstr r) (\<lambda>(v, r).
        if length v > kLedgerNameMaxBytes then Inl Malformed
        else Inr ((e \<lparr> pe_name := bs_assign kLedgerNameMaxBytes v \<rparr>, gotInstance), r))
    else if k = 4 then
      rbind (readTstr r) (\<lambda>(v, r).
        if length v > kLedgerVersionMaxBytes then Inl Malformed
        else Inr ((e \<lparr> pe_version := bs_assign kLedgerVersionMaxBytes v \<rparr>, gotInstance), r))
    else if k = 5 then
      rbind (readUint r) (\<lambda>(v, r). Inr ((e \<lparr> pe_firstSeen := ucast v \<rparr>, gotInstance), r))
    else if k = 6 then
      rbind (readUint r) (\<lambda>(v, r). Inr ((e \<lparr> pe_lastSeen := ucast v \<rparr>, gotInstance), r))
    else if k = 7 then
      rbind (readUint r) (\<lambda>(v, r).
        if v > 2 then Inl Malformed else Inr ((e \<lparr> pe_role := AccessLevel_of v \<rparr>, gotInstance), r))
    else if k = 8 then
      rbind (readUint r) (\<lambda>(v, r).
        if v > 1 then Inl Malformed else Inr ((e \<lparr> pe_state := ucast v \<rparr>, gotInstance), r))
    else if k = 9 then
      rbind (readUint r) (\<lambda>(v, r).
        if v > 0xFF then Inl Malformed else Inr ((e \<lparr> pe_presentationMode := ucast v \<rparr>, gotInstance), r))
    else if k = 10 then
      rbind (readUint r) (\<lambda>(v, r).
        if v > 0xFF then Inl Malformed else Inr ((e \<lparr> pe_pairingMode := ucast v \<rparr>, gotInstance), r))
    else if k = 11 then
      rbind (readBstr r) (\<lambda>(v, r).
        if length v \<noteq> secret_bytes then Inl Malformed else Inr ((e \<lparr> pe_token := v \<rparr>, gotInstance), r))
    else skip_unknown (e, gotInstance) r)"

definition decodeLedger_entry :: "CborReader \<Rightarrow> (PairedEntry \<times> CborReader) result" where
  "decodeLedger_entry r =
    rbind (decode_map decodeLedger_key (PairedEntry_new, False) r) (\<lambda>((e, gotInstance), r).
      if \<not> gotInstance then Inl Malformed else Inr (e \<lparr> pe_used := True \<rparr>, r))"

definition decodeLedger :: "bytes \<Rightarrow> PairingManager \<Rightarrow> bool \<times> PairingManager" where
  "decodeLedger inp m =
    (case decode_list paired_devices_max decodeLedger_entry (CborReader_new inp) of
       Inl _ \<Rightarrow> (False, m)
     | Inr (es, _) \<Rightarrow>
         (True, touch (m \<lparr> pm_entries := es @ replicate (paired_devices_max - length es) PairedEntry_new \<rparr>)))"

section \<open>The ledger on flash\<close>

definition ledger_kvs :: "PairedEntry \<Rightarrow> (u64 \<times> cbor) list \<Rightarrow> (u64 \<times> cbor) list" where
  "ledger_kvs e rest = [(1, CBytes (pe_instance_id e))] @
     (if pe_kind e \<noteq> [] then [(2, CText (pe_kind e))] else []) @
     (if pe_name e \<noteq> [] then [(3, CText (pe_name e))] else []) @
     (if pe_version e \<noteq> [] then [(4, CText (pe_version e))] else []) @
     (if pe_firstSeen e \<noteq> 0 then [(5, CUint (ucast (pe_firstSeen e)))] else []) @
     (if pe_lastSeen e \<noteq> 0 then [(6, CUint (ucast (pe_lastSeen e)))] else []) @
     [(7, CUint (ucast (role_u8 (pe_role e))))] @ [(8, CUint (ucast (pe_state e)))] @
     [(9, CUint (ucast (pe_presentationMode e)))] @ [(10, CUint (ucast (pe_pairingMode e)))] @ rest"

definition entry_ok :: "PairedEntry \<Rightarrow> bool" where
  "entry_ok e \<longleftrightarrow> pe_used e \<and> length (pe_instance_id e) = instance_bytes \<and> length (pe_token e) = secret_bytes \<and>
     length (pe_kind e) \<le> 16 \<and> length (pe_name e) \<le> 16 \<and> length (pe_version e) \<le> 24 \<and> pe_state e \<le> 1"

definition stored_kvs :: "PairedEntry \<Rightarrow> (u64 \<times> cbor) list" where
  "stored_kvs e = ledger_kvs e ([(11, CBytes (pe_token e))] @ [])"

lemma length_when [simp]: "(word_of_nat (length (if b then [x] else [])) :: u32) = countIf b"
  by (simp add: countIf_def)

lemma ledger_count:
  "word_of_nat (length (ledger_kvs e rest)) = (5 + ledger_optional e + word_of_nat (length rest) :: u32)"
  "length (ledger_kvs e rest) \<le> 10 + length rest"
  by (simp_all add: ledger_kvs_def ledger_optional_def)

lemma emits_ledger_entry:
  assumes "entry_ok e" and "d < 4"
  shows "emits d (encodeLedger_entry e) (CMap (stored_kvs e))"
proof -
  have l: "length (pe_instance_id e) < 2 ^ 64" "length (pe_kind e) < 2 ^ 64" "length (pe_name e) < 2 ^ 64"
    "length (pe_version e) < 2 ^ 64" "length (pe_token e) < 2 ^ 64" using assms(1) by (simp_all add: entry_ok_def)
  have s: "encodeLedger_entry e = w_seq (mapHeader (6 + ledger_optional e) # [w_kv 1 (bstrVal (pe_instance_id e)),
      w_when (pe_kind e \<noteq> []) (w_kv 2 (tstrVal (pe_kind e))),
      w_when (pe_name e \<noteq> []) (w_kv 3 (tstrVal (pe_name e))),
      w_when (pe_version e \<noteq> []) (w_kv 4 (tstrVal (pe_version e))),
      w_when (pe_firstSeen e \<noteq> 0) (w_kv 5 (uintVal (ucast (pe_firstSeen e)))),
      w_when (pe_lastSeen e \<noteq> 0) (w_kv 6 (uintVal (ucast (pe_lastSeen e)))),
      w_kv 7 (uintVal (ucast (role_u8 (pe_role e)))),
      w_kv 8 (uintVal (ucast (pe_state e))),
      w_kv 9 (uintVal (ucast (pe_presentationMode e))),
      w_kv 10 (uintVal (ucast (pe_pairingMode e))), w_kv 11 (bstrVal (pe_token e))])"
    by (simp add: encodeLedger_entry_def ledger_pairs_def)
  show ?thesis unfolding s stored_kvs_def ledger_kvs_def using assms(2)
    by - (rule emits_map, (rule emit_intros | use l in \<open>simp add: ledger_optional_def\<close> | simp)+)
qed

lemma reads_ledger_entry:
  assumes "entry_ok e" and "d < 4"
  shows "reads d decodeLedger_entry (CMap (stored_kvs e)) e"
proof -
  have runs: "runs d decodeLedger_key (stored_kvs e) (PairedEntry_new, False) (e \<lparr> pe_used := False \<rparr>, True)"
  proof (cases e)
    case (fields inst tok role st pm pa ki na ve fs ls us)
    note opt = runs_default [where x = ki and u = "\<lambda>f (m, g). (pe_kind_update f m, g)" and b = "ki \<noteq> []"]
      runs_default [where x = na and u = "\<lambda>f (m, g). (pe_name_update f m, g)" and b = "na \<noteq> []"]
      runs_default [where x = ve and u = "\<lambda>f (m, g). (pe_version_update f m, g)" and b = "ve \<noteq> []"]
      runs_default [where x = fs and u = "\<lambda>f (m, g). (pe_firstSeen_update f m, g)" and b = "fs \<noteq> 0"]
      runs_default [where x = ls and u = "\<lambda>f (m, g). (pe_lastSeen_update f m, g)" and b = "ls \<noteq> 0"]
    have role: "AccessLevel_of (ucast (role_u8 role)) = role" "\<not> 2 < (ucast (role_u8 role) :: u64)"
      by (cases role; simp add: AccessLevel_of_def)+
    have len: "length inst = 8" "length tok = 16" "length ki \<le> 16" "length na \<le> 16" "length ve \<le> 24" "st = 0 \<or> st = 1"
      using assms(1) by (auto simp: entry_ok_def fields word_le_less_eq word_less_1)
    then have lt: "length inst < 2 ^ 64" "length tok < 2 ^ 64" "length ki < 2 ^ 64" "length na < 2 ^ 64" "length ve < 2 ^ 64"
      "\<not> 1 < (ucast st :: u64)" "\<not> 16 < length ki" "\<not> 16 < length na" "\<not> 24 < length ve" by auto
    have assign: "bs_assign 16 ki = ki" "bs_assign 16 na = na" "bs_assign 24 ve = ve" using len by (auto simp: bs_assign_def)
    show ?thesis
      unfolding stored_kvs_def ledger_kvs_def PairedEntry_new_def fields PairedEntry.select_convs
      by (rule run_intros opt | simp add: decodeLedger_key_def kLedgerKindMaxBytes_def kLedgerNameMaxBytes_def
          kLedgerVersionMaxBytes_def role len lt [simplified] assign)+
  qed
  have "reads d (decode_map decodeLedger_key (PairedEntry_new, False)) (CMap (stored_kvs e)) (e \<lparr> pe_used := False \<rparr>, True)"
    using assms(2) ledger_count(2) [of e "[(11, CBytes (pe_token e))]"]
    by (intro reads_decode_map runs) (auto simp: stored_kvs_def ledger_kvs_def)
  then show ?thesis unfolding decodeLedger_entry_def [abs_def]
    by (rule reads_bind) (use assms(1) in \<open>simp add: entry_ok_def\<close>)
qed

lemma emits_ledger:
  assumes "list_all entry_ok es" and "length es \<le> 8"
  shows "emits 0 (w_seq [arrayHeader (word_of_nat (length es)), w_each encodeLedger_entry es]) (CArray (map (CMap \<circ> stored_kvs) es))"
  using assms by (intro emits_array) (auto simp: list_all_iff intro: emits_ledger_entry)

lemma reads_ledger:
  assumes "list_all entry_ok es" and "length es \<le> 8"
  shows "reads 0 (decode_list 8 decodeLedger_entry) (CArray (map (CMap \<circ> stored_kvs) es)) es"
  using assms by (intro reads_decode_list) (auto simp: list_all_iff intro: reads_ledger_entry)

section \<open>The size of the blob\<close>

lemma head_length: "v \<le> 0xFF \<Longrightarrow> length (head_bytes mt v) \<le> 2" "v \<le> 0xFFFFFFFF \<Longrightarrow> length (head_bytes mt v) \<le> 5"
  by (simp_all add: head_bytes_def Let_def)

lemma ucast_bounds: "(ucast (x :: u8) :: u64) \<le> 0xFF" "(ucast (y :: u32) :: u64) \<le> 0xFFFFFFFF"
  using field_in_range(1) [of x] field_in_range(3) [of y] by (simp_all only: not_less)

lemma length_head_small: "n \<le> 255 \<Longrightarrow> length (head_bytes mt (word_of_nat n)) \<le> 2"
  by (rule head_length) (simp add: word_le_nat_alt unat_of_nat take_bit_nat_eq_self)

definition enc_len :: "(u64 \<times> cbor) list \<Rightarrow> nat" where
  "enc_len kvs = length (concat (map (\<lambda>(k, v). head_bytes 0 k @ enc v) kvs))"

lemma enc_len_simps:
  "enc_len (xs @ ys) = enc_len xs + enc_len ys" "enc_len [] = 0" "enc_len [(k, v)] = length (head_bytes 0 k) + length (enc v)"
  by (simp_all add: enc_len_def)

lemma enc_len_small:
  "k \<le> 0xFF \<Longrightarrow> length b \<le> n \<Longrightarrow> n \<le> 255 \<Longrightarrow> enc_len [(k, CBytes b)] \<le> n + 4"
  "k \<le> 0xFF \<Longrightarrow> length b \<le> n \<Longrightarrow> n \<le> 255 \<Longrightarrow> enc_len [(k, CText b)] \<le> n + 4"
  "k \<le> 0xFF \<Longrightarrow> enc_len [(k, CUint (ucast (x :: u8)))] \<le> 4"
  "k \<le> 0xFF \<Longrightarrow> enc_len [(k, CUint (ucast (y :: u32)))] \<le> 7"
  using length_head_small [of "length b" 2] length_head_small [of "length b" 3] head_length [of k 0]
    head_length(1) [OF ucast_bounds(1), of 0 x] head_length(2) [OF ucast_bounds(2), of 0 y]
  by (simp_all add: enc_len_simps)

lemma stored_length:
  assumes "entry_ok e"
  shows "length (enc (CMap (stored_kvs e))) \<le> 140"
proof -
  have o: "length (pe_instance_id e) \<le> 8" "length (pe_token e) \<le> 16" "length (pe_kind e) \<le> 16" "length (pe_name e) \<le> 16"
    "length (pe_version e) \<le> 24" using assms by (simp_all add: entry_ok_def)
  have "enc_len [(1, CBytes (pe_instance_id e))] \<le> 8 + 4" "enc_len [(11, CBytes (pe_token e))] \<le> 16 + 4"
    "enc_len (if pe_kind e \<noteq> [] then [(2, CText (pe_kind e))] else []) \<le> 16 + 4"
    "enc_len (if pe_name e \<noteq> [] then [(3, CText (pe_name e))] else []) \<le> 16 + 4"
    "enc_len (if pe_version e \<noteq> [] then [(4, CText (pe_version e))] else []) \<le> 24 + 4"
    "enc_len (if pe_firstSeen e \<noteq> 0 then [(5, CUint (ucast (pe_firstSeen e)))] else []) \<le> 7"
    "enc_len (if pe_lastSeen e \<noteq> 0 then [(6, CUint (ucast (pe_lastSeen e)))] else []) \<le> 7"
    "enc_len [(7, CUint (ucast (role_u8 (pe_role e))))] \<le> 4" "enc_len [(8, CUint (ucast (pe_state e)))] \<le> 4"
    "enc_len [(9, CUint (ucast (pe_presentationMode e)))] \<le> 4" "enc_len [(10, CUint (ucast (pe_pairingMode e)))] \<le> 4"
    using o enc_len_small(1) [of 1 "pe_instance_id e" 8] enc_len_small(1) [of 11 "pe_token e" 16]
      enc_len_small(2) [of 2 "pe_kind e" 16] enc_len_small(2) [of 3 "pe_name e" 16] enc_len_small(2) [of 4 "pe_version e" 24]
    by (simp_all add: enc_len_simps(2) enc_len_small(3,4))
  then have "enc_len (stored_kvs e) \<le> 130"
    unfolding stored_kvs_def ledger_kvs_def enc_len_simps(1,2) by linarith
  moreover have "length (head_bytes 5 (word_of_nat (length (stored_kvs e)))) \<le> 2"
    using ledger_count(2) [of e "[(11, CBytes (pe_token e))]"] by (intro length_head_small) (simp add: stored_kvs_def)
  ultimately show ?thesis by (simp add: enc_len_def)
qed

lemma ledger_length:
  assumes "list_all entry_ok es" and "length es \<le> 8"
  shows "length (enc (CArray (map (CMap \<circ> stored_kvs) es))) \<le> 1900"
proof -
  have "length (concat (map (\<lambda>e. enc (CMap (stored_kvs e))) es)) \<le> length es * 140"
    using assms(1)
  proof (induction es)
    case (Cons e es)
    from Cons.prems have "entry_ok e" by simp
    from stored_length [OF this] Cons show ?case by (simp del: enc.simps)
  qed simp
  moreover have "length (head_bytes 4 (word_of_nat (length es))) \<le> 2" using assms(2) by (intro length_head_small) simp
  moreover have "length es * 140 \<le> 8 * 140" using assms(2) by simp
  ultimately show ?thesis by (simp add: comp_def del: enc.simps(6))
qed

section \<open>Properties\<close>

lemma entryCount_used: "entryCount m = length (filter pe_used (pm_entries m))"
  by (simp add: entryCount_def foldl_count)

text \<open>Every slot that is used is well-formed.\<close>

definition ledger_ok :: "PairingManager \<Rightarrow> bool" where
  "ledger_ok m \<longleftrightarrow> pm_inv m \<and> list_all entry_ok (filter pe_used (pm_entries m))"

lemma sfind_filter_used: "sfind used key (filter used t) k = sfind used key t k"
proof -
  have "find_index (\<lambda>e. used e \<and> key e = k) t = None \<longleftrightarrow> find_index (\<lambda>e. used e \<and> key e = k) (filter used t) = None"
    by (auto simp: find_index_None)
  moreover have "find_index P t = Some i \<Longrightarrow> (\<And>e. P e \<Longrightarrow> used e) \<Longrightarrow>
      \<exists>j. find_index P (filter used t) = Some j \<and> filter used t ! j = t ! i" for P i t
    by (induction t arbitrary: i) (auto split: if_splits)
  ultimately show ?thesis
    by (cases "find_index (\<lambda>e. used e \<and> key e = k) t") (fastforce simp: sfind_def)+
qed

lemma sfind_append_unused: "(\<And>e. e \<in> set u \<Longrightarrow> \<not> used e) \<Longrightarrow> sfind used key (t @ u) k = sfind used key t k"
proof (induction t)
  case Nil
  then show ?case by (auto simp: sfind_def find_index_None)
next
  case (Cons e t)
  then show ?case by (auto simp: sfind_def option.map_comp comp_def split: option.splits)
qed

lemma slots_ok_compact:
  assumes "slots_ok used key t" and "\<And>e. e \<in> set u \<Longrightarrow> \<not> used e"
  shows "slots_ok used key (filter used t @ u)"
  unfolding slots_ok_def
proof (intro allI impI)
  let ?f = "filter used t"
  have d: "distinct (map key ?f)" by (rule slots_ok_distinct [OF assms(1)])
  fix i j
  assume a: "i < length (?f @ u)" "j < length (?f @ u)" "used ((?f @ u) ! i)" "used ((?f @ u) ! j)"
    "key ((?f @ u) ! i) = key ((?f @ u) ! j)"
  have "k < length ?f" if "k < length (?f @ u)" "used ((?f @ u) ! k)" for k
    using that assms(2) nth_mem [of "k - length ?f" u] by (cases "k < length ?f") (auto simp: nth_append)
  with a have "i < length ?f" "j < length ?f" by blast+
  with a(5) d show "i = j" by (simp add: nth_append nth_eq_iff_index_eq [symmetric])
qed

lemma ledger_roundtrip:
  assumes "ledger_ok m"
  shows "encodeLedger m 1900 \<noteq> [] \<and>
    decodeLedger (encodeLedger m 1900 @ rest) boot =
      (True, touch (boot \<lparr> pm_entries := filter pe_used (pm_entries m) @
         replicate (8 - length (filter pe_used (pm_entries m))) PairedEntry_new \<rparr>))"
proof -
  let ?es = "filter pe_used (pm_entries m)"
  have ok: "list_all entry_ok ?es" "length ?es \<le> 8" using assms
    by (auto simp: ledger_ok_def pm_inv_def intro: length_filter_le [THEN le_trans])
  have e: "encodeLedger m 1900 = enc (CArray (map (CMap \<circ> stored_kvs) ?es))"
    using emits_result [OF emits_ledger [OF ok]] ledger_length [OF ok] by (simp add: encodeLedger_def entryCount_used del: enc.simps)
  have a: "ahead (CborReader_new inp) = inp" "length (rd_stack (CborReader_new inp)) = 0" for inp
    by (simp_all add: ahead_def CborReader_new_def)
  from reads_ledger [OF ok] a obtain r' where
    "decode_list 8 decodeLedger_entry (CborReader_new (enc (CArray (map (CMap \<circ> stored_kvs) ?es)) @ rest)) = Inr (?es, r')"
    unfolding reads_def by (metis le_numeral_extra(3))
  then show ?thesis using e enc_nonempty by (simp add: decodeLedger_def del: enc.simps)
qed

text \<open>The operations at run time keep every entry within its bounds, given 16-byte tokens.\<close>

primrec fresh_ok :: "trust_op \<Rightarrow> bool" where
  "fresh_ok (GrantOp inst role mode fresh) = (length fresh = secret_bytes)"
| "fresh_ok (PinOp inst pf nonce fresh now role) = (length fresh = secret_bytes)"
| "fresh_ok (HelloOp inst ck cn cv hv pmode) = True"
| "fresh_ok (RevokeOp inst) = True"
| "fresh_ok (OpenWindowOp pin now) = True"
| "fresh_ok CloseWindowOp = True"
| "fresh_ok (OpenPresenceOp now) = True"
| "fresh_ok ClosePresenceOp = True"

definition table_ok :: "PairedEntry list \<Rightarrow> bool" where
  "table_ok t \<longleftrightarrow> (\<forall>e \<in> set t. pe_used e \<longrightarrow> entry_ok e)"

lemma table_ok_update: "table_ok t \<Longrightarrow> (pe_used e \<Longrightarrow> entry_ok e) \<Longrightarrow> table_ok (t[i := e])"
  by (auto simp: table_ok_def dest!: set_update_subset_insert [THEN subsetD])

lemma length_bs_assign: "length (bs_assign n s) \<le> n"
  by (simp add: bs_assign_def)

lemma entry_ok_new: "length inst = 8 \<Longrightarrow> entry_ok (PairedEntry_new \<lparr> pe_instance_id := inst, pe_used := True \<rparr>)"
  by (simp add: entry_ok_def PairedEntry_new_def)

lemma pm_grant_entries_ok:
  assumes "pm_inv m" and "table_ok (pm_entries m)" and "length fresh = 16"
  shows "table_ok (pm_entries (snd (pm_grant inst role mode fresh m)))"
  using assms(1)
proof (cases rule: findByInstance_cases [where inst = inst])
  case (known i)
  then have "entry_ok (pm_entries m ! i)" using assms(2) by (auto simp: table_ok_def)
  then show ?thesis using known assms(3)
    by (auto simp: pm_grant_def pm_mint_def entry_ok_def intro!: table_ok_update [OF assms(2)])
next
  case unknown
  then show ?thesis
  proof (cases "find_index (\<lambda>e. \<not> pe_used e) (pm_entries m)")
    case (Some i)
    from find_index_less [OF this] show ?thesis using unknown assms(2,3) Some
      by (auto simp: pm_grant_def pm_mint_def entry_ok_def PairedEntry_new_def intro!: table_ok_update [OF assms(2)])
  qed (use assms(2) in \<open>simp add: pm_grant_def\<close>)
qed

lemma trust_step_entries_ok:
  assumes "pm_inv m" and "table_ok (pm_entries m)" and "fresh_ok op"
  shows "table_ok (pm_entries (trust_step SoftwareCrypto op m))"
proof (cases op)
  case (GrantOp inst role mode fresh)
  then show ?thesis using assms pm_grant_entries_ok by simp
next
  case (PinOp inst pf nonce fresh now role)
  obtain r m1 where g: "pm_grant inst role mode_pin_proof fresh m = (r, m1)" by fastforce
  with pm_grant_entries_ok [OF assms(1,2), of fresh inst role mode_pin_proof] assms(3) PinOp have m1: "table_ok (pm_entries m1)" by simp
  show ?thesis using assms(2) m1 g PinOp
    by (auto simp: handlePairReq_def Let_def split: if_splits option.splits)
next
  case (HelloOp inst ck cn cv hv pmode)
  from assms(1) show ?thesis
  proof (cases rule: findByInstance_cases [where inst = inst])
    case (known i)
    then have "entry_ok (pm_entries m ! i)" using assms(2) by (auto simp: table_ok_def)
    then show ?thesis unfolding HelloOp trust_step.simps observeHello_def known(1) option.case Let_def
      using length_bs_assign [of 16 ck] length_bs_assign [of 16 cn] length_bs_assign [of 24 cv]
      by (auto simp: setEntry_def entry_ok_def kLedgerKindMaxBytes_def kLedgerNameMaxBytes_def kLedgerVersionMaxBytes_def
        intro!: table_ok_update [OF assms(2)] split: if_splits)
  qed (use assms(2) HelloOp in \<open>simp add: observeHello_def\<close>)
next
  case (RevokeOp inst)
  then show ?thesis using assms(2)
    by (auto simp: revoke_def setEntry_def PairedEntry_new_def intro: table_ok_update split: option.split)
qed (use assms(2) in \<open>auto simp: openWindow_def closeWindow_def openPresenceWindow_def closePresenceWindow_def\<close>)

lemma trust_run_ledger_ok:
  assumes "list_all fresh_ok ops"
  shows "ledger_ok (trust_run SoftwareCrypto ops PairingManager_new)"
proof -
  have "pm_inv (trust_run SoftwareCrypto ops m) \<and> table_ok (pm_entries (trust_run SoftwareCrypto ops m))"
    if "pm_inv m" "table_ok (pm_entries m)" for m
    using assms that
  proof (induction ops arbitrary: m)
    case (Cons op ops)
    then have "pm_inv (trust_step SoftwareCrypto op m)" "table_ok (pm_entries (trust_step SoftwareCrypto op m))"
      by (simp_all add: software.step_inv trust_step_entries_ok)
    with Cons show ?case by (simp add: trust_run_def)
  qed (simp add: trust_run_def)
  moreover have "table_ok (pm_entries PairingManager_new)"
    by (simp add: table_ok_def PairingManager_new_def PairedEntry_new_def)
  ultimately show ?thesis using pm_inv_new(1) by (simp add: ledger_ok_def table_ok_def list_all_iff)
qed

text \<open>(C33) Trust survives a reboot: whatever pairings, greetings and revocations happened, the ledger blob of the hub fits
  its flash page of 1900 bytes, and decoding it into any manager, whatever bytes follow it on the page, restores
  exactly the devices, tokens, roles and suspensions.\<close>
theorem ledger_survives_reboot:
  assumes "list_all fresh_ok ops" and "m = trust_run SoftwareCrypto ops PairingManager_new"
  shows "let blob = encodeLedger m 1900; (ok, m') = decodeLedger (blob @ rest) boot in
    blob \<noteq> [] \<and> ok \<and> pm_inv m' \<and> trust m' = trust m \<and> filter pe_used (pm_entries m') = filter pe_used (pm_entries m)"
proof -
  let ?es = "filter pe_used (pm_entries m)"
  have l: "ledger_ok m" unfolding assms(2) by (rule trust_run_ledger_ok [OF assms(1)])
  let ?t = "?es @ replicate (8 - length ?es) PairedEntry_new"
  have u: "\<And>e. e \<in> set (replicate (8 - length ?es) PairedEntry_new) \<Longrightarrow> \<not> pe_used e" by (simp add: PairedEntry_new_def)
  have len: "length ?es \<le> 8" using l by (auto simp: ledger_ok_def pm_inv_def intro: length_filter_le [THEN le_trans])
  have "slots_ok pe_used pe_instance_id ?t" 
  proof (rule slots_ok_compact)
    show "slots_ok pe_used pe_instance_id (pm_entries m)" using l by (simp add: ledger_ok_def pm_inv_def)
  qed (rule u)
  then have "pm_inv (touch (boot \<lparr> pm_entries := ?t \<rparr>))"
    using l len by (auto simp: ledger_ok_def pm_inv_def PairedEntry_new_def simp del: replicate.simps)
  moreover have "trust (touch (boot \<lparr> pm_entries := ?t \<rparr>)) = trust m"
  proof
    fix inst
    have "sfind pe_used pe_instance_id ?t inst = sfind pe_used pe_instance_id (pm_entries m) inst"
      by (simp only: sfind_append_unused [OF u] sfind_filter_used)
    then show "trust (touch (boot \<lparr> pm_entries := ?t \<rparr>)) inst = trust m inst" by (simp add: trust_def)
  qed
  moreover have "filter pe_used ?t = ?es" using u by (simp add: filter_replicate PairedEntry_new_def)
  ultimately show ?thesis using ledger_roundtrip [OF l, of rest boot] by (simp add: Let_def)
qed

theorem ledger_survives_reboot_witness:
  "fst (decodeLedger (encodeLedger (trust_run SoftwareCrypto [GrantOp (replicate 8 7) control 1 (replicate 16 9)] PairingManager_new)
     1900) PairingManager_new)"
  using ledger_survives_reboot [OF _ refl, of "[GrantOp (replicate 8 7) control 1 (replicate 16 9)]" "[]" PairingManager_new]
  by (simp add: split_beta Let_def)

section \<open>Any blob\<close>

lemma read_elems_invariant:
  "read_elems n h m r = Inr (m', r') \<Longrightarrow> P m \<Longrightarrow>
   (\<And>m r m' r'. h m r = Inr (m', r') \<Longrightarrow> P m \<Longrightarrow> P m') \<Longrightarrow> P m'"
  by (induction n arbitrary: m r) (auto simp: rbind_Inr_iff)

lemma decode_list_all:
  assumes "decode_list cap rd r = Inr (xs, r')" and "\<And>r x r'. rd r = Inr (x, r') \<Longrightarrow> P x"
  shows "list_all P xs"
proof -
  from assms(1) obtain n r1 where "read_elems n (\<lambda>acc r. rbind (rd r) (\<lambda>(x, r). Inr (acc @ [x], r))) [] r1 = Inr (xs, r')"
    by (auto simp: decode_list_def decode_array_cap_def rbind_Inr_iff split: if_splits)
  then show ?thesis by (rule read_elems_invariant) (auto simp: rbind_Inr_iff dest: assms(2))
qed

lemma decodeLedger_key_bounded:
  assumes "decodeLedger_key k (e, g) r = Inr ((e', g'), r')" and "entry_ok (e \<lparr> pe_used := True \<rparr>)"
  shows "entry_ok (e' \<lparr> pe_used := True \<rparr>)"
proof -
  have st: "\<not> (1 :: u64) < v \<Longrightarrow> (ucast v :: u8) \<le> 1" for v
    by (auto simp: not_less word_le_less_eq word_less_1)
  show ?thesis
    using assms unfolding decodeLedger_key_def split_conv
    by (elim if_Inr_elim rbind_elim)
      (auto simp: entry_ok_def st bs_assign_def kLedgerKindMaxBytes_def kLedgerNameMaxBytes_def kLedgerVersionMaxBytes_def
        dest!: skip_unknown_invariant)
qed

lemma decodeLedger_entry_ok: "decodeLedger_entry r = Inr (e, r') \<Longrightarrow> entry_ok e"
proof -
  assume "decodeLedger_entry r = Inr (e, r')"
  then obtain e0 where d: "decode_map decodeLedger_key (PairedEntry_new, False) r = Inr ((e0, True), r')" "e = e0 \<lparr> pe_used := True \<rparr>"
    by (auto simp: decodeLedger_entry_def rbind_Inr_iff split: if_splits)
  have "case (e0, True) of (e, g) \<Rightarrow> entry_ok (e \<lparr> pe_used := True \<rparr>)"
    by (rule decode_map_invariant [OF d(1)])
      (auto simp: entry_ok_def PairedEntry_new_def dest: decodeLedger_key_bounded)
  then show ?thesis using d(2) by simp
qed

text \<open>(C34) Restoring the ledger is all or nothing: for any bytes whatsoever, \<open>decodeLedger\<close> either refuses and leaves the
  manager as it was, or replaces the whole table by at most eight entries whose identities, tokens, labels and states
  are within their bounds; windows, pending knocks and policies are never affected.\<close>
theorem ledger_all_or_nothing:
  "let (ok, m') = decodeLedger inp m in
   if ok then length (pm_entries m') = 8 \<and> list_all entry_ok (filter pe_used (pm_entries m')) \<and>
     m' = touch (m \<lparr> pm_entries := pm_entries m' \<rparr>)
   else m' = m"
proof (cases "decode_list 8 decodeLedger_entry (CborReader_new inp)")
  case (Inr p)
  obtain es r' where p: "p = (es, r')" by (cases p)
  have "list_all entry_ok es" using decode_list_all [OF Inr [unfolded p]] decodeLedger_entry_ok by blast
  moreover have "length es \<le> 8" using decode_list_bound [OF Inr [unfolded p]] .
  ultimately show ?thesis using Inr p
    by (auto simp: decodeLedger_def list_all_iff touch_def PairedEntry_new_def)
qed (simp add: decodeLedger_def)

text \<open>A stored entry without a token is accepted, and its device is then admitted with sixteen zero bytes.\<close>

theorem tokenless_entry_admits_zero_token:
  "let inst = replicate 8 7; blob = enc (CArray [CMap [(1, CBytes inst), (7, CUint 2)]]);
       (ok, m) = decodeLedger blob PairingManager_new in
   ok \<and> validate SoftwareCrypto inst (replicate 16 0) m = configure"
proof -
  let ?inst = "replicate 8 7 :: bytes"
  let ?e = "PairedEntry_new \<lparr> pe_instance_id := ?inst, pe_role := configure, pe_used := True \<rparr>"
  have "case decode_list 8 decodeLedger_entry (CborReader_new (enc (CArray [CMap [(1, CBytes ?inst), (7, CUint 2)]]))) of
      Inl _ \<Rightarrow> False | Inr (es, r) \<Rightarrow> es = [?e]" by code_simp
  then show ?thesis
    by (auto simp: decodeLedger_def validate_def findByInstance_def touch_def PairedEntry_new_def Let_def split: sum.splits)
qed

lemma filter_at_most_one:
  assumes "length (filter P xs) \<le> 1" and "i < length xs" and "P (xs ! i)" and "j < length xs" and "P (xs ! j)"
  shows "j = i"
proof (rule ccontr)
  assume "j \<noteq> i"
  then have "2 \<le> card {k. k < length xs \<and> P (xs ! k)}"
    using assms(2-5) card_mono [of "{k. k < length xs \<and> P (xs ! k)}" "{i, j}"] by simp
  then show False using assms(1) by (simp add: length_filter_conv_card)
qed

section \<open>The tripwire\<close>

text \<open>Every call that changes the manager: those of \<open>trust_op\<close>, restoring from storage (\<^verbatim>\<open>importEntry\<close>, \<^verbatim>\<open>decodeLedger\<close>), new
  identity strings and presentation mode for an entry, the setters, and any change of the pending knocks. The state and the role of an entry are written by these calls
  only; the pointer that \<^verbatim>\<open>findByInstance\<close> returns is used for the latter.\<close>

datatype manager_op =
    RunOp trust_op
  | ImportOp PairedEntry
  | DecodeOp bytes
  | LabelOp nat bytes bytes bytes u8
  | PresenceRoleOp AccessLevel
  | KnockApproveOp bool
  | WallClockOp u32
  | AutoKeepOp AccessLevel
  | ClearDirtyOp
  | PendingOp PendingPairingList

primrec manager_step :: "ICrypto \<Rightarrow> manager_op \<Rightarrow> PairingManager \<Rightarrow> PairingManager" where
  "manager_step c (RunOp op) m = trust_step c op m"
| "manager_step c (ImportOp e) m = snd (importEntry e m)"
| "manager_step c (DecodeOp inp) m = snd (decodeLedger inp m)"
| "manager_step c (LabelOp i kind name ver mode) m =
    setEntry i ((pm_entries m ! i) \<lparr> pe_kind := kind, pe_name := name, pe_version := ver, pe_presentationMode := mode \<rparr>) m"
| "manager_step c (PresenceRoleOp r) m = m \<lparr> pm_presenceDefaultRole := r \<rparr>"
| "manager_step c (KnockApproveOp on) m = m \<lparr> pm_knockApproveEnabled := on \<rparr>"
| "manager_step c (WallClockOp s) m = m \<lparr> pm_wallSeconds := s \<rparr>"
| "manager_step c (AutoKeepOp r) m = m \<lparr> pm_autoKeepMax := r \<rparr>"
| "manager_step c ClearDirtyOp m = m \<lparr> pm_dirty := False \<rparr>"
| "manager_step c (PendingOp t) m = m \<lparr> pm_pending := t \<rparr>"

definition manager_run :: "ICrypto \<Rightarrow> manager_op list \<Rightarrow> PairingManager \<Rightarrow> PairingManager" where
  "manager_run c ops m = foldl (\<lambda>m op. manager_step c op m) m ops"

text \<open>The entries of a device; a device that was paired by ceremonies only has at most one.\<close>

definition entries_of :: "bytes \<Rightarrow> PairingManager \<Rightarrow> PairedEntry list" where
  "entries_of inst m = filter (\<lambda>e. pe_used e \<and> pe_instance_id e = inst) (pm_entries m)"

definition all_suspended :: "bytes \<Rightarrow> PairingManager \<Rightarrow> bool" where
  "all_suspended inst m \<longleftrightarrow> list_all (\<lambda>e. pe_state e = ts_recognized_pending) (entries_of inst m)"

text \<open>The call makes the device trusted again: a grant or a PIN pairing for it that succeeds, or storage that says so.\<close>

definition reinstates :: "ICrypto \<Rightarrow> PairingManager \<Rightarrow> bytes \<Rightarrow> manager_op \<Rightarrow> bool" where
  "reinstates c m inst op \<longleftrightarrow>
    (case op of
       RunOp op \<Rightarrow> (\<exists>tok role. mints c m inst tok role op)
     | ImportOp e \<Rightarrow> pe_instance_id e = inst \<and> pe_state e \<noteq> ts_recognized_pending
     | DecodeOp inp \<Rightarrow> fst (decodeLedger inp m) \<and> \<not> all_suspended inst (snd (decodeLedger inp m))
     | _ \<Rightarrow> False)"

lemma all_suspended_iff:
  "all_suspended inst m \<longleftrightarrow> (\<forall>e \<in> set (pm_entries m). pe_used e \<longrightarrow> pe_instance_id e = inst \<longrightarrow> pe_state e = ts_recognized_pending)"
  by (auto simp: all_suspended_def entries_of_def list_all_iff)

lemma suspended_set:
  assumes "all_suspended inst m" and "pe_used e \<Longrightarrow> pe_instance_id e = inst \<Longrightarrow> pe_state e = ts_recognized_pending"
    and "pm_entries m' = (pm_entries m)[i := e]"
  shows "all_suspended inst m'"
  using assms by (auto simp: all_suspended_iff dest!: set_update_subset_insert [THEN subsetD])

lemma suspended_same: "pm_entries m' = pm_entries m \<Longrightarrow> all_suspended inst m' = all_suspended inst m"
  by (simp add: all_suspended_iff)

lemma findByInstance_nth:
  "findByInstance inst m = Some i \<Longrightarrow> i < length (pm_entries m) \<and> pe_used (pm_entries m ! i) \<and> pe_instance_id (pm_entries m ! i) = inst"
  by (auto simp: findByInstance_def split: if_splits dest!: find_index_Some)

lemma suspended_grant:
  assumes "all_suspended inst m" and "inst' \<noteq> inst"
  shows "all_suspended inst (snd (pm_grant inst' role mode fresh m))"
proof (cases "findByInstance inst' m")
  case (Some i)
  then show ?thesis using assms findByInstance_nth [OF Some]
    by (auto simp: pm_grant_def pm_mint_def all_suspended_iff dest!: set_update_subset_insert [THEN subsetD])
next
  case None
  then show ?thesis using assms
    by (auto simp: pm_grant_def pm_mint_def all_suspended_iff split: option.split dest: find_index_less dest!: set_update_subset_insert [THEN subsetD])
qed

text \<open>What a greeting does to the table.\<close>

lemma observeHello_entry:
  assumes "observeHello inst ck cn cv hv pmode m = (out, m')"
  shows "(findByInstance inst m = None \<and> m' = m \<and> out = HelloObservation_new) \<or>
    (\<exists>i e. findByInstance inst m = Some i \<and> pm_entries m' = (pm_entries m)[i := e] \<and> pe_instance_id e = pe_instance_id (pm_entries m ! i) \<and>
       (pe_state e = ts_recognized_pending \<longleftrightarrow> ho_suspended out \<or> pe_state (pm_entries m ! i) = ts_recognized_pending) \<and>
       ho_suspendedRole out = pe_role (pm_entries m ! i) \<and>
       (ho_suspended out \<longrightarrow> role_u8 (pm_autoKeepMax m) < role_u8 (pe_role (pm_entries m ! i))))"
proof (cases "findByInstance inst m")
  case (Some i)
  then show ?thesis
    using assms by (auto simp: observeHello_def Let_def setEntry_def touch_def HelloObservation_new_def not_le split: if_splits)
qed (use assms in \<open>simp add: observeHello_def\<close>)

lemma suspended_trust_step:
  assumes "all_suspended inst m" and "\<And>tok role. \<not> mints SoftwareCrypto m inst tok role op"
  shows "all_suspended inst (trust_step SoftwareCrypto op m)"
proof (cases op)
  case (GrantOp inst' role mode fresh)
  show ?thesis
  proof (cases "inst' = inst")
    case True
    then have "fst (pm_grant inst' role mode fresh m) = None" using assms(2) [of fresh role] GrantOp by simp
    then have "snd (pm_grant inst' role mode fresh m) = m" by (auto simp: pm_grant_def split: option.splits if_splits)
    then show ?thesis using assms(1) GrantOp by simp
  qed (use suspended_grant [OF assms(1)] GrantOp in simp)
next
  case (PinOp inst' pf nonce fresh now role)
  show ?thesis
  proof (cases "inst' = inst")
    case True
    then have "\<not> (windowOpen now m \<and> pf = pairingPinProof (pm_pin m) nonce)" using assms(2) [of fresh role] PinOp by simp
    then have "pm_entries (trust_step SoftwareCrypto op m) = pm_entries m" using PinOp by (auto simp: handlePairReq_def Let_def)
    then show ?thesis using assms(1) suspended_same by blast
  next
    case False
    have f: "all_suspended inst (x \<lparr> pm_failCount := k \<rparr>) = all_suspended inst x" "all_suspended inst (x \<lparr> pm_windowOpen := b \<rparr>) = all_suspended inst x"
      for x k b by (rule suspended_same, simp)+
    obtain r m1 where g: "pm_grant inst' role mode_pin_proof fresh m = (r, m1)" by fastforce
    then show ?thesis using suspended_grant [OF assms(1) False, of role mode_pin_proof fresh] assms(1) PinOp f
      by (auto simp: handlePairReq_def Let_def split: option.split)
  qed
next
  case (HelloOp inst' ck cn cv hv pmode)
  obtain out m' where o: "observeHello inst' ck cn cv hv pmode m = (out, m')" by fastforce
  from observeHello_entry [OF o] show ?thesis
  proof (elim disjE exE conjE)
    fix i e
    assume i: "findByInstance inst' m = Some i" and e: "pm_entries m' = (pm_entries m)[i := e]" "pe_instance_id e = pe_instance_id (pm_entries m ! i)"
      "(pe_state e = ts_recognized_pending) = (ho_suspended out \<or> pe_state (pm_entries m ! i) = ts_recognized_pending)"
    have "pe_state e = ts_recognized_pending" if "pe_instance_id e = inst"
      using assms(1) findByInstance_nth [OF i] e(2,3) that by (auto simp: all_suspended_iff)
    then show ?thesis using suspended_set [OF assms(1) _ e(1)] HelloOp o by simp
  qed (use assms(1) HelloOp o in simp)
next
  case (RevokeOp inst')
  then show ?thesis using assms(1)
    by (auto simp: revoke_def setEntry_def touch_def PairedEntry_new_def split: option.split intro!: suspended_set [OF assms(1)])
qed (use assms(1) in \<open>auto simp: all_suspended_iff openWindow_def closeWindow_def openPresenceWindow_def closePresenceWindow_def\<close>)

lemma suspended_manager_step:
  assumes "all_suspended inst m" and "\<not> reinstates SoftwareCrypto m inst op"
  shows "all_suspended inst (manager_step SoftwareCrypto op m)"
proof (cases op)
  case (RunOp op') then show ?thesis using assms by (auto simp: reinstates_def intro: suspended_trust_step)
next
  case (ImportOp e)
  then show ?thesis using assms
    by (auto simp: reinstates_def importEntry_def setEntry_def all_suspended_iff split: option.split dest!: set_update_subset_insert [THEN subsetD])
next
  case (DecodeOp inp)
  have "snd (decodeLedger inp m) = m" if "\<not> fst (decodeLedger inp m)" using that by (auto simp: decodeLedger_def split: sum.splits)
  then show ?thesis using assms DecodeOp by (cases "fst (decodeLedger inp m)") (auto simp: reinstates_def)
next
  case (LabelOp i kind name ver mode)
  show ?thesis
  proof (cases "i < length (pm_entries m)")
    case True
    then have "pm_entries m ! i \<in> set (pm_entries m)" by simp
    then show ?thesis using assms(1) LabelOp
      by (auto simp: setEntry_def all_suspended_iff dest!: set_update_subset_insert [THEN subsetD])
  qed (use assms(1) LabelOp in \<open>simp add: setEntry_def list_update_beyond\<close>)
qed (use assms(1) in \<open>auto simp: all_suspended_iff\<close>)

lemma suspended_watch:
  assumes "all_suspended inst m"
  shows "validate c inst token m = watch \<and> fst (validateProof c inst pf nonce m) = watch"
proof -
  have "pe_state (pm_entries m ! i) = ts_recognized_pending" if "findByInstance inst m = Some i" for i
    using assms findByInstance_nth [OF that] by (auto simp: all_suspended_iff)
  then show ?thesis by (auto simp: validate_def validateProof_def Let_def split: option.split)
qed

text \<open>(C28) The tripwire: when a greeting makes the hub suspend a device of which the ledger has one entry, the suspended role was above the
  auto-keep ceiling, and from then on neither the device's token nor any proof gives it more than \<open>watch\<close>, whatever calls change the manager,
  revocations, greetings, other pairings and restores from storage included, until one of them makes the device trusted again: a grant or PIN
  pairing for it that succeeds, or an \<^verbatim>\<open>importEntry\<close> or \<^verbatim>\<open>decodeLedger\<close> that installs an entry of it that is not suspended.\<close>
theorem tripwire_holds:
  assumes "length (entries_of inst m0) \<le> 1" and "observeHello inst ck cn cv hv pmode m0 = (out, m)" and "ho_suspended out"
    and "\<forall>before op after. ops = before @ op # after \<longrightarrow> \<not> reinstates SoftwareCrypto (manager_run SoftwareCrypto before m) inst op"
  shows "role_u8 (pm_autoKeepMax m0) < role_u8 (ho_suspendedRole out) \<and>
    validate SoftwareCrypto inst token (manager_run SoftwareCrypto ops m) = watch \<and>
    fst (validateProof SoftwareCrypto inst pf nonce (manager_run SoftwareCrypto ops m)) = watch"
proof -
  from observeHello_entry [OF assms(2)] assms(3) obtain i e where i: "findByInstance inst m0 = Some i" and
    e: "pm_entries m = (pm_entries m0)[i := e]" "pe_state e = ts_recognized_pending"
      "role_u8 (pm_autoKeepMax m0) < role_u8 (ho_suspendedRole out)"
    by (auto simp: HelloObservation_new_def)
  have j: "j = i" if "j < length (pm_entries m0)" "pe_used (pm_entries m0 ! j)" "pe_instance_id (pm_entries m0 ! j) = inst" for j
    using filter_at_most_one [of "\<lambda>e. pe_used e \<and> pe_instance_id e = inst" "pm_entries m0" i j] assms(1) findByInstance_nth [OF i] that
    by (simp add: entries_of_def)
  have "pe_state (pm_entries m ! k) = ts_recognized_pending"
    if "k < length (pm_entries m)" "pe_used (pm_entries m ! k)" "pe_instance_id (pm_entries m ! k) = inst" for k
    using e(1,2) j [of k] that by (cases "k = i") simp_all
  then have "all_suspended inst m" by (auto simp: all_suspended_iff in_set_conv_nth)
  then have "all_suspended inst (manager_run SoftwareCrypto ops m)" using assms(4)
  proof (induction ops rule: rev_induct)
    case (snoc op ops)
    have "\<not> reinstates SoftwareCrypto (manager_run SoftwareCrypto before m) inst op'" if "ops = before @ op' # after" for before op' after
      using snoc.prems(2) that by (metis append_Cons append_assoc)
    then have "all_suspended inst (manager_run SoftwareCrypto ops m)" using snoc by blast
    moreover have "\<not> reinstates SoftwareCrypto (manager_run SoftwareCrypto ops m) inst op" using snoc.prems(2) by blast
    ultimately show ?case using suspended_manager_step by (simp add: manager_run_def)
  qed (simp add: manager_run_def)
  with suspended_watch e(3) show ?thesis by blast
qed

theorem tripwire_holds_witness:
  "(let inst = replicate 8 7; (i, m) = pm_grant inst control 1 (replicate 16 9) PairingManager_new;
        m0 = snd (observeHello inst [] [] [1] True 0 m); (out, m1) = observeHello inst [] [] [2] True 0 m0 in
    ho_suspended out \<and> validate SoftwareCrypto inst (replicate 16 9)
      (manager_run SoftwareCrypto [RunOp (RevokeOp (replicate 8 8)), ImportOp PairedEntry_new] m1) = watch)"
proof -
  let ?inst = "replicate 8 7 :: bytes" and ?ops = "[RunOp (RevokeOp (replicate 8 8)), ImportOp PairedEntry_new]"
  let ?m = "snd (pm_grant ?inst control 1 (replicate 16 9) PairingManager_new)"
  let ?before = "snd (observeHello ?inst [] [] [1] True 0 ?m)"
  obtain out m1 where o: "observeHello ?inst [] [] [2] True 0 ?before = (out, m1)" by fastforce
  have "ho_suspended (fst (observeHello ?inst [] [] [2] True 0 ?before))" by code_simp
  then have s: "ho_suspended out" using o by simp
  have one: "length (entries_of ?inst ?before) \<le> 1" by code_simp
  have n: "\<forall>before op after. ?ops = before @ op # after \<longrightarrow> \<not> reinstates SoftwareCrypto (manager_run SoftwareCrypto before m1) ?inst op"
    by (auto simp: Cons_eq_append_conv reinstates_def PairedEntry_new_def)
  from tripwire_holds [OF one o s n] s o show ?thesis by (simp add: Let_def split_beta)
qed

end
