(* ===== verification/Catalog.thy ===== *)
theory Catalog
  imports Authority
begin

text \<open>
  The hub's catalog, \<^verbatim>\<open>channel/catalog.hpp\<close>: the entries with their payload fields in shared pools, the
  builder operations and the lookups.
  \<^item> A \<open>std::string_view\<close> is its bytes, a \<open>float\<close> its binary32 pattern, the \<open>SettingDefault\<close> union a datatype.
  \<^item> The template arguments are the record \<open>CatalogCaps\<close>; the used prefix of each pool is a list, so
    \<open>layoutUsed\<close>, \<open>schemaUsed\<close>, \<open>labelUsed\<close>, \<open>storeUsed\<close> and \<open>count\<close> are the lengths.  The parallel arrays
    \<open>labelPool\<close> and \<open>labelAccessPool\<close> are one list of pairs.
  \<^item> A field pair \<open>hasX\<close>, \<open>x\<close> of the source is an option where the model keeps the annotation.
  \<^item> A pointer to an entry is its index.
\<close>

section \<open>Definitions: data\<close>

datatype SettingDefault = SD_None | SD_Int int | SD_Float u32 | SD_Bool bool | SD_Tstr bytes

record LabelRef =
  lr_offset :: u16
  lr_count :: u8

definition LabelRef_new :: LabelRef where
  "LabelRef_new = \<lparr> lr_offset = 0xFFFF, lr_count = 0 \<rparr>"

datatype PackedFieldType = PF_u8 | PF_i8 | PF_u16 | PF_i16 | PF_u32 | PF_i32 | PF_f32 | PF_bitfield8 | PF_str16 | PF_str32 | PF_str64

record LayoutField =
  lf_name :: bytes
  lf_type :: PackedFieldType
  lf_unit :: bytes
  lf_scale :: u32
  lf_min :: "u32 option"
  lf_max :: "u32 option"
  lf_bits :: LabelRef
  lf_options :: LabelRef
  lf_dflt :: SettingDefault
  lf_group :: bytes
  lf_desc :: bytes
  lf_role :: bytes
  lf_step :: "u32 option"
  lf_settingKey :: "u8 option"
  lf_flags :: u8
  lf_rank :: "u8 option"
  lf_aspect :: "u8 option"
  lf_scope :: "u8 option"
  lf_provenance :: "u8 option"
  lf_unitId :: "u8 option"

primrec wireSize_of :: "PackedFieldType \<Rightarrow> nat" where
  "wireSize_of PF_u8 = 1"
| "wireSize_of PF_i8 = 1"
| "wireSize_of PF_bitfield8 = 1"
| "wireSize_of PF_u16 = 2"
| "wireSize_of PF_i16 = 2"
| "wireSize_of PF_u32 = 4"
| "wireSize_of PF_i32 = 4"
| "wireSize_of PF_f32 = 4"
| "wireSize_of PF_str16 = 16"
| "wireSize_of PF_str32 = 32"
| "wireSize_of PF_str64 = 64"

definition wireSize :: "LayoutField \<Rightarrow> nat" where
  "wireSize f = wireSize_of (lf_type f)"

datatype CborFieldType = CF_uint | CF_int | CF_f32 | CF_bool | CF_tstr | CF_bstr

record SchemaField =
  sf_key :: u8
  sf_name :: bytes
  sf_type :: CborFieldType
  sf_unit :: bytes
  sf_min :: "u32 option"
  sf_max :: "u32 option"
  sf_dflt :: SettingDefault
  sf_options :: LabelRef
  sf_group :: bytes
  sf_desc :: bytes
  sf_role :: bytes
  sf_step :: "u32 option"
  sf_flags :: u8
  sf_access :: "AccessLevel option"
  sf_hasOptionAccess :: bool
  sf_rank :: "u8 option"
  sf_aspect :: "u8 option"
  sf_scope :: "u8 option"
  sf_provenance :: "u8 option"
  sf_unitId :: "u8 option"

record StoreDescriptor =
  sd_storeId :: u8
  sd_kind :: bytes
  sd_capacity :: u16
  sd_perItemMax :: u32
  sd_nameMax :: u16

datatype Direction = h2c | c2h

datatype FieldForm = FF_Layout | FF_Schema | FF_Store

record CatalogEntry =
  ce_id :: u16
  ce_name :: bytes
  ce_cls :: ChannelClass
  ce_dir :: Direction
  ce_access :: AccessLevel
  ce_maxRateHz :: u32
  ce_defaultPriority :: Priority
  ce_fieldCount :: u8
  ce_fieldOffset :: u16
  ce_category :: "u8 option"
  ce_categoryLabel :: bytes
  ce_replayDepth :: "u16 option"
  ce_settingChannel :: "u16 option"
  ce_streamKind :: u8
  ce_rank :: "u8 option"

abbreviation (input) kMaxFields :: nat where "kMaxFields \<equiv> 64"
abbreviation (input) kMaxLabels :: nat where "kMaxLabels \<equiv> 255"
abbreviation (input) stream_kind_segments :: u8 where "stream_kind_segments \<equiv> 1"

primrec form_of :: "ChannelClass \<Rightarrow> FieldForm" where
  "form_of CC_STATE = FF_Layout"
| "form_of CC_STREAM = FF_Layout"
| "form_of CC_INTENT = FF_Schema"
| "form_of CC_EVENT = FF_Schema"
| "form_of CC_STORE = FF_Store"

definition ce_form :: "CatalogEntry \<Rightarrow> FieldForm" where
  "ce_form e = form_of (ce_cls e)"

definition layoutWireSize_fields :: "LayoutField list \<Rightarrow> nat" where
  "layoutWireSize_fields fs = foldl (\<lambda>s f. s + wireSize f) 0 fs"

record CatalogCaps =
  cap_entries :: nat
  cap_layout :: nat
  cap_schema :: nat
  cap_labels :: nat
  cap_stores :: nat

definition Catalog32_caps :: CatalogCaps where
  "Catalog32_caps = \<lparr> cap_entries = 48, cap_layout = 200, cap_schema = 160, cap_labels = 192, cap_stores = 4 \<rparr>"

record BasicCatalog =
  bc_entries :: "CatalogEntry list"
  bc_layoutPool :: "LayoutField list"
  bc_schemaPool :: "SchemaField list"
  bc_storePool :: "StoreDescriptor list"
  bc_labelPool :: "(bytes \<times> AccessLevel) list"
  bc_overflow :: bool

definition BasicCatalog_new :: BasicCatalog where
  "BasicCatalog_new = \<lparr> bc_entries = [], bc_layoutPool = [], bc_schemaPool = [], bc_storePool = [], bc_labelPool = [],
     bc_overflow = False \<rparr>"

section \<open>Definitions: lookups\<close>

definition cat_find :: "u16 \<Rightarrow> BasicCatalog \<Rightarrow> CatalogEntry option" where
  "cat_find i c = map_option ((!) (bc_entries c)) (find_index (\<lambda>e. ce_id e = i) (bc_entries c))"

definition layoutFields :: "BasicCatalog \<Rightarrow> CatalogEntry \<Rightarrow> LayoutField list" where
  "layoutFields c e =
    (if ce_form e \<noteq> FF_Layout then []
     else if unat (ce_fieldOffset e) + unat (ce_fieldCount e) > length (bc_layoutPool c) then []
     else take (unat (ce_fieldCount e)) (drop (unat (ce_fieldOffset e)) (bc_layoutPool c)))"

definition schemaFields :: "BasicCatalog \<Rightarrow> CatalogEntry \<Rightarrow> SchemaField list" where
  "schemaFields c e =
    (if ce_form e \<noteq> FF_Schema then []
     else if unat (ce_fieldOffset e) + unat (ce_fieldCount e) > length (bc_schemaPool c) then []
     else take (unat (ce_fieldCount e)) (drop (unat (ce_fieldOffset e)) (bc_schemaPool c)))"

definition storeDescriptor :: "BasicCatalog \<Rightarrow> CatalogEntry \<Rightarrow> StoreDescriptor option" where
  "storeDescriptor c e =
    (if ce_form e \<noteq> FF_Store \<or> ce_fieldCount e \<noteq> 1 then None
     else if unat (ce_fieldOffset e) + 1 > length (bc_storePool c) then None
     else Some (bc_storePool c ! unat (ce_fieldOffset e)))"

definition label_span :: "BasicCatalog \<Rightarrow> LabelRef \<Rightarrow> (bytes \<times> AccessLevel) list" where
  "label_span c r =
    (if lr_count r = 0 \<or> unat (lr_offset r) + unat (lr_count r) > length (bc_labelPool c) then []
     else take (unat (lr_count r)) (drop (unat (lr_offset r)) (bc_labelPool c)))"

definition labels :: "BasicCatalog \<Rightarrow> LabelRef \<Rightarrow> bytes list" where
  "labels c r = map fst (label_span c r)"

definition labelAccess :: "BasicCatalog \<Rightarrow> LabelRef \<Rightarrow> AccessLevel list" where
  "labelAccess c r = map snd (label_span c r)"

definition optionAccess :: "BasicCatalog \<Rightarrow> SchemaField \<Rightarrow> AccessLevel list" where
  "optionAccess c f = (if \<not> sf_hasOptionAccess f then [] else labelAccess c (sf_options f))"

definition layoutWireSize :: "BasicCatalog \<Rightarrow> CatalogEntry \<Rightarrow> nat" where
  "layoutWireSize c e = layoutWireSize_fields (layoutFields c e)"

definition isSegmentClass :: "CatalogEntry \<Rightarrow> bool" where
  "isSegmentClass e \<longleftrightarrow> ce_cls e = CC_STREAM \<and> ce_streamKind e = stream_kind_segments"

section \<open>Definitions: building\<close>

definition cat_fail :: "BasicCatalog \<Rightarrow> bool \<times> BasicCatalog" where
  "cat_fail c = (False, c \<lparr> bc_overflow := True \<rparr>)"

definition addEntry :: "CatalogCaps \<Rightarrow> CatalogEntry \<Rightarrow> BasicCatalog \<Rightarrow> bool \<times> BasicCatalog" where
  "addEntry caps header c =
    (if length (bc_entries c) \<ge> cap_entries caps then cat_fail c
     else
       let off = (case ce_form header of
                    FF_Layout \<Rightarrow> length (bc_layoutPool c)
                  | FF_Schema \<Rightarrow> length (bc_schemaPool c)
                  | FF_Store \<Rightarrow> length (bc_storePool c))
       in (True, c \<lparr> bc_entries := bc_entries c @ [header \<lparr> ce_fieldCount := 0, ce_fieldOffset := of_nat off \<rparr>] \<rparr>))"

text \<open>\<open>++e.fieldCount\<close> on \<open>entries[count - 1]\<close>.\<close>

definition bump_last :: "CatalogEntry list \<Rightarrow> CatalogEntry list" where
  "bump_last es = butlast es @ [(last es) \<lparr> ce_fieldCount := ce_fieldCount (last es) + 1 \<rparr>]"

definition addLayoutField :: "CatalogCaps \<Rightarrow> LayoutField \<Rightarrow> BasicCatalog \<Rightarrow> bool \<times> BasicCatalog" where
  "addLayoutField caps f c =
    (if bc_entries c = [] \<or> length (bc_layoutPool c) \<ge> cap_layout caps then cat_fail c
     else
       let e = last (bc_entries c) in
       if ce_form e \<noteq> FF_Layout \<or> unat (ce_fieldOffset e) + unat (ce_fieldCount e) \<noteq> length (bc_layoutPool c) then cat_fail c
       else if unat (ce_fieldCount e) \<ge> kMaxFields then cat_fail c
       else (True, c \<lparr> bc_layoutPool := bc_layoutPool c @ [f], bc_entries := bump_last (bc_entries c) \<rparr>))"

definition addSchemaField :: "CatalogCaps \<Rightarrow> SchemaField \<Rightarrow> BasicCatalog \<Rightarrow> bool \<times> BasicCatalog" where
  "addSchemaField caps f c =
    (if bc_entries c = [] \<or> length (bc_schemaPool c) \<ge> cap_schema caps then cat_fail c
     else
       let e = last (bc_entries c) in
       if ce_form e \<noteq> FF_Schema \<or> unat (ce_fieldOffset e) + unat (ce_fieldCount e) \<noteq> length (bc_schemaPool c) then cat_fail c
       else if unat (ce_fieldCount e) \<ge> kMaxFields then cat_fail c
       else (True, c \<lparr> bc_schemaPool := bc_schemaPool c @ [f], bc_entries := bump_last (bc_entries c) \<rparr>))"

definition addStoreDescriptor :: "CatalogCaps \<Rightarrow> StoreDescriptor \<Rightarrow> BasicCatalog \<Rightarrow> bool \<times> BasicCatalog" where
  "addStoreDescriptor caps d c =
    (if bc_entries c = [] \<or> length (bc_storePool c) \<ge> cap_stores caps then cat_fail c
     else
       let e = last (bc_entries c) in
       if ce_form e \<noteq> FF_Store \<or> ce_fieldCount e \<noteq> 0 \<or> unat (ce_fieldOffset e) \<noteq> length (bc_storePool c) then cat_fail c
       else (True, c \<lparr> bc_storePool := bc_storePool c @ [d],
                       bc_entries := butlast (bc_entries c) @ [e \<lparr> ce_fieldCount := 1 \<rparr>] \<rparr>))"

definition poolAddLabel :: "CatalogCaps \<Rightarrow> bytes \<Rightarrow> AccessLevel \<Rightarrow> BasicCatalog \<Rightarrow> bool \<times> BasicCatalog" where
  "poolAddLabel caps s a c =
    (if length (bc_labelPool c) \<ge> cap_labels caps then cat_fail c
     else (True, c \<lparr> bc_labelPool := bc_labelPool c @ [(s, a)] \<rparr>))"

definition poolSetLabelAccess :: "nat \<Rightarrow> AccessLevel \<Rightarrow> BasicCatalog \<Rightarrow> bool \<times> BasicCatalog" where
  "poolSetLabelAccess i a c =
    (if i \<ge> length (bc_labelPool c) then cat_fail c
     else (True, c \<lparr> bc_labelPool := (bc_labelPool c)[i := (fst (bc_labelPool c ! i), a)] \<rparr>))"

fun addLabels :: "CatalogCaps \<Rightarrow> (bytes \<times> AccessLevel) list \<Rightarrow> BasicCatalog \<Rightarrow> bool \<times> BasicCatalog" where
  "addLabels caps [] c = (True, c)"
| "addLabels caps ((s, a) # ls) c =
    (case poolAddLabel caps s a c of (False, c) \<Rightarrow> (False, c) | (True, c) \<Rightarrow> addLabels caps ls c)"

definition checkOptionLabels :: "bytes list \<Rightarrow> BasicCatalog \<Rightarrow> bool \<times> BasicCatalog" where
  "checkOptionLabels options c = (if list_ex (\<lambda>o'. o' = []) options then cat_fail c else (True, c))"

text \<open>Trailing empty labels are dropped; \<open>rev (dropWhile ... (rev in))\<close> is the \<open>while (n > 0 && p[n - 1].empty()) --n\<close> loop.\<close>

definition internLabels :: "CatalogCaps \<Rightarrow> bytes list \<Rightarrow> nat \<Rightarrow> BasicCatalog \<Rightarrow> LabelRef option \<times> BasicCatalog" where
  "internLabels caps inp maxCount c =
    (let p = rev (dropWhile (\<lambda>s. s = []) (rev inp)); n = length p in
     if n = 0 then (Some LabelRef_new, c)
     else if n > maxCount then (None, snd (cat_fail c))
     else
       let mark = length (bc_labelPool c) in
       case addLabels caps (map (\<lambda>s. (s, watch)) p) c of
         (False, c) \<Rightarrow> (None, c)
       | (True, c) \<Rightarrow> (Some \<lparr> lr_offset = of_nat mark, lr_count = of_nat n \<rparr>, c))"

definition addBitfieldField :: "CatalogCaps \<Rightarrow> LayoutField \<Rightarrow> bytes list \<Rightarrow> BasicCatalog \<Rightarrow> bool \<times> BasicCatalog" where
  "addBitfieldField caps f bits c =
    (case internLabels caps bits 8 c of
       (None, c) \<Rightarrow> (False, c)
     | (Some r, c) \<Rightarrow> addLayoutField caps (f \<lparr> lf_bits := r \<rparr>) c)"

definition addSelectField :: "CatalogCaps \<Rightarrow> LayoutField \<Rightarrow> bytes list \<Rightarrow> BasicCatalog \<Rightarrow> bool \<times> BasicCatalog" where
  "addSelectField caps f options c =
    (case checkOptionLabels options c of
       (False, c) \<Rightarrow> (False, c)
     | (True, c) \<Rightarrow>
         (case internLabels caps options kMaxLabels c of
            (None, c) \<Rightarrow> (False, c)
          | (Some r, c) \<Rightarrow> addLayoutField caps (f \<lparr> lf_options := r \<rparr>) c))"

text \<open>The copy of the access levels into \<open>labelAccessPool\<close>, entry by entry.\<close>

definition setAccesses :: "nat \<Rightarrow> AccessLevel list \<Rightarrow> BasicCatalog \<Rightarrow> BasicCatalog" where
  "setAccesses off as c = foldl (\<lambda>c i. snd (poolSetLabelAccess (off + i) (as ! i) c)) c [0..<length as]"

definition addSelectSchemaField ::
  "CatalogCaps \<Rightarrow> SchemaField \<Rightarrow> bytes list \<Rightarrow> AccessLevel list \<Rightarrow> BasicCatalog \<Rightarrow> bool \<times> BasicCatalog" where
  "addSelectSchemaField caps f options acc c =
    (if acc \<noteq> [] \<and> length acc \<noteq> length options then cat_fail c
     else case checkOptionLabels options c of
       (False, c) \<Rightarrow> (False, c)
     | (True, c) \<Rightarrow>
         (case internLabels caps options kMaxLabels c of
            (None, c) \<Rightarrow> (False, c)
          | (Some r, c) \<Rightarrow>
              if acc \<noteq> [] then
                addSchemaField caps (f \<lparr> sf_options := r, sf_hasOptionAccess := True \<rparr>)
                  (setAccesses (unat (lr_offset r)) (take (unat (lr_count r)) acc) c)
              else addSchemaField caps (f \<lparr> sf_options := r \<rparr>) c))"

definition reintern :: "CatalogCaps \<Rightarrow> BasicCatalog \<Rightarrow> LabelRef \<Rightarrow> BasicCatalog \<Rightarrow> LabelRef option \<times> BasicCatalog" where
  "reintern caps src r c =
    (if lr_count r = 0 then (Some LabelRef_new, c)
     else
       let text = labels src r; acc = labelAccess src r in
       if length text \<noteq> unat (lr_count r) then (None, c)
       else
         let mark = length (bc_labelPool c) in
         case addLabels caps (zip text (if acc = [] then replicate (length text) watch else acc)) c of
           (False, c) \<Rightarrow> (None, c)
         | (True, c) \<Rightarrow> (Some \<lparr> lr_offset = of_nat mark, lr_count = lr_count r \<rparr>, c))"

fun copyLayoutFields :: "CatalogCaps \<Rightarrow> BasicCatalog \<Rightarrow> LayoutField list \<Rightarrow> BasicCatalog \<Rightarrow> bool \<times> BasicCatalog" where
  "copyLayoutFields caps src [] c = (True, c)"
| "copyLayoutFields caps src (f # fs) c =
    (case reintern caps src (lf_bits f) c of
       (None, c) \<Rightarrow> (False, c)
     | (Some rb, c) \<Rightarrow>
         (case reintern caps src (lf_options f) c of
            (None, c) \<Rightarrow> (False, c)
          | (Some ro, c) \<Rightarrow>
              (case addLayoutField caps (f \<lparr> lf_bits := rb, lf_options := ro \<rparr>) c of
                 (False, c) \<Rightarrow> (False, c)
               | (True, c) \<Rightarrow> copyLayoutFields caps src fs c)))"

fun copySchemaFields :: "CatalogCaps \<Rightarrow> BasicCatalog \<Rightarrow> SchemaField list \<Rightarrow> BasicCatalog \<Rightarrow> bool \<times> BasicCatalog" where
  "copySchemaFields caps src [] c = (True, c)"
| "copySchemaFields caps src (f # fs) c =
    (case reintern caps src (sf_options f) c of
       (None, c) \<Rightarrow> (False, c)
     | (Some ro, c) \<Rightarrow>
         (case addSchemaField caps (f \<lparr> sf_options := ro \<rparr>) c of
            (False, c) \<Rightarrow> (False, c)
          | (True, c) \<Rightarrow> copySchemaFields caps src fs c))"

definition addEntryFrom :: "CatalogCaps \<Rightarrow> BasicCatalog \<Rightarrow> CatalogEntry \<Rightarrow> BasicCatalog \<Rightarrow> bool \<times> BasicCatalog" where
  "addEntryFrom caps src e c =
    (case addEntry caps e c of
       (False, c) \<Rightarrow> (False, c)
     | (True, c) \<Rightarrow>
         (case ce_form e of
            FF_Layout \<Rightarrow> copyLayoutFields caps src (layoutFields src e) c
          | FF_Schema \<Rightarrow> copySchemaFields caps src (schemaFields src e) c
          | FF_Store \<Rightarrow>
              (case storeDescriptor src e of
                 None \<Rightarrow> (False, c)
               | Some d \<Rightarrow> addStoreDescriptor caps d c)))"

text \<open>The raw appends the catalog decoder uses: each fills one pool without looking at the open entry, and
  \<open>addEntryVerbatim\<close> installs a header with the marks the decoder took.\<close>

definition cat_clear :: "BasicCatalog \<Rightarrow> BasicCatalog" where
  "cat_clear c = c \<lparr> bc_entries := [], bc_layoutPool := [], bc_schemaPool := [], bc_storePool := [], bc_labelPool := [],
     bc_overflow := False \<rparr>"

definition poolAddLayoutField :: "CatalogCaps \<Rightarrow> LayoutField \<Rightarrow> BasicCatalog \<Rightarrow> bool \<times> BasicCatalog" where
  "poolAddLayoutField caps f c =
    (if length (bc_layoutPool c) \<ge> cap_layout caps then cat_fail c
     else (True, c \<lparr> bc_layoutPool := bc_layoutPool c @ [f] \<rparr>))"

definition poolAddSchemaField :: "CatalogCaps \<Rightarrow> SchemaField \<Rightarrow> BasicCatalog \<Rightarrow> bool \<times> BasicCatalog" where
  "poolAddSchemaField caps f c =
    (if length (bc_schemaPool c) \<ge> cap_schema caps then cat_fail c
     else (True, c \<lparr> bc_schemaPool := bc_schemaPool c @ [f] \<rparr>))"

definition poolAddStore :: "CatalogCaps \<Rightarrow> StoreDescriptor \<Rightarrow> BasicCatalog \<Rightarrow> bool \<times> BasicCatalog" where
  "poolAddStore caps d c =
    (if length (bc_storePool c) \<ge> cap_stores caps then cat_fail c
     else (True, c \<lparr> bc_storePool := bc_storePool c @ [d] \<rparr>))"

definition addEntryVerbatim :: "CatalogCaps \<Rightarrow> CatalogEntry \<Rightarrow> BasicCatalog \<Rightarrow> bool \<times> BasicCatalog" where
  "addEntryVerbatim caps e c =
    (if length (bc_entries c) \<ge> cap_entries caps then cat_fail c
     else (True, c \<lparr> bc_entries := bc_entries c @ [e] \<rparr>))"

section \<open>What a catalog declares\<close>

text \<open>
  The declared content of an entry, with the pool references resolved: its header, its layout fields with
  their bit and option labels, its schema fields with their option labels and access levels, its store.
\<close>

type_synonym layout_view = "LayoutField \<times> bytes list \<times> bytes list"
type_synonym schema_view = "SchemaField \<times> bytes list \<times> AccessLevel list"
type_synonym entry_view = "CatalogEntry \<times> layout_view list \<times> schema_view list \<times> StoreDescriptor option"

definition lview :: "BasicCatalog \<Rightarrow> LayoutField \<Rightarrow> layout_view" where
  "lview c f = (f \<lparr> lf_bits := LabelRef_new, lf_options := LabelRef_new \<rparr>, labels c (lf_bits f), labels c (lf_options f))"

definition sview :: "BasicCatalog \<Rightarrow> SchemaField \<Rightarrow> schema_view" where
  "sview c f = (f \<lparr> sf_options := LabelRef_new, sf_hasOptionAccess := False \<rparr>, labels c (sf_options f), optionAccess c f)"

definition header_of :: "CatalogEntry \<Rightarrow> CatalogEntry" where
  "header_of e = e \<lparr> ce_fieldCount := 0, ce_fieldOffset := 0 \<rparr>"

definition eview :: "BasicCatalog \<Rightarrow> CatalogEntry \<Rightarrow> entry_view" where
  "eview c e = (header_of e, map (lview c) (layoutFields c e), map (sview c) (schemaFields c e), storeDescriptor c e)"

section \<open>Well-formed catalogs\<close>

definition caps_ok :: "CatalogCaps \<Rightarrow> bool" where
  "caps_ok caps \<longleftrightarrow> cap_layout caps < 2 ^ 16 \<and> cap_schema caps < 2 ^ 16 \<and> cap_labels caps < 2 ^ 16 \<and> cap_stores caps < 2 ^ 16"

definition ref_ok :: "BasicCatalog \<Rightarrow> LabelRef \<Rightarrow> bool" where
  "ref_ok c r \<longleftrightarrow> lr_count r = 0 \<or> unat (lr_offset r) + unat (lr_count r) \<le> length (bc_labelPool c)"

definition pool_len :: "BasicCatalog \<Rightarrow> FieldForm \<Rightarrow> nat" where
  "pool_len c ff = (case ff of FF_Layout \<Rightarrow> length (bc_layoutPool c) | FF_Schema \<Rightarrow> length (bc_schemaPool c)
     | FF_Store \<Rightarrow> length (bc_storePool c))"

definition field_end :: "CatalogEntry \<Rightarrow> nat" where
  "field_end e = unat (ce_fieldOffset e) + unat (ce_fieldCount e)"

definition cat_inv :: "CatalogCaps \<Rightarrow> BasicCatalog \<Rightarrow> bool" where
  "cat_inv caps c \<longleftrightarrow> length (bc_layoutPool c) \<le> cap_layout caps \<and> length (bc_schemaPool c) \<le> cap_schema caps \<and>
     length (bc_labelPool c) \<le> cap_labels caps \<and> length (bc_storePool c) \<le> cap_stores caps \<and>
     (\<forall>e \<in> set (bc_entries c). field_end e \<le> pool_len c (ce_form e) \<and> unat (ce_fieldCount e) \<le> kMaxFields) \<and>
     (bc_entries c \<noteq> [] \<longrightarrow> field_end (last (bc_entries c)) = pool_len c (ce_form (last (bc_entries c)))) \<and>
     (\<forall>f \<in> set (bc_layoutPool c). ref_ok c (lf_bits f) \<and> ref_ok c (lf_options f)) \<and>
     (\<forall>f \<in> set (bc_schemaPool c). ref_ok c (sf_options f))"

text \<open>A later state of the pools: they only grow.\<close>

definition grows :: "BasicCatalog \<Rightarrow> BasicCatalog \<Rightarrow> bool" where
  "grows c c' \<longleftrightarrow> (\<exists>l s t b. bc_layoutPool c' = bc_layoutPool c @ l \<and> bc_schemaPool c' = bc_schemaPool c @ s \<and>
     bc_storePool c' = bc_storePool c @ t \<and> bc_labelPool c' = bc_labelPool c @ b)"

lemma grows_label_span: "grows c c' \<Longrightarrow> ref_ok c r \<Longrightarrow> label_span c' r = label_span c r \<and> ref_ok c' r"
  by (auto simp: grows_def ref_ok_def label_span_def)

lemma grows_lview: "grows c c' \<Longrightarrow> ref_ok c (lf_bits f) \<Longrightarrow> ref_ok c (lf_options f) \<Longrightarrow> lview c' f = lview c f"
  by (simp add: lview_def labels_def grows_label_span)

lemma grows_sview: "grows c c' \<Longrightarrow> ref_ok c (sf_options f) \<Longrightarrow> sview c' f = sview c f"
  by (simp add: sview_def labels_def optionAccess_def labelAccess_def grows_label_span)

lemma grows_fields:
  assumes "grows c c'" and "field_end e \<le> pool_len c (ce_form e)"
  shows "layoutFields c' e = layoutFields c e" "schemaFields c' e = schemaFields c e"
    "storeDescriptor c' e = storeDescriptor c e" "field_end e \<le> pool_len c' (ce_form e)"
  using assms
  by (auto simp: grows_def layoutFields_def schemaFields_def storeDescriptor_def field_end_def pool_len_def nth_append
      split: FieldForm.splits)

lemma set_layoutFields: "set (layoutFields c e) \<subseteq> set (bc_layoutPool c)"
  by (auto simp: layoutFields_def dest!: in_set_takeD in_set_dropD)

lemma set_schemaFields: "set (schemaFields c e) \<subseteq> set (bc_schemaPool c)"
  by (auto simp: schemaFields_def dest!: in_set_takeD in_set_dropD)

lemma grows_eview:
  assumes "cat_inv caps c" and "grows c c'" and "e \<in> set (bc_entries c)"
  shows "eview c' e = eview c e"
proof -
  have e: "field_end e \<le> pool_len c (ce_form e)" using assms(1,3) by (auto simp: cat_inv_def)
  have "map (lview c') (layoutFields c e) = map (lview c) (layoutFields c e)"
    using assms(1,2) set_layoutFields [of c e] by (intro map_cong) (auto simp: cat_inv_def grows_lview)
  moreover have "map (sview c') (schemaFields c e) = map (sview c) (schemaFields c e)"
    using assms(1,2) set_schemaFields [of c e] by (intro map_cong) (auto simp: cat_inv_def grows_sview)
  ultimately show ?thesis using grows_fields [OF assms(2) e] by (simp add: eview_def)
qed

lemma grows_refl [simp]: "grows c c"
  by (simp add: grows_def)

lemma grows_trans: "grows a b \<Longrightarrow> grows b c \<Longrightarrow> grows a c"
  unfolding grows_def by (metis append.assoc)

text \<open>Growing only the label pool.\<close>

lemma cat_inv_labels:
  assumes "cat_inv caps c" and "length (bc_labelPool c) + length ls \<le> cap_labels caps"
  shows "cat_inv caps (c \<lparr> bc_labelPool := bc_labelPool c @ ls \<rparr>)" (is "cat_inv caps ?c")
    and "grows c (c \<lparr> bc_labelPool := bc_labelPool c @ ls \<rparr>)"
proof -
  show g: "grows c ?c" by (simp add: grows_def)
  show "cat_inv caps ?c"
    using assms grows_label_span [OF g] by (auto simp: cat_inv_def pool_len_def split: FieldForm.splits)
qed

section \<open>The builder, step by step\<close>

lemma addLabels_ok:
  "fst (addLabels caps ls c) \<Longrightarrow> snd (addLabels caps ls c) = c \<lparr> bc_labelPool := bc_labelPool c @ ls \<rparr> \<and>
     length (bc_labelPool c) + length ls \<le> max (cap_labels caps) (length (bc_labelPool c))"
  by (induction caps ls c rule: addLabels.induct)
    (auto simp: poolAddLabel_def cat_fail_def split: if_splits prod.splits)

lemma span_append:
  assumes "m < 2 ^ 16" and "ls \<noteq> []" and "length ls < 256" and "length pool = m"
  shows "label_span (c \<lparr> bc_labelPool := pool @ ls \<rparr>) \<lparr> lr_offset = of_nat m, lr_count = of_nat (length ls) \<rparr> = ls \<and>
   ref_ok (c \<lparr> bc_labelPool := pool @ ls \<rparr>) \<lparr> lr_offset = of_nat m, lr_count = of_nat (length ls) \<rparr>"
proof -
  have "unat (of_nat m :: u16) = m" "unat (of_nat (length ls) :: u8) = length ls" using assms by (simp_all add: unat_of_nat)
  then show ?thesis using assms(2,4) by (auto simp: label_span_def ref_ok_def)
qed

definition trimmed :: "bytes list \<Rightarrow> bytes list" where
  "trimmed ls = rev (dropWhile (\<lambda>s. s = []) (rev ls))"

lemma trimmed_full: "[] \<notin> set ls \<Longrightarrow> trimmed ls = ls"
  unfolding trimmed_def by (cases ls rule: rev_cases) auto

lemma LabelRef_new_simps [simp]: "label_span c LabelRef_new = []" "ref_ok c LabelRef_new" "lr_count LabelRef_new = 0"
  by (simp_all add: label_span_def ref_ok_def LabelRef_new_def)

lemma internLabels_ok:
  assumes "caps_ok caps" and "cat_inv caps c" and "internLabels caps inp n c = (Some r, c')" and "n \<le> 255"
  shows "c' = c \<lparr> bc_labelPool := bc_labelPool c @ map (\<lambda>s. (s, watch)) (trimmed inp) \<rparr>" "cat_inv caps c'" "grows c c'"
    "ref_ok c' r" "label_span c' r = map (\<lambda>s. (s, watch)) (trimmed inp)"
    "trimmed inp \<noteq> [] \<Longrightarrow> r = \<lparr> lr_offset = of_nat (length (bc_labelPool c)), lr_count = of_nat (length (trimmed inp)) \<rparr> \<and>
       length (trimmed inp) \<le> n"
proof -
  have lt: "length (bc_labelPool c) < 2 ^ 16" using assms(1,2) by (simp add: caps_ok_def cat_inv_def)
  have "c' = c \<lparr> bc_labelPool := bc_labelPool c @ map (\<lambda>s. (s, watch)) (trimmed inp) \<rparr> \<and> cat_inv caps c' \<and> grows c c' \<and>
    ref_ok c' r \<and> label_span c' r = map (\<lambda>s. (s, watch)) (trimmed inp) \<and>
    (trimmed inp \<noteq> [] \<longrightarrow> r = \<lparr> lr_offset = of_nat (length (bc_labelPool c)), lr_count = of_nat (length (trimmed inp)) \<rparr> \<and>
       length (trimmed inp) \<le> n)"
  proof (cases "trimmed inp = []")
    case True
    then show ?thesis using assms(2,3) by (simp add: internLabels_def trimmed_def [symmetric])
  next
    case False
    let ?ls = "map (\<lambda>s. (s, watch)) (trimmed inp)"
    have "fst (addLabels caps ?ls c)" and n: "length (trimmed inp) \<le> n" and c': "c' = snd (addLabels caps ?ls c)"
      and r: "r = \<lparr> lr_offset = of_nat (length (bc_labelPool c)), lr_count = of_nat (length (trimmed inp)) \<rparr>"
      using assms(3) False by (auto simp: internLabels_def trimmed_def [symmetric] Let_def split: if_splits prod.splits bool.splits)
    from addLabels_ok [OF this(1)] c' have eq: "c' = c \<lparr> bc_labelPool := bc_labelPool c @ ?ls \<rparr>"
      and len: "length (bc_labelPool c) + length ?ls \<le> cap_labels caps" using assms(2) by (auto simp: cat_inv_def)
    show ?thesis
      using cat_inv_labels [OF assms(2) len] span_append [OF lt, of ?ls "bc_labelPool c" c] False n r assms(4) eq by simp
  qed
  then show "c' = c \<lparr> bc_labelPool := bc_labelPool c @ map (\<lambda>s. (s, watch)) (trimmed inp) \<rparr>" "cat_inv caps c'" "grows c c'"
    "ref_ok c' r" "label_span c' r = map (\<lambda>s. (s, watch)) (trimmed inp)"
    "trimmed inp \<noteq> [] \<Longrightarrow> r = \<lparr> lr_offset = of_nat (length (bc_labelPool c)), lr_count = of_nat (length (trimmed inp)) \<rparr> \<and>
       length (trimmed inp) \<le> n" by blast+
qed

text \<open>The abstract builder: a list of entry views, fields being appended to the last one.\<close>

definition on_last :: "('a \<Rightarrow> 'a) \<Rightarrow> 'a list \<Rightarrow> 'a list" where
  "on_last g vs = butlast vs @ [g (last vs)]"

definition put_layout :: "layout_view \<Rightarrow> entry_view \<Rightarrow> entry_view" where
  "put_layout v = (\<lambda>(h, l, s, d). (h, l @ [v], s, d))"

definition put_schema :: "schema_view \<Rightarrow> entry_view \<Rightarrow> entry_view" where
  "put_schema v = (\<lambda>(h, l, s, d). (h, l, s @ [v], d))"

definition put_store :: "StoreDescriptor \<Rightarrow> entry_view \<Rightarrow> entry_view" where
  "put_store d = (\<lambda>(h, l, s, _). (h, l, s, Some d))"

lemma unat_Suc_u8: "unat (n :: u8) < 255 \<Longrightarrow> unat (n + 1) = unat n + 1"
  using unat_add_lem [of n 1] by simp

text \<open>Only the last entry changes, and the pools grow.\<close>

lemma extend_last:
  assumes "cat_inv caps c" and "bc_entries c \<noteq> []" and "grows c c'"
    and "bc_entries c' = butlast (bc_entries c) @ [e']" and "eview c' e' = g (eview c (last (bc_entries c)))"
  shows "map (eview c') (bc_entries c') = on_last g (map (eview c) (bc_entries c))"
proof -
  have "map (eview c') (butlast (bc_entries c)) = map (eview c) (butlast (bc_entries c))"
    using grows_eview [OF assms(1,3)] by (auto dest: in_set_butlastD)
  then show ?thesis using assms(2,4,5) by (simp add: on_last_def map_butlast last_map)
qed

lemma cat_inv_extend:
  assumes "cat_inv caps c" and "bc_entries c \<noteq> []" and "grows c c'"
    and "bc_entries c' = butlast (bc_entries c) @ [e']"
    and "length (bc_layoutPool c') \<le> cap_layout caps" "length (bc_schemaPool c') \<le> cap_schema caps"
      "length (bc_labelPool c') \<le> cap_labels caps" "length (bc_storePool c') \<le> cap_stores caps"
    and "field_end e' = pool_len c' (ce_form e')" and "unat (ce_fieldCount e') \<le> kMaxFields"
    and "\<forall>f \<in> set (bc_layoutPool c'). f \<in> set (bc_layoutPool c) \<or> ref_ok c' (lf_bits f) \<and> ref_ok c' (lf_options f)"
    and "\<forall>f \<in> set (bc_schemaPool c'). f \<in> set (bc_schemaPool c) \<or> ref_ok c' (sf_options f)"
  shows "cat_inv caps c'"
proof -
  have "\<forall>e \<in> set (bc_entries c'). field_end e \<le> pool_len c' (ce_form e) \<and> unat (ce_fieldCount e) \<le> kMaxFields"
    using assms(1,4,9,10) grows_fields(4) [OF assms(3)] by (auto simp: cat_inv_def dest!: in_set_butlastD)
  then show ?thesis using assms grows_label_span [OF assms(3)] by (auto simp: cat_inv_def)
qed

lemma addLayoutField_ok:
  assumes "cat_inv caps c" and "addLayoutField caps f c = (True, c')" and "ref_ok c (lf_bits f)" and "ref_ok c (lf_options f)"
  shows "cat_inv caps c'" "grows c c'" "bc_entries c \<noteq> []"
    "map (eview c') (bc_entries c') = on_last (put_layout (lview c f)) (map (eview c) (bc_entries c))"
proof -
  let ?e = "last (bc_entries c)"
  let ?e' = "?e \<lparr> ce_fieldCount := ce_fieldCount ?e + 1 \<rparr>"
  show ne: "bc_entries c \<noteq> []" using assms(2) by (auto simp: addLayoutField_def cat_fail_def split: if_splits)
  have c': "c' = c \<lparr> bc_layoutPool := bc_layoutPool c @ [f], bc_entries := butlast (bc_entries c) @ [?e'] \<rparr>"
    and room: "length (bc_layoutPool c) < cap_layout caps" and form: "ce_form ?e = FF_Layout"
    and off: "unat (ce_fieldOffset ?e) + unat (ce_fieldCount ?e) = length (bc_layoutPool c)"
    and cnt: "unat (ce_fieldCount ?e) < kMaxFields"
    using assms(2) by (auto simp: addLayoutField_def cat_fail_def Let_def bump_last_def split: if_splits)
  have cnt': "unat (ce_fieldCount ?e + 1) = unat (ce_fieldCount ?e) + 1" using cnt by (intro unat_Suc_u8) simp
  have form': "ce_form ?e' = FF_Layout" using form by (simp add: ce_form_def)
  show g: "grows c c'" by (simp add: c' grows_def)
  have refs: "ref_ok c' r = ref_ok c r" for r by (simp add: c' ref_ok_def)
  have inv: "length (bc_schemaPool c) \<le> cap_schema caps" "length (bc_labelPool c) \<le> cap_labels caps"
    "length (bc_storePool c) \<le> cap_stores caps" using assms(1) by (simp_all add: cat_inv_def)
  show "cat_inv caps c'"
    using assms(3,4) room off cnt cnt' form' inv
    by (intro cat_inv_extend [OF assms(1) ne g, of ?e']) (auto simp: c' refs pool_len_def field_end_def ref_ok_def)
  have lv: "lview c' x = lview c x" for x by (simp add: c' lview_def labels_def label_span_def)
  have sv: "sview c' x = sview c x" for x
    by (simp add: c' sview_def labels_def labelAccess_def optionAccess_def label_span_def)
  have "layoutFields c' ?e' = layoutFields c ?e @ [f]"
    using off cnt' form form' by (simp add: c' layoutFields_def)
  then have "eview c' ?e' = put_layout (lview c f) (eview c ?e)"
    using form form' by (simp add: eview_def put_layout_def header_of_def lv sv schemaFields_def storeDescriptor_def cong: map_cong)
  then show "map (eview c') (bc_entries c') = on_last (put_layout (lview c f)) (map (eview c) (bc_entries c))"
    by (intro extend_last [OF assms(1) ne g]) (simp_all add: c')
qed

lemma addSchemaField_ok:
  assumes "cat_inv caps c" and "addSchemaField caps f c = (True, c')" and "ref_ok c (sf_options f)"
  shows "cat_inv caps c'" "grows c c'" "bc_entries c \<noteq> []"
    "map (eview c') (bc_entries c') = on_last (put_schema (sview c f)) (map (eview c) (bc_entries c))"
proof -
  let ?e = "last (bc_entries c)"
  let ?e' = "?e \<lparr> ce_fieldCount := ce_fieldCount ?e + 1 \<rparr>"
  show ne: "bc_entries c \<noteq> []" using assms(2) by (auto simp: addSchemaField_def cat_fail_def split: if_splits)
  have c': "c' = c \<lparr> bc_schemaPool := bc_schemaPool c @ [f], bc_entries := butlast (bc_entries c) @ [?e'] \<rparr>"
    and room: "length (bc_schemaPool c) < cap_schema caps" and form: "ce_form ?e = FF_Schema"
    and off: "unat (ce_fieldOffset ?e) + unat (ce_fieldCount ?e) = length (bc_schemaPool c)"
    and cnt: "unat (ce_fieldCount ?e) < kMaxFields"
    using assms(2) by (auto simp: addSchemaField_def cat_fail_def Let_def bump_last_def split: if_splits)
  have cnt': "unat (ce_fieldCount ?e + 1) = unat (ce_fieldCount ?e) + 1" using cnt by (intro unat_Suc_u8) simp
  have form': "ce_form ?e' = FF_Schema" using form by (simp add: ce_form_def)
  show g: "grows c c'" by (simp add: c' grows_def)
  have refs: "ref_ok c' r = ref_ok c r" for r by (simp add: c' ref_ok_def)
  have inv: "length (bc_layoutPool c) \<le> cap_layout caps" "length (bc_labelPool c) \<le> cap_labels caps"
    "length (bc_storePool c) \<le> cap_stores caps" using assms(1) by (simp_all add: cat_inv_def)
  show "cat_inv caps c'"
    using assms(3) room off cnt cnt' form' inv
    by (intro cat_inv_extend [OF assms(1) ne g, of ?e']) (auto simp: c' refs pool_len_def field_end_def ref_ok_def)
  have lv: "lview c' x = lview c x" for x by (simp add: c' lview_def labels_def label_span_def)
  have sv: "sview c' x = sview c x" for x
    by (simp add: c' sview_def labels_def labelAccess_def optionAccess_def label_span_def)
  have "schemaFields c' ?e' = schemaFields c ?e @ [f]"
    using off cnt' form form' by (simp add: c' schemaFields_def)
  then have "eview c' ?e' = put_schema (sview c f) (eview c ?e)"
    using form form' by (simp add: eview_def put_schema_def header_of_def lv sv layoutFields_def storeDescriptor_def cong: map_cong)
  then show "map (eview c') (bc_entries c') = on_last (put_schema (sview c f)) (map (eview c) (bc_entries c))"
    by (intro extend_last [OF assms(1) ne g]) (simp_all add: c')
qed

lemma addStoreDescriptor_ok:
  assumes "cat_inv caps c" and "addStoreDescriptor caps d c = (True, c')"
  shows "cat_inv caps c'" "grows c c'" "bc_entries c \<noteq> []"
    "map (eview c') (bc_entries c') = on_last (put_store d) (map (eview c) (bc_entries c))"
proof -
  let ?e = "last (bc_entries c)"
  let ?e' = "?e \<lparr> ce_fieldCount := 1 \<rparr>"
  show ne: "bc_entries c \<noteq> []" using assms(2) by (auto simp: addStoreDescriptor_def cat_fail_def split: if_splits)
  have c': "c' = c \<lparr> bc_storePool := bc_storePool c @ [d], bc_entries := butlast (bc_entries c) @ [?e'] \<rparr>"
    and room: "length (bc_storePool c) < cap_stores caps" and form: "ce_form ?e = FF_Store"
    and off: "unat (ce_fieldOffset ?e) = length (bc_storePool c)"
    using assms(2) by (auto simp: addStoreDescriptor_def cat_fail_def Let_def split: if_splits)
  have form': "ce_form ?e' = FF_Store" using form by (simp add: ce_form_def)
  show g: "grows c c'" by (simp add: c' grows_def)
  have refs: "ref_ok c' r = ref_ok c r" for r by (simp add: c' ref_ok_def)
  have inv: "length (bc_layoutPool c) \<le> cap_layout caps" "length (bc_labelPool c) \<le> cap_labels caps"
    "length (bc_schemaPool c) \<le> cap_schema caps" using assms(1) by (simp_all add: cat_inv_def)
  show "cat_inv caps c'"
    using room off form' inv
    by (intro cat_inv_extend [OF assms(1) ne g, of ?e']) (auto simp: c' refs pool_len_def field_end_def ref_ok_def)
  have "eview c' ?e' = put_store d (eview c ?e)"
    using form form' off by (simp add: eview_def put_store_def header_of_def c' layoutFields_def schemaFields_def storeDescriptor_def)
  then show "map (eview c') (bc_entries c') = on_last (put_store d) (map (eview c) (bc_entries c))"
    by (intro extend_last [OF assms(1) ne g]) (simp_all add: c')
qed

lemma addEntry_ok:
  assumes "caps_ok caps" and "cat_inv caps c" and "addEntry caps e c = (True, c')"
  shows "cat_inv caps c'" "bc_entries c' \<noteq> []"
    "map (eview c') (bc_entries c') = map (eview c) (bc_entries c) @ [(header_of e, [], [], None)]"
proof -
  let ?e = "e \<lparr> ce_fieldCount := 0, ce_fieldOffset := of_nat (pool_len c (ce_form e)) \<rparr>"
  have c': "c' = c \<lparr> bc_entries := bc_entries c @ [?e] \<rparr>"
    using assms(3) by (auto simp: addEntry_def cat_fail_def Let_def pool_len_def split: if_splits)
  have "pool_len c (ce_form e) < 2 ^ 16" using assms(1,2) by (auto simp: caps_ok_def cat_inv_def pool_len_def split: FieldForm.split)
  then have off: "unat (of_nat (pool_len c (ce_form e)) :: u16) = pool_len c (ce_form e)" by (simp add: unat_of_nat)
  have same: "pool_len c' = pool_len c" "ref_ok c' = ref_ok c" by (auto simp: c' pool_len_def ref_ok_def fun_eq_iff split: FieldForm.split)
  have form: "ce_form ?e = ce_form e" by (simp add: ce_form_def)
  show "cat_inv caps c'" "bc_entries c' \<noteq> []"
    using assms(2) off form by (auto simp: cat_inv_def same) (auto simp: c' field_end_def)
  have "eview c' = eview c" by (simp add: c' eview_def fun_eq_iff layoutFields_def schemaFields_def storeDescriptor_def lview_def
        sview_def labels_def labelAccess_def optionAccess_def label_span_def)
  moreover have "eview c ?e = (header_of e, [], [], None)"
    by (simp add: eview_def header_of_def layoutFields_def schemaFields_def storeDescriptor_def)
  ultimately show "map (eview c') (bc_entries c') = map (eview c) (bc_entries c) @ [(header_of e, [], [], None)]"
    by (simp add: c')
qed

lemma setAccesses_pool:
  assumes "n \<le> length acc" and "length p = length acc" and "bc_labelPool c = pool @ map (\<lambda>s. (s, watch)) p"
  shows "foldl (\<lambda>c i. snd (poolSetLabelAccess (length pool + i) (acc ! i) c)) c [0..<n] =
    c \<lparr> bc_labelPool := pool @ zip (take n p) (take n acc) @ map (\<lambda>s. (s, watch)) (drop n p) \<rparr>"
  using assms(1)
proof (induction n)
  case 0
  then show ?case using assms(3) by simp
next
  case (Suc n)
  then have n: "n < length p" "n < length acc" using assms(2) by auto
  have "drop n p = p ! n # drop (Suc n) p" using n by (simp add: Cons_nth_drop_Suc)
  moreover have "zip (take (Suc n) p) (take (Suc n) acc) = zip (take n p) (take n acc) @ [(p ! n, acc ! n)]"
    using n by (simp add: take_Suc_conv_app_nth)
  ultimately show ?case using Suc n by (simp add: poolSetLabelAccess_def nth_append list_update_append)
qed

lemma addSelectSchemaField_ok:
  assumes "caps_ok caps" and "cat_inv caps c" and "addSelectSchemaField caps f options acc c = (True, c')"
    and "\<not> sf_hasOptionAccess f"
  shows "cat_inv caps c'" "bc_entries c \<noteq> []"
    "map (eview c') (bc_entries c') =
       on_last (put_schema (f \<lparr> sf_options := LabelRef_new \<rparr>, options, acc)) (map (eview c) (bc_entries c))"
proof -
  obtain r c1 where i: "internLabels caps options 255 c = (Some r, c1)" and full: "[] \<notin> set options"
    and acc: "acc = [] \<or> length acc = length options"
    and fin: "(if acc \<noteq> [] then addSchemaField caps (f \<lparr> sf_options := r, sf_hasOptionAccess := True \<rparr>)
                  (setAccesses (unat (lr_offset r)) (take (unat (lr_count r)) acc) c1)
              else addSchemaField caps (f \<lparr> sf_options := r \<rparr>) c1) = (True, c')"
    using assms(3) by (auto simp: addSelectSchemaField_def cat_fail_def checkOptionLabels_def list_ex_iff
        split: if_splits option.splits prod.splits)
  note o = internLabels_ok [OF assms(1,2) i] and full = trimmed_full [OF full]
  have lt: "length (bc_labelPool c) < 2 ^ 16" using assms(1,2) by (simp add: caps_ok_def cat_inv_def)
  define c2 where "c2 = c \<lparr> bc_labelPool := bc_labelPool c @ zip options (if acc = [] then map (\<lambda>_. watch) options else acc) \<rparr>"
  let ?f = "f \<lparr> sf_options := r, sf_hasOptionAccess := acc \<noteq> [] \<rparr>"
  have "zip options (map (\<lambda>_. watch) options) = map (\<lambda>s. (s, watch)) options" by (simp add: zip_map2 zip_same_conv_map)
  then have c1: "acc = [] \<Longrightarrow> c1 = c2" using o(1) full by (simp add: c2_def)
  have fin: "addSchemaField caps ?f c2 = (True, c')"
  proof (cases "acc = []")
    case True
    moreover have "f \<lparr> sf_options := r, sf_hasOptionAccess := False \<rparr> = f \<lparr> sf_options := r \<rparr>" using assms(4) by (cases f) simp
    ultimately show ?thesis using fin c1 by simp
  next
    case False
    with acc have ne: "options \<noteq> []" "length acc = length options" by auto
    have r: "r = \<lparr> lr_offset = of_nat (length (bc_labelPool c)), lr_count = of_nat (length options) \<rparr>" "length options < 256"
      using o(6) ne(1) unfolding full by simp_all
    have r: "unat (lr_offset r) = length (bc_labelPool c)" "unat (lr_count r) = length options"
      using r(2) lt unfolding r(1) by (simp_all add: unat_of_nat)
    have "setAccesses (unat (lr_offset r)) (take (unat (lr_count r)) acc) c1 = c2"
      using setAccesses_pool [OF order.refl ne(2) [symmetric], of c1 "bc_labelPool c"] r ne(2) False full
      by (simp add: setAccesses_def c2_def o(1))
    then show ?thesis using fin False by simp
  qed
  have len: "length (bc_labelPool c) + length options \<le> cap_labels caps"
    using o(2) full by (simp add: o(1) cat_inv_def)
  then have inv2: "cat_inv caps c2" and g2: "grows c c2"
    using cat_inv_labels [OF assms(2), of "zip options (if acc = [] then map (\<lambda>_. watch) options else acc)"] acc by (auto simp: c2_def)
  have span: "label_span c2 r = zip options (if acc = [] then map (\<lambda>_. watch) options else acc) \<and> ref_ok c2 r"
  proof (cases "options = []")
    case True
    then show ?thesis using o acc full by (auto simp: c2_def)
  next
    case False
    let ?ls = "zip options (if acc = [] then map (\<lambda>_. watch) options else acc)"
    have n: "length ?ls = length options" using acc by auto
    then have "?ls \<noteq> []" using False by (metis length_0_conv)
    with n show ?thesis
      using span_append [OF lt, of ?ls "bc_labelPool c" c] o(6) False unfolding full by (simp add: c2_def)
  qed
  have sv: "sview c2 ?f = (f \<lparr> sf_options := LabelRef_new \<rparr>, options, acc)"
    using span acc assms(4) by (auto simp: sview_def labels_def optionAccess_def labelAccess_def)
  have en: "bc_entries c2 = bc_entries c" by (simp add: c2_def)
  have ev: "map (eview c2) (bc_entries c) = map (eview c) (bc_entries c)"
    using grows_eview [OF assms(2) g2] by simp
  have ro: "ref_ok c2 (sf_options ?f)" using span by simp
  show "cat_inv caps c'" "bc_entries c \<noteq> []"
    "map (eview c') (bc_entries c') =
       on_last (put_schema (f \<lparr> sf_options := LabelRef_new \<rparr>, options, acc)) (map (eview c) (bc_entries c))"
    using addSchemaField_ok [OF inv2 fin ro] unfolding sv en ev by blast+
qed

text \<open>A layout field whose labels were interned just before.\<close>

lemma addLayoutField_after:
  assumes "cat_inv caps c" and "cat_inv caps c1" and "grows c c1" and "bc_entries c1 = bc_entries c"
    and "addLayoutField caps f c1 = (True, c')" and "ref_ok c1 (lf_bits f)" and "ref_ok c1 (lf_options f)"
  shows "cat_inv caps c'" "bc_entries c \<noteq> []"
    "map (eview c') (bc_entries c') = on_last (put_layout (lview c1 f)) (map (eview c) (bc_entries c))"
proof -
  have ev: "map (eview c1) (bc_entries c) = map (eview c) (bc_entries c)" using grows_eview [OF assms(1,3)] by simp
  show "cat_inv caps c'" "bc_entries c \<noteq> []"
    "map (eview c') (bc_entries c') = on_last (put_layout (lview c1 f)) (map (eview c) (bc_entries c))"
    using addLayoutField_ok [OF assms(2,5-7)] unfolding assms(4) ev by blast+
qed

definition plain_layout :: "LayoutField \<Rightarrow> bool" where
  "plain_layout f \<longleftrightarrow> lf_bits f = LabelRef_new \<and> lf_options f = LabelRef_new"

definition plain_schema :: "SchemaField \<Rightarrow> bool" where
  "plain_schema f \<longleftrightarrow> sf_options f = LabelRef_new \<and> \<not> sf_hasOptionAccess f"

lemma plain_layout_eqs: "plain_layout f \<Longrightarrow> f \<lparr> lf_bits := LabelRef_new, lf_options := LabelRef_new \<rparr> = f"
  by (cases f) (simp add: plain_layout_def)

lemma plain_schema_eqs: "plain_schema f \<Longrightarrow> f \<lparr> sf_options := LabelRef_new \<rparr> = f"
  "plain_schema f \<Longrightarrow> f \<lparr> sf_options := LabelRef_new, sf_hasOptionAccess := False \<rparr> = f"
  by (cases f; simp add: plain_schema_def)+

lemma addBitfieldField_ok:
  assumes "caps_ok caps" and "cat_inv caps c" and "addBitfieldField caps f bits c = (True, c')" and "plain_layout f"
  shows "cat_inv caps c'" "bc_entries c \<noteq> []"
    "map (eview c') (bc_entries c') = on_last (put_layout (f, trimmed bits, [])) (map (eview c) (bc_entries c))"
proof -
  obtain r c1 where i: "internLabels caps bits 8 c = (Some r, c1)" and a: "addLayoutField caps (f \<lparr> lf_bits := r \<rparr>) c1 = (True, c')"
    using assms(3) by (auto simp: addBitfieldField_def split: option.splits prod.splits)
  have o: "bc_entries c1 = bc_entries c" "cat_inv caps c1" "grows c c1" "ref_ok c1 r" "labels c1 r = trimmed bits"
    using internLabels_ok [OF assms(1,2) i] by (simp_all add: labels_def comp_def)
  have lv: "lview c1 (f \<lparr> lf_bits := r \<rparr>) = (f, trimmed bits, [])"
    using assms(4) plain_layout_eqs [OF assms(4)] o(5) by (simp add: lview_def plain_layout_def labels_def)
  show "cat_inv caps c'" "bc_entries c \<noteq> []"
    "map (eview c') (bc_entries c') = on_last (put_layout (f, trimmed bits, [])) (map (eview c) (bc_entries c))"
    using addLayoutField_after [OF assms(2) o(2,3,1) a] assms(4) o(4) unfolding lv by (simp_all add: plain_layout_def)
qed

lemma addSelectField_ok:
  assumes "caps_ok caps" and "cat_inv caps c" and "addSelectField caps f options c = (True, c')" and "plain_layout f"
  shows "cat_inv caps c'" "bc_entries c \<noteq> []"
    "map (eview c') (bc_entries c') = on_last (put_layout (f, [], options)) (map (eview c) (bc_entries c))"
proof -
  obtain r c1 where i: "internLabels caps options 255 c = (Some r, c1)" and full: "[] \<notin> set options"
    and a: "addLayoutField caps (f \<lparr> lf_options := r \<rparr>) c1 = (True, c')"
    using assms(3) by (auto simp: addSelectField_def checkOptionLabels_def cat_fail_def list_ex_iff
        split: if_splits option.splits prod.splits)
  have o: "bc_entries c1 = bc_entries c" "cat_inv caps c1" "grows c c1" "ref_ok c1 r" "labels c1 r = options"
    using internLabels_ok [OF assms(1,2) i] trimmed_full [OF full] by (simp_all add: labels_def comp_def)
  have lv: "lview c1 (f \<lparr> lf_options := r \<rparr>) = (f, [], options)"
    using assms(4) plain_layout_eqs [OF assms(4)] o(5) by (simp add: lview_def plain_layout_def labels_def)
  show "cat_inv caps c'" "bc_entries c \<noteq> []"
    "map (eview c') (bc_entries c') = on_last (put_layout (f, [], options)) (map (eview c) (bc_entries c))"
    using addLayoutField_after [OF assms(2) o(2,3,1) a] assms(4) o(4) unfolding lv by (simp_all add: plain_layout_def)
qed

lemma reintern_ok:
  assumes "caps_ok caps" and "cat_inv caps c" and "reintern caps src r c = (Some r', c')"
  shows "bc_entries c' = bc_entries c" "cat_inv caps c'" "grows c c'" "ref_ok c' r'" "label_span c' r' = label_span src r"
proof -
  have "bc_entries c' = bc_entries c \<and> cat_inv caps c' \<and> grows c c' \<and> ref_ok c' r' \<and> label_span c' r' = label_span src r"
  proof (cases "lr_count r = 0")
    case True
    then show ?thesis using assms(2,3) by (simp add: reintern_def label_span_def)
  next
    case False
    let ?ls = "label_span src r"
    have z: "zip (labels src r) (if labelAccess src r = [] then replicate (length (labels src r)) watch else labelAccess src r) = ?ls"
      by (simp add: labels_def labelAccess_def zip_map_fst_snd)
    have "fst (addLabels caps ?ls c)" and c': "c' = snd (addLabels caps ?ls c)" and n: "length ?ls = unat (lr_count r)"
      and r': "r' = \<lparr> lr_offset = of_nat (length (bc_labelPool c)), lr_count = lr_count r \<rparr>"
      using assms(3) False unfolding reintern_def z Let_def
      by (auto simp: labels_def split: if_splits prod.splits bool.splits)
    from addLabels_ok [OF this(1)] c' have eq: "c' = c \<lparr> bc_labelPool := bc_labelPool c @ ?ls \<rparr>"
      and len: "length (bc_labelPool c) + length ?ls \<le> cap_labels caps" using assms(2) by (auto simp: cat_inv_def)
    have lt: "length (bc_labelPool c) < 2 ^ 16" using assms(1,2) by (simp add: caps_ok_def cat_inv_def)
    have ne: "?ls \<noteq> []" using n False by (metis length_0_conv unat_eq_zero)
    have sz: "length ?ls < 256" using n unat_u8_less [of "lr_count r"] by simp
    have cnt: "of_nat (length ?ls) = lr_count r" using n by simp
    show ?thesis
      using cat_inv_labels [OF assms(2) len] span_append [OF lt ne sz refl, of c] unfolding cnt r' eq by simp
  qed
  then show "bc_entries c' = bc_entries c" "cat_inv caps c'" "grows c c'" "ref_ok c' r'" "label_span c' r' = label_span src r" by blast+
qed

lemma on_last_on_last [simp]: "on_last g (on_last f vs) = on_last (\<lambda>v. g (f v)) vs"
  by (simp add: on_last_def)

lemma on_last_id: "vs \<noteq> [] \<Longrightarrow> on_last (\<lambda>v. v) vs = vs"
  by (simp add: on_last_def)

lemma copyLayoutFields_ok:
  assumes "caps_ok caps"
  shows "copyLayoutFields caps src fs c = (True, c') \<Longrightarrow> cat_inv caps c \<Longrightarrow> bc_entries c \<noteq> [] \<Longrightarrow>
    cat_inv caps c' \<and> map (eview c') (bc_entries c') =
      on_last (\<lambda>(h, l, s, d). (h, l @ map (lview src) fs, s, d)) (map (eview c) (bc_entries c))"
proof (induction fs arbitrary: c)
  case Nil
  then show ?case by (simp add: case_prod_eta on_last_id)
next
  case (Cons f fs)
  from Cons.prems(1) obtain rb c1 ro c2 c3 where
    1: "reintern caps src (lf_bits f) c = (Some rb, c1)" and 2: "reintern caps src (lf_options f) c1 = (Some ro, c2)"
    and 3: "addLayoutField caps (f \<lparr> lf_bits := rb, lf_options := ro \<rparr>) c2 = (True, c3)"
    and 4: "copyLayoutFields caps src fs c3 = (True, c')"
    by (auto split: option.splits prod.splits bool.splits)
  note i1 = reintern_ok [OF assms Cons.prems(2) 1]
  note i2 = reintern_ok [OF assms i1(2) 2]
  have ro1: "ref_ok c2 rb" "label_span c2 rb = label_span src (lf_bits f)"
    using grows_label_span [OF i2(3) i1(4)] i1(5) by simp_all
  have lv: "lview c2 (f \<lparr> lf_bits := rb, lf_options := ro \<rparr>) = lview src f"
    using ro1 i2(5) by (simp add: lview_def labels_def)
  have en: "bc_entries c2 = bc_entries c" using i1(1) i2(1) by simp
  have a: "cat_inv caps c3" "map (eview c3) (bc_entries c3) = on_last (put_layout (lview src f)) (map (eview c) (bc_entries c))"
    using addLayoutField_after [OF Cons.prems(2) i2(2) grows_trans [OF i1(3) i2(3)] en 3] ro1 i2(4) unfolding lv by simp_all
  then have ne: "bc_entries c3 \<noteq> []" by (auto simp: on_last_def)
  show ?case using Cons.IH [OF 4 a(1) ne] unfolding a(2) by (simp add: put_layout_def case_prod_beta)
qed

lemma copySchemaFields_ok:
  assumes "caps_ok caps"
  shows "copySchemaFields caps src fs c = (True, c') \<Longrightarrow> cat_inv caps c \<Longrightarrow> bc_entries c \<noteq> [] \<Longrightarrow>
    cat_inv caps c' \<and> map (eview c') (bc_entries c') =
      on_last (\<lambda>(h, l, s, d). (h, l, s @ map (sview src) fs, d)) (map (eview c) (bc_entries c))"
proof (induction fs arbitrary: c)
  case Nil
  then show ?case by (simp add: case_prod_eta on_last_id)
next
  case (Cons f fs)
  from Cons.prems(1) obtain ro c2 c3 where
    1: "reintern caps src (sf_options f) c = (Some ro, c2)"
    and 3: "addSchemaField caps (f \<lparr> sf_options := ro \<rparr>) c2 = (True, c3)"
    and 4: "copySchemaFields caps src fs c3 = (True, c')"
    by (auto split: option.splits prod.splits bool.splits)
  note i = reintern_ok [OF assms Cons.prems(2) 1]
  have lv: "sview c2 (f \<lparr> sf_options := ro \<rparr>) = sview src f"
    using i(5) by (simp add: sview_def labels_def optionAccess_def labelAccess_def)
  have ev: "map (eview c2) (bc_entries c) = map (eview c) (bc_entries c)" using grows_eview [OF Cons.prems(2) i(3)] by simp
  have a: "cat_inv caps c3" "map (eview c3) (bc_entries c3) = on_last (put_schema (sview src f)) (map (eview c) (bc_entries c))"
    using addSchemaField_ok [OF i(2) 3] i(4) unfolding lv i(1) ev by simp_all
  then have ne: "bc_entries c3 \<noteq> []" by (auto simp: on_last_def)
  show ?case using Cons.IH [OF 4 a(1) ne] unfolding a(2) by (simp add: put_schema_def case_prod_beta)
qed

lemma addEntryFrom_ok:
  assumes "caps_ok caps" and "cat_inv caps c" and "addEntryFrom caps src e c = (True, c')"
  shows "cat_inv caps c' \<and> map (eview c') (bc_entries c') = map (eview c) (bc_entries c) @ [eview src e]"
proof -
  obtain c1 where 1: "addEntry caps e c = (True, c1)" and
    2: "(case ce_form e of FF_Layout \<Rightarrow> copyLayoutFields caps src (layoutFields src e) c1
       | FF_Schema \<Rightarrow> copySchemaFields caps src (schemaFields src e) c1
       | FF_Store \<Rightarrow> (case storeDescriptor src e of None \<Rightarrow> (False, c1) | Some d \<Rightarrow> addStoreDescriptor caps d c1)) = (True, c')"
    using assms(3) by (auto simp: addEntryFrom_def split: prod.splits bool.splits)
  note a = addEntry_ok [OF assms(1,2) 1]
  show ?thesis
  proof (cases "ce_form e")
    case FF_Layout
    have "on_last (\<lambda>(h, l, s, d). (h, l @ map (lview src) (layoutFields src e), s, d))
        (map (eview c) (bc_entries c) @ [(header_of e, [], [], None)]) = map (eview c) (bc_entries c) @ [eview src e]"
      using FF_Layout by (simp add: on_last_def eview_def schemaFields_def storeDescriptor_def)
    then show ?thesis using copyLayoutFields_ok [OF assms(1) _ a(1,2)] 2 FF_Layout unfolding a(3) by simp
  next
    case FF_Schema
    have "on_last (\<lambda>(h, l, s, d). (h, l, s @ map (sview src) (schemaFields src e), d))
        (map (eview c) (bc_entries c) @ [(header_of e, [], [], None)]) = map (eview c) (bc_entries c) @ [eview src e]"
      using FF_Schema by (simp add: on_last_def eview_def layoutFields_def storeDescriptor_def)
    then show ?thesis using copySchemaFields_ok [OF assms(1) _ a(1,2)] 2 FF_Schema unfolding a(3) by simp
  next
    case FF_Store
    with 2 obtain d where d: "storeDescriptor src e = Some d" and s: "addStoreDescriptor caps d c1 = (True, c')"
      by (auto split: option.splits)
    have "on_last (put_store d) (map (eview c) (bc_entries c) @ [(header_of e, [], [], None)]) =
        map (eview c) (bc_entries c) @ [eview src e]"
      using FF_Store d by (simp add: on_last_def put_store_def eview_def layoutFields_def schemaFields_def)
    then show ?thesis using addStoreDescriptor_ok [OF a(1) s] unfolding a(3) by simp
  qed
qed

section \<open>A catalog declares what was built\<close>

datatype cat_op = OpEntry CatalogEntry | OpLayout LayoutField | OpBitfield LayoutField "bytes list"
  | OpSelect LayoutField "bytes list" | OpSchema SchemaField | OpSelectSchema SchemaField "bytes list" "AccessLevel list"
  | OpStore StoreDescriptor | OpCopy BasicCatalog CatalogEntry

fun cat_step :: "CatalogCaps \<Rightarrow> cat_op \<Rightarrow> BasicCatalog \<Rightarrow> bool \<times> BasicCatalog" where
  "cat_step caps (OpEntry e) = addEntry caps e"
| "cat_step caps (OpLayout f) = addLayoutField caps f"
| "cat_step caps (OpBitfield f bits) = addBitfieldField caps f bits"
| "cat_step caps (OpSelect f options) = addSelectField caps f options"
| "cat_step caps (OpSchema f) = addSchemaField caps f"
| "cat_step caps (OpSelectSchema f options acc) = addSelectSchemaField caps f options acc"
| "cat_step caps (OpStore d) = addStoreDescriptor caps d"
| "cat_step caps (OpCopy src e) = addEntryFrom caps src e"

fun cat_build :: "CatalogCaps \<Rightarrow> cat_op list \<Rightarrow> BasicCatalog \<Rightarrow> bool \<times> BasicCatalog" where
  "cat_build caps [] c = (True, c)"
| "cat_build caps (op # ops) c =
    (case cat_step caps op c of (False, c) \<Rightarrow> (False, c) | (True, c) \<Rightarrow> cat_build caps ops c)"

text \<open>What the builder was asked to declare.\<close>

fun declare_op :: "entry_view list \<Rightarrow> cat_op \<Rightarrow> entry_view list" where
  "declare_op vs (OpEntry e) = vs @ [(header_of e, [], [], None)]"
| "declare_op vs (OpLayout f) = on_last (put_layout (f, [], [])) vs"
| "declare_op vs (OpBitfield f bits) = on_last (put_layout (f, trimmed bits, [])) vs"
| "declare_op vs (OpSelect f options) = on_last (put_layout (f, [], options)) vs"
| "declare_op vs (OpSchema f) = on_last (put_schema (f, [], [])) vs"
| "declare_op vs (OpSelectSchema f options acc) = on_last (put_schema (f, options, acc)) vs"
| "declare_op vs (OpStore d) = on_last (put_store d) vs"
| "declare_op vs (OpCopy src e) = vs @ [eview src e]"

text \<open>Fields handed to the builder carry no pool references of their own.\<close>

fun op_plain :: "cat_op \<Rightarrow> bool" where
  "op_plain (OpLayout f) = plain_layout f"
| "op_plain (OpBitfield f _) = plain_layout f"
| "op_plain (OpSelect f _) = plain_layout f"
| "op_plain (OpSchema f) = plain_schema f"
| "op_plain (OpSelectSchema f _ _) = plain_schema f"
| "op_plain _ = True"

lemma cat_step_ok:
  assumes "caps_ok caps" and "cat_inv caps c" and "op_plain op" and "cat_step caps op c = (True, c')"
  shows "cat_inv caps c' \<and> map (eview c') (bc_entries c') = declare_op (map (eview c) (bc_entries c)) op"
proof (cases op)
  case (OpLayout f)
  then have "lview c f = (f, [], [])"
    using assms(3) plain_layout_eqs [of f] by (simp add: lview_def plain_layout_def labels_def)
  then show ?thesis using addLayoutField_ok [OF assms(2), of f c'] assms(3,4) OpLayout by (simp add: plain_layout_def)
next
  case (OpSchema f)
  then have "sview c f = (f, [], [])"
    using assms(3) plain_schema_eqs [of f] by (simp add: sview_def plain_schema_def labels_def optionAccess_def)
  then show ?thesis using addSchemaField_ok [OF assms(2), of f c'] assms(3,4) OpSchema by (simp add: plain_schema_def)
next
  case (OpSelectSchema f options acc)
  then have f: "f \<lparr> sf_options := LabelRef_new \<rparr> = f" "\<not> sf_hasOptionAccess f"
    using assms(3) plain_schema_eqs [of f] by (simp_all add: plain_schema_def)
  show ?thesis
    using addSelectSchemaField_ok [OF assms(1,2) _ f(2), of options acc c'] assms(4) OpSelectSchema unfolding f(1) by simp
qed (use assms addEntry_ok [OF assms(1,2)] addBitfieldField_ok [OF assms(1,2)] addSelectField_ok [OF assms(1,2)]
    addStoreDescriptor_ok [OF assms(2)] addEntryFrom_ok [OF assms(1,2)] in \<open>simp_all\<close>)

lemma cat_build_ok:
  assumes "caps_ok caps"
  shows "cat_build caps ops c = (True, c') \<Longrightarrow> cat_inv caps c \<Longrightarrow> list_all op_plain ops \<Longrightarrow>
    cat_inv caps c' \<and> map (eview c') (bc_entries c') = foldl declare_op (map (eview c) (bc_entries c)) ops"
proof (induction ops arbitrary: c)
  case (Cons op ops)
  from Cons.prems(1) obtain c1 where 1: "cat_step caps op c = (True, c1)" and 2: "cat_build caps ops c1 = (True, c')"
    by (auto split: prod.splits bool.splits)
  have s: "cat_inv caps c1 \<and> map (eview c1) (bc_entries c1) = declare_op (map (eview c) (bc_entries c)) op"
    using cat_step_ok [OF assms Cons.prems(2) _ 1] Cons.prems(3) by simp
  then show ?case using Cons.IH [OF 2] Cons.prems(3) by simp
qed simp

lemma cat_inv_new: "cat_inv caps BasicCatalog_new"
  by (simp add: cat_inv_def BasicCatalog_new_def)

text \<open>
  The catalog declares exactly what it was built from.  Whatever sequence of builder calls succeeds
  (entries, plain fields, bitfields and selects with their labels, per-option access levels, stores, entries
  copied from another catalog), looking the entries up afterwards returns each header with its own fields, each
  field with its own labels and access levels, in the order they were added: no later call disturbs an earlier
  entry although all of them share the pools.
\<close>
theorem catalog_declares:
  assumes "caps_ok caps" and "list_all op_plain ops" and "cat_build caps ops BasicCatalog_new = (True, c)"
  shows "map (eview c) (bc_entries c) = foldl declare_op [] ops"
  using cat_build_ok [OF assms(1,3) cat_inv_new assms(2)] by (simp add: BasicCatalog_new_def)

text \<open>A safety channel with a guarded operation, followed by a state channel.\<close>

definition demo_entry :: "u16 \<Rightarrow> ChannelClass \<Rightarrow> CatalogEntry" where
  "demo_entry i cls = \<lparr> ce_id = i, ce_name = [65], ce_cls = cls, ce_dir = h2c, ce_access = watch, ce_maxRateHz = 0,
     ce_defaultPriority = normal, ce_fieldCount = 0, ce_fieldOffset = 0, ce_category = None, ce_categoryLabel = [],
     ce_replayDepth = None, ce_settingChannel = None, ce_streamKind = 0, ce_rank = None \<rparr>"

definition demo_schema :: SchemaField where
  "demo_schema = \<lparr> sf_key = 1, sf_name = [66], sf_type = CF_uint, sf_unit = [], sf_min = None, sf_max = None, sf_dflt = SD_None,
     sf_options = LabelRef_new, sf_group = [], sf_desc = [], sf_role = [], sf_step = None, sf_flags = 0, sf_access = None,
     sf_hasOptionAccess = False, sf_rank = None, sf_aspect = None, sf_scope = None, sf_provenance = None, sf_unitId = None \<rparr>"

definition demo_layout :: LayoutField where
  "demo_layout = \<lparr> lf_name = [67], lf_type = PF_bitfield8, lf_unit = [], lf_scale = 0x3F800000, lf_min = None, lf_max = None,
     lf_bits = LabelRef_new, lf_options = LabelRef_new, lf_dflt = SD_None, lf_group = [], lf_desc = [], lf_role = [],
     lf_step = None, lf_settingKey = None, lf_flags = 0, lf_rank = None, lf_aspect = None, lf_scope = None,
     lf_provenance = None, lf_unitId = None \<rparr>"

definition demo_ops :: "cat_op list" where
  "demo_ops = [OpEntry (demo_entry 5 CC_INTENT), OpSelectSchema demo_schema [[1], [2]] [watch, control],
     OpEntry (demo_entry 3 CC_STATE), OpBitfield demo_layout [[3], []]]"

theorem catalog_declares_witness:
  "let c = snd (cat_build Catalog32_caps demo_ops BasicCatalog_new) in
   caps_ok Catalog32_caps \<and> list_all op_plain demo_ops \<and> fst (cat_build Catalog32_caps demo_ops BasicCatalog_new) \<and>
   map (eview c) (bc_entries c) =
     [(header_of (demo_entry 5 CC_INTENT), [], [(demo_schema, [[1], [2]], [watch, control])], None),
      (header_of (demo_entry 3 CC_STATE), [(demo_layout, [[3]], [])], [], None)]"
proof -
  have 1: "caps_ok Catalog32_caps" "list_all op_plain demo_ops"
    by (simp_all add: caps_ok_def Catalog32_caps_def demo_ops_def plain_schema_def plain_layout_def demo_schema_def demo_layout_def)
  have 2: "fst (cat_build Catalog32_caps demo_ops BasicCatalog_new)" by code_simp
  then have 3: "cat_build Catalog32_caps demo_ops BasicCatalog_new = (True, snd (cat_build Catalog32_caps demo_ops BasicCatalog_new))"
    by (simp add: prod_eq_iff)
  from catalog_declares [OF 1 3] 1 2 show ?thesis
    by (simp add: Let_def demo_ops_def on_last_def put_schema_def put_layout_def trimmed_def)
qed

end
