(* ===== verification/Stream_Bundle.thy ===== *)
theory Stream_Bundle
  imports Byte_IO
begin

text \<open>
  Bundles of timed samples, \<^verbatim>\<open>wire/stream_bundle.hpp\<close>: the in-place writer and the parser with its caps
  (32 samples, 20 ms, strictly increasing offsets from 0).
\<close>

section \<open>Definitions\<close>

definition kStreamBundleHeaderBytes :: nat where "kStreamBundleHeaderBytes = 6"
definition kStreamBundleTOffBytes :: nat where "kStreamBundleTOffBytes = 2"

abbreviation (input) bundle_max_samples :: nat where "bundle_max_samples \<equiv> 32"
abbreviation (input) bundle_max_span_us :: u32 where "bundle_max_span_us \<equiv> 20000"

record BundleWriter =
  bw_out :: bytes
  bw_tBase :: u32
  bw_sampleSize :: nat
  bw_valid :: bool
  bw_n :: u8
  bw_tOffs :: "u16 list"

definition BundleWriter_new :: "bytes \<Rightarrow> u32 \<Rightarrow> nat \<Rightarrow> BundleWriter" where
  "BundleWriter_new out tBase sampleSize =
    (let ok = (length out \<ge> kStreamBundleHeaderBytes) in
     \<lparr> bw_out = (if ok then subspan_put 5 putU8 0 (subspan_put 0 putU32 tBase out) else out), bw_tBase = tBase,
       bw_sampleSize = sampleSize, bw_valid = ok, bw_n = 0, bw_tOffs = replicate bundle_max_samples 0 \<rparr>)"

definition addSample :: "u16 \<Rightarrow> bytes \<Rightarrow> BundleWriter \<Rightarrow> bool \<times> BundleWriter" where
  "addSample tOff sample w =
    (let n = unat (bw_n w); sz = bw_sampleSize w in
     if \<not> bw_valid w then (False, w)
     else if length sample \<noteq> sz then (False, w)
     else if n \<ge> bundle_max_samples then (False, w)
     else if n = 0 \<and> tOff \<noteq> 0 then (False, w)
     else if n \<noteq> 0 \<and> tOff \<le> bw_tOffs w ! (n - 1) then (False, w)
     else if ucast tOff > bundle_max_span_us then (False, w)
     else
       let oldHeaderSize = kStreamBundleHeaderBytes + kStreamBundleTOffBytes * n;
           newHeaderSize = oldHeaderSize + kStreamBundleTOffBytes;
           newTotal = newHeaderSize + (n + 1) * sz in
       if newTotal > length (bw_out w) then (False, w)
       else
         let out = (if n > 0 then poke newHeaderSize (take (n * sz) (drop oldHeaderSize (bw_out w))) (bw_out w)
                    else bw_out w);
             out = subspan_put oldHeaderSize putU16 tOff out;
             out = poke (newHeaderSize + n * sz) sample out;
             out = subspan_put 4 putU8 (bw_n w + 1) out
         in (True, w \<lparr> bw_out := out, bw_tOffs := (bw_tOffs w)[n := tOff], bw_n := bw_n w + 1 \<rparr>))"

definition bw_finalize :: "BundleWriter \<Rightarrow> nat" where
  "bw_finalize w =
    (if \<not> bw_valid w then 0
     else kStreamBundleHeaderBytes + kStreamBundleTOffBytes * unat (bw_n w) + unat (bw_n w) * bw_sampleSize w)"

record BundleView =
  bv_in :: bytes
  bv_tBase :: u32
  bv_n :: u8
  bv_sampleSize :: nat

text \<open>The walk over the offsets; \<open>k\<close> of them are left.\<close>

fun bundle_walk :: "bytes \<Rightarrow> nat \<Rightarrow> nat \<Rightarrow> u16 \<Rightarrow> u16 result" where
  "bundle_walk inp 0 i lastTOff = Inr lastTOff"
| "bundle_walk inp (Suc k) i lastTOff =
    (let tOff = getU16 (drop (kStreamBundleHeaderBytes + kStreamBundleTOffBytes * i) inp) in
     if i = 0 \<and> tOff \<noteq> 0 then Inl Malformed
     else if i \<noteq> 0 \<and> tOff \<le> lastTOff then Inl Malformed
     else bundle_walk inp k (i + 1) tOff)"

definition BundleView_parse :: "bytes \<Rightarrow> nat \<Rightarrow> BundleView result" where
  "BundleView_parse inp sampleSize =
    (if length inp < kStreamBundleHeaderBytes then Inl Truncated
     else
       let tBase = getU32 inp; n = getU8 (drop 4 inp) in
       if unat n > bundle_max_samples then Inl Malformed
       else
         let tOffEnd = kStreamBundleHeaderBytes + kStreamBundleTOffBytes * unat n in
         if length inp < tOffEnd then Inl Truncated
         else case bundle_walk inp (unat n) 0 0 of
           Inl e \<Rightarrow> Inl e
         | Inr lastTOff \<Rightarrow>
             if n > 0 \<and> ucast lastTOff > bundle_max_span_us then Inl Malformed
             else if length inp < tOffEnd + unat n * sampleSize then Inl Truncated
             else Inr \<lparr> bv_in = inp, bv_tBase = tBase, bv_n = n, bv_sampleSize = sampleSize \<rparr>)"

definition sampleTimeUs :: "BundleView \<Rightarrow> nat \<Rightarrow> u32" where
  "sampleTimeUs v i = bv_tBase v + ucast (getU16 (drop (kStreamBundleHeaderBytes + kStreamBundleTOffBytes * i) (bv_in v)))"

definition bv_sample :: "BundleView \<Rightarrow> nat \<Rightarrow> bytes" where
  "bv_sample v i =
    (let samplesStart = kStreamBundleHeaderBytes + kStreamBundleTOffBytes * unat (bv_n v)
     in take (bv_sampleSize v) (drop (samplesStart + i * bv_sampleSize v) (bv_in v)))"

section \<open>What the writer leaves in the buffer\<close>

type_synonym sample = "u16 \<times> bytes"

definition bundle_image :: "u8 \<Rightarrow> u32 \<Rightarrow> sample list \<Rightarrow> bytes" where
  "bundle_image nb tBase acc =
    u32_bytes tBase @ [nb, 0] @ concat (map (\<lambda>(t, s). u16_bytes t) acc) @ concat (map snd acc)"

definition samples_ok :: "nat \<Rightarrow> sample list \<Rightarrow> bool" where
  "samples_ok sz acc \<longleftrightarrow> length acc \<le> bundle_max_samples \<and> (\<forall>(t, s) \<in> set acc. length s = sz \<and> t \<le> 20000) \<and>
     (acc \<noteq> [] \<longrightarrow> fst (hd acc) = 0) \<and> sorted_wrt (<) (map fst acc)"

lemma length_offsets [simp]: "length (concat (map (\<lambda>(t, s). u16_bytes t) acc)) = 2 * length acc"
  by (induction acc) auto

lemma length_samples: "\<forall>(t, s) \<in> set acc. length s = sz \<Longrightarrow> length (concat (map snd acc)) = length acc * sz"
  by (induction acc) auto

lemma length_bundle_image:
  "samples_ok sz acc \<Longrightarrow> length (bundle_image nb tBase acc) = 6 + 2 * length acc + length acc * sz"
  using length_samples [of acc sz] by (auto simp: bundle_image_def samples_ok_def)

text \<open>The writer holds the accepted samples; the count byte is current once there is one.\<close>

definition bw_holds :: "BundleWriter \<Rightarrow> nat \<Rightarrow> u32 \<Rightarrow> sample list \<Rightarrow> bool" where
  "bw_holds w sz tBase acc \<longleftrightarrow> bw_valid w \<and> bw_sampleSize w = sz \<and> samples_ok sz acc \<and> unat (bw_n w) = length acc \<and>
     length (bw_tOffs w) = bundle_max_samples \<and> take (length acc) (bw_tOffs w) = map fst acc \<and>
     (\<exists>nb rest. bw_out w = bundle_image nb tBase acc @ rest \<and> (acc \<noteq> [] \<longrightarrow> nb = of_nat (length acc)))"

lemma bw_holds_new:
  assumes "length out \<ge> 6"
  shows "bw_holds (BundleWriter_new out tBase sz) sz tBase []"
proof -
  obtain b0 b1 b2 b3 b4 b5 rest where out: "out = [b0, b1, b2, b3, b4, b5] @ rest"
    using assms by (auto simp: Suc_le_length_iff numeral_eq_Suc)
  have "subspan_put 5 putU8 0 (subspan_put 0 putU32 tBase out) = u32_bytes tBase @ [b4, 0] @ rest"
    by (simp add: out subspan_put_def putU32_def putU8_def u32_bytes_def upt_0_4)
  then show ?thesis using assms
    by (simp add: bw_holds_def BundleWriter_new_def kStreamBundleHeaderBytes_def samples_ok_def bundle_image_def)
qed

text \<open>The accepted sample, exactly when the caps allow it and it fits.\<close>

definition sample_fits :: "nat \<Rightarrow> nat \<Rightarrow> sample list \<Rightarrow> sample \<Rightarrow> bool" where
  "sample_fits cap sz acc x \<longleftrightarrow> samples_ok sz (acc @ [x]) \<and> 6 + 2 * (length acc + 1) + (length acc + 1) * sz \<le> cap"

lemma sorted_wrt_last: "sorted_wrt (<) (xs @ [t :: u16]) \<longleftrightarrow> sorted_wrt (<) xs \<and> (xs = [] \<or> last xs < t)"
proof (induction xs rule: rev_induct)
  case (snoc x xs)
  then show ?case by (auto simp: sorted_wrt_append)
qed simp

lemma ucast_le_span: "(ucast (t :: u16) :: u32) \<le> 20000 \<longleftrightarrow> t \<le> 20000"
  by (simp add: word_le_nat_alt unat_ucast_up)

lemma samples_ok_snoc:
  "samples_ok sz acc \<Longrightarrow> samples_ok sz (acc @ [(t, s)]) \<longleftrightarrow>
     length acc < bundle_max_samples \<and> length s = sz \<and> t \<le> 20000 \<and> (if acc = [] then t = 0 else last (map fst acc) < t)"
proof (cases "acc = []")
  case False
  then show "samples_ok sz acc \<Longrightarrow> ?thesis" by (auto simp: samples_ok_def sorted_wrt_last simp del: sorted_wrt.simps sorted_wrt_append)
qed (auto simp: samples_ok_def)

lemma addSample_buffer:
  assumes "length H = 6" and "length Of = 2 * n" and "length S = n * sz" and "length s = sz" and "length R \<ge> 2 + sz"
  shows "subspan_put 4 putU8 nb (poke (6 + 2 * n + 2 + n * sz) s (subspan_put (6 + 2 * n) putU16 t
      (if n > 0 then poke (6 + 2 * n + 2) (take (n * sz) (drop (6 + 2 * n) (H @ Of @ S @ R))) (H @ Of @ S @ R)
       else H @ Of @ S @ R))) = H[4 := nb] @ Of @ u16_bytes t @ S @ s @ drop (2 + sz) R"
proof -
  let ?X = "H @ Of"
  have X: "length ?X = 6 + 2 * n" using assms by simp
  obtain r0 r1 R' where R: "R = r0 # r1 # R'" and R': "length R' \<ge> sz" using assms(5) by (cases R rule: list.exhaust; cases "tl R") auto
  have S: "take (n * sz) (drop (6 + 2 * n) (?X @ S @ R)) = S" using X assms(3) by simp
  have 1: "(if n > 0 then poke (6 + 2 * n + 2) S (?X @ S @ R) else ?X @ S @ R) = ?X @ take 2 (S @ R) @ S @ R'"
  proof (cases "n = 0")
    case True
    then show ?thesis using assms(3) R by simp
  next
    case False
    have "poke (6 + 2 * n + 2) S (?X @ S @ R) = poke (6 + 2 * n + 2) S ((?X @ take 2 (S @ R)) @ drop 2 (S @ R))"
      by (simp only: append.assoc append_take_drop_id)
    also have "\<dots> = (?X @ take 2 (S @ R)) @ S @ drop (length S) (drop 2 (S @ R))"
      using X assms(5) by (intro poke_append) simp
    also have "drop (length S) (drop 2 (S @ R)) = drop 2 (drop (length S) (S @ R))" by (simp only: drop_drop add.commute)
    also have "\<dots> = R'" by (simp add: R)
    finally show ?thesis using False by simp
  qed
  have two: "length (take 2 (S @ R)) = 2" using assms(5) by simp
  have "\<exists>a b. xs = [a, b]" if "length xs = 2" for xs :: bytes using that by (auto simp: list_of_length_Suc numeral_2_eq_2)
  from this [OF two] obtain a b where ab: "take 2 (S @ R) = [a, b]" by blast
  have 2: "subspan_put (6 + 2 * n) putU16 t (?X @ take 2 (S @ R) @ S @ R') = ?X @ u16_bytes t @ S @ R'"
    using X unfolding ab by (simp add: subspan_put_def putU16_def u16_bytes_def)
  have 3: "poke (6 + 2 * n + 2 + n * sz) s ((?X @ u16_bytes t @ S) @ R') = (?X @ u16_bytes t @ S) @ s @ drop (length s) R'"
    using X assms(3) by (intro poke_append) simp
  have 4: "subspan_put 4 putU8 nb (H @ Z) = H[4 := nb] @ Z" for Z
  proof -
    obtain a b c d e f where "H = [a, b, c, d, e, f]" using assms(1) by (auto simp: list_lengths)
    then show ?thesis by (simp add: subspan_put_def putU8_def)
  qed
  have R2: "drop (length s) R' = drop (2 + sz) R" by (simp add: R assms(4))
  show ?thesis
    using 1 2 3 4 [of "Of @ u16_bytes t @ S @ s @ drop (2 + sz) R"] S unfolding R2 append.assoc by (simp only:)
qed

lemma addSample_holds:
  assumes "bw_holds w sz tBase acc"
  shows "if sample_fits (length (bw_out w)) sz acc (t, s)
    then fst (addSample t s w) \<and> bw_holds (snd (addSample t s w)) sz tBase (acc @ [(t, s)]) \<and>
      length (bw_out (snd (addSample t s w))) = length (bw_out w)
    else addSample t s w = (False, w)"
proof -
  from assms obtain nb R where v: "bw_valid w" "bw_sampleSize w = sz" "samples_ok sz acc" "unat (bw_n w) = length acc"
    "length (bw_tOffs w) = 32" "take (length acc) (bw_tOffs w) = map fst acc" and out: "bw_out w = bundle_image nb tBase acc @ R"
    by (auto simp: bw_holds_def)
  let ?n = "length acc"
  have le: "?n \<le> 32" using v(3) by (simp add: samples_ok_def)
  have prev: "bw_tOffs w ! (?n - 1) = last (map fst acc)" if "acc \<noteq> []"
  proof -
    have "bw_tOffs w \<noteq> []" using v(5) by auto
    then show ?thesis using that v(5) le unfolding v(6) [symmetric] by (simp add: last_conv_nth)
  qed
  have total: "length (bw_out w) = 6 + 2 * ?n + ?n * sz + length R" using length_bundle_image [OF v(3)] out by simp
  have guards: "sample_fits (length (bw_out w)) sz acc (t, s) \<longleftrightarrow>
      length s = sz \<and> ?n < 32 \<and> \<not> (?n = 0 \<and> t \<noteq> 0) \<and> \<not> (?n \<noteq> 0 \<and> t \<le> bw_tOffs w ! (?n - 1)) \<and>
      \<not> (ucast t :: u32) > 20000 \<and> \<not> 6 + 2 * ?n + 2 + (?n + 1) * sz > length (bw_out w)"
    using samples_ok_snoc [OF v(3), of t s] prev by (auto simp: sample_fits_def ucast_le_span not_less not_le)
  show ?thesis
  proof (cases "sample_fits (length (bw_out w)) sz acc (t, s)")
    case False
    then have "length s \<noteq> sz \<or> ?n \<ge> 32 \<or> (?n = 0 \<and> t \<noteq> 0) \<or> (?n \<noteq> 0 \<and> t \<le> bw_tOffs w ! (?n - 1)) \<or>
      (ucast t :: u32) > 20000 \<or> 6 + 2 * ?n + 2 + (?n + 1) * sz > length (bw_out w)"
      unfolding guards by linarith
    then have "addSample t s w = (False, w)"
      unfolding addSample_def Let_def v(2,4) kStreamBundleHeaderBytes_def kStreamBundleTOffBytes_def
      by (elim disjE; auto)
    then show ?thesis using False by simp
  next
    case True
    then have gs: "(length s \<noteq> sz) = False" "(32 \<le> ?n) = False" "(?n = 0 \<and> t \<noteq> 0) = False"
      "(?n \<noteq> 0 \<and> t \<le> bw_tOffs w ! (?n - 1)) = False" "((ucast t :: u32) > 20000) = False"
      "(6 + 2 * ?n + 2 + (?n + 1) * sz > length (bw_out w)) = False" unfolding guards by auto
    from True guards have g: "length s = sz" "?n < 32" "2 + sz \<le> length R" using total by auto
    let ?w = "snd (addSample t s w)"
    let ?H = "u32_bytes tBase @ [nb, 0]" and ?O = "concat (map (\<lambda>(t, s). u16_bytes t) acc)" and ?S = "concat (map snd acc)"
    have S: "length ?S = ?n * sz" using v(3) by (intro length_samples) (auto simp: samples_ok_def)
    have out': "bw_out w = ?H @ ?O @ ?S @ R" using out by (simp add: bundle_image_def)
    let ?NEW = "?H[4 := bw_n w + 1] @ ?O @ u16_bytes t @ ?S @ s @ drop (2 + sz) R"
    have buf: "subspan_put 4 putU8 (bw_n w + 1) (poke (6 + 2 * ?n + 2 + ?n * sz) s (subspan_put (6 + 2 * ?n) putU16 t
      (if ?n > 0 then poke (6 + 2 * ?n + 2) (take (?n * sz) (drop (6 + 2 * ?n) (bw_out w))) (bw_out w) else bw_out w))) = ?NEW"
      unfolding out' by (rule addSample_buffer) (use g S in simp_all)
    have "addSample t s w = (True, w \<lparr> bw_out := subspan_put 4 putU8 (bw_n w + 1) (poke (6 + 2 * ?n + 2 + ?n * sz) s
        (subspan_put (6 + 2 * ?n) putU16 t (if ?n > 0 then poke (6 + 2 * ?n + 2) (take (?n * sz) (drop (6 + 2 * ?n) (bw_out w)))
          (bw_out w) else bw_out w))), bw_tOffs := (bw_tOffs w)[?n := t], bw_n := bw_n w + 1 \<rparr>)"
      unfolding addSample_def Let_def v(2,4) kStreamBundleHeaderBytes_def kStreamBundleTOffBytes_def
      by (simp only: v(1) gs if_False if_True not_True_eq_False)
    then have w: "addSample t s w = (True, w \<lparr> bw_out := ?NEW, bw_tOffs := (bw_tOffs w)[?n := t], bw_n := bw_n w + 1 \<rparr>)"
      unfolding buf .
    have n: "unat (bw_n w + 1) = ?n + 1" "bw_n w + 1 = of_nat (?n + 1)"
      using v(4) g(2) unat_add_lem [of "bw_n w" 1] by (auto simp: unat_of_nat intro!: word_unat_eq_iff [THEN iffD2])
    have offs: "take (?n + 1) ((bw_tOffs w)[?n := t]) = map fst acc @ [t]"
      using v(5,6) g(2) by (simp add: take_Suc_conv_app_nth)
    have "bw_out ?w = bundle_image (of_nat (?n + 1)) tBase (acc @ [(t, s)]) @ drop (2 + sz) R"
      unfolding w by (simp add: bundle_image_def n(2) u32_bytes_def)
    then have ex: "\<exists>nb rest. bw_out ?w = bundle_image nb tBase (acc @ [(t, s)]) @ rest \<and>
        (acc @ [(t, s)] \<noteq> [] \<longrightarrow> nb = of_nat (length (acc @ [(t, s)])))" by (intro exI) simp
    have fields: "bw_valid ?w = bw_valid w" "bw_sampleSize ?w = bw_sampleSize w" "bw_n ?w = bw_n w + 1"
      "bw_tOffs ?w = (bw_tOffs w)[?n := t]" unfolding w by simp_all
    have "bw_holds ?w sz tBase (acc @ [(t, s)])"
      unfolding bw_holds_def fields using v(1,2,5) offs n(1) True ex by (simp add: sample_fits_def)
    moreover have "length (bw_out ?w) = length (bw_out w)" using g S unfolding w total by simp
    ultimately show ?thesis using True w by simp
  qed
qed

section \<open>The parser\<close>

definition bundle_offset :: "bytes \<Rightarrow> nat \<Rightarrow> u16" where
  "bundle_offset inp i = getU16 (drop (kStreamBundleHeaderBytes + kStreamBundleTOffBytes * i) inp)"

lemma all_from: "(\<forall>j. i \<le> j \<and> j < i + Suc k \<longrightarrow> P j) \<longleftrightarrow> P i \<and> (\<forall>j. i + 1 \<le> j \<and> j < i + 1 + k \<longrightarrow> P j)"
proof (intro iffI conjI allI impI)
  fix j assume "P i \<and> (\<forall>j. i + 1 \<le> j \<and> j < i + 1 + k \<longrightarrow> P j)" and "i \<le> j \<and> j < i + Suc k"
  then show "P j" by (cases "j = i") auto
qed auto

lemma bundle_walk_spec:
  "(0 < i \<Longrightarrow> lst = bundle_offset inp (i - 1)) \<Longrightarrow>
   bundle_walk inp k i lst =
     (if \<forall>j. i \<le> j \<and> j < i + k \<longrightarrow> (if j = 0 then bundle_offset inp 0 = 0 else bundle_offset inp (j - 1) < bundle_offset inp j)
      then Inr (if k = 0 then lst else bundle_offset inp (i + k - 1)) else Inl Malformed)"
proof (induction k arbitrary: i lst)
  case (Suc k)
  let ?ok = "\<lambda>j. if j = 0 then bundle_offset inp 0 = 0 else bundle_offset inp (j - 1) < bundle_offset inp j"
  have split: "(\<forall>j. i \<le> j \<and> j < i + Suc k \<longrightarrow> ?ok j) \<longleftrightarrow> ?ok i \<and> (\<forall>j. i + 1 \<le> j \<and> j < i + 1 + k \<longrightarrow> ?ok j)"
    by (rule all_from)
  have "bundle_walk inp (Suc k) i lst = (if ?ok i then bundle_walk inp k (i + 1) (bundle_offset inp i) else Inl Malformed)"
    using Suc.prems by (cases "i = 0") (auto simp: Let_def bundle_offset_def not_less)
  then show ?case
    using Suc.IH [of "i + 1" "bundle_offset inp i"] unfolding split by simp
qed auto

lemma drop_concat_fixed:
  "(\<And>x. x \<in> set xs \<Longrightarrow> length (f x) = k) \<Longrightarrow> i < length xs \<Longrightarrow>
   drop (i * k) (concat (map f xs)) = f (xs ! i) @ concat (map f (drop (Suc i) xs))"
proof (induction xs arbitrary: i)
  case (Cons x xs)
  then show ?case by (cases i) auto
qed simp

lemma image_offset:
  assumes "i < length acc"
  shows "bundle_offset (bundle_image nb tBase acc @ rest) i = fst (acc ! i)"
proof -
  let ?f = "\<lambda>(t :: u16, s :: bytes). u16_bytes t"
  have len: "length (concat (map ?f acc)) = 2 * length acc" by simp
  have "drop (6 + 2 * i) (bundle_image nb tBase acc @ rest) =
      drop (2 * i) (concat (map ?f acc) @ concat (map snd acc) @ rest)" by (simp add: bundle_image_def)
  also have "\<dots> = drop (2 * i) (concat (map ?f acc)) @ concat (map snd acc) @ rest" using assms by simp
  also have "drop (2 * i) (concat (map ?f acc)) = u16_bytes (fst (acc ! i)) @ concat (map ?f (drop (Suc i) acc))"
    using drop_concat_fixed [of acc ?f 2 i] assms by (auto simp: mult.commute case_prod_beta)
  finally show ?thesis by (simp add: bundle_offset_def kStreamBundleHeaderBytes_def kStreamBundleTOffBytes_def)
qed

lemma image_sample:
  assumes "samples_ok sz acc" and "i < length acc"
  shows "take sz (drop (6 + 2 * length acc + i * sz) (bundle_image nb tBase acc @ rest)) = snd (acc ! i)"
proof -
  have ok: "length (snd x) = sz" if "x \<in> set acc" for x using that assms(1) by (auto simp: samples_ok_def)
  have "length (concat (map snd acc)) = length acc * sz" using assms(1) by (intro length_samples) (auto simp: samples_ok_def)
  then have le: "i * sz \<le> length (concat (map snd acc))" using assms(2) by simp
  have "drop (6 + 2 * length acc + i * sz) (bundle_image nb tBase acc @ rest) = drop (i * sz) (concat (map snd acc) @ rest)"
    by (simp add: bundle_image_def)
  also have "\<dots> = drop (i * sz) (concat (map snd acc)) @ rest" using le by simp
  also have "drop (i * sz) (concat (map snd acc)) = snd (acc ! i) @ concat (map snd (drop (Suc i) acc))"
    by (rule drop_concat_fixed [OF ok assms(2)])
  finally show ?thesis using ok [OF nth_mem [OF assms(2)]] by simp
qed

lemma parse_image:
  assumes "samples_ok sz acc" and "acc \<noteq> []"
  shows "\<exists>v. BundleView_parse (bundle_image (of_nat (length acc)) tBase acc @ rest) sz = Inr v \<and>
    unat (bv_n v) = length acc \<and>
    (\<forall>i < length acc. sampleTimeUs v i = tBase + ucast (fst (acc ! i)) \<and> bv_sample v i = snd (acc ! i))"
proof -
  let ?n = "length acc" and ?in = "bundle_image (of_nat (length acc)) tBase acc @ rest"
  have n: "?n \<le> 32" "0 < ?n" using assms by (simp_all add: samples_ok_def)
  then have un: "unat (of_nat ?n :: u8) = ?n" by (simp add: unat_of_nat)
  then have pos: "(of_nat ?n :: u8) > 0" using n by (simp add: word_less_nat_alt)
  have hd: "getU32 ?in = tBase" "getU8 (drop 4 ?in) = of_nat ?n"
    by (simp_all add: bundle_image_def getU8_def)
  have sorted: "fst (acc ! (j - 1)) < fst (acc ! j)" if "0 < j" "j < ?n" for j
    using assms(1) that sorted_wrt_nth_less [of "(<)" "map fst acc" "j - 1" j] by (simp add: samples_ok_def)
  have "bundle_walk ?in ?n 0 0 = Inr (bundle_offset ?in (?n - 1))"
    using bundle_walk_spec [of 0 0 ?in ?n] n assms sorted image_offset [of _ acc] by (auto simp: samples_ok_def hd_conv_nth)
  moreover have "bundle_offset ?in (?n - 1) \<le> 20000"
  proof -
    have "acc ! (?n - 1) \<in> set acc" using n by simp
    then have "fst (acc ! (?n - 1)) \<le> 20000" using assms(1) by (auto simp: samples_ok_def)
    then show ?thesis using image_offset [of "?n - 1" acc "of_nat ?n" tBase rest] n by simp
  qed
  moreover have "length ?in \<ge> 6 + 2 * ?n + ?n * sz" using length_bundle_image [OF assms(1)] by simp
  ultimately have "BundleView_parse ?in sz = Inr \<lparr> bv_in = ?in, bv_tBase = tBase, bv_n = of_nat ?n, bv_sampleSize = sz \<rparr>"
    using hd un n by (simp add: BundleView_parse_def Let_def kStreamBundleHeaderBytes_def kStreamBundleTOffBytes_def ucast_le_span not_less)
  then show ?thesis
    using un image_offset [of _ acc "of_nat ?n" tBase rest] image_sample [OF assms(1), of _ "of_nat ?n" tBase rest]
    by (simp add: sampleTimeUs_def bv_sample_def Let_def bundle_offset_def kStreamBundleHeaderBytes_def kStreamBundleTOffBytes_def)
qed

section \<open>Writing and parsing\<close>

fun bw_run :: "sample list \<Rightarrow> BundleWriter \<Rightarrow> BundleWriter" where
  "bw_run [] w = w"
| "bw_run ((t, s) # xs) w = bw_run xs (snd (addSample t s w))"

text \<open>The samples a bundle of \<open>cap\<close> bytes takes from a sequence of attempts.\<close>

fun bundle_takes :: "nat \<Rightarrow> nat \<Rightarrow> sample list \<Rightarrow> sample list \<Rightarrow> sample list" where
  "bundle_takes cap sz acc [] = acc"
| "bundle_takes cap sz acc (x # xs) = bundle_takes cap sz (if sample_fits cap sz acc x then acc @ [x] else acc) xs"

lemma bw_run_holds:
  "bw_holds w sz tBase acc \<Longrightarrow> cap = length (bw_out w) \<Longrightarrow> bw_holds (bw_run xs w) sz tBase (bundle_takes cap sz acc xs)"
proof (induction xs w arbitrary: acc rule: bw_run.induct)
  case (2 t s xs w)
  show ?case
  proof (cases "sample_fits cap sz acc (t, s)")
    case True
    then show ?thesis using 2 addSample_holds [OF "2.prems"(1), of t s] by simp
  next
    case False
    then show ?thesis using 2 addSample_holds [OF "2.prems"(1), of t s] by simp
  qed
qed simp

text \<open>
  A bundle delivers what was put into it.  After any sequence of \<open>addSample\<close> calls, accepted or refused,
  the parser accepts the finalized bytes and returns exactly the samples that were accepted, in order, each at
  the base time plus its offset; a sample is accepted exactly if the result stays within the caps (32 samples,
  first offset 0, strictly increasing, at most 20 ms, the sample's declared size) and fits the buffer.
\<close>
theorem bundle_roundtrip:
  assumes "length out \<ge> 6" and "acc = bundle_takes (length out) sz [] attempts" and "acc \<noteq> []"
    and "w = bw_run attempts (BundleWriter_new out tBase sz)"
  shows "case BundleView_parse (take (bw_finalize w) (bw_out w)) sz of
      Inl e \<Rightarrow> False
    | Inr v \<Rightarrow> map (\<lambda>i. (sampleTimeUs v i, bv_sample v i)) [0..<unat (bv_n v)] = map (\<lambda>(t, s). (tBase + ucast t, s)) acc"
proof -
  have "length (bw_out (BundleWriter_new out tBase sz)) = length out"
    using assms(1) by (simp add: BundleWriter_new_def kStreamBundleHeaderBytes_def subspan_put_def putU8_def putU32_def upt_0_4)
  with bw_run_holds [OF bw_holds_new [OF assms(1)], of "length out" tBase sz attempts] assms(2,4)
  have h: "bw_holds w sz tBase acc" by simp
  then obtain rest where ok: "samples_ok sz acc" and out: "bw_out w = bundle_image (of_nat (length acc)) tBase acc @ rest"
    using assms(3) by (auto simp: bw_holds_def)
  have "bw_finalize w = length (bundle_image (of_nat (length acc)) tBase acc)"
    using h length_bundle_image [OF ok] by (simp add: bw_holds_def bw_finalize_def kStreamBundleHeaderBytes_def kStreamBundleTOffBytes_def)
  then have "take (bw_finalize w) (bw_out w) = bundle_image (of_nat (length acc)) tBase acc @ []" by (simp add: out)
  then obtain v where "BundleView_parse (take (bw_finalize w) (bw_out w)) sz = Inr v" "unat (bv_n v) = length acc"
    "\<forall>i < length acc. sampleTimeUs v i = tBase + ucast (fst (acc ! i)) \<and> bv_sample v i = snd (acc ! i)"
    using parse_image [OF ok assms(3), of tBase "[]"] by auto
  then show ?thesis by (auto intro!: nth_equalityI simp: case_prod_beta)
qed

theorem bundle_roundtrip_witness:
  "let out = replicate 14 0xFF; attempts = [(0, [1]), (7, [2, 2]), (0, [3]), (9, [4])];
       w = bw_run attempts (BundleWriter_new out 100 1) in
   bundle_takes 14 1 [] attempts = [(0, [1]), (9, [4])] \<and>
   (case BundleView_parse (take (bw_finalize w) (bw_out w)) 1 of
      Inl e \<Rightarrow> False
    | Inr v \<Rightarrow> map (\<lambda>i. (sampleTimeUs v i, bv_sample v i)) [0..<unat (bv_n v)] = [(100, [1]), (109, [4])])"
proof -
  have t: "bundle_takes 14 1 [] [(0, [1]), (7, [2, 2]), (0, [3]), (9, [4])] = [(0, [1]), (9, [4])]" by code_simp
  have e: "map (\<lambda>(t, s). (100 + ucast t :: u32, s)) [(0 :: u16, [1 :: byte]), (9, [4])] = [(100, [1]), (109, [4])]" by simp
  have "case BundleView_parse (take (bw_finalize w) (bw_out w)) 1 of Inl e \<Rightarrow> False
      | Inr v \<Rightarrow> map (\<lambda>i. (sampleTimeUs v i, bv_sample v i)) [0..<unat (bv_n v)] = [(100, [1]), (109, [4])]"
    if "w = bw_run [(0, [1]), (7, [2, 2]), (0, [3]), (9, [4])] (BundleWriter_new (replicate 14 0xFF) 100 1)" for w
    unfolding e [symmetric]
    by (rule bundle_roundtrip [where out = "replicate 14 0xFF" and attempts = "[(0, [1]), (7, [2, 2]), (0, [3]), (9, [4])]"])
      (use that t in \<open>simp_all del: bw_run.simps bundle_takes.simps\<close>)
  from this [OF refl] t show ?thesis unfolding Let_def by blast
qed

text \<open>
  Every bundle the parser accepts, whoever sent it, is within the caps, and all its samples lie inside the
  received bytes: at most 32 samples of the declared size, offsets strictly increasing from 0 and at most 20 ms.
\<close>
theorem bundle_parse_safe:
  "case BundleView_parse inp sz of
     Inl e \<Rightarrow> True
   | Inr v \<Rightarrow>
       let n = unat (bv_n v); offs = map (\<lambda>i. sampleTimeUs v i - bv_tBase v) [0..<n] in
       n \<le> 32 \<and> 6 + 2 * n + n * sz \<le> length inp \<and> list_all (\<lambda>i. length (bv_sample v i) = sz) [0..<n] \<and>
       (if n = 0 then True else offs ! 0 = 0) \<and> sorted_wrt (<) offs \<and> list_all (\<lambda>d. d \<le> 20000) offs"
proof (cases "BundleView_parse inp sz")
  case (Inr v)
  let ?n = "unat (bv_n v)"
  obtain l where v: "bv_in v = inp" "bv_sampleSize v = sz" and n: "?n \<le> 32" and len: "6 + 2 * ?n + ?n * sz \<le> length inp"
    and walk: "bundle_walk inp ?n 0 0 = Inr l" and l: "\<not> (bv_n v > 0 \<and> (ucast l :: u32) > 20000)"
    using Inr by (auto simp: BundleView_parse_def Let_def kStreamBundleHeaderBytes_def kStreamBundleTOffBytes_def not_less
        split: if_splits sum.splits)
  have d: "sampleTimeUs v i - bv_tBase v = ucast (bundle_offset inp i)" for i
    by (simp add: sampleTimeUs_def bundle_offset_def v)
  have inc: "if j = 0 then bundle_offset inp 0 = 0 else bundle_offset inp (j - 1) < bundle_offset inp j" if "j < ?n" for j
    using walk bundle_walk_spec [of 0 0 inp ?n] that by (auto split: if_splits)
  have less: "bundle_offset inp i < bundle_offset inp j" if "i < j" "j < ?n" for i j
    using that
  proof (induction j)
    case (Suc j)
    then show ?case using inc [of "Suc j"] by (cases "i = j") (auto intro: less_trans)
  qed simp
  have "bundle_offset inp i \<le> 20000" if "i < ?n" for i
  proof -
    have "l = bundle_offset inp (?n - 1)" using walk bundle_walk_spec [of 0 0 inp ?n] that by (auto split: if_splits)
    moreover have "bv_n v > 0" using that by (metis unat_0 gr_implies_not0 word_neq_0_conv)
    ultimately have "bundle_offset inp (?n - 1) \<le> 20000" using l by (simp add: ucast_le_span not_less)
    moreover have "bundle_offset inp i \<le> bundle_offset inp (?n - 1)"
    proof (cases "i = ?n - 1")
      case False
      then have "i < ?n - 1" using that by linarith
      then show ?thesis using less [of i "?n - 1"] that by (simp add: less_imp_le)
    qed simp
    ultimately show ?thesis by (rule order.trans [rotated])
  qed
  moreover have "length (bv_sample v i) = sz" if "i < ?n" for i
  proof -
    have "(i + 1) * sz \<le> ?n * sz" using that by (intro mult_right_mono) auto
    then show ?thesis using len
      by (simp add: bv_sample_def Let_def v kStreamBundleHeaderBytes_def kStreamBundleTOffBytes_def)
  qed
  ultimately show ?thesis
    using Inr n len inc less by (simp add: Let_def d list_all_iff sorted_wrt_iff_nth_less ucast_le_span word_less_nat_alt unat_ucast_up)
qed simp

end
