(* ===== verification/Blob_Chunks.thy ===== *)
theory Blob_Chunks
  imports Msg_Blob Serial_Arith Byte_IO
begin

text \<open>
  Chunked transfer of blobs, \<^verbatim>\<open>wire/blob_chunks.hpp\<close>: the 14-byte chunk header, the cutting of a blob into
  chunks of 192 bytes and the receiver's reassembly with selective repair.  The reassembler's buffer and its
  received flags are the arrays of the source (template argument \<open>MaxChunks\<close> an argument); \<open>begin\<close> does not
  clear the buffer.
\<close>

section \<open>Definitions: chunks\<close>

definition kBlobChunkHeaderBytes :: nat where "kBlobChunkHeaderBytes = 14"

abbreviation (input) catalog_chunk_payload :: nat where "catalog_chunk_payload \<equiv> 192"
abbreviation (input) frag_reassembly_timeout_ms :: u32 where "frag_reassembly_timeout_ms \<equiv> 5000"
abbreviation (input) catalog_chunk_gap_timeout_ms :: u32 where "catalog_chunk_gap_timeout_ms \<equiv> 500"

record BlobChunkHeader =
  bh_id :: BlobId
  bh_chunk_index :: u16
  bh_chunk_count :: u16
  bh_total_bytes :: u32

definition chunkCount :: "nat \<Rightarrow> nat" where
  "chunkCount totalBytes =
    (if totalBytes = 0 then 0 else (totalBytes + catalog_chunk_payload - 1) div catalog_chunk_payload)"

text \<open>An absent optional field is 0 in the struct.\<close>

definition opt0 :: "'a::zero option \<Rightarrow> 'a" where
  "opt0 x = (case x of None \<Rightarrow> 0 | Some v \<Rightarrow> v)"

definition putBlobChunkHeader :: "BlobChunkHeader \<Rightarrow> bytes \<Rightarrow> nat \<times> bytes" where
  "putBlobChunkHeader h out =
    (if length out < kBlobChunkHeaderBytes then (0, out)
     else
       let out = subspan_put 0 putU8 (bi_ns (bh_id h)) out;
           out = subspan_put 1 putU8 (opt0 (bi_store_id (bh_id h))) out;
           out = subspan_put 2 putU8 (opt0 (bi_slot (bh_id h))) out;
           out = subspan_put 3 putU8 0 out;
           out = subspan_put 4 putU16 (opt0 (bi_generation (bh_id h))) out;
           out = subspan_put 6 putU16 (bh_chunk_index h) out;
           out = subspan_put 8 putU16 (bh_chunk_count h) out;
           out = subspan_put 10 putU32 (bh_total_bytes h) out
       in (kBlobChunkHeaderBytes, out))"

definition getBlobChunkHeader :: "bytes \<Rightarrow> BlobChunkHeader option" where
  "getBlobChunkHeader inp =
    (if length inp < kBlobChunkHeaderBytes then None
     else
       let ns = getU8 inp; cat = (ns = blob_ns_catalog); gen = getU16 (drop 4 inp) in
       Some \<lparr> bh_id = \<lparr> bi_ns = ns, bi_store_id = (if cat then None else Some (getU8 (drop 1 inp))),
                 bi_slot = (if cat then None else Some (getU8 (drop 2 inp))),
                 bi_generation = (if gen = 0 then None else Some gen) \<rparr>,
              bh_chunk_index = getU16 (drop 6 inp), bh_chunk_count = getU16 (drop 8 inp),
              bh_total_bytes = getU32 (drop 10 inp) \<rparr>)"

definition fillBlobChunk :: "BlobId \<Rightarrow> bytes \<Rightarrow> u16 \<Rightarrow> bytes \<Rightarrow> nat \<times> bytes" where
  "fillBlobChunk i encoded index out =
    (let cc = chunkCount (length encoded) in
     if cc = 0 \<or> unat index \<ge> cc then (0, out)
     else
       let offset = unat index * catalog_chunk_payload;
           payloadLen = min (length encoded - offset) catalog_chunk_payload;
           total = kBlobChunkHeaderBytes + payloadLen in
       if length out < total then (0, out)
       else
         let h = \<lparr> bh_id = i, bh_chunk_index = index, bh_chunk_count = of_nat cc, bh_total_bytes = of_nat (length encoded) \<rparr>
         in (total, poke kBlobChunkHeaderBytes (take payloadLen (drop offset encoded)) (snd (putBlobChunkHeader h out))))"

section \<open>Definitions: reassembly\<close>

record ChunkReassembler =
  cr_buf :: bytes
  cr_received :: "bool list"
  cr_id :: BlobId
  cr_chunkCount :: u16
  cr_receivedCount :: u32
  cr_totalBytes :: nat
  cr_startMs :: u32
  cr_lastProgressMs :: u32
  cr_active :: bool

definition ChunkReassembler_new :: "nat \<Rightarrow> ChunkReassembler" where
  "ChunkReassembler_new maxChunks = \<lparr> cr_buf = replicate (maxChunks * catalog_chunk_payload) 0,
     cr_received = replicate maxChunks False, cr_id = BlobId_new, cr_chunkCount = 0, cr_receivedCount = 0, cr_totalBytes = 0,
     cr_startMs = 0, cr_lastProgressMs = 0, cr_active = False \<rparr>"

definition cr_begin :: "nat \<Rightarrow> BlobId \<Rightarrow> u16 \<Rightarrow> nat \<Rightarrow> u32 \<Rightarrow> ChunkReassembler \<Rightarrow> ChunkReassembler" where
  "cr_begin maxChunks i count totalBytes now r =
    (let ok = (count > 0 \<and> unat count \<le> maxChunks \<and> totalBytes \<le> maxChunks * catalog_chunk_payload) in
     r \<lparr> cr_active := ok, cr_id := i, cr_chunkCount := (if ok then count else 0), cr_totalBytes := (if ok then totalBytes else 0),
         cr_receivedCount := 0, cr_received := replicate (length (cr_received r)) False,
         cr_startMs := now, cr_lastProgressMs := now \<rparr>)"

definition cr_insert :: "bytes \<Rightarrow> u32 \<Rightarrow> ChunkReassembler \<Rightarrow> bool \<times> ChunkReassembler" where
  "cr_insert chunkPayload now r =
    (if \<not> cr_active r then (False, r)
     else case getBlobChunkHeader chunkPayload of
       None \<Rightarrow> (False, r)
     | Some h \<Rightarrow>
         if \<not> sameTarget (bh_id h) (cr_id r) then (False, r)
         else if bh_chunk_count h \<noteq> cr_chunkCount r \<or> bh_chunk_index h \<ge> cr_chunkCount r then (False, r)
         else
           let payloadLen = length chunkPayload - kBlobChunkHeaderBytes;
               idx = unat (bh_chunk_index h);
               offset = idx * catalog_chunk_payload in
           if offset + payloadLen > length (cr_buf r) then (False, r)
           else
             let r = r \<lparr> cr_buf := poke offset (drop kBlobChunkHeaderBytes chunkPayload) (cr_buf r) \<rparr>;
                 r = (if \<not> cr_received r ! idx
                      then r \<lparr> cr_received := (cr_received r)[idx := True], cr_receivedCount := cr_receivedCount r + 1 \<rparr>
                      else r)
             in (True, r \<lparr> cr_lastProgressMs := now \<rparr>))"

definition cr_complete :: "ChunkReassembler \<Rightarrow> bool" where
  "cr_complete r \<longleftrightarrow> cr_active r \<and> cr_receivedCount r = ucast (cr_chunkCount r)"

text \<open>\<open>room\<close> is \<open>out.size()\<close>; the result is what is written to \<open>out\<close>.\<close>

definition missingIndices :: "nat \<Rightarrow> nat \<Rightarrow> ChunkReassembler \<Rightarrow> u16 list" where
  "missingIndices maxChunks room r =
    (if \<not> cr_active r then []
     else take room (map of_nat (filter (\<lambda>i. i < maxChunks \<and> \<not> cr_received r ! i) [0..<unat (cr_chunkCount r)])))"

definition cr_timedOut :: "u32 \<Rightarrow> ChunkReassembler \<Rightarrow> bool" where
  "cr_timedOut now r \<longleftrightarrow> cr_active r \<and> timeReached now (cr_startMs r + frag_reassembly_timeout_ms)"

definition cr_gapElapsed :: "u32 \<Rightarrow> ChunkReassembler \<Rightarrow> bool" where
  "cr_gapElapsed now r \<longleftrightarrow> cr_active r \<and> \<not> cr_complete r \<and> timeReached now (cr_lastProgressMs r + catalog_chunk_gap_timeout_ms)"

definition cr_assembled :: "ChunkReassembler \<Rightarrow> bytes" where
  "cr_assembled r =
    (if \<not> cr_active r \<or> cr_totalBytes r > length (cr_buf r) then [] else take (cr_totalBytes r) (cr_buf r))"

section \<open>A chunk on the wire\<close>

definition chunk_header_image :: "BlobChunkHeader \<Rightarrow> bytes" where
  "chunk_header_image h = [bi_ns (bh_id h), opt0 (bi_store_id (bh_id h)), opt0 (bi_slot (bh_id h)), 0] @
     u16_bytes (opt0 (bi_generation (bh_id h))) @ u16_bytes (bh_chunk_index h) @ u16_bytes (bh_chunk_count h) @
     u32_bytes (bh_total_bytes h)"

lemma length_chunk_header_image [simp]: "length (chunk_header_image h) = 14"
  by (simp add: chunk_header_image_def)

lemma putBlobChunkHeader_image:
  assumes "length out \<ge> 14"
  shows "putBlobChunkHeader h out = (14, chunk_header_image h @ drop 14 out)"
proof -
  have "putBlobChunkHeader h out = (14, poke 0 (chunk_header_image h) out)"
    using assms by (simp add: putBlobChunkHeader_def kBlobChunkHeaderBytes_def Let_def poke_poke_next chunk_header_image_def)
  then show ?thesis by (simp add: poke_prefix)
qed

text \<open>What the header says about the transfer, read back.\<close>

lemma getBlobChunkHeader_image:
  "\<exists>g. getBlobChunkHeader (chunk_header_image h @ rest) = Some g \<and> bh_chunk_index g = bh_chunk_index h \<and>
     bh_chunk_count g = bh_chunk_count h \<and> bh_total_bytes g = bh_total_bytes h \<and>
     bi_ns (bh_id g) = bi_ns (bh_id h) \<and> opt0 (bi_generation (bh_id g)) = opt0 (bi_generation (bh_id h)) \<and>
     (isCatalog (bh_id h) \<or> sameTarget (bh_id g) (bh_id h))"
proof -
  have 4: "drop 4 (chunk_header_image h @ rest) = u16_bytes (opt0 (bi_generation (bh_id h))) @ u16_bytes (bh_chunk_index h) @
      u16_bytes (bh_chunk_count h) @ u32_bytes (bh_total_bytes h) @ rest" by (simp add: chunk_header_image_def)
  have 6: "drop 6 (chunk_header_image h @ rest) = u16_bytes (bh_chunk_index h) @ u16_bytes (bh_chunk_count h) @
      u32_bytes (bh_total_bytes h) @ rest" by (simp add: chunk_header_image_def)
  have 8: "drop 8 (chunk_header_image h @ rest) = u16_bytes (bh_chunk_count h) @ u32_bytes (bh_total_bytes h) @ rest"
    by (simp add: chunk_header_image_def)
  have 10: "drop 10 (chunk_header_image h @ rest) = u32_bytes (bh_total_bytes h) @ rest" by (simp add: chunk_header_image_def)
  have 0: "getU8 (chunk_header_image h @ rest) = bi_ns (bh_id h)" "getU8 (drop 1 (chunk_header_image h @ rest)) = opt0 (bi_store_id (bh_id h))"
    "getU8 (drop 2 (chunk_header_image h @ rest)) = opt0 (bi_slot (bh_id h))"
    by (simp_all add: chunk_header_image_def getU8_def)
  show ?thesis
    unfolding getBlobChunkHeader_def 4 6 8 10 0 Let_def
    by (simp add: kBlobChunkHeaderBytes_def isCatalog_def sameTarget_def opt0_def split: option.split)
qed

text \<open>The bytes of chunk \<open>k\<close> of a blob.\<close>

definition blob_piece :: "bytes \<Rightarrow> nat \<Rightarrow> bytes" where
  "blob_piece encoded k = take catalog_chunk_payload (drop (k * catalog_chunk_payload) encoded)"

definition chunk_bytes :: "BlobId \<Rightarrow> bytes \<Rightarrow> nat \<Rightarrow> bytes" where
  "chunk_bytes i encoded k =
    chunk_header_image \<lparr> bh_id = i, bh_chunk_index = of_nat k, bh_chunk_count = of_nat (chunkCount (length encoded)),
      bh_total_bytes = of_nat (length encoded) \<rparr> @ blob_piece encoded k"

lemma length_blob_piece: "length (blob_piece encoded k) = min (length encoded - k * 192) 192"
  by (simp add: blob_piece_def min.commute)

lemma fillBlobChunk_image:
  assumes "k < chunkCount (length encoded)" and "k < 2 ^ 16" and "length out \<ge> 206"
  shows "take (fst (fillBlobChunk i encoded (of_nat k) out)) (snd (fillBlobChunk i encoded (of_nat k) out)) = chunk_bytes i encoded k"
    "fst (fillBlobChunk i encoded (of_nat k) out) > 0"
proof -
  have k: "unat (of_nat k :: u16) = k" using assms(2) by (simp add: unat_of_nat)
  let ?p = "min (length encoded - k * 192) 192"
  let ?h = "\<lparr> bh_id = i, bh_chunk_index = of_nat k, bh_chunk_count = of_nat (chunkCount (length encoded)),
      bh_total_bytes = of_nat (length encoded) \<rparr>"
  have piece: "take ?p (drop (k * 192) encoded) = blob_piece encoded k" by (simp add: blob_piece_def min_def)
  have "length (drop 14 out) \<ge> ?p" using assms(3) by simp
  then have "poke 14 (blob_piece encoded k) (chunk_header_image ?h @ drop 14 out) =
      chunk_header_image ?h @ blob_piece encoded k @ drop ?p (drop 14 out)"
    by (subst poke_append) (simp_all add: length_blob_piece)
  then have "fillBlobChunk i encoded (of_nat k) out = (14 + ?p, chunk_bytes i encoded k @ drop ?p (drop 14 out))"
    using assms k piece putBlobChunkHeader_image [of out ?h]
    by (simp add: fillBlobChunk_def Let_def kBlobChunkHeaderBytes_def chunk_bytes_def)
  then show "take (fst (fillBlobChunk i encoded (of_nat k) out)) (snd (fillBlobChunk i encoded (of_nat k) out)) = chunk_bytes i encoded k"
    "fst (fillBlobChunk i encoded (of_nat k) out) > 0"
    by (simp_all add: chunk_bytes_def length_blob_piece)
qed

section \<open>Reassembly\<close>

text \<open>The reassembler has the chunks of \<open>got\<close>: their bytes, their flags and their number.\<close>

definition cr_has :: "nat \<Rightarrow> BlobId \<Rightarrow> bytes \<Rightarrow> nat set \<Rightarrow> ChunkReassembler \<Rightarrow> bool" where
  "cr_has maxChunks i encoded got r \<longleftrightarrow>
     (let cc = chunkCount (length encoded) in
      cr_active r \<and> cr_id r = i \<and> cr_chunkCount r = of_nat cc \<and> cr_totalBytes r = length encoded \<and>
      length (cr_buf r) = maxChunks * 192 \<and> length (cr_received r) = maxChunks \<and>
      got \<subseteq> {..<cc} \<and> cr_receivedCount r = of_nat (card got) \<and> (\<forall>k < maxChunks. cr_received r ! k = (k \<in> got)) \<and>
      (\<forall>k \<in> got. take (length (blob_piece encoded k)) (drop (k * 192) (cr_buf r)) = blob_piece encoded k))"

definition transfer_ok :: "nat \<Rightarrow> BlobId \<Rightarrow> bytes \<Rightarrow> bool" where
  "transfer_ok maxChunks i encoded \<longleftrightarrow> encoded \<noteq> [] \<and> chunkCount (length encoded) \<le> maxChunks \<and> maxChunks < 2 ^ 16 \<and>
     (isCatalog i \<longrightarrow> opt0 (bi_store_id i) = 0 \<and> opt0 (bi_slot i) = 0)"

lemma chunkCount_bounds:
  "0 < n \<Longrightarrow> (chunkCount n - 1) * 192 < n \<and> n \<le> chunkCount n * 192 \<and> 0 < chunkCount n"
  unfolding chunkCount_def by auto

lemma transfer_total: "transfer_ok maxChunks i encoded \<Longrightarrow> length encoded \<le> maxChunks * 192"
proof -
  assume a: "transfer_ok maxChunks i encoded"
  then have "length encoded \<le> chunkCount (length encoded) * 192" using chunkCount_bounds [of "length encoded"] by (simp add: transfer_ok_def)
  also have "\<dots> \<le> maxChunks * 192" using a by (intro mult_right_mono) (auto simp: transfer_ok_def)
  finally show ?thesis .
qed

lemma cr_begin_has:
  assumes "transfer_ok maxChunks i encoded" and "length (cr_buf r) = maxChunks * 192" and "length (cr_received r) = maxChunks"
  shows "cr_has maxChunks i encoded {} (cr_begin maxChunks i (of_nat (chunkCount (length encoded))) (length encoded) now r)"
proof -
  let ?cc = "chunkCount (length encoded)"
  have cc: "0 < ?cc" "?cc \<le> maxChunks" "?cc < 2 ^ 16" using assms(1) chunkCount_bounds [of "length encoded"] by (auto simp: transfer_ok_def)
  then have u: "unat (of_nat ?cc :: u16) = ?cc" by (simp add: unat_of_nat)
  then have "(of_nat ?cc :: u16) > 0" using cc(1) by (simp add: word_less_nat_alt)
  then show ?thesis using assms cc u transfer_total [OF assms(1)] by (simp add: cr_has_def cr_begin_def Let_def)
qed

lemma chunk_target:
  assumes "transfer_ok maxChunks i encoded"
  shows "\<exists>g. getBlobChunkHeader (chunk_bytes i encoded k) = Some g \<and> sameTarget (bh_id g) i \<and> bh_chunk_index g = of_nat k \<and>
    bh_chunk_count g = of_nat (chunkCount (length encoded))"
proof -
  let ?h = "\<lparr> bh_id = i, bh_chunk_index = of_nat k, bh_chunk_count = of_nat (chunkCount (length encoded)),
      bh_total_bytes = of_nat (length encoded) \<rparr>"
  obtain g where g: "getBlobChunkHeader (chunk_bytes i encoded k) = Some g" "bh_chunk_index g = of_nat k"
    "bh_chunk_count g = of_nat (chunkCount (length encoded))" "bi_ns (bh_id g) = bi_ns i" "isCatalog i \<or> sameTarget (bh_id g) i"
    using getBlobChunkHeader_image [of ?h "blob_piece encoded k"] by (auto simp: chunk_bytes_def)
  moreover have "sameTarget (bh_id g) i" if "isCatalog i"
    using g(1,4) that assms
    by (auto simp: getBlobChunkHeader_def Let_def isCatalog_def sameTarget_def transfer_ok_def opt0_def split: if_splits option.splits)
  ultimately show ?thesis by blast
qed

lemma pieces_disjoint:
  assumes "k < chunkCount (length encoded)" and "j < chunkCount (length encoded)" and "j \<noteq> k"
  shows "j * 192 + length (blob_piece encoded j) \<le> k * 192 \<or> k * 192 + length (blob_piece encoded k) \<le> j * 192"
proof -
  have "length (blob_piece encoded x) \<le> 192" for x by (simp add: length_blob_piece)
  note this [of j] this [of k]
  moreover have "(j + 1) * 192 \<le> k * 192 \<or> (k + 1) * 192 \<le> j * 192" using assms(3) by auto
  ultimately show ?thesis by auto
qed

lemma cr_insert_has:
  assumes t: "transfer_ok maxChunks i encoded" and has: "cr_has maxChunks i encoded got r"
    and k: "k < chunkCount (length encoded)"
  shows "fst (cr_insert (chunk_bytes i encoded k) now r)" "cr_has maxChunks i encoded (insert k got) (snd (cr_insert (chunk_bytes i encoded k) now r))"
proof -
  let ?cc = "chunkCount (length encoded)" and ?p = "blob_piece encoded k"
  have cc: "?cc \<le> maxChunks" "?cc < 2 ^ 16" using t by (auto simp: transfer_ok_def)
  have u: "unat (of_nat k :: u16) = k" "unat (of_nat ?cc :: u16) = ?cc" using cc k by (simp_all add: unat_of_nat)
  obtain g where g: "getBlobChunkHeader (chunk_bytes i encoded k) = Some g" "sameTarget (bh_id g) i" "bh_chunk_index g = of_nat k"
    "bh_chunk_count g = of_nat ?cc" using chunk_target [OF t] by blast
  have h: "cr_active r" "cr_id r = i" "cr_chunkCount r = of_nat ?cc" "length (cr_buf r) = maxChunks * 192"
    "length (cr_received r) = maxChunks" "got \<subseteq> {..<?cc}" "cr_receivedCount r = of_nat (card got)"
    "\<And>j. j < maxChunks \<Longrightarrow> cr_received r ! j = (j \<in> got)" "cr_totalBytes r = length encoded"
    "\<And>j. j \<in> got \<Longrightarrow> take (length (blob_piece encoded j)) (drop (j * 192) (cr_buf r)) = blob_piece encoded j"
    using has by (simp_all add: cr_has_def Let_def)
  have room: "k * 192 + length ?p \<le> maxChunks * 192"
  proof -
    have "k * 192 + length ?p \<le> (k + 1) * 192" by (simp add: length_blob_piece)
    also have "\<dots> \<le> maxChunks * 192" using k cc(1) by (intro mult_right_mono) auto
    finally show ?thesis .
  qed
  have pay: "drop 14 (chunk_bytes i encoded k) = ?p" "length (chunk_bytes i encoded k) - 14 = length ?p" by (simp_all add: chunk_bytes_def)
  let ?r = "r \<lparr> cr_buf := poke (k * 192) ?p (cr_buf r) \<rparr>"
  have ins: "cr_insert (chunk_bytes i encoded k) now r =
      (True, (if k \<notin> got then ?r \<lparr> cr_received := (cr_received r)[k := True], cr_receivedCount := cr_receivedCount r + 1 \<rparr> else ?r)
         \<lparr> cr_lastProgressMs := now \<rparr>)"
    using g h(1-4) h(8) [of k] u k cc room
    by (simp add: cr_insert_def Let_def kBlobChunkHeaderBytes_def pay word_le_nat_alt)
  then show "fst (cr_insert (chunk_bytes i encoded k) now r)" by simp
  have buf: "take (length (blob_piece encoded j)) (drop (j * 192) (poke (k * 192) ?p (cr_buf r))) = blob_piece encoded j"
    if "j \<in> insert k got" for j
  proof (cases "j = k")
    case True
    then show ?thesis using take_drop_poke [of "k * 192" ?p "cr_buf r"] room h(4) by simp
  next
    case False
    then have "j \<in> got" "j < ?cc" using that h(6) by auto
    then show ?thesis
      using take_drop_poke_other [of "k * 192" ?p "cr_buf r" "j * 192" "length (blob_piece encoded j)"] room h(4) h(10) [of j]
        pieces_disjoint [OF k, of j] False by auto
  qed
  have fin: "finite got" using h(6) finite_subset by blast
  show "cr_has maxChunks i encoded (insert k got) (snd (cr_insert (chunk_bytes i encoded k) now r))"
  proof (cases "k \<in> got")
    case True
    then show ?thesis using ins h k buf room by (simp add: cr_has_def Let_def insert_absorb)
  next
    case False
    have rec: "(cr_received r)[k := True] ! j = (j \<in> insert k got)" if "j < maxChunks" for j
      using h(5,8) that by (cases "j = k") auto
    show ?thesis using ins h k buf room False fin rec by (simp add: cr_has_def Let_def add.commute)
  qed
qed

fun cr_feed :: "bytes list \<Rightarrow> u32 \<Rightarrow> ChunkReassembler \<Rightarrow> ChunkReassembler" where
  "cr_feed [] now r = r"
| "cr_feed (c # cs) now r = cr_feed cs now (snd (cr_insert c now r))"

lemma cr_feed_has:
  assumes "transfer_ok maxChunks i encoded"
  shows "cr_has maxChunks i encoded got r \<Longrightarrow> list_all (\<lambda>k. k < chunkCount (length encoded)) order \<Longrightarrow>
    cr_has maxChunks i encoded (got \<union> set order) (cr_feed (map (chunk_bytes i encoded) order) now r)"
proof (induction order arbitrary: got r)
  case (Cons k order)
  have "cr_has maxChunks i encoded (insert k got \<union> set order)
      (cr_feed (map (chunk_bytes i encoded) order) now (snd (cr_insert (chunk_bytes i encoded k) now r)))"
    using Cons.prems by (intro Cons.IH cr_insert_has(2) [OF assms]) simp_all
  moreover have "insert k got \<union> set order = got \<union> set (k # order)" by auto
  ultimately show ?case by simp
qed simp

text \<open>All pieces in place are the blob.\<close>

lemma pieces_all:
  assumes "length encoded \<le> length buf" and "\<And>k. k < chunkCount (length encoded) \<Longrightarrow>
      take (length (blob_piece encoded k)) (drop (k * 192) buf) = blob_piece encoded k"
  shows "take (length encoded) buf = encoded"
proof (intro nth_equalityI)
  show "length (take (length encoded) buf) = length encoded" using assms(1) by simp
  fix j assume j: "j < length (take (length encoded) buf)"
  then have j: "j < length encoded" "j < length buf" by auto
  let ?k = "j div 192"
  have split: "?k * 192 + j mod 192 = j" by simp
  have "j mod 192 < length encoded - ?k * 192" using j(1) split by linarith
  then have m: "j mod 192 < length (blob_piece encoded ?k)" by (simp add: length_blob_piece)
  have "j < chunkCount (length encoded) * 192" using chunkCount_bounds [of "length encoded"] j(1) by linarith
  then have "?k < chunkCount (length encoded)" by (rule less_mult_imp_div_less)
  from assms(2) [OF this] have "take (length (blob_piece encoded ?k)) (drop (?k * 192) buf) ! (j mod 192) = blob_piece encoded ?k ! (j mod 192)"
    by simp
  moreover have "take (length (blob_piece encoded ?k)) (drop (?k * 192) buf) ! (j mod 192) = buf ! j"
    using m j(2) split by (simp add: nth_drop)
  moreover have "blob_piece encoded ?k ! (j mod 192) = encoded ! j"
    using m j(1) split by (simp add: blob_piece_def nth_drop)
  ultimately show "take (length encoded) buf ! j = encoded ! j" using j by simp
qed

lemma unat_of_nat_card:
  assumes "got \<subseteq> {..<n}" and "n < 2 ^ 16"
  shows "(of_nat (card got) :: u32) = ucast (of_nat n :: u16) \<longleftrightarrow> got = {..<n}"
proof -
  have c: "card got \<le> n" using card_mono [OF _ assms(1)] by simp
  have "(of_nat (card got) :: u32) = ucast (of_nat n :: u16) \<longleftrightarrow> unat (of_nat (card got) :: u32) = unat (ucast (of_nat n :: u16) :: u32)"
    by (simp add: word_unat_eq_iff)
  also have "\<dots> \<longleftrightarrow> card got = n" using c assms(2) by (simp add: unat_ucast_up unat_of_nat)
  also have "\<dots> \<longleftrightarrow> got = {..<n}" using card_subset_eq [OF _ assms(1)] by auto
  finally show ?thesis .
qed

text \<open>The chunk as the sender puts it into its frame buffer.\<close>

definition sent_chunk :: "BlobId \<Rightarrow> bytes \<Rightarrow> bytes \<Rightarrow> nat \<Rightarrow> bytes" where
  "sent_chunk i encoded buf k = (let (n, out) = fillBlobChunk i encoded (of_nat k) buf in take n out)"

text \<open>
  A blob arrives whole, whatever the order of its chunks.  The receiver starts a transfer of a blob that
  fits it; chunks cut by the sender arrive in any order, some of them several times, some not at all.  The
  transfer is complete exactly when every chunk has arrived, then the assembled bytes are the blob; until then
  the indices the receiver asks for again are exactly the missing ones, in ascending order.  Nothing of a
  former transfer left in the buffer shows through.
\<close>
theorem blob_transfer_any_order:
  assumes "transfer_ok maxChunks i encoded" and "length (cr_buf r) = maxChunks * 192" and "length (cr_received r) = maxChunks"
    and "cc = chunkCount (length encoded)" and "list_all (\<lambda>k. k < cc) order" and "length buf = 206"
    and "r' = cr_feed (map (sent_chunk i encoded buf) order) now (cr_begin maxChunks i (of_nat cc) (length encoded) t0 r)"
  shows "(cr_complete r' \<longleftrightarrow> set order = {..<cc}) \<and> (if cr_complete r' then cr_assembled r' = encoded else True) \<and>
    missingIndices maxChunks cc r' = map of_nat (filter (\<lambda>k. k \<notin> set order) [0..<cc])"
proof -
  have cc: "cc \<le> maxChunks" "cc < 2 ^ 16" using assms(1,4) by (auto simp: transfer_ok_def)
  have sent: "map (sent_chunk i encoded buf) order = map (chunk_bytes i encoded) order"
    using assms(4-6) cc fillBlobChunk_image(1) [of _ encoded buf i]
    by (intro map_cong) (auto simp: sent_chunk_def list_all_iff case_prod_beta)
  have h: "cr_has maxChunks i encoded (set order) r'"
    using cr_feed_has [OF assms(1) cr_begin_has [OF assms(1-3)], of order now t0] assms(4,5) unfolding assms(7) sent by simp
  have a: "cr_active r'" "cr_chunkCount r' = of_nat cc" "cr_totalBytes r' = length encoded" "length (cr_buf r') = maxChunks * 192"
    "set order \<subseteq> {..<cc}" "cr_receivedCount r' = of_nat (card (set order))"
    "\<And>k. k < maxChunks \<Longrightarrow> cr_received r' ! k = (k \<in> set order)"
    "\<And>k. k \<in> set order \<Longrightarrow> take (length (blob_piece encoded k)) (drop (k * 192) (cr_buf r')) = blob_piece encoded k"
    using h assms(4) by (simp_all add: cr_has_def Let_def)
  have fin: "cr_complete r' \<longleftrightarrow> set order = {..<cc}"
    using a(1,2,6) unat_of_nat_card [OF a(5) cc(2)] by (simp add: cr_complete_def)
  have "cr_assembled r' = encoded" if "cr_complete r'"
    using that fin a(8) pieces_all [of encoded "cr_buf r'"] transfer_total [OF assms(1)] assms(4) a(1,3,4)
    by (simp add: cr_assembled_def)
  moreover have u: "unat (of_nat cc :: u16) = cc" using cc(2) by (simp add: unat_of_nat)
  have "filter (\<lambda>k. k < maxChunks \<and> \<not> cr_received r' ! k) [0..<cc] = filter (\<lambda>k. k \<notin> set order) [0..<cc]"
    using a(7) cc(1) by (intro filter_cong) auto
  then have "missingIndices maxChunks cc r' = take cc (map of_nat (filter (\<lambda>k. k \<notin> set order) [0..<cc]))"
    using a(1,2) u by (simp add: missingIndices_def)
  moreover have "length (filter (\<lambda>k. k \<notin> set order) [0..<cc]) \<le> cc" using length_filter_le [of _ "[0..<cc]"] by simp
  ultimately show ?thesis using fin by simp
qed

theorem blob_transfer_any_order_witness:
  "let encoded = replicate 200 7; i = BlobId_new;
       r' = cr_feed (map (sent_chunk i encoded (replicate 206 0xFF)) [1, 0, 1]) 9
              (cr_begin 64 i 2 200 3 (ChunkReassembler_new 64)) in
   cr_complete r' \<and> cr_assembled r' = encoded \<and> missingIndices 64 2 r' = []"
proof -
  have t: "transfer_ok 64 BlobId_new (replicate 200 7)" "chunkCount 200 = 2"
    by (simp_all add: transfer_ok_def chunkCount_def BlobId_new_def opt0_def)
  define r' where "r' = cr_feed (map (sent_chunk BlobId_new (replicate 200 7) (replicate 206 0xFF)) [1, 0, 1]) 9
    (cr_begin 64 BlobId_new (of_nat 2) (length (replicate 200 (7 :: byte))) 3 (ChunkReassembler_new 64))"
  have "(cr_complete r' \<longleftrightarrow> set [1, 0, 1] = {..<2 :: nat}) \<and> (if cr_complete r' then cr_assembled r' = replicate 200 7 else True) \<and>
    missingIndices 64 2 r' = map of_nat (filter (\<lambda>k. k \<notin> set [1, 0, 1]) [0..<2])"
    by (rule blob_transfer_any_order [OF t(1) _ _ _ _ _ r'_def]) (simp_all add: t(2) ChunkReassembler_new_def)
  moreover have "set [1, 0, 1] = {..<2 :: nat}" by auto
  ultimately have "cr_complete r' \<and> cr_assembled r' = replicate 200 7 \<and> missingIndices 64 2 r' = []"
    by (simp add: numeral_2_eq_2)
  then show ?thesis by (simp add: r'_def Let_def)
qed

end
