(* ===== verification/Effects.thy ===== *)
theory Effects
  imports Slop_Prelude "HOL-Library.State_Monad"
begin

text \<open>
  Reasoning about the stateful code of the hub, which is written in the state monad. A command is judged by what it does
  to an abstraction \<open>av\<close> of the state and by a preorder \<open>R\<close> that relates every state to the later ones:
  \<^item> \<open>calm av R P m\<close>: from an abstraction with \<open>P\<close>, \<open>m\<close> moves along \<open>R\<close> and leaves the abstraction as it was;
  \<^item> \<open>traces av R P m Q\<close>: from an abstraction with \<open>P\<close>, \<open>m\<close> moves along \<open>R\<close> and establishes \<open>Q\<close>.
  The rules follow the shape of the program; \<open>step_order\<close> is what they need of \<open>R\<close>.
\<close>

named_theorems calm_rules \<open>commands that leave the abstraction alone\<close>

section \<open>Definitions: the commands\<close>

definition gets :: "('s \<Rightarrow> 'a) \<Rightarrow> ('s, 'a) state" where
  "gets f = State (\<lambda>s. (f s, s))"

definition modify :: "('s \<Rightarrow> 's) \<Rightarrow> ('s, unit) state" where
  "modify f = State (\<lambda>s. ((), f s))"

abbreviation "return \<equiv> State_Monad.return"
abbreviation skip :: "('s, unit) state" where "skip \<equiv> State_Monad.return ()"

text \<open>A step that computes a result and a new state at once.\<close>

definition act :: "('s \<Rightarrow> 'a \<times> 's) \<Rightarrow> ('s, 'a) state" where
  "act f = State f"

definition whenever :: "bool \<Rightarrow> ('s, unit) state \<Rightarrow> ('s, unit) state" where
  "whenever b m = (if b then m else State_Monad.return ())"

text \<open>A range-for loop over a list that the loop does not change.\<close>

fun for_each :: "'a list \<Rightarrow> ('a \<Rightarrow> ('s, unit) state) \<Rightarrow> ('s, unit) state" where
  "for_each [] f = State_Monad.return ()"
| "for_each (x # xs) f = State_Monad.bind (f x) (\<lambda>_. for_each xs f)"

text \<open>A loop that carries an accumulator.\<close>

fun for_acc :: "'a list \<Rightarrow> 'b \<Rightarrow> ('a \<Rightarrow> 'b \<Rightarrow> ('s, 'b) state) \<Rightarrow> ('s, 'b) state" where
  "for_acc [] b f = State_Monad.return b"
| "for_acc (x # xs) b f = State_Monad.bind (f x b) (\<lambda>b. for_acc xs b f)"

lemma run_state_commands [simp]:
  "run_state (gets f) s = (f s, s)"
  "run_state (modify g) s = ((), g s)"
  "run_state (act k) s = k s"
  by (simp_all add: gets_def modify_def act_def)

section \<open>The judgements\<close>

definition calm :: "('s \<Rightarrow> 'c) \<Rightarrow> ('s \<Rightarrow> 's \<Rightarrow> bool) \<Rightarrow> ('c \<Rightarrow> bool) \<Rightarrow> ('s, 'a) state \<Rightarrow> bool" where
  "calm av R P m \<longleftrightarrow> (\<forall>s. P (av s) \<longrightarrow> av (snd (run_state m s)) = av s \<and> R s (snd (run_state m s)))"

definition traces ::
  "('s \<Rightarrow> 'c) \<Rightarrow> ('s \<Rightarrow> 's \<Rightarrow> bool) \<Rightarrow> ('c \<Rightarrow> bool) \<Rightarrow> ('s, 'a) state \<Rightarrow> ('a \<Rightarrow> 'c \<Rightarrow> bool) \<Rightarrow> bool" where
  "traces av R P m Q \<longleftrightarrow>
    (\<forall>s. P (av s) \<longrightarrow> R s (snd (run_state m s)) \<and> Q (fst (run_state m s)) (av (snd (run_state m s))))"

lemma calmD:
  "calm av R P m \<Longrightarrow> P (av s) \<Longrightarrow> av (snd (run_state m s)) = av s"
  "calm av R P m \<Longrightarrow> P (av s) \<Longrightarrow> R s (snd (run_state m s))"
  by (simp_all add: calm_def)

lemma tracesD:
  "traces av R P m Q \<Longrightarrow> P (av s) \<Longrightarrow> R s (snd (run_state m s))"
  "traces av R P m Q \<Longrightarrow> P (av s) \<Longrightarrow> Q (fst (run_state m s)) (av (snd (run_state m s)))"
  by (simp_all add: traces_def)

lemma traces_weaken:
  "traces av R P m Q \<Longrightarrow> (\<And>c. P' c \<Longrightarrow> P c) \<Longrightarrow> (\<And>a c. Q a c \<Longrightarrow> Q' a c) \<Longrightarrow> traces av R P' m Q'"
  by (auto simp: traces_def)

lemma traces_pre: "traces av R P m Q \<Longrightarrow> (\<And>c. P' c \<Longrightarrow> P c) \<Longrightarrow> traces av R P' m Q"
  by (auto simp: traces_def)

lemma traces_post: "traces av R P m Q \<Longrightarrow> (\<And>a c. Q a c \<Longrightarrow> Q' a c) \<Longrightarrow> traces av R P m Q'"
  by (auto simp: traces_def)

lemma traces_any: "traces av R P m Q \<Longrightarrow> traces av R P m (\<lambda>_ _. True)"
  by (erule traces_post) simp

text \<open>A pure fact that the precondition gives.\<close>

lemma traces_pure: "(\<And>c. P c \<Longrightarrow> B) \<Longrightarrow> (B \<Longrightarrow> traces av R P m Q) \<Longrightarrow> traces av R P m Q"
  by (auto simp: traces_def)

text \<open>A command that is to be shown in one go, from its run.\<close>

lemma traces_run:
  "(\<And>s. P (av s) \<Longrightarrow> R s (snd (run_state m s)) \<and> Q (fst (run_state m s)) (av (snd (run_state m s)))) \<Longrightarrow> traces av R P m Q"
  by (simp add: traces_def)

lemma calm_modify: "(\<And>s. av (f s) = av s) \<Longrightarrow> (\<And>s. R s (f s)) \<Longrightarrow> calm av R P (modify f)"
  by (simp add: calm_def)

lemma calm_act: "(\<And>s. av (snd (f s)) = av s) \<Longrightarrow> (\<And>s. R s (snd (f s))) \<Longrightarrow> calm av R P (act f)"
  by (simp add: calm_def)

lemma calm_if [calm_rules]: "(b \<Longrightarrow> calm av R P m) \<Longrightarrow> (\<not> b \<Longrightarrow> calm av R P n) \<Longrightarrow> calm av R P (if b then m else n)"
  by simp

lemma calm_option [calm_rules]:
  "(x = None \<Longrightarrow> calm av R P m) \<Longrightarrow> (\<And>v. x = Some v \<Longrightarrow> calm av R P (f v)) \<Longrightarrow>
    calm av R P (case x of None \<Rightarrow> m | Some v \<Rightarrow> f v)"
  by (cases x) simp_all

lemma calm_sum [calm_rules]:
  "(\<And>e. x = Inl e \<Longrightarrow> calm av R P (g e)) \<Longrightarrow> (\<And>v. x = Inr v \<Longrightarrow> calm av R P (f v)) \<Longrightarrow>
    calm av R P (case x of Inl e \<Rightarrow> g e | Inr v \<Rightarrow> f v)"
  by (cases x) simp_all

lemma calm_prod [calm_rules]: "(\<And>a b. x = (a, b) \<Longrightarrow> calm av R P (f a b)) \<Longrightarrow> calm av R P (case x of (a, b) \<Rightarrow> f a b)"
  by (cases x) simp

lemma calm_let [calm_rules]: "calm av R P (f t) \<Longrightarrow> calm av R P (let x = t in f x)"
  by simp

lemma traces_if:
  "(b \<Longrightarrow> traces av R P m Q) \<Longrightarrow> (\<not> b \<Longrightarrow> traces av R P n Q) \<Longrightarrow> traces av R P (if b then m else n) Q"
  by simp

lemma traces_option:
  "(x = None \<Longrightarrow> traces av R P m Q) \<Longrightarrow> (\<And>v. x = Some v \<Longrightarrow> traces av R P (f v) Q) \<Longrightarrow>
    traces av R P (case x of None \<Rightarrow> m | Some v \<Rightarrow> f v) Q"
  by (cases x) simp_all

lemma traces_sum:
  "(\<And>e. x = Inl e \<Longrightarrow> traces av R P (g e) Q) \<Longrightarrow> (\<And>v. x = Inr v \<Longrightarrow> traces av R P (f v) Q) \<Longrightarrow>
    traces av R P (case x of Inl e \<Rightarrow> g e | Inr v \<Rightarrow> f v) Q"
  by (cases x) simp_all

lemma traces_prod:
  "(\<And>a b. x = (a, b) \<Longrightarrow> traces av R P (f a b) Q) \<Longrightarrow> traces av R P (case x of (a, b) \<Rightarrow> f a b) Q"
  by (cases x) simp

lemma traces_let: "traces av R P (f t) Q \<Longrightarrow> traces av R P (let x = t in f x) Q"
  by simp

lemmas traces_cases = traces_if traces_option traces_sum traces_prod traces_let

text \<open>Reading the state: \<open>g\<close> is what the abstraction knows about the value.\<close>

lemma calm_read:
  "(\<And>s. g (f s) (av s)) \<Longrightarrow> (\<And>x. calm av R (\<lambda>c. P c \<and> g x c) (k x)) \<Longrightarrow> calm av R P (State_Monad.bind (gets f) k)"
  by (auto simp: calm_def)

lemma calm_pre: "calm av R P m \<Longrightarrow> (\<And>c. P' c \<Longrightarrow> P c) \<Longrightarrow> calm av R P' m"
  by (auto simp: calm_def)

lemma traces_gets:
  "(\<And>s. g (f s) (av s)) \<Longrightarrow> (\<And>x. traces av R (\<lambda>c. P c \<and> g x c) (k x) Q) \<Longrightarrow>
    traces av R P (State_Monad.bind (gets f) k) Q"
  by (auto simp: traces_def)

section \<open>The interface of the order\<close>

locale step_order =
  fixes R :: "'s \<Rightarrow> 's \<Rightarrow> bool"
  assumes refl: "R c c" and trans: "R a b \<Longrightarrow> R b c \<Longrightarrow> R a c"
begin

lemma calm_return [calm_rules]: "calm av R P (State_Monad.return x)"
  by (simp add: calm_def refl)

lemma calm_gets [calm_rules]: "calm av R P (gets f)"
  by (simp add: calm_def refl)

lemma calm_bind [calm_rules]: "calm av R P m \<Longrightarrow> (\<And>x. calm av R P (f x)) \<Longrightarrow> calm av R P (State_Monad.bind m f)"
  by (simp add: calm_def split_beta) (metis trans)

lemma calm_when [calm_rules]: "(b \<Longrightarrow> calm av R P m) \<Longrightarrow> calm av R P (whenever b m)"
  by (simp add: whenever_def calm_return)

lemma calm_for_each [calm_rules]: "(\<And>x. x \<in> set xs \<Longrightarrow> calm av R P (f x)) \<Longrightarrow> calm av R P (for_each xs f)"
  by (induction xs) (auto intro!: calm_return calm_bind)

lemma calm_for_acc [calm_rules]: "(\<And>x b. x \<in> set xs \<Longrightarrow> calm av R P (f x b)) \<Longrightarrow> calm av R P (for_acc xs b f)"
  by (induction xs arbitrary: b) (auto intro!: calm_return calm_bind)

lemma traces_calm: "calm av R P m \<Longrightarrow> traces av R P m (\<lambda>_. P)"
  by (simp add: traces_def calm_def)

lemma traces_calm_post: "calm av R P m \<Longrightarrow> (\<And>a c. P c \<Longrightarrow> Q a c) \<Longrightarrow> traces av R P m Q"
  by (simp add: traces_def calm_def)

lemma traces_return: "(\<And>c. P c \<Longrightarrow> Q x c) \<Longrightarrow> traces av R P (State_Monad.return x) Q"
  by (simp add: traces_def refl)

lemma traces_bind:
  "traces av R P m S \<Longrightarrow> (\<And>x. traces av R (S x) (f x) Q) \<Longrightarrow> traces av R P (State_Monad.bind m f) Q"
  by (fastforce simp: traces_def split_beta intro: trans)

lemma traces_step: "calm av R P m \<Longrightarrow> (\<And>x. traces av R P (f x) Q) \<Longrightarrow> traces av R P (State_Monad.bind m f) Q"
  by (rule traces_bind [OF traces_calm])

lemma traces_when:
  "(b \<Longrightarrow> traces av R P m Q) \<Longrightarrow> (\<And>c. \<not> b \<Longrightarrow> P c \<Longrightarrow> Q () c) \<Longrightarrow> traces av R P (whenever b m) Q"
  by (auto simp: whenever_def traces_return)

lemma traces_for_each:
  "(\<And>x. x \<in> set xs \<Longrightarrow> traces av R P (f x) (\<lambda>_. P)) \<Longrightarrow> traces av R P (for_each xs f) (\<lambda>_. P)"
  by (induction xs) (auto intro!: traces_return traces_bind)

lemma traces_for_acc:
  "(\<And>x b. x \<in> set xs \<Longrightarrow> traces av R P (f x b) (\<lambda>_. P)) \<Longrightarrow> traces av R P (for_acc xs b f) (\<lambda>_. P)"
  by (induction xs arbitrary: b) (auto intro!: traces_return traces_bind)

end

end
