(* ===== verification/Binary32.thy ===== *)
theory Binary32
  imports Slop_Prelude
begin

text \<open>
  The \<^verbatim>\<open>float\<close> arithmetic the sources use: IEEE 754 binary32 with round to nearest, ties to even, on bit
  patterns. A finite number is an integral multiple of $2^{-149}$, the smallest subnormal; \<open>f32_units\<close> is that multiple and
  every operation is computed exactly on it and rounded once by \<open>f32_round\<close>. A conversion to \<^verbatim>\<open>uint32_t\<close> outside
  the range of the type is undefined in C++: \<open>f32_to_u32\<close> takes what the platform does there as a parameter.
  Arithmetic that yields a NaN yields the default quiet NaN.
\<close>

section \<open>Definitions: classification and order\<close>

definition f32_mag :: "u32 \<Rightarrow> int" where
  "f32_mag x = uint (x AND 0x7FFFFFFF)"

definition f32_neg :: "u32 \<Rightarrow> bool" where
  "f32_neg x \<longleftrightarrow> x \<ge> 0x80000000"

abbreviation (input) f32_inf_mag :: int where "f32_inf_mag \<equiv> 0x7F800000"

definition f32_isnan :: "u32 \<Rightarrow> bool" where
  "f32_isnan x \<longleftrightarrow> f32_mag x > f32_inf_mag"

definition f32_isinf :: "u32 \<Rightarrow> bool" where
  "f32_isinf x \<longleftrightarrow> f32_mag x = f32_inf_mag"

text \<open>Patterns without the sign are ordered like the magnitudes they denote, so \<open>f32_key\<close> orders the numbers; both
  zeros have key 0.\<close>

definition f32_key :: "u32 \<Rightarrow> int" where
  "f32_key x = (if f32_neg x then - f32_mag x else f32_mag x)"

definition f32_lt :: "u32 \<Rightarrow> u32 \<Rightarrow> bool" where
  "f32_lt x y \<longleftrightarrow> \<not> f32_isnan x \<and> \<not> f32_isnan y \<and> f32_key x < f32_key y"

definition f32_le :: "u32 \<Rightarrow> u32 \<Rightarrow> bool" where
  "f32_le x y \<longleftrightarrow> \<not> f32_isnan x \<and> \<not> f32_isnan y \<and> f32_key x \<le> f32_key y"

text \<open>\<^verbatim>\<open>std::min(a, b)\<close> is \<^verbatim>\<open>b < a ? b : a\<close>.\<close>

definition f32_min :: "u32 \<Rightarrow> u32 \<Rightarrow> u32" where
  "f32_min a b = (if f32_lt b a then b else a)"

section \<open>Definitions: arithmetic\<close>

text \<open>The magnitude in units of $2^{-149}$ of a finite pattern without sign.\<close>

definition mag_units :: "int \<Rightarrow> int" where
  "mag_units m = (let e = m div 2 ^ 23; f = m mod 2 ^ 23 in if e = 0 then f else (f + 2 ^ 23) * 2 ^ nat (e - 1))"

definition f32_units :: "u32 \<Rightarrow> int" where
  "f32_units x = (if f32_neg x then - mag_units (f32_mag x) else mag_units (f32_mag x))"

text \<open>How far a number of units has to be shifted right to have at most 24 bits.\<close>

function f32_scale :: "int \<Rightarrow> nat" where
  "f32_scale q = (if q < 2 ^ 24 then 0 else Suc (f32_scale (q div 2)))"
  by auto

termination f32_scale
  by (relation "measure nat") auto

declare f32_scale.simps [simp del]

text \<open>The pattern of the number nearest to \<open>n / d\<close> units.\<close>

definition f32_round :: "int \<Rightarrow> int \<Rightarrow> int" where
  "f32_round n d =
    (let k = f32_scale (n div d); q = d * 2 ^ k; r = n div q; rest = 2 * (n mod q);
         r' = (if rest > q \<or> rest = q \<and> odd r then r + 1 else r);
         m = int k * 2 ^ 23 + r'
     in if m \<ge> f32_inf_mag then f32_inf_mag else m)"

abbreviation (input) f32_nan :: u32 where "f32_nan \<equiv> 0x7FC00000"
abbreviation (input) f32_sign :: u32 where "f32_sign \<equiv> 0x80000000"
abbreviation (input) f32_infinity :: u32 where "f32_infinity \<equiv> 0x7F800000"

definition f32_pack :: "bool \<Rightarrow> int \<Rightarrow> u32" where
  "f32_pack neg m = (if neg then f32_sign OR of_int m else of_int m)"

definition f32_add :: "u32 \<Rightarrow> u32 \<Rightarrow> u32" where
  "f32_add x y =
    (if f32_isnan x \<or> f32_isnan y then f32_nan
     else if f32_isinf x then (if f32_isinf y \<and> f32_neg x \<noteq> f32_neg y then f32_nan else x)
     else if f32_isinf y then y
     else
       let s = f32_units x + f32_units y in
       if s = 0 then (if f32_neg x \<and> f32_neg y then f32_sign else 0)
       else f32_pack (s < 0) (f32_round \<bar>s\<bar> 1))"

definition f32_sub :: "u32 \<Rightarrow> u32 \<Rightarrow> u32" where
  "f32_sub x y = f32_add x (y XOR f32_sign)"

definition f32_mul :: "u32 \<Rightarrow> u32 \<Rightarrow> u32" where
  "f32_mul x y =
    (let neg = (f32_neg x \<noteq> f32_neg y) in
     if f32_isnan x \<or> f32_isnan y then f32_nan
     else if f32_isinf x \<or> f32_isinf y then
       (if f32_mag x = 0 \<or> f32_mag y = 0 then f32_nan else f32_pack neg f32_inf_mag)
     else f32_pack neg (f32_round (mag_units (f32_mag x) * mag_units (f32_mag y)) (2 ^ 149)))"

definition f32_div :: "u32 \<Rightarrow> u32 \<Rightarrow> u32" where
  "f32_div x y =
    (let neg = (f32_neg x \<noteq> f32_neg y) in
     if f32_isnan x \<or> f32_isnan y then f32_nan
     else if f32_isinf x then (if f32_isinf y then f32_nan else f32_pack neg f32_inf_mag)
     else if f32_isinf y then f32_pack neg 0
     else if f32_mag y = 0 then (if f32_mag x = 0 then f32_nan else f32_pack neg f32_inf_mag)
     else f32_pack neg (f32_round (mag_units (f32_mag x) * 2 ^ 149) (mag_units (f32_mag y))))"

definition f32_of_int :: "int \<Rightarrow> u32" where
  "f32_of_int n = f32_pack (n < 0) (f32_round (\<bar>n\<bar> * 2 ^ 149) 1)"

definition f32_of_u32 :: "u32 \<Rightarrow> u32" where
  "f32_of_u32 n = f32_of_int (uint n)"

definition f32_to_u32 :: "(u32 \<Rightarrow> u32) \<Rightarrow> u32 \<Rightarrow> u32" where
  "f32_to_u32 undef x =
    (let t = mag_units (f32_mag x) div 2 ^ 149 in
     if f32_mag x \<ge> f32_inf_mag \<or> t \<ge> 2 ^ 32 \<or> f32_neg x \<and> t > 0 then undef x
     else of_int t)"

end
