(* ===== verification/Rate_Limiter.thy ===== *)
theory Rate_Limiter
  imports Serial_Arith Binary32
begin

text \<open>
  The token bucket \<^verbatim>\<open>IngressRateLimiter\<close> of \<^verbatim>\<open>channel/intent_registry.hpp\<close>, in binary32 arithmetic as the code
  has it: a refill for the time passed, capped at the capacity, and an all-or-nothing withdrawal.
\<close>

section \<open>Definitions\<close>

record IngressRateLimiter =
  rl_ratePerSec :: u32
  rl_capacity :: u32
  rl_tokens :: u32
  rl_lastMs :: u32

definition IngressRateLimiter_new :: "u32 \<Rightarrow> u32 \<Rightarrow> u32 \<Rightarrow> IngressRateLimiter" where
  "IngressRateLimiter_new ratePerSec now capacityTokens =
    (let cap = (if f32_lt 0 capacityTokens then capacityTokens else f32_of_u32 ratePerSec)
     in \<lparr> rl_ratePerSec = ratePerSec, rl_capacity = cap, rl_tokens = cap, rl_lastMs = now \<rparr>)"

abbreviation (input) f32_one :: u32 where "f32_one \<equiv> 0x3F800000"
abbreviation (input) f32_thousand :: u32 where "f32_thousand \<equiv> 0x447A0000"

definition rl_refill :: "u32 \<Rightarrow> IngressRateLimiter \<Rightarrow> IngressRateLimiter" where
  "rl_refill now l =
    (let deltaMs = timeDelta now (rl_lastMs l) in
     if deltaMs \<le> 0 then l
     else
       let added = f32_mul (f32_div (f32_of_int deltaMs) f32_thousand) (f32_of_u32 (rl_ratePerSec l));
           tokens = f32_add (rl_tokens l) added
       in l \<lparr> rl_lastMs := now,
              rl_tokens := (if f32_lt (rl_capacity l) tokens then rl_capacity l else tokens) \<rparr>)"

definition rl_allow :: "u32 \<Rightarrow> IngressRateLimiter \<Rightarrow> bool \<times> IngressRateLimiter" where
  "rl_allow now l =
    (let l = rl_refill now l in
     if f32_le f32_one (rl_tokens l) then (True, l \<lparr> rl_tokens := f32_sub (rl_tokens l) f32_one \<rparr>)
     else (False, l))"

definition rl_allowN :: "u32 \<Rightarrow> u32 \<Rightarrow> IngressRateLimiter \<Rightarrow> bool \<times> IngressRateLimiter" where
  "rl_allowN now n l =
    (let l = rl_refill now l in
     if f32_le (f32_of_u32 n) (rl_tokens l) then (True, l \<lparr> rl_tokens := f32_sub (rl_tokens l) (f32_of_u32 n) \<rparr>)
     else (False, l))"

end
