(* ===== verification/Hub_State.thy ===== *)
theory Hub_State
  imports Effects Rate_Limiter Channel_Tables Event_Rings Authority Ledger Catalog Stream_Bundle Blob_Chunks
    Msg_Control Msg_Intent Msg_Grant Raw_Frames Estop Frame
begin

text \<open>
  The state of the hub (\<^verbatim>\<open>session/session.hpp\<close>, \<^verbatim>\<open>hub/hub.hpp\<close>): a session, a slot, the hub itself, and the
  environment it is constructed with. Conventions:
  \<^item> The hub owns nothing outside itself: the catalog, the transports, the random source, the crypto provider and the
    application (\<^verbatim>\<open>HubDelegate\<close>) are interfaces. \<open>HubEnv\<close> holds their operations, and the hub record holds
    their states (\<open>hb_wire\<close>, one per transport object, \<open>hb_rng\<close>, \<open>hb_app\<close>, and the clock reading \<open>hb_clockUs\<close>).
    An application callback gets and returns the application state; callbacks that call back into the hub are outside the model.
  \<^item> A pointer to a transport is a handle in \<open>nat option\<close>. Dereferencing a null transport, or waiting forever for a non-zero
    random number, is recorded in \<open>hb_fault\<close>; what a command does after a fault has no meaning, and \<open>hub_update\<close> has the value
    \<open>None\<close>, a call that does not return, when the wait was in it.
  \<^item> A flag and the value it guards are one \<open>option\<close>; the two parallel arrays of the sign request keep the code's shape.
  \<^item> A NACK or GOODBYE code is its wire value.
\<close>

section \<open>Definitions: limits and vocabulary\<close>

abbreviation (input) kHubMaxSessions :: nat where "kHubMaxSessions \<equiv> 4"
abbreviation (input) kSlotCapacity :: nat where "kSlotCapacity \<equiv> 5"
abbreviation (input) max_subscriptions_per_session :: nat where "max_subscriptions_per_session \<equiv> 64"
abbreviation (input) kRetainedCapacity :: nat where "kRetainedCapacity \<equiv> 32"
abbreviation (input) kEventDepth :: nat where "kEventDepth \<equiv> 16"
abbreviation (input) kEventSlotBytes :: nat where "kEventSlotBytes \<equiv> 192"
abbreviation (input) kIntentDepth :: nat where "kIntentDepth \<equiv> 32"
abbreviation (input) kIntentSlotBytes :: nat where "kIntentSlotBytes \<equiv> 96"
abbreviation (input) kLogDepth :: nat where "kLogDepth \<equiv> 32"
abbreviation (input) kMaxPublishGrants :: nat where "kMaxPublishGrants \<equiv> 8"
abbreviation (input) intent_ingress_default_per_s :: u32 where "intent_ingress_default_per_s \<equiv> 50"

abbreviation (input) ch_catalog :: u16 where "ch_catalog \<equiv> 0x1"
abbreviation (input) ch_safety :: u16 where "ch_safety \<equiv> 0x3"
abbreviation (input) ch_control_owner :: u16 where "ch_control_owner \<equiv> 0x4"
abbreviation (input) ch_safety_intents :: u16 where "ch_safety_intents \<equiv> 0x5"
abbreviation (input) ch_session_events :: u16 where "ch_session_events \<equiv> 0x7"
abbreviation (input) ch_log :: u16 where "ch_log \<equiv> 0x8"
abbreviation (input) ch_session_admin :: u16 where "ch_session_admin \<equiv> 0x9"
abbreviation (input) ch_pending_pairing :: u16 where "ch_pending_pairing \<equiv> 0xA"
abbreviation (input) ch_pairing_events :: u16 where "ch_pairing_events \<equiv> 0xB"
abbreviation (input) ch_paired_devices :: u16 where "ch_paired_devices \<equiv> 0xC"
abbreviation (input) ch_paired_devices_roster :: u16 where "ch_paired_devices_roster \<equiv> 0xD"
abbreviation (input) ch_safety_events :: u16 where "ch_safety_events \<equiv> 0xE"

abbreviation (input) NK_MALFORMED :: u16 where "NK_MALFORMED \<equiv> 0"
abbreviation (input) NK_BUSY :: u16 where "NK_BUSY \<equiv> 0x100"
abbreviation (input) NK_UNAUTHORIZED :: u16 where "NK_UNAUTHORIZED \<equiv> 0x101"
abbreviation (input) NK_NOT_CONTROLLER :: u16 where "NK_NOT_CONTROLLER \<equiv> 0x102"
abbreviation (input) NK_PAIRING_REQUIRED :: u16 where "NK_PAIRING_REQUIRED \<equiv> 0x103"
abbreviation (input) NK_PAIRING_DENIED :: u16 where "NK_PAIRING_DENIED \<equiv> 0x104"
abbreviation (input) NK_SESSION_EVICTED :: u16 where "NK_SESSION_EVICTED \<equiv> 0x105"
abbreviation (input) NK_DUPLICATE_INSTANCE :: u16 where "NK_DUPLICATE_INSTANCE \<equiv> 0x106"
abbreviation (input) NK_READY_TIMEOUT :: u16 where "NK_READY_TIMEOUT \<equiv> 0x10A"
abbreviation (input) NK_NOT_READY :: u16 where "NK_NOT_READY \<equiv> 0x10B"
abbreviation (input) NK_SLOT_RECLAIMED :: u16 where "NK_SLOT_RECLAIMED \<equiv> 0x10D"
abbreviation (input) NK_UNKNOWN_CHANNEL :: u16 where "NK_UNKNOWN_CHANNEL \<equiv> 0x200"
abbreviation (input) NK_ACCESS_DENIED :: u16 where "NK_ACCESS_DENIED \<equiv> 0x201"
abbreviation (input) NK_CLASS_MISMATCH :: u16 where "NK_CLASS_MISMATCH \<equiv> 0x202"
abbreviation (input) NK_SUB_LIMIT :: u16 where "NK_SUB_LIMIT \<equiv> 0x203"
abbreviation (input) NK_SUBSCRIBE_REJECTED :: u16 where "NK_SUBSCRIBE_REJECTED \<equiv> 0x204"
abbreviation (input) NK_CONFLICT :: u16 where "NK_CONFLICT \<equiv> 0x300"
abbreviation (input) NK_RATE_LIMITED :: u16 where "NK_RATE_LIMITED \<equiv> 0x301"
abbreviation (input) NK_INVALID_VALUE :: u16 where "NK_INVALID_VALUE \<equiv> 0x302"
abbreviation (input) NK_UNSUPPORTED_OP :: u16 where "NK_UNSUPPORTED_OP \<equiv> 0x303"
abbreviation (input) NK_SOURCE_CONFLICT :: u16 where "NK_SOURCE_CONFLICT \<equiv> 0x403"
abbreviation (input) NK_TAKEOVER_REQUIRED :: u16 where "NK_TAKEOVER_REQUIRED \<equiv> 0x404"
abbreviation (input) NK_CLEAR_REFUSED :: u16 where "NK_CLEAR_REFUSED \<equiv> 0x405"
abbreviation (input) NK_CHUNK_UNAVAILABLE :: u16 where "NK_CHUNK_UNAVAILABLE \<equiv> 0x500"

abbreviation (input) FT_HELLO :: u8 where "FT_HELLO \<equiv> 0"
abbreviation (input) FT_WELCOME :: u8 where "FT_WELCOME \<equiv> 1"
abbreviation (input) FT_PING :: u8 where "FT_PING \<equiv> 3"
abbreviation (input) FT_PONG :: u8 where "FT_PONG \<equiv> 4"
abbreviation (input) FT_CLOCK :: u8 where "FT_CLOCK \<equiv> 5"
abbreviation (input) FT_SUBSCRIBE :: u8 where "FT_SUBSCRIBE \<equiv> 6"
abbreviation (input) FT_UNSUBSCRIBE :: u8 where "FT_UNSUBSCRIBE \<equiv> 7"
abbreviation (input) FT_GRANT :: u8 where "FT_GRANT \<equiv> 8"
abbreviation (input) FT_STATE :: u8 where "FT_STATE \<equiv> 0xB"
abbreviation (input) FT_STREAM :: u8 where "FT_STREAM \<equiv> 0xC"
abbreviation (input) FT_INTENT :: u8 where "FT_INTENT \<equiv> 0xD"
abbreviation (input) FT_ECHO :: u8 where "FT_ECHO \<equiv> 0xE"
abbreviation (input) FT_EVENT :: u8 where "FT_EVENT \<equiv> 0xF"
abbreviation (input) FT_NACK :: u8 where "FT_NACK \<equiv> 0x10"
abbreviation (input) FT_GOODBYE :: u8 where "FT_GOODBYE \<equiv> 0x11"
abbreviation (input) FT_PROBE :: u8 where "FT_PROBE \<equiv> 0x12"
abbreviation (input) FT_PROBE_REPORT :: u8 where "FT_PROBE_REPORT \<equiv> 0x13"
abbreviation (input) FT_PAIR_REQ :: u8 where "FT_PAIR_REQ \<equiv> 0x14"
abbreviation (input) FT_PAIR_GRANT :: u8 where "FT_PAIR_GRANT \<equiv> 0x15"
abbreviation (input) FT_PUBLISH :: u8 where "FT_PUBLISH \<equiv> 0x18"
abbreviation (input) FT_CATALOG_READY :: u8 where "FT_CATALOG_READY \<equiv> 0x19"
abbreviation (input) FT_BLOB_REQ :: u8 where "FT_BLOB_REQ \<equiv> 0x1A"
abbreviation (input) FT_BLOB_CHUNK :: u8 where "FT_BLOB_CHUNK \<equiv> 0x1B"
abbreviation (input) FT_AUTH :: u8 where "FT_AUTH \<equiv> 0x1C"
abbreviation (input) FT_HUB_SIG :: u8 where "FT_HUB_SIG \<equiv> 0x1D"

section \<open>Definitions: the session\<close>

datatype HubSessionState = S_FREE | S_VALIDATING | S_GRANTED | S_LIVE | S_STALE | S_CLOSED

record PublishGrant =
  pu_used :: bool
  pu_channel_id :: u16
  pu_granted_rate_hz :: u32
  pu_granted_burst :: u32
  pu_burstRequested :: bool
  pu_limiter :: IngressRateLimiter
  pu_everNackedOverage :: bool
  pu_lastOverageNackMs :: u32
  pu_curveFamily :: u8

definition PublishGrant_new :: PublishGrant where
  "PublishGrant_new = \<lparr> pu_used = False, pu_channel_id = 0, pu_granted_rate_hz = 0, pu_granted_burst = 0,
     pu_burstRequested = False, pu_limiter = IngressRateLimiter_new intent_ingress_default_per_s 0 0,
     pu_everNackedOverage = False, pu_lastOverageNackMs = 0, pu_curveFamily = 0 \<rparr>"

record HubSession =
  hs_state :: HubSessionState
  hs_session_id :: u32
  hs_instance_id :: bytes
  hs_role :: AccessLevel
  hs_helloSeenCfgGen :: u16
  hs_clientEtagMatched :: bool
  hs_clientKind :: bytes
  hs_clientName :: bytes
  hs_clientVer :: bytes
  hs_hasClientVer :: bool
  hs_presentationMode :: u8
  hs_ready :: bool
  hs_readyEtagMismatch :: bool
  hs_grantedAtMs :: u32
  hs_subs :: SubscriptionTable
  hs_intentRing :: IntentRing
  hs_intentLimiter :: IngressRateLimiter
  hs_events :: EventQueue
  hs_publishGrants :: "PublishGrant list"
  hs_streamBundlesAccepted :: u32
  hs_streamBundlesDropped :: u32
  hs_lastRxMs :: u32
  hs_deadmanMs :: u32
  hs_lastTxMs :: u32
  hs_retainedPending :: u16
  hs_staleSinceMs :: u32

text \<open>\<^verbatim>\<open>reset()\<close> destroys the session and constructs a fresh one.\<close>

definition HubSession_new :: HubSession where
  "HubSession_new = \<lparr> hs_state = S_FREE, hs_session_id = 0, hs_instance_id = replicate 8 0, hs_role = watch,
     hs_helloSeenCfgGen = 0, hs_clientEtagMatched = False, hs_clientKind = [], hs_clientName = [], hs_clientVer = [],
     hs_hasClientVer = False, hs_presentationMode = 0, hs_ready = False, hs_readyEtagMismatch = False,
     hs_grantedAtMs = 0, hs_subs = [], hs_intentRing = IntentRing_new kIntentDepth kIntentSlotBytes,
     hs_intentLimiter = IngressRateLimiter_new intent_ingress_default_per_s 0 0,
     hs_events = EventQueue_new kEventDepth kEventSlotBytes,
     hs_publishGrants = replicate kMaxPublishGrants PublishGrant_new,
     hs_streamBundlesAccepted = 0, hs_streamBundlesDropped = 0, hs_lastRxMs = 0, hs_deadmanMs = 600, hs_lastTxMs = 0,
     hs_retainedPending = 0, hs_staleSinceMs = 0 \<rparr>"

definition state_occupied :: "HubSessionState \<Rightarrow> bool" where
  "state_occupied st \<longleftrightarrow> st \<noteq> S_FREE \<and> st \<noteq> S_CLOSED"

definition occupied :: "HubSession \<Rightarrow> bool" where
  "occupied s \<longleftrightarrow> state_occupied (hs_state s)"

definition publishGrantFor :: "u16 \<Rightarrow> HubSession \<Rightarrow> nat option" where
  "publishGrantFor ch s = find_index (\<lambda>g. pu_used g \<and> pu_channel_id g = ch) (hs_publishGrants s)"

text \<open>\<open>undef\<close> is what the platform does for a conversion the language leaves undefined.\<close>

definition addPublishGrant ::
  "(u32 \<Rightarrow> u32) \<Rightarrow> u16 \<Rightarrow> u32 \<Rightarrow> u32 \<Rightarrow> u32 \<Rightarrow> bool \<Rightarrow> u8 \<Rightarrow> HubSession \<Rightarrow> bool \<times> HubSession" where
  "addPublishGrant undef ch granted_rate_hz now granted_burst burstRequested curveFamily s =
    (let ratePerSec = f32_to_u32 undef (if f32_lt granted_rate_hz f32_one then f32_one else granted_rate_hz);
         capacity = (if f32_lt 0 granted_burst then granted_burst else f32_of_u32 ratePerSec);
         slot = (case publishGrantFor ch s of
                   Some i \<Rightarrow> Some i
                 | None \<Rightarrow> find_index (\<lambda>g. \<not> pu_used g) (hs_publishGrants s))
     in case slot of
          None \<Rightarrow> (False, s)
        | Some i \<Rightarrow>
            (True, s \<lparr> hs_publishGrants := (hs_publishGrants s)[i := (hs_publishGrants s ! i)
              \<lparr> pu_used := True, pu_channel_id := ch, pu_granted_rate_hz := granted_rate_hz, pu_granted_burst := capacity,
                pu_burstRequested := burstRequested, pu_limiter := IngressRateLimiter_new ratePerSec now capacity,
                pu_everNackedOverage := False, pu_lastOverageNackMs := 0, pu_curveFamily := curveFamily \<rparr>] \<rparr>))"

section \<open>Definitions: the slot\<close>

record PushRecord =
  ph_channel_id :: u16
  ph_lastSeq :: u16
  ph_valid :: bool
  ph_shedCounter :: u32

definition PushRecord_new :: PushRecord where
  "PushRecord_new = \<lparr> ph_channel_id = 0, ph_lastSeq = 0, ph_valid = False, ph_shedCounter = 0 \<rparr>"

record ConflictNack =
  cn_used :: bool
  cn_source :: u8
  cn_lastMs :: u32

definition ConflictNack_new :: ConflictNack where
  "ConflictNack_new = \<lparr> cn_used = False, cn_source = 0, cn_lastMs = 0 \<rparr>"

record PendingBlob =
  pb_active :: bool
  pb_id :: BlobId
  pb_totalBytes :: u32
  pb_generation :: u16
  pb_reqSeq :: "u16 option"
  pb_full :: bool
  pb_nextIndex :: u16
  pb_cursor :: u16
  pb_count :: u16
  pb_chunks :: "u16 list"

definition PendingBlob_new :: PendingBlob where
  "PendingBlob_new = \<lparr> pb_active = False, pb_id = BlobId_new, pb_totalBytes = 0, pb_generation = 0, pb_reqSeq = None,
     pb_full = True, pb_nextIndex = 0, pb_cursor = 0, pb_count = 0, pb_chunks = replicate kBlobReqMaxChunks 0 \<rparr>"

record HubSlot =
  sl_transport :: "nat option"
  sl_session :: HubSession
  sl_pushRecords :: "PushRecord list"
  sl_nonce :: bytes
  sl_clientNonce :: bytes
  sl_hasClientNonce :: bool
  sl_sigRequested :: bool
  sl_signPending :: bool
  sl_signDelivered :: bool
  sl_authFailures :: u8
  sl_congestionLevel :: u8
  sl_criticalStalling :: bool
  sl_criticalStallSinceMs :: u32
  sl_lastProbeReport :: "ProbeResult option"
  sl_conflictNacks :: "ConflictNack list"
  sl_blob :: PendingBlob

definition HubSlot_new :: HubSlot where
  "HubSlot_new = \<lparr> sl_transport = None, sl_session = HubSession_new,
     sl_pushRecords = replicate max_subscriptions_per_session PushRecord_new, sl_nonce = replicate 8 0,
     sl_clientNonce = replicate 8 0, sl_hasClientNonce = False, sl_sigRequested = False, sl_signPending = False,
     sl_signDelivered = False, sl_authFailures = 0, sl_congestionLevel = 0, sl_criticalStalling = False,
     sl_criticalStallSinceMs = 0, sl_lastProbeReport = None, sl_conflictNacks = replicate 4 ConflictNack_new,
     sl_blob = PendingBlob_new \<rparr>"

section \<open>Definitions: the environment and the hub\<close>

record ('t, 'd, 'r) HubEnv =
  env_catalog :: BasicCatalog
  env_encodeCatalog :: "BasicCatalog \<Rightarrow> bytes"
  env_open :: "'t \<Rightarrow> bool \<times> 't"
  env_close :: "'t \<Rightarrow> 't"
  env_write :: "bytes \<Rightarrow> 't \<Rightarrow> bool \<times> 't"
  env_read :: "'t \<Rightarrow> FrameBuffer option \<times> 't"
  env_mtu :: "'t \<Rightarrow> u16"
  env_nextU32 :: "'r \<Rightarrow> u32 \<times> 'r"
  env_fill :: "nat \<Rightarrow> 'r \<Rightarrow> bytes \<times> 'r"
  env_crypto :: ICrypto
  env_publicKey :: bytes
  env_signP256 :: "bytes \<Rightarrow> bytes"
  env_validateToken :: "bytes \<Rightarrow> bytes \<Rightarrow> bool \<Rightarrow> 'd \<Rightarrow> AccessLevel \<times> 'd"
  env_applyIntent :: "u16 \<Rightarrow> IntentValueField list \<Rightarrow> AccessLevel \<Rightarrow> 'd \<Rightarrow> ((u16 + IntentValueField list) \<times> bool) \<times> 'd"
  env_onEstop :: "u8 \<Rightarrow> u8 \<Rightarrow> 'd \<Rightarrow> 'd"
  env_onSessionJoined :: "u32 \<Rightarrow> 'd \<Rightarrow> 'd"
  env_onSessionLeft :: "u32 \<Rightarrow> 'd \<Rightarrow> 'd"
  env_sourceForChannel :: "u16 \<Rightarrow> 'd \<Rightarrow> u8 option \<times> 'd"
  env_onSourceOwnership :: "u8 \<Rightarrow> u32 \<Rightarrow> u8 \<Rightarrow> 'd \<Rightarrow> 'd"
  env_canClearEstop :: "'d \<Rightarrow> bool \<times> 'd"
  env_onStreamBundle :: "u16 \<Rightarrow> u32 \<Rightarrow> BundleView \<Rightarrow> 'd \<Rightarrow> 'd"
  env_effectiveCurveFamily :: "u16 \<Rightarrow> u8 \<Rightarrow> 'd \<Rightarrow> u8 \<times> 'd"
  env_readBlob :: "u8 \<Rightarrow> u8 \<Rightarrow> u8 \<Rightarrow> 'd \<Rightarrow> (bytes \<times> u16) option \<times> 'd"
  env_floatUndef :: "u32 \<Rightarrow> u32"

datatype fault = NullTransport | EndlessDraw

record ('t, 'd, 'r) Hub =
  hb_retained :: RetainedStore
  hb_slots :: "HubSlot list"
  hb_etag :: bytes
  hb_catalogEncoded :: bytes
  hb_idProduct :: bytes
  hb_idFwVersion :: bytes
  hb_idHubName :: bytes
  hb_hubInstanceId :: u64
  hb_wsPort :: u16
  hb_ipv4 :: u32
  hb_bootId :: u32
  hb_cfgGen :: u16
  hb_monoMs :: MonotonicMs
  hb_dispatchSeq :: "u16 option"
  hb_safetyWord :: u8
  hb_safetyCause :: u8
  hb_safetyOwnerSession :: u32
  hb_estopSeq :: u16
  hb_safetyModes :: u8
  hb_pairing :: PairingManager
  hb_ownership :: SourceOwnershipTable
  hb_pairedStoreId :: "u8 option"
  hb_presenceWasOpen :: bool
  hb_inlineSigning :: bool
  hb_logRing :: EventReplayRing
  hb_clockUs :: u32
  hb_wire :: "nat \<Rightarrow> 't"
  hb_app :: 'd
  hb_rng :: 'r
  hb_fault :: "fault option"

text \<open>Reading and writing one slot and its session.\<close>

definition slot_of :: "nat \<Rightarrow> ('t, 'd, 'r) Hub \<Rightarrow> HubSlot" where
  "slot_of i h = hb_slots h ! i"

definition session_of :: "nat \<Rightarrow> ('t, 'd, 'r) Hub \<Rightarrow> HubSession" where
  "session_of i h = sl_session (hb_slots h ! i)"

definition upd_slot :: "nat \<Rightarrow> (HubSlot \<Rightarrow> HubSlot) \<Rightarrow> (('t, 'd, 'r) Hub, unit) state" where
  "upd_slot i f = modify (\<lambda>h. h \<lparr> hb_slots := (hb_slots h)[i := f (hb_slots h ! i)] \<rparr>)"

definition upd_session :: "nat \<Rightarrow> (HubSession \<Rightarrow> HubSession) \<Rightarrow> (('t, 'd, 'r) Hub, unit) state" where
  "upd_session i f = upd_slot i (\<lambda>s. s \<lparr> sl_session := f (sl_session s) \<rparr>)"

definition raise :: "fault \<Rightarrow> (('t, 'd, 'r) Hub, unit) state" where
  "raise f = modify (\<lambda>h. h \<lparr> hb_fault := Some f \<rparr>)"

text \<open>Calls into the application and the random source.\<close>

definition app_tell :: "('d \<Rightarrow> 'd) \<Rightarrow> (('t, 'd, 'r) Hub, unit) state" where
  "app_tell f = modify (\<lambda>h. h \<lparr> hb_app := f (hb_app h) \<rparr>)"

definition app_ask :: "('d \<Rightarrow> 'a \<times> 'd) \<Rightarrow> (('t, 'd, 'r) Hub, 'a) state" where
  "app_ask f = act (\<lambda>h. let (a, d) = f (hb_app h) in (a, h \<lparr> hb_app := d \<rparr>))"

definition rng_ask :: "('r \<Rightarrow> 'a \<times> 'r) \<Rightarrow> (('t, 'd, 'r) Hub, 'a) state" where
  "rng_ask f = act (\<lambda>h. let (a, r) = f (hb_rng h) in (a, h \<lparr> hb_rng := r \<rparr>))"

text \<open>\<^verbatim>\<open>do { id = _rng.nextU32(); } while (id == 0)\<close>: \<open>None\<close> if the source never yields anything but 0. In a command the loop
  that does not end leaves the mark \<open>EndlessDraw\<close>.\<close>

partial_function (option) draw_nonzero :: "('r \<Rightarrow> u32 \<times> 'r) \<Rightarrow> 'r \<Rightarrow> (u32 \<times> 'r) option" where
  "draw_nonzero next r = (case next r of (v, r') \<Rightarrow> if v = 0 then draw_nonzero next r' else Some (v, r'))"

definition drawNonZero :: "('t, 'd, 'r) HubEnv \<Rightarrow> (('t, 'd, 'r) Hub, u32) state" where
  "drawNonZero E = act (\<lambda>h.
    case draw_nonzero (env_nextU32 E) (hb_rng h) of
      None \<Rightarrow> (0, h \<lparr> hb_fault := Some EndlessDraw \<rparr>)
    | Some (v, r) \<Rightarrow> (v, h \<lparr> hb_rng := r \<rparr>))"

text \<open>The reading of the injected clock in milliseconds.\<close>

definition clockNowMs :: "(('t, 'd, 'r) Hub, u32) state" where
  "clockNowMs = gets (\<lambda>h. nowMs (hb_clockUs h))"

end
