(* ===== verification/Hub_Send.thy ===== *)
theory Hub_Send
  imports Hub_State
begin

text \<open>
  The outgoing half of the hub (\<^verbatim>\<open>hub/hub_impl.hpp\<close>): frames and NACKs, retained snapshots, events to
  subscribers, and the end of a session (stale, parked, torn down). A function that takes \<^verbatim>\<open>Slot& slot\<close> takes the
  index of the slot; \<^verbatim>\<open>*slot.transport\<close> is \<open>deref i\<close>, which raises a fault on a null transport.
\<close>

section \<open>Definitions: sending\<close>

definition transport_of :: "nat \<Rightarrow> (('t, 'd, 'r) Hub, nat option) state" where
  "transport_of i = gets (\<lambda>h. sl_transport (slot_of i h))"

definition sendFrameTo :: "('t, 'd, 'r) HubEnv \<Rightarrow> nat \<Rightarrow> u8 \<Rightarrow> u16 \<Rightarrow> bytes \<Rightarrow> u16 \<Rightarrow> (('t, 'd, 'r) Hub, bool) state" where
  "sendFrameTo E t type channel payload seq =
    (let hdr = \<lparr> hdr_type = type, hdr_flags = 0, hdr_channel = channel, hdr_seq = seq,
                 hdr_len = of_nat (length payload) \<rparr>;
         (pos, buf) = encodeFrameHeader hdr (replicate kFrameBufferCapacity 0)
     in if pos = 0 then return False
        else if length payload > length buf - pos then return False
        else act (\<lambda>h.
          let (ok, w) = env_write E (take (pos + length payload) (poke pos payload buf)) (hb_wire h t)
          in (ok, h \<lparr> hb_wire := (hb_wire h)(t := w) \<rparr>)))"

definition deref :: "nat \<Rightarrow> 'a \<Rightarrow> (nat \<Rightarrow> (('t, 'd, 'r) Hub, 'a) state) \<Rightarrow> (('t, 'd, 'r) Hub, 'a) state" where
  "deref i d k = do {
    t \<leftarrow> transport_of i;
    case t of
      None \<Rightarrow> do { raise NullTransport; return d }
    | Some t \<Rightarrow> k t }"

definition sendSlot :: "('t, 'd, 'r) HubEnv \<Rightarrow> nat \<Rightarrow> u8 \<Rightarrow> u16 \<Rightarrow> bytes \<Rightarrow> u16 \<Rightarrow> (('t, 'd, 'r) Hub, bool) state" where
  "sendSlot E i type channel payload seq = deref i False (\<lambda>t. sendFrameTo E t type channel payload seq)"

definition stampNack :: "u16 option \<Rightarrow> NackMsg \<Rightarrow> NackMsg" where
  "stampNack dispatchSeq n = (if nk_intent_seq n = None then n \<lparr> nk_intent_seq := dispatchSeq \<rparr> else n)"

definition sendNack :: "('t, 'd, 'r) HubEnv \<Rightarrow> nat \<Rightarrow> NackMsg \<Rightarrow> (('t, 'd, 'r) Hub, unit) state" where
  "sendNack E i n = deref i () (\<lambda>t. do {
    ds \<leftarrow> gets hb_dispatchSeq;
    let buf = encodeNack (stampNack ds n) 128;
    if buf = [] then skip
    else do { _ \<leftarrow> sendFrameTo E t FT_NACK 0 buf 0; skip } })"

definition nack :: "u16 \<Rightarrow> NackMsg" where
  "nack code = NackMsg_new \<lparr> nk_code := code \<rparr>"

text \<open>\<^verbatim>\<open>encodeGoodbye\<close> into 64 bytes and a send guarded by \<^verbatim>\<open>transport != nullptr\<close>.\<close>

definition goodbyeTo :: "('t, 'd, 'r) HubEnv \<Rightarrow> nat \<Rightarrow> u16 \<Rightarrow> (('t, 'd, 'r) Hub, unit) state" where
  "goodbyeTo E i code = do {
    let gbuf = encodeGoodbye (GoodbyeMsg_new \<lparr> gb_code := code \<rparr>) 64;
    t \<leftarrow> transport_of i;
    case t of
      None \<Rightarrow> skip
    | Some t \<Rightarrow> if gbuf = [] then skip else do { _ \<leftarrow> sendFrameTo E t FT_GOODBYE 0 gbuf 0; skip } }"

section \<open>Definitions: retained snapshots\<close>

definition hub_retain :: "u16 \<Rightarrow> bytes \<Rightarrow> (('t, 'd, 'r) Hub, u16 option) state" where
  "hub_retain ch payload = act (\<lambda>h.
    let (r, t) = rs_publish kRetainedCapacity ch payload (hb_retained h) in (r, h \<lparr> hb_retained := t \<rparr>))"

definition buildSafetyPayload :: "('t, 'd, 'r) Hub \<Rightarrow> bytes" where
  "buildSafetyPayload h =
    (let buf = replicate 9 0;
         buf = subspan_put 0 putU8 (hb_safetyWord h) buf;
         buf = subspan_put 1 putU8 (hb_safetyCause h) buf;
         buf = subspan_put 2 putU32 (hb_safetyOwnerSession h) buf;
         buf = subspan_put 6 putU16 (hb_estopSeq h) buf;
         buf = subspan_put 8 putU8 (hb_safetyModes h) buf
     in buf)"

definition publishSafetySnapshot :: "(('t, 'd, 'r) Hub, unit) state" where
  "publishSafetySnapshot = do {
    payload \<leftarrow> gets buildSafetyPayload;
    _ \<leftarrow> hub_retain ch_safety payload;
    skip }"

definition buildControlOwnerPayload :: "SourceOwnershipTable \<Rightarrow> bytes" where
  "buildControlOwnerPayload own =
    foldl (\<lambda>buf i. let off = i * 5; buf = subspan_put off putU8 (of_nat i) buf
                     in subspan_put (off + 1) putU32 (ownerOf (of_nat i) own) buf)
      (replicate 20 0) [0..<kMaxSources]"

definition publishControlOwnerStateIfPresent :: "('t, 'd, 'r) HubEnv \<Rightarrow> (('t, 'd, 'r) Hub, unit) state" where
  "publishControlOwnerStateIfPresent E =
    (if cat_find ch_control_owner (env_catalog E) = None then skip
     else do {
       payload \<leftarrow> gets (\<lambda>h. buildControlOwnerPayload (hb_ownership h));
       _ \<leftarrow> hub_retain ch_control_owner payload;
       skip })"

abbreviation (input) kPendingSlots :: nat where "kPendingSlots \<equiv> 4"
abbreviation (input) kPendingSlotBytes :: nat where "kPendingSlotBytes \<equiv> 27"

definition pendingSlotBytes :: "u32 \<Rightarrow> PendingKnock \<Rightarrow> bytes" where
  "pendingSlotBytes now k =
    (let lo = getU32 (take 4 (pk_instance_id k));
         hi = getU32 (take 4 (drop 4 (pk_instance_id k)));
         remainMs = (if timeReached now (pk_expiresAtMs k) then 0 else pk_expiresAtMs k - now);
         remainS = (remainMs + 999) div 1000;
         remainS = (if remainS > 0xFFFF then 0xFFFF else remainS)
     in u32_bytes lo @ u32_bytes hi @ [pk_mode k] @ u16_bytes (ucast remainS) @
        take 16 (pk_name k @ replicate 16 0))"

definition publishPendingPairingState :: "('t, 'd, 'r) HubEnv \<Rightarrow> u32 \<Rightarrow> (('t, 'd, 'r) Hub, unit) state" where
  "publishPendingPairingState E now =
    (if cat_find ch_pending_pairing (env_catalog E) = None then skip
     else do {
       m \<leftarrow> gets hb_pairing;
       let head = u16_bytes (pm_generation m) @ [of_nat (pp_count (pm_pending m)), if presenceWindowOpen now m then 1 else 0];
       let buf = foldl (\<lambda>buf i. if i < length (pm_pending m) \<and> pk_used (pm_pending m ! i)
                                   then poke (4 + i * kPendingSlotBytes) (pendingSlotBytes now (pm_pending m ! i)) buf else buf)
                   (poke 0 head (replicate (4 + kPendingSlots * kPendingSlotBytes) 0)) [0..<kPendingSlots];
       _ \<leftarrow> hub_retain ch_pending_pairing buf;
       skip })"

definition publishPairedRosterState :: "('t, 'd, 'r) HubEnv \<Rightarrow> (('t, 'd, 'r) Hub, unit) state" where
  "publishPairedRosterState E =
    (if cat_find ch_paired_devices_roster (env_catalog E) = None then skip
     else do {
       m \<leftarrow> gets hb_pairing;
       _ \<leftarrow> hub_retain ch_paired_devices_roster
         (u16_bytes (pm_generation m) @ [of_nat (entryCount m), of_nat paired_devices_max]);
       skip })"

section \<open>Definitions: events\<close>

text \<open>\<^verbatim>\<open>while (auto ev = events.pop()) sendFrameTo(...)\<close>; the fuel is one more than the number of queued events, and
  each round pops one.\<close>

primrec drainEvents :: "('t, 'd, 'r) HubEnv \<Rightarrow> nat \<Rightarrow> nat \<Rightarrow> (('t, 'd, 'r) Hub, unit) state" where
  "drainEvents E i 0 = skip"
| "drainEvents E i (Suc n) = do {
    ev \<leftarrow> gets (\<lambda>h. fst (eq_pop kEventDepth (hs_events (session_of i h))));
    case ev of
      None \<Rightarrow> skip
    | Some (ch, bs) \<Rightarrow> do {
        upd_session i (\<lambda>s. s \<lparr> hs_events := snd (eq_pop kEventDepth (hs_events s)) \<rparr>);
        _ \<leftarrow> sendSlot E i FT_EVENT ch bs 0;
        drainEvents E i n } }"

definition pumpEventDrain :: "('t, 'd, 'r) HubEnv \<Rightarrow> nat \<Rightarrow> (('t, 'd, 'r) Hub, unit) state" where
  "pumpEventDrain E i = do {
    s \<leftarrow> gets (session_of i);
    t \<leftarrow> transport_of i;
    if \<not> hs_ready s \<or> t = None then skip
    else drainEvents E i (Suc (eq_count (hs_events s))) }"

definition queueEvent :: "nat \<Rightarrow> u16 \<Rightarrow> bytes \<Rightarrow> (('t, 'd, 'r) Hub, unit) state" where
  "queueEvent i ch bs =
    upd_session i (\<lambda>s. s \<lparr> hs_events := snd (eq_push kEventDepth kEventSlotBytes (ch, bs) (hs_events s)) \<rparr>)"

definition publishEvent :: "('t, 'd, 'r) HubEnv \<Rightarrow> u16 \<Rightarrow> bytes \<Rightarrow> (('t, 'd, 'r) Hub, bool) state" where
  "publishEvent E ch bs = do {
    any \<leftarrow> for_acc [0..<kSlotCapacity] False (\<lambda>i any. do {
      s \<leftarrow> gets (session_of i);
      if \<not> occupied s then return any
      else if st_find ch (hs_subs s) = None then return any
      else do { queueEvent i ch bs; return True } });
    whenever any (for_each [0..<kSlotCapacity] (\<lambda>i. do {
      s \<leftarrow> gets (session_of i);
      whenever (occupied s) (pumpEventDrain E i) }));
    return any }"

text \<open>An event message encoded into a buffer of the given size and published, unless it does not fit.\<close>

definition emitEvent :: "('t, 'd, 'r) HubEnv \<Rightarrow> EventMsg \<Rightarrow> nat \<Rightarrow> (('t, 'd, 'r) Hub, unit) state" where
  "emitEvent E ev cap =
    (let buf = encodeEvent ev cap in
     if buf = [] then skip else do { _ \<leftarrow> publishEvent E (ev_channel_id ev) buf; skip })"

definition u64_field :: "u8 \<Rightarrow> u64 \<Rightarrow> IntentValueField" where
  "u64_field k v = \<lparr> ivf_key = k, ivf_value = IV_U64 v \<rparr>"

definition anySubscribed :: "u16 \<Rightarrow> ('t, 'd, 'r) Hub \<Rightarrow> bool" where
  "anySubscribed ch h = list_ex (\<lambda>s. occupied (sl_session s) \<and> st_find ch (hs_subs (sl_session s)) \<noteq> None) (hb_slots h)"

definition emitTakeoverEvent :: "('t, 'd, 'r) HubEnv \<Rightarrow> u8 \<Rightarrow> u32 \<Rightarrow> u32 \<Rightarrow> (('t, 'd, 'r) Hub, unit) state" where
  "emitTakeoverEvent E source_id newOwner now = do {
    any \<leftarrow> gets (anySubscribed ch_session_events);
    whenever any (emitEvent E \<lparr> ev_channel_id = ch_session_events, ev_timestamp = now, ev_event_kind = 1,
      ev_seq_of_state = None, ev_body = Some [u64_field 1 (ucast source_id), u64_field 2 (ucast newOwner)] \<rparr> 64) }"

definition emitSessionEvent :: "('t, 'd, 'r) HubEnv \<Rightarrow> u16 \<Rightarrow> u32 \<Rightarrow> u32 \<Rightarrow> (('t, 'd, 'r) Hub, unit) state" where
  "emitSessionEvent E kind session_id now = do {
    any \<leftarrow> gets (anySubscribed ch_session_events);
    whenever any (emitEvent E \<lparr> ev_channel_id = ch_session_events, ev_timestamp = now, ev_event_kind = kind,
      ev_seq_of_state = None, ev_body = Some [u64_field 1 (ucast session_id)] \<rparr> 32) }"

abbreviation (input) session_stale :: u16 where "session_stale \<equiv> 4"
abbreviation (input) session_resumed :: u16 where "session_resumed \<equiv> 5"

abbreviation (input) pev_knocked :: u16 where "pev_knocked \<equiv> 1"
abbreviation (input) pev_granted :: u16 where "pev_granted \<equiv> 2"
abbreviation (input) pev_denied :: u16 where "pev_denied \<equiv> 3"
abbreviation (input) pev_expired :: u16 where "pev_expired \<equiv> 4"
abbreviation (input) pev_window_opened :: u16 where "pev_window_opened \<equiv> 5"
abbreviation (input) pev_window_closed :: u16 where "pev_window_closed \<equiv> 6"
abbreviation (input) pev_revoked :: u16 where "pev_revoked \<equiv> 7"
abbreviation (input) pev_recognized_pending :: u16 where "pev_recognized_pending \<equiv> 8"

definition emitPairingEvent ::
  "('t, 'd, 'r) HubEnv \<Rightarrow> u16 \<Rightarrow> bytes \<Rightarrow> bytes \<Rightarrow> u8 \<Rightarrow> AccessLevel \<Rightarrow> bytes \<Rightarrow> u32 \<Rightarrow> (('t, 'd, 'r) Hub, unit) state" where
  "emitPairingEvent E kind inst name mode role version now =
    (if cat_find ch_pairing_events (env_catalog E) = None then skip
     else emitEvent E \<lparr> ev_channel_id = ch_pairing_events, ev_timestamp = now, ev_event_kind = kind, ev_seq_of_state = None,
       ev_body = Some ((if inst = [] then [] else [\<lparr> ivf_key = 1, ivf_value = IV_Bstr inst \<rparr>]) @
         (if name = [] then [] else [\<lparr> ivf_key = 2, ivf_value = IV_Tstr name \<rparr>]) @
         [u64_field 3 (ucast mode), u64_field 4 (ucast (role_u8 role))] @
         (if version = [] then [] else [\<lparr> ivf_key = 5, ivf_value = IV_Tstr version \<rparr>])) \<rparr> 160)"

abbreviation (input) ESTOP_BIT :: u8 where "ESTOP_BIT \<equiv> 1"
abbreviation (input) STOP_BIT :: u8 where "STOP_BIT \<equiv> 2"
abbreviation (input) HOLD_BIT :: u8 where "HOLD_BIT \<equiv> 4"
abbreviation (input) PAUSE_BIT :: u8 where "PAUSE_BIT \<equiv> 8"
abbreviation (input) kStopBits :: u8 where "kStopBits \<equiv> 14"

definition emitSafetyEvent :: "('t, 'd, 'r) HubEnv \<Rightarrow> u32 \<Rightarrow> u16 \<Rightarrow> u8 \<Rightarrow> (('t, 'd, 'r) Hub, unit) state" where
  "emitSafetyEvent E now kind level = do {
    h \<leftarrow> gets id;
    emitEvent E \<lparr> ev_channel_id = ch_safety_events, ev_timestamp = now, ev_event_kind = kind,
      ev_seq_of_state = map_option fst (rs_get ch_safety (hb_retained h)),
      ev_body = Some ([u64_field 1 (ucast (hb_safetyWord h)), u64_field 2 (ucast (hb_safetyCause h)),
        u64_field 3 (ucast (hb_safetyOwnerSession h)), u64_field 4 (ucast (hb_estopSeq h))] @
        (if level \<noteq> 0 then [u64_field 5 (ucast level)] else [])) \<rparr> 96 }"

definition emitSafetyEdgeEvents :: "('t, 'd, 'r) HubEnv \<Rightarrow> u8 \<Rightarrow> u32 \<Rightarrow> (('t, 'd, 'r) Hub, unit) state" where
  "emitSafetyEdgeEvents E beforeWord now =
    (if cat_find ch_safety_events (env_catalog E) = None then skip
     else do {
       after \<leftarrow> gets hb_safetyWord;
       if after = beforeWord then skip
       else do {
         let newlySet = after AND NOT beforeWord;
         let newlyClear = beforeWord AND NOT after;
         whenever (newlySet AND ESTOP_BIT \<noteq> 0) (emitSafetyEvent E now 1 0);
         whenever (newlyClear AND ESTOP_BIT \<noteq> 0) (emitSafetyEvent E now 2 0);
         whenever (newlySet AND kStopBits \<noteq> 0) (emitSafetyEvent E now 3 (newlySet AND kStopBits));
         whenever (newlyClear AND kStopBits \<noteq> 0) (emitSafetyEvent E now 4 (newlyClear AND kStopBits)) } })"

section \<open>Definitions: the end of a session\<close>

definition releaseSessionSources :: "('t, 'd, 'r) HubEnv \<Rightarrow> u32 \<Rightarrow> u8 \<Rightarrow> (('t, 'd, 'r) Hub, unit) state" where
  "releaseSessionSources E sessionId reason = do {
    released \<leftarrow> act (\<lambda>h. let (hits, t) = releaseAllOf sessionId (hb_ownership h) in (hits, h \<lparr> hb_ownership := t \<rparr>));
    for_each released (\<lambda>source. app_tell (env_onSourceOwnership E source 0 reason));
    whenever (released \<noteq> []) (publishControlOwnerStateIfPresent E) }"

definition markStale :: "('t, 'd, 'r) HubEnv \<Rightarrow> nat \<Rightarrow> u32 \<Rightarrow> u8 \<Rightarrow> (('t, 'd, 'r) Hub, unit) state" where
  "markStale E i now reason = do {
    s \<leftarrow> gets (session_of i);
    releaseSessionSources E (hs_session_id s) reason;
    upd_session i (\<lambda>s. s \<lparr> hs_state := S_STALE, hs_staleSinceMs := now \<rparr>);
    emitSessionEvent E session_stale (hs_session_id s) now }"

definition reviveIfStale :: "('t, 'd, 'r) HubEnv \<Rightarrow> nat \<Rightarrow> u32 \<Rightarrow> (('t, 'd, 'r) Hub, unit) state" where
  "reviveIfStale E i now = do {
    s \<leftarrow> gets (session_of i);
    if hs_state s \<noteq> S_STALE then skip
    else do {
      upd_session i (\<lambda>s. s \<lparr> hs_state := S_LIVE, hs_staleSinceMs := 0 \<rparr>);
      emitSessionEvent E session_resumed (hs_session_id s) now } }"

text \<open>Forget what a session was waiting for in the pairing list, telling the subscribers.\<close>

definition dropKnocksOf :: "('t, 'd, 'r) HubEnv \<Rightarrow> u32 \<Rightarrow> u32 \<Rightarrow> (('t, 'd, 'r) Hub, unit) state" where
  "dropKnocksOf E sessionId now = do {
    dropped \<leftarrow> act (\<lambda>h. let (ks, p) = pp_dropBySession sessionId (pm_pending (hb_pairing h))
                          in (ks, h \<lparr> hb_pairing := (hb_pairing h) \<lparr> pm_pending := p \<rparr> \<rparr>));
    for_each dropped (\<lambda>k. emitPairingEvent E pev_expired (pk_instance_id k) (pk_name k) (pk_mode k) watch [] now);
    whenever (dropped \<noteq> []) (publishPendingPairingState E now) }"

definition closeTransport :: "('t, 'd, 'r) HubEnv \<Rightarrow> nat \<Rightarrow> (('t, 'd, 'r) Hub, unit) state" where
  "closeTransport E i = do {
    t \<leftarrow> transport_of i;
    case t of
      None \<Rightarrow> skip
    | Some t \<Rightarrow> do {
        modify (\<lambda>h. h \<lparr> hb_wire := (hb_wire h)(t := env_close E (hb_wire h t)) \<rparr>);
        upd_slot i (\<lambda>s. s \<lparr> sl_transport := None \<rparr>) } }"

definition clearHandshake :: "HubSlot \<Rightarrow> HubSlot" where
  "clearHandshake s = s \<lparr> sl_hasClientNonce := False, sl_clientNonce := replicate 8 0, sl_sigRequested := False,
     sl_signPending := False, sl_signDelivered := False, sl_authFailures := 0, sl_blob := PendingBlob_new \<rparr>"

definition parkAndDetach :: "('t, 'd, 'r) HubEnv \<Rightarrow> nat \<Rightarrow> u32 \<Rightarrow> (('t, 'd, 'r) Hub, unit) state" where
  "parkAndDetach E i now = do {
    s \<leftarrow> gets (session_of i);
    whenever (occupied s \<and> hs_state s \<noteq> S_STALE) (do {
      markStale E i now 4;
      dropKnocksOf E (hs_session_id s) now;
      upd_slot i clearHandshake });
    closeTransport E i;
    upd_slot i (\<lambda>s. s \<lparr> sl_congestionLevel := 0, sl_criticalStalling := False \<rparr>) }"

definition teardownSession :: "('t, 'd, 'r) HubEnv \<Rightarrow> nat \<Rightarrow> u32 \<Rightarrow> (('t, 'd, 'r) Hub, unit) state" where
  "teardownSession E i now = do {
    s \<leftarrow> gets (session_of i);
    whenever (occupied s) (do {
      releaseSessionSources E (hs_session_id s) 4;
      dropKnocksOf E (hs_session_id s) now;
      app_tell (env_onSessionLeft E (hs_session_id s)) });
    upd_slot i (\<lambda>s. clearHandshake (s \<lparr> sl_session := HubSession_new,
      sl_pushRecords := replicate max_subscriptions_per_session PushRecord_new,
      sl_conflictNacks := replicate 4 ConflictNack_new \<rparr>)) }"

section \<open>Definitions: tracked sends\<close>

abbreviation (input) never_shed_stall_eviction_ms :: u32 where "never_shed_stall_eviction_ms \<equiv> 2000"

definition trackCriticalSend :: "('t, 'd, 'r) HubEnv \<Rightarrow> nat \<Rightarrow> bool \<Rightarrow> u32 \<Rightarrow> (('t, 'd, 'r) Hub, unit) state" where
  "trackCriticalSend E i sendOk now = do {
    s \<leftarrow> gets (slot_of i);
    if sl_congestionLevel s < 2 then upd_slot i (\<lambda>s. s \<lparr> sl_criticalStalling := False \<rparr>)
    else if sendOk then upd_slot i (\<lambda>s. s \<lparr> sl_criticalStalling := False \<rparr>)
    else if \<not> sl_criticalStalling s then upd_slot i (\<lambda>s. s \<lparr> sl_criticalStalling := True, sl_criticalStallSinceMs := now \<rparr>)
    else if timeReached now (sl_criticalStallSinceMs s + never_shed_stall_eviction_ms) then parkAndDetach E i now
    else skip }"

definition sendFrameToTracked ::
  "('t, 'd, 'r) HubEnv \<Rightarrow> nat \<Rightarrow> u8 \<Rightarrow> u16 \<Rightarrow> bytes \<Rightarrow> u32 \<Rightarrow> u16 \<Rightarrow> (('t, 'd, 'r) Hub, bool) state" where
  "sendFrameToTracked E i type channel payload now seq = do {
    t \<leftarrow> transport_of i;
    case t of
      None \<Rightarrow> return False
    | Some t \<Rightarrow> do {
        ok \<leftarrow> sendFrameTo E t type channel payload seq;
        trackCriticalSend E i ok now;
        return ok } }"

definition sendNackTracked :: "('t, 'd, 'r) HubEnv \<Rightarrow> nat \<Rightarrow> NackMsg \<Rightarrow> u32 \<Rightarrow> (('t, 'd, 'r) Hub, unit) state" where
  "sendNackTracked E i n now = do {
    t \<leftarrow> transport_of i;
    case t of
      None \<Rightarrow> skip
    | Some t \<Rightarrow> do {
        ds \<leftarrow> gets hb_dispatchSeq;
        let buf = encodeNack (stampNack ds n) 128;
        ok \<leftarrow> (if buf = [] then return False else sendFrameTo E t FT_NACK 0 buf 0);
        trackCriticalSend E i ok now } }"

definition evictSlot :: "('t, 'd, 'r) HubEnv \<Rightarrow> nat \<Rightarrow> u16 \<Rightarrow> u32 \<Rightarrow> (('t, 'd, 'r) Hub, unit) state" where
  "evictSlot E i code now = do {
    s \<leftarrow> gets (session_of i);
    whenever (occupied s) (goodbyeTo E i code);
    teardownSession E i now;
    upd_slot i (\<lambda>s. s \<lparr> sl_congestionLevel := 0, sl_criticalStalling := False \<rparr>) }"

section \<open>Definitions: the slot table\<close>

definition occupiedCount :: "nat option \<Rightarrow> ('t, 'd, 'r) Hub \<Rightarrow> nat" where
  "occupiedCount exclude h =
    length (filter (\<lambda>i. exclude \<noteq> Some i \<and> occupied (session_of i h)) [0..<length (hb_slots h)])"

definition findSlotByInstance :: "bytes \<Rightarrow> nat \<Rightarrow> ('t, 'd, 'r) Hub \<Rightarrow> nat option" where
  "findSlotByInstance inst exclude h =
    find (\<lambda>i. i \<noteq> exclude \<and> occupied (session_of i h) \<and> hs_instance_id (session_of i h) = inst) [0..<length (hb_slots h)]"

definition findSlotBySession :: "u32 \<Rightarrow> ('t, 'd, 'r) Hub \<Rightarrow> nat option" where
  "findSlotBySession session_id h =
    (if session_id = 0 then None
     else find (\<lambda>i. occupied (session_of i h) \<and> hs_session_id (session_of i h) = session_id) [0..<length (hb_slots h)])"

text \<open>The stale session of the lowest role, and among those the one stale for longest.\<close>

definition findEvictableStale :: "nat option \<Rightarrow> ('t, 'd, 'r) Hub \<Rightarrow> nat option" where
  "findEvictableStale exclude h =
    foldl (\<lambda>best i.
      if exclude = Some i then best
      else
        let s = session_of i h in
        if hs_state s \<noteq> S_STALE then best
        else case best of
          None \<Rightarrow> Some i
        | Some b \<Rightarrow>
            let sb = session_of b h;
                lowerTier = (role_u8 (hs_role s) < role_u8 (hs_role sb));
                sameTierStaler = (role_u8 (hs_role s) = role_u8 (hs_role sb) \<and>
                                  timeDelta (hs_staleSinceMs s) (hs_staleSinceMs sb) < 0)
            in if lowerTier \<or> sameTierStaler then Some i else best)
      None [0..<length (hb_slots h)]"

end
