(* ===== verification/Hub_Safety.thy ===== *)
theory Hub_Safety
  imports Hub_Send
begin

text \<open>
  The safety plane of the hub: the latched safety word, its retained snapshot, the immediate broadcast to ready
  subscribers, the ESTOP latch and its guarded release.
\<close>

section \<open>Definitions\<close>

text \<open>The index of the push record of a channel; a free record is claimed but stays invalid until a push succeeds.\<close>

definition findOrCreatePushRecord :: "nat \<Rightarrow> u16 \<Rightarrow> (('t, 'd, 'r) Hub, nat option) state" where
  "findOrCreatePushRecord i ch = do {
    prs \<leftarrow> gets (\<lambda>h. sl_pushRecords (slot_of i h));
    case find_index (\<lambda>p. ph_valid p \<and> ph_channel_id p = ch) prs of
      Some k \<Rightarrow> return (Some k)
    | None \<Rightarrow>
        (case find_index (\<lambda>p. \<not> ph_valid p) prs of
           None \<Rightarrow> return None
         | Some k \<Rightarrow> do {
             upd_slot i (\<lambda>s. s \<lparr> sl_pushRecords := (sl_pushRecords s)[k :=
               (sl_pushRecords s ! k) \<lparr> ph_channel_id := ch, ph_lastSeq := 0 \<rparr>] \<rparr>);
             return (Some k) }) }"

definition notePushed :: "nat \<Rightarrow> nat option \<Rightarrow> u16 \<Rightarrow> (('t, 'd, 'r) Hub, unit) state" where
  "notePushed i pr seq =
    (case pr of
       None \<Rightarrow> skip
     | Some k \<Rightarrow> upd_slot i (\<lambda>s. s \<lparr> sl_pushRecords := (sl_pushRecords s)[k :=
         (sl_pushRecords s ! k) \<lparr> ph_lastSeq := seq, ph_valid := True \<rparr>] \<rparr>))"

definition markSubPushed :: "nat \<Rightarrow> nat \<Rightarrow> u32 \<Rightarrow> (('t, 'd, 'r) Hub, unit) state" where
  "markSubPushed i k now = upd_session i (\<lambda>s. s \<lparr> hs_subs := (hs_subs s)[k := markPushed now (hs_subs s ! k)] \<rparr>)"

definition broadcastSafetyNow :: "('t, 'd, 'r) HubEnv \<Rightarrow> u32 \<Rightarrow> (('t, 'd, 'r) Hub, unit) state" where
  "broadcastSafetyNow E now = do {
    retained \<leftarrow> gets (\<lambda>h. rs_get ch_safety (hb_retained h));
    case retained of
      None \<Rightarrow> skip
    | Some (seq, payload) \<Rightarrow> for_each [0..<kSlotCapacity] (\<lambda>i. do {
        s \<leftarrow> gets (session_of i);
        t \<leftarrow> transport_of i;
        if \<not> occupied s \<or> t = None \<or> \<not> hs_ready s then skip
        else case st_find ch_safety (hs_subs s) of
          None \<Rightarrow> skip
        | Some k \<Rightarrow> do {
            ok \<leftarrow> sendFrameToTracked E i FT_STATE ch_safety payload now seq;
            whenever ok (do {
              markSubPushed i k now;
              pr \<leftarrow> findOrCreatePushRecord i ch_safety;
              notePushed i pr seq }) } }) }"

definition handleEstopFrame :: "('t, 'd, 'r) HubEnv \<Rightarrow> EstopFrame \<Rightarrow> u32 \<Rightarrow> (('t, 'd, 'r) Hub, unit) state" where
  "handleEstopFrame E f now = do {
    before \<leftarrow> gets hb_safetyWord;
    whenever (before AND ESTOP_BIT = 0) (do {
      app_tell (env_onEstop E (estop_cause f) (estop_origin f));
      modify (\<lambda>h. h \<lparr> hb_safetyWord := hb_safetyWord h OR ESTOP_BIT, hb_safetyCause := estop_cause f,
                        hb_estopSeq := estop_seq f \<rparr>);
      publishSafetySnapshot });
    broadcastSafetyNow E now;
    emitSafetyEdgeEvents E before now }"

definition latchEstop :: "('t, 'd, 'r) HubEnv \<Rightarrow> u8 \<Rightarrow> u8 \<Rightarrow> u16 \<Rightarrow> (('t, 'd, 'r) Hub, unit) state" where
  "latchEstop E cause origin seq = do {
    now \<leftarrow> clockNowMs;
    handleEstopFrame E \<lparr> estop_cause = cause, estop_origin = origin, estop_seq = seq \<rparr> now }"

definition estopLatched :: "('t, 'd, 'r) Hub \<Rightarrow> bool" where
  "estopLatched h \<longleftrightarrow> hb_safetyWord h AND ESTOP_BIT \<noteq> 0"

definition stopLatched :: "('t, 'd, 'r) Hub \<Rightarrow> bool" where
  "stopLatched h \<longleftrightarrow> hb_safetyWord h AND STOP_BIT \<noteq> 0"

abbreviation (input) OVERRIDE_BIT :: u8 where "OVERRIDE_BIT \<equiv> 1"
abbreviation (input) BYPASS_BIT :: u8 where "BYPASS_BIT \<equiv> 2"

definition setSafetyModes :: "('t, 'd, 'r) HubEnv \<Rightarrow> bool \<Rightarrow> bool \<Rightarrow> (('t, 'd, 'r) Hub, unit) state" where
  "setSafetyModes E manualOverride bypassLimits = do {
    let next = (if manualOverride then OVERRIDE_BIT else 0) OR (if bypassLimits then BYPASS_BIT else 0);
    modes \<leftarrow> gets hb_safetyModes;
    if next = modes then skip
    else do {
      modify (\<lambda>h. h \<lparr> hb_safetyModes := next \<rparr>);
      publishSafetySnapshot;
      now \<leftarrow> clockNowMs;
      broadcastSafetyNow E now } }"

abbreviation (input) op_estop_clear :: u64 where "op_estop_clear \<equiv> 1"
abbreviation (input) op_estop :: u64 where "op_estop \<equiv> 6"
abbreviation (input) cause_user :: u8 where "cause_user \<equiv> 0"

text \<open>The latches of a safety op: 2 stop, 3 hold, 4 pause, 5 resume, 7/8 override on/off, 9/10 bypass on/off.\<close>

definition safetyOpLatch :: "u8 \<Rightarrow> u32 \<Rightarrow> ('t, 'd, 'r) Hub \<Rightarrow> ('t, 'd, 'r) Hub option" where
  "safetyOpLatch op sessionId h =
    (let latch = (\<lambda>bit. h \<lparr> hb_safetyWord := hb_safetyWord h OR bit, hb_safetyCause := cause_user,
                           hb_safetyOwnerSession := sessionId \<rparr>)
     in if op = 2 then Some (latch STOP_BIT)
        else if op = 3 then Some (latch HOLD_BIT)
        else if op = 4 then Some (latch PAUSE_BIT)
        else if op = 5 then Some (h \<lparr> hb_safetyWord := hb_safetyWord h AND NOT (HOLD_BIT OR PAUSE_BIT) \<rparr>)
        else if op = 7 then Some (h \<lparr> hb_safetyModes := hb_safetyModes h OR OVERRIDE_BIT \<rparr>)
        else if op = 8 then Some (h \<lparr> hb_safetyModes := hb_safetyModes h AND NOT OVERRIDE_BIT \<rparr>)
        else if op = 9 then Some (h \<lparr> hb_safetyModes := hb_safetyModes h OR BYPASS_BIT \<rparr>)
        else if op = 10 then Some (h \<lparr> hb_safetyModes := hb_safetyModes h AND NOT BYPASS_BIT \<rparr>)
        else None)"

definition applySafetyOpLatch :: "u8 \<Rightarrow> u32 \<Rightarrow> (('t, 'd, 'r) Hub, bool) state" where
  "applySafetyOpLatch op sessionId = act (\<lambda>h.
    case safetyOpLatch op sessionId h of
      None \<Rightarrow> (False, h)
    | Some h' \<Rightarrow> (hb_safetyWord h' \<noteq> hb_safetyWord h \<or> hb_safetyModes h' \<noteq> hb_safetyModes h \<or>
                   hb_safetyCause h' \<noteq> hb_safetyCause h \<or> hb_safetyOwnerSession h' \<noteq> hb_safetyOwnerSession h, h'))"

definition clearEstop :: "('t, 'd, 'r) HubEnv \<Rightarrow> (('t, 'd, 'r) Hub, bool) state" where
  "clearEstop E = do {
    before \<leftarrow> gets hb_safetyWord;
    if before AND ESTOP_BIT = 0 then return False
    else do {
      may \<leftarrow> app_ask (env_canClearEstop E);
      if \<not> may then return False
      else do {
        modify (\<lambda>h. h \<lparr> hb_safetyWord := hb_safetyWord h AND NOT ESTOP_BIT \<rparr>);
        publishSafetySnapshot;
        now \<leftarrow> clockNowMs;
        broadcastSafetyNow E now;
        emitSafetyEdgeEvents E before now;
        return True } } }"

end
