(* ===== verification/Hub_Pairing.thy ===== *)
theory Hub_Pairing
  imports Hub_Safety
begin

text \<open>
  The trust plane of the hub: the trust observation at a handshake, token proofs (AUTH), pairing by PIN, by knock and by
  presence window, the admin surface that approves, denies, revokes and evicts, and the signing jobs.
\<close>

section \<open>Definitions: windows and the tripwire\<close>

definition pairing_do :: "(PairingManager \<Rightarrow> 'a \<times> PairingManager) \<Rightarrow> (('t, 'd, 'r) Hub, 'a) state" where
  "pairing_do f = act (\<lambda>h. let (a, m) = f (hb_pairing h) in (a, h \<lparr> hb_pairing := m \<rparr>))"

definition pairing_set :: "(PairingManager \<Rightarrow> PairingManager) \<Rightarrow> (('t, 'd, 'r) Hub, unit) state" where
  "pairing_set f = modify (\<lambda>h. h \<lparr> hb_pairing := f (hb_pairing h) \<rparr>)"

definition openPairingWindow :: "bytes \<Rightarrow> (('t, 'd, 'r) Hub, unit) state" where
  "openPairingWindow pin = do { now \<leftarrow> clockNowMs; pairing_set (openWindow pin now) }"

definition closePairingWindow :: "(('t, 'd, 'r) Hub, unit) state" where
  "closePairingWindow = pairing_set closeWindow"

definition hub_openPresenceWindow :: "('t, 'd, 'r) HubEnv \<Rightarrow> (('t, 'd, 'r) Hub, unit) state" where
  "hub_openPresenceWindow E = do {
    now \<leftarrow> clockNowMs;
    m \<leftarrow> gets hb_pairing;
    if presenceWindowOpen now m then skip
    else do {
      pairing_set (openPresenceWindow now);
      modify (\<lambda>h. h \<lparr> hb_presenceWasOpen := True \<rparr>);
      m \<leftarrow> gets hb_pairing;
      emitPairingEvent E pev_window_opened [] [] mode_push_to_pair (presenceGrantRole m) [] now;
      publishPendingPairingState E now } }"

definition hub_closePresenceWindow :: "('t, 'd, 'r) HubEnv \<Rightarrow> (('t, 'd, 'r) Hub, unit) state" where
  "hub_closePresenceWindow E = do {
    now \<leftarrow> clockNowMs;
    m \<leftarrow> gets hb_pairing;
    if \<not> presenceWindowOpen now m then skip
    else do {
      pairing_set closePresenceWindow;
      modify (\<lambda>h. h \<lparr> hb_presenceWasOpen := False \<rparr>);
      emitPairingEvent E pev_window_closed [] [] mode_push_to_pair watch [] now;
      publishPendingPairingState E now } }"

definition pumpPairing :: "('t, 'd, 'r) HubEnv \<Rightarrow> u32 \<Rightarrow> (('t, 'd, 'r) Hub, unit) state" where
  "pumpPairing E now = do {
    expired \<leftarrow> pairing_do (\<lambda>m. let (ks, p) = pp_expire now (pm_pending m) in (ks, m \<lparr> pm_pending := p \<rparr>));
    for_each expired (\<lambda>k. emitPairingEvent E pev_expired (pk_instance_id k) (pk_name k) (pk_mode k) watch [] now);
    openNow \<leftarrow> gets (\<lambda>h. presenceWindowOpen now (hb_pairing h));
    wasOpen \<leftarrow> gets hb_presenceWasOpen;
    whenever (wasOpen \<and> \<not> openNow) (do {
      modify (\<lambda>h. h \<lparr> hb_presenceWasOpen := False \<rparr>);
      emitPairingEvent E pev_window_closed [] [] mode_push_to_pair watch [] now });
    whenever (\<not> wasOpen \<and> openNow) (modify (\<lambda>h. h \<lparr> hb_presenceWasOpen := True \<rparr>));
    whenever (expired \<noteq> [] \<or> wasOpen \<and> \<not> openNow) (publishPendingPairingState E now) }"

text \<open>Set the identity strings of a pending knock that \<^verbatim>\<open>add\<close> returned.\<close>

definition label_knock :: "nat \<Rightarrow> (PendingKnock \<Rightarrow> PendingKnock) \<Rightarrow> (('t, 'd, 'r) Hub, unit) state" where
  "label_knock k f = pairing_set (\<lambda>m. m \<lparr> pm_pending := (pm_pending m)[k := f (pm_pending m ! k)] \<rparr>)"

definition addKnock :: "bytes \<Rightarrow> u32 \<Rightarrow> u32 \<Rightarrow> u8 \<Rightarrow> (('t, 'd, 'r) Hub, nat option) state" where
  "addKnock inst session_id expires mode = pairing_do (\<lambda>m.
    let (k, p) = pp_add inst session_id expires mode (pm_pending m) in (k, m \<lparr> pm_pending := p \<rparr>))"

definition removeKnock :: "bytes \<Rightarrow> (('t, 'd, 'r) Hub, unit) state" where
  "removeKnock inst = pairing_set (\<lambda>m. m \<lparr> pm_pending := snd (pp_remove inst (pm_pending m)) \<rparr>)"

definition applyTrustObservation :: "('t, 'd, 'r) HubEnv \<Rightarrow> nat \<Rightarrow> u32 \<Rightarrow> (('t, 'd, 'r) Hub, AccessLevel) state" where
  "applyTrustObservation E i now = do {
    s \<leftarrow> gets (session_of i);
    obs \<leftarrow> pairing_do (observeHello (hs_instance_id s) (hs_clientKind s) (hs_clientName s) (hs_clientVer s)
             (hs_hasClientVer s) (hs_presentationMode s));
    if \<not> ho_known obs then return (hs_role s)
    else do {
      whenever (ho_suspended obs) (do {
        k \<leftarrow> addKnock (hs_instance_id s) (hs_session_id s) (now + pairing_window_ms) mode_knock_approve;
        (case k of
           None \<Rightarrow> skip
         | Some k \<Rightarrow> label_knock k (\<lambda>p. p \<lparr> pk_reapproval := True, pk_kind := bs_assign kLedgerKindMaxBytes (hs_clientKind s),
             pk_name := bs_assign kLedgerNameMaxBytes (hs_clientName s),
             pk_version := bs_assign kLedgerVersionMaxBytes (hs_clientVer s) \<rparr>));
        emitPairingEvent E pev_recognized_pending (hs_instance_id s) (hs_clientName s) mode_knock_approve
          (ho_suspendedRole obs) (hs_clientVer s) now;
        publishPendingPairingState E now;
        publishPairedRosterState E });
      return (ho_effectiveRole obs) } }"

section \<open>Definitions: proofs and signatures\<close>

abbreviation (input) auth_attempts_max :: u8 where "auth_attempts_max \<equiv> 3"
abbreviation (input) presentation_proof :: u8 where "presentation_proof \<equiv> 1"

definition handleAuth :: "('t, 'd, 'r) HubEnv \<Rightarrow> nat \<Rightarrow> bytes \<Rightarrow> u32 \<Rightarrow> (('t, 'd, 'r) Hub, unit) state" where
  "handleAuth E i payload now = do {
    sl \<leftarrow> gets (slot_of i);
    if sl_authFailures sl \<ge> auth_attempts_max then skip
    else case (case decodeAuth payload of
                 Inl e \<Rightarrow> None
               | Inr m \<Rightarrow> map_option (Pair (te_trust_map m)) (tm_token_proof (te_trust_map m))) of
      None \<Rightarrow> sendNack E i (nack NK_MALFORMED)
    | Some (t, token_proof) \<Rightarrow> do {
        upd_session i (\<lambda>s. s \<lparr> hs_presentationMode :=
          (case tm_presentation_mode t of None \<Rightarrow> presentation_proof | Some p \<Rightarrow> p) \<rparr>);
        m \<leftarrow> gets hb_pairing;
        let (proved, proofOk) = validateProof (env_crypto E) (hs_instance_id (sl_session sl)) token_proof (sl_nonce sl) m;
        if \<not> proofOk then do {
          upd_slot i (\<lambda>s. s \<lparr> sl_authFailures := sl_authFailures s + 1 \<rparr>);
          sendNack E i (nack NK_UNAUTHORIZED);
          fails \<leftarrow> gets (\<lambda>h. sl_authFailures (slot_of i h));
          whenever (fails \<ge> auth_attempts_max) (do {
            let gbuf = encodeGoodbye (GoodbyeMsg_new \<lparr> gb_code := NK_UNAUTHORIZED \<rparr>) 64;
            whenever (gbuf \<noteq> []) (do { _ \<leftarrow> sendSlot E i FT_GOODBYE 0 gbuf 0; skip });
            teardownSession E i now }) }
        else do {
          upd_slot i (\<lambda>s. s \<lparr> sl_authFailures := 0 \<rparr>);
          upd_session i (\<lambda>s. s \<lparr> hs_role := proved \<rparr>);
          role \<leftarrow> applyTrustObservation E i now;
          upd_session i (\<lambda>s. s \<lparr> hs_role := role \<rparr>);
          let gbuf = encodeGrant (GrantMsg_new \<lparr> gm_roles := Some (role_u8 role) \<rparr>) 64;
          whenever (gbuf \<noteq> []) (do { _ \<leftarrow> sendSlot E i FT_GRANT 0 gbuf 0; skip });
          publishPairedRosterState E } } }"

text \<open>Returns whether a sign job is to be armed after the WELCOME, and the WELCOME with an inline signature in it.\<close>

definition armWelcomeSignature ::
  "('t, 'd, 'r) HubEnv \<Rightarrow> nat \<Rightarrow> WelcomeMsg \<Rightarrow> (('t, 'd, 'r) Hub, bool \<times> WelcomeMsg) state" where
  "armWelcomeSignature E i w = do {
    sl \<leftarrow> gets (slot_of i);
    h \<leftarrow> gets id;
    if \<not> (sl_sigRequested sl \<and> sl_hasClientNonce sl) then return (False, w)
    else if \<not> hb_inlineSigning h then return (True, w)
    else do {
      let sig = env_signP256 E (hubSigMaterial (sl_clientNonce sl) (hs_session_id (sl_session sl)) (hb_bootId h));
      if length sig > 0 \<and> length sig \<le> kTrustSigMaxBytes then do {
        upd_slot i (\<lambda>s. s \<lparr> sl_signDelivered := True \<rparr>);
        return (False, w \<lparr> wm_trust := Some ((case wm_trust w of None \<Rightarrow> TrustMap_new | Some t \<Rightarrow> t)
          \<lparr> tm_welcome_sig := Some sig \<rparr>) \<rparr>) }
      else return (False, w) } }"

definition emitHubSig :: "('t, 'd, 'r) HubEnv \<Rightarrow> nat \<Rightarrow> bytes \<Rightarrow> (('t, 'd, 'r) Hub, unit) state" where
  "emitHubSig E i sig = do {
    let buf = encodeHubSig \<lparr> te_trust_map = TrustMap_new \<lparr> tm_welcome_sig := Some sig \<rparr> \<rparr> 128;
    whenever (buf \<noteq> []) (do { _ \<leftarrow> sendSlot E i FT_HUB_SIG 0 buf 0; skip }) }"

definition pendingSignJobs :: "('t, 'd, 'r) Hub \<Rightarrow> nat" where
  "pendingSignJobs h = length (filter sl_signPending (hb_slots h))"

text \<open>A job is the session and the message to sign.\<close>

definition takePendingSignJob :: "(('t, 'd, 'r) Hub, (u32 \<times> bytes) option) state" where
  "takePendingSignJob = do {
    h \<leftarrow> gets id;
    case find_index sl_signPending (hb_slots h) of
      None \<Rightarrow> return None
    | Some i \<Rightarrow> do {
        upd_slot i (\<lambda>s. s \<lparr> sl_signPending := False \<rparr>);
        return (Some (hs_session_id (session_of i h),
          hubSigMaterial (sl_clientNonce (slot_of i h)) (hs_session_id (session_of i h)) (hb_bootId h))) } }"

definition submitSignature :: "('t, 'd, 'r) HubEnv \<Rightarrow> u32 \<Rightarrow> bytes \<Rightarrow> (('t, 'd, 'r) Hub, bool) state" where
  "submitSignature E session_id sig =
    (if session_id = 0 \<or> sig = [] \<or> length sig > kTrustSigMaxBytes then return False
     else do {
       h \<leftarrow> gets id;
       case findSlotBySession session_id h of
         None \<Rightarrow> return False
       | Some i \<Rightarrow>
           if sl_signDelivered (slot_of i h) then return False
           else if sl_transport (slot_of i h) = None then return False
           else do {
             emitHubSig E i sig;
             upd_slot i (\<lambda>s. s \<lparr> sl_signDelivered := True \<rparr>);
             return True } })"

text \<open>\<^verbatim>\<open>while (done < maxJobs && takePendingSignJob(job))\<close>: every round takes one pending job, so the number of slots
  bounds the rounds; \<open>fuel\<close> is one more than that.\<close>

primrec signPending_loop :: "('t, 'd, 'r) HubEnv \<Rightarrow> nat \<Rightarrow> nat \<Rightarrow> nat \<Rightarrow> (('t, 'd, 'r) Hub, nat) state" where
  "signPending_loop E 0 maxJobs n = return n"
| "signPending_loop E (Suc fuel) maxJobs n =
    (if n \<ge> maxJobs then return n
     else do {
       job \<leftarrow> takePendingSignJob;
       case job of
         None \<Rightarrow> return n
       | Some (session_id, message) \<Rightarrow> do {
           let sig = env_signP256 E message;
           if sig = [] \<or> length sig > kTrustSigMaxBytes then signPending_loop E fuel maxJobs n
           else do {
             ok \<leftarrow> submitSignature E session_id sig;
             signPending_loop E fuel maxJobs (if ok then n + 1 else n) } } })"

definition signPendingNow :: "('t, 'd, 'r) HubEnv \<Rightarrow> nat \<Rightarrow> (('t, 'd, 'r) Hub, nat) state" where
  "signPendingNow E maxJobs = signPending_loop E (Suc kSlotCapacity) maxJobs 0"

section \<open>Definitions: pairing\<close>

text \<open>The ledger entry of a device that has just been granted takes the identity of its session.\<close>

definition describeEntry :: "HubSession \<Rightarrow> PairedEntry \<Rightarrow> PairedEntry" where
  "describeEntry s e = (e \<lparr> pe_kind := bs_assign kLedgerKindMaxBytes (hs_clientKind s),
     pe_name := bs_assign kLedgerNameMaxBytes (hs_clientName s),
     pe_version := (if hs_hasClientVer s then bs_assign kLedgerVersionMaxBytes (hs_clientVer s) else pe_version e),
     pe_presentationMode := hs_presentationMode s \<rparr>)"

definition pairGrantFor :: "('t, 'd, 'r) HubEnv \<Rightarrow> bytes \<Rightarrow> AccessLevel \<Rightarrow> PairGrantMsg" where
  "pairGrantFor E token role =
    (let g = PairGrantMsg_new \<lparr> pg_token := token, pg_roles := role_u8 role \<rparr>;
         pk = env_publicKey E
     in if length pk > 0 \<and> length pk \<le> kTrustPubkeyMaxBytes
        then g \<lparr> pg_trust := Some (TrustMap_new \<lparr> tm_hub_pubkey := Some pk \<rparr>) \<rparr> else g)"

text \<open>A fresh token is only drawn when a grant is made.\<close>

definition issuePairGrant ::
  "('t, 'd, 'r) HubEnv \<Rightarrow> nat \<Rightarrow> bytes \<Rightarrow> AccessLevel \<Rightarrow> u8 \<Rightarrow> u32 \<Rightarrow> (('t, 'd, 'r) Hub, bool) state" where
  "issuePairGrant E i inst role mode now = do {
    h \<leftarrow> gets id;
    let (fresh, r) = env_fill E token_bytes (hb_rng h);
    case pm_grant inst role mode fresh (hb_pairing h) of
      (None, m) \<Rightarrow> return False
    | (Some k, m) \<Rightarrow> do {
        let s = session_of i h;
        modify (\<lambda>h. h \<lparr> hb_rng := r, hb_pairing := setEntry k (describeEntry s (pm_entries m ! k)) m \<rparr>);
        let buf = encodePairGrant (pairGrantFor E fresh role) 96;
        if buf = [] then return False
        else do {
          _ \<leftarrow> sendSlot E i FT_PAIR_GRANT 0 buf 0;
          upd_session i (\<lambda>s. s \<lparr> hs_role := role \<rparr>);
          removeKnock inst;
          emitPairingEvent E pev_granted inst (hs_clientName s) mode role (hs_clientVer s) now;
          publishPendingPairingState E now;
          publishPairedRosterState E;
          return True } } }"

definition handleKnock :: "('t, 'd, 'r) HubEnv \<Rightarrow> nat \<Rightarrow> PairReqMsg \<Rightarrow> u32 \<Rightarrow> (('t, 'd, 'r) Hub, unit) state" where
  "handleKnock E i m now = do {
    let inst = pr_instance_id m;
    s \<leftarrow> gets (session_of i);
    if hs_instance_id s \<noteq> inst then sendNackTracked E i (nack NK_PAIRING_DENIED) now
    else do {
      pm \<leftarrow> gets hb_pairing;
      if presenceWindowOpen now pm then do {
        let role = presenceGrantRole pm;
        pairing_set closePresenceWindow;
        modify (\<lambda>h. h \<lparr> hb_presenceWasOpen := False \<rparr>);
        ok \<leftarrow> issuePairGrant E i inst role mode_push_to_pair now;
        if \<not> ok then sendNackTracked E i (nack NK_PAIRING_DENIED) now
        else do {
          emitPairingEvent E pev_window_closed [] [] mode_push_to_pair watch [] now;
          publishPendingPairingState E now } }
      else if \<not> pm_knockApproveEnabled pm then sendNackTracked E i (nack NK_PAIRING_REQUIRED) now
      else do {
        k \<leftarrow> addKnock inst (hs_session_id s) (now + pairing_window_ms) mode_knock_approve;
        case k of
          None \<Rightarrow> sendNackTracked E i ((nack NK_BUSY) \<lparr> nk_retry_after_ms := Some pairing_window_ms \<rparr>) now
        | Some k \<Rightarrow> do {
            label_knock k (\<lambda>p. p \<lparr> pk_kind := bs_assign kLedgerKindMaxBytes (hs_clientKind s),
              pk_name := bs_assign kLedgerNameMaxBytes (hs_clientName s),
              pk_version := (if hs_hasClientVer s then bs_assign kLedgerVersionMaxBytes (hs_clientVer s) else pk_version p) \<rparr>);
            p \<leftarrow> gets (\<lambda>h. pm_pending (hb_pairing h) ! k);
            emitPairingEvent E pev_knocked inst (pk_name p) (pk_mode p) watch (pk_version p) now;
            publishPendingPairingState E now } } } }"

definition hub_handlePairReq :: "('t, 'd, 'r) HubEnv \<Rightarrow> nat \<Rightarrow> bytes \<Rightarrow> u32 \<Rightarrow> (('t, 'd, 'r) Hub, unit) state" where
  "hub_handlePairReq E i payload now =
    (case decodePairReq payload of
       Inl e \<Rightarrow> sendNack E i (nack NK_MALFORMED)
     | Inr m \<Rightarrow>
         (case pr_pin_proof m of
            None \<Rightarrow> handleKnock E i m now
          | Some pin_proof \<Rightarrow> do {
              h \<leftarrow> gets id;
              let s = session_of i h;
              let (fresh, r) = env_fill E token_bytes (hb_rng h);
              let (outcome, pm) = handlePairReq (env_crypto E) (pr_instance_id m) pin_proof (sl_nonce (slot_of i h)) fresh now
                                    control (hb_pairing h);
              modify (\<lambda>h. h \<lparr> hb_pairing := pm \<rparr>);
              case outcome of
                Granted \<Rightarrow> do {
                  modify (\<lambda>h. h \<lparr> hb_rng := r \<rparr>);
                  let buf = encodePairGrant (pairGrantFor E fresh control) 96;
                  whenever (buf \<noteq> []) (do { _ \<leftarrow> sendSlot E i FT_PAIR_GRANT 0 buf 0; skip });
                  (case findByInstance (pr_instance_id m) pm of
                     None \<Rightarrow> skip
                   | Some k \<Rightarrow> pairing_set (\<lambda>pm. setEntry k (describeEntry s (pm_entries pm ! k)) pm));
                  upd_session i (\<lambda>s. s \<lparr> hs_role := control \<rparr>);
                  emitPairingEvent E pev_granted (pr_instance_id m) (hs_clientName s) mode_pin_proof control (hs_clientVer s) now;
                  publishPairedRosterState E }
              | Denied \<Rightarrow> sendNack E i (nack NK_PAIRING_DENIED)
              | WindowClosed \<Rightarrow> sendNack E i (nack NK_PAIRING_REQUIRED) }))"

section \<open>Definitions: the admin surface\<close>

record AdminRequest =
  ad_op :: "u64 option"
  ad_session :: u32
  ad_instance :: bytes
  ad_role :: "u64 option"

definition adminField :: "AdminRequest \<Rightarrow> IntentValueField \<Rightarrow> AdminRequest" where
  "adminField a f =
    (case ivf_value f of
       IV_U64 v \<Rightarrow>
         if ivf_key f = 1 then a \<lparr> ad_op := Some v \<rparr>
         else if ivf_key f = 2 then a \<lparr> ad_session := ucast v \<rparr>
         else if ivf_key f = 4 then a \<lparr> ad_role := Some v \<rparr>
         else a
     | IV_Bstr b \<Rightarrow> if ivf_key f = 3 then a \<lparr> ad_instance := b \<rparr> else a
     | _ \<Rightarrow> a)"

definition adminRequest :: "IntentValueField list \<Rightarrow> AdminRequest" where
  "adminRequest fs = foldl adminField \<lparr> ad_op = None, ad_session = 0, ad_instance = [], ad_role = None \<rparr> fs"

definition storeEcho :: "nat \<Rightarrow> u16 \<Rightarrow> bytes \<Rightarrow> (('t, 'd, 'r) Hub, unit) state" where
  "storeEcho i intent_id echo = upd_session i (\<lambda>s. s \<lparr> hs_intentRing :=
     snd (ir_store kIntentDepth kIntentSlotBytes intent_id echo (hs_intentRing s)) \<rparr>)"

text \<open>Encode an ECHO into a buffer of the given size, remember it under the intent id and send it.\<close>

definition echoIntent :: "('t, 'd, 'r) HubEnv \<Rightarrow> nat \<Rightarrow> IntentMsg \<Rightarrow> IntentValueField list \<Rightarrow> nat \<Rightarrow> u32 \<Rightarrow> (('t, 'd, 'r) Hub, unit) state" where
  "echoIntent E i m applied cap now = do {
    gen \<leftarrow> gets hb_cfgGen;
    let echo = encodeEcho \<lparr> ec_intent_id = im_intent_id m, ec_cfg_gen = gen, ec_applied = applied \<rparr> cap;
    if echo = [] then skip
    else do {
      storeEcho i (im_intent_id m) echo;
      _ \<leftarrow> sendFrameToTracked E i FT_ECHO (im_channel_id m) echo now 0;
      skip } }"

definition AccessLevel_of_u8 :: "u64 \<Rightarrow> AccessLevel" where
  "AccessLevel_of_u8 v = (if v = 0 then watch else if v = 1 then control else configure)"

definition handleAdminIntent :: "('t, 'd, 'r) HubEnv \<Rightarrow> nat \<Rightarrow> IntentMsg \<Rightarrow> u32 \<Rightarrow> (('t, 'd, 'r) Hub, unit) state" where
  "handleAdminIntent E i m now =
    (let refuse = (\<lambda>code. sendNackTracked E i ((nack code) \<lparr> nk_channel_id := Some (im_channel_id m),
                            nk_intent_id := Some (im_intent_id m) \<rparr>) now);
         a = adminRequest (im_value m);
         inst = ad_instance a;
         echoOk = (\<lambda>op. echoIntent E i m [u64_field 1 op] 64 now)
     in case ad_op a of
       None \<Rightarrow> refuse NK_INVALID_VALUE
     | Some op \<Rightarrow>
         if op = 1 then do {
           victim \<leftarrow> gets (findSlotBySession (ad_session a));
           case victim of
             None \<Rightarrow> refuse NK_INVALID_VALUE
           | Some v \<Rightarrow> do {
               echoOk op;
               goodbyeTo E v NK_SESSION_EVICTED;
               teardownSession E v now } }
         else if op = 2 then
           (if length inst \<noteq> instance_bytes then refuse NK_INVALID_VALUE
            else if (case ad_role a of None \<Rightarrow> 1 | Some r \<Rightarrow> r) > 2 then refuse NK_INVALID_VALUE
            else do {
              let role = (case ad_role a of None \<Rightarrow> control | Some r \<Rightarrow> AccessLevel_of_u8 r);
              s \<leftarrow> gets (session_of i);
              if role_u8 role > role_u8 (hs_role s) then refuse NK_ACCESS_DENIED
              else do {
                h \<leftarrow> gets id;
                case pp_find inst (pm_pending (hb_pairing h)) of
                  None \<Rightarrow> refuse NK_INVALID_VALUE
                | Some k \<Rightarrow> do {
                    let p = pm_pending (hb_pairing h) ! k;
                    case (case findSlotBySession (pk_session_id p) h of
                            None \<Rightarrow> None
                          | Some j \<Rightarrow> if sl_transport (slot_of j h) = None then None else Some j) of
                      None \<Rightarrow> do {
                        removeKnock inst;
                        emitPairingEvent E pev_expired (pk_instance_id p) [] (pk_mode p) watch [] now;
                        publishPendingPairingState E now;
                        refuse NK_INVALID_VALUE }
                    | Some j \<Rightarrow> do {
                        ok \<leftarrow> issuePairGrant E j inst role (pk_mode p) now;
                        if \<not> ok then refuse NK_BUSY else echoOk op } } } })
         else if op = 3 then
           (if length inst \<noteq> instance_bytes then refuse NK_INVALID_VALUE
            else do {
              h \<leftarrow> gets id;
              case pp_find inst (pm_pending (hb_pairing h)) of
                None \<Rightarrow> refuse NK_INVALID_VALUE
              | Some k \<Rightarrow> do {
                  let p = pm_pending (hb_pairing h) ! k;
                  removeKnock inst;
                  whenever (pk_reapproval p) (do {
                    pairing_set (\<lambda>pm. snd (revoke (pk_instance_id p) pm));
                    emitPairingEvent E pev_revoked (pk_instance_id p) [] (pk_mode p) watch [] now;
                    publishPairedRosterState E });
                  emitPairingEvent E pev_denied (pk_instance_id p) [] (pk_mode p) watch [] now;
                  publishPendingPairingState E now;
                  echoOk op } })
         else if op = 4 then
           (if length inst \<noteq> instance_bytes then refuse NK_INVALID_VALUE
            else do {
              known \<leftarrow> pairing_do (revoke inst);
              if \<not> known then refuse NK_INVALID_VALUE
              else do {
                removeKnock inst;
                emitPairingEvent E pev_revoked inst [] 0 watch [] now;
                publishPairedRosterState E;
                publishPendingPairingState E now;
                echoOk op } })
         else refuse NK_UNSUPPORTED_OP)"

end
