(* ===== verification/Hub_Session.thy ===== *)
theory Hub_Session
  imports Hub_Pairing
begin

text \<open>
  Sessions of the hub: HELLO with admission, duplicate and stale sessions, WELCOME, SUBSCRIBE, UNSUBSCRIBE, PUBLISH and
  CATALOG_READY. The construction of the WELCOME that \<^verbatim>\<open>handleHello\<close> and \<^verbatim>\<open>handleReattach\<close> both
  spell out is \<open>sendWelcome\<close>.
\<close>

section \<open>Definitions: grants\<close>

primrec priority_u8 :: "Priority \<Rightarrow> u8" where
  "priority_u8 background = 0"
| "priority_u8 normal = 1"
| "priority_u8 elevated = 2"
| "priority_u8 critical = 3"

text \<open>\<^verbatim>\<open>(maxRateHz <= 0) ? 0 : std::min(wish, maxRateHz)\<close>.\<close>

definition boundedRate :: "u32 \<Rightarrow> u32 \<Rightarrow> u32" where
  "boundedRate maxRate wish = (if f32_le maxRate 0 then 0 else f32_min wish maxRate)"

definition grantedRateFor :: "u32 \<Rightarrow> u32 \<Rightarrow> u32" where
  "grantedRateFor maxRate wish = (let r = boundedRate maxRate wish in if f32_lt r 0 then 0 else r)"

definition replayEventsOnGrant :: "('t, 'd, 'r) HubEnv \<Rightarrow> nat \<Rightarrow> u16 \<Rightarrow> (('t, 'd, 'r) Hub, unit) state" where
  "replayEventsOnGrant E i ch =
    (case cat_find ch (env_catalog E) of
       None \<Rightarrow> skip
     | Some entry \<Rightarrow>
         if ce_cls entry \<noteq> CC_EVENT then skip
         else case ce_replayDepth entry of
           None \<Rightarrow> skip
         | Some depth \<Rightarrow>
             if depth = 0 then skip
             else if ch \<noteq> ch_log then skip
             else do {
               ring \<leftarrow> gets hb_logRing;
               for_each (snd (forEachNewest kLogDepth (unat depth) ring)) (\<lambda>bs. queueEvent i ch bs) })"

text \<open>One subscription wish: the code of the refusal, or the grant. The table is full if \<^verbatim>\<open>upsert\<close> fails.\<close>

definition grantWish :: "('t, 'd, 'r) HubEnv \<Rightarrow> nat \<Rightarrow> SubscriptionWish \<Rightarrow> (('t, 'd, 'r) Hub, u16 + Grant) state" where
  "grantWish E i wish =
    (case cat_find (sw_channel_id wish) (env_catalog E) of
       None \<Rightarrow> return (Inl NK_UNKNOWN_CHANNEL)
     | Some entry \<Rightarrow> do {
         s \<leftarrow> gets (session_of i);
         if ce_cls entry = CC_INTENT \<or> ce_cls entry = CC_STORE then return (Inl NK_CLASS_MISMATCH)
         else if role_u8 (hs_role s) < role_u8 (ce_access entry) then return (Inl NK_ACCESS_DENIED)
         else do {
           let rate = grantedRateFor (ce_maxRateHz entry) (sw_rate_hz wish);
           let upsert = st_upsert max_subscriptions_per_session (sw_channel_id wish) rate (ce_defaultPriority entry);
           let ok = fst (upsert (hs_subs s));
           upd_session i (\<lambda>s. s \<lparr> hs_subs := snd (upsert (hs_subs s)) \<rparr>);
           if \<not> ok then return (Inl NK_SUB_LIMIT)
           else do {
             replayEventsOnGrant E i (sw_channel_id wish);
             return (Inr \<lparr> gr_channel_id = sw_channel_id wish, gr_granted_rate_hz = rate,
                           gr_priority = priority_u8 (ce_defaultPriority entry) \<rparr>) } } })"

definition ascii_bytes :: "string \<Rightarrow> bytes" where
  "ascii_bytes s = map of_char s"

definition handleSubscribe :: "('t, 'd, 'r) HubEnv \<Rightarrow> nat \<Rightarrow> bytes \<Rightarrow> (('t, 'd, 'r) Hub, unit) state" where
  "handleSubscribe E i payload =
    (case decodeSubscribe payload of
       Inl e \<Rightarrow> sendNack E i ((nack NK_SUBSCRIBE_REJECTED) \<lparr> nk_detail := Some (ascii_bytes
           (if e = CapacityExceeded then ''too many wishes per frame'' else ''undecodable subscribe'')) \<rparr>)
     | Inr m \<Rightarrow> do {
         grants \<leftarrow> for_acc (sb_subscriptions m) [] (\<lambda>wish grants. do {
           r \<leftarrow> grantWish E i wish;
           case r of
             Inl code \<Rightarrow> do {
               sendNack E i ((nack code) \<lparr> nk_channel_id := Some (sw_channel_id wish) \<rparr>);
               return grants }
           | Inr g \<Rightarrow> return (if length grants < kGrantMsgMaxGrants then grants @ [g] else grants) });
         if grants = [] then skip
         else do {
           let gbuf = encodeGrant (GrantMsg_new \<lparr> gm_grants := grants \<rparr>) 400;
           whenever (gbuf \<noteq> []) (do { _ \<leftarrow> sendSlot E i FT_GRANT 0 gbuf 0; skip }) } })"

definition handleUnsubscribe :: "nat \<Rightarrow> bytes \<Rightarrow> (('t, 'd, 'r) Hub, unit) state" where
  "handleUnsubscribe i payload =
    (case decodeUnsubscribe payload of
       Inl e \<Rightarrow> skip
     | Inr m \<Rightarrow> for_each (us_channel_ids m) (\<lambda>ch. upd_session i (\<lambda>s. s \<lparr> hs_subs := snd (st_remove ch (hs_subs s)) \<rparr>)))"

abbreviation (input) f32_four :: u32 where "f32_four \<equiv> 0x40800000"
abbreviation (input) curve_step :: u8 where "curve_step \<equiv> 3"

definition grantedBurstFor :: "u32 \<Rightarrow> u32 option \<Rightarrow> u32" where
  "grantedBurstFor rate burst =
    (case burst of
       None \<Rightarrow> rate
     | Some b \<Rightarrow>
         let ceiling = f32_mul rate f32_four;
             b = (if \<not> f32_lt 0 b then rate else b);
             b = (if f32_lt b rate then rate else b)
         in if f32_lt ceiling b then ceiling else b)"

definition grantPublishWish :: "('t, 'd, 'r) HubEnv \<Rightarrow> nat \<Rightarrow> PublishWish \<Rightarrow> u32 \<Rightarrow> (('t, 'd, 'r) Hub, GrantedPublish option) state" where
  "grantPublishWish E i wish now =
    (case cat_find (pw_channel_id wish) (env_catalog E) of
       None \<Rightarrow> return None
     | Some entry \<Rightarrow> do {
         s \<leftarrow> gets (session_of i);
         if ce_cls entry \<noteq> CC_STREAM then return None
         else if ce_dir entry \<noteq> c2h then return None
         else if role_u8 (hs_role s) < role_u8 (ce_access entry) then return None
         else do {
           let rate = boundedRate (ce_maxRateHz entry) (pw_rate_hz wish);
           if f32_le rate 0 then return None
           else do {
             let burst = grantedBurstFor rate (pw_burst wish);
             family \<leftarrow> (case pw_curve_family wish of
                None \<Rightarrow> return 0
              | Some f \<Rightarrow> app_ask (env_effectiveCurveFamily E (pw_channel_id wish) (if f \<le> curve_step then f else 0)));
             let add = addPublishGrant (env_floatUndef E) (pw_channel_id wish) rate now burst (pw_burst wish \<noteq> None) family;
             if \<not> fst (add s) then return None
             else do {
               upd_session i (\<lambda>s. snd (add s));
               return (Some \<lparr> gp_channel_id = pw_channel_id wish, gp_granted_rate_hz = rate,
                 gp_burst = (if pw_burst wish = None then None else Some burst),
                 gp_curve_family = (if pw_curve_family wish = None then None else Some family),
                 gp_requested_curve_family = pw_curve_family wish \<rparr>) } } } })"

definition grantPublishWishes :: "('t, 'd, 'r) HubEnv \<Rightarrow> nat \<Rightarrow> PublishWish list \<Rightarrow> u32 \<Rightarrow> (('t, 'd, 'r) Hub, GrantedPublish list) state" where
  "grantPublishWishes E i wishes now = for_acc wishes [] (\<lambda>wish gps. do {
    gp \<leftarrow> grantPublishWish E i wish now;
    return (case gp of
              None \<Rightarrow> gps
            | Some gp \<Rightarrow> if length gps < kWelcomeMaxGrantedPublishes then gps @ [gp] else gps) })"

definition handlePublish :: "('t, 'd, 'r) HubEnv \<Rightarrow> nat \<Rightarrow> bytes \<Rightarrow> u32 \<Rightarrow> (('t, 'd, 'r) Hub, unit) state" where
  "handlePublish E i payload now =
    (case decodePublish payload of
       Inl e \<Rightarrow> sendNackTracked E i (nack NK_MALFORMED) now
     | Inr m \<Rightarrow> do {
         gps \<leftarrow> grantPublishWishes E i (pb_publishes m) now;
         let gbuf = encodeGrant (GrantMsg_new \<lparr> gm_granted_publishes := gps \<rparr>) 400;
         whenever (gbuf \<noteq> []) (do { _ \<leftarrow> sendFrameToTracked E i FT_GRANT 0 gbuf now 0; skip }) })"

definition publishCurveFamily :: "u32 \<Rightarrow> u16 \<Rightarrow> ('t, 'd, 'r) Hub \<Rightarrow> u8" where
  "publishCurveFamily session_id ch h =
    (case find (\<lambda>s. occupied (sl_session s) \<and> hs_session_id (sl_session s) = session_id) (hb_slots h) of
       None \<Rightarrow> 0
     | Some s \<Rightarrow>
         (case publishGrantFor ch (sl_session s) of
            None \<Rightarrow> 0
          | Some k \<Rightarrow> pu_curveFamily (hs_publishGrants (sl_session s) ! k)))"

definition handleCatalogReady :: "nat \<Rightarrow> bytes \<Rightarrow> (('t, 'd, 'r) Hub, unit) state" where
  "handleCatalogReady i payload =
    (case decodeCatalogReady payload of
       None \<Rightarrow> skip
     | Some etag \<Rightarrow> do {
         own \<leftarrow> gets hb_etag;
         upd_session i (\<lambda>s. s \<lparr> hs_ready := True, hs_readyEtagMismatch := (etag \<noteq> own) \<rparr>) })"

section \<open>Definitions: the WELCOME\<close>

definition retainedPendingFor :: "('t, 'd, 'r) HubEnv \<Rightarrow> Grant list \<Rightarrow> ('t, 'd, 'r) Hub \<Rightarrow> nat" where
  "retainedPendingFor E grants h =
    length (filter (\<lambda>g. (case cat_find (gr_channel_id g) (env_catalog E) of
                             None \<Rightarrow> False
                           | Some entry \<Rightarrow> ce_cls entry = CC_STATE) \<and> rs_get (gr_channel_id g) (hb_retained h) \<noteq> None) grants)"

definition hubIdentity :: "('t, 'd, 'r) Hub \<Rightarrow> IdentityInfo option" where
  "hubIdentity h =
    (let named = (hb_idProduct h \<noteq> [] \<or> hb_idFwVersion h \<noteq> [] \<or> hb_idHubName h \<noteq> []);
         i0 = (if named then IdentityInfo_new \<lparr> id_product := hb_idProduct h, id_fw_version := hb_idFwVersion h,
                               id_hub_name := hb_idHubName h \<rparr>
               else IdentityInfo_new)
     in if hb_hubInstanceId h \<noteq> 0 then Some (i0 \<lparr> id_hub_instance_id := Some (hb_hubInstanceId h) \<rparr>)
        else if named then Some i0 else None)"

definition maxFrameFor :: "('t, 'd, 'r) HubEnv \<Rightarrow> nat \<Rightarrow> ('t, 'd, 'r) Hub \<Rightarrow> u32" where
  "maxFrameFor E i h =
    (case sl_transport (slot_of i h) of
       None \<Rightarrow> of_nat kFrameBufferCapacity
     | Some t \<Rightarrow> ucast (min (env_mtu E (hb_wire h t)) (of_nat kFrameBufferCapacity)))"

text \<open>Returns whether the WELCOME went out.\<close>

definition sendWelcome :: "('t, 'd, 'r) HubEnv \<Rightarrow> nat \<Rightarrow> Grant list \<Rightarrow> GrantedPublish list \<Rightarrow> u32 \<Rightarrow> (('t, 'd, 'r) Hub, bool) state" where
  "sendWelcome E i grants gps now = do {
    h \<leftarrow> gets id;
    let s = session_of i h;
    nonce \<leftarrow> rng_ask (env_fill E 8);
    upd_slot i (\<lambda>s. s \<lparr> sl_nonce := nonce \<rparr>);
    let offered = offeredModes now (hb_pairing h);
    let w = \<lparr> wm_proto_ver = kProtocolVersion, wm_session_id = hs_session_id s, wm_boot_id = hb_bootId h,
              wm_catalog_etag = hb_etag h, wm_cfg_gen = hb_cfgGen h,
              wm_limits_info = \<lparr> wl_max_frame = maxFrameFor E i h, wl_max_subscriptions = of_nat max_subscriptions_per_session,
                wl_retained_pending = of_nat (retainedPendingFor E grants h),
                wl_max_subscriptions_per_frame = of_nat kSubscribeMaxWishes \<rparr>,
              wm_roles = role_u8 (hs_role s), wm_deadman_ms = hs_deadmanMs s, wm_deadman_policy = 0, wm_nonce = nonce,
              wm_grants = grants, wm_granted_publishes = gps, wm_identity = hubIdentity h, wm_ws_port = hb_wsPort h,
              wm_ipv4 = hb_ipv4 h,
              wm_trust = (if offered \<noteq> 0 then Some (TrustMap_new \<lparr> tm_pairing_modes := Some offered \<rparr>) else None) \<rparr>;
    (arm, w) \<leftarrow> armWelcomeSignature E i w;
    let wbuf = encodeWelcome w 700;
    if wbuf = [] then return False
    else do {
      ok \<leftarrow> sendSlot E i FT_WELCOME 0 wbuf 0;
      whenever (ok \<and> arm) (upd_slot i (\<lambda>s. s \<lparr> sl_signPending := True \<rparr>));
      return ok } }"

section \<open>Definitions: HELLO\<close>

definition hello_trust :: "(TrustMap \<Rightarrow> 'a option) \<Rightarrow> HelloMsg \<Rightarrow> 'a option" where
  "hello_trust f h = (case hl_trust h of None \<Rightarrow> None | Some t \<Rightarrow> f t)"

text \<open>The identity the client declares, and its request for a signature.\<close>

definition noteIdentity :: "HelloMsg \<Rightarrow> HubSession \<Rightarrow> HubSession" where
  "noteIdentity m s = s \<lparr> hs_clientKind := bs_assign kLedgerKindMaxBytes (hl_client_kind m),
     hs_clientName := bs_assign kLedgerNameMaxBytes (hl_client_name m),
     hs_hasClientVer := (hello_trust tm_client_ver m \<noteq> None),
     hs_clientVer := (case hello_trust tm_client_ver m of None \<Rightarrow> hs_clientVer s | Some v \<Rightarrow> bs_assign kLedgerVersionMaxBytes v),
     hs_presentationMode := (case hello_trust tm_presentation_mode m of None \<Rightarrow> 0 | Some p \<Rightarrow> p) \<rparr>"

definition noteSignRequest :: "HelloMsg \<Rightarrow> HubSlot \<Rightarrow> HubSlot" where
  "noteSignRequest m s = s \<lparr> sl_hasClientNonce := (hello_trust tm_client_nonce m \<noteq> None),
     sl_clientNonce := (case hello_trust tm_client_nonce m of None \<Rightarrow> sl_clientNonce s | Some n \<Rightarrow> n),
     sl_sigRequested := (hello_trust tm_sig_request m = Some True) \<rparr>"

definition presentedRole :: "('t, 'd, 'r) HubEnv \<Rightarrow> HelloMsg \<Rightarrow> (('t, 'd, 'r) Hub, AccessLevel) state" where
  "presentedRole E m = do {
    pm \<leftarrow> gets hb_pairing;
    let role = (case hl_token m of None \<Rightarrow> watch | Some token \<Rightarrow> validate (env_crypto E) (hl_instance_id m) token pm);
    if role = watch then
      app_ask (env_validateToken E (hl_instance_id m)
        (case hl_token m of None \<Rightarrow> replicate token_bytes 0 | Some token \<Rightarrow> token) (hl_token m \<noteq> None))
    else return role }"

text \<open>The role a HELLO gets: what its token is worth, after the tripwire has looked at the declared identity.\<close>

definition helloRole :: "('t, 'd, 'r) HubEnv \<Rightarrow> nat \<Rightarrow> HelloMsg \<Rightarrow> AccessLevel \<Rightarrow> u32 \<Rightarrow> (('t, 'd, 'r) Hub, unit) state" where
  "helloRole E i m role now = do {
    role \<leftarrow> (if hl_token m = None then return role
             else do {
               upd_session i (\<lambda>s. s \<lparr> hs_role := role \<rparr>);
               applyTrustObservation E i now });
    h \<leftarrow> gets id;
    upd_session i (\<lambda>s. s \<lparr> hs_role := role, hs_helloSeenCfgGen := hb_cfgGen h,
      hs_clientEtagMatched := (hl_catalog_etag m = Some (hb_etag h)) \<rparr>) }"

definition clampDeadman :: "u32 \<Rightarrow> u32" where
  "clampDeadman wish =
    (if wish > 0 then
       (let d = wish; d = (if d < 250 then 250 else d) in if d > 5000 then 5000 else d)
     else 600)"

definition helloGrants :: "('t, 'd, 'r) HubEnv \<Rightarrow> nat \<Rightarrow> SubscriptionWish list \<Rightarrow> (('t, 'd, 'r) Hub, Grant list) state" where
  "helloGrants E i wishes = for_acc wishes [] (\<lambda>wish grants. do {
    r \<leftarrow> grantWish E i wish;
    return (case r of
              Inl code \<Rightarrow> grants
            | Inr g \<Rightarrow> if length grants < kWelcomeMaxGrants then grants @ [g] else grants) })"

text \<open>The part of \<^verbatim>\<open>handleHello\<close> after admission.\<close>

definition helloOpen :: "('t, 'd, 'r) HubEnv \<Rightarrow> nat \<Rightarrow> HelloMsg \<Rightarrow> u32 \<Rightarrow> (('t, 'd, 'r) Hub, unit) state" where
  "helloOpen E i m now = do {
    teardownSession E i now;
    session_id \<leftarrow> drawNonZero E;
    upd_session i (\<lambda>s. s \<lparr> hs_state := S_VALIDATING, hs_session_id := session_id, hs_instance_id := hl_instance_id m \<rparr>);
    role \<leftarrow> presentedRole E m;
    upd_session i (noteIdentity m);
    upd_slot i (noteSignRequest m);
    helloRole E i m role now;
    upd_session i (\<lambda>s. s \<lparr> hs_ready := hs_clientEtagMatched s, hs_readyEtagMismatch := False, hs_grantedAtMs := now,
      hs_lastRxMs := now, hs_lastTxMs := now \<rparr>);
    grants \<leftarrow> helloGrants E i (hl_subscriptions m);
    gps \<leftarrow> grantPublishWishes E i (hl_publishes m) now;
    upd_session i (\<lambda>s. s \<lparr> hs_deadmanMs := clampDeadman (hl_deadman_wish_ms m) \<rparr>);
    ok \<leftarrow> sendWelcome E i grants gps now;
    whenever ok (do {
      upd_session i (\<lambda>s. s \<lparr> hs_state := S_LIVE \<rparr>);
      app_tell (env_onSessionJoined E session_id) }) }"

definition helloAdmit :: "('t, 'd, 'r) HubEnv \<Rightarrow> nat \<Rightarrow> HelloMsg \<Rightarrow> u32 \<Rightarrow> (('t, 'd, 'r) Hub, unit) state" where
  "helloAdmit E i m now = do {
    n \<leftarrow> gets (occupiedCount (Some i));
    if n \<ge> kHubMaxSessions then do {
      victim \<leftarrow> gets (findEvictableStale (Some i));
      case victim of
        Some v \<Rightarrow> do {
          goodbyeTo E v NK_SLOT_RECLAIMED;
          teardownSession E v now;
          helloOpen E i m now }
      | None \<Rightarrow> sendNack E i ((nack NK_BUSY) \<lparr> nk_retry_after_ms := Some 2000 \<rparr>) }
    else helloOpen E i m now }"

text \<open>A HELLO from the owner of a stale session takes that session over into its own slot.\<close>

definition moveSession :: "('t, 'd, 'r) HubEnv \<Rightarrow> nat \<Rightarrow> nat \<Rightarrow> (('t, 'd, 'r) Hub, unit) state" where
  "moveSession E i j = do {
    old \<leftarrow> gets (slot_of j);
    upd_slot i (\<lambda>s. clearHandshake (s \<lparr> sl_session := sl_session old, sl_pushRecords := sl_pushRecords old,
      sl_conflictNacks := sl_conflictNacks old, sl_congestionLevel := 0, sl_criticalStalling := False,
      sl_lastProbeReport := None \<rparr>));
    closeTransport E j;
    upd_slot j (\<lambda>s. s \<lparr> sl_session := HubSession_new,
      sl_pushRecords := replicate max_subscriptions_per_session PushRecord_new,
      sl_conflictNacks := replicate 4 ConflictNack_new, sl_clientNonce := replicate 8 0, sl_hasClientNonce := False,
      sl_blob := PendingBlob_new \<rparr>) }"

definition carriedGrants :: "HubSession \<Rightarrow> Grant list" where
  "carriedGrants s = take kWelcomeMaxGrants (map (\<lambda>e. \<lparr> gr_channel_id = se_channel_id e,
     gr_granted_rate_hz = se_granted_rate_hz e, gr_priority = priority_u8 (se_priority e) \<rparr>) (hs_subs s))"

definition carriedPublishes :: "HubSession \<Rightarrow> GrantedPublish list" where
  "carriedPublishes s = take kWelcomeMaxGrantedPublishes (map (\<lambda>g. \<lparr> gp_channel_id = pu_channel_id g,
     gp_granted_rate_hz = pu_granted_rate_hz g, gp_burst = (if pu_burstRequested g then Some (pu_granted_burst g) else None),
     gp_curve_family = (if pu_curveFamily g \<noteq> 0 then Some (pu_curveFamily g) else None),
     gp_requested_curve_family = None \<rparr>) (filter pu_used (hs_publishGrants s)))"

definition handleReattach :: "('t, 'd, 'r) HubEnv \<Rightarrow> nat \<Rightarrow> nat \<Rightarrow> HelloMsg \<Rightarrow> u32 \<Rightarrow> (('t, 'd, 'r) Hub, unit) state" where
  "handleReattach E i j m now = do {
    teardownSession E i now;
    moveSession E i j;
    upd_session i (noteIdentity m);
    upd_slot i (noteSignRequest m);
    role \<leftarrow> presentedRole E m;
    helloRole E i m role now;
    upd_session i (\<lambda>s. if hs_clientEtagMatched s then s
      else s \<lparr> hs_ready := False, hs_readyEtagMismatch := (hl_catalog_etag m \<noteq> None), hs_grantedAtMs := now \<rparr>);
    upd_session i (\<lambda>s. s \<lparr> hs_staleSinceMs := 0, hs_lastRxMs := now, hs_lastTxMs := now,
      hs_subs := map (\<lambda>e. e \<lparr> se_everPushed := False \<rparr>) (hs_subs s) \<rparr>);
    s \<leftarrow> gets (session_of i);
    ok \<leftarrow> sendWelcome E i (carriedGrants s) (carriedPublishes s) now;
    whenever ok (do {
      upd_session i (\<lambda>s. s \<lparr> hs_state := S_LIVE \<rparr>);
      emitSessionEvent E session_resumed (hs_session_id s) now }) }"

definition handleHello :: "('t, 'd, 'r) HubEnv \<Rightarrow> nat \<Rightarrow> bytes \<Rightarrow> u32 \<Rightarrow> (('t, 'd, 'r) Hub, unit) state" where
  "handleHello E i payload now =
    (case decodeHello payload of
       Inl e \<Rightarrow> sendNack E i (nack NK_MALFORMED)
     | Inr m \<Rightarrow> do {
         dup \<leftarrow> gets (findSlotByInstance (hl_instance_id m) i);
         case dup of
           None \<Rightarrow> helloAdmit E i m now
         | Some j \<Rightarrow> do {
             s \<leftarrow> gets (session_of j);
             if hs_state s = S_STALE then handleReattach E i j m now
             else do {
               goodbyeTo E j NK_DUPLICATE_INSTANCE;
               teardownSession E j now;
               helloAdmit E i m now } } })"

end
