(* ===== verification/Hub_Dispatch.thy ===== *)
theory Hub_Dispatch
  imports Hub_Session
begin

text \<open>
  The data plane of the hub and its main loop: INTENT with its gates, STREAM ingress, blob transfers, the pacing of retained
  state, the timers (deadman, idle reap, ready timeout), the frame dispatcher and \<^verbatim>\<open>update\<close>. Reading a transport
  until it is empty may go on forever, so \<open>pumpSlot\<close> and \<open>update\<close> are partial: \<open>None\<close> is a call that does not return.
\<close>

section \<open>Definitions: INTENT\<close>

definition raise_to :: "AccessLevel \<Rightarrow> AccessLevel \<Rightarrow> AccessLevel" where
  "raise_to need a = (if role_u8 a > role_u8 need then a else need)"

definition fieldAccess :: "BasicCatalog \<Rightarrow> SchemaField list \<Rightarrow> IntentValueField \<Rightarrow> AccessLevel \<Rightarrow> AccessLevel" where
  "fieldAccess c sfs f need =
    (case find (\<lambda>sf. sf_key sf = ivf_key f) sfs of
       None \<Rightarrow> need
     | Some sf \<Rightarrow>
         let need = (case sf_access sf of None \<Rightarrow> need | Some a \<Rightarrow> raise_to need a) in
         if \<not> sf_hasOptionAccess sf then need
         else case ivf_value f of
           IV_U64 idx \<Rightarrow>
             (let oa = optionAccess c sf in
              if unat idx < length oa then raise_to need (oa ! unat idx) else foldl raise_to need oa)
         | _ \<Rightarrow> need)"

definition requiredAccessFor :: "BasicCatalog \<Rightarrow> CatalogEntry \<Rightarrow> IntentMsg \<Rightarrow> AccessLevel" where
  "requiredAccessFor c entry m =
    (if ce_form entry \<noteq> FF_Schema then ce_access entry
     else foldl (\<lambda>need f. fieldAccess c (schemaFields c entry) f need) (ce_access entry) (im_value m))"

text \<open>The op of a safety intent: the first value under key 1 that is an unsigned integer.\<close>

definition safetyOpOf :: "IntentMsg \<Rightarrow> u64 option" where
  "safetyOpOf m =
    (if im_channel_id m \<noteq> ch_safety_intents then None
     else case find (\<lambda>f. ivf_key f = 1 \<and> (case ivf_value f of IV_U64 v \<Rightarrow> True | _ \<Rightarrow> False)) (im_value m) of
       None \<Rightarrow> None
     | Some f \<Rightarrow> (case ivf_value f of IV_U64 v \<Rightarrow> Some v | _ \<Rightarrow> None))"

definition intentNack :: "u16 \<Rightarrow> IntentMsg \<Rightarrow> NackMsg" where
  "intentNack code m = (nack code) \<lparr> nk_intent_id := Some (im_intent_id m) \<rparr>"

definition channelNack :: "u16 \<Rightarrow> IntentMsg \<Rightarrow> NackMsg" where
  "channelNack code m = (intentNack code m) \<lparr> nk_channel_id := Some (im_channel_id m) \<rparr>"

text \<open>The gates before anything is done: rate, READY, duplicate, channel, class, role, precondition. The result is
  the intent if it passes.\<close>

definition admitIntent :: "('t, 'd, 'r) HubEnv \<Rightarrow> nat \<Rightarrow> IntentMsg \<Rightarrow> u32 \<Rightarrow> (('t, 'd, 'r) Hub, bool) state" where
  "admitIntent E i m now = do {
    ok \<leftarrow> gets (\<lambda>h. fst (rl_allow now (hs_intentLimiter (session_of i h))));
    upd_session i (\<lambda>s. s \<lparr> hs_intentLimiter := snd (rl_allow now (hs_intentLimiter s)) \<rparr>);
    h \<leftarrow> gets id;
    let s = session_of i h;
    if \<not> ok then do { sendNack E i (intentNack NK_RATE_LIMITED m); return False }
    else if \<not> hs_ready s then do { sendNack E i (channelNack NK_NOT_READY m); return False }
    else case ir_lookup (im_intent_id m) (hs_intentRing s) of
      Some cached \<Rightarrow> do {
        _ \<leftarrow> sendFrameToTracked E i FT_ECHO (im_channel_id m) cached now 0;
        return False }
    | None \<Rightarrow>
        (case cat_find (im_channel_id m) (env_catalog E) of
           None \<Rightarrow> do { sendNack E i (channelNack NK_UNKNOWN_CHANNEL m); return False }
         | Some entry \<Rightarrow>
             if ce_cls entry \<noteq> CC_INTENT then do { sendNack E i (channelNack NK_CLASS_MISMATCH m); return False }
             else
               let need = requiredAccessFor (env_catalog E) entry m in
               if role_u8 (hs_role s) < role_u8 need then do {
                 sendNack E i (channelNack (if need = control then NK_NOT_CONTROLLER else NK_ACCESS_DENIED) m);
                 return False }
               else if im_precondition m \<noteq> None \<and> im_precondition m \<noteq> Some (hb_cfgGen h) then do {
                 sendNack E i (intentNack NK_CONFLICT m);
                 return False }
               else return True) }"

text \<open>Acquire the control source of the channel, if it has one. The result is false on a conflict.\<close>

definition acquireFor :: "('t, 'd, 'r) HubEnv \<Rightarrow> nat \<Rightarrow> u8 \<Rightarrow> bool \<Rightarrow> (('t, 'd, 'r) Hub, AcquireResult) state" where
  "acquireFor E i source takeover = do {
    s \<leftarrow> gets (session_of i);
    acq \<leftarrow> act (\<lambda>h. let (r, t) = acquire source (hs_session_id s) (hs_role s) takeover (hb_ownership h)
                      in (r, h \<lparr> hb_ownership := t \<rparr>));
    whenever (acq = Acquired \<or> acq = TakenOver) (do {
      app_tell (env_onSourceOwnership E source (hs_session_id s) (if acq = Acquired then 0 else 1));
      publishControlOwnerStateIfPresent E });
    return acq }"

definition clearStopLatch :: "('t, 'd, 'r) HubEnv \<Rightarrow> u32 \<Rightarrow> (('t, 'd, 'r) Hub, unit) state" where
  "clearStopLatch E now = do {
    before \<leftarrow> gets hb_safetyWord;
    whenever (before AND STOP_BIT \<noteq> 0) (do {
      modify (\<lambda>h. h \<lparr> hb_safetyWord := hb_safetyWord h AND NOT STOP_BIT, hb_safetyOwnerSession := 0 \<rparr>);
      publishSafetySnapshot;
      broadcastSafetyNow E now;
      emitSafetyEdgeEvents E before now }) }"

text \<open>The application applies the intent; then the safety latches follow and the ECHO goes out.\<close>

definition applyAndEcho :: "('t, 'd, 'r) HubEnv \<Rightarrow> nat \<Rightarrow> IntentMsg \<Rightarrow> bool \<Rightarrow> u32 \<Rightarrow> (('t, 'd, 'r) Hub, unit) state" where
  "applyAndEcho E i m mapped now = do {
    s \<leftarrow> gets (session_of i);
    (applied, cfgChanged) \<leftarrow> app_ask (env_applyIntent E (im_channel_id m) (im_value m) (hs_role s));
    case applied of
      Inl code \<Rightarrow> sendNackTracked E i (intentNack code m) now
    | Inr values \<Rightarrow> do {
        whenever cfgChanged (modify (\<lambda>h. h \<lparr> hb_cfgGen := hb_cfgGen h + 1 \<rparr>));
        before \<leftarrow> gets hb_safetyWord;
        (case safetyOpOf m of
           None \<Rightarrow> skip
         | Some op \<Rightarrow> do {
             changed \<leftarrow> applySafetyOpLatch (ucast op) (hs_session_id s);
             whenever changed (do {
               publishSafetySnapshot;
               broadcastSafetyNow E now;
               emitSafetyEdgeEvents E before now }) });
        whenever mapped (clearStopLatch E now);
        echoIntent E i m values 256 now } }"

definition handleIntent :: "('t, 'd, 'r) HubEnv \<Rightarrow> nat \<Rightarrow> bytes \<Rightarrow> u32 \<Rightarrow> (('t, 'd, 'r) Hub, unit) state" where
  "handleIntent E i payload now =
    (case decodeIntent payload of
       Inl e \<Rightarrow> sendNack E i (nack NK_MALFORMED)
     | Inr m \<Rightarrow> do {
         pass \<leftarrow> admitIntent E i m now;
         if \<not> pass then skip
         else if safetyOpOf m = Some op_estop_clear then do {
           s \<leftarrow> gets (session_of i);
           if role_u8 (hs_role s) < role_u8 control then sendNackTracked E i (intentNack NK_NOT_CONTROLLER m) now
           else do {
             cleared \<leftarrow> clearEstop E;
             if \<not> cleared then sendNackTracked E i (intentNack NK_CLEAR_REFUSED m) now
             else echoIntent E i m [] 32 now } }
         else if safetyOpOf m = Some op_estop then do {
           h \<leftarrow> gets id;
           handleEstopFrame E \<lparr> estop_cause = cause_user, estop_origin = role_u8 (hs_role (session_of i h)),
             estop_seq = (if hb_safetyWord h AND ESTOP_BIT \<noteq> 0 then hb_estopSeq h else hb_estopSeq h + 1) \<rparr> now;
           echoIntent E i m [u64_field 1 op_estop] 64 now }
         else if im_channel_id m = ch_session_admin then handleAdminIntent E i m now
         else do {
           mapped \<leftarrow> app_ask (env_sourceForChannel E (im_channel_id m));
           case mapped of
             None \<Rightarrow> applyAndEcho E i m False now
           | Some source \<Rightarrow> do {
               let takeover = (im_takeover m = Some True);
               acq \<leftarrow> acquireFor E i source takeover;
               s \<leftarrow> gets (session_of i);
               if acq = Conflict then
                 sendNackTracked E i (intentNack (if takeover then NK_SOURCE_CONFLICT else NK_TAKEOVER_REQUIRED) m) now
               else do {
                 whenever (acq = TakenOver) (emitTakeoverEvent E source (hs_session_id s) now);
                 applyAndEcho E i m True now } } } })"

section \<open>Definitions: STREAM\<close>

abbreviation (input) overage_nack_interval :: u32 where "overage_nack_interval \<equiv> 200"

definition sendStreamOverageNack :: "('t, 'd, 'r) HubEnv \<Rightarrow> nat \<Rightarrow> nat \<Rightarrow> u16 \<Rightarrow> u32 \<Rightarrow> (('t, 'd, 'r) Hub, unit) state" where
  "sendStreamOverageNack E i k ch now = do {
    pg \<leftarrow> gets (\<lambda>h. hs_publishGrants (session_of i h) ! k);
    if pu_everNackedOverage pg \<and> \<not> timeReached now (pu_lastOverageNackMs pg + overage_nack_interval) then skip
    else do {
      upd_session i (\<lambda>s. s \<lparr> hs_publishGrants := (hs_publishGrants s)[k := (hs_publishGrants s ! k)
        \<lparr> pu_everNackedOverage := True, pu_lastOverageNackMs := now \<rparr>] \<rparr>);
      sendNackTracked E i ((nack NK_RATE_LIMITED) \<lparr> nk_channel_id := Some ch \<rparr>) now } }"

definition sendSourceConflictNack :: "('t, 'd, 'r) HubEnv \<Rightarrow> nat \<Rightarrow> u8 \<Rightarrow> u16 \<Rightarrow> u32 \<Rightarrow> (('t, 'd, 'r) Hub, unit) state" where
  "sendSourceConflictNack E i source ch now = do {
    cs \<leftarrow> gets (\<lambda>h. sl_conflictNacks (slot_of i h));
    case (case find_index (\<lambda>c. cn_used c \<and> cn_source c = source) cs of
            Some k \<Rightarrow> if \<not> timeReached now (cn_lastMs (cs ! k) + overage_nack_interval) then None else Some k
          | None \<Rightarrow> find_index (\<lambda>c. \<not> cn_used c) cs) of
      None \<Rightarrow> skip
    | Some k \<Rightarrow> do {
        upd_slot i (\<lambda>s. s \<lparr> sl_conflictNacks := (sl_conflictNacks s)[k := \<lparr> cn_used = True, cn_source = source,
          cn_lastMs = now \<rparr>] \<rparr>);
        sendNackTracked E i ((nack NK_SOURCE_CONFLICT) \<lparr> nk_channel_id := Some ch \<rparr>) now } }"

definition dropBundle :: "nat \<Rightarrow> (('t, 'd, 'r) Hub, unit) state" where
  "dropBundle i = upd_session i (\<lambda>s. s \<lparr> hs_streamBundlesDropped := hs_streamBundlesDropped s + 1 \<rparr>)"

text \<open>The checks that need no token: READY, a publish grant, the channel, the bundle, the schedule horizon.\<close>

definition checkBundle :: "('t, 'd, 'r) HubEnv \<Rightarrow> nat \<Rightarrow> u16 \<Rightarrow> bytes \<Rightarrow> ('t, 'd, 'r) Hub \<Rightarrow> (nat \<times> BundleView) option" where
  "checkBundle E i ch payload h =
    (if \<not> hs_ready (session_of i h) then None
     else case publishGrantFor ch (session_of i h) of
       None \<Rightarrow> None
     | Some k \<Rightarrow>
         (case cat_find ch (env_catalog E) of
            None \<Rightarrow> None
          | Some entry \<Rightarrow>
              if ce_cls entry \<noteq> CC_STREAM \<or> ce_dir entry \<noteq> c2h then None
              else case BundleView_parse payload (layoutWireSize (env_catalog E) entry) of
                Inl e \<Rightarrow> None
              | Inr bundle \<Rightarrow>
                  if bv_n bundle = 0 then None
                  else if isSegmentClass entry \<and> timeDelta (bv_tBase bundle) (hb_clockUs h) > 250000 then None
                  else Some (k, bundle)))"

definition acceptBundle :: "('t, 'd, 'r) HubEnv \<Rightarrow> nat \<Rightarrow> u16 \<Rightarrow> BundleView \<Rightarrow> (('t, 'd, 'r) Hub, unit) state" where
  "acceptBundle E i ch bundle = do {
    upd_session i (\<lambda>s. s \<lparr> hs_streamBundlesAccepted := hs_streamBundlesAccepted s + 1 \<rparr>);
    s \<leftarrow> gets (session_of i);
    app_tell (env_onStreamBundle E ch (hs_session_id s) bundle) }"

definition handleStream :: "('t, 'd, 'r) HubEnv \<Rightarrow> nat \<Rightarrow> u16 \<Rightarrow> bytes \<Rightarrow> u32 \<Rightarrow> (('t, 'd, 'r) Hub, unit) state" where
  "handleStream E i ch payload now = do {
    checked \<leftarrow> gets (checkBundle E i ch payload);
    case checked of
      None \<Rightarrow> dropBundle i
    | Some (k, bundle) \<Rightarrow> do {
        (ok, limiter) \<leftarrow> gets (\<lambda>h. rl_allowN now (ucast (bv_n bundle)) (pu_limiter (hs_publishGrants (session_of i h) ! k)));
        upd_session i (\<lambda>s. s \<lparr> hs_publishGrants := (hs_publishGrants s)[k := (hs_publishGrants s ! k) \<lparr> pu_limiter := limiter \<rparr>] \<rparr>);
        if \<not> ok then do { dropBundle i; sendStreamOverageNack E i k ch now }
        else do {
          mapped \<leftarrow> app_ask (env_sourceForChannel E ch);
          case mapped of
            None \<Rightarrow> acceptBundle E i ch bundle
          | Some source \<Rightarrow> do {
              acq \<leftarrow> acquireFor E i source False;
              if acq = Conflict then do { dropBundle i; sendSourceConflictNack E i source ch now }
              else do {
                whenever (acq = Acquired) (upd_slot i (\<lambda>s. s \<lparr> sl_conflictNacks :=
                  map (\<lambda>c. if cn_used c \<and> cn_source c = source then c \<lparr> cn_used := False \<rparr> else c) (sl_conflictNacks s) \<rparr>));
                acceptBundle E i ch bundle } } } } }"

section \<open>Definitions: PING, CLOCK, GOODBYE, PROBE\<close>

definition handlePing :: "('t, 'd, 'r) HubEnv \<Rightarrow> nat \<Rightarrow> bytes \<Rightarrow> (('t, 'd, 'r) Hub, unit) state" where
  "handlePing E i payload = do {
    let (n, buf) = encodePong payload (replicate 32 0);
    _ \<leftarrow> sendSlot E i FT_PONG 0 (take n buf) 0;
    skip }"

definition handleClock :: "('t, 'd, 'r) HubEnv \<Rightarrow> nat \<Rightarrow> bytes \<Rightarrow> (('t, 'd, 'r) Hub, unit) state" where
  "handleClock E i payload =
    (case decodeClockRequest payload of
       Inl e \<Rightarrow> skip
     | Inr t0 \<Rightarrow> do {
         t1 \<leftarrow> gets hb_clockUs;
         t2 \<leftarrow> gets hb_clockUs;
         let (n, buf) = encodeClockReply \<lparr> ck_t0 = t0, ck_t1 = t1, ck_t2 = t2 \<rparr> (replicate kClockReplyBytes 0);
         whenever (n \<noteq> 0) (do { _ \<leftarrow> sendSlot E i FT_CLOCK 0 (take n buf) 0; skip }) })"

definition handleGoodbye :: "('t, 'd, 'r) HubEnv \<Rightarrow> nat \<Rightarrow> u32 \<Rightarrow> (('t, 'd, 'r) Hub, unit) state" where
  "handleGoodbye E i now = teardownSession E i now"

definition handleProbeRequest :: "('t, 'd, 'r) HubEnv \<Rightarrow> nat \<Rightarrow> (('t, 'd, 'r) Hub, unit) state" where
  "handleProbeRequest E i = deref i () (\<lambda>t. do {
    mtu \<leftarrow> gets (\<lambda>h. unat (env_mtu E (hb_wire h t)));
    let mtuPayload = (if mtu > kHeaderBytes then mtu - kHeaderBytes else min_transport_payload);
    if mtuPayload = 0 then skip
    else do {
      let frameCount = (8192 + mtuPayload - 1) div mtuPayload;
      for_each [0..<frameCount] (\<lambda>k. do {
        let (n, buf) = encodeProbeFrame (of_nat k) (replicate (min mtuPayload min_transport_payload) 0);
        whenever (n \<noteq> 0) (do { _ \<leftarrow> sendFrameTo E t FT_PROBE 0 (take n buf) 0; skip }) }) } })"

definition handleProbeReportFrame :: "nat \<Rightarrow> bytes \<Rightarrow> (('t, 'd, 'r) Hub, unit) state" where
  "handleProbeReportFrame i payload =
    (case decodeProbeReport payload of
       Inl e \<Rightarrow> skip
     | Inr m \<Rightarrow> upd_slot i (\<lambda>s. s \<lparr> sl_lastProbeReport := Some (pq_probe_result m) \<rparr>))"

section \<open>Definitions: blobs\<close>

text \<open>The channel that declares a store.\<close>

definition storeEntryFor :: "BasicCatalog \<Rightarrow> BlobId \<Rightarrow> CatalogEntry option" where
  "storeEntryFor c id' = find (\<lambda>e. ce_cls e = CC_STORE \<and>
     (case storeDescriptor c e of None \<Rightarrow> False | Some d \<Rightarrow> bi_store_id id' = Some (sd_storeId d))) (bc_entries c)"

text \<open>The bytes of a blob with their generation, or the refusal. The code keeps the generation in the id it
  returns, whether or not the request carried one; here it is set in the id in every case.\<close>

definition resolveBlobBytes :: "('t, 'd, 'r) HubEnv \<Rightarrow> nat \<Rightarrow> BlobId \<Rightarrow> (('t, 'd, 'r) Hub, NackMsg + BlobId \<times> bytes) state" where
  "resolveBlobBytes E i id' = do {
    h \<leftarrow> gets id;
    let finish = (\<lambda>bs gen. if chunkCount (length bs) = 0 then Inl (nack NK_CHUNK_UNAVAILABLE)
                     else Inr (id' \<lparr> bi_generation := Some gen \<rparr>, bs));
    case (if isCatalog id' then None
          else case storeEntryFor (env_catalog E) id' of
            None \<Rightarrow> Some (nack NK_CHUNK_UNAVAILABLE)
          | Some e \<Rightarrow>
              if role_u8 (hs_role (session_of i h)) < role_u8 (ce_access e)
              then Some ((nack NK_ACCESS_DENIED) \<lparr> nk_channel_id := Some (ce_id e) \<rparr>) else None) of
      Some n \<Rightarrow> return (Inl n)
    | None \<Rightarrow>
        if isCatalog id' then return (finish (hb_catalogEncoded h) 0)
        else if hb_pairedStoreId h \<noteq> None \<and> bi_ns id' = 1 \<and> bi_store_id id' = hb_pairedStoreId h then
          (let k = unat (opt0 (bi_slot id')); entries = pm_entries (hb_pairing h) in
           if k \<ge> length entries \<or> \<not> pe_used (entries ! k) then return (Inl (nack NK_CHUNK_UNAVAILABLE))
           else
             let bs = encodeEntry (entries ! k) 256 in
             if bs = [] then return (Inl (nack NK_CHUNK_UNAVAILABLE))
             else return (finish bs (pm_generation (hb_pairing h))))
        else do {
          view \<leftarrow> app_ask (env_readBlob E (bi_ns id') (opt0 (bi_store_id id')) (opt0 (bi_slot id')));
          return (case view of None \<Rightarrow> Inl (nack NK_CHUNK_UNAVAILABLE) | Some (bs, gen) \<Rightarrow> finish bs gen) } }"

definition handleBlobReq :: "('t, 'd, 'r) HubEnv \<Rightarrow> nat \<Rightarrow> bytes \<Rightarrow> (('t, 'd, 'r) Hub, unit) state" where
  "handleBlobReq E i payload =
    (case decodeBlobReq payload of
       Inl e \<Rightarrow> sendNack E i (nack NK_MALFORMED)
     | Inr m \<Rightarrow> do {
         r \<leftarrow> resolveBlobBytes E i (br_blob m);
         case r of
           Inl n \<Rightarrow> sendNack E i n
         | Inr (id', encoded) \<Rightarrow>
             if \<not> br_full m \<and> list_ex (\<lambda>c. unat c \<ge> chunkCount (length encoded)) (br_chunks m)
             then sendNack E i (nack NK_CHUNK_UNAVAILABLE)
             else do {
               ds \<leftarrow> gets hb_dispatchSeq;
               upd_slot i (\<lambda>s. s \<lparr> sl_blob := PendingBlob_new \<lparr> pb_active := True, pb_id := id',
                 pb_totalBytes := of_nat (length encoded), pb_generation := opt0 (bi_generation id'), pb_reqSeq := ds,
                 pb_full := br_full m,
                 pb_count := (if br_full m then 0 else of_nat (length (br_chunks m))),
                 pb_chunks := (if br_full m then replicate kBlobReqMaxChunks 0
                               else poke 0 (br_chunks m) (replicate kBlobReqMaxChunks 0)) \<rparr> \<rparr>) } })"

definition refuseBlob :: "('t, 'd, 'r) HubEnv \<Rightarrow> nat \<Rightarrow> NackMsg \<Rightarrow> (('t, 'd, 'r) Hub, unit) state" where
  "refuseBlob E i n = do {
    pb \<leftarrow> gets (\<lambda>h. sl_blob (slot_of i h));
    sendNack E i (n \<lparr> nk_intent_seq := pb_reqSeq pb \<rparr>);
    upd_slot i (\<lambda>s. s \<lparr> sl_blob := (sl_blob s) \<lparr> pb_active := False \<rparr> \<rparr>) }"

definition pb_next :: "nat \<Rightarrow> PendingBlob \<Rightarrow> u16 option" where
  "pb_next cc pb =
    (if pb_full pb then (if unat (pb_nextIndex pb) \<ge> cc then None else Some (pb_nextIndex pb))
     else if pb_cursor pb \<ge> pb_count pb then None else Some (pb_chunks pb ! unat (pb_cursor pb)))"

definition pb_advance :: "PendingBlob \<Rightarrow> PendingBlob" where
  "pb_advance pb = (if pb_full pb then pb \<lparr> pb_nextIndex := pb_nextIndex pb + 1 \<rparr> else pb \<lparr> pb_cursor := pb_cursor pb + 1 \<rparr>)"

definition finishBlob :: "nat \<Rightarrow> nat \<Rightarrow> (('t, 'd, 'r) Hub, unit) state" where
  "finishBlob i cc = upd_slot i (\<lambda>s. if pb_next cc (sl_blob s) = None
     then s \<lparr> sl_blob := (sl_blob s) \<lparr> pb_active := False \<rparr> \<rparr> else s)"

text \<open>Up to \<open>budget\<close> chunks in one go; a failed send leaves the cursor where it is.\<close>

primrec sendChunks :: "('t, 'd, 'r) HubEnv \<Rightarrow> nat \<Rightarrow> BlobId \<Rightarrow> bytes \<Rightarrow> nat \<Rightarrow> (('t, 'd, 'r) Hub, unit) state" where
  "sendChunks E i id' encoded 0 = finishBlob i (chunkCount (length encoded))"
| "sendChunks E i id' encoded (Suc budget) = do {
    pb \<leftarrow> gets (\<lambda>h. sl_blob (slot_of i h));
    case pb_next (chunkCount (length encoded)) pb of
      None \<Rightarrow> finishBlob i (chunkCount (length encoded))
    | Some idx \<Rightarrow> do {
        let (n, cbuf) = fillBlobChunk id' encoded idx (replicate (kBlobChunkHeaderBytes + catalog_chunk_payload) 0);
        if n = 0 then refuseBlob E i (nack NK_CHUNK_UNAVAILABLE)
        else do {
          ok \<leftarrow> sendSlot E i FT_BLOB_CHUNK ch_catalog (take n cbuf) 0;
          if \<not> ok then skip
          else do {
            upd_slot i (\<lambda>s. s \<lparr> sl_blob := pb_advance (sl_blob s) \<rparr>);
            sendChunks E i id' encoded budget } } } }"

definition pumpBlobTransfer :: "('t, 'd, 'r) HubEnv \<Rightarrow> nat \<Rightarrow> (('t, 'd, 'r) Hub, unit) state" where
  "pumpBlobTransfer E i = do {
    sl \<leftarrow> gets (slot_of i);
    let pb = sl_blob sl;
    if \<not> pb_active pb then skip
    else if sl_transport sl = None \<or> \<not> occupied (sl_session sl)
    then upd_slot i (\<lambda>s. s \<lparr> sl_blob := (sl_blob s) \<lparr> pb_active := False \<rparr> \<rparr>)
    else do {
      r \<leftarrow> resolveBlobBytes E i (pb_id pb);
      case r of
        Inl n \<Rightarrow> refuseBlob E i n
      | Inr (id', encoded) \<Rightarrow>
          if of_nat (length encoded) \<noteq> pb_totalBytes pb \<or> opt0 (bi_generation id') \<noteq> pb_generation pb
          then refuseBlob E i (nack NK_CHUNK_UNAVAILABLE)
          else sendChunks E i id' encoded 2 } }"

end
