(* ===== verification/Hub_Loop.thy ===== *)
theory Hub_Loop
  imports Hub_Dispatch
begin

text \<open>
  The main loop of the hub: the pacing of retained state to a subscriber, the timers, the dispatcher, \<^verbatim>\<open>update\<close>,
  construction, and the calls the application makes. The injected clock is read once per call: \<open>hb_clockUs\<close> is its reading and
  \<open>tick\<close> lets it move between calls.
\<close>

section \<open>Definitions: pacing\<close>

definition pushPeriod :: "('t, 'd, 'r) HubEnv \<Rightarrow> u32 \<Rightarrow> u32" where
  "pushPeriod E rate = f32_to_u32 (env_floatUndef E) (f32_div f32_thousand rate)"

definition bumpShedCounter :: "nat \<Rightarrow> nat \<Rightarrow> (('t, 'd, 'r) Hub, u32) state" where
  "bumpShedCounter i k = do {
    upd_slot i (\<lambda>s. s \<lparr> sl_pushRecords := (sl_pushRecords s)[k := (sl_pushRecords s ! k)
      \<lparr> ph_shedCounter := ph_shedCounter (sl_pushRecords s ! k) + 1 \<rparr>] \<rparr>);
    gets (\<lambda>h. ph_shedCounter (sl_pushRecords (slot_of i h) ! k)) }"

definition transmits :: "nat \<Rightarrow> nat option \<Rightarrow> ShedDecision \<Rightarrow> (('t, 'd, 'r) Hub, bool) state" where
  "transmits i pr decision =
    (if decision = Drop then return False
     else if decision = Send then return True
     else case pr of
       None \<Rightarrow> return True
     | Some k \<Rightarrow> do {
         c \<leftarrow> bumpShedCounter i k;
         return (c mod (if decision = Decimate2x then 2 else 4) = 0) })"

definition paceOne :: "('t, 'd, 'r) HubEnv \<Rightarrow> nat \<Rightarrow> u32 \<Rightarrow> nat \<Rightarrow> (('t, 'd, 'r) Hub, unit) state" where
  "paceOne E i now k = do {
    h \<leftarrow> gets id;
    let sub = hs_subs (session_of i h) ! k;
    let ch = se_channel_id sub;
    case cat_find ch (env_catalog E) of
      None \<Rightarrow> skip
    | Some entry \<Rightarrow>
        if ce_cls entry \<noteq> CC_STATE then skip
        else case rs_get ch (hb_retained h) of
          None \<Rightarrow> skip
        | Some (seq, payload) \<Rightarrow> do {
            pr \<leftarrow> findOrCreatePushRecord i ch;
            prs \<leftarrow> gets (\<lambda>h. sl_pushRecords (slot_of i h));
            let changePending = (case pr of None \<Rightarrow> True | Some p \<Rightarrow> \<not> ph_valid (prs ! p) \<or> seqIsNewer seq (ph_lastSeq (prs ! p)));
            if \<not> dueForPush (pushPeriod E) now changePending sub then skip
            else do {
              let decision = (if \<not> se_everPushed sub then Send
                              else shedDecision (se_priority sub) (ce_cls entry) (sl_congestionLevel (slot_of i h)) (isSegmentClass entry));
              transmit \<leftarrow> transmits i pr decision;
              if transmit then do {
                ok \<leftarrow> sendSlot E i FT_STATE ch payload seq;
                whenever ok (do { markSubPushed i k now; notePushed i pr seq }) }
              else markSubPushed i k now } } }"

definition pumpStatePacing :: "('t, 'd, 'r) HubEnv \<Rightarrow> nat \<Rightarrow> u32 \<Rightarrow> (('t, 'd, 'r) Hub, unit) state" where
  "pumpStatePacing E i now = do {
    s \<leftarrow> gets (session_of i);
    if \<not> hs_ready s then skip
    else for_each [0..<length (hs_subs s)] (paceOne E i now) }"

section \<open>Definitions: timers\<close>

text \<open>The scan over the source ids 0 to 3.\<close>

definition ownsAny :: "u32 \<Rightarrow> SourceOwnershipTable \<Rightarrow> bool" where
  "ownsAny session_id t = list_ex (\<lambda>src. ownerOf (of_nat src) t = session_id) [0..<kMaxSources]"

definition pumpDeadman :: "('t, 'd, 'r) HubEnv \<Rightarrow> nat \<Rightarrow> u32 \<Rightarrow> (('t, 'd, 'r) Hub, unit) state" where
  "pumpDeadman E i now = do {
    s \<leftarrow> gets (session_of i);
    own \<leftarrow> gets hb_ownership;
    if hs_state s \<noteq> S_LIVE then skip
    else if \<not> ownsAny (hs_session_id s) own then skip
    else if \<not> timeReached now (hs_lastRxMs s + hs_deadmanMs s) then skip
    else markStale E i now 3 }"

definition pumpIdleReap :: "('t, 'd, 'r) HubEnv \<Rightarrow> nat \<Rightarrow> u32 \<Rightarrow> (('t, 'd, 'r) Hub, unit) state" where
  "pumpIdleReap E i now = do {
    s \<leftarrow> gets (session_of i);
    own \<leftarrow> gets hb_ownership;
    if hs_state s \<noteq> S_LIVE then skip
    else if ownsAny (hs_session_id s) own then skip
    else if \<not> timeReached now (hs_lastRxMs s + 3000) then skip
    else markStale E i now 4 }"

definition pumpReadyTimeout :: "('t, 'd, 'r) HubEnv \<Rightarrow> nat \<Rightarrow> u32 \<Rightarrow> (('t, 'd, 'r) Hub, unit) state" where
  "pumpReadyTimeout E i now = do {
    s \<leftarrow> gets (session_of i);
    if hs_state s = S_STALE then skip
    else if hs_ready s then skip
    else if \<not> timeReached now (hs_grantedAtMs s + 15000) then skip
    else do {
      goodbyeTo E i NK_READY_TIMEOUT;
      teardownSession E i now } }"

section \<open>Definitions: dispatch\<close>

definition ifOccupied :: "nat \<Rightarrow> (('t, 'd, 'r) Hub, unit) state \<Rightarrow> (('t, 'd, 'r) Hub, unit) state" where
  "ifOccupied i m = do { s \<leftarrow> gets (session_of i); whenever (occupied s) m }"

definition dispatchType :: "('t, 'd, 'r) HubEnv \<Rightarrow> nat \<Rightarrow> FrameHeader \<Rightarrow> bytes \<Rightarrow> u32 \<Rightarrow> (('t, 'd, 'r) Hub, unit) state" where
  "dispatchType E i hdr payload now =
    (let type = hdr_type hdr in
     if type = FT_HELLO then handleHello E i payload now
     else if type = FT_SUBSCRIBE then ifOccupied i (handleSubscribe E i payload)
     else if type = FT_UNSUBSCRIBE then ifOccupied i (handleUnsubscribe i payload)
     else if type = FT_PUBLISH then ifOccupied i (handlePublish E i payload now)
     else if type = FT_CATALOG_READY then ifOccupied i (handleCatalogReady i payload)
     else if type = FT_INTENT then ifOccupied i (handleIntent E i payload now)
     else if type = FT_STREAM then ifOccupied i (handleStream E i (hdr_channel hdr) payload now)
     else if type = FT_PING then ifOccupied i (handlePing E i payload)
     else if type = FT_CLOCK then ifOccupied i (handleClock E i payload)
     else if type = FT_GOODBYE then ifOccupied i (handleGoodbye E i now)
     else if type = FT_BLOB_REQ then ifOccupied i (handleBlobReq E i payload)
     else if type = FT_PAIR_REQ then ifOccupied i (hub_handlePairReq E i payload now)
     else if type = FT_AUTH then ifOccupied i (handleAuth E i payload now)
     else if type = FT_PROBE then ifOccupied i (handleProbeRequest E i)
     else if type = FT_PROBE_REPORT then ifOccupied i (handleProbeReportFrame i payload)
     else skip)"

definition dispatchFrame :: "('t, 'd, 'r) HubEnv \<Rightarrow> nat \<Rightarrow> FrameHeader \<Rightarrow> bytes \<Rightarrow> u32 \<Rightarrow> (('t, 'd, 'r) Hub, unit) state" where
  "dispatchFrame E i hdr payload now = do {
    modify (\<lambda>h. h \<lparr> hb_dispatchSeq := Some (hdr_seq hdr) \<rparr>);
    dispatchType E i hdr payload now;
    modify (\<lambda>h. h \<lparr> hb_dispatchSeq := None \<rparr>) }"

definition noteReceived :: "('t, 'd, 'r) HubEnv \<Rightarrow> nat \<Rightarrow> u32 \<Rightarrow> (('t, 'd, 'r) Hub, unit) state" where
  "noteReceived E i now = do {
    ifOccupied i (upd_session i (\<lambda>s. s \<lparr> hs_lastRxMs := now \<rparr>));
    reviveIfStale E i now }"

text \<open>One frame read from the transport of a slot: the body of the loop of \<^verbatim>\<open>pumpSlot\<close>.\<close>

definition receiveFrame :: "('t, 'd, 'r) HubEnv \<Rightarrow> nat \<Rightarrow> FrameBuffer \<Rightarrow> u32 \<Rightarrow> (('t, 'd, 'r) Hub, unit) state" where
  "receiveFrame E i fb now =
    (let bs = fb_bytes fb in
     if length bs = kEstopFrameBytes \<and> take 4 bs = replicate 4 kEstopMagicByte then
       (case decodeEstop bs of
          Inl e \<Rightarrow> skip
        | Inr f \<Rightarrow> do {
            noteReceived E i now;
            handleEstopFrame E f now })
     else
       (case decodeFrameHeader bs of
          None \<Rightarrow> skip
        | Some hdr \<Rightarrow> do {
            noteReceived E i now;
            dispatchFrame E i hdr (fb_payload fb) now }))"

partial_function (option) pumpSlot :: "('t, 'd, 'r) HubEnv \<Rightarrow> nat \<Rightarrow> u32 \<Rightarrow> ('t, 'd, 'r) Hub \<Rightarrow> ('t, 'd, 'r) Hub option" where
  "pumpSlot E i now h =
    (case sl_transport (slot_of i h) of
       None \<Rightarrow> Some h
     | Some t \<Rightarrow>
         (case env_read E (hb_wire h t) of
            (None, w) \<Rightarrow> Some (h \<lparr> hb_wire := (hb_wire h)(t := w) \<rparr>)
          | (Some fb, w) \<Rightarrow>
              pumpSlot E i now (snd (run_state (receiveFrame E i fb now) (h \<lparr> hb_wire := (hb_wire h)(t := w) \<rparr>)))))"

definition serviceSlot :: "('t, 'd, 'r) HubEnv \<Rightarrow> nat \<Rightarrow> u32 \<Rightarrow> (('t, 'd, 'r) Hub, unit) state" where
  "serviceSlot E i now = do {
    ifOccupied i (pumpDeadman E i now);
    ifOccupied i (pumpReadyTimeout E i now);
    ifOccupied i (pumpIdleReap E i now);
    t \<leftarrow> transport_of i;
    ifOccupied i (whenever (t \<noteq> None) (do {
      pumpStatePacing E i now;
      pumpEventDrain E i;
      pumpBlobTransfer E i })) }"

primrec update_slots :: "('t, 'd, 'r) HubEnv \<Rightarrow> u32 \<Rightarrow> nat list \<Rightarrow> ('t, 'd, 'r) Hub \<Rightarrow> ('t, 'd, 'r) Hub option" where
  "update_slots E now [] h = Some h"
| "update_slots E now (i # is) h =
    (if sl_transport (slot_of i h) = None then update_slots E now is h
     else case pumpSlot E i now h of
       None \<Rightarrow> None
     | Some h \<Rightarrow> update_slots E now is (snd (run_state (serviceSlot E i now) h)))"

text \<open>A draw of a session id that never ends is an update that never returns.\<close>

definition returned :: "('t, 'd, 'r) Hub option \<Rightarrow> ('t, 'd, 'r) Hub option" where
  "returned r = (case r of None \<Rightarrow> None | Some h \<Rightarrow> if hb_fault h = Some EndlessDraw then None else Some h)"

definition hub_update :: "('t, 'd, 'r) HubEnv \<Rightarrow> u32 \<Rightarrow> ('t, 'd, 'r) Hub \<Rightarrow> ('t, 'd, 'r) Hub option" where
  "hub_update E nowUs h =
    (let (now, mono) = advance nowUs (hb_monoMs h)
     in returned (update_slots E now [0..<kSlotCapacity] (snd (run_state (pumpPairing E now) (h \<lparr> hb_monoMs := mono \<rparr>)))))"

section \<open>Definitions: construction and the application's calls\<close>

definition Hub_blank :: "(nat \<Rightarrow> 't) \<Rightarrow> 'd \<Rightarrow> 'r \<Rightarrow> u32 \<Rightarrow> ('t, 'd, 'r) Hub" where
  "Hub_blank wire app rng clock = \<lparr> hb_retained = [], hb_slots = replicate kSlotCapacity HubSlot_new, hb_etag = replicate 8 0,
     hb_catalogEncoded = [], hb_idProduct = [], hb_idFwVersion = [], hb_idHubName = [], hb_hubInstanceId = 0, hb_wsPort = 0,
     hb_ipv4 = 0, hb_bootId = 0, hb_cfgGen = 1, hb_monoMs = MonotonicMs_new, hb_dispatchSeq = None, hb_safetyWord = 0,
     hb_safetyCause = 0, hb_safetyOwnerSession = 0, hb_estopSeq = 0, hb_safetyModes = 0, hb_pairing = PairingManager_new,
     hb_ownership = SourceOwnershipTable_new, hb_pairedStoreId = None, hb_presenceWasOpen = False, hb_inlineSigning = False,
     hb_logRing = EventReplayRing_new kLogDepth kEventSlotBytes, hb_clockUs = clock, hb_wire = wire, hb_app = app,
     hb_rng = rng, hb_fault = None \<rparr>"

definition hub_construct :: "('t, 'd, 'r) HubEnv \<Rightarrow> (('t, 'd, 'r) Hub, unit) state" where
  "hub_construct E = do {
    let encoded = env_encodeCatalog E (env_catalog E);
    modify (\<lambda>h. h \<lparr> hb_catalogEncoded := encoded, hb_etag := take 8 (sha_hash encoded) \<rparr>);
    boot \<leftarrow> drawNonZero E;
    modify (\<lambda>h. h \<lparr> hb_bootId := boot \<rparr>);
    whenever (cat_find ch_safety (env_catalog E) \<noteq> None) publishSafetySnapshot;
    modify (\<lambda>h. h \<lparr> hb_pairedStoreId :=
      (case cat_find ch_paired_devices (env_catalog E) of
         None \<Rightarrow> None
       | Some e \<Rightarrow> map_option sd_storeId (storeDescriptor (env_catalog E) e)) \<rparr>);
    publishPendingPairingState E 0;
    publishPairedRosterState E }"

definition Hub_new :: "('t, 'd, 'r) HubEnv \<Rightarrow> (nat \<Rightarrow> 't) \<Rightarrow> 'd \<Rightarrow> 'r \<Rightarrow> u32 \<Rightarrow> ('t, 'd, 'r) Hub" where
  "Hub_new E wire app rng clock = snd (run_state (hub_construct E) (Hub_blank wire app rng clock))"

definition openInto :: "('t, 'd, 'r) HubEnv \<Rightarrow> nat \<Rightarrow> nat \<Rightarrow> (('t, 'd, 'r) Hub, bool) state" where
  "openInto E i t = do {
    ok \<leftarrow> act (\<lambda>h. let (ok, w) = env_open E (hb_wire h t) in (ok, h \<lparr> hb_wire := (hb_wire h)(t := w) \<rparr>));
    whenever ok (upd_slot i (\<lambda>s. s \<lparr> sl_transport := Some t \<rparr>));
    return ok }"

definition attachTransport :: "('t, 'd, 'r) HubEnv \<Rightarrow> nat \<Rightarrow> (('t, 'd, 'r) Hub, bool) state" where
  "attachTransport E t = do {
    h \<leftarrow> gets id;
    case find_index (\<lambda>s. sl_transport s = None \<and> \<not> occupied (sl_session s)) (hb_slots h) of
      Some i \<Rightarrow> openInto E i t
    | None \<Rightarrow>
        (case findEvictableStale None h of
           None \<Rightarrow> return False
         | Some v \<Rightarrow> do {
             closeTransport E v;
             now \<leftarrow> clockNowMs;
             teardownSession E v now;
             openInto E v t }) }"

definition attachedSlotFor :: "nat \<Rightarrow> ('t, 'd, 'r) Hub \<Rightarrow> nat option" where
  "attachedSlotFor t h = find_index (\<lambda>s. sl_transport s = Some t) (hb_slots h)"

definition detachTransport :: "('t, 'd, 'r) HubEnv \<Rightarrow> nat \<Rightarrow> (('t, 'd, 'r) Hub, unit) state" where
  "detachTransport E t = do {
    slot \<leftarrow> gets (attachedSlotFor t);
    case slot of
      None \<Rightarrow> skip
    | Some i \<Rightarrow> do { now \<leftarrow> clockNowMs; parkAndDetach E i now } }"

definition setCongestionLevel :: "nat \<Rightarrow> u8 \<Rightarrow> (('t, 'd, 'r) Hub, unit) state" where
  "setCongestionLevel i level =
    (if i \<ge> kSlotCapacity then skip
     else upd_slot i (\<lambda>s. s \<lparr> sl_congestionLevel := level,
       sl_criticalStalling := (if level < 2 then False else sl_criticalStalling s) \<rparr>))"

definition setTransportCongestion :: "nat \<Rightarrow> u8 \<Rightarrow> (('t, 'd, 'r) Hub, unit) state" where
  "setTransportCongestion t level = do {
    slot \<leftarrow> gets (attachedSlotFor t);
    case slot of None \<Rightarrow> skip | Some i \<Rightarrow> setCongestionLevel i level }"

definition publishState :: "u16 \<Rightarrow> bytes \<Rightarrow> (('t, 'd, 'r) Hub, bool) state" where
  "publishState ch payload = do { r \<leftarrow> hub_retain ch payload; return (r \<noteq> None) }"

definition publishLog :: "('t, 'd, 'r) HubEnv \<Rightarrow> u8 \<Rightarrow> bytes \<Rightarrow> bytes \<Rightarrow> (('t, 'd, 'r) Hub, bool) state" where
  "publishLog E level tag message =
    (if cat_find ch_log (env_catalog E) = None then return False
     else do {
       now \<leftarrow> clockNowMs;
       let bs = encodeEvent \<lparr> ev_channel_id = ch_log, ev_timestamp = now, ev_event_kind = 1, ev_seq_of_state = None,
                  ev_body = Some [u64_field 1 (ucast level), \<lparr> ivf_key = 2, ivf_value = IV_Tstr (take 16 tag) \<rparr>,
                    u64_field 3 (ucast now), \<lparr> ivf_key = 4, ivf_value = IV_Tstr (take 128 message) \<rparr>] \<rparr> kEventSlotBytes;
       if bs = [] then return False
       else do {
         modify (\<lambda>h. h \<lparr> hb_logRing := snd (rr_push kLogDepth kEventSlotBytes bs (hb_logRing h)) \<rparr>);
         _ \<leftarrow> publishEvent E ch_log bs;
         return True } })"

definition bumpConfigGeneration :: "(('t, 'd, 'r) Hub, unit) state" where
  "bumpConfigGeneration = modify (\<lambda>h. h \<lparr> hb_cfgGen := hb_cfgGen h + 1 \<rparr>)"

definition setInlineSigning :: "bool \<Rightarrow> (('t, 'd, 'r) Hub, unit) state" where
  "setInlineSigning on = modify (\<lambda>h. h \<lparr> hb_inlineSigning := on \<rparr>)"

definition setHubIdentity :: "bytes \<Rightarrow> bytes \<Rightarrow> bytes \<Rightarrow> (('t, 'd, 'r) Hub, unit) state" where
  "setHubIdentity product fw_version hub_name =
    modify (\<lambda>h. h \<lparr> hb_idProduct := product, hb_idFwVersion := fw_version, hb_idHubName := hub_name \<rparr>)"

definition setHubInstanceId :: "u64 \<Rightarrow> (('t, 'd, 'r) Hub, unit) state" where
  "setHubInstanceId v = modify (\<lambda>h. h \<lparr> hb_hubInstanceId := v \<rparr>)"

definition setEndpoint :: "u16 \<Rightarrow> u32 \<Rightarrow> (('t, 'd, 'r) Hub, unit) state" where
  "setEndpoint wsPort ipv4 = modify (\<lambda>h. h \<lparr> hb_wsPort := wsPort, hb_ipv4 := ipv4 \<rparr>)"

definition sessionCount :: "('t, 'd, 'r) Hub \<Rightarrow> nat" where
  "sessionCount h = occupiedCount None h"

definition streamIngressCounters :: "nat \<Rightarrow> ('t, 'd, 'r) Hub \<Rightarrow> u32 \<times> u32" where
  "streamIngressCounters i h =
    (if i \<ge> length (hb_slots h) \<or> \<not> occupied (session_of i h) then (0, 0)
     else (hs_streamBundlesAccepted (session_of i h), hs_streamBundlesDropped (session_of i h)))"

definition probeReportFor :: "nat \<Rightarrow> ('t, 'd, 'r) Hub \<Rightarrow> ProbeResult option" where
  "probeReportFor i h = (if i \<ge> length (hb_slots h) then None else sl_lastProbeReport (slot_of i h))"

definition tick :: "u32 \<Rightarrow> ('t, 'd, 'r) Hub \<Rightarrow> ('t, 'd, 'r) Hub" where
  "tick us h = h \<lparr> hb_clockUs := us \<rparr>"

end
