(* ===== verification/Hub_Spine.thy ===== *)
theory Hub_Spine
  imports Hub_Loop
begin

text \<open>
  What the operations of the hub do to its spine: the link, state, session id and instance id of every slot, the
  ownership of control sources, the safety plane with its retained snapshot, and the faults. \<open>hub_step\<close> is the state
  machine of the spine; every command of the hub moves along it, keeps the hub well formed (\<open>hub_wf\<close>), and touches the
  transports only through their interface (\<open>hub_frame\<close>). The commands that leave the spine alone are collected in
  \<open>calm_rules\<close>.
\<close>

section \<open>Definitions: the spine\<close>

record SlotSpine =
  ss_link :: "nat option"
  ss_state :: HubSessionState
  ss_id :: u32
  ss_inst :: bytes

definition slot_spine :: "HubSlot \<Rightarrow> SlotSpine" where
  "slot_spine s = \<lparr> ss_link = sl_transport s, ss_state = hs_state (sl_session s),
     ss_id = hs_session_id (sl_session s), ss_inst = hs_instance_id (sl_session s) \<rparr>"

record Safety =
  sf_word :: u8
  sf_cause :: u8
  sf_ownerSession :: u32
  sf_seq :: u16
  sf_modes :: u8

definition safety_of :: "('t, 'd, 'r) Hub \<Rightarrow> Safety" where
  "safety_of h = \<lparr> sf_word = hb_safetyWord h, sf_cause = hb_safetyCause h, sf_ownerSession = hb_safetyOwnerSession h,
     sf_seq = hb_estopSeq h, sf_modes = hb_safetyModes h \<rparr>"

text \<open>The layout of the retained safety snapshot.\<close>

definition safety_bytes :: "Safety \<Rightarrow> bytes" where
  "safety_bytes s = [sf_word s, sf_cause s] @ u32_bytes (sf_ownerSession s) @ u16_bytes (sf_seq s) @ [sf_modes s]"

record Spine =
  sp_sized :: bool
  sp_slots :: "SlotSpine list"
  sp_own :: SourceOwnershipTable
  sp_safety :: Safety
  sp_shown :: "bytes option"
  sp_fault :: "fault option"

definition spine :: "('t, 'd, 'r) Hub \<Rightarrow> Spine" where
  "spine h = \<lparr> sp_sized = (length (hb_slots h) = kSlotCapacity),
     sp_slots = map (\<lambda>i. slot_spine (hb_slots h ! i)) [0..<kSlotCapacity], sp_own = hb_ownership h, sp_safety = safety_of h,
     sp_shown = map_option snd (rs_get ch_safety (hb_retained h)), sp_fault = hb_fault h \<rparr>"

lemma buildSafetyPayload_bytes: "buildSafetyPayload h = safety_bytes (safety_of h)"
  by (simp add: buildSafetyPayload_def safety_bytes_def safety_of_def Let_def poke_def numeral_eq_Suc
      u32_bytes_def u16_bytes_def)


section \<open>Definitions: the state machine\<close>

definition ss_occupied :: "SlotSpine \<Rightarrow> bool" where
  "ss_occupied s \<longleftrightarrow> state_occupied (ss_state s)"

definition free_spine :: "nat option \<Rightarrow> SlotSpine" where
  "free_spine link = \<lparr> ss_link = link, ss_state = S_FREE, ss_id = 0, ss_inst = replicate 8 0 \<rparr>"

text \<open>The occupied slots other than \<open>i\<close>.\<close>

definition others :: "nat \<Rightarrow> SlotSpine list \<Rightarrow> nat set" where
  "others i t = {j. j < length t \<and> j \<noteq> i \<and> ss_occupied (t ! j)}"

text \<open>The sessions that own a control source.\<close>

definition owners :: "SourceOwnershipTable \<Rightarrow> u32 set" where
  "owners t = {so_owner e | e. e \<in> set t \<and> so_used e} - {0}"

definition latched :: "Safety \<Rightarrow> bool" where
  "latched s \<longleftrightarrow> sf_word s AND ESTOP_BIT \<noteq> 0"

text \<open>The power of a call: only some may attach a transport, and only some may release the ESTOP latch.\<close>

datatype power = Plain | Attaches | Clears

inductive hub_step :: "power \<Rightarrow> Spine \<Rightarrow> Spine \<Rightarrow> bool" for p where
  Link: "p = Attaches \<Longrightarrow> i < length (sp_slots c) \<Longrightarrow> \<not> ss_occupied (sp_slots c ! i) \<Longrightarrow>
    hub_step p c (c \<lparr> sp_slots := (sp_slots c)[i := (sp_slots c ! i) \<lparr> ss_link := Some t \<rparr>] \<rparr>)"
| Unlink: "i < length (sp_slots c) \<Longrightarrow> \<not> ss_occupied (sp_slots c ! i) \<or> ss_state (sp_slots c ! i) = S_STALE \<Longrightarrow>
    hub_step p c (c \<lparr> sp_slots := (sp_slots c)[i := (sp_slots c ! i) \<lparr> ss_link := None \<rparr>] \<rparr>)"
| Open: "i < length (sp_slots c) \<Longrightarrow> ss_link (sp_slots c ! i) \<noteq> None \<Longrightarrow> card (others i (sp_slots c)) < kHubMaxSessions \<Longrightarrow>
    (\<And>j. j \<in> others i (sp_slots c) \<Longrightarrow> ss_inst (sp_slots c ! j) \<noteq> inst) \<Longrightarrow> \<not> ss_occupied (sp_slots c ! i) \<Longrightarrow>
    hub_step p c (c \<lparr> sp_slots := (sp_slots c)[i := \<lparr> ss_link = ss_link (sp_slots c ! i), ss_state = S_VALIDATING, ss_id = sid,
      ss_inst = inst \<rparr>] \<rparr>)"
| Live: "i < length (sp_slots c) \<Longrightarrow> ss_link (sp_slots c ! i) \<noteq> None \<Longrightarrow> ss_occupied (sp_slots c ! i) \<Longrightarrow>
    hub_step p c (c \<lparr> sp_slots := (sp_slots c)[i := (sp_slots c ! i) \<lparr> ss_state := S_LIVE \<rparr>] \<rparr>)"
| Release: "hub_step p c (c \<lparr> sp_own := snd (releaseAllOf sid (sp_own c)) \<rparr>)"
| Stale: "i < length (sp_slots c) \<Longrightarrow> ss_occupied (sp_slots c ! i) \<Longrightarrow> ss_id (sp_slots c ! i) \<notin> owners (sp_own c) \<Longrightarrow>
    hub_step p c (c \<lparr> sp_slots := (sp_slots c)[i := (sp_slots c ! i) \<lparr> ss_state := S_STALE \<rparr>] \<rparr>)"
| Close: "i < length (sp_slots c) \<Longrightarrow> \<not> ss_occupied (sp_slots c ! i) \<or> ss_id (sp_slots c ! i) \<notin> owners (sp_own c) \<Longrightarrow>
    hub_step p c (c \<lparr> sp_slots := (sp_slots c)[i := free_spine (ss_link (sp_slots c ! i))] \<rparr>)"
| Move: "i < length (sp_slots c) \<Longrightarrow> j < length (sp_slots c) \<Longrightarrow> i \<noteq> j \<Longrightarrow> ss_state (sp_slots c ! j) = S_STALE \<Longrightarrow>
    \<not> ss_occupied (sp_slots c ! i) \<Longrightarrow> ss_link (sp_slots c ! i) \<noteq> None \<Longrightarrow>
    hub_step p c (c \<lparr> sp_slots := (sp_slots c)[i := (sp_slots c ! j) \<lparr> ss_link := ss_link (sp_slots c ! i) \<rparr>, j := free_spine None] \<rparr>)"
| Acquire: "i < length (sp_slots c) \<Longrightarrow> ss_occupied (sp_slots c ! i) \<Longrightarrow> ss_state (sp_slots c ! i) \<noteq> S_STALE \<Longrightarrow>
    hub_step p c (c \<lparr> sp_own := snd (acquire source (ss_id (sp_slots c ! i)) role takeover (sp_own c)) \<rparr>)"
| Safety: "latched s = latched (sp_safety c) \<or> latched s \<or> p = Clears \<Longrightarrow>
    shown = Some (safety_bytes s) \<or> sp_shown c = None \<and> shown = None \<Longrightarrow>
    hub_step p c (c \<lparr> sp_safety := s, sp_shown := shown \<rparr>)"
| Diverge: "hub_step p c (c \<lparr> sp_fault := Some EndlessDraw \<rparr>)"

abbreviation hub_steps :: "power \<Rightarrow> Spine \<Rightarrow> Spine \<Rightarrow> bool" where
  "hub_steps p \<equiv> (hub_step p)\<^sup>*\<^sup>*"

section \<open>Definitions: well-formed hubs\<close>

definition session_wf :: "HubSession \<Rightarrow> bool" where
  "session_wf s \<longleftrightarrow> st_inv max_subscriptions_per_session (hs_subs s) \<and> eq_inv kEventDepth kEventSlotBytes (hs_events s) \<and>
     (\<exists>xs. ir_holds kIntentDepth kIntentSlotBytes (hs_intentRing s) xs) \<and> length (hs_publishGrants s) = kMaxPublishGrants"

definition hubslot_wf :: "HubSlot \<Rightarrow> bool" where
  "hubslot_wf s \<longleftrightarrow> session_wf (sl_session s) \<and> length (sl_pushRecords s) = max_subscriptions_per_session \<and>
     length (sl_conflictNacks s) = 4"

text \<open>The arrays of the pairing manager have their size whatever the application does with it; that no device has two entries
  (\<open>pm_inv\<close>) holds as long as the application restores no such ledger.\<close>

definition pairing_sized :: "PairingManager \<Rightarrow> bool" where
  "pairing_sized m \<longleftrightarrow> length (pm_entries m) = paired_devices_max \<and> length (pm_pending m) = pairing_pending_max"

definition pairing_keeps :: "PairingManager \<Rightarrow> PairingManager \<Rightarrow> bool" where
  "pairing_keeps m m' \<longleftrightarrow> length (pm_entries m') = length (pm_entries m) \<and> length (pm_pending m') = length (pm_pending m) \<and>
     (pm_inv m \<longrightarrow> pm_inv m')"

definition hub_wf :: "('t, 'd, 'r) Hub \<Rightarrow> bool" where
  "hub_wf h \<longleftrightarrow> length (hb_slots h) = kSlotCapacity \<and> list_all hubslot_wf (hb_slots h) \<and> so_inv (hb_ownership h) \<and>
     rs_inv kRetainedCapacity (hb_retained h) \<and> pairing_sized (hb_pairing h) \<and> rr_inv kLogDepth kEventSlotBytes (hb_logRing h)"

section \<open>Definitions: what a command may touch\<close>

text \<open>A transport after some more calls of its interface other than \<^verbatim>\<open>read\<close>.\<close>

inductive wire_step :: "('t, 'd, 'r) HubEnv \<Rightarrow> 't \<Rightarrow> 't \<Rightarrow> bool" for E where
  Write: "wire_step E w (snd (env_write E bs w))"
| Open_wire: "wire_step E w (snd (env_open E w))"
| Close_wire: "wire_step E w (env_close E w)"

abbreviation wire_steps :: "('t, 'd, 'r) HubEnv \<Rightarrow> 't \<Rightarrow> 't \<Rightarrow> bool" where
  "wire_steps E \<equiv> (wire_step E)\<^sup>*\<^sup>*"

definition hub_static :: "('t, 'd, 'r) Hub \<Rightarrow> bytes \<times> bytes \<times> u32 \<times> u8 option \<times> MonotonicMs \<times> u32" where
  "hub_static h = (hb_etag h, hb_catalogEncoded h, hb_bootId h, hb_pairedStoreId h, hb_monoMs h, hb_clockUs h)"

text \<open>A random source that yields something other than 0 sooner or later, from every state.\<close>

definition lively :: "('r \<Rightarrow> u32 \<times> 'r) \<Rightarrow> bool" where
  "lively next \<longleftrightarrow> (\<forall>r. \<exists>n. fst (next (((\<lambda>r. snd (next r)) ^^ n) r)) \<noteq> 0)"

abbreviation hangs :: "('t, 'd, 'r) Hub \<Rightarrow> bool" where
  "hangs h \<equiv> hb_fault h = Some EndlessDraw"

definition hub_frame :: "('t, 'd, 'r) HubEnv \<Rightarrow> ('t, 'd, 'r) Hub \<Rightarrow> ('t, 'd, 'r) Hub \<Rightarrow> bool" where
  "hub_frame E h h' \<longleftrightarrow> (hub_wf h \<longrightarrow> hub_wf h') \<and> (\<forall>t. wire_steps E (hb_wire h t) (hb_wire h' t)) \<and>
     hub_static h' = hub_static h \<and> pairing_keeps (hb_pairing h) (hb_pairing h') \<and> (lively (env_nextU32 E) \<longrightarrow> hangs h' \<longrightarrow> hangs h)"

definition hub_moves :: "('t, 'd, 'r) HubEnv \<Rightarrow> power \<Rightarrow> ('t, 'd, 'r) Hub \<Rightarrow> ('t, 'd, 'r) Hub \<Rightarrow> bool" where
  "hub_moves E p h h' \<longleftrightarrow> hub_frame E h h' \<and> hub_steps p (spine h) (spine h')"

lemma pairing_keeps_refl [simp]: "pairing_keeps m m"
  by (simp add: pairing_keeps_def)

lemma pairing_keeps_trans: "pairing_keeps a b \<Longrightarrow> pairing_keeps b c \<Longrightarrow> pairing_keeps a c"
  by (simp add: pairing_keeps_def)

lemma pairing_keeps_sized: "pairing_keeps m m' \<Longrightarrow> pairing_sized m' = pairing_sized m"
  by (simp add: pairing_keeps_def pairing_sized_def)

lemma hub_frame_refl: "hub_frame E h h"
  by (simp add: hub_frame_def)

lemma hub_frame_trans: "hub_frame E a b \<Longrightarrow> hub_frame E b c \<Longrightarrow> hub_frame E a c"
  by (auto simp: hub_frame_def intro: rtranclp_trans pairing_keeps_trans)

interpretation hub: step_order "hub_moves E p" for E p
  by unfold_locales (auto simp: hub_moves_def hub_frame_refl intro: hub_frame_trans rtranclp_trans)

abbreviation hub_calm :: "('t, 'd, 'r) HubEnv \<Rightarrow> power \<Rightarrow> (Spine \<Rightarrow> bool) \<Rightarrow> (('t, 'd, 'r) Hub, 'a) state \<Rightarrow> bool" where
  "hub_calm E p \<equiv> calm spine (hub_moves E p)"

abbreviation hub_traces ::
  "('t, 'd, 'r) HubEnv \<Rightarrow> power \<Rightarrow> (Spine \<Rightarrow> bool) \<Rightarrow> (('t, 'd, 'r) Hub, 'a) state \<Rightarrow> ('a \<Rightarrow> Spine \<Rightarrow> bool) \<Rightarrow> bool" where
  "hub_traces E p \<equiv> traces spine (hub_moves E p)"

section \<open>Primitive commands\<close>

lemma hub_calmI:
  "(\<And>h. P (spine h) \<Longrightarrow> spine (snd (run_state m h)) = spine h) \<Longrightarrow> (\<And>h. P (spine h) \<Longrightarrow> hub_frame E h (snd (run_state m h))) \<Longrightarrow> hub_calm E p P m"
  by (simp add: calm_def hub_moves_def)

lemma hub_tracesI:
  "(\<And>h. P (spine h) \<Longrightarrow> hub_frame E h (snd (run_state m h)) \<and> hub_steps p (spine h) (spine (snd (run_state m h))) \<and>
      Q (fst (run_state m h)) (spine (snd (run_state m h)))) \<Longrightarrow> hub_traces E p P m Q"
  by (auto simp: traces_def hub_moves_def)

lemma nth_update_same: "g (f (xs ! i)) = g (xs ! i) \<Longrightarrow> g (xs[i := f (xs ! i)] ! k) = g (xs ! k)"
  by (cases "i < length xs"; cases "k = i") (simp_all add: list_update_beyond)

lemma list_all_nth_update: "list_all P xs \<Longrightarrow> (i < length xs \<Longrightarrow> P (xs ! i) \<Longrightarrow> P (f (xs ! i))) \<Longrightarrow> list_all P (xs[i := f (xs ! i)])"
  by (cases "i < length xs") (auto simp: list_all_length nth_list_update list_update_beyond)

lemma slots_frame:
  "(\<And>s. hubslot_wf s \<Longrightarrow> hubslot_wf (f s)) \<Longrightarrow> hub_frame E h (h \<lparr> hb_slots := (hb_slots h)[i := f (hb_slots h ! i)] \<rparr>)"
  by (auto simp: hub_frame_def hub_wf_def hub_static_def intro!: list_all_nth_update)

lemma calm_upd_slot:
  assumes "\<And>s. slot_spine (f s) = slot_spine s" and "\<And>s. hubslot_wf s \<Longrightarrow> hubslot_wf (f s)"
  shows "hub_calm E p P (upd_slot i f)"
  using assms by (intro hub_calmI)
    (auto simp: upd_slot_def spine_def safety_of_def nth_update_same intro: slots_frame)

lemma calm_upd_session:
  assumes "\<And>s. hs_state (f s) = hs_state s" and "\<And>s. hs_session_id (f s) = hs_session_id s"
    and "\<And>s. hs_instance_id (f s) = hs_instance_id s" and "\<And>s. session_wf s \<Longrightarrow> session_wf (f s)"
  shows "hub_calm E p P (upd_session i f)"
  unfolding upd_session_def using assms by (intro calm_upd_slot) (auto simp: slot_spine_def hubslot_wf_def)


text \<open>A change of the fields that neither the spine nor the frame shows.\<close>

definition rest_same :: "('t, 'd, 'r) Hub \<Rightarrow> ('t, 'd, 'r) Hub \<Rightarrow> bool" where
  "rest_same h h' \<longleftrightarrow> hb_slots h' = hb_slots h \<and> hb_ownership h' = hb_ownership h \<and> safety_of h' = safety_of h \<and>
     hb_retained h' = hb_retained h \<and> hb_fault h' = hb_fault h \<and> hb_wire h' = hb_wire h \<and>
     hub_static h' = hub_static h \<and> hb_pairing h' = hb_pairing h \<and> hb_logRing h' = hb_logRing h"

lemma rest_same_calm: "rest_same h h' \<Longrightarrow> spine h' = spine h \<and> hub_frame E h h'"
  by (auto simp: rest_same_def spine_def hub_frame_def hub_wf_def)

lemma calm_rest_act: "(\<And>h. rest_same h (snd (f h))) \<Longrightarrow> hub_calm E p P (act f)"
  by (rule hub_calmI) (use rest_same_calm in \<open>auto\<close>)

lemma calm_rest: "(\<And>h. rest_same h (f h)) \<Longrightarrow> hub_calm E p P (modify f)"
  by (rule hub_calmI) (use rest_same_calm in \<open>auto\<close>)

lemma calm_dispatchSeq [calm_rules]: "hub_calm E p P (modify (\<lambda>h. h \<lparr> hb_dispatchSeq := f h \<rparr>))"
  by (rule calm_rest) (simp add: rest_same_def safety_of_def hub_static_def)

lemma calm_rng [calm_rules]: "hub_calm E p P (modify (\<lambda>h. h \<lparr> hb_rng := f h \<rparr>))"
  by (rule calm_rest) (simp add: rest_same_def safety_of_def hub_static_def)

lemma calm_cfgGen [calm_rules]: "hub_calm E p P (modify (\<lambda>h. h \<lparr> hb_cfgGen := f h \<rparr>))"
  by (rule calm_rest) (simp add: rest_same_def safety_of_def hub_static_def)

lemma calm_presenceWasOpen [calm_rules]: "hub_calm E p P (modify (\<lambda>h. h \<lparr> hb_presenceWasOpen := f h \<rparr>))"
  by (rule calm_rest) (simp add: rest_same_def safety_of_def hub_static_def)

lemma calm_app_tell [calm_rules]: "hub_calm E p P (app_tell f)"
  unfolding app_tell_def by (rule calm_rest) (simp add: rest_same_def safety_of_def hub_static_def)

lemma calm_app_ask [calm_rules]: "hub_calm E p P (app_ask f)"
  unfolding app_ask_def by (rule calm_rest_act) (simp add: split_beta Let_def rest_same_def safety_of_def hub_static_def)

lemma calm_rng_ask [calm_rules]: "hub_calm E p P (rng_ask f)"
  unfolding rng_ask_def by (rule calm_rest_act) (simp add: split_beta Let_def rest_same_def safety_of_def hub_static_def)

lemma calm_clockNowMs [calm_rules]: "hub_calm E p P clockNowMs"
  unfolding clockNowMs_def by (rule hub.calm_gets)

lemma calm_transport_of [calm_rules]: "hub_calm E p P (transport_of i)"
  unfolding transport_of_def by (rule hub.calm_gets)

text \<open>The transports.\<close>

lemma wire_frame: "wire_steps E (hb_wire h t) w \<Longrightarrow> hub_frame E h (h \<lparr> hb_wire := (hb_wire h)(t := w) \<rparr>)"
  by (simp add: hub_frame_def hub_wf_def hub_static_def)

lemma wire_spine [simp]: "spine (h \<lparr> hb_wire := w \<rparr>) = spine h"
  by (simp add: spine_def safety_of_def)

lemma calm_sendFrameTo [calm_rules]: "hub_calm E p P (sendFrameTo E t type channel payload seq)"
  unfolding sendFrameTo_def Let_def
  by (intro calm_rules hub_calmI) (auto simp: split_beta Let_def intro!: wire_frame r_into_rtranclp wire_step.intros)

text \<open>The retained store, whose safety entry only the safety plane writes.\<close>

lemma rs_publish_inv: "rs_inv cap t \<Longrightarrow> rs_inv cap (snd (rs_publish cap ch payload t))"
  using retained.put_keeps [of cap t ch payload] by (simp add: snd_rs_put)

lemma find_index_snoc: "\<not> P x \<Longrightarrow> find_index P (xs @ [x]) = find_index P xs"
  by (induction xs) auto

lemma rs_get_other: "ch' \<noteq> ch \<Longrightarrow> rs_get ch (snd (rs_publish cap ch' payload t)) = rs_get ch t"
proof (cases rule: rs_find_cases [of ch' t])
  case (found i)
  assume "ch' \<noteq> ch"
  with found show ?thesis
    by (cases "length payload \<le> 242")
      (auto simp: rs_publish_found rs_publish_oversize rs_get_def rs_find_def find_index_update_other nth_list_update rs_entry_def
        split: option.split dest!: find_index_Some)
next
  case missing
  assume "ch' \<noteq> ch"
  with missing show ?thesis
    by (cases "length payload \<le> 242")
      (auto simp: rs_publish_missing rs_publish_oversize rs_get_def rs_find_def find_index_snoc nth_append rs_entry_def
        split: option.split dest!: find_index_Some)
qed

lemma calm_hub_retain: "ch \<noteq> ch_safety \<Longrightarrow> hub_calm E p P (hub_retain ch payload)"
  by (rule hub_calmI)
    (auto simp: hub_retain_def split_beta Let_def spine_def safety_of_def rs_get_other hub_frame_def hub_wf_def hub_static_def
      intro: rs_publish_inv)

text \<open>The pairing manager.\<close>

lemma pairing_frame: "pairing_keeps (hb_pairing h) m \<Longrightarrow> hub_frame E h (h \<lparr> hb_pairing := m \<rparr>)"
  by (auto simp: hub_frame_def hub_wf_def hub_static_def pairing_keeps_sized)

lemma pairing_spine [simp]: "spine (h \<lparr> hb_pairing := m \<rparr>) = spine h"
  by (simp add: spine_def safety_of_def)

lemma calm_pairing_set: "(\<And>m. pairing_keeps m (f m)) \<Longrightarrow> hub_calm E p P (pairing_set f)"
  by (rule hub_calmI) (simp_all add: pairing_set_def pairing_frame)

lemma calm_pairing_do: "(\<And>m. pairing_keeps m (snd (f m))) \<Longrightarrow> hub_calm E p P (pairing_do f)"
  by (rule hub_calmI) (simp_all add: pairing_do_def split_beta Let_def pairing_frame)

end
