(* ===== verification/Hub_Calm.thy ===== *)
theory Hub_Calm
  imports Hub_Spine
begin

text \<open>
  The commands of the hub that leave the spine alone: sends over a linked slot, retained snapshots other than the safety
  snapshot, events, the trust plane, subscriptions and grants, stream and blob bookkeeping, pacing.
\<close>

section \<open>Sending\<close>

definition linked :: "nat \<Rightarrow> Spine \<Rightarrow> bool" where
  "linked i c \<longleftrightarrow> i < kSlotCapacity \<and> ss_link (sp_slots c ! i) \<noteq> None"

lemma linked_spine: "linked i (spine h) \<longleftrightarrow> i < kSlotCapacity \<and> sl_transport (slot_of i h) \<noteq> None"
  by (auto simp: linked_def spine_def slot_of_def slot_spine_def)

lemma calm_deref:
  assumes "\<And>c. P c \<Longrightarrow> linked i c" and "\<And>t. hub_calm E p P (k t)"
  shows "hub_calm E p P (deref i d k)"
  unfolding deref_def transport_of_def
proof (rule calm_read [where g = "\<lambda>t c. linked i c \<longrightarrow> t \<noteq> None"])
  fix t show "hub_calm E p (\<lambda>c. P c \<and> (linked i c \<longrightarrow> t \<noteq> None)) (case t of None \<Rightarrow> do { raise NullTransport; return d } | Some t \<Rightarrow> k t)"
    using assms by (cases t) (auto simp: calm_def)
qed (simp add: linked_spine)

lemma calm_sendSlot: "(\<And>c. P c \<Longrightarrow> linked i c) \<Longrightarrow> hub_calm E p P (sendSlot E i type channel payload seq)"
  unfolding sendSlot_def by (intro calm_deref calm_rules)

lemma calm_sendNack: "(\<And>c. P c \<Longrightarrow> linked i c) \<Longrightarrow> hub_calm E p P (sendNack E i n)"
  unfolding sendNack_def Let_def by (intro calm_deref calm_rules)

lemma calm_goodbyeTo [calm_rules]: "hub_calm E p P (goodbyeTo E i code)"
  unfolding goodbyeTo_def Let_def by (intro calm_rules)

lemmas calm_sends = calm_sendSlot calm_sendNack

section \<open>Retained snapshots\<close>

lemma calm_publishControlOwnerStateIfPresent [calm_rules]: "hub_calm E p P (publishControlOwnerStateIfPresent E)"
  unfolding publishControlOwnerStateIfPresent_def by (intro calm_rules calm_hub_retain) simp

lemma calm_publishPendingPairingState [calm_rules]: "hub_calm E p P (publishPendingPairingState E now)"
  unfolding publishPendingPairingState_def Let_def by (intro calm_rules calm_hub_retain) simp

lemma calm_publishPairedRosterState [calm_rules]: "hub_calm E p P (publishPairedRosterState E)"
  unfolding publishPairedRosterState_def by (intro calm_rules calm_hub_retain) simp

section \<open>Events\<close>

lemma eq_inv_push: "eq_inv 16 192 q \<Longrightarrow> eq_inv 16 192 (snd (eq_push 16 192 x q))"
  by (rule events.push_keeps)

lemma eq_inv_pop: "eq_inv 16 192 q \<Longrightarrow> eq_inv 16 192 (snd (eq_pop 16 q))"
  using events.pop_keeps by blast

lemma calm_queueEvent [calm_rules]: "hub_calm E p P (queueEvent i ch bs)"
  unfolding queueEvent_def by (intro calm_upd_session) (simp_all add: session_wf_def eq_inv_push)

lemma calm_drainEvents: "(\<And>c. P c \<Longrightarrow> linked i c) \<Longrightarrow> hub_calm E p P (drainEvents E i n)"
  by (induction n) (simp_all add: hub.calm_return, intro calm_rules calm_sends calm_upd_session, simp_all add: session_wf_def eq_inv_pop)

text \<open>A transport handle that was read is there as long as the spine is the same.\<close>

lemma calm_transport:
  assumes "i < kSlotCapacity" and "\<And>t. hub_calm E p (\<lambda>c. P c \<and> (t \<noteq> None \<longrightarrow> linked i c)) (k t)"
  shows "hub_calm E p P (State_Monad.bind (transport_of i) k)"
  unfolding transport_of_def
  by (rule calm_read [where g = "\<lambda>t c. t \<noteq> None \<longrightarrow> linked i c"]) (use assms in \<open>auto simp: linked_spine\<close>)

lemma calm_pumpEventDrain [calm_rules]: "i < kSlotCapacity \<Longrightarrow> hub_calm E p P (pumpEventDrain E i)"
  unfolding pumpEventDrain_def
  by (intro hub.calm_bind hub.calm_gets calm_transport calm_if hub.calm_return calm_drainEvents) auto

lemma calm_publishEvent [calm_rules]: "hub_calm E p P (publishEvent E ch bs)"
  unfolding publishEvent_def by (intro calm_rules) auto

lemma calm_emitEvent [calm_rules]: "hub_calm E p P (emitEvent E ev cap)"
  unfolding emitEvent_def Let_def by (intro calm_rules)

lemma calm_emitTakeoverEvent [calm_rules]: "hub_calm E p P (emitTakeoverEvent E source owner now)"
  unfolding emitTakeoverEvent_def by (intro calm_rules)

lemma calm_emitSessionEvent [calm_rules]: "hub_calm E p P (emitSessionEvent E kind sid now)"
  unfolding emitSessionEvent_def by (intro calm_rules)

lemma calm_emitPairingEvent [calm_rules]: "hub_calm E p P (emitPairingEvent E kind inst name mode role version now)"
  unfolding emitPairingEvent_def by (intro calm_rules)

lemma calm_emitSafetyEvent [calm_rules]: "hub_calm E p P (emitSafetyEvent E now kind level)"
  unfolding emitSafetyEvent_def by (intro calm_rules)

lemma calm_emitSafetyEdgeEvents [calm_rules]: "hub_calm E p P (emitSafetyEdgeEvents E before now)"
  unfolding emitSafetyEdgeEvents_def Let_def by (intro calm_rules)

section \<open>The trust plane\<close>

lemma keeps_pending: "length t = length (pm_pending m) \<Longrightarrow> pairing_keeps m (m \<lparr> pm_pending := t \<rparr>)"
  by (simp add: pairing_keeps_def pm_inv_def)

lemma pending_lengths [simp]:
  "length (snd (pp_dropBySession sid t)) = length t" "length (snd (pp_expire now t)) = length t"
  "length (snd (pp_remove inst t)) = length t" "length (snd (pp_add inst sid ex mode t)) = length t"
  by (simp_all add: pp_dropBySession_map pp_expire_map pp_remove_def pp_add_def pp_fill_def split: option.split)

lemma keeps_windows [simp]:
  "pairing_keeps m (openWindow pin now m)" "pairing_keeps m (closeWindow m)"
  "pairing_keeps m (openPresenceWindow now m)" "pairing_keeps m (closePresenceWindow m)"
  by (simp_all add: pairing_keeps_def pm_inv_def openWindow_def closeWindow_def openPresenceWindow_def closePresenceWindow_def)

lemma tables_kept [simp]:
  "pm_pending (snd (observeHello inst ck cn cv hv pmode m)) = pm_pending m"
  "length (pm_entries (snd (observeHello inst ck cn cv hv pmode m))) = length (pm_entries m)"
  "pm_pending (snd (revoke inst m)) = pm_pending m" "length (pm_entries (snd (revoke inst m))) = length (pm_entries m)"
  "pm_pending (snd (pm_grant inst role mode fresh m)) = pm_pending m"
  "length (pm_entries (snd (pm_grant inst role mode fresh m))) = length (pm_entries m)"
  "pm_pending (setEntry k e m) = pm_pending m" "length (pm_entries (setEntry k e m)) = length (pm_entries m)"
  by (auto simp: observeHello_def revoke_def pm_grant_def setEntry_def touch_def pm_mint_def Let_def split: option.split prod.split)

lemma keeps_observe: "pairing_keeps m (snd (observeHello inst ck cn cv hv pmode m))"
  using observeHello_trust [of m inst ck cn cv hv pmode, OF _ prod.collapse [symmetric]] by (simp add: pairing_keeps_def)

lemma keeps_revoke: "pairing_keeps m (snd (revoke inst m))"
  using revoke_trust by (auto simp: pairing_keeps_def)

lemma keeps_grant: "pairing_keeps m (snd (pm_grant inst role mode fresh m))"
  using pm_grant_trust [of m inst role mode fresh] by (auto simp: pairing_keeps_def split: if_splits)

lemma keeps_counters [simp]:
  "pairing_keeps m (m' \<lparr> pm_failCount := k \<rparr>) = pairing_keeps m m'" "pairing_keeps m (m' \<lparr> pm_windowOpen := b \<rparr>) = pairing_keeps m m'"
  by (simp_all add: pairing_keeps_def pm_inv_def)

lemma keeps_pairReq: "pairing_keeps m (snd (handlePairReq crypto inst pf nonce fresh now role m))"
  using keeps_grant [of m inst role mode_pin_proof fresh]
  by (auto simp: handlePairReq_def Let_def split: option.split prod.split)

text \<open>A ledger entry that gets new identity strings.\<close>

lemma keeps_describe: "pairing_keeps m (setEntry k (describeEntry s (pm_entries m ! k)) m)"
proof -
  let ?es = "(pm_entries m)[k := describeEntry s (pm_entries m ! k)]"
  have "pe_used (?es ! j) = pe_used (pm_entries m ! j)" "pe_instance_id (?es ! j) = pe_instance_id (pm_entries m ! j)" for j
    by (rule nth_update_same, simp add: describeEntry_def)+
  then show ?thesis by (auto simp: pairing_keeps_def pm_inv_def slots_ok_def setEntry_def all_set_conv_all_nth)
qed

lemma calm_dropKnocksOf [calm_rules]: "hub_calm E p P (dropKnocksOf E sid now)"
proof -
  have "hub_calm E p P (act (\<lambda>h. let (ks, t) = pp_dropBySession sid (pm_pending (hb_pairing h))
    in (ks, h \<lparr> hb_pairing := (hb_pairing h) \<lparr> pm_pending := t \<rparr> \<rparr>)))"
    by (rule hub_calmI)
      (auto simp: split_beta Let_def intro!: pairing_frame keeps_pending)
  then show ?thesis unfolding dropKnocksOf_def by (intro calm_rules)
qed

lemma calm_removeKnock [calm_rules]: "hub_calm E p P (removeKnock inst)"
  unfolding removeKnock_def by (rule calm_pairing_set) (simp add: keeps_pending)

lemma calm_label_knock [calm_rules]: "hub_calm E p P (label_knock k f)"
  unfolding label_knock_def by (rule calm_pairing_set) (simp add: keeps_pending)

lemma calm_addKnock [calm_rules]: "hub_calm E p P (addKnock inst sid expires mode)"
  unfolding addKnock_def by (rule calm_pairing_do) (simp add: split_beta Let_def keeps_pending)

lemma calm_openPairingWindow [calm_rules]: "hub_calm E p P (openPairingWindow pin)"
  unfolding openPairingWindow_def by (intro calm_rules calm_pairing_set) simp

lemma calm_closePairingWindow [calm_rules]: "hub_calm E p P closePairingWindow"
  unfolding closePairingWindow_def by (intro calm_rules calm_pairing_set) simp

lemma calm_hub_openPresenceWindow [calm_rules]: "hub_calm E p P (hub_openPresenceWindow E)"
  unfolding hub_openPresenceWindow_def by (intro calm_rules calm_pairing_set) simp

lemma calm_hub_closePresenceWindow [calm_rules]: "hub_calm E p P (hub_closePresenceWindow E)"
  unfolding hub_closePresenceWindow_def by (intro calm_rules calm_pairing_set) simp

lemma calm_pumpPairing [calm_rules]: "hub_calm E p P (pumpPairing E now)"
  unfolding pumpPairing_def by (intro calm_rules calm_pairing_do) (simp add: split_beta Let_def keeps_pending)

lemma calm_applyTrustObservation [calm_rules]: "hub_calm E p P (applyTrustObservation E i now)"
  unfolding applyTrustObservation_def by (intro calm_rules calm_pairing_do keeps_observe)


lemma calm_slot_flags:
  assumes "\<And>s. sl_transport (f s) = sl_transport s" and "\<And>s. sl_session (f s) = sl_session s"
    and "\<And>s. length (sl_pushRecords (f s)) = length (sl_pushRecords s)"
    and "\<And>s. length (sl_conflictNacks (f s)) = length (sl_conflictNacks s)"
  shows "hub_calm E p P (upd_slot i f)"
  by (rule calm_upd_slot) (simp_all add: assms slot_spine_def hubslot_wf_def)

lemma calm_session_fields:
  assumes "\<And>s. hs_state (f s) = hs_state s" and "\<And>s. hs_session_id (f s) = hs_session_id s"
    and "\<And>s. hs_instance_id (f s) = hs_instance_id s" and "\<And>s. hs_subs (f s) = hs_subs s"
    and "\<And>s. hs_events (f s) = hs_events s" and "\<And>s. hs_intentRing (f s) = hs_intentRing s"
    and "\<And>s. length (hs_publishGrants (f s)) = length (hs_publishGrants s)"
  shows "hub_calm E p P (upd_session i f)"
  by (rule calm_upd_session) (simp_all add: assms session_wf_def)

lemma calm_armWelcomeSignature [calm_rules]: "hub_calm E p P (armWelcomeSignature E i w)"
  unfolding armWelcomeSignature_def Let_def by (intro calm_rules calm_slot_flags) simp_all

lemma calm_emitHubSig: "(\<And>c. P c \<Longrightarrow> linked i c) \<Longrightarrow> hub_calm E p P (emitHubSig E i sig)"
  unfolding emitHubSig_def Let_def by (intro calm_rules calm_sends)

lemma calm_takePendingSignJob [calm_rules]: "hub_calm E p P takePendingSignJob"
  unfolding takePendingSignJob_def by (intro calm_rules calm_slot_flags) simp_all

lemma find_upt: "find Q [0..<n] = Some i \<Longrightarrow> i < n \<and> Q i"
  by (auto simp: find_Some_iff)

text \<open>Reading the whole state: the slots are in reach and the handles are there.\<close>

lemma calm_read_state:
  assumes "\<And>h. hub_calm E p (\<lambda>c. P c \<and> (\<forall>i < kSlotCapacity. sl_transport (slot_of i h) \<noteq> None \<longrightarrow> linked i c) \<and>
      (sp_sized c \<longleftrightarrow> length (hb_slots h) = kSlotCapacity)) (k h)"
  shows "hub_calm E p P (State_Monad.bind (gets id) k)"
proof (rule calm_read [where g = "\<lambda>h c. (\<forall>i < kSlotCapacity. sl_transport (slot_of i h) \<noteq> None \<longrightarrow> linked i c) \<and>
    (sp_sized c \<longleftrightarrow> length (hb_slots h) = kSlotCapacity)"])
  have "sp_sized (spine h) \<longleftrightarrow> length (hb_slots h) = kSlotCapacity" for h :: "('a, 'b, 'c) Hub" by (simp add: spine_def)
  then show "(\<forall>i < kSlotCapacity. sl_transport (slot_of i (id h)) \<noteq> None \<longrightarrow> linked i (spine h)) \<and>
    (sp_sized (spine h) \<longleftrightarrow> length (hb_slots (id h)) = kSlotCapacity)" for h :: "('a, 'b, 'c) Hub"
    by (simp add: linked_spine)
qed (rule assms)

lemma findSlotBySession_less: "findSlotBySession sid h = Some i \<Longrightarrow> i < length (hb_slots h) \<and> occupied (session_of i h) \<and> hs_session_id (session_of i h) = sid"
  unfolding findSlotBySession_def by (auto dest!: find_upt split: if_splits)

lemma calm_submitSignature: "(\<And>c. P c \<Longrightarrow> sp_sized c) \<Longrightarrow> hub_calm E p P (submitSignature E sid sig)"
  unfolding submitSignature_def
  by (intro calm_if hub.calm_return calm_read_state calm_option hub.calm_bind calm_emitHubSig calm_slot_flags)
    (auto dest!: findSlotBySession_less)

lemma calm_signPending_loop: "(\<And>c. P c \<Longrightarrow> sp_sized c) \<Longrightarrow> hub_calm E p P (signPending_loop E fuel maxJobs n)"
  by (induction fuel arbitrary: n) (auto simp: Let_def intro!: calm_rules calm_submitSignature)

lemma calm_signPendingNow: "(\<And>c. P c \<Longrightarrow> sp_sized c) \<Longrightarrow> hub_calm E p P (signPendingNow E maxJobs)"
  unfolding signPendingNow_def by (rule calm_signPending_loop)

text \<open>A command that first changes the random source and the pairing manager at once.\<close>

lemma hub_frame_pairing:
  "pairing_keeps (hb_pairing h) m \<Longrightarrow> spine (h \<lparr> hb_rng := r, hb_pairing := m \<rparr>) = spine h \<and>
    hub_frame E h (h \<lparr> hb_rng := r, hb_pairing := m \<rparr>)"
  by (auto simp: hub_frame_def hub_wf_def hub_static_def spine_def safety_of_def pairing_keeps_sized)

lemma calm_from:
  assumes "\<And>h. P (spine h) \<Longrightarrow> \<exists>h1 m'. run_state m h = run_state m' h1 \<and> spine h1 = spine h \<and> hub_frame E h h1 \<and> hub_calm E p P m'"
  shows "hub_calm E p P m"
proof (rule hub_calmI)
  fix h :: "('a, 'b, 'c) Hub" assume P: "P (spine h)"
  then obtain h1 m' where m: "run_state m h = run_state m' h1" "spine h1 = spine h" "hub_frame E h h1" "hub_calm E p P m'"
    using assms by blast
  with P calmD [OF m(4), of h1] show "spine (snd (run_state m h)) = spine h" "hub_frame E h (snd (run_state m h))"
    by (auto simp: hub_moves_def intro: hub_frame_trans)
qed

lemma calm_issuePairGrant:
  assumes linked: "\<And>c. P c \<Longrightarrow> linked i c"
  shows "hub_calm E p P (issuePairGrant E i inst role mode now)"
proof (rule calm_from)
  fix h :: "('a, 'b, 'c) Hub"
  obtain fresh r where f: "env_fill E token_bytes (hb_rng h) = (fresh, r)" by fastforce
  show "\<exists>h1 m'. run_state (issuePairGrant E i inst role mode now) h = run_state m' h1 \<and> spine h1 = spine h \<and>
    hub_frame E h h1 \<and> hub_calm E p P m'"
  proof (cases "pm_grant inst role mode fresh (hb_pairing h)")
    case (Pair k m)
    then have wf: "pairing_keeps (hb_pairing h) m" using keeps_grant by (metis snd_conv)
    show ?thesis
    proof (cases k)
      case None
      have "run_state (issuePairGrant E i inst role mode now) h = run_state (return False) h"
        by (simp add: issuePairGrant_def Pair f None)
      then show ?thesis by (intro exI [of _ h] exI [of _ "return False"] conjI) (simp_all add: hub_frame_refl hub.calm_return)
    next
      case (Some k)
      let ?h1 = "h \<lparr> hb_rng := r, hb_pairing := setEntry k (describeEntry (session_of i h) (pm_entries m ! k)) m \<rparr>"
      let ?m = "if encodePairGrant (pairGrantFor E fresh role) 96 = [] then return False
        else do {
          _ \<leftarrow> sendSlot E i FT_PAIR_GRANT 0 (encodePairGrant (pairGrantFor E fresh role) 96) 0;
          upd_session i (\<lambda>s. s \<lparr> hs_role := role \<rparr>);
          removeKnock inst;
          emitPairingEvent E pev_granted inst (hs_clientName (session_of i h)) mode role (hs_clientVer (session_of i h)) now;
          publishPendingPairingState E now;
          publishPairedRosterState E;
          return True }"
      have "run_state (issuePairGrant E i inst role mode now) h = run_state ?m ?h1"
        by (simp add: issuePairGrant_def Pair f Some Let_def)
      moreover have "hub_calm E p P ?m" by (intro calm_rules calm_sends calm_session_fields linked) simp_all
      ultimately show ?thesis using hub_frame_pairing [OF pairing_keeps_trans [OF wf keeps_describe]]
        by (intro exI [of _ ?h1] exI [of _ ?m] conjI) simp_all
    qed
  qed
qed


section \<open>Push records, subscriptions and grants\<close>

lemma calm_findOrCreatePushRecord [calm_rules]: "hub_calm E p P (findOrCreatePushRecord i ch)"
  unfolding findOrCreatePushRecord_def by (intro calm_rules calm_slot_flags) simp_all

lemma calm_notePushed [calm_rules]: "hub_calm E p P (notePushed i pr seq)"
  unfolding notePushed_def by (intro calm_rules calm_slot_flags) simp_all

lemma map_nth_update_same: "g (f (xs ! i)) = g (xs ! i) \<Longrightarrow> map g (xs[i := f (xs ! i)]) = map g xs"
  by (rule nth_equalityI) (simp_all add: nth_update_same)

lemma st_inv_markPushed: "st_inv cap (t[k := markPushed now (t ! k)]) = st_inv cap t"
  using map_nth_update_same [of se_channel_id "markPushed now" t k] by (simp add: st_inv_def markPushed_def)

lemma st_inv_unpushed: "st_inv cap (map (\<lambda>e. e \<lparr> se_everPushed := b \<rparr>) t) = st_inv cap t"
  by (simp add: st_inv_def comp_def)

lemma st_inv_upsert: "st_inv cap t \<Longrightarrow> st_inv cap (snd (st_upsert cap ch rate prio t))"
  using subs.put_keeps [of cap t ch "(rate, prio)"] by simp

lemma st_inv_remove: "st_inv cap t \<Longrightarrow> st_inv cap (snd (st_remove ch t))"
proof (cases rule: st_find_cases [of ch t])
  case (found i)
  then have "st_remove ch t = (True, take i t @ drop (Suc i) t)" using shift_down [of i t] by (simp add: st_remove_def)
  with found show "st_inv cap t \<Longrightarrow> ?thesis"
    using kfind_remove [of se_channel_id t ch i] by (auto simp: st_inv_def st_find_def)
qed (simp add: st_remove_def)

lemma calm_markSubPushed [calm_rules]: "hub_calm E p P (markSubPushed i k now)"
  unfolding markSubPushed_def by (intro calm_upd_session) (simp_all add: session_wf_def st_inv_markPushed)

lemma calm_replayEventsOnGrant [calm_rules]: "hub_calm E p P (replayEventsOnGrant E i ch)"
  unfolding replayEventsOnGrant_def by (intro calm_rules)

lemma calm_grantWish [calm_rules]: "hub_calm E p P (grantWish E i wish)"
  unfolding grantWish_def Let_def by (intro calm_rules calm_upd_session) (simp_all add: session_wf_def st_inv_upsert)

lemma calm_handleSubscribe: "(\<And>c. P c \<Longrightarrow> linked i c) \<Longrightarrow> hub_calm E p P (handleSubscribe E i payload)"
  unfolding handleSubscribe_def Let_def by (intro calm_rules calm_sends)

lemma calm_handleUnsubscribe [calm_rules]: "hub_calm E p P (handleUnsubscribe i payload)"
  unfolding handleUnsubscribe_def by (intro calm_rules calm_upd_session) (simp_all add: session_wf_def st_inv_remove)

lemma addPublishGrant_simps [simp]:
  "hs_state (snd (addPublishGrant u ch rate now burst br fam s)) = hs_state s"
  "hs_session_id (snd (addPublishGrant u ch rate now burst br fam s)) = hs_session_id s"
  "hs_instance_id (snd (addPublishGrant u ch rate now burst br fam s)) = hs_instance_id s"
  "hs_subs (snd (addPublishGrant u ch rate now burst br fam s)) = hs_subs s"
  "hs_events (snd (addPublishGrant u ch rate now burst br fam s)) = hs_events s"
  "hs_intentRing (snd (addPublishGrant u ch rate now burst br fam s)) = hs_intentRing s"
  "length (hs_publishGrants (snd (addPublishGrant u ch rate now burst br fam s))) = length (hs_publishGrants s)"
  by (simp_all add: addPublishGrant_def Let_def split: option.split)

lemma calm_grantPublishWish [calm_rules]: "hub_calm E p P (grantPublishWish E i wish now)"
  unfolding grantPublishWish_def Let_def by (intro calm_rules calm_session_fields) simp_all

lemma calm_grantPublishWishes [calm_rules]: "hub_calm E p P (grantPublishWishes E i wishes now)"
  unfolding grantPublishWishes_def by (intro calm_rules)

lemma calm_handleCatalogReady [calm_rules]: "hub_calm E p P (handleCatalogReady i payload)"
  unfolding handleCatalogReady_def by (intro calm_rules calm_session_fields) simp_all

lemma calm_sendWelcome: "(\<And>c. P c \<Longrightarrow> linked i c) \<Longrightarrow> hub_calm E p P (sendWelcome E i grants gps now)"
  unfolding sendWelcome_def Let_def by (intro calm_rules calm_sends calm_slot_flags) simp_all

lemma calm_presentedRole [calm_rules]: "hub_calm E p P (presentedRole E m)"
  unfolding presentedRole_def Let_def by (intro calm_rules)

lemma calm_helloRole [calm_rules]: "hub_calm E p P (helloRole E i m role now)"
  unfolding helloRole_def by (intro calm_rules calm_session_fields) simp_all

lemma calm_helloGrants [calm_rules]: "hub_calm E p P (helloGrants E i wishes)"
  unfolding helloGrants_def by (intro calm_rules)

lemma calm_noteIdentity [calm_rules]: "hub_calm E p P (upd_session i (noteIdentity m))"
  by (intro calm_session_fields) (simp_all add: noteIdentity_def)

lemma calm_noteSignRequest [calm_rules]: "hub_calm E p P (upd_slot i (noteSignRequest m))"
  by (intro calm_slot_flags) (simp_all add: noteSignRequest_def)


section \<open>Intents, streams and small requests\<close>

lemma calm_storeEcho [calm_rules]: "hub_calm E p P (storeEcho i intent_id echo)"
  unfolding storeEcho_def
proof (intro calm_upd_session)
  fix s assume "session_wf s"
  then show "session_wf (s \<lparr> hs_intentRing := snd (ir_store kIntentDepth kIntentSlotBytes intent_id echo (hs_intentRing s)) \<rparr>)"
    using ir_store_holds [of 32 96 "hs_intentRing s" _ echo intent_id] ir_store_refuses [of 96 echo 32 intent_id "hs_intentRing s"]
    by (cases "length echo \<le> 96") (auto simp: session_wf_def)
qed simp_all

lemma calm_dropBundle [calm_rules]: "hub_calm E p P (dropBundle i)"
  unfolding dropBundle_def by (intro calm_session_fields) simp_all

lemma calm_acceptBundle [calm_rules]: "hub_calm E p P (acceptBundle E i ch bundle)"
  unfolding acceptBundle_def by (intro calm_rules calm_session_fields) simp_all

lemma calm_handlePing: "(\<And>c. P c \<Longrightarrow> linked i c) \<Longrightarrow> hub_calm E p P (handlePing E i payload)"
  unfolding handlePing_def Let_def by (intro calm_rules calm_sends)

lemma calm_handleClock: "(\<And>c. P c \<Longrightarrow> linked i c) \<Longrightarrow> hub_calm E p P (handleClock E i payload)"
  unfolding handleClock_def Let_def by (intro calm_rules calm_sends)

lemma calm_handleProbeRequest: "(\<And>c. P c \<Longrightarrow> linked i c) \<Longrightarrow> hub_calm E p P (handleProbeRequest E i)"
  unfolding handleProbeRequest_def Let_def by (intro calm_deref calm_rules)

lemma calm_handleProbeReportFrame [calm_rules]: "hub_calm E p P (handleProbeReportFrame i payload)"
  unfolding handleProbeReportFrame_def by (intro calm_rules calm_slot_flags) simp_all

section \<open>Blobs\<close>

lemma calm_resolveBlobBytes [calm_rules]: "hub_calm E p P (resolveBlobBytes E i id')"
  unfolding resolveBlobBytes_def Let_def by (intro calm_rules)

lemma calm_handleBlobReq: "(\<And>c. P c \<Longrightarrow> linked i c) \<Longrightarrow> hub_calm E p P (handleBlobReq E i payload)"
  unfolding handleBlobReq_def by (intro calm_rules calm_sends calm_slot_flags) simp_all

lemma calm_refuseBlob: "(\<And>c. P c \<Longrightarrow> linked i c) \<Longrightarrow> hub_calm E p P (refuseBlob E i n)"
  unfolding refuseBlob_def by (intro calm_rules calm_sends calm_slot_flags) simp_all

lemma calm_finishBlob [calm_rules]: "hub_calm E p P (finishBlob i cc)"
  unfolding finishBlob_def by (intro calm_slot_flags) simp_all

lemma calm_sendChunks: "(\<And>c. P c \<Longrightarrow> linked i c) \<Longrightarrow> hub_calm E p P (sendChunks E i id' encoded budget)"
  by (induction budget) (simp_all add: Let_def calm_finishBlob, intro calm_rules calm_sends calm_refuseBlob calm_slot_flags, simp_all)

lemma calm_pumpBlobTransfer: "(\<And>c. P c \<Longrightarrow> linked i c) \<Longrightarrow> hub_calm E p P (pumpBlobTransfer E i)"
  unfolding pumpBlobTransfer_def Let_def by (intro calm_rules calm_refuseBlob calm_sendChunks calm_slot_flags) simp_all

section \<open>Pacing\<close>

lemma calm_bumpShedCounter [calm_rules]: "hub_calm E p P (bumpShedCounter i k)"
  unfolding bumpShedCounter_def by (intro calm_rules calm_slot_flags) simp_all

lemma calm_transmits [calm_rules]: "hub_calm E p P (transmits i pr decision)"
  unfolding transmits_def by (intro calm_rules)

lemma calm_paceOne: "(\<And>c. P c \<Longrightarrow> linked i c) \<Longrightarrow> hub_calm E p P (paceOne E i now k)"
  unfolding paceOne_def Let_def by (intro calm_rules calm_sends)

lemma calm_pumpStatePacing: "(\<And>c. P c \<Longrightarrow> linked i c) \<Longrightarrow> hub_calm E p P (pumpStatePacing E i now)"
  unfolding pumpStatePacing_def by (intro calm_rules calm_paceOne)

section \<open>Calls of the application\<close>

lemma calm_publishState: "ch \<noteq> ch_safety \<Longrightarrow> hub_calm E p P (publishState ch payload)"
  unfolding publishState_def by (intro calm_rules calm_hub_retain)

lemma calm_setCongestionLevel [calm_rules]: "hub_calm E p P (setCongestionLevel i level)"
  unfolding setCongestionLevel_def by (intro calm_rules calm_slot_flags) simp_all

lemma calm_setTransportCongestion [calm_rules]: "hub_calm E p P (setTransportCongestion t level)"
  unfolding setTransportCongestion_def by (intro calm_rules)

lemma calm_publishLog [calm_rules]: "hub_calm E p P (publishLog E level tag message)"
  unfolding publishLog_def Let_def
proof (intro calm_rules hub_calmI)
  fix h :: "('a, 'b, 'c) Hub" and bs
  have "rr_inv 32 192 (hb_logRing h) \<Longrightarrow> rr_inv 32 192 (snd (rr_push 32 192 bs (hb_logRing h)))" by (rule replay.push_keeps)
  then show "hub_frame E h (snd (run_state (modify (\<lambda>h. h \<lparr> hb_logRing := snd (rr_push 32 192 bs (hb_logRing h)) \<rparr>)) h))"
    by (simp add: hub_frame_def hub_wf_def hub_static_def)
qed (simp_all add: spine_def safety_of_def)

lemma calm_settings [calm_rules]:
  "hub_calm E p P bumpConfigGeneration" "hub_calm E p P (setInlineSigning on)"
  "hub_calm E p P (setHubIdentity product fw name)" "hub_calm E p P (setHubInstanceId v)" "hub_calm E p P (setEndpoint port ip)"
  unfolding bumpConfigGeneration_def setInlineSigning_def setHubIdentity_def setHubInstanceId_def setEndpoint_def
  by (rule calm_rest, simp add: rest_same_def safety_of_def hub_static_def)+

end
