(* ===== verification/Hub_Steps.thy ===== *)
theory Hub_Steps
  imports Hub_Calm
begin

text \<open>
  The commands of the hub that move the spine, each along \<open>hub_step\<close>: the end of a session, tracked sends, the safety
  plane, HELLO, INTENT and STREAM, the timers, the dispatcher. Every command keeps the number of slots (\<open>sp_sized\<close>), and a
  command that answers over the link of slot \<open>i\<close> asks for \<open>linked i\<close>.
\<close>

section \<open>Primitive moves\<close>

lemma step_sized: "hub_step p c c' \<Longrightarrow> sp_sized c' = sp_sized c"
  by (induction rule: hub_step.induct) simp_all

lemma steps_sized: "hub_steps p c c' \<Longrightarrow> sp_sized c' = sp_sized c"
  by (induction rule: rtranclp_induct) (simp_all add: step_sized)

abbreviation sized :: "nat \<Rightarrow> Spine \<Rightarrow> bool" where
  "sized i c \<equiv> sp_sized c \<and> i < kSlotCapacity"

definition put_slot :: "nat \<Rightarrow> (SlotSpine \<Rightarrow> SlotSpine) \<Rightarrow> Spine \<Rightarrow> Spine" where
  "put_slot i g c = c \<lparr> sp_slots := (sp_slots c)[i := g (sp_slots c ! i)] \<rparr>"

lemma spine_put_slot:
  assumes "\<And>s. slot_spine (f s) = g (slot_spine s)" and "sized i (spine h)"
  shows "spine (h \<lparr> hb_slots := (hb_slots h)[i := f (hb_slots h ! i)] \<rparr>) = put_slot i g (spine h)"
  using assms by (auto simp: spine_def safety_of_def put_slot_def nth_list_update intro!: nth_equalityI)

lemma length_spine [simp]: "length (sp_slots (spine h)) = kSlotCapacity"
  by (simp add: spine_def)

lemma traces_upd_slot:
  assumes "\<And>s. slot_spine (f s) = g (slot_spine s)" and "\<And>s. hubslot_wf s \<Longrightarrow> hubslot_wf (f s)"
    and "\<And>c. P c \<Longrightarrow> sized i c"
    and "\<And>c. P c \<Longrightarrow> length (sp_slots c) = kSlotCapacity \<Longrightarrow> hub_steps p c (put_slot i g c) \<and> Q () (put_slot i g c)"
  shows "hub_traces E p P (upd_slot i f) Q"
proof (rule hub_tracesI)
  fix h :: "('a, 'b, 'c) Hub"
  assume P: "P (spine h)"
  then have "spine (h \<lparr> hb_slots := (hb_slots h)[i := f (hb_slots h ! i)] \<rparr>) = put_slot i g (spine h)"
    using spine_put_slot [where f = f and g = g] assms(1,3) by blast
  with P assms(4) [OF P] slots_frame [where f = f and i = i, OF assms(2)]
  show "hub_frame E h (snd (run_state (upd_slot i f) h)) \<and> hub_steps p (spine h) (spine (snd (run_state (upd_slot i f) h))) \<and>
      Q (fst (run_state (upd_slot i f) h)) (spine (snd (run_state (upd_slot i f) h)))"
    by (simp add: upd_slot_def)
qed

text \<open>What the session of a slot shows of the spine.\<close>

definition seen :: "nat \<Rightarrow> HubSession \<Rightarrow> Spine \<Rightarrow> bool" where
  "seen i s c \<longleftrightarrow> ss_state (sp_slots c ! i) = hs_state s \<and> ss_id (sp_slots c ! i) = hs_session_id s \<and>
     ss_inst (sp_slots c ! i) = hs_instance_id s"

lemma seen_spine: "i < kSlotCapacity \<Longrightarrow> seen i (session_of i h) (spine h)"
  by (simp add: seen_def spine_def slot_spine_def session_of_def)

lemma seen_occupied: "seen i s c \<Longrightarrow> ss_occupied (sp_slots c ! i) = occupied s"
  by (simp add: seen_def ss_occupied_def occupied_def)

lemma traces_session:
  "i < kSlotCapacity \<Longrightarrow> (\<And>s. hub_traces E p (\<lambda>c. P c \<and> seen i s c) (k s) Q) \<Longrightarrow>
    hub_traces E p P (State_Monad.bind (gets (session_of i)) k) Q"
  by (rule traces_gets [where g = "seen i"]) (simp_all add: seen_spine)

lemma traces_transport:
  "i < kSlotCapacity \<Longrightarrow> (\<And>t. hub_traces E p (\<lambda>c. P c \<and> (t \<noteq> None \<longleftrightarrow> linked i c)) (k t) Q) \<Longrightarrow>
    hub_traces E p P (State_Monad.bind (transport_of i) k) Q"
  unfolding transport_of_def by (rule traces_gets [where g = "\<lambda>t c. t \<noteq> None \<longleftrightarrow> linked i c"]) (simp_all add: linked_spine)

text \<open>The ownership table.\<close>

lemma releaseAllOf_owners:
  "snd (releaseAllOf sid t) = map (\<lambda>e. if so_used e \<and> so_owner e = sid then e \<lparr> so_owner := 0, so_role := watch \<rparr> else e) t"
  by (induction t) (auto simp: split_beta Let_def)

lemma owners_release: "owners (snd (releaseAllOf sid t)) = owners t - {sid}"
  by (auto simp: releaseAllOf_owners owners_def image_iff)

definition released :: "u32 \<Rightarrow> Spine \<Rightarrow> Spine" where
  "released sid c = c \<lparr> sp_own := snd (releaseAllOf sid (sp_own c)) \<rparr>"

lemma released_simps [simp]:
  "sp_slots (released sid c) = sp_slots c" "sp_sized (released sid c) = sp_sized c"
  "owners (sp_own (released sid c)) = owners (sp_own c) - {sid}" "linked i (released sid c) = linked i c"
  "seen i s (released sid c) = seen i s c"
  by (simp_all add: released_def owners_release linked_def seen_def)

lemma traces_releaseSessionSources:
  assumes "\<And>c. P c \<Longrightarrow> Q () (released sid c)"
  shows "hub_traces E p P (releaseSessionSources E sid reason) Q"
proof -
  have "hub_traces E p P (act (\<lambda>h. let (hits, t) = releaseAllOf sid (hb_ownership h) in (hits, h \<lparr> hb_ownership := t \<rparr>)))
      (\<lambda>_. Q ())"
  proof (rule hub_tracesI)
    fix h :: "('a, 'b, 'c) Hub" assume "P (spine h)"
    let ?h = "h \<lparr> hb_ownership := snd (releaseAllOf sid (hb_ownership h)) \<rparr>"
    have s: "spine ?h = released sid (spine h)" by (simp add: spine_def safety_of_def released_def)
    have f: "hub_frame E h ?h"
      using releaseAllOf_refines [of "hb_ownership h" sid] by (auto simp: hub_frame_def hub_wf_def hub_static_def)
    have "hub_steps p (spine h) (released sid (spine h))"
      unfolding released_def by (rule r_into_rtranclp) (rule hub_step.Release)
    then show "hub_frame E h (snd (run_state (act (\<lambda>h. let (hits, t) = releaseAllOf sid (hb_ownership h) in (hits, h \<lparr> hb_ownership := t \<rparr>))) h)) \<and>
      hub_steps p (spine h) (spine (snd (run_state (act (\<lambda>h. let (hits, t) = releaseAllOf sid (hb_ownership h) in (hits, h \<lparr> hb_ownership := t \<rparr>))) h))) \<and>
      Q () (spine (snd (run_state (act (\<lambda>h. let (hits, t) = releaseAllOf sid (hb_ownership h) in (hits, h \<lparr> hb_ownership := t \<rparr>))) h)))"
      using s f assms \<open>P (spine h)\<close> by (simp add: split_beta Let_def)
  qed
  then show ?thesis unfolding releaseSessionSources_def
    by (rule hub.traces_bind) (intro hub.traces_calm_post calm_rules, simp)
qed


section \<open>The end of a session\<close>

lemma put_slot_simps [simp]:
  "sp_own (put_slot i g c) = sp_own c" "sp_sized (put_slot i g c) = sp_sized c"
  "length (sp_slots (put_slot i g c)) = length (sp_slots c)"
  "sp_safety (put_slot i g c) = sp_safety c" "sp_shown (put_slot i g c) = sp_shown c" "sp_fault (put_slot i g c) = sp_fault c"
  by (simp_all add: put_slot_def)

lemma put_slot_same [simp]: "i < length (sp_slots c) \<Longrightarrow> sp_slots (put_slot i g c) ! i = g (sp_slots c ! i)"
  by (simp add: put_slot_def)

lemma put_slot_other [simp]: "j \<noteq> i \<Longrightarrow> sp_slots (put_slot i g c) ! j = sp_slots c ! j"
  by (simp add: put_slot_def)

lemma put_slot_id: "g (sp_slots c ! i) = sp_slots c ! i \<Longrightarrow> put_slot i g c = c"
  by (cases c) (simp add: put_slot_def)

lemma session_wf_new: "session_wf HubSession_new"
  using ir_holds_new [of 32 96]
  by (auto simp: session_wf_def HubSession_new_def st_inv_def eq_inv_new)

lemma HubSession_new_simps [simp]:
  "hs_state HubSession_new = S_FREE" "hs_session_id HubSession_new = 0" "hs_instance_id HubSession_new = replicate 8 0"
  by (simp_all add: HubSession_new_def)

definition staled :: "nat \<Rightarrow> Spine \<Rightarrow> Spine" where
  "staled i c = put_slot i (\<lambda>s. s \<lparr> ss_state := S_STALE \<rparr>) (released (ss_id (sp_slots c ! i)) c)"

definition vacated :: "nat \<Rightarrow> Spine \<Rightarrow> Spine" where
  "vacated i c = (if ss_occupied (sp_slots c ! i) then released (ss_id (sp_slots c ! i)) c else c)"

definition closed :: "nat \<Rightarrow> Spine \<Rightarrow> Spine" where
  "closed i c = put_slot i (\<lambda>s. free_spine (ss_link s)) (vacated i c)"

lemma vacated_simps [simp]: "sp_slots (vacated i c) = sp_slots c" "sp_sized (vacated i c) = sp_sized c"
  by (simp_all add: vacated_def)

lemma step_stale:
  "i < length (sp_slots c) \<Longrightarrow> ss_occupied (sp_slots c ! i) \<Longrightarrow> ss_id (sp_slots c ! i) \<notin> owners (sp_own c) \<Longrightarrow>
    hub_steps p c (put_slot i (\<lambda>s. s \<lparr> ss_state := S_STALE \<rparr>) c)"
  unfolding put_slot_def by (rule r_into_rtranclp) (rule hub_step.Stale)

lemma step_close:
  "i < length (sp_slots c) \<Longrightarrow> \<not> ss_occupied (sp_slots c ! i) \<or> ss_id (sp_slots c ! i) \<notin> owners (sp_own c) \<Longrightarrow>
    hub_steps p c (put_slot i (\<lambda>s. free_spine (ss_link s)) c)"
  unfolding put_slot_def by (rule r_into_rtranclp) (rule hub_step.Close)

lemma traces_markStale:
  assumes "\<And>c. P c \<Longrightarrow> sized i c \<and> ss_occupied (sp_slots c ! i)"
    and "\<And>c. P c \<Longrightarrow> length (sp_slots c) = kSlotCapacity \<Longrightarrow> Q () (staled i c)"
  shows "hub_traces E p P (markStale E i now reason) Q"
proof (rule traces_pure [of _ "i < kSlotCapacity"])
  assume i: "i < kSlotCapacity"
  show ?thesis unfolding markStale_def
  proof (rule traces_session [OF i], rule hub.traces_bind)
    fix s
    let ?M = "\<lambda>c'. \<exists>c. P c \<and> c' = released (ss_id (sp_slots c ! i)) c"
    show "hub_traces E p (\<lambda>c. P c \<and> seen i s c) (releaseSessionSources E (hs_session_id s) reason) (\<lambda>_. ?M)"
      by (rule traces_releaseSessionSources) (auto simp: seen_def)
    show "hub_traces E p ?M (do { upd_session i (\<lambda>s. s \<lparr> hs_state := S_STALE, hs_staleSinceMs := now \<rparr>);
        emitSessionEvent E session_stale (hs_session_id s) now }) Q"
      unfolding upd_session_def
    proof (rule hub.traces_bind)
      show "hub_traces E p ?M (upd_slot i (\<lambda>s. s \<lparr> sl_session := (sl_session s) \<lparr> hs_state := S_STALE, hs_staleSinceMs := now \<rparr> \<rparr>)) (\<lambda>_. Q ())"
        using assms i
        by (intro traces_upd_slot [where g = "\<lambda>s. s \<lparr> ss_state := S_STALE \<rparr>"])
          (auto simp: slot_spine_def hubslot_wf_def session_wf_def staled_def intro!: step_stale)
    qed (intro hub.traces_calm_post calm_rules, simp)
  qed
qed (use assms in auto)


lemma traces_teardownSession:
  assumes "\<And>c. P c \<Longrightarrow> sized i c"
    and "\<And>c. P c \<Longrightarrow> length (sp_slots c) = kSlotCapacity \<Longrightarrow> Q () (closed i c)"
  shows "hub_traces E p P (teardownSession E i now) Q"
proof (rule traces_pure [of _ "i < kSlotCapacity"])
  assume i: "i < kSlotCapacity"
  show ?thesis unfolding teardownSession_def
  proof (rule traces_session [OF i], rule hub.traces_bind)
    fix s
    let ?M = "\<lambda>c'. \<exists>c. P c \<and> c' = vacated i c"
    show "hub_traces E p (\<lambda>c. P c \<and> seen i s c) (whenever (occupied s) (do {
        releaseSessionSources E (hs_session_id s) 4;
        dropKnocksOf E (hs_session_id s) now;
        app_tell (env_onSessionLeft E (hs_session_id s)) })) (\<lambda>_. ?M)"
    proof (rule hub.traces_when)
      assume occ: "occupied s"
      have "hub_traces E p (\<lambda>c. P c \<and> seen i s c) (releaseSessionSources E (hs_session_id s) 4) (\<lambda>_. ?M)"
      proof (rule traces_releaseSessionSources)
        fix c assume "P c \<and> seen i s c"
        with occ show "?M (released (hs_session_id s) c)"
          using seen_occupied [of i s c] by (intro exI [of _ c]) (simp add: vacated_def seen_def)
      qed
      then show "hub_traces E p (\<lambda>c. P c \<and> seen i s c) (do {
        releaseSessionSources E (hs_session_id s) 4;
        dropKnocksOf E (hs_session_id s) now;
        app_tell (env_onSessionLeft E (hs_session_id s)) }) (\<lambda>_. ?M)"
        by (rule hub.traces_bind) (intro hub.traces_calm calm_rules)
    qed (auto simp: vacated_def seen_occupied)
    show "hub_traces E p ?M (upd_slot i (\<lambda>s. clearHandshake (s \<lparr> sl_session := HubSession_new,
      sl_pushRecords := replicate max_subscriptions_per_session PushRecord_new,
      sl_conflictNacks := replicate 4 ConflictNack_new \<rparr>))) Q"
      using assms i
      by (intro traces_upd_slot [where g = "\<lambda>s. free_spine (ss_link s)"])
        (auto simp: slot_spine_def hubslot_wf_def closed_def free_spine_def clearHandshake_def session_wf_new
          intro!: step_close [unfolded free_spine_def], auto simp: vacated_def)
  qed
qed (use assms in auto)


lemma traces_closeTransport:
  assumes "\<And>c. P c \<Longrightarrow> sized i c \<and> (\<not> ss_occupied (sp_slots c ! i) \<or> ss_state (sp_slots c ! i) = S_STALE)"
    and "\<And>c. P c \<Longrightarrow> length (sp_slots c) = kSlotCapacity \<Longrightarrow> Q () (put_slot i (\<lambda>s. s \<lparr> ss_link := None \<rparr>) c)"
  shows "hub_traces E p P (closeTransport E i) Q"
proof (rule traces_pure [of _ "i < kSlotCapacity"])
  assume i: "i < kSlotCapacity"
  show ?thesis unfolding closeTransport_def
  proof (rule traces_transport [OF i], rule traces_option)
    fix t :: "nat option" assume t: "t = None"
    have *: "put_slot i (\<lambda>s. s \<lparr> ss_link := None \<rparr>) c = c" if "\<not> linked i c" for c
      using that i by (intro put_slot_id) (simp add: linked_def)
    show "hub_traces E p (\<lambda>c. P c \<and> (t \<noteq> None \<longleftrightarrow> linked i c)) skip Q"
      using assms(2) * t by (intro hub_tracesI) (auto simp: hub_frame_refl, metis length_spine)
  next
    fix t and t' :: nat assume t: "t = Some t'"
    have calm: "hub_calm E p P' (modify (\<lambda>h. h \<lparr> hb_wire := (hb_wire h)(t' := env_close E (hb_wire h t')) \<rparr>))" for P'
      by (rule hub_calmI) (auto intro!: wire_frame wire_step.intros)
    show "hub_traces E p (\<lambda>c. P c \<and> (t \<noteq> None \<longleftrightarrow> linked i c))
        (do { modify (\<lambda>h. h \<lparr> hb_wire := (hb_wire h)(t' := env_close E (hb_wire h t')) \<rparr>);
              upd_slot i (\<lambda>s. s \<lparr> sl_transport := None \<rparr>) }) Q"
      using assms i
      by (intro hub.traces_step [OF calm] traces_upd_slot [where g = "\<lambda>s. s \<lparr> ss_link := None \<rparr>"])
        (auto simp: slot_spine_def hubslot_wf_def put_slot_def intro!: r_into_rtranclp hub_step.Unlink)
  qed
qed (use assms in auto)

abbreviation hub_runs :: "('t, 'd, 'r) HubEnv \<Rightarrow> power \<Rightarrow> (Spine \<Rightarrow> bool) \<Rightarrow> (('t, 'd, 'r) Hub, 'a) state \<Rightarrow> bool" where
  "hub_runs E p P m \<equiv> hub_traces E p P m (\<lambda>_. sp_sized)"

lemma runs_calm: "hub_calm E p P m \<Longrightarrow> (\<And>c. P c \<Longrightarrow> sp_sized c) \<Longrightarrow> hub_runs E p P m"
  by (rule hub.traces_calm_post)

lemma runs_then: "hub_runs E p P m \<Longrightarrow> (\<And>x. hub_runs E p sp_sized (f x)) \<Longrightarrow> hub_runs E p P (State_Monad.bind m f)"
  by (rule hub.traces_bind)

lemma runs_markStale: "(\<And>c. P c \<Longrightarrow> sized i c \<and> ss_occupied (sp_slots c ! i)) \<Longrightarrow> hub_runs E p P (markStale E i now reason)"
  by (rule traces_markStale) (auto simp: staled_def)

lemma runs_teardownSession: "(\<And>c. P c \<Longrightarrow> sized i c) \<Longrightarrow> hub_runs E p P (teardownSession E i now)"
  by (rule traces_teardownSession) (auto simp: closed_def)

lemma calm_stall [calm_rules]:
  "hub_calm E p P (upd_slot i (\<lambda>s. s \<lparr> sl_congestionLevel := 0, sl_criticalStalling := False \<rparr>))"
  "hub_calm E p P (upd_slot i (\<lambda>s. s \<lparr> sl_criticalStalling := False \<rparr>))"
  "hub_calm E p P (upd_slot i (\<lambda>s. s \<lparr> sl_criticalStalling := True, sl_criticalStallSinceMs := now \<rparr>))"
  "hub_calm E p P (upd_slot i clearHandshake)"
  by (rule calm_slot_flags; simp add: clearHandshake_def)+

lemma runs_parkAndDetach:
  assumes "\<And>c. P c \<Longrightarrow> sized i c"
  shows "hub_runs E p P (parkAndDetach E i now)"
proof (rule traces_pure [of _ "i < kSlotCapacity"])
  assume i: "i < kSlotCapacity"
  let ?parked = "\<lambda>c. sized i c \<and> (\<not> ss_occupied (sp_slots c ! i) \<or> ss_state (sp_slots c ! i) = S_STALE)"
  show ?thesis unfolding parkAndDetach_def
  proof (rule traces_session [OF i], rule hub.traces_bind)
    fix s
    have "hub_traces E p (\<lambda>c. P c \<and> seen i s c) (markStale E i now 4) (\<lambda>_. ?parked)" if "occupied s"
      using assms that by (intro traces_markStale) (auto simp: seen_occupied staled_def i)
    then show "hub_traces E p (\<lambda>c. P c \<and> seen i s c) (whenever (occupied s \<and> hs_state s \<noteq> S_STALE) (do {
        markStale E i now 4; dropKnocksOf E (hs_session_id s) now; upd_slot i clearHandshake })) (\<lambda>_. ?parked)"
      using assms i by (intro hub.traces_when hub.traces_bind [where S = "\<lambda>_. ?parked"] hub.traces_calm calm_rules)
        (auto simp: seen_occupied seen_def)
    have "hub_runs E p ?parked (closeTransport E i)" by (rule traces_closeTransport) auto
    then show "hub_runs E p ?parked (do { closeTransport E i;
        upd_slot i (\<lambda>s. s \<lparr> sl_congestionLevel := 0, sl_criticalStalling := False \<rparr>) })"
      by (rule runs_then) (intro runs_calm calm_rules)
  qed
qed (use assms in auto)

lemma runs_trackCriticalSend: "(\<And>c. P c \<Longrightarrow> sized i c) \<Longrightarrow> hub_runs E p P (trackCriticalSend E i ok now)"
  unfolding trackCriticalSend_def
  by (intro hub.traces_step traces_if runs_parkAndDetach runs_calm calm_rules) auto

lemma runs_sendFrameToTracked:
  "(\<And>c. P c \<Longrightarrow> sized i c) \<Longrightarrow> hub_runs E p P (sendFrameToTracked E i type channel payload now seq)"
  unfolding sendFrameToTracked_def
  by (intro hub.traces_step traces_option runs_then runs_trackCriticalSend runs_calm calm_rules) auto

lemma runs_sendNackTracked: "(\<And>c. P c \<Longrightarrow> sized i c) \<Longrightarrow> hub_runs E p P (sendNackTracked E i n now)"
  unfolding sendNackTracked_def Let_def
  by (intro hub.traces_step traces_option runs_trackCriticalSend runs_calm calm_rules) auto

lemma runs_evictSlot: "(\<And>c. P c \<Longrightarrow> sized i c) \<Longrightarrow> hub_runs E p P (evictSlot E i code now)"
  unfolding evictSlot_def
  by (intro hub.traces_step runs_then runs_teardownSession runs_calm calm_rules) auto


section \<open>The safety plane\<close>

lemma latched_bit: "latched s \<longleftrightarrow> bit (sf_word s) 0"
  by (simp add: latched_def and_one_eq bit_0 odd_iff_mod_2_eq_one)

text \<open>The snapshot is published, unless the store never had room for it.\<close>

lemma rs_get_published:
  assumes "length payload \<le> 242"
  shows "map_option snd (rs_get ch (snd (rs_publish cap ch payload t))) = Some payload \<or>
    rs_get ch t = None \<and> rs_get ch (snd (rs_publish cap ch payload t)) = None"
proof (cases rule: rs_find_cases [of ch t])
  case (found i)
  then have "rs_find ch (t[i := rs_entry ch payload (Some (t ! i))]) = Some i"
    using find_index_map [of "\<lambda>c. c = ch" re_channel_id t] find_index_map [of "\<lambda>c. c = ch" re_channel_id "t[i := rs_entry ch payload (Some (t ! i))]"]
      rs_publish_found(3) [OF found(1) assms]
    by (simp add: rs_find_def comp_def)
  with found assms show ?thesis by (simp add: rs_publish_found rs_get_def) (simp add: rs_entry_def)
next
  case missing
  have "find_index (\<lambda>e. re_channel_id e = ch) (t @ [e]) = Some (length t)" if "re_channel_id e = ch" for e
    using missing that by (intro find_index_unique) (auto simp: rs_find_def find_index_None nth_append)
  with missing assms show ?thesis by (simp add: rs_publish_missing rs_get_def rs_find_def) (simp add: rs_entry_def)
qed

definition safety_change :: "(('t, 'd, 'r) Hub \<Rightarrow> ('t, 'd, 'r) Hub) \<Rightarrow> bool" where
  "safety_change f \<longleftrightarrow> (\<forall>h. hb_slots (f h) = hb_slots h \<and> hb_ownership (f h) = hb_ownership h \<and>
     hb_retained (f h) = hb_retained h \<and> hb_fault (f h) = hb_fault h \<and> hb_wire (f h) = hb_wire h \<and>
     hub_static (f h) = hub_static h \<and> hb_pairing (f h) = hb_pairing h \<and> hb_logRing (f h) = hb_logRing h)"

text \<open>A change of the safety fields and the snapshot that follows it are one step.\<close>

lemma safety_step:
  assumes "safety_change f" and "latched (safety_of (f h)) = latched (safety_of h) \<or> latched (safety_of (f h)) \<or> p = Clears"
    and "h' = snd (run_state publishSafetySnapshot (f h))"
  shows "hub_frame E h h' \<and> hub_steps p (spine h) (spine h') \<and> sp_sized (spine h') = sp_sized (spine h)"
proof -
  let ?r = "snd (rs_publish kRetainedCapacity ch_safety (safety_bytes (safety_of (f h))) (hb_retained h))"
  have len: "length (safety_bytes (safety_of (f h))) \<le> 242" by (simp add: safety_bytes_def u32_bytes_def u16_bytes_def)
  have h': "h' = (f h) \<lparr> hb_retained := ?r \<rparr>"
    using assms(1) unfolding assms(3) publishSafetySnapshot_def hub_retain_def
    by (simp add: split_beta Let_def buildSafetyPayload_bytes safety_change_def)
  have sp: "spine h' = (spine h) \<lparr> sp_safety := safety_of (f h), sp_shown := map_option snd (rs_get ch_safety ?r) \<rparr>"
    using assms(1) by (simp add: h' spine_def safety_change_def) (simp add: safety_of_def)
  have "hub_step p (spine h) (spine h')"
    unfolding sp using assms(2) rs_get_published [OF len, of ch_safety kRetainedCapacity "hb_retained h"]
    by (intro hub_step.Safety) (auto simp: spine_def)
  moreover have "hub_frame E h h'"
    using assms(1) rs_publish_inv by (auto simp: h' hub_frame_def hub_wf_def safety_change_def hub_static_def)
  ultimately show ?thesis by (simp add: sp)
qed

lemma runs_safety_end:
  assumes "safety_change f" and "\<And>h. latched (safety_of (f h)) = latched (safety_of h) \<or> latched (safety_of (f h)) \<or> p = Clears"
    and "\<And>c. P c \<Longrightarrow> sp_sized c"
  shows "hub_runs E p P (do { modify f; publishSafetySnapshot })"
  using assms(3) safety_step [OF assms(1,2) refl] by (intro hub_tracesI) simp

lemma runs_safety:
  assumes "safety_change f" and "\<And>h. latched (safety_of (f h)) = latched (safety_of h) \<or> latched (safety_of (f h)) \<or> p = Clears"
    and "\<And>c. P c \<Longrightarrow> sp_sized c" and "\<And>x. hub_traces E p sp_sized (k x) Q"
  shows "hub_traces E p P (do { modify f; x \<leftarrow> publishSafetySnapshot; k x }) Q"
  using hub.traces_bind [OF runs_safety_end [OF assms(1-3)] assms(4)] by (simp only: State_Monad.bind_assoc)

lemma runs_broadcastSafetyNow: "(\<And>c. P c \<Longrightarrow> sp_sized c) \<Longrightarrow> hub_runs E p P (broadcastSafetyNow E now)"
  unfolding broadcastSafetyNow_def
  by (rule traces_pre [where P = sp_sized])
    (intro hub.traces_step traces_option traces_prod hub.traces_for_each traces_if runs_then runs_sendFrameToTracked runs_calm calm_rules; simp)

lemma latch_simps:
  "latched (safety_of (h \<lparr> hb_safetyModes := m \<rparr>)) = latched (safety_of h)"
  "latched (safety_of (h \<lparr> hb_safetyWord := w, hb_safetyCause := cause, hb_estopSeq := sq \<rparr>)) = bit w 0"
  "latched (safety_of (h \<lparr> hb_safetyWord := w \<rparr>)) = bit w 0"
  "latched (safety_of (h \<lparr> hb_safetyWord := w, hb_safetyOwnerSession := sid \<rparr>)) = bit w 0"
  "latched (safety_of (h \<lparr> hb_safetyWord := w, hb_safetyCause := cause, hb_safetyOwnerSession := sid \<rparr>)) = bit w 0"
  "latched (safety_of h) = bit (hb_safetyWord h) 0"
  by (simp_all add: latched_bit safety_of_def)

lemmas safety_changes = safety_change_def hub_static_def latch_simps bit_or_iff bit_and_iff bit_not_iff

lemma runs_handleEstopFrame:
  assumes "\<And>c. P c \<Longrightarrow> sp_sized c"
  shows "hub_runs E p P (handleEstopFrame E f now)"
  unfolding handleEstopFrame_def
proof (rule hub.traces_step [OF hub.calm_gets], rule runs_then)
  fix before
  show "hub_runs E p P (whenever (before AND ESTOP_BIT = 0) (do {
      app_tell (env_onEstop E (estop_cause f) (estop_origin f));
      modify (\<lambda>h. h \<lparr> hb_safetyWord := hb_safetyWord h OR ESTOP_BIT, hb_safetyCause := estop_cause f,
                        hb_estopSeq := estop_seq f \<rparr>);
      publishSafetySnapshot }))"
    by (intro hub.traces_when hub.traces_step [OF calm_app_tell] runs_safety_end) (auto simp: safety_changes assms)
  show "hub_runs E p sp_sized (do { broadcastSafetyNow E now; emitSafetyEdgeEvents E before now })"
    by (intro runs_then runs_broadcastSafetyNow runs_calm calm_rules)
qed

lemma runs_announce:
  "(\<And>c. P c \<Longrightarrow> sp_sized c) \<Longrightarrow> hub_runs E p P (do { broadcastSafetyNow E now; emitSafetyEdgeEvents E before now })"
  by (intro runs_then runs_broadcastSafetyNow runs_calm calm_rules)

lemma runs_latchEstop: "(\<And>c. P c \<Longrightarrow> sp_sized c) \<Longrightarrow> hub_runs E p P (latchEstop E cause origin seq)"
  unfolding latchEstop_def by (intro hub.traces_step [OF calm_clockNowMs] runs_handleEstopFrame)

lemma runs_setSafetyModes: "(\<And>c. P c \<Longrightarrow> sp_sized c) \<Longrightarrow> hub_runs E p P (setSafetyModes E override bypass)"
  unfolding setSafetyModes_def Let_def
  by (intro hub.traces_step [OF hub.calm_gets] traces_if runs_safety hub.traces_step [OF calm_clockNowMs] runs_broadcastSafetyNow
      runs_calm calm_rules) (auto simp: safety_changes)

lemma runs_clearStopLatch: "(\<And>c. P c \<Longrightarrow> sp_sized c) \<Longrightarrow> hub_runs E p P (clearStopLatch E now)"
  unfolding clearStopLatch_def
  by (intro hub.traces_step [OF hub.calm_gets] hub.traces_when runs_safety runs_announce) (auto simp: safety_changes)

text \<open>The release of the latch, which needs the permission.\<close>

lemma runs_clearEstop: "(\<And>c. P c \<Longrightarrow> sp_sized c) \<Longrightarrow> hub_runs E Clears P (clearEstop E)"
  unfolding clearEstop_def
  by (intro hub.traces_step [OF hub.calm_gets] hub.traces_step [OF calm_app_ask] traces_if runs_safety runs_then
      hub.traces_step [OF calm_clockNowMs] runs_broadcastSafetyNow runs_calm calm_rules) (auto simp: safety_changes)


definition opLatch :: "u8 \<Rightarrow> u32 \<Rightarrow> ('t, 'd, 'r) Hub \<Rightarrow> ('t, 'd, 'r) Hub" where
  "opLatch op sid h = (case safetyOpLatch op sid h of None \<Rightarrow> h | Some h' \<Rightarrow> h')"

lemma opLatch_change: "safety_change (opLatch op sid)"
  by (auto simp: safety_change_def opLatch_def safetyOpLatch_def Let_def hub_static_def)

lemma opLatch_latched: "latched (safety_of (opLatch op sid h)) = latched (safety_of h)"
  by (auto simp: opLatch_def safetyOpLatch_def Let_def latched_bit safety_of_def bit_or_iff bit_and_iff bit_not_iff)

lemma opLatch_seq: "hb_estopSeq (opLatch op sid h) = hb_estopSeq h"
  by (auto simp: opLatch_def safetyOpLatch_def Let_def)

lemma run_applySafetyOpLatch:
  "run_state (applySafetyOpLatch op sid) h = (safety_of (opLatch op sid h) \<noteq> safety_of h, opLatch op sid h)"
  using opLatch_seq [of op sid h] by (auto simp: applySafetyOpLatch_def opLatch_def safety_of_def split: option.splits)

lemma runs_safetyOp:
  assumes "\<And>c. P c \<Longrightarrow> sp_sized c"
  shows "hub_runs E p P (do {
    changed \<leftarrow> applySafetyOpLatch op sid;
    whenever changed (do { publishSafetySnapshot; broadcastSafetyNow E now; emitSafetyEdgeEvents E before now }) })"
    (is "hub_runs E p P ?m")
proof (rule hub_tracesI)
  fix h :: "('a, 'b, 'c) Hub" assume P: "P (spine h)"
  let ?n = "do { modify (opLatch op sid); publishSafetySnapshot; broadcastSafetyNow E now; emitSafetyEdgeEvents E before now }"
  have n: "hub_runs E p P ?n" by (rule runs_safety [OF opLatch_change]) (auto simp: opLatch_latched assms intro: runs_announce)
  show "hub_frame E h (snd (run_state ?m h)) \<and> hub_steps p (spine h) (spine (snd (run_state ?m h))) \<and> sp_sized (spine (snd (run_state ?m h)))"
  proof (cases "safety_of (opLatch op sid h) = safety_of h")
    case True
    moreover have "safety_change (opLatch op sid :: ('a, 'b, 'c) Hub \<Rightarrow> _)" by (rule opLatch_change)
    ultimately have "rest_same h (opLatch op sid h)" by (simp add: rest_same_def safety_change_def)
    from rest_same_calm [OF this] True P assms show ?thesis by (simp add: run_applySafetyOpLatch whenever_def)
  next
    case False
    then have "snd (run_state ?m h) = snd (run_state ?n h)" by (simp add: run_applySafetyOpLatch whenever_def)
    then show ?thesis using tracesD [OF n P] by (simp add: hub_moves_def)
  qed
qed

section \<open>Intents and streams\<close>

text \<open>The session of a slot may act.\<close>

definition active :: "nat \<Rightarrow> Spine \<Rightarrow> bool" where
  "active i c \<longleftrightarrow> ss_occupied (sp_slots c ! i) \<and> ss_state (sp_slots c ! i) \<noteq> S_STALE"

lemma runs_acquireFor:
  assumes "\<And>c. P c \<Longrightarrow> sized i c \<and> active i c"
  shows "hub_traces E p P (acquireFor E i source takeover) (\<lambda>_ c. \<exists>c0. P c0 \<and> sp_slots c = sp_slots c0 \<and> sp_sized c)"
proof (rule traces_pure [of _ "i < kSlotCapacity"])
  assume i: "i < kSlotCapacity"
  let ?Q = "\<lambda>c. \<exists>c0. P c0 \<and> sp_slots c = sp_slots c0 \<and> sp_sized c"
  show ?thesis unfolding acquireFor_def
  proof (rule traces_session [OF i], rule hub.traces_bind)
    fix s :: HubSession
    let ?m = "act (\<lambda>h. let (r, t) = acquire source (hs_session_id s) (hs_role s) takeover (hb_ownership h)
                      in (r, h \<lparr> hb_ownership := t \<rparr>))"
    show "hub_traces E p (\<lambda>c. P c \<and> seen i s c) ?m (\<lambda>_. ?Q)"
    proof (rule hub_tracesI)
      fix h :: "('a, 'b, 'c) Hub" assume P: "P (spine h) \<and> seen i s (spine h)"
      let ?t = "snd (acquire source (hs_session_id s) (hs_role s) takeover (hb_ownership h))"
      have h': "snd (run_state ?m h) = h \<lparr> hb_ownership := ?t \<rparr>" by (simp add: split_beta Let_def)
      have sp: "spine (h \<lparr> hb_ownership := ?t \<rparr>) = (spine h) \<lparr> sp_own := ?t \<rparr>" by (simp add: spine_def safety_of_def)
      have "hub_frame E h (h \<lparr> hb_ownership := ?t \<rparr>)"
        using acquire_refines [of "hb_ownership h"] by (auto simp: hub_frame_def hub_wf_def hub_static_def)
      moreover have "hub_step p (spine h) ((spine h) \<lparr> sp_own := snd (acquire source (ss_id (sp_slots (spine h) ! i))
          (hs_role s) takeover (sp_own (spine h))) \<rparr>)"
        using P assms i by (intro hub_step.Acquire) (auto simp: active_def)
      ultimately show "hub_frame E h (snd (run_state ?m h)) \<and> hub_steps p (spine h) (spine (snd (run_state ?m h))) \<and>
          ?Q (spine (snd (run_state ?m h)))"
        using P assms [of "spine h"] unfolding h' sp
        by (auto simp: seen_def spine_def intro!: exI [of _ "spine h"])
    qed
  qed (intro hub.traces_calm calm_rules)
qed (use assms in auto)


lemma runs_echoIntent: "(\<And>c. P c \<Longrightarrow> sized i c) \<Longrightarrow> hub_runs E p P (echoIntent E i m applied cap now)"
  unfolding echoIntent_def Let_def
  by (intro hub.traces_step traces_if runs_then runs_sendFrameToTracked runs_calm calm_rules) auto

lemma runs_applyAndEcho:
  assumes "\<And>c. P c \<Longrightarrow> sized i c"
  shows "hub_runs E p P (applyAndEcho E i m mapped now)"
proof (rule traces_pure [of _ "i < kSlotCapacity"])
  assume i: "i < kSlotCapacity"
  have opt: "hub_runs E p sp_sized (case safetyOpOf m of None \<Rightarrow> skip
      | Some op \<Rightarrow> do {
          changed \<leftarrow> applySafetyOpLatch (ucast op) sid;
          whenever changed (do { publishSafetySnapshot; broadcastSafetyNow E now; emitSafetyEdgeEvents E before now }) })" for sid before
    by (intro traces_option runs_safetyOp hub.traces_return)
  have rest: "hub_runs E p sp_sized (do { whenever mapped (clearStopLatch E now); echoIntent E i m values 256 now })" for "values"
    using i by (intro runs_then hub.traces_when runs_clearStopLatch runs_echoIntent) auto
  show ?thesis unfolding applyAndEcho_def
    by (rule traces_pre [where P = sp_sized])
      (auto intro!: hub.traces_step [OF hub.calm_gets] hub.traces_step [OF calm_app_ask] hub.traces_step [OF hub.calm_when] calm_rules
        runs_then [OF opt rest] runs_sendNackTracked simp: i assms split: prod.split sum.split)
qed (use assms in auto)


text \<open>Reading the whole state.\<close>

definition mirrors :: "('t, 'd, 'r) Hub \<Rightarrow> Spine \<Rightarrow> bool" where
  "mirrors h c \<longleftrightarrow> (\<forall>i < kSlotCapacity. (sl_transport (slot_of i h) \<noteq> None \<longleftrightarrow> linked i c) \<and> seen i (session_of i h) c) \<and>
     (sp_sized c \<longrightarrow> length (hb_slots h) = kSlotCapacity)"

lemma mirrors_spine: "mirrors h (spine h)"
proof -
  have "sp_sized (spine h) \<longleftrightarrow> length (hb_slots h) = kSlotCapacity" by (simp add: spine_def)
  then show ?thesis by (simp add: mirrors_def seen_spine linked_spine)
qed

lemma traces_state:
  "(\<And>h. hub_traces E p (\<lambda>c. P c \<and> mirrors h c) (k h) Q) \<Longrightarrow> hub_traces E p P (State_Monad.bind (gets id) k) Q"
  by (rule traces_gets [where g = mirrors]) (simp_all add: mirrors_spine)

lemma traces_read_slot:
  "(\<And>h i. f h = Some i \<Longrightarrow> i < length (hb_slots h)) \<Longrightarrow>
   (\<And>v. hub_traces E p (\<lambda>c. P c \<and> (sp_sized c \<longrightarrow> (\<forall>i. v = Some i \<longrightarrow> i < kSlotCapacity))) (k v) Q) \<Longrightarrow>
   hub_traces E p P (State_Monad.bind (gets f) k) Q"
  by (rule traces_gets [where g = "\<lambda>v c. sp_sized c \<longrightarrow> (\<forall>i. v = Some i \<longrightarrow> i < kSlotCapacity)"])
    (simp add: spine_def, metis)

lemma traces_admitIntent:
  assumes "\<And>c. P c \<Longrightarrow> sized i c \<and> linked i c"
  shows "hub_traces E p P (admitIntent E i m now) (\<lambda>pass c. sp_sized c \<and> (pass \<longrightarrow> P c))"
proof -
  have refuse: "hub_traces E p P (do { sendNack E i n; return False }) (\<lambda>pass c. sp_sized c \<and> (pass \<longrightarrow> P c))" for n
    using assms by (intro hub.traces_step hub.traces_return calm_sends) auto
  have cached: "hub_traces E p P (do { _ \<leftarrow> sendFrameToTracked E i type ch bs now seq; return False })
      (\<lambda>pass c. sp_sized c \<and> (pass \<longrightarrow> P c))" for type ch bs seq
    using assms by (intro hub.traces_bind [OF runs_sendFrameToTracked] hub.traces_return) auto
  have limiter: "hub_calm E p P (upd_session i (\<lambda>s. s \<lparr> hs_intentLimiter := snd (rl_allow now (hs_intentLimiter s)) \<rparr>))"
    by (intro calm_session_fields) simp_all
  show ?thesis unfolding admitIntent_def Let_def
    using assms by (intro hub.traces_step [OF hub.calm_gets] hub.traces_step [OF limiter] traces_if traces_option refuse cached hub.traces_return) auto
qed

lemma runs_handleAdminIntent:
  assumes "\<And>c. P c \<Longrightarrow> sized i c"
  shows "hub_runs E p P (handleAdminIntent E i m now)"
proof (rule traces_pure [of _ "i < kSlotCapacity"])
  assume i: "i < kSlotCapacity"
  have nack: "\<And>Q n. (\<And>c. Q c \<Longrightarrow> sp_sized c) \<Longrightarrow> hub_runs E p Q (sendNackTracked E i n now)"
    using i by (intro runs_sendNackTracked) auto
  have echo: "\<And>Q a cap. (\<And>c. Q c \<Longrightarrow> sp_sized c) \<Longrightarrow> hub_runs E p Q (echoIntent E i m a cap now)"
    using i by (intro runs_echoIntent) auto
  have evict: "hub_runs E p sp_sized (do { victim \<leftarrow> gets (findSlotBySession sid);
      case victim of
        None \<Rightarrow> sendNackTracked E i n now
      | Some v \<Rightarrow> do { echoIntent E i m a cap now; goodbyeTo E v NK_SESSION_EVICTED; teardownSession E v now } })" for sid n a cap
  proof (rule traces_read_slot)
    fix v
    show "hub_runs E p (\<lambda>c. sp_sized c \<and> (sp_sized c \<longrightarrow> (\<forall>i. v = Some i \<longrightarrow> i < kSlotCapacity))) (case v of
        None \<Rightarrow> sendNackTracked E i n now
      | Some v \<Rightarrow> do { echoIntent E i m a cap now; goodbyeTo E v NK_SESSION_EVICTED; teardownSession E v now })"
      by (rule traces_pure [of _ "\<forall>i. v = Some i \<longrightarrow> i < kSlotCapacity"])
        (auto intro!: nack runs_then [OF echo] hub.traces_step [OF calm_goodbyeTo] runs_teardownSession split: option.split)
  qed (auto dest: findSlotBySession_less)
  have approve: "hub_runs E p sp_sized (do {
      h \<leftarrow> gets id;
      case pp_find inst (pm_pending (hb_pairing h)) of
        None \<Rightarrow> sendNackTracked E i n now
      | Some k \<Rightarrow>
          (case (case findSlotBySession (pk_session_id (pm_pending (hb_pairing h) ! k)) h of
                  None \<Rightarrow> None
                | Some j \<Rightarrow> if sl_transport (slot_of j h) = None then None else Some j) of
            None \<Rightarrow> do {
              removeKnock inst;
              emitPairingEvent E pev_expired (pk_instance_id (pm_pending (hb_pairing h) ! k)) [] (pk_mode (pm_pending (hb_pairing h) ! k)) watch [] now;
              publishPendingPairingState E now;
              sendNackTracked E i n now }
          | Some j \<Rightarrow> do {
              ok \<leftarrow> issuePairGrant E j inst role (pk_mode (pm_pending (hb_pairing h) ! k)) now;
              if \<not> ok then sendNackTracked E i n' now else echoIntent E i m a cap now }) })" for inst role n n' a cap
    by (intro traces_state traces_option nack hub.traces_step [OF calm_issuePairGrant] hub.traces_step [OF calm_removeKnock]
        hub.traces_step [OF calm_emitPairingEvent] hub.traces_step [OF calm_publishPendingPairingState] traces_if echo)
      (auto simp: mirrors_def dest!: findSlotBySession_less split: option.splits if_splits)
  show ?thesis unfolding handleAdminIntent_def Let_def
    by (rule traces_pre [where P = sp_sized], (intro traces_option traces_if evict approve nack echo hub.traces_step
        calm_rules calm_pairing_set calm_pairing_do keeps_revoke; simp)+) (simp add: assms)
qed (use assms in auto)


text \<open>
  An intent may release the ESTOP latch only if it carries the op \<open>estop_clear\<close>.
\<close>

lemma runs_handleIntent:
  assumes "\<And>c. P c \<Longrightarrow> sized i c \<and> linked i c \<and> active i c"
    and "\<And>m. decodeIntent payload = Inr m \<Longrightarrow> safetyOpOf m = Some op_estop_clear \<Longrightarrow> p = Clears"
  shows "hub_runs E p P (handleIntent E i payload now)"
proof (rule traces_pure [of _ "i < kSlotCapacity"])
  assume i: "i < kSlotCapacity"
  have nack: "\<And>Q n. (\<And>c. Q c \<Longrightarrow> sp_sized c) \<Longrightarrow> hub_runs E p Q (sendNackTracked E i n now)"
    using i by (intro runs_sendNackTracked) auto
  have echo: "\<And>Q m a cap. (\<And>c. Q c \<Longrightarrow> sp_sized c) \<Longrightarrow> hub_runs E p Q (echoIntent E i m a cap now)"
    using i by (intro runs_echoIntent) auto
  have apply': "\<And>Q m mapped. (\<And>c. Q c \<Longrightarrow> sp_sized c) \<Longrightarrow> hub_runs E p Q (applyAndEcho E i m mapped now)"
    using i by (intro runs_applyAndEcho) auto
  have clear: "hub_runs E p Q (clearEstop E)" if "p = Clears" "\<And>c. Q c \<Longrightarrow> sp_sized c" for Q
    using runs_clearEstop [of Q E] that by simp
  have acquire: "\<And>Q source takeover. (\<And>c. Q c \<Longrightarrow> P c) \<Longrightarrow> hub_runs E p Q (acquireFor E i source takeover)"
    using assms by (intro traces_post [OF runs_acquireFor]) auto
  show ?thesis unfolding handleIntent_def
  proof (rule traces_sum, goal_cases)
    case (2 m)
    show ?case
    proof (rule hub.traces_bind [OF traces_admitIntent], use assms in blast, rule traces_if, goal_cases)
      case (2 pass)
      then show ?case using assms \<open>decodeIntent payload = Inr m\<close>
        by (intro traces_if traces_let traces_option hub.traces_step [OF hub.calm_gets] runs_then [OF clear]
            runs_then [OF runs_handleEstopFrame] runs_handleAdminIntent hub.traces_step [OF calm_app_ask] runs_then [OF acquire]
            hub.traces_step [OF hub.calm_when [OF calm_emitTakeoverEvent]] nack echo apply') auto
    qed (auto intro: hub.traces_return)
  qed (use assms in \<open>auto intro!: runs_calm calm_sends\<close>)
qed (use assms in auto)


lemma runs_sendStreamOverageNack: "(\<And>c. P c \<Longrightarrow> sized i c) \<Longrightarrow> hub_runs E p P (sendStreamOverageNack E i k ch now)"
  unfolding sendStreamOverageNack_def
  by (intro hub.traces_step [OF hub.calm_gets] traces_if hub.traces_step [OF calm_session_fields] runs_sendNackTracked runs_calm calm_rules) auto

lemma runs_sendSourceConflictNack: "(\<And>c. P c \<Longrightarrow> sized i c) \<Longrightarrow> hub_runs E p P (sendSourceConflictNack E i source ch now)"
  unfolding sendSourceConflictNack_def
  by (intro hub.traces_step [OF hub.calm_gets] traces_option hub.traces_step [OF calm_slot_flags] runs_sendNackTracked runs_calm calm_rules) auto

lemma runs_handleStream:
  assumes "\<And>c. P c \<Longrightarrow> sized i c \<and> active i c"
  shows "hub_runs E p P (handleStream E i ch payload now)"
proof (rule traces_pure [of _ "i < kSlotCapacity"])
  assume i: "i < kSlotCapacity"
  have acquire: "\<And>source takeover. hub_runs E p P (acquireFor E i source takeover)"
    using assms by (intro traces_post [OF runs_acquireFor]) auto
  have limiter: "hub_calm E p P (upd_session i (\<lambda>s. s \<lparr> hs_publishGrants := (hs_publishGrants s)[k := (hs_publishGrants s ! k) \<lparr> pu_limiter := l \<rparr>] \<rparr>))" for k l
    by (intro calm_session_fields) simp_all
  have forget: "hub_calm E p Q (upd_slot i (\<lambda>s. s \<lparr> sl_conflictNacks := map f (sl_conflictNacks s) \<rparr>))" for Q f
    by (intro calm_slot_flags) simp_all
  show ?thesis unfolding handleStream_def
    using assms i
    by (intro hub.traces_step [OF hub.calm_gets] traces_option traces_prod hub.traces_step [OF limiter] traces_if
        hub.traces_step [OF calm_dropBundle] runs_sendStreamOverageNack hub.traces_step [OF calm_app_ask] runs_then [OF acquire]
        runs_sendSourceConflictNack hub.traces_step [OF hub.calm_when [OF forget]] runs_calm calm_rules) auto
qed (use assms in auto)

section \<open>Trust and sessions\<close>

lemma runs_handleAuth:
  assumes "\<And>c. P c \<Longrightarrow> sized i c \<and> linked i c"
  shows "hub_runs E p P (handleAuth E i payload now)"
proof -
  have fail: "hub_calm E p P (upd_slot i (\<lambda>s. s \<lparr> sl_authFailures := sl_authFailures s + 1 \<rparr>))"
    by (intro calm_slot_flags) simp_all
  have gb: "hub_calm E p P (whenever b (do { _ \<leftarrow> sendSlot E i type ch bs seq; skip }))" for b type ch bs seq
    using assms by (intro calm_rules calm_sends) auto
  have nack: "hub_calm E p P (sendNack E i n)" for n using assms by (intro calm_sends) auto
  show ?thesis unfolding handleAuth_def Let_def
    using assms
    by (intro hub.traces_step [OF hub.calm_gets] traces_if traces_option traces_prod hub.traces_step [OF fail] hub.traces_step [OF nack]
        hub.traces_step [OF gb] hub.traces_when runs_teardownSession hub.traces_step [OF calm_session_fields]
        runs_calm calm_rules calm_sends calm_slot_flags calm_session_fields) auto
qed


lemma runs_handleKnock:
  assumes "\<And>c. P c \<Longrightarrow> sized i c \<and> linked i c"
  shows "hub_runs E p P (handleKnock E i m now)"
  unfolding handleKnock_def Let_def
  using assms
  by (intro hub.traces_step [OF hub.calm_gets] traces_if runs_sendNackTracked hub.traces_step [OF calm_pairing_set]
      hub.traces_step [OF calm_presenceWasOpen] hub.traces_step [OF calm_issuePairGrant] hub.traces_step [OF calm_addKnock]
      traces_option runs_calm calm_rules) auto

lemma traces_from:
  assumes "\<And>h. P (spine h) \<Longrightarrow> \<exists>h1 m'. run_state m h = run_state m' h1 \<and> spine h1 = spine h \<and> hub_frame E h h1 \<and> hub_traces E p P m' Q"
  shows "hub_traces E p P m Q"
proof (rule hub_tracesI)
  fix h :: "('a, 'b, 'c) Hub" assume P: "P (spine h)"
  then obtain h1 m' where m: "run_state m h = run_state m' h1" "spine h1 = spine h" "hub_frame E h h1" "hub_traces E p P m' Q"
    using assms by blast
  with P tracesD [OF m(4), of h1]
  show "hub_frame E h (snd (run_state m h)) \<and> hub_steps p (spine h) (spine (snd (run_state m h))) \<and>
      Q (fst (run_state m h)) (spine (snd (run_state m h)))"
    by (auto simp: hub_moves_def intro: hub_frame_trans)
qed

lemma runs_hub_handlePairReq:
  assumes "\<And>c. P c \<Longrightarrow> sized i c \<and> linked i c"
  shows "hub_runs E p P (hub_handlePairReq E i payload now)"
proof -
  have nack: "hub_runs E p P (sendNack E i n)" for n using assms by (intro runs_calm calm_sends) auto
  have pin: "hub_runs E p P (hub_handlePairReq E i payload now)"
    if m: "decodePairReq payload = Inr m" "pr_pin_proof m = Some pin_proof" for m pin_proof
  proof (rule traces_from)
    fix h :: "('a, 'b, 'c) Hub"
    obtain fresh r where f: "env_fill E token_bytes (hb_rng h) = (fresh, r)" by fastforce
    obtain outcome pm where o: "handlePairReq (env_crypto E) (pr_instance_id m) pin_proof (sl_nonce (slot_of i h)) fresh now
        control (hb_pairing h) = (outcome, pm)" by fastforce
    let ?s = "session_of i h"
    let ?m = "case outcome of
        Granted \<Rightarrow> do {
          modify (\<lambda>h. h \<lparr> hb_rng := r \<rparr>);
          let buf = encodePairGrant (pairGrantFor E fresh control) 96;
          whenever (buf \<noteq> []) (do { _ \<leftarrow> sendSlot E i FT_PAIR_GRANT 0 buf 0; skip });
          (case findByInstance (pr_instance_id m) pm of
             None \<Rightarrow> skip
           | Some k \<Rightarrow> pairing_set (\<lambda>pm. setEntry k (describeEntry ?s (pm_entries pm ! k)) pm));
          upd_session i (\<lambda>s. s \<lparr> hs_role := control \<rparr>);
          emitPairingEvent E pev_granted (pr_instance_id m) (hs_clientName ?s) mode_pin_proof control (hs_clientVer ?s) now;
          publishPairedRosterState E }
      | Denied \<Rightarrow> sendNack E i (nack NK_PAIRING_DENIED)
      | WindowClosed \<Rightarrow> sendNack E i (nack NK_PAIRING_REQUIRED)"
    have "run_state (hub_handlePairReq E i payload now) h = run_state ?m (h \<lparr> hb_pairing := pm \<rparr>)"
      by (simp add: hub_handlePairReq_def m f o Let_def)
    moreover have "hub_frame E h (h \<lparr> hb_pairing := pm \<rparr>)"
      using keeps_pairReq o by (intro pairing_frame) (metis snd_conv)
    moreover have "hub_runs E p P ?m"
      using assms by (cases outcome) (auto simp: Let_def nack intro!: runs_calm calm_rules calm_sends calm_pairing_set
          keeps_describe calm_session_fields)
    ultimately show "\<exists>h1 m'. run_state (hub_handlePairReq E i payload now) h = run_state m' h1 \<and> spine h1 = spine h \<and>
        hub_frame E h h1 \<and> hub_runs E p P m'"
      by (intro exI [of _ "h \<lparr> hb_pairing := pm \<rparr>"] exI [of _ ?m]) simp
  qed
  show ?thesis
  proof (cases "decodePairReq payload")
    case (Inr m)
    then show ?thesis using pin runs_handleKnock [of P i E p m now] assms
      by (cases "pr_pin_proof m") (auto simp: hub_handlePairReq_def)
  qed (simp add: hub_handlePairReq_def nack)
qed

lemma runs_handlePublish: "(\<And>c. P c \<Longrightarrow> sized i c) \<Longrightarrow> hub_runs E p P (handlePublish E i payload now)"
  unfolding handlePublish_def Let_def
  by (intro traces_sum runs_sendNackTracked hub.traces_step [OF calm_grantPublishWishes] hub.traces_when
      runs_then [OF runs_sendFrameToTracked] runs_calm calm_rules) auto

end
