(* ===== verification/Hub_Invariant.thy ===== *)
theory Hub_Invariant
  imports Hub_Steps
begin

text \<open>
  The invariant of the spine and the commands whose moves rest on it: admission of sessions, the dispatcher, the timers and
  \<^verbatim>\<open>update\<close>; then every hub that the application can reach by its calls.
\<close>

section \<open>The invariant\<close>

definition occupants :: "SlotSpine list \<Rightarrow> nat set" where
  "occupants t = {i. i < length t \<and> ss_occupied (t ! i)}"

text \<open>
  Who owns a control source is a session that may act; such a session has a transport; at most four sessions, all with
  different instance ids; no null transport was dereferenced.
\<close>

definition spine_inv :: "Spine \<Rightarrow> bool" where
  "spine_inv c \<longleftrightarrow> length (sp_slots c) = kSlotCapacity \<and>
     (\<forall>w \<in> owners (sp_own c). \<exists>i < kSlotCapacity. active i c \<and> ss_id (sp_slots c ! i) = w) \<and>
     (\<forall>i < kSlotCapacity. active i c \<longrightarrow> ss_link (sp_slots c ! i) \<noteq> None) \<and>
     card (occupants (sp_slots c)) \<le> kHubMaxSessions \<and>
     inj_on (\<lambda>i. ss_inst (sp_slots c ! i)) (occupants (sp_slots c)) \<and>
     sp_fault c \<noteq> Some NullTransport"

lemma spine_invD:
  assumes "spine_inv c"
  shows "length (sp_slots c) = kSlotCapacity"
    and "\<And>w. w \<in> owners (sp_own c) \<Longrightarrow> \<exists>i < kSlotCapacity. active i c \<and> ss_id (sp_slots c ! i) = w"
    and "\<And>i. i < kSlotCapacity \<Longrightarrow> active i c \<Longrightarrow> ss_link (sp_slots c ! i) \<noteq> None"
    and "card (occupants (sp_slots c)) \<le> kHubMaxSessions"
    and "inj_on (\<lambda>i. ss_inst (sp_slots c ! i)) (occupants (sp_slots c))"
    and "sp_fault c \<noteq> Some NullTransport"
  using assms by (simp_all add: spine_inv_def)

lemma finite_occupants [simp]: "finite (occupants t)" "finite (others i t)"
  by (simp_all add: occupants_def others_def)

lemma others_occupants: "others i t \<subseteq> occupants t"
  by (auto simp: others_def occupants_def)

lemma occupants_split: "i < length t \<Longrightarrow> occupants t = (if ss_occupied (t ! i) then insert i (others i t) else others i t)"
  by (auto simp: occupants_def others_def)

lemma others_notin [simp]: "i \<notin> others i t"
  by (simp add: others_def)

lemma others_update: "others i (t[i := x]) = others i t"
  by (auto simp: others_def nth_list_update)

lemma occupants_update:
  "i < length t \<Longrightarrow> occupants (t[i := x]) = (if ss_occupied x then insert i (others i t) else others i t)"
  using occupants_split [of i "t[i := x]"] by (simp add: others_update)

lemma owners_update: "owners (t[i := e]) \<subseteq> insert (so_owner e) (owners t) - {0}"
  using set_update_subset_insert [of t i e] by (auto simp: owners_def)

lemma owners_acquire: "owners (snd (acquire source sid role takeover t)) \<subseteq> insert sid (owners t)"
proof -
  obtain k t' where k: "so_findOrCreate source t = (k, t')" by fastforce
  have t': "owners t' \<subseteq> owners t"
    using k owners_update [of t _ "OwnerEntry_new \<lparr> so_used := True, so_source_id := source \<rparr>"]
    by (auto simp: so_findOrCreate_def OwnerEntry_new_def split: option.splits)
  have upd: "owners (t'[i := (t' ! i) \<lparr> so_owner := sid, so_role := role \<rparr>]) \<subseteq> insert sid (owners t)" for i
    using owners_update [of t' i "(t' ! i) \<lparr> so_owner := sid, so_role := role \<rparr>"] t' by auto
  show ?thesis
    using k t' upd by (cases k) (simp_all add: acquire_def Let_def subset_insertI2)
qed

text \<open>One slot changes: what the invariant asks of the new slot.\<close>

lemma inv_occupied:
  assumes "spine_inv c" and "i < kSlotCapacity" and "ss_occupied (sp_slots c ! i)"
  shows "card (others i (sp_slots c)) < kHubMaxSessions" "\<And>j. j \<in> others i (sp_slots c) \<Longrightarrow> ss_inst (sp_slots c ! j) \<noteq> ss_inst (sp_slots c ! i)"
proof -
  have "occupants (sp_slots c) = insert i (others i (sp_slots c))"
    using assms occupants_split [of i "sp_slots c"] by (simp add: spine_inv_def)
  then show "card (others i (sp_slots c)) < kHubMaxSessions" "\<And>j. j \<in> others i (sp_slots c) \<Longrightarrow> ss_inst (sp_slots c ! j) \<noteq> ss_inst (sp_slots c ! i)"
    using assms(1) by (auto simp: spine_inv_def inj_on_def)
qed

lemma inv_update:
  assumes inv: "spine_inv c" and i: "i < kSlotCapacity"
    and kept: "active i c \<Longrightarrow> ss_id (sp_slots c ! i) \<in> owners (sp_own c) \<Longrightarrow>
      ss_occupied x \<and> ss_state x \<noteq> S_STALE \<and> ss_id x = ss_id (sp_slots c ! i)"
    and link: "ss_occupied x \<Longrightarrow> ss_state x \<noteq> S_STALE \<Longrightarrow> ss_link x \<noteq> None"
    and room: "ss_occupied x \<Longrightarrow> card (others i (sp_slots c)) < kHubMaxSessions \<and> (\<forall>j \<in> others i (sp_slots c). ss_inst (sp_slots c ! j) \<noteq> ss_inst x)"
  shows "spine_inv (c \<lparr> sp_slots := (sp_slots c)[i := x] \<rparr>)"
proof -
  let ?c = "c \<lparr> sp_slots := (sp_slots c)[i := x] \<rparr>"
  have len: "length (sp_slots c) = kSlotCapacity" using inv by (simp add: spine_inv_def)
  have act: "active j ?c \<longleftrightarrow> (if j = i then ss_occupied x \<and> ss_state x \<noteq> S_STALE else active j c)" for j
    using len i by (auto simp: active_def nth_list_update)
  have "\<exists>j < kSlotCapacity. active j ?c \<and> ss_id (sp_slots ?c ! j) = w" if w: "w \<in> owners (sp_own c)" for w
  proof -
    obtain j where "j < kSlotCapacity" "active j c" "ss_id (sp_slots c ! j) = w" using spine_invD(2) [OF inv w] by blast
    then show ?thesis using kept w len i unfolding act by (intro exI [of _ j]) (auto simp: nth_list_update)
  qed
  moreover have "\<forall>j < kSlotCapacity. active j ?c \<longrightarrow> ss_link (sp_slots ?c ! j) \<noteq> None"
    unfolding act using inv link len i by (auto simp: spine_inv_def nth_list_update)
  moreover have oc: "occupants (sp_slots ?c) = (if ss_occupied x then insert i (others i (sp_slots c)) else others i (sp_slots c))"
    using len i by (simp add: occupants_update)
  note sub = others_occupants [of i "sp_slots c"]
  have "card (others i (sp_slots c)) \<le> kHubMaxSessions"
    using inv card_mono [OF finite_occupants(1) sub] by (simp add: spine_inv_def)
  then have "card (occupants (sp_slots ?c)) \<le> kHubMaxSessions" using room unfolding oc by (auto simp: card_insert_if)
  moreover have "inj_on (\<lambda>j. ss_inst (sp_slots ?c ! j)) (occupants (sp_slots ?c))"
  proof -
    have "inj_on (\<lambda>j. ss_inst (sp_slots c ! j)) (others i (sp_slots c))"
      using inv sub by (auto simp: spine_inv_def intro: inj_on_subset)
    moreover have same: "ss_inst (sp_slots ?c ! j) = ss_inst (sp_slots c ! j)" if "j \<in> others i (sp_slots c)" for j
      using that by (auto simp: others_def)
    ultimately have "inj_on (\<lambda>j. ss_inst (sp_slots ?c ! j)) (others i (sp_slots c))"
      by (metis (mono_tags, lifting) inj_on_cong)
    then show ?thesis unfolding oc using room same len i by (auto simp: inj_on_insert)
  qed
  ultimately show ?thesis using inv by (simp add: spine_inv_def)
qed


lemma ss_occupied_simps [simp]:
  "ss_occupied (s \<lparr> ss_link := b \<rparr>) = ss_occupied s" "ss_occupied (s \<lparr> ss_state := S_LIVE \<rparr>)" "ss_occupied (s \<lparr> ss_state := S_STALE \<rparr>)"
  "\<not> ss_occupied (free_spine b)" "ss_occupied \<lparr> ss_link = b, ss_state = S_VALIDATING, ss_id = w, ss_inst = inst \<rparr>"
  by (simp_all add: ss_occupied_def state_occupied_def free_spine_def)

lemma inv_step: "hub_step p c c' \<Longrightarrow> spine_inv c \<Longrightarrow> spine_inv c'"
proof (induction rule: hub_step.induct)
  case (Move i c j)
  note inv = \<open>spine_inv c\<close>
  have len: "i < kSlotCapacity" "j < kSlotCapacity" using Move spine_invD(1) [OF inv] by auto
  have occ: "ss_occupied (sp_slots c ! j)" using Move(4) by (simp add: ss_occupied_def state_occupied_def)
  let ?c = "c \<lparr> sp_slots := (sp_slots c)[j := free_spine None] \<rparr>"
  have c: "spine_inv ?c" using inv len Move(4) by (intro inv_update) (auto simp: active_def)
  have "others i (sp_slots ?c) \<subseteq> others j (sp_slots c)"
    using Move(3) len spine_invD(1) [OF inv] by (auto simp: others_def nth_list_update split: if_splits)
  then have "card (others i (sp_slots ?c)) < kHubMaxSessions" "\<forall>k \<in> others i (sp_slots ?c). ss_inst (sp_slots ?c ! k) \<noteq> ss_inst (sp_slots c ! j)"
    using inv_occupied [OF inv len(2) occ] card_mono [OF finite_occupants(2), of "others i (sp_slots ?c)" j "sp_slots c"]
    by (auto simp: others_def)
  then have "spine_inv (?c \<lparr> sp_slots := (sp_slots ?c)[i := (sp_slots c ! j) \<lparr> ss_link := ss_link (sp_slots c ! i) \<rparr>] \<rparr>)"
    using c len Move by (intro inv_update) (auto simp: active_def)
  moreover have "(sp_slots c)[i := x, j := y] = (sp_slots c)[j := y, i := x]" for x y
    using Move(3) by (rule list_update_swap)
  ultimately show ?case by simp
next
  case (Release c sid)
  then show ?case by (simp add: spine_inv_def owners_release active_def)
next
  case (Acquire i c source role takeover)
  then show ?case
    using owners_acquire [of source "ss_id (sp_slots c ! i)" role takeover "sp_own c"]
    by (auto simp: spine_inv_def active_def)
next
  case (Safety s c shown)
  then show ?case by (auto simp: spine_inv_def active_def)
next
  case (Diverge c)
  then show ?case by (simp add: spine_inv_def active_def)
next
  case (Unlink i c)
  then show ?case
    using inv_occupied [of c i] spine_invD(1) [of c]
    by (intro inv_update) (auto simp: active_def)
qed (auto intro!: inv_update simp: inv_occupied active_def spine_invD)


lemma inv_steps: "hub_steps p c c' \<Longrightarrow> spine_inv c \<Longrightarrow> spine_inv c'"
  by (induction rule: rtranclp_induct) (auto dest: inv_step)

inductive_simps hub_step_iff: "hub_step p c c'"

lemma steps_latched: "hub_steps p c c' \<Longrightarrow> p \<noteq> Clears \<Longrightarrow> latched (sp_safety c) \<Longrightarrow> latched (sp_safety c')"
  by (induction rule: rtranclp_induct) (auto simp: hub_step_iff)

text \<open>The retained safety snapshot, if there is one, is the safety state.\<close>

definition shows_truth :: "Spine \<Rightarrow> bool" where
  "shows_truth c \<longleftrightarrow> sp_shown c = None \<or> sp_shown c = Some (safety_bytes (sp_safety c))"

lemma steps_truth: "hub_steps p c c' \<Longrightarrow> shows_truth c \<Longrightarrow> shows_truth c'"
  by (induction rule: rtranclp_induct) (auto simp: hub_step_iff shows_truth_def)

lemma step_shown: "hub_step p c c' \<Longrightarrow> sp_shown c \<noteq> None \<Longrightarrow> sp_shown c' \<noteq> None"
  by (induction rule: hub_step.induct) auto

lemma steps_shown: "hub_steps p c c' \<Longrightarrow> sp_shown c \<noteq> None \<Longrightarrow> sp_shown c' \<noteq> None"
  by (induction rule: rtranclp_induct) (auto dest: step_shown)

section \<open>Admission\<close>

text \<open>There is room for a session of the instance in slot \<open>i\<close>.\<close>

definition room_for :: "nat \<Rightarrow> bytes \<Rightarrow> Spine \<Rightarrow> bool" where
  "room_for i inst c \<longleftrightarrow> card (others i (sp_slots c)) < kHubMaxSessions \<and>
     (\<forall>j \<in> others i (sp_slots c). ss_inst (sp_slots c ! j) \<noteq> inst)"

lemma others_put_slot [simp]: "others i (sp_slots (put_slot i g c)) = others i (sp_slots c)"
  by (simp add: put_slot_def others_update)

lemma closed_simps [simp]:
  "sp_sized (closed i c) = sp_sized c" "length (sp_slots (closed i c)) = length (sp_slots c)"
  "others i (sp_slots (closed i c)) = others i (sp_slots c)"
  "i < length (sp_slots c) \<Longrightarrow> sp_slots (closed i c) ! i = free_spine (ss_link (sp_slots c ! i))"
  "j \<noteq> i \<Longrightarrow> sp_slots (closed i c) ! j = sp_slots c ! j"
  by (simp_all add: closed_def)

lemma room_closed: "room_for i inst (closed i c) = room_for i inst c"
proof -
  have "sp_slots (closed i c) ! j = sp_slots c ! j" if "j \<in> others i (sp_slots c)" for j
    using that by (auto simp: others_def)
  then show ?thesis by (simp add: room_for_def)
qed

lemma linked_closed: "length (sp_slots c) = kSlotCapacity \<Longrightarrow> linked i (closed j c) = linked i c"
  by (cases "i = j") (auto simp: linked_def free_spine_def)

lemma lively_draws:
  assumes "lively next"
  shows "\<exists>v r'. draw_nonzero next r = Some (v, r')"
proof -
  obtain n where "fst (next (((\<lambda>r. snd (next r)) ^^ n) r)) \<noteq> 0" using assms by (auto simp: lively_def)
  then show ?thesis
  proof (induction n arbitrary: r)
    case 0
    then show ?case by (subst draw_nonzero.simps) (simp add: split_beta)
  next
    case (Suc n)
    then have "\<exists>v r'. draw_nonzero next (snd (next r)) = Some (v, r')"
      by (intro Suc.IH) (simp add: funpow_Suc_right del: funpow.simps)
    then show ?case by (subst draw_nonzero.simps) (auto simp: split_beta)
  qed
qed

lemma drawNonZero_frame: "hub_frame E h (snd (run_state (drawNonZero E) h))"
proof (cases "draw_nonzero (env_nextU32 E) (hb_rng h)")
  case None
  then have "\<not> lively (env_nextU32 E)" using lively_draws [of "env_nextU32 E" "hb_rng h"] by auto
  then show ?thesis using None by (simp add: drawNonZero_def hub_frame_def hub_wf_def hub_static_def)
next
  case (Some x)
  then show ?thesis by (cases x) (simp add: drawNonZero_def hub_frame_def hub_wf_def hub_static_def)
qed

lemma traces_drawNonZero:
  assumes "\<And>c. P c \<Longrightarrow> Q c" and "\<And>c. P c \<Longrightarrow> Q (c \<lparr> sp_fault := Some EndlessDraw \<rparr>)"
  shows "hub_traces E p P (drawNonZero E) (\<lambda>_. Q)"
proof (rule hub_tracesI)
  fix h :: "('a, 'b, 'c) Hub" assume "P (spine h)"
  have "spine (h \<lparr> hb_fault := Some EndlessDraw \<rparr>) = (spine h) \<lparr> sp_fault := Some EndlessDraw \<rparr>" "spine (h \<lparr> hb_rng := r \<rparr>) = spine h" for r
    by (simp_all add: spine_def safety_of_def)
  then show "hub_frame E h (snd (run_state (drawNonZero E) h)) \<and> hub_steps p (spine h) (spine (snd (run_state (drawNonZero E) h))) \<and>
      Q (spine (snd (run_state (drawNonZero E) h)))"
    using assms \<open>P (spine h)\<close> drawNonZero_frame [of E h]
    by (auto simp: drawNonZero_def split: option.split prod.split intro!: r_into_rtranclp hub_step.Diverge)
qed

text \<open>A linked slot whose session exists goes live.\<close>

lemma runs_goLive:
  assumes "\<And>c. P c \<Longrightarrow> sized i c \<and> linked i c \<and> ss_occupied (sp_slots c ! i)"
    and "\<And>s. hs_session_id (f s) = hs_session_id s" "\<And>s. hs_instance_id (f s) = hs_instance_id s" "\<And>s. hs_state (f s) = S_LIVE"
    and "\<And>s. session_wf s \<Longrightarrow> session_wf (f s)"
  shows "hub_traces E p P (upd_session i f) (\<lambda>_ c. sized i c \<and> linked i c \<and> active i c)"
  unfolding upd_session_def
proof (rule traces_upd_slot [where g = "\<lambda>s. s \<lparr> ss_state := S_LIVE \<rparr>"])
  fix c assume P: "P c" and len: "length (sp_slots c) = kSlotCapacity"
  then show "hub_steps p c (put_slot i (\<lambda>s. s \<lparr> ss_state := S_LIVE \<rparr>) c) \<and>
      (sized i (put_slot i (\<lambda>s. s \<lparr> ss_state := S_LIVE \<rparr>) c) \<and> linked i (put_slot i (\<lambda>s. s \<lparr> ss_state := S_LIVE \<rparr>) c) \<and>
       active i (put_slot i (\<lambda>s. s \<lparr> ss_state := S_LIVE \<rparr>) c))"
    using assms(1) [OF P]
    by (auto simp: linked_def active_def put_slot_def intro!: r_into_rtranclp hub_step.Live)
qed (use assms in \<open>auto simp: slot_spine_def hubslot_wf_def\<close>)

lemma runs_helloOpen:
  assumes "\<And>c. P c \<Longrightarrow> sized i c \<and> linked i c \<and> room_for i (hl_instance_id m) c"
  shows "hub_runs E p P (helloOpen E i m now)"
proof (rule traces_pure [of _ "i < kSlotCapacity"])
  assume i: "i < kSlotCapacity"
  let ?A = "\<lambda>c. sized i c \<and> linked i c \<and> room_for i (hl_instance_id m) c \<and> \<not> ss_occupied (sp_slots c ! i)"
  let ?B = "\<lambda>c. sized i c \<and> linked i c \<and> ss_occupied (sp_slots c ! i)"
  have free: "hub_traces E p P (teardownSession E i now) (\<lambda>_. ?A)"
    using assms i by (intro traces_teardownSession) (auto simp: room_closed linked_closed)
  have draw: "hub_traces E p ?A (drawNonZero E) (\<lambda>_. ?A)"
    by (rule traces_drawNonZero) (auto simp: linked_def room_for_def)
  have open': "hub_traces E p ?A (upd_session i (\<lambda>s. s \<lparr> hs_state := S_VALIDATING, hs_session_id := sid,
      hs_instance_id := hl_instance_id m \<rparr>)) (\<lambda>_. ?B)" for sid
    unfolding upd_session_def
  proof (rule traces_upd_slot [where g = "\<lambda>s. \<lparr> ss_link = ss_link s, ss_state = S_VALIDATING, ss_id = sid, ss_inst = hl_instance_id m \<rparr>"])
    fix c assume "?A c" "length (sp_slots c) = kSlotCapacity"
    then have "hub_step p c (c \<lparr> sp_slots := (sp_slots c)[i := \<lparr> ss_link = ss_link (sp_slots c ! i), ss_state = S_VALIDATING, ss_id = sid,
        ss_inst = hl_instance_id m \<rparr>] \<rparr>)" "ss_link (sp_slots c ! i) \<noteq> None"
      by (auto simp: linked_def room_for_def intro!: hub_step.Open)
    with \<open>?A c\<close> \<open>length (sp_slots c) = kSlotCapacity\<close>
    show "hub_steps p c (put_slot i (\<lambda>s. \<lparr> ss_link = ss_link s, ss_state = S_VALIDATING, ss_id = sid, ss_inst = hl_instance_id m \<rparr>) c) \<and>
      ?B (put_slot i (\<lambda>s. \<lparr> ss_link = ss_link s, ss_state = S_VALIDATING, ss_id = sid, ss_inst = hl_instance_id m \<rparr>) c)"
      by (auto simp: put_slot_def linked_def)
  qed (auto simp: slot_spine_def hubslot_wf_def session_wf_def)
  have live: "hub_runs E p ?B (do { upd_session i (\<lambda>s. s \<lparr> hs_state := S_LIVE \<rparr>); app_tell f })" for f
    by (rule hub.traces_bind [OF runs_goLive]) (auto simp: session_wf_def intro!: runs_calm calm_rules)
  show ?thesis unfolding helloOpen_def
    by (rule hub.traces_bind [OF free], rule hub.traces_bind [OF draw], rule hub.traces_bind [OF open'])
      (intro hub.traces_step [OF calm_presentedRole] hub.traces_step [OF calm_noteIdentity] hub.traces_step [OF calm_noteSignRequest]
        hub.traces_step [OF calm_helloRole] hub.traces_step [OF calm_helloGrants] hub.traces_step [OF calm_grantPublishWishes]
        hub.traces_step [OF calm_session_fields] hub.traces_step [OF calm_sendWelcome] hub.traces_when live; simp)+
qed (use assms in auto)


lemma spine_occupied: "j < kSlotCapacity \<Longrightarrow> ss_occupied (sp_slots (spine h) ! j) = occupied (session_of j h)"
  by (simp add: spine_def slot_spine_def ss_occupied_def occupied_def session_of_def)

lemma occupiedCount_others:
  assumes "length (hb_slots h) = kSlotCapacity"
  shows "occupiedCount (Some i) h = card (others i (sp_slots (spine h)))"
proof -
  have "occupiedCount (Some i) h = card (set (filter (\<lambda>j. i \<noteq> j \<and> occupied (session_of j h)) [0..<kSlotCapacity]))"
    unfolding occupiedCount_def using assms by (subst distinct_card) simp_all
  also have "set (filter (\<lambda>j. i \<noteq> j \<and> occupied (session_of j h)) [0..<kSlotCapacity]) = others i (sp_slots (spine h))"
    by (auto simp: others_def spine_occupied)
  finally show ?thesis .
qed

lemma findEvictableStale_stale:
  assumes "findEvictableStale ex h = Some v"
  shows "v < length (hb_slots h) \<and> ex \<noteq> Some v \<and> hs_state (session_of v h) = S_STALE"
proof -
  let ?ok = "\<lambda>v. v < length (hb_slots h) \<and> ex \<noteq> Some v \<and> hs_state (session_of v h) = S_STALE"
  have "pred_option ?ok best \<Longrightarrow> set is \<subseteq> {..<length (hb_slots h)} \<Longrightarrow> pred_option ?ok (foldl (\<lambda>best i.
      if ex = Some i then best
      else
        let s = session_of i h in
        if hs_state s \<noteq> S_STALE then best
        else case best of
          None \<Rightarrow> Some i
        | Some b \<Rightarrow>
            let sb = session_of b h;
                lowerTier = (role_u8 (hs_role s) < role_u8 (hs_role sb));
                sameTierStaler = (role_u8 (hs_role s) = role_u8 (hs_role sb) \<and>
                                  timeDelta (hs_staleSinceMs s) (hs_staleSinceMs sb) < 0)
            in if lowerTier \<or> sameTierStaler then Some i else best) best is)" for best "is"
    by (induction "is" arbitrary: best) (auto simp: Let_def split: option.split)
  from this [of None "[0..<length (hb_slots h)]"] assms show ?thesis
    unfolding findEvictableStale_def by (simp add: subset_iff)
qed

lemma others_closed_other: "v \<noteq> i \<Longrightarrow> v < length (sp_slots c) \<Longrightarrow> others i (sp_slots (closed v c)) = others i (sp_slots c) - {v}"
  by (auto simp: others_def) (metis closed_simps(4,5) ss_occupied_simps(4))+

definition no_twin :: "nat \<Rightarrow> bytes \<Rightarrow> Spine \<Rightarrow> bool" where
  "no_twin i inst c \<longleftrightarrow> (\<forall>j \<in> others i (sp_slots c). ss_inst (sp_slots c ! j) \<noteq> inst)"

lemma runs_helloAdmit:
  assumes "\<And>c. P c \<Longrightarrow> sized i c \<and> linked i c \<and> no_twin i (hl_instance_id m) c \<and> card (others i (sp_slots c)) \<le> kHubMaxSessions"
  shows "hub_runs E p P (helloAdmit E i m now)"
  unfolding helloAdmit_def
proof (rule traces_gets [where g = "\<lambda>n c. sp_sized c \<longrightarrow> n = card (others i (sp_slots c))"], goal_cases)
  case (1 h)
  have "sp_sized (spine h) \<longleftrightarrow> length (hb_slots h) = kSlotCapacity" by (simp add: spine_def)
  then show ?case by (simp add: occupiedCount_others)
next
  case (2 n)
  let ?P = "\<lambda>c. P c \<and> (sp_sized c \<longrightarrow> n = card (others i (sp_slots c)))"
  let ?g = "\<lambda>v c. \<forall>k. v = Some k \<longrightarrow> sp_sized c \<longrightarrow> k < kSlotCapacity \<and> k \<noteq> i \<and> ss_occupied (sp_slots c ! k)"
  have evict: "hub_runs E p (\<lambda>c. ?P c \<and> ?g (Some v) c) (do { goodbyeTo E v code; teardownSession E v now; helloOpen E i m now })" for v code
  proof (rule hub.traces_step [OF calm_goodbyeTo], rule hub.traces_bind [OF traces_teardownSession])
    show "sized v c" if "?P c \<and> ?g (Some v) c" for c using that assms by blast
    show "sized i (closed v c) \<and> linked i (closed v c) \<and> room_for i (hl_instance_id m) (closed v c)"
      if P: "?P c \<and> ?g (Some v) c" and len: "length (sp_slots c) = kSlotCapacity" for c
    proof -
      have v: "v < kSlotCapacity" "v \<noteq> i" "v \<in> others i (sp_slots c)" using P len assms [of c] by (auto simp: others_def)
      moreover from v(3) have "card (others i (sp_slots c) - {v}) < card (others i (sp_slots c))" by (rule card_Diff1_less [OF finite_occupants(2)])
      moreover have "sp_slots (closed v c) ! j = sp_slots c ! j" if "j \<noteq> v" for j using that by simp
      ultimately show ?thesis using assms [of c] P len
        by (auto simp: room_for_def no_twin_def others_closed_other linked_closed)
    qed
  qed (rule runs_helloOpen)
  show ?case
  proof (rule traces_if)
    show "hub_runs E p ?P (do {
        victim \<leftarrow> gets (findEvictableStale (Some i));
        case victim of
          Some v \<Rightarrow> do { goodbyeTo E v NK_SLOT_RECLAIMED; teardownSession E v now; helloOpen E i m now }
        | None \<Rightarrow> sendNack E i ((nack NK_BUSY) \<lparr> nk_retry_after_ms := Some 2000 \<rparr>) })"
    proof (rule traces_gets [where g = ?g], goal_cases)
      case (1 h)
      have "sp_sized (spine h) \<longleftrightarrow> length (hb_slots h) = kSlotCapacity" by (simp add: spine_def)
      then show ?case by (auto simp: spine_occupied occupied_def state_occupied_def dest!: findEvictableStale_stale)
    next
      case (2 v)
      show ?case
      proof (cases v)
        case None
        then show ?thesis using assms by (auto intro!: runs_calm calm_sends)
      next
        case (Some k)
        then show ?thesis using evict [of k] by simp
      qed
    qed
    show "hub_runs E p ?P (helloOpen E i m now)" if "\<not> kHubMaxSessions \<le> n"
      using that assms by (intro runs_helloOpen) (auto simp: room_for_def no_twin_def)
  qed
qed


text \<open>A session moves from a stale slot to the slot its client came back on.\<close>

lemma run_moveSession:
  assumes "length (hb_slots h) = kSlotCapacity" and "i < kSlotCapacity" "j < kSlotCapacity" "i \<noteq> j"
  obtains A B W where "snd (run_state (moveSession E i j) h) = h \<lparr> hb_slots := (hb_slots h)[i := A, j := B], hb_wire := W \<rparr>"
    "\<forall>t. wire_steps E (hb_wire h t) (W t)"
    "slot_spine A = (slot_spine (hb_slots h ! j)) \<lparr> ss_link := ss_link (slot_spine (hb_slots h ! i)) \<rparr>" "slot_spine B = free_spine None"
    "hubslot_wf (hb_slots h ! j) \<Longrightarrow> hubslot_wf A" "hubslot_wf B"
proof (rule that)
  let ?s = "slot_of i h" and ?o = "slot_of j h"
  let ?A = "clearHandshake (?s \<lparr> sl_session := sl_session ?o, sl_pushRecords := sl_pushRecords ?o,
      sl_conflictNacks := sl_conflictNacks ?o, sl_congestionLevel := 0, sl_criticalStalling := False, sl_lastProbeReport := None \<rparr>)"
  let ?B = "?o \<lparr> sl_transport := None, sl_session := HubSession_new,
      sl_pushRecords := replicate max_subscriptions_per_session PushRecord_new,
      sl_conflictNacks := replicate 4 ConflictNack_new, sl_clientNonce := replicate 8 0, sl_hasClientNonce := False,
      sl_blob := PendingBlob_new \<rparr>"
  let ?W = "case sl_transport ?o of None \<Rightarrow> hb_wire h | Some t \<Rightarrow> (hb_wire h)(t := env_close E (hb_wire h t))"
  have slots: "(hb_slots h)[i := X] ! j = ?o" for X using assms by (simp add: slot_of_def)
  show "snd (run_state (moveSession E i j) h) = h \<lparr> hb_slots := (hb_slots h)[i := ?A, j := ?B], hb_wire := ?W \<rparr>"
  proof (cases "sl_transport ?o")
    case None
    then show ?thesis using assms
      by (cases "hb_slots h ! j") (simp add: moveSession_def closeTransport_def transport_of_def upd_slot_def slots slot_of_def)
  next
    case (Some t)
    then show ?thesis using assms
      by (simp add: moveSession_def closeTransport_def transport_of_def upd_slot_def slots slot_of_def)
  qed
  show "\<forall>t. wire_steps E (hb_wire h t) (?W t)"
    by (auto split: option.split intro!: r_into_rtranclp wire_step.Close_wire)
qed (auto simp: slot_spine_def clearHandshake_def free_spine_def hubslot_wf_def session_wf_new slot_of_def)

lemma traces_moveSession:
  assumes "\<And>c. P c \<Longrightarrow> sized i c \<and> sized j c \<and> i \<noteq> j \<and> linked i c \<and> \<not> ss_occupied (sp_slots c ! i) \<and> ss_state (sp_slots c ! j) = S_STALE"
  shows "hub_traces E p P (moveSession E i j) (\<lambda>_ c. sized i c \<and> linked i c \<and> ss_occupied (sp_slots c ! i))"
proof (rule hub_tracesI)
  fix h :: "('a, 'b, 'c) Hub" assume P: "P (spine h)"
  have len: "length (hb_slots h) = kSlotCapacity" "i < kSlotCapacity" "j < kSlotCapacity" "i \<noteq> j"
    using assms [OF P] by (auto simp: spine_def)
  obtain A B W where r: "snd (run_state (moveSession E i j) h) = h \<lparr> hb_slots := (hb_slots h)[i := A, j := B], hb_wire := W \<rparr>"
      "\<forall>t. wire_steps E (hb_wire h t) (W t)"
      "slot_spine A = (slot_spine (hb_slots h ! j)) \<lparr> ss_link := ss_link (slot_spine (hb_slots h ! i)) \<rparr>" "slot_spine B = free_spine None"
      "hubslot_wf (hb_slots h ! j) \<Longrightarrow> hubslot_wf A" "hubslot_wf B"
    using run_moveSession [OF len] by metis
  let ?c = "(spine h) \<lparr> sp_slots := (sp_slots (spine h))[i := (sp_slots (spine h) ! j) \<lparr> ss_link := ss_link (sp_slots (spine h) ! i) \<rparr>, j := free_spine None] \<rparr>"
  have link: "ss_link (slot_spine (hb_slots h ! i)) \<noteq> None" using assms [OF P] len by (simp add: linked_def spine_def)
  have "spine (snd (run_state (moveSession E i j) h)) = ?c"
    unfolding r(1) using len r(3,4) link
    by (auto simp: spine_def safety_of_def nth_list_update intro!: nth_equalityI)
  moreover have "hub_frame E h (snd (run_state (moveSession E i j) h))"
    unfolding r(1) hub_frame_def using r(2,5,6) len
    by (auto simp: hub_wf_def hub_static_def list_all_length nth_list_update)
  moreover have "hub_step p (spine h) ?c" using assms [OF P] len by (intro hub_step.Move) (auto simp: linked_def)
  moreover have "ss_occupied (sp_slots (spine h) ! j)" using assms [OF P] by (simp add: ss_occupied_def state_occupied_def)
  ultimately show "hub_frame E h (snd (run_state (moveSession E i j) h)) \<and>
      hub_steps p (spine h) (spine (snd (run_state (moveSession E i j) h))) \<and>
      (sized i (spine (snd (run_state (moveSession E i j) h))) \<and> linked i (spine (snd (run_state (moveSession E i j) h))) \<and>
       ss_occupied (sp_slots (spine (snd (run_state (moveSession E i j) h))) ! i))"
    using assms [OF P] len by (auto simp: linked_def)
qed


lemma runs_handleReattach:
  assumes "\<And>c. P c \<Longrightarrow> sized i c \<and> sized j c \<and> i \<noteq> j \<and> linked i c \<and> ss_state (sp_slots c ! j) = S_STALE"
  shows "hub_runs E p P (handleReattach E i j m now)"
proof -
  let ?B = "\<lambda>c. sized i c \<and> linked i c \<and> ss_occupied (sp_slots c ! i)"
  have free: "hub_traces E p P (teardownSession E i now) (\<lambda>_ c. sized i c \<and> sized j c \<and> i \<noteq> j \<and> linked i c \<and>
      \<not> ss_occupied (sp_slots c ! i) \<and> ss_state (sp_slots c ! j) = S_STALE)"
    using assms by (intro traces_teardownSession) (auto simp: linked_closed, metis closed_simps(5))
  have ready: "hub_calm E p ?B (upd_session i (\<lambda>s. if hs_clientEtagMatched s then s
      else s \<lparr> hs_ready := False, hs_readyEtagMismatch := (hl_catalog_etag m \<noteq> None), hs_grantedAtMs := now \<rparr>))"
    by (intro calm_session_fields) auto
  have subs: "hub_calm E p ?B (upd_session i (\<lambda>s. s \<lparr> hs_staleSinceMs := 0, hs_lastRxMs := now, hs_lastTxMs := now,
      hs_subs := map (\<lambda>e. e \<lparr> se_everPushed := False \<rparr>) (hs_subs s) \<rparr>))"
    by (intro calm_upd_session) (auto simp: session_wf_def st_inv_unpushed)
  have live: "hub_runs E p ?B (do { upd_session i (\<lambda>s. s \<lparr> hs_state := S_LIVE \<rparr>); emitSessionEvent E kind sid now })" for kind sid
    by (rule hub.traces_bind [OF runs_goLive]) (auto simp: session_wf_def intro!: runs_calm calm_rules)
  show ?thesis unfolding handleReattach_def
    by (rule hub.traces_bind [OF free], rule hub.traces_bind [OF traces_moveSession], blast)
      (intro hub.traces_step [OF calm_noteIdentity] hub.traces_step [OF calm_noteSignRequest] hub.traces_step [OF calm_presentedRole]
        hub.traces_step [OF calm_helloRole] hub.traces_step [OF ready] hub.traces_step [OF subs] hub.traces_step [OF hub.calm_gets]
        hub.traces_step [OF calm_sendWelcome] hub.traces_when live; simp)
qed

lemma findSlotByInstance_spine:
  assumes "length (hb_slots h) = kSlotCapacity"
  shows "findSlotByInstance inst i h = None \<Longrightarrow> no_twin i inst (spine h)"
    and "findSlotByInstance inst i h = Some j \<Longrightarrow> j \<in> others i (sp_slots (spine h)) \<and> ss_inst (sp_slots (spine h) ! j) = inst"
proof -
  have inst: "ss_inst (sp_slots (spine h) ! j) = hs_instance_id (session_of j h)" if "j < kSlotCapacity" for j
    using that by (simp add: spine_def slot_spine_def session_of_def)
  show "findSlotByInstance inst i h = None \<Longrightarrow> no_twin i inst (spine h)"
    using assms by (auto simp: findSlotByInstance_def find_None_iff no_twin_def others_def spine_occupied inst)
  show "findSlotByInstance inst i h = Some j \<Longrightarrow> j \<in> others i (sp_slots (spine h)) \<and> ss_inst (sp_slots (spine h) ! j) = inst"
    using assms by (auto simp: findSlotByInstance_def others_def spine_occupied inst dest!: find_upt)
qed

lemma runs_handleHello:
  assumes "\<And>c. P c \<Longrightarrow> sized i c \<and> linked i c \<and> spine_inv c"
  shows "hub_runs E p P (handleHello E i payload now)"
  unfolding handleHello_def
proof (rule traces_sum, goal_cases)
  case (1 e)
  then show ?case using assms by (intro runs_calm calm_sends) auto
next
  case (2 m)
  let ?inst = "hl_instance_id m"
  let ?g = "\<lambda>dup c. sp_sized c \<longrightarrow> (case dup of None \<Rightarrow> no_twin i ?inst c
    | Some j \<Rightarrow> j \<in> others i (sp_slots c) \<and> ss_inst (sp_slots c ! j) = ?inst)"
  have few: "card (others i (sp_slots c)) \<le> kHubMaxSessions" if "spine_inv c" for c
    using spine_invD(4) [OF that] card_mono [OF finite_occupants(1) others_occupants] by (rule le_trans [rotated])
  have twin: "hub_runs E p (\<lambda>c. P c \<and> ?g (Some j) c) (do { goodbyeTo E j code; teardownSession E j now; helloAdmit E i m now })" for j code
  proof (rule hub.traces_step [OF calm_goodbyeTo], rule hub.traces_bind [OF traces_teardownSession])
    show "sized j c" if "P c \<and> ?g (Some j) c" for c using that assms [of c] spine_invD(1) [of c] by (auto simp: others_def)
    show "sized i (closed j c) \<and> linked i (closed j c) \<and> no_twin i ?inst (closed j c) \<and> card (others i (sp_slots (closed j c))) \<le> kHubMaxSessions"
      if P: "P c \<and> ?g (Some j) c" and len: "length (sp_slots c) = kSlotCapacity" for c
    proof -
      have j: "j \<in> others i (sp_slots c)" "ss_inst (sp_slots c ! j) = ?inst" "spine_inv c" using P assms [of c] by auto
      then have "j < length (sp_slots c)" "j \<noteq> i" "ss_occupied (sp_slots c ! j)" by (auto simp: others_def)
      moreover have "ss_inst (sp_slots c ! k) \<noteq> ?inst" if "k \<in> others i (sp_slots c)" "k \<noteq> j" for k
        using that j inj_onD [OF spine_invD(5) [OF j(3)], of k j] \<open>j < length (sp_slots c)\<close> \<open>ss_occupied (sp_slots c ! j)\<close>
        by (auto simp: occupants_def others_def)
      moreover have "card (others i (sp_slots c) - {j}) \<le> kHubMaxSessions"
        using few [OF j(3)] card_mono [of "others i (sp_slots c)" "others i (sp_slots c) - {j}"] by auto
      ultimately show ?thesis using P assms [of c] len by (auto simp: no_twin_def others_closed_other linked_closed)
    qed
  qed (rule runs_helloAdmit)
  show ?case
  proof (rule traces_gets [where g = ?g], goal_cases)
    case (1 h)
    have "sp_sized (spine h) \<longleftrightarrow> length (hb_slots h) = kSlotCapacity" by (simp add: spine_def)
    then show ?case using findSlotByInstance_spine [of h ?inst i] by (auto split: option.split)
  next
    case (2 dup)
    show ?case
    proof (rule traces_option)
      assume "dup = None"
      then show "hub_runs E p (\<lambda>c. P c \<and> ?g dup c) (helloAdmit E i m now)" using assms few by (intro runs_helloAdmit) auto
    next
      fix j assume dup: "dup = Some j"
      show "hub_runs E p (\<lambda>c. P c \<and> ?g dup c) (do {
          s \<leftarrow> gets (session_of j);
          if hs_state s = S_STALE then handleReattach E i j m now
          else do { goodbyeTo E j NK_DUPLICATE_INSTANCE; teardownSession E j now; helloAdmit E i m now } })"
      proof (rule traces_pure [of _ "j < kSlotCapacity \<and> j \<noteq> i"], use assms spine_invD(1) dup in \<open>force simp: others_def\<close>,
          rule traces_session, blast, rule traces_if)
        fix s :: HubSession assume "j < kSlotCapacity \<and> j \<noteq> i" "hs_state s = S_STALE"
        then show "hub_runs E p (\<lambda>c. (P c \<and> ?g dup c) \<and> seen j s c) (handleReattach E i j m now)"
          using assms by (intro runs_handleReattach) (auto simp: seen_def)
      next
        fix s :: HubSession show "hub_runs E p (\<lambda>c. (P c \<and> ?g dup c) \<and> seen j s c)
            (do { goodbyeTo E j NK_DUPLICATE_INSTANCE; teardownSession E j now; helloAdmit E i m now })"
          using twin [of j] dup by (auto intro: traces_pre)
      qed
    qed
  qed
qed


section \<open>The dispatcher and the timers\<close>

lemma traces_inv:
  assumes "hub_traces E p P m Q"
  shows "hub_traces E p (\<lambda>c. P c \<and> spine_inv c) m (\<lambda>a c. Q a c \<and> spine_inv c)"
proof (rule hub_tracesI)
  fix h :: "('a, 'b, 'c) Hub" assume "P (spine h) \<and> spine_inv (spine h)"
  with tracesD [OF assms, of h] inv_steps
  show "hub_frame E h (snd (run_state m h)) \<and> hub_steps p (spine h) (spine (snd (run_state m h))) \<and>
      Q (fst (run_state m h)) (spine (snd (run_state m h))) \<and> spine_inv (spine (snd (run_state m h)))"
    by (auto simp: hub_moves_def)
qed

lemma runs_ifOccupied:
  assumes "\<And>c. P c \<Longrightarrow> sized i c" and "hub_runs E p (\<lambda>c. P c \<and> ss_occupied (sp_slots c ! i)) m"
  shows "hub_runs E p P (ifOccupied i m)"
proof (rule traces_pure [of _ "i < kSlotCapacity"])
  assume "i < kSlotCapacity"
  then show ?thesis unfolding ifOccupied_def
    using assms by (intro traces_session hub.traces_when) (auto intro: traces_pre simp: seen_occupied)
qed (use assms in auto)

lemma traces_noteReceived:
  "hub_traces E p (\<lambda>c. sized i c \<and> linked i c) (noteReceived E i now)
    (\<lambda>_ c. sized i c \<and> linked i c \<and> (ss_occupied (sp_slots c ! i) \<longrightarrow> active i c))"
proof (rule traces_pure [of _ "i < kSlotCapacity"])
  assume i: "i < kSlotCapacity"
  let ?P = "\<lambda>c. sized i c \<and> linked i c"
  let ?Q = "\<lambda>c. sized i c \<and> linked i c \<and> (ss_occupied (sp_slots c ! i) \<longrightarrow> active i c)"
  have rx: "hub_calm E p ?P (ifOccupied i (upd_session i (\<lambda>s. s \<lparr> hs_lastRxMs := now \<rparr>)))"
    unfolding ifOccupied_def by (intro calm_rules calm_session_fields) auto
  have "hub_traces E p ?P (reviveIfStale E i now) (\<lambda>_. ?Q)" unfolding reviveIfStale_def
  proof (rule traces_session [OF i], rule traces_if)
    fix s :: HubSession assume "hs_state s \<noteq> S_STALE"
    then show "hub_traces E p (\<lambda>c. ?P c \<and> seen i s c) skip (\<lambda>_. ?Q)"
      by (intro hub.traces_return) (auto simp: active_def seen_def)
  next
    fix s :: HubSession assume "\<not> hs_state s \<noteq> S_STALE"
    then have "hub_traces E p (\<lambda>c. ?P c \<and> seen i s c) (upd_session i (\<lambda>s. s \<lparr> hs_state := S_LIVE, hs_staleSinceMs := 0 \<rparr>)) (\<lambda>_. ?Q)"
      by (intro traces_post [OF runs_goLive]) (auto simp: session_wf_def seen_def ss_occupied_def state_occupied_def)
    then show "hub_traces E p (\<lambda>c. ?P c \<and> seen i s c) (do { upd_session i (\<lambda>s. s \<lparr> hs_state := S_LIVE, hs_staleSinceMs := 0 \<rparr>);
        emitSessionEvent E session_resumed (hs_session_id s) now }) (\<lambda>_. ?Q)"
      by (rule hub.traces_bind) (intro hub.traces_calm calm_rules)
  qed
  then show ?thesis unfolding noteReceived_def by (rule hub.traces_step [OF rx])
qed simp

definition clears :: "u8 \<Rightarrow> bytes \<Rightarrow> bool" where
  "clears type payload \<longleftrightarrow> type = FT_INTENT \<and> (\<exists>m. decodeIntent payload = Inr m \<and> safetyOpOf m = Some op_estop_clear)"

lemma runs_dispatchType:
  assumes "\<And>c. P c \<Longrightarrow> sized i c \<and> linked i c \<and> spine_inv c \<and> (ss_occupied (sp_slots c ! i) \<longrightarrow> active i c)"
    and "clears (hdr_type hdr) payload \<Longrightarrow> p = Clears"
  shows "hub_runs E p P (dispatchType E i hdr payload now)"
  unfolding dispatchType_def Let_def
proof (intro traces_if runs_ifOccupied)
  show "hub_runs E p P (handleHello E i payload now)" using assms by (intro runs_handleHello) auto
  assume "hdr_type hdr = FT_INTENT"
  then show "hub_runs E p (\<lambda>c. P c \<and> ss_occupied (sp_slots c ! i)) (handleIntent E i payload now)"
    using assms by (intro runs_handleIntent) (auto simp: clears_def)
qed (use assms in \<open>auto simp: handleGoodbye_def intro!: runs_calm calm_handleSubscribe runs_handlePublish runs_handleStream
    calm_handlePing calm_handleClock runs_teardownSession calm_handleBlobReq runs_hub_handlePairReq runs_handleAuth
    calm_handleProbeRequest calm_rules\<close>)

end
