(* ===== verification/Hub_Reach.thy ===== *)
theory Hub_Reach
  imports Hub_Invariant
begin

text \<open>
  From one frame to the whole life of a hub: the loop over a transport, \<^verbatim>\<open>update\<close>, the calls of the
  application, and the hubs that these calls can reach from construction.
\<close>

section \<open>One frame\<close>

definition estop_shaped :: "FrameBuffer \<Rightarrow> bool" where
  "estop_shaped fb \<longleftrightarrow> length (fb_bytes fb) = kEstopFrameBytes \<and> take 4 (fb_bytes fb) = replicate 4 kEstopMagicByte"

definition frame_clears :: "FrameBuffer \<Rightarrow> bool" where
  "frame_clears fb \<longleftrightarrow> \<not> estop_shaped fb \<and>
     (\<exists>hdr. decodeFrameHeader (fb_bytes fb) = Some hdr \<and> clears (hdr_type hdr) (fb_payload fb))"

lemma traces_receiveFrame:
  assumes "frame_clears fb \<Longrightarrow> p = Clears"
  shows "hub_traces E p (\<lambda>c. sized i c \<and> linked i c \<and> spine_inv c) (receiveFrame E i fb now) (\<lambda>_ c. sp_sized c \<and> spine_inv c)"
proof -
  let ?P = "\<lambda>c. sized i c \<and> linked i c \<and> spine_inv c"
  let ?Q = "\<lambda>c. (sized i c \<and> linked i c \<and> (ss_occupied (sp_slots c ! i) \<longrightarrow> active i c)) \<and> spine_inv c"
  have rx: "hub_traces E p ?P (noteReceived E i now) (\<lambda>_. ?Q)"
    by (rule traces_pre [OF traces_inv [OF traces_noteReceived]]) simp
  have estop: "hub_traces E p ?Q (handleEstopFrame E f now) (\<lambda>_ c. sp_sized c \<and> spine_inv c)" for f
    by (rule traces_inv [OF runs_handleEstopFrame]) simp
  have dispatch: "hub_runs E p ?Q (dispatchFrame E i hdr (fb_payload fb) now)" if "clears (hdr_type hdr) (fb_payload fb) \<Longrightarrow> p = Clears" for hdr
    unfolding dispatchFrame_def using that
    by (intro hub.traces_step [OF calm_dispatchSeq] runs_then [OF runs_dispatchType] runs_calm calm_rules) auto
  have other: "hub_traces E p ?P (case decodeFrameHeader (fb_bytes fb) of None \<Rightarrow> skip
      | Some hdr \<Rightarrow> do { noteReceived E i now; dispatchFrame E i hdr (fb_payload fb) now }) (\<lambda>_ c. sp_sized c \<and> spine_inv c)"
    if "\<not> estop_shaped fb"
  proof (rule traces_option)
    fix hdr assume "decodeFrameHeader (fb_bytes fb) = Some hdr"
    with that assms have "clears (hdr_type hdr) (fb_payload fb) \<Longrightarrow> p = Clears" by (auto simp: frame_clears_def)
    from traces_inv [OF dispatch [OF this]]
    show "hub_traces E p ?P (do { noteReceived E i now; dispatchFrame E i hdr (fb_payload fb) now }) (\<lambda>_ c. sp_sized c \<and> spine_inv c)"
      by (intro hub.traces_bind [OF rx]) (auto elim: traces_pre)
  qed (auto intro: hub.traces_return)
  show ?thesis unfolding receiveFrame_def Let_def
  proof (rule traces_if)
    show "hub_traces E p ?P (case decodeEstop (fb_bytes fb) of Inl e \<Rightarrow> skip
        | Inr f \<Rightarrow> do { noteReceived E i now; handleEstopFrame E f now }) (\<lambda>_ c. sp_sized c \<and> spine_inv c)"
      by (intro traces_sum hub.traces_bind [OF rx] estop hub.traces_return) auto
  qed (rule other, simp add: estop_shaped_def)
qed

section \<open>The loop\<close>

definition hub_ok :: "('t, 'd, 'r) Hub \<Rightarrow> bool" where
  "hub_ok h \<longleftrightarrow> hub_wf h \<and> spine_inv (spine h)"

lemma hub_ok_sized: "hub_ok h \<Longrightarrow> sp_sized (spine h)"
  by (simp add: hub_ok_def hub_wf_def spine_def)

lemma traces_ok:
  "hub_traces E p P m Q \<Longrightarrow> P (spine h) \<Longrightarrow> hub_ok h \<Longrightarrow>
    hub_ok (snd (run_state m h)) \<and> hub_steps p (spine h) (spine (snd (run_state m h))) \<and> hub_frame E h (snd (run_state m h))"
  using tracesD(1) [of spine "hub_moves E p" P m Q h] inv_steps
  by (auto simp: hub_moves_def hub_ok_def hub_frame_def)

lemma calm_ok:
  "(\<And>P. hub_calm E p P m) \<Longrightarrow> hub_ok h \<Longrightarrow>
    hub_ok (snd (run_state m h)) \<and> hub_steps p (spine h) (spine (snd (run_state m h))) \<and> hub_frame E h (snd (run_state m h))"
  by (rule traces_ok [OF hub.traces_calm]) auto

text \<open>Reading a transport does not touch the hub.\<close>

lemma hub_ok_wire [simp]: "hub_ok (h \<lparr> hb_wire := w \<rparr>) = hub_ok h" "slot_of i (h \<lparr> hb_wire := w \<rparr>) = slot_of i h"
  by (simp_all add: hub_ok_def hub_wf_def slot_of_def)

lemma receive_ok:
  assumes "hub_ok h" and "i < kSlotCapacity" and "sl_transport (slot_of i h) \<noteq> None" and "h1 = snd (run_state (receiveFrame E i fb now) h)"
  shows "hub_ok h1" "hub_steps (if frame_clears fb then Clears else Plain) (spine h) (spine h1)" "hub_frame E h h1"
proof -
  have "frame_clears fb \<Longrightarrow> (if frame_clears fb then Clears else Plain) = Clears" by simp
  note frame = traces_ok [OF traces_receiveFrame [where fb = fb and E = E and i = i and now = now, OF this], where h = h]
  have "sized i (spine h) \<and> linked i (spine h) \<and> spine_inv (spine h)"
    using assms hub_ok_sized [of h] by (auto simp: linked_spine hub_ok_def)
  from frame [OF _ this assms(1)] assms(4)
  show "hub_ok h1" "hub_steps (if frame_clears fb then Clears else Plain) (spine h) (spine h1)" "hub_frame E h h1" by simp_all
qed


lemma steps_weaken: "hub_steps Plain c c' \<Longrightarrow> hub_steps p c c'"
proof (induction rule: rtranclp_induct)
  case (step d e)
  from step(2) have "hub_step p d e" by (cases rule: hub_step.cases) (auto intro: hub_step.intros)
  with step(3) show ?case by (rule rtranclp.rtrancl_into_rtrancl)
qed simp

text \<open>What a call does beside the steps of the spine: the ledger keeps its shape, and no draw hangs if the random source is lively.\<close>

definition tame :: "('t, 'd, 'r) HubEnv \<Rightarrow> ('t, 'd, 'r) Hub \<Rightarrow> ('t, 'd, 'r) Hub \<Rightarrow> bool" where
  "tame E h h' \<longleftrightarrow> pairing_keeps (hb_pairing h) (hb_pairing h') \<and> (lively (env_nextU32 E) \<longrightarrow> hangs h' \<longrightarrow> hangs h)"

lemma tame_trans: "tame E a b \<Longrightarrow> tame E b c \<Longrightarrow> tame E a c"
  by (auto simp: tame_def intro: pairing_keeps_trans)

lemma tame_frame: "hub_frame E h h' \<Longrightarrow> tame E h h'"
  by (simp add: hub_frame_def tame_def)

lemma tame_wire [simp]: "tame E (h \<lparr> hb_wire := w \<rparr>) h' = tame E h h'" "tame E h (h' \<lparr> hb_wire := w \<rparr>) = tame E h h'" "tame E h h"
  by (simp_all add: tame_def)

lemma pumpSlot_ok:
  assumes "pumpSlot E i now h = Some h'" and "hub_ok h" and "i < kSlotCapacity"
  shows "hub_ok h' \<and> hub_steps Clears (spine h) (spine h') \<and> tame E h h'"
proof -
  let ?goal = "\<lambda>(E :: ('a, 'b, 'c) HubEnv) i (now :: u32) h h'. hub_ok h \<longrightarrow> i < kSlotCapacity \<longrightarrow> hub_ok h' \<and>
    hub_steps Clears (spine h) (spine h') \<and> tame E h h'"
  have "?goal E i now h h'"
  proof (rule pumpSlot.raw_induct [where P = ?goal, OF _ assms(1)], intro impI)
    fix rec and E :: "('a, 'b, 'c) HubEnv" and i now h h'
    assume IH: "\<And>E i now h h'. rec E i now h = Some h' \<Longrightarrow> ?goal E i now h h'"
      and run: "(case sl_transport (slot_of i h) of None \<Rightarrow> Some h
        | Some t \<Rightarrow> (case env_read E (hb_wire h t) of
             (None, w) \<Rightarrow> Some (h \<lparr> hb_wire := (hb_wire h)(t := w) \<rparr>)
           | (Some fb, w) \<Rightarrow> rec E i now (snd (run_state (receiveFrame E i fb now) (h \<lparr> hb_wire := (hb_wire h)(t := w) \<rparr>))))) = Some h'"
      and ok: "hub_ok h" "i < kSlotCapacity"
    show "hub_ok h' \<and> hub_steps Clears (spine h) (spine h') \<and> tame E h h'"
    proof (cases "sl_transport (slot_of i h)")
      case (Some t)
      obtain f w where rd: "env_read E (hb_wire h t) = (f, w)" by fastforce
      let ?h = "h \<lparr> hb_wire := (hb_wire h)(t := w) \<rparr>"
      show ?thesis
      proof (cases f)
        case None
        then show ?thesis using run Some rd ok by auto
      next
        case (Some fb)
        let ?h1 = "snd (run_state (receiveFrame E i fb now) ?h)"
        have r: "rec E i now ?h1 = Some h'" using run \<open>sl_transport (slot_of i h) = Some t\<close> rd Some by simp
        have "hub_ok ?h1" "hub_steps Clears (spine h) (spine ?h1)" "tame E h ?h1"
          using receive_ok [of ?h i ?h1 E fb now] ok \<open>sl_transport (slot_of i h) = Some t\<close> steps_weaken tame_frame [of E ?h ?h1]
          by (auto split: if_splits)
        with IH [OF r] ok(2) show ?thesis by (auto intro: rtranclp_trans tame_trans)
      qed
    qed (use run ok in auto)
  qed
  with assms show ?thesis by blast
qed

lemma runs_serviceSlot: "hub_runs E p (\<lambda>c. sized i c) (serviceSlot E i now)"
proof (rule traces_pure [of _ "i < kSlotCapacity"])
  assume i: "i < kSlotCapacity"
  let ?P = "\<lambda>c. sp_sized c \<and> ss_occupied (sp_slots c ! i)"
  have deadman: "hub_runs E p ?P (pumpDeadman E i now)" unfolding pumpDeadman_def
    using i by (intro traces_session hub.traces_step [OF hub.calm_gets] traces_if runs_markStale hub.traces_return) auto
  have ready: "hub_runs E p ?P (pumpReadyTimeout E i now)" unfolding pumpReadyTimeout_def
    using i by (intro traces_session traces_if hub.traces_step [OF calm_goodbyeTo] runs_teardownSession hub.traces_return) auto
  have idle: "hub_runs E p ?P (pumpIdleReap E i now)" unfolding pumpIdleReap_def
    using i by (intro traces_session hub.traces_step [OF hub.calm_gets] traces_if runs_markStale hub.traces_return) auto
  have pumps: "hub_runs E p (\<lambda>c. sp_sized c \<and> (t \<noteq> None \<longleftrightarrow> linked i c)) (ifOccupied i (whenever (t \<noteq> None) (do {
      pumpStatePacing E i now; pumpEventDrain E i; pumpBlobTransfer E i })))" for t :: "nat option"
    unfolding ifOccupied_def using i
    by (intro hub.traces_step [OF hub.calm_gets] hub.traces_when runs_calm hub.calm_bind calm_pumpStatePacing
        calm_pumpEventDrain calm_pumpBlobTransfer) auto
  have each: "hub_runs E p sp_sized (ifOccupied i m)" if "hub_runs E p ?P m" for m
    using that i by (intro runs_ifOccupied) (auto elim: traces_pre)
  show ?thesis unfolding serviceSlot_def
    by (rule traces_pre [where P = sp_sized])
      (intro runs_then [OF each [OF deadman]] runs_then [OF each [OF ready]] runs_then [OF each [OF idle]] traces_transport i pumps, simp)
qed simp

lemma update_slots_ok:
  "update_slots E now is h = Some h' \<Longrightarrow> hub_ok h \<Longrightarrow> set is \<subseteq> {..<kSlotCapacity} \<Longrightarrow>
    hub_ok h' \<and> hub_steps Clears (spine h) (spine h') \<and> tame E h h'"
proof (induction "is" arbitrary: h)
  case (Cons i "is")
  show ?case
  proof (cases "sl_transport (slot_of i h) = None")
    case True
    then show ?thesis using Cons by simp
  next
    case False
    then obtain h1 where h1: "pumpSlot E i now h = Some h1" using Cons(2) by (auto split: option.splits)
    have p: "hub_ok h1" "hub_steps Clears (spine h) (spine h1)" "tame E h h1" using pumpSlot_ok [OF h1] Cons(3,4) by auto
    have s: "hub_ok (snd (run_state (serviceSlot E i now) h1))" "hub_steps Clears (spine h1) (spine (snd (run_state (serviceSlot E i now) h1)))"
      "tame E h1 (snd (run_state (serviceSlot E i now) h1))" using tame_frame [of E h1] traces_ok [OF runs_serviceSlot [where i = i and E = E and p = Clears and now = now], where h = h1] p hub_ok_sized [OF p(1)] Cons(4) by auto
    from Cons(1) [of "snd (run_state (serviceSlot E i now) h1)"] Cons(2-4) h1 False s p show ?thesis
      by (auto intro: rtranclp_trans tame_trans)
  qed
qed simp

lemma hub_update_ok:
  assumes "hub_update E nowUs h = Some h'" and "hub_ok h"
  shows "hub_ok h' \<and> hub_steps Clears (spine h) (spine h') \<and> tame E h h'"
proof -
  obtain now mono where a: "advance nowUs (hb_monoMs h) = (now, mono)" by fastforce
  let ?h0 = "h \<lparr> hb_monoMs := mono \<rparr>" and ?h1 = "snd (run_state (pumpPairing E now) (h \<lparr> hb_monoMs := mono \<rparr>))"
  have sp: "spine ?h0 = spine h" by (simp add: spine_def safety_of_def)
  then have h0: "hub_ok ?h0" "spine ?h0 = spine h" using assms(2) by (simp_all add: hub_ok_def hub_wf_def)
  have "tame E h ?h0" by (simp add: tame_def)
  then have h1: "hub_ok ?h1" "hub_steps Clears (spine h) (spine ?h1)" "tame E h ?h1"
    using calm_ok [of E Clears "pumpPairing E now" ?h0] h0 calm_pumpPairing tame_trans [OF _ tame_frame, of E h ?h0 ?h1] by (auto simp: h0(2))
  have "update_slots E now [0..<kSlotCapacity] ?h1 = Some h'"
    using assms(1) by (auto simp: hub_update_def returned_def a split: option.splits if_splits)
  from update_slots_ok [OF this h1(1)] h1(2,3) show ?thesis by (auto simp: atLeast0LessThan intro: rtranclp_trans tame_trans)
qed


section \<open>Attaching and detaching\<close>

lemma traces_openInto:
  assumes "\<And>c. P c \<Longrightarrow> sized i c \<and> \<not> ss_occupied (sp_slots c ! i)"
  shows "hub_runs E Attaches P (openInto E i t)"
proof -
  have wire: "hub_calm E p P (act (\<lambda>h. let (ok, w) = env_open E (hb_wire h t) in (ok, h \<lparr> hb_wire := (hb_wire h)(t := w) \<rparr>)))" for p
    by (rule hub_calmI) (auto simp: split_beta Let_def intro!: wire_frame wire_step.intros)
  have link: "hub_runs E Attaches P (upd_slot i (\<lambda>s. s \<lparr> sl_transport := Some t \<rparr>))"
    using assms
    by (intro traces_upd_slot [where g = "\<lambda>s. s \<lparr> ss_link := Some t \<rparr>"])
      (auto simp: slot_spine_def hubslot_wf_def put_slot_def intro!: r_into_rtranclp hub_step.Link)
  show ?thesis unfolding openInto_def
    using assms by (intro hub.traces_step [OF wire] runs_then hub.traces_when link hub.traces_return) auto
qed

lemma runs_attachTransport: "hub_runs E Attaches sp_sized (attachTransport E t)"
  unfolding attachTransport_def
proof (rule traces_state, rule traces_option)
  fix h :: "('a, 'b, 'c) Hub"
  show "hub_runs E Attaches (\<lambda>c. sp_sized c \<and> mirrors h c) (openInto E i t)"
    if "find_index (\<lambda>s. sl_transport s = None \<and> \<not> occupied (sl_session s)) (hb_slots h) = Some i" for i
    using find_index_Some [OF that]
    by (intro traces_openInto) (auto simp: mirrors_def session_of_def seen_occupied)
  show "hub_runs E Attaches (\<lambda>c. sp_sized c \<and> mirrors h c) (case findEvictableStale None h of None \<Rightarrow> return False
      | Some v \<Rightarrow> do { closeTransport E v; now \<leftarrow> clockNowMs; teardownSession E v now; openInto E v t })"
  proof (rule traces_option)
    fix v assume v: "findEvictableStale None h = Some v"
    have pre: "sized v c \<and> ss_state (sp_slots c ! v) = S_STALE" if "sp_sized c \<and> mirrors h c" for c
      using that findEvictableStale_stale [OF v] by (auto simp: mirrors_def seen_def)
    have close: "hub_traces E Attaches (\<lambda>c. sp_sized c \<and> mirrors h c) (closeTransport E v) (\<lambda>_ c. sized v c)"
      by (rule traces_closeTransport) (use pre in auto)
    have free: "hub_traces E Attaches (sized v) (teardownSession E v now) (\<lambda>_ c. sized v c \<and> \<not> ss_occupied (sp_slots c ! v))" for now
      by (rule traces_teardownSession) auto
    show "hub_runs E Attaches (\<lambda>c. sp_sized c \<and> mirrors h c)
        (do { closeTransport E v; now \<leftarrow> clockNowMs; teardownSession E v now; openInto E v t })"
      by (rule hub.traces_bind [OF close], rule hub.traces_step [OF calm_clockNowMs], rule hub.traces_bind [OF free], rule traces_openInto)
  qed (auto intro: hub.traces_return)
qed

lemma runs_detachTransport: "hub_runs E p sp_sized (detachTransport E t)"
  unfolding detachTransport_def
proof (rule traces_read_slot, goal_cases)
  case (1 h i)
  then show ?case by (auto simp: attachedSlotFor_def dest: find_index_less)
next
  case (2 v)
  then show ?case
    by (intro traces_option hub.traces_return hub.traces_step [OF calm_clockNowMs] runs_parkAndDetach) auto
qed

section \<open>Construction\<close>

lemma Hub_blank_ok: "hub_ok (Hub_blank wire app rng clock)"
proof -
  have slot: "hubslot_wf HubSlot_new" by (simp add: HubSlot_new_def hubslot_wf_def session_wf_new)
  have "pairing_sized PairingManager_new"
    by (simp add: pairing_sized_def PairingManager_new_def PendingPairingList_new_def)
  then have wf: "hub_wf (Hub_blank wire app rng clock)"
    by (simp add: hub_wf_def Hub_blank_def slot list_all_length so_inv_new rs_inv_def rr_inv_new)
  have slots: "sp_slots (spine (Hub_blank wire app rng clock)) = replicate kSlotCapacity (free_spine None)"
    by (rule nth_equalityI) (simp_all add: spine_def Hub_blank_def slot_spine_def HubSlot_new_def free_spine_def)
  have "spine_inv (spine (Hub_blank wire app rng clock))"
    unfolding spine_inv_def active_def occupants_def slots
    by (simp add: spine_def Hub_blank_def owners_def SourceOwnershipTable_new_def OwnerEntry_new_def rs_get_def rs_find_def cong: conj_cong)
  with wf show ?thesis by (simp add: hub_ok_def)
qed

text \<open>A call that fares well: the hub stays in order, a safety snapshot stays there and true, the ledger stays without duplicates, and
  no draw hangs.\<close>

definition truthful :: "('t, 'd, 'r) Hub \<Rightarrow> ('t, 'd, 'r) Hub \<Rightarrow> bool" where
  "truthful h h' \<longleftrightarrow> (shows_truth (spine h) \<longrightarrow> shows_truth (spine h')) \<and> (sp_shown (spine h) \<noteq> None \<longrightarrow> sp_shown (spine h') \<noteq> None)"

definition fares :: "('t, 'd, 'r) HubEnv \<Rightarrow> ('t, 'd, 'r) Hub \<Rightarrow> ('t, 'd, 'r) Hub \<Rightarrow> bool" where
  "fares E h h' \<longleftrightarrow> (hub_ok h \<longrightarrow> hub_ok h' \<and> truthful h h' \<and> tame E h h')"

lemma truthful_steps: "hub_steps p (spine h) (spine h') \<Longrightarrow> truthful h h'"
  using steps_truth steps_shown by (auto simp: truthful_def)

interpretation faring: step_order "fares E" for E
  by unfold_locales (auto simp: fares_def truthful_def intro: tame_trans)

lemma fares_traces: "hub_traces E p P m Q \<Longrightarrow> (hub_ok h \<Longrightarrow> P (spine h)) \<Longrightarrow> fares E h (snd (run_state m h))"
  using traces_ok truthful_steps tame_frame by (fastforce simp: fares_def)

lemma fares_calm: "(\<And>P. hub_calm E Plain P m) \<Longrightarrow> fares E h (snd (run_state m h))"
  by (rule fares_traces [OF hub.traces_calm]) auto

text \<open>Construction, step by step.\<close>

abbreviation orderly :: "('t, 'd, 'r) HubEnv \<Rightarrow> (('t, 'd, 'r) Hub, 'a) state \<Rightarrow> bool" where
  "orderly E \<equiv> calm (\<lambda>_. ()) (fares E) (\<lambda>_. True)"

lemma orderly_calm: "(\<And>P. hub_calm E Plain P m) \<Longrightarrow> orderly E m"
  by (simp add: calm_def fares_calm)

lemma fares_static:
  "spine h' = spine h \<Longrightarrow> hub_wf h' = hub_wf h \<Longrightarrow> hb_pairing h' = hb_pairing h \<Longrightarrow> hb_fault h' = hb_fault h \<Longrightarrow> fares E h h'"
  by (simp add: fares_def hub_ok_def truthful_def tame_def)

lemma orderly_modify:
  assumes "\<And>h. spine (f h) = spine h" and "\<And>h. hub_wf (f h) = hub_wf h" and "\<And>h. hb_pairing (f h) = hb_pairing h"
    and "\<And>h. hb_fault (f h) = hb_fault h"
  shows "orderly E (modify f)"
  using fares_static [OF assms, of E] by (simp add: calm_def)

lemma orderly_static:
  fixes E :: "('t, 'd, 'r) HubEnv"
  shows "orderly E (modify (\<lambda>h. h \<lparr> hb_catalogEncoded := a, hb_etag := b \<rparr>))" "orderly E (modify (\<lambda>h. h \<lparr> hb_bootId := d \<rparr>))"
  "orderly E (modify (\<lambda>h. h \<lparr> hb_pairedStoreId := e \<rparr>))"
proof -
  have "spine (h \<lparr> hb_catalogEncoded := a, hb_etag := b \<rparr>) = spine h" for h :: "('t, 'd, 'r) Hub"
    by (simp add: spine_def safety_of_def)
  moreover have "hub_wf (h \<lparr> hb_catalogEncoded := a, hb_etag := b \<rparr>) = hub_wf h" for h :: "('t, 'd, 'r) Hub"
    by (simp add: hub_wf_def)
  ultimately show "orderly E (modify (\<lambda>h. h \<lparr> hb_catalogEncoded := a, hb_etag := b \<rparr>))" by (intro orderly_modify) simp_all
  have "spine (h \<lparr> hb_bootId := d \<rparr>) = spine h" "hub_wf (h \<lparr> hb_bootId := d \<rparr>) = hub_wf h" for h :: "('t, 'd, 'r) Hub"
    by (simp_all add: spine_def safety_of_def hub_wf_def)
  then show "orderly E (modify (\<lambda>h. h \<lparr> hb_bootId := d \<rparr>))" by (intro orderly_modify) simp_all
  have "spine (h \<lparr> hb_pairedStoreId := e \<rparr>) = spine h" "hub_wf (h \<lparr> hb_pairedStoreId := e \<rparr>) = hub_wf h" for h :: "('t, 'd, 'r) Hub"
    by (simp_all add: spine_def safety_of_def hub_wf_def)
  then show "orderly E (modify (\<lambda>h. h \<lparr> hb_pairedStoreId := e \<rparr>))" by (intro orderly_modify) simp_all
qed

lemma orderly_snapshot: "orderly E publishSafetySnapshot"
proof -
  have change: "safety_change (\<lambda>h :: ('a, 'b, 'c) Hub. h)" by (simp add: safety_change_def)
  have "fares E h (snd (run_state publishSafetySnapshot h))" for h :: "('a, 'b, 'c) Hub"
  proof (unfold fares_def, intro impI conjI)
    let ?h' = "snd (run_state publishSafetySnapshot h)"
    have "hub_frame E h ?h' \<and> hub_steps Plain (spine h) (spine ?h') \<and> sp_sized (spine ?h') = sp_sized (spine h)"
      by (rule safety_step [OF change _ refl]) simp
    then have m: "hub_frame E h ?h'" "hub_steps Plain (spine h) (spine ?h')" by simp_all
    assume "hub_ok h"
    then show "hub_ok ?h'" using m inv_steps [OF m(2)] by (simp add: hub_ok_def hub_frame_def)
    show "truthful h ?h'" by (rule truthful_steps [OF m(2)])
    show "tame E h ?h'" by (rule tame_frame [OF m(1)])
  qed
  then show ?thesis by (simp add: calm_def)
qed

lemma orderly_draw: "orderly E (drawNonZero E)"
  using fares_traces [OF traces_drawNonZero [of "\<lambda>_. True" "\<lambda>_. True" E Plain]] by (simp add: calm_def)

lemma Hub_new_fares: "fares E (Hub_blank wire app rng clock) (Hub_new E wire app rng clock)"
proof -
  have "orderly E (hub_construct E)" unfolding hub_construct_def Let_def
    by (intro faring.calm_bind faring.calm_when orderly_draw orderly_snapshot orderly_static
        orderly_calm [OF calm_publishPendingPairingState] orderly_calm [OF calm_publishPairedRosterState])
  then show ?thesis unfolding Hub_new_def by (simp add: calm_def)
qed

lemma Hub_new_start:
  shows "hub_ok (Hub_new E wire app rng clock)" "shows_truth (spine (Hub_new E wire app rng clock))"
    "pm_inv (hb_pairing (Hub_new E wire app rng clock))" "lively (env_nextU32 E) \<Longrightarrow> \<not> hangs (Hub_new E wire app rng clock)"
proof -
  have "shows_truth (spine (Hub_blank wire app rng clock))" "pm_inv (hb_pairing (Hub_blank wire app rng clock))"
    "\<not> hangs (Hub_blank wire app rng clock)"
    by (simp_all add: shows_truth_def spine_def Hub_blank_def rs_get_def rs_find_def pm_inv_new)
  with Hub_new_fares [of E wire app rng clock] Hub_blank_ok [of wire app rng clock]
  show "hub_ok (Hub_new E wire app rng clock)" "shows_truth (spine (Hub_new E wire app rng clock))"
    "pm_inv (hb_pairing (Hub_new E wire app rng clock))" "lively (env_nextU32 E) \<Longrightarrow> \<not> hangs (Hub_new E wire app rng clock)"
    by (auto simp: fares_def truthful_def tame_def pairing_keeps_def)
qed

section \<open>Reachable hubs\<close>

text \<open>The calls of the application. It publishes state on any channel, and has the pairing manager in its hands (\<^verbatim>\<open>pairing()\<close>), where
  it may leave whatever fits the arrays. \<open>may\<close> says which of these two kinds of calls the application of a run makes; without a restriction
  it is true throughout. Between the calls the clock moves (\<open>Tick\<close>) and anything may happen to the transports (\<open>Arrive\<close>).\<close>

datatype app_act = Shows u16 | Restores PairingManager

inductive hub_call :: "('t, 'd, 'r) HubEnv \<Rightarrow> (app_act \<Rightarrow> bool) \<Rightarrow> ('t, 'd, 'r) Hub \<Rightarrow> ('t, 'd, 'r) Hub \<Rightarrow> bool" for E may where
  Update: "hub_update E nowUs h = Some h' \<Longrightarrow> hub_call E may h h'"
| Attach: "hub_call E may h (snd (run_state (attachTransport E t) h))"
| Detach: "hub_call E may h (snd (run_state (detachTransport E t) h))"
| LatchEstop: "hub_call E may h (snd (run_state (latchEstop E cause origin seq) h))"
| ClearEstop: "hub_call E may h (snd (run_state (clearEstop E) h))"
| SetSafetyModes: "hub_call E may h (snd (run_state (setSafetyModes E override bypass) h))"
| PublishState: "may (Shows ch) \<Longrightarrow> hub_call E may h (snd (run_state (publishState ch payload) h))"
| PublishEvent: "hub_call E may h (snd (run_state (publishEvent E ch bs) h))"
| PublishLog: "hub_call E may h (snd (run_state (publishLog E level tag message) h))"
| OpenPairingWindow: "hub_call E may h (snd (run_state (openPairingWindow pin) h))"
| ClosePairingWindow: "hub_call E may h (snd (run_state closePairingWindow h))"
| OpenPresence: "hub_call E may h (snd (run_state (hub_openPresenceWindow E) h))"
| ClosePresence: "hub_call E may h (snd (run_state (hub_closePresenceWindow E) h))"
| TakeSignJob: "hub_call E may h (snd (run_state takePendingSignJob h))"
| SubmitSignature: "hub_call E may h (snd (run_state (submitSignature E sid sig) h))"
| SignPending: "hub_call E may h (snd (run_state (signPendingNow E maxJobs) h))"
| Congestion: "hub_call E may h (snd (run_state (setCongestionLevel i level) h))"
| TransportCongestion: "hub_call E may h (snd (run_state (setTransportCongestion t level) h))"
| BumpConfig: "hub_call E may h (snd (run_state bumpConfigGeneration h))"
| InlineSigning: "hub_call E may h (snd (run_state (setInlineSigning on) h))"
| Identity: "hub_call E may h (snd (run_state (setHubIdentity product fw name) h))"
| InstanceId: "hub_call E may h (snd (run_state (setHubInstanceId v) h))"
| Endpoint: "hub_call E may h (snd (run_state (setEndpoint port ip) h))"
| Ledger: "may (Restores m) \<Longrightarrow> pairing_sized m \<Longrightarrow> hub_call E may h (h \<lparr> hb_pairing := m \<rparr>)"
| Tick: "hub_call E may h (tick us h)"
| Arrive: "hub_call E may h (h \<lparr> hb_wire := wire \<rparr>)"

abbreviation hub_calls :: "('t, 'd, 'r) HubEnv \<Rightarrow> (app_act \<Rightarrow> bool) \<Rightarrow> ('t, 'd, 'r) Hub \<Rightarrow> ('t, 'd, 'r) Hub \<Rightarrow> bool" where
  "hub_calls E may \<equiv> (hub_call E may)\<^sup>*\<^sup>*"

abbreviation hub_reach :: "('t, 'd, 'r) HubEnv \<Rightarrow> ('t, 'd, 'r) Hub \<Rightarrow> ('t, 'd, 'r) Hub \<Rightarrow> bool" where
  "hub_reach E \<equiv> hub_calls E (\<lambda>_. True)"

text \<open>The two calls that go beyond the steps of the spine.\<close>

lemma publishState_ok:
  fixes h :: "('t, 'd, 'r) Hub"
  assumes "hub_ok h"
  shows "hub_ok (snd (run_state (publishState ch payload) h)) \<and> tame E h (snd (run_state (publishState ch payload) h)) \<and>
    (ch \<noteq> ch_safety \<longrightarrow> truthful h (snd (run_state (publishState ch payload) h)))"
proof -
  let ?h' = "h \<lparr> hb_retained := snd (rs_publish kRetainedCapacity ch payload (hb_retained h)) \<rparr>"
  have r: "snd (run_state (publishState ch payload) h) = ?h'"
    by (simp add: publishState_def hub_retain_def split_beta Let_def)
  have "spine_inv (spine ?h')" using assms by (simp add: hub_ok_def spine_inv_def active_def spine_def safety_of_def)
  moreover have "hub_wf ?h'" using assms by (simp add: hub_ok_def hub_wf_def rs_publish_inv)
  moreover have "truthful h ?h'" if "ch \<noteq> ch_safety"
    using that by (simp add: truthful_def shows_truth_def spine_def safety_of_def rs_get_other)
  ultimately show ?thesis by (simp add: r hub_ok_def tame_def)
qed

lemma hub_call_fares:
  assumes "hub_call E may h h'"
  shows "fares E h h' \<or> (\<exists>ch payload. h' = snd (run_state (publishState ch payload) h) \<and> may (Shows ch)) \<or>
    (\<exists>m. h' = h \<lparr> hb_pairing := m \<rparr> \<and> may (Restores m) \<and> pairing_sized m)"
  using assms
proof (cases rule: hub_call.cases)
  case (Update nowUs)
  then show ?thesis using hub_update_ok truthful_steps by (fastforce simp: fares_def)
next
  case (Attach t)
  then show ?thesis using fares_traces [OF runs_attachTransport hub_ok_sized] by blast
next
  case (Detach t)
  then show ?thesis using fares_traces [OF runs_detachTransport hub_ok_sized] by blast
next
  case (LatchEstop cause origin seq)
  then show ?thesis using fares_traces [OF runs_latchEstop [where P = sp_sized] hub_ok_sized] by blast
next
  case ClearEstop
  then show ?thesis using fares_traces [OF runs_clearEstop [where P = sp_sized] hub_ok_sized] by blast
next
  case (SetSafetyModes override bypass)
  then show ?thesis using fares_traces [OF runs_setSafetyModes [where P = sp_sized] hub_ok_sized] by blast
next
  case (SubmitSignature sid sig)
  then show ?thesis using fares_traces [OF hub.traces_calm [OF calm_submitSignature [where P = sp_sized]] hub_ok_sized] by blast
next
  case (SignPending maxJobs)
  then show ?thesis using fares_traces [OF hub.traces_calm [OF calm_signPendingNow [where P = sp_sized]] hub_ok_sized] by blast
next
  case (PublishState ch payload)
  then show ?thesis by blast
next
  case (Ledger m)
  then show ?thesis by blast
next
  case (Tick us)
  have "fares E h h'" unfolding Tick by (rule fares_static) (simp_all add: tick_def spine_def safety_of_def hub_wf_def)
  then show ?thesis ..
next
  case (Arrive wire)
  have "fares E h h'" unfolding Arrive by (rule fares_static) (simp_all add: hub_wf_def)
  then show ?thesis ..
qed (hypsubst, rule disjI1, rule fares_calm, (rule calm_rules; assumption?))+

lemma hub_call_ok:
  assumes "hub_call E may h h'" and "hub_ok h"
  shows "hub_ok h'" "\<not> may (Shows ch_safety) \<Longrightarrow> truthful h h'"
    "(\<And>m. may (Restores m) \<Longrightarrow> pm_inv m) \<Longrightarrow> pm_inv (hb_pairing h) \<Longrightarrow> pm_inv (hb_pairing h')"
    "lively (env_nextU32 E) \<Longrightarrow> hangs h' \<Longrightarrow> hangs h"
proof -
  consider ch payload where "h' = snd (run_state (publishState ch payload) h)" "may (Shows ch)"
    | m where "h' = h \<lparr> hb_pairing := m \<rparr>" "may (Restores m)" "pairing_sized m" | "fares E h h'"
    using hub_call_fares [OF assms(1)] by blast
  then have "hub_ok h' \<and> (\<not> may (Shows ch_safety) \<longrightarrow> truthful h h') \<and>
      ((\<forall>m. may (Restores m) \<longrightarrow> pm_inv m) \<longrightarrow> pm_inv (hb_pairing h) \<longrightarrow> pm_inv (hb_pairing h')) \<and>
      (lively (env_nextU32 E) \<longrightarrow> hangs h' \<longrightarrow> hangs h)"
  proof cases
    case 1
    then show ?thesis using publishState_ok [OF assms(2), of ch payload E] by (auto simp: tame_def pairing_keeps_def)
  next
    case 2
    then show ?thesis using assms(2) by (auto simp: hub_ok_def hub_wf_def truthful_def)
  next
    case 3
    then show ?thesis using assms(2) by (auto simp: fares_def tame_def pairing_keeps_def)
  qed
  then show "hub_ok h'" "\<not> may (Shows ch_safety) \<Longrightarrow> truthful h h'"
    "(\<And>m. may (Restores m) \<Longrightarrow> pm_inv m) \<Longrightarrow> pm_inv (hb_pairing h) \<Longrightarrow> pm_inv (hb_pairing h')"
    "lively (env_nextU32 E) \<Longrightarrow> hangs h' \<Longrightarrow> hangs h" by blast+
qed

end
