(* ===== verification/Hub_Bench.thy ===== *)
theory Hub_Bench
  imports Hub_Reach
begin

text \<open>
  A hub on the bench: a concrete environment (a link that swallows what is written to it, an application that makes everybody
  a controller and maps the channel \<open>ch_move\<close> to source 2) and the run of a client through it, from HELLO over CATALOG_READY to INTENTs. The witnesses of the hub's
  properties are states of this run. \<open>lazily\<close> turns a definition into a rule that unfolds a command only when it is run, and
  \<open>run_bind_now\<close> lets the run of a sequence follow the run of its first command.
\<close>

section \<open>Definitions: the bench\<close>

definition bench_entry :: "u16 \<Rightarrow> ChannelClass \<Rightarrow> CatalogEntry" where
  "bench_entry i cls = \<lparr> ce_id = i, ce_name = [65], ce_cls = cls, ce_dir = h2c, ce_access = watch, ce_maxRateHz = 0,
     ce_defaultPriority = normal, ce_fieldCount = 0, ce_fieldOffset = 0, ce_category = None, ce_categoryLabel = [],
     ce_replayDepth = None, ce_settingChannel = None, ce_streamKind = 0, ce_rank = None \<rparr>"

abbreviation (input) ch_move :: u16 where "ch_move \<equiv> 0x201"

definition bench_catalog :: BasicCatalog where
  "bench_catalog = BasicCatalog_new \<lparr> bc_entries := [bench_entry ch_safety_intents CC_INTENT, bench_entry ch_safety CC_STATE,
     bench_entry ch_move CC_INTENT] \<rparr>"

definition bench_env :: "(FrameBuffer list, u32 list, u32) HubEnv" where
  "bench_env = \<lparr> env_catalog = bench_catalog, env_encodeCatalog = (\<lambda>_. []), env_open = Pair True, env_close = id,
     env_write = (\<lambda>bs. Pair True), env_read = (\<lambda>w. case w of [] \<Rightarrow> (None, []) | fb # w \<Rightarrow> (Some fb, w)),
     env_mtu = (\<lambda>_. 250), env_nextU32 = (\<lambda>r. (r + 7, r + 1)), env_fill = (\<lambda>n r. (replicate n 5, r + 1)),
     env_crypto = SoftwareCrypto, env_publicKey = [], env_signP256 = (\<lambda>_. []),
     env_validateToken = (\<lambda>inst tok present. Pair control), env_applyIntent = (\<lambda>ch vs role. Pair (Inr vs, False)),
     env_onEstop = (\<lambda>cause origin. (#) 1), env_onSessionJoined = (#), env_onSessionLeft = (#),
     env_sourceForChannel = (\<lambda>ch. Pair (if ch = ch_move then Some 2 else None)), env_onSourceOwnership = (\<lambda>src sid reason. (#) sid),
     env_canClearEstop = Pair True, env_onStreamBundle = (\<lambda>ch sid b. id), env_effectiveCurveFamily = (\<lambda>ch. Pair),
     env_readBlob = (\<lambda>ns st sl. Pair None), env_floatUndef = id \<rparr>"

definition bench_frame :: "u8 \<Rightarrow> bytes \<Rightarrow> FrameBuffer" where
  "bench_frame type payload = FrameBuffer_from (header_bytes \<lparr> hdr_type = type, hdr_flags = 0, hdr_channel = 0, hdr_seq = 1,
     hdr_len = of_nat (length payload) \<rparr> @ payload)"

definition bench_hello :: HelloMsg where
  "bench_hello = HelloMsg_new \<lparr> hl_client_kind := [99], hl_client_name := [99] \<rparr>"

definition bench_op :: "u16 \<Rightarrow> IntentMsg" where
  "bench_op ch = \<lparr> im_channel_id = ch, im_intent_id = 77, im_value = [u64_field 1 1],
     im_precondition = None, im_takeover = None \<rparr>"

definition bench_hello_frame :: FrameBuffer where
  "bench_hello_frame = bench_frame FT_HELLO (encodeHello bench_hello 200)"

definition bench_ready_frame :: FrameBuffer where
  "bench_ready_frame = bench_frame FT_CATALOG_READY (take 8 (sha_hash []))"

definition bench_op_frame :: "u16 \<Rightarrow> FrameBuffer" where
  "bench_op_frame ch = bench_frame FT_INTENT (encodeIntent (bench_op ch) 100)"

type_synonym bench_hub = "(FrameBuffer list, u32 list, u32) Hub"

definition bench_start :: bench_hub where
  "bench_start = Hub_new bench_env (\<lambda>_. []) [] 0 0"

definition bench_attached :: bench_hub where
  "bench_attached = snd (run_state (attachTransport bench_env 0) bench_start)"

section \<open>Running commands\<close>

lemma run_bind_now: "run_state m h = (a, h') \<Longrightarrow> run_state (m \<bind> f) h = run_state (f a) h'"
  by simp

lemma bind_weak_cong: "m = n \<Longrightarrow> State_Monad.bind m f = State_Monad.bind n f"
  by simp

lemmas lazily = fun_cong [OF arg_cong [where f = run_state]]

lemma draw_nonzero_hit: "next r = (v, r') \<Longrightarrow> v \<noteq> 0 \<Longrightarrow> draw_nonzero next r = Some (v, r')"
  by (subst draw_nonzero.simps) simp

lemma run_primitives:
  "run_state (upd_slot i f) h = ((), h \<lparr> hb_slots := (hb_slots h)[i := f (hb_slots h ! i)] \<rparr>)"
  "run_state (upd_session i g) h =
    ((), h \<lparr> hb_slots := (hb_slots h)[i := (hb_slots h ! i) \<lparr> sl_session := g (sl_session (hb_slots h ! i)) \<rparr>] \<rparr>)"
  "run_state (app_ask k) h = (fst (k (hb_app h)), h \<lparr> hb_app := snd (k (hb_app h)) \<rparr>)"
  "run_state (rng_ask r) h = (fst (r (hb_rng h)), h \<lparr> hb_rng := snd (r (hb_rng h)) \<rparr>)"
  "run_state (app_tell t) h = ((), h \<lparr> hb_app := t (hb_app h) \<rparr>)"
  "run_state (whenever b m) h = (if b then run_state m h else ((), h))"
  by (simp_all add: upd_slot_def upd_session_def app_ask_def rng_ask_def app_tell_def whenever_def split_beta Let_def)

lemma run_drawNonZero:
  "env_nextU32 E (hb_rng h) = (v, r) \<Longrightarrow> v \<noteq> 0 \<Longrightarrow> run_state (drawNonZero E) h = (v, h \<lparr> hb_rng := r \<rparr>)"
  by (simp add: drawNonZero_def draw_nonzero_hit)

lemmas run_now = run_primitives run_bind_now run_drawNonZero
  lazily [OF receiveFrame_def] lazily [OF dispatchFrame_def] lazily [OF dispatchType_def] lazily [OF ifOccupied_def]
  lazily [OF noteReceived_def] lazily [OF reviveIfStale_def]
  lazily [OF handleHello_def] lazily [OF helloAdmit_def] lazily [OF helloOpen_def] lazily [OF teardownSession_def]
  lazily [OF presentedRole_def] lazily [OF helloRole_def] lazily [OF helloGrants_def] lazily [OF grantPublishWishes_def]
  lazily [OF sendSlot_def] lazily [OF deref_def]
  lazily [OF transport_of_def] lazily [OF handleCatalogReady_def]
  lazily [OF handleIntent_def] lazily [OF admitIntent_def] lazily [OF acquireFor_def] lazily [OF applyAndEcho_def]
  lazily [OF publishControlOwnerStateIfPresent_def] lazily [OF applySafetyOpLatch_def] lazily [OF publishSafetySnapshot_def]
  lazily [OF hub_retain_def] lazily [OF broadcastSafetyNow_def] lazily [OF emitSafetyEdgeEvents_def] lazily [OF clearStopLatch_def]
  lazily [OF echoIntent_def] lazily [OF storeEcho_def] lazily [OF sendFrameToTracked_def] lazily [OF trackCriticalSend_def]
  lazily [OF serviceSlot_def] lazily [OF pumpDeadman_def] lazily [OF pumpReadyTimeout_def] lazily [OF pumpIdleReap_def]
  lazily [OF pumpStatePacing_def] lazily [OF pumpEventDrain_def] lazily [OF pumpBlobTransfer_def] lazily [OF pumpPairing_def]
  lazily [OF latchEstop_def] lazily [OF handleEstopFrame_def] lazily [OF clearEstop_def] lazily [OF clockNowMs_def]

section \<open>The frames\<close>

lemma bench_frame_parts:
  assumes "length payload \<le> 500" and "length payload \<noteq> 4"
  shows "fb_bytes (bench_frame type payload) = header_bytes \<lparr> hdr_type = type, hdr_flags = 0, hdr_channel = 0, hdr_seq = 1,
      hdr_len = of_nat (length payload) \<rparr> @ payload"
    and "fb_payload (bench_frame type payload) = payload"
    and "decodeFrameHeader (fb_bytes (bench_frame type payload)) = Some \<lparr> hdr_type = type, hdr_flags = 0, hdr_channel = 0,
      hdr_seq = 1, hdr_len = of_nat (length payload) \<rparr>"
proof -
  let ?frame = "header_bytes \<lparr> hdr_type = type, hdr_flags = 0, hdr_channel = 0, hdr_seq = 1,
      hdr_len = of_nat (length payload) \<rparr> @ payload"
  have "fb_size (bench_frame type payload) = word_of_nat (8 + length payload)" and size: "length payload + 8 < 2 ^ 16"
    using assms by (simp_all add: bench_frame_def FrameBuffer_from_def kFrameBufferCapacity_def)
  then have size: "unat (fb_size (bench_frame type payload)) = 8 + length payload" by (simp only: unat_of_nat) simp
  show bs: "fb_bytes (bench_frame type payload) = ?frame"
    and "decodeFrameHeader (fb_bytes (bench_frame type payload)) = Some \<lparr> hdr_type = type, hdr_flags = 0, hdr_channel = 0,
      hdr_seq = 1, hdr_len = of_nat (length payload) \<rparr>"
    using assms by (simp_all add: bench_frame_def kFrameBufferCapacity_def)
  show "fb_payload (bench_frame type payload) = payload"
    using size bs by (simp add: fb_payload_def kHeaderBytes_def fb_empty_def)
qed

lemma bench_hello_payload:
  "decodeHello (encodeHello bench_hello 200) = Inr bench_hello \<and> length (encodeHello bench_hello 200) \<in> {5..200}"
proof -
  have ok: "hello_ok bench_hello" by (simp add: hello_ok_def bench_hello_def HelloMsg_new_def)
  have "length (enc (CMap (hello_kvs bench_hello))) \<in> {5..200}" by code_simp
  then show ?thesis using hello_codec.roundtrip [OF ok, of 200 "[]"] hello_codec.encode_image [OF ok, of 200] by (simp del: enc.simps)
qed

lemma bench_op_payload:
  assumes "ch = ch_safety_intents \<or> ch = ch_move"
  shows "decodeIntent (encodeIntent (bench_op ch) 100) = Inr (bench_op ch) \<and> length (encodeIntent (bench_op ch) 100) \<in> {5..100}"
proof -
  have ok: "intent_ok (bench_op ch)" by (simp add: intent_ok_def bench_op_def ivs_ok_def u64_field_def)
  have "length (enc (CMap (intent_kvs (bench_op ch_safety_intents)))) \<in> {5..100}" by code_simp
  moreover have "length (enc (CMap (intent_kvs (bench_op ch_move)))) \<in> {5..100}" by code_simp
  ultimately have "length (enc (CMap (intent_kvs (bench_op ch)))) \<in> {5..100}" using assms by auto
  then show ?thesis using intent_codec.roundtrip [OF ok, of 100 "[]"] intent_codec.encode_image [OF ok, of 100] by (simp del: enc.simps)
qed

lemma bench_receive:
  assumes "length payload \<le> 500" and "length payload \<noteq> 4"
  shows "run_state (receiveFrame E i (bench_frame type payload) now) h = run_state (do {
    noteReceived E i now;
    dispatchFrame E i \<lparr> hdr_type = type, hdr_flags = 0, hdr_channel = 0, hdr_seq = 1, hdr_len = of_nat (length payload) \<rparr> payload now }) h"
  using bench_frame_parts [OF assms, of type] assms by (simp add: receiveFrame_def kEstopFrameBytes_def Let_def)

section \<open>The run\<close>

lemma bench_env_simps [simp]:
  "env_catalog bench_env = bench_catalog" "env_encodeCatalog bench_env = (\<lambda>_. [])" "env_open bench_env = Pair True"
  "env_close bench_env = id" "env_write bench_env = (\<lambda>bs. Pair True)"
  "env_read bench_env = (\<lambda>w. case w of [] \<Rightarrow> (None, []) | fb # w \<Rightarrow> (Some fb, w))" "env_mtu bench_env = (\<lambda>_. 250)"
  "env_nextU32 bench_env = (\<lambda>r. (r + 7, r + 1))" "env_fill bench_env = (\<lambda>n r. (replicate n 5, r + 1))"
  "env_validateToken bench_env = (\<lambda>inst tok present. Pair control)"
  "env_applyIntent bench_env = (\<lambda>ch vs role. Pair (Inr vs, False))" "env_onEstop bench_env = (\<lambda>cause origin. (#) 1)"
  "env_onSessionJoined bench_env = (#)" "env_sourceForChannel bench_env = (\<lambda>ch. Pair (if ch = ch_move then Some 2 else None))"
  "env_onSourceOwnership bench_env = (\<lambda>src sid reason. (#) sid)" "env_canClearEstop bench_env = Pair True"
  by (simp_all add: bench_env_def)

lemma bench_find [simp]: "cat_find ch bench_catalog =
    (if ch = 5 then Some (bench_entry 5 CC_INTENT) else if ch = 3 then Some (bench_entry 3 CC_STATE)
     else if ch = ch_move then Some (bench_entry ch_move CC_INTENT) else None)"
  by (simp add: cat_find_def bench_catalog_def bench_entry_def)

lemma bench_send [simp]: "run_state (sendFrameTo bench_env t type ch payload seq) h = (length payload \<le> 504, h)"
  by (auto simp: sendFrameTo_def encodeFrameHeader_fits kFrameBufferCapacity_def Let_def split_beta)

lemma new_slot [simp]:
  "sl_transport HubSlot_new = None" "sl_session HubSlot_new = HubSession_new" "occupied HubSession_new = False"
  by (simp_all add: HubSlot_new_def HubSession_new_def occupied_def state_occupied_def)

lemma HubSlot_new_slots:
  "HubSlot_new \<lparr> sl_transport := t, sl_nonce := n, sl_session := s \<rparr> = HubSlot_new \<lparr> sl_transport := t, sl_session := s, sl_nonce := n \<rparr>"
  "HubSlot_new \<lparr> sl_transport := t, sl_session := s, sl_nonce := n, sl_criticalStalling := False \<rparr> =
    HubSlot_new \<lparr> sl_transport := t, sl_session := s, sl_nonce := n \<rparr>"
  "sl_congestionLevel HubSlot_new = 0" "sl_blob HubSlot_new = PendingBlob_new"
  by (simp_all add: HubSlot_new_def)

definition bench_session :: "bool \<Rightarrow> HubSession" where
  "bench_session ready = HubSession_new \<lparr> hs_state := S_LIVE, hs_session_id := 8, hs_role := control, hs_clientKind := [99],
     hs_clientName := [99], hs_helloSeenCfgGen := 1, hs_ready := ready, hs_grantedAtMs := 1, hs_lastRxMs := 1, hs_lastTxMs := 1 \<rparr>"

definition bench_slots :: "HubSession \<Rightarrow> HubSlot list" where
  "bench_slots s = [HubSlot_new \<lparr> sl_transport := Some 0, sl_session := s, sl_nonce := (if occupied s then replicate 8 5 else replicate 8 0) \<rparr>, HubSlot_new,
     HubSlot_new, HubSlot_new, HubSlot_new]"

lemma bench_slots_0 [simp]: "sl_session (bench_slots s ! 0) = s" "sl_transport (bench_slots s ! 0) = Some 0"
  by (simp_all add: bench_slots_def)

lemma bench_session_simps [simp]:
  "hs_state (bench_session r) = S_LIVE" "hs_session_id (bench_session r) = 8" "hs_ready (bench_session r) = r"
  "hs_role (bench_session r) = control" "hs_subs (bench_session r) = []" "hs_lastRxMs (bench_session r) = 1"
  "hs_deadmanMs (bench_session r) = 600" "hs_events (bench_session r) = EventQueue_new kEventDepth kEventSlotBytes"
  "hs_intentRing (bench_session r) = IntentRing_new kIntentDepth kIntentSlotBytes"
  "hs_intentLimiter (bench_session r) = IngressRateLimiter_new intent_ingress_default_per_s 0 0"
  "occupied (bench_session r)"
  by (simp_all add: bench_session_def HubSession_new_def occupied_def state_occupied_def)

lemma bench_session_again [simp]:
  "bench_session r \<lparr> hs_lastRxMs := 1 \<rparr> = bench_session r"
  "bench_session r \<lparr> hs_ready := True, hs_readyEtagMismatch := False \<rparr> = bench_session True"
  by (simp_all add: bench_session_def HubSession_new_def)

lemma head_nbytes_le: "head_nbytes v \<le> 8"
  by (simp add: head_nbytes_def)

text \<open>A WELCOME without grants and identity is small.\<close>

lemma small_welcome:
  assumes "length (wm_catalog_etag m) = 8" and "length (wm_nonce m) = 8" and "wm_grants m = []" and "wm_granted_publishes m = []"
    and "wm_identity m = None" and "wm_ws_port m = 0" and "wm_ipv4 m = 0" and "wm_trust m = Some (TrustMap_new \<lparr> tm_pairing_modes := Some modes \<rparr>)"
  shows "encodeWelcome m 700 \<noteq> [] \<and> length (encodeWelcome m 700) \<le> 504"
proof -
  have ok: "welcome_ok m" using assms by (simp add: welcome_ok_def tm_any_def trust_ok_def TrustMap_new_def)
  have "length (enc (CMap (welcome_kvs m))) \<le> 504"
    using assms
    by (simp add: welcome_kvs_def limits_kvs_def tm_any_def TrustMap_new_def trust_kvs_def length_head_bytes)
      (intro conjI impI; rule order_trans, (rule add_le_mono mult_le_mono2 head_nbytes_le le_refl)+, simp)
  then show ?thesis using encodeWelcome_image [OF ok, of 700] enc_nonempty by (simp del: enc.simps)
qed

lemma bench_welcome_run:
  assumes "hb_slots h = sl # rest" and "sl_transport sl = Some 0" and "\<not> sl_sigRequested sl" and "offeredModes 1 (hb_pairing h) \<noteq> 0"
    and "length (hb_etag h) = 8" and "hubIdentity h = None" and "hb_wsPort h = 0" and "hb_ipv4 h = 0"
  shows "run_state (sendWelcome bench_env 0 [] [] 1) h =
    (True, h \<lparr> hb_slots := sl \<lparr> sl_nonce := replicate 8 5 \<rparr> # rest, hb_rng := hb_rng h + 1 \<rparr>)"
  unfolding lazily [OF sendWelcome_def] using assms
  apply -
  apply (subst run_bind_now, simp)
  apply (subst Let_def)
  apply (subst run_bind_now, simp add: run_primitives)
  apply (subst run_bind_now, simp add: run_primitives)
  apply (simp add: session_of_def)
  apply (subst lazily [OF armWelcomeSignature_def])
  apply (subst run_bind_now, simp)
  apply (subst run_bind_now, simp)
  apply (simp add: slot_of_def)
  apply (subst Let_def)
  apply (simp add: lazily [OF sendSlot_def] lazily [OF deref_def] lazily [OF transport_of_def] run_bind_now slot_of_def small_welcome whenever_def)
  done

lemma bench_offers: "offeredModes 1 PairingManager_new \<noteq> 0"
  by code_simp

lemma bench_anonymous [simp]:
  "hubIdentity (h \<lparr> hb_slots := xs \<rparr>) = hubIdentity h" "hubIdentity (h \<lparr> hb_rng := r \<rparr>) = hubIdentity h"
  "hubIdentity (h \<lparr> hb_dispatchSeq := d \<rparr>) = hubIdentity h" "hubIdentity (h \<lparr> hb_wire := w \<rparr>) = hubIdentity h"
  "hubIdentity (h \<lparr> hb_monoMs := m \<rparr>) = hubIdentity h"
  by (simp_all add: hubIdentity_def Let_def)

lemma bench_hello_run:
  assumes "decodeHello payload = Inr bench_hello" and "hb_slots h = bench_slots HubSession_new" and "hb_rng h = 1"
    and "hb_pairing h = PairingManager_new" and "hb_cfgGen h = 1" and "length (hb_etag h) = 8" and "hubIdentity h = None"
    and "hb_wsPort h = 0" and "hb_ipv4 h = 0"
  shows "run_state (handleHello bench_env 0 payload 1) h = ((), h \<lparr> hb_slots := bench_slots (bench_session False),
    hb_rng := 3, hb_app := 8 # hb_app h \<rparr>)"
  using assms
  apply (simp add: bench_slots_def run_now occupiedCount_def session_of_def findSlotByInstance_def upt_rec slot_of_def clearHandshake_def
     noteIdentity_def noteSignRequest_def hello_trust_def bench_hello_def HelloMsg_new_def clampDeadman_def bench_welcome_run bench_offers
     del: run_state_bind)
  apply (rule Hub.equality)
  apply (simp_all add: bench_session_def HubSlot_new_def HubSession_new_def bs_assign_def kLedgerKindMaxBytes_def kLedgerNameMaxBytes_def)
  done

lemma length_sha_hash: "length (sha_hash x) = 32"
proof -
  have "length (sha_digest v) = 32" for v by (cases v rule: sha_digest.cases) simp
  then show ?thesis by (simp add: sha_hash_def sha_final_def split_beta Let_def)
qed

lemma bench_ready_run:
  assumes "hb_slots h = bench_slots (bench_session False)" and "hb_etag h = take 8 (sha_hash [])"
  shows "run_state (receiveFrame bench_env 0 bench_ready_frame 1) h =
    ((), h \<lparr> hb_slots := bench_slots (bench_session True), hb_dispatchSeq := None \<rparr>)"
  using assms unfolding bench_ready_frame_def
  by (subst bench_receive)
    (simp_all add: length_sha_hash bench_slots_def run_now session_of_def decodeCatalogReady_def kCatalogReadyBytes_def
      Raw_Frames.etag_bytes_def Let_def HubSlot_new_slots del: run_state_bind)

lemma bench_hello_received:
  assumes "hb_slots h = bench_slots HubSession_new" and "hb_rng h = 1" and "hb_pairing h = PairingManager_new" and "hb_cfgGen h = 1"
    and "length (hb_etag h) = 8" and "hubIdentity h = None" and "hb_wsPort h = 0" and "hb_ipv4 h = 0"
  shows "run_state (receiveFrame bench_env 0 bench_hello_frame 1) h = ((), h \<lparr> hb_slots := bench_slots (bench_session False),
    hb_rng := 3, hb_app := 8 # hb_app h, hb_dispatchSeq := None \<rparr>)"
proof -
  let ?p = "encodeHello bench_hello 200"
  note p = bench_hello_payload
  have "run_state (handleHello bench_env 0 ?p 1) (h \<lparr> hb_dispatchSeq := Some 1 \<rparr>) = ((), h \<lparr> hb_dispatchSeq := Some 1,
      hb_slots := bench_slots (bench_session False), hb_rng := 3, hb_app := 8 # hb_app h \<rparr>)"
    using assms p by (subst bench_hello_run) simp_all
  then show ?thesis
    using p assms(1) unfolding bench_hello_frame_def
    by (subst bench_receive)
      (simp_all add: run_bind_now lazily [OF noteReceived_def] lazily [OF ifOccupied_def] lazily [OF reviveIfStale_def] run_primitives
        session_of_def lazily [OF dispatchFrame_def] lazily [OF dispatchType_def] Let_def bench_slots_def del: run_state_bind)
qed

lemma quiet_broadcast:
  assumes "\<And>i. i < kSlotCapacity \<Longrightarrow> hs_subs (session_of i h) = []"
  shows "run_state (broadcastSafetyNow E now) h = ((), h)"
proof -
  have "run_state (for_each is (\<lambda>i. do {
      s \<leftarrow> gets (session_of i);
      t \<leftarrow> transport_of i;
      if \<not> occupied s \<or> t = None \<or> \<not> hs_ready s then skip
      else case st_find ch_safety (hs_subs s) of None \<Rightarrow> skip | Some k \<Rightarrow> f i k })) h = ((), h)" if "set is \<subseteq> {..<kSlotCapacity}" for "is" f
    using that
  proof (induction "is")
    case (Cons i "is")
    then show ?case using assms [of i] by (simp add: transport_of_def st_find_def)
  qed simp
  note quiet = this [of "[0..<kSlotCapacity]", simplified]
  show ?thesis by (simp add: broadcastSafetyNow_def split_beta quiet atLeast0LessThan split: option.split)
qed

lemma bench_allowed: "fst (rl_allow 1 (IngressRateLimiter_new intent_ingress_default_per_s 0 0))"
  by code_simp

lemma bench_echo: "encodeEcho \<lparr> ec_intent_id = 77, ec_cfg_gen = 1, ec_applied = [u64_field 1 1] \<rparr> 256 \<noteq> []"
  "encodeEcho \<lparr> ec_intent_id = 77, ec_cfg_gen = 1, ec_applied = [] \<rparr> 32 \<noteq> []"
  by code_simp+

definition bench_limited :: HubSession where
  "bench_limited = (bench_session True) \<lparr> hs_intentLimiter := snd (rl_allow 1 (IngressRateLimiter_new intent_ingress_default_per_s 0 0)) \<rparr>"

lemma bench_limited_simps [simp]:
  "hs_state bench_limited = S_LIVE" "hs_session_id bench_limited = 8" "hs_ready bench_limited = True"
  "hs_role bench_limited = control" "hs_subs bench_limited = []" "hs_lastRxMs bench_limited = 1"
  "hs_deadmanMs bench_limited = 600" "hs_events bench_limited = EventQueue_new kEventDepth kEventSlotBytes"
  "hs_intentRing bench_limited = IntentRing_new kIntentDepth kIntentSlotBytes" "occupied bench_limited"
  by (simp_all add: bench_limited_def occupied_def state_occupied_def)

lemma bench_fresh_id: "ir_lookup n (IntentRing_new kIntentDepth kIntentSlotBytes) = None"
  by (simp add: ir_lookup_def IntentRing_new_def)

lemma bench_access: "requiredAccessFor bench_catalog (bench_entry i CC_INTENT) m = watch"
proof -
  have "schemaFields bench_catalog (bench_entry i CC_INTENT) = []"
    by (simp add: schemaFields_def bench_entry_def bench_catalog_def BasicCatalog_new_def ce_form_def)
  moreover have "foldl (\<lambda>need f. need) a xs = a" for a :: AccessLevel and xs :: "IntentValueField list"
    by (induction xs) simp_all
  ultimately show ?thesis by (simp add: requiredAccessFor_def fieldAccess_def bench_entry_def)
qed

lemma bench_entry_intent: "ce_cls (bench_entry i cls) = cls"
  by (simp add: bench_entry_def)

lemma bench_op_simps [simp]:
  "im_channel_id (bench_op ch) = ch" "im_intent_id (bench_op ch) = 77" "im_value (bench_op ch) = [u64_field 1 1]"
  "im_precondition (bench_op ch) = None" "im_takeover (bench_op ch) = None"
  "safetyOpOf (bench_op ch) = (if ch = ch_safety_intents then Some op_estop_clear else None)"
  by (simp_all add: bench_op_def safetyOpOf_def u64_field_def)

lemma bench_admit_run:
  assumes "hb_slots h = bench_slots (bench_session True)" and "ch = ch_safety_intents \<or> ch = ch_move"
  shows "run_state (admitIntent bench_env 0 (bench_op ch) 1) h = (True, h \<lparr> hb_slots := bench_slots bench_limited \<rparr>)"
proof -
  have "cat_find ch bench_catalog = Some (bench_entry ch CC_INTENT)" using assms(2) by auto
  with assms(1) show ?thesis
    by (simp add: run_primitives run_bind_now lazily [OF admitIntent_def] bench_slots_def session_of_def bench_allowed bench_fresh_id
        bench_access bench_limited_def [symmetric] HubSlot_new_slots Let_def bench_entry_intent del: run_state_bind bench_find)
qed

lemma bench_acquire_run:
  assumes "hb_slots h = bench_slots bench_limited" and "hb_ownership h = SourceOwnershipTable_new"
  shows "run_state (acquireFor bench_env 0 2 False) h = (Acquired,
    h \<lparr> hb_ownership := snd (acquire 2 8 control False SourceOwnershipTable_new), hb_app := 8 # hb_app h \<rparr>)"
proof -
  have "fst (acquire 2 8 control False SourceOwnershipTable_new) = Acquired" by code_simp
  with assms show ?thesis
    by (simp add: run_primitives run_bind_now lazily [OF acquireFor_def] lazily [OF publishControlOwnerStateIfPresent_def] bench_slots_def
        session_of_def split_beta Let_def del: run_state_bind)
qed

definition bench_echoed :: "bytes \<Rightarrow> HubSession" where
  "bench_echoed echo = bench_limited \<lparr> hs_intentRing :=
     snd (ir_store kIntentDepth kIntentSlotBytes 77 echo (IntentRing_new kIntentDepth kIntentSlotBytes)) \<rparr>"

lemma bench_echoed_simps [simp]:
  "hs_state (bench_echoed e) = S_LIVE" "hs_session_id (bench_echoed e) = 8" "hs_ready (bench_echoed e) = True"
  "hs_subs (bench_echoed e) = []" "hs_lastRxMs (bench_echoed e) = 1" "hs_deadmanMs (bench_echoed e) = 600"
  "hs_events (bench_echoed e) = EventQueue_new kEventDepth kEventSlotBytes" "occupied (bench_echoed e)"
  by (simp_all add: bench_echoed_def occupied_def state_occupied_def)

lemma bench_echo_run:
  assumes "hb_slots h = bench_slots bench_limited" and "hb_cfgGen h = 1"
    and "encodeEcho \<lparr> ec_intent_id = 77, ec_cfg_gen = 1, ec_applied = vs \<rparr> cap \<noteq> []"
  shows "run_state (echoIntent bench_env 0 (bench_op ch) vs cap 1) h =
    ((), h \<lparr> hb_slots := bench_slots (bench_echoed (encodeEcho \<lparr> ec_intent_id = 77, ec_cfg_gen = 1, ec_applied = vs \<rparr> cap)) \<rparr>)"
  using assms
  by (simp add: run_primitives run_bind_now lazily [OF echoIntent_def] lazily [OF storeEcho_def] lazily [OF sendFrameToTracked_def]
      lazily [OF trackCriticalSend_def] lazily [OF transport_of_def] slot_of_def bench_slots_def session_of_def
      bench_echoed_def [symmetric] HubSlot_new_slots Let_def del: run_state_bind)

lemma bench_apply_run:
  assumes "hb_slots h = bench_slots bench_limited" and "hb_cfgGen h = 1" and "hb_safetyWord h = 0"
  shows "run_state (applyAndEcho bench_env 0 (bench_op ch_move) True 1) h =
    ((), h \<lparr> hb_slots := bench_slots (bench_echoed (encodeEcho \<lparr> ec_intent_id = 77, ec_cfg_gen = 1, ec_applied = [u64_field 1 1] \<rparr> 256)) \<rparr>)"
  using assms bench_echo
  by (simp add: run_primitives run_bind_now lazily [OF applyAndEcho_def] lazily [OF clearStopLatch_def] bench_echo_run
        session_of_def split_beta Let_def del: run_state_bind)

abbreviation "bench_moved \<equiv> bench_echoed (encodeEcho \<lparr> ec_intent_id = 77, ec_cfg_gen = 1, ec_applied = [u64_field 1 1] \<rparr> 256)"

lemma bench_move_run:
  assumes "hb_slots h = bench_slots (bench_session True)" and "hb_cfgGen h = 1" and "hb_safetyWord h = 0"
    and "hb_ownership h = SourceOwnershipTable_new" and "decodeIntent payload = Inr (bench_op ch_move)"
  shows "run_state (handleIntent bench_env 0 payload 1) h = ((), h \<lparr> hb_slots := bench_slots bench_moved,
    hb_ownership := snd (acquire 2 8 control False SourceOwnershipTable_new), hb_app := 8 # hb_app h \<rparr>)"
  using assms
  by (simp add: run_primitives run_bind_now lazily [OF handleIntent_def] bench_admit_run bench_acquire_run bench_apply_run Let_def
      del: run_state_bind)

lemma bench_unsubscribed: "hs_subs s = [] \<Longrightarrow> i < kSlotCapacity \<Longrightarrow> hs_subs (sl_session (bench_slots s ! i)) = []"
  by (auto simp: bench_slots_def HubSession_new_def less_Suc_eq numeral_eq_Suc)

lemma bench_clear_run:
  assumes "hb_slots h = bench_slots (bench_session True)" and "hb_cfgGen h = 1" and "hb_safetyWord h = 1"
    and "decodeIntent payload = Inr (bench_op ch_safety_intents)"
  shows "\<not> estopLatched (snd (run_state (handleIntent bench_env 0 payload 1) h))"
  using assms bench_echo
  by (simp add: run_primitives run_bind_now lazily [OF handleIntent_def] bench_admit_run lazily [OF clearEstop_def]
      lazily [OF publishSafetySnapshot_def] lazily [OF hub_retain_def] quiet_broadcast bench_unsubscribed
      lazily [OF emitSafetyEdgeEvents_def] lazily [OF clockNowMs_def] bench_echo_run estopLatched_def session_of_def Let_def split_beta
      del: run_state_bind)

lemma bench_timers: "\<not> timeReached 1 601" "\<not> timeReached 1 3001"
  by code_simp+

lemma bench_service_run:
  assumes "hb_slots h = bench_slots s" and "s = bench_session True \<or> s = bench_moved"
  shows "run_state (serviceSlot bench_env 0 1) h = ((), h)"
proof -
  have s: "occupied s" "hs_state s = S_LIVE" "hs_ready s" "hs_lastRxMs s = 1" "hs_deadmanMs s = 600" "hs_subs s = []"
    "fst (eq_pop kEventDepth (hs_events s)) = None"
    using assms(2) by (auto simp: eq_pop_def EventQueue_new_def)
  have blob: "pb_active (sl_blob (bench_slots s ! 0)) = False" by (simp add: bench_slots_def HubSlot_new_slots PendingBlob_new_def)
  have "run_state (pumpDeadman bench_env 0 1) h = ((), h)" "run_state (pumpIdleReap bench_env 0 1) h = ((), h)"
    using s assms(1) bench_timers
    by (cases "ownsAny (hs_session_id s) (hb_ownership h)"; simp add: pumpDeadman_def pumpIdleReap_def session_of_def)+
  with assms(1) s blob show ?thesis
    by (simp add: run_primitives run_bind_now lazily [OF serviceSlot_def] lazily [OF pumpReadyTimeout_def] lazily [OF ifOccupied_def]
        lazily [OF pumpStatePacing_def] lazily [OF pumpEventDrain_def] lazily [OF pumpBlobTransfer_def] lazily [OF transport_of_def]
        session_of_def slot_of_def Let_def del: run_state_bind)
qed

lemma bench_start: "bench_start = (Hub_blank (\<lambda>_. []) [] 0 0) \<lparr> hb_etag := take 8 (sha_hash []), hb_bootId := 7, hb_rng := 1,
    hb_retained := hb_retained bench_start \<rparr>"
  by (simp add: bench_start_def Hub_new_def hub_construct_def Let_def drawNonZero_def draw_nonzero_hit whenever_def Hub_blank_def
      publishSafetySnapshot_def hub_retain_def split_beta publishPendingPairingState_def publishPairedRosterState_def)

lemma bench_start_simps:
  "hb_slots bench_start = [HubSlot_new, HubSlot_new, HubSlot_new, HubSlot_new, HubSlot_new]" "hb_rng bench_start = 1"
  "hb_pairing bench_start = PairingManager_new" "hb_cfgGen bench_start = 1" "hb_etag bench_start = take 8 (sha_hash [])"
  "hubIdentity bench_start = None" "hb_wsPort bench_start = 0" "hb_ipv4 bench_start = 0" "hb_app bench_start = []"
  "hb_monoMs bench_start = MonotonicMs_new" "hb_presenceWasOpen bench_start = False" "hb_safetyWord bench_start = 0"
  "hb_ownership bench_start = SourceOwnershipTable_new" "hb_fault bench_start = None"
proof -
  have "replicate kSlotCapacity HubSlot_new = [HubSlot_new, HubSlot_new, HubSlot_new, HubSlot_new, HubSlot_new]"
    by (simp add: numeral_eq_Suc)
  then show "hb_slots bench_start = [HubSlot_new, HubSlot_new, HubSlot_new, HubSlot_new, HubSlot_new]" "hb_rng bench_start = 1"
    "hb_pairing bench_start = PairingManager_new" "hb_cfgGen bench_start = 1" "hb_etag bench_start = take 8 (sha_hash [])"
    "hubIdentity bench_start = None" "hb_wsPort bench_start = 0" "hb_ipv4 bench_start = 0" "hb_app bench_start = []"
    "hb_monoMs bench_start = MonotonicMs_new" "hb_presenceWasOpen bench_start = False" "hb_safetyWord bench_start = 0"
    "hb_ownership bench_start = SourceOwnershipTable_new" "hb_fault bench_start = None"
    by (subst bench_start, simp add: Hub_blank_def hubIdentity_def)+
qed

lemma bench_attach: "bench_attached = bench_start \<lparr> hb_slots := bench_slots HubSession_new \<rparr>"
proof -
  have "HubSlot_new \<lparr> sl_transport := Some 0 \<rparr> = HubSlot_new \<lparr> sl_transport := Some 0, sl_session := HubSession_new, sl_nonce := replicate 8 0 \<rparr>"
    by (simp add: HubSlot_new_def)
  then show ?thesis
    by (simp add: attachTransport_def bench_attached_def bench_slots_def bench_start_simps openInto_def upd_slot_def whenever_def)
qed

lemma bench_pairing_run:
  "hb_pairing h = PairingManager_new \<Longrightarrow> \<not> hb_presenceWasOpen h \<Longrightarrow> run_state (pumpPairing bench_env 1) h = ((), h)"
proof -
  have e: "pp_expire 1 (pm_pending PairingManager_new) = ([], pm_pending PairingManager_new)" by code_simp
  have p: "presenceWindowOpen 1 PairingManager_new = False" by code_simp
  assume "hb_pairing h = PairingManager_new" "\<not> hb_presenceWasOpen h"
  moreover from this have "h \<lparr> hb_pairing := PairingManager_new \<rparr> = h" by simp
  ultimately show ?thesis by (simp add: pumpPairing_def pairing_do_def e p whenever_def)
qed

lemma bench_pump:
  assumes "hb_slots h = bench_slots s"
  shows "hb_wire h 0 = [] \<Longrightarrow> pumpSlot bench_env 0 now h = Some h"
    and "hb_wire h 0 = fb # w \<Longrightarrow> pumpSlot bench_env 0 now h =
      pumpSlot bench_env 0 now (snd (run_state (receiveFrame bench_env 0 fb now) (h \<lparr> hb_wire := (hb_wire h)(0 := w) \<rparr>)))"
proof -
  have t: "sl_transport (slot_of 0 h) = Some 0" using assms by (simp add: slot_of_def)
  have w: "hb_wire h 0 = [] \<Longrightarrow> h \<lparr> hb_wire := (hb_wire h)(0 := []) \<rparr> = h" by (simp add: fun_upd_idem)
  show "hb_wire h 0 = [] \<Longrightarrow> pumpSlot bench_env 0 now h = Some h"
    by (subst pumpSlot.simps) (simp add: t w)
  show "hb_wire h 0 = fb # w \<Longrightarrow> pumpSlot bench_env 0 now h =
      pumpSlot bench_env 0 now (snd (run_state (receiveFrame bench_env 0 fb now) (h \<lparr> hb_wire := (hb_wire h)(0 := w) \<rparr>)))"
    by (subst pumpSlot.simps) (simp add: t)
qed

lemma update_detached: "(\<And>i. i \<in> set is \<Longrightarrow> sl_transport (slot_of i h) = None) \<Longrightarrow> update_slots E now is h = Some h"
  by (induction "is") simp_all

lemma bench_update:
  assumes "hb_slots h = bench_slots s0" and "hb_pairing h = PairingManager_new" and "\<not> hb_presenceWasOpen h"
    and "advance 1000 (hb_monoMs h) = (1, mm)" and "pumpSlot bench_env 0 1 (h \<lparr> hb_monoMs := mm \<rparr>) = Some h'"
    and "hb_slots h' = bench_slots s" and "s = bench_session True \<or> s = bench_moved" and "hb_fault h' = None"
  shows "hub_update bench_env 1000 h = Some h'"
proof -
  have "sl_transport (bench_slots s ! i) = None" if "0 < i" "i < 5" for i
    using that by (auto simp: bench_slots_def less_Suc_eq numeral_eq_Suc)
  then have "update_slots bench_env 1 [1..<kSlotCapacity] h' = Some h'"
    using assms(6) by (intro update_detached) (simp add: slot_of_def)
  then have "update_slots bench_env 1 [0..<kSlotCapacity] (h \<lparr> hb_monoMs := mm \<rparr>) = Some h'"
    using assms(1,5-7) bench_service_run [of h' s] by (simp add: upt_conv_Cons slot_of_def)
  then show ?thesis using assms(2-4,8) by (simp add: hub_update_def returned_def bench_pairing_run)
qed

definition bench_joined :: bench_hub where
  "bench_joined = bench_start \<lparr> hb_wire := (\<lambda>_. [bench_hello_frame, bench_ready_frame])(0 := []), hb_monoMs := snd (advance 1000 MonotonicMs_new),
     hb_slots := bench_slots (bench_session True), hb_rng := 3, hb_app := [8], hb_dispatchSeq := None \<rparr>"

lemma bench_join:
  "hub_update bench_env 1000 (bench_attached \<lparr> hb_wire := \<lambda>_. [bench_hello_frame, bench_ready_frame] \<rparr>) = Some bench_joined"
proof -
  have clock: "fst (advance 1000 MonotonicMs_new) = 1" by code_simp
  show ?thesis
    by (rule bench_update [where s = "bench_session True" and mm = "snd (advance 1000 MonotonicMs_new)"])
      (simp_all add: bench_attach bench_start_simps prod_eq_iff clock bench_pump bench_hello_received bench_ready_run length_sha_hash bench_joined_def)
qed

lemma bench_joined_simps:
  "hb_slots bench_joined = bench_slots (bench_session True)" "hb_pairing bench_joined = PairingManager_new"
  "hb_cfgGen bench_joined = 1" "hb_safetyWord bench_joined = 0" "hb_ownership bench_joined = SourceOwnershipTable_new"
  "\<not> hb_presenceWasOpen bench_joined" "hb_monoMs bench_joined = snd (advance 1000 MonotonicMs_new)"
  "hb_fault bench_joined = None"
  by (simp_all add: bench_joined_def bench_start_simps)

lemma bench_op_received:
  assumes "hb_slots h = bench_slots (bench_session True)" and "ch = ch_safety_intents \<or> ch = ch_move"
  shows "run_state (receiveFrame bench_env 0 (bench_op_frame ch) 1) h =
    ((), (snd (run_state (handleIntent bench_env 0 (encodeIntent (bench_op ch) 100) 1) (h \<lparr> hb_dispatchSeq := Some 1 \<rparr>)))
      \<lparr> hb_dispatchSeq := None \<rparr>)"
proof -
  have "run_state (noteReceived bench_env 0 1) h = ((), h \<lparr> hb_slots := bench_slots (bench_session True) \<rparr>)"
    using assms(1)
    by (simp add: run_bind_now lazily [OF noteReceived_def] lazily [OF ifOccupied_def] lazily [OF reviveIfStale_def] run_primitives
        session_of_def bench_slots_def HubSlot_new_slots del: run_state_bind)
  moreover have "h \<lparr> hb_slots := bench_slots (bench_session True) \<rparr> = h" using assms(1) [symmetric] by simp
  ultimately show ?thesis
    using bench_op_payload [OF assms(2)] assms(1) unfolding bench_op_frame_def
    by (subst bench_receive)
      (simp_all add: lazily [OF dispatchFrame_def] lazily [OF dispatchType_def] lazily [OF ifOccupied_def] run_primitives
        session_of_def Let_def split_beta)
qed

definition bench_driving :: bench_hub where
  "bench_driving = the (hub_update bench_env 1000 (bench_joined \<lparr> hb_wire := \<lambda>_. [bench_op_frame ch_move] \<rparr>))"

lemma bench_drive:
  "hub_update bench_env 1000 (bench_joined \<lparr> hb_wire := \<lambda>_. [bench_op_frame ch_move] \<rparr>) = Some bench_driving"
  "ownerOf 2 (hb_ownership bench_driving) = 8" "hb_slots bench_driving = bench_slots bench_moved"
proof -
  let ?own = "snd (acquire 2 8 control False SourceOwnershipTable_new)"
  let ?h = "bench_joined \<lparr> hb_wire := (\<lambda>_. [bench_op_frame ch_move])(0 := []), hb_dispatchSeq := None, hb_slots := bench_slots bench_moved,
    hb_ownership := ?own, hb_app := 8 # hb_app bench_joined, hb_monoMs := snd (advance 1000 (hb_monoMs bench_joined)) \<rparr>"
  have clock: "fst (advance 1000 (snd (advance 1000 MonotonicMs_new))) = 1" by code_simp
  have owner: "ownerOf 2 ?own = 8" by code_simp
  have "hub_update bench_env 1000 (bench_joined \<lparr> hb_wire := \<lambda>_. [bench_op_frame ch_move] \<rparr>) = Some ?h"
    by (rule bench_update [where s = bench_moved and mm = "snd (advance 1000 (hb_monoMs bench_joined))"])
      (simp_all add: bench_joined_simps prod_eq_iff clock bench_pump bench_op_received bench_move_run bench_op_payload)
  with owner show "hub_update bench_env 1000 (bench_joined \<lparr> hb_wire := \<lambda>_. [bench_op_frame ch_move] \<rparr>) = Some bench_driving"
    "ownerOf 2 (hb_ownership bench_driving) = 8" "hb_slots bench_driving = bench_slots bench_moved" by (simp_all add: bench_driving_def)
qed

definition bench_estopped :: bench_hub where
  "bench_estopped = snd (run_state (latchEstop bench_env 0 0 1) bench_joined)"

lemma bench_estop:
  "hb_slots bench_estopped = bench_slots (bench_session True)" "hb_cfgGen bench_estopped = 1" "hb_safetyWord bench_estopped = 1"
  by (simp_all add: bench_estopped_def bench_joined_simps run_primitives run_bind_now lazily [OF latchEstop_def] lazily [OF clockNowMs_def]
      lazily [OF handleEstopFrame_def] lazily [OF publishSafetySnapshot_def] lazily [OF hub_retain_def] quiet_broadcast
      bench_unsubscribed session_of_def lazily [OF emitSafetyEdgeEvents_def] Let_def split_beta del: run_state_bind)

lemma bench_release: "\<not> estopLatched (snd (run_state (receiveFrame bench_env 0 (bench_op_frame ch_safety_intents) 1) bench_estopped))"
proof -
  have "\<not> estopLatched (snd (run_state (handleIntent bench_env 0 (encodeIntent (bench_op ch_safety_intents) 100) 1)
      (bench_estopped \<lparr> hb_dispatchSeq := Some 1 \<rparr>)))"
    using bench_op_payload [of ch_safety_intents] by (intro bench_clear_run) (simp_all add: bench_estop)
  then show ?thesis by (simp add: bench_op_received bench_estop estopLatched_def)
qed

end
