(* ===== verification/Hub_Properties.thy ===== *)
theory Hub_Properties
  imports Hub_Bench
begin

text \<open>
  The properties of the hub as a whole: what holds of every hub the application can reach, when \<^verbatim>\<open>update\<close> returns, what
  the deadman does, and who can set and release the ESTOP latch.
\<close>

section \<open>Reachable hubs\<close>

lemma calls_ok: "hub_calls E may (Hub_new E wire app rng clock) h \<Longrightarrow> hub_ok h"
  by (induction rule: rtranclp_induct) (auto intro: Hub_new_start(1) hub_call_ok(1))

lemmas reach_ok = calls_ok [where may = "\<lambda>_. True"]

text \<open>What an application that keeps off the safety channel, restores only ledgers without duplicates, or draws from a lively random
  source gets.\<close>

lemma calls_truthful:
  assumes "hub_calls E may (Hub_new E wire app rng clock) h" and "\<not> may (Shows ch_safety)"
  shows "truthful (Hub_new E wire app rng clock) h"
  using assms(1)
proof (induction rule: rtranclp_induct)
  case (step h1 h2)
  then show ?case using hub_call_ok(2) [OF step(2) calls_ok [OF step(1)] assms(2)] by (auto simp: truthful_def)
qed (simp add: truthful_def)


lemma reach_draws:
  assumes "hub_reach E (Hub_new E wire app rng clock) h" and "lively (env_nextU32 E)"
  shows "\<not> hangs h"
  using assms(1)
proof (induction rule: rtranclp_induct)
  case (step h1 h2)
  then show ?case using hub_call_ok(4) [OF step(2) reach_ok [OF step(1)] assms(2)] by blast
qed (rule Hub_new_start(4) [OF assms(2)])

text \<open>The states of the bench are reachable.\<close>

lemma bench_calls:
  "hub_calls bench_env may (Hub_new bench_env (\<lambda>_. []) [] 0 0) bench_joined"
  "hub_calls bench_env may (Hub_new bench_env (\<lambda>_. []) [] 0 0) bench_driving"
  "hub_calls bench_env may (Hub_new bench_env (\<lambda>_. []) [] 0 0) bench_estopped"
proof -
  let ?start = "Hub_new bench_env (\<lambda>_. []) [] 0 0"
  let ?fed = "bench_attached \<lparr> hb_wire := \<lambda>_. [bench_hello_frame, bench_ready_frame] \<rparr>"
  have "hub_call bench_env may ?start bench_attached"
    using hub_call.Attach [of bench_env may ?start 0] by (simp add: bench_attached_def bench_start_def)
  moreover have "hub_call bench_env may bench_attached ?fed" by (rule hub_call.Arrive)
  moreover have "hub_call bench_env may ?fed bench_joined" by (rule hub_call.Update [OF bench_join])
  ultimately show joined: "hub_calls bench_env may ?start bench_joined" by (meson rtranclp.intros)
  have "hub_call bench_env may bench_joined (bench_joined \<lparr> hb_wire := \<lambda>_. [bench_op_frame ch_move] \<rparr>)" by (rule hub_call.Arrive)
  with joined show "hub_calls bench_env may ?start bench_driving"
    using hub_call.Update [OF bench_drive(1)] by (meson rtranclp.intros(2))
  from joined show "hub_calls bench_env may ?start bench_estopped"
    unfolding bench_estopped_def by (rule rtranclp.intros(2)) (rule hub_call.LatchEstop)
qed

lemmas bench_reach = bench_calls [where may = "\<lambda>_. True"]

lemma ownerOf_owners: "ownerOf source t \<noteq> 0 \<Longrightarrow> ownerOf source t \<in> owners t"
  by (auto simp: ownerOf_def so_find_def owners_def split: option.splits dest!: find_index_Some)

lemma sessionCount_occupants:
  assumes "length (hb_slots h) = kSlotCapacity"
  shows "sessionCount h = card (occupants (sp_slots (spine h)))"
proof -
  have "sessionCount h = card (set (filter (\<lambda>j. occupied (session_of j h)) [0..<kSlotCapacity]))"
    unfolding sessionCount_def occupiedCount_def using assms by (subst distinct_card) simp_all
  also have "set (filter (\<lambda>j. occupied (session_of j h)) [0..<kSlotCapacity]) = occupants (sp_slots (spine h))"
    by (auto simp: occupants_def spine_occupied)
  finally show ?thesis .
qed

text \<open>
  (C1) Control is never held by the dead: in every state the application can bring the hub to, whoever owns a control
  source is the session of some slot that is occupied, not stale, and has a transport. So marking a session stale, evicting it, replacing
  it, tearing it down or closing its transport never leaves an owner behind.
\<close>

theorem hub_owner_is_live:
  assumes "hub_reach E (Hub_new E wire app rng clock) h" and "ownerOf source (hb_ownership h) \<noteq> 0"
  shows "\<exists>i < kSlotCapacity. hs_session_id (session_of i h) = ownerOf source (hb_ownership h) \<and> occupied (session_of i h) \<and>
    hs_state (session_of i h) \<noteq> S_STALE \<and> sl_transport (slot_of i h) \<noteq> None"
proof -
  have inv: "spine_inv (spine h)" using reach_ok [OF assms(1)] by (simp add: hub_ok_def)
  have "ownerOf source (hb_ownership h) \<in> owners (sp_own (spine h))" using ownerOf_owners [OF assms(2)] by (simp add: spine_def)
  then obtain i where i: "i < kSlotCapacity" "active i (spine h)" "ss_id (sp_slots (spine h) ! i) = ownerOf source (hb_ownership h)"
    using spine_invD(2) [OF inv] by blast
  with seen_spine [OF i(1), of h] spine_occupied [OF i(1), of h] spine_invD(3) [OF inv i(1,2)] linked_spine [of i h]
  show ?thesis by (intro exI [of _ i]) (simp add: seen_def active_def linked_def)
qed

theorem hub_owner_is_live_witness:
  "\<exists>i < kSlotCapacity. hs_session_id (session_of i bench_driving) = 8 \<and> occupied (session_of i bench_driving) \<and>
    hs_state (session_of i bench_driving) \<noteq> S_STALE \<and> sl_transport (slot_of i bench_driving) \<noteq> None"
  using hub_owner_is_live [OF bench_reach(2), of 2] by (simp add: bench_drive(2))

text \<open>
  (C4) Admission: a reachable hub serves at most four sessions at a time, and never two of the same instance, although it has five slots
  and a client may say HELLO on any link at any time.
\<close>

theorem hub_sessions_bounded:
  assumes "hub_reach E (Hub_new E wire app rng clock) h"
  shows "sessionCount h \<le> kHubMaxSessions \<and>
    (\<forall>i < kSlotCapacity. \<forall>j < kSlotCapacity. occupied (session_of i h) \<longrightarrow> occupied (session_of j h) \<longrightarrow>
       hs_instance_id (session_of i h) = hs_instance_id (session_of j h) \<longrightarrow> i = j)"
proof -
  have ok: "hub_wf h" "spine_inv (spine h)" using reach_ok [OF assms] by (simp_all add: hub_ok_def)
  have "i = j" if "i < kSlotCapacity" "j < kSlotCapacity" "occupied (session_of i h)" "occupied (session_of j h)"
    "hs_instance_id (session_of i h) = hs_instance_id (session_of j h)" for i j
    using that inj_onD [OF spine_invD(5) [OF ok(2)], of i j] seen_spine [of i h] seen_spine [of j h]
    by (simp add: occupants_def spine_occupied seen_def)
  then show ?thesis using ok sessionCount_occupants [of h] spine_invD(4) [OF ok(2)] by (simp add: hub_wf_def)
qed

theorem hub_sessions_bounded_witness: "sessionCount bench_joined \<le> kHubMaxSessions"
  using hub_sessions_bounded [OF bench_reach(1)] by simp

lemma Hub_new_shown:
  assumes "cat_find ch_safety (env_catalog E) \<noteq> None"
  shows "sp_shown (spine (Hub_new E wire app rng clock)) \<noteq> None"
proof -
  let ?h = "(Hub_blank wire app rng clock) \<lparr> hb_catalogEncoded := env_encodeCatalog E (env_catalog E),
    hb_etag := take 8 (sha_hash (env_encodeCatalog E (env_catalog E))) \<rparr>"
  let ?h1 = "(snd (run_state (drawNonZero E) ?h)) \<lparr> hb_bootId := fst (run_state (drawNonZero E) ?h) \<rparr>"
  let ?h2 = "snd (run_state publishSafetySnapshot ?h1)"
  have "hb_retained ?h1 = []" by (simp add: drawNonZero_def Hub_blank_def split: option.split prod.split)
  then have shown: "sp_shown (spine ?h2) \<noteq> None"
    by (simp add: publishSafetySnapshot_def hub_retain_def spine_def rs_publish_def rs_find_def rs_write_def rs_get_def
        Let_def buildSafetyPayload_bytes safety_bytes_def u32_bytes_def u16_bytes_def)
  let ?rest = "do { modify (\<lambda>h. h \<lparr> hb_pairedStoreId :=
      (case cat_find ch_paired_devices (env_catalog E) of
         None \<Rightarrow> None
       | Some e \<Rightarrow> map_option sd_storeId (storeDescriptor (env_catalog E) e)) \<rparr>);
    publishPendingPairingState E 0;
    publishPairedRosterState E }"
  have "Hub_new E wire app rng clock = snd (run_state ?rest ?h2)"
    unfolding Hub_new_def hub_construct_def Let_def whenever_def using assms
    by (simp add: split_beta)
  moreover have "spine (h \<lparr> hb_pairedStoreId := x \<rparr>) = spine h" for h :: "('a, 'b, 'c) Hub" and x
    by (simp add: spine_def safety_of_def)
  ultimately show ?thesis
    using shown calmD(1) [OF calm_publishPendingPairingState [of E Plain "\<lambda>_. True"]]
      calmD(1) [OF calm_publishPairedRosterState [of E Plain "\<lambda>_. True"]] by (simp add: split_beta)
qed

text \<open>
  (C3) The retained safety snapshot tells the truth: once a hub whose catalog declares the safety channel is constructed, the
  snapshot that subscribers get is at all times the encoding of the current latches, their cause, the session that set them, the ESTOP
  sequence number and the modes, whatever frames arrive and whatever the application calls, as long as the application does not itself call
  \<^verbatim>\<open>publishState\<close> with the safety channel: that call is not guarded and would overwrite the snapshot.
\<close>

theorem hub_snapshot_current:
  assumes "hub_calls E may (Hub_new E wire app rng clock) h" and "\<not> may (Shows ch_safety)" and "cat_find ch_safety (env_catalog E) \<noteq> None"
  shows "\<exists>seq. rs_get ch_safety (hb_retained h) = Some (seq, buildSafetyPayload h)"
proof -
  have "shows_truth (spine h)" "sp_shown (spine h) \<noteq> None"
    using calls_truthful [OF assms(1,2)] Hub_new_start(2) [of E wire app rng clock] Hub_new_shown [OF assms(3), of wire app rng clock]
    by (simp_all add: truthful_def)
  then show ?thesis by (auto simp: shows_truth_def spine_def buildSafetyPayload_bytes)
qed

theorem hub_snapshot_current_witness:
  "\<exists>seq. rs_get ch_safety (hb_retained bench_estopped) = Some (seq, buildSafetyPayload bench_estopped)"
  by (rule hub_snapshot_current [OF bench_calls(3) [where may = "\<lambda>_. False"]]) simp_all

text \<open>
  (C18) The hub never follows a null transport: whatever the links, the clients and the application do, no handler answers on a slot
  whose transport is gone, although a tracked send may close that transport in the middle of a handler.
\<close>

theorem hub_no_null_transport:
  assumes "hub_reach E (Hub_new E wire app rng clock) h"
  shows "hb_fault h \<noteq> Some NullTransport"
  using reach_ok [OF assms] spine_invD(6) [of "spine h"] by (simp add: hub_ok_def spine_def)

theorem hub_no_null_transport_witness: "hb_fault bench_driving \<noteq> Some NullTransport"
  by (rule hub_no_null_transport [OF bench_reach(2)])



section \<open>When update returns\<close>

lemma step_keeps_link:
  "hub_step p c c' \<Longrightarrow> p \<noteq> Attaches \<Longrightarrow> ss_link (sp_slots c' ! i) = Some t \<Longrightarrow> ss_link (sp_slots c ! i) = Some t"
  by (induction rule: hub_step.induct) (auto simp: nth_list_update free_spine_def split: if_splits)

lemma steps_keep_link:
  "hub_steps p c c' \<Longrightarrow> p \<noteq> Attaches \<Longrightarrow> ss_link (sp_slots c' ! i) = Some t \<Longrightarrow> ss_link (sp_slots c ! i) = Some t"
  by (induction arbitrary: t rule: rtranclp_induct) (auto dest: step_keeps_link)

lemma spine_link: "i < kSlotCapacity \<Longrightarrow> ss_link (sp_slots (spine h) ! i) = sl_transport (slot_of i h)"
  by (simp add: spine_def slot_spine_def slot_of_def)

text \<open>The rank of a transport is how many frames it can still deliver; only reading changes it, and reading a frame lowers it.\<close>

definition drains :: "('t, 'd, 'r) HubEnv \<Rightarrow> ('t \<Rightarrow> nat) \<Rightarrow> bool" where
  "drains E rank \<longleftrightarrow> (\<forall>w fb w'. env_read E w = (Some fb, w') \<longrightarrow> rank w' < rank w) \<and>
     (\<forall>w bs. rank (snd (env_write E bs w)) \<le> rank w) \<and> (\<forall>w. rank (env_close E w) \<le> rank w) \<and>
     (\<forall>w. rank (snd (env_open E w)) \<le> rank w)"

lemma drains_steps:
  assumes "wire_steps E w w'" and "drains E rank"
  shows "rank w' \<le> rank w"
  using assms(1)
proof (induction rule: rtranclp_induct)
  case (step x y)
  from step(2) assms(2) have "rank y \<le> rank x" by (cases rule: wire_step.cases) (auto simp: drains_def)
  with step(3) show ?case by simp
qed simp

lemma pumpSlot_returns:
  assumes "drains E rank" and "hub_ok h" and "i < kSlotCapacity"
  shows "\<exists>h'. pumpSlot E i now h = Some h'"
  using assms(2)
proof (induction "case sl_transport (slot_of i h) of None \<Rightarrow> 0 | Some t \<Rightarrow> Suc (rank (hb_wire h t))" arbitrary: h rule: less_induct)
  case less
  show ?case
  proof (cases "sl_transport (slot_of i h)")
    case None
    then show ?thesis by (subst pumpSlot.simps) simp
  next
    case (Some t)
    obtain f w where rd: "env_read E (hb_wire h t) = (f, w)" by fastforce
    let ?h = "h \<lparr> hb_wire := (hb_wire h)(t := w) \<rparr>"
    show ?thesis
    proof (cases f)
      case None
      then show ?thesis using Some rd by (subst pumpSlot.simps) simp
    next
      case (Some fb)
      let ?h1 = "snd (run_state (receiveFrame E i fb now) ?h)"
      note t = \<open>sl_transport (slot_of i h) = Some t\<close>
      have r: "hub_ok ?h1" "hub_steps (if frame_clears fb then Clears else Plain) (spine ?h) (spine ?h1)" "hub_frame E ?h ?h1"
        using receive_ok [of ?h i ?h1 E fb now] less(2) assms(3) t by simp_all
      have same: "sl_transport (slot_of i ?h1) = Some t' \<Longrightarrow> t' = t" for t'
        using steps_keep_link [OF r(2), of i t'] t assms(3) by (simp add: spine_link)
      have "wire_steps E (hb_wire ?h t) (hb_wire ?h1 t)" using r(3) unfolding hub_frame_def by blast
      then have "rank (hb_wire ?h1 t) \<le> rank w" using drains_steps [OF _ assms(1)] by fastforce
      moreover have "rank w < rank (hb_wire h t)" using rd Some assms(1) by (auto simp: drains_def)
      ultimately have "\<exists>h'. pumpSlot E i now ?h1 = Some h'"
        using r(1) t by (intro less(1)) (auto split: option.split dest: same)
      then show ?thesis using t rd Some by (subst pumpSlot.simps) simp
    qed
  qed
qed

lemma update_slots_returns:
  "drains E rank \<Longrightarrow> hub_ok h \<Longrightarrow> set is \<subseteq> {..<kSlotCapacity} \<Longrightarrow> \<exists>h'. update_slots E now is h = Some h'"
proof (induction "is" arbitrary: h)
  case (Cons i "is")
  show ?case
  proof (cases "sl_transport (slot_of i h) = None")
    case False
    obtain h1 where h1: "pumpSlot E i now h = Some h1" using pumpSlot_returns [OF Cons(2,3), of i now] Cons(4) by auto
    then have "hub_ok h1" using pumpSlot_ok [OF h1 Cons(3)] Cons(4) by simp
    then have "hub_ok (snd (run_state (serviceSlot E i now) h1))"
      using traces_ok [OF runs_serviceSlot [where i = i and E = E and p = Clears and now = now], where h = h1]
        hub_ok_sized [of h1] Cons(4) by simp
    from Cons(1) [OF Cons(2) this] Cons(4) False h1 show ?thesis by auto
  qed (use Cons in simp)
qed simp

text \<open>
  (C5) \<^verbatim>\<open>update\<close> returns: if every transport can deliver only finitely many frames without new input, and the random source
  yields a value other than 0 sooner or later from every state, an update of a reachable hub ends, however the frames interleave and
  whatever the handlers do to sessions, slots and transports on the way. The second condition is what the draw of a session id needs, which repeats until
  the id is not 0; without it the update is one that does not return.
\<close>

theorem hub_update_returns:
  assumes "hub_reach E (Hub_new E wire app rng clock) h" and "drains E rank" and "lively (env_nextU32 E)"
  shows "\<exists>h'. hub_update E nowUs h = Some h'"
proof -
  obtain now mono where a: "advance nowUs (hb_monoMs h) = (now, mono)" by fastforce
  let ?h0 = "h \<lparr> hb_monoMs := mono \<rparr>"
  let ?h1 = "snd (run_state (pumpPairing E now) ?h0)"
  have ok: "hub_ok h" by (rule reach_ok [OF assms(1)])
  have "spine ?h0 = spine h" by (simp add: spine_def safety_of_def)
  then have "hub_ok ?h0" using ok by (simp add: hub_ok_def hub_wf_def)
  then have h1: "hub_ok ?h1" "tame E ?h0 ?h1"
    using calm_ok [of E Clears "pumpPairing E now"] calm_pumpPairing tame_frame [of E ?h0 ?h1] by blast+
  obtain h' where h': "update_slots E now [0..<kSlotCapacity] ?h1 = Some h'"
    using update_slots_returns [OF assms(2) h1(1), of "[0..<kSlotCapacity]" now] by (auto simp: atLeast0LessThan)
  have "tame E ?h0 h'" using update_slots_ok [OF h' h1(1)] tame_trans [OF h1(2)] by (simp add: atLeast0LessThan)
  then have "\<not> hangs h'" using reach_draws [OF assms(1,3)] assms(3) by (auto simp: tame_def)
  then show ?thesis by (simp add: hub_update_def returned_def a h')
qed

theorem hub_update_returns_witness: "\<exists>h'. hub_update bench_env 5000 bench_driving = Some h'"
proof -
  have "drains bench_env length" by (auto simp: drains_def split: list.splits)
  moreover have "lively (env_nextU32 bench_env)" unfolding lively_def
  proof
    fix r :: u32
    have "fst (env_nextU32 bench_env (((\<lambda>r. snd (env_nextU32 bench_env r)) ^^ 0) r)) \<noteq> 0 \<or>
      fst (env_nextU32 bench_env (((\<lambda>r. snd (env_nextU32 bench_env r)) ^^ 1) r)) \<noteq> 0"
      by (cases "r + 7 = 0") (simp_all add: add.commute [of r] eq_neg_iff_add_eq_0 [symmetric])
    then show "\<exists>n. fst (env_nextU32 bench_env (((\<lambda>r. snd (env_nextU32 bench_env r)) ^^ n) r)) \<noteq> 0" by blast
  qed
  ultimately show ?thesis by (rule hub_update_returns [OF bench_reach(2)])
qed

section \<open>The deadman\<close>

lemma ownerOf_release:
  "ownerOf source (snd (releaseAllOf sid t)) = (if ownerOf source t = sid then 0 else ownerOf source t)"
proof -
  let ?f = "\<lambda>e. if so_used e \<and> so_owner e = sid then e \<lparr> so_owner := 0, so_role := watch \<rparr> else e"
  have "find_index (\<lambda>e. so_used e \<and> so_source_id e = source) (map ?f t) = find_index (\<lambda>e. so_used e \<and> so_source_id e = source) t"
    by (induction t) simp_all
  then show ?thesis by (auto simp: ownerOf_def releaseAllOf_owners so_find_def split: option.split dest!: find_index_Some)
qed

text \<open>Once a slot is stale the other timers pass it by, and the pumps that follow only send.\<close>

lemma service_stale:
  assumes "i < kSlotCapacity" and "length (hb_slots h) = kSlotCapacity" and "hs_state (session_of i h) = S_LIVE"
    and "run_state (pumpDeadman E i now) h = ((), h1)" and "hs_state (session_of i h1) = S_STALE" and "length (hb_slots h1) = kSlotCapacity"
  shows "spine (snd (run_state (serviceSlot E i now) h)) = spine h1"
proof -
  let ?t = "sl_transport (slot_of i h1)"
  let ?pumps = "whenever (?t \<noteq> None) (do { pumpStatePacing E i now; pumpEventDrain E i; pumpBlobTransfer E i })"
  have "occupied (session_of i h)" "occupied (session_of i h1)" using assms(3,5) by (simp_all add: occupied_def state_occupied_def)
  then have "snd (run_state (serviceSlot E i now) h) = snd (run_state ?pumps h1)"
    using assms(4,5) by (simp add: serviceSlot_def ifOccupied_def pumpReadyTimeout_def pumpIdleReap_def transport_of_def whenever_def)
  moreover have "hub_calm E Plain (\<lambda>c. sp_sized c \<and> (?t \<noteq> None \<longleftrightarrow> linked i c)) ?pumps"
    using assms(1) by (intro hub.calm_when hub.calm_bind calm_pumpStatePacing calm_pumpEventDrain calm_pumpBlobTransfer) auto
  moreover have "sp_sized (spine h1) \<and> (?t \<noteq> None \<longleftrightarrow> linked i (spine h1))" using assms(1,6) unfolding linked_spine by (simp add: spine_def)
  ultimately show ?thesis using calmD(1) [of spine _ _ ?pumps h1] by simp
qed

text \<open>
  (C40) Silence costs control: when the hub services the slot of a LIVE session that owns one of the sources 0 to 3 and from which
  nothing has arrived for its deadman window, then afterwards this session owns no source at all, it is stale, and it still has its id and
  its transport; every other session keeps the sources it owned. (The deadman looks at LIVE sessions only, and asks only for the source ids below
  4 whether a session owns anything.)
\<close>

theorem deadman_releases:
  assumes "i < kSlotCapacity" and "length (hb_slots h) = kSlotCapacity" and "hs_state (session_of i h) = S_LIVE"
    and "src < kMaxSources" and "ownerOf (of_nat src) (hb_ownership h) = hs_session_id (session_of i h)" and "hs_session_id (session_of i h) \<noteq> 0"
    and "timeReached now (hs_lastRxMs (session_of i h) + hs_deadmanMs (session_of i h))" and "h' = snd (run_state (serviceSlot E i now) h)"
  shows "hs_state (session_of i h') = S_STALE \<and> hs_session_id (session_of i h') = hs_session_id (session_of i h) \<and>
    sl_transport (slot_of i h') = sl_transport (slot_of i h) \<and>
    (\<forall>source. ownerOf source (hb_ownership h') =
      (if ownerOf source (hb_ownership h) = hs_session_id (session_of i h) then 0 else ownerOf source (hb_ownership h)))"
proof -
  let ?h1 = "snd (run_state (markStale E i now 3) h)"
  have "ownsAny (hs_session_id (session_of i h)) (hb_ownership h)" using assms(4,5) by (auto simp: ownsAny_def list_ex_iff)
  then have run: "run_state (pumpDeadman E i now) h = ((), ?h1)" using assms(3,7) by (simp add: pumpDeadman_def prod_eq_iff)
  have occ: "ss_occupied (sp_slots (spine h) ! i)" using assms(1,3) by (simp add: spine_occupied occupied_def state_occupied_def)
  have "hub_traces E Plain (\<lambda>c. c = spine h) (markStale E i now 3) (\<lambda>_ c. c = staled i (spine h))"
    using assms(1,2) occ by (intro traces_markStale) (auto simp: spine_def)
  from tracesD(2) [OF this, of h] have h1: "spine ?h1 = staled i (spine h)" by simp
  have len: "length (hb_slots ?h1) = kSlotCapacity"
    using arg_cong [OF h1, of sp_sized] assms(2) by (simp add: staled_def put_slot_def released_def spine_def)
  have id: "ss_id (sp_slots (spine h) ! i) = hs_session_id (session_of i h)" using seen_spine [OF assms(1), of h] by (simp add: seen_def)
  have stale: "hs_state (session_of i ?h1) = S_STALE"
    using seen_spine [OF assms(1), of ?h1] assms(1) by (simp add: h1 seen_def staled_def)
  have sp: "spine h' = staled i (spine h)" unfolding assms(8) service_stale [OF assms(1-3) run stale len] by (rule h1)
  then have "hb_ownership h' = snd (releaseAllOf (hs_session_id (session_of i h)) (hb_ownership h))"
    using arg_cong [OF sp, of sp_own] id by (simp add: staled_def put_slot_def released_def spine_def)
  moreover have "sl_transport (slot_of i h') = sl_transport (slot_of i h)"
    using assms(1) by (simp add: spine_link [symmetric] sp staled_def)
  ultimately show ?thesis using seen_spine [OF assms(1), of h'] assms(1) id by (simp add: sp seen_def staled_def ownerOf_release)
qed

theorem deadman_releases_witness:
  "ownerOf 2 (hb_ownership bench_driving) = 8 \<and> ownerOf 2 (hb_ownership (snd (run_state (serviceSlot bench_env 0 601) bench_driving))) = 0"
proof -
  have "session_of 0 bench_driving = bench_moved" by (simp add: session_of_def bench_drive(3))
  then have "hs_state (session_of 0 bench_driving) = S_LIVE" "hs_session_id (session_of 0 bench_driving) = 8"
    "timeReached 601 (hs_lastRxMs (session_of 0 bench_driving) + hs_deadmanMs (session_of 0 bench_driving))"
    by (simp_all add: timeReached_def timeDelta_def)
  then have "\<forall>source. ownerOf source (hb_ownership (snd (run_state (serviceSlot bench_env 0 601) bench_driving))) =
      (if ownerOf source (hb_ownership bench_driving) = 8 then 0 else ownerOf source (hb_ownership bench_driving))"
    using deadman_releases [of 0 bench_driving 2 601 _ bench_env, OF _ _ _ _ _ _ _ refl] by (simp add: bench_drive bench_slots_def)
  from spec [OF this, of 2] show ?thesis by (simp add: bench_drive)
qed

section \<open>The ESTOP latch\<close>

lemma estopLatched_spine: "estopLatched h \<longleftrightarrow> latched (sp_safety (spine h))"
  by (simp add: estopLatched_def latched_def spine_def safety_of_def)

lemma handleEstopFrame_latches:
  assumes "sp_sized (spine h)"
  shows "estopLatched (snd (run_state (handleEstopFrame E f now) h))"
proof -
  let ?block = "whenever (hb_safetyWord h AND ESTOP_BIT = 0) (do {
      app_tell (env_onEstop E (estop_cause f) (estop_origin f));
      modify (\<lambda>h. h \<lparr> hb_safetyWord := hb_safetyWord h OR ESTOP_BIT, hb_safetyCause := estop_cause f,
                        hb_estopSeq := estop_seq f \<rparr>);
      publishSafetySnapshot })"
  let ?h1 = "snd (run_state ?block h)"
  let ?rest = "do { broadcastSafetyNow E now; emitSafetyEdgeEvents E (hb_safetyWord h) now }"
  have word: "hb_safetyWord ?h1 = hb_safetyWord h OR ESTOP_BIT \<or> \<not> hb_safetyWord h AND ESTOP_BIT = 0 \<and> ?h1 = h"
    by (simp add: whenever_def publishSafetySnapshot_def hub_retain_def app_tell_def split_beta Let_def)
  have "bit (hb_safetyWord ?h1) 0"
    using word latched_bit [of "safety_of h"] by (auto simp: bit_or_iff latched_def safety_of_def)
  then have l: "latched (sp_safety (spine ?h1))" by (simp add: latched_bit spine_def safety_of_def)
  have "length (hb_slots ?h1) = length (hb_slots h)"
    by (simp add: whenever_def publishSafetySnapshot_def hub_retain_def app_tell_def split_beta Let_def)
  then have "sp_sized (spine ?h1)" using assms by (simp add: spine_def)
  then have "hub_steps Plain (spine ?h1) (spine (snd (run_state ?rest ?h1)))"
    using tracesD(1) [OF runs_announce [of sp_sized E Plain now "hb_safetyWord h"], of ?h1] by (simp add: hub_moves_def)
  from steps_latched [OF this _ l] have "latched (sp_safety (spine (snd (run_state ?rest ?h1))))" by simp
  moreover have "snd (run_state (handleEstopFrame E f now) h) = snd (run_state ?rest ?h1)"
    by (simp add: handleEstopFrame_def split_beta)
  ultimately show ?thesis by (simp add: estopLatched_spine)
qed

text \<open>
  (C17) ESTOP gets through: a valid ESTOP frame on any attached link of a reachable hub, with or without a session on it, leaves
  the hub latched. The frame needs no session, no readiness and no role.
\<close>

theorem estop_frame_latches:
  assumes "hub_reach E (Hub_new E wire app rng clock) h" and "i < kSlotCapacity" and "sl_transport (slot_of i h) \<noteq> None"
    and "length (fb_bytes fb) = kEstopFrameBytes" and "decodeEstop (fb_bytes fb) = Inr f"
  shows "estopLatched (snd (run_state (receiveFrame E i fb now) h))"
proof -
  have "\<forall>k < 4. fb_bytes fb ! k = kEstopMagicByte" using assms(5) by (auto simp: decodeEstop_def split: if_splits)
  then have shape: "take 4 (fb_bytes fb) = replicate 4 kEstopMagicByte"
    using assms(4) by (intro nth_equalityI) (simp_all add: kEstopFrameBytes_def)
  have ok: "hub_ok h" by (rule reach_ok [OF assms(1)])
  have "sized i (spine h) \<and> linked i (spine h)" using assms(2,3) hub_ok_sized [OF ok] by (simp add: linked_spine)
  from tracesD(2) [OF traces_noteReceived [where E = E and p = Plain and now = now] this]
  have "sp_sized (spine (snd (run_state (noteReceived E i now) h)))" by simp
  from handleEstopFrame_latches [OF this] show ?thesis
    by (simp add: receiveFrame_def shape assms(4,5) split_beta)
qed

theorem estop_frame_latches_witness:
  "estopLatched (snd (run_state (receiveFrame bench_env 0
     (FrameBuffer_from (estop_bytes \<lparr> estop_cause = 2, estop_origin = 1, estop_seq = 9 \<rparr>)) 1) bench_joined))"
  by (rule estop_frame_latches [OF bench_reach(1)])
    (simp_all add: slot_of_def bench_joined_simps kFrameBufferCapacity_def kEstopFrameBytes_def decodeEstop_estop_bytes [where rest = "[]", simplified])

text \<open>What a session may do: its readiness, its role, and what the application thinks. Receiving a frame and queueing events do not touch them.\<close>

definition rights :: "nat \<Rightarrow> ('t, 'd, 'r) Hub \<Rightarrow> bool \<times> AccessLevel \<times> 'd" where
  "rights i h = (hs_ready (session_of i h), hs_role (session_of i h), hb_app h)"

interpretation anyhow: step_order "\<lambda>_ _. True"
  by unfold_locales auto

abbreviation keeps_rights :: "nat \<Rightarrow> (('t, 'd, 'r) Hub, 'a) state \<Rightarrow> bool" where
  "keeps_rights i \<equiv> calm (rights i) (\<lambda>_ _. True) (\<lambda>_. True)"

lemma rights_upd_session:
  assumes "\<And>s. hs_ready (f s) = hs_ready s" and "\<And>s. hs_role (f s) = hs_role s"
  shows "keeps_rights i (upd_session j f)"
proof -
  have "rights i (snd (run_state (upd_session j f) h)) = rights i h" for h :: "('a, 'b, 'c) Hub"
    using nth_update_same [of "\<lambda>s. hs_ready (sl_session s)" "\<lambda>s. s \<lparr> sl_session := f (sl_session s) \<rparr>" "hb_slots h" j i]
      nth_update_same [of "\<lambda>s. hs_role (sl_session s)" "\<lambda>s. s \<lparr> sl_session := f (sl_session s) \<rparr>" "hb_slots h" j i] assms
    by (simp add: upd_session_def upd_slot_def rights_def session_of_def)
  then show ?thesis by (simp add: calm_def)
qed

lemma rights_sendSlot: "keeps_rights i (sendSlot E j type ch bs seq)"
  unfolding sendSlot_def deref_def transport_of_def raise_def sendFrameTo_def Let_def
  by (intro anyhow.calm_bind anyhow.calm_gets calm_option calm_prod calm_if anyhow.calm_return calm_modify calm_act)
    (simp_all add: rights_def session_of_def split_beta Let_def)

lemma rights_drainEvents: "keeps_rights i (drainEvents E j n)"
  by (induction n) (simp_all add: anyhow.calm_return,
    intro anyhow.calm_bind anyhow.calm_gets calm_option calm_prod rights_upd_session rights_sendSlot anyhow.calm_return, simp_all)

lemma rights_emitSessionEvent: "keeps_rights i (emitSessionEvent E kind sid now)"
  unfolding emitSessionEvent_def emitEvent_def publishEvent_def pumpEventDrain_def queueEvent_def transport_of_def Let_def
  by (intro anyhow.calm_bind anyhow.calm_gets anyhow.calm_when calm_if anyhow.calm_for_acc anyhow.calm_for_each
      rights_upd_session rights_drainEvents anyhow.calm_return) simp_all

lemma rights_noteReceived: "rights i (snd (run_state (noteReceived E j now) h)) = rights i h"
proof -
  have "keeps_rights i (noteReceived E j now)"
    unfolding noteReceived_def reviveIfStale_def ifOccupied_def
    by (intro anyhow.calm_bind anyhow.calm_gets anyhow.calm_when calm_if rights_upd_session rights_emitSessionEvent anyhow.calm_return) simp_all
  then show ?thesis by (simp add: calm_def)
qed


lemma admitIntent_passes:
  assumes "run_state (admitIntent E i m now) h = (True, h1)"
  shows "hs_ready (session_of i h) \<and> rights i h1 = rights i h"
proof -
  let ?u = "upd_session i (\<lambda>s. s \<lparr> hs_intentLimiter := snd (rl_allow now (hs_intentLimiter s)) \<rparr>)"
  have r: "rights i (snd (run_state ?u h)) = rights i h" by (rule calmD(1) [OF rights_upd_session]) simp_all
  have "h1 = snd (run_state ?u h) \<and> hs_ready (session_of i (snd (run_state ?u h)))"
    using assms by (auto simp: admitIntent_def split_beta Let_def upd_session_def upd_slot_def split: if_splits option.splits)
  with r show ?thesis by (simp add: rights_def)
qed

text \<open>An intent that asks for the release without being entitled to it leaves the latch.\<close>

lemma handleIntent_keeps_latch:
  assumes "hub_ok h" and "i < kSlotCapacity" and "sl_transport (slot_of i h) \<noteq> None" and "estopLatched h"
    and "decodeIntent payload = Inr m" and "safetyOpOf m = Some op_estop_clear"
    and denied: "\<not> (hs_ready (session_of i h) \<and> role_u8 control \<le> role_u8 (hs_role (session_of i h)) \<and> fst (env_canClearEstop E (hb_app h)))"
  shows "estopLatched (snd (run_state (handleIntent E i payload now) h))"
proof -
  obtain pass h1 where a: "run_state (admitIntent E i m now) h = (pass, h1)" by fastforce
  have pre: "sized i (spine h) \<and> linked i (spine h)" using assms(1-3) hub_ok_sized by (simp add: linked_spine)
  have "hub_traces E Plain (\<lambda>c. sized i c \<and> linked i c) (admitIntent E i m now) (\<lambda>pass c. sp_sized c \<and> (pass \<longrightarrow> sized i c \<and> linked i c))"
    by (rule traces_admitIntent)
  note admit = tracesD [OF this pre, unfolded a]
  have l1: "estopLatched h1" and s1: "sp_sized (spine h1)"
    using admit steps_latched [of Plain "spine h" "spine h1"] assms(4) by (simp_all add: hub_moves_def estopLatched_spine)
  have nack: "estopLatched (snd (run_state (sendNackTracked E i n now) h2))" if "spine h2 = spine h1" for n h2
    using tracesD(1) [OF runs_sendNackTracked [where P = "sized i" and p = Plain and E = E and i = i and n = n and now = now], where s = h2]
      steps_latched [of Plain "spine h2"] that l1 s1 assms(2) by (auto simp: hub_moves_def estopLatched_spine)
  show ?thesis
  proof (cases pass)
    case False
    then show ?thesis using l1 by (simp add: handleIntent_def assms(5) a)
  next
    case True
    have p: "hs_ready (session_of i h) \<and> rights i h1 = rights i h" using a True by (intro admitIntent_passes) simp
    then have role: "hs_role (session_of i h1) = hs_role (session_of i h)" "hb_app h1 = hb_app h" by (simp_all add: rights_def)
    show ?thesis
    proof (cases "role_u8 (hs_role (session_of i h)) < role_u8 control")
      case True
      then show ?thesis using nack [of h1] \<open>pass\<close> by (simp add: handleIntent_def assms(5,6) a role)
    next
      case False
      then have "role_u8 control \<le> role_u8 (hs_role (session_of i h))" by (rule leI)
      with denied p have no: "\<not> fst (env_canClearEstop E (hb_app h1))" using role(2) by simp
      let ?h2 = "h1 \<lparr> hb_app := snd (env_canClearEstop E (hb_app h1)) \<rparr>"
      have "spine ?h2 = spine h1" by (simp add: spine_def safety_of_def)
      moreover have "run_state (clearEstop E) h1 = (False, ?h2)"
        using l1 no by (simp add: clearEstop_def app_ask_def split_beta Let_def estopLatched_def)
      ultimately show ?thesis using nack [of ?h2] \<open>pass\<close> False by (simp add: handleIntent_def assms(5,6) a role)
    qed
  qed
qed

text \<open>
  (C2) Only an entitled intent releases ESTOP: if a frame takes a reachable hub out of the ESTOP latch, it was an INTENT with the op
  \<open>estop_clear\<close>, on the link of a ready session whose role is at least control, and the application, asked in the state it was in when the
  frame arrived, answered that ESTOP may be cleared. No other frame of any kind, malformed or not, from any client, can do it.
\<close>

theorem estop_release_entitled:
  assumes "hub_reach E (Hub_new E wire app rng clock) h" and "i < kSlotCapacity" and "sl_transport (slot_of i h) \<noteq> None"
    and "estopLatched h" and "\<not> estopLatched (snd (run_state (receiveFrame E i fb now) h))"
  shows "\<exists>hdr m. decodeFrameHeader (fb_bytes fb) = Some hdr \<and> hdr_type hdr = FT_INTENT \<and>
    decodeIntent (fb_payload fb) = Inr m \<and> safetyOpOf m = Some op_estop_clear \<and>
    occupied (session_of i h) \<and> hs_ready (session_of i h) \<and> role_u8 control \<le> role_u8 (hs_role (session_of i h)) \<and>
    fst (env_canClearEstop E (hb_app h))"
proof -
  have ok: "hub_ok h" by (rule reach_ok [OF assms(1)])
  have clears: "frame_clears fb"
  proof (rule ccontr)
    assume "\<not> frame_clears fb"
    with receive_ok(2) [where E = E and fb = fb and now = now, OF ok assms(2,3) refl]
    have "hub_steps Plain (spine h) (spine (snd (run_state (receiveFrame E i fb now) h)))" by simp
    from steps_latched [OF this] assms(4,5) show False by (simp add: estopLatched_spine)
  qed
  then obtain hdr m where f: "\<not> estop_shaped fb" "decodeFrameHeader (fb_bytes fb) = Some hdr" "hdr_type hdr = FT_INTENT"
      "decodeIntent (fb_payload fb) = Inr m" "safetyOpOf m = Some op_estop_clear"
    by (auto simp: frame_clears_def clears_def)
  let ?h0 = "snd (run_state (noteReceived E i now) h)"
  let ?h1 = "?h0 \<lparr> hb_dispatchSeq := Some (hdr_seq hdr) \<rparr>"
  have pre: "sized i (spine h) \<and> linked i (spine h)" using assms(2,3) hub_ok_sized [OF ok] by (simp add: linked_spine)
  note rx = traces_ok [OF traces_noteReceived [where E = E and p = Plain and now = now] pre ok]
    tracesD(2) [OF traces_noteReceived [where E = E and p = Plain and now = now] pre]
  have sp: "spine ?h1 = spine ?h0" "session_of i ?h1 = session_of i ?h0" "slot_of i ?h1 = slot_of i ?h0"
    by (simp_all add: spine_def safety_of_def session_of_def slot_of_def)
  then have h1: "hub_ok ?h1" "sl_transport (slot_of i ?h1) \<noteq> None" "estopLatched ?h1"
    using rx steps_latched [of Plain "spine h" "spine ?h0"] assms(4)
    by (auto simp: hub_ok_def hub_wf_def linked_spine estopLatched_spine)
  have rt: "hs_ready (session_of i ?h0) = hs_ready (session_of i h)" "hs_role (session_of i ?h0) = hs_role (session_of i h)"
    "hb_app ?h0 = hb_app h"
    using rights_noteReceived [of i E i now h] by (simp_all add: rights_def)
  have occ: "occupied (session_of i h)" if "occupied (session_of i ?h0)"
  proof (rule ccontr)
    assume "\<not> occupied (session_of i h)"
    moreover then have "hs_state (session_of i h) \<noteq> S_STALE" by (auto simp: occupied_def state_occupied_def)
    ultimately have "run_state (noteReceived E i now) h = ((), h)"
      by (simp add: noteReceived_def ifOccupied_def reviveIfStale_def whenever_def)
    with that \<open>\<not> occupied (session_of i h)\<close> show False by simp
  qed
  let ?r = "if occupied (session_of i ?h0) then snd (run_state (handleIntent E i (fb_payload fb) now) ?h1) else ?h1"
  have "receiveFrame E i fb now = do { noteReceived E i now; dispatchFrame E i hdr (fb_payload fb) now }"
    using f(1,2) by (auto simp: receiveFrame_def estop_shaped_def)
  then have "snd (run_state (receiveFrame E i fb now) h) = ?r \<lparr> hb_dispatchSeq := None \<rparr>"
    using f(3) sp(2) by (simp add: dispatchFrame_def dispatchType_def ifOccupied_def whenever_def split_beta)
  then have r: "\<not> estopLatched ?r" using assms(5) by (simp add: estopLatched_def)
  then have "occupied (session_of i ?h0)" using h1(3) by (auto split: if_splits)
  moreover have "hs_ready (session_of i ?h1) \<and> role_u8 control \<le> role_u8 (hs_role (session_of i ?h1)) \<and>
      fst (env_canClearEstop E (hb_app ?h1))"
    using handleIntent_keeps_latch [OF h1(1) assms(2) h1(2,3) f(4,5)] r h1(3) by (auto split: if_splits)
  ultimately show ?thesis using f occ rt sp(2) by auto
qed

theorem estop_release_entitled_witness:
  "\<exists>hdr m. decodeFrameHeader (fb_bytes (bench_op_frame ch_safety_intents)) = Some hdr \<and> hdr_type hdr = FT_INTENT \<and>
    decodeIntent (fb_payload (bench_op_frame ch_safety_intents)) = Inr m \<and> safetyOpOf m = Some op_estop_clear \<and>
    occupied (session_of 0 bench_estopped) \<and> hs_ready (session_of 0 bench_estopped) \<and>
    role_u8 control \<le> role_u8 (hs_role (session_of 0 bench_estopped)) \<and> fst (env_canClearEstop bench_env (hb_app bench_estopped))"
  by (rule estop_release_entitled [OF bench_reach(3) _ _ _ bench_release]) (simp_all add: slot_of_def bench_estop estopLatched_def)

end
