(* ===== verification/Client_State.thy ===== *)
theory Client_State
  imports Hub_Session State_Shadow
begin

text \<open>
  The state of the client (\<^verbatim>\<open>client/client.hpp\<close>, and \<^verbatim>\<open>ClientIdentity\<close> of \<^verbatim>\<open>session/session.hpp\<close>).
  \<open>ClientEnv\<close> holds the operations of the interfaces the client is constructed with (transport, random source, crypto provider,
  \<^verbatim>\<open>ClientDelegate\<close>); the client record holds their states (\<open>cl_wire\<close>, \<open>cl_rng\<close>, \<open>cl_app\<close>) and the
  reading of the injected clock (\<open>cl_clockUs\<close>). As on the hub, callbacks do not call back, a flag and the value it guards are
  one \<open>option\<close>, and an array with a count is a list. The pinned key is the empty list when there is none.
  A role is the byte the wire carries, because \<^verbatim>\<open>AccessLevel(w.roles)\<close> does not check it.
\<close>

section \<open>Definitions\<close>

abbreviation (input) kMaxWishes :: nat where "kMaxWishes \<equiv> 16"
abbreviation (input) kMaxPendingIntents :: nat where "kMaxPendingIntents \<equiv> 8"
abbreviation (input) kMaxShadowSlots :: nat where "kMaxShadowSlots \<equiv> 16"
abbreviation (input) kMaxGrants :: nat where "kMaxGrants \<equiv> 16"
abbreviation (input) kCatalogChunks :: nat where "kCatalogChunks \<equiv> 64"
abbreviation (input) ping_interval_holding_control_ms :: u32 where "ping_interval_holding_control_ms \<equiv> 200"
abbreviation (input) ping_interval_idle_ms :: u32 where "ping_interval_idle_ms \<equiv> 1000"
abbreviation (input) estop_repeat_interval_ms :: u32 where "estop_repeat_interval_ms \<equiv> 50"
abbreviation (input) estop_repeat_max :: u32 where "estop_repeat_max \<equiv> 20"
abbreviation (input) catalog_ready_timeout_ms :: u32 where "catalog_ready_timeout_ms \<equiv> 15000"
abbreviation (input) probe_max_duration_ms :: u32 where "probe_max_duration_ms \<equiv> 1500"
abbreviation (input) hub_sig_timeout_ms :: u32 where "hub_sig_timeout_ms \<equiv> 3000"
abbreviation (input) PM_proof :: u8 where "PM_proof \<equiv> 1"
abbreviation (input) NK_NORMAL_CLOSURE :: u16 where "NK_NORMAL_CLOSURE \<equiv> 0x107"

datatype ClientSessionState = C_CLOSED | C_CONNECTING | C_HELLO_SENT | C_SYNCING | C_LIVE

datatype HubAuthState = NotRequested | Unverifiable | SigPending | Verified | SigMismatch | SigTimeout

record ClientIdentity =
  ci_instance_id :: bytes
  ci_token :: "bytes option"
  ci_client_kind :: bytes
  ci_client_name :: bytes

record Wish =
  wi_channel_id :: u16
  wi_rate_hz :: u32
  wi_priority :: Priority

record GrantEntry =
  ge_channel_id :: u16
  ge_rate_hz :: u32
  ge_priority :: u8
  ge_valid :: bool

definition GrantEntry_new :: GrantEntry where
  "GrantEntry_new = \<lparr> ge_channel_id = 0, ge_rate_hz = 0, ge_priority = 0, ge_valid = False \<rparr>"

record ShadowEntry =
  sw_channel :: u16
  sw_used :: bool
  sw_slot :: ShadowSlot

definition ShadowEntry_new :: ShadowEntry where
  "ShadowEntry_new = \<lparr> sw_channel = 0, sw_used = False, sw_slot = ShadowSlot_new \<rparr>"

record ('t, 'd, 'r) ClientEnv =
  cx_open :: "'t \<Rightarrow> bool \<times> 't"
  cx_close :: "'t \<Rightarrow> 't"
  cx_write :: "bytes \<Rightarrow> 't \<Rightarrow> bool \<times> 't"
  cx_read :: "'t \<Rightarrow> FrameBuffer option \<times> 't"
  cx_fill :: "nat \<Rightarrow> 'r \<Rightarrow> bytes \<times> 'r"
  cx_crypto :: ICrypto
  cx_verifyP256 :: "bytes \<Rightarrow> bytes \<Rightarrow> bytes \<Rightarrow> bool"
  cx_onStateChange :: "ClientSessionState \<Rightarrow> 'd \<Rightarrow> 'd"
  cx_onState :: "u16 \<Rightarrow> u16 \<Rightarrow> bytes \<Rightarrow> 'd \<Rightarrow> 'd"
  cx_onEcho :: "u16 \<Rightarrow> IntentValueField list \<Rightarrow> u16 \<Rightarrow> 'd \<Rightarrow> 'd"
  cx_onNack :: "NackMsg \<Rightarrow> 'd \<Rightarrow> 'd"
  cx_onEvent :: "u16 \<Rightarrow> bytes \<Rightarrow> 'd \<Rightarrow> 'd"
  cx_onPendingDropped :: "u16 \<Rightarrow> 'd \<Rightarrow> 'd"
  cx_onPairGrant :: "bytes \<Rightarrow> u8 \<Rightarrow> 'd \<Rightarrow> 'd"
  cx_onHubAuth :: "HubAuthState \<Rightarrow> 'd \<Rightarrow> 'd"
  cx_onHubPublicKey :: "bytes \<Rightarrow> 'd \<Rightarrow> 'd"
  cx_onRolesChanged :: "u8 \<Rightarrow> 'd \<Rightarrow> 'd"

record ('t, 'd, 'r) Client =
  cl_id :: ClientIdentity
  cl_monoMs :: MonotonicMs
  cl_state :: ClientSessionState
  cl_wishes :: "Wish list"
  cl_cachedEtag :: bytes
  cl_hubEtag :: bytes
  cl_sessionId :: u32
  cl_bootId :: u32
  cl_cfgGen :: u16
  cl_roles :: u8
  cl_grants :: "GrantEntry list"
  cl_shadows :: "ShadowEntry list"
  cl_requiredRetained :: u32
  cl_adoptedCount :: u32
  cl_catalogReady :: bool
  cl_chunkReassembler :: ChunkReassembler
  cl_catalogChunkCount :: u16
  cl_catalogReqSentCount :: nat
  cl_readyEtag :: bytes
  cl_readyPending :: bool
  cl_lastReadySendMs :: u32
  cl_readyAttempts :: u32
  cl_pending :: "u16 list"
  cl_nextIntentId :: u16
  cl_lastRxMs :: u32
  cl_lastTxMs :: u32
  cl_holdingSource :: bool
  cl_estopActive :: bool
  cl_estopSendFailed :: bool
  cl_estopCause :: u8
  cl_estopSentSeq :: u16
  cl_estopNextSeq :: u16
  cl_estopAttempts :: u32
  cl_lastEstopSendMs :: u32
  cl_nonce :: bytes
  cl_clientVer :: "bytes option"
  cl_clientNonce :: bytes
  cl_sigRequested :: bool
  cl_hubPubkey :: bytes
  cl_hubAuth :: HubAuthState
  cl_sigDeadlineMs :: u32
  cl_presentationMode :: u8
  cl_probeActive :: bool
  cl_probeStartMs :: u32
  cl_probeBytesReceived :: u32
  cl_probeFramesReceived :: u32
  cl_probeMaxIndexSeen :: u16
  cl_probeAnyIndexSeen :: bool
  cl_clockUs :: u32
  cl_wire :: 't
  cl_app :: 'd
  cl_rng :: 'r

definition Client_new :: "ClientIdentity \<Rightarrow> 't \<Rightarrow> u32 \<Rightarrow> 'r \<Rightarrow> 'd \<Rightarrow> ('t, 'd, 'r) Client" where
  "Client_new identity transport clock rng app = \<lparr> cl_id = identity, cl_monoMs = MonotonicMs_new, cl_state = C_CLOSED, cl_wishes = [],
     cl_cachedEtag = replicate etag_bytes 0, cl_hubEtag = replicate etag_bytes 0, cl_sessionId = 0, cl_bootId = 0,
     cl_cfgGen = 0, cl_roles = 0, cl_grants = replicate kMaxGrants GrantEntry_new,
     cl_shadows = replicate kMaxShadowSlots ShadowEntry_new, cl_requiredRetained = 0, cl_adoptedCount = 0,
     cl_catalogReady = True, cl_chunkReassembler = ChunkReassembler_new kCatalogChunks, cl_catalogChunkCount = 0,
     cl_catalogReqSentCount = 0, cl_readyEtag = replicate etag_bytes 0, cl_readyPending = False, cl_lastReadySendMs = 0,
     cl_readyAttempts = 0, cl_pending = [], cl_nextIntentId = 1, cl_lastRxMs = 0, cl_lastTxMs = 0,
     cl_holdingSource = False, cl_estopActive = False, cl_estopSendFailed = False, cl_estopCause = 0,
     cl_estopSentSeq = 0, cl_estopNextSeq = 1, cl_estopAttempts = 0, cl_lastEstopSendMs = 0,
     cl_nonce = replicate 8 0, cl_clientVer = None, cl_clientNonce = replicate kTrustClientNonceBytes 0,
     cl_sigRequested = False, cl_hubPubkey = [], cl_hubAuth = NotRequested, cl_sigDeadlineMs = 0, cl_presentationMode = 0,
     cl_probeActive = False, cl_probeStartMs = 0, cl_probeBytesReceived = 0, cl_probeFramesReceived = 0,
     cl_probeMaxIndexSeen = 0, cl_probeAnyIndexSeen = False, cl_clockUs = clock, cl_wire = transport, cl_app = app,
     cl_rng = rng \<rparr>"

text \<open>The calls into the delegate and the reading of the clock.\<close>

definition tell :: "('d \<Rightarrow> 'd) \<Rightarrow> (('t, 'd, 'r) Client, unit) state" where
  "tell f = modify (\<lambda>c. c \<lparr> cl_app := f (cl_app c) \<rparr>)"

definition client_nowMs :: "('t, 'd, 'r) Client \<Rightarrow> u32" where
  "client_nowMs c = nowMs (cl_clockUs c)"

section \<open>Definitions: what a reader of the client sees\<close>

definition estopSendFailed :: "('t, 'd, 'r) Client \<Rightarrow> bool" where
  "estopSendFailed c = cl_estopSendFailed c"

definition grantedRateHz :: "u16 \<Rightarrow> ('t, 'd, 'r) Client \<Rightarrow> u32 option" where
  "grantedRateHz ch c = map_option ge_rate_hz (find (\<lambda>e. ge_valid e \<and> ge_channel_id e = ch) (cl_grants c))"

definition safetyWord :: "('t, 'd, 'r) Client \<Rightarrow> u8 option" where
  "safetyWord c =
    map_option (\<lambda>e. ss_value (sw_slot e) ! 0)
      (find (\<lambda>e. sw_used e \<and> sw_channel e = ch_safety \<and> ss_valid (sw_slot e) \<and> ss_size (sw_slot e) \<ge> 1) (cl_shadows c))"

definition client_stopLatched :: "('t, 'd, 'r) Client \<Rightarrow> bool" where
  "client_stopLatched c \<longleftrightarrow> (case safetyWord c of None \<Rightarrow> False | Some w \<Rightarrow> w AND STOP_BIT \<noteq> 0)"

end
