(* ===== verification/Client_Ops.thy ===== *)
theory Client_Ops
  imports Client_State
begin

text \<open>
  The operations of the client (\<^verbatim>\<open>client/client_impl.hpp\<close>), one definition per method, in the order in which they
  depend on each other. A name that the hub has as well carries the prefix \<open>client_\<close>.
\<close>

section \<open>Definitions: settings and state changes\<close>

definition isAllZero :: "bytes \<Rightarrow> bool" where
  "isAllZero b = list_all (\<lambda>x. x = 0) b"

definition addSubscriptionWish :: "u16 \<Rightarrow> u32 \<Rightarrow> Priority \<Rightarrow> (('t, 'd, 'r) Client, bool) state" where
  "addSubscriptionWish ch rate prio = act (\<lambda>c.
    if length (cl_wishes c) \<ge> kMaxWishes then (False, c)
    else (True, c \<lparr> cl_wishes := cl_wishes c @ [\<lparr> wi_channel_id = ch, wi_rate_hz = rate, wi_priority = prio \<rparr>] \<rparr>))"

definition setCachedEtag :: "bytes \<Rightarrow> (('t, 'd, 'r) Client, unit) state" where
  "setCachedEtag etag = modify (\<lambda>c. c \<lparr> cl_cachedEtag := poke 0 etag (cl_cachedEtag c) \<rparr>)"

definition setState :: "('t, 'd, 'r) ClientEnv \<Rightarrow> ClientSessionState \<Rightarrow> (('t, 'd, 'r) Client, unit) state" where
  "setState E s = do {
    modify (\<lambda>c. c \<lparr> cl_state := s \<rparr>);
    tell (cx_onStateChange E s) }"

definition setClientVersion :: "bytes option \<Rightarrow> (('t, 'd, 'r) Client, unit) state" where
  "setClientVersion ver = modify (\<lambda>c. c \<lparr> cl_clientVer := ver \<rparr>)"

text \<open>\<^verbatim>\<open>_hubPubkey\<close> has room for 33 bytes.\<close>

definition setHubPublicKey :: "bytes \<Rightarrow> (('t, 'd, 'r) Client, unit) state" where
  "setHubPublicKey key = modify (\<lambda>c. c \<lparr> cl_hubPubkey := (if key = [] \<or> length key > kTrustPubkeyMaxBytes then [] else key) \<rparr>)"

definition requestHubSignature :: "bool \<Rightarrow> (('t, 'd, 'r) Client, unit) state" where
  "requestHubSignature on = modify (\<lambda>c. c \<lparr> cl_sigRequested := on \<rparr>)"

definition setTokenPresentationMode :: "u8 \<Rightarrow> (('t, 'd, 'r) Client, unit) state" where
  "setTokenPresentationMode mode = modify (\<lambda>c. c \<lparr> cl_presentationMode := mode \<rparr>)"

definition setHubAuth :: "('t, 'd, 'r) ClientEnv \<Rightarrow> HubAuthState \<Rightarrow> (('t, 'd, 'r) Client, unit) state" where
  "setHubAuth E s = do {
    auth \<leftarrow> gets cl_hubAuth;
    if auth = s then skip
    else do {
      modify (\<lambda>c. c \<lparr> cl_hubAuth := s \<rparr>);
      tell (cx_onHubAuth E s) } }"

section \<open>Definitions: sending\<close>

definition client_write :: "('t, 'd, 'r) ClientEnv \<Rightarrow> bytes \<Rightarrow> (('t, 'd, 'r) Client, bool) state" where
  "client_write E bs = act (\<lambda>c. let (ok, w) = cx_write E bs (cl_wire c) in (ok, c \<lparr> cl_wire := w \<rparr>))"

definition client_sendFrame :: "('t, 'd, 'r) ClientEnv \<Rightarrow> u8 \<Rightarrow> u16 \<Rightarrow> bytes \<Rightarrow> (('t, 'd, 'r) Client, bool) state" where
  "client_sendFrame E type channel payload =
    (let hdr = \<lparr> hdr_type = type, hdr_flags = 0, hdr_channel = channel, hdr_seq = 0, hdr_len = of_nat (length payload) \<rparr>;
         (pos, buf) = encodeFrameHeader hdr (replicate kFrameBufferCapacity 0)
     in if pos = 0 then return False
        else if length payload > length buf - pos then return False
        else do {
          ok \<leftarrow> client_write E (take (pos + length payload) (poke pos payload buf));
          whenever ok (modify (\<lambda>c. c \<lparr> cl_lastTxMs := client_nowMs c \<rparr>));
          return ok })"

definition post :: "('t, 'd, 'r) ClientEnv \<Rightarrow> u8 \<Rightarrow> u16 \<Rightarrow> bytes \<Rightarrow> (('t, 'd, 'r) Client, unit) state" where
  "post E type channel payload = do { _ \<leftarrow> client_sendFrame E type channel payload; skip }"

definition flushPending :: "('t, 'd, 'r) ClientEnv \<Rightarrow> (('t, 'd, 'r) Client, unit) state" where
  "flushPending E = do {
    ids \<leftarrow> gets cl_pending;
    for_each ids (\<lambda>i. tell (cx_onPendingDropped E i));
    modify (\<lambda>c. c \<lparr> cl_pending := [] \<rparr>) }"

section \<open>Definitions: connecting\<close>

definition wish_of :: "Wish \<Rightarrow> SubscriptionWish" where
  "wish_of w = \<lparr> sw_channel_id = wi_channel_id w, sw_rate_hz = wi_rate_hz w, sw_priority = priority_u8 (wi_priority w) \<rparr>"

text \<open>The part of \<^verbatim>\<open>connect\<close> that resets the session.\<close>

definition resetSession :: "('t, 'd, 'r) Client \<Rightarrow> ('t, 'd, 'r) Client" where
  "resetSession c = c \<lparr> cl_sessionId := 0, cl_cfgGen := 0, cl_grants := replicate kMaxGrants GrantEntry_new,
     cl_shadows := replicate kMaxShadowSlots ShadowEntry_new, cl_requiredRetained := 0, cl_adoptedCount := 0,
     cl_catalogReady := True, cl_chunkReassembler := ChunkReassembler_new kCatalogChunks, cl_catalogChunkCount := 0,
     cl_readyPending := False, cl_readyAttempts := 0, cl_estopActive := False, cl_estopSendFailed := False,
     cl_holdingSource := False, cl_hubAuth := NotRequested, cl_sigDeadlineMs := 0 \<rparr>"

definition helloTrust :: "('t, 'd, 'r) Client \<Rightarrow> TrustMap option" where
  "helloTrust c =
    (let t0 = TrustMap_new \<lparr> tm_client_ver := cl_clientVer c \<rparr>;
         t1 = (if cl_presentationMode c \<noteq> 0 then t0 \<lparr> tm_presentation_mode := Some (cl_presentationMode c) \<rparr> else t0);
         t2 = (if cl_sigRequested c then t1 \<lparr> tm_client_nonce := Some (cl_clientNonce c), tm_sig_request := Some True \<rparr> else t1)
     in if cl_clientVer c \<noteq> None \<or> cl_presentationMode c \<noteq> 0 \<or> cl_sigRequested c then Some t2 else None)"

definition helloOf :: "('t, 'd, 'r) Client \<Rightarrow> HelloMsg" where
  "helloOf c =
    (let proofMode = (cl_presentationMode c = PM_proof \<and> ci_token (cl_id c) \<noteq> None) in
     HelloMsg_new \<lparr> hl_proto_ver := kProtocolVersion, hl_client_kind := ci_client_kind (cl_id c),
       hl_client_name := ci_client_name (cl_id c), hl_instance_id := ci_instance_id (cl_id c),
       hl_token := (if proofMode then None else ci_token (cl_id c)),
       hl_catalog_etag := (if isAllZero (cl_cachedEtag c) then None else Some (cl_cachedEtag c)),
       hl_subscriptions := map wish_of (cl_wishes c), hl_trust := helloTrust c \<rparr>)"

definition drawClientNonce :: "('t, 'd, 'r) ClientEnv \<Rightarrow> (('t, 'd, 'r) Client, unit) state" where
  "drawClientNonce E = modify (\<lambda>c.
    let (bs, r) = cx_fill E kTrustClientNonceBytes (cl_rng c) in c \<lparr> cl_clientNonce := bs, cl_rng := r \<rparr>)"

definition client_connect :: "('t, 'd, 'r) ClientEnv \<Rightarrow> (('t, 'd, 'r) Client, bool) state" where
  "client_connect E = do {
    flushPending E;
    opened \<leftarrow> act (\<lambda>c. let (ok, w) = cx_open E (cl_wire c) in (ok, c \<lparr> cl_wire := w \<rparr>));
    if \<not> opened then return False
    else do {
      modify resetSession;
      requested \<leftarrow> gets cl_sigRequested;
      whenever requested (do {
        drawClientNonce E;
        key \<leftarrow> gets cl_hubPubkey;
        setHubAuth E (if key \<noteq> [] then SigPending else Unverifiable) });
      h \<leftarrow> gets helloOf;
      let buf = encodeHello h 700;
      if buf = [] then return False
      else do {
        ok \<leftarrow> client_sendFrame E FT_HELLO 0 buf;
        if \<not> ok then return False
        else do {
          auth \<leftarrow> gets cl_hubAuth;
          whenever (auth = SigPending) (modify (\<lambda>c. c \<lparr> cl_sigDeadlineMs := client_nowMs c + hub_sig_timeout_ms \<rparr>));
          setState E C_HELLO_SENT;
          return True } } } }"

definition client_disconnect :: "('t, 'd, 'r) ClientEnv \<Rightarrow> (('t, 'd, 'r) Client, unit) state" where
  "client_disconnect E = do {
    st \<leftarrow> gets cl_state;
    whenever (st \<noteq> C_CLOSED) (do {
      let buf = encodeGoodbye (GoodbyeMsg_new \<lparr> gb_code := NK_NORMAL_CLOSURE \<rparr>) 64;
      whenever (buf \<noteq> []) (post E FT_GOODBYE 0 buf) });
    flushPending E;
    modify (\<lambda>c. c \<lparr> cl_wire := cx_close E (cl_wire c) \<rparr>);
    setState E C_CLOSED }"

section \<open>Definitions: hub authenticity and token proof\<close>

definition adoptHubSignature :: "('t, 'd, 'r) ClientEnv \<Rightarrow> bytes \<Rightarrow> (('t, 'd, 'r) Client, unit) state" where
  "adoptHubSignature E sig = do {
    c \<leftarrow> gets id;
    if cl_hubAuth c = Verified \<or> cl_hubAuth c = SigMismatch then skip
    else if \<not> cl_sigRequested c then skip
    else if cl_hubPubkey c = [] then setHubAuth E Unverifiable
    else if sig = [] then skip
    else do {
      let material = hubSigMaterial (cl_clientNonce c) (cl_sessionId c) (cl_bootId c);
      let ok = cx_verifyP256 E (cl_hubPubkey c) material sig;
      setHubAuth E (if ok then Verified else SigMismatch) } }"

definition handleHubSig :: "('t, 'd, 'r) ClientEnv \<Rightarrow> bytes \<Rightarrow> (('t, 'd, 'r) Client, unit) state" where
  "handleHubSig E payload =
    (case decodeHubSig payload of
       Inl e \<Rightarrow> skip
     | Inr m \<Rightarrow>
         (case tm_welcome_sig (te_trust_map m) of
            None \<Rightarrow> skip
          | Some sig \<Rightarrow> adoptHubSignature E sig))"

definition pumpHubSigTimeout :: "('t, 'd, 'r) ClientEnv \<Rightarrow> u32 \<Rightarrow> (('t, 'd, 'r) Client, unit) state" where
  "pumpHubSigTimeout E now = do {
    c \<leftarrow> gets id;
    if cl_hubAuth c \<noteq> SigPending then skip
    else if \<not> timeReached now (cl_sigDeadlineMs c) then skip
    else setHubAuth E SigTimeout }"

definition sendAuthProof :: "('t, 'd, 'r) ClientEnv \<Rightarrow> (('t, 'd, 'r) Client, unit) state" where
  "sendAuthProof E = do {
    c \<leftarrow> gets id;
    case ci_token (cl_id c) of
      None \<Rightarrow> skip
    | Some token \<Rightarrow>
        (case cr_hmacSha256 (cx_crypto E) token (cl_nonce c) of
           None \<Rightarrow> skip
         | Some mac \<Rightarrow> do {
             let m = \<lparr> te_trust_map = TrustMap_new \<lparr> tm_token_proof := Some (take kTrustTokenProofBytes mac),
                         tm_presentation_mode := Some PM_proof \<rparr> \<rparr>;
             let buf = encodeAuth m 64;
             whenever (buf \<noteq> []) (post E FT_AUTH 0 buf) }) }"

definition resendSubscriptionWishes :: "('t, 'd, 'r) ClientEnv \<Rightarrow> (('t, 'd, 'r) Client, unit) state" where
  "resendSubscriptionWishes E = do {
    ws \<leftarrow> gets cl_wishes;
    if ws = [] then skip
    else do {
      let buf = encodeSubscribe \<lparr> sb_subscriptions = map wish_of (take kSubscribeMaxWishes ws) \<rparr> 400;
      whenever (buf \<noteq> []) (post E FT_SUBSCRIBE 0 buf) } }"

section \<open>Definitions: WELCOME and the catalog\<close>

definition checkLiveTransition :: "('t, 'd, 'r) ClientEnv \<Rightarrow> (('t, 'd, 'r) Client, unit) state" where
  "checkLiveTransition E = do {
    c \<leftarrow> gets id;
    whenever (cl_state c = C_SYNCING \<and> cl_catalogReady c \<and> cl_adoptedCount c \<ge> cl_requiredRetained c) (setState E C_LIVE) }"

definition sendBlobReq :: "('t, 'd, 'r) ClientEnv \<Rightarrow> (('t, 'd, 'r) Client, unit) state" where
  "sendBlobReq E = do {
    let buf = encodeBlobReq (BlobReqMsg_new \<lparr> br_full := True \<rparr>) 16;
    if buf = [] then skip
    else do {
      ok \<leftarrow> client_sendFrame E FT_BLOB_REQ 0 buf;
      whenever ok (modify (\<lambda>c. c \<lparr> cl_catalogReqSentCount := cl_catalogReqSentCount c + 1 \<rparr>)) } }"

definition grantEntry_of :: "Grant \<Rightarrow> GrantEntry" where
  "grantEntry_of g = \<lparr> ge_channel_id = gr_channel_id g, ge_rate_hz = gr_granted_rate_hz g, ge_priority = gr_priority g,
     ge_valid = True \<rparr>"

definition adoptWelcome :: "WelcomeMsg \<Rightarrow> ('t, 'd, 'r) Client \<Rightarrow> ('t, 'd, 'r) Client" where
  "adoptWelcome w c = c \<lparr> cl_sessionId := wm_session_id w, cl_bootId := wm_boot_id w, cl_cfgGen := wm_cfg_gen w,
     cl_roles := wm_roles w, cl_hubEtag := wm_catalog_etag w, cl_nonce := wm_nonce w,
     cl_grants := poke 0 (map grantEntry_of (take kMaxGrants (wm_grants w))) (replicate kMaxGrants GrantEntry_new),
     cl_shadows := replicate kMaxShadowSlots ShadowEntry_new,
     cl_requiredRetained := wl_retained_pending (wm_limits_info w), cl_adoptedCount := 0 \<rparr>"

definition fetchCatalog :: "('t, 'd, 'r) ClientEnv \<Rightarrow> bool \<Rightarrow> (('t, 'd, 'r) Client, unit) state" where
  "fetchCatalog E matches =
    (if matches then modify (\<lambda>c. c \<lparr> cl_catalogReady := True \<rparr>)
     else do {
       modify (\<lambda>c. c \<lparr> cl_catalogReady := False, cl_chunkReassembler := ChunkReassembler_new kCatalogChunks,
                        cl_catalogChunkCount := 0 \<rparr>);
       sendBlobReq E })"

definition handleWelcome :: "('t, 'd, 'r) ClientEnv \<Rightarrow> bytes \<Rightarrow> (('t, 'd, 'r) Client, unit) state" where
  "handleWelcome E payload = do {
    st \<leftarrow> gets cl_state;
    if st \<noteq> C_HELLO_SENT then skip
    else case decodeWelcome payload of
      Inl e \<Rightarrow> skip
    | Inr w \<Rightarrow> do {
        modify (adoptWelcome w);
        cached \<leftarrow> gets cl_cachedEtag;
        fetchCatalog E (cached = wm_catalog_etag w);
        (case wm_trust w of
           None \<Rightarrow> skip
         | Some t \<Rightarrow> (case tm_welcome_sig t of None \<Rightarrow> skip | Some sig \<Rightarrow> adoptHubSignature E sig));
        c \<leftarrow> gets id;
        whenever (cl_presentationMode c = PM_proof \<and> ci_token (cl_id c) \<noteq> None) (sendAuthProof E);
        setState E C_SYNCING;
        checkLiveTransition E } }"

definition sendCatalogReady :: "('t, 'd, 'r) ClientEnv \<Rightarrow> bytes \<Rightarrow> (('t, 'd, 'r) Client, unit) state" where
  "sendCatalogReady E etag = do {
    let (n, buf) = encodeCatalogReady etag (replicate kCatalogReadyBytes 0);
    if n = 0 then skip
    else do {
      modify (\<lambda>c. c \<lparr> cl_readyEtag := poke 0 etag (cl_readyEtag c) \<rparr>);
      ok \<leftarrow> client_sendFrame E FT_CATALOG_READY 0 (take n buf);
      whenever ok (modify (\<lambda>c. c \<lparr> cl_readyPending := True, cl_lastReadySendMs := client_nowMs c,
                                     cl_readyAttempts := cl_readyAttempts c + 1 \<rparr>)) } }"

definition pumpCatalogReady :: "('t, 'd, 'r) ClientEnv \<Rightarrow> u32 \<Rightarrow> (('t, 'd, 'r) Client, unit) state" where
  "pumpCatalogReady E now = do {
    c \<leftarrow> gets id;
    if \<not> cl_readyPending c then skip
    else if cl_readyAttempts c \<ge> catalog_ready_timeout_ms div catalog_chunk_gap_timeout_ms
    then modify (\<lambda>c. c \<lparr> cl_readyPending := False \<rparr>)
    else if \<not> timeReached now (cl_lastReadySendMs c + catalog_chunk_gap_timeout_ms) then skip
    else do {
      let (n, buf) = encodeCatalogReady (cl_readyEtag c) (replicate kCatalogReadyBytes 0);
      if n = 0 then modify (\<lambda>c. c \<lparr> cl_readyPending := False \<rparr>)
      else do {
        post E FT_CATALOG_READY 0 (take n buf);
        modify (\<lambda>c. c \<lparr> cl_lastReadySendMs := now, cl_readyAttempts := cl_readyAttempts c + 1 \<rparr>) } } }"

text \<open>What the client declares when the transfer is complete: the loop over \<^verbatim>\<open>_hubEtag\<close> compares that many bytes of
  the digest.\<close>

definition adoptCatalog :: "('t, 'd, 'r) ClientEnv \<Rightarrow> bytes \<Rightarrow> (('t, 'd, 'r) Client, unit) state" where
  "adoptCatalog E bs = do {
    hubEtag \<leftarrow> gets cl_hubEtag;
    let digest = sha_hash bs;
    let matched = list_all (\<lambda>i. digest ! i = hubEtag ! i) [0..<length hubEtag];
    whenever matched (modify (\<lambda>c. c \<lparr> cl_cachedEtag := hubEtag \<rparr>));
    modify (\<lambda>c. c \<lparr> cl_catalogReady := True \<rparr>);
    sendCatalogReady E (map (\<lambda>i. if matched then hubEtag ! i else digest ! i) [0..<etag_bytes]);
    checkLiveTransition E }"

definition handleBlobChunk :: "('t, 'd, 'r) ClientEnv \<Rightarrow> bytes \<Rightarrow> u32 \<Rightarrow> (('t, 'd, 'r) Client, unit) state" where
  "handleBlobChunk E payload now =
    (case getBlobChunkHeader payload of
       None \<Rightarrow> skip
     | Some h \<Rightarrow>
         if \<not> isCatalog (bh_id h) then skip
         else if bh_chunk_count h = 0 \<or> bh_chunk_index h \<ge> bh_chunk_count h then skip
         else do {
           c \<leftarrow> gets id;
           whenever (\<not> cr_active (cl_chunkReassembler c) \<or> cl_catalogChunkCount c \<noteq> bh_chunk_count h)
             (modify (\<lambda>c. c \<lparr> cl_chunkReassembler := cr_begin kCatalogChunks (bh_id h) (bh_chunk_count h)
                                  (unat (bh_total_bytes h)) now (cl_chunkReassembler c),
                               cl_catalogChunkCount := bh_chunk_count h \<rparr>));
           modify (\<lambda>c. c \<lparr> cl_chunkReassembler := snd (cr_insert payload now (cl_chunkReassembler c)) \<rparr>);
           r \<leftarrow> gets cl_chunkReassembler;
           whenever (cr_complete r) (adoptCatalog E (cr_assembled r)) })"

section \<open>Definitions: STATE\<close>

definition findOrCreateShadow :: "u16 \<Rightarrow> (('t, 'd, 'r) Client, nat option) state" where
  "findOrCreateShadow ch = act (\<lambda>c.
    case find_index (\<lambda>e. sw_used e \<and> sw_channel e = ch) (cl_shadows c) of
      Some i \<Rightarrow> (Some i, c)
    | None \<Rightarrow>
        (case find_index (\<lambda>e. \<not> sw_used e) (cl_shadows c) of
           None \<Rightarrow> (None, c)
         | Some i \<Rightarrow> (Some i, c \<lparr> cl_shadows := (cl_shadows c)[i :=
             \<lparr> sw_channel = ch, sw_used = True, sw_slot = ShadowSlot_new \<rparr>] \<rparr>)))"

definition observeEstop :: "u16 \<Rightarrow> bytes \<Rightarrow> (('t, 'd, 'r) Client, unit) state" where
  "observeEstop channel payload = do {
    c \<leftarrow> gets id;
    whenever (channel = ch_safety \<and> cl_estopActive c \<and> length payload \<ge> 8) (do {
      let estopBit = (payload ! 0 AND 1 \<noteq> 0);
      let estopSeqField = getU16 (take 2 (drop 6 payload));
      let reached = (estopBit \<and> (estopSeqField = cl_estopSentSeq c \<or> seqIsNewer estopSeqField (cl_estopSentSeq c)));
      whenever reached (modify (\<lambda>c. c \<lparr> cl_estopActive := False, cl_estopSendFailed := False \<rparr>)) }) }"

definition client_handleState :: "('t, 'd, 'r) ClientEnv \<Rightarrow> u16 \<Rightarrow> u16 \<Rightarrow> bytes \<Rightarrow> (('t, 'd, 'r) Client, unit) state" where
  "client_handleState E channel seq payload = do {
    e \<leftarrow> findOrCreateShadow channel;
    case e of
      None \<Rightarrow> skip
    | Some i \<Rightarrow> do {
        modify (\<lambda>c. c \<lparr> cl_readyPending := False \<rparr>);
        slot \<leftarrow> gets (\<lambda>c. sw_slot (cl_shadows c ! i));
        let wasValid = ss_valid slot;
        let (accepted, _, slot') = applyStateFrame seq payload slot False;
        modify (\<lambda>c. c \<lparr> cl_shadows := (cl_shadows c)[i := (cl_shadows c ! i) \<lparr> sw_slot := slot' \<rparr>] \<rparr>);
        if \<not> accepted then skip
        else do {
          tell (cx_onState E channel seq payload);
          st \<leftarrow> gets cl_state;
          whenever (st = C_SYNCING \<and> \<not> wasValid) (do {
            modify (\<lambda>c. c \<lparr> cl_adoptedCount := cl_adoptedCount c + 1 \<rparr>);
            checkLiveTransition E });
          observeEstop channel payload } } }"

section \<open>Definitions: ECHO, NACK, GRANT, EVENT, PING, pairing\<close>

text \<open>The first matching pending id is removed and the rest move up.\<close>

definition handleEcho :: "('t, 'd, 'r) ClientEnv \<Rightarrow> bytes \<Rightarrow> (('t, 'd, 'r) Client, unit) state" where
  "handleEcho E payload =
    (case decodeEcho payload of
       Inl e \<Rightarrow> skip
     | Inr m \<Rightarrow> do {
         pending \<leftarrow> gets cl_pending;
         if ec_intent_id m \<notin> set pending then skip
         else do {
           modify (\<lambda>c. c \<lparr> cl_pending := remove1 (ec_intent_id m) (cl_pending c), cl_cfgGen := ec_cfg_gen m,
                             cl_holdingSource := True \<rparr>);
           tell (cx_onEcho E (ec_intent_id m) (ec_applied m) (ec_cfg_gen m)) } })"

definition handleNack :: "('t, 'd, 'r) ClientEnv \<Rightarrow> bytes \<Rightarrow> (('t, 'd, 'r) Client, unit) state" where
  "handleNack E payload =
    (case decodeNack payload of
       Inl e \<Rightarrow> skip
     | Inr m \<Rightarrow> do {
         st \<leftarrow> gets cl_state;
         whenever (st = C_HELLO_SENT) (setState E C_CLOSED);
         (case nk_intent_id m of
            None \<Rightarrow> skip
          | Some i \<Rightarrow> modify (\<lambda>c. c \<lparr> cl_pending := remove1 i (cl_pending c) \<rparr>));
         tell (cx_onNack E m) })"

definition upsertGrant :: "Grant \<Rightarrow> GrantEntry list \<Rightarrow> GrantEntry list" where
  "upsertGrant g es =
    (case find_index (\<lambda>e. ge_valid e \<and> ge_channel_id e = gr_channel_id g) es of
       Some i \<Rightarrow> es[i := (es ! i) \<lparr> ge_rate_hz := gr_granted_rate_hz g, ge_priority := gr_priority g \<rparr>]
     | None \<Rightarrow>
         (case find_index (\<lambda>e. \<not> ge_valid e) es of
            None \<Rightarrow> es
          | Some i \<Rightarrow> es[i := grantEntry_of g]))"

definition handleGrant :: "('t, 'd, 'r) ClientEnv \<Rightarrow> bytes \<Rightarrow> (('t, 'd, 'r) Client, unit) state" where
  "handleGrant E payload =
    (case decodeGrant payload of
       Inl e \<Rightarrow> skip
     | Inr m \<Rightarrow> do {
         modify (\<lambda>c. c \<lparr> cl_grants := foldl (\<lambda>es g. upsertGrant g es) (cl_grants c) (gm_grants m) \<rparr>);
         (case gm_roles m of
            None \<Rightarrow> skip
          | Some roles \<Rightarrow> do {
              before \<leftarrow> gets cl_roles;
              modify (\<lambda>c. c \<lparr> cl_roles := roles \<rparr>);
              whenever (roles \<noteq> before) (do {
                whenever (roles > before) (resendSubscriptionWishes E);
                tell (cx_onRolesChanged E roles) }) }) })"

definition handleEvent :: "('t, 'd, 'r) ClientEnv \<Rightarrow> u16 \<Rightarrow> bytes \<Rightarrow> (('t, 'd, 'r) Client, unit) state" where
  "handleEvent E channel payload = tell (cx_onEvent E channel payload)"

definition client_handlePing :: "('t, 'd, 'r) ClientEnv \<Rightarrow> bytes \<Rightarrow> (('t, 'd, 'r) Client, unit) state" where
  "client_handlePing E payload =
    (let (n, buf) = encodePong payload (replicate 32 0) in post E FT_PONG 0 (take n buf))"

definition sendPairReq :: "('t, 'd, 'r) ClientEnv \<Rightarrow> bytes \<Rightarrow> (('t, 'd, 'r) Client, bool) state" where
  "sendPairReq E pinProof =
    (if length pinProof \<noteq> kPinProofBytes then return False
     else do {
       iid \<leftarrow> gets (\<lambda>c. ci_instance_id (cl_id c));
       let buf = encodePairReq (PairReqMsg_new \<lparr> pr_instance_id := iid, pr_pin_proof := Some pinProof \<rparr>) 64;
       if buf = [] then return False else client_sendFrame E FT_PAIR_REQ 0 buf })"

definition sendPairKnock :: "('t, 'd, 'r) ClientEnv \<Rightarrow> (('t, 'd, 'r) Client, bool) state" where
  "sendPairKnock E = do {
    iid \<leftarrow> gets (\<lambda>c. ci_instance_id (cl_id c));
    let buf = encodePairReq (PairReqMsg_new \<lparr> pr_instance_id := iid \<rparr>) 64;
    if buf = [] then return False else client_sendFrame E FT_PAIR_REQ 0 buf }"

definition handlePairGrant :: "('t, 'd, 'r) ClientEnv \<Rightarrow> bytes \<Rightarrow> (('t, 'd, 'r) Client, unit) state" where
  "handlePairGrant E payload =
    (case decodePairGrant payload of
       Inl e \<Rightarrow> skip
     | Inr m \<Rightarrow> do {
         (case pg_trust m of
            None \<Rightarrow> skip
          | Some t \<Rightarrow>
              (case tm_hub_pubkey t of
                 None \<Rightarrow> skip
               | Some pk \<Rightarrow> do { setHubPublicKey pk; tell (cx_onHubPublicKey E pk) }));
         tell (cx_onPairGrant E (pg_token m) (pg_roles m)) })"

section \<open>Definitions: INTENT and ESTOP\<close>

definition sendIntent ::
  "('t, 'd, 'r) ClientEnv \<Rightarrow> u16 \<Rightarrow> IntentValueField list \<Rightarrow> u16 option \<Rightarrow> bool \<Rightarrow> (('t, 'd, 'r) Client, u16 option) state" where
  "sendIntent E channel values preconditionCfgGen takeover = do {
    c \<leftarrow> gets id;
    if cl_state c \<noteq> C_LIVE then return None
    else if cl_hubAuth c = SigMismatch \<or> cl_hubAuth c = SigTimeout then return None
    else if length (cl_pending c) \<ge> kMaxPendingIntents then return None
    else do {
      let m = \<lparr> im_channel_id = channel, im_intent_id = cl_nextIntentId c, im_value = values,
                im_precondition = preconditionCfgGen, im_takeover = Some takeover \<rparr>;
      let buf = encodeIntent m 300;
      if buf = [] then return None
      else do {
        ok \<leftarrow> client_sendFrame E FT_INTENT channel buf;
        if \<not> ok then return None
        else do {
          modify (\<lambda>c'. c' \<lparr> cl_pending := cl_pending c' @ [cl_nextIntentId c],
            cl_nextIntentId := (if cl_nextIntentId c + 1 = 0 then 1 else cl_nextIntentId c + 1) \<rparr>);
          return (Some (cl_nextIntentId c)) } } } }"

definition estopOf :: "('t, 'd, 'r) Client \<Rightarrow> EstopFrame" where
  "estopOf c = \<lparr> estop_cause = cl_estopCause c, estop_origin = cl_roles c, estop_seq = cl_estopSentSeq c \<rparr>"

definition initiateEstop :: "('t, 'd, 'r) ClientEnv \<Rightarrow> u8 \<Rightarrow> (('t, 'd, 'r) Client, unit) state" where
  "initiateEstop E cause = do {
    modify (\<lambda>c. c \<lparr> cl_estopActive := True, cl_estopSendFailed := False, cl_estopCause := cause,
      cl_estopSentSeq := cl_estopNextSeq c,
      cl_estopNextSeq := (if cl_estopNextSeq c + 1 = 0 then 1 else cl_estopNextSeq c + 1), cl_estopAttempts := 0 \<rparr>);
    f \<leftarrow> gets estopOf;
    let (n, buf) = encodeEstop f (replicate kEstopFrameBytes 0);
    whenever (n > 0) (do {
      _ \<leftarrow> client_write E (take n buf);
      modify (\<lambda>c. c \<lparr> cl_lastTxMs := client_nowMs c \<rparr>) });
    modify (\<lambda>c. c \<lparr> cl_estopAttempts := 1, cl_lastEstopSendMs := client_nowMs c \<rparr>) }"

definition pumpEstopRepeat :: "('t, 'd, 'r) ClientEnv \<Rightarrow> u32 \<Rightarrow> (('t, 'd, 'r) Client, unit) state" where
  "pumpEstopRepeat E now = do {
    c \<leftarrow> gets id;
    if \<not> cl_estopActive c then skip
    else if cl_estopAttempts c \<ge> estop_repeat_max
    then modify (\<lambda>c. c \<lparr> cl_estopActive := False, cl_estopSendFailed := True \<rparr>)
    else if \<not> timeReached now (cl_lastEstopSendMs c + estop_repeat_interval_ms) then skip
    else do {
      let (n, buf) = encodeEstop (estopOf c) (replicate kEstopFrameBytes 0);
      whenever (n > 0) (do {
        _ \<leftarrow> client_write E (take n buf);
        modify (\<lambda>c. c \<lparr> cl_lastTxMs := now \<rparr>) });
      modify (\<lambda>c. c \<lparr> cl_estopAttempts := cl_estopAttempts c + 1, cl_lastEstopSendMs := now \<rparr>) } }"

section \<open>Definitions: the probe\<close>

definition runProbe :: "('t, 'd, 'r) ClientEnv \<Rightarrow> (('t, 'd, 'r) Client, bool) state" where
  "runProbe E = do {
    st \<leftarrow> gets cl_state;
    if st \<noteq> C_LIVE then return False
    else do {
      ok \<leftarrow> client_sendFrame E FT_PROBE 0 [];
      if \<not> ok then return False
      else do {
        modify (\<lambda>c. c \<lparr> cl_probeActive := True, cl_probeStartMs := client_nowMs c, cl_probeBytesReceived := 0,
          cl_probeFramesReceived := 0, cl_probeMaxIndexSeen := 0, cl_probeAnyIndexSeen := False \<rparr>);
        return True } } }"

definition handleProbeFrame :: "bytes \<Rightarrow> (('t, 'd, 'r) Client, unit) state" where
  "handleProbeFrame payload = do {
    c \<leftarrow> gets id;
    if \<not> cl_probeActive c then skip
    else case decodeProbeFrame payload of
      Inl e \<Rightarrow> skip
    | Inr idx \<Rightarrow> do {
        modify (\<lambda>c. c \<lparr> cl_probeFramesReceived := cl_probeFramesReceived c + 1,
          cl_probeBytesReceived := cl_probeBytesReceived c + of_nat (length payload) \<rparr>);
        whenever (\<not> cl_probeAnyIndexSeen c \<or> idx > cl_probeMaxIndexSeen c)
          (modify (\<lambda>c. c \<lparr> cl_probeMaxIndexSeen := idx, cl_probeAnyIndexSeen := True \<rparr>)) } }"

definition probeResultOf :: "u32 \<Rightarrow> ('t, 'd, 'r) Client \<Rightarrow> ProbeResult" where
  "probeResultOf now c =
    (let expected = (if cl_probeAnyIndexSeen c then (ucast (cl_probeMaxIndexSeen c) :: u32) + 1 else 0);
         lost = (if expected > cl_probeFramesReceived c then expected - cl_probeFramesReceived c else 0)
     in \<lparr> pq_bytes_received = cl_probeBytesReceived c,
          pq_span_ms = (if timeDelta now (cl_probeStartMs c) > 0 then word_of_int (timeDelta now (cl_probeStartMs c)) else 0),
          pq_loss_pct_x100 = (if expected > 0 then ucast (((ucast lost :: u64) * 10000) div ucast expected) else 0),
          pq_rtt_ms = 0 \<rparr>)"

definition pumpProbe :: "('t, 'd, 'r) ClientEnv \<Rightarrow> u32 \<Rightarrow> (('t, 'd, 'r) Client, unit) state" where
  "pumpProbe E now = do {
    c \<leftarrow> gets id;
    if \<not> cl_probeActive c then skip
    else if \<not> timeReached now (cl_probeStartMs c + probe_max_duration_ms) then skip
    else do {
      let buf = encodeProbeReport \<lparr> pq_probe_result = probeResultOf now c \<rparr> 64;
      whenever (buf \<noteq> []) (post E FT_PROBE_REPORT 0 buf);
      modify (\<lambda>c. c \<lparr> cl_probeActive := False \<rparr>) } }"

section \<open>Definitions: dispatch and the main loop\<close>

definition client_dispatch :: "('t, 'd, 'r) ClientEnv \<Rightarrow> FrameHeader \<Rightarrow> bytes \<Rightarrow> u32 \<Rightarrow> (('t, 'd, 'r) Client, unit) state" where
  "client_dispatch E hdr payload now =
    (let type = hdr_type hdr in
     if type = FT_WELCOME then handleWelcome E payload
     else if type = FT_STATE then client_handleState E (hdr_channel hdr) (hdr_seq hdr) payload
     else if type = FT_ECHO then handleEcho E payload
     else if type = FT_NACK then handleNack E payload
     else if type = FT_GRANT then handleGrant E payload
     else if type = FT_EVENT then handleEvent E (hdr_channel hdr) payload
     else if type = FT_BLOB_CHUNK then handleBlobChunk E payload now
     else if type = FT_PING then client_handlePing E payload
     else if type = FT_PAIR_GRANT then handlePairGrant E payload
     else if type = FT_HUB_SIG then handleHubSig E payload
     else if type = FT_PROBE then handleProbeFrame payload
     else if type = FT_GOODBYE then do { setState E C_CLOSED; flushPending E }
     else skip)"

definition client_handleFrame :: "('t, 'd, 'r) ClientEnv \<Rightarrow> FrameBuffer \<Rightarrow> u32 \<Rightarrow> (('t, 'd, 'r) Client, unit) state" where
  "client_handleFrame E fb now =
    (let bs = fb_bytes fb in
     if length bs = kEstopFrameBytes \<and> take 4 bs = replicate 4 kEstopMagicByte then
       (case decodeEstop bs of
          Inl e \<Rightarrow> skip
        | Inr f \<Rightarrow> modify (\<lambda>c. c \<lparr> cl_lastRxMs := now \<rparr>))
     else
       (case fb_header fb of
          None \<Rightarrow> skip
        | Some hdr \<Rightarrow> do {
            modify (\<lambda>c. c \<lparr> cl_lastRxMs := now \<rparr>);
            client_dispatch E hdr (fb_payload fb) now }))"

text \<open>\<^verbatim>\<open>while (auto fb = _t.read()) handleFrame(*fb, nowMs)\<close>.\<close>

partial_function (option) readFrames :: "('t, 'd, 'r) ClientEnv \<Rightarrow> u32 \<Rightarrow> ('t, 'd, 'r) Client \<Rightarrow> ('t, 'd, 'r) Client option" where
  "readFrames E now c =
    (case cx_read E (cl_wire c) of
       (None, w) \<Rightarrow> Some (c \<lparr> cl_wire := w \<rparr>)
     | (Some fb, w) \<Rightarrow> readFrames E now (snd (run_state (client_handleFrame E fb now) (c \<lparr> cl_wire := w \<rparr>))))"

definition pumpPing :: "('t, 'd, 'r) ClientEnv \<Rightarrow> u32 \<Rightarrow> (('t, 'd, 'r) Client, unit) state" where
  "pumpPing E now = do {
    c \<leftarrow> gets id;
    whenever (cl_state c \<noteq> C_CLOSED) (do {
      let interval = (if cl_holdingSource c then ping_interval_holding_control_ms else ping_interval_idle_ms);
      whenever (timeReached now (cl_lastTxMs c + interval)) (do {
        let (n, buf) = encodePing [] (replicate 8 0);
        post E FT_PING 0 (take n buf) }) }) }"

definition client_pumps :: "('t, 'd, 'r) ClientEnv \<Rightarrow> u32 \<Rightarrow> (('t, 'd, 'r) Client, unit) state" where
  "client_pumps E now = do {
    pumpPing E now;
    pumpEstopRepeat E now;
    pumpCatalogReady E now;
    pumpProbe E now;
    pumpHubSigTimeout E now }"

definition client_update :: "('t, 'd, 'r) ClientEnv \<Rightarrow> u32 \<Rightarrow> ('t, 'd, 'r) Client \<Rightarrow> ('t, 'd, 'r) Client option" where
  "client_update E nowUs c =
    (let (now, mono) = advance nowUs (cl_monoMs c) in
     case readFrames E now (c \<lparr> cl_monoMs := mono \<rparr>) of
       None \<Rightarrow> None
     | Some c \<Rightarrow> Some (snd (run_state (client_pumps E now) c)))"

definition client_tick :: "u32 \<Rightarrow> ('t, 'd, 'r) Client \<Rightarrow> ('t, 'd, 'r) Client" where
  "client_tick us c = c \<lparr> cl_clockUs := us \<rparr>"

end
