(* ===== verification/Client_Invariant.thy ===== *)
theory Client_Invariant
  imports Client_Ops Effects Hub_Bench "HOL-Library.Multiset"
begin

text \<open>
  What every operation of the client keeps. \<open>ClientCore\<close> is the part of the state that the invariant speaks about; most commands
  (everything that only sends) are calm on it. The invariant \<open>core_ok\<close> has four parts: the sizes of the tables, the gate
  from SYNCING to LIVE, what \<open>Verified\<close> stands for, and the account of intents.
  \<open>client_moves\<close> relates a state to the later states of the same connection.
\<close>

section \<open>Definitions: the core and the invariant\<close>

record 'd ClientCore =
  k_state :: ClientSessionState
  k_hubEtag :: bytes
  k_shadows :: "ShadowEntry list"
  k_required :: u32
  k_adopted :: u32
  k_ready :: bool
  k_pending :: "u16 list"
  k_next :: u16
  k_nonce :: bytes
  k_key :: bytes
  k_auth :: HubAuthState
  k_app :: 'd

definition core :: "('t, 'd, 'r) Client \<Rightarrow> 'd ClientCore" where
  "core c = \<lparr> k_state = cl_state c, k_hubEtag = cl_hubEtag c, k_shadows = cl_shadows c, k_required = cl_requiredRetained c,
     k_adopted = cl_adoptedCount c, k_ready = cl_catalogReady c, k_pending = cl_pending c, k_next = cl_nextIntentId c,
     k_nonce = cl_clientNonce c, k_key = cl_hubPubkey c, k_auth = cl_hubAuth c, k_app = cl_app c \<rparr>"

lemma core_simps [simp]:
  "k_state (core c) = cl_state c" "k_hubEtag (core c) = cl_hubEtag c" "k_shadows (core c) = cl_shadows c"
  "k_required (core c) = cl_requiredRetained c" "k_adopted (core c) = cl_adoptedCount c" "k_ready (core c) = cl_catalogReady c"
  "k_pending (core c) = cl_pending c" "k_next (core c) = cl_nextIntentId c" "k_nonce (core c) = cl_clientNonce c"
  "k_key (core c) = cl_hubPubkey c" "k_auth (core c) = cl_hubAuth c" "k_app (core c) = cl_app c"
  by (simp_all add: core_def)

text \<open>The channels whose snapshot the client has adopted.\<close>

definition adoptedChannels :: "ShadowEntry list \<Rightarrow> u16 list" where
  "adoptedChannels es = map sw_channel (filter (\<lambda>e. sw_used e \<and> ss_valid (sw_slot e)) es)"

definition shadows_ok :: "ShadowEntry list \<Rightarrow> bool" where
  "shadows_ok es \<longleftrightarrow> length es = kMaxShadowSlots \<and> distinct (map sw_channel (filter sw_used es))"

text \<open>A signature was seen that verifies, under a key that satisfies \<open>Good\<close>, over material that starts with the nonce of this
  connection.\<close>

definition genuine :: "('t, 'd, 'r) ClientEnv \<Rightarrow> (bytes \<Rightarrow> bool) \<Rightarrow> bytes \<Rightarrow> bool" where
  "genuine E Good nonce \<longleftrightarrow> (\<exists>key sid boot sig. key \<noteq> [] \<and> Good key \<and> cx_verifyP256 E key (hubSigMaterial nonce sid boot) sig)"

text \<open>The frame does not deliver a key other than those: it is no PAIR_GRANT, or one without a key, or with such a key.\<close>

definition offers :: "(bytes \<Rightarrow> bool) \<Rightarrow> u8 \<Rightarrow> bytes \<Rightarrow> bool" where
  "offers Good type payload \<longleftrightarrow> (type = FT_PAIR_GRANT \<longrightarrow>
    (case decodePairGrant payload of
       Inl e \<Rightarrow> True
     | Inr m \<Rightarrow> (case pg_trust m of
          None \<Rightarrow> True
        | Some t \<Rightarrow> (case tm_hub_pubkey t of None \<Rightarrow> True | Some key \<Rightarrow> Good key))))"

definition link_offers :: "('t, 'd, 'r) ClientEnv \<Rightarrow> (bytes \<Rightarrow> bool) \<Rightarrow> bool" where
  "link_offers E Good \<longleftrightarrow> (\<forall>w fb w' hdr. cx_read E w = (Some fb, w') \<longrightarrow> fb_header fb = Some hdr \<longrightarrow>
    offers Good (hdr_type hdr) (fb_payload fb))"

text \<open>\<open>rep\<close> reads the intents that the delegate was told about, in an ECHO, a NACK or a drop, off its state.\<close>

definition reports :: "('t, 'd, 'r) ClientEnv \<Rightarrow> ('d \<Rightarrow> u16 multiset) \<Rightarrow> bool" where
  "reports E rep \<longleftrightarrow>
    (\<forall>i d. rep (cx_onPendingDropped E i d) = add_mset i (rep d)) \<and>
    (\<forall>i a g d. rep (cx_onEcho E i a g d) = add_mset i (rep d)) \<and>
    (\<forall>m d. rep (cx_onNack E m d) = (case nk_intent_id m of None \<Rightarrow> rep d | Some i \<Rightarrow> add_mset i (rep d))) \<and>
    (\<forall>s d. rep (cx_onStateChange E s d) = rep d) \<and> (\<forall>ch s p d. rep (cx_onState E ch s p d) = rep d) \<and>
    (\<forall>ch p d. rep (cx_onEvent E ch p d) = rep d) \<and> (\<forall>t r d. rep (cx_onPairGrant E t r d) = rep d) \<and>
    (\<forall>s d. rep (cx_onHubAuth E s d) = rep d) \<and> (\<forall>p d. rep (cx_onHubPublicKey E p d) = rep d) \<and>
    (\<forall>r d. rep (cx_onRolesChanged E r d) = rep d)"

lemma reportsD:
  assumes "reports E rep"
  shows "rep (cx_onPendingDropped E i d) = add_mset i (rep d)" "rep (cx_onEcho E i a g d) = add_mset i (rep d)"
    "rep (cx_onNack E m d) = (case nk_intent_id m of None \<Rightarrow> rep d | Some i \<Rightarrow> add_mset i (rep d))"
    "rep (cx_onStateChange E st d) = rep d" "rep (cx_onState E ch s p d) = rep d" "rep (cx_onEvent E ch p d) = rep d"
    "rep (cx_onPairGrant E p ro d) = rep d" "rep (cx_onHubAuth E ha d) = rep d" "rep (cx_onHubPublicKey E p d) = rep d"
    "rep (cx_onRolesChanged E ro d) = rep d"
  using assms by (simp_all add: reports_def)

text \<open>\<open>fresh\<close> holds between the adoption of a WELCOME and the first STATE.\<close>

definition fresh :: "'d ClientCore \<Rightarrow> bool" where
  "fresh k \<longleftrightarrow> adoptedChannels (k_shadows k) = [] \<and> k_adopted k = 0"

definition core_ok ::
  "('t, 'd, 'r) ClientEnv \<Rightarrow> ('d \<Rightarrow> u16 multiset) \<Rightarrow> (bytes \<Rightarrow> bool) \<Rightarrow> u16 multiset \<Rightarrow> bool \<Rightarrow> 'd ClientCore \<Rightarrow> bool" where
  "core_ok E rep Good J new k \<longleftrightarrow>
    (shadows_ok (k_shadows k) \<and> length (k_hubEtag k) = etag_bytes \<and> length (k_pending k) \<le> kMaxPendingIntents \<and> k_next k \<noteq> 0) \<and>
    (k_key k = [] \<or> Good (k_key k)) \<and>
    (k_state k = C_SYNCING \<longrightarrow> unat (k_adopted k) = length (adoptedChannels (k_shadows k))) \<and>
    (k_state k = C_LIVE \<longrightarrow> k_ready k \<and> unat (k_required k) \<le> length (adoptedChannels (k_shadows k))) \<and>
    (k_auth k = Verified \<longrightarrow> genuine E Good (k_nonce k)) \<and>
    (reports E rep \<longrightarrow> J \<subseteq># mset (k_pending k) + rep (k_app k)) \<and>
    (new \<longrightarrow> fresh k)"

definition client_moves :: "('t, 'd, 'r) Client \<Rightarrow> ('t, 'd, 'r) Client \<Rightarrow> bool" where
  "client_moves c c' \<longleftrightarrow> (cl_hubAuth c = SigMismatch \<longrightarrow> cl_hubAuth c' = SigMismatch) \<and> cl_clientNonce c' = cl_clientNonce c"

text \<open>\<^verbatim>\<open>connect\<close> starts a new connection: its later states are not restricted.\<close>

definition any_moves :: "('t, 'd, 'r) Client \<Rightarrow> ('t, 'd, 'r) Client \<Rightarrow> bool" where
  "any_moves c c' \<longleftrightarrow> True"

interpretation anm: step_order any_moves
  by unfold_locales (simp_all add: any_moves_def)

interpretation clt: step_order client_moves
  by unfold_locales (auto simp: client_moves_def)

abbreviation client_calm :: "(('t, 'd, 'r) Client, 'a) state \<Rightarrow> bool" where
  "client_calm m \<equiv> calm core client_moves (\<lambda>_. True) m"

section \<open>Commands that leave the core alone\<close>

lemma calm_plain:
  assumes "\<And>c. core (f c) = core c"
  shows "calm core client_moves P (modify f)"
proof -
  have "cl_hubAuth (f c) = cl_hubAuth c" "cl_clientNonce (f c) = cl_clientNonce c" for c using assms [of c] by (simp_all add: core_def)
  then show ?thesis using assms by (intro calm_modify) (simp_all add: client_moves_def)
qed

lemma calm_client_write [calm_rules]: "calm core client_moves P (client_write E bs)"
  unfolding client_write_def by (rule calm_act) (simp_all add: split_beta Let_def core_def client_moves_def)

lemma calm_client_sendFrame [calm_rules]: "calm core client_moves P (client_sendFrame E type channel payload)"
  unfolding client_sendFrame_def Let_def by (intro calm_rules calm_plain) (simp_all add: core_def)

lemma calm_post [calm_rules]: "calm core client_moves P (post E type channel payload)"
  unfolding post_def by (intro calm_rules)

lemma calm_sendAuthProof [calm_rules]: "calm core client_moves P (sendAuthProof E)"
  unfolding sendAuthProof_def Let_def by (intro calm_rules)

lemma calm_resendSubscriptionWishes [calm_rules]: "calm core client_moves P (resendSubscriptionWishes E)"
  unfolding resendSubscriptionWishes_def Let_def by (intro calm_rules)

lemma calm_sendBlobReq [calm_rules]: "calm core client_moves P (sendBlobReq E)"
  unfolding sendBlobReq_def Let_def by (intro calm_rules calm_plain) (simp_all add: core_def)

lemma calm_sendCatalogReady [calm_rules]: "calm core client_moves P (sendCatalogReady E etag)"
  unfolding sendCatalogReady_def Let_def by (intro calm_rules calm_plain) (simp_all add: core_def)

lemma calm_pumpCatalogReady [calm_rules]: "calm core client_moves P (pumpCatalogReady E now)"
  unfolding pumpCatalogReady_def Let_def by (intro calm_rules calm_plain) (simp_all add: core_def)

lemma calm_observeEstop [calm_rules]: "calm core client_moves P (observeEstop ch payload)"
  unfolding observeEstop_def Let_def by (intro calm_rules calm_plain) (simp_all add: core_def)

lemma calm_client_handlePing [calm_rules]: "calm core client_moves P (client_handlePing E payload)"
  unfolding client_handlePing_def Let_def by (intro calm_rules)

lemma calm_sendPairReq [calm_rules]: "calm core client_moves P (sendPairReq E pinProof)"
  unfolding sendPairReq_def Let_def by (intro calm_rules)

lemma calm_sendPairKnock [calm_rules]: "calm core client_moves P (sendPairKnock E)"
  unfolding sendPairKnock_def Let_def by (intro calm_rules)

lemma calm_initiateEstop [calm_rules]: "calm core client_moves P (initiateEstop E cause)"
  unfolding initiateEstop_def Let_def by (intro calm_rules calm_plain) (simp_all add: core_def)

lemma calm_pumpEstopRepeat [calm_rules]: "calm core client_moves P (pumpEstopRepeat E now)"
  unfolding pumpEstopRepeat_def Let_def by (intro calm_rules calm_plain) (simp_all add: core_def)

lemma calm_runProbe [calm_rules]: "calm core client_moves P (runProbe E)"
  unfolding runProbe_def by (intro calm_rules calm_plain) (simp_all add: core_def)

lemma calm_handleProbeFrame [calm_rules]: "calm core client_moves P (handleProbeFrame payload)"
  unfolding handleProbeFrame_def by (intro calm_rules calm_plain) (simp_all add: core_def)

lemma calm_pumpProbe [calm_rules]: "calm core client_moves P (pumpProbe E now)"
  unfolding pumpProbe_def Let_def by (intro calm_rules calm_plain) (simp_all add: core_def)

lemma calm_pumpPing [calm_rules]: "calm core client_moves P (pumpPing E now)"
  unfolding pumpPing_def Let_def by (intro calm_rules)

section \<open>Commands that keep the invariant\<close>

abbreviation keeps ::
  "('t, 'd, 'r) ClientEnv \<Rightarrow> ('d \<Rightarrow> u16 multiset) \<Rightarrow> (bytes \<Rightarrow> bool) \<Rightarrow> u16 multiset \<Rightarrow> bool \<Rightarrow> (('t, 'd, 'r) Client, 'a) state \<Rightarrow> bool" where
  "keeps E rep Good J new m \<equiv> traces core client_moves (core_ok E rep Good J new) m (\<lambda>_. core_ok E rep Good J new)"

named_theorems keep_rules \<open>commands that keep the invariant\<close>

lemma keeps_calm: "calm core client_moves (core_ok E rep Good J new) m \<Longrightarrow> keeps E rep Good J new m"
  by (rule clt.traces_calm)

lemma keeps_bind [keep_rules]:
  "keeps E rep Good J new m \<Longrightarrow> (\<And>x. keeps E rep Good J new (f x)) \<Longrightarrow> keeps E rep Good J new (State_Monad.bind m f)"
  by (rule clt.traces_bind)

lemma keeps_when [keep_rules]: "(b \<Longrightarrow> keeps E rep Good J new m) \<Longrightarrow> keeps E rep Good J new (whenever b m)"
  by (rule clt.traces_when)

lemmas [keep_rules] = traces_cases clt.traces_for_each

lemma keeps_return [keep_rules]: "keeps E rep Good J new (State_Monad.return x)"
  by (rule keeps_calm) (rule clt.calm_return)

lemma keeps_gets [keep_rules]: "keeps E rep Good J new (gets f)"
  by (rule keeps_calm) (rule clt.calm_gets)

text \<open>An update of the core that satisfies the invariant.\<close>

lemma traces_modify:
  "(\<And>c. P (core c) \<Longrightarrow> Q () (core (f c)) \<and> client_moves c (f c)) \<Longrightarrow> traces core client_moves P (modify f) Q"
  by (simp add: traces_def)

lemma keeps_tell [keep_rules]:
  "(\<And>d. reports E rep \<Longrightarrow> rep (f d) = rep d) \<Longrightarrow> keeps E rep Good J new (tell f)"
  unfolding tell_def by (rule traces_modify) (simp add: core_ok_def fresh_def client_moves_def)

lemma keeps_close [keep_rules]: "s = C_CLOSED \<or> s = C_HELLO_SENT \<Longrightarrow> keeps E rep Good J new (setState E s)"
  unfolding setState_def
  by (intro keeps_bind keeps_tell traces_modify) (auto simp: core_ok_def fresh_def client_moves_def reportsD)

lemma keeps_setHubAuth:
  fixes E :: "('a, 'b, 'c) ClientEnv"
  assumes "\<And>k. P k \<Longrightarrow> core_ok E rep Good J new k \<and> k_auth k \<noteq> SigMismatch \<and> (s = Verified \<longrightarrow> genuine E Good (k_nonce k))"
  shows "traces core client_moves P (setHubAuth E s) (\<lambda>_. core_ok E rep Good J new)"
  unfolding setHubAuth_def
proof (rule traces_gets [where g = "\<lambda>_ _. True"], simp, rule traces_if)
  fix a show "traces core client_moves (\<lambda>k. P k \<and> True) skip (\<lambda>_. core_ok E rep Good J new)"
    by (rule clt.traces_return) (simp add: assms)
next
  fix a
  have "traces core client_moves (\<lambda>k. P k \<and> True) (modify (\<lambda>c :: ('a, 'b, 'c) Client. c \<lparr> cl_hubAuth := s \<rparr>)) (\<lambda>_. core_ok E rep Good J new)"
    by (rule traces_modify) (drule conjunct1, drule assms, simp add: core_ok_def fresh_def client_moves_def)
  then show "traces core client_moves (\<lambda>k. P k \<and> True)
      (do { modify (\<lambda>c :: ('a, 'b, 'c) Client. c \<lparr> cl_hubAuth := s \<rparr>); tell (cx_onHubAuth E s) }) (\<lambda>_. core_ok E rep Good J new)"
    by (rule clt.traces_bind) (rule keeps_tell, simp add: reportsD)
qed

lemma keeps_adoptHubSignature [keep_rules]: "keeps E rep Good J new (adoptHubSignature E sig)"
  unfolding adoptHubSignature_def Let_def
proof (rule traces_gets [where g = "\<lambda>c k. k = core c"], simp, intro traces_cases)
  fix c :: "('a, 'b, 'c) Client"
  assume a: "\<not> (cl_hubAuth c = Verified \<or> cl_hubAuth c = SigMismatch)"
  let ?P = "\<lambda>k. core_ok E rep Good J new k \<and> k = core c"
  show "traces core client_moves ?P (setHubAuth E Unverifiable) (\<lambda>_. core_ok E rep Good J new)"
    using a by (intro keeps_setHubAuth) auto
  assume "cl_hubPubkey c \<noteq> []"
  then show "traces core client_moves ?P (setHubAuth E (if cx_verifyP256 E (cl_hubPubkey c)
      (hubSigMaterial (cl_clientNonce c) (cl_sessionId c) (cl_bootId c)) sig then Verified else SigMismatch)) (\<lambda>_. core_ok E rep Good J new)"
    using a by (intro keeps_setHubAuth) (auto simp: genuine_def core_ok_def)
qed (rule clt.traces_return, simp)+

lemma keeps_handleHubSig [keep_rules]: "keeps E rep Good J new (handleHubSig E payload)"
  unfolding handleHubSig_def by (intro keep_rules)

lemma keeps_pumpHubSigTimeout [keep_rules]: "keeps E rep Good J new (pumpHubSigTimeout E now)"
  unfolding pumpHubSigTimeout_def
proof (rule traces_gets [where g = "\<lambda>c k. k = core c"], simp, intro traces_cases)
  fix c :: "('a, 'b, 'c) Client"
  assume a: "\<not> cl_hubAuth c \<noteq> SigPending"
  then show "traces core client_moves (\<lambda>k. core_ok E rep Good J new k \<and> k = core c) (setHubAuth E SigTimeout) (\<lambda>_. core_ok E rep Good J new)"
    by (intro keeps_setHubAuth) auto
qed (rule clt.traces_return, simp)+

text \<open>Dropping the pending intents.\<close>

lemma run_drops:
  "run_state (for_each ids (\<lambda>i. tell (cx_onPendingDropped E i))) c =
    ((), c \<lparr> cl_app := fold (cx_onPendingDropped E) ids (cl_app c) \<rparr>)"
  by (induction ids arbitrary: c) (simp_all add: tell_def)

lemma run_flushPending:
  "run_state (flushPending E) c = ((), c \<lparr> cl_app := fold (cx_onPendingDropped E) (cl_pending c) (cl_app c), cl_pending := [] \<rparr>)"
  by (simp add: flushPending_def run_drops)

lemma reports_fold: "reports E rep \<Longrightarrow> rep (fold (cx_onPendingDropped E) ids d) = mset ids + rep d"
  by (induction ids arbitrary: d) (simp_all add: reportsD)

lemma keeps_flushPending [keep_rules]: "keeps E rep Good J new (flushPending E)"
  by (rule traces_run) (auto simp: run_flushPending core_ok_def client_moves_def reports_fold fresh_def)

text \<open>The gate to LIVE.\<close>

lemma keeps_checkLiveTransition [keep_rules]: "keeps E rep Good J new (checkLiveTransition E)"
  unfolding checkLiveTransition_def
proof (rule traces_gets [where g = "\<lambda>c k. k = core c"], simp, rule clt.traces_when)
  fix c :: "('a, 'b, 'c) Client"
  assume "cl_state c = C_SYNCING \<and> cl_catalogReady c \<and> cl_requiredRetained c \<le> cl_adoptedCount c"
  then have "traces core client_moves (\<lambda>k. core_ok E rep Good J new k \<and> k = core c) (modify (\<lambda>c :: ('a, 'b, 'c) Client. c \<lparr> cl_state := C_LIVE \<rparr>)) (\<lambda>_. core_ok E rep Good J new)"
    by (intro traces_modify) (auto simp: core_def core_ok_def fresh_def client_moves_def word_le_nat_alt)
  then show "traces core client_moves (\<lambda>k. core_ok E rep Good J new k \<and> k = core c) (setState E C_LIVE) (\<lambda>_. core_ok E rep Good J new)"
    unfolding setState_def by (rule clt.traces_bind) (rule keeps_tell, simp add: reportsD)
qed simp

section \<open>WELCOME and the catalog\<close>

lemma core_ok_weaken: "core_ok E rep Good J new k \<Longrightarrow> core_ok E rep Good J False k"
  by (simp add: core_ok_def)

lemma adoptedChannels_new [simp]: "adoptedChannels (replicate n ShadowEntry_new) = []"
  by (simp add: adoptedChannels_def ShadowEntry_new_def)

lemma shadows_ok_new [simp]: "shadows_ok (replicate 16 ShadowEntry_new)"
  by (simp add: shadows_ok_def ShadowEntry_new_def)

lemma fetchCatalog_keeps:
  "traces core client_moves (\<lambda>k. core_ok E rep Good J new k \<and> k_state k = C_HELLO_SENT) (fetchCatalog E b) (\<lambda>_. core_ok E rep Good J new)"
  unfolding fetchCatalog_def
proof (rule traces_if)
  show "traces core client_moves (\<lambda>k. core_ok E rep Good J new k \<and> k_state k = C_HELLO_SENT)
      (modify (cl_catalogReady_update (\<lambda>_. True))) (\<lambda>_. core_ok E rep Good J new)"
    by (rule traces_modify) (simp add: core_ok_def fresh_def client_moves_def)
next
  have "traces core client_moves (\<lambda>k. core_ok E rep Good J new k \<and> k_state k = C_HELLO_SENT)
      (modify (\<lambda>c. c \<lparr> cl_catalogReady := False, cl_chunkReassembler := ChunkReassembler_new 64, cl_catalogChunkCount := 0 \<rparr>))
      (\<lambda>_. core_ok E rep Good J new)"
    by (rule traces_modify) (simp add: core_ok_def fresh_def client_moves_def)
  then show "traces core client_moves (\<lambda>k. core_ok E rep Good J new k \<and> k_state k = C_HELLO_SENT)
      (do { modify (\<lambda>c. c \<lparr> cl_catalogReady := False, cl_chunkReassembler := ChunkReassembler_new 64, cl_catalogChunkCount := 0 \<rparr>);
            sendBlobReq E }) (\<lambda>_. core_ok E rep Good J new)"
    by (rule clt.traces_bind) (intro keeps_calm calm_rules)
qed

lemma setState_syncing: "traces core client_moves (core_ok E rep Good J True) (setState E C_SYNCING) (\<lambda>_. core_ok E rep Good J False)"
  unfolding setState_def
  by (rule clt.traces_bind [where S = "\<lambda>_. core_ok E rep Good J False"], rule traces_modify)
    (auto simp: core_ok_def fresh_def client_moves_def intro!: keeps_tell reportsD)

lemma adoptWelcome_keeps:
  assumes "decodeWelcome payload = Inr w"
  shows "traces core client_moves (\<lambda>k. core_ok E rep Good J False k \<and> k_state k = C_HELLO_SENT) (modify (adoptWelcome w))
    (\<lambda>_ k. core_ok E rep Good J True k \<and> k_state k = C_HELLO_SENT)"
  using decodeWelcome_sized [OF assms]
  by (intro traces_modify) (simp add: core_ok_def fresh_def client_moves_def adoptWelcome_def welcome_sized_def etag_bytes_def)

lemma keeps_handleWelcome [keep_rules]: "keeps E rep Good J False (handleWelcome E payload)"
  unfolding handleWelcome_def
proof (rule traces_gets [where g = "\<lambda>st k. k_state k = st"], simp, intro traces_if traces_sum)
  fix st w assume w: "decodeWelcome payload = Inr w" and st: "\<not> st \<noteq> C_HELLO_SENT"
  show "traces core client_moves (\<lambda>k. core_ok E rep Good J False k \<and> k_state k = st) (do {
        modify (adoptWelcome w);
        cached \<leftarrow> gets cl_cachedEtag;
        fetchCatalog E (cached = wm_catalog_etag w);
        (case wm_trust w of
           None \<Rightarrow> skip
         | Some t \<Rightarrow> (case tm_welcome_sig t of None \<Rightarrow> skip | Some sig \<Rightarrow> adoptHubSignature E sig));
        c \<leftarrow> gets id;
        whenever (cl_presentationMode c = PM_proof \<and> ci_token (cl_id c) \<noteq> None) (sendAuthProof E);
        setState E C_SYNCING;
        checkLiveTransition E }) (\<lambda>_. core_ok E rep Good J False)"
    using st
    apply (simp only: not_not)
    apply (rule clt.traces_bind [OF adoptWelcome_keeps [OF w]])
    apply (rule clt.traces_step, rule clt.calm_gets)
    apply (rule clt.traces_bind [OF fetchCatalog_keeps])
    apply (rule clt.traces_bind [where S = "\<lambda>_. core_ok E rep Good J True"], intro keep_rules)
    apply (rule clt.traces_bind [where S = "\<lambda>_. core_ok E rep Good J True"], intro keep_rules)
    apply (rule clt.traces_bind [where S = "\<lambda>_. core_ok E rep Good J True"], intro keep_rules keeps_calm calm_rules)
    apply (rule clt.traces_bind [OF setState_syncing])
    apply (intro keep_rules)
    done
qed (rule clt.traces_return, simp)+

lemma keeps_adoptCatalog [keep_rules]: "keeps E rep Good J False (adoptCatalog E bs)"
  unfolding adoptCatalog_def Let_def
proof (rule traces_gets [where g = "\<lambda>e k. k_hubEtag k = e"], simp)
  fix e
  let ?m = "list_all (\<lambda>i. sha_hash bs ! i = e ! i) [0..<length e]"
  have a: "traces core client_moves (\<lambda>k. core_ok E rep Good J False k \<and> k_hubEtag k = e)
      (whenever ?m (modify (\<lambda>c. c \<lparr> cl_cachedEtag := e \<rparr>))) (\<lambda>_. core_ok E rep Good J False)"
    by (intro clt.traces_when traces_modify)
      (auto simp: core_ok_def fresh_def client_moves_def)
  have b: "keeps E rep Good J False (modify (\<lambda>c. c \<lparr> cl_catalogReady := True \<rparr>))"
    by (rule traces_modify) (simp add: core_ok_def fresh_def client_moves_def)
  show "traces core client_moves (\<lambda>k. core_ok E rep Good J False k \<and> k_hubEtag k = e) (do {
      whenever ?m (modify (\<lambda>c. c \<lparr> cl_cachedEtag := e \<rparr>));
      modify (\<lambda>c. c \<lparr> cl_catalogReady := True \<rparr>);
      sendCatalogReady E (map (\<lambda>i. if ?m then e ! i else sha_hash bs ! i) [0..<etag_bytes]);
      checkLiveTransition E }) (\<lambda>_. core_ok E rep Good J False)"
    by (rule clt.traces_bind [OF a], rule keeps_bind [OF b], rule keeps_bind) (intro keep_rules keeps_calm calm_rules)+
qed

lemma keeps_handleBlobChunk [keep_rules]: "keeps E rep Good J False (handleBlobChunk E payload now)"
  unfolding handleBlobChunk_def
  apply (intro keep_rules)
  apply (rule keeps_calm, rule calm_plain; simp add: core_def)
  apply (rule keeps_calm, rule calm_plain; simp add: core_def)
  done

section \<open>STATE\<close>

lemma length_filter_update:
  assumes "i < length xs"
  shows "length (filter P (xs[i := x])) + of_bool (P (xs ! i)) = length (filter P xs) + of_bool (P x)"
proof -
  have "filter P xs = filter P (take i xs) @ filter P [xs ! i] @ filter P (drop (Suc i) xs)"
    using arg_cong [OF id_take_nth_drop [OF assms], of "filter P"] by simp
  moreover have "filter P (xs[i := x]) = filter P (take i xs) @ filter P [x] @ filter P (drop (Suc i) xs)"
    using arg_cong [OF upd_conv_take_nth_drop [OF assms, of x], of "filter P"] by simp
  ultimately show ?thesis by (simp split: if_splits)
qed

lemma adopted_bound: "shadows_ok es \<Longrightarrow> length (adoptedChannels es) \<le> 16"
  unfolding adoptedChannels_def shadows_ok_def by (metis length_filter_le length_map)

lemma adoptedChannels_update:
  assumes "i < length es"
  shows "length (adoptedChannels (es[i := e])) + of_bool (sw_used (es ! i) \<and> ss_valid (sw_slot (es ! i))) =
    length (adoptedChannels es) + of_bool (sw_used e \<and> ss_valid (sw_slot e))"
  using length_filter_update [OF assms, of "\<lambda>e. sw_used e \<and> ss_valid (sw_slot e)" e] by (simp add: adoptedChannels_def)

text \<open>Replacing an entry by one for the same channel, and taking a free entry for a new channel.\<close>

lemma shadows_ok_same:
  assumes "shadows_ok es" "i < length es" "sw_used (es ! i)" "sw_used e" "sw_channel e = sw_channel (es ! i)"
  shows "shadows_ok (es[i := e])"
proof -
  have "map sw_channel (filter sw_used (es[i := e])) = map sw_channel (filter sw_used es)"
    using arg_cong [OF id_take_nth_drop [OF assms(2)], of "\<lambda>es. map sw_channel (filter sw_used es)"] assms(3-5)
    by (simp add: upd_conv_take_nth_drop [OF assms(2)])
  then show ?thesis using assms(1) by (simp add: shadows_ok_def)
qed

lemma shadows_ok_take:
  assumes "shadows_ok es" "i < length es" "\<not> sw_used (es ! i)" "\<forall>x \<in> set es. \<not> (sw_used x \<and> sw_channel x = sw_channel e)"
  shows "shadows_ok (es[i := e])"
proof -
  have "filter sw_used es = filter sw_used (take i es) @ filter sw_used (drop (Suc i) es)"
    using arg_cong [OF id_take_nth_drop [OF assms(2)], of "filter sw_used"] assms(3) by simp
  moreover have "filter sw_used (es[i := e]) = filter sw_used (take i es) @ (if sw_used e then [e] else []) @ filter sw_used (drop (Suc i) es)"
    by (simp add: upd_conv_take_nth_drop [OF assms(2)])
  moreover have "sw_channel e \<notin> sw_channel ` set (filter sw_used (take i es) @ filter sw_used (drop (Suc i) es))"
    using assms(4) by (auto dest: in_set_takeD in_set_dropD)
  ultimately show ?thesis using assms(1) by (auto simp: shadows_ok_def)
qed

definition located :: "u16 \<Rightarrow> nat option \<Rightarrow> 'd ClientCore \<Rightarrow> bool" where
  "located ch e k \<longleftrightarrow> (case e of None \<Rightarrow> True | Some i \<Rightarrow>
    i < kMaxShadowSlots \<and> sw_used (k_shadows k ! i) \<and> sw_channel (k_shadows k ! i) = ch)"

lemma findOrCreateShadow_keeps:
  "traces core client_moves (core_ok E rep Good J False) (findOrCreateShadow ch) (\<lambda>e k. core_ok E rep Good J False k \<and> located ch e k)"
proof (rule traces_run)
  fix c :: "('a, 'b, 'c) Client"
  assume ok: "core_ok E rep Good J False (core c)"
  let ?es = "cl_shadows c" and ?e = "\<lparr> sw_channel = ch, sw_used = True, sw_slot = ShadowSlot_new \<rparr>"
  have len: "length ?es = 16" using ok by (simp add: core_ok_def shadows_ok_def)
  show "client_moves c (snd (run_state (findOrCreateShadow ch) c)) \<and>
      core_ok E rep Good J False (core (snd (run_state (findOrCreateShadow ch) c))) \<and>
      located ch (fst (run_state (findOrCreateShadow ch) c)) (core (snd (run_state (findOrCreateShadow ch) c)))"
  proof (cases "find_index (\<lambda>e. sw_used e \<and> sw_channel e = ch) ?es")
    case (Some i)
    then show ?thesis using ok find_index_Some [OF Some] len
      by (simp add: findOrCreateShadow_def client_moves_def located_def)
  next
    case none: None
    show ?thesis
    proof (cases "find_index (\<lambda>e. \<not> sw_used e) ?es")
      case None then show ?thesis using none ok by (simp add: findOrCreateShadow_def client_moves_def located_def)
    next
      case (Some i)
      then have i: "i < 16" "\<not> sw_used (?es ! i)" using find_index_Some [OF Some] len by simp_all
      have "shadows_ok (?es[i := ?e])"
        using ok i none len by (intro shadows_ok_take) (simp_all add: core_ok_def find_index_None)
      moreover have "length (adoptedChannels (?es[i := ?e])) = length (adoptedChannels ?es)"
        using adoptedChannels_update [of i ?es ?e] i len by (simp add: ShadowSlot_new_def)
      ultimately show ?thesis using none Some ok i len
        by (simp add: findOrCreateShadow_def client_moves_def located_def core_ok_def)
    qed
  qed
qed

text \<open>After the slot is written and before the adoption is counted, the count is one short.\<close>

definition owed :: "bool \<Rightarrow> 'd ClientCore \<Rightarrow> 'd ClientCore" where
  "owed b k = (if b then k \<lparr> k_adopted := k_adopted k + 1 \<rparr> else k)"

lemma owed_ok:
  assumes "core_ok E rep Good J False (owed b k)" "\<not> (k_state k = C_SYNCING \<and> b)"
  shows "core_ok E rep Good J False k"
  using assms by (auto simp: owed_def core_ok_def split: if_splits)

lemma write_shadow:
  assumes ok: "core_ok E rep Good J False (core c)" and i: "i < 16" "sw_used (cl_shadows c ! i)"
    and slot: "ss_valid slot'"
  shows "core_ok E rep Good J False (owed (\<not> ss_valid (sw_slot (cl_shadows c ! i)))
    (core (c \<lparr> cl_shadows := (cl_shadows c)[i := (cl_shadows c ! i) \<lparr> sw_slot := slot' \<rparr>] \<rparr>)))"
proof -
  let ?es = "cl_shadows c" and ?e = "(cl_shadows c ! i) \<lparr> sw_slot := slot' \<rparr>"
  have so: "shadows_ok ?es" and len: "length ?es = 16" using ok by (simp_all add: core_ok_def shadows_ok_def)
  have so': "shadows_ok (?es[i := ?e])" using so i len by (intro shadows_ok_same) simp_all
  have n: "length (adoptedChannels (?es[i := ?e])) = length (adoptedChannels ?es) + of_bool (\<not> ss_valid (sw_slot (?es ! i)))"
    using adoptedChannels_update [of i ?es ?e] i len slot by (cases "ss_valid (sw_slot (?es ! i))") simp_all
  have "unat (cl_adoptedCount c) = length (adoptedChannels ?es) \<Longrightarrow> unat (cl_adoptedCount c + 1) = length (adoptedChannels ?es) + 1"
    using adopted_bound [OF so] by (simp add: unat_word_ariths)
  then show ?thesis using ok so' n by (auto simp: owed_def core_ok_def)
qed

lemma applyStateFrame_accepted:
  "applyStateFrame seq payload slot b = (acc, x, slot') \<Longrightarrow> (acc \<longrightarrow> ss_valid slot') \<and> (\<not> acc \<longrightarrow> slot' = slot)"
  by (auto simp: applyStateFrame_def split: if_splits)

lemma keeps_count:
  "traces core client_moves (\<lambda>k. core_ok E rep Good J False (owed new k)) (do {
      tell (cx_onState E channel seq payload);
      st \<leftarrow> gets cl_state;
      whenever (st = C_SYNCING \<and> new) (do {
        modify (\<lambda>c. c \<lparr> cl_adoptedCount := cl_adoptedCount c + 1 \<rparr>);
        checkLiveTransition E });
      observeEstop channel payload }) (\<lambda>_. core_ok E rep Good J False)"
proof -
  have a: "traces core client_moves (\<lambda>k. core_ok E rep Good J False (owed new k)) (tell (cx_onState E channel seq payload))
      (\<lambda>_ k. core_ok E rep Good J False (owed new k))"
    unfolding tell_def by (rule traces_modify, cases new) (simp_all add: core_ok_def owed_def client_moves_def reportsD)
  have b: "traces core client_moves (\<lambda>k. core_ok E rep Good J False (owed new k) \<and> k_state k = st)
      (whenever (st = C_SYNCING \<and> new) (do {
        modify (\<lambda>c. c \<lparr> cl_adoptedCount := cl_adoptedCount c + 1 \<rparr>);
        checkLiveTransition E })) (\<lambda>_. core_ok E rep Good J False)" for st
  proof (rule clt.traces_when)
    assume "st = C_SYNCING \<and> new"
    then show "traces core client_moves (\<lambda>k. core_ok E rep Good J False (owed new k) \<and> k_state k = st)
        (do { modify (\<lambda>c. c \<lparr> cl_adoptedCount := cl_adoptedCount c + 1 \<rparr>); checkLiveTransition E }) (\<lambda>_. core_ok E rep Good J False)"
      by (intro clt.traces_bind [OF traces_modify [where Q = "\<lambda>_. core_ok E rep Good J False"]] keep_rules)
        (simp add: core_ok_def owed_def client_moves_def)
  qed (auto intro: owed_ok)
  show ?thesis
    by (rule clt.traces_bind [OF a], rule traces_gets [where g = "\<lambda>st k. k_state k = st"], simp, rule clt.traces_bind [OF b],
      intro keeps_calm calm_rules)
qed

lemma keeps_client_handleState [keep_rules]: "keeps E rep Good J False (client_handleState E channel seq payload)"
  unfolding client_handleState_def
proof (rule clt.traces_bind [OF findOrCreateShadow_keeps], rule traces_option)
  fix e :: "nat option" and i assume e: "e = Some i"
  let ?P = "\<lambda>k. core_ok E rep Good J False k \<and> located channel e k"
  show "traces core client_moves ?P (do {
        modify (\<lambda>c. c \<lparr> cl_readyPending := False \<rparr>);
        slot \<leftarrow> gets (\<lambda>c. sw_slot (cl_shadows c ! i));
        let wasValid = ss_valid slot;
        let (accepted, _, slot') = applyStateFrame seq payload slot False;
        modify (\<lambda>c. c \<lparr> cl_shadows := (cl_shadows c)[i := (cl_shadows c ! i) \<lparr> sw_slot := slot' \<rparr>] \<rparr>);
        if \<not> accepted then skip
        else do {
          tell (cx_onState E channel seq payload);
          st \<leftarrow> gets cl_state;
          whenever (st = C_SYNCING \<and> \<not> wasValid) (do {
            modify (\<lambda>c. c \<lparr> cl_adoptedCount := cl_adoptedCount c + 1 \<rparr>);
            checkLiveTransition E });
          observeEstop channel payload } }) (\<lambda>_. core_ok E rep Good J False)"
    unfolding Let_def
  proof (rule clt.traces_step [OF calm_plain], simp add: core_def,
      rule traces_gets [where g = "\<lambda>s k. s = sw_slot (k_shadows k ! i)"], simp, rule traces_prod, rule traces_prod)
    fix slot acc x y slot'
    assume a: "applyStateFrame seq payload slot False = (acc, y)" "y = (x, slot')"
    let ?P' = "\<lambda>k. ?P k \<and> slot = sw_slot (k_shadows k ! i)"
    let ?w = "modify (\<lambda>c :: ('a, 'b, 'c) Client. c \<lparr> cl_shadows := (cl_shadows c)[i := (cl_shadows c ! i) \<lparr> sw_slot := slot' \<rparr>] \<rparr>)"
    have f: "(acc \<longrightarrow> ss_valid slot') \<and> (\<not> acc \<longrightarrow> slot' = slot)" using applyStateFrame_accepted a by fastforce
    have w: "traces core client_moves ?P' ?w (\<lambda>_ k. core_ok E rep Good J False (owed (acc \<and> \<not> ss_valid slot) k))"
    proof (rule traces_modify)
      fix c :: "('a, 'b, 'c) Client" assume p: "?P' (core c)"
      then have i: "i < 16" "sw_used (cl_shadows c ! i)" and s: "slot = sw_slot (cl_shadows c ! i)"
        using e by (simp_all add: located_def)
      let ?c = "c \<lparr> cl_shadows := (cl_shadows c)[i := (cl_shadows c ! i) \<lparr> sw_slot := slot' \<rparr>] \<rparr>"
      have "core_ok E rep Good J False (owed (acc \<and> \<not> ss_valid slot) (core ?c))"
      proof (cases acc)
        case True then show ?thesis using write_shadow [of E rep Good J c i slot'] p i f s by simp
      next
        case False then show ?thesis using p f s by (simp add: owed_def)
      qed
      then show "core_ok E rep Good J False (owed (acc \<and> \<not> ss_valid slot) (core ?c)) \<and> client_moves c ?c"
        by (simp add: client_moves_def)
    qed
    show "traces core client_moves ?P' (do {
        ?w;
        if \<not> acc then skip
        else do {
          tell (cx_onState E channel seq payload);
          st \<leftarrow> gets cl_state;
          whenever (st = C_SYNCING \<and> \<not> ss_valid slot) (do {
            modify (\<lambda>c. c \<lparr> cl_adoptedCount := cl_adoptedCount c + 1 \<rparr>);
            checkLiveTransition E });
          observeEstop channel payload } }) (\<lambda>_. core_ok E rep Good J False)"
    proof (rule clt.traces_bind [OF w], rule traces_if)
      assume "\<not> acc"
      then show "traces core client_moves (\<lambda>k. core_ok E rep Good J False (owed (acc \<and> \<not> ss_valid slot) k)) skip (\<lambda>_. core_ok E rep Good J False)"
        by (intro clt.traces_return) (simp add: owed_def)
    next
      assume "\<not> \<not> acc"
      then have "(acc \<and> \<not> ss_valid slot) = (\<not> ss_valid slot)" by simp
      then show "traces core client_moves (\<lambda>k. core_ok E rep Good J False (owed (acc \<and> \<not> ss_valid slot) k)) (do {
          tell (cx_onState E channel seq payload);
          st \<leftarrow> gets cl_state;
          whenever (st = C_SYNCING \<and> \<not> ss_valid slot) (do {
            modify (\<lambda>c. c \<lparr> cl_adoptedCount := cl_adoptedCount c + 1 \<rparr>);
            checkLiveTransition E });
          observeEstop channel payload }) (\<lambda>_. core_ok E rep Good J False)"
        using keeps_count by simp
    qed
  qed
qed (rule clt.traces_return, simp)

section \<open>ECHO, NACK, GRANT, EVENT, pairing\<close>

lemma length_remove1_le: "length xs \<le> n \<Longrightarrow> length (remove1 x xs) \<le> n"
  by (auto simp: length_remove1)

lemma mset_settle: "J \<subseteq># M + R \<Longrightarrow> J \<subseteq># add_mset x (M - {#x#} + R)"
proof -
  assume "J \<subseteq># M + R"
  moreover have "M \<subseteq># add_mset x (M - {#x#})"
    by (cases "x \<in># M") (simp_all add: diff_single_trivial)
  then have "M + R \<subseteq># add_mset x (M - {#x#} + R)"
    by (metis subset_mset.add_right_mono add_mset_add_single union_mset_add_mset_left)
  ultimately show ?thesis by (rule subset_mset.order_trans)
qed

lemma keeps_settle:
  fixes E :: "('a, 'b, 'c) ClientEnv" and f :: "('a, 'b, 'c) Client \<Rightarrow> ('a, 'b, 'c) Client"
  assumes "\<And>d. reports E rep \<Longrightarrow> rep (g d) = add_mset i (rep d)"
    and "\<And>c. core (f c) = (core c) \<lparr> k_pending := remove1 i (cl_pending c) \<rparr>"
  shows "keeps E rep Good J False (do { modify f; tell g })"
proof (rule traces_run)
  fix c :: "('a, 'b, 'c) Client" assume ok: "core_ok E rep Good J False (core c)"
  have "core (f c \<lparr> cl_app := g (cl_app (f c)) \<rparr>) = (core (f c)) \<lparr> k_app := g (k_app (core (f c))) \<rparr>" by (simp add: core_def)
  moreover have "cl_hubAuth (f c) = cl_hubAuth c" "cl_clientNonce (f c) = cl_clientNonce c" using assms(2) [of c] by (simp_all add: core_def)
  ultimately show "client_moves c (snd (run_state (do { modify f; tell g }) c)) \<and>
      core_ok E rep Good J False (core (snd (run_state (do { modify f; tell g }) c)))"
    using ok assms(1)
    by (simp add: tell_def assms(2) core_ok_def client_moves_def length_remove1_le mset_settle)
qed

lemma keeps_handleEcho [keep_rules]: "keeps E rep Good J False (handleEcho E payload)"
  unfolding handleEcho_def
  by (intro traces_sum keeps_return keeps_bind [OF keeps_gets] traces_if keeps_settle)
    (simp_all add: core_def reportsD)

lemma keeps_nack_tell:
  "keeps E rep Good J False (do {
     (case nk_intent_id m of
        None \<Rightarrow> skip
      | Some i \<Rightarrow> modify (\<lambda>c. c \<lparr> cl_pending := remove1 i (cl_pending c) \<rparr>));
     tell (cx_onNack E m) })"
proof (cases "nk_intent_id m")
  case None
  then show ?thesis by (simp add: keeps_bind keeps_return) (rule keeps_tell, simp add: reportsD)
next
  case (Some i)
  then show ?thesis by simp (rule keeps_settle, simp_all add: core_def reportsD)
qed

lemma keeps_handleNack [keep_rules]: "keeps E rep Good J False (handleNack E payload)"
  unfolding handleNack_def
  by (intro traces_sum keeps_return keeps_bind [OF keeps_gets] keeps_bind [OF keeps_when] keeps_nack_tell keeps_close) simp

lemma keeps_handleGrant [keep_rules]: "keeps E rep Good J False (handleGrant E payload)"
  unfolding handleGrant_def
  by (intro keep_rules reportsD; (rule keeps_calm, rule calm_plain; simp add: core_def)?) (intro keeps_calm calm_rules)

lemma keeps_handleEvent [keep_rules]: "keeps E rep Good J False (handleEvent E channel payload)"
  unfolding handleEvent_def by (intro keep_rules reportsD)

lemma keeps_setHubPublicKey: "Good key \<Longrightarrow> keeps E rep Good J False (setHubPublicKey key)"
  unfolding setHubPublicKey_def by (rule traces_modify) (simp add: core_ok_def client_moves_def)

lemma keeps_handlePairGrant: "offers Good FT_PAIR_GRANT payload \<Longrightarrow> keeps E rep Good J False (handlePairGrant E payload)"
  unfolding handlePairGrant_def
  by (intro traces_sum traces_option keeps_return keeps_bind keeps_setHubPublicKey keeps_tell reportsD) (simp_all add: offers_def)

end
