(* ===== verification/Client_Run.thy ===== *)
theory Client_Run
  imports Client_Invariant
begin

text \<open>
  The calls an application makes on the client, runs of such calls, and the invariant over them. A call is \<open>None\<close> when
  \<^verbatim>\<open>update\<close> does not return because the transport never stops delivering frames.
\<close>

section \<open>Definitions: calls and runs\<close>

datatype client_call =
    AddWish u16 u32 Priority
  | SetEtag bytes
  | SetVersion "bytes option"
  | SetKey bytes
  | RequestSig bool
  | SetMode u8
  | Connect
  | Disconnect
  | Update u32
  | Intent u16 "IntentValueField list" "u16 option" bool
  | InitiateEstop u8
  | PairReq bytes
  | PairKnock
  | Probe
  | Tick u32

definition quietly :: "'s \<Rightarrow> ('s, 'a) state \<Rightarrow> (u16 option \<times> 's) option" where
  "quietly c m = Some (None, snd (run_state m c))"

fun client_exec ::
  "('t, 'd, 'r) ClientEnv \<Rightarrow> client_call \<Rightarrow> ('t, 'd, 'r) Client \<Rightarrow> (u16 option \<times> ('t, 'd, 'r) Client) option" where
  "client_exec E (AddWish ch rate prio) c = quietly c (addSubscriptionWish ch rate prio)"
| "client_exec E (SetEtag etag) c = quietly c (setCachedEtag etag)"
| "client_exec E (SetVersion ver) c = quietly c (setClientVersion ver)"
| "client_exec E (SetKey key) c = quietly c (setHubPublicKey key)"
| "client_exec E (RequestSig on) c = quietly c (requestHubSignature on)"
| "client_exec E (SetMode mode) c = quietly c (setTokenPresentationMode mode)"
| "client_exec E Connect c = quietly c (client_connect E)"
| "client_exec E Disconnect c = quietly c (client_disconnect E)"
| "client_exec E (Update nowUs) c = map_option (Pair None) (client_update E nowUs c)"
| "client_exec E (Intent ch values pre takeover) c = Some (run_state (sendIntent E ch values pre takeover) c)"
| "client_exec E (InitiateEstop cause) c = quietly c (initiateEstop E cause)"
| "client_exec E (PairReq pin) c = quietly c (sendPairReq E pin)"
| "client_exec E PairKnock c = quietly c (sendPairKnock E)"
| "client_exec E Probe c = quietly c (runProbe E)"
| "client_exec E (Tick us) c = Some (None, client_tick us c)"

text \<open>A run from \<open>c\<close>: the calls, the ids that \<^verbatim>\<open>sendIntent\<close> returned, and the final state.\<close>

inductive client_run ::
  "('t, 'd, 'r) ClientEnv \<Rightarrow> ('t, 'd, 'r) Client \<Rightarrow> client_call list \<Rightarrow> u16 list \<Rightarrow> ('t, 'd, 'r) Client \<Rightarrow> bool"
  for E :: "('t, 'd, 'r) ClientEnv" and c :: "('t, 'd, 'r) Client" where
  Stop: "client_run E c [] [] c"
| Call: "client_run E c calls ids c' \<Longrightarrow> client_exec E call c' = Some (r, c'') \<Longrightarrow>
    client_run E c (calls @ [call]) (ids @ (case r of None \<Rightarrow> [] | Some i \<Rightarrow> [i])) c''"

section \<open>Intents\<close>

definition issued :: "u16 option \<Rightarrow> u16 multiset" where
  "issued r = (case r of None \<Rightarrow> {#} | Some i \<Rightarrow> {#i#})"

lemma sendIntent_keeps:
  fixes E :: "('t, 'd, 'r) ClientEnv"
  shows "traces core client_moves (core_ok E rep Good J False) (sendIntent E ch values pre takeover)
    (\<lambda>r. core_ok E rep Good (J + issued r) False)"
  unfolding sendIntent_def Let_def
proof (rule traces_gets [where g = "\<lambda>c k. k = core c"], simp, intro traces_if)
  fix c :: "('t, 'd, 'r) Client"
  let ?P = "\<lambda>k. core_ok E rep Good J False k \<and> k = core c" and ?Q = "\<lambda>r. core_ok E rep Good (J + issued r) False"
  let ?next = "if cl_nextIntentId c + 1 = 0 then 1 else cl_nextIntentId c + 1"
  assume n: "\<not> 8 \<le> length (cl_pending c)"
  let ?m = "modify (\<lambda>c' :: ('t, 'd, 'r) Client. c' \<lparr> cl_pending := cl_pending c' @ [cl_nextIntentId c], cl_nextIntentId := ?next \<rparr>)"
  have "traces core client_moves ?P ?m (\<lambda>_. ?Q (Some (cl_nextIntentId c)))"
    using n by (intro traces_modify) (auto simp: core_def core_ok_def client_moves_def issued_def)
  then show "traces core client_moves ?P (do {
        ok \<leftarrow> client_sendFrame E FT_INTENT ch (encodeIntent \<lparr> im_channel_id = ch, im_intent_id = cl_nextIntentId c, im_value = values,
                im_precondition = pre, im_takeover = Some takeover \<rparr> 300);
        if \<not> ok then return None
        else do {
          ?m;
          return (Some (cl_nextIntentId c)) } }) ?Q"
    by (intro clt.traces_step [OF calm_client_sendFrame] traces_if)
      (rule clt.traces_return, simp add: issued_def, erule clt.traces_bind, rule clt.traces_return, simp)
qed (rule clt.traces_return, simp add: issued_def)+

section \<open>Frames and timers\<close>

lemma keeps_client_dispatch:
  "offers Good (hdr_type hdr) payload \<Longrightarrow> keeps E rep Good J False (client_dispatch E hdr payload now)"
  unfolding client_dispatch_def Let_def
  by (intro keep_rules keeps_handlePairGrant keeps_calm [OF calm_client_handlePing] keeps_calm [OF calm_handleProbeFrame]) simp_all

lemma keeps_client_handleFrame:
  "(\<And>hdr. fb_header fb = Some hdr \<Longrightarrow> offers Good (hdr_type hdr) (fb_payload fb)) \<Longrightarrow> keeps E rep Good J False (client_handleFrame E fb now)"
  unfolding client_handleFrame_def Let_def
  by (intro traces_if traces_sum traces_option keeps_return keeps_bind keeps_client_dispatch keeps_calm [OF calm_plain])
    (simp_all add: core_def)

lemma keeps_client_pumps: "keeps E rep Good J False (client_pumps E now)"
  unfolding client_pumps_def
  by (intro keeps_bind keeps_pumpHubSigTimeout; rule keeps_calm; rule calm_rules)

definition kept ::
  "('t, 'd, 'r) ClientEnv \<Rightarrow> ('d \<Rightarrow> u16 multiset) \<Rightarrow> (bytes \<Rightarrow> bool) \<Rightarrow> u16 multiset \<Rightarrow> ('t, 'd, 'r) Client \<Rightarrow> ('t, 'd, 'r) Client \<Rightarrow> bool" where
  "kept E rep Good J c c' \<longleftrightarrow> core_ok E rep Good J False (core c) \<longrightarrow> core_ok E rep Good J False (core c') \<and> client_moves c c'"

lemma kept_trans: "kept E rep Good J a b \<Longrightarrow> kept E rep Good J b c \<Longrightarrow> kept E rep Good J a c"
  using clt.trans by (auto simp: kept_def)

lemma kept_calm: "core c' = core c \<Longrightarrow> kept E rep Good J c c'"
  by (simp add: kept_def) (simp add: core_def client_moves_def)

lemma kept_run: "keeps E rep Good J False m \<Longrightarrow> kept E rep Good J c (snd (run_state m c))"
  unfolding kept_def traces_def by blast

lemma kept_readFrames:
  fixes E :: "('t, 'd, 'r) ClientEnv"
  assumes "readFrames E now c = Some c'" and "link_offers E Good"
  shows "kept E rep Good J c c'"
proof (rule readFrames.raw_induct [where P = "\<lambda>E now c c'. link_offers E Good \<longrightarrow> kept E rep Good J c c'", OF _ assms(1), rule_format, OF _ assms(2)])
  fix rec and E :: "('t, 'd, 'r) ClientEnv" and now c c'
  assume IH: "\<And>E now c c'. rec E now c = Some c' \<Longrightarrow> link_offers E Good \<Longrightarrow> kept E rep Good J c c'"
    and run: "(case cx_read E (cl_wire c) of
        (None, w) \<Rightarrow> Some (c \<lparr> cl_wire := w \<rparr>)
      | (Some fb, w) \<Rightarrow> rec E now (snd (run_state (client_handleFrame E fb now) (c \<lparr> cl_wire := w \<rparr>)))) = Some c'"
    and good: "link_offers E Good"
  obtain f w where rd: "cx_read E (cl_wire c) = (f, w)" by fastforce
  have w: "kept E rep Good J c (c \<lparr> cl_wire := w \<rparr>)" by (rule kept_calm) (simp_all add: core_def)
  show "kept E rep Good J c c'"
  proof (cases f)
    case None then show ?thesis using run rd w by simp
  next
    case (Some fb)
    then have "kept E rep Good J (snd (run_state (client_handleFrame E fb now) (c \<lparr> cl_wire := w \<rparr>))) c'"
      using run rd IH good by simp
    moreover have "offers Good (hdr_type hdr) (fb_payload fb)" if "fb_header fb = Some hdr" for hdr
      using good rd that unfolding Some link_offers_def by blast
    ultimately show ?thesis using kept_trans [OF kept_trans [OF w kept_run [OF keeps_client_handleFrame]]] by blast
  qed
qed

lemma kept_client_update:
  assumes "client_update E nowUs c = Some c'" and "link_offers E Good"
  shows "kept E rep Good J c c'"
proof -
  obtain now mst where adv: "advance nowUs (cl_monoMs c) = (now, mst)" by fastforce
  then obtain d where d: "readFrames E now (c \<lparr> cl_monoMs := mst \<rparr>) = Some d" "c' = snd (run_state (client_pumps E now) d)"
    using assms(1) by (auto simp: client_update_def split: option.splits)
  have "kept E rep Good J c (c \<lparr> cl_monoMs := mst \<rparr>)" by (rule kept_calm) (simp_all add: core_def)
  then show ?thesis
    unfolding d(2) by (rule kept_trans [OF kept_trans [OF _ kept_readFrames [OF d(1) assms(2)]] kept_run [OF keeps_client_pumps]])
qed

section \<open>Connecting and disconnecting\<close>

lemma keeps_client_disconnect: "keeps E rep Good J False (client_disconnect E)"
  unfolding client_disconnect_def Let_def
  by (intro keeps_bind keeps_gets keeps_when keeps_flushPending keeps_close keeps_calm [OF calm_post] keeps_calm [OF calm_plain])
    (simp_all add: core_def)

lemma traces_any_moves: "traces core client_moves P m Q \<Longrightarrow> traces core any_moves P m Q"
  by (auto simp: traces_def any_moves_def)

lemma resetSession_keeps:
  "traces core any_moves (core_ok E rep Good J False) (modify resetSession) (\<lambda>_ k. core_ok E rep Good J False k \<and> k_auth k = NotRequested)"
  by (simp add: traces_def any_moves_def core_ok_def resetSession_def)

lemma drawClientNonce_keeps:
  "traces core any_moves (\<lambda>k. core_ok E rep Good J False k \<and> k_auth k = NotRequested) (drawClientNonce E')
    (\<lambda>_ k. core_ok E rep Good J False k \<and> k_auth k = NotRequested)"
  by (simp add: traces_def drawClientNonce_def split_beta Let_def core_ok_def any_moves_def)

lemma connect_keeps: "traces core any_moves (core_ok E rep Good J False) (client_connect E) (\<lambda>_. core_ok E rep Good J False)"
proof -
  let ?N = "\<lambda>k. core_ok E rep Good J False k \<and> k_auth k = NotRequested"
  have sig: "traces core any_moves ?N (whenever b (do {
        drawClientNonce E;
        key \<leftarrow> gets cl_hubPubkey;
        setHubAuth E (if key \<noteq> [] then SigPending else Unverifiable) })) (\<lambda>_. core_ok E rep Good J False)" for b
    by (rule anm.traces_when, rule anm.traces_bind [OF drawClientNonce_keeps], rule anm.traces_step [OF anm.calm_gets],
        rule traces_any_moves [OF keeps_setHubAuth]) auto
  have send: "keeps E rep Good J False (do {
      h \<leftarrow> gets helloOf;
      let buf = encodeHello h 700;
      if buf = [] then return False
      else do {
        ok \<leftarrow> client_sendFrame E FT_HELLO 0 buf;
        if \<not> ok then return False
        else do {
          auth \<leftarrow> gets cl_hubAuth;
          whenever (auth = SigPending) (modify (\<lambda>c. c \<lparr> cl_sigDeadlineMs := client_nowMs c + hub_sig_timeout_ms \<rparr>));
          setState E C_HELLO_SENT;
          return True } } })"
    unfolding Let_def
    by (intro keeps_bind keeps_gets traces_if keeps_return keeps_when keeps_close keeps_calm [OF calm_client_sendFrame] keeps_calm [OF calm_plain])
      (simp_all add: core_def)
  have opened: "keeps E rep Good J False (act (\<lambda>c. let (ok, w) = cx_open E (cl_wire c) in (ok, c \<lparr> cl_wire := w \<rparr>)))"
    by (intro keeps_calm calm_act) (simp_all add: split_beta core_def client_moves_def)
  show ?thesis
    unfolding client_connect_def
    by (rule anm.traces_bind [OF traces_any_moves [OF keeps_flushPending]], rule anm.traces_bind [OF traces_any_moves [OF opened]], rule traces_if,
      rule anm.traces_return, assumption, rule anm.traces_bind [OF resetSession_keeps], rule anm.traces_step [OF anm.calm_gets],
      rule anm.traces_bind [OF sig], rule traces_any_moves [OF send])
qed

text \<open>A connection attempt that succeeds ends in HELLO_SENT, and with a fresh nonce if a signature was asked for.\<close>

lemma sendFrame_same:
  "cl_clientNonce (snd (run_state (client_sendFrame E type channel payload) c)) = cl_clientNonce c"
  "cl_state (snd (run_state (client_sendFrame E type channel payload) c)) = cl_state c"
  using calmD(1) [OF calm_client_sendFrame [of "\<lambda>_. True" E type channel payload], of c] by (simp_all add: core_def)

lemma connect_opens:
  assumes "run_state (client_connect E) c = (True, c')"
  shows "cl_state c' = C_HELLO_SENT"
    "cl_sigRequested c \<Longrightarrow> cl_clientNonce c' = fst (cx_fill E kTrustClientNonceBytes (cl_rng c))"
  using assms
  by (auto simp: client_connect_def run_flushPending whenever_def setHubAuth_def tell_def setState_def drawClientNonce_def resetSession_def
      sendFrame_same Let_def split_beta split: if_splits)

section \<open>Runs\<close>

lemma kept_settings:
  "kept E rep Good J c (snd (run_state (addSubscriptionWish ch rate prio) c))" "kept E rep Good J c (snd (run_state (setClientVersion ver) c))"
  "kept E rep Good J c (snd (run_state (requestHubSignature on) c))"
  "kept E rep Good J c (snd (run_state (setTokenPresentationMode mode) c))" "kept E rep Good J c (snd (run_state (setCachedEtag e) c))" "kept E rep Good J c (client_tick us c)"
  by (rule kept_calm; simp add: core_def addSubscriptionWish_def setClientVersion_def requestHubSignature_def
      setTokenPresentationMode_def setCachedEtag_def client_tick_def)+

lemma exec_kept:
  assumes "client_exec E call c = Some (r, c')" and "call \<noteq> Connect" and "link_offers E Good"
    and "\<And>key. call = SetKey key \<Longrightarrow> Good key"
  shows "kept E rep Good J c c' \<or> (\<exists>ch v p t. call = Intent ch v p t)"
  using assms
  by (cases call) (auto simp: quietly_def kept_settings intro: kept_client_update kept_run keeps_client_disconnect keeps_setHubPublicKey
      keeps_calm [OF calm_initiateEstop] keeps_calm [OF calm_sendPairReq] keeps_calm [OF calm_sendPairKnock] keeps_calm [OF calm_runProbe])

text \<open>One call: the invariant with the account extended, and the moves.\<close>

lemma exec_ok:
  fixes E :: "('t, 'd, 'r) ClientEnv"
  assumes ex: "client_exec E call c = Some (r, c')" and ok: "core_ok E rep Good J False (core c)"
    and link: "link_offers E Good" and key: "\<And>key. call = SetKey key \<Longrightarrow> Good key"
  shows "core_ok E rep Good (J + issued r) False (core c') \<and> (call \<noteq> Connect \<longrightarrow> client_moves c c')"
proof (cases "\<exists>ch v p t. call = Intent ch v p t")
  case True
  then obtain ch v p t where call: "call = Intent ch v p t" by blast
  then show ?thesis
    using ex tracesD [OF sendIntent_keeps [of E rep Good J ch v p t] ok] by simp
next
  case False
  then have r: "r = None" using ex by (cases call) (auto simp: quietly_def)
  show ?thesis
  proof (cases "call = Connect")
    case True then show ?thesis using ex tracesD [OF connect_keeps ok] r by (simp add: quietly_def issued_def)
  next
    case no: False
    then have "kept E rep Good J c c'" using exec_kept [OF ex _ link] key False by blast
    then show ?thesis using ok r by (simp add: kept_def issued_def)
  qed
qed

lemma start_ok: "core_ok E rep Good {#} False (core (Client_new i t us g d))"
  by (simp add: core_ok_def Client_new_def etag_bytes_def)

lemma mset_issued: "mset (ids @ (case r of None \<Rightarrow> [] | Some i \<Rightarrow> [i])) = mset ids + issued r"
  by (simp add: issued_def split: option.splits)

lemma run_ok:
  assumes "client_run E c calls ids c'" and "core_ok E rep Good J False (core c)"
    and "link_offers E Good" and "\<And>key. SetKey key \<in> set calls \<Longrightarrow> Good key"
  shows "core_ok E rep Good (J + mset ids) False (core c')"
  using assms(1,2,4)
proof (induction rule: client_run.induct)
  case Stop then show ?case by simp
next
  case (Call calls ids c' call r c'')
  then have "core_ok E rep Good (J + mset ids) False (core c')" and "\<And>key. call = SetKey key \<Longrightarrow> Good key" by simp_all
  from exec_ok [OF Call.hyps(2) this(1) assms(3) this(2)] show ?case by (simp only: mset_issued add.assoc simp_thms)
qed

text \<open>Without a restriction on the keys.\<close>

lemma link_offers_any [simp]: "link_offers E (\<lambda>_. True)"
  by (simp add: link_offers_def offers_def split: sum.splits option.splits)

lemma run_ok_any: "client_run E c calls ids c' \<Longrightarrow> core_ok E rep (\<lambda>_. True) J False (core c) \<Longrightarrow> core_ok E rep (\<lambda>_. True) (J + mset ids) False (core c')"
  by (rule run_ok) simp_all

text \<open>The runs of one connection.\<close>

lemma run_moves:
  assumes "client_run E c calls ids c'" and "core_ok E rep (\<lambda>_. True) J False (core c)" and "Connect \<notin> set calls"
  shows "client_moves c c'"
  using assms(1,3)
proof (induction rule: client_run.induct)
  case (Call calls ids c' call r c'')
  have "core_ok E rep (\<lambda>_. True) (J + mset ids) False (core c')" by (rule run_ok_any [OF Call.hyps(1) assms(2)])
  then have "client_moves c' c''" using exec_ok [OF Call.hyps(2)] Call.prems by fastforce
  then show ?case using Call by (auto intro: clt.trans)
qed (simp add: client_moves_def)

end
