(* ===== verification/Client_Bench.thy ===== *)
theory Client_Bench
  imports Client_Run
begin

text \<open>
  A client on the bench: a link that delivers a list of frames and swallows what is written to it, a delegate that writes down the
  intents it is told about, and a verifier that accepts the signature \<open>[1]\<close>. The client asks for a signature, connects and gets
  a WELCOME that carries one; the witnesses of the client's properties are states of this run.
\<close>

section \<open>Definitions: the bench\<close>

definition cbench_env :: "(FrameBuffer list, u16 list, u32) ClientEnv" where
  "cbench_env = \<lparr> cx_open = Pair True, cx_close = id, cx_write = (\<lambda>bs. Pair True),
     cx_read = (\<lambda>w. case w of [] \<Rightarrow> (None, []) | fb # w \<Rightarrow> (Some fb, w)), cx_fill = (\<lambda>n r. (replicate n 5, r + 1)),
     cx_crypto = SoftwareCrypto, cx_verifyP256 = (\<lambda>key material sig. sig = [1]), cx_onStateChange = (\<lambda>s. id),
     cx_onState = (\<lambda>ch s p. id), cx_onEcho = (\<lambda>i a g. (#) i),
     cx_onNack = (\<lambda>m d. case nk_intent_id m of None \<Rightarrow> d | Some i \<Rightarrow> i # d), cx_onEvent = (\<lambda>ch p. id), cx_onPendingDropped = (#),
     cx_onPairGrant = (\<lambda>t r. id), cx_onHubAuth = (\<lambda>s. id), cx_onHubPublicKey = (\<lambda>p. id), cx_onRolesChanged = (\<lambda>r. id) \<rparr>"

definition cbench_welcome :: "byte \<Rightarrow> WelcomeMsg" where
  "cbench_welcome s = WelcomeMsg_new \<lparr> wm_session_id := 9, wm_boot_id := 4,
     wm_trust := Some (TrustMap_new \<lparr> tm_welcome_sig := Some [s] \<rparr>) \<rparr>"

definition cbench_welcome_frame :: "byte \<Rightarrow> FrameBuffer" where
  "cbench_welcome_frame s = bench_frame FT_WELCOME (encodeWelcome (cbench_welcome s) 400)"

type_synonym cbench = "(FrameBuffer list, u16 list, u32) Client"

definition cbench_start :: "byte \<Rightarrow> cbench" where
  "cbench_start s = Client_new \<lparr> ci_instance_id = replicate 8 1, ci_token = None, ci_client_kind = [99], ci_client_name = [99] \<rparr>
     [cbench_welcome_frame s] 0 0 []"

definition cbench_hello :: "byte \<Rightarrow> cbench" where
  "cbench_hello s = (cbench_start s) \<lparr> cl_hubPubkey := [7], cl_sigRequested := True, cl_clientNonce := replicate 8 5, cl_rng := 1,
     cl_hubAuth := SigPending, cl_sigDeadlineMs := 3000, cl_state := C_HELLO_SENT \<rparr>"

definition cbench_live :: "byte \<Rightarrow> cbench" where
  "cbench_live s = (cbench_hello s) \<lparr> cl_wire := [], cl_monoMs := snd (advance 1000 MonotonicMs_new), cl_lastRxMs := 1, cl_sessionId := 9, cl_bootId := 4,
     cl_hubAuth := (if s = 1 then Verified else SigMismatch), cl_state := C_LIVE \<rparr>"

section \<open>Running the client\<close>

lemma run_client_sendFrame:
  assumes "length payload \<le> 504"
  shows "run_state (client_sendFrame E type channel payload) c =
    (let (ok, w) = cx_write E (header_bytes \<lparr> hdr_type = type, hdr_flags = 0, hdr_channel = channel, hdr_seq = 0,
           hdr_len = of_nat (length payload) \<rparr> @ payload) (cl_wire c)
     in (ok, if ok then c \<lparr> cl_wire := w, cl_lastTxMs := client_nowMs c \<rparr> else c \<lparr> cl_wire := w \<rparr>))"
proof -
  let ?h = "header_bytes \<lparr> hdr_type = type, hdr_flags = 0, hdr_channel = channel, hdr_seq = 0, hdr_len = of_nat (length payload) \<rparr>"
  have "poke 8 payload (poke 0 ?h (replicate 512 0)) = poke 0 (?h @ payload) (replicate 512 0)"
    by (rule poke_poke_next) simp_all
  then have "take (8 + length payload) (poke 8 payload (poke 0 ?h (replicate 512 0))) = ?h @ payload"
    by (simp add: poke_prefix)
  then show ?thesis using assms
    by (simp add: client_sendFrame_def encodeFrameHeader_fits kFrameBufferCapacity_def client_write_def whenever_def split_beta
        Let_def client_nowMs_def)
qed

lemma run_setState: "run_state (setState E s) c = ((), c \<lparr> cl_state := s, cl_app := cx_onStateChange E s (cl_app c) \<rparr>)"
  by (simp add: setState_def tell_def)

lemma run_setHubAuth:
  "run_state (setHubAuth E s) c =
    ((), if cl_hubAuth c = s then c else c \<lparr> cl_hubAuth := s, cl_app := cx_onHubAuth E s (cl_app c) \<rparr>)"
  by (simp add: setHubAuth_def tell_def)

lemma run_checkLive:
  "run_state (checkLiveTransition E) c =
    (if cl_state c = C_SYNCING \<and> cl_catalogReady c \<and> cl_adoptedCount c \<ge> cl_requiredRetained c then run_state (setState E C_LIVE) c else ((), c))"
  by (simp add: checkLiveTransition_def whenever_def)

lemma run_whenever: "run_state (whenever b m) c = (if b then run_state m c else ((), c))"
  by (simp add: whenever_def)

lemmas client_now = run_bind_now run_whenever run_setState run_setHubAuth run_checkLive run_flushPending
  lazily [OF client_connect_def] lazily [OF client_disconnect_def] lazily [OF drawClientNonce_def] lazily [OF handleWelcome_def]
  lazily [OF fetchCatalog_def] lazily [OF adoptHubSignature_def] lazily [OF client_pumps_def] lazily [OF pumpPing_def]
  lazily [OF pumpEstopRepeat_def] lazily [OF pumpCatalogReady_def] lazily [OF pumpProbe_def] lazily [OF pumpHubSigTimeout_def]
  lazily [OF sendIntent_def] lazily [OF client_handleFrame_def] lazily [OF client_dispatch_def]

section \<open>The run\<close>

lemma cbench_env_simps [simp]:
  "cx_open cbench_env = Pair True" "cx_close cbench_env = id" "cx_write cbench_env = (\<lambda>bs. Pair True)"
  "cx_read cbench_env = (\<lambda>w. case w of [] \<Rightarrow> (None, []) | fb # w \<Rightarrow> (Some fb, w))" "cx_fill cbench_env = (\<lambda>n r. (replicate n 5, r + 1))"
  "cx_verifyP256 cbench_env = (\<lambda>key material sig. sig = [1])" "cx_onStateChange cbench_env = (\<lambda>s. id)"
  "cx_onHubAuth cbench_env = (\<lambda>s. id)" "cx_onPendingDropped cbench_env = (#)"
  by (simp_all add: cbench_env_def)

lemma cbench_reports: "reports cbench_env mset"
  by (simp add: reports_def cbench_env_def split: option.splits)

lemma cbench_hello_fits:
  assumes "h = HelloMsg_new \<lparr> hl_client_kind := [99], hl_client_name := [99], hl_instance_id := replicate 8 1,
    hl_trust := Some (TrustMap_new \<lparr> tm_client_nonce := Some (replicate 8 5), tm_sig_request := Some True \<rparr>) \<rparr>"
  shows "length (encodeHello h 700) \<in> {1..504}"
proof -
  have ok: "hello_ok h" by (simp add: assms hello_ok_def HelloMsg_new_def trust_ok_def TrustMap_new_def tm_any_def)
  have "length (enc (CMap (hello_kvs h))) \<in> {1..504}" unfolding assms by code_simp
  then show ?thesis using hello_codec.encode_image [OF ok, of 700] by (simp del: enc.simps)
qed

lemma cbench_welcome_payload:
  assumes "s = 1 \<or> s = 2"
  shows "decodeWelcome (encodeWelcome (cbench_welcome s) 400) = Inr (cbench_welcome s) \<and> length (encodeWelcome (cbench_welcome s) 400) \<in> {5..400}"
proof -
  have ok: "welcome_ok (cbench_welcome s)"
    by (simp add: welcome_ok_def cbench_welcome_def WelcomeMsg_new_def etag_bytes_def tm_any_def TrustMap_new_def trust_ok_def)
  have "length (enc (CMap (welcome_kvs (cbench_welcome 1)))) \<in> {5..400}" by code_simp
  moreover have "length (enc (CMap (welcome_kvs (cbench_welcome 2)))) \<in> {5..400}" by code_simp
  ultimately have "length (enc (CMap (welcome_kvs (cbench_welcome s)))) \<in> {5..400}" using assms by auto
  then show ?thesis using welcome_codec.roundtrip [OF ok, of 400 "[]"] welcome_codec.encode_image [OF ok, of 400] by (simp del: enc.simps)
qed

lemma run_cbench_send: "length payload \<le> 504 \<Longrightarrow>
    run_state (client_sendFrame cbench_env type channel payload) c = (True, c \<lparr> cl_lastTxMs := client_nowMs c \<rparr>)"
  by (simp add: run_client_sendFrame Let_def)

lemma cbench_connect:
  "run_state (client_connect cbench_env) ((cbench_start s) \<lparr> cl_hubPubkey := [7], cl_sigRequested := True \<rparr>) = (True, cbench_hello s)"
proof -
  let ?h = "HelloMsg_new \<lparr> hl_client_kind := [99], hl_client_name := [99], hl_instance_id := replicate 8 1,
    hl_trust := Some (TrustMap_new \<lparr> tm_client_nonce := Some (replicate 8 5), tm_sig_request := Some True \<rparr>) \<rparr>"
  have fits: "encodeHello ?h 700 \<noteq> []" "length (encodeHello ?h 700) \<le> 504" using cbench_hello_fits [OF refl] by force+
  have hello: "helloOf ((cbench_hello s) \<lparr> cl_sigDeadlineMs := 0, cl_state := C_CLOSED \<rparr>) = ?h"
    by (simp add: helloOf_def helloTrust_def cbench_hello_def cbench_start_def Client_new_def isAllZero_def etag_bytes_def HelloMsg_new_def
        TrustMap_new_def list_all_length)
  show ?thesis
    using fits hello
    by (simp add: client_now run_cbench_send cbench_hello_def cbench_start_def Client_new_def resetSession_def client_nowMs_def nowMs_def
        kTrustClientNonceBytes_def del: run_state_bind)
qed

lemma cbench_welcomed:
  assumes "s = 1 \<or> s = 2"
  shows "run_state (client_handleFrame cbench_env (cbench_welcome_frame s) 1) ((cbench_hello s) \<lparr> cl_monoMs := m, cl_wire := [] \<rparr>) =
    ((), (cbench_live s) \<lparr> cl_monoMs := m \<rparr>)"
proof -
  let ?p = "encodeWelcome (cbench_welcome s) 400"
  have p: "decodeWelcome ?p = Inr (cbench_welcome s)" "length ?p \<le> 500" "length ?p \<noteq> 4"
    using cbench_welcome_payload [OF assms] by auto
  note f = bench_frame_parts [OF p(2,3), of FT_WELCOME]
  show ?thesis
    using f(1,2) f(3) [folded fb_header_def] p assms
    by (auto simp: client_now cbench_welcome_frame_def kEstopFrameBytes_def cbench_live_def cbench_hello_def cbench_start_def Client_new_def
        adoptWelcome_def cbench_welcome_def WelcomeMsg_new_def WelcomeLimits_new_def TrustMap_new_def etag_bytes_def
        poke_def simp del: run_state_bind)
qed

lemma cbench_update:
  assumes "s = 1 \<or> s = 2"
  shows "client_update cbench_env 1000 (cbench_hello s) = Some (cbench_live s)"
proof -
  let ?m = "snd (advance 1000 MonotonicMs_new)"
  have adv: "advance 1000 (cl_monoMs (cbench_hello s)) = (1, ?m)"
    by (simp add: advance_def MonotonicMs_new_def cbench_hello_def cbench_start_def Client_new_def)
  have live: "(cbench_live s) \<lparr> cl_monoMs := ?m \<rparr> = cbench_live s" by (simp add: cbench_live_def)
  have wire: "cl_wire (cbench_hello s) = [cbench_welcome_frame s]" "cl_wire (cbench_live s) = []"
    by (simp_all add: cbench_live_def cbench_hello_def cbench_start_def Client_new_def)
  have same: "(cbench_live s) \<lparr> cl_wire := [] \<rparr> = cbench_live s" by (simp add: cbench_live_def)
  have "readFrames cbench_env 1 ((cbench_hello s) \<lparr> cl_monoMs := ?m \<rparr>) = readFrames cbench_env 1 (cbench_live s)"
    using cbench_welcomed [OF assms, of ?m] live wire by (subst readFrames.simps) simp
  also have "\<dots> = Some (cbench_live s)" using wire same by (subst readFrames.simps) simp
  finally have loop: "readFrames cbench_env 1 ((cbench_hello s) \<lparr> cl_monoMs := ?m \<rparr>) = Some (cbench_live s)" .
  have "run_state (client_pumps cbench_env 1) (cbench_live s) = ((), cbench_live s)"
    by (simp add: client_now cbench_live_def cbench_hello_def cbench_start_def Client_new_def timeReached_def timeDelta_def del: run_state_bind)
  then show ?thesis by (simp add: client_update_def adv loop)
qed

lemma client_run_one: "client_exec E call c = Some (r, c') \<Longrightarrow> client_run E c [call] (case r of None \<Rightarrow> [] | Some i \<Rightarrow> [i]) c'"
  using client_run.Call [OF client_run.Stop] by fastforce

lemma cbench_asked:
  "client_run cbench_env (cbench_start s) [SetKey [7], RequestSig True] [] ((cbench_start s) \<lparr> cl_hubPubkey := [7], cl_sigRequested := True \<rparr>)"
proof -
  let ?a = "(cbench_start s) \<lparr> cl_hubPubkey := [7] \<rparr>" and ?b = "(cbench_start s) \<lparr> cl_hubPubkey := [7], cl_sigRequested := True \<rparr>"
  have "client_run cbench_env (cbench_start s) [SetKey [7]] [] ?a"
    using client_run_one [of cbench_env "SetKey [7]" "cbench_start s" None]
    by (simp add: quietly_def setHubPublicKey_def kTrustPubkeyMaxBytes_def)
  then show ?thesis
    using client_run.Call [of cbench_env "cbench_start s" "[SetKey [7]]" "[]" ?a "RequestSig True" None ?b]
    by (simp add: quietly_def requestHubSignature_def)
qed

lemma cbench_run:
  assumes "s = 1 \<or> s = 2"
  shows "client_run cbench_env (cbench_start s) [SetKey [7], RequestSig True, Connect, Update 1000] [] (cbench_live s)"
proof -
  let ?b = "(cbench_start s) \<lparr> cl_hubPubkey := [7], cl_sigRequested := True \<rparr>"
  have "client_run cbench_env (cbench_start s) [SetKey [7], RequestSig True, Connect] [] (cbench_hello s)"
    using client_run.Call [OF cbench_asked [of s], of Connect None "cbench_hello s"]
    by (simp add: quietly_def cbench_connect)
  then show ?thesis
    using client_run.Call [of cbench_env "cbench_start s" "[SetKey [7], RequestSig True, Connect]" "[]" "cbench_hello s" "Update 1000" None "cbench_live s"]
    by (simp add: cbench_update [OF assms])
qed

definition cbench_intent :: IntentMsg where
  "cbench_intent = \<lparr> im_channel_id = ch_move, im_intent_id = 1, im_value = [u64_field 1 1], im_precondition = None, im_takeover = Some False \<rparr>"

definition cbench_sent :: cbench where
  "cbench_sent = (cbench_live 1) \<lparr> cl_pending := [1], cl_nextIntentId := 2 \<rparr>"

lemma cbench_intent_fits: "length (encodeIntent cbench_intent 300) \<in> {1..504}"
proof -
  have ok: "intent_ok cbench_intent" by (simp add: intent_ok_def cbench_intent_def ivs_ok_def u64_field_def)
  have "length (enc (CMap (intent_kvs cbench_intent))) \<in> {1..300}" by code_simp
  then show ?thesis using intent_codec.encode_image [OF ok, of 300] by (simp del: enc.simps)
qed

lemma cbench_send:
  "run_state (sendIntent cbench_env ch_move [u64_field 1 1] None False) (cbench_live 1) = (Some 1, cbench_sent)"
proof -
  have fits: "encodeIntent cbench_intent 300 \<noteq> []" "length (encodeIntent cbench_intent 300) \<le> 504"
    using cbench_intent_fits by force+
  have live: "cl_state (cbench_live 1) = C_LIVE" "cl_hubAuth (cbench_live 1) = Verified" "cl_pending (cbench_live 1) = []"
    "cl_nextIntentId (cbench_live 1) = 1" "client_nowMs (cbench_live 1) = 0"
    by (simp_all add: cbench_live_def cbench_hello_def cbench_start_def Client_new_def client_nowMs_def nowMs_def)
  have same: "(cbench_live 1) \<lparr> cl_lastTxMs := 0 \<rparr> = cbench_live 1"
    by (simp add: cbench_live_def cbench_hello_def cbench_start_def Client_new_def)
  show ?thesis using fits live same
    by (simp add: client_now run_cbench_send cbench_intent_def [symmetric] cbench_sent_def del: run_state_bind)
qed

lemma cbench_run_sent:
  "client_run cbench_env (cbench_start 1) [SetKey [7], RequestSig True, Connect, Update 1000, Intent ch_move [u64_field 1 1] None False] [1] cbench_sent"
  using client_run.Call [OF cbench_run [of 1], of "Intent ch_move [u64_field 1 1] None False" "Some 1" cbench_sent]
  by (simp add: cbench_send)

end
