(* ===== verification/Client_Sync.thy ===== *)
theory Client_Sync
  imports Client_Bench
begin

text \<open>
  What the client went through on the way to LIVE. \<open>client_log\<close> is a run of calls with the frames that its updates handled, each
  with the time and with the state in which it was handled; it is determined by the first state and the calls. \<open>steady\<close> relates the states
  of one session: nothing but a STATE makes a snapshot, nothing but the end of a transfer makes the catalog ready, and nothing but a
  WELCOME opens a session.
\<close>

section \<open>Definitions: runs with their frames\<close>

type_synonym ('t, 'd, 'r) heard = "u32 \<times> ('t, 'd, 'r) Client \<times> FrameBuffer"

inductive client_reads ::
  "('t, 'd, 'r) ClientEnv \<Rightarrow> u32 \<Rightarrow> ('t, 'd, 'r) Client \<Rightarrow> ('t, 'd, 'r) heard list \<Rightarrow> ('t, 'd, 'r) Client \<Rightarrow> bool"
  for E now where
  Dry: "cx_read E (cl_wire c) = (None, w) \<Longrightarrow> client_reads E now c [] (c \<lparr> cl_wire := w \<rparr>)"
| Frame: "cx_read E (cl_wire c) = (Some fb, w) \<Longrightarrow>
    client_reads E now (snd (run_state (client_handleFrame E fb now) (c \<lparr> cl_wire := w \<rparr>))) log c' \<Longrightarrow>
    client_reads E now c ((now, c \<lparr> cl_wire := w \<rparr>, fb) # log) c'"

inductive client_log ::
  "('t, 'd, 'r) ClientEnv \<Rightarrow> ('t, 'd, 'r) Client \<Rightarrow> client_call list \<Rightarrow> ('t, 'd, 'r) heard list \<Rightarrow> ('t, 'd, 'r) Client \<Rightarrow> bool"
  for E :: "('t, 'd, 'r) ClientEnv" and c :: "('t, 'd, 'r) Client" where
  Start: "client_log E c [] [] c"
| Other: "client_log E c calls log c' \<Longrightarrow> (\<And>us. call \<noteq> Update us) \<Longrightarrow> client_exec E call c' = Some (r, c'') \<Longrightarrow>
    client_log E c (calls @ [call]) log c''"
| Heard: "client_log E c calls log c' \<Longrightarrow> advance nowUs (cl_monoMs c') = (now, mst) \<Longrightarrow>
    client_reads E now (c' \<lparr> cl_monoMs := mst \<rparr>) new c'' \<Longrightarrow>
    client_log E c (calls @ [Update nowUs]) (log @ new) (snd (run_state (client_pumps E now) c''))"

text \<open>The frames that matter: a WELCOME that decodes to \<open>w\<close>, a STATE on a channel, and a BLOB_CHUNK that completes the transfer.\<close>

definition welcomes :: "FrameBuffer \<Rightarrow> WelcomeMsg \<Rightarrow> bool" where
  "welcomes fb w \<longleftrightarrow> (\<exists>hdr. fb_header fb = Some hdr \<and> hdr_type hdr = FT_WELCOME \<and> decodeWelcome (fb_payload fb) = Inr w)"

definition states :: "FrameBuffer \<Rightarrow> u16 \<Rightarrow> bool" where
  "states fb ch \<longleftrightarrow> (\<exists>hdr. fb_header fb = Some hdr \<and> hdr_type hdr = FT_STATE \<and> hdr_channel hdr = ch)"

definition completes :: "('t, 'd, 'r) ClientEnv \<Rightarrow> ('t, 'd, 'r) heard \<Rightarrow> bool" where
  "completes E x \<longleftrightarrow> (case x of (now, c, fb) \<Rightarrow> (\<exists>hdr. fb_header fb = Some hdr \<and> hdr_type hdr = FT_BLOB_CHUNK) \<and>
     cr_complete (cl_chunkReassembler (snd (run_state (client_handleFrame E fb now) c))))"

section \<open>Logs and runs\<close>

lemma reads_run: "client_reads E now c log c' \<Longrightarrow> readFrames E now c = Some c'"
  by (induction rule: client_reads.induct) (subst readFrames.simps; simp)+

lemma run_reads:
  fixes E :: "('t, 'd, 'r) ClientEnv"
  assumes "readFrames E now c = Some c'"
  shows "\<exists>log. client_reads E now c log c'"
proof (rule readFrames.raw_induct [where P = "\<lambda>E now c c'. \<exists>log. client_reads E now c log c'", OF _ assms])
  fix rec and E :: "('t, 'd, 'r) ClientEnv" and now c c'
  assume IH: "\<And>E now c c'. rec E now c = Some c' \<Longrightarrow> \<exists>log. client_reads E now c log c'"
    and run: "(case cx_read E (cl_wire c) of
        (None, w) \<Rightarrow> Some (c \<lparr> cl_wire := w \<rparr>)
      | (Some fb, w) \<Rightarrow> rec E now (snd (run_state (client_handleFrame E fb now) (c \<lparr> cl_wire := w \<rparr>)))) = Some c'"
  obtain f w where rd: "cx_read E (cl_wire c) = (f, w)" by fastforce
  show "\<exists>log. client_reads E now c log c'"
  proof (cases f)
    case None
    with run rd show ?thesis by (auto intro: client_reads.Dry)
  next
    case (Some fb)
    with run rd IH obtain log where "client_reads E now (snd (run_state (client_handleFrame E fb now) (c \<lparr> cl_wire := w \<rparr>))) log c'"
      by fastforce
    with client_reads.Frame [of E c fb w] rd Some show ?thesis by blast
  qed
qed

text \<open>Every run has a log, and every log is one of a run.\<close>

lemma run_log: "client_run E c calls ids c' \<Longrightarrow> \<exists>log. client_log E c calls log c'"
proof (induction rule: client_run.induct)
  case (Call calls ids c' call r c'')
  then obtain log where log: "client_log E c calls log c'" by blast
  show ?case
  proof (cases "\<exists>us. call = Update us")
    case False
    then show ?thesis using client_log.Other [OF log _ Call.hyps(2)] by blast
  next
    case True
    then obtain us where us: "call = Update us" by blast
    obtain now mst where a: "advance us (cl_monoMs c') = (now, mst)" by fastforce
    obtain d where d: "readFrames E now (c' \<lparr> cl_monoMs := mst \<rparr>) = Some d" "c'' = snd (run_state (client_pumps E now) d)"
      using Call.hyps(2) us a by (auto simp: client_update_def split: option.splits)
    then show ?thesis using client_log.Heard [OF log a] run_reads [OF d(1)] us by blast
  qed
qed (blast intro: client_log.Start)

lemma log_run: "client_log E c calls log c' \<Longrightarrow> \<exists>ids. client_run E c calls ids c'"
proof (induction rule: client_log.induct)
  case (Other calls log c' call r c'')
  then show ?case using client_run.Call [of E c calls _ c' call r c''] by blast
next
  case (Heard calls log c' nowUs now mst new c'')
  then have "client_exec E (Update nowUs) c' = Some (None, snd (run_state (client_pumps E now) c''))"
    by (simp add: client_update_def reads_run)
  then show ?case using Heard.IH client_run.Call [of E c calls _ c' "Update nowUs" None] by blast
qed (blast intro: client_run.Stop)

section \<open>Definitions: the states of one session\<close>

definition in_session :: "('t, 'd, 'r) Client \<Rightarrow> bool" where
  "in_session c \<longleftrightarrow> cl_state c = C_SYNCING \<or> cl_state c = C_LIVE"

abbreviation adopted :: "('t, 'd, 'r) Client \<Rightarrow> u16 set" where
  "adopted c \<equiv> set (adoptedChannels (cl_shadows c))"

text \<open>A step that may adopt snapshots of the channels \<open>A\<close>, may make the catalog ready, and may open a session.\<close>

definition steady :: "u16 set \<Rightarrow> bool \<Rightarrow> bool \<Rightarrow> ('t, 'd, 'r) Client \<Rightarrow> ('t, 'd, 'r) Client \<Rightarrow> bool" where
  "steady A ready opens c c' \<longleftrightarrow> cl_sessionId c' = cl_sessionId c \<and> cl_hubEtag c' = cl_hubEtag c \<and>
     cl_requiredRetained c' = cl_requiredRetained c \<and> adopted c' \<subseteq> adopted c \<union> A \<and>
     (cl_catalogReady c' \<longrightarrow> cl_catalogReady c \<or> ready) \<and> (in_session c' \<longrightarrow> in_session c \<or> opens)"

interpretation std: step_order "steady A ready opens" for A ready opens
  by unfold_locales (auto simp: steady_def)

abbreviation steadily :: "u16 set \<Rightarrow> bool \<Rightarrow> bool \<Rightarrow> (('t, 'd, 'r) Client, 'a) state \<Rightarrow> bool" where
  "steadily A ready opens m \<equiv> calm (\<lambda>_. ()) (steady A ready opens) (\<lambda>_. True) m"

lemma steadily_run: "steadily A ready opens m \<Longrightarrow> steady A ready opens c (snd (run_state m c))"
  by (simp add: calm_def)

lemma steady_wider: "steady A ready opens c c' \<Longrightarrow> A \<subseteq> B \<Longrightarrow> (ready \<Longrightarrow> ready') \<Longrightarrow> (opens \<Longrightarrow> opens') \<Longrightarrow> steady B ready' opens' c c'"
  by (auto simp: steady_def)

section \<open>Commands\<close>

lemma steady_same:
  assumes "cl_sessionId c' = cl_sessionId c" "cl_hubEtag c' = cl_hubEtag c" "cl_requiredRetained c' = cl_requiredRetained c"
    "cl_shadows c' = cl_shadows c" "cl_catalogReady c' = cl_catalogReady c" "cl_state c' = cl_state c"
  shows "steady A ready opens c c'"
  using assms by (simp add: steady_def in_session_def)

lemma steady_modify: "(\<And>c. steady A ready opens c (f c)) \<Longrightarrow> steadily A ready opens (modify f)"
  by (simp add: calm_def)

lemma steady_tell: "steadily A ready opens (tell f)"
  unfolding tell_def by (intro steady_modify steady_same) simp_all

lemma steady_write: "steadily A ready opens (client_write E bs)"
  unfolding client_write_def by (rule calm_act) (simp_all add: split_beta Let_def steady_def in_session_def)

lemma steady_close: "steadily A ready opens (setState E C_CLOSED)"
  by (simp add: calm_def setState_def tell_def steady_def in_session_def)

lemma steady_live: "steadily A ready opens (checkLiveTransition E)"
  by (simp add: calm_def checkLiveTransition_def whenever_def setState_def tell_def steady_def in_session_def)

lemma steady_flush: "steadily A ready opens (flushPending E)"
  by (simp add: calm_def run_flushPending steady_def in_session_def)

lemmas steady_rules = calm_if calm_option calm_sum calm_prod calm_let std.calm_return std.calm_gets std.calm_bind std.calm_when
  std.calm_for_each steady_tell steady_write steady_close steady_live steady_flush steady_modify steady_same

lemma steady_sendFrame: "steadily A ready opens (client_sendFrame E type channel payload)"
  unfolding client_sendFrame_def Let_def by (intro steady_rules) simp_all

lemma steady_post: "steadily A ready opens (post E type channel payload)"
  unfolding post_def by (intro steady_rules steady_sendFrame)

lemma steady_signature: "steadily A ready opens (adoptHubSignature E sig)"
  unfolding adoptHubSignature_def setHubAuth_def Let_def by (intro steady_rules) simp_all

lemma steady_proof: "steadily A ready opens (sendAuthProof E)"
  unfolding sendAuthProof_def Let_def by (intro steady_rules steady_post)

lemma steady_observeEstop: "steadily A ready opens (observeEstop channel payload)"
  unfolding observeEstop_def Let_def by (intro steady_rules) simp_all

lemma steady_handlers:
  "steadily A ready opens (handleEcho E payload)" "steadily A ready opens (handleNack E payload)"
  "steadily A ready opens (handleGrant E payload)" "steadily A ready opens (handleEvent E channel payload)"
  "steadily A ready opens (client_handlePing E payload)" "steadily A ready opens (handlePairGrant E payload)"
  "steadily A ready opens (handleHubSig E payload)" "steadily A ready opens (handleProbeFrame payload)"
  unfolding handleEcho_def handleNack_def handleGrant_def handleEvent_def client_handlePing_def handlePairGrant_def handleHubSig_def
    handleProbeFrame_def setHubPublicKey_def resendSubscriptionWishes_def Let_def
  by (intro steady_rules steady_post steady_signature; simp)+

lemma steady_pumps: "steadily A ready opens (client_pumps E now)"
  unfolding client_pumps_def pumpPing_def pumpEstopRepeat_def pumpCatalogReady_def pumpProbe_def pumpHubSigTimeout_def setHubAuth_def Let_def
  by (intro steady_rules steady_post) simp_all

lemma steady_settings:
  "steadily A ready opens (addSubscriptionWish ch rate prio)" "steadily A ready opens (setCachedEtag e)"
  "steadily A ready opens (setClientVersion v)" "steadily A ready opens (setHubPublicKey k)"
  "steadily A ready opens (requestHubSignature on)" "steadily A ready opens (setTokenPresentationMode mode)"
  by (simp_all add: calm_def steady_def in_session_def addSubscriptionWish_def setCachedEtag_def setClientVersion_def setHubPublicKey_def
      requestHubSignature_def setTokenPresentationMode_def)

lemma steady_calls:
  "steadily A ready opens (client_disconnect E)" "steadily A ready opens (sendIntent E ch v p t)" "steadily A ready opens (initiateEstop E cause)"
  "steadily A ready opens (sendPairReq E pin)" "steadily A ready opens (sendPairKnock E)" "steadily A ready opens (runProbe E)"
  unfolding client_disconnect_def sendIntent_def initiateEstop_def sendPairReq_def sendPairKnock_def runProbe_def Let_def
  by (intro steady_rules steady_post steady_sendFrame; simp)+

lemma steady_exec:
  assumes "client_exec E call c = Some (r, c')" and "call \<noteq> Connect" and "\<And>us. call \<noteq> Update us"
  shows "steady A ready opens c c'"
proof (cases call)
  case (Intent ch v p t)
  then show ?thesis using assms(1) steadily_run [OF steady_calls(2) [of A ready opens E ch v p t], of c] by simp
next
  case (Tick us)
  then show ?thesis using assms(1) by (intro steady_same) (auto simp: client_tick_def)
qed (use assms in \<open>auto simp: quietly_def intro: steadily_run steady_settings steady_calls\<close>)

section \<open>One frame\<close>

text \<open>STATE: a snapshot of that channel at most.\<close>

lemma adopted_update: "set (adoptedChannels (es[i := e])) \<subseteq> set (adoptedChannels es) \<union> (if sw_used e \<and> ss_valid (sw_slot e) then {sw_channel e} else {})"
  using set_update_subset_insert [of es i e] by (auto simp: adoptedChannels_def)

lemma findOrCreateShadow_at:
  assumes "run_state (findOrCreateShadow ch) c = (e, c1)"
  shows "steady A ready opens c c1" "e = Some i \<Longrightarrow> sw_channel (cl_shadows c1 ! i) = ch"
proof -
  have "adopted (c \<lparr> cl_shadows := (cl_shadows c)[j := \<lparr> sw_channel = ch, sw_used = True, sw_slot = ShadowSlot_new \<rparr>] \<rparr>) \<subseteq> adopted c" for j
    using adopted_update [of "cl_shadows c" j "\<lparr> sw_channel = ch, sw_used = True, sw_slot = ShadowSlot_new \<rparr>"] by (simp add: ShadowSlot_new_def)
  then show "steady A ready opens c c1" using assms
    by (auto simp: findOrCreateShadow_def steady_def in_session_def split: option.splits) blast
  show "e = Some i \<Longrightarrow> sw_channel (cl_shadows c1 ! i) = ch"
    using assms by (auto simp: findOrCreateShadow_def split: option.splits dest!: find_index_Some)
qed

lemma state_adopts: "steadily {ch} ready opens (client_handleState E ch seq payload)"
proof -
  have "steady {ch} ready opens c (snd (run_state (client_handleState E ch seq payload) c))" for c :: "('a, 'b, 'c) Client"
  proof -
    obtain e c1 where f: "run_state (findOrCreateShadow ch) c = (e, c1)" by fastforce
    have at: "steady {ch} ready opens c c1" "\<And>i. e = Some i \<Longrightarrow> sw_channel (cl_shadows c1 ! i) = ch"
      by (rule findOrCreateShadow_at [OF f], erule findOrCreateShadow_at [OF f])
    show ?thesis
    proof (cases e)
      case None
      then show ?thesis using at(1) f by (simp add: client_handleState_def)
    next
      case (Some i)
      obtain acc x slot' where a: "applyStateFrame seq payload (sw_slot (cl_shadows c1 ! i)) False = (acc, x, slot')" by (metis prod_cases3)
      let ?c2 = "c1 \<lparr> cl_readyPending := False, cl_shadows := (cl_shadows c1)[i := (cl_shadows c1 ! i) \<lparr> sw_slot := slot' \<rparr>] \<rparr>"
      let ?rest = "if \<not> acc then skip
        else do {
          tell (cx_onState E ch seq payload);
          st \<leftarrow> gets cl_state;
          whenever (st = C_SYNCING \<and> \<not> ss_valid (sw_slot (cl_shadows c1 ! i))) (do {
            modify (\<lambda>c. c \<lparr> cl_adoptedCount := cl_adoptedCount c + 1 \<rparr>);
            checkLiveTransition E });
          observeEstop ch payload }"
      have wr: "steady {ch} ready opens c1 ?c2"
        using adopted_update [of "cl_shadows c1" i "(cl_shadows c1 ! i) \<lparr> sw_slot := slot' \<rparr>"] at(2) [OF Some]
        by (auto simp: steady_def in_session_def split: if_splits)
      have rest: "steadily {ch} ready opens ?rest" by (intro steady_rules steady_observeEstop) simp_all
      have run: "snd (run_state (client_handleState E ch seq payload) c) = snd (run_state ?rest ?c2)"
        using f Some a by (simp add: client_handleState_def)
      show ?thesis unfolding run by (rule std.trans [OF at(1) std.trans [OF wr steadily_run [OF rest]]])
    qed
  qed
  then show ?thesis by (simp add: calm_def)
qed

text \<open>BLOB_CHUNK: the catalog becomes ready only with the chunk that completes it.\<close>

lemma adoptCatalog_settles: "calm cl_chunkReassembler (steady A True opens) (\<lambda>_. True) (adoptCatalog E bs)"
proof -
  have "calm cl_chunkReassembler any_moves (\<lambda>_. True) (adoptCatalog E bs)"
    unfolding adoptCatalog_def sendCatalogReady_def client_sendFrame_def client_write_def checkLiveTransition_def setState_def tell_def Let_def
    by (intro anm.calm_bind anm.calm_gets anm.calm_when anm.calm_return calm_if calm_prod calm_modify calm_act)
      (simp_all add: split_beta Let_def any_moves_def)
  moreover have "steadily A True opens (adoptCatalog E bs)"
    unfolding adoptCatalog_def sendCatalogReady_def Let_def
    by (intro std.calm_bind std.calm_gets std.calm_when std.calm_return calm_if calm_prod steady_live steady_sendFrame steady_modify)
      (simp_all add: steady_def in_session_def)
  ultimately show ?thesis by (simp add: calm_def)
qed

lemma chunk_settles:
  assumes "c' = snd (run_state (handleBlobChunk E payload now) c)"
  shows "steady {} (cr_complete (cl_chunkReassembler c')) False c c'"
proof (cases "getBlobChunkHeader payload")
  case (Some h)
  let ?first = "do {
           c \<leftarrow> gets id;
           whenever (\<not> cr_active (cl_chunkReassembler c) \<or> cl_catalogChunkCount c \<noteq> bh_chunk_count h)
             (modify (\<lambda>c. c \<lparr> cl_chunkReassembler := cr_begin kCatalogChunks (bh_id h) (bh_chunk_count h)
                                  (unat (bh_total_bytes h)) now (cl_chunkReassembler c),
                               cl_catalogChunkCount := bh_chunk_count h \<rparr>));
           modify (\<lambda>c. c \<lparr> cl_chunkReassembler := snd (cr_insert payload now (cl_chunkReassembler c)) \<rparr>) }"
  let ?c1 = "snd (run_state ?first c)"
  have "steadily {} False False ?first" by (intro steady_rules) simp_all
  then have first: "steady {} False False c ?c1" by (rule steadily_run)
  show ?thesis
  proof (cases "\<not> isCatalog (bh_id h) \<or> bh_chunk_count h = 0 \<or> bh_chunk_index h \<ge> bh_chunk_count h")
    case True
    then show ?thesis using Some assms by (auto simp: handleBlobChunk_def steady_def)
  next
    case False
    then have c': "c' = snd (run_state (whenever (cr_complete (cl_chunkReassembler ?c1)) (adoptCatalog E (cr_assembled (cl_chunkReassembler ?c1)))) ?c1)"
      using Some by (simp add: assms handleBlobChunk_def split_beta)
    show ?thesis
    proof (cases "cr_complete (cl_chunkReassembler ?c1)")
      case True
      then have d: "c' = snd (run_state (adoptCatalog E (cr_assembled (cl_chunkReassembler ?c1))) ?c1)" by (simp only: c' whenever_def if_True)
      have r: "cl_chunkReassembler c' = cl_chunkReassembler ?c1" "steady {} True False ?c1 c'"
        unfolding d using calmD [OF adoptCatalog_settles, where s = ?c1] by blast+
      have "steady {} True False c ?c1" by (rule steady_wider [OF first]) simp_all
      from std.trans [OF this r(2)] show ?thesis unfolding r(1) using True by simp
    next
      case False
      then have "c' = ?c1" by (simp add: c' whenever_def)
      then show ?thesis using False first by simp
    qed
  qed
qed (simp add: assms handleBlobChunk_def steady_def)

text \<open>WELCOME: a session with nothing in it yet.\<close>

definition begins :: "WelcomeMsg \<Rightarrow> bytes \<Rightarrow> ('t, 'd, 'r) Client \<Rightarrow> bool" where
  "begins w cached c \<longleftrightarrow> cl_sessionId c = wm_session_id w \<and> cl_hubEtag c = wm_catalog_etag w \<and>
     cl_requiredRetained c = wl_retained_pending (wm_limits_info w) \<and> adopted c = {} \<and> (cl_catalogReady c \<longrightarrow> cached = wm_catalog_etag w)"

lemma welcome_begins:
  assumes "cl_state c = C_HELLO_SENT" and "decodeWelcome payload = Inr w" and "c' = snd (run_state (handleWelcome E payload) c)"
  shows "begins w (cl_cachedEtag c) c'"
proof -
  let ?match = "cl_cachedEtag c = wm_catalog_etag w"
  let ?c1 = "if ?match then (adoptWelcome w c) \<lparr> cl_catalogReady := True \<rparr>
    else (adoptWelcome w c) \<lparr> cl_catalogReady := False, cl_chunkReassembler := ChunkReassembler_new kCatalogChunks, cl_catalogChunkCount := 0 \<rparr>"
  let ?rest = "do {
        (if ?match then skip else sendBlobReq E);
        (case wm_trust w of
           None \<Rightarrow> skip
         | Some t \<Rightarrow> (case tm_welcome_sig t of None \<Rightarrow> skip | Some sig \<Rightarrow> adoptHubSignature E sig));
        c \<leftarrow> gets id;
        whenever (cl_presentationMode c = PM_proof \<and> ci_token (cl_id c) \<noteq> None) (sendAuthProof E);
        setState E C_SYNCING;
        checkLiveTransition E }"
  have "steadily {} False True (setState E C_SYNCING)" by (simp add: calm_def setState_def tell_def steady_def)
  moreover have "steadily {} False True (sendBlobReq E)"
    unfolding sendBlobReq_def Let_def by (intro steady_rules steady_sendFrame) simp_all
  ultimately have "steadily {} False True ?rest" by (intro steady_rules steady_signature steady_proof) assumption+
  from steadily_run [OF this, of ?c1] have "steady {} False True ?c1 (snd (run_state ?rest ?c1))" .
  moreover have "c' = snd (run_state ?rest ?c1)"
    unfolding assms(3) using assms(1,2) by (simp add: handleWelcome_def fetchCatalog_def adoptWelcome_def)
  ultimately show ?thesis by (auto simp: begins_def steady_def adoptWelcome_def split: if_splits)
qed

lemma frame_cases:
  assumes "c' = snd (run_state (client_handleFrame E fb now) c)"
  shows "steady {ch. states fb ch} (completes E (now, c, fb)) False c c' \<or>
    cl_state c = C_HELLO_SENT \<and> (\<exists>w. welcomes fb w \<and> begins w (cl_cachedEtag c) c')"
proof -
  have skip: "steady A ready opens c c' \<or> R" if "c' = c" for A ready opens R using that by (simp add: steady_def)
  let ?estop = "length (fb_bytes fb) = kEstopFrameBytes \<and> take 4 (fb_bytes fb) = replicate 4 kEstopMagicByte"
  consider (estop) "?estop" | (bad) "\<not> ?estop" "fb_header fb = None" | (frame) hdr where "\<not> ?estop" "fb_header fb = Some hdr" by (cases "fb_header fb") auto
  then show ?thesis
  proof cases
    case estop
    then have "steady A ready opens c c'" for A ready opens
      by (auto simp: assms client_handleFrame_def steady_def in_session_def split: sum.split)
    then show ?thesis by blast
  next
    case bad
    then show ?thesis using assms by (intro skip) (auto simp: client_handleFrame_def)
  next
    case (frame hdr)
    let ?c = "c \<lparr> cl_lastRxMs := now \<rparr>"
    have c': "c' = snd (run_state (client_dispatch E hdr (fb_payload fb) now) ?c)"
      using frame by (auto simp: assms client_handleFrame_def)
    have rx: "steady A ready opens c ?c" for A ready opens by (rule steady_same) simp_all
    show ?thesis
    proof (cases "hdr_type hdr = FT_WELCOME \<or> hdr_type hdr = FT_BLOB_CHUNK \<or> hdr_type hdr = FT_STATE")
      case False
      then have "steadily {} False False (client_dispatch E hdr (fb_payload fb) now)"
        unfolding client_dispatch_def Let_def by (intro steady_rules steady_handlers) auto
      from std.trans [OF rx steadily_run [OF this]] show ?thesis unfolding c' by (blast intro: steady_wider)
    next
      case special: True
      then consider (greets) "hdr_type hdr = FT_WELCOME" | (chunk) "hdr_type hdr = FT_BLOB_CHUNK" | (snapshot) "hdr_type hdr = FT_STATE" by blast
      then show ?thesis
      proof cases
        case greets
        then have run: "c' = snd (run_state (handleWelcome E (fb_payload fb)) ?c)" by (simp add: c' client_dispatch_def)
        show ?thesis
        proof (cases "cl_state c = C_HELLO_SENT \<and> (\<exists>w. decodeWelcome (fb_payload fb) = Inr w)")
          case True
          then obtain w where w: "cl_state c = C_HELLO_SENT" "decodeWelcome (fb_payload fb) = Inr w" by blast
          from welcome_begins [OF _ w(2) run] w frame greets show ?thesis by (auto simp: welcomes_def)
        next
          case False
          then have "c' = ?c" by (auto simp: run handleWelcome_def split: sum.split)
          then show ?thesis using rx by simp
        qed
      next
        case chunk
        then have run: "c' = snd (run_state (handleBlobChunk E (fb_payload fb) now) ?c)" by (simp add: c' client_dispatch_def)
        have "completes E (now, c, fb) = cr_complete (cl_chunkReassembler c')" using frame chunk by (auto simp: completes_def assms)
        with std.trans [OF rx chunk_settles [OF run]] show ?thesis by (auto intro: steady_wider)
      next
        case snapshot
        then have run: "c' = snd (run_state (client_handleState E (hdr_channel hdr) (hdr_seq hdr) (fb_payload fb)) ?c)"
          by (simp add: c' client_dispatch_def)
        have "steady {hdr_channel hdr} False False c c'"
          unfolding run by (rule std.trans [OF rx steadily_run [OF state_adopts]])
        moreover have "{hdr_channel hdr} \<subseteq> {ch. states fb ch}" using frame snapshot by (auto simp: states_def)
        ultimately show ?thesis by (blast intro: steady_wider)
      qed
    qed
  qed
qed

section \<open>Logs\<close>

text \<open>Where the session of \<open>c\<close> comes from: the WELCOME that opened it, and the frames since then that gave it its snapshots and its catalog.\<close>

definition origin :: "('t, 'd, 'r) ClientEnv \<Rightarrow> ('t, 'd, 'r) heard list \<Rightarrow> ('t, 'd, 'r) Client \<Rightarrow> bool" where
  "origin E log c \<longleftrightarrow> (\<exists>before now cw fb after w. log = before @ (now, cw, fb) # after \<and> cl_state cw = C_HELLO_SENT \<and> welcomes fb w \<and>
     cl_sessionId c = wm_session_id w \<and> cl_hubEtag c = wm_catalog_etag w \<and> cl_requiredRetained c = wl_retained_pending (wm_limits_info w) \<and>
     (\<forall>ch \<in> adopted c. \<exists>(now, s, f) \<in> set after. states f ch) \<and>
     (cl_catalogReady c \<longrightarrow> cl_cachedEtag cw = wm_catalog_etag w \<or> (\<exists>x \<in> set after. completes E x)))"

definition sourced :: "('t, 'd, 'r) ClientEnv \<Rightarrow> ('t, 'd, 'r) heard list \<Rightarrow> ('t, 'd, 'r) Client \<Rightarrow> bool" where
  "sourced E log c \<longleftrightarrow> (in_session c \<longrightarrow> origin E log c)"

lemma origin_steady:
  assumes "origin E log c" and "steady {ch. \<exists>(now, s, f) \<in> set new. states f ch} (\<exists>x \<in> set new. completes E x) False c c'"
  shows "origin E (log @ new) c'"
proof -
  obtain before now cw fb after w where o: "log = before @ (now, cw, fb) # after" "cl_state cw = C_HELLO_SENT" "welcomes fb w"
    "cl_sessionId c = wm_session_id w" "cl_hubEtag c = wm_catalog_etag w" "cl_requiredRetained c = wl_retained_pending (wm_limits_info w)"
    "\<forall>ch \<in> adopted c. \<exists>(now, s, f) \<in> set after. states f ch"
    "cl_catalogReady c \<longrightarrow> cl_cachedEtag cw = wm_catalog_etag w \<or> (\<exists>x \<in> set after. completes E x)"
    using assms(1) unfolding origin_def by blast
  have ad: "\<forall>ch \<in> adopted c'. \<exists>(now, s, f) \<in> set (after @ new). states f ch"
  proof
    fix ch assume "ch \<in> adopted c'"
    then have "ch \<in> adopted c \<or> (\<exists>(now, s, f) \<in> set new. states f ch)" using assms(2) by (auto simp: steady_def)
    then show "\<exists>(now, s, f) \<in> set (after @ new). states f ch" using o(7) by (auto 4 4)
  qed
  have rd: "cl_catalogReady c' \<longrightarrow> cl_cachedEtag cw = wm_catalog_etag w \<or> (\<exists>x \<in> set (after @ new). completes E x)"
    using o(8) assms(2) by (auto simp: steady_def)
  have same: "cl_sessionId c' = wm_session_id w" "cl_hubEtag c' = wm_catalog_etag w" "cl_requiredRetained c' = wl_retained_pending (wm_limits_info w)"
    using assms(2) o(4-6) by (simp_all add: steady_def)
  show ?thesis unfolding origin_def
    by (rule exI [of _ before], rule exI [of _ now], rule exI [of _ cw], rule exI [of _ fb], rule exI [of _ "after @ new"], rule exI [of _ w])
      (use o(1-3) same ad rd in simp)
qed

lemma sourced_steady:
  "sourced E log c \<Longrightarrow> steady {} False False c c' \<Longrightarrow> sourced E log c'"
  using origin_steady [of E log c "[]" c'] by (auto simp: sourced_def) (simp add: steady_def)

lemma sourced_frame:
  assumes "sourced E log c" and "c' = snd (run_state (client_handleFrame E fb now) c)"
  shows "sourced E (log @ [(now, c, fb)]) c'"
  unfolding sourced_def
proof
  assume live: "in_session c'"
  from frame_cases [OF assms(2)] show "origin E (log @ [(now, c, fb)]) c'"
  proof
    assume s: "steady {ch. states fb ch} (completes E (now, c, fb)) False c c'"
    then have "origin E log c" using assms(1) live by (auto simp: sourced_def steady_def)
    from origin_steady [OF this, of "[(now, c, fb)]"] s show ?thesis by simp
  next
    assume "cl_state c = C_HELLO_SENT \<and> (\<exists>w. welcomes fb w \<and> begins w (cl_cachedEtag c) c')"
    then obtain w where w: "cl_state c = C_HELLO_SENT" "welcomes fb w" "begins w (cl_cachedEtag c) c'" by blast
    show ?thesis unfolding origin_def
      by (rule exI [of _ log], rule exI [of _ now], rule exI [of _ c], rule exI [of _ fb], rule exI [of _ "[]"], rule exI [of _ w])
        (use w in \<open>simp add: begins_def\<close>)
  qed
qed

lemma sourced_reads:
  "client_reads E now c new c' \<Longrightarrow> sourced E log c \<Longrightarrow> sourced E (log @ new) c'"
proof (induction arbitrary: log rule: client_reads.induct)
  case (Dry c w)
  then show ?case using sourced_steady [OF _ steady_same, of E log c "c \<lparr> cl_wire := w \<rparr>"] by simp
next
  case (Frame c fb w new c')
  have "sourced E log (c \<lparr> cl_wire := w \<rparr>)" using sourced_steady [OF Frame.prems steady_same] by simp
  from Frame.IH [OF sourced_frame [OF this refl]] show ?case by simp
qed

lemma sourced_log:
  assumes "client_log E c calls log c'" and "\<not> in_session c" and "Connect \<notin> set calls"
  shows "sourced E log c'"
  using assms(1,3)
proof (induction rule: client_log.induct)
  case Start
  then show ?case using assms(2) by (simp add: sourced_def)
next
  case (Other calls log c' call r c'')
  have "steady {} False False c' c''" by (rule steady_exec [OF Other.hyps(3)]) (use Other in auto)
  then show ?case using Other by (auto intro: sourced_steady)
next
  case (Heard calls log c' nowUs now mst new c'')
  have "sourced E log c'" using Heard by simp
  then have "sourced E log (c' \<lparr> cl_monoMs := mst \<rparr>)" by (rule sourced_steady) (rule steady_same; simp)
  from sourced_steady [OF sourced_reads [OF Heard.hyps(3) this] steadily_run [OF steady_pumps]] show ?case .
qed

end
