(* ===== verification/Client_Properties.thy ===== *)
theory Client_Properties
  imports Client_Sync
begin

text \<open>
  The properties of the client over every run of calls: when it is LIVE, what becomes of an intent, what a verdict on the hub's
  signature means and for how long it stands, that \<^verbatim>\<open>update\<close> returns, and the ESTOP that is repeated until it is latched.
\<close>

section \<open>Runs\<close>

lemma run_from_start: "client_run E (Client_new i t us g d) calls ids c \<Longrightarrow> core_ok E rep (\<lambda>_. True) (mset ids) False (core c)"
  using run_ok_any [OF _ start_ok] by fastforce

lemma distinct_adopted:
  assumes "shadows_ok es"
  shows "distinct (adoptedChannels es)"
proof -
  have "adoptedChannels es = map sw_channel (filter (\<lambda>e. ss_valid (sw_slot e)) (filter sw_used es))"
    by (simp add: adoptedChannels_def conj_commute)
  then show ?thesis using assms by (simp add: shadows_ok_def distinct_map_filter del: filter_filter)
qed

lemma sendIntent_withheld:
  "cl_hubAuth c = SigMismatch \<or> cl_hubAuth c = SigTimeout \<Longrightarrow> run_state (sendIntent E ch v p t) c = (None, c)"
  by (auto simp: sendIntent_def)

text \<open>A connection: the state after a call of \<^verbatim>\<open>connect\<close> that returned true.\<close>

lemma connected_ok:
  assumes "client_run E (Client_new i t us g d) earlier ids c1" and "run_state (client_connect E) c1 = (True, c0)"
    and "link_offers E Good" and "\<And>key. SetKey key \<in> set earlier \<Longrightarrow> Good key"
  shows "core_ok E rep Good (mset ids) False (core c0)"
proof -
  have "core_ok E rep Good ({#} + mset ids) False (core c1)" by (rule run_ok [OF assms(1) start_ok assms(3,4)])
  then show ?thesis using tracesD(2) [OF connect_keeps, of E rep Good "{#} + mset ids" c1] assms(2) by simp
qed

text \<open>(C7) LIVE means synchronised. Take a \<^verbatim>\<open>connect\<close> that returned true, at any point in the life of a client, and what the client goes
  through after it up to the next \<^verbatim>\<open>connect\<close>; \<open>log\<close> is the list of the frames that the updates in between handled, in order, each with the
  state it was handled in. If the client is then LIVE, there is a WELCOME in the log that was handled in the state HELLO_SENT, whose session
  id and catalog etag are the client's, and such that after it
  the catalog was settled (the etag cached at that moment was already the announced one, or a later BLOB_CHUNK completed a transfer), and
  the client holds snapshots of at least as many distinct channels as the WELCOME announced retained ones, on each of which a STATE arrived
  after the WELCOME. Nothing is claimed for a \<^verbatim>\<open>connect\<close> that returned false: it can leave a client that was LIVE in that state without a session.\<close>

theorem client_live_synced:
  assumes "client_run E (Client_new i t us g d) earlier ids c1" and "run_state (client_connect E) c1 = (True, c0)"
    and "client_log E c0 calls log c" and "Connect \<notin> set calls" and "cl_state c = C_LIVE"
  shows "\<exists>before now cw fb after w. log = before @ (now, cw, fb) # after \<and> cl_state cw = C_HELLO_SENT \<and> welcomes fb w \<and>
    cl_sessionId c = wm_session_id w \<and> cl_hubEtag c = wm_catalog_etag w \<and>
    (cl_cachedEtag cw = wm_catalog_etag w \<or> (\<exists>x \<in> set after. completes E x)) \<and>
    unat (wl_retained_pending (wm_limits_info w)) \<le> card (set (adoptedChannels (cl_shadows c))) \<and>
    (\<forall>ch \<in> set (adoptedChannels (cl_shadows c)). \<exists>(now, s, f) \<in> set after. states f ch)"
proof -
  obtain ids' where run: "client_run E c0 calls ids' c" using log_run [OF assms(3)] by blast
  have "core_ok E (\<lambda>_. {#}) (\<lambda>_. True) (mset ids) False (core c0)" by (rule connected_ok [OF assms(1,2)]) simp_all
  from run_ok_any [OF run this] have gate: "cl_catalogReady c" "unat (cl_requiredRetained c) \<le> card (adopted c)"
    using assms(5) by (simp_all add: core_ok_def distinct_card distinct_adopted)
  have "\<not> in_session c0" using connect_opens(1) [OF assms(2)] by (simp add: in_session_def)
  from sourced_log [OF assms(3) this assms(4)] have "origin E log c" using assms(5) by (simp add: sourced_def in_session_def)
  then show ?thesis using gate unfolding origin_def by metis
qed

theorem client_live_synced_witness:
  "\<exists>log before now cw fb after w. client_log cbench_env (cbench_hello 1) [Update 1000] log (cbench_live 1) \<and>
    log = before @ (now, cw, fb) # after \<and> cl_state cw = C_HELLO_SENT \<and> welcomes fb w \<and> cl_sessionId (cbench_live 1) = wm_session_id w"
proof -
  have "client_run cbench_env (cbench_hello 1) [Update 1000] [] (cbench_live 1)"
    using client_run_one [of cbench_env "Update 1000" "cbench_hello 1" None] cbench_update [of 1] by simp
  then obtain log where log: "client_log cbench_env (cbench_hello 1) [Update 1000] log (cbench_live 1)" using run_log by blast
  have "cl_state (cbench_live 1) = C_LIVE" by (simp add: cbench_live_def)
  from client_live_synced [OF cbench_asked [of 1, unfolded cbench_start_def] cbench_connect [of 1, unfolded cbench_start_def] log _ this]
  obtain before now cw fb after w where "log = before @ (now, cw, fb) # after" "cl_state cw = C_HELLO_SENT" "welcomes fb w"
    "cl_sessionId (cbench_live 1) = wm_session_id w" by auto
  with log show ?thesis by blast
qed

text \<open>(C6) No intent is forgotten. Whatever the application calls and the hub answers, every intent id that \<^verbatim>\<open>sendIntent\<close> returned
  is either still pending or was reported to the delegate, in an ECHO, a NACK or as dropped, counted with
  multiplicity; and at most eight are pending. The hypothesis on \<open>rep\<close> says that it counts exactly those reports off the
  delegate's state.\<close>

theorem client_intents_accounted:
  assumes "client_run E (Client_new i t us g d) calls ids c" and "reports E rep"
  shows "mset ids \<subseteq># mset (cl_pending c) + rep (cl_app c) \<and> length (cl_pending c) \<le> kMaxPendingIntents"
  using run_from_start [OF assms(1), of rep] assms(2) by (simp add: core_ok_def)

theorem client_intents_accounted_witness:
  "mset [1] \<subseteq># mset (cl_pending cbench_sent) + mset (cl_app cbench_sent) \<and> length (cl_pending cbench_sent) \<le> 8"
  using client_intents_accounted [OF cbench_run_sent [unfolded cbench_start_def] cbench_reports] by simp

text \<open>(C8) An impostor is never driven. Once a signature has failed to verify, the verdict stands until the application calls
  \<^verbatim>\<open>connect\<close>: whatever else it calls and whatever frames arrive, later verdicts included, no intent is issued,
  and an attempt to send one changes nothing at all, the wire included.\<close>

theorem client_impostor_withheld:
  assumes "client_run E (Client_new i t us g d) before ids c" and "cl_hubAuth c = SigMismatch"
    and "client_run E c calls ids' c'" and "Connect \<notin> set calls"
  shows "ids' = [] \<and> cl_hubAuth c' = SigMismatch \<and> run_state (sendIntent E ch v p tk) c' = (None, c')"
proof -
  have start: "core_ok E (\<lambda>_. {#}) (\<lambda>_. True) (mset ids) False (core c)" by (rule run_from_start [OF assms(1)])
  have "ids' = [] \<and> cl_hubAuth c' = SigMismatch"
    using assms(3,4)
  proof (induction rule: client_run.induct)
    case Stop then show ?case using assms(2) by simp
  next
    case (Call calls ids' c' call r c'')
    then have ih: "ids' = []" "cl_hubAuth c' = SigMismatch" and no: "call \<noteq> Connect" by auto
    have "core_ok E (\<lambda>_. {#}) (\<lambda>_. True) (mset ids + mset ids') False (core c')" by (rule run_ok_any [OF Call.hyps(1) start])
    then have "client_moves c' c''" using exec_ok [OF Call.hyps(2)] no by fastforce
    moreover have "r = None"
      using Call.hyps(2) ih(2) by (cases call) (auto simp: quietly_def sendIntent_withheld)
    ultimately show ?case using ih by (simp add: client_moves_def)
  qed
  then show ?thesis by (simp add: sendIntent_withheld)
qed

theorem client_impostor_withheld_witness:
  "cl_hubAuth (cbench_live 2) = SigMismatch \<and> run_state (sendIntent cbench_env ch_move [] None False) (cbench_live 2) = (None, cbench_live 2)"
proof -
  have "cl_hubAuth (cbench_live 2) = SigMismatch" by (simp add: cbench_live_def)
  then show ?thesis
    using client_impostor_withheld [OF cbench_run [of 2, unfolded cbench_start_def] _ client_run.Stop] by simp
qed

text \<open>(C9) \<open>Verified\<close> is earned in this connection. Let \<open>Good\<close> be any set of keys that contains every key the application pins and
  every key that a PAIR_GRANT on this link delivers. Take a \<^verbatim>\<open>connect\<close> that returned true, with a signature requested before it, and any calls
  after it up to the next \<^verbatim>\<open>connect\<close>. If the client then has the verdict \<open>Verified\<close>, a signature verified under a non-empty key of that set,
  over the material made of the eight bytes that this very \<^verbatim>\<open>connect\<close> drew from the random source, a session id and a boot id. So
  nobody who cannot sign fresh material under one of these keys can bring the verdict about.\<close>

theorem client_verified_genuine:
  assumes "client_run E (Client_new i t us g d) earlier ids c1" and "cl_sigRequested c1" and "run_state (client_connect E) c1 = (True, c0)"
    and "client_run E c0 calls ids' c" and "Connect \<notin> set calls" and "cl_hubAuth c = Verified"
    and "link_offers E Good" and "\<And>key. SetKey key \<in> set earlier \<union> set calls \<Longrightarrow> Good key"
  shows "\<exists>key sid boot sig. Good key \<and> key \<noteq> [] \<and>
    cx_verifyP256 E key (hubSigMaterial (fst (cx_fill E kTrustClientNonceBytes (cl_rng c1))) sid boot) sig"
proof -
  have "core_ok E (\<lambda>_. {#}) Good (mset ids) False (core c0)" by (rule connected_ok [OF assms(1,3,7)]) (use assms(8) in simp)
  from run_ok [OF assms(4) this assms(7)] have "genuine E Good (cl_clientNonce c)" using assms(6,8) by (simp add: core_ok_def)
  moreover have "core_ok E (\<lambda>_. {#}) (\<lambda>_. True) (mset ids) False (core c0)" by (rule connected_ok [OF assms(1,3)]) simp_all
  from run_moves [OF assms(4) this assms(5)] have "cl_clientNonce c = cl_clientNonce c0" by (simp add: client_moves_def)
  ultimately show ?thesis using connect_opens(2) [OF assms(3,2)] by (auto simp: genuine_def)
qed

theorem client_verified_genuine_witness:
  "cl_hubAuth (cbench_live 1) = Verified \<and>
    (\<exists>key sid boot sig. True \<and> key \<noteq> [] \<and> cx_verifyP256 cbench_env key (hubSigMaterial (replicate 8 5) sid boot) sig)"
proof -
  have "client_run cbench_env (cbench_hello 1) [Update 1000] [] (cbench_live 1)"
    using client_run_one [of cbench_env "Update 1000" "cbench_hello 1" None] cbench_update [of 1] by simp
  moreover have "cl_hubAuth (cbench_live 1) = Verified" by (simp add: cbench_live_def)
  ultimately show ?thesis
    using client_verified_genuine [OF cbench_asked [of 1, unfolded cbench_start_def] _ cbench_connect [of 1, unfolded cbench_start_def], of _ _ _ "\<lambda>_. True"]
    by (simp add: kTrustClientNonceBytes_def)
qed

text \<open>The pin can be replaced by the other side. The handler of PAIR_GRANT does not ask whether a PAIR_REQ was sent: while the verdict
  is pending, a PAIR_GRANT that carries a key pins it over the key that was there, and a HUB_SIG made with that new key then counts as
  \<open>Verified\<close>, although it says nothing about the machine that was pinned before.\<close>

theorem client_pin_replaced:
  assumes "decodePairGrant grant = Inr m" and "pg_trust m = Some t" and "tm_hub_pubkey t = Some other"
    and "other \<noteq> []" and "length other \<le> kTrustPubkeyMaxBytes"
    and "decodeHubSig answer = Inr e" and "tm_welcome_sig (te_trust_map e) = Some sig" and "sig \<noteq> []"
    and "cl_sigRequested c" and "cl_hubAuth c = SigPending"
    and "cx_verifyP256 E other (hubSigMaterial (cl_clientNonce c) (cl_sessionId c) (cl_bootId c)) sig"
  shows "let c' = snd (run_state (do { handlePairGrant E grant; handleHubSig E answer }) c)
         in cl_hubPubkey c' = other \<and> cl_hubAuth c' = Verified"
  using assms
  by (simp add: handlePairGrant_def setHubPublicKey_def tell_def handleHubSig_def adoptHubSignature_def setHubAuth_def Let_def)

definition cbench_grant :: PairGrantMsg where
  "cbench_grant = PairGrantMsg_new \<lparr> pg_trust := Some (TrustMap_new \<lparr> tm_hub_pubkey := Some [8] \<rparr>) \<rparr>"

definition cbench_sig :: TrustEnvelopeMsg where
  "cbench_sig = \<lparr> te_trust_map = TrustMap_new \<lparr> tm_welcome_sig := Some [1] \<rparr> \<rparr>"

lemma cbench_twin_frames:
  "decodePairGrant (encodePairGrant cbench_grant 100) = Inr cbench_grant" "decodeHubSig (encodeHubSig cbench_sig 100) = Inr cbench_sig"
proof -
  have ok: "pair_grant_ok cbench_grant" "envelope_ok cbench_sig"
    by (simp_all add: pair_grant_ok_def envelope_ok_def cbench_grant_def cbench_sig_def PairGrantMsg_new_def tm_any_def TrustMap_new_def trust_ok_def)
  have "length (enc (CMap (pair_grant_kvs cbench_grant))) \<le> 100" "length (enc (CMap (envelope_kvs cbench_sig))) \<le> 100" by code_simp+
  then show "decodePairGrant (encodePairGrant cbench_grant 100) = Inr cbench_grant" "decodeHubSig (encodeHubSig cbench_sig 100) = Inr cbench_sig"
    using pair_grant_codec.roundtrip [OF ok(1), of 100 "[]"] envelope_codec.roundtrip [OF ok(2), of 100 "[]"]
    by (simp_all add: decodeHubSig_def encodeHubSig_def del: enc.simps)
qed

theorem client_pin_replaced_witness:
  "cl_hubPubkey (cbench_hello 1) = [7] \<and>
    (let c' = snd (run_state (do { handlePairGrant cbench_env (encodePairGrant cbench_grant 100);
                                    handleHubSig cbench_env (encodeHubSig cbench_sig 100) }) (cbench_hello 1))
     in cl_hubPubkey c' = [8] \<and> cl_hubAuth c' = Verified)"
proof -
  have c: "cl_hubPubkey (cbench_hello 1) = [7]" "cl_sigRequested (cbench_hello 1)" "cl_hubAuth (cbench_hello 1) = SigPending"
    by (simp_all add: cbench_hello_def)
  show ?thesis
    using c(1) client_pin_replaced [OF cbench_twin_frames(1) _ _ _ _ cbench_twin_frames(2) _ _ c(2,3), of _ "[8]" "[1]" cbench_env]
    by (simp add: cbench_grant_def cbench_sig_def kTrustPubkeyMaxBytes_def)
qed

section \<open>When update returns\<close>

definition quieter :: "('t \<Rightarrow> nat) \<Rightarrow> ('t, 'd, 'r) Client \<Rightarrow> ('t, 'd, 'r) Client \<Rightarrow> bool" where
  "quieter rank c c' \<longleftrightarrow> rank (cl_wire c') \<le> rank (cl_wire c)"

text \<open>A link that runs dry when nothing arrives.\<close>

definition link_drains :: "('t, 'd, 'r) ClientEnv \<Rightarrow> ('t \<Rightarrow> nat) \<Rightarrow> bool" where
  "link_drains E rank \<longleftrightarrow> (\<forall>w fb w'. cx_read E w = (Some fb, w') \<longrightarrow> rank w' < rank w) \<and>
    (\<forall>bs w. rank (snd (cx_write E bs w)) \<le> rank w)"

interpretation qui: step_order "quieter rank" for rank
  by unfold_locales (auto simp: quieter_def)

abbreviation quiet :: "('t \<Rightarrow> nat) \<Rightarrow> (('t, 'd, 'r) Client, 'a) state \<Rightarrow> bool" where
  "quiet rank m \<equiv> calm (\<lambda>_. ()) (quieter rank) (\<lambda>_. True) m"

lemma quiet_modify: "(\<And>c. cl_wire (f c) = cl_wire c) \<Longrightarrow> quiet rank (modify f)"
  by (simp add: calm_def quieter_def)

lemma quiet_tell: "quiet rank (tell f)"
  unfolding tell_def by (rule quiet_modify) simp

lemma quiet_write: "link_drains E rank \<Longrightarrow> quiet rank (client_write E bs)"
  by (simp add: calm_def quieter_def client_write_def split_beta Let_def link_drains_def)

lemma quiet_findOrCreateShadow: "quiet rank (findOrCreateShadow ch)"
  by (auto simp: calm_def quieter_def findOrCreateShadow_def split: option.splits)

lemmas quiet_rules = calm_if calm_option calm_sum calm_prod calm_let qui.calm_return qui.calm_gets qui.calm_bind qui.calm_when
  qui.calm_for_each quiet_tell quiet_modify quiet_write quiet_findOrCreateShadow

lemma quiet_client_handleFrame: "link_drains E rank \<Longrightarrow> quiet rank (client_handleFrame E fb now)"
  unfolding client_handleFrame_def client_dispatch_def Let_def handleWelcome_def client_handleState_def handleEcho_def handleNack_def
    handleGrant_def handleEvent_def handleBlobChunk_def client_handlePing_def handlePairGrant_def handleHubSig_def handleProbeFrame_def
    setState_def flushPending_def fetchCatalog_def sendBlobReq_def adoptHubSignature_def setHubAuth_def sendAuthProof_def
    checkLiveTransition_def adoptCatalog_def sendCatalogReady_def resendSubscriptionWishes_def observeEstop_def setHubPublicKey_def
    post_def client_sendFrame_def
  by (intro quiet_rules) (simp_all add: adoptWelcome_def)

lemma readFrames_returns:
  assumes "link_drains E rank"
  shows "\<exists>c'. readFrames E now c = Some c'"
proof (induction "rank (cl_wire c)" arbitrary: c rule: less_induct)
  case less
  obtain f w where rd: "cx_read E (cl_wire c) = (f, w)" by fastforce
  show ?case
  proof (cases f)
    case None then show ?thesis using rd by (subst readFrames.simps) simp
  next
    case (Some fb)
    let ?c = "snd (run_state (client_handleFrame E fb now) (c \<lparr> cl_wire := w \<rparr>))"
    have "rank (cl_wire ?c) \<le> rank w"
      using calmD(2) [OF quiet_client_handleFrame [OF assms], of "c \<lparr> cl_wire := w \<rparr>" fb now] by (simp add: quieter_def)
    moreover have "rank w < rank (cl_wire c)" using assms rd Some by (auto simp: link_drains_def)
    ultimately have "\<exists>c'. readFrames E now ?c = Some c'" using less by fastforce
    then show ?thesis using rd Some by (subst readFrames.simps) simp
  qed
qed

text \<open>(C20) \<^verbatim>\<open>update\<close> returns: if the transport delivers only finitely many frames without new input, then whatever the
  frames are, the client's update comes back, from every state and at every clock reading.\<close>

theorem client_update_returns:
  assumes "link_drains E rank"
  shows "\<exists>c'. client_update E nowUs c = Some c'"
  using readFrames_returns [OF assms, of "fst (advance nowUs (cl_monoMs c))" "c \<lparr> cl_monoMs := snd (advance nowUs (cl_monoMs c)) \<rparr>"]
  by (auto simp: client_update_def split_beta)

theorem client_update_returns_witness: "\<exists>c'. client_update cbench_env 7 (cbench_hello 2) = Some c'"
proof -
  have "link_drains cbench_env length" by (auto simp: link_drains_def split: list.splits)
  then show ?thesis by (rule client_update_returns)
qed

section \<open>Proof presentation\<close>

lemma auth_fits:
  assumes "length p = 16"
  shows "length (enc (CMap (envelope_kvs \<lparr> te_trust_map = TrustMap_new \<lparr> tm_token_proof := Some p, tm_presentation_mode := Some 1 \<rparr> \<rparr>))) \<in> {1..64}"
  using assms by (simp add: envelope_kvs_def trust_kvs_def TrustMap_new_def head_bytes_def)

text \<open>A client in proof mode keeps its token to itself and is let in. Its HELLO carries no token; the AUTH that it sends instead, once
  it has the nonce of the WELCOME, is decoded by the hub to a proof that the hub's check accepts, if the hub's ledger has the same token for
  the client's instance and both sides compute the same HMAC.\<close>

theorem client_proof_accepted:
  assumes "cl_presentationMode c = PM_proof" and "ci_token (cl_id c) = Some token" and "length (cl_nonce c) = 8"
    and "cr_hmacSha256 (cx_crypto E) token (cl_nonce c) = Some mac" and "length mac = 32"
    and "findByInstance inst m = Some k" and "pe_token (pm_entries m ! k) = token" and "cr_constantTimeEqual (cx_crypto E) = (=)"
  shows "hl_token (helloOf c) = None \<and>
    (\<exists>payload msg p. payload \<noteq> [] \<and> run_state (sendAuthProof E) c = run_state (post E FT_AUTH 0 payload) c \<and> decodeAuth payload = Inr msg \<and>
      tm_token_proof (te_trust_map msg) = Some p \<and> snd (validateProof (cx_crypto E) inst p (cl_nonce c) m))"
proof -
  let ?p = "take 16 mac"
  let ?m = "\<lparr> te_trust_map = TrustMap_new \<lparr> tm_token_proof := Some ?p, tm_presentation_mode := Some 1 \<rparr> \<rparr>"
  have ok: "envelope_ok ?m" using assms(5) by (simp add: envelope_ok_def tm_any_def TrustMap_new_def trust_ok_def)
  have fits: "length (enc (CMap (envelope_kvs ?m))) \<in> {1..64}" using auth_fits [of ?p] assms(5) by simp
  have "encodeAuth ?m 64 \<noteq> []" using envelope_codec.encode_image [OF ok, of 64] fits by (auto simp: encodeAuth_def simp del: enc.simps)
  moreover have "decodeAuth (encodeAuth ?m 64) = Inr ?m"
    using envelope_codec.roundtrip [OF ok, of 64 "[]"] fits by (simp add: decodeAuth_def encodeAuth_def del: enc.simps)
  moreover have "run_state (sendAuthProof E) c = run_state (post E FT_AUTH 0 (encodeAuth ?m 64)) c"
    using assms(2,4) calculation(1) by (simp add: sendAuthProof_def kTrustTokenProofBytes_def whenever_def Let_def)
  moreover have "snd (validateProof (cx_crypto E) inst ?p (cl_nonce c) m)"
    using assms(3-8) by (simp add: validateProof_def Let_def)
  moreover have "hl_token (helloOf c) = None" using assms(1,2) by (simp add: helloOf_def HelloMsg_new_def)
  ultimately show ?thesis by (intro conjI exI) (assumption | simp)+
qed

definition cbench_prover :: cbench where
  "cbench_prover = (cbench_live 1) \<lparr> cl_presentationMode := PM_proof, cl_id := (cl_id (cbench_live 1)) \<lparr> ci_token := Some (replicate 16 9) \<rparr> \<rparr>"

definition cbench_ledger :: PairingManager where
  "cbench_ledger = PairingManager_new \<lparr> pm_entries :=
     [PairedEntry_new \<lparr> pe_used := True, pe_instance_id := replicate 8 1, pe_token := replicate 16 9 \<rparr>] \<rparr>"

theorem client_proof_accepted_witness:
  "hl_token (helloOf cbench_prover) = None \<and>
    (\<exists>payload msg p. payload \<noteq> [] \<and> run_state (sendAuthProof cbench_env) cbench_prover = run_state (post cbench_env FT_AUTH 0 payload) cbench_prover \<and>
      decodeAuth payload = Inr msg \<and> tm_token_proof (te_trust_map msg) = Some p \<and>
      snd (validateProof (cx_crypto cbench_env) (replicate 8 1) p (cl_nonce cbench_prover) cbench_ledger))"
proof -
  have e: "cx_crypto cbench_env = SoftwareCrypto" by (simp add: cbench_env_def)
  have mac: "cr_hmacSha256 (cx_crypto cbench_env) (replicate 16 9) (cl_nonce cbench_prover) = Some (hmacSha256 (replicate 16 9) (cl_nonce cbench_prover))"
    "cr_constantTimeEqual (cx_crypto cbench_env) = (=)" by (simp_all add: e)
  have c: "cl_presentationMode cbench_prover = PM_proof" "ci_token (cl_id cbench_prover) = Some (replicate 16 9)" "length (cl_nonce cbench_prover) = 8"
    by (simp_all add: cbench_prover_def cbench_live_def cbench_hello_def cbench_start_def Client_new_def)
  have m: "findByInstance (replicate 8 1) cbench_ledger = Some 0" "pe_token (pm_entries cbench_ledger ! 0) = replicate 16 9"
    by (simp_all add: findByInstance_def cbench_ledger_def)
  show ?thesis by (rule client_proof_accepted [OF c mac(1) length_hmacSha256 m mac(2)])
qed

section \<open>Failures\<close>

text \<open>A connection attempt that fails after the transport opened forgets the session but not the state. If HELLO cannot be written,
  \<^verbatim>\<open>connect\<close> returns false and leaves a client that was LIVE in the state LIVE, with session id 0 and no snapshots: it still takes
  itself to be connected.\<close>

theorem client_failed_connect_stays_live:
  assumes "cx_open E (cl_wire c) = (True, w)" and "\<And>bs. fst (cx_write E bs w) = False" and "cl_state c = C_LIVE" and "\<not> cl_sigRequested c"
  shows "let (ok, c') = run_state (client_connect E) c
         in \<not> ok \<and> cl_state c' = C_LIVE \<and> cl_sessionId c' = 0 \<and> adoptedChannels (cl_shadows c') = []"
proof -
  let ?c = "resetSession (c \<lparr> cl_app := fold (cx_onPendingDropped E) (cl_pending c) (cl_app c), cl_pending := [], cl_wire := w \<rparr>)"
  have c: "cl_state ?c = C_LIVE" "cl_sessionId ?c = 0" "cl_shadows ?c = replicate 16 ShadowEntry_new" "cl_wire ?c = w" "\<not> cl_sigRequested ?c"
    using assms(3,4) by (simp_all add: resetSession_def)
  have send: "\<exists>w'. run_state (client_sendFrame E FT_HELLO 0 buf) ?c = (False, ?c \<lparr> cl_wire := w' \<rparr>) \<or>
      run_state (client_sendFrame E FT_HELLO 0 buf) ?c = (False, ?c)" for buf
  proof (cases "length buf \<le> 504")
    case True
    then show ?thesis using run_client_sendFrame [OF True, of E FT_HELLO 0 ?c] assms(2) c(4) by (auto simp: split_beta Let_def)
  next
    case False
    then show ?thesis by (simp add: client_sendFrame_def encodeFrameHeader_fits kFrameBufferCapacity_def Let_def)
  qed
  have "run_state (client_connect E) c = run_state (do {
      h \<leftarrow> gets helloOf;
      let buf = encodeHello h 700;
      if buf = [] then return False
      else do {
        ok \<leftarrow> client_sendFrame E FT_HELLO 0 buf;
        if \<not> ok then return False
        else do {
          auth \<leftarrow> gets cl_hubAuth;
          whenever (auth = SigPending) (modify (\<lambda>c. c \<lparr> cl_sigDeadlineMs := client_nowMs c + hub_sig_timeout_ms \<rparr>));
          setState E C_HELLO_SENT;
          return True } } }) ?c"
    using assms(1) c(5) by (simp add: client_connect_def run_flushPending whenever_def)
  then show ?thesis using send [of "encodeHello (helloOf ?c) 700"] c by (auto simp: Let_def)
qed

definition cbench_deaf :: "(FrameBuffer list, u16 list, u32) ClientEnv" where
  "cbench_deaf = cbench_env \<lparr> cx_write := (\<lambda>bs. Pair False) \<rparr>"

theorem client_failed_connect_stays_live_witness:
  "let (ok, c') = run_state (client_connect cbench_deaf) ((cbench_live 1) \<lparr> cl_sigRequested := False \<rparr>)
   in \<not> ok \<and> cl_state c' = C_LIVE \<and> cl_sessionId c' = 0 \<and> adoptedChannels (cl_shadows c') = []"
  by (rule client_failed_connect_stays_live [where w = "[]"])
    (simp_all add: cbench_deaf_def cbench_live_def cbench_hello_def)

text \<open>The deadline for the hub's signature is set on one clock and checked on another. \<^verbatim>\<open>connect\<close> takes the millisecond reading
  of the injected clock, which starts again after 71.6 minutes; \<^verbatim>\<open>update\<close> compares with the wrap-safe count. Here the clock has
  wrapped once, the client connects at the reading 1 s, and the update one millisecond later already gives the verdict \<open>SigTimeout\<close>,
  which withholds every intent; the time allowed is three seconds.\<close>

theorem client_sig_deadline_wraps:
  "let count = snd (advance 1000000 (snd (advance 0xFFFFFFFF MonotonicMs_new)));
       c = (cbench_start 1) \<lparr> cl_hubPubkey := [7], cl_sigRequested := True, cl_wire := [], cl_clockUs := 1000000, cl_monoMs := count \<rparr>;
       c' = snd (run_state (client_connect cbench_env) c)
   in cl_hubAuth c' = SigPending \<and> map_option cl_hubAuth (client_update cbench_env 1001000 c') = Some SigTimeout"
proof -
  let ?count = "snd (advance 1000000 (snd (advance 0xFFFFFFFF MonotonicMs_new)))"
  let ?c = "(cbench_start 1) \<lparr> cl_hubPubkey := [7], cl_sigRequested := True, cl_wire := [], cl_clockUs := 1000000, cl_monoMs := ?count \<rparr>"
  let ?h = "HelloMsg_new \<lparr> hl_client_kind := [99], hl_client_name := [99], hl_instance_id := replicate 8 1,
    hl_trust := Some (TrustMap_new \<lparr> tm_client_nonce := Some (replicate 8 5), tm_sig_request := Some True \<rparr>) \<rparr>"
  have fits: "encodeHello ?h 700 \<noteq> []" "length (encodeHello ?h 700) \<le> 504" using cbench_hello_fits [OF refl] by force+
  let ?s = "(cbench_hello 1) \<lparr> cl_wire := [], cl_clockUs := 1000000, cl_monoMs := ?count, cl_lastTxMs := 1000, cl_sigDeadlineMs := 4000 \<rparr>"
  have hello: "helloOf (?s \<lparr> cl_lastTxMs := 0, cl_sigDeadlineMs := 0, cl_state := C_CLOSED \<rparr>) = ?h"
    by (simp add: helloOf_def helloTrust_def cbench_hello_def cbench_start_def Client_new_def isAllZero_def etag_bytes_def HelloMsg_new_def
        TrustMap_new_def list_all_length)
  have connected: "run_state (client_connect cbench_env) ?c = (True, ?s)"
    using fits hello
    by (simp add: client_now run_cbench_send cbench_hello_def cbench_start_def Client_new_def resetSession_def client_nowMs_def nowMs_def
        kTrustClientNonceBytes_def del: run_state_bind)
  have adv: "fst (advance 1001000 ?count) = 4295968"
    by (simp add: advance_def MonotonicMs_new_def)
  let ?u = "?s \<lparr> cl_monoMs := snd (advance 1001000 ?count) \<rparr>"
  have "readFrames cbench_env 4295968 ?u = Some ?u" by (subst readFrames.simps) simp
  moreover have "cl_hubAuth (snd (run_state (client_pumps cbench_env 4295968) ?u)) = SigTimeout"
    by (simp add: client_now lazily [OF post_def] run_cbench_send cbench_hello_def cbench_start_def Client_new_def client_nowMs_def nowMs_def
        timeReached_def timeDelta_def encodePing_def del: run_state_bind)
  ultimately have "map_option cl_hubAuth (client_update cbench_env 1001000 ?s) = Some SigTimeout"
    using adv by (simp add: client_update_def split_beta)
  then show ?thesis by (simp add: Let_def connected cbench_hello_def)
qed

end
