(* ===== verification/Client_Estop.thy ===== *)
theory Client_Estop
  imports Client_Bench Hub_Properties
begin

text \<open>
  The ESTOP across both ends: the frame a client writes, what the hub makes of it, and the snapshot by which the client knows. The hub's
  commands other than the latch itself are calm on the safety plane.
\<close>

section \<open>The hub's safety plane\<close>

abbreviation keeps_safety :: "(('t, 'd, 'r) Hub, 'a) state \<Rightarrow> bool" where
  "keeps_safety \<equiv> calm safety_of (\<lambda>_ _. True) (\<lambda>_. True)"

lemma safety_modify: "(\<And>h. safety_of (f h) = safety_of h) \<Longrightarrow> keeps_safety (modify f)"
  by (simp add: calm_def)

lemma safety_act: "(\<And>h. safety_of (snd (f h)) = safety_of h) \<Longrightarrow> keeps_safety (act f)"
  by (simp add: calm_def)

lemma safety_upd: "keeps_safety (upd_slot i f)" "keeps_safety (upd_session i g)"
  by (simp_all add: calm_def upd_slot_def upd_session_def safety_of_def)

lemma safety_app_tell: "keeps_safety (app_tell f)"
  by (simp add: calm_def app_tell_def safety_of_def)

lemmas safety_rules = calm_if calm_option calm_sum calm_prod calm_let anyhow.calm_return anyhow.calm_gets anyhow.calm_bind anyhow.calm_when
  anyhow.calm_for_each anyhow.calm_for_acc safety_upd safety_app_tell

lemma safety_sendFrameTo: "keeps_safety (sendFrameTo E t type channel payload seq)"
  unfolding sendFrameTo_def Let_def by (intro safety_rules safety_act) (simp add: split_beta Let_def safety_of_def)

lemma safety_sendSlot: "keeps_safety (sendSlot E i type channel payload seq)"
  unfolding sendSlot_def deref_def transport_of_def raise_def
  by (intro safety_rules safety_modify safety_sendFrameTo) (simp add: safety_of_def)

lemma safety_drainEvents: "keeps_safety (drainEvents E i n)"
  by (induction n) (simp_all add: anyhow.calm_return, intro safety_rules safety_sendSlot)

lemma safety_emitEvent: "keeps_safety (emitEvent E ev cap)"
  unfolding emitEvent_def publishEvent_def pumpEventDrain_def queueEvent_def transport_of_def Let_def
  by (intro safety_rules safety_drainEvents)

lemma safety_hub_retain: "keeps_safety (hub_retain ch payload)"
  unfolding hub_retain_def by (rule safety_act) (simp add: split_beta Let_def safety_of_def)

lemma safety_emitSessionEvent: "keeps_safety (emitSessionEvent E kind sid now)"
  unfolding emitSessionEvent_def by (intro safety_rules safety_emitEvent)

lemma safety_parkAndDetach: "keeps_safety (parkAndDetach E i now)"
  unfolding parkAndDetach_def markStale_def releaseSessionSources_def dropKnocksOf_def closeTransport_def transport_of_def
    publishControlOwnerStateIfPresent_def publishPendingPairingState_def emitPairingEvent_def Let_def
  by (intro safety_rules safety_emitSessionEvent safety_emitEvent safety_hub_retain safety_act safety_modify)
    (simp_all add: split_beta Let_def safety_of_def)

lemma safety_sendFrameToTracked: "keeps_safety (sendFrameToTracked E i type channel payload now seq)"
  unfolding sendFrameToTracked_def trackCriticalSend_def transport_of_def
  by (intro safety_rules safety_sendFrameTo safety_parkAndDetach)

lemma safety_announce: "keeps_safety (do { broadcastSafetyNow E now; emitSafetyEdgeEvents E before now })"
  unfolding broadcastSafetyNow_def transport_of_def markSubPushed_def findOrCreatePushRecord_def notePushed_def emitSafetyEdgeEvents_def
    emitSafetyEvent_def Let_def
  by (intro safety_rules safety_sendFrameToTracked safety_emitEvent)

lemma safety_noteReceived: "keeps_safety (noteReceived E i now)"
  unfolding noteReceived_def ifOccupied_def reviveIfStale_def by (intro safety_rules safety_emitSessionEvent)

text \<open>What an ESTOP frame does to the safety plane, whatever else happens on the way.\<close>

lemma handleEstopFrame_safety:
  "safety_of (snd (run_state (handleEstopFrame E f now) h)) =
    (if estopLatched h then safety_of h
     else (safety_of h) \<lparr> sf_word := hb_safetyWord h OR ESTOP_BIT, sf_cause := estop_cause f, sf_seq := estop_seq f \<rparr>)"
proof -
  let ?block = "whenever (hb_safetyWord h AND ESTOP_BIT = 0) (do {
      app_tell (env_onEstop E (estop_cause f) (estop_origin f));
      modify (\<lambda>h. h \<lparr> hb_safetyWord := hb_safetyWord h OR ESTOP_BIT, hb_safetyCause := estop_cause f,
                        hb_estopSeq := estop_seq f \<rparr>);
      publishSafetySnapshot })"
  have "safety_of (snd (run_state (handleEstopFrame E f now) h)) = safety_of (snd (run_state ?block h))"
    using calmD(1) [OF safety_announce [of E now "hb_safetyWord h"], of "snd (run_state ?block h)"]
    by (simp add: handleEstopFrame_def split_beta)
  then show ?thesis
    by (simp add: whenever_def publishSafetySnapshot_def hub_retain_def app_tell_def split_beta Let_def safety_of_def estopLatched_def)
qed

lemma receive_estop:
  "safety_of (snd (run_state (receiveFrame E i (FrameBuffer_from (estop_bytes f)) now) h)) =
    (if estopLatched h then safety_of h
     else (safety_of h) \<lparr> sf_word := hb_safetyWord h OR ESTOP_BIT, sf_cause := estop_cause f, sf_seq := estop_seq f \<rparr>)"
proof -
  let ?h = "snd (run_state (noteReceived E i now) h)"
  have same: "safety_of ?h = safety_of h" using calmD(1) [OF safety_noteReceived [of E i now], of h] by simp
  then have "estopLatched ?h = estopLatched h" "hb_safetyWord ?h = hb_safetyWord h" by (simp_all add: safety_of_def estopLatched_def)
  moreover have "run_state (receiveFrame E i (FrameBuffer_from (estop_bytes f)) now) h = run_state (handleEstopFrame E f now) ?h"
    using decodeEstop_estop_bytes [of f "[]"]
    by (simp add: receiveFrame_def kFrameBufferCapacity_def kEstopFrameBytes_def split_beta)
      (simp add: estop_bytes_def estop_head_def split_beta)
  ultimately show ?thesis using handleEstopFrame_safety [of E f now ?h] same by simp
qed

section \<open>The client's side\<close>

text \<open>The client will adopt a STATE frame for the safety channel with this sequence number.\<close>

definition awaits :: "u16 \<Rightarrow> ('t, 'd, 'r) Client \<Rightarrow> bool" where
  "awaits seq c \<longleftrightarrow>
    (case find_index (\<lambda>e. sw_used e \<and> sw_channel e = ch_safety) (cl_shadows c) of
       Some i \<Rightarrow> length (ss_value (sw_slot (cl_shadows c ! i))) \<ge> 9 \<and>
         (ss_valid (sw_slot (cl_shadows c ! i)) \<longrightarrow> seqIsNewer seq (ss_seq (sw_slot (cl_shadows c ! i))))
     | None \<Rightarrow> \<exists>e \<in> set (cl_shadows c). \<not> sw_used e)"

definition reached :: "bytes \<Rightarrow> ('t, 'd, 'r) Client \<Rightarrow> bool" where
  "reached payload c \<longleftrightarrow> payload ! 0 AND 1 \<noteq> 0 \<and>
    (getU16 (take 2 (drop 6 payload)) = cl_estopSentSeq c \<or> seqIsNewer (getU16 (take 2 (drop 6 payload))) (cl_estopSentSeq c))"

lemma run_observeEstop:
  "run_state (observeEstop ch payload) c =
    ((), if ch = ch_safety \<and> cl_estopActive c \<and> length payload \<ge> 8 \<and> reached payload c
         then c \<lparr> cl_estopActive := False, cl_estopSendFailed := False \<rparr> else c)"
  by (simp add: observeEstop_def whenever_def Let_def reached_def)

lemma run_adoption:
  "run_state (do { st \<leftarrow> gets cl_state;
      whenever (st = C_SYNCING \<and> \<not> b) (do { modify (\<lambda>c. c \<lparr> cl_adoptedCount := cl_adoptedCount c + 1 \<rparr>); checkLiveTransition E });
      observeEstop ch_safety payload }) c = ((), c') \<Longrightarrow> length payload \<ge> 8 \<Longrightarrow> cl_estopActive c \<Longrightarrow>
    cl_estopActive c' = (\<not> reached payload c) \<and> (reached payload c \<longrightarrow> \<not> cl_estopSendFailed c')"
  by (auto simp: run_observeEstop checkLiveTransition_def setState_def tell_def whenever_def reached_def split: if_splits)

lemma findOrCreate_awaits:
  assumes "awaits seq c" and "length payload = 9"
  obtains i c1 where "run_state (findOrCreateShadow ch_safety) c = (Some i, c1)" "c1 = c \<lparr> cl_shadows := cl_shadows c1 \<rparr>"
    "fst (applyStateFrame seq payload (sw_slot (cl_shadows c1 ! i)) False)"
proof (cases "find_index (\<lambda>e. sw_used e \<and> sw_channel e = ch_safety) (cl_shadows c)")
  case (Some i)
  then show thesis using assms that [of i c] by (auto simp: awaits_def findOrCreateShadow_def applyStateFrame_def)
next
  case none: None
  then have "\<exists>e \<in> set (cl_shadows c). \<not> sw_used e" using assms(1) by (simp add: awaits_def)
  then obtain i where i: "find_index (\<lambda>e. \<not> sw_used e) (cl_shadows c) = Some i"
    by (cases "find_index (\<lambda>e. \<not> sw_used e) (cl_shadows c)") (auto simp: find_index_None)
  let ?c = "c \<lparr> cl_shadows := (cl_shadows c)[i := \<lparr> sw_channel = ch_safety, sw_used = True, sw_slot = ShadowSlot_new \<rparr>] \<rparr>"
  have "fst (applyStateFrame seq payload (sw_slot (cl_shadows ?c ! i)) False)"
    using find_index_Some [OF i] assms(2) by (simp add: applyStateFrame_def ShadowSlot_new_def)
  then show thesis using none i that [of i ?c] by (simp add: findOrCreateShadow_def)
qed

lemma handleState_safety:
  fixes E :: "('t, 'd, 'r) ClientEnv"
  assumes "awaits seq c" and "length payload = 9" and "cl_estopActive c"
  defines "c' \<equiv> snd (run_state (client_handleState E ch_safety seq payload) c)"
  shows "cl_estopActive c' = (\<not> reached payload c) \<and> (reached payload c \<longrightarrow> \<not> cl_estopSendFailed c')"
proof -
  obtain i c1 where f: "run_state (findOrCreateShadow ch_safety) c = (Some i, c1)" "c1 = c \<lparr> cl_shadows := cl_shadows c1 \<rparr>"
      and acc: "fst (applyStateFrame seq payload (sw_slot (cl_shadows c1 ! i)) False)"
    using findOrCreate_awaits [OF assms(1,2)] .
  obtain x slot' where a: "applyStateFrame seq payload (sw_slot (cl_shadows c1 ! i)) False = (True, x, slot')"
    using acc by (cases "applyStateFrame seq payload (sw_slot (cl_shadows c1 ! i)) False") auto
  let ?c = "c1 \<lparr> cl_readyPending := False, cl_shadows := (cl_shadows c1)[i := (cl_shadows c1 ! i) \<lparr> sw_slot := slot' \<rparr>],
      cl_app := cx_onState E ch_safety seq payload (cl_app c1) \<rparr>"
  let ?rest = "do { st \<leftarrow> gets cl_state;
      whenever (st = C_SYNCING \<and> \<not> ss_valid (sw_slot (cl_shadows c1 ! i)))
        (do { modify (\<lambda>c. c \<lparr> cl_adoptedCount := cl_adoptedCount c + 1 \<rparr>); checkLiveTransition E });
      observeEstop ch_safety payload }"
  have "run_state (client_handleState E ch_safety seq payload) c = run_state ?rest ?c"
    unfolding client_handleState_def by (simp add: f(1) a tell_def Let_def)
  then have "run_state ?rest ?c = ((), c')" by (simp add: c'_def prod_eq_iff)
  moreover have "cl_estopActive ?c = cl_estopActive c" "cl_estopSentSeq ?c = cl_estopSentSeq c"
    by (simp_all, (subst f(2), simp)+)
  ultimately show ?thesis
    using run_adoption [of "ss_valid (sw_slot (cl_shadows c1 ! i))" E payload ?c c'] assms(2,3) by (simp add: reached_def)
qed

lemma safety_payload:
  "length (buildSafetyPayload h) = 9" "buildSafetyPayload h ! 0 = hb_safetyWord h" "getU16 (take 2 (drop 6 (buildSafetyPayload h))) = hb_estopSeq h"
  by (simp_all add: buildSafetyPayload_bytes safety_bytes_def safety_of_def u32_bytes_def)

section \<open>Both ends\<close>

text \<open>(C10) An ESTOP closes its loop. Whatever the hub is doing and whoever sends it, if the hub is not latched yet and the client's ESTOP
  frame, as the client writes it, arrives on one of its links, then the hub is latched with the frame's cause and sequence number; and
  when the client next adopts the hub's safety snapshot, it stops repeating and does not report a failure.\<close>

theorem estop_acknowledged:
  assumes "\<not> estopLatched h" and "cl_estopActive c" and "awaits seq c"
  shows "let h' = snd (run_state (receiveFrame Eh i (FrameBuffer_from (estop_bytes (estopOf c))) now) h);
             c' = snd (run_state (client_handleState Ec ch_safety seq (buildSafetyPayload h')) c)
         in estopLatched h' \<and> hb_safetyCause h' = cl_estopCause c \<and> hb_estopSeq h' = cl_estopSentSeq c \<and>
            \<not> cl_estopActive c' \<and> \<not> estopSendFailed c'"
proof -
  define h' where "h' = snd (run_state (receiveFrame Eh i (FrameBuffer_from (estop_bytes (estopOf c))) now) h)"
  have "safety_of h' = (safety_of h) \<lparr> sf_word := hb_safetyWord h OR ESTOP_BIT, sf_cause := cl_estopCause c, sf_seq := cl_estopSentSeq c \<rparr>"
    using receive_estop [of Eh i "estopOf c" now h] assms(1) by (simp add: h'_def estopOf_def)
  then have w: "hb_safetyWord h' = hb_safetyWord h OR ESTOP_BIT" "hb_safetyCause h' = cl_estopCause c" "hb_estopSeq h' = cl_estopSentSeq c"
    by (simp_all add: safety_of_def)
  have bit: "hb_safetyWord h' AND 1 \<noteq> 0"
  proof
    assume "hb_safetyWord h' AND 1 = 0"
    then have "bit (hb_safetyWord h' AND 1) 0 = False" by simp
    then show False by (simp add: w(1) bit_or_iff bit_and_iff)
  qed
  then have "reached (buildSafetyPayload h') c" by (simp add: reached_def safety_payload w(3))
  then show ?thesis
    using handleState_safety [OF assms(3) safety_payload(1) assms(2), of Ec h'] w bit
    by (simp add: estopLatched_def Let_def estopSendFailed_def h'_def [symmetric])
qed

text \<open>A second ESTOP is never acknowledged. If the hub is already latched with an older sequence number than the client's ESTOP (for
  instance from an earlier press on the same client), the frame changes nothing on the safety plane, and the hub's snapshot does not stop
  the client's repetition: the client is bound to report a failure although the machine is stopped.\<close>

theorem estop_second_press_unacknowledged:
  assumes "estopLatched h" and "hb_estopSeq h \<noteq> cl_estopSentSeq c" and "\<not> seqIsNewer (hb_estopSeq h) (cl_estopSentSeq c)"
    and "cl_estopActive c" and "awaits seq c"
  shows "let h' = snd (run_state (receiveFrame Eh i (FrameBuffer_from (estop_bytes (estopOf c))) now) h);
             c' = snd (run_state (client_handleState Ec ch_safety seq (buildSafetyPayload h')) c)
         in estopLatched h' \<and> buildSafetyPayload h' = buildSafetyPayload h \<and> cl_estopActive c'"
proof -
  define h' where "h' = snd (run_state (receiveFrame Eh i (FrameBuffer_from (estop_bytes (estopOf c))) now) h)"
  have s: "safety_of h' = safety_of h" using receive_estop [of Eh i "estopOf c" now h] assms(1) by (simp add: h'_def)
  then have w: "hb_safetyWord h' = hb_safetyWord h" "hb_estopSeq h' = hb_estopSeq h" by (simp_all add: safety_of_def)
  have "\<not> reached (buildSafetyPayload h') c" using assms(2,3) by (simp add: reached_def safety_payload w)
  then show ?thesis
    using handleState_safety [OF assms(5) safety_payload(1) assms(4), of Ec h'] assms(1) w s
    by (simp add: estopLatched_def buildSafetyPayload_bytes Let_def h'_def [symmetric])
qed

section \<open>The repetition\<close>

text \<open>Pumps at the times \<open>ts\<close>, each at least the repeat interval after the one before.\<close>

fun pumpsEstop :: "('t, 'd, 'r) ClientEnv \<Rightarrow> u32 list \<Rightarrow> ('t, 'd, 'r) Client \<Rightarrow> ('t, 'd, 'r) Client" where
  "pumpsEstop E [] c = c"
| "pumpsEstop E (t # ts) c = pumpsEstop E ts (snd (run_state (pumpEstopRepeat E t) c))"

fun spaced :: "u32 \<Rightarrow> u32 list \<Rightarrow> bool" where
  "spaced prev [] \<longleftrightarrow> True"
| "spaced prev (t # ts) \<longleftrightarrow> timeReached t (prev + estop_repeat_interval_ms) \<and> spaced t ts"

lemma pump_sends:
  assumes "cl_estopActive c" "cl_estopAttempts c < 20" "timeReached t (cl_lastEstopSendMs c + 50)"
  shows "run_state (pumpEstopRepeat E t) c =
    ((), c \<lparr> cl_wire := snd (cx_write E (estop_bytes (estopOf c)) (cl_wire c)), cl_lastTxMs := t,
             cl_estopAttempts := cl_estopAttempts c + 1, cl_lastEstopSendMs := t \<rparr>)"
  using assms
  by (simp add: pumpEstopRepeat_def encodeEstop_fits kEstopFrameBytes_def poke_prefix whenever_def client_write_def split_beta Let_def
      not_le)

lemma pumpsEstop_sends:
  assumes "cl_estopActive c" "spaced (cl_lastEstopSendMs c) ts" "unat (cl_estopAttempts c) + length ts \<le> 20"
  shows "cl_estopActive (pumpsEstop E ts c) \<and> unat (cl_estopAttempts (pumpsEstop E ts c)) = unat (cl_estopAttempts c) + length ts \<and>
    estopOf (pumpsEstop E ts c) = estopOf c \<and>
    cl_wire (pumpsEstop E ts c) = ((\<lambda>w. snd (cx_write E (estop_bytes (estopOf c)) w)) ^^ length ts) (cl_wire c)"
  using assms
proof (induction ts arbitrary: c)
  case (Cons t ts)
  let ?c = "snd (run_state (pumpEstopRepeat E t) c)"
  have n: "cl_estopAttempts c < 20" using Cons.prems(3) by (simp add: word_less_nat_alt)
  note s = pump_sends [OF Cons.prems(1) n, of t E]
  have a: "unat (cl_estopAttempts c + 1) = unat (cl_estopAttempts c) + 1"
    using Cons.prems(3) by (simp add: unat_word_ariths)
  have "estopOf ?c = estopOf c" using s Cons.prems(2) by (simp add: estopOf_def)
  then show ?case
    using Cons.IH [of ?c] Cons.prems s a funpow_swap1 [of "\<lambda>w. snd (cx_write E (estop_bytes (estopOf c)) w)" "length ts" "cl_wire c"]
    by simp
qed simp

lemma run_initiateEstop:
  "run_state (initiateEstop E cause) c =
    (let f = \<lparr> estop_cause = cause, estop_origin = cl_roles c, estop_seq = cl_estopNextSeq c \<rparr> in
     ((), c \<lparr> cl_estopActive := True, cl_estopSendFailed := False, cl_estopCause := cause, cl_estopSentSeq := cl_estopNextSeq c,
       cl_estopNextSeq := (if cl_estopNextSeq c + 1 = 0 then 1 else cl_estopNextSeq c + 1),
       cl_wire := snd (cx_write E (estop_bytes f) (cl_wire c)), cl_lastTxMs := client_nowMs c, cl_estopAttempts := 1,
       cl_lastEstopSendMs := client_nowMs c \<rparr>))"
  by (simp add: initiateEstop_def estopOf_def encodeEstop_fits kEstopFrameBytes_def poke_prefix whenever_def client_write_def split_beta
      Let_def client_nowMs_def)

text \<open>(C21) The repetition is bounded and ends with a report. If nothing acknowledges the ESTOP that was initiated, then while pumps come at
  least the repeat interval apart, each of the first nineteen writes the very same frame once more, and the twentieth ends the repetition
  and reports the failure; twenty frames have been written in all, the first one by \<^verbatim>\<open>initiateEstop\<close>.\<close>

theorem estop_repeat_bounded:
  assumes "spaced (client_nowMs c) ts" and "length ts = 19"
  shows "let c0 = snd (run_state (initiateEstop E cause) c);
             send = (\<lambda>w. snd (cx_write E (estop_bytes (estopOf c0)) w));
             c1 = pumpsEstop E ts c0;
             c2 = snd (run_state (pumpEstopRepeat E t) c1)
         in cl_estopActive c1 \<and> cl_wire c1 = (send ^^ 20) (cl_wire c) \<and>
            \<not> cl_estopActive c2 \<and> estopSendFailed c2 \<and> cl_wire c2 = cl_wire c1"
proof -
  define c0 where "c0 = snd (run_state (initiateEstop E cause) c)"
  let ?send = "\<lambda>w. snd (cx_write E (estop_bytes (estopOf c0)) w)"
  have c0: "cl_estopActive c0" "cl_lastEstopSendMs c0 = client_nowMs c" "cl_estopAttempts c0 = 1" "cl_wire c0 = ?send (cl_wire c)"
    by (simp_all add: c0_def run_initiateEstop Let_def estopOf_def)
  let ?c1 = "pumpsEstop E ts c0"
  have c1: "cl_estopActive ?c1" "unat (cl_estopAttempts ?c1) = 20" "cl_wire ?c1 = (?send ^^ 19) (cl_wire c0)"
    using pumpsEstop_sends [of c0 ts E] c0 assms by simp_all
  have w: "(?send ^^ 20) (cl_wire c) = (?send ^^ 19) (?send (cl_wire c))"
    using funpow_Suc_right [of 19 ?send] by (simp add: numeral_eq_Suc)
  have "20 \<le> cl_estopAttempts ?c1" using c1(2) by (simp add: word_le_nat_alt)
  then have "run_state (pumpEstopRepeat E t) ?c1 = ((), ?c1 \<lparr> cl_estopActive := False, cl_estopSendFailed := True \<rparr>)"
    using c1(1) by (simp add: pumpEstopRepeat_def)
  then show ?thesis using c1 c0(4) w by (simp add: c0_def [symmetric] Let_def estopSendFailed_def)
qed

section \<open>Witnesses\<close>

definition cbench_stop :: cbench where
  "cbench_stop = snd (run_state (initiateEstop cbench_env 3) (cbench_live 1))"

lemma cbench_stop_simps:
  "cl_estopActive cbench_stop" "cl_estopSentSeq cbench_stop = 1" "cl_shadows cbench_stop = replicate 16 ShadowEntry_new"
  "cl_estopCause cbench_stop = 3"
  by (simp_all add: cbench_stop_def run_initiateEstop Let_def cbench_live_def cbench_hello_def cbench_start_def Client_new_def)

lemma cbench_awaits: "awaits 1 cbench_stop" "awaits 1 (cbench_stop \<lparr> cl_estopSentSeq := s \<rparr>)"
  by (simp_all add: awaits_def cbench_stop_simps ShadowEntry_new_def numeral_eq_Suc)

theorem estop_acknowledged_witness:
  "let h' = snd (run_state (receiveFrame bench_env 0 (FrameBuffer_from (estop_bytes (estopOf cbench_stop))) 1) bench_joined);
       c' = snd (run_state (client_handleState cbench_env ch_safety 1 (buildSafetyPayload h')) cbench_stop)
   in estopLatched h' \<and> hb_safetyCause h' = 3 \<and> hb_estopSeq h' = 1 \<and> \<not> cl_estopActive c' \<and> \<not> estopSendFailed c'"
proof -
  have "\<not> estopLatched bench_joined" by (simp add: estopLatched_def bench_joined_simps)
  from estop_acknowledged [OF this cbench_stop_simps(1) cbench_awaits(1), of bench_env 0 1 cbench_env] show ?thesis
    by (simp only: cbench_stop_simps)
qed

theorem estop_second_press_unacknowledged_witness:
  "let c = cbench_stop \<lparr> cl_estopSentSeq := 2 \<rparr>;
       h' = snd (run_state (receiveFrame bench_env 0 (FrameBuffer_from (estop_bytes (estopOf c))) 1) bench_estopped);
       c' = snd (run_state (client_handleState cbench_env ch_safety 1 (buildSafetyPayload h')) c)
   in estopLatched h' \<and> buildSafetyPayload h' = buildSafetyPayload bench_estopped \<and> cl_estopActive c'"
proof -
  have h: "estopLatched bench_estopped" "hb_estopSeq bench_estopped = 1"
    using handleEstopFrame_safety [of bench_env "\<lparr> estop_cause = 0, estop_origin = 0, estop_seq = 1 \<rparr>"
        "fst (run_state clockNowMs bench_joined)" bench_joined]
    by (simp_all add: estopLatched_def bench_estopped_def latchEstop_def bench_joined_simps clockNowMs_def safety_of_def)
  let ?c = "cbench_stop \<lparr> cl_estopSentSeq := 2 \<rparr>"
  have c: "hb_estopSeq bench_estopped \<noteq> cl_estopSentSeq ?c" "\<not> seqIsNewer (hb_estopSeq bench_estopped) (cl_estopSentSeq ?c)" "cl_estopActive ?c"
    by (simp_all add: h(2) seqIsNewer_def cbench_stop_simps)
  from estop_second_press_unacknowledged [OF h(1) c cbench_awaits(2), of bench_env 0 1 cbench_env] show ?thesis
    unfolding Let_def .
qed

theorem estop_repeat_bounded_witness:
  "estopSendFailed (snd (run_state (pumpEstopRepeat cbench_env 5000) (pumpsEstop cbench_env (map (\<lambda>k. 50 * of_nat k) [1..<20])
     (snd (run_state (initiateEstop cbench_env 3) (cbench_live 1))))))"
proof -
  have now: "client_nowMs (cbench_live 1) = 0"
    by (simp add: client_nowMs_def nowMs_def cbench_live_def cbench_hello_def cbench_start_def Client_new_def)
  have "spaced 0 (map (\<lambda>k. 50 * of_nat k) [1..<20])" by code_simp
  then show ?thesis
    using estop_repeat_bounded [of "cbench_live 1" "map (\<lambda>k. 50 * of_nat k) [1..<20]" cbench_env 3 5000] now by (simp add: Let_def)
qed

end
