(* ===== verification/Client_Catalog.thy ===== *)
theory Client_Catalog
  imports Client_Bench Hub_Properties
begin

text \<open>
  The catalog transfer across both ends: the chunks the hub cuts from its encoded catalog (\<^verbatim>\<open>fillBlobChunk\<close>), in any order and
  with repetitions, through the client's handler (\<^verbatim>\<open>handleBlobChunk\<close>), up to the etag that the client adopts and declares.
\<close>

section \<open>Definitions\<close>

text \<open>The chunks with the given indices, as the hub sends them, handled one after the other; each comes with the time of the
  update that reads it.\<close>

fun deliverChunks :: "('t, 'd, 'r) ClientEnv \<Rightarrow> bytes \<Rightarrow> (nat \<times> u32) list \<Rightarrow> ('t, 'd, 'r) Client \<Rightarrow> ('t, 'd, 'r) Client" where
  "deliverChunks E encoded [] c = c"
| "deliverChunks E encoded ((k, now) # ks) c =
    deliverChunks E encoded ks (snd (run_state (handleBlobChunk E
      (sent_chunk (BlobId_new \<lparr> bi_generation := Some 0 \<rparr>) encoded (replicate 206 0) k) now) c))"

section \<open>What sending and the LIVE gate leave alone\<close>

definition catalog_part :: "('t, 'd, 'r) Client \<Rightarrow> bytes \<times> bytes \<times> bool \<times> ChunkReassembler \<times> u16 \<times> bytes" where
  "catalog_part c = (cl_cachedEtag c, cl_hubEtag c, cl_catalogReady c, cl_chunkReassembler c, cl_catalogChunkCount c, cl_readyEtag c)"

abbreviation keeps_catalog :: "(('t, 'd, 'r) Client, 'a) state \<Rightarrow> bool" where
  "keeps_catalog \<equiv> calm catalog_part (\<lambda>_ _. True) (\<lambda>_. True)"

lemma catalog_modify: "(\<And>c. catalog_part (f c) = catalog_part c) \<Longrightarrow> keeps_catalog (modify f)"
  by (simp add: calm_def)

lemmas catalog_rules = calm_if calm_option calm_sum calm_prod calm_let anyhow.calm_return anyhow.calm_gets anyhow.calm_bind
  anyhow.calm_when catalog_modify

lemma catalog_sendFrame: "keeps_catalog (client_sendFrame E type channel payload)"
proof -
  have "keeps_catalog (client_write E bs)" for bs
    by (simp add: calm_def client_write_def split_beta Let_def catalog_part_def)
  then show ?thesis unfolding client_sendFrame_def Let_def by (intro catalog_rules) (simp_all add: catalog_part_def)
qed

lemma catalog_checkLive: "keeps_catalog (checkLiveTransition E)"
  unfolding checkLiveTransition_def setState_def tell_def by (intro catalog_rules) (simp_all add: catalog_part_def)

lemma map_nth_take: "length e = etag_bytes \<Longrightarrow> map ((!) e) [0..<etag_bytes] = e"
  by (metis map_nth)

lemma adoptCatalog_verified:
  assumes "cl_hubEtag c = take 8 (sha_hash bs)" and "length (cl_readyEtag c) = 8"
  shows "catalog_part (snd (run_state (adoptCatalog E bs) c)) =
    (cl_hubEtag c, cl_hubEtag c, True, cl_chunkReassembler c, cl_catalogChunkCount c, cl_hubEtag c)"
proof -
  let ?e = "cl_hubEtag c"
  have len: "length ?e = 8" using assms(1) by (simp add: length_sha_hash)
  have m: "list_all (\<lambda>i. sha_hash bs ! i = ?e ! i) [0..<length ?e]" unfolding len by (simp add: assms(1) list_all_iff)
  have e: "map (\<lambda>i. ?e ! i) [0..<8] = ?e" using len by (metis map_nth)
  let ?c = "c \<lparr> cl_cachedEtag := ?e, cl_catalogReady := True, cl_readyEtag := ?e \<rparr>"
  let ?send = "do {
      ok \<leftarrow> client_sendFrame E FT_CATALOG_READY 0 ?e;
      whenever ok (modify (\<lambda>c. c \<lparr> cl_readyPending := True, cl_lastReadySendMs := client_nowMs c,
                                     cl_readyAttempts := cl_readyAttempts c + 1 \<rparr>)) }"
  have "keeps_catalog (do { ?send; checkLiveTransition E })"
    by (intro catalog_rules catalog_sendFrame catalog_checkLive) (simp add: catalog_part_def)
  from calmD(1) [OF this, of ?c] have "catalog_part (snd (run_state (do { ?send; checkLiveTransition E }) ?c)) = catalog_part ?c" by simp
  moreover have "run_state (adoptCatalog E bs) c = run_state (do { ?send; checkLiveTransition E }) ?c"
    using m e len assms(2)
    by (simp add: adoptCatalog_def sendCatalogReady_def encodeCatalogReady_def kCatalogReadyBytes_def etag_bytes_def poke_prefix
        whenever_def Let_def)
  ultimately show ?thesis by (simp add: catalog_part_def)
qed

section \<open>One chunk\<close>

lemma catalog_chunk:
  assumes "chunkCount (length encoded) < 2 ^ 16" and "k < chunkCount (length encoded)"
  shows "sent_chunk (BlobId_new \<lparr> bi_generation := Some 0 \<rparr>) encoded (replicate 206 0) k = chunk_bytes BlobId_new encoded k"
proof -
  have "k < 2 ^ 16" using assms by simp
  then have "sent_chunk (BlobId_new \<lparr> bi_generation := Some 0 \<rparr>) encoded (replicate 206 0) k =
      chunk_bytes (BlobId_new \<lparr> bi_generation := Some 0 \<rparr>) encoded k"
    using fillBlobChunk_image(1) [OF assms(2), of "replicate 206 0" "BlobId_new \<lparr> bi_generation := Some 0 \<rparr>"]
    by (simp add: sent_chunk_def split_beta)
  also have "\<dots> = chunk_bytes BlobId_new encoded k"
    by (simp add: chunk_bytes_def chunk_header_image_def BlobId_new_def opt0_def)
  finally show ?thesis .
qed

lemma catalog_chunk_header:
  "getBlobChunkHeader (chunk_bytes BlobId_new encoded k) = Some \<lparr> bh_id = BlobId_new, bh_chunk_index = of_nat k,
     bh_chunk_count = of_nat (chunkCount (length encoded)), bh_total_bytes = of_nat (length encoded) \<rparr>"
  by (simp add: getBlobChunkHeader_def chunk_bytes_def chunk_header_image_def BlobId_new_def opt0_def kBlobChunkHeaderBytes_def Let_def)

text \<open>Where the transfer stands when the chunks \<open>got\<close> have arrived; \<open>e0\<close> is the etag that was cached before.\<close>

definition transferring :: "bytes \<Rightarrow> bytes \<Rightarrow> nat set \<Rightarrow> ('t, 'd, 'r) Client \<Rightarrow> bool" where
  "transferring encoded e0 got c \<longleftrightarrow>
    cl_hubEtag c = take 8 (sha_hash encoded) \<and> length (cl_readyEtag c) = 8 \<and>
    (if got = {} then cl_chunkReassembler c = ChunkReassembler_new 64
     else cr_has 64 BlobId_new encoded got (cl_chunkReassembler c) \<and> cl_catalogChunkCount c = of_nat (chunkCount (length encoded))) \<and>
    (if got = {..<chunkCount (length encoded)} then cl_catalogReady c \<and> cl_cachedEtag c = cl_hubEtag c \<and> cl_readyEtag c = cl_hubEtag c
     else \<not> cl_catalogReady c \<and> cl_cachedEtag c = e0)"

lemma cr_has_complete:
  assumes "transfer_ok maxChunks i encoded" and "cr_has maxChunks i encoded got r"
  shows "cr_complete r \<longleftrightarrow> got = {..<chunkCount (length encoded)}" "cr_complete r \<Longrightarrow> cr_assembled r = encoded"
proof -
  let ?cc = "chunkCount (length encoded)"
  have cc: "?cc < 2 ^ 16" using assms(1) by (auto simp: transfer_ok_def)
  have a: "cr_active r" "cr_chunkCount r = of_nat ?cc" "cr_totalBytes r = length encoded" "length (cr_buf r) = maxChunks * 192"
    "got \<subseteq> {..<?cc}" "cr_receivedCount r = of_nat (card got)"
    "\<And>k. k \<in> got \<Longrightarrow> take (length (blob_piece encoded k)) (drop (k * 192) (cr_buf r)) = blob_piece encoded k"
    using assms(2) by (simp_all add: cr_has_def Let_def)
  show fin: "cr_complete r \<longleftrightarrow> got = {..<?cc}" using a(1,2,6) unat_of_nat_card [OF a(5) cc] by (simp add: cr_complete_def)
  show "cr_assembled r = encoded" if "cr_complete r"
    using that fin a(7) pieces_all [of encoded "cr_buf r"] transfer_total [OF assms(1)] a(1,3,4) by (simp add: cr_assembled_def)
qed

lemma handleBlobChunk_transfers:
  assumes t: "transfer_ok 64 BlobId_new encoded" and inv: "transferring encoded e0 got c" and k: "k < chunkCount (length encoded)"
  shows "transferring encoded e0 (insert k got) (snd (run_state (handleBlobChunk E (chunk_bytes BlobId_new encoded k) now) c))"
proof -
  let ?p = "chunk_bytes BlobId_new encoded k" and ?cc = "chunkCount (length encoded)"
  have cc: "?cc \<le> 64" "length encoded \<le> 12288" using t transfer_total [OF t] by (auto simp: transfer_ok_def)
  have u: "unat (of_nat ?cc :: u16) = ?cc" "unat (of_nat k :: u16) = k" "unat (of_nat (length encoded) :: u32) = length encoded"
    using cc k by (simp_all add: unat_of_nat)
  then have idx: "(of_nat k :: u16) < of_nat ?cc" "(of_nat ?cc :: u16) \<noteq> 0"
    using k by (simp_all add: word_less_nat_alt) (metis unat_0 k less_nat_zero_code u(1))
  let ?b = "\<not> cr_active (cl_chunkReassembler c) \<or> cl_catalogChunkCount c \<noteq> of_nat ?cc"
  define r0 where "r0 = (if ?b then cr_begin 64 BlobId_new (of_nat ?cc) (length encoded) now (cl_chunkReassembler c) else cl_chunkReassembler c)"
  have has0: "cr_has 64 BlobId_new encoded got r0"
  proof (cases "got = {}")
    case True
    then have "cl_chunkReassembler c = ChunkReassembler_new 64" using inv by (simp add: transferring_def)
    then show ?thesis using True cr_begin_has [OF t, of "ChunkReassembler_new 64" now] by (simp add: r0_def ChunkReassembler_new_def)
  next
    case False
    then have "cr_has 64 BlobId_new encoded got (cl_chunkReassembler c)" "\<not> ?b" using inv by (auto simp: transferring_def cr_has_def Let_def)
    then show ?thesis by (simp add: r0_def)
  qed
  define r1 where "r1 = snd (cr_insert ?p now r0)"
  have has1: "cr_has 64 BlobId_new encoded (insert k got) r1" unfolding r1_def by (rule cr_insert_has(2) [OF t has0 k])
  note fin = cr_has_complete [OF t has1]
  let ?c = "c \<lparr> cl_catalogChunkCount := of_nat ?cc, cl_chunkReassembler := r1 \<rparr>"
  have cat: "isCatalog BlobId_new" by (simp add: isCatalog_def BlobId_new_def)
  have begun: "run_state (whenever ?b (modify (\<lambda>c. c \<lparr> cl_chunkReassembler := cr_begin 64 BlobId_new (of_nat ?cc) (length encoded) now (cl_chunkReassembler c),
      cl_catalogChunkCount := of_nat ?cc \<rparr>))) c = ((), c \<lparr> cl_chunkReassembler := r0, cl_catalogChunkCount := of_nat ?cc \<rparr>)"
    by (cases ?b) (simp_all add: whenever_def r0_def)
  have guard: "\<not> ((of_nat ?cc :: u16) = 0 \<or> (of_nat ?cc :: u16) \<le> of_nat k)" using idx by (simp add: not_le)
  have "run_state (handleBlobChunk E ?p now) c = run_state (whenever (cr_complete r1) (adoptCatalog E (cr_assembled r1))) ?c"
    unfolding handleBlobChunk_def catalog_chunk_header option.case BlobChunkHeader.select_convs if_not_P [OF guard] u(3)
    using cat begun by (simp add: r1_def)
  then have run: "run_state (handleBlobChunk E ?p now) c = run_state (whenever (cr_complete r1) (adoptCatalog E encoded)) ?c"
    using fin(2) by (cases "cr_complete r1") (simp_all add: whenever_def)
  have e: "cl_hubEtag ?c = take 8 (sha_hash encoded)" "length (cl_readyEtag ?c) = 8" using inv by (simp_all add: transferring_def)
  show ?thesis
  proof (cases "cr_complete r1")
    case True
    then have "catalog_part (snd (run_state (handleBlobChunk E ?p now) c)) = (cl_hubEtag c, cl_hubEtag c, True, r1, of_nat ?cc, cl_hubEtag c)"
      using adoptCatalog_verified [OF e, of E] by (simp add: run whenever_def)
    moreover have "{..<?cc} \<noteq> {}" using k by auto
    ultimately show ?thesis using True fin has1 e by (simp add: catalog_part_def transferring_def length_sha_hash)
  next
    case False
    then have g: "insert k got \<noteq> {..<?cc}" using fin(1) by simp
    have "got \<noteq> {..<?cc}" using g k by auto
    then show ?thesis using False g inv has1 by (simp add: run whenever_def transferring_def)
  qed
qed

text \<open>A catalog of more than 64 chunks: the client refuses to begin, with every chunk anew.\<close>

definition refusing :: "bytes \<Rightarrow> ('t, 'd, 'r) Client \<Rightarrow> bool" where
  "refusing e0 c \<longleftrightarrow> \<not> cr_active (cl_chunkReassembler c) \<and> \<not> cl_catalogReady c \<and> cl_cachedEtag c = e0"

lemma handleBlobChunk_refuses:
  assumes "64 < chunkCount (length encoded)" and "chunkCount (length encoded) < 2 ^ 16" and "refusing e0 c"
  shows "refusing e0 (snd (run_state (handleBlobChunk E (chunk_bytes BlobId_new encoded k) now) c))"
proof -
  let ?cc = "chunkCount (length encoded)" and ?p = "chunk_bytes BlobId_new encoded k"
  have "unat (of_nat ?cc :: u16) = ?cc" using assms(2) by (simp add: unat_of_nat)
  then have "\<not> cr_active (cr_begin 64 BlobId_new (of_nat ?cc) total now r)" for total r using assms(1) by (simp add: cr_begin_def Let_def)
  moreover from this have "snd (cr_insert ?p now (cr_begin 64 BlobId_new (of_nat ?cc) total now r)) = cr_begin 64 BlobId_new (of_nat ?cc) total now r"
    for total r by (simp add: cr_insert_def)
  ultimately show ?thesis
    using assms(3) by (simp add: handleBlobChunk_def catalog_chunk_header whenever_def refusing_def cr_complete_def)
qed

text \<open>(C11) The catalog arrives and is the right one, if it fits. Let the client have been told an etag that it does not have, so that it asked for the
  catalog; let chunks of an encoded catalog with that etag, of at most the 32768 bytes that a hub has room for, arrive in any order, some of
  them several times, at any times. If the catalog has at most 12288 bytes (the 64 chunks of the client's reassembler), the
  client holds itself ready exactly when every chunk has arrived, and not before; from then on its cached etag, and the etag it declared
  to the hub, are the hub's; until then its cached etag is the old one. If it has more, the client never becomes ready and keeps the old
  etag, however many chunks arrive.\<close>

theorem catalog_transfer_adopts:
  assumes "encoded \<noteq> []" and "length encoded \<le> 32768" and "cl_hubEtag c = take 8 (sha_hash encoded)" and "length (cl_readyEtag c) = 8"
    and "cl_chunkReassembler c = ChunkReassembler_new 64" and "\<not> cl_catalogReady c"
    and "list_all (\<lambda>(k, now). k < chunkCount (length encoded)) ks"
  shows "let c' = deliverChunks E encoded ks c
         in if length encoded \<le> 12288 then
              (cl_catalogReady c' \<longleftrightarrow> fst ` set ks = {..<chunkCount (length encoded)}) \<and>
              (if cl_catalogReady c' then cl_cachedEtag c' = take 8 (sha_hash encoded) \<and> cl_readyEtag c' = take 8 (sha_hash encoded)
               else cl_cachedEtag c' = cl_cachedEtag c)
            else \<not> cl_catalogReady c' \<and> cl_cachedEtag c' = cl_cachedEtag c"
proof -
  let ?cc = "chunkCount (length encoded)"
  have cc: "?cc < 2 ^ 16" using assms(2) unfolding chunkCount_def by auto
  have each: "Inv (got \<union> fst ` set ks) (deliverChunks E encoded ks c)"
    if "\<And>got k now c. Inv got c \<Longrightarrow> k < ?cc \<Longrightarrow> Inv (insert k got) (snd (run_state (handleBlobChunk E (chunk_bytes BlobId_new encoded k) now) c))"
      and "Inv got c" for Inv got and c :: "('a, 'b, 'c) Client"
    using assms(7) that(2)
  proof (induction ks arbitrary: got c)
    case (Cons kt ks)
    obtain k now where kt: "kt = (k, now)" by fastforce
    have k: "k < ?cc" using Cons.prems(1) kt by simp
    have "Inv (insert k got \<union> fst ` set ks) (deliverChunks E encoded (kt # ks) c)"
      using Cons.IH [OF _ that(1) [OF Cons.prems(2) k]] Cons.prems(1) kt catalog_chunk [OF cc k] by simp
    then show ?case by (simp add: kt)
  qed simp
  show ?thesis
  proof (cases "length encoded \<le> 12288")
    case True
    then have t: "transfer_ok 64 BlobId_new encoded" using assms(1) by (auto simp: transfer_ok_def chunkCount_def BlobId_new_def opt0_def)
    have "{..<?cc} \<noteq> {}" using assms(1) chunkCount_bounds [of "length encoded"] by auto
    then have "transferring encoded (cl_cachedEtag c) {} c" using assms(3-6) by (simp add: transferring_def)
    from each [of "transferring encoded (cl_cachedEtag c)", OF handleBlobChunk_transfers [OF t] this]
    have "transferring encoded (cl_cachedEtag c) (fst ` set ks) (deliverChunks E encoded ks c)" by simp
    then show ?thesis unfolding Let_def if_P [OF True] transferring_def by (auto split: if_splits)
  next
    case False
    then have many: "64 < ?cc" using assms(1) chunkCount_bounds [of "length encoded"] by auto
    have "refusing (cl_cachedEtag c) c" using assms(5,6) by (simp add: refusing_def ChunkReassembler_new_def)
    from each [of "\<lambda>_. refusing (cl_cachedEtag c)", OF handleBlobChunk_refuses [OF many cc] this] False
    show ?thesis by (simp add: refusing_def)
  qed
qed

definition cbench_fetching :: cbench where
  "cbench_fetching = (cbench_hello 1) \<lparr> cl_hubEtag := take 8 (sha_hash (replicate 200 7)), cl_catalogReady := False \<rparr>"

definition cbench_starving :: cbench where
  "cbench_starving = (cbench_hello 1) \<lparr> cl_hubEtag := take 8 (sha_hash (replicate 23282 7)), cl_catalogReady := False \<rparr>"

theorem catalog_transfer_adopts_witness:
  "(let c' = deliverChunks cbench_env (replicate 200 7) [(1, 5), (0, 6), (1, 7)] cbench_fetching
    in cl_catalogReady c' \<and> cl_cachedEtag c' = take 8 (sha_hash (replicate 200 7))) \<and>
   \<not> cl_catalogReady (deliverChunks cbench_env (replicate 23282 7) (map (\<lambda>k. (k, 5)) [0..<122]) cbench_starving)"
proof
  have t: "chunkCount (length (replicate 200 (7 :: byte))) = 2" "length (replicate 200 (7 :: byte)) \<le> 12288"
    "length (replicate 200 (7 :: byte)) \<le> 32768" by (simp_all add: chunkCount_def)
  have c: "length (cl_readyEtag (cbench_hello 1)) = 8" "cl_chunkReassembler (cbench_hello 1) = ChunkReassembler_new 64"
    by (simp_all add: cbench_hello_def cbench_start_def Client_new_def etag_bytes_def)
  have f: "cl_hubEtag cbench_fetching = take 8 (sha_hash (replicate 200 7))" "length (cl_readyEtag cbench_fetching) = 8"
    "cl_chunkReassembler cbench_fetching = ChunkReassembler_new 64" "\<not> cl_catalogReady cbench_fetching"
    using c by (simp_all add: cbench_fetching_def)
  have "fst ` set [(1 :: nat, 5 :: u32), (0, 6), (1, 7)] = {..<2}" by auto
  then show "let c' = deliverChunks cbench_env (replicate 200 7) [(1, 5), (0, 6), (1, 7)] cbench_fetching
    in cl_catalogReady c' \<and> cl_cachedEtag c' = take 8 (sha_hash (replicate 200 7))"
    using catalog_transfer_adopts [OF _ t(3) f, of "[(1, 5), (0, 6), (1, 7)]" cbench_env]
    by (simp add: t Let_def split: if_splits del: length_replicate)
  have n: "chunkCount (length (replicate 23282 (7 :: byte))) = 122" by (simp add: chunkCount_def)
  show "\<not> cl_catalogReady (deliverChunks cbench_env (replicate 23282 7) (map (\<lambda>k. (k, 5)) [0..<122]) cbench_starving)"
    using catalog_transfer_adopts [of "replicate 23282 7" cbench_starving "map (\<lambda>k. (k, 5)) [0..<122]" cbench_env] c
    by (simp add: cbench_starving_def list_all_iff n [simplified] Let_def del: upt_Suc)
qed

end
