(* ===== verification/Catalog_Codec.thy ===== *)
theory Catalog_Codec
  imports Hub_Session Ledger
begin

text \<open>
  The CBOR image of a catalog, \<^verbatim>\<open>wire/catalog_codec.hpp\<close>, and its digest, \<^verbatim>\<open>wire/catalog_etag.hpp\<close>.
  \<^item> The encoder resolves an entry through the pools of its catalog; every entry has a writer of its own, so it has all four
    levels of nesting to itself.
  \<^item> The decoder pushes fields and labels into the pools as it reads them; its local variables are a record.  A failed
    decode leaves a catalog its callers must not read, so an error carries none.
  \<^item> \<^verbatim>\<open>std::sort\<close> on the schema keys is \<open>sort_key\<close>: the two can differ on equal keys only, and the writer refuses a
    repeated key.
  Shown here: what the encoder writes is determined by what the catalog declares, and the decoder gives it back.
\<close>

section \<open>Definitions: codes\<close>

primrec packed_u8 :: "PackedFieldType \<Rightarrow> u8" where
  "packed_u8 PF_u8 = 0"
| "packed_u8 PF_i8 = 1"
| "packed_u8 PF_u16 = 2"
| "packed_u8 PF_i16 = 3"
| "packed_u8 PF_u32 = 4"
| "packed_u8 PF_i32 = 5"
| "packed_u8 PF_f32 = 6"
| "packed_u8 PF_bitfield8 = 7"
| "packed_u8 PF_str16 = 8"
| "packed_u8 PF_str32 = 9"
| "packed_u8 PF_str64 = 10"

primrec cborType_u8 :: "CborFieldType \<Rightarrow> u8" where
  "cborType_u8 CF_uint = 0"
| "cborType_u8 CF_int = 1"
| "cborType_u8 CF_f32 = 2"
| "cborType_u8 CF_bool = 3"
| "cborType_u8 CF_tstr = 4"
| "cborType_u8 CF_bstr = 5"

primrec class_u8 :: "ChannelClass \<Rightarrow> u8" where
  "class_u8 CC_STATE = 0"
| "class_u8 CC_STREAM = 1"
| "class_u8 CC_INTENT = 2"
| "class_u8 CC_EVENT = 3"
| "class_u8 CC_STORE = 4"

primrec dir_u8 :: "Direction \<Rightarrow> u8" where
  "dir_u8 h2c = 0"
| "dir_u8 c2h = 1"

text \<open>The enumerators in the order of their codes; \<open>xs ! n\<close> is the cast of a number that was checked to be in range.\<close>

definition packed_types :: "PackedFieldType list" where
  "packed_types = [PF_u8, PF_i8, PF_u16, PF_i16, PF_u32, PF_i32, PF_f32, PF_bitfield8, PF_str16, PF_str32, PF_str64]"

definition cbor_types :: "CborFieldType list" where
  "cbor_types = [CF_uint, CF_int, CF_f32, CF_bool, CF_tstr, CF_bstr]"

definition channel_classes :: "ChannelClass list" where
  "channel_classes = [CC_STATE, CC_STREAM, CC_INTENT, CC_EVENT, CC_STORE]"

definition directions :: "Direction list" where "directions = [h2c, c2h]"
definition access_levels :: "AccessLevel list" where "access_levels = [watch, control, configure]"
definition priorities :: "Priority list" where "priorities = [background, normal, elevated, critical]"

text \<open>\<^verbatim>\<open>limits::desc_max_bytes\<close>, \<^verbatim>\<open>limits::option_label_max_bytes\<close>, \<^verbatim>\<open>limits::catalog_max_entry_bytes\<close>.\<close>

abbreviation (input) desc_max_bytes :: nat where "desc_max_bytes \<equiv> 128"
abbreviation (input) option_label_max_bytes :: nat where "option_label_max_bytes \<equiv> 24"
abbreviation (input) catalog_max_entry_bytes :: nat where "catalog_max_entry_bytes \<equiv> 4096"

definition LayoutField_new :: LayoutField where
  "LayoutField_new = \<lparr> lf_name = [], lf_type = PF_u8, lf_unit = [], lf_scale = 0x3F800000, lf_min = None, lf_max = None,
     lf_bits = LabelRef_new, lf_options = LabelRef_new, lf_dflt = SD_None, lf_group = [], lf_desc = [], lf_role = [],
     lf_step = None, lf_settingKey = None, lf_flags = 0, lf_rank = None, lf_aspect = None, lf_scope = None,
     lf_provenance = None, lf_unitId = None \<rparr>"

definition SchemaField_new :: SchemaField where
  "SchemaField_new = \<lparr> sf_key = 0, sf_name = [], sf_type = CF_uint, sf_unit = [], sf_min = None, sf_max = None,
     sf_dflt = SD_None, sf_options = LabelRef_new, sf_group = [], sf_desc = [], sf_role = [], sf_step = None, sf_flags = 0,
     sf_access = None, sf_hasOptionAccess = False, sf_rank = None, sf_aspect = None, sf_scope = None, sf_provenance = None,
     sf_unitId = None \<rparr>"

definition StoreDescriptor_new :: StoreDescriptor where
  "StoreDescriptor_new = \<lparr> sd_storeId = 0, sd_kind = [], sd_capacity = 0, sd_perItemMax = 0, sd_nameMax = 0 \<rparr>"

definition CatalogEntry_new :: CatalogEntry where
  "CatalogEntry_new = \<lparr> ce_id = 0, ce_name = [], ce_cls = CC_STATE, ce_dir = h2c, ce_access = watch, ce_maxRateHz = 0,
     ce_defaultPriority = normal, ce_fieldCount = 0, ce_fieldOffset = 0, ce_category = None, ce_categoryLabel = [],
     ce_replayDepth = None, ce_settingChannel = None, ce_streamKind = 0, ce_rank = None \<rparr>"

section \<open>Definitions: encoding\<close>

definition encodeSettingDefault :: "SettingDefault \<Rightarrow> CborWriter \<Rightarrow> CborWriter" where
  "encodeSettingDefault d =
    (case d of
       SD_Int i \<Rightarrow> intVal i
     | SD_Float x \<Rightarrow> f32Val x
     | SD_Bool b \<Rightarrow> boolVal b
     | SD_Tstr s \<Rightarrow> tstrVal s
     | SD_None \<Rightarrow> (\<lambda>w. w))"

definition named_bits :: "bytes list \<Rightarrow> u32" where
  "named_bits bits = of_nat (length (filter (\<lambda>s. s \<noteq> []) bits))"

definition encodeBits :: "bytes list \<Rightarrow> CborWriter \<Rightarrow> CborWriter" where
  "encodeBits bits = w_seq
     [mapHeader (named_bits bits),
      w_each (\<lambda>(i, s). w_when (s \<noteq> []) (w_kv (of_nat i) (tstrVal s))) (enumerate 0 bits)]"

definition encodeLayoutField :: "LayoutField \<Rightarrow> bytes list \<Rightarrow> bytes list \<Rightarrow> CborWriter \<Rightarrow> CborWriter" where
  "encodeLayoutField f bits options = w_seq
     [mapHeader (4 + present (lf_min f) + present (lf_max f) + countIf (named_bits bits > 0) + present (lf_settingKey f) +
        countIf (lf_dflt f \<noteq> SD_None) + countIf (options \<noteq> []) + countIf (lf_group f \<noteq> []) + countIf (lf_desc f \<noteq> []) +
        countIf (lf_role f \<noteq> []) + present (lf_step f) + countIf (lf_flags f \<noteq> 0) + present (lf_rank f) +
        present (lf_aspect f) + present (lf_scope f) + present (lf_provenance f) + present (lf_unitId f)),
      w_kv 1 (tstrVal (lf_name f)),
      w_kv 2 (uintVal (ucast (packed_u8 (lf_type f)))),
      w_kv 3 (tstrVal (lf_unit f)),
      w_kv 4 (f32Val (lf_scale f)),
      w_opt (lf_min f) (\<lambda>v. w_kv 5 (f32Val v)),
      w_opt (lf_max f) (\<lambda>v. w_kv 6 (f32Val v)),
      w_when (named_bits bits > 0) (w_kv 7 (encodeBits bits)),
      w_opt (lf_settingKey f) (\<lambda>v. w_kv 8 (uintVal (ucast v))),
      w_when (lf_dflt f \<noteq> SD_None) (w_kv 9 (encodeSettingDefault (lf_dflt f))),
      w_when (options \<noteq> []) (w_kv 10 (w_list tstrVal options)),
      w_when (lf_group f \<noteq> []) (w_kv 11 (tstrVal (lf_group f))),
      w_when (lf_desc f \<noteq> []) (w_kv 12 (tstrVal (lf_desc f))),
      w_when (lf_role f \<noteq> []) (w_kv 13 (tstrVal (lf_role f))),
      w_opt (lf_step f) (\<lambda>v. w_kv 14 (f32Val v)),
      w_when (lf_flags f \<noteq> 0) (w_kv 15 (uintVal (ucast (lf_flags f)))),
      w_opt (lf_rank f) (\<lambda>v. w_kv 19 (uintVal (ucast v))),
      w_opt (lf_aspect f) (\<lambda>v. w_kv 20 (uintVal (ucast v))),
      w_opt (lf_scope f) (\<lambda>v. w_kv 21 (uintVal (ucast v))),
      w_opt (lf_provenance f) (\<lambda>v. w_kv 22 (uintVal (ucast v))),
      w_opt (lf_unitId f) (\<lambda>v. w_kv 23 (uintVal (ucast v)))]"

definition encodeSchemaField :: "SchemaField \<Rightarrow> bytes list \<Rightarrow> AccessLevel list \<Rightarrow> CborWriter \<Rightarrow> CborWriter" where
  "encodeSchemaField f options accesses = w_seq
     [mapHeader (3 + present (sf_min f) + present (sf_max f) + countIf (sf_dflt f \<noteq> SD_None) + countIf (options \<noteq> []) +
        countIf (sf_group f \<noteq> []) + countIf (sf_desc f \<noteq> []) + countIf (sf_role f \<noteq> []) + present (sf_step f) +
        countIf (sf_flags f \<noteq> 0) + present (sf_access f) + countIf (accesses \<noteq> []) + present (sf_rank f) +
        present (sf_aspect f) + present (sf_scope f) + present (sf_provenance f) + present (sf_unitId f)),
      w_kv 1 (tstrVal (sf_name f)),
      w_kv 2 (uintVal (ucast (cborType_u8 (sf_type f)))),
      w_kv 3 (tstrVal (sf_unit f)),
      w_opt (sf_min f) (\<lambda>v. w_kv 5 (f32Val v)),
      w_opt (sf_max f) (\<lambda>v. w_kv 6 (f32Val v)),
      w_when (sf_dflt f \<noteq> SD_None) (w_kv 9 (encodeSettingDefault (sf_dflt f))),
      w_when (options \<noteq> []) (w_kv 10 (w_list tstrVal options)),
      w_when (sf_group f \<noteq> []) (w_kv 11 (tstrVal (sf_group f))),
      w_when (sf_desc f \<noteq> []) (w_kv 12 (tstrVal (sf_desc f))),
      w_when (sf_role f \<noteq> []) (w_kv 13 (tstrVal (sf_role f))),
      w_opt (sf_step f) (\<lambda>v. w_kv 14 (f32Val v)),
      w_when (sf_flags f \<noteq> 0) (w_kv 15 (uintVal (ucast (sf_flags f)))),
      w_opt (sf_access f) (\<lambda>v. w_kv 16 (uintVal (ucast (role_u8 v)))),
      w_when (accesses \<noteq> []) (w_kv 17 (w_list (\<lambda>v. uintVal (ucast (role_u8 v))) accesses)),
      w_opt (sf_rank f) (\<lambda>v. w_kv 19 (uintVal (ucast v))),
      w_opt (sf_aspect f) (\<lambda>v. w_kv 20 (uintVal (ucast v))),
      w_opt (sf_scope f) (\<lambda>v. w_kv 21 (uintVal (ucast v))),
      w_opt (sf_provenance f) (\<lambda>v. w_kv 22 (uintVal (ucast v))),
      w_opt (sf_unitId f) (\<lambda>v. w_kv 23 (uintVal (ucast v)))]"

definition encodeStoreDescriptor :: "StoreDescriptor \<Rightarrow> CborWriter \<Rightarrow> CborWriter" where
  "encodeStoreDescriptor d = w_seq
     [mapHeader 5,
      w_kv 1 (uintVal (ucast (sd_storeId d))),
      w_kv 2 (tstrVal (sd_kind d)),
      w_kv 3 (uintVal (ucast (sd_capacity d))),
      w_kv 4 (uintVal (ucast (sd_perItemMax d))),
      w_kv 5 (uintVal (ucast (sd_nameMax d)))]"

text \<open>The two payload arms of \<^verbatim>\<open>encodeEntry\<close>'s switch.\<close>

definition encodeLayout :: "BasicCatalog \<Rightarrow> LayoutField list \<Rightarrow> CborWriter \<Rightarrow> CborWriter" where
  "encodeLayout c fs = w_list (\<lambda>f. encodeLayoutField f (labels c (lf_bits f)) (labels c (lf_options f))) fs"

definition encodeSchema :: "BasicCatalog \<Rightarrow> SchemaField list \<Rightarrow> CborWriter \<Rightarrow> CborWriter" where
  "encodeSchema c fs = w_seq
     [mapHeader (of_nat (length fs)),
      w_each (\<lambda>f. w_kv (ucast (sf_key f)) (encodeSchemaField f (labels c (sf_options f)) (optionAccess c f)))
        (sort_key sf_key fs)]"

text \<open>The calls that write the pairs of an entry, in the order of their keys.\<close>

definition entryCalls :: "BasicCatalog \<Rightarrow> CatalogEntry \<Rightarrow> (CborWriter \<Rightarrow> CborWriter) list" where
  "entryCalls c e =
    [w_kv 1 (uintVal (ucast (ce_id e))),
     w_kv 2 (tstrVal (ce_name e)),
     w_kv 3 (uintVal (ucast (class_u8 (ce_cls e)))),
     w_kv 4 (uintVal (ucast (dir_u8 (ce_dir e)))),
     w_kv 5 (uintVal (ucast (role_u8 (ce_access e)))),
     w_kv 6 (f32Val (ce_maxRateHz e)),
     w_kv 7 (uintVal (ucast (priority_u8 (ce_defaultPriority e)))),
     w_when (ce_form e = FF_Layout) (w_kv 8 (encodeLayout c (layoutFields c e))),
     w_when (ce_form e = FF_Schema) (w_kv 9 (encodeSchema c (schemaFields c e))),
     w_opt (ce_category e) (\<lambda>v. w_kv 10 (uintVal (ucast v))),
     w_when (ce_categoryLabel e \<noteq> []) (w_kv 11 (tstrVal (ce_categoryLabel e))),
     w_when (ce_form e = FF_Store) (w_opt (storeDescriptor c e) (\<lambda>d. w_kv 12 (encodeStoreDescriptor d))),
     w_opt (ce_replayDepth e) (\<lambda>v. w_kv 13 (uintVal (ucast v))),
     w_opt (ce_settingChannel e) (\<lambda>v. w_kv 14 (uintVal (ucast v))),
     w_when (ce_streamKind e \<noteq> 0) (w_kv 15 (uintVal (ucast (ce_streamKind e)))),
     w_opt (ce_rank e) (\<lambda>v. w_kv 16 (uintVal (ucast v)))]"

definition cat_encodeEntry :: "BasicCatalog \<Rightarrow> CatalogEntry \<Rightarrow> CborWriter \<Rightarrow> CborWriter" where
  "cat_encodeEntry c e w =
    (let nFields = (case ce_form e of FF_Layout \<Rightarrow> length (layoutFields c e) | FF_Schema \<Rightarrow> length (schemaFields c e)
                    | FF_Store \<Rightarrow> 0) in
     if nFields > kMaxFields then w
     else if ce_form e = FF_Store \<and> storeDescriptor c e = None then w
     else w_seq (mapHeader (8 + present (ce_category e) + countIf (ce_categoryLabel e \<noteq> []) + present (ce_replayDepth e) +
          present (ce_settingChannel e) + countIf (ce_streamKind e \<noteq> 0) + present (ce_rank e)) # entryCalls c e) w)"

text \<open>The loop over the entries: \<open>out\<close> is what has been written so far.\<close>

definition payload_resolves :: "BasicCatalog \<Rightarrow> CatalogEntry \<Rightarrow> bool" where
  "payload_resolves c e =
    (case ce_form e of
       FF_Layout \<Rightarrow> length (layoutFields c e) = unat (ce_fieldCount e)
     | FF_Schema \<Rightarrow> length (schemaFields c e) = unat (ce_fieldCount e)
     | FF_Store \<Rightarrow> storeDescriptor c e \<noteq> None)"

fun encodeEntries :: "BasicCatalog \<Rightarrow> nat \<Rightarrow> CatalogEntry list \<Rightarrow> bytes \<Rightarrow> bytes" where
  "encodeEntries c cap [] out = out"
| "encodeEntries c cap (e # es) out =
    (if unat (ce_fieldCount e) > kMaxFields then []
     else if length out > cap then []
     else if \<not> payload_resolves c e then []
     else
       let n = w_result (cat_encodeEntry c e (CborWriter_new (cap - length out))) in
       if n = [] then []
       else if length n > catalog_max_entry_bytes then []
       else encodeEntries c cap es (out @ n))"

definition encodeCatalog :: "BasicCatalog \<Rightarrow> nat \<Rightarrow> bytes" where
  "encodeCatalog c cap =
    (if list_ex (\<lambda>i. ce_id (bc_entries c ! i) \<le> ce_id (bc_entries c ! (i - 1))) [1..<length (bc_entries c)] then []
     else
       let hdr = w_result (arrayHeader (of_nat (length (bc_entries c))) (CborWriter_new 9)) in
       if hdr = [] \<or> cap < length hdr then []
       else encodeEntries c cap (bc_entries c) hdr)"

definition catalogEtag :: "BasicCatalog \<Rightarrow> nat \<Rightarrow> bytes" where
  "catalogEtag c scratch = take 8 (sha_hash (encodeCatalog c scratch))"

section \<open>Definitions: decoding values\<close>

text \<open>The bodies of the decoders' cases: a bounded text, a number up to a limit, an enumerator; \<open>on\<close> stores what was read.\<close>

definition read_text :: "nat \<Rightarrow> nat \<Rightarrow> CborReader \<Rightarrow> (bytes \<times> CborReader) result" where
  "read_text lo hi r = rbind (readTstr r) (\<lambda>(v, r). if length v < lo \<or> length v > hi then Inl Malformed else Inr (v, r))"

definition read_max :: "u64 \<Rightarrow> CborReader \<Rightarrow> (u64 \<times> CborReader) result" where
  "read_max m r = rbind (readUint r) (\<lambda>(v, r). if v > m then Inl Malformed else Inr (v, r))"

definition on :: "(CborReader \<Rightarrow> ('a \<times> CborReader) result) \<Rightarrow> ('a \<Rightarrow> 'm) \<Rightarrow> CborReader \<Rightarrow> ('m \<times> CborReader) result" where
  "on rd g r = rbind (rd r) (\<lambda>(v, r). Inr (g v, r))"

definition read_u8 :: "CborReader \<Rightarrow> (u8 \<times> CborReader) result" where
  "read_u8 = on (read_max 0xFF) ucast"

definition read_u16 :: "CborReader \<Rightarrow> (u16 \<times> CborReader) result" where
  "read_u16 = on (read_max 0xFFFF) ucast"

definition read_u32 :: "CborReader \<Rightarrow> (u32 \<times> CborReader) result" where
  "read_u32 = on (read_max 0xFFFFFFFF) ucast"

definition read_enum :: "'a list \<Rightarrow> CborReader \<Rightarrow> ('a \<times> CborReader) result" where
  "read_enum xs = on (read_max (of_nat (length xs - 1))) (\<lambda>v. xs ! unat v)"

definition decodeSettingDefault :: "CborReader \<Rightarrow> (SettingDefault \<times> CborReader) result" where
  "decodeSettingDefault r =
    rbind (peekType r) (\<lambda>t.
      case t of
        MT_UInt \<Rightarrow> rbind (readInt r) (\<lambda>(v, r). if v > 2 ^ 31 - 1 \<or> v < - (2 ^ 31) then Inl Malformed else Inr (SD_Int v, r))
      | MT_NegInt \<Rightarrow> rbind (readInt r) (\<lambda>(v, r). if v > 2 ^ 31 - 1 \<or> v < - (2 ^ 31) then Inl Malformed else Inr (SD_Int v, r))
      | MT_TextString \<Rightarrow> on readTstr SD_Tstr r
      | MT_Simple \<Rightarrow>
          (case readF32 r of
             Inr (v, r) \<Rightarrow> Inr (SD_Float v, r)
           | Inl _ \<Rightarrow> (case readBool r of Inl _ \<Rightarrow> Inl Malformed | Inr (v, r) \<Rightarrow> Inr (SD_Bool v, r)))
      | _ \<Rightarrow> Inl Malformed)"

text \<open>An append to a pool that is full ends the decoding.\<close>

definition pooled :: "bool \<times> BasicCatalog \<Rightarrow> CborReader \<Rightarrow> (BasicCatalog \<times> CborReader) result" where
  "pooled p r = (if fst p then Inr (snd p, r) else Inl CapacityExceeded)"

definition decodeOption :: "CatalogCaps \<Rightarrow> BasicCatalog \<Rightarrow> CborReader \<Rightarrow> (BasicCatalog \<times> CborReader) result" where
  "decodeOption caps c r = rbind (read_text 1 option_label_max_bytes r) (\<lambda>(v, r). pooled (poolAddLabel caps v watch c) r)"

definition decodeOptions :: "CatalogCaps \<Rightarrow> BasicCatalog \<Rightarrow> CborReader \<Rightarrow> ((LabelRef \<times> BasicCatalog) \<times> CborReader) result" where
  "decodeOptions caps c r =
    rbind (readArrayHeader r) (\<lambda>(n, r).
      if n = 0 \<or> unat n > kMaxLabels then Inl Malformed
      else on (read_elems (unat n) (decodeOption caps) c)
        (\<lambda>c'. (\<lparr> lr_offset = of_nat (length (bc_labelPool c)), lr_count = ucast n \<rparr>, c')) r)"

text \<open>Case 7 of \<^verbatim>\<open>decodeLayoutField\<close>: the labels are aligned with the bits, a gap is filled with empty labels.\<close>

fun fillTo :: "CatalogCaps \<Rightarrow> nat \<Rightarrow> BasicCatalog \<Rightarrow> bool \<times> BasicCatalog" where
  "fillTo caps 0 c = (True, c)"
| "fillTo caps (Suc n) c = (case poolAddLabel caps [] watch c of (False, c) \<Rightarrow> (False, c) | (True, c) \<Rightarrow> fillTo caps n c)"

definition decodeBit_key :: "CatalogCaps \<Rightarrow> (nat \<times> BasicCatalog) handler" where
  "decodeBit_key caps k = (\<lambda>(filled, c) r.
    if k \<ge> 8 then Inl Malformed
    else rbind (read_text 1 24 r) (\<lambda>(v, r).
      rbind (pooled (fillTo caps (unat k - filled) c) r) (\<lambda>(c, r).
      rbind (pooled (poolAddLabel caps v watch c) r) (\<lambda>(c, r). Inr ((max filled (unat k) + 1, c), r)))))"

definition decodeBits :: "CatalogCaps \<Rightarrow> BasicCatalog \<Rightarrow> CborReader \<Rightarrow> ((LabelRef \<times> BasicCatalog) \<times> CborReader) result" where
  "decodeBits caps c r =
    rbind (readMapHeader r) (\<lambda>(n, r).
      if n = 0 \<or> n > 8 then Inl Malformed
      else on (read_pairs (unat n) (decodeBit_key caps) (0, c))
        (\<lambda>(filled, c'). (\<lparr> lr_offset = of_nat (length (bc_labelPool c)), lr_count = of_nat filled \<rparr>, c')) r)"

section \<open>Definitions: decoding fields\<close>

record LayoutLocals =
  ll_f :: LayoutField
  ll_cat :: BasicCatalog
  ll_gotName :: bool
  ll_gotType :: bool
  ll_gotUnit :: bool
  ll_gotScale :: bool

definition decodeLayoutField_key :: "CatalogCaps \<Rightarrow> LayoutLocals handler" where
  "decodeLayoutField_key caps k = (\<lambda>l.
    let set = (\<lambda>u. l \<lparr> ll_f := u (ll_f l) \<rparr>) in
    if k = 1 then on (read_text 1 24) (\<lambda>v. (set (lf_name_update (\<lambda>_. v))) \<lparr> ll_gotName := True \<rparr>)
    else if k = 2 then on (read_enum packed_types) (\<lambda>v. (set (lf_type_update (\<lambda>_. v))) \<lparr> ll_gotType := True \<rparr>)
    else if k = 3 then on (read_text 0 8) (\<lambda>v. (set (lf_unit_update (\<lambda>_. v))) \<lparr> ll_gotUnit := True \<rparr>)
    else if k = 4 then on readF32 (\<lambda>v. (set (lf_scale_update (\<lambda>_. v))) \<lparr> ll_gotScale := True \<rparr>)
    else if k = 5 then on readF32 (\<lambda>v. set (lf_min_update (\<lambda>_. Some v)))
    else if k = 6 then on readF32 (\<lambda>v. set (lf_max_update (\<lambda>_. Some v)))
    else if k = 7 then on (decodeBits caps (ll_cat l)) (\<lambda>(b, c). (set (lf_bits_update (\<lambda>_. b))) \<lparr> ll_cat := c \<rparr>)
    else if k = 8 then on read_u8 (\<lambda>v. set (lf_settingKey_update (\<lambda>_. Some v)))
    else if k = 9 then on decodeSettingDefault (\<lambda>v. set (lf_dflt_update (\<lambda>_. v)))
    else if k = 10 then on (decodeOptions caps (ll_cat l)) (\<lambda>(b, c). (set (lf_options_update (\<lambda>_. b))) \<lparr> ll_cat := c \<rparr>)
    else if k = 11 then on (read_text 1 24) (\<lambda>v. set (lf_group_update (\<lambda>_. v)))
    else if k = 12 then on (read_text 1 desc_max_bytes) (\<lambda>v. set (lf_desc_update (\<lambda>_. v)))
    else if k = 13 then on (read_text 1 24) (\<lambda>v. set (lf_role_update (\<lambda>_. v)))
    else if k = 14 then on readF32 (\<lambda>v. set (lf_step_update (\<lambda>_. Some v)))
    else if k = 15 then on read_u8 (\<lambda>v. set (lf_flags_update (\<lambda>_. v)))
    else if k = 19 then on read_u8 (\<lambda>v. set (lf_rank_update (\<lambda>_. Some v)))
    else if k = 20 then on read_u8 (\<lambda>v. set (lf_aspect_update (\<lambda>_. Some v)))
    else if k = 21 then on read_u8 (\<lambda>v. set (lf_scope_update (\<lambda>_. Some v)))
    else if k = 22 then on read_u8 (\<lambda>v. set (lf_provenance_update (\<lambda>_. Some v)))
    else if k = 23 then on read_u8 (\<lambda>v. set (lf_unitId_update (\<lambda>_. Some v)))
    else skip_unknown l)"

definition decodeLayoutField :: "CatalogCaps \<Rightarrow> BasicCatalog \<Rightarrow> CborReader \<Rightarrow> ((LayoutField \<times> BasicCatalog) \<times> CborReader) result" where
  "decodeLayoutField caps c r =
    rbind (decode_map (decodeLayoutField_key caps)
        \<lparr> ll_f = LayoutField_new, ll_cat = c, ll_gotName = False, ll_gotType = False, ll_gotUnit = False, ll_gotScale = False \<rparr> r)
      (\<lambda>(l, r). if \<not> (ll_gotName l \<and> ll_gotType l \<and> ll_gotUnit l \<and> ll_gotScale l) then Inl Malformed
                else Inr ((ll_f l, ll_cat l), r))"

text \<open>Case 17 of \<^verbatim>\<open>decodeSchemaField\<close>.\<close>

definition decodeOptionAccess_elem :: "u16 \<Rightarrow> nat \<times> BasicCatalog \<Rightarrow> CborReader \<Rightarrow> ((nat \<times> BasicCatalog) \<times> CborReader) result" where
  "decodeOptionAccess_elem off = (\<lambda>(a, c) r.
    rbind (read_enum access_levels r) (\<lambda>(v, r).
      case poolSetLabelAccess (unat (off + of_nat a)) v c of
        (False, _) \<Rightarrow> Inl Malformed
      | (True, c) \<Rightarrow> Inr ((a + 1, c), r)))"

definition decodeOptionAccess :: "LabelRef \<Rightarrow> BasicCatalog \<Rightarrow> CborReader \<Rightarrow> (BasicCatalog \<times> CborReader) result" where
  "decodeOptionAccess ref c r =
    rbind (readArrayHeader r) (\<lambda>(n, r).
      if lr_count ref = 0 \<or> n \<noteq> ucast (lr_count ref) then Inl Malformed
      else on (read_elems (unat n) (decodeOptionAccess_elem (lr_offset ref)) (0, c)) snd r)"

record SchemaLocals =
  sl_f :: SchemaField
  sl_cat :: BasicCatalog
  sl_gotName :: bool
  sl_gotType :: bool
  sl_gotUnit :: bool

definition decodeSchemaField_key :: "CatalogCaps \<Rightarrow> SchemaLocals handler" where
  "decodeSchemaField_key caps k = (\<lambda>l.
    let set = (\<lambda>u. l \<lparr> sl_f := u (sl_f l) \<rparr>) in
    if k = 1 then on (read_text 1 24) (\<lambda>v. (set (sf_name_update (\<lambda>_. v))) \<lparr> sl_gotName := True \<rparr>)
    else if k = 2 then on (read_enum cbor_types) (\<lambda>v. (set (sf_type_update (\<lambda>_. v))) \<lparr> sl_gotType := True \<rparr>)
    else if k = 3 then on (read_text 0 8) (\<lambda>v. (set (sf_unit_update (\<lambda>_. v))) \<lparr> sl_gotUnit := True \<rparr>)
    else if k = 5 then on readF32 (\<lambda>v. set (sf_min_update (\<lambda>_. Some v)))
    else if k = 6 then on readF32 (\<lambda>v. set (sf_max_update (\<lambda>_. Some v)))
    else if k = 9 then on decodeSettingDefault (\<lambda>v. set (sf_dflt_update (\<lambda>_. v)))
    else if k = 10 then on (decodeOptions caps (sl_cat l)) (\<lambda>(b, c). (set (sf_options_update (\<lambda>_. b))) \<lparr> sl_cat := c \<rparr>)
    else if k = 11 then on (read_text 1 24) (\<lambda>v. set (sf_group_update (\<lambda>_. v)))
    else if k = 12 then on (read_text 1 desc_max_bytes) (\<lambda>v. set (sf_desc_update (\<lambda>_. v)))
    else if k = 13 then on (read_text 1 24) (\<lambda>v. set (sf_role_update (\<lambda>_. v)))
    else if k = 14 then on readF32 (\<lambda>v. set (sf_step_update (\<lambda>_. Some v)))
    else if k = 15 then on read_u8 (\<lambda>v. set (sf_flags_update (\<lambda>_. v)))
    else if k = 16 then on (read_enum access_levels) (\<lambda>v. set (sf_access_update (\<lambda>_. Some v)))
    else if k = 17 then on (decodeOptionAccess (sf_options (sl_f l)) (sl_cat l))
      (\<lambda>c. (set (sf_hasOptionAccess_update (\<lambda>_. True))) \<lparr> sl_cat := c \<rparr>)
    else if k = 19 then on read_u8 (\<lambda>v. set (sf_rank_update (\<lambda>_. Some v)))
    else if k = 20 then on read_u8 (\<lambda>v. set (sf_aspect_update (\<lambda>_. Some v)))
    else if k = 21 then on read_u8 (\<lambda>v. set (sf_scope_update (\<lambda>_. Some v)))
    else if k = 22 then on read_u8 (\<lambda>v. set (sf_provenance_update (\<lambda>_. Some v)))
    else if k = 23 then on read_u8 (\<lambda>v. set (sf_unitId_update (\<lambda>_. Some v)))
    else skip_unknown l)"

definition decodeSchemaField ::
  "CatalogCaps \<Rightarrow> BasicCatalog \<Rightarrow> u8 \<Rightarrow> CborReader \<Rightarrow> ((SchemaField \<times> BasicCatalog) \<times> CborReader) result" where
  "decodeSchemaField caps c key r =
    rbind (decode_map (decodeSchemaField_key caps)
        \<lparr> sl_f = SchemaField_new \<lparr> sf_key := key \<rparr>, sl_cat = c, sl_gotName = False, sl_gotType = False, sl_gotUnit = False \<rparr> r)
      (\<lambda>(l, r). if \<not> (sl_gotName l \<and> sl_gotType l \<and> sl_gotUnit l) then Inl Malformed
                else Inr ((sl_f l, sl_cat l), r))"

record StoreLocals =
  stl_d :: StoreDescriptor
  stl_gotId :: bool
  stl_gotKind :: bool
  stl_gotCap :: bool
  stl_gotItemMax :: bool
  stl_gotNameMax :: bool

definition decodeStoreDescriptor_key :: "StoreLocals handler" where
  "decodeStoreDescriptor_key k = (\<lambda>l.
    let set = (\<lambda>u. l \<lparr> stl_d := u (stl_d l) \<rparr>) in
    if k = 1 then on read_u8 (\<lambda>v. (set (sd_storeId_update (\<lambda>_. v))) \<lparr> stl_gotId := True \<rparr>)
    else if k = 2 then on (read_text 1 32) (\<lambda>v. (set (sd_kind_update (\<lambda>_. v))) \<lparr> stl_gotKind := True \<rparr>)
    else if k = 3 then on read_u16 (\<lambda>v. (set (sd_capacity_update (\<lambda>_. v))) \<lparr> stl_gotCap := True \<rparr>)
    else if k = 4 then on read_u32 (\<lambda>v. (set (sd_perItemMax_update (\<lambda>_. v))) \<lparr> stl_gotItemMax := True \<rparr>)
    else if k = 5 then on read_u16 (\<lambda>v. (set (sd_nameMax_update (\<lambda>_. v))) \<lparr> stl_gotNameMax := True \<rparr>)
    else skip_unknown l)"

definition decodeStoreDescriptor :: "CborReader \<Rightarrow> (StoreDescriptor \<times> CborReader) result" where
  "decodeStoreDescriptor r =
    rbind (decode_map decodeStoreDescriptor_key
        \<lparr> stl_d = StoreDescriptor_new, stl_gotId = False, stl_gotKind = False, stl_gotCap = False, stl_gotItemMax = False,
          stl_gotNameMax = False \<rparr> r)
      (\<lambda>(l, r). if \<not> (stl_gotId l \<and> stl_gotKind l \<and> stl_gotCap l \<and> stl_gotItemMax l \<and> stl_gotNameMax l) then Inl Malformed
                else Inr (stl_d l, r))"

section \<open>Definitions: decoding entries\<close>

definition decodeLayout_elem :: "CatalogCaps \<Rightarrow> BasicCatalog \<Rightarrow> CborReader \<Rightarrow> (BasicCatalog \<times> CborReader) result" where
  "decodeLayout_elem caps c r =
    rbind (decodeLayoutField caps c r) (\<lambda>((f, c), r). pooled (poolAddLayoutField caps f c) r)"

definition decodeSchema_key :: "CatalogCaps \<Rightarrow> BasicCatalog handler" where
  "decodeSchema_key caps k = (\<lambda>c r.
    if k > 0xFF then Inl Malformed
    else rbind (decodeSchemaField caps c (ucast k) r) (\<lambda>((f, c), r). pooled (poolAddSchemaField caps f c) r))"

record EntryLocals =
  el_e :: CatalogEntry
  el_cat :: BasicCatalog
  el_gotId :: bool
  el_gotName :: bool
  el_gotCls :: bool
  el_gotDir :: bool
  el_gotAccess :: bool
  el_gotRate :: bool
  el_gotPrio :: bool
  el_gotLayout :: bool
  el_gotSchema :: bool
  el_gotStore :: bool

text \<open>The payload cases 8, 9 and 12; the marks are the lengths of the pools of \<open>c0\<close>, the catalog the entry started with.\<close>

definition decodeLayout :: "CatalogCaps \<Rightarrow> BasicCatalog \<Rightarrow> EntryLocals \<Rightarrow> CborReader \<Rightarrow> (EntryLocals \<times> CborReader) result" where
  "decodeLayout caps c0 l r =
    (if el_gotSchema l \<or> el_gotStore l then Inl Malformed
     else rbind (readArrayHeader r) (\<lambda>(n, r).
       if n = 0 \<or> unat n > kMaxFields then Inl Malformed
       else on (read_elems (unat n) (decodeLayout_elem caps) (el_cat l))
         (\<lambda>c. l \<lparr> el_e := el_e l \<lparr> ce_fieldOffset := of_nat (length (bc_layoutPool c0)), ce_fieldCount := ucast n \<rparr>,
                  el_cat := c, el_gotLayout := True \<rparr>) r))"

definition decodeSchema :: "CatalogCaps \<Rightarrow> BasicCatalog \<Rightarrow> EntryLocals \<Rightarrow> CborReader \<Rightarrow> (EntryLocals \<times> CborReader) result" where
  "decodeSchema caps c0 l r =
    (if el_gotLayout l \<or> el_gotStore l then Inl Malformed
     else rbind (readMapHeader r) (\<lambda>(n, r).
       if n = 0 \<or> unat n > kMaxFields then Inl Malformed
       else on (read_pairs (unat n) (decodeSchema_key caps) (el_cat l))
         (\<lambda>c. l \<lparr> el_e := el_e l \<lparr> ce_fieldOffset := of_nat (length (bc_schemaPool c0)), ce_fieldCount := ucast n \<rparr>,
                  el_cat := c, el_gotSchema := True \<rparr>) r))"

definition decodeStore :: "CatalogCaps \<Rightarrow> BasicCatalog \<Rightarrow> EntryLocals \<Rightarrow> CborReader \<Rightarrow> (EntryLocals \<times> CborReader) result" where
  "decodeStore caps c0 l r =
    (if el_gotLayout l \<or> el_gotSchema l then Inl Malformed
     else rbind (decodeStoreDescriptor r) (\<lambda>(d, r).
       on (pooled (poolAddStore caps d (el_cat l)))
         (\<lambda>c. l \<lparr> el_e := el_e l \<lparr> ce_fieldOffset := of_nat (length (bc_storePool c0)), ce_fieldCount := 1 \<rparr>,
                  el_cat := c, el_gotStore := True \<rparr>) r))"

definition cat_decodeEntry_key :: "CatalogCaps \<Rightarrow> BasicCatalog \<Rightarrow> EntryLocals handler" where
  "cat_decodeEntry_key caps c0 k = (\<lambda>l.
    let set = (\<lambda>u. l \<lparr> el_e := u (el_e l) \<rparr>) in
    if k = 1 then on read_u16 (\<lambda>v. (set (ce_id_update (\<lambda>_. v))) \<lparr> el_gotId := True \<rparr>)
    else if k = 2 then on (read_text 1 32) (\<lambda>v. (set (ce_name_update (\<lambda>_. v))) \<lparr> el_gotName := True \<rparr>)
    else if k = 3 then on (read_enum channel_classes) (\<lambda>v. (set (ce_cls_update (\<lambda>_. v))) \<lparr> el_gotCls := True \<rparr>)
    else if k = 4 then on (read_enum directions) (\<lambda>v. (set (ce_dir_update (\<lambda>_. v))) \<lparr> el_gotDir := True \<rparr>)
    else if k = 5 then on (read_enum access_levels) (\<lambda>v. (set (ce_access_update (\<lambda>_. v))) \<lparr> el_gotAccess := True \<rparr>)
    else if k = 6 then on readF32 (\<lambda>v. (set (ce_maxRateHz_update (\<lambda>_. v))) \<lparr> el_gotRate := True \<rparr>)
    else if k = 7 then on (read_enum priorities) (\<lambda>v. (set (ce_defaultPriority_update (\<lambda>_. v))) \<lparr> el_gotPrio := True \<rparr>)
    else if k = 8 then decodeLayout caps c0 l
    else if k = 9 then decodeSchema caps c0 l
    else if k = 10 then on read_u8 (\<lambda>v. set (ce_category_update (\<lambda>_. Some v)))
    else if k = 11 then on (read_text 1 24) (\<lambda>v. set (ce_categoryLabel_update (\<lambda>_. v)))
    else if k = 12 then decodeStore caps c0 l
    else if k = 13 then on read_u16 (\<lambda>v. set (ce_replayDepth_update (\<lambda>_. Some v)))
    else if k = 14 then on read_u16 (\<lambda>v. set (ce_settingChannel_update (\<lambda>_. Some v)))
    else if k = 15 then on read_u8 (\<lambda>v. set (ce_streamKind_update (\<lambda>_. v)))
    else if k = 16 then on read_u8 (\<lambda>v. set (ce_rank_update (\<lambda>_. Some v)))
    else skip_unknown l)"

definition EntryLocals_new :: "BasicCatalog \<Rightarrow> EntryLocals" where
  "EntryLocals_new c = \<lparr> el_e = CatalogEntry_new, el_cat = c, el_gotId = False, el_gotName = False, el_gotCls = False,
     el_gotDir = False, el_gotAccess = False, el_gotRate = False, el_gotPrio = False, el_gotLayout = False,
     el_gotSchema = False, el_gotStore = False \<rparr>"

definition payloadKeys :: "EntryLocals \<Rightarrow> nat" where
  "payloadKeys l = of_bool (el_gotLayout l) + of_bool (el_gotSchema l) + of_bool (el_gotStore l)"

definition cat_decodeEntry :: "CatalogCaps \<Rightarrow> BasicCatalog \<Rightarrow> CborReader \<Rightarrow> ((CatalogEntry \<times> BasicCatalog) \<times> CborReader) result" where
  "cat_decodeEntry caps c r =
    rbind (decode_map (cat_decodeEntry_key caps c) (EntryLocals_new c) r) (\<lambda>(l, r).
      if \<not> (el_gotId l \<and> el_gotName l \<and> el_gotCls l \<and> el_gotDir l \<and> el_gotAccess l \<and> el_gotRate l \<and> el_gotPrio l)
      then Inl Malformed
      else if payloadKeys l \<noteq> 1 then Inl Malformed
      else if \<not> (case ce_form (el_e l) of
                    FF_Layout \<Rightarrow> el_gotLayout l | FF_Schema \<Rightarrow> el_gotSchema l | FF_Store \<Rightarrow> el_gotStore l)
      then Inl Malformed
      else Inr ((el_e l, el_cat l), r))"

text \<open>The loop of \<^verbatim>\<open>decodeCatalog\<close>: \<open>prev\<close> is \<^verbatim>\<open>prevId\<close> once there was a first entry.\<close>

primrec decodeEntries :: "CatalogCaps \<Rightarrow> bytes \<Rightarrow> nat \<Rightarrow> nat \<Rightarrow> u16 option \<Rightarrow> BasicCatalog \<Rightarrow> BasicCatalog result" where
  "decodeEntries caps inp 0 pos prev c = Inr c"
| "decodeEntries caps inp (Suc n) pos prev c =
    (if pos > length inp then Inl Truncated
     else
       let avail = length inp - pos;
           window = (if avail < catalog_max_entry_bytes then avail else catalog_max_entry_bytes) in
       rbind (cat_decodeEntry caps c (CborReader_new (take window (drop pos inp)))) (\<lambda>((e, c), r).
         if (case prev of None \<Rightarrow> False | Some p \<Rightarrow> ce_id e \<le> p) then Inl Malformed
         else case addEntryVerbatim caps e c of
           (False, _) \<Rightarrow> Inl CapacityExceeded
         | (True, c) \<Rightarrow> decodeEntries caps inp n (pos + rd_pos r) (Some (ce_id e)) c))"

definition decodeCatalog :: "CatalogCaps \<Rightarrow> bytes \<Rightarrow> BasicCatalog \<Rightarrow> BasicCatalog result" where
  "decodeCatalog caps inp c =
    rbind (readArrayHeader (CborReader_new inp)) (\<lambda>(n, r).
      if unat n > cap_entries caps then Inl CapacityExceeded
      else decodeEntries caps inp (unat n) (rd_pos r) None (cat_clear c))"

section \<open>The image of a field\<close>

definition opt1 :: "u64 \<Rightarrow> ('a \<Rightarrow> cbor) \<Rightarrow> 'a option \<Rightarrow> (u64 \<times> cbor) list" where
  "opt1 k g x = (case x of None \<Rightarrow> [] | Some y \<Rightarrow> [(k, g y)])"

definition when1 :: "u64 \<Rightarrow> bool \<Rightarrow> cbor \<Rightarrow> (u64 \<times> cbor) list" where
  "when1 k b v = (if b then [(k, v)] else [])"

definition sd_cbor :: "SettingDefault \<Rightarrow> cbor" where
  "sd_cbor d = (case d of SD_Int v \<Rightarrow> (if v \<ge> 0 then CUint (word_of_int v) else CNeg (word_of_int (- 1 - v)))
     | SD_Float x \<Rightarrow> CFloat x | SD_Bool b \<Rightarrow> CBool b | SD_Tstr s \<Rightarrow> CText s | SD_None \<Rightarrow> CNull)"

definition cnum :: "'a :: len word \<Rightarrow> cbor" where
  "cnum v = CUint (ucast v)"

text \<open>The pairs of the named bits, from bit \<open>i\<close> on.\<close>

fun bit_kvs :: "nat \<Rightarrow> bytes list \<Rightarrow> (u64 \<times> cbor) list" where
  "bit_kvs i [] = []"
| "bit_kvs i (s # ss) = (if s = [] then [] else [(of_nat i, CText s)]) @ bit_kvs (Suc i) ss"

definition layout_kvs :: "layout_view \<Rightarrow> (u64 \<times> cbor) list" where
  "layout_kvs = (\<lambda>(f, bits, options).
     [(1, CText (lf_name f))] @ [(2, cnum (packed_u8 (lf_type f)))] @ [(3, CText (lf_unit f))] @ [(4, CFloat (lf_scale f))] @
     opt1 5 CFloat (lf_min f) @ opt1 6 CFloat (lf_max f) @ when1 7 (bit_kvs 0 bits \<noteq> []) (CMap (bit_kvs 0 bits)) @
     opt1 8 cnum (lf_settingKey f) @ when1 9 (lf_dflt f \<noteq> SD_None) (sd_cbor (lf_dflt f)) @
     when1 10 (options \<noteq> []) (CArray (map CText options)) @ when1 11 (lf_group f \<noteq> []) (CText (lf_group f)) @
     when1 12 (lf_desc f \<noteq> []) (CText (lf_desc f)) @ when1 13 (lf_role f \<noteq> []) (CText (lf_role f)) @
     opt1 14 CFloat (lf_step f) @ when1 15 (lf_flags f \<noteq> 0) (cnum (lf_flags f)) @ opt1 19 cnum (lf_rank f) @
     opt1 20 cnum (lf_aspect f) @ opt1 21 cnum (lf_scope f) @ opt1 22 cnum (lf_provenance f) @ opt1 23 cnum (lf_unitId f) @ [])"

definition schema_kvs :: "schema_view \<Rightarrow> (u64 \<times> cbor) list" where
  "schema_kvs = (\<lambda>(f, options, accesses).
     [(1, CText (sf_name f))] @ [(2, cnum (cborType_u8 (sf_type f)))] @ [(3, CText (sf_unit f))] @
     opt1 5 CFloat (sf_min f) @ opt1 6 CFloat (sf_max f) @ when1 9 (sf_dflt f \<noteq> SD_None) (sd_cbor (sf_dflt f)) @
     when1 10 (options \<noteq> []) (CArray (map CText options)) @ when1 11 (sf_group f \<noteq> []) (CText (sf_group f)) @
     when1 12 (sf_desc f \<noteq> []) (CText (sf_desc f)) @ when1 13 (sf_role f \<noteq> []) (CText (sf_role f)) @
     opt1 14 CFloat (sf_step f) @ when1 15 (sf_flags f \<noteq> 0) (cnum (sf_flags f)) @
     opt1 16 (\<lambda>a. cnum (role_u8 a)) (sf_access f) @ when1 17 (accesses \<noteq> []) (CArray (map (\<lambda>a. cnum (role_u8 a)) accesses)) @
     opt1 19 cnum (sf_rank f) @ opt1 20 cnum (sf_aspect f) @ opt1 21 cnum (sf_scope f) @ opt1 22 cnum (sf_provenance f) @
     opt1 23 cnum (sf_unitId f) @ [])"

definition store_kvs :: "StoreDescriptor \<Rightarrow> (u64 \<times> cbor) list" where
  "store_kvs d = [(1, cnum (sd_storeId d))] @ [(2, CText (sd_kind d))] @ [(3, cnum (sd_capacity d))] @
     [(4, cnum (sd_perItemMax d))] @ [(5, cnum (sd_nameMax d))] @ []"

text \<open>The image of an entry is a function of what it declares; the schema fields are in the order of their keys.\<close>

definition entry_kvs :: "entry_view \<Rightarrow> (u64 \<times> cbor) list" where
  "entry_kvs = (\<lambda>(e, layout, schema, store).
     [(1, cnum (ce_id e))] @ [(2, CText (ce_name e))] @ [(3, cnum (class_u8 (ce_cls e)))] @ [(4, cnum (dir_u8 (ce_dir e)))] @
     [(5, cnum (role_u8 (ce_access e)))] @ [(6, CFloat (ce_maxRateHz e))] @ [(7, cnum (priority_u8 (ce_defaultPriority e)))] @
     when1 8 (ce_form e = FF_Layout) (CArray (map (\<lambda>v. CMap (layout_kvs v)) layout)) @
     when1 9 (ce_form e = FF_Schema)
       (CMap (map (\<lambda>v. (ucast (sf_key (fst v)), CMap (schema_kvs v))) (sort_key (\<lambda>v. sf_key (fst v)) schema))) @
     opt1 10 cnum (ce_category e) @ when1 11 (ce_categoryLabel e \<noteq> []) (CText (ce_categoryLabel e)) @
     (if ce_form e = FF_Store then opt1 12 (\<lambda>d. CMap (store_kvs d)) store else []) @
     opt1 13 cnum (ce_replayDepth e) @ opt1 14 cnum (ce_settingChannel e) @
     when1 15 (ce_streamKind e \<noteq> 0) (cnum (ce_streamKind e)) @ opt1 16 cnum (ce_rank e) @ [])"

lemma length_opt1 [simp]: "word_of_nat (length (opt1 k g x)) = present x" "length (opt1 k g x) \<le> Suc 0"
  by (simp_all add: opt1_def present_def split: option.splits)

lemma length_when1 [simp]: "word_of_nat (length (when1 k b v)) = countIf b" "length (when1 k b v) \<le> Suc 0"
  by (simp_all add: when1_def countIf_def)

lemma epairs_opt1 [emit_intros]:
  assumes "\<And>y. emits (Suc d) (val y) (g y)" and "K \<le> k" and "k < k + 1"
  shows "epairs d (w_opt x (\<lambda>y. w_kv k (val y))) (opt1 k g x) K (k + 1)"
  unfolding opt1_def using assms by (intro epairs_opt epairs_kv) auto

lemma epairs_when1 [emit_intros]:
  assumes "b \<Longrightarrow> emits (Suc d) val v" and "K \<le> k" and "k < k + 1"
  shows "epairs d (w_when b (w_kv k val)) (when1 k b v) K (k + 1)"
proof (cases b)
  case True
  then show ?thesis using epairs_kv [OF assms] by (simp add: when1_def w_when_def [abs_def])
next
  case False
  have "K \<le> k + 1" using assms(2,3) by order
  then show ?thesis using False by (auto simp: when1_def w_when_def epairs_def intro: WM_weaken)
qed

lemma emits_cnum [emit_intros]: "emits d (uintVal (ucast v)) (cnum v)"
  unfolding cnum_def by (rule emits_uint)

lemma emits_setting [emit_intros]: "d \<noteq> SD_None \<Longrightarrow> emits n (encodeSettingDefault d) (sd_cbor d)"
  using emits_int [of n] by (cases d) (auto simp: encodeSettingDefault_def sd_cbor_def intro: emit_intros)

lemma w_each_when: "w_each (\<lambda>x. w_when (P x) (g x)) xs = w_each g (filter P xs)"
proof -
  have "foldl (\<lambda>w x. w_when (P x) (g x) w) w xs = foldl (\<lambda>w x. g x w) w (filter P xs)" for w
    by (induction xs arbitrary: w) (simp_all add: w_when_def)
  then show ?thesis by (simp add: w_each_def fun_eq_iff)
qed

lemma bit_kvs_filter:
  "bit_kvs i bits = map (\<lambda>x. (of_nat (fst x), CText (snd x))) (filter (\<lambda>x. snd x \<noteq> []) (enumerate i bits))"
  by (induction i bits rule: bit_kvs.induct) simp_all

lemma bit_kvs_length: "length (bit_kvs i bits) = length (filter (\<lambda>s. s \<noteq> []) bits)"
  by (induction i bits rule: bit_kvs.induct) simp_all

lemma few_named: "length bits < 256 \<Longrightarrow> length (filter (\<lambda>s. s \<noteq> []) bits) < 256"
  by (rule le_less_trans [OF length_filter_le])

lemma enumerate_sorted: "i + length bits \<le> 256 \<Longrightarrow> sorted_wrt (<) (map (\<lambda>x. of_nat (fst x) :: u64) (enumerate i bits))"
proof (induction bits arbitrary: i)
  case (Cons s ss)
  have "(of_nat i :: u64) < of_nat j" if "i < j" "j < 256" for j using that by (simp add: word_less_nat_alt unat_of_nat)
  then show ?case using Cons by (auto simp: in_set_enumerate_eq)
qed simp

lemma bit_keys:
  assumes "i + length bits \<le> 256"
  shows "sorted_wrt (<) (map fst (bit_kvs i bits))"
    and "sorted_wrt (<) (map (\<lambda>x. of_nat (fst x) :: u64) (filter (\<lambda>x. snd x \<noteq> []) (enumerate i bits)))"
proof -
  show "sorted_wrt (<) (map (\<lambda>x. of_nat (fst x) :: u64) (filter (\<lambda>x. snd x \<noteq> []) (enumerate i bits)))"
    using enumerate_sorted [OF assms] unfolding sorted_wrt_map by (rule sorted_wrt_filter)
  then show "sorted_wrt (<) (map fst (bit_kvs i bits))" by (simp add: bit_kvs_filter comp_def)
qed

lemma emits_bits [emit_intros]:
  assumes "length bits < 256" and "d < 4"
  shows "emits d (encodeBits bits) (CMap (bit_kvs 0 bits))"
proof -
  let ?xs = "filter (\<lambda>x. snd x \<noteq> []) (enumerate 0 bits)"
  have "epairs d (w_each (\<lambda>x. w_kv (of_nat (fst x)) (tstrVal (snd x))) ?xs) (map (\<lambda>x. (of_nat (fst x), CText (snd x))) ?xs) 0 256"
  proof (rule epairs_each)
    show "sorted_wrt (<) (map (\<lambda>x. of_nat (fst x) :: u64) ?xs)" using bit_keys(2) [of 0 bits] assms(1) by simp
    show "0 \<le> (of_nat (fst x) :: u64) \<and> (of_nat (fst x) :: u64) < 256" if "x \<in> set ?xs" for x
    proof -
      have "fst x < 256" using that assms(1) by (auto simp: enumerate_eq_zip set_zip)
      then show ?thesis by (simp add: word_less_nat_alt unat_of_nat)
    qed
  qed (rule emit_intros | simp)+
  then have e: "epairs d (w_each (\<lambda>x. w_when (snd x \<noteq> []) (w_kv (of_nat (fst x)) (tstrVal (snd x)))) (enumerate 0 bits))
      (bit_kvs 0 bits) 0 256"
    by (simp add: w_each_when bit_kvs_filter)
  have "emits d (w_seq (mapHeader (named_bits bits) # [w_each (\<lambda>x. w_when (snd x \<noteq> []) (w_kv (of_nat (fst x)) (tstrVal (snd x))))
      (enumerate 0 bits)])) (CMap (bit_kvs 0 bits @ []))"
    using assms(2) few_named [OF assms(1)]
    by (intro emits_map [OF epairs_seq_Cons [OF e epairs_seq_Nil]]) (auto simp: named_bits_def bit_kvs_length)
  then show ?thesis by (simp add: encodeBits_def case_prod_beta')
qed

lemma named_bits_iff:
  assumes "length bits < 256"
  shows "named_bits bits > 0 \<longleftrightarrow> bit_kvs 0 bits \<noteq> []"
proof -
  let ?n = "length (filter (\<lambda>s. s \<noteq> []) bits)"
  have "?n < 256" using assms by (rule few_named)
  then have "unat (of_nat ?n :: u32) = ?n" by (simp add: unat_of_nat)
  then have "(0 :: u32) < of_nat ?n \<longleftrightarrow> 0 < ?n" by (simp add: word_less_nat_alt)
  then show ?thesis by (simp add: named_bits_def bit_kvs_length flip: length_greater_0_conv)
qed

text \<open>What a sender has to keep to: counts that fit their headers.\<close>

lemma few_append: "length xs \<le> 1 \<Longrightarrow> length ys \<le> n - 1 \<Longrightarrow> 0 < n \<Longrightarrow> length (xs @ ys) \<le> n"
  by simp

lemma layout_kvs_few: "length (layout_kvs v) \<le> 20"
  by (cases v) (simp only: layout_kvs_def prod.case, (rule few_append | simp)+)

lemma emits_layout:
  assumes "length bits < 256" and "length options < 2 ^ 32" and "d < 3"
  shows "emits d (encodeLayoutField f bits options) (CMap (layout_kvs (f, bits, options)))"
proof -
  have n: "4 + present (lf_min f) + present (lf_max f) + countIf (bit_kvs 0 bits \<noteq> []) + present (lf_settingKey f) +
        countIf (lf_dflt f \<noteq> SD_None) + countIf (options \<noteq> []) + countIf (lf_group f \<noteq> []) + countIf (lf_desc f \<noteq> []) +
        countIf (lf_role f \<noteq> []) + present (lf_step f) + countIf (lf_flags f \<noteq> 0) + present (lf_rank f) +
        present (lf_aspect f) + present (lf_scope f) + present (lf_provenance f) + present (lf_unitId f)
     = word_of_nat (length (layout_kvs (f, bits, options)))"
    unfolding layout_kvs_def prod.case length_append of_nat_add length_opt1 length_when1 by simp
  have d: "d < 4" using assms(3) by simp
  show ?thesis
    unfolding encodeLayoutField_def named_bits_iff [OF assms(1)] n
  proof (rule emits_map)
    show "length (layout_kvs (f, bits, options)) < 2 ^ 32" by (rule le_less_trans [OF layout_kvs_few]) simp
  qed (unfold layout_kvs_def prod.case, (rule emit_intros | simp add: assms [simplified] d)+)
qed

lemma schema_kvs_few: "length (schema_kvs v) \<le> 19"
  by (cases v) (simp only: schema_kvs_def prod.case, (rule few_append | simp)+)

lemma emits_schema:
  assumes "length options < 2 ^ 32" and "length accesses < 2 ^ 32" and "d < 3"
  shows "emits d (encodeSchemaField f options accesses) (CMap (schema_kvs (f, options, accesses)))"
proof -
  have n: "3 + present (sf_min f) + present (sf_max f) + countIf (sf_dflt f \<noteq> SD_None) + countIf (options \<noteq> []) +
        countIf (sf_group f \<noteq> []) + countIf (sf_desc f \<noteq> []) + countIf (sf_role f \<noteq> []) + present (sf_step f) +
        countIf (sf_flags f \<noteq> 0) + present (sf_access f) + countIf (accesses \<noteq> []) + present (sf_rank f) +
        present (sf_aspect f) + present (sf_scope f) + present (sf_provenance f) + present (sf_unitId f)
     = word_of_nat (length (schema_kvs (f, options, accesses)))"
    unfolding schema_kvs_def prod.case length_append of_nat_add length_opt1 length_when1 by simp
  have d: "d < 4" using assms(3) by simp
  show ?thesis
    unfolding encodeSchemaField_def n
  proof (rule emits_map)
    show "length (schema_kvs (f, options, accesses)) < 2 ^ 32" by (rule le_less_trans [OF schema_kvs_few]) simp
  qed (unfold schema_kvs_def prod.case, (rule emit_intros | simp add: assms [simplified] d)+)
qed

lemma emits_store: "d < 4 \<Longrightarrow> emits d (encodeStoreDescriptor s) (CMap (store_kvs s))"
  unfolding encodeStoreDescriptor_def store_kvs_def by (rule emits_map) (rule emit_intros | simp)+

section \<open>The image of an entry\<close>

lemma span_short: "length (label_span c r) < 256"
  by (rule le_less_trans [OF _ unat_u8_less [of "lr_count r"]]) (simp add: label_span_def)

lemma labels_short: "length (labels c r) < 256" "length (labelAccess c r) < 256" "length (optionAccess c f) < 256"
  using span_short by (auto simp: labels_def labelAccess_def optionAccess_def)

lemma labels_fit: "length (labels c r) < 2 ^ 32" "length (optionAccess c f) < 2 ^ 32"
  using labels_short(1) [of c r] labels_short(3) [of c f] by simp_all

lemma layout_kvs_lview: "layout_kvs (lview c f) = layout_kvs (f, labels c (lf_bits f), labels c (lf_options f))"
  by (simp add: layout_kvs_def lview_def)

lemma schema_kvs_sview: "schema_kvs (sview c f) = schema_kvs (f, labels c (sf_options f), optionAccess c f)"
  by (simp add: schema_kvs_def sview_def)

lemma emits_layouts [emit_intros]:
  assumes "length fs \<le> 64" and "d < 2"
  shows "emits d (encodeLayout c fs) (CArray (map (\<lambda>v. CMap (layout_kvs v)) (map (lview c) fs)))"
  unfolding encodeLayout_def map_map comp_def layout_kvs_lview
  using assms labels_short labels_fit by (intro emits_list emits_layout) auto

lemma sort_key_map: "sort_key g (map h xs) = map h (sort_key (\<lambda>x. g (h x)) xs)"
proof (induction xs)
  case (Cons x xs)
  have "insort_key g (h x) (map h ys) = map h (insort_key (\<lambda>x. g (h x)) x ys)" for ys
    by (induction ys) simp_all
  then show ?case using Cons by simp
qed simp

lemma keys_strict: "distinct (map f xs) \<Longrightarrow> sorted_wrt (<) (map f (sort_key f xs))"
proof -
  assume "distinct (map f xs)"
  then have "distinct (map f (sort_key f xs))" by (metis distinct_map distinct_sort set_sort)
  then show ?thesis using sorted_sort_key [of f xs] by (simp add: strict_sorted_iff)
qed

lemma sorted_ucast_u8: "sorted_wrt (<) ks \<Longrightarrow> sorted_wrt (<) (map (\<lambda>k :: u8. ucast k :: u64) ks)"
  unfolding sorted_wrt_map by (erule sorted_wrt_mono_rel [rotated]) (simp add: word_less_nat_alt)

lemma emits_schemas [emit_intros]:
  assumes "length fs \<le> 64" and "distinct (map sf_key fs)" and "d < 2"
  shows "emits d (encodeSchema c fs) (CMap (map (\<lambda>v. (ucast (sf_key (fst v)), CMap (schema_kvs v)))
    (sort_key (\<lambda>v. sf_key (fst v)) (map (sview c) fs))))"
proof -
  let ?fs = "sort_key sf_key fs"
  have "epairs d (w_each (\<lambda>f. w_kv (ucast (sf_key f)) (encodeSchemaField f (labels c (sf_options f)) (optionAccess c f))) ?fs)
      (map (\<lambda>f. (ucast (sf_key f), CMap (schema_kvs (sview c f)))) ?fs) 0 256"
  proof (rule epairs_each)
    show "sorted_wrt (<) (map (\<lambda>f. ucast (sf_key f) :: u64) ?fs)"
      using sorted_ucast_u8 [OF keys_strict [OF assms(2)]] by (simp add: comp_def)
    show "0 \<le> (ucast (sf_key f) :: u64) \<and> (ucast (sf_key f) :: u64) < 256" for f
      using unat_u8_less [of "sf_key f"] by (simp add: word_less_nat_alt)
    show "emits (Suc d) (encodeSchemaField f (labels c (sf_options f)) (optionAccess c f)) (CMap (schema_kvs (sview c f)))" for f
      unfolding schema_kvs_sview using assms(3) labels_fit by (intro emits_schema) auto
  qed simp
  from emits_map [OF epairs_seq_Cons [OF this epairs_seq_Nil], of "of_nat (length fs)"] assms
  show ?thesis
    by (simp add: encodeSchema_def sort_key_map comp_def sview_def)
qed

lemma eview_simps:
  "fst (eview c e) = header_of e" "fst (snd (eview c e)) = map (lview c) (layoutFields c e)"
  "fst (snd (snd (eview c e))) = map (sview c) (schemaFields c e)" "snd (snd (snd (eview c e))) = storeDescriptor c e"
  by (simp_all add: eview_def)

text \<open>An entry the encoder can write: its payload resolves, there is room in the field counts, no schema key is repeated.\<close>

definition entry_writable :: "BasicCatalog \<Rightarrow> CatalogEntry \<Rightarrow> bool" where
  "entry_writable c e \<longleftrightarrow> payload_resolves c e \<and> unat (ce_fieldCount e) \<le> kMaxFields \<and> distinct (map sf_key (schemaFields c e))"

lemma entry_kvs_few: "length (entry_kvs v) \<le> 16"
proof -
  have [simp]: "length (if b then opt1 k g x else []) \<le> Suc 0" for b k x and g :: "StoreDescriptor \<Rightarrow> cbor" by simp
  show ?thesis by (cases v) (simp only: entry_kvs_def prod.case, (rule few_append | simp)+)
qed

lemma payload_one:
  "countIf (ff = FF_Layout) + (countIf (ff = FF_Schema) + countIf (ff = FF_Store)) = 1"
  by (cases ff) (simp_all add: countIf_def)

lemma epairs_store [emit_intros]:
  assumes "d < 3" and "K \<le> 12"
  shows "epairs d (w_when b (w_opt x (\<lambda>s. w_kv 12 (encodeStoreDescriptor s)))) (if b then opt1 12 (\<lambda>s. CMap (store_kvs s)) x else []) K (12 + 1)"
  using assms by (intro epairs_when epairs_opt1 emits_store) (auto intro: order_trans)

lemma emits_entry:
  assumes "entry_writable c e"
  shows "emits 0 (cat_encodeEntry c e) (CMap (entry_kvs (eview c e)))"
proof -
  have len: "length (layoutFields c e) \<le> 64" "length (schemaFields c e) \<le> 64" "distinct (map sf_key (schemaFields c e))"
    and st: "\<not> (ce_form e = FF_Store \<and> storeDescriptor c e = None)"
    using assms by (auto simp: entry_writable_def payload_resolves_def layoutFields_def schemaFields_def split: FieldForm.splits)
  have form: "ce_form (header_of e) = ce_form e" by (simp add: header_of_def ce_form_def)
  have one: "word_of_nat (length (if ce_form e = FF_Store then opt1 12 g (storeDescriptor c e) else [])) = countIf (ce_form e = FF_Store)" for g
    using st by (auto simp: countIf_def present_def)
  have n: "8 + present (ce_category e) + countIf (ce_categoryLabel e \<noteq> []) + present (ce_replayDepth e) +
      present (ce_settingChannel e) + countIf (ce_streamKind e \<noteq> 0) + present (ce_rank e)
    = word_of_nat (length (entry_kvs (eview c e)))"
    using payload_one [of "ce_form e"]
    unfolding entry_kvs_def eview_def prod.case length_append of_nat_add length_opt1 length_when1 form one
    by (simp add: header_of_def algebra_simps)
  have enc: "cat_encodeEntry c e = w_seq (mapHeader (word_of_nat (length (entry_kvs (eview c e)))) # entryCalls c e)"
    using len(1,2) st by (auto simp: cat_encodeEntry_def fun_eq_iff Let_def n split: FieldForm.splits)
  show ?thesis
    unfolding enc
  proof (rule emits_map)
    show "length (entry_kvs (eview c e)) < 2 ^ 32" by (rule le_less_trans [OF entry_kvs_few]) simp
  qed (unfold entry_kvs_def eview_def prod.case entryCalls_def form, (rule emit_intros | simp add: len header_of_def)+)
qed

section \<open>The image of a catalog\<close>

definition entry_image :: "entry_view \<Rightarrow> bytes" where
  "entry_image v = enc (CMap (entry_kvs v))"

definition catalog_image :: "entry_view list \<Rightarrow> bytes" where
  "catalog_image vs = head_bytes 4 (of_nat (length vs)) @ concat (map entry_image vs)"

lemma encodeEntries_image:
  assumes "\<forall>e \<in> set es. entry_writable c e" and "length out \<le> cap"
  shows "encodeEntries c cap es out = (let imgs = map (\<lambda>e. entry_image (eview c e)) es in
    if (\<forall>img \<in> set imgs. length img \<le> 4096) \<and> length (out @ concat imgs) \<le> cap then out @ concat imgs else [])"
  using assms
proof (induction es arbitrary: out)
  case (Cons e es)
  let ?i = "entry_image (eview c e)"
  have r: "w_result (cat_encodeEntry c e (CborWriter_new (cap - length out))) = (if length ?i \<le> cap - length out then ?i else [])"
    unfolding entry_image_def using Cons.prems(1) by (intro emits_result emits_entry) simp
  have ne: "?i \<noteq> []" unfolding entry_image_def by (rule enc_nonempty)
  have ok: "payload_resolves c e" "unat (ce_fieldCount e) \<le> 64" using Cons.prems(1) by (simp_all add: entry_writable_def)
  show ?case
  proof (cases "length ?i \<le> cap - length out \<and> length ?i \<le> 4096")
    case True
    then have "encodeEntries c cap (e # es) out = encodeEntries c cap es (out @ ?i)"
      using Cons.prems ok ne by (simp add: r Let_def)
    also have "\<dots> = (let imgs = map (\<lambda>e. entry_image (eview c e)) es in
        if (\<forall>img \<in> set imgs. length img \<le> 4096) \<and> length ((out @ ?i) @ concat imgs) \<le> cap then (out @ ?i) @ concat imgs else [])"
      using Cons.prems True by (intro Cons.IH) auto
    finally show ?thesis using True by (auto simp: Let_def simp del: encodeEntries.simps)
  next
    case False
    then have "\<not> (length ?i \<le> 4096 \<and> length (out @ concat (map (\<lambda>e. entry_image (eview c e)) (e # es))) \<le> cap)"
      using Cons.prems(2) by auto
    then show ?thesis using False Cons.prems ok by (auto simp: r Let_def)
  qed
qed simp

lemma ascending_ids:
  "list_ex (\<lambda>i. f (xs ! i) \<le> f (xs ! (i - 1))) [1..<length xs] \<longleftrightarrow> \<not> sorted_wrt (<) (map f xs)"
  for f :: "'a \<Rightarrow> 'b :: linorder"
proof -
  have "(\<exists>i \<in> set [1..<n]. P i) \<longleftrightarrow> (\<exists>j. Suc j < n \<and> P (Suc j))" for P n
    by (auto simp: Bex_def gr0_conv_Suc Suc_le_eq)
  then show ?thesis by (auto simp: list_ex_iff sorted_wrt_iff_nth_Suc_transp not_less)
qed

lemma arrayHeader_image: "n < 2 ^ 32 \<Longrightarrow> w_result (arrayHeader (of_nat n) (CborWriter_new 9)) = head_bytes 4 (of_nat n)"
proof -
  assume n: "n < 2 ^ 32"
  have "Wr (arrayHeader (of_nat n) (CborWriter_new 9)) 9 ([] @ head_bytes 4 (of_nat n))
     (slots \<lparr> fr_isMap = False, fr_remaining = 0, fr_hasLastKey = False, fr_lastKey = 0 \<rparr> n [])"
    using Wr_writeHead [OF Wr_openContainer [of "CborWriter_new 9" 9 "[]" "[]" False n], of 4 "of_nat n"] n
    by (simp add: arrayHeader_def Wr_def CborWriter_new_def unat_of_nat ucast_u32_of_nat)
  moreover have "length (head_bytes 4 (of_nat n)) \<le> 9" by (simp add: length_head_bytes head_nbytes_def)
  ultimately show ?thesis by (simp add: Wr_def w_result_def w_size_def)
qed

lemma encodeCatalog_image:
  assumes "\<forall>e \<in> set (bc_entries c). entry_writable c e" and "sorted_wrt (<) (map ce_id (bc_entries c))"
    and "length (bc_entries c) < 2 ^ 16"
  shows "encodeCatalog c cap = (let vs = map (eview c) (bc_entries c) in
    if (\<forall>v \<in> set vs. length (entry_image v) \<le> 4096) \<and> length (catalog_image vs) \<le> cap then catalog_image vs else [])"
proof -
  let ?h = "head_bytes 4 (of_nat (length (bc_entries c)))"
  have hdr: "w_result (arrayHeader (of_nat (length (bc_entries c))) (CborWriter_new 9)) = ?h"
    using assms(3) by (intro arrayHeader_image) simp
  have ne: "?h \<noteq> []" by (simp add: head_bytes_alt)
  have ids: "\<not> list_ex (\<lambda>i. ce_id (bc_entries c ! i) \<le> ce_id (bc_entries c ! (i - 1))) [1..<length (bc_entries c)]"
    using assms(2) ascending_ids [of ce_id "bc_entries c"] by blast
  show ?thesis
  proof (cases "cap < length ?h")
    case True
    then show ?thesis by (simp add: encodeCatalog_def hdr catalog_image_def Let_def)
  next
    case False
    then show ?thesis
      using encodeEntries_image [of "bc_entries c" c ?h cap] assms(1) ids ne
      by (simp add: encodeCatalog_def hdr catalog_image_def comp_def Let_def)
  qed
qed

end
