(* ===== verification/Catalog_Decode.thy ===== *)
theory Catalog_Decode
  imports Catalog_Codec
begin

text \<open>
  What the catalog decoder of \<open>Catalog_Codec\<close> makes of an image: fields, labels and entries are read back into the pools
  they are pushed to.
\<close>

section \<open>Reading values\<close>

lemma reads_on: "reads d rd v x \<Longrightarrow> g x = y \<Longrightarrow> reads d (on rd g) v y"
  unfolding on_def [abs_def] by (rule reads_bind) auto

lemma reads_text: "lo \<le> length s \<Longrightarrow> length s \<le> hi \<Longrightarrow> hi < 2 ^ 64 \<Longrightarrow> reads d (read_text lo hi) (CText s) s"
  unfolding read_text_def [abs_def] by (rule reads_bind [OF reads_tstr]) auto

lemma reads_max: "ucast v \<le> m \<Longrightarrow> reads d (read_max m) (cnum v) (ucast v)"
  unfolding read_max_def [abs_def] cnum_def by (rule reads_bind [OF reads_uint]) auto

lemma reads_u8: "reads d read_u8 (cnum v) v"
  unfolding read_u8_def by (rule reads_on [OF reads_max]) (simp_all add: not_less [symmetric])

lemma reads_u16: "reads d read_u16 (cnum v) v"
  unfolding read_u16_def by (rule reads_on [OF reads_max]) (simp_all add: not_less [symmetric])

lemma reads_u32: "reads d read_u32 (cnum v) v"
  unfolding read_u32_def by (rule reads_on [OF reads_max]) (simp_all add: not_less [symmetric])

lemma reads_enum:
  fixes v :: u8
  assumes "unat v < length xs" and "length xs \<le> 256"
  shows "reads d (read_enum xs) (cnum v) (xs ! unat v)"
proof -
  have "unat (of_nat (length xs - 1) :: u64) = length xs - 1" using assms(2) by (simp add: unat_of_nat)
  then have "(ucast v :: u64) \<le> of_nat (length xs - 1)" using assms(1) by (simp add: word_le_nat_alt)
  then show ?thesis unfolding read_enum_def by (intro reads_on [OF reads_max]) simp_all
qed

lemma reads_codes:
  "reads d (read_enum packed_types) (cnum (packed_u8 t)) t"
  "reads d (read_enum cbor_types) (cnum (cborType_u8 ct)) ct"
  "reads d (read_enum channel_classes) (cnum (class_u8 cc)) cc"
  "reads d (read_enum directions) (cnum (dir_u8 di)) di"
  "reads d (read_enum access_levels) (cnum (role_u8 a)) a"
  "reads d (read_enum priorities) (cnum (priority_u8 p)) p"
proof -
  show "reads d (read_enum packed_types) (cnum (packed_u8 t)) t"
    using reads_enum [of "packed_u8 t" packed_types d] by (cases t) (simp_all add: packed_types_def)
  show "reads d (read_enum cbor_types) (cnum (cborType_u8 ct)) ct"
    using reads_enum [of "cborType_u8 ct" cbor_types d] by (cases ct) (simp_all add: cbor_types_def)
  show "reads d (read_enum channel_classes) (cnum (class_u8 cc)) cc"
    using reads_enum [of "class_u8 cc" channel_classes d] by (cases cc) (simp_all add: channel_classes_def)
  show "reads d (read_enum directions) (cnum (dir_u8 di)) di"
    using reads_enum [of "dir_u8 di" directions d] by (cases di) (simp_all add: directions_def)
  show "reads d (read_enum access_levels) (cnum (role_u8 a)) a"
    using reads_enum [of "role_u8 a" access_levels d] by (cases a) (simp_all add: access_levels_def)
  show "reads d (read_enum priorities) (cnum (priority_u8 p)) p"
    using reads_enum [of "priority_u8 p" priorities d] by (cases p) (simp_all add: priorities_def)
qed

text \<open>Defaults the decoder takes: an integer of 32 bits.\<close>

definition sd_ok :: "SettingDefault \<Rightarrow> bool" where
  "sd_ok d = (case d of SD_Int v \<Rightarrow> - (2 ^ 31) \<le> v \<and> v < 2 ^ 31 | SD_Tstr s \<Rightarrow> length s < 2 ^ 64 | _ \<Rightarrow> True)"

lemma reads_setting_int:
  assumes "- (2 ^ 31) \<le> v" and "v < 2 ^ 31"
  shows "reads d decodeSettingDefault (sd_cbor (SD_Int v)) (SD_Int v)"
  unfolding reads_def
proof (intro allI impI)
  fix r rest assume a: "ahead r = enc (sd_cbor (SD_Int v)) @ rest"
  have s: "sint (word_of_int v :: u64) = v" using assms by (simp add: sint_sbintrunc' signed_take_bit_int_eq_self_iff)
  have n: "- 1 - word_of_int (- 1 - v) = (word_of_int v :: u64)" by simp
  have rng: "\<not> (v > 2 ^ 31 - 1 \<or> v < - (2 ^ 31))" using assms by simp
  show "decodeSettingDefault r = Inr (SD_Int v, adv (length (enc (sd_cbor (SD_Int v)))) r)"
  proof (cases "v \<ge> 0")
    case True
    then have c: "sd_cbor (SD_Int v) = CUint (word_of_int v)" by (simp add: sd_cbor_def)
    have "readInt r = Inr (v, adv (length (enc (CUint (word_of_int v)))) r)" using a readInt_enc(1) s unfolding c by metis
    moreover have "peekType r = Inr MT_UInt" using a peekType_head [of r 0 "word_of_int v" rest] unfolding c by simp
    ultimately show ?thesis unfolding c decodeSettingDefault_def using rng
      by (simp only: rbind_simps MajorType.case prod.case if_False)
  next
    case False
    then have c: "sd_cbor (SD_Int v) = CNeg (word_of_int (- 1 - v))" by (simp add: sd_cbor_def)
    have "readInt r = Inr (v, adv (length (enc (CNeg (word_of_int (- 1 - v))))) r)"
      using a readInt_enc(2) s n unfolding c by metis
    moreover have "peekType r = Inr MT_NegInt" using a peekType_head [of r 1 "word_of_int (- 1 - v)" rest] unfolding c by simp
    ultimately show ?thesis unfolding c decodeSettingDefault_def using rng
      by (simp only: rbind_simps MajorType.case prod.case if_False)
  qed
qed

lemma reads_setting:
  assumes "sd_ok x" and "x \<noteq> SD_None"
  shows "reads d decodeSettingDefault (sd_cbor x) x"
proof (cases x)
  case (SD_Int v)
  then show ?thesis using assms reads_setting_int by (simp add: sd_ok_def)
next
  case (SD_Float f)
  have "decodeSettingDefault r = Inr (SD_Float f, adv (length (enc (CFloat f))) r)" if a: "ahead r = enc (CFloat f) @ rest" for r rest
  proof -
    have "peekType r = Inr MT_Simple" using a by (simp add: peekType_Cons)
    then show ?thesis using readF32_enc [OF a] by (simp add: decodeSettingDefault_def)
  qed
  then show ?thesis by (auto simp: reads_def SD_Float sd_cbor_def simp del: enc.simps)
next
  case (SD_Bool b)
  have "decodeSettingDefault r = Inr (SD_Bool b, adv (length (enc (CBool b))) r)" if a: "ahead r = enc (CBool b) @ rest" for r rest
  proof -
    have "peekType r = Inr MT_Simple" using a by (cases b) (simp_all add: peekType_Cons)
    moreover have "readF32 r = Inl Malformed" using a by (cases b) (simp_all add: readF32_def parseSimpleRaw_Cons)
    ultimately show ?thesis using readBool_enc [OF a] by (simp add: decodeSettingDefault_def)
  qed
  then show ?thesis by (auto simp: reads_def SD_Bool sd_cbor_def simp del: enc.simps)
next
  case (SD_Tstr s)
  then have l: "length s < 2 ^ 64" using assms(1) by (simp add: sd_ok_def)
  have "decodeSettingDefault r = Inr (SD_Tstr s, adv (length (enc (CText s))) r)" if a: "ahead r = enc (CText s) @ rest" for r rest
  proof -
    have "peekType r = Inr MT_TextString" using a peekType_head [of r 3 "word_of_nat (length s)" "s @ rest"] by simp
    then show ?thesis using readTstr_enc [OF a l] by (simp add: decodeSettingDefault_def on_def)
  qed
  then show ?thesis by (auto simp: reads_def SD_Tstr sd_cbor_def simp del: enc.simps)
qed (use assms in simp)

section \<open>Reading labels\<close>

definition push_labels :: "BasicCatalog \<Rightarrow> (bytes \<times> AccessLevel) list \<Rightarrow> BasicCatalog" where
  "push_labels c ls = c \<lparr> bc_labelPool := bc_labelPool c @ ls \<rparr>"

abbreviation (input) watched :: "bytes list \<Rightarrow> (bytes \<times> AccessLevel) list" where
  "watched ls \<equiv> map (\<lambda>s. (s, watch)) ls"

definition ref_at :: "nat \<Rightarrow> bytes list \<Rightarrow> LabelRef" where
  "ref_at n ls = (if ls = [] then LabelRef_new else \<lparr> lr_offset = of_nat n, lr_count = of_nat (length ls) \<rparr>)"

lemma push_labels_simps [simp]:
  "push_labels c [] = c" "push_labels (push_labels c xs) ys = push_labels c (xs @ ys)"
  "bc_labelPool (push_labels c xs) = bc_labelPool c @ xs" "bc_layoutPool (push_labels c xs) = bc_layoutPool c"
  "bc_schemaPool (push_labels c xs) = bc_schemaPool c" "bc_storePool (push_labels c xs) = bc_storePool c"
  "bc_entries (push_labels c xs) = bc_entries c" "bc_overflow (push_labels c xs) = bc_overflow c"
  by (simp_all add: push_labels_def)

lemma ref_at_Nil [simp]: "ref_at n [] = LabelRef_new"
  by (simp add: ref_at_def)

lemma poolAddLabel_push:
  "length (bc_labelPool c) < cap_labels caps \<Longrightarrow> poolAddLabel caps s a c = (True, push_labels c [(s, a)])"
  by (simp add: poolAddLabel_def push_labels_def)

lemma fillTo_push:
  "length (bc_labelPool c) + n \<le> cap_labels caps \<Longrightarrow> fillTo caps n c = (True, push_labels c (replicate n ([], watch)))"
  by (induction n arbitrary: c) (simp_all add: poolAddLabel_push)

lemma count_u32: "0 < n \<Longrightarrow> n < 2 ^ 32 \<Longrightarrow> (of_nat n :: u32) \<noteq> 0 \<and> unat (of_nat n :: u32) = n"
proof -
  assume n: "0 < n" "n < 2 ^ 32"
  then have u: "unat (of_nat n :: u32) = n" by (simp add: unat_of_nat)
  then show ?thesis using n(1) by (metis less_irrefl unat_0)
qed

text \<open>A count in a header that was checked against limits.\<close>

lemma reads_counted_array:
  assumes "eruns d h vs m m'" and "length vs < 2 ^ 32" and "d < 4" and "\<not> bad (of_nat (length vs))"
  shows "reads d (\<lambda>r. rbind (readArrayHeader r) (\<lambda>(n, r). if bad n then Inl e else on (read_elems (unat n) h m) (g n) r))
    (CArray vs) (g (of_nat (length vs)) m')"
  unfolding reads_def
proof (intro allI impI)
  fix r rest assume a: "ahead r = enc (CArray vs) @ rest" and st: "length (rd_stack r) \<le> d"
  obtain r1 where h: "readArrayHeader r = Inr (of_nat (length vs), r1)"
    using a st enterContainer_enc [of r 4 "length vs" _ False] assms(2,3) by (auto simp: readArrayHeader_def)
  have "rbind (readArrayHeader r) (\<lambda>(n, r). read_elems (unat n) h m r) = Inr (m', adv (length (enc (CArray vs))) r)"
    using reads_array [OF assms(1,2,3)] a st unfolding reads_def by blast
  then show "rbind (readArrayHeader r) (\<lambda>(n, r). if bad n then Inl e else on (read_elems (unat n) h m) (g n) r) =
      Inr (g (of_nat (length vs)) m', adv (length (enc (CArray vs))) r)"
    using assms(4) by (simp add: h on_def del: enc.simps)
qed

lemma reads_counted_map:
  assumes "runs d h kvs m m'" and "sorted_wrt (<) (map fst kvs)" and "length kvs < 2 ^ 32" and "d < 4"
    and "\<not> bad (of_nat (length kvs))"
  shows "reads d (\<lambda>r. rbind (readMapHeader r) (\<lambda>(n, r). if bad n then Inl e else on (read_pairs (unat n) h m) (g n) r))
    (CMap kvs) (g (of_nat (length kvs)) m')"
  unfolding reads_def
proof (intro allI impI)
  fix r rest assume a: "ahead r = enc (CMap kvs) @ rest" and st: "length (rd_stack r) \<le> d"
  obtain r1 where h: "readMapHeader r = Inr (of_nat (length kvs), r1)"
    using a st enterContainer_enc [of r 5 "length kvs" _ True] assms(3,4) by (auto simp: readMapHeader_def)
  have "rbind (readMapHeader r) (\<lambda>(n, r). read_pairs (unat n) h m r) = Inr (m', adv (length (enc (CMap kvs))) r)"
    using reads_map [OF assms(1,2,3,4)] a st unfolding reads_def by blast
  then show "rbind (readMapHeader r) (\<lambda>(n, r). if bad n then Inl e else on (read_pairs (unat n) h m) (g n) r) =
      Inr (g (of_nat (length kvs)) m', adv (length (enc (CMap kvs))) r)"
    using assms(5) by (simp add: h on_def del: enc.simps)
qed

lemma trimmed_Nil [simp]: "trimmed (replicate n []) = []" "trimmed [] = []"
  by (simp_all add: trimmed_def dropWhile_eq_Nil_conv)

lemma trimmed_named: "s \<noteq> [] \<Longrightarrow> trimmed (xs @ s # ys) = xs @ s # trimmed ys"
  by (simp add: trimmed_def dropWhile_append)

lemma trimmed_Nil_iff: "trimmed bits = [] \<longleftrightarrow> bit_kvs i bits = []"
proof (induction bits arbitrary: i)
  case (Cons s ss)
  show ?case
  proof (cases "s = []")
    case True
    have "trimmed ([] # ss) = [] \<longleftrightarrow> trimmed ss = []" by (simp add: trimmed_def dropWhile_eq_Nil_conv)
    then show ?thesis using True Cons by simp
  next
    case False
    then show ?thesis using trimmed_named [of s "[]" ss] by simp
  qed
qed simp

lemma length_trimmed: "length (trimmed ls) \<le> length ls"
  by (simp add: trimmed_def) (metis length_dropWhile_le length_rev)

lemma runs_bits:
  assumes "j \<le> i" and "i + length bits \<le> 8" and "\<forall>s \<in> set bits. length s \<le> 24" and "caps_ok caps"
    and "length (bc_labelPool c) + length (trimmed (replicate (i - j) [] @ bits)) \<le> cap_labels caps"
  shows "\<exists>n. runs d (decodeBit_key caps) (bit_kvs i bits) (j, c)
      (n, push_labels c (watched (trimmed (replicate (i - j) [] @ bits)))) \<and> n = j + length (trimmed (replicate (i - j) [] @ bits))"
  using assms
proof (induction bits arbitrary: i j c)
  case Nil
  then show ?case by (auto intro: runs_Nil)
next
  case (Cons s ss)
  show ?case
  proof (cases "s = []")
    case True
    have e: "replicate (i - j) [] @ [] # ss = replicate (Suc i - j) [] @ ss"
      using Cons.prems(1) by (simp add: Suc_diff_le replicate_app_Cons_same)
    show ?thesis using Cons.IH [of j "Suc i" c] Cons.prems True by (simp add: e)
  next
    case False
    let ?c = "push_labels c (replicate (i - j) ([], watch))"
    let ?c1 = "push_labels ?c [(s, watch)]"
    note t = trimmed_named [OF False, of "replicate (i - j) []" ss]
    have i: "i < 8" "unat (of_nat i :: u64) = i" using Cons.prems(2) by (simp_all add: unat_of_nat)
    then have k: "\<not> (of_nat i :: u64) \<ge> 8" by (simp add: word_le_nat_alt)
    have room: "length (bc_labelPool c) + (i - j) < cap_labels caps" using Cons.prems(5) by (simp add: t)
    have fl: "fillTo caps (i - j) c = (True, ?c)" using room by (intro fillTo_push) simp
    have pl: "poolAddLabel caps s watch ?c = (True, ?c1)" using room by (intro poolAddLabel_push) simp
    have m: "max j i = i" using Cons.prems(1) by simp
    have "reads (Suc d) (decodeBit_key caps (of_nat i) (j, c)) (CText s) (Suc i, ?c1)"
      unfolding decodeBit_key_def prod.case if_not_P [OF k]
      using False Cons.prems(3)
      by (intro reads_bind [OF reads_text]) (auto simp: i fl pl pooled_def m Suc_le_eq)
    moreover obtain n where "runs d (decodeBit_key caps) (bit_kvs (Suc i) ss) (Suc i, ?c1)
        (n, push_labels ?c1 (watched (trimmed (replicate (Suc i - Suc i) [] @ ss)))) \<and>
        n = Suc i + length (trimmed (replicate (Suc i - Suc i) [] @ ss))"
      using Cons.IH [of "Suc i" "Suc i" ?c1] Cons.prems(2,3,4,5) Cons.prems(1) by (auto simp: t)
    ultimately have "runs d (decodeBit_key caps) ((of_nat i, CText s) # bit_kvs (Suc i) ss) (j, c)
        (n, push_labels c (watched (trimmed (replicate (i - j) [] @ s # ss)))) \<and> n = j + length (trimmed (replicate (i - j) [] @ s # ss))"
      using Cons.prems(1) by (auto intro: runs_Cons simp: t map_replicate_const)
    then show ?thesis using False by auto
  qed
qed

lemma reads_bits:
  assumes "length bits \<le> 8" and "\<forall>s \<in> set bits. length s \<le> 24" and "caps_ok caps" and "bit_kvs 0 bits \<noteq> []"
    and "length (bc_labelPool c) + length (trimmed bits) \<le> cap_labels caps" and "d < 4"
  shows "reads d (decodeBits caps c) (CMap (bit_kvs 0 bits))
    (ref_at (length (bc_labelPool c)) (trimmed bits), push_labels c (watched (trimmed bits)))"
proof -
  let ?n = "length (bit_kvs 0 bits)"
  have "runs d (decodeBit_key caps) (bit_kvs 0 bits) (0, c) (length (trimmed bits), push_labels c (watched (trimmed bits)))"
    using runs_bits [of 0 0 bits caps c d] assms(1,2,3,5) by auto
  moreover have n: "?n \<le> 8" using assms(1) length_filter_le [of "\<lambda>s. s \<noteq> []" bits] by (simp only: bit_kvs_length le_trans)
  moreover have "unat (of_nat ?n :: u32) = ?n" using n by (simp add: unat_of_nat)
  then have "\<not> ((of_nat ?n :: u32) = 0 \<or> (of_nat ?n :: u32) > 8)"
    using n assms(4) by (auto simp: word_less_nat_alt unat_eq_0 [symmetric] simp del: unat_eq_0)
  ultimately have "reads d (decodeBits caps c) (CMap (bit_kvs 0 bits))
      (case (length (trimmed bits), push_labels c (watched (trimmed bits))) of (filled, c') \<Rightarrow>
        (\<lparr> lr_offset = of_nat (length (bc_labelPool c)), lr_count = of_nat filled \<rparr>, c'))"
    unfolding decodeBits_def [abs_def] using bit_keys(1) [of 0 bits] assms(1,6)
    by (intro reads_counted_map) auto
  then show ?thesis using assms(4) trimmed_Nil_iff [of bits 0] by (simp add: ref_at_def)
qed

lemma eruns_options:
  assumes "\<forall>s \<in> set ls. s \<noteq> [] \<and> length s \<le> 24" and "length (bc_labelPool c) + length ls \<le> cap_labels caps"
  shows "eruns d (decodeOption caps) (map CText ls) c (push_labels c (watched ls))"
  using assms
proof (induction ls arbitrary: c)
  case (Cons s ss)
  have "reads (Suc d) (decodeOption caps c) (CText s) (push_labels c [(s, watch)])"
    unfolding decodeOption_def [abs_def] using Cons.prems
    by (intro reads_bind [OF reads_text]) (auto simp: poolAddLabel_push pooled_def Suc_le_eq)
  moreover have "eruns d (decodeOption caps) (map CText ss) (push_labels c [(s, watch)])
      (push_labels (push_labels c [(s, watch)]) (watched ss))"
    using Cons.prems by (intro Cons.IH) auto
  ultimately show ?case by (auto intro: eruns_Cons)
qed (simp add: eruns_Nil)

lemma reads_options:
  assumes "\<forall>s \<in> set ls. s \<noteq> [] \<and> length s \<le> 24" and "ls \<noteq> []" and "length ls \<le> 255"
    and "length (bc_labelPool c) + length ls \<le> cap_labels caps" and "d < 4"
  shows "reads d (decodeOptions caps c) (CArray (map CText ls))
    (ref_at (length (bc_labelPool c)) ls, push_labels c (watched ls))"
proof -
  let ?n = "length (map CText ls)"
  have u: "unat (of_nat ?n :: u32) = ?n" "(ucast (of_nat ?n :: u32) :: u8) = of_nat ?n"
    using assms(3) by (simp_all add: unat_of_nat word_unat_eq_iff unsigned_ucast_eq take_bit_nat_eq_self)
  have bad: "\<not> ((of_nat ?n :: u32) = 0 \<or> unat (of_nat ?n :: u32) > kMaxLabels)"
    using assms(2,3) count_u32 [of ?n] by simp
  have "reads d (decodeOptions caps c) (CArray (map CText ls))
      (\<lparr> lr_offset = of_nat (length (bc_labelPool c)), lr_count = ucast (of_nat ?n :: u32) \<rparr>, push_labels c (watched ls))"
    unfolding decodeOptions_def [abs_def]
    using reads_counted_array [where bad = "\<lambda>n. n = 0 \<or> unat n > kMaxLabels" and e = Malformed
        and g = "\<lambda>n c'. (\<lparr> lr_offset = of_nat (length (bc_labelPool c)), lr_count = ucast n \<rparr>, c')",
        OF eruns_options [OF assms(1,4)] _ assms(5) bad] assms(3) by simp
  then show ?thesis using assms(2) by (simp only: u(2) [unfolded length_map] ref_at_def if_False length_map)
qed

section \<open>Reading fields\<close>

definition layout_ok :: "layout_view \<Rightarrow> bool" where
  "layout_ok = (\<lambda>(f, bits, options).
     lf_name f \<noteq> [] \<and> length (lf_name f) \<le> 24 \<and> length (lf_unit f) \<le> 8 \<and> sd_ok (lf_dflt f) \<and> length (lf_group f) \<le> 24 \<and>
     length (lf_desc f) \<le> 128 \<and> length (lf_role f) \<le> 24 \<and> length bits \<le> 8 \<and> (\<forall>s \<in> set bits. length s \<le> 24) \<and>
     length options \<le> 255 \<and> (\<forall>s \<in> set options. s \<noteq> [] \<and> length s \<le> 24))"

lemmas layout_keys = decodeLayoutField_key_def [where k = 1, simplified] decodeLayoutField_key_def [where k = 2, simplified]
  decodeLayoutField_key_def [where k = 3, simplified] decodeLayoutField_key_def [where k = 4, simplified]
  decodeLayoutField_key_def [where k = 5, simplified] decodeLayoutField_key_def [where k = 6, simplified]
  decodeLayoutField_key_def [where k = 7, simplified] decodeLayoutField_key_def [where k = 8, simplified]
  decodeLayoutField_key_def [where k = 9, simplified] decodeLayoutField_key_def [where k = 10, simplified]
  decodeLayoutField_key_def [where k = 11, simplified] decodeLayoutField_key_def [where k = 12, simplified]
  decodeLayoutField_key_def [where k = 13, simplified] decodeLayoutField_key_def [where k = 14, simplified]
  decodeLayoutField_key_def [where k = 15, simplified] decodeLayoutField_key_def [where k = 19, simplified]
  decodeLayoutField_key_def [where k = 20, simplified] decodeLayoutField_key_def [where k = 21, simplified]
  decodeLayoutField_key_def [where k = 22, simplified] decodeLayoutField_key_def [where k = 23, simplified]

lemma runs_opt1:
  "(\<And>y. x = Some y \<Longrightarrow> reads (Suc d) (h k m) (g y) (u (\<lambda>_. Some y) m)) \<Longrightarrow> u (\<lambda>_. None) m = m \<Longrightarrow>
   runs d h (opt1 k g x) m (u (\<lambda>_. x) m)"
  unfolding opt1_def by (rule runs_optional) (auto intro: runs_one)

lemma runs_when1:
  "(b \<Longrightarrow> reads (Suc d) (h k m) v (u m)) \<Longrightarrow> (\<not> b \<Longrightarrow> u m = m) \<Longrightarrow> runs d h (when1 k b v) m (u m)"
  unfolding when1_def by (rule runs_if) (auto intro: runs_one)

lemmas value_reads = reads_text reads_u8 reads_u16 reads_u32 reads_codes reads_setting reads_f32

definition layout_field :: "nat \<Rightarrow> layout_view \<Rightarrow> LayoutField" where
  "layout_field n = (\<lambda>(f, bits, options).
     f \<lparr> lf_bits := ref_at n (trimmed bits), lf_options := ref_at (n + length (trimmed bits)) options \<rparr>)"

definition layout_labels :: "layout_view \<Rightarrow> (bytes \<times> AccessLevel) list" where
  "layout_labels = (\<lambda>(f, bits, options). watched (trimmed bits @ options))"

lemma runs_layout:
  assumes "layout_ok (f, bits, options)" and "caps_ok caps" and "d < 3"
    and "length (bc_labelPool c) + length (layout_labels (f, bits, options)) \<le> cap_labels caps"
  shows "runs d (decodeLayoutField_key caps) (layout_kvs (f, bits, options))
    \<lparr> ll_f = LayoutField_new, ll_cat = c, ll_gotName = False, ll_gotType = False, ll_gotUnit = False, ll_gotScale = False \<rparr>
    \<lparr> ll_f = layout_field (length (bc_labelPool c)) (f, bits, options), ll_cat = push_labels c (layout_labels (f, bits, options)),
      ll_gotName = True, ll_gotType = True, ll_gotUnit = True, ll_gotScale = True \<rparr>"
proof (cases f)
  case (fields name type un scale mi ma br opr dflt grp desc rol step sk flags rk asp scp prv ui)
  let ?n = "length (bc_labelPool c)"
  note steps =
    runs_opt1 [where k = 5 and x = mi and u = "\<lambda>g. ll_f_update (lf_min_update g)"]
    runs_opt1 [where k = 6 and x = ma and u = "\<lambda>g. ll_f_update (lf_max_update g)"]
    runs_when1 [where k = 7 and u = "\<lambda>l. ll_cat_update (\<lambda>_. push_labels c (watched (trimmed bits)))
      (ll_f_update (lf_bits_update (\<lambda>_. ref_at ?n (trimmed bits))) l)"]
    runs_opt1 [where k = 8 and x = sk and u = "\<lambda>g. ll_f_update (lf_settingKey_update g)"]
    runs_when1 [where k = 9 and u = "ll_f_update (lf_dflt_update (\<lambda>_. dflt))"]
    runs_when1 [where k = 10 and u = "\<lambda>l. ll_cat_update (\<lambda>_. push_labels c (watched (trimmed bits @ options)))
      (ll_f_update (lf_options_update (\<lambda>_. ref_at (?n + length (trimmed bits)) options)) l)"]
    runs_when1 [where k = 11 and u = "ll_f_update (lf_group_update (\<lambda>_. grp))"]
    runs_when1 [where k = 12 and u = "ll_f_update (lf_desc_update (\<lambda>_. desc))"]
    runs_when1 [where k = 13 and u = "ll_f_update (lf_role_update (\<lambda>_. rol))"]
    runs_opt1 [where k = 14 and x = step and u = "\<lambda>g. ll_f_update (lf_step_update g)"]
    runs_when1 [where k = 15 and u = "ll_f_update (lf_flags_update (\<lambda>_. flags))"]
    runs_opt1 [where k = 19 and x = rk and u = "\<lambda>g. ll_f_update (lf_rank_update g)"]
    runs_opt1 [where k = 20 and x = asp and u = "\<lambda>g. ll_f_update (lf_aspect_update g)"]
    runs_opt1 [where k = 21 and x = scp and u = "\<lambda>g. ll_f_update (lf_scope_update g)"]
    runs_opt1 [where k = 22 and x = prv and u = "\<lambda>g. ll_f_update (lf_provenance_update g)"]
    runs_opt1 [where k = 23 and x = ui and u = "\<lambda>g. ll_f_update (lf_unitId_update g)"]
  have ok: "name \<noteq> []" "Suc 0 \<le> length name" "length name \<le> 24" "length un \<le> 8" "sd_ok dflt" "length grp \<le> 24" "length desc \<le> 128"
    "length rol \<le> 24" "length bits \<le> 8" "\<forall>s \<in> set bits. length s \<le> 24" "length options \<le> 255"
    "\<forall>s \<in> set options. s \<noteq> [] \<and> length s \<le> 24" "caps_ok caps"
    using assms(1,2) by (auto simp: layout_ok_def fields Suc_le_eq)
  have b: "bit_kvs 0 bits \<noteq> [] \<Longrightarrow> reads (Suc d) (decodeBits caps c) (CMap (bit_kvs 0 bits))
      (ref_at ?n (trimmed bits), push_labels c (watched (trimmed bits)))"
    using assms(3,4) ok by (intro reads_bits) (auto simp: layout_labels_def)
  have o: "options \<noteq> [] \<Longrightarrow> reads (Suc d) (decodeOptions caps (push_labels c (watched (trimmed bits)))) (CArray (map CText options))
      (ref_at (?n + length (trimmed bits)) options, push_labels c (watched (trimmed bits @ options)))"
    using assms(3,4) ok reads_options [of options "push_labels c (watched (trimmed bits))" caps "Suc d"] by (simp add: layout_labels_def)
  have z: "bit_kvs 0 bits = [] \<Longrightarrow> trimmed bits = []" using trimmed_Nil_iff [of bits 0] by simp
  show ?thesis
    unfolding layout_kvs_def prod.case fields LayoutField.select_convs LayoutField_new_def layout_field_def layout_labels_def
    by (rule runs_append steps runs_end runs_one reads_on value_reads b o
        | simp add: layout_keys ok Suc_le_eq z)+
qed

text \<open>Chains of pairs in the order of their keys.\<close>

definition asc :: "u64 \<Rightarrow> (u64 \<times> cbor) list \<Rightarrow> bool" where
  "asc lo kvs \<longleftrightarrow> sorted_wrt (<) (map fst kvs) \<and> (\<forall>k \<in> fst ` set kvs. lo \<le> k)"

lemma asc_pair: "lo \<le> k \<Longrightarrow> k < k + 1 \<Longrightarrow> asc (k + 1) ys \<Longrightarrow> asc lo ([(k, v)] @ ys)"
  unfolding asc_def by (fastforce intro: order_trans less_le_trans)

lemma asc_weaken: "asc k ys \<Longrightarrow> lo \<le> k \<Longrightarrow> asc lo ys"
  unfolding asc_def by (auto intro: order_trans)

lemma asc_intros:
  "asc lo []" "lo \<le> k \<Longrightarrow> k < k + 1 \<Longrightarrow> asc (k + 1) ys \<Longrightarrow> asc lo ([(k, v)] @ ys)"
  "lo \<le> k \<Longrightarrow> k < k + 1 \<Longrightarrow> asc (k + 1) ys \<Longrightarrow> asc lo (opt1 k g x @ ys)"
  "lo \<le> k \<Longrightarrow> k < k + 1 \<Longrightarrow> asc (k + 1) ys \<Longrightarrow> asc lo (when1 k b v @ ys)"
  using asc_pair [of lo k ys] asc_weaken [of "k + 1" ys lo]
  by (auto simp: opt1_def when1_def split: option.splits) (simp add: asc_def)

lemma layout_kvs_asc: "asc 0 (layout_kvs v)"
  by (cases v) (simp only: layout_kvs_def prod.case, (rule asc_intros | simp)+)

lemma schema_kvs_asc: "asc 0 (schema_kvs v)"
  by (cases v) (simp only: schema_kvs_def prod.case, (rule asc_intros | simp)+)

lemma reads_layout_field:
  assumes "layout_ok v" and "caps_ok caps" and "d < 3"
    and "length (bc_labelPool c) + length (layout_labels v) \<le> cap_labels caps"
  shows "reads d (decodeLayoutField caps c) (CMap (layout_kvs v))
    (layout_field (length (bc_labelPool c)) v, push_labels c (layout_labels v))"
proof -
  obtain f bits options where v: "v = (f, bits, options)" by (cases v)
  have "sorted_wrt (<) (map fst (layout_kvs v))" using layout_kvs_asc by (simp add: asc_def)
  then show ?thesis
    unfolding decodeLayoutField_def [abs_def] v
    using assms by (intro reads_bind [OF reads_decode_map [OF runs_layout]])
      (auto simp: v intro!: le_less_trans [OF layout_kvs_few])
qed

lemma eruns_accesses:
  assumes "length xs = length accs" and "off = of_nat (length (bc_labelPool c))"
    and "length (bc_labelPool c) + length acc + length xs < 2 ^ 16"
  shows "eruns d (decodeOptionAccess_elem off) (map (\<lambda>a. cnum (role_u8 a)) accs)
    (length acc, push_labels c (acc @ watched xs)) (length acc + length xs, push_labels c (acc @ zip xs accs))"
  using assms
proof (induction accs arbitrary: xs acc)
  case (Cons a as)
  then obtain x xs' where xs: "xs = x # xs'" by (cases xs) auto
  let ?c = "push_labels c (acc @ watched xs)" and ?c1 = "push_labels c ((acc @ [(x, a)]) @ watched xs')"
  have "off + of_nat (length acc) = (of_nat (length (bc_labelPool c) + length acc) :: u16)" using Cons.prems(2) by simp
  then have u: "unat (off + of_nat (length acc)) = length (bc_labelPool c) + length acc"
    using Cons.prems(3) by (simp add: unat_of_nat del: of_nat_add)
  have "poolSetLabelAccess (length (bc_labelPool c) + length acc) a ?c = (True, ?c1)"
    by (simp add: poolSetLabelAccess_def push_labels_def xs list_update_append nth_append)
  then have "reads (Suc d) (decodeOptionAccess_elem off (length acc, ?c)) (cnum (role_u8 a)) (length (acc @ [(x, a)]), ?c1)"
    unfolding decodeOptionAccess_elem_def prod.case by (intro reads_bind [OF reads_codes(5)]) (simp add: u)
  moreover have "eruns d (decodeOptionAccess_elem off) (map (\<lambda>a. cnum (role_u8 a)) as) (length (acc @ [(x, a)]), ?c1)
      (length (acc @ [(x, a)]) + length xs', push_labels c ((acc @ [(x, a)]) @ zip xs' as))"
    using Cons.prems xs by (intro Cons.IH) auto
  ultimately show ?case using xs by (auto intro: eruns_Cons)
qed (simp add: eruns_Nil)

lemma reads_accesses:
  assumes "length opts = length accs" and "opts \<noteq> []" and "length opts \<le> 255" and "length (bc_labelPool c) + length opts < 2 ^ 16" and "d < 4"
  shows "reads d (decodeOptionAccess (ref_at (length (bc_labelPool c)) opts) (push_labels c (watched opts)))
    (CArray (map (\<lambda>a. cnum (role_u8 a)) accs)) (push_labels c (zip opts accs))"
proof -
  let ?r = "ref_at (length (bc_labelPool c)) opts" and ?vs = "map (\<lambda>a. cnum (role_u8 a)) accs"
  have r: "lr_offset ?r = of_nat (length (bc_labelPool c))" "lr_count ?r = of_nat (length opts)"
    using assms(2) by (simp_all add: ref_at_def)
  have n: "unat (of_nat (length opts) :: u8) = length opts" using assms(3) by (simp add: unat_of_nat)
  then have "(of_nat (length opts) :: u8) \<noteq> 0" using assms(2) by (metis length_0_conv unat_0)
  moreover have "(of_nat (length opts) :: u32) = ucast (of_nat (length opts) :: u8)"
    using assms(3) by (simp add: word_unat_eq_iff unat_of_nat)
  ultimately have bad: "\<not> (lr_count ?r = 0 \<or> (of_nat (length ?vs) :: u32) \<noteq> ucast (lr_count ?r))"
    using assms(1) by (simp add: r)
  have "eruns d (decodeOptionAccess_elem (lr_offset ?r)) ?vs (0, push_labels c (watched opts))
      (0 + length opts, push_labels c (zip opts accs))"
    using eruns_accesses [of opts accs "lr_offset ?r" c "[]" d] assms(1,4) r(1) by simp
  from reads_counted_array [where bad = "\<lambda>n. lr_count ?r = 0 \<or> n \<noteq> ucast (lr_count ?r)" and g = "\<lambda>_. snd" and e = Malformed,
      OF this _ assms(5) bad]
  show ?thesis unfolding decodeOptionAccess_def [abs_def] using assms(1,3) by simp
qed

definition schema_ok :: "schema_view \<Rightarrow> bool" where
  "schema_ok = (\<lambda>(f, options, accesses).
     sf_name f \<noteq> [] \<and> length (sf_name f) \<le> 24 \<and> length (sf_unit f) \<le> 8 \<and> sd_ok (sf_dflt f) \<and> length (sf_group f) \<le> 24 \<and>
     length (sf_desc f) \<le> 128 \<and> length (sf_role f) \<le> 24 \<and> length options \<le> 255 \<and>
     (\<forall>s \<in> set options. s \<noteq> [] \<and> length s \<le> 24) \<and> (accesses \<noteq> [] \<longrightarrow> length accesses = length options))"

definition schema_field :: "nat \<Rightarrow> schema_view \<Rightarrow> SchemaField" where
  "schema_field n = (\<lambda>(f, options, accesses). f \<lparr> sf_options := ref_at n options, sf_hasOptionAccess := (accesses \<noteq> []) \<rparr>)"

definition schema_labels :: "schema_view \<Rightarrow> (bytes \<times> AccessLevel) list" where
  "schema_labels = (\<lambda>(f, options, accesses). if accesses = [] then watched options else zip options accesses)"

lemmas schema_keys = decodeSchemaField_key_def [where k = 1, simplified] decodeSchemaField_key_def [where k = 2, simplified]
  decodeSchemaField_key_def [where k = 3, simplified] decodeSchemaField_key_def [where k = 5, simplified]
  decodeSchemaField_key_def [where k = 6, simplified] decodeSchemaField_key_def [where k = 9, simplified]
  decodeSchemaField_key_def [where k = 10, simplified] decodeSchemaField_key_def [where k = 11, simplified]
  decodeSchemaField_key_def [where k = 12, simplified] decodeSchemaField_key_def [where k = 13, simplified]
  decodeSchemaField_key_def [where k = 14, simplified] decodeSchemaField_key_def [where k = 15, simplified]
  decodeSchemaField_key_def [where k = 16, simplified] decodeSchemaField_key_def [where k = 17, simplified]
  decodeSchemaField_key_def [where k = 19, simplified] decodeSchemaField_key_def [where k = 20, simplified]
  decodeSchemaField_key_def [where k = 21, simplified] decodeSchemaField_key_def [where k = 22, simplified]
  decodeSchemaField_key_def [where k = 23, simplified]

lemma runs_schema:
  assumes "schema_ok (f, options, accesses)" and "caps_ok caps" and "d < 3"
    and "length (bc_labelPool c) + length options \<le> cap_labels caps"
  shows "runs d (decodeSchemaField_key caps) (schema_kvs (f, options, accesses))
    \<lparr> sl_f = SchemaField_new \<lparr> sf_key := sf_key f \<rparr>, sl_cat = c, sl_gotName = False, sl_gotType = False, sl_gotUnit = False \<rparr>
    \<lparr> sl_f = schema_field (length (bc_labelPool c)) (f, options, accesses),
      sl_cat = push_labels c (schema_labels (f, options, accesses)), sl_gotName = True, sl_gotType = True, sl_gotUnit = True \<rparr>"
proof (cases f)
  case (fields key name type un mi ma dflt opr grp desc rol step flags acs hoa rk asp scp prv ui)
  let ?n = "length (bc_labelPool c)"
  define labs where "labs = schema_labels (f, options, accesses)"
  have labs: "accesses = [] \<Longrightarrow> labs = watched options" "accesses \<noteq> [] \<Longrightarrow> labs = zip options accesses"
    by (simp_all add: labs_def schema_labels_def)
  note steps =
    runs_opt1 [where k = 5 and x = mi and u = "\<lambda>g. sl_f_update (sf_min_update g)"]
    runs_opt1 [where k = 6 and x = ma and u = "\<lambda>g. sl_f_update (sf_max_update g)"]
    runs_when1 [where k = 9 and u = "sl_f_update (sf_dflt_update (\<lambda>_. dflt))"]
    runs_when1 [where k = 10 and u = "\<lambda>l. sl_cat_update (\<lambda>_. push_labels c (watched options))
      (sl_f_update (sf_options_update (\<lambda>_. ref_at ?n options)) l)"]
    runs_when1 [where k = 11 and u = "sl_f_update (sf_group_update (\<lambda>_. grp))"]
    runs_when1 [where k = 12 and u = "sl_f_update (sf_desc_update (\<lambda>_. desc))"]
    runs_when1 [where k = 13 and u = "sl_f_update (sf_role_update (\<lambda>_. rol))"]
    runs_opt1 [where k = 14 and x = step and u = "\<lambda>g. sl_f_update (sf_step_update g)"]
    runs_when1 [where k = 15 and u = "sl_f_update (sf_flags_update (\<lambda>_. flags))"]
    runs_opt1 [where k = 16 and x = acs and u = "\<lambda>g. sl_f_update (sf_access_update g)"]
    runs_when1 [where k = 17 and u = "\<lambda>l. sl_cat_update (\<lambda>_. push_labels c labs)
      (sl_f_update (sf_hasOptionAccess_update (\<lambda>_. accesses \<noteq> [])) l)"]
    runs_opt1 [where k = 19 and x = rk and u = "\<lambda>g. sl_f_update (sf_rank_update g)"]
    runs_opt1 [where k = 20 and x = asp and u = "\<lambda>g. sl_f_update (sf_aspect_update g)"]
    runs_opt1 [where k = 21 and x = scp and u = "\<lambda>g. sl_f_update (sf_scope_update g)"]
    runs_opt1 [where k = 22 and x = prv and u = "\<lambda>g. sl_f_update (sf_provenance_update g)"]
    runs_opt1 [where k = 23 and x = ui and u = "\<lambda>g. sl_f_update (sf_unitId_update g)"]
  have ok: "name \<noteq> []" "length name \<le> 24" "length un \<le> 8" "sd_ok dflt" "length grp \<le> 24" "length desc \<le> 128"
    "length rol \<le> 24" "length options \<le> 255" "\<forall>s \<in> set options. s \<noteq> [] \<and> length s \<le> 24" "caps_ok caps"
    using assms(1,2) by (auto simp: schema_ok_def fields)
  have o: "options \<noteq> [] \<Longrightarrow> reads (Suc d) (decodeOptions caps c) (CArray (map CText options))
      (ref_at ?n options, push_labels c (watched options))"
    using assms(3,4) ok by (intro reads_options) auto
  have a: "accesses \<noteq> [] \<Longrightarrow> reads (Suc d) (decodeOptionAccess (ref_at ?n options) (push_labels c (watched options)))
      (CArray (map (\<lambda>a. cnum (role_u8 a)) accesses)) (push_labels c labs)"
    unfolding labs(2) using assms ok(8) by (intro reads_accesses) (auto simp: schema_ok_def caps_ok_def)
  show ?thesis
    unfolding labs_def [symmetric] unfolding schema_kvs_def prod.case fields SchemaField.select_convs SchemaField_new_def schema_field_def
    by (rule runs_append steps runs_end runs_one reads_on value_reads o a
        | simp add: schema_keys ok Suc_le_eq labs(1))+
qed

lemma reads_schema_field:
  assumes "schema_ok v" and "caps_ok caps" and "d < 3" and "key = sf_key (fst v)"
    and "length (bc_labelPool c) + length (fst (snd v)) \<le> cap_labels caps"
  shows "reads d (decodeSchemaField caps c key) (CMap (schema_kvs v))
    (schema_field (length (bc_labelPool c)) v, push_labels c (schema_labels v))"
proof -
  obtain f options accesses where v: "v = (f, options, accesses)" by (cases v)
  have "sorted_wrt (<) (map fst (schema_kvs v))" using schema_kvs_asc by (simp add: asc_def)
  then show ?thesis
    unfolding decodeSchemaField_def [abs_def] v assms(4) fst_conv
    using assms by (intro reads_bind [OF reads_decode_map [OF runs_schema]])
      (auto simp: v intro!: le_less_trans [OF schema_kvs_few])
qed

definition store_ok :: "StoreDescriptor \<Rightarrow> bool" where
  "store_ok d \<longleftrightarrow> sd_kind d \<noteq> [] \<and> length (sd_kind d) \<le> 32"

lemmas store_keys = decodeStoreDescriptor_key_def [where k = 1, simplified] decodeStoreDescriptor_key_def [where k = 2, simplified]
  decodeStoreDescriptor_key_def [where k = 3, simplified] decodeStoreDescriptor_key_def [where k = 4, simplified]
  decodeStoreDescriptor_key_def [where k = 5, simplified]

lemma reads_store:
  assumes "store_ok x" and "d < 4"
  shows "reads d decodeStoreDescriptor (CMap (store_kvs x)) x"
proof (cases x)
  case (fields si kd cp pm nm)
  have ok: "kd \<noteq> []" "length kd \<le> 32" using assms(1) by (auto simp: store_ok_def fields)
  have "runs d decodeStoreDescriptor_key (store_kvs x)
      \<lparr> stl_d = StoreDescriptor_new, stl_gotId = False, stl_gotKind = False, stl_gotCap = False, stl_gotItemMax = False, stl_gotNameMax = False \<rparr>
      \<lparr> stl_d = x, stl_gotId = True, stl_gotKind = True, stl_gotCap = True, stl_gotItemMax = True, stl_gotNameMax = True \<rparr>"
    unfolding store_kvs_def fields StoreDescriptor.select_convs StoreDescriptor_new_def
    by (rule runs_append runs_end runs_one reads_on value_reads | simp add: store_keys ok Suc_le_eq)+
  moreover have "sorted_wrt (<) (map fst (store_kvs x))" "length (store_kvs x) < 2 ^ 32" by (simp_all add: store_kvs_def)
  ultimately show ?thesis
    unfolding decodeStoreDescriptor_def [abs_def] using assms(2) by (intro reads_bind [OF reads_decode_map]) auto
qed

section \<open>What the pools hold afterwards\<close>

definition layout_norm :: "layout_view \<Rightarrow> layout_view" where
  "layout_norm = (\<lambda>(f, bits, options). (f \<lparr> lf_bits := LabelRef_new, lf_options := LabelRef_new \<rparr>, trimmed bits, options))"

definition schema_norm :: "schema_view \<Rightarrow> schema_view" where
  "schema_norm = (\<lambda>(f, options, accesses). (f \<lparr> sf_options := LabelRef_new, sf_hasOptionAccess := False \<rparr>, options, accesses))"

definition add_layout :: "BasicCatalog \<Rightarrow> layout_view \<Rightarrow> BasicCatalog" where
  "add_layout c v = c \<lparr> bc_labelPool := bc_labelPool c @ layout_labels v,
     bc_layoutPool := bc_layoutPool c @ [layout_field (length (bc_labelPool c)) v] \<rparr>"

definition add_schema :: "BasicCatalog \<Rightarrow> schema_view \<Rightarrow> BasicCatalog" where
  "add_schema c v = c \<lparr> bc_labelPool := bc_labelPool c @ schema_labels v,
     bc_schemaPool := bc_schemaPool c @ [schema_field (length (bc_labelPool c)) v] \<rparr>"

lemma span_at:
  assumes "bc_labelPool c = pool @ ls @ rest" and "length pool < 2 ^ 16" and "length ls < 256" and "map fst ls = ns" and "n = length pool"
  shows "label_span c (ref_at n ns) = ls" and "ref_ok c (ref_at n ns)"
proof -
  have "unat (of_nat n :: u16) = n" "unat (of_nat (length ns) :: u8) = length ls"
    using assms by (auto simp: unat_of_nat)
  moreover have "ns = [] \<longleftrightarrow> ls = []" using assms(4) by auto
  ultimately show "label_span c (ref_at n ns) = ls" "ref_ok c (ref_at n ns)"
    using assms(1,5) by (auto simp: ref_at_def label_span_def ref_ok_def unat_eq_zero)
qed

lemma layout_labels_short: "layout_ok v \<Longrightarrow> length (trimmed (fst (snd v))) \<le> 8"
  using length_trimmed [of "fst (snd v)"] by (auto simp: layout_ok_def split: prod.splits)

lemma add_layout_view:
  assumes "layout_ok v" and "length (bc_labelPool c) + length (layout_labels v) < 2 ^ 16"
  defines "f \<equiv> layout_field (length (bc_labelPool c)) v"
  shows "lview (add_layout c v) f = layout_norm v" and "ref_ok (add_layout c v) (lf_bits f)" and "ref_ok (add_layout c v) (lf_options f)"
proof -
  obtain f0 bits options where v: "v = (f0, bits, options)" by (cases v)
  have l: "length (trimmed bits) < 256" "length options < 256" using assms(1) layout_labels_short [OF assms(1)] by (auto simp: v layout_ok_def)
  have p: "bc_labelPool (add_layout c v) = bc_labelPool c @ watched (trimmed bits) @ watched options"
    by (simp add: add_layout_def layout_labels_def v)
  have n: "length (bc_labelPool c) + length (trimmed bits) < 2 ^ 16" using assms(2) by (simp add: v layout_labels_def)
  have w: "map fst (watched ls) = ls" for ls by (simp add: comp_def)
  have b: "label_span (add_layout c v) (ref_at (length (bc_labelPool c)) (trimmed bits)) = watched (trimmed bits)"
      "ref_ok (add_layout c v) (ref_at (length (bc_labelPool c)) (trimmed bits))"
    by (rule span_at [OF p]; use n l(1) w in simp)+
  have o: "label_span (add_layout c v) (ref_at (length (bc_labelPool c) + length (trimmed bits)) options) = watched options"
      "ref_ok (add_layout c v) (ref_at (length (bc_labelPool c) + length (trimmed bits)) options)"
    by (rule span_at [where pool = "bc_labelPool c @ watched (trimmed bits)" and rest = "[]" and ls = "watched options"]; use n l(2) w p in simp)+
  have f: "f = f0 \<lparr> lf_bits := ref_at (length (bc_labelPool c)) (trimmed bits),
      lf_options := ref_at (length (bc_labelPool c) + length (trimmed bits)) options \<rparr>"
    by (simp add: f_def layout_field_def v)
  show "ref_ok (add_layout c v) (lf_bits f)" "ref_ok (add_layout c v) (lf_options f)" using b(2) o(2) by (simp_all add: f)
  show "lview (add_layout c v) f = layout_norm v" using b(1) o(1) by (simp add: f lview_def labels_def layout_norm_def v comp_def)
qed

lemma add_schema_view:
  assumes "schema_ok v" and "length (bc_labelPool c) + length (schema_labels v) < 2 ^ 16"
  defines "f \<equiv> schema_field (length (bc_labelPool c)) v"
  shows "sview (add_schema c v) f = schema_norm v" and "ref_ok (add_schema c v) (sf_options f)"
proof -
  obtain f0 options accesses where v: "v = (f0, options, accesses)" by (cases v)
  have l: "length options < 256" "accesses \<noteq> [] \<longrightarrow> length accesses = length options" using assms(1) by (auto simp: v schema_ok_def)
  have m: "map fst (schema_labels v) = options" "accesses \<noteq> [] \<Longrightarrow> map snd (schema_labels v) = accesses"
    using l(2) by (auto simp: schema_labels_def v comp_def)
  have "length (schema_labels v) < 256" using l m(1) by (metis length_map)
  then have s: "label_span (add_schema c v) (ref_at (length (bc_labelPool c)) options) = schema_labels v"
      "ref_ok (add_schema c v) (ref_at (length (bc_labelPool c)) options)"
    using span_at [of "add_schema c v" "bc_labelPool c" "schema_labels v" "[]" options "length (bc_labelPool c)"] assms(2) m(1)
    by (auto simp: add_schema_def)
  then show "ref_ok (add_schema c v) (sf_options f)" "sview (add_schema c v) f = schema_norm v"
    using m by (auto simp: f_def schema_field_def v sview_def labels_def schema_norm_def optionAccess_def labelAccess_def)
qed

text \<open>Fields pushed one after the other: what \<open>add\<close> does for each of \<open>vs\<close>.\<close>

lemma foldl_layouts:
  assumes "\<forall>v \<in> set vs. layout_ok v" and "length (bc_labelPool c) + length (concat (map layout_labels vs)) < 2 ^ 16"
  shows "\<exists>fs. foldl add_layout c vs = c \<lparr> bc_labelPool := bc_labelPool c @ concat (map layout_labels vs), bc_layoutPool := bc_layoutPool c @ fs \<rparr> \<and>
    map (lview (foldl add_layout c vs)) fs = map layout_norm vs \<and>
    (\<forall>f \<in> set fs. ref_ok (foldl add_layout c vs) (lf_bits f) \<and> ref_ok (foldl add_layout c vs) (lf_options f))"
  using assms
proof (induction vs arbitrary: c)
  case (Cons v vs)
  let ?c = "add_layout c v" and ?f = "layout_field (length (bc_labelPool c)) v"
  have p: "bc_labelPool ?c = bc_labelPool c @ layout_labels v" "bc_layoutPool ?c = bc_layoutPool c @ [?f]" by (simp_all add: add_layout_def)
  then obtain fs where fs: "foldl add_layout ?c vs = ?c \<lparr> bc_labelPool := bc_labelPool ?c @ concat (map layout_labels vs), bc_layoutPool := bc_layoutPool ?c @ fs \<rparr>"
    "map (lview (foldl add_layout ?c vs)) fs = map layout_norm vs"
    "\<forall>f \<in> set fs. ref_ok (foldl add_layout ?c vs) (lf_bits f) \<and> ref_ok (foldl add_layout ?c vs) (lf_options f)"
    using Cons.IH [of ?c] Cons.prems by auto
  have g: "grows ?c (foldl add_layout ?c vs)" unfolding fs(1) by (auto simp: grows_def)
  have v: "lview ?c ?f = layout_norm v" "ref_ok ?c (lf_bits ?f)" "ref_ok ?c (lf_options ?f)"
    using add_layout_view [of v c] Cons.prems by auto
  have "foldl add_layout c (v # vs) = c \<lparr> bc_labelPool := bc_labelPool c @ concat (map layout_labels (v # vs)), bc_layoutPool := bc_layoutPool c @ ?f # fs \<rparr>"
    using fs(1) by (simp add: add_layout_def)
  moreover have "map (lview (foldl add_layout c (v # vs))) (?f # fs) = map layout_norm (v # vs)"
    using fs(2) grows_lview [OF g v(2,3)] v(1) by simp
  moreover have "\<forall>f \<in> set (?f # fs). ref_ok (foldl add_layout c (v # vs)) (lf_bits f) \<and> ref_ok (foldl add_layout c (v # vs)) (lf_options f)"
    using fs(3) grows_label_span [OF g v(2)] grows_label_span [OF g v(3)] by simp
  ultimately show ?case by blast
qed simp

lemma foldl_schemas:
  assumes "\<forall>v \<in> set vs. schema_ok v" and "length (bc_labelPool c) + length (concat (map schema_labels vs)) < 2 ^ 16"
  shows "\<exists>fs. foldl add_schema c vs = c \<lparr> bc_labelPool := bc_labelPool c @ concat (map schema_labels vs), bc_schemaPool := bc_schemaPool c @ fs \<rparr> \<and>
    map (sview (foldl add_schema c vs)) fs = map schema_norm vs \<and> (\<forall>f \<in> set fs. ref_ok (foldl add_schema c vs) (sf_options f))"
  using assms
proof (induction vs arbitrary: c)
  case (Cons v vs)
  let ?c = "add_schema c v" and ?f = "schema_field (length (bc_labelPool c)) v"
  have p: "bc_labelPool ?c = bc_labelPool c @ schema_labels v" "bc_schemaPool ?c = bc_schemaPool c @ [?f]" by (simp_all add: add_schema_def)
  then obtain fs where fs: "foldl add_schema ?c vs = ?c \<lparr> bc_labelPool := bc_labelPool ?c @ concat (map schema_labels vs), bc_schemaPool := bc_schemaPool ?c @ fs \<rparr>"
    "map (sview (foldl add_schema ?c vs)) fs = map schema_norm vs" "\<forall>f \<in> set fs. ref_ok (foldl add_schema ?c vs) (sf_options f)"
    using Cons.IH [of ?c] Cons.prems by auto
  have g: "grows ?c (foldl add_schema ?c vs)" unfolding fs(1) by (auto simp: grows_def)
  have v: "sview ?c ?f = schema_norm v" "ref_ok ?c (sf_options ?f)" using add_schema_view [of v c] Cons.prems by auto
  have "foldl add_schema c (v # vs) = c \<lparr> bc_labelPool := bc_labelPool c @ concat (map schema_labels (v # vs)), bc_schemaPool := bc_schemaPool c @ ?f # fs \<rparr>"
    using fs(1) by (simp add: add_schema_def)
  moreover have "map (sview (foldl add_schema c (v # vs))) (?f # fs) = map schema_norm (v # vs)"
    using fs(2) grows_sview [OF g v(2)] v(1) by simp
  moreover have "\<forall>f \<in> set (?f # fs). ref_ok (foldl add_schema c (v # vs)) (sf_options f)"
    using fs(3) grows_label_span [OF g v(2)] by simp
  ultimately show ?case by blast
qed simp

lemma eruns_layouts:
  assumes "\<forall>v \<in> set vs. layout_ok v" and "caps_ok caps" and "d < 2"
    and "length (bc_labelPool c) + length (concat (map layout_labels vs)) \<le> cap_labels caps"
    and "length (bc_layoutPool c) + length vs \<le> cap_layout caps"
  shows "eruns d (decodeLayout_elem caps) (map (\<lambda>v. CMap (layout_kvs v)) vs) c (foldl add_layout c vs)"
  using assms
proof (induction vs arbitrary: c)
  case (Cons v vs)
  have "reads (Suc d) (decodeLayout_elem caps c) (CMap (layout_kvs v)) (add_layout c v)"
    unfolding decodeLayout_elem_def [abs_def] using Cons.prems
    by (intro reads_bind [OF reads_layout_field]) (auto simp: pooled_def poolAddLayoutField_def add_layout_def push_labels_def)
  moreover have "eruns d (decodeLayout_elem caps) (map (\<lambda>v. CMap (layout_kvs v)) vs) (add_layout c v) (foldl add_layout (add_layout c v) vs)"
    using Cons.prems by (intro Cons.IH) (auto simp: add_layout_def)
  ultimately show ?case by (auto intro: eruns_Cons)
qed (simp add: eruns_Nil)

lemma schema_labels_length: "schema_ok v \<Longrightarrow> length (schema_labels v) = length (fst (snd v))"
  by (auto simp: schema_labels_def schema_ok_def split: prod.splits)

lemma runs_schemas:
  assumes "\<forall>v \<in> set vs. schema_ok v" and "caps_ok caps" and "d < 2"
    and "length (bc_labelPool c) + length (concat (map schema_labels vs)) \<le> cap_labels caps"
    and "length (bc_schemaPool c) + length vs \<le> cap_schema caps"
  shows "runs d (decodeSchema_key caps) (map (\<lambda>v. (ucast (sf_key (fst v)), CMap (schema_kvs v))) vs) c (foldl add_schema c vs)"
  using assms
proof (induction vs arbitrary: c)
  case (Cons v vs)
  have k: "\<not> (ucast (sf_key (fst v)) :: u64) > 0xFF" by simp
  have "reads (Suc d) (decodeSchema_key caps (ucast (sf_key (fst v))) c) (CMap (schema_kvs v)) (add_schema c v)"
    unfolding decodeSchema_key_def if_not_P [OF k] using Cons.prems schema_labels_length [of v]
    by (intro reads_bind [OF reads_schema_field [where v = v]])
      (auto simp: pooled_def poolAddSchemaField_def add_schema_def push_labels_def)
  moreover have "runs d (decodeSchema_key caps) (map (\<lambda>v. (ucast (sf_key (fst v)), CMap (schema_kvs v))) vs) (add_schema c v)
      (foldl add_schema (add_schema c v) vs)"
    using Cons.prems by (intro Cons.IH) (auto simp: add_schema_def)
  ultimately show ?case by (auto intro: runs_Cons)
qed (simp add: runs_Nil)

section \<open>Reading entries\<close>

lemma reads_eq: "reads d rd v x \<Longrightarrow> x = y \<Longrightarrow> reads d rd v y"
  by simp

lemma sort_key_Nil: "sort_key f xs = [] \<longleftrightarrow> xs = []"
  by (metis length_0_conv length_sort)

lemma small_count: "n \<le> 64 \<Longrightarrow> (ucast (of_nat n :: u32) :: u8) = of_nat n"
  by (simp add: word_unat_eq_iff unat_of_nat unsigned_ucast_eq take_bit_nat_eq_self)

lemma reads_decodeLayout:
  assumes "\<forall>v \<in> set vs. layout_ok v" and "vs \<noteq> []" and "length vs \<le> 64" and "caps_ok caps"
    and "length (bc_labelPool c) + length (concat (map layout_labels vs)) \<le> cap_labels caps"
    and "length (bc_layoutPool c) + length vs \<le> cap_layout caps"
    and l: "\<not> el_gotSchema l" "\<not> el_gotStore l" "el_cat l = c"
  shows "reads 1 (decodeLayout caps c l) (CArray (map (\<lambda>v. CMap (layout_kvs v)) vs))
    (l \<lparr> el_e := (el_e l) \<lparr> ce_fieldOffset := of_nat (length (bc_layoutPool c)), ce_fieldCount := of_nat (length vs) \<rparr>,
         el_cat := foldl add_layout c vs, el_gotLayout := True \<rparr>)"
proof -
  let ?vs = "map (\<lambda>v. CMap (layout_kvs v)) vs"
  have g: "\<not> (el_gotSchema l \<or> el_gotStore l)" using l by simp
  have bad: "\<not> ((of_nat (length ?vs) :: u32) = 0 \<or> unat (of_nat (length ?vs) :: u32) > kMaxFields)"
    using count_u32 [of "length vs"] assms(2,3) by simp
  have "eruns 1 (decodeLayout_elem caps) ?vs (el_cat l) (foldl add_layout c vs)"
    unfolding l(3) using assms(1,4,5,6) by (intro eruns_layouts) auto
  from reads_counted_array [where bad = "\<lambda>n. n = 0 \<or> unat n > kMaxFields" and e = Malformed and
      g = "\<lambda>n c'. l \<lparr> el_e := (el_e l) \<lparr> ce_fieldOffset := of_nat (length (bc_layoutPool c)), ce_fieldCount := ucast n \<rparr>,
         el_cat := c', el_gotLayout := True \<rparr>", OF this _ _ bad]
  show ?thesis unfolding decodeLayout_def [abs_def] if_not_P [OF g] using assms(3) small_count [of "length vs"] by simp
qed

lemma reads_decodeSchema:
  assumes "\<forall>v \<in> set vs. schema_ok v" and "vs \<noteq> []" and "length vs \<le> 64" and "caps_ok caps"
    and "sorted_wrt (<) (map (\<lambda>v. sf_key (fst v)) vs)"
    and "length (bc_labelPool c) + length (concat (map schema_labels vs)) \<le> cap_labels caps"
    and "length (bc_schemaPool c) + length vs \<le> cap_schema caps"
    and l: "\<not> el_gotLayout l" "\<not> el_gotStore l" "el_cat l = c"
  shows "reads 1 (decodeSchema caps c l) (CMap (map (\<lambda>v. (ucast (sf_key (fst v)), CMap (schema_kvs v))) vs))
    (l \<lparr> el_e := (el_e l) \<lparr> ce_fieldOffset := of_nat (length (bc_schemaPool c)), ce_fieldCount := of_nat (length vs) \<rparr>,
         el_cat := foldl add_schema c vs, el_gotSchema := True \<rparr>)"
proof -
  let ?kvs = "map (\<lambda>v. (ucast (sf_key (fst v)) :: u64, CMap (schema_kvs v))) vs"
  have g: "\<not> (el_gotLayout l \<or> el_gotStore l)" using l by simp
  have bad: "\<not> ((of_nat (length ?kvs) :: u32) = 0 \<or> unat (of_nat (length ?kvs) :: u32) > kMaxFields)"
    using count_u32 [of "length vs"] assms(2,3) by simp
  have srt: "sorted_wrt (<) (map fst ?kvs)" using sorted_ucast_u8 [OF assms(5)] by (simp add: comp_def)
  have "runs 1 (decodeSchema_key caps) ?kvs (el_cat l) (foldl add_schema c vs)"
    unfolding l(3) using assms(1,4,6,7) by (intro runs_schemas) auto
  from reads_counted_map [where bad = "\<lambda>n. n = 0 \<or> unat n > kMaxFields" and e = Malformed and
      g = "\<lambda>n c'. l \<lparr> el_e := (el_e l) \<lparr> ce_fieldOffset := of_nat (length (bc_schemaPool c)), ce_fieldCount := ucast n \<rparr>,
         el_cat := c', el_gotSchema := True \<rparr>", OF this srt _ _ bad]
  show ?thesis unfolding decodeSchema_def [abs_def] if_not_P [OF g] using assms(3) small_count [of "length vs"] by simp
qed

lemma reads_decodeStore:
  assumes "store_ok x" and "length (bc_storePool c) < cap_stores caps"
    and l: "\<not> el_gotLayout l" "\<not> el_gotSchema l" "el_cat l = c"
  shows "reads 1 (decodeStore caps c l) (CMap (store_kvs x))
    (l \<lparr> el_e := (el_e l) \<lparr> ce_fieldOffset := of_nat (length (bc_storePool c)), ce_fieldCount := 1 \<rparr>,
         el_cat := c \<lparr> bc_storePool := bc_storePool c @ [x] \<rparr>, el_gotStore := True \<rparr>)"
  unfolding decodeStore_def [abs_def] using assms
  by (simp, intro reads_bind [OF reads_store]) (auto simp: pooled_def on_def poolAddStore_def)

text \<open>What a catalog declares and its decoder accepts.\<close>

definition view_ok :: "entry_view \<Rightarrow> bool" where
  "view_ok = (\<lambda>(e, layout, schema, store).
     ce_name e \<noteq> [] \<and> length (ce_name e) \<le> 32 \<and> length (ce_categoryLabel e) \<le> 24 \<and>
     (case ce_form e of
        FF_Layout \<Rightarrow> layout \<noteq> [] \<and> length layout \<le> 64 \<and> (\<forall>v \<in> set layout. layout_ok v)
      | FF_Schema \<Rightarrow> schema \<noteq> [] \<and> length schema \<le> 64 \<and> (\<forall>v \<in> set schema. schema_ok v) \<and> distinct (map (\<lambda>v. sf_key (fst v)) schema)
      | FF_Store \<Rightarrow> (case store of None \<Rightarrow> False | Some x \<Rightarrow> store_ok x)))"

abbreviation (input) by_key :: "schema_view list \<Rightarrow> schema_view list" where
  "by_key vs \<equiv> sort_key (\<lambda>v. sf_key (fst v)) vs"

definition entry_result :: "BasicCatalog \<Rightarrow> entry_view \<Rightarrow> CatalogEntry \<times> BasicCatalog" where
  "entry_result c = (\<lambda>(e, layout, schema, store).
     case ce_form e of
       FF_Layout \<Rightarrow> (e \<lparr> ce_fieldOffset := of_nat (length (bc_layoutPool c)), ce_fieldCount := of_nat (length layout) \<rparr>,
                      foldl add_layout c layout)
     | FF_Schema \<Rightarrow> (e \<lparr> ce_fieldOffset := of_nat (length (bc_schemaPool c)), ce_fieldCount := of_nat (length schema) \<rparr>,
                      foldl add_schema c (by_key schema))
     | FF_Store \<Rightarrow> (e \<lparr> ce_fieldOffset := of_nat (length (bc_storePool c)), ce_fieldCount := 1 \<rparr>,
                     c \<lparr> bc_storePool := bc_storePool c @ [the store] \<rparr>))"

text \<open>The pools still have room for the payload of an entry.\<close>

definition entry_labels :: "entry_view \<Rightarrow> (bytes \<times> AccessLevel) list" where
  "entry_labels = (\<lambda>(e, layout, schema, store). case ce_form e of FF_Layout \<Rightarrow> concat (map layout_labels layout)
     | FF_Schema \<Rightarrow> concat (map schema_labels (by_key schema)) | FF_Store \<Rightarrow> [])"

definition entry_slots :: "FieldForm \<Rightarrow> entry_view \<Rightarrow> nat" where
  "entry_slots ff = (\<lambda>(e, layout, schema, store). if ce_form e \<noteq> ff then 0 else
     case ff of FF_Layout \<Rightarrow> length layout | FF_Schema \<Rightarrow> length schema | FF_Store \<Rightarrow> 1)"

definition room :: "CatalogCaps \<Rightarrow> BasicCatalog \<Rightarrow> entry_view \<Rightarrow> bool" where
  "room caps c v \<longleftrightarrow> length (bc_labelPool c) + length (entry_labels v) \<le> cap_labels caps \<and>
     length (bc_layoutPool c) + entry_slots FF_Layout v \<le> cap_layout caps \<and>
     length (bc_schemaPool c) + entry_slots FF_Schema v \<le> cap_schema caps \<and>
     length (bc_storePool c) + entry_slots FF_Store v \<le> cap_stores caps"

lemmas entry_keys = cat_decodeEntry_key_def [where k = 1, simplified] cat_decodeEntry_key_def [where k = 2, simplified]
  cat_decodeEntry_key_def [where k = 3, simplified] cat_decodeEntry_key_def [where k = 4, simplified]
  cat_decodeEntry_key_def [where k = 5, simplified] cat_decodeEntry_key_def [where k = 6, simplified]
  cat_decodeEntry_key_def [where k = 7, simplified] cat_decodeEntry_key_def [where k = 8, simplified]
  cat_decodeEntry_key_def [where k = 9, simplified] cat_decodeEntry_key_def [where k = 10, simplified]
  cat_decodeEntry_key_def [where k = 11, simplified] cat_decodeEntry_key_def [where k = 12, simplified]
  cat_decodeEntry_key_def [where k = 13, simplified] cat_decodeEntry_key_def [where k = 14, simplified]
  cat_decodeEntry_key_def [where k = 15, simplified] cat_decodeEntry_key_def [where k = 16, simplified]

definition EntryLocals_done :: "CatalogEntry \<times> BasicCatalog \<Rightarrow> EntryLocals" where
  "EntryLocals_done = (\<lambda>(e, c). \<lparr> el_e = e, el_cat = c, el_gotId = True, el_gotName = True, el_gotCls = True, el_gotDir = True,
     el_gotAccess = True, el_gotRate = True, el_gotPrio = True, el_gotLayout = (ce_form e = FF_Layout),
     el_gotSchema = (ce_form e = FF_Schema), el_gotStore = (ce_form e = FF_Store) \<rparr>)"

lemma runs_entry:
  assumes "view_ok (e, layout, schema, store)" and "caps_ok caps" and "room caps c (e, layout, schema, store)"
    and "ce_fieldCount e = 0" and "ce_fieldOffset e = 0"
  shows "runs 0 (cat_decodeEntry_key caps c) (entry_kvs (e, layout, schema, store)) (EntryLocals_new c)
    (EntryLocals_done (entry_result c (e, layout, schema, store)))"
proof (cases e)
  case (fields id name cls dir acs rate prio cnt off cat catl rd sc sk rk)
  note steps =
    runs_opt1 [where k = 10 and x = cat and u = "\<lambda>g. el_e_update (ce_category_update g)"]
    runs_when1 [where k = 11 and u = "el_e_update (ce_categoryLabel_update (\<lambda>_. catl))"]
    runs_opt1 [where k = 13 and x = rd and u = "\<lambda>g. el_e_update (ce_replayDepth_update g)"]
    runs_opt1 [where k = 14 and x = sc and u = "\<lambda>g. el_e_update (ce_settingChannel_update g)"]
    runs_when1 [where k = 15 and u = "el_e_update (ce_streamKind_update (\<lambda>_. sk))"]
    runs_opt1 [where k = 16 and x = rk and u = "\<lambda>g. el_e_update (ce_rank_update g)"]
  have ok: "name \<noteq> []" "length name \<le> 32" "length catl \<le> 24" and z: "cnt = 0" "off = 0"
    using assms(1,4,5) by (auto simp: view_ok_def fields)
  show ?thesis
  proof (cases "form_of cls")
    case FF_Layout
    have a: "\<forall>v \<in> set layout. layout_ok v" "layout \<noteq> []" "length layout \<le> 64" "caps_ok caps"
      "length (bc_labelPool c) + length (concat (map layout_labels layout)) \<le> cap_labels caps"
      "length (bc_layoutPool c) + length layout \<le> cap_layout caps"
      using assms(1,2,3) FF_Layout by (auto simp: view_ok_def room_def entry_labels_def entry_slots_def fields ce_form_def)
    note pay = runs_when1 [where k = 8 and u = "\<lambda>l. el_gotLayout_update (\<lambda>_. True) (el_cat_update (\<lambda>_. foldl add_layout c layout)
        (el_e_update (\<lambda>e. e \<lparr> ce_fieldOffset := of_nat (length (bc_layoutPool c)), ce_fieldCount := of_nat (length layout) \<rparr>) l))"]
      runs_when1 [where k = 9 and u = "\<lambda>l. l"]
    show ?thesis
      unfolding entry_kvs_def prod.case fields CatalogEntry.select_convs EntryLocals_new_def CatalogEntry_new_def
        entry_result_def EntryLocals_done_def ce_form_def FF_Layout FieldForm.case
      by (rule runs_append steps pay runs_end runs_one reads_on value_reads reads_eq [OF reads_decodeLayout [OF a, unfolded One_nat_def]]
          | simp add: entry_keys ok z Suc_le_eq FF_Layout)+
  next
    case FF_Schema
    have a: "\<forall>v \<in> set (by_key schema). schema_ok v" "by_key schema \<noteq> []" "length (by_key schema) \<le> 64" "caps_ok caps"
      "sorted_wrt (<) (map (\<lambda>v. sf_key (fst v)) (by_key schema))"
      "length (bc_labelPool c) + length (concat (map schema_labels (by_key schema))) \<le> cap_labels caps"
      "length (bc_schemaPool c) + length (by_key schema) \<le> cap_schema caps"
      using assms(1,2,3) FF_Schema keys_strict [of "\<lambda>v. sf_key (fst v)" schema]
      by (auto simp: sort_key_Nil view_ok_def room_def entry_labels_def entry_slots_def fields ce_form_def)
    note pay = runs_when1 [where k = 9 and u = "\<lambda>l. el_gotSchema_update (\<lambda>_. True) (el_cat_update (\<lambda>_. foldl add_schema c (by_key schema))
        (el_e_update (\<lambda>e. e \<lparr> ce_fieldOffset := of_nat (length (bc_schemaPool c)), ce_fieldCount := of_nat (length schema) \<rparr>) l))"]
      runs_when1 [where k = 8 and u = "\<lambda>l. l"]
    show ?thesis
      unfolding entry_kvs_def prod.case fields CatalogEntry.select_convs EntryLocals_new_def CatalogEntry_new_def
        entry_result_def EntryLocals_done_def ce_form_def FF_Schema FieldForm.case
      by (rule runs_append steps pay runs_end runs_one reads_on value_reads reads_eq [OF reads_decodeSchema [OF a, unfolded One_nat_def]]
          | simp add: entry_keys ok z Suc_le_eq FF_Schema)+
  next
    case FF_Store
    obtain x where x: "store = Some x" "store_ok x" "length (bc_storePool c) < cap_stores caps"
      using assms(1,3) FF_Store by (auto simp: view_ok_def room_def entry_slots_def fields ce_form_def split: option.splits)
    have o: "opt1 12 g (Some x) = when1 12 True (g x)" for g by (simp add: opt1_def when1_def)
    note pay = runs_when1 [where k = 12 and u = "\<lambda>l. el_gotStore_update (\<lambda>_. True) (el_cat_update (\<lambda>_. c \<lparr> bc_storePool := bc_storePool c @ [x] \<rparr>)
        (el_e_update (\<lambda>e. e \<lparr> ce_fieldOffset := of_nat (length (bc_storePool c)), ce_fieldCount := 1 \<rparr>) l))"]
      runs_when1 [where k = 8 and u = "\<lambda>l. l"] runs_when1 [where k = 9 and u = "\<lambda>l. l"]
    show ?thesis
      unfolding entry_kvs_def prod.case fields CatalogEntry.select_convs EntryLocals_new_def CatalogEntry_new_def
        entry_result_def EntryLocals_done_def ce_form_def FF_Store FieldForm.case x(1) option.sel o if_True simp_thms
      by (rule runs_append steps pay runs_end runs_one reads_on value_reads reads_eq [OF reads_decodeStore [OF x(2,3), unfolded One_nat_def]]
          | simp add: entry_keys ok z Suc_le_eq FF_Store)+
  qed
qed

lemma entry_kvs_asc: "asc 0 (entry_kvs v)"
proof -
  have s: "asc lo ((if b then opt1 12 g x else []) @ ys)" if "lo \<le> 12" "asc 13 ys"
    for lo b x ys and g :: "StoreDescriptor \<Rightarrow> cbor"
    using asc_intros(3) [of lo 12 ys g x] asc_weaken [of 13 ys lo] order_trans [of lo 12 13] that by auto
  show ?thesis by (cases v) (simp only: entry_kvs_def prod.case, (rule asc_intros s | simp)+)
qed

lemma reads_entry:
  assumes "view_ok v" and "caps_ok caps" and "room caps c v" and "ce_fieldCount (fst v) = 0" and "ce_fieldOffset (fst v) = 0"
  shows "reads 0 (cat_decodeEntry caps c) (CMap (entry_kvs v)) (entry_result c v)"
proof -
  obtain e' c' where r: "entry_result c v = (e', c')" by (cases "entry_result c v")
  have "runs 0 (cat_decodeEntry_key caps c) (entry_kvs v) (EntryLocals_new c) (EntryLocals_done (e', c'))"
    unfolding r [symmetric]
    using runs_entry [of "fst v" "fst (snd v)" "fst (snd (snd v))" "snd (snd (snd v))" caps c] assms by simp
  moreover have "sorted_wrt (<) (map fst (entry_kvs v))" using entry_kvs_asc by (simp add: asc_def)
  moreover have "length (entry_kvs v) < 2 ^ 32" by (rule le_less_trans [OF entry_kvs_few]) simp
  ultimately show ?thesis
    unfolding cat_decodeEntry_def [abs_def] r
    by (intro reads_bind [OF reads_decode_map]) (auto simp: EntryLocals_done_def payloadKeys_def split: FieldForm.splits)
qed

section \<open>What the entry declares afterwards\<close>

definition entry_norm :: "entry_view \<Rightarrow> entry_view" where
  "entry_norm = (\<lambda>(e, layout, schema, store). (e, map layout_norm layout, by_key (map schema_norm schema), store))"

text \<open>A resolved entry carries the payload of its own form only.\<close>

definition view_shape :: "entry_view \<Rightarrow> bool" where
  "view_shape = (\<lambda>(e, layout, schema, store). ce_fieldCount e = 0 \<and> ce_fieldOffset e = 0 \<and>
     (ce_form e \<noteq> FF_Layout \<longrightarrow> layout = []) \<and> (ce_form e \<noteq> FF_Schema \<longrightarrow> schema = []) \<and> (ce_form e \<noteq> FF_Store \<longrightarrow> store = None))"

lemma eview_shape: "view_shape (eview c e)"
  by (auto simp: view_shape_def eview_def header_of_def ce_form_def layoutFields_def schemaFields_def storeDescriptor_def)

lemma fields_at:
  assumes "n < 2 ^ 16" and "length fs \<le> 64"
  shows "unat (of_nat n :: u16) = n" "unat (of_nat (length fs) :: u8) = length fs"
  using assms by (simp_all add: unat_of_nat)

text \<open>What decoding one entry leaves: a catalog that has grown by an entry with the same declaration.\<close>

definition grown_by :: "CatalogCaps \<Rightarrow> BasicCatalog \<Rightarrow> entry_view \<Rightarrow> CatalogEntry \<Rightarrow> BasicCatalog \<Rightarrow> bool" where
  "grown_by caps c v e c' \<longleftrightarrow> grows c c' \<and> bc_entries c' = bc_entries c \<and> eview c' e = entry_norm v \<and>
     field_end e = pool_len c' (ce_form e) \<and> unat (ce_fieldCount e) \<le> kMaxFields \<and> payload_resolves c' e \<and>
     length (bc_layoutPool c') \<le> cap_layout caps \<and> length (bc_schemaPool c') \<le> cap_schema caps \<and>
     length (bc_labelPool c') \<le> cap_labels caps \<and> length (bc_storePool c') \<le> cap_stores caps \<and>
     (\<forall>f \<in> set (bc_layoutPool c'). f \<in> set (bc_layoutPool c) \<or> ref_ok c' (lf_bits f) \<and> ref_ok c' (lf_options f)) \<and>
     (\<forall>f \<in> set (bc_schemaPool c'). f \<in> set (bc_schemaPool c) \<or> ref_ok c' (sf_options f))"

lemma layout_grown:
  assumes "view_ok v" and "view_shape v" and "caps_ok caps" and "room caps c v" and "entry_result c v = (e', c')"
    and form: "ce_form (fst v) = FF_Layout"
  shows "grown_by caps c v e' c'"
proof -
  obtain e layout where v: "v = (e, layout, [], None)" using assms(2) form by (cases v) (auto simp: view_shape_def)
  have f: "ce_form e = FF_Layout" using form by (simp add: v)
  have ok: "\<forall>v \<in> set layout. layout_ok v" "length layout \<le> 64" using assms(1) f by (auto simp: view_ok_def v)
  have e': "e' = e \<lparr> ce_fieldOffset := of_nat (length (bc_layoutPool c)), ce_fieldCount := of_nat (length layout) \<rparr>" "c' = foldl add_layout c layout"
    using assms(5) f by (simp_all add: entry_result_def v)
  obtain fs where fs: "c' = c \<lparr> bc_labelPool := bc_labelPool c @ concat (map layout_labels layout), bc_layoutPool := bc_layoutPool c @ fs \<rparr>"
    "map (lview c') fs = map layout_norm layout" "\<forall>f \<in> set fs. ref_ok c' (lf_bits f) \<and> ref_ok c' (lf_options f)"
    using foldl_layouts [OF ok(1), of c] assms(3,4) f unfolding e'(2) by (auto simp: entry_labels_def v caps_ok_def room_def)
  have n: "length fs = length layout" using fs(2) map_eq_imp_length_eq by metis
  have u: "unat (ce_fieldOffset e') = length (bc_layoutPool c)" "unat (ce_fieldCount e') = length fs" "ce_form e' = FF_Layout"
    using fields_at [of "length (bc_layoutPool c)" fs] assms(3,4) ok(2) n f by (auto simp: e'(1) ce_form_def caps_ok_def room_def)
  then have p: "layoutFields c' e' = fs" "schemaFields c' e' = []" "storeDescriptor c' e' = None"
    using fs(1) by (simp_all add: layoutFields_def schemaFields_def storeDescriptor_def)
  have "header_of e' = e" using assms(2) by (simp add: e'(1) header_of_def view_shape_def v)
  then have "eview c' e' = entry_norm v" using fs(2) p by (simp add: eview_def entry_norm_def v)
  moreover have "grows c c'" "bc_entries c' = bc_entries c" unfolding fs(1) by (auto simp: grows_def)
  ultimately show ?thesis
    using u ok n fs(1,3) p(1) assms(4) f
    by (auto simp: grown_by_def room_def entry_labels_def entry_slots_def v payload_resolves_def field_end_def pool_len_def)
qed

lemma by_key_norm: "by_key (map schema_norm vs) = map schema_norm (by_key vs)"
proof -
  have "sf_key (fst (schema_norm v)) = sf_key (fst v)" for v by (cases v) (simp add: schema_norm_def)
  then show ?thesis by (simp add: sort_key_map)
qed

lemma schema_grown:
  assumes "view_ok v" and "view_shape v" and "caps_ok caps" and "room caps c v" and "entry_result c v = (e', c')"
    and form: "ce_form (fst v) = FF_Schema"
  shows "grown_by caps c v e' c'"
proof -
  obtain e schema where v: "v = (e, [], schema, None)" using assms(2) form by (cases v) (auto simp: view_shape_def)
  have f: "ce_form e = FF_Schema" using form by (simp add: v)
  have ok: "\<forall>v \<in> set (by_key schema). schema_ok v" "length (by_key schema) \<le> 64" using assms(1) f by (auto simp: view_ok_def v)
  have e': "e' = e \<lparr> ce_fieldOffset := of_nat (length (bc_schemaPool c)), ce_fieldCount := of_nat (length (by_key schema)) \<rparr>" "c' = foldl add_schema c (by_key schema)"
    using assms(5) f by (simp_all add: entry_result_def v)
  obtain fs where fs: "c' = c \<lparr> bc_labelPool := bc_labelPool c @ concat (map schema_labels (by_key schema)), bc_schemaPool := bc_schemaPool c @ fs \<rparr>"
    "map (sview c') fs = map schema_norm (by_key schema)" "\<forall>f \<in> set fs. ref_ok c' (sf_options f)"
    using foldl_schemas [OF ok(1), of c] assms(3,4) f unfolding e'(2) by (auto simp: entry_labels_def v caps_ok_def room_def)
  have n: "length fs = length (by_key schema)" using fs(2) map_eq_imp_length_eq by metis
  have u: "unat (ce_fieldOffset e') = length (bc_schemaPool c)" "unat (ce_fieldCount e') = length fs" "ce_form e' = FF_Schema"
    using fields_at [of "length (bc_schemaPool c)" fs] assms(3,4) ok(2) n f by (auto simp: e'(1) ce_form_def caps_ok_def room_def)
  then have p: "schemaFields c' e' = fs" "layoutFields c' e' = []" "storeDescriptor c' e' = None"
    using fs(1) by (simp_all add: layoutFields_def schemaFields_def storeDescriptor_def)
  have "header_of e' = e" using assms(2) by (simp add: e'(1) header_of_def view_shape_def v)
  then have "eview c' e' = entry_norm v" using fs(2) p by (simp add: eview_def entry_norm_def v by_key_norm)
  moreover have "grows c c'" "bc_entries c' = bc_entries c" unfolding fs(1) by (auto simp: grows_def)
  ultimately show ?thesis
    using u ok n fs(1,3) p(1) assms(4) f
    by (auto simp: grown_by_def room_def entry_labels_def entry_slots_def v payload_resolves_def field_end_def pool_len_def)
qed

lemma store_grown:
  assumes "view_ok v" and "view_shape v" and "caps_ok caps" and "room caps c v" and "entry_result c v = (e', c')"
    and form: "ce_form (fst v) = FF_Store"
  shows "grown_by caps c v e' c'"
proof -
  obtain e x where v: "v = (e, [], [], Some x)"
    using assms(1,2) form by (cases v) (auto simp: view_shape_def view_ok_def split: option.splits)
  have f: "ce_form e = FF_Store" using form by (simp add: v)
  have e': "e' = e \<lparr> ce_fieldOffset := of_nat (length (bc_storePool c)), ce_fieldCount := 1 \<rparr>" "c' = c \<lparr> bc_storePool := bc_storePool c @ [x] \<rparr>"
    using assms(5) f by (simp_all add: entry_result_def v)
  have u: "unat (ce_fieldOffset e') = length (bc_storePool c)" "ce_form e' = FF_Store"
    using fields_at [of "length (bc_storePool c)" "[]"] assms(3,4) f by (auto simp: e'(1) ce_form_def caps_ok_def room_def)
  then have p: "storeDescriptor c' e' = Some x" "layoutFields c' e' = []" "schemaFields c' e' = []"
    by (simp_all add: layoutFields_def schemaFields_def storeDescriptor_def e')
  have "header_of e' = e" using assms(2) by (simp add: e'(1) header_of_def view_shape_def v)
  then have "eview c' e' = entry_norm v" using p by (simp add: eview_def entry_norm_def v)
  moreover have "grows c c'" "bc_entries c' = bc_entries c" unfolding e'(2) by (auto simp: grows_def)
  ultimately show ?thesis
    using u e' p(1) assms(4) f
    by (auto simp: grown_by_def room_def entry_labels_def entry_slots_def v payload_resolves_def field_end_def pool_len_def)
qed

lemma entry_result_grown:
  "view_ok v \<Longrightarrow> view_shape v \<Longrightarrow> caps_ok caps \<Longrightarrow> room caps c v \<Longrightarrow> entry_result c v = (e', c') \<Longrightarrow> grown_by caps c v e' c'"
  using layout_grown schema_grown store_grown by (cases "ce_form (fst v)") blast+

end
