(* ===== verification/Catalog_Roundtrip.thy ===== *)
theory Catalog_Roundtrip
  imports Catalog_Decode
begin

text \<open>
  The catalog on the wire, \<^verbatim>\<open>wire/catalog_codec.hpp\<close> and \<^verbatim>\<open>wire/catalog_etag.hpp\<close>, end to end: what is encoded is read back,
  the image is a function of the declared content and determines it, and no input makes the decoder produce a catalog whose
  references leave its pools.
\<close>

section \<open>From one catalog to the next\<close>

abbreviation (input) declared :: "BasicCatalog \<Rightarrow> entry_view list" where
  "declared c \<equiv> map (eview c) (bc_entries c)"

lemma entries_update [simp]:
  "pool_len (c \<lparr> bc_entries := es \<rparr>) ff = pool_len c ff" "ref_ok (c \<lparr> bc_entries := es \<rparr>) r = ref_ok c r"
  "eview (c \<lparr> bc_entries := es \<rparr>) x = eview c x"
proof -
  have "lview (c \<lparr> bc_entries := es \<rparr>) = lview c" "sview (c \<lparr> bc_entries := es \<rparr>) = sview c"
    by (simp_all add: fun_eq_iff lview_def sview_def labels_def optionAccess_def labelAccess_def label_span_def)
  then show "eview (c \<lparr> bc_entries := es \<rparr>) x = eview c x"
    by (simp add: eview_def layoutFields_def schemaFields_def storeDescriptor_def)
qed (simp_all add: ref_ok_def pool_len_def split: FieldForm.splits)

lemma grown_append:
  assumes "cat_inv caps c" and "grown_by caps c v e c'"
  defines "c2 \<equiv> c' \<lparr> bc_entries := bc_entries c' @ [e] \<rparr>"
  shows "cat_inv caps c2" and "declared c2 = declared c @ [entry_norm v]"
proof -
  have g: "grows c c2" using assms(2) by (simp add: grown_by_def c2_def grows_def)
  have "\<forall>x \<in> set (bc_entries c2). field_end x \<le> pool_len c2 (ce_form x) \<and> unat (ce_fieldCount x) \<le> kMaxFields"
    using assms(1,2) grows_fields(4) [OF g] by (auto simp: cat_inv_def grown_by_def c2_def)
  then show "cat_inv caps c2"
    using assms(1,2) grows_label_span [OF g] by (auto simp: cat_inv_def grown_by_def c2_def)
  have "declared c2 = map (eview c2) (bc_entries c) @ [eview c2 e]" using assms(2) by (simp add: c2_def grown_by_def)
  also have "map (eview c2) (bc_entries c) = declared c" using grows_eview [OF assms(1) g] by simp
  finally show "declared c2 = declared c @ [entry_norm v]" using assms(2) by (simp add: c2_def grown_by_def)
qed

section \<open>The sizes of the pools\<close>

lemma foldl_layout_sizes:
  "length (bc_labelPool (foldl add_layout c vs)) = length (bc_labelPool c) + length (concat (map layout_labels vs))"
  "length (bc_layoutPool (foldl add_layout c vs)) = length (bc_layoutPool c) + length vs"
  "bc_schemaPool (foldl add_layout c vs) = bc_schemaPool c" "bc_storePool (foldl add_layout c vs) = bc_storePool c"
  by (induction vs arbitrary: c) (simp_all add: add_layout_def)

lemma foldl_schema_sizes:
  "length (bc_labelPool (foldl add_schema c vs)) = length (bc_labelPool c) + length (concat (map schema_labels vs))"
  "length (bc_schemaPool (foldl add_schema c vs)) = length (bc_schemaPool c) + length vs"
  "bc_layoutPool (foldl add_schema c vs) = bc_layoutPool c" "bc_storePool (foldl add_schema c vs) = bc_storePool c"
  by (induction vs arbitrary: c) (simp_all add: add_schema_def)

text \<open>The pools of a receiver are large enough for a list of entries.\<close>

definition fits :: "CatalogCaps \<Rightarrow> BasicCatalog \<Rightarrow> entry_view list \<Rightarrow> bool" where
  "fits caps c vs \<longleftrightarrow> length (bc_entries c) + length vs \<le> cap_entries caps \<and>
     length (bc_labelPool c) + length (concat (map entry_labels vs)) \<le> cap_labels caps \<and>
     length (bc_layoutPool c) + sum_list (map (entry_slots FF_Layout) vs) \<le> cap_layout caps \<and>
     length (bc_schemaPool c) + sum_list (map (entry_slots FF_Schema) vs) \<le> cap_schema caps \<and>
     length (bc_storePool c) + sum_list (map (entry_slots FF_Store) vs) \<le> cap_stores caps"

lemma fits_Cons:
  assumes "fits caps c (v # vs)" and "entry_result c v = (e, c')" and "bc_entries c' = bc_entries c"
  shows "room caps c v" and "fits caps (c' \<lparr> bc_entries := bc_entries c' @ [e] \<rparr>) vs" and "length (bc_entries c') < cap_entries caps"
proof -
  show "room caps c v" using assms(1) by (simp add: room_def fits_def)
  show "length (bc_entries c') < cap_entries caps" using assms(1,3) by (simp add: fits_def)
  have "length (bc_labelPool c') = length (bc_labelPool c) + length (entry_labels v)"
    "length (bc_layoutPool c') = length (bc_layoutPool c) + entry_slots FF_Layout v"
    "length (bc_schemaPool c') = length (bc_schemaPool c) + entry_slots FF_Schema v"
    "length (bc_storePool c') = length (bc_storePool c) + entry_slots FF_Store v"
    using assms(2)
    by (auto simp: entry_result_def entry_labels_def entry_slots_def foldl_layout_sizes foldl_schema_sizes split: prod.splits FieldForm.splits)
  then show "fits caps (c' \<lparr> bc_entries := bc_entries c' @ [e] \<rparr>) vs" using assms(1,3) by (simp add: fits_def)
qed

section \<open>Decoding an image\<close>

lemma entry_result_id: "entry_result c v = (e, c') \<Longrightarrow> ce_id e = ce_id (fst v)"
  by (auto simp: entry_result_def split: prod.splits FieldForm.splits)

lemma decodeEntry_image:
  assumes "reads 0 rd (CMap kvs) x" and "drop pos inp = enc (CMap kvs) @ rest" and "length (enc (CMap kvs)) \<le> 4096"
  defines "avail \<equiv> length inp - pos"
  shows "\<exists>r. rd (CborReader_new (take (if avail < 4096 then avail else 4096) (drop pos inp))) = Inr (x, r) \<and> rd_pos r = length (enc (CMap kvs))"
proof -
  have "avail = length (enc (CMap kvs)) + length rest"
    using arg_cong [OF assms(2), of length] by (simp add: avail_def del: enc.simps)
  then have "take (if avail < 4096 then avail else 4096) (drop pos inp) =
      enc (CMap kvs) @ take ((if avail < 4096 then avail else 4096) - length (enc (CMap kvs))) rest"
    using assms(3) unfolding assms(2) by (simp del: enc.simps)
  then show ?thesis
    using assms(1) by (auto simp: reads_def ahead_def CborReader_new_def adv_def simp del: enc.simps)
qed

lemma decodeEntries_image:
  assumes "\<forall>v \<in> set vs. view_ok v \<and> view_shape v \<and> length (entry_image v) \<le> 4096" and "caps_ok caps" and "fits caps c vs"
    and "cat_inv caps c" and "sorted_wrt (<) (map (\<lambda>v. ce_id (fst v)) vs)"
    and "\<forall>v \<in> set vs. \<forall>p. prev = Some p \<longrightarrow> p < ce_id (fst v)"
    and "drop pos inp = concat (map entry_image vs) @ rest" and "pos \<le> length inp"
  shows "\<exists>c'. decodeEntries caps inp (length vs) pos prev c = Inr c' \<and> cat_inv caps c' \<and> declared c' = declared c @ map entry_norm vs"
  using assms
proof (induction vs arbitrary: pos prev c)
  case (Cons v vs)
  obtain e c' where r: "entry_result c v = (e, c')" by (cases "entry_result c v")
  let ?c2 = "c' \<lparr> bc_entries := bc_entries c' @ [e] \<rparr>" and ?n = "length (entry_image v)"
  have v: "view_ok v" "view_shape v" "?n \<le> 4096" using Cons.prems(1) by simp_all
  have "room caps c v" using Cons.prems(3) by (simp add: fits_def room_def)
  then have gr: "grown_by caps c v e c'" by (rule entry_result_grown [OF v(1,2) Cons.prems(2) _ r])
  then have same: "bc_entries c' = bc_entries c" by (simp add: grown_by_def)
  note f = fits_Cons [OF Cons.prems(3) r same]
  have z: "ce_fieldCount (fst v) = 0" "ce_fieldOffset (fst v) = 0" using v(2) by (auto simp: view_shape_def split: prod.splits)
  have d: "drop pos inp = entry_image v @ concat (map entry_image vs) @ rest" using Cons.prems(7) by simp
  obtain rd where rd: "cat_decodeEntry caps c (CborReader_new (take (if length inp - pos < 4096 then length inp - pos else 4096) (drop pos inp))) =
      Inr ((e, c'), rd)" "rd_pos rd = ?n"
    using decodeEntry_image [OF reads_entry [OF v(1) Cons.prems(2) f(1) z] d [unfolded entry_image_def [of v]]] v(3)
    unfolding r entry_image_def by blast
  have "addEntryVerbatim caps e c' = (True, ?c2)" using f(3) by (simp add: addEntryVerbatim_def)
  moreover have "\<not> (case prev of None \<Rightarrow> False | Some p \<Rightarrow> ce_id e \<le> p)"
    using Cons.prems(6) entry_result_id [OF r] by (auto split: option.splits)
  ultimately have step: "decodeEntries caps inp (length (v # vs)) pos prev c = decodeEntries caps inp (length vs) (pos + ?n) (Some (ce_id e)) ?c2"
    using Cons.prems(8) rd by (simp add: Let_def)
  have "drop (pos + ?n) inp = concat (map entry_image vs) @ rest" using arg_cong [OF d, of "drop ?n"] by (simp add: add.commute)
  moreover have "pos + ?n \<le> length inp" using arg_cong [OF d, of length] Cons.prems(8) by simp
  ultimately obtain c3 where "decodeEntries caps inp (length vs) (pos + ?n) (Some (ce_id e)) ?c2 = Inr c3" "cat_inv caps c3"
      "declared c3 = declared ?c2 @ map entry_norm vs"
    using Cons.IH [of ?c2 "Some (ce_id e)" "pos + ?n"] Cons.prems(1,2,5) f(2) grown_append(1) [OF Cons.prems(4) gr] entry_result_id [OF r] by auto
  then show ?case using step grown_append(2) [OF Cons.prems(4) gr] by simp
qed simp

section \<open>Catalogs that travel\<close>

text \<open>A catalog a peer with pools of the sizes \<open>caps\<close> can take: ascending ids, entries that resolve and keep to the size limits
  of the wire format, no more of anything than the pools hold.\<close>

definition catalog_ok :: "CatalogCaps \<Rightarrow> BasicCatalog \<Rightarrow> bool" where
  "catalog_ok caps c \<longleftrightarrow> caps_ok caps \<and> cap_entries caps < 2 ^ 16 \<and> sorted_wrt (<) (map ce_id (bc_entries c)) \<and>
     (\<forall>e \<in> set (bc_entries c). payload_resolves c e \<and> view_ok (eview c e)) \<and> fits caps BasicCatalog_new (declared c)"

lemma catalog_ok_writable:
  assumes "catalog_ok caps c" and "e \<in> set (bc_entries c)"
  shows "entry_writable c e"
proof -
  have p: "payload_resolves c e" and v: "view_ok (eview c e)" using assms by (simp_all add: catalog_ok_def)
  have f: "ce_form (header_of e) = ce_form e" by (simp add: header_of_def ce_form_def)
  have k: "sf_key (fst (sview c x)) = sf_key x" for x by (simp add: sview_def)
  have "unat (ce_fieldCount e) \<le> kMaxFields"
    using p v by (auto simp: payload_resolves_def view_ok_def eview_def f storeDescriptor_def split: FieldForm.splits if_splits)
  moreover have "distinct (map sf_key (schemaFields c e))"
    using v by (cases "ce_form e") (auto simp: view_ok_def eview_def f comp_def k, simp_all add: schemaFields_def)
  ultimately show ?thesis using p by (simp add: entry_writable_def)
qed

lemma catalog_ok_image:
  assumes "catalog_ok caps c"
  shows "encodeCatalog c cap = (if (\<forall>v \<in> set (declared c). length (entry_image v) \<le> 4096) \<and> length (catalog_image (declared c)) \<le> cap
    then catalog_image (declared c) else [])"
proof -
  have "length (bc_entries c) < 2 ^ 16" using assms by (auto simp: catalog_ok_def fits_def BasicCatalog_new_def)
  then show ?thesis
    using encodeCatalog_image [of c cap] catalog_ok_writable [OF assms] assms by (simp add: catalog_ok_def Let_def)
qed

lemma decodeCatalog_image:
  assumes "catalog_ok caps c" and "\<forall>v \<in> set (declared c). length (entry_image v) \<le> 4096"
  shows "\<exists>c'. decodeCatalog caps (catalog_image (declared c) @ rest) c0 = Inr c' \<and> cat_inv caps c' \<and> declared c' = map entry_norm (declared c)"
proof -
  let ?vs = "declared c" and ?h = "head_bytes 4 (of_nat (length (bc_entries c)))"
  let ?inp = "catalog_image ?vs @ rest"
  have n: "length (bc_entries c) \<le> cap_entries caps" "length (bc_entries c) < 2 ^ 32"
    using assms(1) by (auto simp: catalog_ok_def fits_def BasicCatalog_new_def)
  have h: "?inp = ?h @ concat (map entry_image ?vs) @ rest" by (simp add: catalog_image_def)
  have "ahead (CborReader_new ?inp) = ?h @ (concat (map entry_image ?vs) @ rest)" by (simp add: h ahead_def CborReader_new_def)
  from enterContainer_enc [OF this, of False] n(2)
  obtain r where r: "readArrayHeader (CborReader_new ?inp) = Inr (of_nat (length (bc_entries c)), r)" "rd_pos r = length ?h"
    by (auto simp: readArrayHeader_def CborReader_new_def)
  have clr: "cat_clear c0 = BasicCatalog_new" by (simp add: cat_clear_def BasicCatalog_new_def)
  have "unat (of_nat (length (bc_entries c)) :: u32) = length ?vs" using n(2) by (simp add: unat_of_nat)
  then have "decodeCatalog caps ?inp c0 = decodeEntries caps ?inp (length ?vs) (length ?h) None BasicCatalog_new"
    using r n(1) by (simp add: decodeCatalog_def clr)
  moreover have "\<exists>c'. decodeEntries caps ?inp (length ?vs) (length ?h) None BasicCatalog_new = Inr c' \<and> cat_inv caps c' \<and>
      declared c' = declared BasicCatalog_new @ map entry_norm ?vs"
    by (rule decodeEntries_image [where rest = rest])
      (use assms eview_shape cat_inv_new in \<open>auto simp: catalog_ok_def h comp_def eview_simps header_of_def\<close>)
  ultimately show ?thesis by (simp add: BasicCatalog_new_def)
qed

lemma encoded_decodes:
  assumes "catalog_ok caps c" and "encodeCatalog c cap \<noteq> []"
  shows "\<exists>c'. decodeCatalog caps (encodeCatalog c cap @ rest) c0 = Inr c' \<and> cat_inv caps c' \<and> declared c' = map entry_norm (declared c)"
  using decodeCatalog_image [OF assms(1), of rest c0] assms(2) catalog_ok_image [OF assms(1), of cap] by (auto split: if_splits)

text \<open>(C12) A catalog survives the wire. Whatever \<^verbatim>\<open>encodeCatalog\<close> writes for a catalog within the limits of the format,
  \<^verbatim>\<open>decodeCatalog\<close> reads back, into a receiver in any previous state and whatever bytes follow: the result is a
  well-formed catalog that declares the same entries with the same fields, labels, access levels and stores, up to the order of the
  schema fields, which is the one of their keys, and to unnamed bits at the end of a bit list.\<close>

theorem catalog_roundtrip:
  assumes "catalog_ok caps c" and "encodeCatalog c cap \<noteq> []"
  shows "\<exists>c'. decodeCatalog caps (encodeCatalog c cap @ rest) c0 = Inr c' \<and> cat_inv caps c' \<and>
    map (eview c') (bc_entries c') = map entry_norm (map (eview c) (bc_entries c))"
  using assms by (rule encoded_decodes)

section \<open>The image and the content\<close>

lemma bit_kvs_append: "bit_kvs i (xs @ ys) = bit_kvs i xs @ bit_kvs (i + length xs) ys"
  by (induction xs arbitrary: i) auto

lemma bit_kvs_empty: "bit_kvs i (replicate n []) = []"
  by (induction n arbitrary: i) auto

lemma bit_kvs_trimmed: "bit_kvs i (trimmed bits) = bit_kvs i bits"
proof (induction bits arbitrary: i rule: rev_induct)
  case (snoc s ss)
  show ?case
  proof (cases "s = []")
    case True
    then show ?thesis using snoc by (simp add: trimmed_def bit_kvs_append)
  next
    case False
    then show ?thesis by (simp add: trimmed_def)
  qed
qed simp

lemma kvs_norm: "layout_kvs (layout_norm v) = layout_kvs v" "schema_kvs (schema_norm w) = schema_kvs w"
  by (cases v, simp add: layout_kvs_def layout_norm_def bit_kvs_trimmed) (cases w, simp add: schema_kvs_def schema_norm_def)

lemma entry_image_norm: "entry_image (entry_norm v) = entry_image v"
proof -
  have "sf_key (fst (schema_norm w)) = sf_key (fst w)" for w by (cases w) (simp add: schema_norm_def)
  then have "by_key (map schema_norm ws) = map schema_norm (by_key ws)" "by_key (by_key ws) = by_key ws" for ws
    by (simp_all add: sort_key_map sort_key_id_if_sorted)
  then show ?thesis
    by (cases v) (simp add: entry_image_def entry_kvs_def entry_norm_def kvs_norm comp_def \<open>\<And>w. sf_key (fst (schema_norm w)) = sf_key (fst w)\<close>)
qed

lemma catalog_image_norm: "catalog_image (map entry_norm vs) = catalog_image vs"
  by (simp add: catalog_image_def comp_def entry_image_norm)

text \<open>(C14) The image is the content. Of two catalogs within the limits, one of which was encoded, the other has the same image exactly
  if it declares the same content, in whatever pools and order of schema fields it was built; so the etag, a digest of
  the image, does not depend on how a hub registered its channels, and only a collision of the digest can give two
  contents the same etag.\<close>

theorem catalog_image_content:
  assumes "catalog_ok caps c" and "catalog_ok caps c'" and "encodeCatalog c cap \<noteq> []"
  shows "(encodeCatalog c' cap = encodeCatalog c cap \<longleftrightarrow>
      map entry_norm (map (eview c') (bc_entries c')) = map entry_norm (map (eview c) (bc_entries c))) \<and>
    (map entry_norm (map (eview c') (bc_entries c')) = map entry_norm (map (eview c) (bc_entries c)) \<longrightarrow>
      catalogEtag c' cap = catalogEtag c cap)"
proof -
  have "map entry_norm (declared c') = map entry_norm (declared c)" if same: "encodeCatalog c' cap = encodeCatalog c cap"
  proof -
    obtain c1 where c1: "decodeCatalog caps (encodeCatalog c cap @ []) BasicCatalog_new = Inr c1" "declared c1 = map entry_norm (declared c)"
      using encoded_decodes [OF assms(1,3)] by blast
    obtain c2 where c2: "decodeCatalog caps (encodeCatalog c cap @ []) BasicCatalog_new = Inr c2" "declared c2 = map entry_norm (declared c')"
      using encoded_decodes [OF assms(2), of cap, unfolded same, OF assms(3)] by blast
    have "c1 = c2" using c1(1) c2(1) by simp
    then show ?thesis using c2(2) unfolding c1(2) [symmetric] by (simp only:)
  qed
  moreover have "encodeCatalog c' cap = encodeCatalog c cap" if e: "map entry_norm (declared c') = map entry_norm (declared c)"
  proof -
    have "catalog_image (declared c') = catalog_image (declared c)" using arg_cong [OF e, of catalog_image] by (simp only: catalog_image_norm)
    moreover have "map entry_image (declared c') = map entry_image (declared c)"
      using arg_cong [OF e, of "map entry_image"] by (simp add: comp_def entry_image_norm)
    then have "entry_image ` set (declared c') = entry_image ` set (declared c)" by (metis list.set_map)
    then have "(\<forall>v \<in> set (declared c'). length (entry_image v) \<le> 4096) \<longleftrightarrow> (\<forall>v \<in> set (declared c). length (entry_image v) \<le> 4096)"
      using ball_simps(9) [of entry_image "set (declared c')" "\<lambda>i. length i \<le> 4096"]
        ball_simps(9) [of entry_image "set (declared c)" "\<lambda>i. length i \<le> 4096"] by blast
    ultimately show ?thesis using catalog_ok_image [OF assms(1), of cap] catalog_ok_image [OF assms(2), of cap] by simp
  qed
  ultimately show ?thesis by (auto simp: catalogEtag_def)
qed

section \<open>A catalog with one entry of each form\<close>

definition travel_demo :: "SchemaField list \<Rightarrow> BasicCatalog" where
  "travel_demo sfs =
    \<lparr> bc_entries =
        [CatalogEntry_new \<lparr> ce_id := 1, ce_name := [65], ce_fieldCount := 1, ce_category := Some 7 \<rparr>,
         CatalogEntry_new \<lparr> ce_id := 2, ce_name := [66], ce_cls := CC_INTENT, ce_dir := c2h, ce_fieldCount := 2 \<rparr>,
         CatalogEntry_new \<lparr> ce_id := 9, ce_name := [67], ce_cls := CC_STORE, ce_fieldCount := 1 \<rparr>],
      bc_layoutPool = [LayoutField_new \<lparr> lf_name := [97], lf_type := PF_bitfield8, lf_bits := \<lparr> lr_offset = 0, lr_count = 3 \<rparr> \<rparr>],
      bc_schemaPool = sfs,
      bc_storePool = [\<lparr> sd_storeId = 1, sd_kind = [112], sd_capacity = 8, sd_perItemMax = 512, sd_nameMax = 16 \<rparr>],
      bc_labelPool = [([], watch), ([98], watch), ([], watch), ([111], watch), ([112], control)],
      bc_overflow = False \<rparr>"

definition travel_fields :: "SchemaField list" where
  "travel_fields =
    [SchemaField_new \<lparr> sf_key := 4, sf_name := [100], sf_dflt := SD_Int (- 3) \<rparr>,
     SchemaField_new \<lparr> sf_key := 3, sf_name := [99], sf_options := \<lparr> lr_offset = 3, lr_count = 2 \<rparr>, sf_hasOptionAccess := True \<rparr>]"

lemmas news = CatalogEntry_new_def LayoutField_new_def SchemaField_new_def LabelRef_new_def

lemmas resolve_defs = eview_def lview_def sview_def header_of_def layoutFields_def schemaFields_def storeDescriptor_def labels_def
  label_span_def optionAccess_def labelAccess_def ce_form_def

definition travel_view :: "schema_view list \<Rightarrow> entry_view list" where
  "travel_view ss =
    [(CatalogEntry_new \<lparr> ce_id := 1, ce_name := [65], ce_category := Some 7 \<rparr>,
      [(LayoutField_new \<lparr> lf_name := [97], lf_type := PF_bitfield8 \<rparr>, [[], [98], []], [])], [], None),
     (CatalogEntry_new \<lparr> ce_id := 2, ce_name := [66], ce_cls := CC_INTENT, ce_dir := c2h \<rparr>, [], ss, None),
     (CatalogEntry_new \<lparr> ce_id := 9, ce_name := [67], ce_cls := CC_STORE \<rparr>, [], [],
      Some \<lparr> sd_storeId = 1, sd_kind = [112], sd_capacity = 8, sd_perItemMax = 512, sd_nameMax = 16 \<rparr>)]"

definition travel_schema :: "schema_view list" where
  "travel_schema =
    [(SchemaField_new \<lparr> sf_key := 4, sf_name := [100], sf_dflt := SD_Int (- 3) \<rparr>, [], []),
     (SchemaField_new \<lparr> sf_key := 3, sf_name := [99] \<rparr>, [[111], [112]], [watch, control])]"

lemma travel_declares:
  "declared (travel_demo travel_fields) = travel_view travel_schema"
  "declared (travel_demo (rev travel_fields)) = travel_view (rev travel_schema)"
  by (simp_all add: travel_demo_def travel_fields_def travel_view_def travel_schema_def resolve_defs news)

lemma travel_demo_ok: "catalog_ok Catalog32_caps (travel_demo travel_fields)" "catalog_ok Catalog32_caps (travel_demo (rev travel_fields))"
proof -
  have r: "\<forall>e \<in> set (bc_entries c). payload_resolves c e"
    if "c = travel_demo travel_fields \<or> c = travel_demo (rev travel_fields)" for c
    using that by (auto simp: travel_demo_def travel_fields_def payload_resolves_def resolve_defs news)
  have v: "\<forall>v \<in> set (travel_view ss). view_ok v" if "ss = travel_schema \<or> ss = rev travel_schema" for ss
    using that by (auto simp: travel_view_def travel_schema_def view_ok_def layout_ok_def schema_ok_def store_ok_def sd_ok_def ce_form_def news)
  have f: "fits Catalog32_caps BasicCatalog_new (travel_view ss)" if "ss = travel_schema \<or> ss = rev travel_schema" for ss
    using that by (auto simp: fits_def BasicCatalog_new_def Catalog32_caps_def travel_view_def travel_schema_def entry_labels_def entry_slots_def
        layout_labels_def schema_labels_def trimmed_def ce_form_def news)
  have i: "sorted_wrt (<) (map ce_id (bc_entries (travel_demo sfs)))" for sfs by (simp add: travel_demo_def)
  have k: "caps_ok Catalog32_caps" "cap_entries Catalog32_caps < 2 ^ 16" by (simp_all add: caps_ok_def Catalog32_caps_def)
  have "\<forall>v \<in> set (declared (travel_demo travel_fields)). view_ok v" "\<forall>v \<in> set (declared (travel_demo (rev travel_fields))). view_ok v"
    unfolding travel_declares using v by blast+
  then have w: "\<forall>e \<in> set (bc_entries (travel_demo travel_fields)). view_ok (eview (travel_demo travel_fields) e)"
      "\<forall>e \<in> set (bc_entries (travel_demo (rev travel_fields))). view_ok (eview (travel_demo (rev travel_fields)) e)" by simp_all
  show "catalog_ok Catalog32_caps (travel_demo travel_fields)" "catalog_ok Catalog32_caps (travel_demo (rev travel_fields))"
    unfolding catalog_ok_def travel_declares using r w f i k by blast+
qed

lemma travel_demo_encodes: "encodeCatalog (travel_demo travel_fields) 256 \<noteq> []"
proof -
  have l: "\<forall>v \<in> set (travel_view travel_schema). length (entry_image v) \<le> 80"
    by (simp add: travel_view_def travel_schema_def entry_image_def entry_kvs_def layout_kvs_def schema_kvs_def store_kvs_def opt1_def when1_def
        cnum_def sd_cbor_def length_head_bytes head_nbytes_def ce_form_def news)
  then have "length (catalog_image (travel_view travel_schema)) \<le> 256" and ne: "catalog_image (travel_view travel_schema) \<noteq> []"
    by (auto simp: catalog_image_def travel_view_def length_head_bytes head_nbytes_def head_bytes_alt)
  moreover have "\<forall>v \<in> set (travel_view travel_schema). length (entry_image v) \<le> 4096" using l by auto
  ultimately show ?thesis using catalog_ok_image [OF travel_demo_ok(1), of 256] unfolding travel_declares by simp
qed

theorem catalog_roundtrip_witness:
  "\<exists>c'. decodeCatalog Catalog32_caps (encodeCatalog (travel_demo travel_fields) 256 @ [0]) BasicCatalog_new = Inr c' \<and>
    cat_inv Catalog32_caps c' \<and> map (eview c') (bc_entries c') = map entry_norm (travel_view travel_schema)"
  using catalog_roundtrip [OF travel_demo_ok(1) travel_demo_encodes] unfolding travel_declares .

theorem catalog_image_content_witness:
  "encodeCatalog (travel_demo (rev travel_fields)) 256 = encodeCatalog (travel_demo travel_fields) 256 \<and>
   catalogEtag (travel_demo (rev travel_fields)) 256 = catalogEtag (travel_demo travel_fields) 256"
proof -
  have "map entry_norm (travel_view (rev travel_schema)) = map entry_norm (travel_view travel_schema)"
    by (simp add: travel_view_def travel_schema_def entry_norm_def schema_norm_def news)
  then show ?thesis using catalog_image_content [OF travel_demo_ok travel_demo_encodes] unfolding travel_declares by simp
qed

end
