(* ===== verification/Catalog_Safe.thy ===== *)
theory Catalog_Safe
  imports Catalog_Roundtrip
begin

text \<open>
  The catalog decoder on arbitrary bytes: whatever it accepts is a catalog whose entries resolve in its pools, whose labels
  resolve in the label pool and which is within every capacity.  Each step of the decoder keeps this, by the invariant rules of
  the loops.
\<close>

section \<open>Rules for the loops\<close>

lemma on_Inr: "on rd g r = Inr (y, r') \<longleftrightarrow> (\<exists>v. rd r = Inr (v, r') \<and> y = g v)"
  by (auto simp: on_def rbind_Inr_iff)

lemma pooled_Inr: "pooled p r = Inr (c', r') \<longleftrightarrow> p = (True, c') \<and> r' = r"
  by (cases p) (auto simp: pooled_def)

lemma read_elems_steps:
  assumes "read_elems n h m r = Inr (m', r')" and "P 0 m"
    and "\<And>i m r m' r'. h m r = Inr (m', r') \<Longrightarrow> P i m \<Longrightarrow> P (Suc i) m'"
  shows "P n m'"
  using assms
proof (induction n arbitrary: m r P)
  case (Suc n)
  then obtain m1 r1 where s: "h m r = Inr (m1, r1)" "read_elems n h m1 r1 = Inr (m', r')" by (auto simp: rbind_Inr_iff)
  show ?case using Suc.IH [OF s(2), of "\<lambda>i. P (Suc i)"] Suc.prems(2,3) s(1) by blast
qed simp

lemma read_pairs_steps:
  assumes "read_pairs n h m r = Inr (m', r')" and "P 0 m"
    and "\<And>i k m r m' r'. h k m r = Inr (m', r') \<Longrightarrow> P i m \<Longrightarrow> P (Suc i) m'"
  shows "P n m'"
  using assms
proof (induction n arbitrary: m r P)
  case (Suc n)
  then obtain k r0 m1 r1 where s: "h k m r0 = Inr (m1, r1)" "read_pairs n h m1 r1 = Inr (m', r')" by (auto simp: rbind_Inr_iff)
  show ?case using Suc.IH [OF s(2), of "\<lambda>i. P (Suc i)"] Suc.prems(2,3) s(1) by blast
qed simp

section \<open>Labels\<close>

text \<open>Only the label pool changes, it never shrinks and stays within its capacity.\<close>

definition lgrow :: "CatalogCaps \<Rightarrow> BasicCatalog \<Rightarrow> BasicCatalog \<Rightarrow> bool" where
  "lgrow caps c c' \<longleftrightarrow> bc_layoutPool c' = bc_layoutPool c \<and> bc_schemaPool c' = bc_schemaPool c \<and> bc_storePool c' = bc_storePool c \<and>
     bc_entries c' = bc_entries c \<and> length (bc_labelPool c) \<le> length (bc_labelPool c') \<and>
     (length (bc_labelPool c) \<le> cap_labels caps \<longrightarrow> length (bc_labelPool c') \<le> cap_labels caps)"

lemma lgrow_refl: "lgrow caps c c"
  by (simp add: lgrow_def)

lemma lgrow_trans: "lgrow caps a b \<Longrightarrow> lgrow caps b c \<Longrightarrow> lgrow caps a c"
  by (auto simp: lgrow_def)

lemma ref_ok_mono: "ref_ok c r \<Longrightarrow> length (bc_labelPool c) \<le> length (bc_labelPool c') \<Longrightarrow> ref_ok c' r"
  by (auto simp: ref_ok_def)

lemma ref_ok_grow: "lgrow caps c c' \<Longrightarrow> ref_ok c r \<Longrightarrow> ref_ok c' r"
  by (auto simp: lgrow_def intro: ref_ok_mono)

text \<open>A reference to labels that were just pushed is good, even when its numbers wrap.\<close>

lemma unat_of_nat_le: "unat (of_nat k :: u8) \<le> k" "unat (of_nat k :: u16) \<le> k"
  by (simp_all add: unat_of_nat)

lemma ref_ok_pushed:
  assumes "unat n \<le> k" and "a + k \<le> length (bc_labelPool c)"
  shows "ref_ok c \<lparr> lr_offset = of_nat a, lr_count = n \<rparr>"
  using assms unat_of_nat_le(2) [of a] by (simp add: ref_ok_def)

lemma poolAddLabel_grow:
  "poolAddLabel caps s a c = (True, c') \<Longrightarrow> lgrow caps c c' \<and> length (bc_labelPool c') = Suc (length (bc_labelPool c))"
  by (auto simp: poolAddLabel_def cat_fail_def lgrow_def split: if_splits)

lemma fillTo_grow:
  "fillTo caps n c = (True, c') \<Longrightarrow> lgrow caps c c' \<and> length (bc_labelPool c') = length (bc_labelPool c) + n"
proof (induction n arbitrary: c)
  case (Suc n)
  obtain c1 where c1: "poolAddLabel caps [] watch c = (True, c1)" "fillTo caps n c1 = (True, c')"
    using Suc.prems by (auto split: prod.splits bool.splits)
  then show ?case using Suc.IH [OF c1(2)] poolAddLabel_grow [OF c1(1)] by (auto intro: lgrow_trans)
qed (simp add: lgrow_refl)

lemma decodeOptions_grow:
  assumes "decodeOptions caps c r = Inr ((ref, c'), r')"
  shows "lgrow caps c c' \<and> ref_ok c' ref"
proof -
  obtain n r1 where h: "readArrayHeader r = Inr (n, r1)" using assms by (auto simp: decodeOptions_def rbind_Inr_iff)
  then have n: "read_elems (unat n) (decodeOption caps) c r1 = Inr (c', r')"
    "ref = \<lparr> lr_offset = of_nat (length (bc_labelPool c)), lr_count = ucast n \<rparr>" "unat n \<le> 255"
    using assms by (auto simp: decodeOptions_def on_Inr split: if_splits)
  have "lgrow caps c c' \<and> length (bc_labelPool c') = length (bc_labelPool c) + unat n"
    by (rule read_elems_steps [OF n(1), where P = "\<lambda>i x. lgrow caps c x \<and> length (bc_labelPool x) = length (bc_labelPool c) + i"])
      (auto simp: lgrow_refl decodeOption_def rbind_Inr_iff pooled_Inr dest!: poolAddLabel_grow intro: lgrow_trans)
  moreover have "unat (ucast n :: u8) = unat n" using n(3) by (simp add: unsigned_ucast_eq take_bit_nat_eq_self)
  ultimately show ?thesis unfolding n(2) by (auto intro!: ref_ok_pushed)
qed

lemma decodeBits_grow:
  assumes "decodeBits caps c r = Inr ((ref, c'), r')"
  shows "lgrow caps c c' \<and> ref_ok c' ref"
proof -
  obtain n r1 where h: "readMapHeader r = Inr (n, r1)" using assms by (auto simp: decodeBits_def rbind_Inr_iff)
  then obtain m where m: "read_pairs (unat n) (decodeBit_key caps) (0, c) r1 = Inr (m, r')"
      "(ref, c') = (case m of (k, c') \<Rightarrow> (\<lparr> lr_offset = of_nat (length (bc_labelPool c)), lr_count = of_nat k \<rparr>, c'))"
    using assms by (auto simp: decodeBits_def on_Inr split: if_splits)
  obtain k where n: "read_pairs (unat n) (decodeBit_key caps) (0, c) r1 = Inr ((k, c'), r')"
    "ref = \<lparr> lr_offset = of_nat (length (bc_labelPool c)), lr_count = of_nat k \<rparr>"
    using m by (cases m) simp
  let ?P = "\<lambda>(i :: nat) (k, x). lgrow caps c x \<and> length (bc_labelPool x) = length (bc_labelPool c) + k"
  have "?P (unat n) (k, c')"
  proof (rule read_pairs_steps [OF n(1), where P = ?P])
    fix i key m r m' r' assume h: "decodeBit_key caps key m r = Inr (m', r')" and p: "?P i m"
    obtain f x where m: "m = (f, x)" by (cases m)
    obtain v x1 x2 where s: "fillTo caps (unat key - f) x = (True, x1)" "poolAddLabel caps v watch x1 = (True, x2)"
        "m' = (max f (unat key) + 1, x2)"
      using h by (auto simp: decodeBit_key_def m rbind_Inr_iff pooled_Inr split: if_splits)
    show "?P (Suc i) m'"
      using p fillTo_grow [OF s(1)] poolAddLabel_grow [OF s(2)] by (auto simp: m s(3) intro: lgrow_trans)
  qed (simp add: lgrow_refl)
  then show ?thesis unfolding n(2) by (auto intro!: ref_ok_pushed [where k = k] unat_of_nat_le)
qed

lemma poolSetLabelAccess_grow: "poolSetLabelAccess i a c = (True, c') \<Longrightarrow> lgrow caps c c'"
  by (auto simp: poolSetLabelAccess_def cat_fail_def lgrow_def split: if_splits)

lemma decodeOptionAccess_grow:
  assumes "decodeOptionAccess ref c r = Inr (c', r')"
  shows "lgrow caps c c'"
proof -
  obtain n r1 k where n: "read_elems n (decodeOptionAccess_elem (lr_offset ref)) (0, c) r1 = Inr ((k, c'), r')"
    using assms by (auto simp: decodeOptionAccess_def rbind_Inr_iff on_Inr split: if_splits)
  let ?P = "\<lambda>(i :: nat) (m :: nat \<times> BasicCatalog). lgrow caps c (snd m)"
  have "?P n (k, c')"
  proof (rule read_elems_steps [OF n, where P = ?P])
    fix i m r m' r' assume h: "decodeOptionAccess_elem (lr_offset ref) m r = Inr (m', r')" and p: "?P i m"
    obtain a x where m: "m = (a, x)" by (cases m)
    obtain v b where vb: "(case poolSetLabelAccess (unat (lr_offset ref + of_nat a)) v x of
        (False, _) \<Rightarrow> Inl Malformed | (True, c) \<Rightarrow> Inr ((a + 1, c), b)) = Inr (m', r')"
      using h by (auto simp: decodeOptionAccess_elem_def m rbind_Inr_iff)
    obtain ok x1 where o: "poolSetLabelAccess (unat (lr_offset ref + of_nat a)) v x = (ok, x1)" by fastforce
    then have "ok" "m' = (a + 1, x1)" using vb by (cases ok; simp)+
    then show "?P (Suc i) m'" using p o poolSetLabelAccess_grow m by (auto intro: lgrow_trans)
  qed (simp add: lgrow_refl)
  then show ?thesis by simp
qed

section \<open>Fields\<close>

lemma decodeLayoutField_safe:
  assumes "decodeLayoutField caps c r = Inr ((f, c'), r')"
  shows "lgrow caps c c' \<and> ref_ok c' (lf_bits f) \<and> ref_ok c' (lf_options f)"
proof -
  let ?P = "\<lambda>l. lgrow caps c (ll_cat l) \<and> ref_ok (ll_cat l) (lf_bits (ll_f l)) \<and> ref_ok (ll_cat l) (lf_options (ll_f l))"
  obtain l r1 where l: "decode_map (decodeLayoutField_key caps) \<lparr> ll_f = LayoutField_new, ll_cat = c, ll_gotName = False,
      ll_gotType = False, ll_gotUnit = False, ll_gotScale = False \<rparr> r = Inr (l, r1)" "f = ll_f l" "c' = ll_cat l"
    using assms by (auto simp: decodeLayoutField_def rbind_Inr_iff split: if_splits)
  have "?P l"
  proof (rule decode_map_invariant [OF l(1), where P = ?P])
    fix k m r m' r' assume h: "decodeLayoutField_key caps k m r = Inr (m', r')" and p: "?P m"
    show "?P m'"
      using h p unfolding decodeLayoutField_key_def Let_def
      by (auto simp: on_Inr if_distribR dest!: decodeBits_grow decodeOptions_grow skip_unknown_invariant
          intro: lgrow_trans ref_ok_grow split: if_splits)
  qed (simp add: lgrow_refl LayoutField_new_def)
  then show ?thesis using l by simp
qed

lemma decodeSchemaField_safe:
  assumes "decodeSchemaField caps c key r = Inr ((f, c'), r')"
  shows "lgrow caps c c' \<and> ref_ok c' (sf_options f)"
proof -
  let ?P = "\<lambda>l. lgrow caps c (sl_cat l) \<and> ref_ok (sl_cat l) (sf_options (sl_f l))"
  obtain l r1 where l: "decode_map (decodeSchemaField_key caps) \<lparr> sl_f = SchemaField_new \<lparr> sf_key := key \<rparr>, sl_cat = c,
      sl_gotName = False, sl_gotType = False, sl_gotUnit = False \<rparr> r = Inr (l, r1)" "f = sl_f l" "c' = sl_cat l"
    using assms by (auto simp: decodeSchemaField_def rbind_Inr_iff split: if_splits)
  have "?P l"
  proof (rule decode_map_invariant [OF l(1), where P = ?P])
    fix k m r m' r' assume h: "decodeSchemaField_key caps k m r = Inr (m', r')" and p: "?P m"
    show "?P m'"
      using h p unfolding decodeSchemaField_key_def Let_def
      by (auto simp: on_Inr if_distribR dest!: decodeOptions_grow decodeOptionAccess_grow [where caps = caps] skip_unknown_invariant
          intro: lgrow_trans ref_ok_grow split: if_splits)
  qed (simp add: lgrow_refl SchemaField_new_def)
  then show ?thesis using l by simp
qed

section \<open>Entries\<close>

text \<open>The pools are within their capacities and every label reference of a field in them resolves.\<close>

definition pools_ok :: "CatalogCaps \<Rightarrow> BasicCatalog \<Rightarrow> bool" where
  "pools_ok caps c \<longleftrightarrow> length (bc_layoutPool c) \<le> cap_layout caps \<and> length (bc_schemaPool c) \<le> cap_schema caps \<and>
     length (bc_storePool c) \<le> cap_stores caps \<and> length (bc_labelPool c) \<le> cap_labels caps \<and>
     (\<forall>f \<in> set (bc_layoutPool c). ref_ok c (lf_bits f) \<and> ref_ok c (lf_options f)) \<and>
     (\<forall>f \<in> set (bc_schemaPool c). ref_ok c (sf_options f))"

text \<open>What decoding adds: the pools grow, by \<open>i\<close>, \<open>j\<close> and \<open>k\<close> payloads, and the entries stay.\<close>

definition adds :: "CatalogCaps \<Rightarrow> nat \<Rightarrow> nat \<Rightarrow> nat \<Rightarrow> BasicCatalog \<Rightarrow> BasicCatalog \<Rightarrow> bool" where
  "adds caps i j k c c' \<longleftrightarrow> pools_ok caps c' \<and> bc_entries c' = bc_entries c \<and>
     length (bc_layoutPool c') = length (bc_layoutPool c) + i \<and> length (bc_schemaPool c') = length (bc_schemaPool c) + j \<and>
     length (bc_storePool c') = length (bc_storePool c) + k"

lemma adds_refl: "pools_ok caps c \<Longrightarrow> adds caps 0 0 0 c c"
  by (simp add: adds_def)

lemma adds_trans: "adds caps i j k a b \<Longrightarrow> adds caps i' j' k' b c \<Longrightarrow> adds caps (i + i') (j + j') (k + k') a c"
  by (simp add: adds_def)

lemma adds_lgrow: "pools_ok caps c \<Longrightarrow> lgrow caps c c' \<Longrightarrow> adds caps 0 0 0 c c'"
  using ref_ok_grow [of caps c c'] by (auto simp: adds_def pools_ok_def lgrow_def)

lemma decodeLayout_elem_adds:
  assumes "decodeLayout_elem caps c r = Inr (c', r')" and "pools_ok caps c"
  shows "adds caps 1 0 0 c c'"
proof -
  obtain f c1 r1 where f: "decodeLayoutField caps c r = Inr ((f, c1), r1)" "poolAddLayoutField caps f c1 = (True, c')"
    using assms(1) by (auto simp: decodeLayout_elem_def rbind_Inr_iff pooled_Inr)
  note s = decodeLayoutField_safe [OF f(1)]
  have a: "adds caps 0 0 0 c c1" using s assms(2) adds_lgrow by blast
  have "ref_ok c' x = ref_ok c1 x" for x using f(2) by (auto simp: poolAddLayoutField_def cat_fail_def ref_ok_def split: if_splits)
  then show ?thesis using a f(2) s
    by (auto simp: adds_def pools_ok_def poolAddLayoutField_def cat_fail_def split: if_splits)
qed

lemma decodeSchema_key_adds:
  assumes "decodeSchema_key caps k c r = Inr (c', r')" and "pools_ok caps c"
  shows "adds caps 0 1 0 c c'"
proof -
  obtain f c1 r1 where f: "decodeSchemaField caps c (ucast k) r = Inr ((f, c1), r1)" "poolAddSchemaField caps f c1 = (True, c')"
    using assms(1) by (auto simp: decodeSchema_key_def rbind_Inr_iff pooled_Inr split: if_splits)
  note s = decodeSchemaField_safe [OF f(1)]
  have a: "adds caps 0 0 0 c c1" using s assms(2) adds_lgrow by blast
  have "ref_ok c' x = ref_ok c1 x" for x using f(2) by (auto simp: poolAddSchemaField_def cat_fail_def ref_ok_def split: if_splits)
  then show ?thesis using a f(2) s
    by (auto simp: adds_def pools_ok_def poolAddSchemaField_def cat_fail_def split: if_splits)
qed

text \<open>The invariant of the loop over the pairs of an entry that started with the catalog \<open>c0\<close>.\<close>

definition entry_inv :: "CatalogCaps \<Rightarrow> BasicCatalog \<Rightarrow> EntryLocals \<Rightarrow> bool" where
  "entry_inv caps c0 l \<longleftrightarrow> (\<exists>i j k. adds caps i j k c0 (el_cat l) \<and>
     (el_gotLayout l \<or> el_gotSchema l \<or> el_gotStore l \<longrightarrow> 1 \<le> unat (ce_fieldCount (el_e l)) \<and> unat (ce_fieldCount (el_e l)) \<le> kMaxFields) \<and>
     (el_gotLayout l \<longrightarrow> \<not> el_gotSchema l \<and> \<not> el_gotStore l \<and> field_end (el_e l) \<le> length (bc_layoutPool (el_cat l))) \<and>
     (el_gotSchema l \<longrightarrow> \<not> el_gotStore l \<and> field_end (el_e l) \<le> length (bc_schemaPool (el_cat l))) \<and>
     (el_gotStore l \<longrightarrow> ce_fieldCount (el_e l) = 1 \<and> field_end (el_e l) \<le> length (bc_storePool (el_cat l))))"

lemma u8_count: "unat (n :: u32) \<le> 64 \<Longrightarrow> unat (ucast n :: u8) = unat n"
  by (simp add: unsigned_ucast_eq take_bit_nat_eq_self)

lemma count_pos: "(n :: u32) \<noteq> 0 \<Longrightarrow> 1 \<le> unat n"
  by (simp add: Suc_leI unat_gt_0)

lemma decodeLayout_inv:
  assumes "decodeLayout caps c0 l r = Inr (l', r')" and "entry_inv caps c0 l"
  shows "entry_inv caps c0 l'"
proof -
  obtain i j k where a: "adds caps i j k c0 (el_cat l)" using assms(2) by (auto simp: entry_inv_def)
  have got: "\<not> el_gotSchema l" "\<not> el_gotStore l" using assms(1) by (auto simp: decodeLayout_def split: if_splits)
  then obtain n r1 where h: "readArrayHeader r = Inr (n, r1)" using assms(1) by (auto simp: decodeLayout_def rbind_Inr_iff)
  then obtain c where n: "read_elems (unat n) (decodeLayout_elem caps) (el_cat l) r1 = Inr (c, r')" "n \<noteq> 0" "unat n \<le> 64"
      "l' = l \<lparr> el_e := (el_e l) \<lparr> ce_fieldOffset := of_nat (length (bc_layoutPool c0)), ce_fieldCount := ucast n \<rparr>, el_cat := c, el_gotLayout := True \<rparr>"
    using assms(1) got by (auto simp: decodeLayout_def on_Inr split: if_splits)
  have "adds caps (i + unat n) j k c0 c"
    by (rule read_elems_steps [OF n(1), where P = "\<lambda>m x. adds caps (i + m) j k c0 x"])
      (use a in \<open>auto dest!: decodeLayout_elem_adds simp: adds_def\<close>)
  moreover have "field_end (el_e l') \<le> length (bc_layoutPool c0) + unat n"
    using unat_of_nat_le(2) [of "length (bc_layoutPool c0)"] u8_count [OF n(3)] by (simp add: n(4) field_end_def)
  ultimately show ?thesis
    unfolding entry_inv_def using n(2,3) got count_pos [OF n(2)] u8_count [OF n(3)]
    by (intro exI [of _ "i + unat n"] exI [of _ j] exI [of _ k]) (auto simp: n(4) adds_def)
qed

lemma decodeSchema_inv:
  assumes "decodeSchema caps c0 l r = Inr (l', r')" and "entry_inv caps c0 l"
  shows "entry_inv caps c0 l'"
proof -
  obtain i j k where a: "adds caps i j k c0 (el_cat l)" using assms(2) by (auto simp: entry_inv_def)
  have got: "\<not> el_gotLayout l" "\<not> el_gotStore l" using assms(1) by (auto simp: decodeSchema_def split: if_splits)
  then obtain n r1 where h: "readMapHeader r = Inr (n, r1)" using assms(1) by (auto simp: decodeSchema_def rbind_Inr_iff)
  then obtain c where n: "read_pairs (unat n) (decodeSchema_key caps) (el_cat l) r1 = Inr (c, r')" "n \<noteq> 0" "unat n \<le> 64"
      "l' = l \<lparr> el_e := (el_e l) \<lparr> ce_fieldOffset := of_nat (length (bc_schemaPool c0)), ce_fieldCount := ucast n \<rparr>, el_cat := c, el_gotSchema := True \<rparr>"
    using assms(1) got by (auto simp: decodeSchema_def on_Inr split: if_splits)
  have "adds caps i (j + unat n) k c0 c"
    by (rule read_pairs_steps [OF n(1), where P = "\<lambda>m x. adds caps i (j + m) k c0 x"])
      (use a in \<open>auto dest!: decodeSchema_key_adds simp: adds_def\<close>)
  moreover have "field_end (el_e l') \<le> length (bc_schemaPool c0) + unat n"
    using unat_of_nat_le(2) [of "length (bc_schemaPool c0)"] u8_count [OF n(3)] by (simp add: n(4) field_end_def)
  ultimately show ?thesis
    unfolding entry_inv_def using n(2,3) got count_pos [OF n(2)] u8_count [OF n(3)]
    by (intro exI [of _ i] exI [of _ "j + unat n"] exI [of _ k]) (auto simp: n(4) adds_def)
qed

lemma decodeStore_inv:
  assumes "decodeStore caps c0 l r = Inr (l', r')" and "entry_inv caps c0 l"
  shows "entry_inv caps c0 l'"
proof -
  obtain i j k where a: "adds caps i j k c0 (el_cat l)" using assms(2) by (auto simp: entry_inv_def)
  have got: "\<not> el_gotLayout l" "\<not> el_gotSchema l" using assms(1) by (auto simp: decodeStore_def split: if_splits)
  then obtain d c where n: "poolAddStore caps d (el_cat l) = (True, c)"
      "l' = l \<lparr> el_e := (el_e l) \<lparr> ce_fieldOffset := of_nat (length (bc_storePool c0)), ce_fieldCount := 1 \<rparr>, el_cat := c, el_gotStore := True \<rparr>"
    using assms(1) by (auto simp: decodeStore_def rbind_Inr_iff on_Inr pooled_Inr)
  have "ref_ok c x = ref_ok (el_cat l) x" for x using n(1) by (auto simp: poolAddStore_def cat_fail_def ref_ok_def split: if_splits)
  then have "adds caps i j (k + 1) c0 c" using a n(1) by (auto simp: adds_def pools_ok_def poolAddStore_def cat_fail_def split: if_splits)
  then show ?thesis
    unfolding entry_inv_def using got unat_of_nat_le(2) [of "length (bc_storePool c0)"]
    by (intro exI [of _ i] exI [of _ j] exI [of _ "k + 1"]) (auto simp: n(2) adds_def field_end_def)
qed

lemma decodeEntry_key_inv:
  assumes "cat_decodeEntry_key caps c0 k l r = Inr (l', r')" and "entry_inv caps c0 l"
  shows "entry_inv caps c0 l'"
  using assms unfolding cat_decodeEntry_key_def Let_def
  by (auto simp: on_Inr if_distribR split: if_splits dest: decodeLayout_inv decodeSchema_inv decodeStore_inv skip_unknown_invariant)
    (auto simp: entry_inv_def field_end_def)

lemma payload_resolves_iff:
  assumes "1 \<le> unat (ce_fieldCount e)" and "ce_form e = FF_Store \<Longrightarrow> ce_fieldCount e = 1"
  shows "payload_resolves c e \<longleftrightarrow> field_end e \<le> pool_len c (ce_form e)"
  using assms by (cases "ce_form e") (auto simp: payload_resolves_def layoutFields_def schemaFields_def storeDescriptor_def field_end_def pool_len_def)

text \<open>An entry as the decoder leaves it.\<close>

definition entry_safe :: "BasicCatalog \<Rightarrow> CatalogEntry \<Rightarrow> bool" where
  "entry_safe c e \<longleftrightarrow> payload_resolves c e \<and> 1 \<le> unat (ce_fieldCount e) \<and> unat (ce_fieldCount e) \<le> kMaxFields \<and>
     (ce_form e = FF_Store \<longrightarrow> ce_fieldCount e = 1)"

lemma decodeEntry_safe:
  assumes "cat_decodeEntry caps c r = Inr ((e, c'), r')" and "pools_ok caps c"
  shows "\<exists>i j k. adds caps i j k c c'" and "entry_safe c' e"
proof -
  obtain l r1 where l: "decode_map (cat_decodeEntry_key caps c) (EntryLocals_new c) r = Inr (l, r1)" "e = el_e l" "c' = el_cat l"
      "case ce_form (el_e l) of FF_Layout \<Rightarrow> el_gotLayout l | FF_Schema \<Rightarrow> el_gotSchema l | FF_Store \<Rightarrow> el_gotStore l"
    using assms(1) by (auto simp: cat_decodeEntry_def rbind_Inr_iff split: if_splits)
  have start: "entry_inv caps c (EntryLocals_new c)"
    using adds_refl [OF assms(2)] by (auto simp: entry_inv_def EntryLocals_new_def)
  have inv: "entry_inv caps c l"
    by (rule decode_map_invariant [OF l(1), where P = "entry_inv caps c", OF start decodeEntry_key_inv])
  then show "\<exists>i j k. adds caps i j k c c'" by (auto simp: entry_inv_def l)
  have "1 \<le> unat (ce_fieldCount e) \<and> unat (ce_fieldCount e) \<le> kMaxFields \<and> field_end e \<le> pool_len c' (ce_form e) \<and>
      (ce_form e = FF_Store \<longrightarrow> ce_fieldCount e = 1)"
    using inv l(4) unfolding l(2,3) by (cases "ce_form (el_e l)") (auto simp: entry_inv_def pool_len_def)
  then show "entry_safe c' e" using payload_resolves_iff [of e c'] by (auto simp: entry_safe_def)
qed

section \<open>Catalogs\<close>

lemma entry_safe_grow:
  assumes "entry_safe c e" and "adds caps i j k c c'"
  shows "entry_safe c' e"
proof -
  have "pool_len c ff \<le> pool_len c' ff" for ff using assms(2) by (cases ff) (auto simp: adds_def pool_len_def)
  then show ?thesis
    using assms(1) payload_resolves_iff [of e c] payload_resolves_iff [of e c'] by (auto simp: entry_safe_def intro: order_trans)
qed

lemma entry_safe_entries: "entry_safe (c \<lparr> bc_entries := es \<rparr>) e = entry_safe c e"
  by (cases "ce_form e") (simp_all add: entry_safe_def payload_resolves_def layoutFields_def schemaFields_def storeDescriptor_def)

definition catalog_safe :: "CatalogCaps \<Rightarrow> BasicCatalog \<Rightarrow> bool" where
  "catalog_safe caps c \<longleftrightarrow> length (bc_entries c) \<le> cap_entries caps \<and> sorted_wrt (<) (map ce_id (bc_entries c)) \<and>
     pools_ok caps c \<and> (\<forall>e \<in> set (bc_entries c). entry_safe c e)"

lemma catalog_safe_append:
  assumes "catalog_safe caps c" and "adds caps i j k c c'" and "entry_safe c' e"
    and "length (bc_entries c) < cap_entries caps" and "\<forall>x \<in> set (bc_entries c). ce_id x < ce_id e"
  shows "catalog_safe caps (c' \<lparr> bc_entries := bc_entries c' @ [e] \<rparr>)"
  using assms entry_safe_grow [OF _ assms(2)]
  by (auto simp: catalog_safe_def adds_def pools_ok_def entry_safe_entries sorted_wrt_append)

lemma decodeEntries_safe:
  assumes "decodeEntries caps inp n pos prev c = Inr c'" and "catalog_safe caps c"
    and "\<forall>x \<in> set (bc_entries c). \<exists>p. prev = Some p \<and> ce_id x \<le> p"
  shows "catalog_safe caps c'"
  using assms
proof (induction n arbitrary: pos prev c)
  case (Suc n)
  obtain e c1 r where d: "cat_decodeEntry caps c (CborReader_new (take (if length inp - pos < 4096 then length inp - pos else 4096) (drop pos inp))) = Inr ((e, c1), r)"
    and fresh: "\<not> (case prev of None \<Rightarrow> False | Some p \<Rightarrow> ce_id e \<le> p)"
    and rest: "(case addEntryVerbatim caps e c1 of (False, _) \<Rightarrow> Inl CapacityExceeded
        | (True, c) \<Rightarrow> decodeEntries caps inp n (pos + rd_pos r) (Some (ce_id e)) c) = Inr c'"
    using Suc.prems(1) by (auto simp: Let_def rbind_Inr_iff split: if_splits)
  obtain i j k where a: "adds caps i j k c c1" and s: "entry_safe c1 e"
    using decodeEntry_safe [OF d] Suc.prems(2) by (auto simp: catalog_safe_def)
  have len: "length (bc_entries c1) < cap_entries caps"
    using rest by (auto simp: addEntryVerbatim_def cat_fail_def split: if_splits)
  then have go: "decodeEntries caps inp n (pos + rd_pos r) (Some (ce_id e)) (c1 \<lparr> bc_entries := bc_entries c1 @ [e] \<rparr>) = Inr c'"
    using rest by (simp add: addEntryVerbatim_def)
  have lt: "\<forall>x \<in> set (bc_entries c). ce_id x < ce_id e"
    using Suc.prems(3) fresh by (fastforce split: option.splits)
  have same: "bc_entries c1 = bc_entries c" using a by (simp add: adds_def)
  have "catalog_safe caps (c1 \<lparr> bc_entries := bc_entries c1 @ [e] \<rparr>)"
    by (rule catalog_safe_append [OF Suc.prems(2) a s _ lt]) (use len same in simp)
  then show ?case
    by (rule Suc.IH [OF go]) (use lt same in \<open>auto intro: less_imp_le\<close>)
qed simp

text \<open>(C13) No input breaks the catalog. Whatever bytes arrive, a catalog that \<^verbatim>\<open>decodeCatalog\<close> accepts is within every
  capacity of the receiver, its ids ascend, each entry has between 1 and 64 payload fields, all of them inside the pool of its form, and
  every label reference of every field lies inside the label pool.\<close>

theorem decoded_catalog_safe:
  assumes "decodeCatalog caps inp c0 = Inr c"
  shows "length (bc_entries c) \<le> cap_entries caps \<and> length (bc_layoutPool c) \<le> cap_layout caps \<and>
    length (bc_schemaPool c) \<le> cap_schema caps \<and> length (bc_storePool c) \<le> cap_stores caps \<and> length (bc_labelPool c) \<le> cap_labels caps \<and>
    sorted_wrt (<) (map ce_id (bc_entries c)) \<and>
    (\<forall>e \<in> set (bc_entries c). payload_resolves c e \<and> 1 \<le> unat (ce_fieldCount e) \<and> unat (ce_fieldCount e) \<le> 64) \<and>
    (\<forall>f \<in> set (bc_layoutPool c). ref_ok c (lf_bits f) \<and> ref_ok c (lf_options f)) \<and>
    (\<forall>f \<in> set (bc_schemaPool c). ref_ok c (sf_options f))"
proof -
  have start: "catalog_safe caps (cat_clear c0)" by (simp add: catalog_safe_def cat_clear_def pools_ok_def)
  obtain n pos where dec: "decodeEntries caps inp n pos None (cat_clear c0) = Inr c"
    using assms by (auto simp: decodeCatalog_def rbind_Inr_iff split: if_splits)
  have "catalog_safe caps c" by (rule decodeEntries_safe [OF dec start]) (simp add: cat_clear_def)
  then show ?thesis by (simp add: catalog_safe_def pools_ok_def entry_safe_def)
qed

theorem decoded_catalog_safe_witness:
  "\<exists>c. decodeCatalog Catalog32_caps (encodeCatalog (travel_demo travel_fields) 256) BasicCatalog_new = Inr c \<and>
    length (bc_labelPool c) \<le> 192 \<and> (\<forall>e \<in> set (bc_entries c). payload_resolves c e)"
proof -
  obtain c where "decodeCatalog Catalog32_caps (encodeCatalog (travel_demo travel_fields) 256) BasicCatalog_new = Inr c"
    using encoded_decodes [OF travel_demo_ok(1) travel_demo_encodes, of "[]" BasicCatalog_new] by auto
  then show ?thesis using decoded_catalog_safe by (fastforce simp: Catalog32_caps_def)
qed

text \<open>An entry to which no field was added is written, and no receiver accepts what was written.\<close>

definition empty_demo :: BasicCatalog where
  "empty_demo = BasicCatalog_new \<lparr> bc_entries := [CatalogEntry_new \<lparr> ce_id := 256, ce_name := [0x78] \<rparr>] \<rparr>"

lemma empty_image:
  "encodeCatalog empty_demo 64 =
    [0x81, 0xA8, 1, 0x19, 1, 0, 2, 0x61, 0x78, 3, 0, 4, 0, 5, 0, 6, 0xFA, 0, 0, 0, 0, 7, 1, 8, 0x80]"
proof -
  have view: "map (eview empty_demo) (bc_entries empty_demo) = [(CatalogEntry_new \<lparr> ce_id := 256, ce_name := [0x78] \<rparr>, [], [], None)]"
    by (simp add: empty_demo_def eview_def layoutFields_def schemaFields_def storeDescriptor_def header_of_def ce_form_def news)
  have w: "\<forall>e \<in> set (bc_entries empty_demo). entry_writable empty_demo e"
    by (simp add: empty_demo_def entry_writable_def payload_resolves_def layoutFields_def schemaFields_def ce_form_def news)
  show ?thesis using encodeCatalog_image [OF w, of 64] unfolding view
    by (simp add: empty_demo_def catalog_image_def entry_image_def entry_kvs_def opt1_def when1_def cnum_def ce_form_def news
        head_bytes_alt head_nbytes_def head_ai_def be_bytes_2 be_bytes_4)
qed

lemma empty_entry_unreadable:
  "encodeCatalog empty_demo 64 \<noteq> [] \<and>
   decodeCatalog Catalog32_caps (encodeCatalog empty_demo 64) BasicCatalog_new = Inl Malformed"
proof -
  have "decodeCatalog Catalog32_caps
      [0x81, 0xA8, 1, 0x19, 1, 0, 2, 0x61, 0x78, 3, 0, 4, 0, 5, 0, 6, 0xFA, 0, 0, 0, 0, 7, 1, 8, 0x80]
      BasicCatalog_new = Inl Malformed"
    by code_simp
  then show ?thesis by (simp add: empty_image)
qed

end
