(* ===== verification/Catalog_Builtin.thy ===== *)
theory Catalog_Builtin
  imports Catalog_Safe Hub_Dispatch
begin

text \<open>
  The channels the library declares itself: \<^verbatim>\<open>channel/trust_channels.hpp\<close>, \<^verbatim>\<open>channel/safety_events_channel.hpp\<close>, the log
  channel of \<^verbatim>\<open>channel/log_channel.hpp\<close>, and the frozen fixture \<^verbatim>\<open>conformance/mini_catalog.hpp\<close>.
  \<^item> A string literal is \<open>cstr\<close> of its characters; a designated initialiser is an update of the default record.
  \<^item> The builders ignore the result of a field call and look at \<^verbatim>\<open>overflow\<close> at the end; so does \<open>addFields\<close>.
  Shown here: a builder that reports success has appended exactly its entry, the administration channel needs the highest
  role for every intent, and the fixture has the image length and the etag the conformance suite pins.
\<close>

section \<open>Definitions: builders\<close>

definition cstr :: "string \<Rightarrow> bytes" where
  "cstr s = map of_char s"

definition addFields :: "CatalogCaps \<Rightarrow> cat_op list \<Rightarrow> BasicCatalog \<Rightarrow> BasicCatalog" where
  "addFields caps ops c = foldl (\<lambda>c op. snd (cat_step caps op c)) c ops"

definition declareChannel :: "CatalogEntry \<Rightarrow> cat_op list \<Rightarrow> BasicCatalog \<Rightarrow> bool \<times> BasicCatalog" where
  "declareChannel e ops c =
    (case addEntry Catalog32_caps e c of
       (False, c) \<Rightarrow> (False, c)
     | (True, c) \<Rightarrow> let c = addFields Catalog32_caps ops c in (\<not> bc_overflow c, c))"

abbreviation (input) f32_one :: u32 where "f32_one \<equiv> 0x3F800000"
abbreviation (input) f32_two :: u32 where "f32_two \<equiv> 0x40000000"
abbreviation (input) f32_five :: u32 where "f32_five \<equiv> 0x40A00000"

definition entry_of :: "u16 \<Rightarrow> string \<Rightarrow> ChannelClass \<Rightarrow> Direction \<Rightarrow> AccessLevel \<Rightarrow> u32 \<Rightarrow> Priority \<Rightarrow> CatalogEntry" where
  "entry_of i name cls dir acc rate prio = CatalogEntry_new \<lparr> ce_id := i, ce_name := cstr name, ce_cls := cls, ce_dir := dir,
     ce_access := acc, ce_maxRateHz := rate, ce_defaultPriority := prio \<rparr>"

definition layout_of :: "string \<Rightarrow> PackedFieldType \<Rightarrow> string \<Rightarrow> u32 \<Rightarrow> LayoutField" where
  "layout_of name t u scale = LayoutField_new \<lparr> lf_name := cstr name, lf_type := t, lf_unit := cstr u, lf_scale := scale \<rparr>"

definition schema_of :: "u8 \<Rightarrow> string \<Rightarrow> CborFieldType \<Rightarrow> string \<Rightarrow> SchemaField" where
  "schema_of k name t u = SchemaField_new \<lparr> sf_key := k, sf_name := cstr name, sf_type := t, sf_unit := cstr u \<rparr>"

definition sessionAdminFields :: "cat_op list" where
  "sessionAdminFields =
    [OpSelectSchema (schema_of 1 ''op'' CF_uint '''')
       [cstr ''reserved'', cstr ''evict'', cstr ''pair_approve'', cstr ''pair_deny'', cstr ''revoke'']
       [configure, configure, configure, configure, configure],
     OpSchema (schema_of 2 ''session_id'' CF_uint ''''),
     OpSchema (schema_of 3 ''instance_id'' CF_bstr ''''),
     OpSchema (schema_of 4 ''role'' CF_uint '''' \<lparr> sf_min := Some 0, sf_max := Some f32_two \<rparr>)]"

definition addSessionAdminChannel :: "u32 \<Rightarrow> BasicCatalog \<Rightarrow> bool \<times> BasicCatalog" where
  "addSessionAdminChannel maxRateHz = declareChannel (entry_of ch_session_admin ''session-admin'' CC_INTENT c2h configure maxRateHz normal) sessionAdminFields"

definition pendingSlotFields :: "string \<Rightarrow> cat_op list" where
  "pendingSlotFields i =
    [OpLayout (layout_of (''inst_lo'' @ i) PF_u32 '''' f32_one), OpLayout (layout_of (''inst_hi'' @ i) PF_u32 '''' f32_one),
     OpLayout (layout_of (''kind'' @ i) PF_u8 ''flag'' f32_one), OpLayout (layout_of (''expires_s'' @ i) PF_u16 ''s'' f32_one),
     OpLayout (layout_of (''name'' @ i) PF_str16 '''' f32_one)]"

definition pendingPairingFields :: "cat_op list" where
  "pendingPairingFields =
    ([OpLayout (layout_of ''generation'' PF_u16 ''count'' f32_one), OpLayout (layout_of ''count'' PF_u8 ''count'' f32_one),
      OpBitfield (layout_of ''flags'' PF_bitfield8 ''flag'' f32_one) [cstr ''window_open'']] @
     concat (map pendingSlotFields [''0'', ''1'', ''2'', ''3'']))"

definition addPendingPairingChannel :: "BasicCatalog \<Rightarrow> bool \<times> BasicCatalog" where
  "addPendingPairingChannel = declareChannel (entry_of ch_pending_pairing ''pending-pairing'' CC_STATE h2c configure 0 normal) pendingPairingFields"

definition pairingEventsFields :: "cat_op list" where
  "pairingEventsFields =
    [OpSchema (schema_of 1 ''instance_id'' CF_bstr ''''), OpSchema (schema_of 2 ''name'' CF_tstr ''''),
     OpSchema (schema_of 3 ''mode'' CF_uint ''flag''), OpSchema (schema_of 4 ''role'' CF_uint ''''),
     OpSchema (schema_of 5 ''version'' CF_tstr '''')]"

definition addPairingEventsChannel :: "BasicCatalog \<Rightarrow> bool \<times> BasicCatalog" where
  "addPairingEventsChannel = declareChannel (entry_of ch_pairing_events ''pairing-events'' CC_EVENT h2c watch 0 normal) pairingEventsFields"

definition pairedStoreFields :: "u8 \<Rightarrow> cat_op list" where
  "pairedStoreFields storeId =
    [OpStore \<lparr> sd_storeId = storeId, sd_kind = cstr ''trust.ledger'', sd_capacity = of_nat paired_devices_max,
       sd_perItemMax = of_nat (1900 div paired_devices_max), sd_nameMax = 16 \<rparr>]"

definition addPairedDevicesStore :: "u8 \<Rightarrow> BasicCatalog \<Rightarrow> bool \<times> BasicCatalog" where
  "addPairedDevicesStore storeId = declareChannel (entry_of ch_paired_devices ''paired-devices'' CC_STORE h2c configure 0 background) (pairedStoreFields storeId)"

definition pairedRosterFields :: "cat_op list" where
  "pairedRosterFields =
    [OpLayout (layout_of ''generation'' PF_u16 ''count'' f32_one), OpLayout (layout_of ''count'' PF_u8 ''count'' f32_one),
     OpLayout (layout_of ''capacity'' PF_u8 ''count'' f32_one)]"

definition addPairedDevicesRoster :: "BasicCatalog \<Rightarrow> bool \<times> BasicCatalog" where
  "addPairedDevicesRoster = declareChannel (entry_of ch_paired_devices_roster ''paired-devices-roster'' CC_STATE h2c configure 0 background) pairedRosterFields"

definition andThen :: "(BasicCatalog \<Rightarrow> bool \<times> BasicCatalog) \<Rightarrow> (BasicCatalog \<Rightarrow> bool \<times> BasicCatalog) \<Rightarrow> BasicCatalog \<Rightarrow> bool \<times> BasicCatalog" where
  "andThen f g c = (case f c of (False, c) \<Rightarrow> (False, c) | (True, c) \<Rightarrow> g c)"

definition addTrustChannels :: "u8 \<Rightarrow> BasicCatalog \<Rightarrow> bool \<times> BasicCatalog" where
  "addTrustChannels storeId =
    andThen (addSessionAdminChannel f32_five) (andThen addPendingPairingChannel (andThen addPairingEventsChannel
      (andThen (addPairedDevicesStore storeId) addPairedDevicesRoster)))"

definition addSafetyEventsChannel :: "BasicCatalog \<Rightarrow> bool \<times> BasicCatalog" where
  "addSafetyEventsChannel = declareChannel
    (entry_of ch_safety_events ''safety-events'' CC_EVENT h2c watch 0 critical)
    [OpSchema (schema_of 1 ''word'' CF_uint ''flag''), OpSchema (schema_of 2 ''cause'' CF_uint ''''),
     OpSchema (schema_of 3 ''owner_session'' CF_uint ''''), OpSchema (schema_of 4 ''estop_seq'' CF_uint ''count''),
     OpSchema (schema_of 5 ''level'' CF_uint ''flag'')]"

definition addLogChannel :: "u16 \<Rightarrow> BasicCatalog \<Rightarrow> bool \<times> BasicCatalog" where
  "addLogChannel replayDepth = declareChannel
    (entry_of ch_log ''log'' CC_EVENT h2c watch 0 background \<lparr> ce_replayDepth := if replayDepth > 0 then Some replayDepth else None \<rparr>)
    [OpSchema (schema_of 1 ''level'' CF_uint ''''), OpSchema (schema_of 2 ''tag'' CF_tstr ''''),
     OpSchema (schema_of 3 ''hub_ms'' CF_uint ''ms''), OpSchema (schema_of 4 ''message'' CF_tstr '''')]"

section \<open>Definitions: the conformance fixture\<close>

definition mini_ops :: "cat_op list" where
  "mini_ops =
    [OpEntry (entry_of 0x0003 ''safety'' CC_STATE h2c watch 0 critical),
     OpBitfield (layout_of ''word'' PF_bitfield8 ''flag'' f32_one) [cstr ''estop'', cstr ''stop'', cstr ''hold'', cstr ''pause''],
     OpLayout (layout_of ''cause'' PF_u8 '''' f32_one),
     OpLayout (layout_of ''owner_session'' PF_u32 '''' f32_one),
     OpLayout (layout_of ''estop_seq'' PF_u16 ''count'' f32_one),
     OpBitfield (layout_of ''modes'' PF_bitfield8 ''flag'' f32_one) [cstr ''override'', cstr ''bypass''],

     OpEntry (entry_of 0x0080 ''position'' CC_STREAM h2c watch 0x43700000 elevated),
     OpLayout (layout_of ''pos_10um'' PF_u16 ''mm'' 0x42C80000),
     OpLayout (layout_of ''tgt_10um'' PF_u16 ''mm'' 0x42C80000),
     OpLayout (layout_of ''raw_10um'' PF_u16 ''mm'' 0x42C80000),

     OpEntry (entry_of 0x0082 ''motion-status'' CC_STATE h2c watch 0x41200000 normal),
     OpBitfield (layout_of ''flags'' PF_bitfield8 ''flag'' f32_one)
       [cstr ''homed'', cstr ''homing'', cstr ''gen_running'', cstr ''paused'', cstr ''override''],
     OpLayout (layout_of ''reserved'' PF_u8 '''' f32_one),

     OpEntry (entry_of 0x0084 ''motion-config-set'' CC_INTENT c2h control 0x41200000 critical),
     OpSchema (schema_of 1 ''speed'' CF_f32 ''mm/s'' \<lparr> sf_min := Some 0, sf_max := Some 0x44160000 \<rparr>),
     OpSchema (schema_of 2 ''depth_pct'' CF_uint ''%'' \<lparr> sf_min := Some 0, sf_max := Some 0x42C80000 \<rparr>),
     OpSchema (schema_of 3 ''label'' CF_tstr ''''),
     OpSchema (schema_of 4 ''enable'' CF_bool ''''),

     OpEntry (entry_of 0x008A ''anomalies'' CC_EVENT h2c watch 0 normal),
     OpSchema (schema_of 1 ''kind'' CF_uint ''''),
     OpSchema (schema_of 2 ''t_dev'' CF_uint ''ms''),
     OpSchema (schema_of 3 ''delta'' CF_int ''mm''),
     OpSchema (schema_of 4 ''blob'' CF_bstr ''''),

     OpEntry (entry_of 0x0090 ''diag'' CC_STATE h2c watch f32_two background),
     OpLayout (layout_of ''d_i8'' PF_i8 ''degC'' f32_one),
     OpLayout (layout_of ''d_i16'' PF_i16 ''mm/s'' 0x41200000 \<lparr> lf_min := Some 0xC4160000, lf_max := Some 0x44160000 \<rparr>),
     OpLayout (layout_of ''d_i32'' PF_i32 ''count'' f32_one),
     OpLayout (layout_of ''d_u32'' PF_u32 ''count'' f32_one),
     OpLayout (layout_of ''d_f32'' PF_f32 ''mm/s2'' f32_one)]"

definition buildMiniCatalog :: "CatalogCaps \<Rightarrow> BasicCatalog \<Rightarrow> bool \<times> BasicCatalog" where
  "buildMiniCatalog caps c = (let c = addFields caps mini_ops (cat_clear c) in (\<not> bc_overflow c, c))"

section \<open>A builder that succeeds\<close>

text \<open>\<^verbatim>\<open>overflow\<close> is sticky, and every call that fails sets it.\<close>

fun op_local :: "cat_op \<Rightarrow> bool" where
  "op_local (OpCopy _ _) = False"
| "op_local _ = True"

lemma addLabels_overflow: "addLabels caps ls c = (ok, c') \<Longrightarrow> bc_overflow c' \<longleftrightarrow> \<not> ok \<or> bc_overflow c"
  by (induction caps ls c rule: addLabels.induct) (auto simp: poolAddLabel_def cat_fail_def split: if_splits)

lemma internLabels_overflow: "internLabels caps inp n c = (r, c') \<Longrightarrow> bc_overflow c' \<longleftrightarrow> r = None \<or> bc_overflow c"
  by (auto simp: internLabels_def Let_def cat_fail_def split: if_splits prod.splits bool.splits dest: addLabels_overflow)

lemma setAccesses_overflow: "bc_overflow c \<Longrightarrow> bc_overflow (setAccesses off as c)"
proof -
  have "bc_overflow c \<Longrightarrow> bc_overflow (foldl (\<lambda>c i. snd (poolSetLabelAccess (off + i) (as ! i) c)) c xs)" for xs
    by (induction xs arbitrary: c) (auto simp: poolSetLabelAccess_def cat_fail_def)
  then show "bc_overflow c \<Longrightarrow> ?thesis" by (simp add: setAccesses_def)
qed

lemma addField_overflow:
  "addLayoutField caps f c = (ok, c') \<Longrightarrow> \<not> bc_overflow c' \<Longrightarrow> ok \<and> \<not> bc_overflow c"
  "addSchemaField caps g c = (ok, c') \<Longrightarrow> \<not> bc_overflow c' \<Longrightarrow> ok \<and> \<not> bc_overflow c"
  by (auto simp: addLayoutField_def addSchemaField_def cat_fail_def Let_def split: if_splits)

lemma cat_step_overflow:
  assumes "cat_step caps op c = (ok, c')" and "\<not> bc_overflow c'" and "op_local op"
  shows "ok \<and> \<not> bc_overflow c"
proof (cases op)
  case (OpSelectSchema f options acc)
  then show ?thesis using assms
    by (auto simp: addSelectSchemaField_def checkOptionLabels_def cat_fail_def split: if_splits option.splits prod.splits
        dest!: addField_overflow internLabels_overflow dest: setAccesses_overflow)
qed (use assms in \<open>auto simp: addEntry_def addBitfieldField_def addSelectField_def addStoreDescriptor_def checkOptionLabels_def
    cat_fail_def Let_def split: if_splits option.splits prod.splits dest!: addField_overflow internLabels_overflow\<close>)

lemma addFields_build:
  "\<not> bc_overflow (addFields caps ops c) \<Longrightarrow> list_all op_local ops \<Longrightarrow>
    cat_build caps ops c = (True, addFields caps ops c) \<and> \<not> bc_overflow c"
proof (induction ops arbitrary: c)
  case (Cons op ops)
  obtain ok c1 where s: "cat_step caps op c = (ok, c1)" by (cases "cat_step caps op c")
  then have "cat_build caps ops c1 = (True, addFields caps ops c1)" "\<not> bc_overflow c1"
    using Cons.IH [of c1] Cons.prems by (simp_all add: addFields_def)
  then show ?case using s cat_step_overflow [OF s] Cons.prems by (simp add: addFields_def)
qed (simp add: addFields_def)

lemma declareChannel_ok:
  assumes "cat_inv Catalog32_caps c" and "declareChannel e ops c = (True, c')" and "list_all op_plain ops" and "list_all op_local ops"
  shows "cat_inv Catalog32_caps c'" and "declared c' = foldl declare_op (declared c @ [(header_of e, [], [], None)]) ops"
proof -
  have caps: "caps_ok Catalog32_caps" by (simp add: caps_ok_def Catalog32_caps_def)
  obtain c1 where a: "addEntry Catalog32_caps e c = (True, c1)" and c': "c' = addFields Catalog32_caps ops c1" "\<not> bc_overflow c'"
    using assms(2) by (auto simp: declareChannel_def Let_def split: prod.splits bool.splits)
  note e = addEntry_ok [OF caps assms(1) a]
  show "cat_inv Catalog32_caps c'" "declared c' = foldl declare_op (declared c @ [(header_of e, [], [], None)]) ops"
    using cat_build_ok [OF caps _ e(1) assms(3), of c'] addFields_build [of Catalog32_caps ops c1] c' assms(4) unfolding e(3) by auto
qed

section \<open>The fixture\<close>

definition mini_catalog :: BasicCatalog where
  "mini_catalog = snd (buildMiniCatalog Catalog32_caps BasicCatalog_new)"

lemma mini_builds: "buildMiniCatalog Catalog32_caps c = (True, mini_catalog)"
proof -
  have "cat_clear c = cat_clear BasicCatalog_new" by (simp add: cat_clear_def BasicCatalog_new_def)
  moreover have "fst (buildMiniCatalog Catalog32_caps BasicCatalog_new)" by code_simp
  ultimately show ?thesis by (simp add: mini_catalog_def buildMiniCatalog_def Let_def prod_eq_iff)
qed

lemmas view_defs = on_last_def put_layout_def put_schema_def put_store_def trimmed_def header_of_def entry_of_def layout_of_def
  schema_of_def CatalogEntry_new_def LayoutField_new_def SchemaField_new_def

lemma mini_declares: "cat_inv Catalog32_caps mini_catalog" "declared mini_catalog = foldl declare_op [] mini_ops"
proof -
  have c: "cat_clear BasicCatalog_new = BasicCatalog_new" by (simp add: cat_clear_def BasicCatalog_new_def)
  have "\<not> bc_overflow mini_catalog" and m: "mini_catalog = addFields Catalog32_caps mini_ops BasicCatalog_new"
    using mini_builds [of BasicCatalog_new] by (auto simp: buildMiniCatalog_def Let_def c)
  moreover have "list_all op_local mini_ops" "list_all op_plain mini_ops"
    by (simp_all add: mini_ops_def plain_layout_def plain_schema_def view_defs)
  moreover have "caps_ok Catalog32_caps" by (simp add: caps_ok_def Catalog32_caps_def)
  ultimately show "cat_inv Catalog32_caps mini_catalog" "declared mini_catalog = foldl declare_op [] mini_ops"
    using addFields_build [of Catalog32_caps mini_ops BasicCatalog_new] cat_build_ok [of Catalog32_caps mini_ops BasicCatalog_new] cat_inv_new
    by (auto simp: BasicCatalog_new_def)
qed

lemma inv_resolves: "cat_inv caps c \<Longrightarrow> e \<in> set (bc_entries c) \<Longrightarrow> ce_form e \<noteq> FF_Store \<Longrightarrow> payload_resolves c e"
  by (cases "ce_form e")
    (auto simp: cat_inv_def payload_resolves_def layoutFields_def schemaFields_def field_end_def pool_len_def)

definition mini_view :: "entry_view list" where
  "mini_view = foldl declare_op [] mini_ops"

lemma mini_entries: "map ce_id (bc_entries mini_catalog) = [0x3, 0x80, 0x82, 0x84, 0x8A, 0x90]"
  "\<forall>e \<in> set (bc_entries mini_catalog). ce_form e \<noteq> FF_Store"
  by code_simp+

lemma mini_view_ok: "\<forall>v \<in> set mini_view. view_ok v" "fits Catalog32_caps BasicCatalog_new mini_view"
  by code_simp+

lemma mini_ok: "catalog_ok Catalog32_caps mini_catalog"
proof -
  have "\<forall>e \<in> set (bc_entries mini_catalog). view_ok (eview mini_catalog e)"
    using mini_view_ok(1) mini_declares(2) unfolding mini_view_def by (metis (no_types, lifting) imageI set_map)
  then show ?thesis
    using mini_view_ok(2) mini_declares mini_entries inv_resolves [OF mini_declares(1)]
    unfolding catalog_ok_def mini_view_def by (simp add: caps_ok_def Catalog32_caps_def)
qed

lemma mini_sizes: "map (\<lambda>v. length (entry_image v)) mini_view = [189, 99, 126, 125, 85, 150]"
  by (simp add: mini_view_def mini_ops_def view_defs entry_image_def entry_kvs_def layout_kvs_def schema_kvs_def opt1_def when1_def
        cnum_def sd_cbor_def length_head_bytes head_nbytes_def ce_form_def cstr_def)

lemma mini_image: "encodeCatalog mini_catalog 2048 = catalog_image mini_view" "length (catalog_image mini_view) = 775"
proof -
  have n: "length mini_view = 6" using arg_cong [OF mini_sizes, of length] by simp
  show l: "length (catalog_image mini_view) = 775"
    using arg_cong [OF mini_sizes, of sum_list] by (simp add: catalog_image_def length_head_bytes head_nbytes_def n length_concat comp_def)
  have "\<forall>v \<in> set mini_view. length (entry_image v) \<le> 4096"
  proof
    fix v assume "v \<in> set mini_view"
    then have "length (entry_image v) \<in> set (map (\<lambda>v. length (entry_image v)) mini_view)" by simp
    then show "length (entry_image v) \<le> 4096" unfolding mini_sizes by auto
  qed
  then show "encodeCatalog mini_catalog 2048 = catalog_image mini_view"
    using catalog_ok_image [OF mini_ok, of 2048] mini_declares(2) l by (simp add: mini_view_def)
qed

lemma mini_head: "take 4 (catalog_image mini_view) = [0x86, 0xA8, 1, 3]"
  by (simp add: catalog_image_def mini_view_def mini_ops_def view_defs entry_image_def entry_kvs_def layout_kvs_def schema_kvs_def opt1_def
      when1_def cnum_def sd_cbor_def head_bytes_alt head_nbytes_def head_ai_def ce_form_def cstr_def)

section \<open>The trust surface\<close>

lemma declare_op_append: "ws \<noteq> [] \<Longrightarrow> declare_op (vs @ ws) op = vs @ declare_op ws op \<and> declare_op ws op \<noteq> []"
  by (cases op) (auto simp: on_last_def butlast_append)

lemma declare_append: "ws \<noteq> [] \<Longrightarrow> foldl declare_op (vs @ ws) ops = vs @ foldl declare_op ws ops"
  by (induction ops arbitrary: ws) (simp_all add: declare_op_append)

lemma declareChannel_adds:
  assumes "declareChannel e ops c = (True, c')" and "cat_inv Catalog32_caps c" and "list_all op_plain ops" and "list_all op_local ops"
  shows "cat_inv Catalog32_caps c' \<and> declared c' = declared c @ foldl declare_op [] (OpEntry e # ops)"
  using declareChannel_ok [OF assms(2,1,3,4)] by (simp add: declare_append)

lemma andThen_True: "andThen f g c = (True, c') \<longleftrightarrow> (\<exists>c1. f c = (True, c1) \<and> g c1 = (True, c'))"
  by (auto simp: andThen_def split: prod.splits bool.splits)

lemmas plain_defs = plain_layout_def plain_schema_def view_defs pendingSlotFields_def sessionAdminFields_def pendingPairingFields_def
  pairingEventsFields_def pairedStoreFields_def pairedRosterFields_def

text \<open>(C16) The administration surface is reserved for the highest role. When \<^verbatim>\<open>addTrustChannels\<close> reports success on a well-formed catalog,
  the catalog is still well formed, nothing that was declared changed, and five entries were appended: session administration, the
  worklist of pending pairings, the ledger and its roster need \<^verbatim>\<open>configure\<close>, every operation of the administration channel too
  (the placeholder 0 included), and only the pairing events can be watched by anyone. The two states have the 112 and the 4 bytes of the
  snapshots the hub publishes for them.\<close>

theorem trust_surface_reserved:
  assumes "cat_inv Catalog32_caps c" and "addTrustChannels storeId c = (True, c')"
  shows "cat_inv Catalog32_caps c' \<and> (\<exists>vs. declared c' = declared c @ vs \<and>
    map (\<lambda>(e, _). (ce_id e, ce_cls e, ce_access e)) vs =
      [(ch_session_admin, CC_INTENT, configure), (ch_pending_pairing, CC_STATE, configure), (ch_pairing_events, CC_EVENT, watch),
       (ch_paired_devices, CC_STORE, configure), (ch_paired_devices_roster, CC_STATE, configure)] \<and>
    map (\<lambda>(_, ls, _). sum_list (map (\<lambda>l. wireSize (fst l)) ls)) vs = [0, 4 + kPendingSlots * kPendingSlotBytes, 0, 0, 4] \<and>
    concat (map (\<lambda>(_, _, ss, _). concat (map (\<lambda>(_, _, acc). acc) ss)) vs) =
      [configure, configure, configure, configure, configure])"
proof -
  obtain c1 c2 c3 c4 where b: "addSessionAdminChannel f32_five c = (True, c1)" "addPendingPairingChannel c1 = (True, c2)"
    "addPairingEventsChannel c2 = (True, c3)" "addPairedDevicesStore storeId c3 = (True, c4)" "addPairedDevicesRoster c4 = (True, c')"
    using assms(2) by (auto simp: addTrustChannels_def andThen_True)
  note 1 = declareChannel_adds [OF b(1) [unfolded addSessionAdminChannel_def] assms(1)]
  have i1: "cat_inv Catalog32_caps c1" using 1 by (simp add: plain_defs)
  note 2 = declareChannel_adds [OF b(2) [unfolded addPendingPairingChannel_def] i1]
  have i2: "cat_inv Catalog32_caps c2" using 2 by (simp add: plain_defs)
  note 3 = declareChannel_adds [OF b(3) [unfolded addPairingEventsChannel_def] i2]
  have i3: "cat_inv Catalog32_caps c3" using 3 by (simp add: plain_defs)
  note 4 = declareChannel_adds [OF b(4) [unfolded addPairedDevicesStore_def] i3]
  have i4: "cat_inv Catalog32_caps c4" using 4 by (simp add: plain_defs)
  note 5 = declareChannel_adds [OF b(5) [unfolded addPairedDevicesRoster_def] i4]
  show ?thesis using 1 2 3 4 5 by (simp add: plain_defs wireSize_def)
qed

text \<open>A builder whose calls all succeed reports success.\<close>

lemma setAccesses_keeps:
  "off + length as \<le> length (bc_labelPool c) \<Longrightarrow> bc_overflow (setAccesses off as c) = bc_overflow c"
proof -
  have "off + length as \<le> length (bc_labelPool c) \<Longrightarrow> n \<le> length as \<Longrightarrow>
      bc_overflow (foldl (\<lambda>c i. snd (poolSetLabelAccess (off + i) (as ! i) c)) c [0..<n]) = bc_overflow c \<and>
      length (bc_labelPool (foldl (\<lambda>c i. snd (poolSetLabelAccess (off + i) (as ! i) c)) c [0..<n])) = length (bc_labelPool c)" for n
    by (induction n) (auto simp: poolSetLabelAccess_def cat_fail_def)
  then show "off + length as \<le> length (bc_labelPool c) \<Longrightarrow> ?thesis" by (simp add: setAccesses_def)
qed

lemma addField_keeps:
  "addLayoutField caps f c = (True, c') \<Longrightarrow> bc_overflow c' = bc_overflow c"
  "addSchemaField caps g c = (True, c') \<Longrightarrow> bc_overflow c' = bc_overflow c"
  by (auto simp: addLayoutField_def addSchemaField_def cat_fail_def Let_def split: if_splits)

lemma cat_step_keeps:
  assumes "cat_step caps op c = (True, c')" and "op_local op" and "caps_ok caps" and "cat_inv caps c"
  shows "bc_overflow c' = bc_overflow c"
proof (cases op)
  case (OpSelectSchema f options acc)
  then obtain r c1 where i: "internLabels caps options 255 c = (Some r, c1)" and full: "[] \<notin> set options"
    and a: "addSchemaField caps (if acc = [] then f \<lparr> sf_options := r \<rparr> else f \<lparr> sf_options := r, sf_hasOptionAccess := True \<rparr>)
        (if acc = [] then c1 else setAccesses (unat (lr_offset r)) (take (unat (lr_count r)) acc) c1) = (True, c')"
    using assms(1)
    by (auto simp: addSelectSchemaField_def checkOptionLabels_def cat_fail_def list_ex_iff split: if_splits option.splits prod.splits)
  note k = internLabels_ok [OF assms(3,4) i]
  have "unat (lr_offset r) + length (take (unat (lr_count r)) acc) \<le> length (bc_labelPool c1) \<or> unat (lr_count r) = 0"
    using k(4) by (auto simp: ref_ok_def)
  then have "bc_overflow (if acc = [] then c1 else setAccesses (unat (lr_offset r)) (take (unat (lr_count r)) acc) c1) = bc_overflow c1"
    using setAccesses_keeps [of "unat (lr_offset r)" "take (unat (lr_count r)) acc" c1] by (auto simp: setAccesses_def)
  then show ?thesis using addField_keeps(2) [OF a] internLabels_overflow [OF i] by simp
qed (use assms in \<open>auto simp: addEntry_def addBitfieldField_def addSelectField_def addStoreDescriptor_def checkOptionLabels_def
    cat_fail_def Let_def split: if_splits option.splits prod.splits dest!: addField_keeps internLabels_overflow\<close>)

lemma build_addFields:
  "cat_build caps ops c = (True, c') \<Longrightarrow> list_all op_local ops \<Longrightarrow> list_all op_plain ops \<Longrightarrow> caps_ok caps \<Longrightarrow> cat_inv caps c \<Longrightarrow>
    addFields caps ops c = c' \<and> bc_overflow c' = bc_overflow c"
proof (induction ops arbitrary: c)
  case (Cons op ops)
  then obtain c1 where s: "cat_step caps op c = (True, c1)" and b: "cat_build caps ops c1 = (True, c')"
    by (auto split: prod.splits bool.splits)
  have "cat_inv caps c1" using cat_step_ok [OF Cons.prems(4,5) _ s] Cons.prems(3) by simp
  then show ?case using Cons.IH [OF b] Cons.prems s cat_step_keeps [OF s] by (simp add: addFields_def)
qed (simp add: addFields_def)

lemma build_declareChannel:
  assumes "cat_build Catalog32_caps (OpEntry e # ops) c = (True, c')" and "list_all op_local ops" and "list_all op_plain ops"
    and "cat_inv Catalog32_caps c" and "\<not> bc_overflow c"
  shows "declareChannel e ops c = (True, c') \<and> cat_inv Catalog32_caps c' \<and> \<not> bc_overflow c'"
proof -
  have caps: "caps_ok Catalog32_caps" by (simp add: caps_ok_def Catalog32_caps_def)
  obtain c1 where a: "addEntry Catalog32_caps e c = (True, c1)" and b: "cat_build Catalog32_caps ops c1 = (True, c')"
    using assms(1) by (auto split: prod.splits bool.splits)
  have i: "cat_inv Catalog32_caps c1" by (rule addEntry_ok [OF caps assms(4) a])
  have "bc_overflow c1 = bc_overflow c" using cat_step_keeps [of Catalog32_caps "OpEntry e" c c1] a caps assms(4) by simp
  then show ?thesis
    using a assms(5) build_addFields [OF b assms(2,3) caps i] cat_build_ok [OF caps b i assms(3)] by (simp add: declareChannel_def)
qed

lemma cat_build_append:
  "cat_build caps (xs @ ys) c = (True, c') \<longleftrightarrow> (\<exists>c1. cat_build caps xs c = (True, c1) \<and> cat_build caps ys c1 = (True, c'))"
  by (induction xs arbitrary: c) (auto split: prod.splits bool.splits)

definition trust_ops :: "cat_op list list" where
  "trust_ops =
    [OpEntry (entry_of ch_session_admin ''session-admin'' CC_INTENT c2h configure f32_five normal) # sessionAdminFields,
     OpEntry (entry_of ch_pending_pairing ''pending-pairing'' CC_STATE h2c configure 0 normal) # pendingPairingFields,
     OpEntry (entry_of ch_pairing_events ''pairing-events'' CC_EVENT h2c watch 0 normal) # pairingEventsFields,
     OpEntry (entry_of ch_paired_devices ''paired-devices'' CC_STORE h2c configure 0 background) # pairedStoreFields 1,
     OpEntry (entry_of ch_paired_devices_roster ''paired-devices-roster'' CC_STATE h2c configure 0 background) # pairedRosterFields]"

lemma trust_builds: "fst (cat_build Catalog32_caps (concat trust_ops) BasicCatalog_new)"
  by code_simp

lemma trust_succeeds: "\<exists>c'. addTrustChannels 1 BasicCatalog_new = (True, c')"
proof -
  let ?e1 = "entry_of ch_session_admin ''session-admin'' CC_INTENT c2h configure f32_five normal"
  let ?e2 = "entry_of ch_pending_pairing ''pending-pairing'' CC_STATE h2c configure 0 normal"
  let ?e3 = "entry_of ch_pairing_events ''pairing-events'' CC_EVENT h2c watch 0 normal"
  let ?e4 = "entry_of ch_paired_devices ''paired-devices'' CC_STORE h2c configure 0 background"
  let ?e5 = "entry_of ch_paired_devices_roster ''paired-devices-roster'' CC_STATE h2c configure 0 background"
  obtain c' where "cat_build Catalog32_caps (concat trust_ops) BasicCatalog_new = (True, c')"
    using trust_builds by (cases "cat_build Catalog32_caps (concat trust_ops) BasicCatalog_new") auto
  then obtain c1 c2 c3 c4 where b: "cat_build Catalog32_caps (OpEntry ?e1 # sessionAdminFields) BasicCatalog_new = (True, c1)"
    "cat_build Catalog32_caps (OpEntry ?e2 # pendingPairingFields) c1 = (True, c2)"
    "cat_build Catalog32_caps (OpEntry ?e3 # pairingEventsFields) c2 = (True, c3)"
    "cat_build Catalog32_caps (OpEntry ?e4 # pairedStoreFields 1) c3 = (True, c4)"
    "cat_build Catalog32_caps (OpEntry ?e5 # pairedRosterFields) c4 = (True, c')"
    unfolding trust_ops_def concat.simps append_Nil2 cat_build_append by blast
  have "\<not> bc_overflow BasicCatalog_new" by (simp add: BasicCatalog_new_def)
  then have 1: "declareChannel ?e1 sessionAdminFields BasicCatalog_new = (True, c1) \<and> cat_inv Catalog32_caps c1 \<and> \<not> bc_overflow c1"
    by (intro build_declareChannel [OF b(1)] cat_inv_new) (simp_all add: plain_defs)
  then have 2: "declareChannel ?e2 pendingPairingFields c1 = (True, c2) \<and> cat_inv Catalog32_caps c2 \<and> \<not> bc_overflow c2"
    by (intro build_declareChannel [OF b(2)]) (simp_all add: plain_defs)
  then have 3: "declareChannel ?e3 pairingEventsFields c2 = (True, c3) \<and> cat_inv Catalog32_caps c3 \<and> \<not> bc_overflow c3"
    by (intro build_declareChannel [OF b(3)]) (simp_all add: plain_defs)
  then have 4: "declareChannel ?e4 (pairedStoreFields 1) c3 = (True, c4) \<and> cat_inv Catalog32_caps c4 \<and> \<not> bc_overflow c4"
    by (intro build_declareChannel [OF b(4)]) (simp_all add: plain_defs)
  then have "declareChannel ?e5 pairedRosterFields c4 = (True, c') \<and> cat_inv Catalog32_caps c' \<and> \<not> bc_overflow c'"
    by (intro build_declareChannel [OF b(5)]) (simp_all add: plain_defs)
  then show ?thesis using 1 2 3 4
    by (auto simp: addTrustChannels_def andThen_True addSessionAdminChannel_def addPendingPairingChannel_def addPairingEventsChannel_def
        addPairedDevicesStore_def addPairedDevicesRoster_def)
qed

theorem trust_surface_reserved_witness:
  "\<exists>c'. addTrustChannels 1 BasicCatalog_new = (True, c') \<and> map ce_access (bc_entries c') = [configure, configure, watch, configure, configure]"
proof -
  obtain c' where c': "addTrustChannels 1 BasicCatalog_new = (True, c')" using trust_succeeds by blast
  from trust_surface_reserved [OF cat_inv_new c'] obtain vs where vs: "declared c' = vs"
    "map (\<lambda>(e, _). (ce_id e, ce_cls e, ce_access e)) vs =
      [(ch_session_admin, CC_INTENT, configure), (ch_pending_pairing, CC_STATE, configure), (ch_pairing_events, CC_EVENT, watch),
       (ch_paired_devices, CC_STORE, configure), (ch_paired_devices_roster, CC_STATE, configure)]"
    by (auto simp: BasicCatalog_new_def)
  have "map ce_access (bc_entries c') = map (\<lambda>t. snd (snd t)) (map (\<lambda>(e, _). (ce_id e, ce_cls e, ce_access e)) (declared c'))"
    by (simp add: eview_def header_of_def)
  then show ?thesis using c' vs by simp
qed

end
