(* ===== verification/Catalog_Check.thy ===== *)
theory Catalog_Check
  imports Catalog_Builtin
begin

text \<open>
  The conformance checker, \<^verbatim>\<open>conformance/catalog_check.hpp\<close>. A report is the list of its violations, at most 32 of them; the
  scratch span is its size, 0 for the structural check alone.
  Shown here: a catalog with a clean report is one that \<^verbatim>\<open>encodeCatalog\<close> writes, with ascending ids and states that fit the
  smallest transport; the fixture and the built-in channels have clean reports; and what the checker does not see.
\<close>

section \<open>Definitions\<close>

datatype ViolationKind = StateTooLarge | IdsNotAscending | NameTooLong | NameEmpty | WrongFieldForm | NoFields | CoreChannelMisclass
  | EntryTooLarge | CategoryLabelMissing | SettingChannelMissing

type_synonym ConformanceReport = "(ViolationKind \<times> u16) list"

abbreviation (input) kMaxViolations :: nat where "kMaxViolations \<equiv> 32"
abbreviation (input) min_transport_payload :: nat where "min_transport_payload \<equiv> 242"

definition report_add :: "ViolationKind \<Rightarrow> u16 \<Rightarrow> ConformanceReport \<Rightarrow> ConformanceReport" where
  "report_add k i r = (if length r < kMaxViolations then r @ [(k, i)] else r)"

definition report_has :: "ViolationKind \<Rightarrow> ConformanceReport \<Rightarrow> bool" where
  "report_has k r \<longleftrightarrow> list_ex (\<lambda>v. fst v = k) r"

definition report_when :: "bool \<Rightarrow> ViolationKind \<Rightarrow> u16 \<Rightarrow> ConformanceReport \<Rightarrow> ConformanceReport" where
  "report_when b k i r = (if b then report_add k i r else r)"

definition wrongForm :: "BasicCatalog \<Rightarrow> CatalogEntry \<Rightarrow> bool" where
  "wrongForm c e =
    (case ce_form e of
       FF_Layout \<Rightarrow> length (layoutFields c e) \<noteq> unat (ce_fieldCount e)
     | FF_Schema \<Rightarrow> length (schemaFields c e) \<noteq> unat (ce_fieldCount e)
     | FF_Store \<Rightarrow> ce_fieldCount e \<noteq> 1 \<or> storeDescriptor c e = None)"

text \<open>The body of the loop; \<open>prev\<close> is \<^verbatim>\<open>prevId\<close> of every entry but the first.\<close>

definition checkEntry :: "BasicCatalog \<Rightarrow> nat \<Rightarrow> u16 option \<Rightarrow> CatalogEntry \<Rightarrow> ConformanceReport \<Rightarrow> ConformanceReport" where
  "checkEntry c scratch prev e r =
    (let i = ce_id e;
         layout = layoutFields c e;
         r = report_when (case prev of None \<Rightarrow> False | Some p \<Rightarrow> i \<le> p) IdsNotAscending i r;
         r = (if ce_name e = [] then report_add NameEmpty i r else report_when (length (ce_name e) > 32) NameTooLong i r);
         r = report_when (ce_fieldCount e = 0) NoFields i r;
         r = report_when (ce_fieldCount e > 0 \<and> wrongForm c e) WrongFieldForm i r;
         r = report_when (ce_form e = FF_Layout \<and> ce_cls e = CC_STATE \<and> layoutWireSize_fields layout > min_transport_payload) StateTooLarge i r;
         r = report_when (case ce_category e of None \<Rightarrow> False | Some k \<Rightarrow> k \<ge> 0x40 \<and> k \<le> 0x7E \<and> ce_categoryLabel e = [])
               CategoryLabelMissing i r;
         r = report_when (ce_settingChannel e = None \<and> list_ex (\<lambda>f. lf_settingKey f \<noteq> None) layout) SettingChannelMissing i r;
         r = (if scratch = 0 then r
              else let n = length (w_result (cat_encodeEntry c e (CborWriter_new scratch)))
                   in report_when (n = 0 \<or> n > catalog_max_entry_bytes) EntryTooLarge i r);
         r = report_when (i = ch_safety \<and> ce_cls e \<noteq> CC_STATE) CoreChannelMisclass i r
     in report_when (i = ch_safety_intents \<and> ce_cls e \<noteq> CC_INTENT) CoreChannelMisclass i r)"

fun checkEntries :: "BasicCatalog \<Rightarrow> nat \<Rightarrow> u16 option \<Rightarrow> CatalogEntry list \<Rightarrow> ConformanceReport \<Rightarrow> ConformanceReport" where
  "checkEntries c scratch prev [] r = r"
| "checkEntries c scratch prev (e # es) r = checkEntries c scratch (Some (ce_id e)) es (checkEntry c scratch prev e r)"

definition checkCatalog :: "BasicCatalog \<Rightarrow> nat \<Rightarrow> ConformanceReport" where
  "checkCatalog c scratch = checkEntries c scratch None (bc_entries c) []"

section \<open>Writers with more room\<close>

text \<open>A call chain that succeeds in a buffer does the same in a larger one.\<close>

definition roomy :: "(CborWriter \<Rightarrow> CborWriter) \<Rightarrow> bool" where
  "roomy g \<longleftrightarrow> (\<forall>w. (w_failed w \<longrightarrow> w_failed (g w)) \<and> w_cap (g w) = w_cap w \<and>
     (\<forall>n. \<not> w_failed (g w) \<longrightarrow> g (w \<lparr> w_cap := w_cap w + n \<rparr>) = g w \<lparr> w_cap := w_cap w + n \<rparr>))"

named_theorems roomy_intros

lemma roomyI:
  assumes "\<And>w. w_failed w \<Longrightarrow> w_failed (g w)" and "\<And>w. w_cap (g w) = w_cap w"
    and "\<And>w n. \<not> w_failed (g w) \<Longrightarrow> g (w \<lparr> w_cap := w_cap w + n \<rparr>) = g w \<lparr> w_cap := w_cap w + n \<rparr>"
  shows "roomy g"
  using assms by (simp add: roomy_def)

lemma roomy_comp: "roomy f \<Longrightarrow> roomy g \<Longrightarrow> roomy (\<lambda>w. g (f w))"
  by (auto simp: roomy_def)

lemma roomy_id [roomy_intros]: "roomy (\<lambda>w. w)"
  by (simp add: roomy_def)

lemma roomy_store: "roomy (w_store bs)"
  by (rule roomyI) (auto simp: w_store_def w_ensure_def split: if_splits)

lemma roomy_consume: "roomy w_consumeOne"
  by (rule roomyI) (auto simp: w_consumeOne_def)

lemma roomy_open: "roomy (openContainer m k)"
  by (rule roomyI) (auto simp: openContainer_def split: if_splits)

lemma roomy_head: "roomy (writeHead m v)"
  unfolding writeHead_def by (rule roomy_store)

lemma roomy_values [roomy_intros]:
  "roomy (mapHeader n)" "roomy (arrayHeader n)" "roomy (uintVal v)" "roomy (intVal i)" "roomy (boolVal b)" "roomy (f32Val x)"
proof -
  show "roomy (mapHeader n)" "roomy (arrayHeader n)"
    unfolding mapHeader_def arrayHeader_def by (rule roomy_comp [OF roomy_open roomy_head])+
  show "roomy (uintVal v)" unfolding uintVal_def by (rule roomy_comp [OF roomy_head roomy_consume])
  show "roomy (intVal i)" unfolding intVal_def
    by (cases "i \<ge> 0") (simp_all add: roomy_comp [OF roomy_head roomy_consume])
  show "roomy (boolVal b)" unfolding boolVal_def writeSimple_def by (rule roomy_comp [OF roomy_store roomy_consume])
  show "roomy (f32Val x)" by (rule roomyI) (auto simp: f32Val_def w_ensure_def w_consumeOne_def split: if_splits)
qed

lemma roomy_key: "roomy (w_key k)"
proof (rule roomyI)
  fix w n assume "\<not> w_failed (w_key k w)"
  then show "w_key k (w \<lparr> w_cap := w_cap w + n \<rparr>) = w_key k w \<lparr> w_cap := w_cap w + n \<rparr>"
    by (auto simp: w_key_def writeHead_def w_store_def w_ensure_def w_consumeOne_def split: if_splits list.splits)
qed (auto simp: w_key_def writeHead_def w_store_def w_ensure_def w_consumeOne_def split: if_splits list.splits)

lemma roomy_text [roomy_intros]: "roomy (tstrVal s)"
  by (rule roomyI) (auto simp: tstrVal_def strVal_def writeHead_def w_store_def w_ensure_def w_consumeOne_def Let_def split: if_splits)

lemma roomy_kv [roomy_intros]: "roomy g \<Longrightarrow> roomy (w_kv k g)"
  unfolding w_kv_def by (rule roomy_comp [OF roomy_key])

lemma roomy_when [roomy_intros]: "roomy g \<Longrightarrow> roomy (w_when b g)"
  unfolding w_when_def by (cases b) (simp_all add: roomy_id)

lemma roomy_opt [roomy_intros]: "(\<And>y. roomy (g y)) \<Longrightarrow> roomy (w_opt x g)"
  unfolding w_opt_def by (cases x) (simp_all add: roomy_id)

lemma roomy_each [roomy_intros]: "(\<And>x. roomy (g x)) \<Longrightarrow> roomy (w_each g xs)"
  unfolding w_each_def
proof (induction xs)
  case (Cons x xs)
  then show ?case using roomy_comp [of "g x" "\<lambda>w. foldl (\<lambda>w x. g x w) w xs"] by simp
qed (simp add: roomy_id)

lemma roomy_seq_Nil [roomy_intros]: "roomy (w_seq [])"
  unfolding w_seq_def by (simp add: roomy_id)

lemma roomy_seq_Cons [roomy_intros]: "roomy g \<Longrightarrow> roomy (w_seq gs) \<Longrightarrow> roomy (w_seq (g # gs))"
  using roomy_comp [of g "w_seq gs"] unfolding w_seq_def by simp

lemma roomy_list [roomy_intros]: "(\<And>x. roomy (g x)) \<Longrightarrow> roomy (w_list g xs)"
  unfolding w_list_def by (intro roomy_intros)

lemma roomy_fields [roomy_intros]:
  "roomy (encodeSettingDefault d)" "roomy (encodeStoreDescriptor t)" "roomy (encodeBits bits)"
  "roomy (encodeLayoutField f bits options)" "roomy (encodeSchemaField g options accesses)"
proof -
  show d: "roomy (encodeSettingDefault d)" for d by (cases d) (auto simp: encodeSettingDefault_def intro: roomy_intros)
  show "roomy (encodeStoreDescriptor t)" unfolding encodeStoreDescriptor_def by (intro roomy_intros)
  show b: "roomy (encodeBits bits)" for bits unfolding encodeBits_def by (intro roomy_intros) (auto intro: roomy_intros)
  show "roomy (encodeLayoutField f bits options)" unfolding encodeLayoutField_def by (intro roomy_intros d b)
  show "roomy (encodeSchemaField g options accesses)" unfolding encodeSchemaField_def by (intro roomy_intros d)
qed

lemma roomy_entry: "roomy (cat_encodeEntry c e)"
proof -
  have "roomy (w_seq (mapHeader n # entryCalls c e))" for n
    unfolding entryCalls_def encodeLayout_def encodeSchema_def by (intro roomy_intros)
  then show ?thesis unfolding cat_encodeEntry_def Let_def by (auto intro: roomyI simp: roomy_def)
qed

lemma entry_more_room:
  assumes "w_result (cat_encodeEntry c e (CborWriter_new s)) \<noteq> []" and "s \<le> cap"
  shows "w_result (cat_encodeEntry c e (CborWriter_new cap)) = w_result (cat_encodeEntry c e (CborWriter_new s))"
proof -
  let ?w = "CborWriter_new s"
  have "\<not> w_failed (cat_encodeEntry c e ?w)" using assms(1) by (auto simp: w_result_def w_size_def)
  then have "cat_encodeEntry c e (?w \<lparr> w_cap := w_cap ?w + (cap - s) \<rparr>) = cat_encodeEntry c e ?w \<lparr> w_cap := w_cap ?w + (cap - s) \<rparr>"
    using roomy_entry [of c e] by (simp add: roomy_def)
  then show ?thesis using assms(2) by (simp add: CborWriter_new_def w_result_def w_size_def)
qed

section \<open>Clean reports\<close>

lemma report_clean [simp]: "report_add k i r \<noteq> []" "report_when b k i r = [] \<longleftrightarrow> \<not> b \<and> r = []"
  by (auto simp: report_add_def report_when_def)

text \<open>What a clean report says of one entry.\<close>

definition entry_clean :: "BasicCatalog \<Rightarrow> nat \<Rightarrow> CatalogEntry \<Rightarrow> bool" where
  "entry_clean c scratch e \<longleftrightarrow> ce_name e \<noteq> [] \<and> length (ce_name e) \<le> 32 \<and> ce_fieldCount e > 0 \<and> payload_resolves c e \<and>
     (ce_cls e = CC_STATE \<longrightarrow> layoutWireSize c e \<le> min_transport_payload) \<and>
     (scratch > 0 \<longrightarrow> w_result (cat_encodeEntry c e (CborWriter_new scratch)) \<noteq> [] \<and>
        length (w_result (cat_encodeEntry c e (CborWriter_new scratch))) \<le> catalog_max_entry_bytes)"

lemma checkEntry_clean:
  assumes "checkEntry c scratch prev e r = []"
  shows "r = []" and "entry_clean c scratch e" and "\<forall>p. prev = Some p \<longrightarrow> p < ce_id e"
proof -
  let ?n = "length (w_result (cat_encodeEntry c e (CborWriter_new scratch)))"
  have *: "r = [] \<and> \<not> (case prev of None \<Rightarrow> False | Some p \<Rightarrow> ce_id e \<le> p) \<and> ce_name e \<noteq> [] \<and> \<not> length (ce_name e) > 32 \<and>
      ce_fieldCount e \<noteq> 0 \<and> \<not> (ce_fieldCount e > 0 \<and> wrongForm c e) \<and>
      \<not> (ce_form e = FF_Layout \<and> ce_cls e = CC_STATE \<and> layoutWireSize_fields (layoutFields c e) > min_transport_payload) \<and>
      \<not> (scratch > 0 \<and> (?n = 0 \<or> ?n > catalog_max_entry_bytes))"
    using assms unfolding checkEntry_def Let_def
    by (cases "ce_name e = []"; cases "scratch = 0") (simp_all only: report_clean if_True if_False simp_thms not_gr_zero less_irrefl neq0_conv)
  then have "ce_fieldCount e > 0" by (simp add: word_neq_0_conv)
  moreover have "\<not> wrongForm c e \<Longrightarrow> payload_resolves c e"
    by (auto simp: wrongForm_def payload_resolves_def split: FieldForm.splits)
  ultimately show "entry_clean c scratch e" using * by (auto simp: entry_clean_def layoutWireSize_def ce_form_def)
  show "r = []" "\<forall>p. prev = Some p \<longrightarrow> p < ce_id e" using * by auto
qed

lemma checkEntries_clean:
  "checkEntries c scratch prev es r = [] \<Longrightarrow>
    r = [] \<and> (\<forall>e \<in> set es. entry_clean c scratch e) \<and> sorted_wrt (<) (map ce_id es) \<and> (\<forall>p. prev = Some p \<longrightarrow> (\<forall>e \<in> set es. p < ce_id e))"
proof (induction es arbitrary: prev r)
  case (Cons e es)
  then have "checkEntry c scratch prev e r = []" and *: "\<forall>x \<in> set es. entry_clean c scratch x" "sorted_wrt (<) (map ce_id es)"
    "\<forall>x \<in> set es. ce_id e < ce_id x"
    using Cons.IH [of "Some (ce_id e)" "checkEntry c scratch prev e r"] by auto
  from checkEntry_clean [OF this(1)] * show ?case by (auto intro: less_trans)
qed simp

lemma entry_clean_fields:
  assumes "entry_clean c scratch e" and "scratch > 0"
  shows "unat (ce_fieldCount e) \<le> 64"
proof (rule ccontr)
  assume "\<not> unat (ce_fieldCount e) \<le> 64"
  then have "cat_encodeEntry c e (CborWriter_new scratch) = CborWriter_new scratch"
    using assms(1) by (cases "ce_form e") (auto simp: entry_clean_def payload_resolves_def cat_encodeEntry_def storeDescriptor_def split: if_splits)
  then show False using assms by (simp add: entry_clean_def w_result_def w_size_def CborWriter_new_def)
qed

lemma encodeEntries_clean:
  assumes "\<forall>e \<in> set es. entry_clean c scratch e" and "scratch > 0" and "out \<noteq> []"
    and "length out + 4096 * length es + scratch \<le> cap"
  shows "encodeEntries c cap es out \<noteq> []"
  using assms
proof (induction es arbitrary: out)
  case (Cons e es)
  let ?n = "w_result (cat_encodeEntry c e (CborWriter_new (cap - length out)))"
  have e: "entry_clean c scratch e" using Cons.prems(1) by simp
  have n: "?n = w_result (cat_encodeEntry c e (CborWriter_new scratch))"
    using entry_more_room [of c e scratch "cap - length out"] e Cons.prems(2,4) by (simp add: entry_clean_def)
  then have "?n \<noteq> []" "length ?n \<le> 4096" using e Cons.prems(2) by (simp_all add: entry_clean_def)
  moreover have "unat (ce_fieldCount e) \<le> 64" using entry_clean_fields [OF e Cons.prems(2)] .
  moreover have "encodeEntries c cap es (out @ ?n) \<noteq> []"
    using Cons.IH [of "out @ ?n"] Cons.prems calculation by simp
  ultimately show ?case using e Cons.prems(4) by (simp add: entry_clean_def Let_def)
qed simp

text \<open>(C15) A clean report is a catalog that can be served. When the conformance checker, given a scratch buffer, finds nothing, then
  \<^verbatim>\<open>encodeCatalog\<close> does not refuse the catalog (given room for the entries at their largest), its ids ascend, every entry resolves to between
  1 and 64 fields of its form, and every state fits the smallest payload a transport has to carry.\<close>

theorem clean_catalog_encodes:
  assumes "checkCatalog c scratch = []" and "scratch > 0" and "length (bc_entries c) < 2 ^ 16"
    and "9 + 4096 * length (bc_entries c) + scratch \<le> cap"
  shows "encodeCatalog c cap \<noteq> [] \<and> sorted_wrt (<) (map ce_id (bc_entries c)) \<and>
    (\<forall>e \<in> set (bc_entries c). payload_resolves c e \<and> 0 < unat (ce_fieldCount e) \<and> unat (ce_fieldCount e) \<le> 64 \<and>
      (ce_cls e = CC_STATE \<longrightarrow> layoutWireSize c e \<le> 242))"
proof -
  have cl: "\<forall>e \<in> set (bc_entries c). entry_clean c scratch e" and asc: "sorted_wrt (<) (map ce_id (bc_entries c))"
    using checkEntries_clean [of c scratch None "bc_entries c" "[]"] assms(1) by (auto simp: checkCatalog_def)
  let ?h = "w_result (arrayHeader (of_nat (length (bc_entries c))) (CborWriter_new 9))"
  have "\<not> list_ex (\<lambda>i. ce_id (bc_entries c ! i) \<le> ce_id (bc_entries c ! (i - 1))) [1..<length (bc_entries c)]"
    using asc ascending_ids [of ce_id "bc_entries c"] by blast
  moreover have "?h = head_bytes 4 (of_nat (length (bc_entries c)))" using assms(3) by (intro arrayHeader_image) simp
  then have "?h \<noteq> []" "length ?h \<le> 9" by (simp_all add: head_bytes_alt head_nbytes_def)
  ultimately have "encodeCatalog c cap \<noteq> []"
    using encodeEntries_clean [OF cl assms(2), of ?h cap] assms(4) by (simp add: encodeCatalog_def Let_def)
  then show ?thesis
    using cl asc entry_clean_fields [OF _ assms(2)] by (auto simp: entry_clean_def word_less_nat_alt)
qed

lemma checkEntry_scratch:
  assumes "w_result (cat_encodeEntry c e (CborWriter_new scratch)) \<noteq> []"
    and "length (w_result (cat_encodeEntry c e (CborWriter_new scratch))) \<le> catalog_max_entry_bytes"
  shows "checkEntry c scratch prev e r = checkEntry c 0 prev e r"
proof -
  have "(length (w_result (cat_encodeEntry c e (CborWriter_new scratch))) = 0 \<or>
      length (w_result (cat_encodeEntry c e (CborWriter_new scratch))) > catalog_max_entry_bytes) = False"
    using assms by simp
  moreover have "report_when False k i r' = r'" for k i r' by (simp add: report_when_def)
  ultimately show ?thesis unfolding checkEntry_def Let_def by (simp only: if_cancel if_True simp_thms)
qed

lemma checkCatalog_scratch:
  assumes "checkCatalog c 0 = []" and "\<forall>e \<in> set (bc_entries c). entry_writable c e \<and> length (entry_image (eview c e)) \<le> min scratch 4096"
  shows "checkCatalog c scratch = []"
proof -
  have "checkEntry c scratch prev e r = checkEntry c 0 prev e r" if "e \<in> set (bc_entries c)" for e prev r
    using assms(2) that emits_result [OF emits_entry, of c e scratch] enc_nonempty [of "CMap (entry_kvs (eview c e))"]
    by (intro checkEntry_scratch) (auto simp: entry_image_def)
  then have "set es \<subseteq> set (bc_entries c) \<Longrightarrow> checkEntries c scratch prev es r = checkEntries c 0 prev es r" for es prev r
    by (induction es arbitrary: prev r) auto
  then show ?thesis using assms(1) by (simp add: checkCatalog_def)
qed

lemma mini_clean: "checkCatalog mini_catalog 200 = []"
proof (rule checkCatalog_scratch)
  show "checkCatalog mini_catalog 0 = []" by code_simp
  have "length (entry_image v) \<le> 200" if "v \<in> set mini_view" for v
  proof -
    have "length (entry_image v) \<in> set (map (\<lambda>v. length (entry_image v)) mini_view)" using that by simp
    then show ?thesis unfolding mini_sizes by auto
  qed
  moreover have "eview mini_catalog e \<in> set mini_view" if "e \<in> set (bc_entries mini_catalog)" for e
    using that mini_declares(2) unfolding mini_view_def by (metis imageI set_map)
  ultimately show "\<forall>e \<in> set (bc_entries mini_catalog). entry_writable mini_catalog e \<and> length (entry_image (eview mini_catalog e)) \<le> min 200 4096"
    using catalog_ok_writable [OF mini_ok] by (auto intro: order_trans)
qed

theorem clean_catalog_encodes_witness: "encodeCatalog mini_catalog 25000 \<noteq> []"
proof -
  have "length (bc_entries mini_catalog) = 6" using arg_cong [OF mini_entries(1), of length] by simp
  then show ?thesis using clean_catalog_encodes [OF mini_clean, of 25000] by simp
qed

section \<open>What the checker does not see\<close>

text \<open>The checker looks at the length of channel names, not of field names: a catalog with a field name of 25 bytes has a clean
  report and is encoded, and every receiver refuses it.\<close>

definition long_demo :: BasicCatalog where
  "long_demo = BasicCatalog_new \<lparr> bc_entries := [entry_of 0x90 ''d'' CC_STATE h2c watch 0 normal \<lparr> ce_fieldCount := 1 \<rparr>],
     bc_layoutPool := [layout_of (replicate 25 CHR ''n'') PF_u8 '''' f32_one] \<rparr>"

lemma long_view:
  "map (eview long_demo) (bc_entries long_demo) =
    [(entry_of 0x90 ''d'' CC_STATE h2c watch 0 normal, [(layout_of (replicate 25 CHR ''n'') PF_u8 '''' f32_one, [], [])], [], None)]"
  "\<forall>e \<in> set (bc_entries long_demo). entry_writable long_demo e"
  by (simp_all add: long_demo_def BasicCatalog_new_def entry_writable_def payload_resolves_def resolve_defs entry_of_def layout_of_def news)

lemma long_image:
  "encodeCatalog long_demo 128 = [0x81, 0xA8, 1, 0x18, 0x90, 2, 0x61, 0x64, 3, 0, 4, 0, 5, 0, 6, 0xFA, 0, 0, 0, 0, 7, 1, 8, 0x81,
     0xA4, 1, 0x78, 25] @ replicate 25 0x6E @ [2, 0, 3, 0x60, 4, 0xFA, 0x3F, 0x80, 0, 0]"
  using encodeCatalog_image [OF long_view(2), of 128] unfolding long_view(1)
  by (simp add: long_demo_def catalog_image_def entry_image_def entry_kvs_def layout_kvs_def opt1_def when1_def cnum_def sd_cbor_def ce_form_def
      entry_of_def layout_of_def news head_bytes_alt head_nbytes_def head_ai_def be_bytes_2 be_bytes_4 cstr_def)

lemma long_clean: "checkCatalog long_demo 128 = []"
proof (rule checkCatalog_scratch)
  show "checkCatalog long_demo 0 = []" by code_simp
  have "\<forall>v \<in> set (map (eview long_demo) (bc_entries long_demo)). length (entry_image v) \<le> 128"
    unfolding long_view(1)
    by (simp add: entry_image_def entry_kvs_def layout_kvs_def opt1_def when1_def cnum_def sd_cbor_def ce_form_def
        entry_of_def layout_of_def news length_head_bytes head_nbytes_def cstr_def)
  then show "\<forall>e \<in> set (bc_entries long_demo). entry_writable long_demo e \<and> length (entry_image (eview long_demo e)) \<le> min 128 4096"
    using long_view(2) by simp
qed

lemma clean_report_unreadable:
  "checkCatalog long_demo 128 = [] \<and> encodeCatalog long_demo 128 \<noteq> [] \<and>
   decodeCatalog Catalog32_caps (encodeCatalog long_demo 128) BasicCatalog_new = Inl Malformed"
proof -
  have "decodeCatalog Catalog32_caps ([0x81, 0xA8, 1, 0x18, 0x90, 2, 0x61, 0x64, 3, 0, 4, 0, 5, 0, 6, 0xFA, 0, 0, 0, 0, 7, 1, 8, 0x81,
     0xA4, 1, 0x78, 25] @ replicate 25 0x6E @ [2, 0, 3, 0x60, 4, 0xFA, 0x3F, 0x80, 0, 0]) BasicCatalog_new = Inl Malformed"
    by code_simp
  then show ?thesis by (simp add: long_image long_clean)
qed

end
