(* ===== verification/Packed_Layout.thy ===== *)
theory Packed_Layout
  imports Catalog Binary32 Byte_IO State_Shadow
begin

text \<open>
  The packed field codec, \<^verbatim>\<open>wire/packed/layout_codec.hpp\<close>, and \<^verbatim>\<open>appendOnlyRead\<close> of \<^verbatim>\<open>channel/state_apply.hpp\<close>.
  \<^item> A float is its binary32 pattern. The product of two floats as doubles is exact (48 of 53 bits), so \<^verbatim>\<open>lround\<close> of it rounds
    the exact product, here in units of $2^{-298}$, half away from zero.
  \<^item> What \<^verbatim>\<open>lround\<close> returns for a value that is not finite or exceeds \<^verbatim>\<open>long\<close> is unspecified: a parameter of the record \<open>RoundEnv\<close>, as
    is the width of \<^verbatim>\<open>long\<close>.
  Shown here: a payload that is decoded and encoded again is the same payload, field by field, for every integer field up to 22
  significant bits and whatever the scale; a layout that grew by appended fields is read by a client that knows a prefix of it.
\<close>

section \<open>Definitions\<close>

record RoundEnv =
  re_longBits :: nat
  re_unspecified :: "u32 \<Rightarrow> u32 \<Rightarrow> int"

definition round_away :: "nat \<Rightarrow> int \<Rightarrow> int" where
  "round_away k n = sgn n * ((2 * \<bar>n\<bar> + 2 ^ k) div 2 ^ (k + 1))"

definition f32_finite :: "u32 \<Rightarrow> bool" where
  "f32_finite x \<longleftrightarrow> f32_mag x < f32_inf_mag"

text \<open>\<^verbatim>\<open>lround\<close> (or \<^verbatim>\<open>llround\<close>, of 64 bits) of \<^verbatim>\<open>double(x) * double(s)\<close>.\<close>

definition lround_prod :: "RoundEnv \<Rightarrow> nat \<Rightarrow> u32 \<Rightarrow> u32 \<Rightarrow> int" where
  "lround_prod E bits x s =
    (let v = round_away 298 (f32_units x * f32_units s) in
     if f32_finite x \<and> f32_finite s \<and> - (2 ^ (bits - 1)) \<le> v \<and> v < 2 ^ (bits - 1) then v else re_unspecified E x s)"

definition lround_f32 :: "RoundEnv \<Rightarrow> u32 \<Rightarrow> int" where
  "lround_f32 E x =
    (let v = round_away 149 (f32_units x); bits = re_longBits E in
     if f32_finite x \<and> - (2 ^ (bits - 1)) \<le> v \<and> v < 2 ^ (bits - 1) then v else re_unspecified E x 0x3F800000)"

definition isString :: "LayoutField \<Rightarrow> bool" where
  "isString f \<longleftrightarrow> lf_type f = PF_str16 \<or> lf_type f = PF_str32 \<or> lf_type f = PF_str64"

definition packField :: "RoundEnv \<Rightarrow> LayoutField \<Rightarrow> u32 \<Rightarrow> bytes \<Rightarrow> nat \<times> bytes" where
  "packField E f physical out =
    (let n = wireSize f; lround = lround_prod E (re_longBits E) physical (lf_scale f); llround = lround_prod E 64 physical (lf_scale f) in
     if length out < n then (0, out)
     else case lf_type f of
         PF_bitfield8 \<Rightarrow> putU8 out (of_int (lround_f32 E physical))
       | PF_u8 \<Rightarrow> putU8 out (of_int lround)
       | PF_i8 \<Rightarrow> putU8 out (of_int lround)
       | PF_u16 \<Rightarrow> putU16 out (of_int lround)
       | PF_i16 \<Rightarrow> putU16 out (of_int lround)
       | PF_u32 \<Rightarrow> putU32 out (of_int llround)
       | PF_i32 \<Rightarrow> putU32 out (of_int llround)
       | PF_f32 \<Rightarrow> putF32 out (f32_mul physical (lf_scale f))
       | PF_str16 \<Rightarrow> (n, poke 0 (replicate n 0) out)
       | PF_str32 \<Rightarrow> (n, poke 0 (replicate n 0) out)
       | PF_str64 \<Rightarrow> (n, poke 0 (replicate n 0) out))"

definition packStringField :: "LayoutField \<Rightarrow> bytes \<Rightarrow> bytes \<Rightarrow> nat \<times> bytes" where
  "packStringField f text out =
    (if \<not> isString f then (0, out)
     else
       let n = wireSize f; copied = (if length text < n then length text else n) in
       if length out < n then (0, out)
       else (n, poke copied (replicate (n - copied) 0) (poke 0 (take copied text) out)))"

definition readField :: "LayoutField \<Rightarrow> bytes \<Rightarrow> u32" where
  "readField f inp =
    (case lf_type f of
       PF_bitfield8 \<Rightarrow> f32_of_int (uint (getU8 inp))
     | PF_u8 \<Rightarrow> f32_div (f32_of_int (uint (getU8 inp))) (lf_scale f)
     | PF_i8 \<Rightarrow> f32_div (f32_of_int (sint (getU8 inp))) (lf_scale f)
     | PF_u16 \<Rightarrow> f32_div (f32_of_int (uint (getU16 inp))) (lf_scale f)
     | PF_i16 \<Rightarrow> f32_div (f32_of_int (sint (getU16 inp))) (lf_scale f)
     | PF_u32 \<Rightarrow> f32_div (f32_of_int (uint (getU32 inp))) (lf_scale f)
     | PF_i32 \<Rightarrow> f32_div (f32_of_int (sint (getU32 inp))) (lf_scale f)
     | PF_f32 \<Rightarrow> f32_div (getF32 inp) (lf_scale f)
     | PF_str16 \<Rightarrow> 0
     | PF_str32 \<Rightarrow> 0
     | PF_str64 \<Rightarrow> 0)"

definition readStringField :: "LayoutField \<Rightarrow> bytes \<Rightarrow> bytes" where
  "readStringField f inp =
    (if \<not> isString f then []
     else let n = wireSize f in if length inp < n then [] else takeWhile (\<lambda>b. b \<noteq> 0) (take n inp))"

text \<open>The loop of \<^verbatim>\<open>encodeByLayout\<close>: each field is written into \<^verbatim>\<open>out.subspan(offset, f.wireSize())\<close>.\<close>

fun encodeFields :: "RoundEnv \<Rightarrow> nat \<Rightarrow> LayoutField list \<Rightarrow> u32 list \<Rightarrow> bytes \<Rightarrow> nat \<times> bytes" where
  "encodeFields E offset [] vs out = (offset, out)"
| "encodeFields E offset (f # fs) vs out =
    (let (n, bs) = packField E f (hd vs) (take (wireSize f) (drop offset out)); out = poke offset bs out in
     if n = 0 then (0, out) else encodeFields E (offset + n) fs (tl vs) out)"

definition encodeByLayout :: "RoundEnv \<Rightarrow> LayoutField list \<Rightarrow> u32 list \<Rightarrow> bytes \<Rightarrow> nat \<times> bytes" where
  "encodeByLayout E fs physicalValues out =
    (if length physicalValues < length fs then (0, out)
     else if length out < layoutWireSize_fields fs then (0, out)
     else encodeFields E 0 fs physicalValues out)"

text \<open>The loop of \<^verbatim>\<open>decodeByLayout\<close>: \<open>vals\<close> is \<^verbatim>\<open>outPhysical\<close>, which a failing call leaves partly written.\<close>

fun decodeFields :: "nat \<Rightarrow> nat \<Rightarrow> LayoutField list \<Rightarrow> bytes \<Rightarrow> u32 list \<Rightarrow> nat result \<times> u32 list" where
  "decodeFields i offset [] inp vals = (Inr offset, vals)"
| "decodeFields i offset (f # fs) inp vals =
    (let n = wireSize f in
     if offset + n > length inp then (Inl Truncated, vals)
     else decodeFields (Suc i) (offset + n) fs inp (vals[i := readField f (take n (drop offset inp))]))"

definition decodeByLayout :: "LayoutField list \<Rightarrow> bytes \<Rightarrow> u32 list \<Rightarrow> nat result \<times> u32 list" where
  "decodeByLayout fs inp vals =
    (if length vals < length fs then (Inl CapacityExceeded, vals) else decodeFields 0 0 fs inp vals)"

definition encodeByLayout_entry :: "RoundEnv \<Rightarrow> BasicCatalog \<Rightarrow> CatalogEntry \<Rightarrow> u32 list \<Rightarrow> bytes \<Rightarrow> nat \<times> bytes" where
  "encodeByLayout_entry E c e vs out = (if ce_form e \<noteq> FF_Layout then (0, out) else encodeByLayout E (layoutFields c e) vs out)"

definition decodeByLayout_entry :: "BasicCatalog \<Rightarrow> CatalogEntry \<Rightarrow> bytes \<Rightarrow> u32 list \<Rightarrow> nat result \<times> u32 list" where
  "decodeByLayout_entry c e inp vals =
    (if ce_form e \<noteq> FF_Layout then (Inl Malformed, vals) else decodeByLayout (layoutFields c e) inp vals)"

definition appendOnlyRead :: "LayoutField list \<Rightarrow> bytes \<Rightarrow> u32 list \<Rightarrow> nat result \<times> u32 list" where
  "appendOnlyRead knownLayout payload vals = decodeByLayout knownLayout payload vals"

section \<open>Rounding\<close>

lemma f32_scale_bounds: "0 \<le> q \<Longrightarrow> q div 2 ^ f32_scale q < 2 ^ 24 \<and> (f32_scale q > 0 \<longrightarrow> 2 ^ 23 \<le> q div 2 ^ f32_scale q)"
proof (induction q rule: f32_scale.induct)
  case (1 q)
  show ?case
  proof (cases "q < 2 ^ 24")
    case True
    then show ?thesis by (simp add: f32_scale.simps [of q])
  next
    case False
    then have s: "f32_scale q = Suc (f32_scale (q div 2))" by (simp add: f32_scale.simps [of q])
    have d: "q div 2 ^ Suc k = (q div 2) div 2 ^ k" for k by (simp add: zdiv_zmult2_eq)
    have "f32_scale (q div 2) = 0 \<Longrightarrow> 2 ^ 23 \<le> q div 2" using False by simp
    then show ?thesis using 1 False unfolding s d by auto
  qed
qed

text \<open>The magnitude a rounded quotient denotes, as long as it does not overflow: \<open>r * 2 ^ k\<close> units with \<open>r * (d * 2 ^ k)\<close> nearest to \<open>n\<close>.\<close>

lemma mag_units_pack:
  assumes "0 \<le> r" and "r \<le> 2 ^ 24" and "k > 0 \<longrightarrow> 2 ^ 23 \<le> r"
  shows "mag_units (int k * 2 ^ 23 + r) = r * 2 ^ k"
proof (cases "r = 2 ^ 24")
  case True
  then have "int k * 2 ^ 23 + r = (int k + 2) * 2 ^ 23" by simp
  then show ?thesis using True by (simp add: mag_units_def Let_def nat_add_distrib)
next
  case False
  show ?thesis
  proof (cases "r < 2 ^ 23")
    case True
    then show ?thesis using assms by (auto simp: mag_units_def)
  next
    case ge: False
    then obtain s where s: "r = 2 ^ 23 + s" "0 \<le> s" "s < 2 ^ 23" using assms(2) False by (intro that [of "r - 2 ^ 23"]) auto
    then have "int k * 2 ^ 23 + r = (int k + 1) * 2 ^ 23 + s" by simp
    then have "(int k * 2 ^ 23 + r) div 2 ^ 23 = int k + 1" "(int k * 2 ^ 23 + r) mod 2 ^ 23 = s" using s(2,3) by simp_all
    then show ?thesis using s(1) by (simp add: mag_units_def Let_def)
  qed
qed

lemma f32_round_near:
  assumes "0 \<le> n" and "0 < d" and "f32_round n d < f32_inf_mag"
  shows "\<exists>r k. mag_units (f32_round n d) = r * 2 ^ k \<and> 2 * \<bar>r * (d * 2 ^ k) - n\<bar> \<le> d * 2 ^ k \<and> 0 \<le> r \<and> 0 \<le> f32_round n d \<and>
    (k > 0 \<longrightarrow> 2 ^ 23 * (d * 2 ^ k) \<le> n) \<and> k = f32_scale (n div d)"
proof -
  let ?k = "f32_scale (n div d)"
  define q where "q = d * 2 ^ ?k"
  define r where "r = n div q"
  define r' where "r' = (if 2 * (n mod q) > q \<or> 2 * (n mod q) = q \<and> odd r then r + 1 else r)"
  have q: "q > 0" using assms(2) by (simp add: q_def)
  have r: "r = (n div d) div 2 ^ ?k" using assms(2) by (simp add: r_def q_def zdiv_zmult2_eq)
  have b: "r < 2 ^ 24" "?k > 0 \<longrightarrow> 2 ^ 23 \<le> r" "0 \<le> r"
    using f32_scale_bounds [of "n div d"] assms(1,2) by (auto simp: r pos_imp_zdiv_nonneg_iff)
  have m: "f32_round n d = int ?k * 2 ^ 23 + r'" using assms(3) by (auto simp: f32_round_def Let_def q_def r_def r'_def split: if_splits)
  have "mag_units (f32_round n d) = r' * 2 ^ ?k" unfolding m by (rule mag_units_pack) (use b in \<open>auto simp: r'_def\<close>)
  moreover have "n = r * q + n mod q" by (simp add: r_def)
  then have "r' * q - n = (if r' = r then - (n mod q) else q - n mod q)" by (auto simp: r'_def algebra_simps split: if_splits)
  then have "2 * \<bar>r' * q - n\<bar> \<le> q" using pos_mod_bound [OF q, of n] pos_mod_sign [OF q, of n] by (auto simp: r'_def split: if_splits)
  moreover have "2 ^ 23 * q \<le> n" if "?k > 0"
  proof -
    have "2 ^ 23 * q \<le> r * q" using b(2) that q by (intro mult_right_mono) auto
    also have "\<dots> \<le> n" using \<open>n = r * q + n mod q\<close> pos_mod_sign [of q n] q by linarith
    finally show ?thesis .
  qed
  moreover have "0 \<le> r'" "0 \<le> f32_round n d" using b(3) m by (auto simp: r'_def)
  ultimately show ?thesis unfolding q_def by (intro exI [of _ r'] exI [of _ ?k] conjI) auto
qed

lemma f32_mag_mod: "f32_mag x = uint x mod 2 ^ 31"
proof -
  have a: "x AND 0x7FFFFFFF = take_bit 31 x" by (simp add: take_bit_eq_mask mask_eq_exp_minus_1)
  show ?thesis unfolding f32_mag_def a unsigned_take_bit_eq by (rule take_bit_eq_mod)
qed

lemma f32_pack_parts:
  assumes "0 \<le> m" and "m \<le> f32_inf_mag"
  shows "f32_mag (f32_pack neg m) = m" "f32_neg (f32_pack neg m) = neg"
proof -
  have m: "uint (word_of_int m :: u32) = m" using assms by (simp add: uint_word_of_int_eq take_bit_int_eq_self)
  have t: "take_bit 31 m = m" using assms by (simp add: take_bit_int_eq_self)
  have "\<not> bit (2 ^ 31 :: int) n \<or> \<not> bit m n" for n
    using t bit_take_bit_iff [of 31 m n] by (simp only: bit_exp_iff) auto
  then have "2 ^ 31 OR m = 2 ^ 31 + m" by (simp add: disjunctive_add)
  then have s: "uint (f32_sign OR word_of_int m :: u32) = 2 ^ 31 + m" by (simp add: unsigned_or_eq m)
  show "f32_mag (f32_pack neg m) = m"
    using assms by (simp add: f32_mag_mod f32_pack_def s m)
  show "f32_neg (f32_pack neg m) = neg"
    using assms by (simp add: f32_neg_def f32_pack_def word_le_def s m)
qed

lemma f32_of_int_exact:
  assumes "\<bar>w\<bar> < 2 ^ 24"
  shows "f32_units (f32_of_int w) = w * 2 ^ 149" "mag_units (f32_mag (f32_of_int w)) = \<bar>w\<bar> * 2 ^ 149" "f32_finite (f32_of_int w)"
    "f32_neg (f32_of_int w) = (w < 0)"
proof -
  let ?n = "\<bar>w\<bar> * 2 ^ 149" and ?k = "f32_scale (\<bar>w\<bar> * 2 ^ 149)"
  have k: "?k \<le> 149"
  proof (cases "?k = 0")
    case False
    then have "2 ^ 23 \<le> ?n div 2 ^ ?k" using f32_scale_bounds [of ?n] by simp
    then have "2 ^ 23 * 2 ^ ?k \<le> (?n div 2 ^ ?k) * 2 ^ ?k" by (intro mult_right_mono) auto
    also have "\<dots> \<le> ?n" using div_mult_mod_eq [of ?n "2 ^ ?k"] pos_mod_sign [of "2 ^ ?k" ?n] by (smt (verit) zero_less_power)
    also have "\<dots> < 2 ^ 24 * 2 ^ 149" using assms by simp
    finally have "(2 :: int) ^ (23 + ?k) < 2 ^ 173" by (simp add: power_add)
    then have "23 + ?k < 173" by (rule power_less_imp_less_exp [rotated]) simp
    then show ?thesis by simp
  qed simp
  then have dv: "?n = (\<bar>w\<bar> * 2 ^ (149 - ?k)) * 2 ^ ?k" by (simp add: power_add [symmetric])
  let ?r = "\<bar>w\<bar> * 2 ^ (149 - ?k)"
  have "?n div 2 ^ ?k = ?r" "?n mod 2 ^ ?k = 0" by (subst dv, simp)+
  then have m: "f32_round ?n 1 = (let m = int ?k * 2 ^ 23 + ?r in if m \<ge> f32_inf_mag then f32_inf_mag else m)"
    by (simp add: f32_round_def Let_def)
  have r: "0 \<le> ?r" "?r \<le> 2 ^ 24" "?k > 0 \<longrightarrow> 2 ^ 23 \<le> ?r"
    using f32_scale_bounds [of ?n] \<open>?n div 2 ^ ?k = ?r\<close> by auto
  have "int ?k * 2 ^ 23 + ?r < f32_inf_mag" using k r(2) by (simp add: mult_left_mono)
  then have m': "f32_round ?n 1 = int ?k * 2 ^ 23 + ?r" "f32_round ?n 1 < f32_inf_mag" using m by auto
  then have p: "f32_mag (f32_of_int w) = f32_round ?n 1" "f32_neg (f32_of_int w) = (w < 0)"
    using r(1) f32_pack_parts [of "f32_round ?n 1" "w < 0"] by (simp_all add: f32_of_int_def)
  show u: "mag_units (f32_mag (f32_of_int w)) = \<bar>w\<bar> * 2 ^ 149"
    using p(1) m'(1) mag_units_pack [OF r] dv by simp
  show "f32_finite (f32_of_int w)" using p(1) m'(2) by (simp add: f32_finite_def)
  show "f32_neg (f32_of_int w) = (w < 0)" by (rule p(2))
  then show "f32_units (f32_of_int w) = w * 2 ^ 149" using u by (auto simp: f32_units_def)
qed

text \<open>A small integer divided by a scale and multiplied with it again rounds to itself.\<close>

lemma mag_units_bound: "0 \<le> m \<Longrightarrow> m < f32_inf_mag \<Longrightarrow> mag_units m < 2 ^ 277"
proof -
  assume m: "0 \<le> m" "m < f32_inf_mag"
  show "mag_units m < 2 ^ 277"
  proof (cases "m div 2 ^ 23 = 0")
    case True
    have "m mod 2 ^ 23 < 2 ^ 23" by simp
    then show ?thesis using True by (simp add: mag_units_def)
  next
    case False
    have e: "m div 2 ^ 23 \<le> 254" "m div 2 ^ 23 \<ge> 1" using m False by auto
    have f: "m mod 2 ^ 23 + 2 ^ 23 < 2 ^ 24" by simp
    have "(2 :: int) ^ nat (m div 2 ^ 23 - 1) \<le> 2 ^ 253" using e by (intro power_increasing) auto
    then have "(m mod 2 ^ 23 + 2 ^ 23) * 2 ^ nat (m div 2 ^ 23 - 1) < 2 ^ 24 * 2 ^ 253"
      using f by (intro mult_less_le_imp_less) auto
    then show ?thesis using False by (simp add: mag_units_def Let_def)
  qed
qed

lemma round_away_near:
  assumes "2 * \<bar>x - y * 2 ^ k\<bar> < 2 ^ k" and "0 \<le> y" and "0 \<le> x"
  shows "round_away k x = y"
proof -
  have "(2 * x + 2 ^ k) div 2 ^ (k + 1) = y"
  proof (rule int_div_pos_eq [where r = "2 * x + 2 ^ k - y * 2 ^ (k + 1)"])
  qed (use assms in \<open>auto simp: abs_if algebra_simps split: if_splits\<close>)
  then show ?thesis using assms by (cases "x = 0") (auto simp: round_away_def sgn_if abs_if split: if_splits)
qed

lemma round_away_neg: "round_away k (- x) = - round_away k x"
  by (simp add: round_away_def)

lemma f32_round_range: "0 \<le> n \<Longrightarrow> 0 < d \<Longrightarrow> 0 \<le> f32_round n d \<and> f32_round n d \<le> f32_inf_mag"
  by (auto simp: f32_round_def Let_def pos_imp_zdiv_nonneg_iff)

lemma quotient_rounds_back:
  assumes "\<bar>w\<bar> < 2 ^ 22" and "f32_finite s" and "f32_mag s \<noteq> 0" and "f32_finite (f32_div (f32_of_int w) s)"
  shows "round_away 298 (f32_units (f32_div (f32_of_int w) s) * f32_units s) = w"
proof -
  have w: "\<bar>w\<bar> < 2 ^ 24" using assms(1) by simp
  note x = f32_of_int_exact [OF w]
  let ?neg = "(w < 0) \<noteq> f32_neg s"
  define d where "d = mag_units (f32_mag s)"
  define n where "n = (\<bar>w\<bar> * 2 ^ 149) * 2 ^ 149"
  have n: "0 \<le> n" "n = \<bar>w\<bar> * 2 ^ 298" by (simp_all add: n_def)
  have "0 \<le> f32_mag s" by (simp add: f32_mag_mod)
  then have ms: "0 < f32_mag s" "f32_mag s < f32_inf_mag" using assms(2,3) by (auto simp: f32_finite_def)
  then have d: "0 < d" "d < 2 ^ 277" using mag_units_bound [of "f32_mag s"] by (auto simp: d_def mag_units_def Let_def zmod_trivial_iff)
  have q: "f32_div (f32_of_int w) s = f32_pack ?neg (f32_round n d)"
    using x assms(2,3) by (simp add: f32_div_def Let_def f32_isnan_def f32_isinf_def f32_finite_def n_def d_def)
  have rng: "0 \<le> f32_round n d" "f32_round n d \<le> f32_inf_mag" using f32_round_range [OF n(1) d(1)] by simp_all
  note p = f32_pack_parts [OF rng, of ?neg]
  have fin: "f32_round n d < f32_inf_mag" using assms(4) p(1) by (simp add: q f32_finite_def)
  obtain r k where u: "mag_units (f32_round n d) = r * 2 ^ k" and near: "2 * \<bar>r * (d * 2 ^ k) - n\<bar> \<le> d * 2 ^ k"
    and r: "0 \<le> r" and k: "k > 0 \<longrightarrow> 2 ^ 23 * (d * 2 ^ k) \<le> n"
    using f32_round_near [OF n(1) d(1) fin] by blast
  have "d * 2 ^ k < 2 ^ 298"
  proof (cases "k = 0")
    case False
    then have "2 ^ 23 * (d * 2 ^ k) \<le> n" using k by simp
    also have "\<dots> < 2 ^ 22 * 2 ^ 298" unfolding n(2) using assms(1) by (intro mult_strict_right_mono) auto
    finally show ?thesis by simp
  qed (use d in simp)
  then have "2 * \<bar>r * 2 ^ k * d - \<bar>w\<bar> * 2 ^ 298\<bar> < 2 ^ 298" using near unfolding n(2) by (simp only: ac_simps)
  then have core: "round_away 298 (r * 2 ^ k * d) = \<bar>w\<bar>" using r d(1) by (intro round_away_near) auto
  have ux: "f32_units (f32_div (f32_of_int w) s) = (if ?neg then - (r * 2 ^ k) else r * 2 ^ k)" unfolding f32_units_def q p u ..
  have us: "f32_units s = (if f32_neg s then - d else d)" by (simp add: f32_units_def d_def)
  have "f32_units (f32_div (f32_of_int w) s) * f32_units s = (if w < 0 then - (r * 2 ^ k * d) else r * 2 ^ k * d)"
    unfolding ux us by auto
  then show ?thesis using core by (auto simp: round_away_neg)
qed

section \<open>Fields\<close>

text \<open>The integer on the wire.\<close>

definition wire_int :: "LayoutField \<Rightarrow> bytes \<Rightarrow> int option" where
  "wire_int f inp =
    (case lf_type f of
       PF_bitfield8 \<Rightarrow> Some (uint (getU8 inp)) | PF_u8 \<Rightarrow> Some (uint (getU8 inp)) | PF_i8 \<Rightarrow> Some (sint (getU8 inp))
     | PF_u16 \<Rightarrow> Some (uint (getU16 inp)) | PF_i16 \<Rightarrow> Some (sint (getU16 inp))
     | PF_u32 \<Rightarrow> Some (uint (getU32 inp)) | PF_i32 \<Rightarrow> Some (sint (getU32 inp)) | _ \<Rightarrow> None)"

lemma lround_back:
  assumes "\<bar>w\<bar> < 2 ^ 22" and "f32_finite s" and "f32_mag s \<noteq> 0" and "f32_finite (f32_div (f32_of_int w) s)" and "32 \<le> bits"
  shows "lround_prod E bits (f32_div (f32_of_int w) s) s = w"
proof -
  have "(2 :: int) ^ 22 \<le> 2 ^ (bits - 1)" using assms(5) by (intro power_increasing) auto
  then show ?thesis using assms quotient_rounds_back [OF assms(1-4)] by (simp add: lround_prod_def Let_def abs_less_iff)
qed

lemma lround_f32_back: "\<bar>w\<bar> < 2 ^ 22 \<Longrightarrow> 32 \<le> re_longBits E \<Longrightarrow> lround_f32 E (f32_of_int w) = w"
proof -
  assume a: "\<bar>w\<bar> < 2 ^ 22" "32 \<le> re_longBits E"
  have x: "f32_units (f32_of_int w) = w * 2 ^ 149" "f32_finite (f32_of_int w)" using f32_of_int_exact [of w] a(1) by simp_all
  have "round_away 149 (\<bar>w\<bar> * 2 ^ 149) = \<bar>w\<bar>" by (rule round_away_near) auto
  then have "round_away 149 (w * 2 ^ 149) = w" using round_away_neg [of 149 "\<bar>w\<bar> * 2 ^ 149"] by (cases "w \<ge> 0") auto
  moreover have "(2 :: int) ^ 22 \<le> 2 ^ (re_longBits E - 1)" using a(2) by (intro power_increasing) auto
  ultimately show ?thesis using a(1) x by (simp add: lround_f32_def Let_def abs_less_iff)
qed

lemma wireSize_pos: "0 < wireSize f"
  unfolding wireSize_def by (cases "lf_type f") simp_all

lemma layoutWireSize_Cons [simp]: "layoutWireSize_fields [] = 0" "layoutWireSize_fields (f # fs) = wireSize f + layoutWireSize_fields fs"
proof -
  have "foldl (\<lambda>s f. s + wireSize f) n fs = n + sum_list (map wireSize fs)" for n fs
    by (induction fs arbitrary: n) simp_all
  then show "layoutWireSize_fields [] = 0" "layoutWireSize_fields (f # fs) = wireSize f + layoutWireSize_fields fs"
    by (simp_all add: layoutWireSize_fields_def)
qed

lemma layoutWireSize_append: "layoutWireSize_fields (fs @ gs) = layoutWireSize_fields fs + layoutWireSize_fields gs"
  by (induction fs) simp_all

text \<open>A field whose wire value comes back: an integer of at most 22 significant bits, and a scale that is a finite number, not zero, and not so
  small that the physical value overflows. Fields of 8 and 16 bits are always small enough.\<close>

definition repackable :: "LayoutField \<Rightarrow> bytes \<Rightarrow> bool" where
  "repackable f inp \<longleftrightarrow>
    (case wire_int f inp of
       None \<Rightarrow> False
     | Some w \<Rightarrow> \<bar>w\<bar> < 2 ^ 22 \<and>
         (lf_type f = PF_bitfield8 \<or> f32_finite (lf_scale f) \<and> f32_mag (lf_scale f) \<noteq> 0 \<and> f32_finite (readField f inp)))"

lemma put_whole:
  "length out = 1 \<Longrightarrow> putU8 out v = (1, [v])" "length out = 2 \<Longrightarrow> putU16 out x = (2, u16_bytes x)" "length out = 4 \<Longrightarrow> putU32 out y = (4, u32_bytes y)"
  by (auto simp: putU8_def putU16_def putU32_def u16_bytes_def u32_bytes_def list_lengths)

lemma of_sint: "(of_int (sint x) :: 'a :: len word) = x" "(of_int (uint x) :: 'a :: len word) = x" for x :: "'a :: len word"
  by simp_all

lemma pack_read_field:
  assumes "repackable f inp" and "length inp = wireSize f" and "length out = wireSize f" and "32 \<le> re_longBits E"
  shows "packField E f (readField f inp) out = (wireSize f, inp)"
proof -
  obtain w where w: "wire_int f inp = Some w" "\<bar>w\<bar> < 2 ^ 22"
    and sc: "lf_type f = PF_bitfield8 \<or> f32_finite (lf_scale f) \<and> f32_mag (lf_scale f) \<noteq> 0 \<and> f32_finite (readField f inp)"
    using assms(1) by (auto simp: repackable_def split: option.splits)
  show ?thesis
    using w sc assms(2-4)
    by (cases "lf_type f")
      (auto simp: wire_int_def packField_def readField_def wireSize_def Let_def lround_back lround_f32_back put_whole of_sint
        u16_bytes_getU16 u32_bytes_getU32 getU8_def list_lengths)
qed

section \<open>Layouts\<close>

fun readFields :: "LayoutField list \<Rightarrow> bytes \<Rightarrow> u32 list" where
  "readFields [] inp = []"
| "readFields (f # fs) inp = readField f (take (wireSize f) inp) # readFields fs (drop (wireSize f) inp)"

fun repackable_all :: "LayoutField list \<Rightarrow> bytes \<Rightarrow> bool" where
  "repackable_all [] inp \<longleftrightarrow> True"
| "repackable_all (f # fs) inp \<longleftrightarrow> repackable f (take (wireSize f) inp) \<and> repackable_all fs (drop (wireSize f) inp)"

lemma length_readFields [simp]: "length (readFields fs inp) = length fs"
  by (induction fs arbitrary: inp) simp_all

lemma readFields_append: "readFields (fs @ gs) inp = readFields fs inp @ readFields gs (drop (layoutWireSize_fields fs) inp)"
  by (induction fs arbitrary: inp) (simp_all add: add.commute)

lemma readFields_prefix: "layoutWireSize_fields fs \<le> length inp \<Longrightarrow> readFields fs (inp @ tail) = readFields fs inp"
  by (induction fs arbitrary: inp) simp_all

lemma decodeFields_ok:
  "off + layoutWireSize_fields fs \<le> length inp \<Longrightarrow> i + length fs \<le> length vals \<Longrightarrow>
    decodeFields i off fs inp vals =
      (Inr (off + layoutWireSize_fields fs), take i vals @ readFields fs (drop off inp) @ drop (i + length fs) vals)"
proof (induction fs arbitrary: i off vals)
  case (Cons f fs)
  let ?v = "readField f (take (wireSize f) (drop off inp))"
  have "take (Suc i) (vals[i := ?v]) = take i vals @ [?v]"
    using Cons.prems(2) by (simp add: take_Suc_conv_app_nth)
  then show ?case using Cons.prems Cons.IH [of "off + wireSize f" "Suc i" "vals[i := ?v]"]
    by (simp add: Let_def add.commute add.assoc)
qed simp

lemma decodeFields_short:
  "length inp < off + layoutWireSize_fields fs \<Longrightarrow> off \<le> length inp \<Longrightarrow> fst (decodeFields i off fs inp vals) = Inl Truncated"
  by (induction fs arbitrary: i off vals) (auto simp: Let_def)

lemma decodeByLayout_result:
  "decodeByLayout fs inp vals =
    (if length vals < length fs then (Inl CapacityExceeded, vals)
     else if length inp < layoutWireSize_fields fs then (Inl Truncated, snd (decodeByLayout fs inp vals))
     else (Inr (layoutWireSize_fields fs), readFields fs inp @ drop (length fs) vals))"
  using decodeFields_ok [of 0 fs inp 0 vals] decodeFields_short [of inp 0 fs 0 vals]
  by (auto simp: decodeByLayout_def prod_eq_iff)

lemma encodeFields_repack:
  assumes "32 \<le> re_longBits E"
  shows "repackable_all fs inp \<Longrightarrow> layoutWireSize_fields fs \<le> length inp \<Longrightarrow> off + layoutWireSize_fields fs \<le> length out \<Longrightarrow>
    encodeFields E off fs (readFields fs inp @ tail) out =
      (off + layoutWireSize_fields fs, poke off (take (layoutWireSize_fields fs) inp) out)"
proof (induction fs arbitrary: off inp out)
  case (Cons f fs)
  let ?n = "wireSize f" and ?m = "layoutWireSize_fields fs"
  have p: "packField E f (readField f (take ?n inp)) (take ?n (drop off out)) = (?n, take ?n inp)"
    using Cons.prems assms by (intro pack_read_field) auto
  have "encodeFields E (off + ?n) fs (readFields fs (drop ?n inp) @ tail) (poke off (take ?n inp) out) =
      (off + ?n + ?m, poke (off + ?n) (take ?m (drop ?n inp)) (poke off (take ?n inp) out))"
    using Cons.prems by (intro Cons.IH) auto
  moreover have "poke (off + ?n) (take ?m (drop ?n inp)) (poke off (take ?n inp) out) = poke off (take (?n + ?m) inp) out"
    using poke_poke_next [of off "take ?n inp" "off + ?n" out "take ?m (drop ?n inp)"] Cons.prems(2,3) by (simp add: take_add)
  ultimately show ?case using p wireSize_pos [of f] by (simp add: Let_def add.assoc)
qed simp

text \<open>(C22) Decoding and encoding again reproduces the payload. When \<^verbatim>\<open>decodeByLayout\<close> reads a payload whose fields are integers of at most 22
  significant bits (as every field of 8 and 16 bits is) with scales that are finite and do not make a physical value overflow, then
  \<^verbatim>\<open>encodeByLayout\<close> of the physical values writes the very same bytes: neither the rounding of the division by the scale, nor that of
  the integer conversion, nor \<^verbatim>\<open>lround\<close> of the product can shift a field by one, and the fields keep their places.\<close>

theorem layout_repack:
  assumes "decodeByLayout fs inp vals = (Inr n, vals')" and "repackable_all fs inp" and "32 \<le> re_longBits E" and "n \<le> length out"
  shows "encodeByLayout E fs vals' out = (n, take n inp @ drop n out)"
proof -
  have r: "n = layoutWireSize_fields fs" "vals' = readFields fs inp @ drop (length fs) vals" "layoutWireSize_fields fs \<le> length inp"
    using assms(1) by (subst (asm) decodeByLayout_result; auto split: if_splits)+
  then show ?thesis
    using encodeFields_repack [OF assms(3,2) r(3), of 0 out "drop (length fs) vals"] assms(4) by (simp add: encodeByLayout_def poke_def)
qed

text \<open>(C23) A client that knows a prefix of a layout reads its fields. When a hub has appended fields to a layout, a client that was compiled
  against the shorter one, with an output array that has room for the fields it knows (and need not have room for more), decodes the longer
  payload without an error, and gets for each field it knows the value that a reader of the whole layout gets; the rest of its array stays as it
  was. It refuses a payload that is shorter than the fields it knows as truncated.\<close>

theorem append_only_reads_prefix:
  assumes "decodeByLayout (known @ appended) payload vals = (Inr n, vals')" and "length known \<le> length own"
  shows "\<exists>n0 own'. appendOnlyRead known payload own = (Inr n0, own') \<and> n0 \<le> n \<and> take (length known) own' = take (length known) vals' \<and>
    drop (length known) own' = drop (length known) own \<and>
    (\<forall>m < n0. fst (appendOnlyRead known (take m payload) own) = Inl Truncated)"
proof -
  have r: "layoutWireSize_fields (known @ appended) \<le> length payload"
    "n = layoutWireSize_fields (known @ appended)" "vals' = readFields (known @ appended) payload @ drop (length (known @ appended)) vals"
    using assms(1) by (subst (asm) decodeByLayout_result; auto split: if_splits)+
  have "appendOnlyRead known payload own = (Inr (layoutWireSize_fields known), readFields known payload @ drop (length known) own)"
    unfolding appendOnlyRead_def using r(1) assms(2) by (subst decodeByLayout_result) (simp add: layoutWireSize_append)
  moreover have "fst (appendOnlyRead known (take m payload) own) = Inl Truncated" if "m < layoutWireSize_fields known" for m
    unfolding appendOnlyRead_def using that assms(2) by (subst decodeByLayout_result) auto
  ultimately show ?thesis using r(2,3) by (auto simp: layoutWireSize_append readFields_append)
qed

lemma string_roundtrip:
  assumes "isString f" and "wireSize f \<le> length out"
  shows "\<exists>out'. packStringField f text out = (wireSize f, out') \<and> length out' = length out \<and>
    readStringField f out' = takeWhile (\<lambda>b. b \<noteq> 0) (take (wireSize f) text)"
proof -
  let ?n = "wireSize f" and ?t = "take (wireSize f) text"
  have t: "take (if length text < ?n then length text else ?n) text = ?t" "(if length text < ?n then length text else ?n) = length ?t"
    by simp_all
  have l: "length ?t \<le> ?n" and m: "take (min (length text) ?n) text = ?t" by (simp_all add: min_def)
  have "poke (length ?t) (replicate (?n - length ?t) 0) (poke 0 ?t out) = poke 0 (?t @ replicate (?n - length ?t) 0) out"
    by (rule poke_poke_next) simp_all
  then have p: "packStringField f text out = (?n, poke 0 (?t @ replicate (?n - length ?t) 0) out)"
    using assms m unfolding packStringField_def Let_def t by simp
  have "takeWhile (\<lambda>b. b \<noteq> 0) (?t @ replicate k 0) = takeWhile (\<lambda>b. b \<noteq> 0) ?t" for k
    by (cases k) (auto simp: takeWhile_append takeWhile_eq_all_conv eq_commute [of _ "takeWhile _ _"])
  then have "readStringField f (poke 0 (?t @ replicate (?n - length ?t) 0) out) = takeWhile (\<lambda>b. b \<noteq> 0) ?t"
    using assms l by (simp add: readStringField_def poke_def del: length_take)
  then show ?thesis using p assms(2) by (auto simp: poke_def)
qed

text \<open>The sample layout of a position stream: hundredths of a millimetre in 16 bits, a flag byte, a signed temperature.\<close>

definition demo_field :: "PackedFieldType \<Rightarrow> u32 \<Rightarrow> LayoutField" where
  "demo_field t scale = \<lparr> lf_name = [120], lf_type = t, lf_unit = [], lf_scale = scale, lf_min = None, lf_max = None,
     lf_bits = LabelRef_new, lf_options = LabelRef_new, lf_dflt = SD_None, lf_group = [], lf_desc = [], lf_role = [],
     lf_step = None, lf_settingKey = None, lf_flags = 0, lf_rank = None, lf_aspect = None, lf_scope = None,
     lf_provenance = None, lf_unitId = None \<rparr>"

definition demo_fields :: "LayoutField list" where
  "demo_fields = [demo_field PF_u16 0x42C80000, demo_field PF_bitfield8 0x3F800000, demo_field PF_i8 0x3F000000]"

definition demo_env :: RoundEnv where
  "demo_env = \<lparr> re_longBits = 32, re_unspecified = (\<lambda>_ _. 0) \<rparr>"

lemma demo_decode:
  "decodeByLayout demo_fields [57, 48, 0x81, 0xF9] [0, 0, 0] = (Inr 4, [0x42F6E666, 0x43010000, 0xC1600000])"
  by code_simp

lemma demo_repackable: "repackable_all demo_fields [57, 48, 0x81, 0xF9]"
  by code_simp

theorem layout_repack_witness:
  "encodeByLayout demo_env demo_fields [0x42F6E666, 0x43010000, 0xC1600000] [0, 0, 0, 0, 7] = (4, [57, 48, 0x81, 0xF9, 7])"
  using layout_repack [OF demo_decode demo_repackable, of demo_env "[0, 0, 0, 0, 7]"] by (simp add: demo_env_def)

theorem append_only_reads_prefix_witness:
  "\<exists>n0. appendOnlyRead (take 2 demo_fields) [57, 48, 0x81, 0xF9] [0, 0] = (Inr n0, [0x42F6E666, 0x43010000])"
proof -
  have "take 2 demo_fields @ drop 2 demo_fields = demo_fields" by simp
  then have long: "decodeByLayout (take 2 demo_fields @ drop 2 demo_fields) [57, 48, 0x81, 0xF9] [0, 0, 0] = (Inr 4, [0x42F6E666, 0x43010000, 0xC1600000])"
    using demo_decode by simp
  have two: "length (take 2 demo_fields) = 2" by (simp add: demo_fields_def)
  have "length (take 2 demo_fields) \<le> length [0, 0 :: u32]" using two by simp
  from append_only_reads_prefix [OF long this] obtain n0 own' where
    d: "appendOnlyRead (take 2 demo_fields) [57, 48, 0x81, 0xF9] [0, 0] = (Inr n0, own')" "take 2 own' = [0x42F6E666, 0x43010000]" "drop 2 own' = []"
    unfolding two by (auto simp: numeral_2_eq_2)
  then have "own' = [0x42F6E666, 0x43010000]" by (metis append_Nil2 append_take_drop_id)
  with d(1) show ?thesis by blast
qed

text \<open>A physical value is a float: the wire value $2^{24} + 1$ of a 32-bit field is not reproduced.\<close>

lemma wide_field_lossy:
  "readField (demo_field PF_u32 0x3F800000) [1, 0, 0, 1] = 0x4B800000 \<and>
   packField demo_env (demo_field PF_u32 0x3F800000) 0x4B800000 [0, 0, 0, 0] = (4, [0, 0, 0, 1])"
  by code_simp

section \<open>Clients with a compiled-in catalog\<close>

text \<open>The decision of \<^verbatim>\<open>session/static_profile.hpp\<close>.\<close>

datatype StaticProfilePolicy = DegradeGracefully | RefuseLoudly

record StaticProfileDecision =
  sp_proceed :: bool
  sp_controlSuppressed :: bool

definition decideStaticProfile :: "bytes \<Rightarrow> bytes \<Rightarrow> StaticProfilePolicy \<Rightarrow> StaticProfileDecision" where
  "decideStaticProfile myEtag hubEtag policy =
    (if length myEtag = length hubEtag \<and> list_all2 (=) myEtag hubEtag then \<lparr> sp_proceed = True, sp_controlSuppressed = False \<rparr>
     else if policy = DegradeGracefully then \<lparr> sp_proceed = True, sp_controlSuppressed = True \<rparr>
     else \<lparr> sp_proceed = False, sp_controlSuppressed = False \<rparr>)"

lemma static_control_needs_match:
  "sp_proceed (decideStaticProfile mine hubs policy) \<and> \<not> sp_controlSuppressed (decideStaticProfile mine hubs policy) \<longleftrightarrow> mine = hubs"
  by (auto simp: decideStaticProfile_def list.rel_eq)

end
