(* ===== verification/Inproc_Link.thy ===== *)
theory Inproc_Link
  imports Estop Frame Serial_Arith Crypto_Core "HOL-Library.Multiset"
begin

text \<open>
  The in-process binding, \<^verbatim>\<open>transport/inprocess_binding.hpp\<close>: two directions with fault injection between two endpoints.
  \<^item> The clock is the argument \<open>now\<close> of a call; the shared random source is a state \<open>'r\<close> with its \<^verbatim>\<open>nextU32\<close> as the parameter \<open>nx\<close>.
  \<^item> The ring of 16 slots is a list, head first.
  \<^item> The signed jitter is added modulo \<open>2 ^ 32\<close>, as \<^verbatim>\<open>uint32_t(jitter)\<close> is.
  Shown here: whatever the fault profile, a link delivers only frames that were written; without faults it delivers each accepted
  frame exactly once and in order; an ESTOP frame overtakes whatever is queued.
\<close>

section \<open>Definitions\<close>

record FaultProfile =
  fp_mtu :: u16
  fp_loss_pct :: u8
  fp_dup_pct :: u8
  fp_reorder_pct :: u8
  fp_latency_us :: u32
  fp_jitter_us :: u32

definition FaultProfile_new :: FaultProfile where
  "FaultProfile_new = \<lparr> fp_mtu = 250, fp_loss_pct = 0, fp_dup_pct = 0, fp_reorder_pct = 0, fp_latency_us = 0, fp_jitter_us = 0 \<rparr>"

type_synonym FrameQueue = "(FrameBuffer \<times> u32) list"

abbreviation (input) kLinkCapacity :: nat where "kLinkCapacity \<equiv> 16"

definition fq_push_back :: "FrameBuffer \<Rightarrow> u32 \<Rightarrow> FrameQueue \<Rightarrow> bool \<times> FrameQueue" where
  "fq_push_back fb t q = (if length q \<ge> kLinkCapacity then (False, q) else (True, q @ [(fb, t)]))"

definition fq_push_front :: "FrameBuffer \<Rightarrow> u32 \<Rightarrow> FrameQueue \<Rightarrow> bool \<times> FrameQueue" where
  "fq_push_front fb t q = (if length q \<ge> kLinkCapacity then (False, q) else (True, (fb, t) # q))"

definition fq_swapLastTwo :: "FrameQueue \<Rightarrow> FrameQueue" where
  "fq_swapLastTwo q =
    (let n = length q in if n \<ge> 2 then q[n - 1 := q ! (n - 2), n - 2 := q ! (n - 1)] else q)"

definition fq_popFront :: "u32 \<Rightarrow> FrameQueue \<Rightarrow> FrameBuffer option \<times> FrameQueue" where
  "fq_popFront now q =
    (case q of
       [] \<Rightarrow> (None, [])
     | (fb, t) # q' \<Rightarrow> if \<not> timeReached now t then (None, q) else (Some fb, q'))"

definition inproc_looksLikeEstop :: "bytes \<Rightarrow> bool" where
  "inproc_looksLikeEstop frame \<longleftrightarrow> length frame = kEstopFrameBytes \<and> frame ! 0 = kEstopMagicByte \<and> frame ! 1 = kEstopMagicByte \<and>
     frame ! 2 = kEstopMagicByte \<and> frame ! 3 = kEstopMagicByte"

record LinkDir =
  ld_profile :: FaultProfile
  ld_queue :: FrameQueue

definition LinkDir_new :: LinkDir where
  "LinkDir_new = \<lparr> ld_profile = FaultProfile_new, ld_queue = [] \<rparr>"

text \<open>\<^verbatim>\<open>nextU32() % m < pct\<close>, and the jitter roll, which is drawn only if there is jitter to apply.\<close>

definition roll :: "('r \<Rightarrow> u32 \<times> 'r) \<Rightarrow> u8 \<Rightarrow> 'r \<Rightarrow> bool \<times> 'r" where
  "roll nx pct r = (let (v, r) = nx r in (v mod 100 < ucast pct, r))"

definition rollJitter :: "('r \<Rightarrow> u32 \<times> 'r) \<Rightarrow> u32 \<Rightarrow> 'r \<Rightarrow> u32 \<times> 'r" where
  "rollJitter nx jitter_us r =
    (if jitter_us > 0 then let (v, r) = nx r in (v mod (2 * jitter_us + 1) - jitter_us, r) else (0, r))"

definition dir_write :: "('r \<Rightarrow> u32 \<times> 'r) \<Rightarrow> u32 \<Rightarrow> bytes \<Rightarrow> LinkDir \<times> 'r \<Rightarrow> bool \<times> LinkDir \<times> 'r" where
  "dir_write nx now frame = (\<lambda>(d, r).
    if length frame > unat (fp_mtu (ld_profile d)) then (False, d, r)
    else
      let p = ld_profile d;
          isEstop = inproc_looksLikeEstop frame;
          (lost, r) = roll nx (fp_loss_pct p) r;
          (jitter, r) = rollJitter nx (fp_jitter_us p) r;
          (reorder, r) = roll nx (fp_reorder_pct p) r;
          (dup, r) = roll nx (fp_dup_pct p) r
      in if lost then (True, d, r)
         else
           let deliverAt = now + fp_latency_us p + jitter;
               fb = FrameBuffer_from frame;
               push = (if isEstop then fq_push_front fb deliverAt else fq_push_back fb deliverAt);
               (queued, q) = push (ld_queue d)
           in if \<not> queued then (False, d \<lparr> ld_queue := q \<rparr>, r)
              else
                let q = (if \<not> isEstop \<and> reorder then fq_swapLastTwo q else q);
                    q = (if dup then snd (push q) else q)
                in (True, d \<lparr> ld_queue := q \<rparr>, r))"

definition dir_read :: "u32 \<Rightarrow> LinkDir \<Rightarrow> FrameBuffer option \<times> LinkDir" where
  "dir_read now d = (let (fb, q) = fq_popFront now (ld_queue d) in (fb, d \<lparr> ld_queue := q \<rparr>))"

datatype CongestionSignal = QueueWatermark | AckLossRate | NotifyQueueDepth | Simulated

record TransportProperties =
  tp_mtu :: u16
  tp_ordered :: bool
  tp_reliable :: bool
  tp_congestion :: CongestionSignal

definition dir_properties :: "LinkDir \<Rightarrow> TransportProperties" where
  "dir_properties d = (let p = ld_profile d in
    \<lparr> tp_mtu = fp_mtu p, tp_ordered = (\<not> (fp_reorder_pct p > 0 \<or> fp_jitter_us p > 0)),
      tp_reliable = (fp_loss_pct p = 0 \<and> fp_dup_pct p = 0), tp_congestion = Simulated \<rparr>)"

text \<open>The link and its endpoints: \<open>EndA\<close> writes to \<^verbatim>\<open>_aToB\<close> and reads from \<^verbatim>\<open>_bToA\<close>, \<open>EndB\<close> the other way round.\<close>

datatype LinkEnd = EndA | EndB

record 'r InProcessLink =
  il_aToB :: LinkDir
  il_bToA :: LinkDir
  il_openA :: bool
  il_openB :: bool
  il_rng :: 'r

definition InProcessLink_new :: "'r \<Rightarrow> 'r InProcessLink" where
  "InProcessLink_new r = \<lparr> il_aToB = LinkDir_new, il_bToA = LinkDir_new, il_openA = False, il_openB = False, il_rng = r \<rparr>"

primrec il_out :: "LinkEnd \<Rightarrow> 'r InProcessLink \<Rightarrow> LinkDir" where
  "il_out EndA l = il_aToB l"
| "il_out EndB l = il_bToA l"

primrec il_set_out :: "LinkEnd \<Rightarrow> LinkDir \<Rightarrow> 'r InProcessLink \<Rightarrow> 'r InProcessLink" where
  "il_set_out EndA d l = l \<lparr> il_aToB := d \<rparr>"
| "il_set_out EndB d l = l \<lparr> il_bToA := d \<rparr>"

primrec il_isOpen :: "LinkEnd \<Rightarrow> 'r InProcessLink \<Rightarrow> bool" where
  "il_isOpen EndA l = il_openA l"
| "il_isOpen EndB l = il_openB l"

primrec il_setOpen :: "bool \<Rightarrow> LinkEnd \<Rightarrow> 'r InProcessLink \<Rightarrow> 'r InProcessLink" where
  "il_setOpen b EndA l = l \<lparr> il_openA := b \<rparr>"
| "il_setOpen b EndB l = l \<lparr> il_openB := b \<rparr>"

primrec other_end :: "LinkEnd \<Rightarrow> LinkEnd" where
  "other_end EndA = EndB"
| "other_end EndB = EndA"

definition ep_open :: "LinkEnd \<Rightarrow> 'r InProcessLink \<Rightarrow> bool \<times> 'r InProcessLink" where
  "ep_open e l = (True, il_setOpen True e l)"

definition ep_close :: "LinkEnd \<Rightarrow> 'r InProcessLink \<Rightarrow> 'r InProcessLink" where
  "ep_close e l = il_setOpen False e l"

definition ep_write :: "('r \<Rightarrow> u32 \<times> 'r) \<Rightarrow> LinkEnd \<Rightarrow> u32 \<Rightarrow> bytes \<Rightarrow> 'r InProcessLink \<Rightarrow> bool \<times> 'r InProcessLink" where
  "ep_write nx e now frame l =
    (if \<not> il_isOpen e l then (False, l)
     else let (ok, d, r) = dir_write nx now frame (il_out e l, il_rng l) in (ok, il_set_out e d l \<lparr> il_rng := r \<rparr>))"

definition ep_read :: "LinkEnd \<Rightarrow> u32 \<Rightarrow> 'r InProcessLink \<Rightarrow> FrameBuffer option \<times> 'r InProcessLink" where
  "ep_read e now l =
    (if \<not> il_isOpen e l then (None, l)
     else let (fb, d) = dir_read now (il_out (other_end e) l) in (fb, il_set_out (other_end e) d l))"

definition ep_properties :: "LinkEnd \<Rightarrow> 'r InProcessLink \<Rightarrow> TransportProperties" where
  "ep_properties e l = dir_properties (il_out e l)"

text \<open>\<^verbatim>\<open>profileA()\<close> and \<^verbatim>\<open>profileB()\<close> give the profile away for writing.\<close>

definition il_setProfile :: "LinkEnd \<Rightarrow> FaultProfile \<Rightarrow> 'r InProcessLink \<Rightarrow> 'r InProcessLink" where
  "il_setProfile e p l = il_set_out e (il_out e l \<lparr> ld_profile := p \<rparr>) l"

section \<open>Definitions: random sources\<close>

text \<open>\<^verbatim>\<open>XorShift32\<close> and the test double \<^verbatim>\<open>FixedSequenceRandom\<close> of \<^verbatim>\<open>core/rng.hpp\<close> as such sources; the state of the latter is \<^verbatim>\<open>_pos\<close>.\<close>

definition xs_source :: "u32 \<Rightarrow> u32 \<times> u32" where
  "xs_source s = (xs_nextU32 s, xs_nextU32 s)"

definition fs_nextByte :: "bytes \<Rightarrow> nat \<Rightarrow> u8 \<times> nat" where
  "fs_nextByte sq pos = (if sq = [] then (0, pos) else (sq ! pos, (pos + 1) mod length sq))"

fun fs_fill :: "bytes \<Rightarrow> nat \<Rightarrow> nat \<Rightarrow> bytes \<times> nat" where
  "fs_fill sq 0 pos = ([], pos)"
| "fs_fill sq (Suc n) pos = (let (b, pos) = fs_nextByte sq pos; (bs, pos) = fs_fill sq n pos in (b # bs, pos))"

definition fs_nextU32 :: "bytes \<Rightarrow> nat \<Rightarrow> u32 \<times> nat" where
  "fs_nextU32 sq pos = (let (bs, pos) = fs_fill sq 4 pos in
    (foldl (\<lambda>v i. v OR push_bit (8 * i) (ucast (bs ! i))) 0 [0..<4], pos))"

lemma fs_fill_cycles:
  "sq \<noteq> [] \<Longrightarrow> pos < length sq \<Longrightarrow>
    fs_fill sq n pos = (map (\<lambda>i. sq ! ((pos + i) mod length sq)) [0..<n], (pos + n) mod length sq)"
proof (induction n arbitrary: pos)
  case (Suc n)
  let ?p = "(pos + 1) mod length sq"
  have "?p < length sq" using Suc.prems(1) by simp
  from Suc.IH [OF Suc.prems(1) this] show ?case
    using Suc.prems by (simp add: fs_nextByte_def Let_def upt_conv_Cons mod_simps flip: map_Suc_upt del: upt_Suc)
qed simp

section \<open>Runs\<close>

text \<open>What the two sides do with a link, each call at its own clock reading; a log of the frames one end had accepted and of
  the frames the other end read.\<close>

datatype link_call = LOpen LinkEnd | LClose LinkEnd | LProfile LinkEnd FaultProfile | LWrite LinkEnd u32 bytes | LRead LinkEnd u32

record link_log =
  lg_tried :: "bytes list"
  lg_sent :: "bytes list"
  lg_got :: "bytes list"

fun link_step :: "('r \<Rightarrow> u32 \<times> 'r) \<Rightarrow> LinkEnd \<Rightarrow> link_call \<Rightarrow> 'r InProcessLink \<times> link_log \<Rightarrow> 'r InProcessLink \<times> link_log" where
  "link_step nx e (LOpen s) (l, g) = (snd (ep_open s l), g)"
| "link_step nx e (LClose s) (l, g) = (ep_close s l, g)"
| "link_step nx e (LProfile s p) (l, g) = (il_setProfile s p l, g)"
| "link_step nx e (LWrite s now frame) (l, g) =
    (let (ok, l) = ep_write nx s now frame l in
     (l, if s = e then g \<lparr> lg_tried := lg_tried g @ [frame], lg_sent := lg_sent g @ (if ok then [frame] else []) \<rparr> else g))"
| "link_step nx e (LRead s now) (l, g) =
    (let (fb, l) = ep_read s now l in
     (l, if s = other_end e then g \<lparr> lg_got := lg_got g @ (case fb of None \<Rightarrow> [] | Some b \<Rightarrow> [fb_bytes b]) \<rparr> else g))"

definition link_run :: "('r \<Rightarrow> u32 \<times> 'r) \<Rightarrow> LinkEnd \<Rightarrow> link_call list \<Rightarrow> 'r InProcessLink \<times> link_log \<Rightarrow> 'r InProcessLink \<times> link_log" where
  "link_run nx e calls s = foldl (\<lambda>s call. link_step nx e call s) s calls"

definition link_log_new :: link_log where
  "link_log_new = \<lparr> lg_tried = [], lg_sent = [], lg_got = [] \<rparr>"

section \<open>One direction\<close>

lemma fq_swap_set: "set (fq_swapLastTwo q) = set q" "length (fq_swapLastTwo q) = length q"
proof -
  show "length (fq_swapLastTwo q) = length q" by (simp add: fq_swapLastTwo_def Let_def)
  show "set (fq_swapLastTwo q) = set q"
  proof (cases "length q \<ge> 2")
    case True
    then have "mset (q[length q - 1 := q ! (length q - 2), length q - 2 := q ! (length q - 1)]) = mset q"
      by (intro mset_swap) auto
    then show ?thesis using True by (auto simp: fq_swapLastTwo_def Let_def dest: mset_eq_setD)
  qed (simp add: fq_swapLastTwo_def Let_def)
qed

lemma dir_write_queue:
  assumes "dir_write nx now frame (d, r) = (ok, d', r')"
  shows "set (ld_queue d') \<subseteq> set (ld_queue d) \<union> (if ok then {FrameBuffer_from frame} \<times> UNIV else {})"
    and "length (ld_queue d) \<le> kLinkCapacity \<Longrightarrow> length (ld_queue d') \<le> kLinkCapacity"
    and "ld_profile d' = ld_profile d"
    and "ok \<Longrightarrow> length frame \<le> unat (fp_mtu (ld_profile d))"
  using assms
  by (auto simp: dir_write_def Let_def fq_push_back_def fq_push_front_def fq_swap_set split: prod.splits if_splits)

definition faultless :: "FaultProfile \<Rightarrow> bool" where
  "faultless p \<longleftrightarrow> fp_loss_pct p = 0 \<and> fp_dup_pct p = 0 \<and> fp_reorder_pct p = 0"

lemma roll_never: "\<not> fst (roll nx 0 r)"
  by (simp add: roll_def split_beta)

lemma dir_write_faultless:
  assumes "dir_write nx now frame (d, r) = (ok, d', r')" and "faultless (ld_profile d)"
  shows "\<exists>t. ld_queue d' = (if \<not> ok then ld_queue d else if inproc_looksLikeEstop frame then (FrameBuffer_from frame, t) # ld_queue d
      else ld_queue d @ [(FrameBuffer_from frame, t)])"
proof -
  obtain r1 r2 r3 r4 j where "roll nx (fp_loss_pct (ld_profile d)) r = (False, r1)" "rollJitter nx (fp_jitter_us (ld_profile d)) r1 = (j, r2)"
    "roll nx (fp_reorder_pct (ld_profile d)) r2 = (False, r3)" "roll nx (fp_dup_pct (ld_profile d)) r3 = (False, r4)"
    using assms(2) roll_never [of nx] unfolding faultless_def by (metis (full_types) prod.collapse)
  then show ?thesis using assms(1) by (auto simp: dir_write_def Let_def fq_push_back_def fq_push_front_def split: if_splits)
qed

lemma dir_read_queue:
  assumes "dir_read now d = (fb, d')"
  shows "map fst (ld_queue d) = (case fb of None \<Rightarrow> [] | Some b \<Rightarrow> [b]) @ map fst (ld_queue d')" and "ld_profile d' = ld_profile d"
  using assms by (auto simp: dir_read_def fq_popFront_def split: list.splits if_splits prod.splits)

section \<open>Runs of a link\<close>

lemma il_simps [simp]:
  "il_out e (il_set_out e d l) = d" "il_out e (il_set_out (other_end e) d l) = il_out e l" "il_out (other_end e) (il_set_out e d l) = il_out (other_end e) l"
  "il_out e (il_setOpen b e' l) = il_out e l" "il_out e (l \<lparr> il_rng := r \<rparr>) = il_out e l"
  by (cases e; cases e'; simp)+

lemma ends_cases: "s = e \<or> s = other_end e"
  by (cases s; cases e) auto

lemma other_end_neq [simp]: "other_end e \<noteq> e" "e \<noteq> other_end e" "other_end (other_end e) = e"
  by (cases e; simp)+

text \<open>A call as it is seen by the direction from \<open>e\<close> to the other end.\<close>

inductive dir_sees :: "('r \<Rightarrow> u32 \<times> 'r) \<Rightarrow> LinkDir \<times> link_log \<Rightarrow> LinkDir \<times> link_log \<Rightarrow> bool" for nx where
  Same: "dir_sees nx (d, g) (d, g)"
| Refused: "dir_sees nx (d, g) (d, g \<lparr> lg_tried := lg_tried g @ [frame] \<rparr>)"
| Write: "dir_write nx now frame (d, r) = (ok, d', r') \<Longrightarrow>
    dir_sees nx (d, g) (d', g \<lparr> lg_tried := lg_tried g @ [frame], lg_sent := lg_sent g @ (if ok then [frame] else []) \<rparr>)"
| Read: "dir_read now d = (fb, d') \<Longrightarrow>
    dir_sees nx (d, g) (d', g \<lparr> lg_got := lg_got g @ (case fb of None \<Rightarrow> [] | Some b \<Rightarrow> [fb_bytes b]) \<rparr>)"

lemma link_step_sees:
  assumes "link_step nx e call (l, g) = (l', g')"
  shows "(\<exists>p. call = LProfile e p \<and> il_out e l' = il_out e l \<lparr> ld_profile := p \<rparr> \<and> g' = g) \<or> dir_sees nx (il_out e l, g) (il_out e l', g')"
proof (cases call)
  case (LOpen s)
  then show ?thesis using assms by (auto simp: ep_open_def intro: dir_sees.Same)
next
  case (LClose s)
  then show ?thesis using assms by (auto simp: ep_close_def intro: dir_sees.Same)
next
  case (LProfile s p)
  then show ?thesis using assms ends_cases [of s e] by (auto simp: il_setProfile_def intro: dir_sees.Same)
next
  case (LWrite s now frame)
  then show ?thesis
    using assms ends_cases [of s e]
    by (auto simp: ep_write_def split: prod.splits if_splits
        intro: dir_sees.Same dir_sees.Refused dir_sees.Write [where ok = True, simplified] dir_sees.Write [where ok = False, simplified])
next
  case (LRead s now)
  then show ?thesis
    using assms ends_cases [of s e]
    by (auto simp: ep_read_def split: prod.splits if_splits intro: dir_sees.Same dir_sees.Read [where fb = None, simplified] dir_sees.Read)
qed

lemma from_bytes: "length frame \<le> 512 \<Longrightarrow> fb_bytes (FrameBuffer_from frame) = frame"
  by (simp add: kFrameBufferCapacity_def)

definition queued :: "LinkDir \<Rightarrow> bytes list" where
  "queued d = map (\<lambda>x. fb_bytes (fst x)) (ld_queue d)"

definition link_safe :: "LinkDir \<times> link_log \<Rightarrow> bool" where
  "link_safe = (\<lambda>(d, g). unat (fp_mtu (ld_profile d)) \<le> 512 \<and> length (ld_queue d) \<le> kLinkCapacity \<and>
     set (lg_got g) \<union> set (queued d) \<subseteq> set (lg_sent g))"

definition link_fifo :: "LinkDir \<times> link_log \<Rightarrow> bool" where
  "link_fifo = (\<lambda>(d, g). unat (fp_mtu (ld_profile d)) \<le> 512 \<and> faultless (ld_profile d) \<and>
     ((\<forall>f \<in> set (lg_tried g). \<not> inproc_looksLikeEstop f) \<longrightarrow> lg_got g @ queued d = lg_sent g))"

lemma dir_read_queued: "dir_read now d = (fb, d') \<Longrightarrow> queued d = (case fb of None \<Rightarrow> [] | Some b \<Rightarrow> [fb_bytes b]) @ queued d'"
  using dir_read_queue(1) [of now d fb d', THEN arg_cong, of "map fb_bytes"] by (auto simp: queued_def comp_def split: option.splits)

lemma safe_step: "dir_sees nx s s' \<Longrightarrow> link_safe s \<Longrightarrow> link_safe s'"
proof (induction rule: dir_sees.induct)
  case (Write now frame d r ok d' r' g)
  note w = dir_write_queue [OF Write.hyps]
  have "ok \<Longrightarrow> fb_bytes (FrameBuffer_from frame) = frame" using w(4) Write.prems by (intro from_bytes) (auto simp: link_safe_def)
  moreover have "set (queued d') \<subseteq> set (queued d) \<union> (if ok then {fb_bytes (FrameBuffer_from frame)} else {})"
    using w(1) by (fastforce simp: queued_def split: if_splits)
  ultimately show ?case using Write.prems w(2,3) by (auto simp: link_safe_def split: if_splits)
next
  case (Read now d fb d' g)
  have "length (ld_queue d') \<le> length (ld_queue d)"
    using dir_read_queue(1) [OF Read.hyps, THEN arg_cong, of length] by (auto split: option.splits)
  then show ?case using Read.prems dir_read_queued [OF Read.hyps] dir_read_queue(2) [OF Read.hyps] by (auto simp: link_safe_def)
qed (auto simp: link_safe_def)

lemma fifo_step: "dir_sees nx s s' \<Longrightarrow> link_fifo s \<Longrightarrow> link_fifo s'"
proof (induction rule: dir_sees.induct)
  case (Write now frame d r ok d' r' g)
  note w = dir_write_queue [OF Write.hyps]
  have "ok \<Longrightarrow> fb_bytes (FrameBuffer_from frame) = frame" using w(4) Write.prems by (intro from_bytes) (auto simp: link_fifo_def)
  moreover have "\<not> inproc_looksLikeEstop frame \<Longrightarrow> queued d' = queued d @ (if ok then [fb_bytes (FrameBuffer_from frame)] else [])"
    using dir_write_faultless [OF Write.hyps] Write.prems by (auto simp: link_fifo_def queued_def)
  ultimately show ?case using Write.prems w(3) by (auto simp: link_fifo_def)
next
  case (Read now d fb d' g)
  then show ?case using dir_read_queued [OF Read.hyps] dir_read_queue(2) [OF Read.hyps] by (auto simp: link_fifo_def)
qed (auto simp: link_fifo_def)

lemma link_run_keeps:
  assumes "\<And>s s'. dir_sees nx s s' \<Longrightarrow> P s \<Longrightarrow> P s'" and "\<And>d g p. LProfile e p \<in> set calls \<Longrightarrow> P (d, g) \<Longrightarrow> P (d \<lparr> ld_profile := p \<rparr>, g)"
    and "P (il_out e l, g)" and "link_run nx e calls (l, g) = (l', g')"
  shows "P (il_out e l', g')"
  using assms(2-4)
proof (induction calls arbitrary: l g)
  case (Cons call calls)
  obtain l1 g1 where s: "link_step nx e call (l, g) = (l1, g1)" by (cases "link_step nx e call (l, g)")
  have "P (il_out e l1, g1)" using link_step_sees [OF s] assms(1) Cons.prems(1,2) by fastforce
  then show ?case using Cons.IH [of l1 g1] Cons.prems(1,3) s by (simp add: link_run_def)
qed (simp add: link_run_def)

lemma link_new: "il_out e (InProcessLink_new r) = LinkDir_new"
  by (cases e) (simp_all add: InProcessLink_new_def)

text \<open>(C24) A link delivers only what was written. Whatever faults are injected in either direction, by whatever random source, and whenever the
  profiles change (with packets of at most 512 bytes, the size of a frame buffer), every frame one end reads is a frame the other end
  wrote and had accepted, byte for byte, and no direction ever holds more than 16 frames.\<close>

theorem link_delivers_written:
  assumes "\<forall>p. LProfile e p \<in> set calls \<longrightarrow> unat (fp_mtu p) \<le> 512"
    and "link_run nx e calls (InProcessLink_new r, link_log_new) = (l, g)"
  shows "set (lg_got g) \<subseteq> set (lg_sent g) \<and> length (ld_queue (il_out e l)) \<le> 16"
proof -
  have "link_safe (il_out e l, g)"
  proof (rule link_run_keeps [where P = link_safe, OF _ _ _ assms(2)])
    show "link_safe s \<Longrightarrow> link_safe s'" if "dir_sees nx s s'" for s s' using that by (rule safe_step)
    show "link_safe (il_out e (InProcessLink_new r), link_log_new)"
      by (simp add: link_safe_def link_new LinkDir_new_def FaultProfile_new_def link_log_new_def queued_def)
  qed (use assms(1) in \<open>auto simp: link_safe_def queued_def\<close>)
  then show ?thesis by (simp add: link_safe_def)
qed

text \<open>(C25) Without faults the link is a queue. When the profiles in force for a direction inject no loss, duplication or reordering, whatever their
  latency and jitter, then the frames read, followed by those still queued, are exactly the frames accepted, in their order (no ESTOP among them,
  which overtakes).\<close>

theorem faultless_link_fifo:
  assumes "\<forall>p. LProfile e p \<in> set calls \<longrightarrow> unat (fp_mtu p) \<le> 512 \<and> faultless p"
    and "link_run nx e calls (InProcessLink_new r, link_log_new) = (l, g)" and "\<forall>f \<in> set (lg_tried g). \<not> inproc_looksLikeEstop f"
  shows "lg_got g @ map (\<lambda>x. fb_bytes (fst x)) (ld_queue (il_out e l)) = lg_sent g"
proof -
  have "link_fifo (il_out e l, g)"
  proof (rule link_run_keeps [where P = link_fifo, OF _ _ _ assms(2)])
    show "link_fifo s \<Longrightarrow> link_fifo s'" if "dir_sees nx s s'" for s s' using that by (rule fifo_step)
    show "link_fifo (il_out e (InProcessLink_new r), link_log_new)"
      by (simp add: link_fifo_def link_new LinkDir_new_def FaultProfile_new_def link_log_new_def queued_def faultless_def)
  qed (use assms(1) in \<open>auto simp: link_fifo_def queued_def\<close>)
  then show ?thesis using assms(3) by (simp add: link_fifo_def queued_def)
qed

text \<open>Frames with latency one way, total loss the other way, and a simple generator as the random source.\<close>

definition demo_calls :: "link_call list" where
  "demo_calls = [LOpen EndA, LOpen EndB, LProfile EndA (FaultProfile_new \<lparr> fp_latency_us := 10 \<rparr>), LProfile EndB (FaultProfile_new \<lparr> fp_loss_pct := 100 \<rparr>),
     LWrite EndA 5 [1, 2], LWrite EndA 6 [3], LWrite EndB 6 [9], LRead EndB 9, LRead EndB 15, LRead EndA 20]"

definition demo_next :: "u32 \<Rightarrow> u32 \<times> u32" where
  "demo_next r = (r, 5 * r + 3)"

lemma demo_run: "snd (link_run demo_next EndA demo_calls (InProcessLink_new 1, link_log_new)) =
    \<lparr> lg_tried = [[1, 2], [3]], lg_sent = [[1, 2], [3]], lg_got = [[1, 2]] \<rparr>"
  by code_simp

theorem link_delivers_written_witness:
  "\<exists>l g. link_run demo_next EndA demo_calls (InProcessLink_new 1, link_log_new) = (l, g) \<and> lg_got g = [[1, 2]] \<and> set (lg_got g) \<subseteq> set (lg_sent g)"
proof -
  obtain l g where r: "link_run demo_next EndA demo_calls (InProcessLink_new 1, link_log_new) = (l, g)" by fastforce
  have "\<forall>p. LProfile EndA p \<in> set demo_calls \<longrightarrow> unat (fp_mtu p) \<le> 512" by (auto simp: demo_calls_def FaultProfile_new_def)
  from link_delivers_written [OF this r] show ?thesis using r demo_run by auto
qed

theorem faultless_link_fifo_witness:
  "\<exists>l g. link_run demo_next EndA demo_calls (InProcessLink_new 1, link_log_new) = (l, g) \<and>
    map (\<lambda>x. fb_bytes (fst x)) (ld_queue (il_out EndA l)) = [[3]]"
proof -
  obtain l g where r: "link_run demo_next EndA demo_calls (InProcessLink_new 1, link_log_new) = (l, g)" by fastforce
  then have g: "g = \<lparr> lg_tried = [[1, 2], [3]], lg_sent = [[1, 2], [3]], lg_got = [[1, 2]] \<rparr>" using demo_run by simp
  have "\<forall>p. LProfile EndA p \<in> set demo_calls \<longrightarrow> unat (fp_mtu p) \<le> 512 \<and> faultless p"
    by (auto simp: demo_calls_def FaultProfile_new_def faultless_def)
  from faultless_link_fifo [OF this r] show ?thesis using r g by (auto simp: inproc_looksLikeEstop_def kEstopFrameBytes_def)
qed

section \<open>ESTOP overtakes\<close>

lemma estop_overtakes:
  assumes "il_isOpen e l" and "il_isOpen (other_end e) l" and "fp_loss_pct (ld_profile (il_out e l)) = 0"
    and "fp_jitter_us (ld_profile (il_out e l)) = 0" and "inproc_looksLikeEstop frame" and "ep_write nx e now frame l = (True, l')"
    and "timeReached now' (now + fp_latency_us (ld_profile (il_out e l)))"
  shows "\<exists>b. fst (ep_read (other_end e) now' l') = Some b \<and> fb_bytes b = frame"
proof -
  let ?p = "ld_profile (il_out e l)"
  obtain r1 where l: "roll nx (fp_loss_pct ?p) (il_rng l) = (False, r1)"
    using assms(3) roll_never [of nx "il_rng l"] by (metis (full_types) prod.collapse)
  have j: "rollJitter nx (fp_jitter_us ?p) r1 = (0, r1)" using assms(4) by (simp add: rollJitter_def)
  obtain t q d r where w: "dir_write nx now frame (il_out e l, il_rng l) = (True, d, r)" "l' = il_set_out e d l \<lparr> il_rng := r \<rparr>"
    using assms(1,6) by (auto simp: ep_write_def split: prod.splits)
  have "\<exists>q. ld_queue d = (FrameBuffer_from frame, now + fp_latency_us ?p) # q"
    using w(1) l j assms(5) by (auto simp: dir_write_def Let_def fq_push_front_def split: prod.splits if_splits)
  moreover have "il_isOpen (other_end e) l'" "il_out e l' = d" using assms(2) w(2) by (cases e; simp)+
  moreover have "fb_bytes (FrameBuffer_from frame) = frame"
    using assms(5) by (intro from_bytes) (simp add: inproc_looksLikeEstop_def kEstopFrameBytes_def)
  ultimately show ?thesis using assms(7) by (auto simp: ep_read_def dir_read_def fq_popFront_def)
qed

text \<open>A profile may admit packets larger than a frame buffer: they are accepted, and an empty frame is delivered in their place.\<close>

lemma oversize_delivered_empty:
  assumes "length frame > 512" and "length frame \<le> unat mtu"
  shows "\<exists>d r. dir_write nx now frame (LinkDir_new \<lparr> ld_profile := FaultProfile_new \<lparr> fp_mtu := mtu \<rparr> \<rparr>, r0) = (True, d, r) \<and>
    map (\<lambda>x. fb_bytes (fst x)) (ld_queue d) = [[]]"
proof -
  have "\<not> inproc_looksLikeEstop frame" using assms(1) by (simp add: inproc_looksLikeEstop_def kEstopFrameBytes_def)
  moreover obtain r1 r2 r3 where "roll nx 0 r0 = (False, r1)" "roll nx 0 r1 = (False, r2)" "roll nx 0 r2 = (False, r3)"
    using roll_never [of nx] by (metis (full_types) prod.collapse)
  ultimately show ?thesis
    using assms by (simp add: dir_write_def Let_def LinkDir_new_def FaultProfile_new_def rollJitter_def fq_push_back_def kFrameBufferCapacity_def)
qed

end
