(* ===== verification/Spec2Isabelle.thy ===== *)
theory Spec2Isabelle
  imports Serial_Arith Frame Crc32 Estop Cobs Raw_Frames Msg_Control Msg_Intent Msg_Grant Msg_Blob
    Fragmentation Channel_Tables Event_Rings Authority State_Shadow Ledger Catalog Stream_Bundle Blob_Chunks Hub_Properties
    Client_Sync Client_Properties Client_Estop Client_Catalog Catalog_Check Packed_Layout Inproc_Link
begin

text \<open>
  SlopSync is a C++20 library (\<^verbatim>\<open>src/lib/slopsync\<close>) for the synchronisation of a machine (the hub) with its
  remote controls (the clients) over lossy point-to-point links. A \<^emph>\<open>hub\<close> publishes retained STATE, takes INTENTs and STREAMs
  from sessions with a role, arbitrates who controls which motion source, and latches ESTOP; a \<^emph>\<open>client\<close> keeps a shadow of the
  state and sends intents. Frames carry CBOR messages or raw payloads. This development models the library as HOL functions
  over machine words and byte lists and proves what makes it correct. All paths below are relative to
  \<^verbatim>\<open>src/lib/slopsync/include/slopsync\<close>.

  \<^bold>\<open>Conventions.\<close> A \<^verbatim>\<open>std::uint8_t\<close> to \<^verbatim>\<open>uint64_t\<close> is a word of that width and wraps; a span is a byte
  list of fixed length; a float is its binary32 bit pattern, and the arithmetic the hub does on rates is the correctly rounded
  one of \<open>Binary32\<close>; a \<^verbatim>\<open>Result\<close> is a sum with the error on the left; an array of slots with a used flag is a list. Code
  that changes an object is a function from the old to the new one, or a command of the state monad where it threads a
  large object through many calls (hub, client). Virtual interfaces (transport, application delegate, random source, P-256) are
  parameters: the records \<open>HubEnv\<close> and \<open>ClientEnv\<close>. What C++ leaves undefined or would crash is visible: a null transport sets
  \<open>hb_fault\<close>, an undefined float conversion is the parameter \<open>env_floatUndef\<close>, a loop that may not end has the value \<open>None\<close>.

  \<^bold>\<open>Foundation.\<close>
  \<^item> \<open>Slop_Prelude\<close> (words, buffers, results), \<open>Serial_Arith\<close> (\<^verbatim>\<open>util/serial_arithmetic.hpp\<close>, \<^verbatim>\<open>core/clock.hpp\<close>): sequence
    numbers, deadlines, and that \<^verbatim>\<open>MonotonicMs\<close> counts true milliseconds across wraps of the microsecond clock.
  \<^item> \<open>Byte_IO\<close>, \<open>Frame\<close>, \<open>Crc32\<close>, \<open>Estop\<close>, \<open>Cobs\<close>, \<open>Raw_Frames\<close> (\<^verbatim>\<open>wire/*.hpp\<close>, \<^verbatim>\<open>wire/raw/*\<close>): layouts and their round trips,
    table CRC against the bitwise one, rejection of a corrupted ESTOP frame, COBS framing.
  \<^item> \<open>Cbor_Model\<close>, \<open>Cbor_Writer\<close>, \<open>Cbor_Reader\<close>, \<open>Cbor_Skip\<close> (\<^verbatim>\<open>wire/cbor/*\<close>): the writer and the pull reader against an abstract
    syntax \<open>cbor\<close> with its encoding \<open>enc\<close>. \<open>Cbor_Message\<close> holds the interface \<open>cbor_message\<close> that every message satisfies;
    \<open>Msg_Control\<close>, \<open>Msg_Intent\<close>, \<open>Msg_Trust\<close>, \<open>Msg_Wishes\<close>, \<open>Msg_Grant\<close>, \<open>Msg_Blob\<close> (\<^verbatim>\<open>wire/messages/*\<close>) interpret it: round trip,
    unknown keys ignored, decoders never exceed their arrays.
  \<^item> \<open>Fragmentation\<close>, \<open>Blob_Chunks\<close>, \<open>Stream_Bundle\<close> (\<^verbatim>\<open>wire/fragmentation.hpp\<close>, \<^verbatim>\<open>blob_chunks.hpp\<close>, \<^verbatim>\<open>stream_bundle.hpp\<close>):
    reassembly in any order of arrival of up to 32 fragments, bounds.
  \<^item> \<open>Crypto_Core\<close> (\<^verbatim>\<open>wire/sha256.hpp\<close>, \<^verbatim>\<open>hmac_sha256.hpp\<close>, \<^verbatim>\<open>core/rng.hpp\<close>): streaming SHA-256 equals the specification of
    the padded message, however the input is cut.

  \<^bold>\<open>Session objects.\<close>
  \<^item> \<open>Slot_Table\<close> is the interface of the slot arrays with used flags; \<open>Channel_Tables\<close> (\<^verbatim>\<open>channel/subscription.hpp\<close>,
    \<^verbatim>\<open>retained_store.hpp\<close>), \<open>Event_Rings\<close> (\<^verbatim>\<open>event_channel.hpp\<close>, \<^verbatim>\<open>intent_registry.hpp\<close>), \<open>Authority\<close> (\<^verbatim>\<open>session/safety.hpp\<close>,
    \<^verbatim>\<open>shedding.hpp\<close>), \<open>Pairing\<close> and \<open>Ledger\<close> (\<^verbatim>\<open>session/pairing.hpp\<close>) refine maps and queues; who may take over a source,
    where trust comes from, that a suspended device stays suspended through every call of the manager that does not reinstate it, what a reboot
    keeps. \<open>State_Shadow\<close> (\<^verbatim>\<open>channel/state_apply.hpp\<close>): the shadow converges.
  \<^item> \<open>Catalog\<close> (\<^verbatim>\<open>channel/catalog.hpp\<close>): authoring operations over shared pools refine a list of entries.
  \<^item> \<open>Catalog_Codec\<close> (\<^verbatim>\<open>wire/catalog_codec.hpp\<close>, \<^verbatim>\<open>catalog_etag.hpp\<close>): the encoder and the decoder of a catalog, key by key.
    \<open>Catalog_Decode\<close> runs the decoder over an encoded image; \<open>Catalog_Roundtrip\<close>: a catalog survives the wire, and its image and etag
    depend on its content only; \<open>Catalog_Safe\<close>: from any bytes the decoder makes a catalog within the capacities whose references
    all resolve, or none. A failed decode carries no catalog, since its callers must not read one.
  \<^item> \<open>Catalog_Builtin\<close> (\<^verbatim>\<open>channel/trust_channels.hpp\<close>, \<^verbatim>\<open>safety_events_channel.hpp\<close>, \<^verbatim>\<open>log_channel.hpp\<close>, \<^verbatim>\<open>conformance/mini_catalog.hpp\<close>): the
    channels the library declares itself; administration is reserved for the highest role; the fixture has the 775 bytes its conformance
    vector pins. \<open>Catalog_Check\<close> (\<^verbatim>\<open>conformance/catalog_check.hpp\<close>): a catalog with a clean report can be served.
  \<^item> \<open>Packed_Layout\<close> (\<^verbatim>\<open>wire/packed/layout_codec.hpp\<close>, \<^verbatim>\<open>session/static_profile.hpp\<close>): packed fields with exact binary32 rounding; decoding and
    encoding again reproduces a payload, and a prefix of a layout reads a payload that has grown.
  \<^item> \<open>Inproc_Link\<close> (\<^verbatim>\<open>transport/inprocess_binding.hpp\<close>): the link with injected faults delivers only what was written, and is a queue without faults.
  \<^item> \<open>Binary32\<close>, \<open>Rate_Limiter\<close> (\<^verbatim>\<open>channel/intent_registry.hpp\<close>): the float token bucket.

  \<^bold>\<open>The hub\<close> (\<^verbatim>\<open>hub/hub.hpp\<close>, \<^verbatim>\<open>hub/hub_impl.hpp\<close>, \<^verbatim>\<open>session/session.hpp\<close>).
  \<^item> Definitions: \<open>Hub_State\<close> (the records \<open>Hub\<close>, \<open>HubSlot\<close>, \<open>HubSession\<close>, the environment), \<open>Hub_Send\<close> (frames, events, the end of
    a session), \<open>Hub_Safety\<close>, \<open>Hub_Pairing\<close>, \<open>Hub_Session\<close> (HELLO, WELCOME, grants), \<open>Hub_Dispatch\<close> (INTENT, STREAM, blobs),
    \<open>Hub_Loop\<close> (pacing, timers, dispatcher, \<^verbatim>\<open>update\<close>, construction, application calls), one definition per method.
  \<^item> Proofs: \<open>Effects\<close> has two judgements on commands and a locale with their rules; \<open>Hub_Spine\<close> abstracts a hub to
    what arbitration and safety depend on, with \<open>hub_step\<close>, an inductive step relation on these spines; \<open>Hub_Calm\<close> and \<open>Hub_Steps\<close> show
    that every method is a sequence of such steps; \<open>Hub_Invariant\<close> proves the invariant by rule induction on the steps;
    \<open>Hub_Reach\<close> lifts it to every sequence of application calls, clock ticks and arriving frames (\<open>hub_reach\<close>). The application may publish
    on any channel and may leave any pairing manager of the right size in the hub (\<^verbatim>\<open>pairing()\<close> hands it out); the argument \<open>may\<close> of \<open>hub_call\<close> names
    these two kinds of calls, for the properties that need the application to abstain from some of them;
    \<open>Hub_Bench\<close> runs a concrete client through a concrete hub for the witnesses; \<open>Hub_Properties\<close> states the results: control is
    held by live sessions only, a silent session loses its sources, only an entitled intent releases ESTOP, the retained safety snapshot is current
    unless the application overwrites it, admission is bounded, \<^verbatim>\<open>update\<close> returns, no null transport is followed, every reachable hub is well formed.

  \<^bold>\<open>The client\<close> (\<^verbatim>\<open>client/client.hpp\<close>, \<^verbatim>\<open>client/client_impl.hpp\<close>).
  \<^item> Definitions: \<open>Client_State\<close> (the record \<open>Client\<close>, the environment), \<open>Client_Ops\<close> (every method: connection, dispatch, handlers,
    catalog transfer, intents, ESTOP repetition, pairing, hub authenticity, link probe, \<^verbatim>\<open>update\<close>).
  \<^item> Proofs: \<open>Client_Invariant\<close> has the core of a client its invariants speak of, and that every method moves it in one of a
    few ways; \<open>Client_Run\<close> lifts this to every sequence of calls and arriving frames (\<open>client_run\<close>); \<open>Client_Bench\<close> runs a concrete
    client for the witnesses; \<open>Client_Sync\<close> follows the frames that a connection handled (\<open>client_log\<close>), back to the WELCOME that opened
    its session; \<open>Client_Properties\<close> states the results: LIVE means synchronised since that WELCOME, no intent is forgotten, an impostor is never
    driven, a verified hub signed the nonce that this connection drew, \<^verbatim>\<open>update\<close> returns.
  \<^item> Composition with the hub: \<open>Client_Estop\<close> (the frame of a client latches the hub, whose next state frame ends the
    repetition; the repetition is bounded), \<open>Client_Catalog\<close> (the chunks the hub sends, in any order, make the client adopt the
    very catalog the hub encoded if it has at most 64 chunks, and are refused if it has more).

  \<^bold>\<open>Fuel and partiality.\<close> \<open>skipValue\<close> recurses at most \<^verbatim>\<open>kMaxDepth\<close>+1 deep, which the reader's depth test enforces.
  \<open>drainEvents\<close> gets one more than the number of queued events and pops one per round; \<open>signPendingNow\<close> is bounded by its
  argument. \<open>pumpSlot\<close> reads a transport until it is empty and is partial; it returns if the transports can deliver finitely
  many frames; the client's \<open>readFrames\<close> is the same. Drawing a non-zero id is partial too: with a source that returns zero forever
  the draw does not end, which is the fault \<open>EndlessDraw\<close> inside a handler and the value \<open>None\<close> of the \<^verbatim>\<open>update\<close> around it; it returns if the
  source is \<open>lively\<close>.

  \<^bold>\<open>Choices.\<close> The hub's catalog encoder is the field \<open>env_encodeCatalog\<close> of \<open>HubEnv\<close>, since nothing the hub does depends on the format; the
  encoder itself is \<open>Catalog_Codec\<close>. The jitter of the in-process link is computed modulo 2^32, where C++ leaves the overflow of a signed
  difference undefined for a jitter of 2^31 us or more. \<open>sha256_spec\<close> is a specification of padding, chunking and the key path, over the same compression function as
  the code.

  \<^bold>\<open>Not modelled.\<close> The P-256 operations behind the crypto interface and its scripted test double, callbacks of the application that call back
  into the hub or the client, constants of the generated registry that no modelled code uses, and the demonstrator \<^verbatim>\<open>src/hub/slopbench\<close>, which
  is network, terminal and configuration code around the library.
\<close>

end
